(* ===== verification/GoPrelude.thy ===== *)
theory GoPrelude imports Complex_Main "HOL-Library.Word" "HOL-Library.Monad_Syntax" "HOL-Library.Signed_Division" begin

text \<open>
  Shared vocabulary of the development: Go's machine types, slices and panics.

  A Go panic is the value \<^const>\<open>None\<close>, a normal return is \<^const>\<open>Some\<close>, and statements are
  sequenced with the option monad's \<^theory_text>\<open>do\<close> notation. A function that changes what
  it points to returns the new state. \<open>int\<close> values that the program uses as identifiers,
  offsets and counts are HOL integers; \<open>int32\<close>, \<open>int16\<close> and \<open>byte\<close> values are words, read
  as signed with \<^const>\<open>sint\<close>.
\<close>

unbundle bit_operations_syntax

section \<open>Machine types\<close>

type_synonym byte = "8 word"
type_synonym i16 = "16 word"
type_synonym i32 = "32 word"
type_synonym i64 = "64 word"

section \<open>Collections of facts\<close>

named_theorems go_panic \<open>equations that say when an operation panics or returns\<close>
named_theorems go_frame \<open>what an operation leaves unchanged\<close>
named_theorems go_inv \<open>preservation of invariants\<close>

section \<open>Panics\<close>

definition check :: "bool \<Rightarrow> unit option" where
  "check b = (if b then Some () else None)"

lemma check_simps [simp]: "check True = Some ()" "check False = None"
  by (simp_all add: check_def)

lemma check_eq_Some [simp]: "check b = Some u \<longleftrightarrow> b"
  by (simp add: check_def)

lemma bind_check [simp]: "Option.bind (check b) f = (if b then f () else None)"
  by (simp add: check_def)

lemma bind_Some_iff: "(Option.bind m f = Some y) = (\<exists>x. m = Some x \<and> f x = Some y)"
  by (cases m) auto

section \<open>Slices\<close>

text \<open>Reading and writing one element of a slice; an index out of range panics.\<close>

definition idx :: "'a list \<Rightarrow> int \<Rightarrow> 'a option" where
  "idx xs i = (if 0 \<le> i \<and> i < int (length xs) then Some (xs ! nat i) else None)"

definition put :: "'a list \<Rightarrow> int \<Rightarrow> 'a \<Rightarrow> 'a list option" where
  "put xs i v = (if 0 \<le> i \<and> i < int (length xs) then Some (xs[nat i := v]) else None)"

lemma idx_int [simp]: "idx xs (int n) = (if n < length xs then Some (xs ! n) else None)"
  by (simp add: idx_def)

lemma put_int [simp]: "put xs (int n) v = (if n < length xs then Some (xs[n := v]) else None)"
  by (simp add: put_def)

lemma idx_Some_iff: "idx xs i = Some x \<longleftrightarrow> 0 \<le> i \<and> i < int (length xs) \<and> x = xs ! nat i"
  by (auto simp: idx_def)

lemma put_Some_iff:
  "put xs i v = Some ys \<longleftrightarrow> 0 \<le> i \<and> i < int (length xs) \<and> ys = xs[nat i := v]"
  by (auto simp: put_def)

lemma length_put [go_frame]: "put xs i v = Some ys \<Longrightarrow> length ys = length xs"
  by (auto simp: put_Some_iff)

lemma idx_put:
  assumes "put xs i v = Some ys"
  shows "idx ys j = (if j = i then Some v else idx xs j)"
  using assms by (auto simp: put_Some_iff idx_def nth_list_update)

text \<open>The sub-slice \<open>b[lo:hi]\<close> and the slice \<open>b[lo:]\<close>, which panic on bad bounds.\<close>

definition slice :: "'a list \<Rightarrow> int \<Rightarrow> int \<Rightarrow> 'a list option" where
  "slice xs lo hi =
     (if 0 \<le> lo \<and> lo \<le> hi \<and> hi \<le> int (length xs)
      then Some (take (nat hi - nat lo) (drop (nat lo) xs)) else None)"

text \<open>The new slice of \<open>make\<close>, which panics for a negative length.\<close>

definition go_make :: "int \<Rightarrow> 'a \<Rightarrow> 'a list option" where
  "go_make n x = (if n < 0 then None else Some (replicate (nat n) x))"

text \<open>
  \<open>copy(dst[d:], src)\<close> copies as many elements as fit: the write through a sub-slice is a
  write into the underlying array.
\<close>

definition copy_into :: "'a list \<Rightarrow> nat \<Rightarrow> 'a list \<Rightarrow> 'a list" where
  "copy_into dst d src =
     take d dst @ take (length dst - d) src @ drop (d + length src) dst"

lemma length_copy_into [simp]:
  "d \<le> length dst \<Longrightarrow> length (copy_into dst d src) = length dst"
  by (simp add: copy_into_def min_def)

lemma nth_copy_into:
  assumes "i < length dst"
  shows "copy_into dst d src ! i =
    (if d \<le> i \<and> i < d + length src then src ! (i - d) else dst ! i)"
  using assms by (auto simp: copy_into_def nth_append min_def)

section \<open>Words and integers\<close>

lemma sint_word_of_int_eq:
  assumes "- (2 ^ (LENGTH('a) - 1)) \<le> k" "k < 2 ^ (LENGTH('a) - 1)"
  shows "sint (word_of_int k :: 'a::len word) = k"
proof -
  have "signed_take_bit (LENGTH('a) - 1) k = k"
    using assms by (simp add: signed_take_bit_int_eq_self_iff)
  then show ?thesis by (simp add: sint_sbintrunc')
qed

lemma sint32_of_int [simp]:
  "- (2 ^ 31) \<le> k \<Longrightarrow> k < 2 ^ 31 \<Longrightarrow> sint (word_of_int k :: i32) = k"
  by (rule sint_word_of_int_eq) simp_all

lemma sint_i32_bounds: "- (2 ^ 31) \<le> sint (w :: i32)" "sint (w :: i32) < 2 ^ 31"
  using sint_greater_eq [of w] sint_less [of w] by simp_all

lemma int_and_mask: "(a :: int) AND (2 ^ n - 1) = a mod 2 ^ n"
  by (simp add: take_bit_eq_mod [symmetric] take_bit_eq_mask mask_eq_exp_minus_1)

end
