(* ===== verification/BitUtil.thy ===== *)
theory BitUtil imports GoPrelude begin

text \<open>
  \<^verbatim>\<open>core/util/bit_util.go\<close>: little-endian reads and writes of byte slices, the split of an
  \<open>int64\<close> into two \<open>int32\<close>, and the printing and parsing of bit strings. The conversions of
  \<open>float32\<close>/\<open>float64\<close> to their bit patterns (\<open>ToFloat\<close>, \<open>FromFloat\<close>, \<open>ToDouble\<close>,
  \<open>FromDouble\<close>) are not modelled.
\<close>

section \<open>encoding/binary, little endian\<close>

definition le_Uint16 :: "byte list \<Rightarrow> 16 word option" where
  "le_Uint16 b = (if 2 \<le> length b
     then Some (ucast (b ! 0) OR push_bit 8 (ucast (b ! 1))) else None)"

definition le_PutUint16 :: "byte list \<Rightarrow> 16 word \<Rightarrow> byte list option" where
  "le_PutUint16 b v = (if 2 \<le> length b
     then Some (b[0 := ucast v, 1 := ucast (drop_bit 8 v)]) else None)"

definition le_Uint32 :: "byte list \<Rightarrow> 32 word option" where
  "le_Uint32 b = (if 4 \<le> length b
     then Some (ucast (b ! 0) OR push_bit 8 (ucast (b ! 1)) OR
                push_bit 16 (ucast (b ! 2)) OR push_bit 24 (ucast (b ! 3))) else None)"

definition le_PutUint32 :: "byte list \<Rightarrow> 32 word \<Rightarrow> byte list option" where
  "le_PutUint32 b v = (if 4 \<le> length b
     then Some (b[0 := ucast v, 1 := ucast (drop_bit 8 v), 2 := ucast (drop_bit 16 v),
                  3 := ucast (drop_bit 24 v)]) else None)"

definition le_Uint64 :: "byte list \<Rightarrow> 64 word option" where
  "le_Uint64 b = (if 8 \<le> length b
     then Some (ucast (b ! 0) OR push_bit 8 (ucast (b ! 1)) OR
                push_bit 16 (ucast (b ! 2)) OR push_bit 24 (ucast (b ! 3)) OR
                push_bit 32 (ucast (b ! 4)) OR push_bit 40 (ucast (b ! 5)) OR
                push_bit 48 (ucast (b ! 6)) OR push_bit 56 (ucast (b ! 7))) else None)"

definition le_PutUint64 :: "byte list \<Rightarrow> 64 word \<Rightarrow> byte list option" where
  "le_PutUint64 b v = (if 8 \<le> length b
     then Some (b[0 := ucast v, 1 := ucast (drop_bit 8 v), 2 := ucast (drop_bit 16 v),
                  3 := ucast (drop_bit 24 v), 4 := ucast (drop_bit 32 v),
                  5 := ucast (drop_bit 40 v), 6 := ucast (drop_bit 48 v),
                  7 := ucast (drop_bit 56 v)]) else None)"

text \<open>A write through the sub-slice \<open>b[off:]\<close> is a write into \<open>b\<close>.\<close>

definition via_slice ::
  "(byte list \<Rightarrow> byte list option) \<Rightarrow> byte list \<Rightarrow> int \<Rightarrow> byte list option" where
  "via_slice f b off = do {
     s \<leftarrow> slice b off (int (length b));
     s' \<leftarrow> f s;
     Some (take (nat off) b @ s') }"

section \<open>bitUtil\<close>

definition ToShort :: "byte list \<Rightarrow> int \<Rightarrow> i16 option" where
  "ToShort b offset = do { s \<leftarrow> slice b offset (int (length b)); le_Uint16 s }"

definition FromShort :: "byte list \<Rightarrow> i16 \<Rightarrow> int \<Rightarrow> byte list option" where
  "FromShort b v offset = via_slice (\<lambda>s. le_PutUint16 s v) b offset"

definition ToInt :: "byte list \<Rightarrow> int \<Rightarrow> i32 option" where
  "ToInt b offset = do { s \<leftarrow> slice b offset (int (length b)); le_Uint32 s }"

definition FromInt :: "byte list \<Rightarrow> i32 \<Rightarrow> int \<Rightarrow> byte list option" where
  "FromInt b v offset = via_slice (\<lambda>s. le_PutUint32 s v) b offset"

definition ToUInt3 :: "byte list \<Rightarrow> int \<Rightarrow> i32 option" where
  "ToUInt3 b offset = do {
     b2 \<leftarrow> idx b (offset + 2);
     b1 \<leftarrow> idx b (offset + 1);
     b0 \<leftarrow> idx b offset;
     Some (push_bit 16 (ucast b2) OR push_bit 8 (ucast b1) OR ucast b0) }"

definition FromUInt3 :: "byte list \<Rightarrow> i32 \<Rightarrow> int \<Rightarrow> byte list option" where
  "FromUInt3 b v offset = do {
     b \<leftarrow> put b (offset + 2) (ucast (signed_drop_bit 16 v));
     b \<leftarrow> put b (offset + 1) (ucast (signed_drop_bit 8 v));
     put b offset (ucast v) }"

definition ToLong :: "byte list \<Rightarrow> int \<Rightarrow> i64 option" where
  "ToLong b offset = do { s \<leftarrow> slice b offset (int (length b)); le_Uint64 s }"

definition FromLong :: "byte list \<Rightarrow> i64 \<Rightarrow> int \<Rightarrow> byte list option" where
  "FromLong b v offset = via_slice (\<lambda>s. le_PutUint64 s v) b offset"

definition ToLongFromInts :: "i32 \<Rightarrow> i32 \<Rightarrow> i64" where
  "ToLongFromInts low high = push_bit 32 (scast high) OR ucast low"

definition GetIntLow :: "i64 \<Rightarrow> i32" where
  "GetIntLow v = ucast v"

definition GetIntHigh :: "i64 \<Rightarrow> i32" where
  "GetIntHigh v = ucast (signed_drop_bit 32 v)"

definition ToSignedInt :: "i64 \<Rightarrow> i32" where
  "ToSignedInt x = ucast x"

text \<open>\<open>bits.Len\<close>: the number of bits of an unsigned value.\<close>

fun bits_Len :: "nat \<Rightarrow> nat" where
  "bits_Len n = (if n = 0 then 0 else Suc (bits_Len (n div 2)))"

declare bits_Len.simps [simp del]

definition CountBitValue :: "int \<Rightarrow> nat option" where
  "CountBitValue n = (if n < 0 then None else Some (bits_Len (nat n)))"

section \<open>Bit strings\<close>

fun bit_string_loop :: "nat \<Rightarrow> i64 \<Rightarrow> i64 \<Rightarrow> string" where
  "bit_string_loop 0 uv msk = []"
| "bit_string_loop (Suc n) uv msk =
     (if uv AND msk = 0 then CHR ''0'' else CHR ''1'') # bit_string_loop n (push_bit 1 uv) msk"

definition ToBitString :: "i64 \<Rightarrow> int \<Rightarrow> string option" where
  "ToBitString v nBits =
     (if nBits < 0 then None else Some (bit_string_loop (nat nBits) v (push_bit 63 1)))"

text \<open>\<open>uint(nBits-1)\<close> of \<open>nBits = 0\<close> is a shift by \<open>2^64-1\<close>, and no digit is then printed.\<close>

definition ToLastBitString :: "i64 \<Rightarrow> int \<Rightarrow> string option" where
  "ToLastBitString v nBits =
     (if nBits < 0 then None
      else Some (bit_string_loop (nat nBits) v (push_bit (nat ((nBits - 1) mod 2 ^ 64)) 1)))"

definition byte_bits :: "byte \<Rightarrow> string" where
  "byte_bits b = map (\<lambda>k. if b AND push_bit k 1 = 0 then CHR ''0'' else CHR ''1'')
     (rev [0..<8])"

definition ToBitStringBytes :: "byte list \<Rightarrow> string" where
  "ToBitStringBytes data = concat (map byte_bits (rev data))"

fun from_bits :: "string \<Rightarrow> nat \<Rightarrow> nat \<Rightarrow> byte \<Rightarrow> byte" where
  "from_bits str ci 0 v = v"
| "from_bits str ci (Suc k) v = from_bits str (Suc ci) k
     (push_bit 1 v OR (if ci < length str \<and> str ! ci \<noteq> CHR ''0'' then 1 else 0))"

fun from_bit_string_loop :: "string \<Rightarrow> nat \<Rightarrow> nat \<Rightarrow> byte list \<Rightarrow> byte list" where
  "from_bit_string_loop str 0 ci out = out"
| "from_bit_string_loop str (Suc b) ci out =
     from_bit_string_loop str b (ci + 8) (out[b := from_bits str ci 8 0])"

definition FromBitString :: "string \<Rightarrow> byte list" where
  "FromBitString str =
     (let bLen = (length str + 7) div 8
      in from_bit_string_loop str bLen 0 (replicate bLen 0))"

section \<open>Bytes of a word\<close>

lemma join16: "ucast (ucast v :: byte) OR push_bit 8 (ucast (ucast (drop_bit 8 v) :: byte)) = v"
  for v :: "16 word"
  by (rule bit_word_eqI) (auto simp: bit_simps)

lemma join32:
  "ucast (ucast v :: byte) OR push_bit 8 (ucast (ucast (drop_bit 8 v) :: byte)) OR
   push_bit 16 (ucast (ucast (drop_bit 16 v) :: byte)) OR
   push_bit 24 (ucast (ucast (drop_bit 24 v) :: byte)) = v" (is "?j = v")
  for v :: "32 word"
proof (rule bit_word_eqI)
  fix n assume "n < LENGTH(32)"
  then consider "n < 8" | "8 \<le> n" "n < 16" | "16 \<le> n" "n < 24" | "24 \<le> n" "n < 32"
    by fastforce
  then show "bit ?j n = bit v n"
    by cases (simp_all add: bit_simps not_le less_diff_conv2)
qed

lemma join64:
  "ucast (ucast v :: byte) OR push_bit 8 (ucast (ucast (drop_bit 8 v) :: byte)) OR
   push_bit 16 (ucast (ucast (drop_bit 16 v) :: byte)) OR
   push_bit 24 (ucast (ucast (drop_bit 24 v) :: byte)) OR
   push_bit 32 (ucast (ucast (drop_bit 32 v) :: byte)) OR
   push_bit 40 (ucast (ucast (drop_bit 40 v) :: byte)) OR
   push_bit 48 (ucast (ucast (drop_bit 48 v) :: byte)) OR
   push_bit 56 (ucast (ucast (drop_bit 56 v) :: byte)) = v" (is "?j = v")
  for v :: "64 word"
proof (rule bit_word_eqI)
  fix n assume "n < LENGTH(64)"
  then consider "n < 8" | "8 \<le> n" "n < 16" | "16 \<le> n" "n < 24" | "24 \<le> n" "n < 32"
    | "32 \<le> n" "n < 40" | "40 \<le> n" "n < 48" | "48 \<le> n" "n < 56" | "56 \<le> n" "n < 64"
    by fastforce
  then show "bit ?j n = bit v n"
    by cases (simp_all add: bit_simps not_le less_diff_conv2)
qed

section \<open>Reads after writes\<close>

lemma via_slice_Some:
  assumes "via_slice f b off = Some b'"
  obtains s' where "0 \<le> off" "off \<le> int (length b)" "f (drop (nat off) b) = Some s'"
    "b' = take (nat off) b @ s'"
  using assms by (auto simp: via_slice_def slice_def bind_Some_iff split: if_splits)

lemma slice_tail:
  "0 \<le> off \<Longrightarrow> off \<le> int (length b) \<Longrightarrow> hi = off + int (length s) \<Longrightarrow>
   slice (take (nat off) b @ s) off hi = Some s"
  by (auto simp: slice_def)

lemma ToInt_FromInt:
  assumes "FromInt b v off = Some b'"
  shows "ToInt b' off = Some v"
proof -
  obtain s' where s': "0 \<le> off" "off \<le> int (length b)"
    "le_PutUint32 (drop (nat off) b) v = Some s'" "b' = take (nat off) b @ s'"
    using assms by (auto simp: FromInt_def elim: via_slice_Some)
  then show ?thesis
    by (auto simp: ToInt_def le_PutUint32_def le_Uint32_def slice_tail join32 split: if_splits)
qed

lemma ToShort_FromShort:
  assumes "FromShort b v off = Some b'"
  shows "ToShort b' off = Some v"
proof -
  obtain s' where s': "0 \<le> off" "off \<le> int (length b)"
    "le_PutUint16 (drop (nat off) b) v = Some s'" "b' = take (nat off) b @ s'"
    using assms by (auto simp: FromShort_def elim: via_slice_Some)
  then show ?thesis
    by (auto simp: ToShort_def le_PutUint16_def le_Uint16_def slice_tail join16 split: if_splits)
qed

lemma ToLong_FromLong:
  assumes "FromLong b v off = Some b'"
  shows "ToLong b' off = Some v"
proof -
  obtain s' where s': "0 \<le> off" "off \<le> int (length b)"
    "le_PutUint64 (drop (nat off) b) v = Some s'" "b' = take (nat off) b @ s'"
    using assms by (auto simp: FromLong_def elim: via_slice_Some)
  then show ?thesis
    by (auto simp: ToLong_def le_PutUint64_def le_Uint64_def slice_tail join64 split: if_splits)
qed

lemma signed_drop_bits_byte:
  "ucast (signed_drop_bit 16 v) = (ucast (drop_bit 16 v) :: byte)"
  "ucast (signed_drop_bit 8 v) = (ucast (drop_bit 8 v) :: byte)"
  for v :: i32
  by (rule bit_word_eqI; auto simp: bit_simps)+

lemma ToUInt3_FromUInt3:
  assumes "FromUInt3 b v off = Some b'"
  shows "ToUInt3 b' off = Some (v AND 0xFFFFFF)"
proof -
  have "push_bit 16 (ucast (ucast (drop_bit 16 v) :: byte)) OR
    push_bit 8 (ucast (ucast (drop_bit 8 v) :: byte)) OR ucast (ucast v :: byte)
    = v AND mask 24" (is "?j = ?m")
  proof (rule bit_word_eqI)
    fix n assume "n < LENGTH(32)"
    then consider "n < 8" | "8 \<le> n" "n < 16" | "16 \<le> n" "n < 24" | "24 \<le> n" "n < 32"
      by fastforce
    then show "bit ?j n = bit ?m n"
      by cases (simp_all add: bit_simps not_le less_diff_conv2)
  qed
  moreover have "mask 24 = (0xFFFFFF :: i32)" by (simp add: mask_eq_exp_minus_1)
  ultimately show ?thesis
    using assms
    by (auto simp: FromUInt3_def ToUInt3_def bind_Some_iff put_Some_iff idx_def
        signed_drop_bits_byte nth_list_update)
qed

lemma ToLongFromInts_parts: "ToLongFromInts (GetIntLow v) (GetIntHigh v) = v"
  unfolding ToLongFromInts_def GetIntLow_def GetIntHigh_def
  by (rule bit_word_eqI) (auto simp: bit_simps)

section \<open>bits.Len\<close>

lemma bits_Len_bounds: "n < 2 ^ bits_Len n \<and> (0 < n \<longrightarrow> 2 ^ (bits_Len n - 1) \<le> n)"
proof (induction n rule: bits_Len.induct)
  case (1 n)
  show ?case
  proof (cases "n = 0")
    case True
    then show ?thesis by (simp add: bits_Len.simps)
  next
    case False
    have IH: "n div 2 < 2 ^ bits_Len (n div 2)"
      "0 < n div 2 \<longrightarrow> 2 ^ (bits_Len (n div 2) - 1) \<le> n div 2"
      using "1.IH" False by auto
    have L: "bits_Len n = Suc (bits_Len (n div 2))"
      using False by (simp add: bits_Len.simps [of n])
    show ?thesis
    proof (cases "n div 2 = 0")
      case True
      then have "n = 1" using False by auto
      then show ?thesis by (simp add: bits_Len.simps)
    next
      case nz: False
      obtain m where m: "bits_Len (n div 2) = Suc m"
        using nz by (subst (asm) (1) bits_Len.simps [of "n div 2"] | simp add: bits_Len.simps [of "n div 2"])+
      show ?thesis using IH nz by (simp add: L m) linarith
    qed
  qed
qed

section \<open>Bit strings\<close>

lemma length_byte_bits [simp]: "length (byte_bits b) = 8"
  by (simp add: byte_bits_def)

lemma length_ToBitStringBytes: "length (ToBitStringBytes data) = 8 * length data"
  by (induction data) (simp_all add: ToBitStringBytes_def)

lemma nth_concat_blocks:
  assumes "\<And>x. length (f x) = n" "k < length xs" "j < n"
  shows "concat (map f xs) ! (n * k + j) = f (xs ! k) ! j"
  using assms(2)
proof (induction xs arbitrary: k)
  case (Cons x xs)
  show ?case
  proof (cases k)
    case 0
    then show ?thesis using assms by (simp add: nth_append)
  next
    case (Suc k')
    then show ?thesis using Cons assms(1) by (simp add: nth_append algebra_simps)
  qed
qed simp

lemma nth_byte_bits:
  assumes "j < 8"
  shows "byte_bits b ! j = (if bit b (7 - j) then CHR ''1'' else CHR ''0'')"
proof -
  have "(b AND push_bit k 1 = 0) = (\<not> bit b k)" if "k < 8" for k
    using that by (simp only: push_bit_of_1 and_exp_eq_0_iff_not_bit)
  moreover have "rev [0..<8] ! j = 7 - j" using assms by (simp add: rev_nth)
  ultimately show ?thesis using assms by (simp add: byte_bits_def)
qed

lemma bit_from_bits:
  assumes "n < 8"
  shows "bit (from_bits str ci k v) n =
    (if n < k then ci + (k - 1 - n) < length str \<and> str ! (ci + (k - 1 - n)) \<noteq> CHR ''0''
     else bit v (n - k))"
  using assms
proof (induction k arbitrary: ci v)
  case (Suc k)
  define d :: byte where "d = (if ci < length str \<and> str ! ci \<noteq> CHR ''0'' then 1 else 0)"
  have step: "bit (push_bit 1 v OR d) m = (if m = 0 then d = 1 else bit v (m - 1))"
    if "m < 8" for m
  proof -
    have "bit (push_bit 1 v) m = (1 \<le> m \<and> bit v (m - 1))"
      using that by (simp only: bit_push_bit_iff) simp
    moreover have "bit d m = (m = 0 \<and> d = 1)" by (auto simp: d_def bit_simps)
    ultimately show ?thesis by (simp only: bit_or_iff) auto
  qed
  have d1: "d = 1 \<longleftrightarrow> ci < length str \<and> str ! ci \<noteq> CHR ''0''" by (simp add: d_def)
  have IH: "bit (from_bits str (Suc ci) k w) n =
    (if n < k then Suc ci + (k - 1 - n) < length str \<and> str ! (Suc ci + (k - 1 - n)) \<noteq> CHR ''0''
     else bit w (n - k))" for w
    using Suc by blast
  have Suc_ci: "n < k \<Longrightarrow> Suc ci + (k - 1 - n) = ci + (Suc k - 1 - n)" by simp
  have "from_bits str ci (Suc k) v = from_bits str (Suc ci) k (push_bit 1 v OR d)"
    unfolding d_def by (rule from_bits.simps)
  then have "bit (from_bits str ci (Suc k) v) n =
    (if n < k then Suc ci + (k - 1 - n) < length str \<and> str ! (Suc ci + (k - 1 - n)) \<noteq> CHR ''0''
     else if n = k then d = 1 else bit v (n - k - 1))"
    using Suc.prems by (simp only: IH step less_imp_diff_less) auto
  then show ?case
    using Suc.prems Suc_ci by (auto simp: d1 not_less less_Suc_eq simp del: from_bits.simps)
qed simp

lemma from_bits_byte:
  assumes "\<And>j. j < 8 \<Longrightarrow> str ! (ci + j) = byte_bits b ! j" "ci + 8 \<le> length str"
  shows "from_bits str ci 8 0 = b"
proof (rule bit_word_eqI)
  fix n assume "n < LENGTH(8)"
  then show "bit (from_bits str ci 8 0) n = bit b n"
    using assms(1) [of "7 - n"] assms(2) by (auto simp: bit_from_bits nth_byte_bits)
qed

lemma from_bit_string_loop_bytes:
  assumes "b \<le> length data" "length out = length data"
  shows "from_bit_string_loop (ToBitStringBytes data) b (8 * (length data - b)) out
    = take b data @ drop b out"
  using assms
proof (induction b arbitrary: out)
  case (Suc b)
  let ?n = "length data"
  have "from_bits (ToBitStringBytes data) (8 * (?n - Suc b)) 8 0 = data ! b"
  proof (rule from_bits_byte)
    fix j :: nat assume "j < 8"
    then have "ToBitStringBytes data ! (8 * (?n - Suc b) + j) = byte_bits (rev data ! (?n - Suc b)) ! j"
      unfolding ToBitStringBytes_def using Suc.prems by (intro nth_concat_blocks) auto
    then show "ToBitStringBytes data ! (8 * (?n - Suc b) + j) = byte_bits (data ! b) ! j"
      using Suc.prems by (simp add: rev_nth)
  next
    show "8 * (?n - Suc b) + 8 \<le> length (ToBitStringBytes data)"
      using Suc.prems by (simp add: length_ToBitStringBytes)
  qed
  moreover have "8 * (?n - Suc b) + 8 = 8 * (?n - b)" using Suc.prems by simp
  moreover have "take b data @ data ! b # drop (Suc b) out = take (Suc b) data @ drop (Suc b) out"
    using Suc.prems by (simp add: take_Suc_conv_app_nth)
  moreover have "drop b (out[b := x]) = x # drop (Suc b) out" for x
    using Suc.prems by (simp add: Cons_nth_drop_Suc [symmetric] drop_update_cancel)
  ultimately show ?case
    using Suc.IH [of "out[b := data ! b]"] Suc.prems by simp
qed simp

lemma FromBitString_ToBitStringBytes: "FromBitString (ToBitStringBytes data) = data"
  using from_bit_string_loop_bytes [of "length data" data "replicate (length data) 0"]
  by (simp add: FromBitString_def length_ToBitStringBytes)

end
