(* ===== verification/DataAccess.thy ===== *)
theory DataAccess imports BitUtil begin

text \<open>
  \<^verbatim>\<open>core/storage\<close>: what the two implementations of \<open>DataAccess\<close> share
  (\<open>dataAccessBase\<close> of \<open>ram_data_access.go\<close>), the types of a data access (\<open>da_type.go\<close>) and the
  contract of the interface \<open>data_access.go\<close>: a data access is a memory of bytes that grows,
  and that is read and written as little-endian integers.
\<close>

section \<open>dataAccessBase\<close>

definition segmentSizeMin :: int where "segmentSizeMin = 2 ^ 7"
definition segmentSizeDefault :: int where "segmentSizeDefault = 2 ^ 20"
definition headerOffset :: int where "headerOffset = 20 * 4 + 20"
definition headerCount :: nat where "headerCount = nat ((headerOffset - 20) div 4)"

record da_base =
  da_name :: string
  da_location :: string
  da_header :: "i32 list"
  segmentSizeInBytes :: int
  segmentSizePower :: int
  indexDivisor :: int
  da_closed :: bool

definition fullName :: "'a da_base_scheme \<Rightarrow> string" where
  "fullName b = da_location b @ da_name b"

text \<open>\<open>bits.TrailingZeros\<close>, 64 for zero.\<close>

fun trailing_zeros :: "nat \<Rightarrow> nat" where
  "trailing_zeros n = (if n = 0 then 64 else if odd n then 0 else Suc (trailing_zeros (n div 2)))"

declare trailing_zeros.simps [simp del]

definition setSegmentSize :: "'a da_base_scheme \<Rightarrow> int \<Rightarrow> 'a da_base_scheme" where
  "setSegmentSize b size' =
     (let b = (if size' > 0
        then b\<lparr>segmentSizeInBytes := max (2 ^ (bits_Len (nat size') - 1)) segmentSizeMin\<rparr> else b)
      in b\<lparr>segmentSizePower := int (trailing_zeros (nat (segmentSizeInBytes b))),
           indexDivisor := segmentSizeInBytes b - 1\<rparr>)"

definition newDataAccessBase :: "string \<Rightarrow> string \<Rightarrow> int \<Rightarrow> da_base option" where
  "newDataAccessBase name location segmentSize = do {
     check (\<not> (location \<noteq> [] \<and> last location \<noteq> CHR ''/''));
     let segmentSize = (if segmentSize < 0 then segmentSizeDefault else segmentSize);
     Some (setSegmentSize \<lparr>da_name = name, da_location = location,
       da_header = replicate headerCount 0, segmentSizeInBytes = 0, segmentSizePower = 0,
       indexDivisor = 0, da_closed = False\<rparr> segmentSize) }"

text \<open>The segment and the position in it: \<open>int(uint64(pos) >> power)\<close> and \<open>int(pos) & divisor\<close>.\<close>

definition seg_of :: "int \<Rightarrow> int \<Rightarrow> int" where
  "seg_of pow2 pos = drop_bit (nat pow2) (if pos < 0 then pos + 2 ^ 64 else pos)"

definition seg_idx :: "int \<Rightarrow> int \<Rightarrow> int" where
  "seg_idx divisor pos = pos AND divisor"

definition da_SetHeader :: "int \<Rightarrow> i32 \<Rightarrow> 'a da_base_scheme \<Rightarrow> 'a da_base_scheme option" where
  "da_SetHeader bytePos value b = do {
     h \<leftarrow> put (da_header b) (drop_bit 2 bytePos) value;
     Some (b\<lparr>da_header := h\<rparr>) }"

definition da_GetHeader :: "int \<Rightarrow> 'a da_base_scheme \<Rightarrow> i32 option" where
  "da_GetHeader bytePos b = idx (da_header b) (drop_bit 2 bytePos)"

subsection \<open>Files\<close>

text \<open>
  A file system gives the content of each file. The calls of package \<open>os\<close> are taken to succeed:
  a read fills the buffer unless the file ends.
\<close>

type_synonym file_system = "string \<Rightarrow> byte list option"

definition be_bytes32 :: "i32 \<Rightarrow> byte list" where
  "be_bytes32 v = [ucast (drop_bit 24 v), ucast (drop_bit 16 v), ucast (drop_bit 8 v), ucast v]"

definition be_bytes64 :: "i64 \<Rightarrow> byte list" where
  "be_bytes64 v = [ucast (drop_bit 56 v), ucast (drop_bit 48 v), ucast (drop_bit 40 v),
     ucast (drop_bit 32 v), ucast (drop_bit 24 v), ucast (drop_bit 16 v), ucast (drop_bit 8 v),
     ucast v]"

definition be_Uint16 :: "byte list \<Rightarrow> 16 word" where
  "be_Uint16 b = push_bit 8 (ucast (b ! 0)) OR ucast (b ! 1)"

definition be_Uint32 :: "byte list \<Rightarrow> i32" where
  "be_Uint32 b = push_bit 24 (ucast (b ! 0)) OR push_bit 16 (ucast (b ! 1)) OR
     push_bit 8 (ucast (b ! 2)) OR ucast (b ! 3)"

definition be_Uint64 :: "byte list \<Rightarrow> i64" where
  "be_Uint64 b = push_bit 56 (ucast (b ! 0)) OR push_bit 48 (ucast (b ! 1)) OR
     push_bit 40 (ucast (b ! 2)) OR push_bit 32 (ucast (b ! 3)) OR push_bit 24 (ucast (b ! 4)) OR
     push_bit 16 (ucast (b ! 5)) OR push_bit 8 (ucast (b ! 6)) OR ucast (b ! 7)"

text \<open>The \<open>headerOffset\<close> bytes that \<open>writeHeader\<close> puts at the start of the file.\<close>

definition writeHeader :: "'a da_base_scheme \<Rightarrow> int \<Rightarrow> int \<Rightarrow> byte list" where
  "writeHeader b len segmentSize =
     [0, 2, 71, 72] @ be_bytes64 (word_of_int len) @ be_bytes32 (word_of_int segmentSize) @
     concat (map be_bytes32 (take headerCount (da_header b))) @
     replicate (nat headerOffset - 16 - 4 * headerCount) 0"

text \<open>The error of a file with another marker makes the caller panic.\<close>

definition readHeader :: "'a da_base_scheme \<Rightarrow> byte list \<Rightarrow> (int \<times> 'a da_base_scheme) option" where
  "readHeader b file =
     (if file = [] then Some (- 1, b)
      else do {
        let buf = take (nat headerOffset) (file @ replicate (nat headerOffset) 0);
        let utfLen = be_Uint16 buf;
        marker \<leftarrow> slice buf 2 (uint (2 + utfLen));
        check (marker = [71, 72]);
        let byteCount = sint (be_Uint64 (drop 4 buf));
        let b = setSegmentSize b (uint (be_Uint32 (drop 12 buf)));
        let b = b\<lparr>da_header := map (\<lambda>i. be_Uint32 (drop (16 + i * 4) buf)) [0..<headerCount]\<rparr>;
        Some (byteCount, b) })"

section \<open>DAType\<close>

datatype mem_ref = MemRefHeap | MemRefMMap

record da_type =
  memRef :: mem_ref
  Storing :: bool
  Integ :: bool
  AllowWrites :: bool

definition DATypeRAM :: da_type where "DATypeRAM = \<lparr>memRef = MemRefHeap, Storing = False, Integ = False, AllowWrites = True\<rparr>"
definition DATypeRAMInt :: da_type where "DATypeRAMInt = \<lparr>memRef = MemRefHeap, Storing = False, Integ = True, AllowWrites = True\<rparr>"
definition DATypeRAMStore :: da_type where "DATypeRAMStore = \<lparr>memRef = MemRefHeap, Storing = True, Integ = False, AllowWrites = True\<rparr>"
definition DATypeRAMIntStore :: da_type where "DATypeRAMIntStore = \<lparr>memRef = MemRefHeap, Storing = True, Integ = True, AllowWrites = True\<rparr>"
definition DATypeMMAP :: da_type where "DATypeMMAP = \<lparr>memRef = MemRefMMap, Storing = True, Integ = False, AllowWrites = True\<rparr>"
definition DATypeMMapRO :: da_type where "DATypeMMapRO = \<lparr>memRef = MemRefMMap, Storing = True, Integ = False, AllowWrites = False\<rparr>"

definition IsInMemory :: "da_type \<Rightarrow> bool" where "IsInMemory d \<longleftrightarrow> memRef d = MemRefHeap"
definition IsMMap :: "da_type \<Rightarrow> bool" where "IsMMap d \<longleftrightarrow> memRef d = MemRefMMap"

text \<open>Upper case of a string; the configuration values are ASCII.\<close>

definition to_upper :: "char \<Rightarrow> char" where
  "to_upper c = (if 97 \<le> (of_char c :: nat) \<and> (of_char c :: nat) \<le> 122
     then char_of (of_char c - 32 :: nat) else c)"

fun contains_string :: "string \<Rightarrow> string \<Rightarrow> bool" where
  "contains_string [] p = (p = [])"
| "contains_string (c # cs) p = (take (length p) (c # cs) = p \<or> contains_string cs p)"

definition DATypeFromString :: "string \<Rightarrow> da_type option" where
  "DATypeFromString s0 =
     (let s = map to_upper s0 in
      if contains_string s ''SYNC'' then None
      else if contains_string s ''MMAP_RO'' then Some DATypeMMapRO
      else if contains_string s ''MMAP'' then Some DATypeMMAP
      else if contains_string s ''UNSAFE'' then None
      else if s = ''RAM'' then Some DATypeRAM
      else Some DATypeRAMStore)"

definition DAType_String :: "da_type \<Rightarrow> string" where
  "DAType_String d =
     (if memRef d = MemRefMMap then ''MMAP'' else ''RAM'') @
     (if Integ d then ''_INT'' else []) @ (if Storing d then ''_STORE'' else [])"

definition DAType_Equals :: "da_type \<Rightarrow> da_type \<Rightarrow> bool" where
  "DAType_Equals d other \<longleftrightarrow>
     memRef d = memRef other \<and> Storing d = Storing other \<and> Integ d = Integ other"

section \<open>The memory of a data access\<close>

type_synonym memory = "int \<Rightarrow> byte"

definition upd :: "memory \<Rightarrow> int \<Rightarrow> byte list \<Rightarrow> memory" where
  "upd m p bs = (\<lambda>q. if p \<le> q \<and> q < p + int (length bs) then bs ! nat (q - p) else m q)"

definition bytes32 :: "i32 \<Rightarrow> byte list" where
  "bytes32 v = [ucast v, ucast (drop_bit 8 v), ucast (drop_bit 16 v), ucast (drop_bit 24 v)]"

definition bytes16 :: "i16 \<Rightarrow> byte list" where
  "bytes16 v = [ucast v, ucast (drop_bit 8 v)]"

definition word32 :: "byte \<Rightarrow> byte \<Rightarrow> byte \<Rightarrow> byte \<Rightarrow> i32" where
  "word32 b0 b1 b2 b3 =
     ucast b0 OR push_bit 8 (ucast b1) OR push_bit 16 (ucast b2) OR push_bit 24 (ucast b3)"

definition word16 :: "byte \<Rightarrow> byte \<Rightarrow> i16" where
  "word16 b0 b1 = ucast b0 OR push_bit 8 (ucast b1)"

definition mem32 :: "memory \<Rightarrow> int \<Rightarrow> i32" where
  "mem32 m p = word32 (m p) (m (p + 1)) (m (p + 2)) (m (p + 3))"

definition mem16 :: "memory \<Rightarrow> int \<Rightarrow> i16" where
  "mem16 m p = word16 (m p) (m (p + 1))"

lemma length_bytes [simp]: "length (bytes32 v) = 4" "length (bytes16 w) = 2"
  by (simp_all add: bytes32_def bytes16_def)

lemma mem32_upd [simp]: "mem32 (upd m p (bytes32 v)) p = v"
  by (simp add: mem32_def upd_def bytes32_def word32_def numeral_2_eq_2 numeral_3_eq_3 join32)

lemma mem16_upd [simp]: "mem16 (upd m p (bytes16 v)) p = v"
  by (simp add: mem16_def upd_def bytes16_def word16_def join16)

lemma mem8_upd [simp]: "upd m p [v] p = v"
  by (simp add: upd_def)

lemma upd_frame: "q < p \<or> p + int (length bs) \<le> q \<Longrightarrow> upd m p bs q = m q"
  by (auto simp: upd_def)

lemma mem32_frame: "q + 4 \<le> p \<or> p + int (length bs) \<le> q \<Longrightarrow> mem32 (upd m p bs) q = mem32 m q"
  by (auto simp: mem32_def upd_frame)

lemma mem16_frame: "q + 2 \<le> p \<or> p + int (length bs) \<le> q \<Longrightarrow> mem16 (upd m p bs) q = mem16 m q"
  by (auto simp: mem16_def upd_frame)

lemma upd_upd_append: "upd (upd m p xs) (p + int (length xs)) ys = upd m p (xs @ ys)"
proof (rule ext)
  fix q
  have "nat (q - (p + int (length xs))) = nat (q - p) - length xs" by linarith
  then show "upd (upd m p xs) (p + int (length xs)) ys q = upd m p (xs @ ys) q"
    by (auto simp: upd_def nth_append)
qed

section \<open>The header of a file\<close>

lemma be_Uint32_bytes [simp]: "be_Uint32 (be_bytes32 v @ zs) = v"
  using join32 [of v] by (simp add: be_Uint32_def be_bytes32_def or.commute or.left_commute)

lemma be_Uint64_bytes [simp]: "be_Uint64 (be_bytes64 v @ zs) = v"
  using join64 [of v] by (simp add: be_Uint64_def be_bytes64_def or.commute or.left_commute)

lemma length_be_bytes [simp]: "length (be_bytes32 v) = 4" "length (be_bytes64 w) = 8"
  by (simp_all add: be_bytes32_def be_bytes64_def)

lemma length_concat_be [simp]: "length (concat (map be_bytes32 xs)) = 4 * length xs"
  by (induction xs) simp_all

lemma drop_concat_be:
  "i \<le> length xs \<Longrightarrow> drop (4 * i) (concat (map be_bytes32 xs)) = concat (map be_bytes32 (drop i xs))"
proof (induction i arbitrary: xs)
  case (Suc i)
  then obtain x ys where xs: "xs = x # ys" by (cases xs) auto
  then show ?case using Suc by (simp add: add.commute)
qed simp

lemma be_header_entry:
  assumes "i < length xs"
  shows "be_Uint32 (drop (4 * i) (concat (map be_bytes32 xs) @ zs)) = xs ! i"
proof -
  have "drop i xs = xs ! i # drop (Suc i) xs" using assms by (simp add: Cons_nth_drop_Suc)
  then show ?thesis using assms by (simp add: drop_concat_be)
qed

lemma header_consts: "headerOffset = 100" "headerCount = 20"
  by (simp_all add: headerOffset_def headerCount_def)

lemma length_writeHeader: "length (da_header b) = headerCount \<Longrightarrow> length (writeHeader b len z) = 100"
  by (simp add: writeHeader_def header_consts)

lemma bits_Len_power: "bits_Len (2 ^ k) = Suc k"
proof (induction k)
  case (Suc k)
  have "bits_Len (2 ^ Suc k) = Suc (bits_Len (2 ^ k))"
    by (subst bits_Len.simps) simp
  then show ?case using Suc by simp
qed (simp add: bits_Len.simps)

lemma trailing_zeros_power: "trailing_zeros (2 ^ k) = k"
proof (induction k)
  case (Suc k)
  have "trailing_zeros (2 ^ Suc k) = Suc (trailing_zeros (2 ^ k))"
    by (subst trailing_zeros.simps) simp
  then show ?case using Suc by simp
qed (simp add: trailing_zeros.simps)

lemma setSegmentSize_power:
  assumes "7 \<le> k"
  shows "setSegmentSize b (2 ^ k) =
    b\<lparr>segmentSizeInBytes := 2 ^ k, segmentSizePower := int k, indexDivisor := 2 ^ k - 1\<rparr>"
proof -
  have "max (2 ^ k) segmentSizeMin = 2 ^ k"
    using power_increasing [OF assms, of "2::int"] by (simp add: segmentSizeMin_def)
  then show ?thesis
    by (simp add: setSegmentSize_def Let_def nat_power_eq bits_Len_power trailing_zeros_power)
qed

text \<open>Reading the header that was written gives its entries back.\<close>

lemma readHeader_writeHeader:
  assumes h: "length (da_header b) = headerCount" and k: "7 \<le> k" "k < 32"
    and len: "- (2 ^ 63) \<le> len" "len < 2 ^ 63"
  shows "readHeader b0 (writeHeader b len (2 ^ k) @ body) =
    Some (len, (setSegmentSize b0 (2 ^ k))\<lparr>da_header := da_header b\<rparr>)"
proof -
  let ?w = "writeHeader b len (2 ^ k)"
  have l: "length ?w = 100" by (rule length_writeHeader [OF h])
  have buf: "take (nat headerOffset) ((?w @ body) @ replicate (nat headerOffset) 0) = ?w"
    using l by (simp add: header_consts)
  have ne: "?w @ body \<noteq> []" using l by auto
  have w: "?w = [0, 2, 71, 72] @ be_bytes64 (word_of_int len) @ be_bytes32 (word_of_int (2 ^ k)) @
     concat (map be_bytes32 (da_header b)) @ replicate 4 0"
    using h by (simp add: writeHeader_def header_consts)
  have m1: "be_Uint16 ?w = 2" by (simp add: w be_Uint16_def)
  have u: "uint (2 + be_Uint16 ?w) = 4" by (simp add: m1)
  have "slice ?w 2 4 = Some (take 2 (drop 2 ?w))" using l by (simp add: slice_def)
  also have "take 2 (drop 2 ?w) = [71, 72]" by (simp add: w)
  finally have m: "slice ?w 2 (uint (2 + be_Uint16 ?w)) = Some [71, 72]" by (simp only: u)
  have n: "sint (be_Uint64 (drop 4 ?w)) = len"
    using len by (simp add: w sint_word_of_int_eq)
  have z: "uint (be_Uint32 (drop 12 ?w)) = 2 ^ k"
  proof -
    have "drop 12 ?w = be_bytes32 (word_of_int (2 ^ k)) @ concat (map be_bytes32 (da_header b)) @ replicate 4 0"
      by (simp add: w)
    moreover have "(2::int) ^ k < 2 ^ 32" using k(2) by (rule power_strict_increasing) simp
    then have "uint (word_of_int (2 ^ k) :: i32) = 2 ^ k"
      by (simp only: uint_word_of_int) (simp add: take_bit_int_eq_self)
    ultimately show ?thesis by (simp only: be_Uint32_bytes)
  qed
  have "drop 16 ?w = concat (map be_bytes32 (da_header b)) @ replicate 4 0" by (simp add: w)
  then have "be_Uint32 (drop (16 + i * 4) ?w) = da_header b ! i" if "i < headerCount" for i
    using be_header_entry [of i "da_header b" "replicate 4 0"] that h
    by (metis add.commute drop_drop mult.commute)
  then have hd: "map (\<lambda>i. be_Uint32 (drop (16 + i * 4) ?w)) [0..<headerCount] = da_header b"
    using h by (intro nth_equalityI) simp_all
  show ?thesis
    unfolding readHeader_def Let_def buf if_not_P [OF ne] m n z hd by simp
qed

section \<open>The contract\<close>

text \<open>
  The operations that the storage classes call. \<open>cap\<close> is the capacity in bytes, \<open>mem\<close> the content,
  zero outside the capacity, and \<open>supp da w p\<close> says that an access of \<open>w\<close> bytes at \<open>p\<close> is supported:
  the int based implementation reads whole, aligned integers only.
\<close>

locale data_access_contract =
  fixes GetInt :: "int \<Rightarrow> 'd \<Rightarrow> i32 option"
    and SetInt :: "int \<Rightarrow> i32 \<Rightarrow> 'd \<Rightarrow> 'd option"
    and GetShort :: "int \<Rightarrow> 'd \<Rightarrow> i16 option"
    and SetShort :: "int \<Rightarrow> i16 \<Rightarrow> 'd \<Rightarrow> 'd option"
    and GetByte :: "int \<Rightarrow> 'd \<Rightarrow> byte option"
    and SetByte :: "int \<Rightarrow> byte \<Rightarrow> 'd \<Rightarrow> 'd option"
    and EnsureCapacity :: "int \<Rightarrow> 'd \<Rightarrow> (bool \<times> 'd) option"
    and inv :: "'d \<Rightarrow> bool" and cap :: "'d \<Rightarrow> int" and mem :: "'d \<Rightarrow> memory"
    and supp :: "'d \<Rightarrow> nat \<Rightarrow> int \<Rightarrow> bool"
  assumes GetInt_law: "inv d \<Longrightarrow> 0 \<le> p \<Longrightarrow> p + 4 \<le> cap d \<Longrightarrow> supp d 4 p \<Longrightarrow>
      GetInt p d = Some (mem32 (mem d) p)"
    and SetInt_law: "inv d \<Longrightarrow> 0 \<le> p \<Longrightarrow> p + 4 \<le> cap d \<Longrightarrow> supp d 4 p \<Longrightarrow>
      \<exists>d'. SetInt p v d = Some d' \<and> inv d' \<and> cap d' = cap d \<and> supp d' = supp d \<and>
        mem d' = upd (mem d) p (bytes32 v)"
    and GetShort_law: "inv d \<Longrightarrow> 0 \<le> p \<Longrightarrow> p + 2 \<le> cap d \<Longrightarrow> supp d 2 p \<Longrightarrow>
      GetShort p d = Some (mem16 (mem d) p)"
    and SetShort_law: "inv d \<Longrightarrow> 0 \<le> p \<Longrightarrow> p + 2 \<le> cap d \<Longrightarrow> supp d 2 p \<Longrightarrow>
      \<exists>d'. SetShort p w d = Some d' \<and> inv d' \<and> cap d' = cap d \<and> supp d' = supp d \<and>
        mem d' = upd (mem d) p (bytes16 w)"
    and GetByte_law: "inv d \<Longrightarrow> 0 \<le> p \<Longrightarrow> p < cap d \<Longrightarrow> supp d 1 p \<Longrightarrow>
      GetByte p d = Some (mem d p)"
    and SetByte_law: "inv d \<Longrightarrow> 0 \<le> p \<Longrightarrow> p < cap d \<Longrightarrow> supp d 1 p \<Longrightarrow>
      \<exists>d'. SetByte p b d = Some d' \<and> inv d' \<and> cap d' = cap d \<and> supp d' = supp d \<and>
        mem d' = upd (mem d) p [b]"
    and Ensure_law: "inv d \<Longrightarrow> 0 \<le> n \<Longrightarrow>
      \<exists>g d'. EnsureCapacity n d = Some (g, d') \<and> inv d' \<and> cap d \<le> cap d' \<and> n \<le> cap d' \<and>
        supp d' = supp d \<and> mem d' = mem d"
begin

text \<open>An access of \<open>w\<close> bytes at \<open>p\<close> that succeeds.\<close>

definition acc :: "'d \<Rightarrow> nat \<Rightarrow> int \<Rightarrow> bool" where
  "acc d w p \<longleftrightarrow> inv d \<and> 0 \<le> p \<and> p + int w \<le> cap d \<and> supp d w p"

lemma get_int: "acc d 4 p \<Longrightarrow> GetInt p d = Some (mem32 (mem d) p)"
  by (simp add: acc_def GetInt_law)

lemma get_short: "acc d 2 p \<Longrightarrow> GetShort p d = Some (mem16 (mem d) p)"
  by (simp add: acc_def GetShort_law)

lemma get_byte: "acc d 1 p \<Longrightarrow> GetByte p d = Some (mem d p)"
  by (simp add: acc_def GetByte_law)

lemma set_int:
  assumes "acc d 4 p"
  obtains d' where "SetInt p v d = Some d'" "mem d' = upd (mem d) p (bytes32 v)"
    "acc d' = acc d" "cap d' = cap d" "inv d'" "supp d' = supp d"
  using assms SetInt_law [of d p v] by (fastforce simp: acc_def [abs_def])

lemma set_short:
  assumes "acc d 2 p"
  obtains d' where "SetShort p v d = Some d'" "mem d' = upd (mem d) p (bytes16 v)"
    "acc d' = acc d" "cap d' = cap d" "inv d'" "supp d' = supp d"
  using assms SetShort_law [of d p v] by (fastforce simp: acc_def [abs_def])

lemma set_byte:
  assumes "acc d 1 p"
  obtains d' where "SetByte p v d = Some d'" "mem d' = upd (mem d) p [v]"
    "acc d' = acc d" "cap d' = cap d" "inv d'" "supp d' = supp d"
  using assms SetByte_law [of d p v] by (fastforce simp: acc_def [abs_def])

lemma ensure:
  assumes "inv d" "0 \<le> n"
  obtains g d' where "EnsureCapacity n d = Some (g, d')" "mem d' = mem d"
    "cap d \<le> cap d'" "n \<le> cap d'" "inv d'" "supp d' = supp d"
    "\<And>w p. acc d w p \<Longrightarrow> acc d' w p"
  using Ensure_law [OF assms] by (fastforce simp: acc_def)

text \<open>Reads after writes.\<close>

lemma get_set_int:
  assumes "acc d 4 p" "SetInt p v d = Some d'"
  shows "GetInt p d' = Some v"
proof -
  obtain d'' where "SetInt p v d = Some d''" "mem d'' = upd (mem d) p (bytes32 v)" "acc d'' = acc d"
    by (rule set_int [OF assms(1)])
  then show ?thesis using assms by (simp add: get_int)
qed

lemma get_set_int_frame:
  assumes "acc d 4 p" "SetInt p v d = Some d'" "acc d 4 q" "q + 4 \<le> p \<or> p + 4 \<le> q"
  shows "GetInt q d' = GetInt q d"
proof -
  obtain d'' where "SetInt p v d = Some d''" "mem d'' = upd (mem d) p (bytes32 v)" "acc d'' = acc d"
    by (rule set_int [OF assms(1)])
  then show ?thesis using assms by (simp add: get_int mem32_frame)
qed

end

end
