(* ===== verification/RamDataAccess.thy ===== *)
theory RamDataAccess imports DataAccess begin

text \<open>
  \<^verbatim>\<open>core/storage/ram_data_access.go\<close>: bytes in segments of a power of two. An integer that
  crosses a segment boundary is split into its bytes. The interpretation at the end shows that the
  segments behave as one flat memory.
\<close>

section \<open>The code\<close>

record ram_da = da_base +
  ram_segments :: "byte list list"
  ram_store :: bool

definition NewRAMDataAccess :: "string \<Rightarrow> string \<Rightarrow> bool \<Rightarrow> int \<Rightarrow> ram_da option" where
  "NewRAMDataAccess name location store segmentSize = do {
     b \<leftarrow> newDataAccessBase name location segmentSize;
     Some (da_base.extend b \<lparr>ram_segments = [], ram_store = store\<rparr>) }"

definition ram_Capacity :: "ram_da \<Rightarrow> int" where
  "ram_Capacity r = int (length (ram_segments r)) * segmentSizeInBytes r"

text \<open>The number of segments that hold \<open>need\<close> bytes; dividing by zero panics.\<close>

definition segments_for :: "int \<Rightarrow> int \<Rightarrow> int option" where
  "segments_for need seg_size = do {
     check (seg_size \<noteq> 0);
     Some (if need smod seg_size \<noteq> 0 then need sdiv seg_size + 1 else need sdiv seg_size) }"

definition ram_EnsureCapacity :: "int \<Rightarrow> ram_da \<Rightarrow> (bool \<times> ram_da) option" where
  "ram_EnsureCapacity bytes r = do {
     check (\<not> bytes < 0);
     let need = bytes - ram_Capacity r;
     if need \<le> 0 then Some (False, r)
     else do {
       n \<leftarrow> segments_for need (segmentSizeInBytes r);
       Some (True, r\<lparr>ram_segments := ram_segments r @
         replicate (nat n) (replicate (nat (segmentSizeInBytes r)) 0)\<rparr>)
     } }"

definition ram_Create :: "int \<Rightarrow> ram_da \<Rightarrow> ram_da option" where
  "ram_Create bytes r = do {
     check (\<not> length (ram_segments r) > 0);
     (g, r) \<leftarrow> ram_EnsureCapacity (max 40 bytes) r;
     Some r }"

text \<open>A write into one segment, and into two of them.\<close>

definition on_segment :: "(byte list \<Rightarrow> byte list option) \<Rightarrow> int \<Rightarrow> ram_da \<Rightarrow> ram_da option" where
  "on_segment f seg r = do {
     b \<leftarrow> idx (ram_segments r) seg;
     b \<leftarrow> f b;
     segs \<leftarrow> put (ram_segments r) seg b;
     Some (r\<lparr>ram_segments := segs\<rparr>) }"

definition ram_SetInt :: "int \<Rightarrow> i32 \<Rightarrow> ram_da \<Rightarrow> ram_da option" where
  "ram_SetInt bytePos value r = do {
     let seg = seg_of (segmentSizePower r) bytePos;
     let i = seg_idx (indexDivisor r) bytePos;
     if i + 3 \<ge> segmentSizeInBytes r then
       (if i + 1 \<ge> segmentSizeInBytes r then do {
          r \<leftarrow> on_segment (\<lambda>b2. FromUInt3 b2 (signed_drop_bit 8 value) 0) (seg + 1) r;
          on_segment (\<lambda>b1. put b1 i (ucast value)) seg r }
        else if i + 2 \<ge> segmentSizeInBytes r then do {
          r \<leftarrow> on_segment (\<lambda>b2. FromShort b2 (ucast (signed_drop_bit 16 value)) 0) (seg + 1) r;
          on_segment (\<lambda>b1. FromShort b1 (ucast value) i) seg r }
        else do {
          r \<leftarrow> on_segment (\<lambda>b2. put b2 0 (ucast (signed_drop_bit 24 value))) (seg + 1) r;
          on_segment (\<lambda>b1. FromUInt3 b1 value i) seg r })
     else on_segment (\<lambda>b. via_slice (\<lambda>s. le_PutUint32 s value) b i) seg r }"

definition ram_GetInt :: "int \<Rightarrow> ram_da \<Rightarrow> i32 option" where
  "ram_GetInt bytePos r = do {
     let seg = seg_of (segmentSizePower r) bytePos;
     let i = seg_idx (indexDivisor r) bytePos;
     if i + 3 \<ge> segmentSizeInBytes r then do {
       b1 \<leftarrow> idx (ram_segments r) seg;
       b2 \<leftarrow> idx (ram_segments r) (seg + 1);
       if i + 1 \<ge> segmentSizeInBytes r then do {
         x3 \<leftarrow> idx b2 2; x2 \<leftarrow> idx b2 1; x1 \<leftarrow> idx b2 0; x0 \<leftarrow> idx b1 i;
         Some (push_bit 24 (ucast x3) OR push_bit 16 (ucast x2) OR push_bit 8 (ucast x1) OR ucast x0) }
       else if i + 2 \<ge> segmentSizeInBytes r then do {
         x3 \<leftarrow> idx b2 1; x2 \<leftarrow> idx b2 0; x1 \<leftarrow> idx b1 (i + 1); x0 \<leftarrow> idx b1 i;
         Some (push_bit 24 (ucast x3) OR push_bit 16 (ucast x2) OR push_bit 8 (ucast x1) OR ucast x0) }
       else do {
         x3 \<leftarrow> idx b2 0; x2 \<leftarrow> idx b1 (i + 2); x1 \<leftarrow> idx b1 (i + 1); x0 \<leftarrow> idx b1 i;
         Some (push_bit 24 (ucast x3) OR push_bit 16 (ucast x2) OR push_bit 8 (ucast x1) OR ucast x0) }
     } else do {
       b \<leftarrow> idx (ram_segments r) seg;
       s \<leftarrow> slice b i (int (length b));
       le_Uint32 s } }"

definition ram_SetShort :: "int \<Rightarrow> i16 \<Rightarrow> ram_da \<Rightarrow> ram_da option" where
  "ram_SetShort bytePos value r = do {
     let seg = seg_of (segmentSizePower r) bytePos;
     let i = seg_idx (indexDivisor r) bytePos;
     if i + 1 \<ge> segmentSizeInBytes r then do {
       r \<leftarrow> on_segment (\<lambda>b. put b i (ucast value)) seg r;
       on_segment (\<lambda>b. put b 0 (ucast (signed_drop_bit 8 value))) (seg + 1) r }
     else on_segment (\<lambda>b. via_slice (\<lambda>s. le_PutUint16 s value) b i) seg r }"

definition ram_GetShort :: "int \<Rightarrow> ram_da \<Rightarrow> i16 option" where
  "ram_GetShort bytePos r = do {
     let seg = seg_of (segmentSizePower r) bytePos;
     let i = seg_idx (indexDivisor r) bytePos;
     if i + 1 \<ge> segmentSizeInBytes r then do {
       b2 \<leftarrow> idx (ram_segments r) (seg + 1); x1 \<leftarrow> idx b2 0;
       b1 \<leftarrow> idx (ram_segments r) seg; x0 \<leftarrow> idx b1 i;
       Some (push_bit 8 (ucast x1) OR ucast x0) }
     else do {
       b \<leftarrow> idx (ram_segments r) seg;
       s \<leftarrow> slice b i (int (length b));
       le_Uint16 s } }"

text \<open>\<open>copy(dst, src)\<close> into the rest of a segment copies what fits.\<close>

definition copy_at :: "int \<Rightarrow> byte list \<Rightarrow> byte list \<Rightarrow> byte list option" where
  "copy_at i src b = via_slice (\<lambda>s. Some (copy_into s 0 src)) b i"

definition ram_SetBytes :: "int \<Rightarrow> byte list \<Rightarrow> int \<Rightarrow> ram_da \<Rightarrow> ram_da option" where
  "ram_SetBytes bytePos values' len r = do {
     let seg = seg_of (segmentSizePower r) bytePos;
     let i = seg_idx (indexDivisor r) bytePos;
     let overflow = i + len - segmentSizeInBytes r;
     if overflow > 0 then do {
       let first = len - overflow;
       src1 \<leftarrow> slice values' 0 first;
       r \<leftarrow> on_segment (copy_at i src1) seg r;
       src2 \<leftarrow> slice values' first len;
       on_segment (copy_at 0 src2) (seg + 1) r }
     else do {
       src \<leftarrow> slice values' 0 len;
       on_segment (copy_at i src) seg r } }"

text \<open>The buffer is returned with the bytes that were copied into it.\<close>

definition ram_GetBytes :: "int \<Rightarrow> byte list \<Rightarrow> int \<Rightarrow> ram_da \<Rightarrow> byte list option" where
  "ram_GetBytes bytePos values' len r = do {
     let seg = seg_of (segmentSizePower r) bytePos;
     let i = seg_idx (indexDivisor r) bytePos;
     let overflow = i + len - segmentSizeInBytes r;
     b \<leftarrow> idx (ram_segments r) seg;
     src1 \<leftarrow> slice b i (int (length b));
     if overflow > 0 then do {
       let first = len - overflow;
       dst1 \<leftarrow> slice values' 0 first;
       src2 \<leftarrow> idx (ram_segments r) (seg + 1);
       dst2 \<leftarrow> slice values' first len;
       Some (copy_into dst1 0 src1 @ copy_into dst2 0 src2 @ drop (nat len) values') }
     else do {
       dst \<leftarrow> slice values' 0 len;
       Some (copy_into dst 0 src1 @ drop (nat len) values') } }"

definition ram_SetByte :: "int \<Rightarrow> byte \<Rightarrow> ram_da \<Rightarrow> ram_da option" where
  "ram_SetByte bytePos value r =
     on_segment (\<lambda>b. put b (seg_idx (indexDivisor r) bytePos) value) (seg_of (segmentSizePower r) bytePos) r"

definition ram_GetByte :: "int \<Rightarrow> ram_da \<Rightarrow> byte option" where
  "ram_GetByte bytePos r = do {
     b \<leftarrow> idx (ram_segments r) (seg_of (segmentSizePower r) bytePos);
     idx b (seg_idx (indexDivisor r) bytePos) }"

definition ram_Close :: "ram_da \<Rightarrow> ram_da" where
  "ram_Close r = r\<lparr>ram_segments := [], da_closed := True\<rparr>"

definition ram_Type :: "ram_da \<Rightarrow> da_type" where
  "ram_Type r = (if ram_store r then DATypeRAMStore else DATypeRAM)"

subsection \<open>Persistence\<close>

definition ram_Flush :: "ram_da \<Rightarrow> file_system \<Rightarrow> file_system option" where
  "ram_Flush r fs = do {
     check (\<not> da_closed r);
     if \<not> ram_store r then Some fs
     else Some (fs(fullName r \<mapsto>
       writeHeader r (ram_Capacity r) (segmentSizeInBytes r) @ concat (ram_segments r))) }"

text \<open>Each read fills one segment; the end of the file before it panics.\<close>

fun read_segments :: "nat \<Rightarrow> nat \<Rightarrow> byte list \<Rightarrow> byte list list option" where
  "read_segments 0 seg_size file = Some []"
| "read_segments (Suc n) seg_size file =
     (if take seg_size file = [] then None
      else do {
        segs \<leftarrow> read_segments n seg_size (drop seg_size file);
        Some ((take seg_size file @ replicate (seg_size - length file) 0) # segs) })"

definition ram_LoadExisting :: "file_system \<Rightarrow> ram_da \<Rightarrow> (bool \<times> ram_da) option" where
  "ram_LoadExisting fs r = do {
     check (\<not> length (ram_segments r) > 0);
     check (\<not> da_closed r);
     if \<not> ram_store r then Some (False, r)
     else case fs (fullName r) of
       None \<Rightarrow> Some (False, r)
     | Some file \<Rightarrow>
         if file = [] then Some (False, r)
         else do {
           (byteCount, r) \<leftarrow> readHeader r file;
           let byteCount = byteCount - headerOffset;
           if byteCount < 0 then Some (False, r)
           else do {
             n \<leftarrow> segments_for byteCount (segmentSizeInBytes r);
             segs \<leftarrow> read_segments (nat n) (nat (segmentSizeInBytes r)) (drop (nat headerOffset) file);
             Some (True, r\<lparr>ram_segments := segs\<rparr>) } } }"

section \<open>The segments as a flat memory\<close>

definition ram_inv :: "ram_da \<Rightarrow> bool" where
  "ram_inv r \<longleftrightarrow> (\<exists>k. 7 \<le> k \<and> segmentSizeInBytes r = 2 ^ k \<and> segmentSizePower r = int k \<and>
     indexDivisor r = 2 ^ k - 1 \<and> (\<forall>s \<in> set (ram_segments r). length s = 2 ^ k))"

definition ram_mem :: "ram_da \<Rightarrow> memory" where
  "ram_mem r = (\<lambda>p. if 0 \<le> p \<and> p < ram_Capacity r
     then ram_segments r ! nat (p div segmentSizeInBytes r) ! nat (p mod segmentSizeInBytes r) else 0)"

lemma ge_length: "n \<le> length xs \<Longrightarrow> \<exists>ys zs. xs = ys @ zs \<and> length ys = n"
  by (metis append_take_drop_id length_take min.absorb2)

lemma drop_ge: "k + n \<le> length b \<Longrightarrow> \<exists>ys zs. drop k b = ys @ zs \<and> length ys = n"
  by (rule ge_length) simp

lemma drop_plus: "drop (k + n) b = drop n (drop k b)"
  by (simp add: add.commute)

lemma via_slice_put32:
  "via_slice (\<lambda>s. le_PutUint32 s v) b off =
    (if 0 \<le> off \<and> off + 4 \<le> int (length b) then Some (copy_into b (nat off) (bytes32 v)) else None)"
proof (cases "0 \<le> off \<and> off + 4 \<le> int (length b)")
  case True
  then have l: "nat off + 4 \<le> length b" by linarith
  then obtain w x y z zs where d: "drop (nat off) b = w # x # y # z # zs"
    using drop_ge [of "nat off" 4 b] by (auto simp: eval_nat_numeral length_Suc_conv)
  then have "drop (nat off + 4) b = zs"
    by (simp add: drop_plus d)
  then have "(drop (nat off) b)[0 := ucast v, 1 := ucast (drop_bit 8 v), 2 := ucast (drop_bit 16 v),
      3 := ucast (drop_bit 24 v)] = bytes32 v @ drop (nat off + 4) b"
    by (simp add: d bytes32_def numeral_2_eq_2 numeral_3_eq_3)
  then show ?thesis using True l
    by (auto simp: via_slice_def slice_def le_PutUint32_def copy_into_def)
qed (auto simp: via_slice_def slice_def le_PutUint32_def)

lemma via_slice_put16:
  "via_slice (\<lambda>s. le_PutUint16 s v) b off =
    (if 0 \<le> off \<and> off + 2 \<le> int (length b) then Some (copy_into b (nat off) (bytes16 v)) else None)"
proof (cases "0 \<le> off \<and> off + 2 \<le> int (length b)")
  case True
  then have l: "nat off + 2 \<le> length b" by linarith
  then obtain y z zs where d: "drop (nat off) b = y # z # zs"
    using drop_ge [of "nat off" 2 b] by (auto simp: numeral_2_eq_2 length_Suc_conv)
  then have "drop (nat off + 2) b = zs"
    by (simp add: drop_plus d del: add_2_eq_Suc')
  then have "(drop (nat off) b)[0 := ucast v, 1 := ucast (drop_bit 8 v)] = bytes16 v @ drop (nat off + 2) b"
    by (simp add: d bytes16_def)
  then show ?thesis using True l
    by (auto simp: via_slice_def slice_def le_PutUint16_def copy_into_def)
qed (auto simp: via_slice_def slice_def le_PutUint16_def)

lemma put_copy:
  "put b i x = (if 0 \<le> i \<and> i < int (length b) then Some (copy_into b (nat i) [x]) else None)"
proof (cases "0 \<le> i \<and> i < int (length b)")
  case True
  then have "b[nat i := x] = copy_into b (nat i) [x]"
    by (intro nth_equalityI) (auto simp: nth_copy_into nth_list_update)
  then show ?thesis using True by (simp add: put_def)
qed (auto simp: put_def)

definition bytes24 :: "i32 \<Rightarrow> byte list" where
  "bytes24 v = [ucast v, ucast (drop_bit 8 v), ucast (drop_bit 16 v)]"

lemma FromUInt3_copy:
  "FromUInt3 b v off =
    (if 0 \<le> off \<and> off + 3 \<le> int (length b) then Some (copy_into b (nat off) (bytes24 v)) else None)"
proof (cases "0 \<le> off \<and> off + 3 \<le> int (length b)")
  case True
  then have n: "nat (off + 2) = nat off + 2" "nat (off + 1) = nat off + 1" "nat off + 2 < length b" by auto
  have "b[nat off + 2 := ucast (drop_bit 16 v), nat off + 1 := ucast (drop_bit 8 v), nat off := ucast v]
    = copy_into b (nat off) (bytes24 v)"
    using n(3)
    by (intro nth_equalityI)
      (auto simp: nth_copy_into bytes24_def nth_list_update nth_Cons' numeral_2_eq_2)
  then show ?thesis using True n
    by (simp add: FromUInt3_def put_def signed_drop_bits_byte)
qed (auto simp: FromUInt3_def put_def)

lemma seg_of_nat: "0 \<le> p \<Longrightarrow> seg_of (int k) p = p div 2 ^ k"
  by (simp add: seg_of_def drop_bit_eq_div)

lemma seg_idx_mask: "seg_idx (2 ^ k - 1) p = p mod 2 ^ k"
  by (simp add: seg_idx_def int_and_mask)

lemma upd_join:
  assumes "q = p + int (length xs)"
  shows "upd (upd m q ys) p xs = upd m p (xs @ ys)"
proof (rule ext)
  fix a
  have "nat (a - q) = nat (a - p) - length xs" using assms by linarith
  then show "upd (upd m q ys) p xs a = upd m p (xs @ ys) a"
    using assms by (auto simp: upd_def nth_append)
qed

text \<open>A write of \<open>bs\<close> at position \<open>i\<close> of a segment is a write into the flat memory.\<close>

definition same_shape :: "ram_da \<Rightarrow> ram_da \<Rightarrow> bool" where
  "same_shape r r' \<longleftrightarrow> r' = r\<lparr>ram_segments := ram_segments r'\<rparr> \<and>
     map length (ram_segments r') = map length (ram_segments r)"

lemma same_shape_D:
  assumes "same_shape r r'"
  shows "segmentSizeInBytes r' = segmentSizeInBytes r" "segmentSizePower r' = segmentSizePower r"
    "indexDivisor r' = indexDivisor r" "length (ram_segments r') = length (ram_segments r)"
    "ram_Capacity r' = ram_Capacity r" "ram_inv r' = ram_inv r"
proof -
  have r: "r' = r\<lparr>ram_segments := ram_segments r'\<rparr>" using assms by (simp add: same_shape_def)
  have s: "segmentSizeInBytes r' = segmentSizeInBytes r" "segmentSizePower r' = segmentSizePower r"
    "indexDivisor r' = indexDivisor r"
    using arg_cong [OF r, of segmentSizeInBytes] arg_cong [OF r, of segmentSizePower]
      arg_cong [OF r, of indexDivisor] by simp_all
  have l: "length (ram_segments r') = length (ram_segments r)"
    using assms unfolding same_shape_def by (metis length_map)
  have "(\<forall>s \<in> set xs. length s = n) = (\<forall>m \<in> set (map length xs). m = n)" for n and xs :: "byte list list"
    by simp
  then have "(\<forall>s \<in> set (ram_segments r'). length s = n) = (\<forall>s \<in> set (ram_segments r). length s = n)" for n
    using assms unfolding same_shape_def by presburger
  then show "ram_inv r' = ram_inv r" by (simp add: ram_inv_def s)
  show "ram_Capacity r' = ram_Capacity r" by (simp add: ram_Capacity_def s l)
  show "segmentSizeInBytes r' = segmentSizeInBytes r" "segmentSizePower r' = segmentSizePower r"
    "indexDivisor r' = indexDivisor r" "length (ram_segments r') = length (ram_segments r)"
    using s l by auto
qed

lemma same_shape_trans:
  assumes "same_shape r r1" "same_shape r1 r2"
  shows "same_shape r r2"
proof -
  have "r2 = r1\<lparr>ram_segments := ram_segments r2\<rparr>" "r1 = r\<lparr>ram_segments := ram_segments r1\<rparr>"
    using assms by (simp_all add: same_shape_def)
  then have "r2 = r\<lparr>ram_segments := ram_segments r2\<rparr>"
    by (metis ram_da.update_convs(1) ram_da.surjective)
  then show ?thesis using assms by (simp add: same_shape_def)
qed

lemma on_segment_upd:
  assumes "ram_inv r" "0 \<le> seg" "seg < int (length (ram_segments r))"
    "0 \<le> i" "i + int (length bs) \<le> segmentSizeInBytes r"
    "\<And>b. length b = nat (segmentSizeInBytes r) \<Longrightarrow> f b = Some (copy_into b (nat i) bs)"
  obtains r' where "on_segment f seg r = Some r'" "same_shape r r'"
    "ram_mem r' = upd (ram_mem r) (seg * segmentSizeInBytes r + i) bs"
proof -
  obtain k where k: "segmentSizeInBytes r = 2 ^ k" "\<forall>s \<in> set (ram_segments r). length s = 2 ^ k"
    using assms(1) by (auto simp: ram_inv_def)
  let ?S = "ram_segments r" and ?z = "2 ^ k :: int"
  let ?b = "?S ! nat seg" let ?b' = "copy_into ?b (nat i) bs"
  have n: "nat seg < length ?S" using assms(2,3) by linarith
  then have lb: "length ?b = 2 ^ k" using k(2) by simp
  have "int (nat i + length bs) \<le> int (2 ^ k)" using assms(4,5) k(1) by simp
  then have iz: "nat i + length bs \<le> 2 ^ k" by (simp only: of_nat_le_iff)
  let ?r = "r\<lparr>ram_segments := ?S[nat seg := ?b']\<rparr>"
  have e: "on_segment f seg r = Some ?r"
    using assms(2,3,6) lb k(1) by (simp add: on_segment_def idx_def put_def nat_power_eq)
  have "nat i \<le> length ?b" using iz lb by linarith
  then have "length ?b' = length ?b" by simp
  then have "map length (?S[nat seg := ?b']) = map length ?S"
    using n by (simp add: map_update list_update_id)
    (metis length_map list_update_id nth_map)
  then have sh: "same_shape r ?r" by (simp add: same_shape_def)
  have "ram_mem ?r q = upd (ram_mem r) (seg * ?z + i) bs q" for q
  proof (cases "0 \<le> q \<and> q < ram_Capacity r")
    case True
    have m: "nat (q mod ?z) < 2 ^ k" by (simp add: nat_less_iff)
    have s: "(nat (q div ?z) = nat seg) = (q div ?z = seg)"
      using True assms(2) by (simp add: eq_nat_nat_iff pos_imp_zdiv_nonneg_iff)
    have q: "q = (q div ?z) * ?z + q mod ?z" by (rule div_mult_mod_eq [symmetric])
    show ?thesis
    proof (cases "q div ?z = seg")
      case c: True
      let ?j = "q mod ?z"
      have qj: "q = seg * ?z + ?j" using q unfolding c .
      obtain jn where jn: "?j = int jn" using zero_le_imp_eq_int [of ?j] by auto
      obtain k' where k': "i = int k'" using zero_le_imp_eq_int assms(4) by blast
      have "(seg * ?z + i \<le> q \<and> q < seg * ?z + i + int (length bs)) =
        (nat i \<le> nat ?j \<and> nat ?j < nat i + length bs)"
        using qj unfolding jn k' by (simp only: nat_int) linarith
      moreover have "nat (q - (seg * ?z + i)) = nat ?j - nat i"
        using qj unfolding jn k' by linarith
      ultimately show ?thesis
        using True c s m n lb same_shape_D(5) [OF sh]
        by (simp add: ram_mem_def k(1) upd_def nth_copy_into)
    next
      case False
      have "\<not> (seg * ?z + i \<le> q \<and> q < seg * ?z + i + int (length bs))"
      proof
        assume a: "seg * ?z + i \<le> q \<and> q < seg * ?z + i + int (length bs)"
        then have "q div ?z = seg"
          using assms(4,5) k(1) by (intro int_div_pos_eq [of _ _ _ "q - seg * ?z"]) auto
        then show False using False by simp
      qed
      then show ?thesis using True False s same_shape_D(5) [OF sh]
        by (auto simp: ram_mem_def k(1) upd_def)
    qed
  next
    case False
    have "(seg + 1) * ?z \<le> ram_Capacity r"
      using assms(3) unfolding ram_Capacity_def k(1) by (intro mult_right_mono) auto
    moreover have "0 \<le> seg * ?z" using assms(2) by simp
    ultimately have "\<not> (seg * ?z + i \<le> q \<and> q < seg * ?z + i + int (length bs))"
      using False assms(4,5) k(1) by (auto simp: distrib_right)
    then show ?thesis using False same_shape_D(5) [OF sh] by (auto simp: ram_mem_def upd_def)
  qed
  then have "ram_mem ?r = upd (ram_mem r) (seg * segmentSizeInBytes r + i) bs"
    unfolding k(1) by (rule ext)
  then show ?thesis using e sh by (rule that [rotated 2])
qed

lemma ram_inv_pos:
  assumes "ram_inv r" "0 \<le> p" "p + int w \<le> ram_Capacity r"
  obtains k seg i where "segmentSizeInBytes r = 2 ^ k" "7 \<le> k" "seg_of (segmentSizePower r) p = seg"
    "seg_idx (indexDivisor r) p = i" "p = seg * 2 ^ k + i" "0 \<le> i" "i < 2 ^ k" "0 \<le> seg"
    "0 < w \<Longrightarrow> seg < int (length (ram_segments r))"
    "2 ^ k < i + int w \<Longrightarrow> seg + 1 < int (length (ram_segments r))"
proof -
  obtain k where k: "7 \<le> k" "segmentSizeInBytes r = 2 ^ k" "segmentSizePower r = int k"
    "indexDivisor r = 2 ^ k - 1"
    using assms(1) by (auto simp: ram_inv_def)
  let ?seg = "p div 2 ^ k" and ?i = "p mod 2 ^ k"
  have c: "p + int w \<le> int (length (ram_segments r)) * 2 ^ k"
    using assms(3) by (simp add: ram_Capacity_def k(2))
  have p: "p = ?seg * 2 ^ k + ?i" by (rule div_mult_mod_eq [symmetric])
  have i0: "0 \<le> ?i" by simp
  have "?seg < int (length (ram_segments r))" if "0 < w"
  proof -
    have "?seg * 2 ^ k < int (length (ram_segments r)) * 2 ^ k" using c p that i0 by linarith
    then show ?thesis by simp
  qed
  moreover have "?seg + 1 < int (length (ram_segments r))" if "2 ^ k < ?i + int w"
  proof -
    have "(?seg + 1) * 2 ^ k < int (length (ram_segments r)) * 2 ^ k"
      using c p that by (simp add: distrib_right)
    then show ?thesis by simp
  qed
  moreover have "0 \<le> ?seg" using assms(2) by (simp add: pos_imp_zdiv_nonneg_iff)
  ultimately show ?thesis
    using that [of k ?seg ?i] k seg_of_nat [OF assms(2), of k] seg_idx_mask [of k p] p by simp
qed

lemma ram_mem_at:
  assumes "ram_inv r" "segmentSizeInBytes r = 2 ^ k" "0 \<le> seg" "seg < int (length (ram_segments r))"
    "0 \<le> i" "i < 2 ^ k"
  shows "idx (ram_segments r) seg = Some (ram_segments r ! nat seg)"
    "idx (ram_segments r ! nat seg) i = Some (ram_mem r (seg * 2 ^ k + i))"
    "length (ram_segments r ! nat seg) = 2 ^ k"
    "ram_segments r ! nat seg ! nat i = ram_mem r (seg * 2 ^ k + i)"
proof -
  show "idx (ram_segments r) seg = Some (ram_segments r ! nat seg)"
    using assms(3,4) by (simp add: idx_def)
  show l: "length (ram_segments r ! nat seg) = 2 ^ k"
    using assms by (auto simp: ram_inv_def nat_less_iff power_inject_exp)
  have "(seg + 1) * 2 ^ k \<le> int (length (ram_segments r)) * 2 ^ k"
    using assms(4) by (intro mult_right_mono) auto
  then have "seg * 2 ^ k + i < ram_Capacity r"
    using assms(2,6) by (simp add: ram_Capacity_def distrib_right)
  moreover have "0 \<le> seg * 2 ^ k + i" using assms(3,5) by simp
  moreover have "(seg * 2 ^ k + i) div 2 ^ k = seg" "(seg * 2 ^ k + i) mod 2 ^ k = i"
    using assms(5,6) by simp_all
  ultimately show m: "ram_segments r ! nat seg ! nat i = ram_mem r (seg * 2 ^ k + i)"
    by (simp add: ram_mem_def assms(2))
  show "idx (ram_segments r ! nat seg) i = Some (ram_mem r (seg * 2 ^ k + i))"
    using assms(5,6) l m by (simp add: idx_def)
qed

lemma split32:
  "[ucast v] @ bytes24 (signed_drop_bit 8 v) = bytes32 v"
  "bytes16 (ucast v) @ bytes16 (ucast (signed_drop_bit 16 v)) = bytes32 v"
  "bytes24 v @ [ucast (signed_drop_bit 24 v)] = bytes32 v"
  by (auto simp: bytes24_def bytes32_def bytes16_def bit_simps intro!: bit_word_eqI)

lemma ram_SetInt_law:
  assumes inv: "ram_inv r" and p: "0 \<le> p" "p + 4 \<le> ram_Capacity r"
  obtains r' where "ram_SetInt p v r = Some r'" "same_shape r r'"
    "ram_mem r' = upd (ram_mem r) p (bytes32 v)"
proof -
  note ret = that
  have "p + int 4 \<le> ram_Capacity r" using p(2) by simp
  then obtain k seg i where k: "segmentSizeInBytes r = 2 ^ k" "7 \<le> k"
    and S: "seg_of (segmentSizePower r) p = seg" "seg_idx (indexDivisor r) p = i"
    and pe: "p = seg * 2 ^ k + i" and i: "0 \<le> i" "i < 2 ^ k" "0 \<le> seg"
    and s1: "seg < int (length (ram_segments r))"
    and s2: "2 ^ k < i + 4 \<Longrightarrow> seg + 1 < int (length (ram_segments r))"
    using ram_inv_pos [OF inv p(1), of 4] by (metis of_nat_numeral zero_less_numeral)
  have two: ?thesis if w: "0 \<le> i" "i + int (length xs) = 2 ^ k" "bytes32 v = xs @ ys"
      "\<And>b. length b = nat (2 ^ k) \<Longrightarrow> f2 b = Some (copy_into b 0 ys)"
      "\<And>b. length b = nat (2 ^ k) \<Longrightarrow> f1 b = Some (copy_into b (nat i) xs)"
      "ys \<noteq> []" "length ys \<le> 3"
      "ram_SetInt p v r = Option.bind (on_segment f2 (seg + 1) r) (on_segment f1 seg)" for xs ys f1 f2
  proof -
    have z3: "(3::int) \<le> 2 ^ k" using power_increasing [OF k(2), of "2::int"] by simp
    have ly: "length xs + length ys = 4" using arg_cong [OF w(3), of length] by simp
    then have "2 ^ k < i + 4" using w(2,6) by (cases ys) auto
    then have sb: "seg + 1 < int (length (ram_segments r))" by (rule s2)
    have ylen: "0 + int (length ys) \<le> segmentSizeInBytes r" using w(7) z3 k(1) by linarith
    have f2: "\<And>b. length b = nat (segmentSizeInBytes r) \<Longrightarrow> f2 b = Some (copy_into b (nat 0) ys)"
      using w(4) k(1) by simp
    obtain r1 where r1: "on_segment f2 (seg + 1) r = Some r1" "same_shape r r1"
      "ram_mem r1 = upd (ram_mem r) ((seg + 1) * segmentSizeInBytes r + 0) ys"
      by (rule on_segment_upd [OF inv _ sb _ ylen f2]) (use i(3) in simp_all)
    note d = same_shape_D [OF r1(2)]
    have inv1: "ram_inv r1" using d(6) inv by simp
    have s1': "seg < int (length (ram_segments r1))" using s1 d(4) by simp
    have xlen: "i + int (length xs) \<le> segmentSizeInBytes r1" using w(2) k(1) d(1) by simp
    have f1: "\<And>b. length b = nat (segmentSizeInBytes r1) \<Longrightarrow> f1 b = Some (copy_into b (nat i) xs)"
      using w(5) k(1) d(1) by simp
    obtain r2 where r2: "on_segment f1 seg r1 = Some r2" "same_shape r1 r2"
      "ram_mem r2 = upd (ram_mem r1) (seg * segmentSizeInBytes r1 + i) xs"
      by (rule on_segment_upd [OF inv1 i(3) s1' i(1) xlen f1])
    have "ram_mem r2 = upd (ram_mem r) p (bytes32 v)"
      unfolding r2(3) r1(3) d(1) k(1) w(3) pe
      by (rule upd_join) (use w(2) in \<open>simp add: distrib_right\<close>)
    moreover have "same_shape r r2" by (rule same_shape_trans [OF r1(2) r2(2)])
    moreover have "ram_SetInt p v r = Some r2" using w(8) r1(1) r2(1) by simp
    ultimately show ?thesis by (intro ret)
  qed
  have len: "int (length b) = 2 ^ k" "b \<noteq> []" if "length b = nat (2 ^ k)" for b :: "byte list"
    using that by auto
  have z3: "(3::int) \<le> 2 ^ k" using power_increasing [OF k(2), of "2::int"] by simp
  have def': "ram_SetInt p v r =
     (if i + 3 \<ge> 2 ^ k then
       (if i + 1 \<ge> 2 ^ k then
          Option.bind (on_segment (\<lambda>b2. FromUInt3 b2 (signed_drop_bit 8 v) 0) (seg + 1) r)
            (on_segment (\<lambda>b1. put b1 i (ucast v)) seg)
        else if i + 2 \<ge> 2 ^ k then
          Option.bind (on_segment (\<lambda>b2. FromShort b2 (ucast (signed_drop_bit 16 v)) 0) (seg + 1) r)
            (on_segment (\<lambda>b1. FromShort b1 (ucast v) i) seg)
        else
          Option.bind (on_segment (\<lambda>b2. put b2 0 (ucast (signed_drop_bit 24 v))) (seg + 1) r)
            (on_segment (\<lambda>b1. FromUInt3 b1 v i) seg))
      else on_segment (\<lambda>b. via_slice (\<lambda>s. le_PutUint32 s v) b i) seg r)"
    by (simp only: ram_SetInt_def S k(1) Let_def)
  have l24: "length (bytes24 w) = 3" "bytes24 w \<noteq> []" for w by (simp_all add: bytes24_def)
  consider "i + 1 = 2 ^ k" | "i + 2 = 2 ^ k" | "i + 3 = 2 ^ k" | "i + 4 \<le> 2 ^ k"
    using i(2) by linarith
  then show ?thesis
  proof cases
    case 1
    show ?thesis
      by (rule two [OF i(1) _ split32(1) [symmetric]])
        (use 1 i z3 len in \<open>simp_all add: def' put_copy FromUInt3_copy l24\<close>)
  next
    case 2
    show ?thesis
      by (rule two [OF i(1) _ split32(2) [symmetric]])
        (use 2 i z3 len in \<open>simp_all add: def' FromShort_def via_slice_put16, auto simp: bytes16_def\<close>)
  next
    case 3
    show ?thesis
      by (rule two [OF i(1) _ split32(3) [symmetric]])
        (use 3 i z3 len in \<open>simp_all add: def' put_copy FromUInt3_copy l24\<close>)
  next
    case 4
    have f: "\<And>b. length b = nat (segmentSizeInBytes r) \<Longrightarrow>
      via_slice (\<lambda>s. le_PutUint32 s v) b i = Some (copy_into b (nat i) (bytes32 v))"
      using 4 i(1) k(1) by (simp add: via_slice_put32)
    obtain r' where "on_segment (\<lambda>b. via_slice (\<lambda>s. le_PutUint32 s v) b i) seg r = Some r'" "same_shape r r'"
      "ram_mem r' = upd (ram_mem r) (seg * segmentSizeInBytes r + i) (bytes32 v)"
      by (rule on_segment_upd [OF inv i(3) s1 i(1) _ f]) (use 4 k(1) in simp_all)
    then show ?thesis using 4 by (intro ret) (auto simp: def' k(1) pe [symmetric])
  qed
qed

lemma mem32_or: "push_bit 24 (ucast x3) OR push_bit 16 (ucast x2) OR push_bit 8 (ucast x1) OR ucast x0
  = word32 x0 x1 x2 x3"
  by (simp add: word32_def or.commute or.left_commute)

lemma ram_GetInt_law:
  assumes inv: "ram_inv r" and p: "0 \<le> p" "p + 4 \<le> ram_Capacity r"
  shows "ram_GetInt p r = Some (mem32 (ram_mem r) p)"
proof -
  have "p + int 4 \<le> ram_Capacity r" using p(2) by simp
  then obtain k seg i where k: "segmentSizeInBytes r = 2 ^ k" "7 \<le> k"
    and S: "seg_of (segmentSizePower r) p = seg" "seg_idx (indexDivisor r) p = i"
    and pe: "p = seg * 2 ^ k + i" and i: "0 \<le> i" "i < 2 ^ k" "0 \<le> seg"
    and s1: "seg < int (length (ram_segments r))"
    and s2: "2 ^ k < i + 4 \<Longrightarrow> seg + 1 < int (length (ram_segments r))"
    using ram_inv_pos [OF inv p(1), of 4] by (metis of_nat_numeral zero_less_numeral)
  have z3: "(3::int) < 2 ^ k" using power_increasing [OF k(2), of "2::int"] by simp
  note A = ram_mem_at [OF inv k(1) i(3) s1]
  show ?thesis
  proof (cases "2 ^ k < i + 4")
    case True
    have s0: "0 \<le> seg + 1" using i(3) by simp
    note B = ram_mem_at [OF inv k(1) s0 s2 [OF True]]
    have B': "idx (ram_segments r ! nat (seg + 1)) j = Some (ram_mem r (p + (d + j)))"
      if "2 ^ k - i = d" "0 \<le> j" "j < 3" for d j
    proof -
      have "(seg + 1) * 2 ^ k + j = p + (d + j)" using that(1) by (simp add: pe distrib_right)
      then show ?thesis using B(2) [of j] that z3 by (simp add: add.assoc)
    qed
    consider "2 ^ k - i = 1" | "2 ^ k - i = 2" | "2 ^ k - i = 3" using i(2) True by linarith
    then show ?thesis
      using z3 A(1) [OF i(1,2)] B(1) [of 0] A(2) [of i] A(2) [of "i + 1"] A(2) [of "i + 2"] i
      by cases (simp_all add: ram_GetInt_def S k(1) mem32_or mem32_def pe [symmetric]
          add.assoc [symmetric] B')
  next
    case False
    have a: "ram_segments r ! nat seg ! (nat i + j) = ram_mem r (p + int j)" if "j < 4" for j
      using A(4) [of "i + int j"] that False i(1) pe by (simp add: nat_add_distrib add.assoc)
    have "int (nat i + 4) \<le> int (2 ^ k)" using False i(1) by simp
    then have l4: "nat i + 4 \<le> 2 ^ k" by (simp only: of_nat_le_iff)
    show ?thesis
      using l4 False A(1) [OF i(1,2)] A(3) [OF i(1,2)] i a [of 0] a [of 1] a [of 2] a [of 3]
      by (simp add: ram_GetInt_def S k(1) slice_def le_Uint32_def mem32_def word32_def nat_power_eq)
  qed
qed

lemma ram_pos:
  assumes "ram_inv r" "0 \<le> p" "p + w \<le> ram_Capacity r" "0 < w"
  obtains k seg i where "segmentSizeInBytes r = 2 ^ k" "7 \<le> k" "seg_of (segmentSizePower r) p = seg"
    "seg_idx (indexDivisor r) p = i" "p = seg * 2 ^ k + i" "0 \<le> i" "i < 2 ^ k" "0 \<le> seg"
    "seg < int (length (ram_segments r))"
    "2 ^ k < i + w \<Longrightarrow> seg + 1 < int (length (ram_segments r))"
proof -
  have "p + int (nat w) \<le> ram_Capacity r" "0 < nat w" "int (nat w) = w" using assms(3,4) by simp_all
  then show ?thesis using ram_inv_pos [OF assms(1,2), of "nat w"] that by (metis (no_types, lifting))
qed

lemma ram_SetShort_law:
  assumes inv: "ram_inv r" and p: "0 \<le> p" "p + 2 \<le> ram_Capacity r"
  obtains r' where "ram_SetShort p v r = Some r'" "same_shape r r'"
    "ram_mem r' = upd (ram_mem r) p (bytes16 v)"
proof -
  note ret = that
  obtain k seg i where k: "segmentSizeInBytes r = 2 ^ k" "7 \<le> k"
    and S: "seg_of (segmentSizePower r) p = seg" "seg_idx (indexDivisor r) p = i"
    and pe: "p = seg * 2 ^ k + i" and i: "0 \<le> i" "i < 2 ^ k" "0 \<le> seg"
    and s1: "seg < int (length (ram_segments r))"
    and s2: "2 ^ k < i + 2 \<Longrightarrow> seg + 1 < int (length (ram_segments r))"
    using ram_pos [OF inv p] by (metis zero_less_numeral)
  have len: "int (length b) = 2 ^ k" "b \<noteq> []" if "length b = nat (2 ^ k)" for b :: "byte list"
    using that by auto
  show ?thesis
  proof (cases "i + 1 = 2 ^ k")
    case True
    have f1: "\<And>b. length b = nat (segmentSizeInBytes r) \<Longrightarrow>
      put b i (ucast v) = Some (copy_into b (nat i) [ucast v])"
      using True i(1) k(1) len by (simp add: put_copy)
    obtain r1 where r1: "on_segment (\<lambda>b. put b i (ucast v)) seg r = Some r1" "same_shape r r1"
      "ram_mem r1 = upd (ram_mem r) (seg * segmentSizeInBytes r + i) [ucast v]"
      by (rule on_segment_upd [OF inv i(3) s1 i(1) _ f1]) (use True k(1) in simp_all)
    note d = same_shape_D [OF r1(2)]
    have f2: "\<And>b. length b = nat (segmentSizeInBytes r1) \<Longrightarrow>
      put b 0 (ucast (signed_drop_bit 8 v)) = Some (copy_into b (nat 0) [ucast (signed_drop_bit 8 v)])"
      using k(1) d(1) len by (simp add: put_copy)
    have s2': "seg + 1 < int (length (ram_segments r1))" using s2 True d(4) by simp
    have inv1: "ram_inv r1" using inv d(6) by simp
    obtain r2 where r2: "on_segment (\<lambda>b. put b 0 (ucast (signed_drop_bit 8 v))) (seg + 1) r1 = Some r2"
      "same_shape r1 r2"
      "ram_mem r2 = upd (ram_mem r1) ((seg + 1) * segmentSizeInBytes r1 + 0) [ucast (signed_drop_bit 8 v)]"
      by (rule on_segment_upd [OF inv1 _ s2' _ _ f2]) (use k(1) d(1) i in simp_all)
    have b: "[ucast v] @ [ucast (signed_drop_bit 8 v)] = bytes16 v"
      by (auto simp: bytes16_def bit_simps intro!: bit_word_eqI)
    have "(seg + 1) * 2 ^ k + 0 = p + int (length [ucast v :: byte])" using True pe by (simp add: distrib_right)
    then have "ram_mem r2 = upd (ram_mem r) p (bytes16 v)"
      unfolding r2(3) r1(3) d(1) k(1) b [symmetric] pe [symmetric] by (metis upd_upd_append)
    moreover have "ram_SetShort p v r = Some r2"
      using True r1(1) r2(1) by (simp add: ram_SetShort_def S k(1))
    ultimately show ?thesis using same_shape_trans [OF r1(2) r2(2)] by (intro ret)
  next
    case False
    then have fits: "i + 2 \<le> 2 ^ k" using i(2) by linarith
    have f: "\<And>b. length b = nat (segmentSizeInBytes r) \<Longrightarrow>
      via_slice (\<lambda>s. le_PutUint16 s v) b i = Some (copy_into b (nat i) (bytes16 v))"
      using fits i(1) k(1) by (simp add: via_slice_put16)
    obtain r' where "on_segment (\<lambda>b. via_slice (\<lambda>s. le_PutUint16 s v) b i) seg r = Some r'" "same_shape r r'"
      "ram_mem r' = upd (ram_mem r) (seg * segmentSizeInBytes r + i) (bytes16 v)"
      by (rule on_segment_upd [OF inv i(3) s1 i(1) _ f]) (use fits k(1) in simp_all)
    then show ?thesis using fits
      by (intro ret) (auto simp: ram_SetShort_def S k(1) pe [symmetric])
  qed
qed

lemma ram_GetShort_law:
  assumes inv: "ram_inv r" and p: "0 \<le> p" "p + 2 \<le> ram_Capacity r"
  shows "ram_GetShort p r = Some (mem16 (ram_mem r) p)"
proof -
  obtain k seg i where k: "segmentSizeInBytes r = 2 ^ k" "7 \<le> k"
    and S: "seg_of (segmentSizePower r) p = seg" "seg_idx (indexDivisor r) p = i"
    and pe: "p = seg * 2 ^ k + i" and i: "0 \<le> i" "i < 2 ^ k" "0 \<le> seg"
    and s1: "seg < int (length (ram_segments r))"
    and s2: "2 ^ k < i + 2 \<Longrightarrow> seg + 1 < int (length (ram_segments r))"
    using ram_pos [OF inv p] by (metis zero_less_numeral)
  note A = ram_mem_at [OF inv k(1) i(3) s1]
  show ?thesis
  proof (cases "2 ^ k < i + 2")
    case True
    have s0: "0 \<le> seg + 1" using i(3) by simp
    have e: "(seg + 1) * 2 ^ k + 0 = p + 1" using i(2) True by (simp add: pe distrib_right)
    have "idx (ram_segments r ! nat (seg + 1)) 0 = Some (ram_mem r (p + 1))"
      using ram_mem_at(2) [OF inv k(1) s0 s2 [OF True], of 0] e by simp
    then show ?thesis
      using True A(1,2) [OF i(1,2)] ram_mem_at(1) [OF inv k(1) s0 s2 [OF True], of 0]
      by (simp add: ram_GetShort_def S k(1) mem16_def word16_def pe [symmetric] or.commute)
  next
    case False
    have a: "ram_segments r ! nat seg ! (nat i + j) = ram_mem r (p + int j)" if "j < 2" for j
      using A(4) [of "i + int j"] that False i(1) pe by (simp add: nat_add_distrib add.assoc)
    have "int (nat i + 2) \<le> int (2 ^ k)" using False i(1) by simp
    then have l2: "nat i + 2 \<le> 2 ^ k" by (simp only: of_nat_le_iff)
    show ?thesis
      using l2 False A(1) [OF i(1,2)] A(3) [OF i(1,2)] i a [of 0] a [of 1]
      by (simp add: ram_GetShort_def S k(1) slice_def le_Uint16_def mem16_def word16_def nat_power_eq)
  qed
qed

lemma ram_SetByte_law:
  assumes inv: "ram_inv r" and p: "0 \<le> p" "p < ram_Capacity r"
  obtains r' where "ram_SetByte p v r = Some r'" "same_shape r r'"
    "ram_mem r' = upd (ram_mem r) p [v]"
proof -
  have p1: "p + 1 \<le> ram_Capacity r" using p(2) by simp
  obtain k seg i where k: "segmentSizeInBytes r = 2 ^ k" "7 \<le> k"
    and S: "seg_of (segmentSizePower r) p = seg" "seg_idx (indexDivisor r) p = i"
    and pe: "p = seg * 2 ^ k + i" and i: "0 \<le> i" "i < 2 ^ k" "0 \<le> seg"
    and s1: "seg < int (length (ram_segments r))"
    using ram_pos [OF inv p(1) p1] by (metis zero_less_one)
  have f: "\<And>b. length b = nat (segmentSizeInBytes r) \<Longrightarrow> put b i v = Some (copy_into b (nat i) [v])"
    using i(1,2) k(1) by (simp add: put_copy)
  obtain r' where "on_segment (\<lambda>b. put b i v) seg r = Some r'" "same_shape r r'"
    "ram_mem r' = upd (ram_mem r) (seg * segmentSizeInBytes r + i) [v]"
    by (rule on_segment_upd [OF inv i(3) s1 i(1) _ f]) (use i(2) k(1) in simp_all)
  then show ?thesis by (intro that) (auto simp: ram_SetByte_def S k(1) pe [symmetric])
qed

lemma ram_GetByte_law:
  assumes inv: "ram_inv r" and p: "0 \<le> p" "p < ram_Capacity r"
  shows "ram_GetByte p r = Some (ram_mem r p)"
proof -
  have p1: "p + 1 \<le> ram_Capacity r" using p(2) by simp
  obtain k seg i where k: "segmentSizeInBytes r = 2 ^ k"
    and S: "seg_of (segmentSizePower r) p = seg" "seg_idx (indexDivisor r) p = i"
    and pe: "p = seg * 2 ^ k + i" and i: "0 \<le> i" "i < 2 ^ k" "0 \<le> seg"
    and s1: "seg < int (length (ram_segments r))"
    using ram_pos [OF inv p(1) p1] by (metis zero_less_one)
  from ram_mem_at [OF inv k i(3) s1 i(1,2)] show ?thesis by (simp add: ram_GetByte_def S pe [symmetric])
qed

lemma segments_for_spec:
  assumes "0 < need" "0 < z"
  obtains n where "segments_for need z = Some n" "0 < n" "need \<le> n * z"
proof -
  have d: "need sdiv z = need div z" "need smod z = need mod z"
    using assms by (simp_all add: signed_divide_int_def signed_modulo_int_def)
  have e: "need = (need div z) * z + need mod z" by (rule div_mult_mod_eq [symmetric])
  have m: "0 \<le> need mod z" "need mod z < z" "0 \<le> need div z"
    using assms by (simp_all add: pos_imp_zdiv_nonneg_iff)
  show ?thesis
  proof (cases "need mod z = 0")
    case True
    then have "0 < need div z" using e m(3) assms(1) by (cases "need div z = 0") auto
    then show ?thesis using that [of "need div z"] True e d assms(2) by (simp add: segments_for_def)
  next
    case False
    have "need \<le> (need div z + 1) * z" unfolding distrib_right using e m(2) by linarith
    then show ?thesis using that [of "need div z + 1"] False d m(3) assms(2) by (simp add: segments_for_def)
  qed
qed

lemma div_int_less:
  assumes "q < n * z" "0 < (z :: int)"
  shows "q div z < n"
proof (rule ccontr)
  assume "\<not> q div z < n"
  then have "n * z \<le> (q div z) * z" using assms(2) by (intro mult_right_mono) auto
  moreover have "0 \<le> q mod z" using assms(2) by simp
  ultimately show False using assms(1) div_mult_mod_eq [of q z] by linarith
qed

lemma ram_Ensure_law:
  assumes inv: "ram_inv r" and n: "0 \<le> n"
  obtains g r' where "ram_EnsureCapacity n r = Some (g, r')" "ram_inv r'"
    "ram_Capacity r \<le> ram_Capacity r'" "n \<le> ram_Capacity r'" "ram_mem r' = ram_mem r"
    "r' = r\<lparr>ram_segments := ram_segments r'\<rparr>"
proof (cases "n - ram_Capacity r \<le> 0")
  case True
  then show ?thesis using n inv by (intro that [of False r]) (simp_all add: ram_EnsureCapacity_def)
next
  case False
  obtain k where k: "7 \<le> k" "segmentSizeInBytes r = 2 ^ k" "segmentSizePower r = int k"
    "indexDivisor r = 2 ^ k - 1" "\<forall>s \<in> set (ram_segments r). length s = 2 ^ k"
    using inv by (auto simp: ram_inv_def)
  let ?z = "2 ^ k :: int" let ?S = "ram_segments r"
  obtain m where m: "segments_for (n - ram_Capacity r) ?z = Some m" "0 < m" "n - ram_Capacity r \<le> m * ?z"
    by (rule segments_for_spec [of "n - ram_Capacity r" ?z]) (use False in simp_all)
  let ?S' = "?S @ replicate (nat m) (replicate (nat ?z) 0)"
  let ?r = "r\<lparr>ram_segments := ?S'\<rparr>"
  have e: "ram_EnsureCapacity n r = Some (True, ?r)"
    using False n m(1) k(2) by (simp add: ram_EnsureCapacity_def Let_def)
  have inv': "ram_inv ?r" using k by (auto simp: ram_inv_def nat_power_eq)
  have c: "ram_Capacity ?r = ram_Capacity r + m * ?z"
    using m(2) k(2) by (simp add: ram_Capacity_def distrib_right)
  have "ram_mem ?r q = ram_mem r q" for q
  proof (cases "0 \<le> q \<and> q < ram_Capacity ?r")
    case True
    have j: "nat (q mod ?z) < 2 ^ k" by (simp add: nat_less_iff)
    show ?thesis
    proof (cases "q < ram_Capacity r")
      case lt: True
      then have "q < int (length ?S) * ?z" using k(2) by (simp add: ram_Capacity_def)
      then have "q div ?z < int (length ?S)" using True by (intro div_int_less) simp_all
      then have "nat (q div ?z) < length ?S" using True by (simp add: nat_less_iff pos_imp_zdiv_nonneg_iff)
      then show ?thesis using True lt k(2) by (simp add: ram_mem_def nth_append)
    next
      case ge: False
      have "int (length ?S) \<le> q div ?z"
        using zdiv_mono1 [of "int (length ?S) * ?z" q ?z] ge k(2) by (simp add: ram_Capacity_def)
      then have b1: "length ?S \<le> nat (q div ?z)" by linarith
      have "q < int (length ?S') * ?z" using True k(2) by (simp add: ram_Capacity_def)
      then have "q div ?z < int (length ?S')" by (intro div_int_less) simp_all
      then have "nat (q div ?z) < length ?S'" using True by (simp add: nat_less_iff pos_imp_zdiv_nonneg_iff)
      then have "?S' ! nat (q div ?z) = replicate (2 ^ k) 0" using b1 by (simp add: nth_append nat_power_eq)
      then show ?thesis using True ge k(2) j by (simp add: ram_mem_def)
    qed
  next
    case False
    have "ram_Capacity r \<le> ram_Capacity ?r" unfolding c using m(2) by simp
    then have A: "(0 \<le> q \<and> q < ram_Capacity ?r) = False" "(0 \<le> q \<and> q < ram_Capacity r) = False"
      using False by (blast, meson dual_order.strict_trans1 False)
    show ?thesis by (simp only: ram_mem_def A if_False)
  qed
  then have "ram_mem ?r = ram_mem r" by (rule ext)
  then show ?thesis using e inv' c m by (intro that [of True ?r]) simp_all
qed

interpretation ram: data_access_contract ram_GetInt ram_SetInt ram_GetShort ram_SetShort ram_GetByte
  ram_SetByte ram_EnsureCapacity ram_inv ram_Capacity ram_mem "\<lambda>_ _ _. True"
proof
  fix d :: ram_da and p :: int and v :: i32
  assume d: "ram_inv d" "0 \<le> p"
  show "p + 4 \<le> ram_Capacity d \<Longrightarrow> ram_GetInt p d = Some (mem32 (ram_mem d) p)"
    using d by (rule ram_GetInt_law)
  show "p + 4 \<le> ram_Capacity d \<Longrightarrow> \<exists>d'. ram_SetInt p v d = Some d' \<and> ram_inv d' \<and>
      ram_Capacity d' = ram_Capacity d \<and> (\<lambda>_ _. True) = (\<lambda>_ _. True) \<and>
      ram_mem d' = upd (ram_mem d) p (bytes32 v)"
    using ram_SetInt_law [OF d, of v] same_shape_D(5,6) d(1) by (metis (full_types))
next
  fix d :: ram_da and p :: int and v :: i16
  assume d: "ram_inv d" "0 \<le> p"
  show "p + 2 \<le> ram_Capacity d \<Longrightarrow> ram_GetShort p d = Some (mem16 (ram_mem d) p)"
    using d by (rule ram_GetShort_law)
  show "p + 2 \<le> ram_Capacity d \<Longrightarrow> \<exists>d'. ram_SetShort p v d = Some d' \<and> ram_inv d' \<and>
      ram_Capacity d' = ram_Capacity d \<and> (\<lambda>_ _. True) = (\<lambda>_ _. True) \<and>
      ram_mem d' = upd (ram_mem d) p (bytes16 v)"
    using ram_SetShort_law [OF d, of v] same_shape_D(5,6) d(1) by (metis (full_types))
next
  fix d :: ram_da and p :: int and v :: byte
  assume d: "ram_inv d" "0 \<le> p"
  show "p < ram_Capacity d \<Longrightarrow> ram_GetByte p d = Some (ram_mem d p)"
    using d by (rule ram_GetByte_law)
  show "p < ram_Capacity d \<Longrightarrow> \<exists>d'. ram_SetByte p v d = Some d' \<and> ram_inv d' \<and>
      ram_Capacity d' = ram_Capacity d \<and> (\<lambda>_ _. True) = (\<lambda>_ _. True) \<and>
      ram_mem d' = upd (ram_mem d) p [v]"
    using ram_SetByte_law [OF d, of v] same_shape_D(5,6) d(1) by (metis (full_types))
next
  fix d n
  assume "ram_inv d" "0 \<le> (n::int)"
  then show "\<exists>g d'. ram_EnsureCapacity n d = Some (g, d') \<and> ram_inv d' \<and>
      ram_Capacity d \<le> ram_Capacity d' \<and> n \<le> ram_Capacity d' \<and>
      (\<lambda>_ _. True) = (\<lambda>_ _. True) \<and> ram_mem d' = ram_mem d"
    using ram_Ensure_law [of d n] by metis
qed

section \<open>Byte slices\<close>

lemma copy_at_copy:
  "0 \<le> i \<Longrightarrow> i \<le> int (length b) \<Longrightarrow> copy_at i src b = Some (copy_into b (nat i) src)"
  by (simp add: copy_at_def via_slice_def slice_def copy_into_def add.commute)

text \<open>Slices of at most one segment, which lie in at most two segments, are written and read whole.\<close>

lemma ram_SetBytes_law:
  assumes inv: "ram_inv r" and p: "0 \<le> p" "p + int (length vs) \<le> ram_Capacity r"
    and len: "0 < length vs" "int (length vs) \<le> segmentSizeInBytes r"
  obtains r' where "ram_SetBytes p vs (int (length vs)) r = Some r'" "same_shape r r'"
    "ram_mem r' = upd (ram_mem r) p vs"
proof -
  note ret = that
  have w: "0 < int (length vs)" using len(1) by simp
  obtain k seg i where k: "segmentSizeInBytes r = 2 ^ k" "7 \<le> k"
    and S: "seg_of (segmentSizePower r) p = seg" "seg_idx (indexDivisor r) p = i"
    and pe: "p = seg * 2 ^ k + i" and i: "0 \<le> i" "i < 2 ^ k" "0 \<le> seg"
    and s1: "seg < int (length (ram_segments r))"
    and s2: "2 ^ k < i + int (length vs) \<Longrightarrow> seg + 1 < int (length (ram_segments r))"
    using ram_pos [OF inv p w] by metis
  show ?thesis
  proof (cases "2 ^ k < i + int (length vs)")
    case True
    define m where "m = nat (2 ^ k - i)"
    have m: "int m = 2 ^ k - i" "m < length vs" using i True by (simp_all add: m_def)
    have c1: "\<And>b. length b = nat (segmentSizeInBytes r) \<Longrightarrow>
      copy_at i (take m vs) b = Some (copy_into b (nat i) (take m vs))"
      using i(1,2) k(1) by (intro copy_at_copy) simp_all
    obtain r1 where r1: "on_segment (copy_at i (take m vs)) seg r = Some r1" "same_shape r r1"
      "ram_mem r1 = upd (ram_mem r) (seg * segmentSizeInBytes r + i) (take m vs)"
      by (rule on_segment_upd [OF inv i(3) s1 i(1) _ c1]) (use m k(1) in simp_all)
    note d = same_shape_D [OF r1(2)]
    have c2: "\<And>b. length b = nat (segmentSizeInBytes r1) \<Longrightarrow>
      copy_at 0 (drop m vs) b = Some (copy_into b (nat 0) (drop m vs))"
      by (intro copy_at_copy) simp_all
    have s2': "seg + 1 < int (length (ram_segments r1))" using s2 True d(4) by simp
    have inv1: "ram_inv r1" using inv d(6) by simp
    have l2: "0 + int (length (drop m vs)) \<le> segmentSizeInBytes r1"
      unfolding length_drop d(1) using m len(2) k(1) i by linarith
    obtain r2 where r2: "on_segment (copy_at 0 (drop m vs)) (seg + 1) r1 = Some r2" "same_shape r1 r2"
      "ram_mem r2 = upd (ram_mem r1) ((seg + 1) * segmentSizeInBytes r1 + 0) (drop m vs)"
      by (rule on_segment_upd [OF inv1 _ s2' _ l2 c2]) (use i(3) in simp_all)
    have e: "(seg + 1) * 2 ^ k + 0 = p + int (length (take m vs))" using m pe by (simp add: distrib_right)
    have "ram_mem r2 = upd (ram_mem r) p vs"
      unfolding r2(3) r1(3) d(1) k(1) e pe [symmetric] upd_upd_append by simp
    moreover have "ram_SetBytes p vs (int (length vs)) r = Some r2"
      using True r1(1) r2(1) m(2)
      by (simp add: ram_SetBytes_def S k(1) slice_def Let_def m(1) [symmetric])
    ultimately show ?thesis using same_shape_trans [OF r1(2) r2(2)] by (intro ret)
  next
    case False
    have c: "\<And>b. length b = nat (segmentSizeInBytes r) \<Longrightarrow>
      copy_at i vs b = Some (copy_into b (nat i) vs)"
      using i(1,2) k(1) by (intro copy_at_copy) simp_all
    obtain r' where "on_segment (copy_at i vs) seg r = Some r'" "same_shape r r'"
      "ram_mem r' = upd (ram_mem r) (seg * segmentSizeInBytes r + i) vs"
      by (rule on_segment_upd [OF inv i(3) s1 i(1) _ c]) (use False k(1) in simp_all)
    then show ?thesis using False
      by (intro ret) (auto simp: ram_SetBytes_def S k(1) pe [symmetric] slice_def Let_def)
  qed
qed

text \<open>
  A slice that reaches into a third segment is cut off: the copy into the second segment takes
  what fits, and nothing reports the loss.
\<close>

lemma ram_SetBytes_truncates:
  assumes inv: "ram_inv r" and s: "0 \<le> seg" "seg + 1 < int (length (ram_segments r))"
    and k: "segmentSizeInBytes r = 2 ^ k" and len: "2 * 2 ^ k < length vs"
  obtains r' where "ram_SetBytes (seg * 2 ^ k) vs (int (length vs)) r = Some r'" "same_shape r r'"
    "ram_mem r' = upd (ram_mem r) (seg * 2 ^ k) (take (2 * 2 ^ k) vs)"
proof -
  note ret = that
  let ?z = "2 ^ k :: nat"
  have D: "segmentSizePower r = int k" "indexDivisor r = 2 ^ k - 1"
    using inv k by (auto simp: ram_inv_def)
  have S: "seg_of (segmentSizePower r) (seg * 2 ^ k) = seg" "seg_idx (indexDivisor r) (seg * 2 ^ k) = 0"
    using seg_of_nat [of "seg * 2 ^ k" k] seg_idx_mask [of k "seg * 2 ^ k"] s(1) D by simp_all
  have s1: "seg < int (length (ram_segments r))" using s(2) by simp
  have c1: "\<And>b. length b = nat (segmentSizeInBytes r) \<Longrightarrow>
    copy_at 0 (take ?z vs) b = Some (copy_into b (nat 0) (take ?z vs))"
    by (intro copy_at_copy) simp_all
  obtain r1 where r1: "on_segment (copy_at 0 (take ?z vs)) seg r = Some r1" "same_shape r r1"
    "ram_mem r1 = upd (ram_mem r) (seg * segmentSizeInBytes r + 0) (take ?z vs)"
    by (rule on_segment_upd [OF inv s(1) s1 _ _ c1]) (use k len in simp_all)
  note d = same_shape_D [OF r1(2)]
  let ?rest = "drop ?z vs"
  have c2: "copy_at 0 ?rest b = Some (copy_into b (nat 0) (take ?z ?rest))"
    if "length b = nat (segmentSizeInBytes r1)" for b
    using that d(1) k len by (subst copy_at_copy) (simp_all add: copy_into_def nat_power_eq)
  have s2': "seg + 1 < int (length (ram_segments r1))" using s(2) d(4) by simp
  have inv1: "ram_inv r1" using inv d(6) by simp
  have l2: "0 + int (length (take ?z ?rest)) \<le> segmentSizeInBytes r1" using k d(1) by (simp add: min_def)
  obtain r2 where r2: "on_segment (copy_at 0 ?rest) (seg + 1) r1 = Some r2" "same_shape r1 r2"
    "ram_mem r2 = upd (ram_mem r1) ((seg + 1) * segmentSizeInBytes r1 + 0) (take ?z ?rest)"
    by (rule on_segment_upd [OF inv1 _ s2' _ l2 c2]) (use s(1) in simp_all)
  have e: "(seg + 1) * 2 ^ k + 0 = seg * 2 ^ k + 0 + int (length (take ?z vs))"
    using len by (simp add: distrib_right min_def)
  have "take ?z vs @ take ?z ?rest = take (2 * ?z) vs" by (metis mult_2 take_add)
  then have "ram_mem r2 = upd (ram_mem r) (seg * 2 ^ k) (take (2 * ?z) vs)"
    unfolding r2(3) r1(3) d(1) k e upd_upd_append by simp
  moreover have "ram_SetBytes (seg * 2 ^ k) vs (int (length vs)) r = Some r2"
  proof -
    have "int ?z < int (length vs)" using len by simp
    then show ?thesis using r1(1) r2(1) by (simp add: ram_SetBytes_def S k slice_def Let_def nat_power_eq)
  qed
  ultimately show ?thesis using same_shape_trans [OF r1(2) r2(2)] by (intro ret)
qed

text \<open>\<open>GetBytes\<close> fills the buffer with the content of the memory.\<close>

definition mem_bytes :: "memory \<Rightarrow> int \<Rightarrow> nat \<Rightarrow> byte list" where
  "mem_bytes m p n = map (\<lambda>j. m (p + int j)) [0..<n]"

lemma mem_bytes_upd: "mem_bytes (upd m p vs) p (length vs) = vs"
  by (rule nth_equalityI) (auto simp: mem_bytes_def upd_def)

lemma mem_bytes_add: "mem_bytes m p (a + b) = mem_bytes m p a @ mem_bytes m (p + int a) b"
  by (rule nth_equalityI) (auto simp: mem_bytes_def nth_append add.assoc)

lemma drop_mem_bytes:
  assumes "ram_inv r" "segmentSizeInBytes r = 2 ^ k" "0 \<le> seg" "seg < int (length (ram_segments r))"
    "i + n \<le> 2 ^ k"
  shows "take n (drop i (ram_segments r ! nat seg)) = mem_bytes (ram_mem r) (seg * 2 ^ k + int i) n"
proof (rule nth_equalityI)
  have "length (ram_segments r ! nat seg) = 2 ^ k"
    using ram_mem_at(3) [OF assms(1-4), of 0] by simp
  then show l: "length (take n (drop i (ram_segments r ! nat seg))) =
      length (mem_bytes (ram_mem r) (seg * 2 ^ k + int i) n)"
    using assms(5) by (simp add: mem_bytes_def)
  fix j assume "j < length (take n (drop i (ram_segments r ! nat seg)))"
  then have j: "j < n" by simp
  then have "i + j < 2 ^ k" using assms(5) by linarith
  then have "int (i + j) < int (2 ^ k)" by (simp only: of_nat_less_iff)
  then have "int (i + j) < 2 ^ k" by simp
  with ram_mem_at(4) [OF assms(1-4), of "int (i + j)"] j assms(5)
    \<open>length (ram_segments r ! nat seg) = 2 ^ k\<close>
  show "take n (drop i (ram_segments r ! nat seg)) ! j =
      mem_bytes (ram_mem r) (seg * 2 ^ k + int i) n ! j"
    by (simp add: mem_bytes_def add.assoc del: of_nat_add) simp
qed

lemma copy_into_whole: "length dst \<le> length src \<Longrightarrow> copy_into dst 0 src = take (length dst) src"
  by (simp add: copy_into_def)

lemma ram_GetBytes_law:
  assumes inv: "ram_inv r" and p: "0 \<le> p" "p + int (length buf) \<le> ram_Capacity r"
    and len: "0 < length buf" "int (length buf) \<le> segmentSizeInBytes r"
  shows "ram_GetBytes p buf (int (length buf)) r = Some (mem_bytes (ram_mem r) p (length buf))"
proof -
  let ?n = "length buf"
  have w: "0 < int ?n" using len(1) by simp
  obtain k seg i where k: "segmentSizeInBytes r = 2 ^ k" "7 \<le> k"
    and S: "seg_of (segmentSizePower r) p = seg" "seg_idx (indexDivisor r) p = i"
    and pe: "p = seg * 2 ^ k + i" and i: "0 \<le> i" "i < 2 ^ k" "0 \<le> seg"
    and s1: "seg < int (length (ram_segments r))"
    and s2: "2 ^ k < i + int ?n \<Longrightarrow> seg + 1 < int (length (ram_segments r))"
    using ram_pos [OF inv p w] by metis
  note A = ram_mem_at [OF inv k(1) i(3) s1 i(1,2)]
  have ii: "int (nat i) = i" using i(1) by simp
  have sl: "slice (ram_segments r ! nat seg) i (int (length (ram_segments r ! nat seg))) =
      Some (drop (nat i) (ram_segments r ! nat seg))"
    using A(3) i(1,2) by (simp add: slice_def nat_power_eq)
  show ?thesis
  proof (cases "2 ^ k < i + int ?n")
    case True
    define m where "m = nat (2 ^ k - i)"
    have m: "int m = 2 ^ k - i" using i by (simp add: m_def)
    have mn: "m < ?n" using m True by linarith
    have "int (nat i + m) = int (2 ^ k)" using m ii by simp
    then have im: "nat i + m = 2 ^ k" by (simp only: of_nat_eq_iff)
    have s0: "0 \<le> seg + 1" using i(3) by simp
    note s2' = s2 [OF True]
    have l1: "length (drop (nat i) (ram_segments r ! nat seg)) = m" using A(3) im by simp
    have x1: "drop (nat i) (ram_segments r ! nat seg) = mem_bytes (ram_mem r) p m"
      using drop_mem_bytes [OF inv k(1) i(3) s1, of "nat i" m] im l1 ii pe by simp
    have "int (?n - m) \<le> 2 ^ k" using m len(2) k(1) i mn by linarith
    then have "int (?n - m) \<le> int (2 ^ k)" by simp
    then have n2: "0 + (?n - m) \<le> 2 ^ k" by (simp only: of_nat_le_iff)
    have B: "length (ram_segments r ! nat (seg + 1)) = 2 ^ k"
      using ram_mem_at(3) [OF inv k(1) s0 s2', of 0] by simp
    have e: "(seg + 1) * 2 ^ k + int 0 = p + int m" using m pe by (simp add: distrib_right)
    have x2: "take (?n - m) (ram_segments r ! nat (seg + 1)) = mem_bytes (ram_mem r) (p + int m) (?n - m)"
      using drop_mem_bytes [OF inv k(1) s0 s2' n2] unfolding e by simp
    have i2: "idx (ram_segments r) (seg + 1) = Some (ram_segments r ! nat (seg + 1))"
      using ram_mem_at(1) [OF inv k(1) s0 s2', of 0] by simp
    have "ram_GetBytes p buf (int ?n) r =
      Some (copy_into (take m buf) 0 (mem_bytes (ram_mem r) p m) @
        copy_into (drop m buf) 0 (ram_segments r ! nat (seg + 1)))"
    proof -
      have "slice buf 0 (int m) = Some (take m buf)" "slice buf (int m) (int ?n) = Some (drop m buf)"
        using mn by (simp_all add: slice_def)
      then show ?thesis
        using True A(1) sl i2 x1 by (simp add: ram_GetBytes_def S k(1) Let_def m [symmetric])
    qed
    also have "copy_into (take m buf) 0 (mem_bytes (ram_mem r) p m) = mem_bytes (ram_mem r) p m"
      using mn by (subst copy_into_whole) (simp_all add: mem_bytes_def)
    also have "copy_into (drop m buf) 0 (ram_segments r ! nat (seg + 1)) =
      mem_bytes (ram_mem r) (p + int m) (?n - m)"
      using n2 B x2 by (subst copy_into_whole) simp_all
    finally show ?thesis using mem_bytes_add [of "ram_mem r" p m "?n - m"] mn by simp
  next
    case False
    have "int (nat i + ?n) \<le> int (2 ^ k)" using False ii by simp
    then have n: "nat i + ?n \<le> 2 ^ k" by (simp only: of_nat_le_iff)
    have "ram_GetBytes p buf (int ?n) r = Some (copy_into buf 0 (drop (nat i) (ram_segments r ! nat seg)))"
    proof -
      have "slice buf 0 (int ?n) = Some buf" by (simp add: slice_def)
      then show ?thesis using False A(1) sl by (simp add: ram_GetBytes_def S k(1) Let_def)
    qed
    also have "copy_into buf 0 (drop (nat i) (ram_segments r ! nat seg)) =
      take ?n (drop (nat i) (ram_segments r ! nat seg))"
      using n A(3) by (subst copy_into_whole) simp_all
    also have "\<dots> = mem_bytes (ram_mem r) p ?n"
      using drop_mem_bytes [OF inv k(1) i(3) s1 n] ii pe by simp
    finally show ?thesis .
  qed
qed

section \<open>Flush and LoadExisting\<close>

lemma read_segments_concat:
  assumes "\<forall>s \<in> set segs. length s = z" "0 < z"
  shows "read_segments (length segs) z (concat segs) = Some segs"
  using assms
proof (induction segs)
  case (Cons s segs)
  then have "s \<noteq> []" "length s = z" by auto
  then show ?case using Cons by simp
qed simp

text \<open>
  The header holds the capacity without the header itself, and \<open>LoadExisting\<close> subtracts the size of
  the header from it. The number of segments is right nevertheless, because a segment is larger
  than the header and the number is rounded up.
\<close>

lemma segments_for_capacity:
  assumes "0 < n" "headerOffset < z"
  shows "segments_for (int n * z - headerOffset) z = Some (int n)"
proof -
  have "1 * z \<le> int n * z" using assms by (intro mult_right_mono) (simp_all add: header_consts)
  then have p: "0 < int n * z - headerOffset" using assms(2) by linarith
  have e: "int n * z - headerOffset = z * (int n - 1) + (z - headerOffset)" by (simp add: algebra_simps)
  have "(int n * z - headerOffset) mod z = z - headerOffset"
    by (rule int_mod_pos_eq [OF e]) (use assms(2) in \<open>simp_all add: header_consts\<close>)
  moreover have "(int n * z - headerOffset) div z = int n - 1"
    by (rule int_div_pos_eq [OF e]) (use assms(2) in \<open>simp_all add: header_consts\<close>)
  moreover have "0 < z" using assms(2) by (simp add: header_consts)
  ultimately show ?thesis using p assms(2)
    by (simp add: segments_for_def signed_divide_int_def signed_modulo_int_def)
qed

lemma ram_inv_size_fits:
  assumes "ram_inv r" "segmentSizeInBytes r < 2 ^ 32"
  obtains k where "segmentSizeInBytes r = 2 ^ k" "7 \<le> k" "k < 32" "segmentSizePower r = int k"
    "indexDivisor r = 2 ^ k - 1" "\<forall>s \<in> set (ram_segments r). length s = 2 ^ k"
proof -
  obtain k where k: "7 \<le> k" "segmentSizeInBytes r = 2 ^ k" "segmentSizePower r = int k"
    "indexDivisor r = 2 ^ k - 1" "\<forall>s \<in> set (ram_segments r). length s = 2 ^ k"
    using assms(1) by (auto simp: ram_inv_def)
  moreover have "k < 32"
  proof (rule ccontr)
    assume "\<not> k < 32"
    then have "(2::int) ^ 32 \<le> 2 ^ k" by (intro power_increasing) auto
    then show False using assms(2) k(2) by simp
  qed
  ultimately show ?thesis by (intro that)
qed

lemma ram_Flush_LoadExisting:
  assumes inv: "ram_inv r" "length (da_header r) = headerCount" "segmentSizeInBytes r < 2 ^ 32"
    and r: "ram_store r" "\<not> da_closed r" "ram_segments r \<noteq> []" "ram_Capacity r < 2 ^ 63"
    and r0: "fullName r0 = fullName r" "ram_store r0" "\<not> da_closed r0" "ram_segments r0 = []"
  obtains fs' where "ram_Flush r fs = Some fs'"
    "ram_LoadExisting fs' r0 = Some (True, r0\<lparr>ram_segments := ram_segments r, da_header := da_header r,
      segmentSizeInBytes := segmentSizeInBytes r, segmentSizePower := segmentSizePower r,
      indexDivisor := indexDivisor r\<rparr>)"
proof -
  obtain k where k: "segmentSizeInBytes r = 2 ^ k" "7 \<le> k" "k < 32" "segmentSizePower r = int k"
    "indexDivisor r = 2 ^ k - 1" "\<forall>s \<in> set (ram_segments r). length s = 2 ^ k"
    by (rule ram_inv_size_fits [OF inv(1,3)])
  let ?w = "writeHeader r (ram_Capacity r) (2 ^ k)" and ?body = "concat (ram_segments r)"
  let ?n = "length (ram_segments r)"
  have l: "length ?w = 100" by (rule length_writeHeader [OF inv(2)])
  have cap: "ram_Capacity r = int ?n * 2 ^ k" by (simp add: ram_Capacity_def k(1))
  have z: "headerOffset < 2 ^ k" using power_increasing [OF k(2), of "2::int"] by (simp add: header_consts)
  have n0: "0 < ?n" using r(3) by simp
  have "1 * (2::int) ^ k \<le> int ?n * 2 ^ k" using n0 by (intro mult_right_mono) (linarith, simp)
  then have big: "headerOffset < ram_Capacity r" using z cap by linarith
  have rd: "readHeader r0 (?w @ ?body) =
    Some (ram_Capacity r, (setSegmentSize r0 (2 ^ k))\<lparr>da_header := da_header r\<rparr>)"
    by (rule readHeader_writeHeader [OF inv(2) k(2,3)]) (use big r(4) in \<open>simp_all add: header_consts\<close>)
  have sf: "segments_for (ram_Capacity r - headerOffset) (2 ^ k) = Some (int ?n)"
    unfolding cap by (rule segments_for_capacity [OF n0 z])
  have rs: "read_segments ?n (2 ^ k) ?body = Some (ram_segments r)"
    by (rule read_segments_concat [OF k(6)]) simp
  have dr: "drop (nat headerOffset) (?w @ ?body) = ?body" using l by (simp add: header_consts)
  have ne: "?w @ ?body \<noteq> []" using l by auto
  have "ram_Flush r fs = Some (fs(fullName r \<mapsto> ?w @ ?body))"
    using r(1,2) k(1) by (simp add: ram_Flush_def)
  moreover have "ram_LoadExisting (fs(fullName r \<mapsto> ?w @ ?body)) r0 =
    Some (True, r0\<lparr>ram_segments := ram_segments r, da_header := da_header r,
      segmentSizeInBytes := 2 ^ k, segmentSizePower := int k, indexDivisor := 2 ^ k - 1\<rparr>)"
    using r0 big
    by (simp only: ram_LoadExisting_def fun_upd_same option.case if_not_P [OF ne] rd dr)
      (simp add: sf rs setSegmentSize_power [OF k(2)] nat_power_eq)
  ultimately show ?thesis by (intro that) (simp_all add: k(1,4,5))
qed

end
