(* ===== verification/RamIntDataAccess.thy ===== *)
theory RamIntDataAccess imports RamDataAccess begin

text \<open>
  \<^verbatim>\<open>core/storage/ram_int_data_access.go\<close>: segments of integers, read and written as whole
  integers or as aligned halves of them; and the choice between the two implementations by the
  type of a data access (\<open>directory.go\<close>).
\<close>

section \<open>The code\<close>

record ram_int_da = da_base +
  int_segments :: "i32 list list"
  int_store :: bool
  segmentSizeIntsPow :: int

definition updateIntsPower :: "ram_int_da \<Rightarrow> ram_int_da" where
  "updateIntsPower r = (let intsPerSeg = segmentSizeInBytes r sdiv 4
     in r\<lparr>segmentSizeIntsPow := int (trailing_zeros (nat intsPerSeg)), indexDivisor := intsPerSeg - 1\<rparr>)"

definition NewRAMIntDataAccess :: "string \<Rightarrow> string \<Rightarrow> bool \<Rightarrow> int \<Rightarrow> ram_int_da option" where
  "NewRAMIntDataAccess name location store segmentSize = do {
     b \<leftarrow> newDataAccessBase name location segmentSize;
     Some (updateIntsPower (da_base.extend b
       \<lparr>int_segments = [], int_store = store, segmentSizeIntsPow = 0\<rparr>)) }"

definition ramint_Capacity :: "ram_int_da \<Rightarrow> int" where
  "ramint_Capacity r = int (length (int_segments r)) * segmentSizeInBytes r"

definition ramint_EnsureCapacity :: "int \<Rightarrow> ram_int_da \<Rightarrow> (bool \<times> ram_int_da) option" where
  "ramint_EnsureCapacity bytes r = do {
     check (\<not> bytes < 0);
     let need = bytes - ramint_Capacity r;
     if need \<le> 0 then Some (False, r)
     else do {
       n \<leftarrow> segments_for need (segmentSizeInBytes r);
       Some (True, r\<lparr>int_segments := int_segments r @
         replicate (nat n) (replicate (2 ^ nat (segmentSizeIntsPow r)) 0)\<rparr>)
     } }"

definition ramint_Create :: "int \<Rightarrow> ram_int_da \<Rightarrow> ram_int_da option" where
  "ramint_Create bytes r = do {
     check (\<not> length (int_segments r) > 0);
     (g, r) \<leftarrow> ramint_EnsureCapacity (max 40 bytes) r;
     Some r }"

text \<open>Reading and replacing the integer that holds the byte \<open>bytePos\<close>.\<close>

definition int_slot :: "int \<Rightarrow> ram_int_da \<Rightarrow> i32 option" where
  "int_slot bytePos r = do {
     let pos = drop_bit 2 bytePos;
     seg \<leftarrow> idx (int_segments r) (seg_of (segmentSizeIntsPow r) pos);
     idx seg (seg_idx (indexDivisor r) pos) }"

definition put_int_slot :: "int \<Rightarrow> i32 \<Rightarrow> ram_int_da \<Rightarrow> ram_int_da option" where
  "put_int_slot bytePos value r = do {
     let pos = drop_bit 2 bytePos;
     seg \<leftarrow> idx (int_segments r) (seg_of (segmentSizeIntsPow r) pos);
     seg \<leftarrow> put seg (seg_idx (indexDivisor r) pos) value;
     segs \<leftarrow> put (int_segments r) (seg_of (segmentSizeIntsPow r) pos) seg;
     Some (r\<lparr>int_segments := segs\<rparr>) }"

definition ramint_SetInt :: "int \<Rightarrow> i32 \<Rightarrow> ram_int_da \<Rightarrow> ram_int_da option" where
  "ramint_SetInt bytePos value r = put_int_slot bytePos value r"

definition ramint_GetInt :: "int \<Rightarrow> ram_int_da \<Rightarrow> i32 option" where
  "ramint_GetInt bytePos r = int_slot bytePos r"

definition ramint_SetShort :: "int \<Rightarrow> i16 \<Rightarrow> ram_int_da \<Rightarrow> ram_int_da option" where
  "ramint_SetShort bytePos value r = do {
     check (\<not> (bytePos smod 4 \<noteq> 0 \<and> bytePos smod 4 \<noteq> 2));
     old \<leftarrow> int_slot bytePos r;
     if drop_bit 2 bytePos * 4 = bytePos
     then put_int_slot bytePos ((old AND NOT 0xFFFF) OR (scast value AND 0xFFFF)) r
     else put_int_slot bytePos ((old AND 0xFFFF) OR push_bit 16 (scast value)) r }"

definition ramint_GetShort :: "int \<Rightarrow> ram_int_da \<Rightarrow> i16 option" where
  "ramint_GetShort bytePos r = do {
     check (\<not> (bytePos smod 4 \<noteq> 0 \<and> bytePos smod 4 \<noteq> 2));
     v \<leftarrow> int_slot bytePos r;
     if drop_bit 2 bytePos * 4 = bytePos then Some (ucast (v AND 0xFFFF))
     else Some (ucast (signed_drop_bit 16 v)) }"

text \<open>Byte access always panics.\<close>

definition ramint_SetByte :: "int \<Rightarrow> byte \<Rightarrow> ram_int_da \<Rightarrow> ram_int_da option" where
  "ramint_SetByte bytePos value r = None"

definition ramint_GetByte :: "int \<Rightarrow> ram_int_da \<Rightarrow> byte option" where
  "ramint_GetByte bytePos r = None"

definition ramint_SetBytes :: "int \<Rightarrow> byte list \<Rightarrow> int \<Rightarrow> ram_int_da \<Rightarrow> ram_int_da option" where
  "ramint_SetBytes bytePos values' len r = None"

definition ramint_GetBytes :: "int \<Rightarrow> byte list \<Rightarrow> int \<Rightarrow> ram_int_da \<Rightarrow> byte list option" where
  "ramint_GetBytes bytePos values' len r = None"

definition ramint_Close :: "ram_int_da \<Rightarrow> ram_int_da" where
  "ramint_Close r = r\<lparr>int_segments := [], da_closed := True\<rparr>"

definition ramint_Type :: "ram_int_da \<Rightarrow> da_type" where
  "ramint_Type r = (if int_store r then DATypeRAMIntStore else DATypeRAMInt)"

subsection \<open>Persistence\<close>

definition ramint_Flush :: "ram_int_da \<Rightarrow> file_system \<Rightarrow> file_system option" where
  "ramint_Flush r fs = do {
     check (\<not> da_closed r);
     if \<not> int_store r then Some fs
     else Some (fs(fullName r \<mapsto>
       writeHeader r (ramint_Capacity r) (segmentSizeInBytes r) @
       concat (map (\<lambda>area. concat (map bytes32 area)) (int_segments r)))) }"

fun le_ints :: "byte list \<Rightarrow> i32 list" where
  "le_ints (a # b # c # d # bs) = word32 a b c d # le_ints bs"
| "le_ints _ = []"

fun read_int_segments :: "nat \<Rightarrow> nat \<Rightarrow> byte list \<Rightarrow> i32 list list" where
  "read_int_segments 0 seg_size file = []"
| "read_int_segments (Suc n) seg_size file =
     le_ints (take seg_size file) # read_int_segments n seg_size (drop seg_size file)"

definition ramint_LoadExisting :: "file_system \<Rightarrow> ram_int_da \<Rightarrow> (bool \<times> ram_int_da) option" where
  "ramint_LoadExisting fs r = do {
     check (\<not> length (int_segments r) > 0);
     check (\<not> da_closed r);
     if \<not> int_store r then Some (False, r)
     else case fs (fullName r) of
       None \<Rightarrow> Some (False, r)
     | Some file \<Rightarrow>
         if file = [] then Some (False, r)
         else do {
           (byteCount, r) \<leftarrow> readHeader r file;
           let r = updateIntsPower r;
           let byteCount = byteCount - headerOffset;
           if byteCount < 0 then Some (False, r)
           else do {
             n \<leftarrow> segments_for byteCount (segmentSizeInBytes r);
             Some (True, r\<lparr>int_segments := read_int_segments (nat n) (nat (segmentSizeInBytes r))
               (drop (nat headerOffset) file)\<rparr>) } } }"

section \<open>The integers as a flat memory\<close>

definition ramint_inv :: "ram_int_da \<Rightarrow> bool" where
  "ramint_inv r \<longleftrightarrow> (\<exists>k. 5 \<le> k \<and> segmentSizeInBytes r = 4 * 2 ^ k \<and> segmentSizeIntsPow r = int k \<and>
     indexDivisor r = 2 ^ k - 1 \<and> (\<forall>s \<in> set (int_segments r). length s = 2 ^ k))"

definition int_at :: "ram_int_da \<Rightarrow> int \<Rightarrow> i32" where
  "int_at r n = (let z = segmentSizeInBytes r div 4
     in int_segments r ! nat (n div z) ! nat (n mod z))"

definition ramint_mem :: "ram_int_da \<Rightarrow> memory" where
  "ramint_mem r = (\<lambda>p. if 0 \<le> p \<and> p < ramint_Capacity r
     then bytes32 (int_at r (p div 4)) ! nat (p mod 4) else 0)"

definition ramint_supp :: "ram_int_da \<Rightarrow> nat \<Rightarrow> int \<Rightarrow> bool" where
  "ramint_supp r w p \<longleftrightarrow> (w = 4 \<and> p mod 4 = 0) \<or> (w = 2 \<and> p mod 2 = 0)"

lemma drop_bit_2 [simp]: "drop_bit 2 (p :: int) = p div 4"
  by (simp add: drop_bit_eq_div)

lemma int_slot_at:
  assumes inv: "ramint_inv r" and p: "0 \<le> p" "p < ramint_Capacity r"
  shows "int_slot p r = Some (int_at r (p div 4))"
    "\<exists>r'. put_int_slot p v r = Some r' \<and> ramint_inv r' \<and> ramint_Capacity r' = ramint_Capacity r \<and>
      (\<forall>n. 0 \<le> n \<longrightarrow> 4 * n < ramint_Capacity r \<longrightarrow> int_at r' n = (if n = p div 4 then v else int_at r n))"
proof -
  obtain k where k: "5 \<le> k" "segmentSizeInBytes r = 4 * 2 ^ k" "segmentSizeIntsPow r = int k"
    "indexDivisor r = 2 ^ k - 1" "\<forall>s \<in> set (int_segments r). length s = 2 ^ k"
    using inv by (auto simp: ramint_inv_def)
  let ?S = "int_segments r" and ?z = "2 ^ k :: int" and ?n = "p div 4"
  have nn: "0 \<le> ?n" using p(1) by simp
  have c: "ramint_Capacity r = int (length ?S) * ?z * 4" by (simp add: ramint_Capacity_def k(2))
  have s: "m div ?z < int (length ?S)" if "4 * m < ramint_Capacity r" for m
    using that unfolding c by (intro div_int_less) simp_all
  have "4 * ?n \<le> p" by simp
  then have sp: "?n div ?z < int (length ?S)" using p(2) s by simp
  have s0: "0 \<le> m div ?z" if "0 \<le> m" for m using that by (simp add: pos_imp_zdiv_nonneg_iff)
  have i: "0 \<le> m mod ?z" "m mod ?z < ?z" "nat (m mod ?z) < 2 ^ k" for m by (simp_all add: nat_less_iff)
  have seg: "nat (?n div ?z) < length ?S" using sp s0 [OF nn] by linarith
  then have l: "length (?S ! nat (?n div ?z)) = 2 ^ k" using k(5) by simp
  have D: "seg_of (segmentSizeIntsPow r) ?n = ?n div ?z" "seg_idx (indexDivisor r) ?n = ?n mod ?z"
    using seg_of_nat [OF nn, of k] seg_idx_mask [of k ?n] k(3,4) by simp_all
  show "int_slot p r = Some (int_at r ?n)"
    using sp s0 [OF nn] l i by (simp add: int_slot_def D idx_def int_at_def k(2) Let_def)
  let ?seg' = "(?S ! nat (?n div ?z))[nat (?n mod ?z) := v]"
  let ?r = "r\<lparr>int_segments := ?S[nat (?n div ?z) := ?seg']\<rparr>"
  have "put_int_slot p v r = Some ?r"
    using sp s0 [OF nn] l i by (simp add: put_int_slot_def D idx_def put_def Let_def)
  moreover have "\<forall>s \<in> set (?S[nat (?n div ?z) := ?seg']). length s = 2 ^ k"
    using set_update_subset_insert [of ?S "nat (?n div ?z)" ?seg'] k(5) l by fastforce
  then have "ramint_inv ?r" unfolding ramint_inv_def using k(1-4) by (intro exI [of _ k]) simp
  moreover have "ramint_Capacity ?r = ramint_Capacity r" by (simp add: ramint_Capacity_def)
  moreover have "int_at ?r m = (if m = ?n then v else int_at r m)"
    if m: "0 \<le> m" "4 * m < ramint_Capacity r" for m
  proof -
    have e: "m = ?n \<longleftrightarrow> m div ?z = ?n div ?z \<and> m mod ?z = ?n mod ?z"
      by (metis div_mult_mod_eq)
    have "nat (m div ?z) = nat (?n div ?z) \<longleftrightarrow> m div ?z = ?n div ?z"
      "nat (m mod ?z) = nat (?n mod ?z) \<longleftrightarrow> m mod ?z = ?n mod ?z"
      using s0 [OF m(1)] s0 [OF nn] i(1) by (simp_all add: eq_nat_nat_iff)
    with e have ne: "nat (m div ?z) \<noteq> nat (?n div ?z) \<or> nat (m mod ?z) \<noteq> nat (?n mod ?z)" if "m \<noteq> ?n"
      using that by blast
    show ?thesis
    proof (cases "m = ?n")
      case True
      then show ?thesis using seg l i(3) [of ?n] by (simp add: int_at_def k(2) Let_def)
    next
      case False
      with ne [OF this] seg l i(3) show ?thesis
        by (cases "nat (m div ?z) = nat (?n div ?z)") (simp_all add: int_at_def k(2) Let_def nth_list_update)
    qed
  qed
  ultimately show "\<exists>r'. put_int_slot p v r = Some r' \<and> ramint_inv r' \<and> ramint_Capacity r' = ramint_Capacity r \<and>
      (\<forall>n. 0 \<le> n \<longrightarrow> 4 * n < ramint_Capacity r \<longrightarrow> int_at r' n = (if n = p div 4 then v else int_at r n))"
    by blast
qed

lemma word32_bytes: "word32 (bytes32 v ! 0) (bytes32 v ! 1) (bytes32 v ! 2) (bytes32 v ! 3) = v"
  by (simp add: bytes32_def word32_def join32)

lemma put_int_slot_mem:
  assumes inv: "ramint_inv r" and p: "0 \<le> p" "p < ramint_Capacity r"
  obtains r' where "put_int_slot p v r = Some r'" "ramint_inv r'"
    "ramint_Capacity r' = ramint_Capacity r"
    "ramint_mem r' = upd (ramint_mem r) (4 * (p div 4)) (bytes32 v)"
proof -
  obtain r' where r': "put_int_slot p v r = Some r'" "ramint_inv r'"
    "ramint_Capacity r' = ramint_Capacity r"
    "\<And>n. 0 \<le> n \<Longrightarrow> 4 * n < ramint_Capacity r \<Longrightarrow> int_at r' n = (if n = p div 4 then v else int_at r n)"
    using int_slot_at(2) [OF inv p] by blast
  obtain k where "segmentSizeInBytes r = 4 * 2 ^ k" using inv by (auto simp: ramint_inv_def)
  then have "ramint_Capacity r = 4 * (int (length (int_segments r)) * 2 ^ k)" by (simp add: ramint_Capacity_def)
  then obtain m where c: "ramint_Capacity r = 4 * m" by blast
  have "ramint_mem r' q = upd (ramint_mem r) (4 * (p div 4)) (bytes32 v) q" for q
  proof (cases "0 \<le> q \<and> q < ramint_Capacity r")
    case True
    have at: "int_at r' (q div 4) = (if q div 4 = p div 4 then v else int_at r (q div 4))"
      by (rule r'(4)) (use True c in linarith)+
    have e: "(4 * (p div 4) \<le> q \<and> q < 4 * (p div 4) + 4) = (q div 4 = p div 4)" by linarith
    have "q - 4 * (p div 4) = q mod 4" if "q div 4 = p div 4"
      using div_mult_mod_eq [of q 4] unfolding that by linarith
    then show ?thesis using True at e r'(3) by (auto simp: ramint_mem_def upd_def)
  next
    case False
    then have "\<not> (4 * (p div 4) \<le> q \<and> q < 4 * (p div 4) + 4)" using p c by presburger
    then show ?thesis using False r'(3) by (auto simp: ramint_mem_def upd_def)
  qed
  then have "ramint_mem r' = upd (ramint_mem r) (4 * (p div 4)) (bytes32 v)" by (rule ext)
  with r'(1-3) show ?thesis by (rule that)
qed

lemma ramint_mem_byte:
  assumes "0 \<le> n" "4 * n + 4 \<le> ramint_Capacity r" "j < 4"
  shows "ramint_mem r (4 * n + int j) = bytes32 (int_at r n) ! j"
proof -
  have "(4 * n + int j) div 4 = n" "(4 * n + int j) mod 4 = int j" using assms(3) by simp_all
  then show ?thesis using assms by (simp add: ramint_mem_def)
qed

lemma ramint_cap_whole:
  assumes "ramint_inv r" "p < ramint_Capacity r"
  shows "4 * (p div 4) + 4 \<le> ramint_Capacity r"
proof -
  obtain k where "segmentSizeInBytes r = 4 * 2 ^ k" using assms(1) by (auto simp: ramint_inv_def)
  then have "ramint_Capacity r = 4 * (int (length (int_segments r)) * 2 ^ k)" by (simp add: ramint_Capacity_def)
  then obtain m where "ramint_Capacity r = 4 * m" by blast
  then show ?thesis using assms(2) by presburger
qed

lemma ffff: "(0xFFFF :: i32) = mask 16"
  by (simp add: mask_eq_exp_minus_1)

lemma low_half: "bytes32 ((old AND NOT 0xFFFF) OR (scast w AND 0xFFFF)) = bytes16 w @ drop 2 (bytes32 old)"
  unfolding ffff by (auto simp: bytes32_def bytes16_def bit_simps intro!: bit_word_eqI)

lemma high_half: "bytes32 ((old AND 0xFFFF) OR push_bit 16 (scast w)) = take 2 (bytes32 old) @ bytes16 w"
  unfolding ffff by (auto simp: bytes32_def bytes16_def bit_simps intro!: bit_word_eqI)

lemma ramint_pos:
  assumes "ramint_inv r" "0 \<le> p" "p < ramint_Capacity r"
  shows "\<And>j. j < 4 \<Longrightarrow> ramint_mem r (4 * (p div 4) + int j) = bytes32 (int_at r (p div 4)) ! j"
  using ramint_mem_byte [OF _ ramint_cap_whole [OF assms(1,3)]] assms(2) by simp

lemma ramint_half:
  assumes "ramint_inv r" "0 \<le> p" "p < ramint_Capacity r" "p mod 2 = 0"
  obtains (low) "p mod 4 = 0" "p = 4 * (p div 4)" | (high) "p mod 4 = 2" "p = 4 * (p div 4) + 2"
proof -
  have "p mod 4 = 0 \<or> p mod 4 = 2" using assms(4) by presburger
  moreover have e: "p = 4 * (p div 4) + p mod 4" by (rule mult_div_mod_eq [symmetric])
  ultimately show ?thesis
  proof (elim disjE)
    assume "p mod 4 = 0"
    with e show ?thesis by (intro low) linarith+
  next
    assume "p mod 4 = 2"
    with e show ?thesis by (intro high) linarith+
  qed
qed

lemma smod_4: "0 \<le> (p :: int) \<Longrightarrow> p smod 4 = p mod 4"
  by (cases "p = 0") (simp_all add: signed_modulo_int_def)

lemma upd_part:
  assumes "\<And>j. j < length xs \<Longrightarrow> m (p + int j) = xs ! j"
  shows "upd m p (xs @ ys) = upd m (p + int (length xs)) ys"
proof (rule ext)
  fix q
  show "upd m p (xs @ ys) q = upd m (p + int (length xs)) ys q"
  proof (cases "p \<le> q \<and> q < p + int (length xs)")
    case True
    then have "nat (q - p) < length xs" "q = p + int (nat (q - p))" by linarith+
    then have "m q = xs ! nat (q - p)" using assms by metis
    then show ?thesis using True \<open>nat (q - p) < length xs\<close> by (auto simp: upd_def nth_append)
  next
    case False
    have "nat (q - p) - length xs = nat (q - (p + int (length xs)))" by linarith
    moreover have "p \<le> q \<Longrightarrow> \<not> nat (q - p) < length xs" using False by linarith
    ultimately show ?thesis using False by (auto simp: upd_def nth_append)
  qed
qed

lemma upd_part_end:
  assumes "\<And>j. j < length ys \<Longrightarrow> m (p + int (length xs) + int j) = ys ! j"
  shows "upd m p (xs @ ys) = upd m p xs"
proof (rule ext)
  fix q
  show "upd m p (xs @ ys) q = upd m p xs q"
  proof (cases "p + int (length xs) \<le> q \<and> q < p + int (length xs) + int (length ys)")
    case True
    let ?j = "nat (q - p) - length xs"
    have "?j < length ys" "q = p + int (length xs) + int ?j" using True by linarith+
    then have "m q = ys ! ?j" using assms by metis
    then show ?thesis using True by (auto simp: upd_def nth_append nat_less_iff)
  next
    case False
    then show ?thesis by (auto simp: upd_def nth_append)
  qed
qed

lemma ramint_SetShort_law:
  assumes inv: "ramint_inv r" and p: "0 \<le> p" "p < ramint_Capacity r" "p mod 2 = 0"
  obtains r' where "ramint_SetShort p w r = Some r'" "ramint_inv r'"
    "ramint_Capacity r' = ramint_Capacity r" "ramint_mem r' = upd (ramint_mem r) p (bytes16 w)"
proof -
  note ret = that
  let ?n = "p div 4" let ?old = "int_at r (p div 4)"
  note M = ramint_pos [OF inv p(1,2)]
  have old: "int_slot p r = Some ?old" by (rule int_slot_at(1) [OF inv p(1,2)])
  show ?thesis
  proof (rule ramint_half [OF inv p])
    assume l: "p mod 4 = 0" "p = 4 * ?n"
    let ?v = "(?old AND NOT 0xFFFF) OR (scast w AND 0xFFFF)"
    obtain r' where r': "put_int_slot p ?v r = Some r'" "ramint_inv r'"
      "ramint_Capacity r' = ramint_Capacity r" "ramint_mem r' = upd (ramint_mem r) (4 * ?n) (bytes32 ?v)"
      by (rule put_int_slot_mem [OF inv p(1,2)])
    have "upd (ramint_mem r) (4 * ?n) (bytes32 ?v) = upd (ramint_mem r) (4 * ?n) (bytes16 w)"
      unfolding low_half
    proof (rule upd_part_end)
      fix j assume "j < length (drop 2 (bytes32 ?old))"
      then show "ramint_mem r (4 * ?n + int (length (bytes16 w)) + int j) = drop 2 (bytes32 ?old) ! j"
        using M [of "2 + j"] by (simp add: add.assoc)
    qed
    then have "ramint_mem r' = upd (ramint_mem r) p (bytes16 w)" using r'(4) l(2) by simp
    moreover have "ramint_SetShort p w r = Some r'"
      using old r'(1) l p(1) by (simp add: ramint_SetShort_def smod_4)
    ultimately show ?thesis using r'(2,3) by (intro ret)
  next
    assume h: "p mod 4 = 2" "p = 4 * ?n + 2"
    let ?v = "(?old AND 0xFFFF) OR push_bit 16 (scast w)"
    obtain r' where r': "put_int_slot p ?v r = Some r'" "ramint_inv r'"
      "ramint_Capacity r' = ramint_Capacity r" "ramint_mem r' = upd (ramint_mem r) (4 * ?n) (bytes32 ?v)"
      by (rule put_int_slot_mem [OF inv p(1,2)])
    have "upd (ramint_mem r) (4 * ?n) (bytes32 ?v) =
        upd (ramint_mem r) (4 * ?n + int (length (take 2 (bytes32 ?old)))) (bytes16 w)"
      unfolding high_half by (rule upd_part) (use M in simp)
    then have "ramint_mem r' = upd (ramint_mem r) p (bytes16 w)" using r'(4) h(2) by simp
    moreover have "ramint_SetShort p w r = Some r'"
      using old r'(1) h p(1) by (simp add: ramint_SetShort_def smod_4)
    ultimately show ?thesis using r'(2,3) by (intro ret)
  qed
qed

lemma ramint_GetShort_law:
  assumes inv: "ramint_inv r" and p: "0 \<le> p" "p < ramint_Capacity r" "p mod 2 = 0"
  shows "ramint_GetShort p r = Some (mem16 (ramint_mem r) p)"
proof -
  let ?n = "p div 4" let ?old = "int_at r (p div 4)"
  note M = ramint_pos [OF inv p(1,2)]
  have old: "int_slot p r = Some ?old" by (rule int_slot_at(1) [OF inv p(1,2)])
  show ?thesis
  proof (rule ramint_half [OF inv p])
    assume l: "p mod 4 = 0" "p = 4 * ?n"
    have "ucast (?old AND 0xFFFF) = word16 (bytes32 ?old ! 0) (bytes32 ?old ! 1)"
      unfolding ffff by (auto simp: word16_def bytes32_def bit_simps intro!: bit_word_eqI)
    then show ?thesis
      using old l p(1) M [of 0] M [of 1] by (simp add: ramint_GetShort_def smod_4 mem16_def)
  next
    assume h: "p mod 4 = 2" "p = 4 * ?n + 2"
    have "ucast (signed_drop_bit 16 ?old) = word16 (bytes32 ?old ! 2) (bytes32 ?old ! 3)"
      by (auto simp: word16_def bytes32_def numeral_2_eq_2 numeral_3_eq_3 bit_simps intro!: bit_word_eqI)
    moreover have "p + 1 = 4 * ?n + int 3" "p = 4 * ?n + int 2" using h(2) by simp_all
    then have "ramint_mem r p = bytes32 ?old ! 2" "ramint_mem r (p + 1) = bytes32 ?old ! 3"
      using M [of 2] M [of 3] by (metis numeral_less_iff semiring_norm)+
    ultimately show ?thesis
      using old h p(1) by (simp add: ramint_GetShort_def smod_4 mem16_def)
  qed
qed

lemma ramint_Ensure_law:
  assumes inv: "ramint_inv r" and n: "0 \<le> n"
  obtains g r' where "ramint_EnsureCapacity n r = Some (g, r')" "ramint_inv r'"
    "ramint_Capacity r \<le> ramint_Capacity r'" "n \<le> ramint_Capacity r'" "ramint_mem r' = ramint_mem r"
proof (cases "n - ramint_Capacity r \<le> 0")
  case True
  then show ?thesis using n inv by (intro that [of False r]) (simp_all add: ramint_EnsureCapacity_def)
next
  case False
  obtain k where k: "5 \<le> k" "segmentSizeInBytes r = 4 * 2 ^ k" "segmentSizeIntsPow r = int k"
    "indexDivisor r = 2 ^ k - 1" "\<forall>s \<in> set (int_segments r). length s = 2 ^ k"
    using inv by (auto simp: ramint_inv_def)
  let ?z = "2 ^ k :: int" let ?S = "int_segments r"
  obtain m where m: "segments_for (n - ramint_Capacity r) (4 * ?z) = Some m" "0 < m"
    "n - ramint_Capacity r \<le> m * (4 * ?z)"
    by (rule segments_for_spec [of "n - ramint_Capacity r" "4 * ?z"]) (use False in simp_all)
  let ?S' = "?S @ replicate (nat m) (replicate (2 ^ k) 0)"
  let ?r = "r\<lparr>int_segments := ?S'\<rparr>"
  have e: "ramint_EnsureCapacity n r = Some (True, ?r)"
    using False n m(1) k(2,3) by (simp add: ramint_EnsureCapacity_def Let_def)
  have inv': "ramint_inv ?r" unfolding ramint_inv_def using k by (intro exI [of _ k]) auto
  have c: "ramint_Capacity ?r = ramint_Capacity r + m * (4 * ?z)"
    using m(2) k(2) by (simp add: ramint_Capacity_def distrib_right)
  have ge: "ramint_Capacity r \<le> ramint_Capacity ?r" unfolding c using m(2) by simp
  have "ramint_mem ?r q = ramint_mem r q" for q
  proof (cases "0 \<le> q \<and> q < ramint_Capacity ?r")
    case True
    let ?n = "q div 4"
    have n0: "0 \<le> ?n" "0 \<le> ?n div ?z" using True by (simp_all add: pos_imp_zdiv_nonneg_iff)
    have j: "nat (?n mod ?z) < 2 ^ k" by (simp add: nat_less_iff)
    show ?thesis
    proof (cases "q < ramint_Capacity r")
      case lt: True
      then have "q < int (length ?S) * ?z * 4" using k(2) by (simp add: ramint_Capacity_def)
      then have "?n < int (length ?S) * ?z" by (intro div_int_less) simp_all
      then have "?n div ?z < int (length ?S)" by (intro div_int_less) simp_all
      then have "nat (?n div ?z) < length ?S" using n0 by (simp add: nat_less_iff)
      then show ?thesis using True lt k(2) by (simp add: ramint_mem_def int_at_def Let_def nth_append)
    next
      case nlt: False
      have "int (length ?S) * ?z * 4 \<le> q" using nlt k(2) by (simp add: ramint_Capacity_def)
      then have "int (length ?S) * ?z \<le> ?n" using zdiv_mono1 [of "int (length ?S) * ?z * 4" q 4] by simp
      then have "int (length ?S) \<le> ?n div ?z" using zdiv_mono1 [of "int (length ?S) * ?z" ?n ?z] by simp
      then have b1: "length ?S \<le> nat (?n div ?z)" by linarith
      have "q < int (length ?S') * ?z * 4" using True k(2) by (simp add: ramint_Capacity_def)
      then have "?n < int (length ?S') * ?z" by (intro div_int_less) simp_all
      then have "?n div ?z < int (length ?S')" by (intro div_int_less) simp_all
      then have "nat (?n div ?z) < length ?S'" using n0 by (simp add: nat_less_iff)
      then have "?S' ! nat (?n div ?z) = replicate (2 ^ k) 0" using b1 by (simp add: nth_append)
      then have "int_at ?r ?n = 0" using j k(2) by (simp add: int_at_def Let_def)
      moreover have "bytes32 0 ! nat (q mod 4) = 0"
      proof -
        have "nat (q mod 4) < 4" by (simp add: nat_less_iff)
        then show ?thesis by (auto simp: bytes32_def nth_Cons' numeral_eq_Suc less_Suc_eq)
      qed
      ultimately show ?thesis using True nlt by (simp add: ramint_mem_def)
    qed
  next
    case False
    then have A: "(0 \<le> q \<and> q < ramint_Capacity ?r) = False" "(0 \<le> q \<and> q < ramint_Capacity r) = False"
      using ge by (blast, meson dual_order.strict_trans1 False)
    show ?thesis by (simp only: ramint_mem_def A if_False)
  qed
  then have "ramint_mem ?r = ramint_mem r" by (rule ext)
  then show ?thesis using e inv' c m ge by (intro that [of True ?r]) simp_all
qed

interpretation ramint: data_access_contract ramint_GetInt ramint_SetInt ramint_GetShort ramint_SetShort
  ramint_GetByte ramint_SetByte ramint_EnsureCapacity ramint_inv ramint_Capacity ramint_mem ramint_supp
proof
  fix d :: ram_int_da and p :: int and v :: i32
  assume d: "ramint_inv d" "0 \<le> p" "p + 4 \<le> ramint_Capacity d" "ramint_supp d 4 p"
  then have p: "p < ramint_Capacity d" "p = 4 * (p div 4)" by (auto simp: ramint_supp_def)
  have "ramint_GetInt p d = Some (int_at d (p div 4))"
    unfolding ramint_GetInt_def by (rule int_slot_at(1) [OF d(1,2) p(1)])
  moreover have "mem32 (ramint_mem d) p = int_at d (p div 4)"
  proof -
    note M = ramint_pos [OF d(1,2) p(1), unfolded p(2) [symmetric]]
    show ?thesis using M [of 0] M [of 1] M [of 2] M [of 3] word32_bytes by (simp add: mem32_def)
  qed
  ultimately show "ramint_GetInt p d = Some (mem32 (ramint_mem d) p)" by simp
  show "\<exists>d'. ramint_SetInt p v d = Some d' \<and> ramint_inv d' \<and> ramint_Capacity d' = ramint_Capacity d \<and>
      ramint_supp d' = ramint_supp d \<and> ramint_mem d' = upd (ramint_mem d) p (bytes32 v)"
    unfolding ramint_SetInt_def ramint_supp_def [abs_def]
    by (rule put_int_slot_mem [OF d(1,2) p(1), of v], unfold p(2) [symmetric]) blast
next
  fix d :: ram_int_da and p :: int and v :: i16
  assume d: "ramint_inv d" "0 \<le> p" "p + 2 \<le> ramint_Capacity d" "ramint_supp d 2 p"
  then have p: "p < ramint_Capacity d" "p mod 2 = 0" by (auto simp: ramint_supp_def)
  show "ramint_GetShort p d = Some (mem16 (ramint_mem d) p)" by (rule ramint_GetShort_law [OF d(1,2) p])
  show "\<exists>d'. ramint_SetShort p v d = Some d' \<and> ramint_inv d' \<and> ramint_Capacity d' = ramint_Capacity d \<and>
      ramint_supp d' = ramint_supp d \<and> ramint_mem d' = upd (ramint_mem d) p (bytes16 v)"
    unfolding ramint_supp_def [abs_def] by (rule ramint_SetShort_law [OF d(1,2) p, of v]) blast
next
  fix d :: ram_int_da and n :: int
  assume inv: "ramint_inv d" and n: "0 \<le> n"
  show "\<exists>g d'. ramint_EnsureCapacity n d = Some (g, d') \<and> ramint_inv d' \<and>
      ramint_Capacity d \<le> ramint_Capacity d' \<and> n \<le> ramint_Capacity d' \<and>
      ramint_supp d' = ramint_supp d \<and> ramint_mem d' = ramint_mem d"
    unfolding ramint_supp_def [abs_def] by (rule ramint_Ensure_law [OF inv n]) blast
qed (auto simp: ramint_supp_def)

section \<open>Flush and LoadExisting\<close>

lemma le_ints_bytes: "le_ints (concat (map bytes32 xs)) = xs"
proof (induction xs)
  case (Cons x xs)
  then show ?case using word32_bytes [of x] by (simp add: bytes32_def numeral_2_eq_2 numeral_3_eq_3)
qed simp

lemma length_concat_bytes32 [simp]: "length (concat (map bytes32 xs)) = 4 * length xs"
  by (induction xs) simp_all

lemma read_int_segments_concat:
  assumes "\<forall>s \<in> set segs. 4 * length s = z"
  shows "read_int_segments (length segs) z (concat (map (\<lambda>area. concat (map bytes32 area)) segs)) = segs"
  using assms by (induction segs) (simp_all add: le_ints_bytes)

lemma ramint_Flush_LoadExisting:
  assumes inv: "ramint_inv r" "length (da_header r) = headerCount" "segmentSizeInBytes r < 2 ^ 32"
    and r: "int_store r" "\<not> da_closed r" "int_segments r \<noteq> []" "ramint_Capacity r < 2 ^ 63"
    and r0: "fullName r0 = fullName r" "int_store r0" "\<not> da_closed r0" "int_segments r0 = []"
  obtains fs' r' where "ramint_Flush r fs = Some fs'" "ramint_LoadExisting fs' r0 = Some (True, r')"
    "int_segments r' = int_segments r" "da_header r' = da_header r"
    "segmentSizeInBytes r' = segmentSizeInBytes r" "ramint_inv r'" "ramint_mem r' = ramint_mem r"
proof -
  obtain k where k: "5 \<le> k" "segmentSizeInBytes r = 4 * 2 ^ k" "segmentSizeIntsPow r = int k"
    "indexDivisor r = 2 ^ k - 1" "\<forall>s \<in> set (int_segments r). length s = 2 ^ k"
    using inv(1) by (auto simp: ramint_inv_def)
  have z: "4 * 2 ^ k = (2::int) ^ (k + 2)" by simp
  have k32: "k + 2 < 32"
  proof (rule ccontr)
    assume "\<not> k + 2 < 32"
    then have "(2::int) ^ 32 \<le> 2 ^ (k + 2)" by (intro power_increasing) auto
    then show False using inv(3) k(2) by simp
  qed
  have k7: "7 \<le> k + 2" using k(1) by simp
  let ?body = "concat (map (\<lambda>area. concat (map bytes32 area)) (int_segments r))"
  let ?w = "writeHeader r (ramint_Capacity r) (2 ^ (k + 2))"
  let ?n = "length (int_segments r)"
  have l: "length ?w = 100" by (rule length_writeHeader [OF inv(2)])
  have cap: "ramint_Capacity r = int ?n * 2 ^ (k + 2)" by (simp add: ramint_Capacity_def k(2))
  have hz: "headerOffset < 2 ^ (k + 2)" using power_increasing [OF k7, of "2::int"] by (simp add: header_consts)
  have n0: "0 < ?n" using r(3) by simp
  have "1 * (2::int) ^ (k + 2) \<le> int ?n * 2 ^ (k + 2)" using n0 by (intro mult_right_mono) (linarith, simp)
  then have big: "headerOffset < ramint_Capacity r" using hz cap by linarith
  have rd: "readHeader r0 (?w @ ?body) =
    Some (ramint_Capacity r, (setSegmentSize r0 (2 ^ (k + 2)))\<lparr>da_header := da_header r\<rparr>)"
    by (rule readHeader_writeHeader [OF inv(2) k7 k32]) (use big r(4) in \<open>simp_all add: header_consts\<close>)
  have sf: "segments_for (ramint_Capacity r - headerOffset) (2 ^ (k + 2)) = Some (int ?n)"
    unfolding cap by (rule segments_for_capacity [OF n0 hz])
  have rs: "read_int_segments ?n (2 ^ (k + 2)) ?body = int_segments r"
    by (rule read_int_segments_concat) (use k(5) in simp)
  have dr: "drop (nat headerOffset) (?w @ ?body) = ?body" using l by (simp add: header_consts)
  have ne: "?w @ ?body \<noteq> []" using l by auto
  define r' where "r' = (updateIntsPower ((setSegmentSize r0 (2 ^ (k + 2)))\<lparr>da_header := da_header r\<rparr>))
    \<lparr>int_segments := int_segments r\<rparr>"
  have sdiv4: "(4 * 2 ^ k :: int) sdiv 4 = 2 ^ k" by (simp add: signed_divide_int_def)
  have r': "segmentSizeInBytes r' = 4 * 2 ^ k" "segmentSizeIntsPow r' = int k" "indexDivisor r' = 2 ^ k - 1"
    "int_segments r' = int_segments r" "da_header r' = da_header r"
    using sdiv4 setSegmentSize_power [OF k7, of r0, folded z]
    by (simp_all add: r'_def updateIntsPower_def Let_def nat_power_eq trailing_zeros_power)
  have fl: "ramint_Flush r fs = Some (fs(fullName r \<mapsto> ?w @ ?body))"
    using r(1,2) k(2) by (simp add: ramint_Flush_def)
  have ld: "ramint_LoadExisting (fs(fullName r \<mapsto> ?w @ ?body)) r0 = Some (True, r')"
  proof -
    have "nat (2 ^ (k + 2)) = 2 ^ (k + 2)" by (simp only: nat_power_eq zero_le_numeral nat_numeral)
    moreover have "segmentSizeInBytes (updateIntsPower
        ((setSegmentSize r0 (2 ^ (k + 2)))\<lparr>da_header := da_header r\<rparr>)) = 2 ^ (k + 2)"
      using setSegmentSize_power [OF k7, of r0, folded z] by (simp add: updateIntsPower_def Let_def)
    ultimately show ?thesis
      using r0 big sf rs unfolding r'_def
      by (simp only: ramint_LoadExisting_def fun_upd_same option.case if_not_P [OF ne] rd dr)
        (simp del: power_add)
  qed
  have "ramint_inv r'" unfolding ramint_inv_def using k r' by (intro exI [of _ k]) simp
  moreover have "ramint_mem r' = ramint_mem r"
    by (rule ext) (simp add: ramint_mem_def ramint_Capacity_def int_at_def r' k(2))
  ultimately show ?thesis using fl ld r' k(2) by (intro that [of _ r']) simp_all
qed

end
