(* ===== verification/StorageAccess.thy ===== *)
theory StorageAccess imports RamIntDataAccess begin

text \<open>
  \<^verbatim>\<open>core/storage/data_access.go\<close> and \<^verbatim>\<open>directory.go\<close>: a value of the interface
  \<open>DataAccess\<close> is one of the two implementations, chosen by its type when a directory creates it.
  Memory mapped types are served by the byte based implementation. The regular expressions of
  \<open>Configure\<close> are a parameter.
\<close>

section \<open>The interface value\<close>

datatype data_access = Ram ram_da | RamInt ram_int_da

fun da_GetInt :: "int \<Rightarrow> data_access \<Rightarrow> i32 option" where
  "da_GetInt p (Ram r) = ram_GetInt p r"
| "da_GetInt p (RamInt r) = ramint_GetInt p r"

fun da_SetInt :: "int \<Rightarrow> i32 \<Rightarrow> data_access \<Rightarrow> data_access option" where
  "da_SetInt p v (Ram r) = map_option Ram (ram_SetInt p v r)"
| "da_SetInt p v (RamInt r) = map_option RamInt (ramint_SetInt p v r)"

fun da_GetShort :: "int \<Rightarrow> data_access \<Rightarrow> i16 option" where
  "da_GetShort p (Ram r) = ram_GetShort p r"
| "da_GetShort p (RamInt r) = ramint_GetShort p r"

fun da_SetShort :: "int \<Rightarrow> i16 \<Rightarrow> data_access \<Rightarrow> data_access option" where
  "da_SetShort p v (Ram r) = map_option Ram (ram_SetShort p v r)"
| "da_SetShort p v (RamInt r) = map_option RamInt (ramint_SetShort p v r)"

fun da_GetByte :: "int \<Rightarrow> data_access \<Rightarrow> byte option" where
  "da_GetByte p (Ram r) = ram_GetByte p r"
| "da_GetByte p (RamInt r) = ramint_GetByte p r"

fun da_SetByte :: "int \<Rightarrow> byte \<Rightarrow> data_access \<Rightarrow> data_access option" where
  "da_SetByte p v (Ram r) = map_option Ram (ram_SetByte p v r)"
| "da_SetByte p v (RamInt r) = map_option RamInt (ramint_SetByte p v r)"

fun da_GetBytes :: "int \<Rightarrow> byte list \<Rightarrow> int \<Rightarrow> data_access \<Rightarrow> byte list option" where
  "da_GetBytes p b n (Ram r) = ram_GetBytes p b n r"
| "da_GetBytes p b n (RamInt r) = ramint_GetBytes p b n r"

fun da_SetBytes :: "int \<Rightarrow> byte list \<Rightarrow> int \<Rightarrow> data_access \<Rightarrow> data_access option" where
  "da_SetBytes p b n (Ram r) = map_option Ram (ram_SetBytes p b n r)"
| "da_SetBytes p b n (RamInt r) = map_option RamInt (ramint_SetBytes p b n r)"

fun da_EnsureCapacity :: "int \<Rightarrow> data_access \<Rightarrow> (bool \<times> data_access) option" where
  "da_EnsureCapacity n (Ram r) = map_option (map_prod id Ram) (ram_EnsureCapacity n r)"
| "da_EnsureCapacity n (RamInt r) = map_option (map_prod id RamInt) (ramint_EnsureCapacity n r)"

fun da_Create :: "int \<Rightarrow> data_access \<Rightarrow> data_access option" where
  "da_Create n (Ram r) = map_option Ram (ram_Create n r)"
| "da_Create n (RamInt r) = map_option RamInt (ramint_Create n r)"

fun da_Set_Header :: "int \<Rightarrow> i32 \<Rightarrow> data_access \<Rightarrow> data_access option" where
  "da_Set_Header p v (Ram r) = map_option Ram (da_SetHeader p v r)"
| "da_Set_Header p v (RamInt r) = map_option RamInt (da_SetHeader p v r)"

fun da_Get_Header :: "int \<Rightarrow> data_access \<Rightarrow> i32 option" where
  "da_Get_Header p (Ram r) = da_GetHeader p r"
| "da_Get_Header p (RamInt r) = da_GetHeader p r"

fun da_Capacity :: "data_access \<Rightarrow> int" where
  "da_Capacity (Ram r) = ram_Capacity r"
| "da_Capacity (RamInt r) = ramint_Capacity r"

fun da_IsClosed :: "data_access \<Rightarrow> bool" where
  "da_IsClosed (Ram r) = da_closed r"
| "da_IsClosed (RamInt r) = da_closed r"

fun da_Close :: "data_access \<Rightarrow> data_access" where
  "da_Close (Ram r) = Ram (ram_Close r)"
| "da_Close (RamInt r) = RamInt (ramint_Close r)"

fun da_Flush :: "data_access \<Rightarrow> file_system \<Rightarrow> file_system option" where
  "da_Flush (Ram r) fs = ram_Flush r fs"
| "da_Flush (RamInt r) fs = ramint_Flush r fs"

fun da_LoadExisting :: "file_system \<Rightarrow> data_access \<Rightarrow> (bool \<times> data_access) option" where
  "da_LoadExisting fs (Ram r) = map_option (map_prod id Ram) (ram_LoadExisting fs r)"
| "da_LoadExisting fs (RamInt r) = map_option (map_prod id RamInt) (ramint_LoadExisting fs r)"

section \<open>GHDirectory\<close>

record gh_directory =
  dir_location :: string
  typeFallback :: da_type
  defaultTypes :: "(string \<times> da_type) list"
  das_names :: "string list"

definition NewGHDirectory :: "string \<Rightarrow> string \<Rightarrow> da_type \<Rightarrow> gh_directory" where
  "NewGHDirectory cwd location defaultType =
     (let location = (if location = [] then cwd else location);
          location = (if location = [] \<or> last location \<noteq> CHR ''/'' then location @ ''/'' else location)
      in \<lparr>dir_location = location, typeFallback = defaultType, defaultTypes = [], das_names = []\<rparr>)"

definition NewRAMDirectory :: "string \<Rightarrow> string \<Rightarrow> bool \<Rightarrow> gh_directory" where
  "NewRAMDirectory cwd location store =
     NewGHDirectory cwd location (if store then DATypeRAMStore else DATypeRAM)"

text \<open>
  \<open>matches\<close> is the anchored match of a pattern with a name. The code iterates over a map: with
  several matching patterns the choice is not determined, and the order of the list stands for it.
\<close>

definition getDefault :: "(string \<Rightarrow> string \<Rightarrow> bool) \<Rightarrow> gh_directory \<Rightarrow> string \<Rightarrow> da_type" where
  "getDefault matches d name =
     (case List.find (\<lambda>(pattern, dt). matches pattern name) (defaultTypes d) of
        Some (pattern, dt) \<Rightarrow> dt | None \<Rightarrow> typeFallback d)"

definition DefaultTypeFor :: "(string \<Rightarrow> string \<Rightarrow> bool) \<Rightarrow> gh_directory \<Rightarrow> string \<Rightarrow> bool \<Rightarrow> da_type" where
  "DefaultTypeFor matches d name preferInts =
     (let dt = getDefault matches d name
      in if preferInts \<and> IsInMemory dt
         then (if Storing dt then DATypeRAMIntStore else DATypeRAMInt) else dt)"

definition is_upper :: "char \<Rightarrow> bool" where
  "is_upper c \<longleftrightarrow> 65 \<le> (of_char c :: nat) \<and> (of_char c :: nat) \<le> 90"

definition CreateFull :: "string \<Rightarrow> da_type \<Rightarrow> int \<Rightarrow> gh_directory \<Rightarrow> (data_access \<times> gh_directory) option" where
  "CreateFull name daType segmentSize d = do {
     check (\<not> list_ex is_upper name);
     check (name \<notin> set (das_names d));
     da \<leftarrow> (if IsInMemory daType \<and> Integ daType
       then map_option RamInt (NewRAMIntDataAccess name (dir_location d) (Storing daType) segmentSize)
       else if IsInMemory daType
       then map_option Ram (NewRAMDataAccess name (dir_location d) (Storing daType) segmentSize)
       else if IsMMap daType
       then map_option Ram (NewRAMDataAccess name (dir_location d) True segmentSize)
       else None);
     Some (da, d\<lparr>das_names := name # das_names d\<rparr>) }"

text \<open>
  \<open>da\<close> is the data access the directory has under the name. It is closed, and its file is removed when it has one; an
  error of the removal is ignored by the code.
\<close>

fun da_Name :: "data_access \<Rightarrow> string" where
  "da_Name (Ram r) = da_name r"
| "da_Name (RamInt r) = da_name r"

fun da_Type :: "data_access \<Rightarrow> da_type" where
  "da_Type (Ram r) = ram_Type r"
| "da_Type (RamInt r) = ramint_Type r"

definition dir_Remove :: "string \<Rightarrow> data_access \<Rightarrow> gh_directory \<Rightarrow> file_system \<Rightarrow> (data_access \<times> gh_directory \<times> file_system) option" where
  "dir_Remove name da d fs = do {
     check (name \<in> set (das_names d));
     let da = da_Close da;
     Some (da, d\<lparr>das_names := filter (\<lambda>n. n \<noteq> name) (das_names d)\<rparr>,
       if Storing (da_Type da) then fs(dir_location d @ name := None) else fs) }"

section \<open>The contract\<close>

fun da_inv :: "data_access \<Rightarrow> bool" where
  "da_inv (Ram r) = ram_inv r"
| "da_inv (RamInt r) = ramint_inv r"

fun da_mem :: "data_access \<Rightarrow> memory" where
  "da_mem (Ram r) = ram_mem r"
| "da_mem (RamInt r) = ramint_mem r"

fun da_supp :: "data_access \<Rightarrow> nat \<Rightarrow> int \<Rightarrow> bool" where
  "da_supp (Ram r) = (\<lambda>_ _. True)"
| "da_supp (RamInt r) = ramint_supp r"

lemma map_optionE:
  assumes "\<exists>d'. m = Some d' \<and> P d'" "\<And>d'. P d' \<Longrightarrow> Q (f d')"
  shows "\<exists>d'. map_option f m = Some d' \<and> Q d'"
  using assms by auto

interpretation da: data_access_contract da_GetInt da_SetInt da_GetShort da_SetShort da_GetByte
  da_SetByte da_EnsureCapacity da_inv da_Capacity da_mem da_supp
proof
  fix d :: data_access and p :: int and v :: i32
  assume d: "da_inv d" "0 \<le> p" "p + 4 \<le> da_Capacity d" "da_supp d 4 p"
  then show "da_GetInt p d = Some (mem32 (da_mem d) p)"
    by (cases d) (simp_all add: ram.GetInt_law ramint.GetInt_law)
  show "\<exists>d'. da_SetInt p v d = Some d' \<and> da_inv d' \<and> da_Capacity d' = da_Capacity d \<and>
      da_supp d' = da_supp d \<and> da_mem d' = upd (da_mem d) p (bytes32 v)"
  proof (cases d)
    case (Ram r)
    then show ?thesis unfolding Ram da_SetInt.simps
      by (intro map_optionE [OF ram.SetInt_law [of r p v]]) (use d Ram in auto)
  next
    case (RamInt r)
    then show ?thesis unfolding RamInt da_SetInt.simps
      by (intro map_optionE [OF ramint.SetInt_law [of r p v]]) (use d RamInt in auto)
  qed
next
  fix d :: data_access and p :: int and v :: i16
  assume d: "da_inv d" "0 \<le> p" "p + 2 \<le> da_Capacity d" "da_supp d 2 p"
  then show "da_GetShort p d = Some (mem16 (da_mem d) p)"
    by (cases d) (simp_all add: ram.GetShort_law ramint.GetShort_law)
  show "\<exists>d'. da_SetShort p v d = Some d' \<and> da_inv d' \<and> da_Capacity d' = da_Capacity d \<and>
      da_supp d' = da_supp d \<and> da_mem d' = upd (da_mem d) p (bytes16 v)"
  proof (cases d)
    case (Ram r)
    then show ?thesis unfolding Ram da_SetShort.simps
      by (intro map_optionE [OF ram.SetShort_law [of r p v]]) (use d Ram in auto)
  next
    case (RamInt r)
    then show ?thesis unfolding RamInt da_SetShort.simps
      by (intro map_optionE [OF ramint.SetShort_law [of r p v]]) (use d RamInt in auto)
  qed
next
  fix d :: data_access and p :: int and v :: byte
  assume d: "da_inv d" "0 \<le> p" "p < da_Capacity d" "da_supp d 1 p"
  then show "da_GetByte p d = Some (da_mem d p)"
    by (cases d) (simp_all add: ram.GetByte_law ramint.GetByte_law)
  show "\<exists>d'. da_SetByte p v d = Some d' \<and> da_inv d' \<and> da_Capacity d' = da_Capacity d \<and>
      da_supp d' = da_supp d \<and> da_mem d' = upd (da_mem d) p [v]"
  proof (cases d)
    case (Ram r)
    then show ?thesis unfolding Ram da_SetByte.simps
      by (intro map_optionE [OF ram.SetByte_law [of r p v]]) (use d Ram in auto)
  next
    case (RamInt r)
    then show ?thesis unfolding RamInt da_SetByte.simps
      by (intro map_optionE [OF ramint.SetByte_law [of r p v]]) (use d RamInt in auto)
  qed
next
  fix d :: data_access and n :: int
  assume d: "da_inv d" "0 \<le> n"
  then show "\<exists>g d'. da_EnsureCapacity n d = Some (g, d') \<and> da_inv d' \<and> da_Capacity d \<le> da_Capacity d' \<and>
      n \<le> da_Capacity d' \<and> da_supp d' = da_supp d \<and> da_mem d' = da_mem d"
  proof (cases d)
    case (Ram r)
    then show ?thesis using ram.Ensure_law [of r n] d by auto
  next
    case (RamInt r)
    then show ?thesis using ramint.Ensure_law [of r n] d by auto
  qed
qed

section \<open>Fresh data accesses\<close>

lemma setSegmentSize_pos:
  assumes "0 < n"
  obtains k where "7 \<le> k" "setSegmentSize b n =
    b\<lparr>segmentSizeInBytes := 2 ^ k, segmentSizePower := int k, indexDivisor := 2 ^ k - 1\<rparr>"
proof -
  let ?k = "max (bits_Len (nat n) - 1) 7"
  have "max (2 ^ (bits_Len (nat n) - 1)) segmentSizeMin = (2::int) ^ ?k"
  proof (cases "bits_Len (nat n) - 1 \<le> 7")
    case True
    then have "(2::int) ^ (bits_Len (nat n) - 1) \<le> 2 ^ 7" by (intro power_increasing) auto
    then show ?thesis using True by (simp add: segmentSizeMin_def max_absorb2)
  next
    case False
    then have "(2::int) ^ 7 \<le> 2 ^ (bits_Len (nat n) - 1)" by (intro power_increasing) auto
    then show ?thesis using False by (simp add: segmentSizeMin_def)
  qed
  then show ?thesis
    using assms by (intro that [of ?k])
      (simp_all add: setSegmentSize_def Let_def nat_power_eq trailing_zeros_power)
qed

lemma newDataAccessBase_ok:
  assumes "segmentSize \<noteq> 0" "location = [] \<or> last location = CHR ''/''"
  obtains k b where "7 \<le> k" "newDataAccessBase name location segmentSize = Some b"
    "segmentSizeInBytes b = 2 ^ k" "segmentSizePower b = int k" "indexDivisor b = 2 ^ k - 1"
    "da_closed b = False" "da_header b = replicate headerCount 0" "da_name b = name" "da_location b = location"
proof -
  let ?b = "\<lparr>da_name = name, da_location = location, da_header = replicate headerCount 0,
    segmentSizeInBytes = 0, segmentSizePower = 0, indexDivisor = 0, da_closed = False\<rparr>"
  let ?z = "if segmentSize < 0 then segmentSizeDefault else segmentSize"
  have "0 < ?z" using assms(1) by (auto simp: segmentSizeDefault_def)
  then obtain k where k: "7 \<le> k" "setSegmentSize ?b ?z =
    ?b\<lparr>segmentSizeInBytes := 2 ^ k, segmentSizePower := int k, indexDivisor := 2 ^ k - 1\<rparr>"
    by (rule setSegmentSize_pos)
  have "newDataAccessBase name location segmentSize = Some (setSegmentSize ?b ?z)"
    using assms(2) by (auto simp: newDataAccessBase_def Let_def)
  then show ?thesis unfolding k(2) by (rule that [OF k(1)]) simp_all
qed

lemma CreateFull_ok:
  assumes "\<not> list_ex is_upper name" "name \<notin> set (das_names dir)" "IsInMemory dt" "segmentSize \<noteq> 0"
    "dir_location dir = [] \<or> last (dir_location dir) = CHR ''/''"
  obtains d where "CreateFull name dt segmentSize dir = Some (d, dir\<lparr>das_names := name # das_names dir\<rparr>)"
    "da_inv d" "da_Capacity d = 0" "da_mem d = (\<lambda>_. 0)"
    "\<And>w p. da_supp d w p \<longleftrightarrow> (Integ dt \<longrightarrow> w = 4 \<and> p mod 4 = 0 \<or> w = 2 \<and> p mod 2 = 0)"
proof -
  note ret = that
  obtain k b where b: "7 \<le> k" "newDataAccessBase name (dir_location dir) segmentSize = Some b"
    "segmentSizeInBytes b = 2 ^ k" "segmentSizePower b = int k" "indexDivisor b = 2 ^ k - 1"
    "da_closed b = False"
    by (rule newDataAccessBase_ok [OF assms(4,5)])
  show ?thesis
  proof (cases "Integ dt")
    case True
    let ?r = "updateIntsPower (da_base.extend b \<lparr>int_segments = [], int_store = Storing dt, segmentSizeIntsPow = 0\<rparr>)"
    define j where "j = k - 2"
    have j: "k = j + 2" "5 \<le> j" using b(1) by (auto simp: j_def)
    have z: "(2::int) ^ k = 4 * 2 ^ j" by (simp add: j(1))
    have "(4 * 2 ^ j :: int) sdiv 4 = 2 ^ j" by (simp add: signed_divide_int_def)
    then have r: "segmentSizeInBytes ?r = 4 * 2 ^ j" "segmentSizeIntsPow ?r = int j" "indexDivisor ?r = 2 ^ j - 1"
      "int_segments ?r = []"
      using b(3) z by (simp_all add: updateIntsPower_def Let_def nat_power_eq trailing_zeros_power da_base.defs)
    show ?thesis
      by (rule ret [of "RamInt ?r"])
        (use assms b(2) True r j in \<open>auto simp: CreateFull_def NewRAMIntDataAccess_def ramint_inv_def
          ramint_Capacity_def ramint_mem_def ramint_supp_def fun_eq_iff\<close>)
  next
    case False
    let ?r = "da_base.extend b \<lparr>ram_segments = [], ram_store = Storing dt\<rparr>"
    show ?thesis
      by (rule ret [of "Ram ?r"])
        (use assms b False in \<open>auto simp: CreateFull_def NewRAMDataAccess_def ram_inv_def ram_Capacity_def
          ram_mem_def da_base.defs fun_eq_iff\<close>)
  qed
qed

lemma da_Create_ok:
  assumes "da_inv d" "da_Capacity d = 0"
  obtains d' where "da_Create n d = Some d'" "da_inv d'" "da_mem d' = da_mem d" "da_supp d' = da_supp d"
    "max 40 n \<le> da_Capacity d'"
proof -
  note ret = that
  obtain g d' where d': "da_EnsureCapacity (max 40 n) d = Some (g, d')" "da_mem d' = da_mem d"
    "da_Capacity d \<le> da_Capacity d'" "max 40 n \<le> da_Capacity d'" "da_inv d'" "da_supp d' = da_supp d"
    using da.ensure [OF assms(1), of "max 40 n"] by (metis max.coboundedI1 zero_le_numeral)
  have "da_Create n d = Some d'"
  proof (cases d)
    case (Ram r)
    then have "ram_segments r = []" using assms by (auto simp: ram_inv_def ram_Capacity_def)
    then show ?thesis using d'(1) Ram by (auto simp: ram_Create_def)
  next
    case (RamInt r)
    then have "int_segments r = []" using assms by (auto simp: ramint_inv_def ramint_Capacity_def)
    then show ?thesis using d'(1) RamInt by (auto simp: ramint_Create_def)
  qed
  then show ?thesis using d' by (intro ret) auto
qed

section \<open>Directories in memory\<close>

text \<open>A directory all of whose types are byte based and in memory, as \<open>NewRAMDirectory\<close> makes it.\<close>

definition memory_directory :: "(string \<Rightarrow> string \<Rightarrow> bool) \<Rightarrow> gh_directory \<Rightarrow> bool" where
  "memory_directory matches dir \<longleftrightarrow> (\<forall>name. IsInMemory (getDefault matches dir name) \<and>
     \<not> Integ (getDefault matches dir name)) \<and>
     (dir_location dir = [] \<or> last (dir_location dir) = CHR ''/'')"

lemma NewRAMDirectory_memory: "memory_directory matches (NewRAMDirectory cwd location store)"
  by (auto simp: memory_directory_def NewRAMDirectory_def NewGHDirectory_def Let_def getDefault_def
      IsInMemory_def DATypeRAM_def DATypeRAMStore_def)

end
