(* ===== verification/GoFloat.thy ===== *)
theory GoFloat imports BitUtil begin

text \<open>
  Go's \<open>float64\<close> and \<open>float32\<close>: IEEE-754 binary64 and binary32 with round-to-nearest-even,
  as executable functions on rationals. A value is NaN, an infinity or a finite rational; every
  arithmetic result is the exact result rounded to the format. The two zeros are one value:
  the modelled code never divides by a computed zero and never reads a sign bit.
\<close>

section \<open>Rounding a rational to a binary format\<close>

text \<open>\<open>ilog2 q\<close> is the exponent of \<open>q > 0\<close>: \<open>2^e \<le> q < 2^(e+1)\<close>.\<close>

definition ilog2 :: "rat \<Rightarrow> int" where
  "ilog2 q = (case quotient_of q of (a, b) \<Rightarrow>
     let k = int (bits_Len (nat a)) - int (bits_Len (nat b))
     in if 2 powi k \<le> q then k else k - 1)"

definition rne :: "rat \<Rightarrow> int" where
  "rne x = (let f = \<lfloor>x\<rfloor>; d = x - of_int f
     in if d < 1 / 2 \<or> (d = 1 / 2 \<and> even f) then f else f + 1)"

definition ulp_exp :: "nat \<Rightarrow> int \<Rightarrow> rat \<Rightarrow> int" where
  "ulp_exp p em q = max (ilog2 \<bar>q\<bar> - int p + 1) em"

definition rnd :: "nat \<Rightarrow> int \<Rightarrow> rat \<Rightarrow> rat" where
  "rnd p em q = (if q = 0 then 0
     else of_int (rne (q / 2 powi ulp_exp p em q)) * 2 powi ulp_exp p em q)"

text \<open>The rationals of a format with \<open>p\<close> significant bits and least ulp \<open>2^em\<close>.\<close>

definition representable :: "nat \<Rightarrow> int \<Rightarrow> rat \<Rightarrow> bool" where
  "representable p em r \<longleftrightarrow>
     (\<exists>m e. r = of_int m * 2 powi e \<and> \<bar>m\<bar> < 2 ^ p \<and> em \<le> e)"

subsection \<open>Powers of two\<close>

lemma powi_pos [simp]: "0 < (2::rat) powi e"
  by (simp add: zero_less_power_int)

lemma powi_le_iff [simp]: "(2::rat) powi a \<le> 2 powi b \<longleftrightarrow> a \<le> b"
  by (metis linorder_not_less not_less_iff_gr_or_eq one_less_numeral_iff power_int_strict_increasing
      power_int_increasing one_le_numeral semiring_norm(76) order_less_imp_le)

lemma powi_less_iff [simp]: "(2::rat) powi a < 2 powi b \<longleftrightarrow> a < b"
  by (simp add: not_le [symmetric])

lemma powi_nat_of_int: "0 \<le> a \<Longrightarrow> (2::rat) powi a = of_int (2 ^ nat a)"
  by (simp add: power_int_def)

lemma powi_split:
  assumes "b \<le> a"
  shows "(2::rat) powi a = of_int (2 ^ nat (a - b)) * 2 powi b"
proof -
  have "(2::rat) powi a = 2 powi ((a - b) + b)" by simp
  also have "\<dots> = 2 powi (a - b) * 2 powi b" by (rule power_int_add) simp
  finally show ?thesis using assms by (simp add: powi_nat_of_int)
qed

lemma powi_diff: "(2::rat) powi a / 2 powi b = 2 powi (a - b)"
  by (simp add: power_int_diff)

lemma powi_Suc: "(2::rat) powi (e + 1) = 2 * 2 powi e"
  by (simp add: power_int_add)

subsection \<open>The exponent\<close>

lemma bits_Len_rat:
  assumes "0 < a"
  shows "2 powi int (bits_Len (nat a)) \<le> 2 * (of_int a :: rat)"
    "(of_int a :: rat) < 2 powi int (bits_Len (nat a))"
proof -
  let ?l = "bits_Len (nat a)"
  have "2 ^ ?l \<le> 2 * nat a \<and> nat a < 2 ^ ?l"
    using bits_Len_bounds [of "nat a"] assms by (cases ?l) auto
  then have "2 ^ ?l \<le> 2 * a \<and> a < 2 ^ ?l"
    using assms by (metis nat_2 nat_less_numeral_power_cancel_iff numeral_power_le_nat_cancel_iff nat_mult_distrib of_nat_numeral nat_numeral zero_le_numeral)
  then have "(of_int (2 ^ ?l) :: rat) \<le> of_int (2 * a) \<and> (of_int a :: rat) < of_int (2 ^ ?l)"
    by (simp only: of_int_le_iff of_int_less_iff)
  then show "2 powi int ?l \<le> 2 * (of_int a :: rat)" "(of_int a :: rat) < 2 powi int ?l"
    by simp_all
qed

lemma ilog2_bounds:
  assumes "0 < q"
  shows "2 powi ilog2 q \<le> q \<and> q < 2 powi (ilog2 q + 1)"
proof -
  obtain a b where ab: "quotient_of q = (a, b)" by (cases "quotient_of q")
  have b: "0 < b" using ab by (rule quotient_of_denom_pos)
  have q: "q = of_int a / of_int b" using ab by (rule quotient_of_div)
  have a: "0 < a" using assms b by (simp add: q zero_less_divide_iff)
  define x where "x = (2::rat) powi int (bits_Len (nat a))"
  define y where "y = (2::rat) powi int (bits_Len (nat b))"
  define k where "k = int (bits_Len (nat a)) - int (bits_Len (nat b))"
  have xy: "x \<le> 2 * of_int a" "of_int a < x" "y \<le> 2 * of_int b" "of_int b < y" "0 < y"
    using bits_Len_rat [OF a] bits_Len_rat [OF b] by (simp_all add: x_def y_def)
  have k: "2 powi k = x / y" by (simp add: k_def x_def y_def power_int_diff)
  have lt: "q < 2 * (x / y)"
  proof -
    have "of_int a * y < x * (2 * of_int b)"
      using xy b by (intro mult_less_le_imp_less) auto
    then show ?thesis using b xy by (simp add: q divide_simps mult_ac)
  qed
  have gt: "x / y \<le> 2 * q"
  proof -
    have "x * of_int b \<le> (2 * of_int a) * y"
      using xy a b by (intro mult_mono) auto
    then show ?thesis using b xy by (simp add: q divide_simps mult_ac)
  qed
  have l: "ilog2 q = (if 2 powi k \<le> q then k else k - 1)"
    by (simp add: ilog2_def ab k_def)
  have "2 * 2 powi (k - 1) = (2::rat) powi k" using powi_Suc [of "k - 1"] by simp
  then show ?thesis using lt gt by (auto simp: l k powi_Suc)
qed

lemma ilog2_unique:
  assumes "2 powi e \<le> q" "q < 2 powi (e + 1)"
  shows "ilog2 q = e"
proof -
  have "0 < q" using assms(1) powi_pos less_le_trans by blast
  note B = ilog2_bounds [OF this]
  have "2 powi e < (2::rat) powi (ilog2 q + 1)" "2 powi ilog2 q < (2::rat) powi (e + 1)"
    using B assms by (meson le_less_trans)+
  then have "e < ilog2 q + 1" "ilog2 q < e + 1" by (simp_all only: powi_less_iff)
  then show ?thesis by simp
qed

lemma ilog2_mono: "0 < a \<Longrightarrow> a \<le> b \<Longrightarrow> ilog2 a \<le> ilog2 b"
proof -
  assume "0 < a" "a \<le> b"
  then have "2 powi ilog2 a < (2::rat) powi (ilog2 b + 1)"
    using ilog2_bounds [of a] ilog2_bounds [of b] by linarith
  then have "ilog2 a < ilog2 b + 1" by (simp only: powi_less_iff)
  then show ?thesis by simp
qed

subsection \<open>Rounding to the nearest integer\<close>

lemma rne_of_int [simp]: "rne (of_int n) = n"
  by (simp add: rne_def)

lemma rne_bounds: "\<lfloor>x\<rfloor> \<le> rne x" "rne x \<le> \<lfloor>x\<rfloor> + 1"
  by (simp_all add: rne_def Let_def)

lemma rne_mono:
  assumes "x \<le> y"
  shows "rne x \<le> rne y"
proof (cases "\<lfloor>x\<rfloor> = \<lfloor>y\<rfloor>")
  case True
  then show ?thesis using assms by (auto simp: rne_def Let_def)
next
  case False
  then have "\<lfloor>x\<rfloor> + 1 \<le> \<lfloor>y\<rfloor>" using floor_mono [OF assms] by linarith
  then show ?thesis using rne_bounds [of x] rne_bounds [of y] by linarith
qed

lemma rne_error: "\<bar>of_int (rne x) - x\<bar> \<le> 1 / 2"
proof -
  have "0 \<le> x - of_int \<lfloor>x\<rfloor>" "x - of_int \<lfloor>x\<rfloor> < 1"
    using floor_correct [of x] by linarith+
  moreover have "rne x = (if x - of_int \<lfloor>x\<rfloor> < 1 / 2 \<or> x - of_int \<lfloor>x\<rfloor> = 1 / 2 \<and> even \<lfloor>x\<rfloor>
    then \<lfloor>x\<rfloor> else \<lfloor>x\<rfloor> + 1)" by (simp add: rne_def Let_def)
  ultimately show ?thesis by (cases "rne x = \<lfloor>x\<rfloor>") (auto simp del: of_int_floor_le split: if_splits)
qed

lemma rne_minus: "rne (- x) = - rne x"
proof (cases "x = of_int \<lfloor>x\<rfloor>")
  case True
  then show ?thesis by (metis of_int_minus rne_of_int)
next
  case False
  then have c: "\<lfloor>- x\<rfloor> = - \<lfloor>x\<rfloor> - 1"
    by (smt (verit) ceiling_altdef ceiling_def)
  have "x - of_int \<lfloor>x\<rfloor> > 0" using False of_int_floor_le [of x] by linarith
  then show ?thesis by (auto simp: rne_def Let_def c)
qed

lemma rne_le_int: "x \<le> of_int n \<Longrightarrow> rne x \<le> n"
  using rne_mono [of x "of_int n"] by simp

lemma int_le_rne: "of_int n \<le> x \<Longrightarrow> n \<le> rne x"
  using rne_mono [of "of_int n" x] by simp

subsection \<open>Rounding to a format\<close>

lemma rnd_0 [simp]: "rnd p em 0 = 0"
  by (simp add: rnd_def)

lemma ulp_exp_minus [simp]: "ulp_exp p em (- q) = ulp_exp p em q"
  by (simp add: ulp_exp_def)

lemma rnd_minus: "rnd p em (- q) = - rnd p em q"
  by (simp add: rnd_def rne_minus minus_divide_left [symmetric])

lemma rnd_nonneg: "0 \<le> q \<Longrightarrow> 0 \<le> rnd p em q"
  using int_le_rne [of 0 "q / 2 powi ulp_exp p em q"]
  by (simp add: rnd_def less_imp_le)

lemma ulp_exp_mono: "0 < a \<Longrightarrow> a \<le> b \<Longrightarrow> ulp_exp p em a \<le> ulp_exp p em b"
  using ilog2_mono [of a b] by (auto simp: ulp_exp_def)

lemma rnd_mono_pos:
  assumes "0 < a" "a \<le> b" "0 < p"
  shows "rnd p em a \<le> rnd p em b"
proof -
  let ?A = "ulp_exp p em a" and ?B = "ulp_exp p em b" and ?k = "ilog2 b"
  have ab: "0 < b" using assms by simp
  have ra: "rnd p em a = of_int (rne (a / 2 powi ?A)) * 2 powi ?A"
    and rb: "rnd p em b = of_int (rne (b / 2 powi ?B)) * 2 powi ?B"
    using assms ab by (simp_all add: rnd_def)
  show ?thesis
  proof (cases "?A = ?B")
    case True
    have "rne (a / 2 powi ?B) \<le> rne (b / 2 powi ?B)"
      using assms by (intro rne_mono divide_right_mono) (simp_all add: less_imp_le)
    then show ?thesis by (simp add: ra rb True)
  next
    case False
    then have lt: "?A < ?B" using ulp_exp_mono [of a b p em] assms by simp
    then have B: "?B = ?k - int p + 1" using ab by (auto simp: ulp_exp_def)
    have ka: "ilog2 a < ?k" using lt assms ab by (auto simp: ulp_exp_def)
    have Ak: "?A \<le> ?k" and Bk: "?B \<le> ?k" using lt B assms(3) by linarith+
    have "a < 2 powi (ilog2 a + 1)" using ilog2_bounds assms(1) by blast
    also have "\<dots> \<le> 2 powi ?k" using ka by simp
    finally have "a / 2 powi ?A \<le> 2 powi ?k / 2 powi ?A"
      by (intro divide_right_mono) (simp_all add: less_imp_le)
    then have "a / 2 powi ?A \<le> of_int (2 ^ nat (?k - ?A))"
      using Ak by (simp only: powi_diff powi_nat_of_int diff_ge_0_iff_ge)
    then have "rne (a / 2 powi ?A) \<le> 2 ^ nat (?k - ?A)" by (rule rne_le_int)
    then have "rnd p em a \<le> of_int (2 ^ nat (?k - ?A)) * 2 powi ?A"
      unfolding ra by (intro mult_right_mono) (simp_all only: of_int_le_iff, simp add: less_imp_le)
    then have 1: "rnd p em a \<le> 2 powi ?k" using powi_split [OF Ak] by simp
    have "2 powi ?k / 2 powi ?B \<le> b / 2 powi ?B"
      using ilog2_bounds [OF ab] by (intro divide_right_mono) (simp_all add: less_imp_le)
    then have "of_int (2 ^ nat (?k - ?B)) \<le> b / 2 powi ?B"
      using Bk by (simp only: powi_diff powi_nat_of_int diff_ge_0_iff_ge)
    then have "2 ^ nat (?k - ?B) \<le> rne (b / 2 powi ?B)" by (rule int_le_rne)
    then have "of_int (2 ^ nat (?k - ?B)) * 2 powi ?B \<le> rnd p em b"
      unfolding rb by (intro mult_right_mono) (simp_all only: of_int_le_iff, simp add: less_imp_le)
    then have 2: "2 powi ?k \<le> rnd p em b" using powi_split [OF Bk] by simp
    show ?thesis using 1 2 by simp
  qed
qed

lemma rnd_mono:
  assumes "a \<le> b" "0 < p"
  shows "rnd p em a \<le> rnd p em b"
proof -
  consider "0 < a" | "a \<le> 0" "0 \<le> b" | "b < 0" by linarith
  then show ?thesis
  proof cases
    case 1
    then show ?thesis using rnd_mono_pos assms by blast
  next
    case 2
    then have "0 \<le> rnd p em (- a)" "0 \<le> rnd p em b" by (auto intro: rnd_nonneg)
    then show ?thesis by (simp add: rnd_minus)
  next
    case 3
    then have "rnd p em (- b) \<le> rnd p em (- a)" using assms by (intro rnd_mono_pos) auto
    then show ?thesis by (simp add: rnd_minus)
  qed
qed

lemma representable_0 [simp]: "representable p em 0"
  unfolding representable_def by (rule exI [of _ 0], rule exI [of _ em]) simp

lemma rnd_representable:
  assumes "representable p em r"
  shows "rnd p em r = r"
proof (cases "r = 0")
  case False
  obtain m e where r: "r = of_int m * 2 powi e" and m: "\<bar>m\<bar> < 2 ^ p" and e: "em \<le> e"
    using assms by (auto simp: representable_def)
  have "\<bar>r\<bar> = of_int \<bar>m\<bar> * 2 powi e" by (simp add: r abs_mult)
  also have "\<dots> < of_int (2 ^ p) * 2 powi e"
    using m by (intro mult_strict_right_mono) (simp_all only: of_int_less_iff powi_pos)
  also have "\<dots> = 2 powi (e + int p)" by (simp add: power_int_add)
  finally have "\<bar>r\<bar> < 2 powi (e + int p)" .
  then have "2 powi ilog2 \<bar>r\<bar> < (2::rat) powi (e + int p)"
    using ilog2_bounds [of "\<bar>r\<bar>"] False by (meson le_less_trans zero_less_abs_iff)
  then have "ulp_exp p em r \<le> e" using e by (simp add: ulp_exp_def)
  note split = powi_split [OF this]
  have "r = of_int (m * 2 ^ nat (e - ulp_exp p em r)) * 2 powi ulp_exp p em r"
    by (subst r, subst split) simp
  then have "r / 2 powi ulp_exp p em r = of_int (m * 2 ^ nat (e - ulp_exp p em r))"
    by (metis less_irrefl nonzero_divide_eq_eq powi_pos)
  then have "rnd p em r = r / 2 powi ulp_exp p em r * 2 powi ulp_exp p em r"
    using False by (simp only: rnd_def rne_of_int if_False)
  then show ?thesis by simp
qed simp

lemma representable_rnd:
  assumes "0 < p"
  shows "representable p em (rnd p em q)"
proof (cases "q = 0")
  case False
  let ?E = "ulp_exp p em q" and ?x = "q / 2 powi ulp_exp p em q"
  have "\<bar>q\<bar> < 2 powi (ilog2 \<bar>q\<bar> + 1)" using ilog2_bounds [of "\<bar>q\<bar>"] False by simp
  also have "\<dots> \<le> 2 powi (?E + int p)" by (auto simp: ulp_exp_def)
  finally have "\<bar>?x\<bar> < 2 ^ p"
    by (simp add: abs_divide power_int_add pos_divide_less_eq mult.commute)
  then have "?x < 2 ^ p" "- (2 ^ p) < ?x" by (simp_all only: abs_less_iff minus_less_iff)
  then have "?x \<le> of_int (2 ^ p)" "of_int (- (2 ^ p)) \<le> ?x" by simp_all
  then have bound: "\<bar>rne ?x\<bar> \<le> 2 ^ p"
    using rne_le_int [of ?x "2 ^ p"] int_le_rne [of "- (2 ^ p)" ?x] by simp
  have rq: "rnd p em q = of_int (rne ?x) * 2 powi ?E" using False by (simp add: rnd_def)
  have em: "em \<le> ?E" by (simp add: ulp_exp_def)
  show ?thesis
  proof (cases "\<bar>rne ?x\<bar> < 2 ^ p")
    case True
    then show ?thesis using rq em by (auto simp: representable_def)
  next
    case False
    then have abs: "\<bar>rne ?x\<bar> = 2 ^ p" using bound by simp
    have pp: "(2::int) ^ p = 2 ^ (p - 1) * 2" using assms by (cases p) simp_all
    have "rne ?x = sgn (rne ?x) * 2 ^ (p - 1) * 2"
      using abs pp by (metis mult.assoc mult.commute mult_sgn_abs)
    then have "rnd p em q = of_int (sgn (rne ?x) * 2 ^ (p - 1)) * 2 powi (?E + 1)"
      unfolding rq powi_Suc by (metis (no_types, opaque_lifting) mult.assoc of_int_mult of_int_numeral)
    moreover have "\<bar>sgn (rne ?x) * 2 ^ (p - 1)\<bar> < 2 ^ p"
      using abs by (simp add: abs_mult abs_sgn_eq pp)
    ultimately show ?thesis using em unfolding representable_def
      by (intro exI conjI) (assumption, assumption, simp)
  qed
qed simp

lemma rnd_idem: "0 < p \<Longrightarrow> rnd p em (rnd p em q) = rnd p em q"
  by (simp add: rnd_representable representable_rnd)

text \<open>Rounding the value of a representable bound keeps it on the same side.\<close>

lemma rnd_le: "representable p em r \<Longrightarrow> q \<le> r \<Longrightarrow> 0 < p \<Longrightarrow> rnd p em q \<le> r"
  using rnd_mono [of q r p em] by (simp add: rnd_representable)

lemma le_rnd: "representable p em r \<Longrightarrow> r \<le> q \<Longrightarrow> 0 < p \<Longrightarrow> r \<le> rnd p em q"
  using rnd_mono [of r q p em] by (simp add: rnd_representable)

lemma rnd_error_ulp: "\<bar>rnd p em q - q\<bar> \<le> 2 powi (ulp_exp p em q) / 2"
proof (cases "q = 0")
  case False
  let ?u = "(2::rat) powi ulp_exp p em q"
  have "rnd p em q - q = (of_int (rne (q / ?u)) - q / ?u) * ?u"
    using False powi_pos [of "ulp_exp p em q"] by (simp add: rnd_def left_diff_distrib)
  then have "\<bar>rnd p em q - q\<bar> = \<bar>of_int (rne (q / ?u)) - q / ?u\<bar> * ?u"
    by (simp add: abs_mult)
  also have "\<dots> \<le> 1 / 2 * ?u" by (intro mult_right_mono rne_error) (simp add: less_imp_le)
  finally show ?thesis by simp
qed (simp add: less_imp_le)

text \<open>In the normal range the error is at most \<open>2^(-p)\<close> of the value.\<close>

lemma rnd_error:
  assumes "2 powi (em + int p - 1) \<le> \<bar>q\<bar>" "0 < p"
  shows "\<bar>rnd p em q - q\<bar> \<le> \<bar>q\<bar> / 2 ^ p"
proof -
  have q: "0 < \<bar>q\<bar>" using assms(1) powi_pos less_le_trans by blast
  have "2 powi (em + int p - 1) < (2::rat) powi (ilog2 \<bar>q\<bar> + 1)"
    using assms(1) ilog2_bounds [OF q] by (meson le_less_trans)
  then have "em + int p - 1 < ilog2 \<bar>q\<bar> + 1" by (simp only: powi_less_iff)
  then have "ulp_exp p em q = ilog2 \<bar>q\<bar> + 1 - int p" by (simp add: ulp_exp_def)
  then have "(2::rat) powi ulp_exp p em q / 2 = 2 powi ilog2 \<bar>q\<bar> / 2 ^ p"
    by (simp add: power_int_diff power_int_add)
  also have "\<dots> \<le> \<bar>q\<bar> / 2 ^ p" using ilog2_bounds [OF q] by (simp add: divide_right_mono)
  finally show ?thesis using rnd_error_ulp [of p em q] by linarith
qed

section \<open>Floating-point values\<close>

datatype flt = NaN | PInf | NInf | Fin rat

definition to_format :: "nat \<Rightarrow> int \<Rightarrow> int \<Rightarrow> rat \<Rightarrow> flt" where
  "to_format p em ex q =
     (let r = rnd p em q
      in if 2 powi ex \<le> r then PInf else if r \<le> - (2 powi ex) then NInf else Fin r)"

definition f64 :: "rat \<Rightarrow> flt" where "f64 q = to_format 53 (- 1074) 1024 q"

definition f32 :: "rat \<Rightarrow> flt" where "f32 q = to_format 24 (- 149) 128 q"

fun wf64 :: "flt \<Rightarrow> bool" where
  "wf64 (Fin r) = (representable 53 (- 1074) r \<and> \<bar>r\<bar> < 2 powi 1024)"
| "wf64 _ = True"

subsection \<open>Arithmetic and comparison of \<open>float64\<close>\<close>

fun fneg :: "flt \<Rightarrow> flt" where
  "fneg NaN = NaN"
| "fneg PInf = NInf"
| "fneg NInf = PInf"
| "fneg (Fin a) = Fin (- a)"

fun fadd :: "flt \<Rightarrow> flt \<Rightarrow> flt" where
  "fadd (Fin a) (Fin b) = f64 (a + b)"
| "fadd NaN y = NaN"
| "fadd x NaN = NaN"
| "fadd PInf NInf = NaN"
| "fadd NInf PInf = NaN"
| "fadd PInf y = PInf"
| "fadd x PInf = PInf"
| "fadd NInf y = NInf"
| "fadd x NInf = NInf"

definition fsub :: "flt \<Rightarrow> flt \<Rightarrow> flt" where "fsub x y = fadd x (fneg y)"

definition inf_of_sgn :: "rat \<Rightarrow> flt" where
  "inf_of_sgn q = (if 0 < q then PInf else if q < 0 then NInf else NaN)"

fun fsgn :: "flt \<Rightarrow> rat" where
  "fsgn NaN = 0"
| "fsgn PInf = 1"
| "fsgn NInf = - 1"
| "fsgn (Fin a) = sgn a"

fun fmul :: "flt \<Rightarrow> flt \<Rightarrow> flt" where
  "fmul (Fin a) (Fin b) = f64 (a * b)"
| "fmul NaN y = NaN"
| "fmul x NaN = NaN"
| "fmul x y = inf_of_sgn (fsgn x * fsgn y)"

text \<open>Division by zero: the infinity of the numerator's sign (the divisor is \<open>+0\<close>).\<close>

fun fdiv :: "flt \<Rightarrow> flt \<Rightarrow> flt" where
  "fdiv (Fin a) (Fin b) = (if b = 0 then inf_of_sgn a else f64 (a / b))"
| "fdiv NaN y = NaN"
| "fdiv x NaN = NaN"
| "fdiv (Fin a) y = Fin 0"
| "fdiv x (Fin b) = inf_of_sgn (fsgn x * (if b < 0 then - 1 else 1))"
| "fdiv x y = NaN"

fun flt_less :: "flt \<Rightarrow> flt \<Rightarrow> bool" where
  "flt_less (Fin a) (Fin b) = (a < b)"
| "flt_less NaN y = False"
| "flt_less x NaN = False"
| "flt_less NInf y = (y \<noteq> NInf)"
| "flt_less x PInf = (x \<noteq> PInf)"
| "flt_less _ _ = False"

fun flt_le :: "flt \<Rightarrow> flt \<Rightarrow> bool" where
  "flt_le (Fin a) (Fin b) = (a \<le> b)"
| "flt_le NaN y = False"
| "flt_le x NaN = False"
| "flt_le NInf y = True"
| "flt_le x PInf = True"
| "flt_le _ _ = False"

definition flt_eq :: "flt \<Rightarrow> flt \<Rightarrow> bool" where
  "flt_eq x y \<longleftrightarrow> x \<noteq> NaN \<and> x = y"

subsection \<open>Package math and conversions\<close>

definition math_IsNaN :: "flt \<Rightarrow> bool" where "math_IsNaN x \<longleftrightarrow> x = NaN"

text \<open>\<open>math.IsInf(x, 0)\<close> and \<open>math.IsInf(x, 1)\<close>.\<close>

definition math_IsInf :: "flt \<Rightarrow> bool" where "math_IsInf x \<longleftrightarrow> x = PInf \<or> x = NInf"

definition math_IsPInf :: "flt \<Rightarrow> bool" where "math_IsPInf x \<longleftrightarrow> x = PInf"

definition MaxFloat64 :: flt where "MaxFloat64 = Fin ((2 ^ 53 - 1) * 2 ^ 971)"

definition round_half_away :: "rat \<Rightarrow> int" where
  "round_half_away q = (if 0 \<le> q then \<lfloor>q + 1 / 2\<rfloor> else \<lceil>q - 1 / 2\<rceil>)"

fun math_Floor :: "flt \<Rightarrow> flt" where
  "math_Floor (Fin a) = Fin (of_int \<lfloor>a\<rfloor>)"
| "math_Floor x = x"

fun math_Ceil :: "flt \<Rightarrow> flt" where
  "math_Ceil (Fin a) = Fin (of_int \<lceil>a\<rceil>)"
| "math_Ceil x = x"

fun math_Round :: "flt \<Rightarrow> flt" where
  "math_Round (Fin a) = Fin (of_int (round_half_away a))"
| "math_Round x = x"

fun math_Abs :: "flt \<Rightarrow> flt" where
  "math_Abs (Fin a) = Fin \<bar>a\<bar>"
| "math_Abs NInf = PInf"
| "math_Abs x = x"

definition f64_of_int :: "int \<Rightarrow> flt" where "f64_of_int n = f64 (of_int n)"

fun f32_of_f64 :: "flt \<Rightarrow> flt" where
  "f32_of_f64 (Fin a) = f32 a"
| "f32_of_f64 x = x"

definition rat_trunc :: "rat \<Rightarrow> int" where
  "rat_trunc q = (if 0 \<le> q then \<lfloor>q\<rfloor> else \<lceil>q\<rceil>)"

text \<open>
  Conversion to an integer type truncates. Go leaves the result for a value out of range (or
  NaN) to the implementation; here it is the x86-64 one, the least value of the type.
\<close>

fun int64_of_f64 :: "flt \<Rightarrow> int" where
  "int64_of_f64 (Fin a) =
     (let t = rat_trunc a in if - (2 ^ 63) \<le> t \<and> t < 2 ^ 63 then t else - (2 ^ 63))"
| "int64_of_f64 _ = - (2 ^ 63)"

fun int32_of_f64 :: "flt \<Rightarrow> i32" where
  "int32_of_f64 (Fin a) =
     (let t = rat_trunc a in word_of_int (if - (2 ^ 31) \<le> t \<and> t < 2 ^ 31 then t else - (2 ^ 31)))"
| "int32_of_f64 _ = word_of_int (- (2 ^ 31))"

section \<open>Order and monotonicity\<close>

lemma flt_le_refl [simp]: "flt_le x x \<longleftrightarrow> x \<noteq> NaN"
  by (cases x) simp_all

lemma flt_le_NaN [simp]: "\<not> flt_le NaN y" "\<not> flt_le x NaN"
  by (cases y; simp) (cases x; simp)

lemma flt_le_PInf [simp]: "flt_le x PInf \<longleftrightarrow> x \<noteq> NaN"
  by (cases x) simp_all

lemma flt_PInf_le [simp]: "flt_le PInf x \<longleftrightarrow> x = PInf"
  by (cases x) simp_all

lemma flt_le_trans: "flt_le x y \<Longrightarrow> flt_le y z \<Longrightarrow> flt_le x z"
  by (cases x; cases y; cases z) simp_all

lemma flt_le_antisym: "flt_le x y \<Longrightarrow> flt_le y x \<Longrightarrow> x = y"
  by (cases x; cases y) simp_all

lemma flt_le_total: "x \<noteq> NaN \<Longrightarrow> y \<noteq> NaN \<Longrightarrow> flt_le x y \<or> flt_le y x"
  by (cases x; cases y) auto

lemma flt_less_iff: "flt_less x y \<longleftrightarrow> flt_le x y \<and> \<not> flt_le y x"
  by (cases x; cases y) auto

lemma flt_not_less: "x \<noteq> NaN \<Longrightarrow> y \<noteq> NaN \<Longrightarrow> \<not> flt_less x y \<longleftrightarrow> flt_le y x"
  by (cases x; cases y) auto

lemma f64_cases:
  obtains "f64 q = Fin (rnd 53 (- 1074) q)" "\<bar>rnd 53 (- 1074) q\<bar> < 2 powi 1024"
  | "f64 q = PInf" "2 powi 1024 \<le> rnd 53 (- 1074) q"
  | "f64 q = NInf" "rnd 53 (- 1074) q \<le> - (2 powi 1024)"
proof -
  define x m :: rat where "x = rnd 53 (- 1074) q" and "m = 2 powi 1024"
  have "0 < m" by (simp add: m_def)
  moreover have "f64 q = (if m \<le> x then PInf else if x \<le> - m then NInf else Fin x)"
    by (simp add: f64_def to_format_def Let_def x_def m_def)
  ultimately show ?thesis using that unfolding x_def [symmetric] m_def [symmetric]
    by (auto simp: abs_less_iff split: if_splits)
qed

lemma f64_not_NaN [simp]: "f64 q \<noteq> NaN"
  by (rule f64_cases [of q]) simp_all

lemma wf64_f64 [simp]: "wf64 (f64 q)"
  by (rule f64_cases [of q]) (simp_all add: representable_rnd)

lemma f64_wf: "wf64 (Fin r) \<Longrightarrow> f64 r = Fin r"
  by (auto simp: f64_def to_format_def rnd_representable abs_less_iff not_le)

lemma f64_mono: "a \<le> b \<Longrightarrow> flt_le (f64 a) (f64 b)"
proof -
  assume "a \<le> b"
  then have "rnd 53 (- 1074) a \<le> rnd 53 (- 1074) b" by (simp add: rnd_mono)
  moreover define x y m :: rat where "x = rnd 53 (- 1074) a" and "y = rnd 53 (- 1074) b"
    and "m = 2 powi 1024"
  moreover have "0 < m" by (simp add: m_def)
  ultimately show ?thesis by (auto simp: f64_def to_format_def Let_def)
qed

lemma f64_0 [simp]: "f64 0 = Fin 0"
  by (rule f64_wf) simp

abbreviation fnonneg :: "flt \<Rightarrow> bool" where "fnonneg x \<equiv> flt_le (Fin 0) x"

lemma fnonneg_cases: "fnonneg x \<Longrightarrow> x = PInf \<or> (\<exists>r. x = Fin r \<and> 0 \<le> r)"
  by (cases x) auto

lemma wf64_fadd [simp]: "wf64 (fadd x y)"
  by (cases x; cases y) simp_all

lemma fadd_commute: "fadd x y = fadd y x"
  by (cases x; cases y) (simp_all add: add.commute)

lemma fadd_mono:
  "fnonneg a \<Longrightarrow> fnonneg c \<Longrightarrow> flt_le a b \<Longrightarrow> flt_le (fadd a c) (fadd b c)"
  by (cases a; cases b; cases c) (auto intro: f64_mono)

lemma fadd_inflate:
  assumes "wf64 a" "fnonneg a" "fnonneg c"
  shows "flt_le a (fadd a c)"
proof (cases a)
  case (Fin r)
  show ?thesis
  proof (cases c)
    case c: (Fin s)
    have "flt_le (f64 r) (f64 (r + s))" using assms Fin c by (intro f64_mono) simp
    moreover have "f64 r = a" using assms(1) Fin f64_wf by blast
    ultimately show ?thesis using Fin c by simp
  qed (use assms Fin in auto)
qed (use assms in \<open>cases c; auto\<close>)+

lemma fnonneg_fadd: "wf64 a \<Longrightarrow> fnonneg a \<Longrightarrow> fnonneg c \<Longrightarrow> fnonneg (fadd a c)"
  using fadd_inflate flt_le_trans by blast

lemma fadd_0 [simp]: "wf64 x \<Longrightarrow> fadd (Fin 0) x = x"
  by (cases x) (simp_all add: f64_wf del: wf64.simps)


lemma representable_of_int:
  assumes "\<bar>n\<bar> < 2 ^ p" "em \<le> 0"
  shows "representable p em (of_int n)"
  unfolding representable_def
  by (rule exI [of _ n], rule exI [of _ 0]) (use assms in simp)

lemma wf64_of_int: "\<bar>n\<bar> < 2 ^ 53 \<Longrightarrow> wf64 (Fin (of_int n))"
proof -
  assume n: "\<bar>n\<bar> < 2 ^ 53"
  have "\<bar>of_int n :: rat\<bar> = of_int \<bar>n\<bar>" by simp
  also have "\<dots> < of_int (2 ^ 53)" using n by (simp only: of_int_less_iff)
  also have "\<dots> = 2 powi 53" by simp
  also have "\<dots> < 2 powi 1024" by (simp only: powi_less_iff)
  finally show ?thesis using n by (simp add: representable_of_int del: powi_less_iff)
qed

text \<open>Every integer of less than 53 bits is a \<open>float64\<close>.\<close>

lemma f64_of_int_exact: "\<bar>n\<bar> < 2 ^ 53 \<Longrightarrow> f64 (of_int n) = Fin (of_int n)"
  by (rule f64_wf) (rule wf64_of_int)

end
