(* ===== verification/GoStrings.thy ===== *)
theory GoStrings imports GoFloat begin

text \<open>
  What the parsers use of Go's \<open>strings\<close>, \<open>unicode\<close> and \<open>strconv\<close>. A Go string is a sequence of bytes, here
  the characters of a \<^typ>\<open>string\<close>.
\<close>

section \<open>Characters\<close>

abbreviation byte_of :: "char \<Rightarrow> nat" where "byte_of c \<equiv> of_char c"

text \<open>\<open>unicode.IsLetter(rune(b))\<close> and \<open>unicode.IsDigit(rune(b))\<close> of a byte: its Latin-1 character.\<close>

definition IsLetter :: "char \<Rightarrow> bool" where
  "IsLetter c \<longleftrightarrow> (let b = byte_of c in (65 \<le> b \<and> b \<le> 90) \<or> (97 \<le> b \<and> b \<le> 122) \<or> b = 170 \<or> b = 181 \<or> b = 186 \<or>
     (192 \<le> b \<and> b \<noteq> 215 \<and> b \<noteq> 247))"

definition IsDigit :: "char \<Rightarrow> bool" where "IsDigit c \<longleftrightarrow> 48 \<le> byte_of c \<and> byte_of c \<le> 57"

definition lower_char :: "char \<Rightarrow> char" where
  "lower_char c = (if 65 \<le> byte_of c \<and> byte_of c \<le> 90 then char_of (byte_of c + 32) else c)"

section \<open>Package strings\<close>

definition HasPrefix :: "string \<Rightarrow> string \<Rightarrow> bool" where
  "HasPrefix s p \<longleftrightarrow> take (length p) s = p"

text \<open>The white space of Unicode, each code point as its bytes.\<close>

definition white_space :: "string list" where
  "white_space = map (map char_of) ([[9], [10], [11], [12], [13], [32], [194, 133], [194, 160], [225, 154, 128]] @
     map (\<lambda>b. [226, 128, b]) [128..<139] @ [[226, 128, 168], [226, 128, 169], [226, 128, 175], [226, 129, 159], [227, 128, 128 :: nat]])"

fun trim_left :: "nat \<Rightarrow> string list \<Rightarrow> string \<Rightarrow> string" where
  "trim_left 0 ws s = s"
| "trim_left (Suc n) ws s =
     (case List.find (HasPrefix s) ws of None \<Rightarrow> s | Some w \<Rightarrow> trim_left n ws (drop (length w) s))"

definition TrimSpace :: "string \<Rightarrow> string" where
  "TrimSpace s =
     (let t = trim_left (length s) white_space s
      in rev (trim_left (length t) (map rev white_space) (rev t)))"

text \<open>
  \<open>strings.EqualFold\<close> with a first argument of ASCII characters: besides the capital letters only the long s
  and the Kelvin sign fold to one.
\<close>

fun fold_ascii :: "string \<Rightarrow> string" where
  "fold_ascii [] = []"
| "fold_ascii (c # s) =
     (if HasPrefix (c # s) (map char_of [197, 191 :: nat]) then CHR ''s'' # fold_ascii (drop 1 s)
      else if HasPrefix (c # s) (map char_of [226, 132, 170 :: nat]) then CHR ''k'' # fold_ascii (drop 2 s)
      else lower_char c # fold_ascii s)"

definition EqualFold :: "string \<Rightarrow> string \<Rightarrow> bool" where
  "EqualFold s t \<longleftrightarrow> fold_ascii s = fold_ascii t"

definition strings_Index_char :: "string \<Rightarrow> char \<Rightarrow> int" where
  "strings_Index_char s c = (case List.find (\<lambda>i. s ! i = c) [0..<length s] of None \<Rightarrow> - 1 | Some i \<Rightarrow> int i)"

section \<open>\<open>strconv.ParseFloat(s, 64)\<close>\<close>

text \<open>
  A sign, digits with a point, an exponent, underscores between digits, or a hexadecimal number with a binary
  exponent, or an infinity or NaN. The value is rounded to the nearest float; an error is \<^const>\<open>None\<close>, also for a
  value that is too large.
\<close>

definition digit_value :: "bool \<Rightarrow> char \<Rightarrow> nat option" where
  "digit_value hex c =
     (let b = byte_of (lower_char c) in
      if IsDigit c then Some (b - 48) else if hex \<and> 97 \<le> b \<and> b \<le> 102 then Some (b - 87) else None)"

record mantissa =
  man :: nat
  frac_digits :: nat
  sawdot :: bool
  sawdigits :: bool
  underscores :: bool

fun read_mantissa :: "bool \<Rightarrow> string \<Rightarrow> mantissa \<Rightarrow> mantissa \<times> string" where
  "read_mantissa hex [] m = (m, [])"
| "read_mantissa hex (c # s) m =
     (if c = CHR ''_'' then read_mantissa hex s (m\<lparr>underscores := True\<rparr>)
      else if c = CHR ''.'' then (if sawdot m then (m, c # s) else read_mantissa hex s (m\<lparr>sawdot := True\<rparr>))
      else case digit_value hex c of
        Some d \<Rightarrow> read_mantissa hex s (m\<lparr>man := man m * (if hex then 16 else 10) + d,
            frac_digits := frac_digits m + (if sawdot m then 1 else 0), sawdigits := True\<rparr>)
      | None \<Rightarrow> (m, c # s))"

text \<open>The exponent stops growing at 10000.\<close>

fun read_exponent :: "string \<Rightarrow> int \<Rightarrow> bool \<Rightarrow> int \<times> bool \<times> string" where
  "read_exponent [] e u = (e, u, [])"
| "read_exponent (c # s) e u =
     (if c = CHR ''_'' then read_exponent s e True
      else if IsDigit c then read_exponent s (if e < 10000 then e * 10 + int (byte_of c - 48) else e) u
      else (e, u, c # s))"

fun underscore_scan :: "bool \<Rightarrow> char \<Rightarrow> string \<Rightarrow> bool" where
  "underscore_scan hex i [] = (i \<noteq> CHR ''_'')"
| "underscore_scan hex i (c # s) =
     (if digit_value hex c \<noteq> None then underscore_scan hex (CHR ''0'') s
      else if c = CHR ''_'' then i = CHR ''0'' \<and> underscore_scan hex (CHR ''_'') s
      else i \<noteq> CHR ''_'' \<and> underscore_scan hex (CHR ''!'') s)"

definition strip_sign :: "string \<Rightarrow> bool \<times> string" where
  "strip_sign s = (case s of c # t \<Rightarrow> if c = CHR ''-'' then (True, t) else if c = CHR ''+'' then (False, t) else (False, s)
     | [] \<Rightarrow> (False, s))"

definition underscoreOK :: "string \<Rightarrow> bool" where
  "underscoreOK s =
     (let s = snd (strip_sign s);
          base = (length s \<ge> 2 \<and> s ! 0 = CHR ''0'' \<and> lower_char (s ! 1) \<in> {CHR ''b'', CHR ''o'', CHR ''x''});
          hex = (base \<and> lower_char (s ! 1) = CHR ''x'')
      in if base then underscore_scan hex (CHR ''0'') (drop 2 s) else underscore_scan hex (CHR ''^'') s)"

definition special_float :: "string \<Rightarrow> flt option" where
  "special_float s =
     (let (neg, t) = strip_sign s; l = map lower_char t
      in if map lower_char s = ''nan'' then Some NaN
         else if l = ''inf'' \<or> l = ''infinity'' then Some (if neg then NInf else PInf) else None)"

definition signed_exponent :: "string \<Rightarrow> (int \<times> bool \<times> string) option" where
  "signed_exponent s =
     (let (neg, t) = strip_sign s in
      if t = [] \<or> \<not> IsDigit (hd t) then None
      else let (e, u, r) = read_exponent t 0 False in Some (if neg then - e else e, u, r))"

definition finite_result :: "rat \<Rightarrow> flt option" where
  "finite_result q = (case f64 q of Fin r \<Rightarrow> Some (Fin r) | _ \<Rightarrow> None)"

definition read_float :: "string \<Rightarrow> flt option" where
  "read_float s0 =
     (let (neg, s) = strip_sign s0;
          hex = (length s > 2 \<and> s ! 0 = CHR ''0'' \<and> lower_char (s ! 1) = CHR ''x'');
          (m, r) = read_mantissa hex (if hex then drop 2 s else s)
            \<lparr>man = 0, frac_digits = 0, sawdot = False, sawdigits = False, underscores = False\<rparr>
      in if \<not> sawdigits m then None
         else case (if r \<noteq> [] \<and> lower_char (hd r) = (if hex then CHR ''p'' else CHR ''e'') then signed_exponent (tl r)
                    else if hex then None else Some (0, False, r)) of
           None \<Rightarrow> None
         | Some (e, u, r) \<Rightarrow>
             if (underscores m \<or> u) \<and> \<not> underscoreOK s0 \<or> r \<noteq> [] then None
             else let q = (if hex then of_nat (man m) * 2 powi (e - 4 * int (frac_digits m))
                           else of_nat (man m) * 10 powi (e - int (frac_digits m)))
                  in finite_result (if neg then - q else q))"

definition ParseFloat :: "string \<Rightarrow> flt option" where
  "ParseFloat s = (case special_float s of Some x \<Rightarrow> Some x | None \<Rightarrow> read_float s)"

lemma ParseFloat_wf: "ParseFloat s = Some x \<Longrightarrow> wf64 x"
proof -
  have "wf64 y" if "finite_result q = Some y" for q y
    using that wf64_f64 [of q] by (cases "f64 q") (auto simp: finite_result_def simp del: wf64_f64)
  moreover have "wf64 y" if "special_float s = Some y" for y
    using that by (auto simp: special_float_def Let_def split: prod.splits if_splits)
  ultimately show "ParseFloat s = Some x \<Longrightarrow> wf64 x"
    by (auto simp: ParseFloat_def read_float_def Let_def split: option.splits prod.splits if_splits)
qed

end
