(* ===== verification/EncodedValue.thy ===== *)
theory EncodedValue imports BitUtil GoStrings begin

text \<open>
  \<^verbatim>\<open>core/routing/ev\<close>: the allocation of bit ranges (\<open>InitializerConfig\<close>), integer, boolean,
  enum and string encoded values, and the interface \<open>EdgeIntAccess\<close> they read and write
  through, with its array implementation. Each encoded value owns one bit range (two when it
  stores both directions) of the \<open>int32\<close> slots of an edge.
\<close>

section \<open>EdgeIntAccess\<close>

text \<open>
  An interface value is the pair of its operations and its state; the state is passed
  explicitly. A read or write may panic.
\<close>

record 's edge_int_access =
  eia_get :: "'s \<Rightarrow> int \<Rightarrow> int \<Rightarrow> i32 option"
  eia_set :: "'s \<Rightarrow> int \<Rightarrow> int \<Rightarrow> i32 \<Rightarrow> 's option"

text \<open>
  The contract of an access: the slots \<open>ok s edge i\<close> can be read and written, a write is read
  back up to the \<open>width\<close> of the slot in bits, and it changes no other slot. A slot is narrower
  than 32 bits when the flags of an edge do not fill their last \<open>int32\<close>.
\<close>

locale edge_int_access_contract =
  fixes ops :: "'s edge_int_access"
    and ok :: "'s \<Rightarrow> int \<Rightarrow> int \<Rightarrow> bool"
    and width :: "'s \<Rightarrow> int \<Rightarrow> nat"
  assumes get_ok: "ok s edge i \<Longrightarrow> \<exists>v. eia_get ops s edge i = Some v"
    and set_ok: "ok s edge i \<Longrightarrow> \<exists>s'. eia_set ops s edge i v = Some s'"
    and ok_set: "ok s edge i \<Longrightarrow> eia_set ops s edge i v = Some s' \<Longrightarrow> ok s' edge' j = ok s edge' j"
    and width_set: "ok s edge i \<Longrightarrow> eia_set ops s edge i v = Some s' \<Longrightarrow> width s' j = width s j"
    and get_set: "ok s edge i \<Longrightarrow> eia_set ops s edge i v = Some s' \<Longrightarrow>
      eia_get ops s' edge i = Some (take_bit (width s i) v)"
    and get_set_other: "ok s edge i \<Longrightarrow> eia_set ops s edge i v = Some s' \<Longrightarrow>
      ok s edge' j \<Longrightarrow> (edge', j) \<noteq> (edge, i) \<Longrightarrow>
      eia_get ops s' edge' j = eia_get ops s edge' j"
    and width_le: "ok s edge i \<Longrightarrow> width s i \<le> 32"

section \<open>InitializerConfig\<close>

record init_config =
  DataIndex :: int
  Shift :: int
  NextShift :: int
  BitMask :: i32

definition NewInitializerConfig :: init_config where
  "NewInitializerConfig = \<lparr>DataIndex = - 1, Shift = 32, NextShift = 32, BitMask = 0\<rparr>"

definition cfg_Next :: "init_config \<Rightarrow> int \<Rightarrow> init_config option" where
  "cfg_Next c usedBits = do {
     let s = NextShift c;
     let (di, s) = (if (s - 1 + usedBits) sdiv 32 > (s - 1) sdiv 32
                    then (DataIndex c + 1, 0) else (DataIndex c, s));
     check (0 \<le> usedBits);
     let m = (ucast (push_bit (nat usedBits) (1 :: i64) - 1) :: i32);
     check (0 \<le> s);
     Some \<lparr>DataIndex = di, Shift = s, NextShift = s + usedBits, BitMask = push_bit (nat s) m\<rparr> }"

definition requiredBits :: "init_config \<Rightarrow> int" where
  "requiredBits c = DataIndex c * 32 + NextShift c"

definition GetRequiredInts :: "init_config \<Rightarrow> int" where
  "GetRequiredInts c = (requiredBits c + 31) sdiv 32"

definition GetRequiredBytes :: "init_config \<Rightarrow> int" where
  "GetRequiredBytes c = (requiredBits c + 7) sdiv 8"

section \<open>IntEncodedValueImpl\<close>

record int_ev =
  Name :: string
  Bits :: int
  MinStorableValue :: i32
  MaxStorableValue :: i32
  MaxValue :: i32
  NegateReverseDir :: bool
  StoreTwoDir :: bool
  FwdDataIndex :: int
  BwdDataIndex :: int
  FwdShift :: int
  BwdShift :: int
  FwdMask :: i32
  BwdMask :: i32

definition isJavaKeyword :: "string \<Rightarrow> bool" where
  "isJavaKeyword name \<longleftrightarrow> name \<in> set [''abstract'', ''assert'', ''boolean'', ''break'', ''byte'',
     ''case'', ''catch'', ''char'', ''class'', ''const'',
     ''continue'', ''default'', ''do'', ''double'', ''else'',
     ''enum'', ''extends'', ''final'', ''finally'', ''float'',
     ''for'', ''goto'', ''if'', ''implements'', ''import'',
     ''instanceof'', ''int'', ''interface'', ''long'', ''native'',
     ''new'', ''package'', ''private'', ''protected'', ''public'',
     ''return'', ''short'', ''static'', ''strictfp'', ''super'',
     ''switch'', ''synchronized'', ''this'', ''throw'', ''throws'',
     ''transient'', ''try'', ''void'', ''volatile'', ''while'',
     ''true'', ''false'', ''null'',
     ''_'']"

definition is_lower :: "char \<Rightarrow> bool" where
  "is_lower c \<longleftrightarrow> 97 \<le> (of_char c :: nat) \<and> (of_char c :: nat) \<le> 122"

definition is_digit :: "char \<Rightarrow> bool" where
  "is_digit c \<longleftrightarrow> 48 \<le> (of_char c :: nat) \<and> (of_char c :: nat) \<le> 57"

fun valid_tail :: "bool \<Rightarrow> string \<Rightarrow> bool" where
  "valid_tail prevUnderscore [] = True"
| "valid_tail prevUnderscore (c # cs) =
     (if c = CHR ''_'' then (if prevUnderscore then False else valid_tail True cs)
      else if is_lower c \<or> is_digit c then valid_tail False cs
      else False)"

definition IsValidEncodedValue :: "string \<Rightarrow> bool" where
  "IsValidEncodedValue name =
     (if length name < 2 then False
      else if HasPrefix name ''in_'' \<or> HasPrefix name ''backward_'' then False
      else if \<not> is_lower (hd name) then False
      else if isJavaKeyword name then False
      else valid_tail False (tl name))"

text \<open>\<open>math.MinInt32\<close> is the sign bit.\<close>

abbreviation (input) MinInt32 :: i32 where "MinInt32 \<equiv> push_bit 31 1"

definition NewIntEncodedValueImplFull ::
  "string \<Rightarrow> int \<Rightarrow> i32 \<Rightarrow> bool \<Rightarrow> bool \<Rightarrow> int_ev option" where
  "NewIntEncodedValueImplFull name bits minStorableValue negateReverseDirection storeTwoDirections = do {
     check (IsValidEncodedValue name);
     check (\<not> bits \<le> 0);
     check (\<not> bits > 31);
     check (\<not> (negateReverseDirection \<and> (minStorableValue \<noteq> 0 \<or> storeTwoDirections)));
     check (minStorableValue \<noteq> MinInt32);
     let mx = (word_of_int (2 ^ nat bits - 1) :: i32);
     let minSV = (if negateReverseDirection then - mx else minStorableValue);
     let effectiveBits = (if negateReverseDirection then bits + 1 else bits);
     Some \<lparr>Name = name, Bits = effectiveBits, MinStorableValue = minSV,
       MaxStorableValue = mx + minStorableValue, MaxValue = MinInt32,
       NegateReverseDir = negateReverseDirection, StoreTwoDir = storeTwoDirections,
       FwdDataIndex = 0, BwdDataIndex = 0, FwdShift = - 1, BwdShift = - 1,
       FwdMask = 0, BwdMask = 0\<rparr> }"

definition NewIntEncodedValueImpl :: "string \<Rightarrow> int \<Rightarrow> bool \<Rightarrow> int_ev option" where
  "NewIntEncodedValueImpl name bits storeTwoDirections =
     NewIntEncodedValueImplFull name bits 0 False storeTwoDirections"

definition isInitialized :: "'a int_ev_scheme \<Rightarrow> bool" where
  "isInitialized e \<longleftrightarrow> FwdMask e \<noteq> 0"

definition ev_Init ::
  "'a int_ev_scheme \<Rightarrow> init_config \<Rightarrow> (int \<times> 'a int_ev_scheme \<times> init_config) option" where
  "ev_Init e cfg = do {
     check (\<not> isInitialized e);
     cfg \<leftarrow> cfg_Next cfg (Bits e);
     let e = e\<lparr>FwdMask := BitMask cfg, FwdDataIndex := DataIndex cfg, FwdShift := Shift cfg\<rparr>;
     if StoreTwoDir e then do {
       cfg \<leftarrow> cfg_Next cfg (Bits e);
       let e = e\<lparr>BwdMask := BitMask cfg, BwdDataIndex := DataIndex cfg, BwdShift := Shift cfg\<rparr>;
       Some (2 * Bits e, e, cfg)
     } else Some (Bits e, e, cfg) }"

definition checkValue :: "'a int_ev_scheme \<Rightarrow> i32 \<Rightarrow> unit option" where
  "checkValue e value = do {
     check (isInitialized e);
     check (\<not> sint value > sint (MaxStorableValue e));
     check (\<not> sint value < sint (MinStorableValue e)) }"

text \<open>\<open>flags | (value << shift)\<close>; a negative shift count panics.\<close>

definition UncheckedSet :: "'s edge_int_access \<Rightarrow> bool \<Rightarrow> int \<Rightarrow> 's \<Rightarrow> i32 \<Rightarrow> 'a int_ev_scheme
    \<Rightarrow> ('a int_ev_scheme \<times> 's) option" where
  "UncheckedSet ops reverse edgeID s value e = do {
     (reverse, value) \<leftarrow>
       (if NegateReverseDir e then Some (if reverse then (False, - value) else (reverse, value))
        else if reverse \<and> \<not> StoreTwoDir e then None
        else Some (reverse, value));
     let e = (if sint value > sint (MaxValue e) then e\<lparr>MaxValue := value\<rparr> else e);
     let value = value - MinStorableValue e;
     if reverse then do {
       flags \<leftarrow> eia_get ops s edgeID (BwdDataIndex e);
       check (0 \<le> BwdShift e);
       s \<leftarrow> eia_set ops s edgeID (BwdDataIndex e)
         ((flags AND NOT (BwdMask e)) OR push_bit (nat (BwdShift e)) value);
       Some (e, s)
     } else do {
       flags \<leftarrow> eia_get ops s edgeID (FwdDataIndex e);
       check (0 \<le> FwdShift e);
       s \<leftarrow> eia_set ops s edgeID (FwdDataIndex e)
         ((flags AND NOT (FwdMask e)) OR push_bit (nat (FwdShift e)) value);
       Some (e, s)
     } }"

definition ev_SetInt :: "'s edge_int_access \<Rightarrow> bool \<Rightarrow> int \<Rightarrow> 's \<Rightarrow> i32 \<Rightarrow> 'a int_ev_scheme
    \<Rightarrow> ('a int_ev_scheme \<times> 's) option" where
  "ev_SetInt ops reverse edgeID s value e = do {
     checkValue e value;
     UncheckedSet ops reverse edgeID s value e }"

text \<open>\<open>uint(shift)\<close> of the shift \<open>-1\<close> of an uninitialized value shifts everything out.\<close>

definition extract_bits :: "i32 \<Rightarrow> i32 \<Rightarrow> int \<Rightarrow> i32" where
  "extract_bits flags m shift = drop_bit (nat (shift mod 2 ^ 64)) (flags AND m)"

definition ev_GetInt :: "'s edge_int_access \<Rightarrow> bool \<Rightarrow> int \<Rightarrow> 's \<Rightarrow> 'a int_ev_scheme \<Rightarrow> i32 option" where
  "ev_GetInt ops reverse edgeID s e =
     (if StoreTwoDir e \<and> reverse then do {
        flags \<leftarrow> eia_get ops s edgeID (BwdDataIndex e);
        Some (MinStorableValue e + extract_bits flags (BwdMask e) (BwdShift e))
      } else do {
        flags \<leftarrow> eia_get ops s edgeID (FwdDataIndex e);
        if NegateReverseDir e \<and> reverse
        then Some (- (MinStorableValue e + extract_bits flags (FwdMask e) (FwdShift e)))
        else Some (MinStorableValue e + extract_bits flags (FwdMask e) (FwdShift e)) })"

definition GetMaxOrMaxStorableInt :: "'a int_ev_scheme \<Rightarrow> i32" where
  "GetMaxOrMaxStorableInt e =
     (if MaxValue e = MinInt32 then MaxStorableValue e else MaxValue e)"

section \<open>Bits of a slot\<close>

lemma take_bit_diff:
  fixes v m :: i32
  assumes "sint m \<le> sint v" "sint v - sint m < 2 ^ n"
  shows "take_bit n (v - m) = v - m"
proof (cases "n < 32")
  case True
  have "v - m = word_of_int (sint v - sint m)"
    by (simp add: wi_hom_syms)
  moreover have "(2::int) ^ n < 2 ^ 32" using True by (rule power_strict_increasing) simp
  ultimately have "uint (v - m) = sint v - sint m"
    using assms by (simp only: uint_word_of_int) (simp add: take_bit_int_eq_self)
  then have "uint (v - m) < 2 ^ n" using assms(2) by simp
  moreover have "uint (take_bit n (v - m)) = take_bit n (uint (v - m))" by (simp add: unsigned_take_bit_eq)
  ultimately have "uint (take_bit n (v - m)) = uint (v - m)" by (simp add: take_bit_int_eq_self)
  then show ?thesis by (simp only: word_uint_eq_iff)
next
  case False
  then show ?thesis by (intro bit_word_eqI) (auto simp: bit_simps)
qed

lemma nat_shift: "sh \<le> 32 \<Longrightarrow> nat (int sh mod 2 ^ 64) = sh"
  by simp

lemma extract_written:
  assumes "sh + n \<le> w" "w \<le> 32" "take_bit n v = v"
  shows "extract_bits (take_bit w ((flags AND NOT (push_bit sh (mask n))) OR push_bit sh v))
    (push_bit sh (mask n)) (int sh) = v"
proof (rule bit_word_eqI)
  fix k assume "k < LENGTH(32)"
  have "bit v k \<Longrightarrow> k < n" using assms(3) bit_take_bit_iff by metis
  then show "bit (extract_bits (take_bit w ((flags AND NOT (push_bit sh (mask n))) OR push_bit sh v))
    (push_bit sh (mask n)) (int sh)) k = bit v k"
    using assms(1,2) by (auto simp: extract_bits_def bit_simps)
qed

lemma extract_frame:
  assumes "sh + n \<le> sh2 \<or> sh2 + n2 \<le> sh" "sh2 + n2 \<le> w" "w \<le> 32" "take_bit n v = v"
  shows "extract_bits (take_bit w ((flags AND NOT (push_bit sh (mask n))) OR push_bit sh v))
    (push_bit sh2 (mask n2)) (int sh2) = extract_bits flags (push_bit sh2 (mask n2)) (int sh2)"
proof (rule bit_word_eqI)
  fix k assume "k < LENGTH(32)"
  have V: "\<And>k. bit v k \<Longrightarrow> k < n" using assms(4) bit_take_bit_iff by metis
  show "bit (extract_bits (take_bit w ((flags AND NOT (push_bit sh (mask n))) OR push_bit sh v))
    (push_bit sh2 (mask n2)) (int sh2)) k = bit (extract_bits flags (push_bit sh2 (mask n2)) (int sh2)) k"
    using assms(1,2,3) by (auto simp: extract_bits_def bit_simps dest!: V)
qed


section \<open>Well-formed encoded values\<close>

text \<open>
  A bit range is given by its slot, its first bit and its length. An initialized encoded value
  owns the range \<open>fwd_range\<close>, and \<open>bwd_range\<close> when it stores both directions.
\<close>

type_synonym bit_range = "int \<times> int \<times> int"

definition fwd_range :: "'a int_ev_scheme \<Rightarrow> bit_range" where
  "fwd_range e = (FwdDataIndex e, FwdShift e, Bits e)"

definition bwd_range :: "'a int_ev_scheme \<Rightarrow> bit_range" where
  "bwd_range e = (BwdDataIndex e, BwdShift e, Bits e)"

definition ranges :: "'a int_ev_scheme \<Rightarrow> bit_range list" where
  "ranges e = fwd_range e # (if StoreTwoDir e then [bwd_range e] else [])"

definition range_ok :: "bit_range \<Rightarrow> bool" where
  "range_ok = (\<lambda>(i, sh, n). 0 \<le> i \<and> 0 \<le> sh \<and> 1 \<le> n \<and> sh + n \<le> 32)"

definition disjoint :: "bit_range \<Rightarrow> bit_range \<Rightarrow> bool" where
  "disjoint = (\<lambda>(i, sh, n) (j, sh', n'). i \<noteq> j \<or> sh + n \<le> sh' \<or> sh' + n' \<le> sh)"

definition range_mask :: "bit_range \<Rightarrow> i32" where
  "range_mask = (\<lambda>(i, sh, n). push_bit (nat sh) (mask (nat n)))"

text \<open>The bounds of the storable values fit the range and are symmetric when negation is used.\<close>

definition bounds_ok :: "'a int_ev_scheme \<Rightarrow> bool" where
  "bounds_ok e \<longleftrightarrow>
     sint (MinStorableValue e) \<le> sint (MaxStorableValue e) \<and>
     sint (MaxStorableValue e) - sint (MinStorableValue e) < 2 ^ nat (Bits e) \<and>
     (NegateReverseDir e \<longrightarrow> \<not> StoreTwoDir e \<and>
        sint (MinStorableValue e) = - sint (MaxStorableValue e))"

definition ready :: "'a int_ev_scheme \<Rightarrow> bool" where
  "ready e \<longleftrightarrow> bounds_ok e \<and> (\<forall>r \<in> set (ranges e). range_ok r) \<and>
     FwdMask e = range_mask (fwd_range e) \<and>
     (StoreTwoDir e \<longrightarrow> BwdMask e = range_mask (bwd_range e) \<and>
        disjoint (fwd_range e) (bwd_range e))"

text \<open>The direction whose range a read or write uses.\<close>

definition dir_range :: "'a int_ev_scheme \<Rightarrow> bool \<Rightarrow> bit_range" where
  "dir_range e reverse = (if StoreTwoDir e \<and> reverse then bwd_range e else fwd_range e)"

text \<open>Reading the range \<open>r\<close> of an edge, and the value that direction \<open>reverse\<close> makes of it.\<close>

definition read_range :: "'s edge_int_access \<Rightarrow> 's \<Rightarrow> int \<Rightarrow> bit_range \<Rightarrow> i32 option" where
  "read_range ops s edge = (\<lambda>(i, sh, n). do {
     flags \<leftarrow> eia_get ops s edge i;
     Some (extract_bits flags (push_bit (nat sh) (mask (nat n))) sh) })"

definition write_range ::
  "'s edge_int_access \<Rightarrow> 's \<Rightarrow> int \<Rightarrow> bit_range \<Rightarrow> i32 \<Rightarrow> 's option" where
  "write_range ops s edge = (\<lambda>(i, sh, n) v. do {
     flags \<leftarrow> eia_get ops s edge i;
     eia_set ops s edge i
       ((flags AND NOT (push_bit (nat sh) (mask (nat n)))) OR push_bit (nat sh) v) })"

definition signed_dir :: "'a int_ev_scheme \<Rightarrow> bool \<Rightarrow> i32 \<Rightarrow> i32" where
  "signed_dir e reverse v = (if NegateReverseDir e \<and> reverse then - v else v)"

lemma ready_range: "ready e \<Longrightarrow> range_ok (dir_range e reverse)"
  by (auto simp: ready_def ranges_def dir_range_def)

lemma ready_isInitialized:
  assumes "ready e"
  shows "isInitialized e"
proof -
  have "FwdMask e = push_bit (nat (FwdShift e)) (mask (nat (Bits e)))" "range_ok (fwd_range e)"
    using assms by (auto simp: ready_def range_mask_def fwd_range_def ranges_def)
  then have "bit (FwdMask e) (nat (FwdShift e))"
    by (auto simp: bit_simps fwd_range_def range_ok_def)
  then show ?thesis by (auto simp: isInitialized_def)
qed

lemma ev_GetInt_range:
  assumes "ready e"
  shows "ev_GetInt ops reverse edge s e =
    map_option (\<lambda>v. signed_dir e reverse (MinStorableValue e + v))
      (read_range ops s edge (dir_range e reverse))"
proof -
  have m: "FwdMask e = push_bit (nat (FwdShift e)) (mask (nat (Bits e)))"
    "StoreTwoDir e \<Longrightarrow> BwdMask e = push_bit (nat (BwdShift e)) (mask (nat (Bits e)))"
    "NegateReverseDir e \<Longrightarrow> \<not> StoreTwoDir e"
    using assms by (auto simp: ready_def bounds_ok_def range_mask_def fwd_range_def bwd_range_def)
  show ?thesis
  proof (cases "StoreTwoDir e \<and> reverse")
    case True
    then show ?thesis using m
      by (cases "eia_get ops s edge (BwdDataIndex e)")
        (auto simp: ev_GetInt_def read_range_def dir_range_def signed_dir_def bwd_range_def)
  next
    case False
    then show ?thesis using m(1)
      by (cases "eia_get ops s edge (FwdDataIndex e)")
        (auto simp: ev_GetInt_def read_range_def dir_range_def signed_dir_def fwd_range_def)
  qed
qed

lemma sint_minus_i32:
  fixes v :: i32
  assumes "sint v \<noteq> - (2 ^ 31)"
  shows "sint (- v) = - sint v"
proof -
  have "- v = word_of_int (- sint v)" by (simp add: wi_hom_syms)
  moreover have "- (2 ^ 31) \<le> - sint v" "- sint v < 2 ^ 31"
    using assms sint_i32_bounds [of v] by linarith+
  ultimately show ?thesis by (metis sint32_of_int)
qed

text \<open>What is stored for \<open>v\<close>: its distance from the least storable value, after negation.\<close>

definition stored :: "'a int_ev_scheme \<Rightarrow> bool \<Rightarrow> i32 \<Rightarrow> i32" where
  "stored e reverse v = signed_dir e reverse v - MinStorableValue e"

definition in_bounds :: "'a int_ev_scheme \<Rightarrow> i32 \<Rightarrow> bool" where
  "in_bounds e v \<longleftrightarrow> sint (MinStorableValue e) \<le> sint v \<and> sint v \<le> sint (MaxStorableValue e)"

lemma in_bounds_signed_dir:
  assumes "ready e" "in_bounds e v"
  shows "in_bounds e (signed_dir e reverse v)"
proof (cases "NegateReverseDir e \<and> reverse")
  case True
  then have m: "sint (MinStorableValue e) = - sint (MaxStorableValue e)"
    using assms(1) by (auto simp: ready_def bounds_ok_def)
  moreover have "sint v \<noteq> - (2 ^ 31)"
    using assms(2) m sint_i32_bounds [of "MaxStorableValue e"] by (auto simp: in_bounds_def)
  ultimately show ?thesis using assms(2) True
    by (simp add: signed_dir_def in_bounds_def sint_minus_i32)
next
  case False
  then show ?thesis using assms(2) by (auto simp: signed_dir_def)
qed

lemma stored_fits:
  assumes "ready e" "in_bounds e v"
  shows "take_bit (nat (Bits e)) (stored e reverse v) = stored e reverse v"
proof -
  have "sint (MaxStorableValue e) - sint (MinStorableValue e) < 2 ^ nat (Bits e)"
    using assms(1) by (simp add: ready_def bounds_ok_def)
  then show ?thesis
    using in_bounds_signed_dir [OF assms, of reverse] unfolding stored_def
    by (intro take_bit_diff) (auto simp: in_bounds_def)
qed

lemma UncheckedSet_range:
  assumes "ready e"
  shows "UncheckedSet ops reverse edge s v e =
    (if reverse \<and> \<not> StoreTwoDir e \<and> \<not> NegateReverseDir e then None
     else map_option (\<lambda>s'. (e\<lparr>MaxValue := (if sint (signed_dir e reverse v) > sint (MaxValue e)
              then signed_dir e reverse v else MaxValue e)\<rparr>, s'))
       (write_range ops s edge (dir_range e reverse) (stored e reverse v)))"
proof -
  have m: "FwdMask e = push_bit (nat (FwdShift e)) (mask (nat (Bits e)))"
    "StoreTwoDir e \<Longrightarrow> BwdMask e = push_bit (nat (BwdShift e)) (mask (nat (Bits e)))"
    "NegateReverseDir e \<Longrightarrow> \<not> StoreTwoDir e" "0 \<le> FwdShift e" "StoreTwoDir e \<Longrightarrow> 0 \<le> BwdShift e"
    using assms by (auto simp: ready_def bounds_ok_def range_mask_def ranges_def range_ok_def
        fwd_range_def bwd_range_def)
  show ?thesis
  proof (cases "StoreTwoDir e \<and> reverse")
    case True
    then show ?thesis using m(2,3,5)
      by (cases "eia_get ops s edge (BwdDataIndex e)")
        (auto simp: UncheckedSet_def write_range_def dir_range_def signed_dir_def stored_def
          bwd_range_def Let_def map_option_case split: option.splits Option.bind_splits)
  next
    case False
    then show ?thesis using m(1,4)
      by (cases "eia_get ops s edge (FwdDataIndex e)")
        (auto simp: UncheckedSet_def write_range_def dir_range_def signed_dir_def stored_def
          fwd_range_def Let_def map_option_case split: option.splits Option.bind_splits)
  qed
qed


section \<open>Reads after writes, for every access that keeps the contract\<close>

context edge_int_access_contract begin

definition holds :: "'s \<Rightarrow> int \<Rightarrow> bit_range \<Rightarrow> bool" where
  "holds s edge = (\<lambda>(i, sh, n). range_ok (i, sh, n) \<and> ok s edge i \<and> sh + n \<le> int (width s i))"

lemma write_Some:
  assumes "holds s edge r"
  shows "\<exists>s'. write_range ops s edge r v = Some s'"
  using assms get_ok set_ok by (cases r) (fastforce simp: holds_def write_range_def)

lemma write_elim:
  assumes "write_range ops s edge (i, sh, n) v = Some s'"
  obtains flags where "eia_get ops s edge i = Some flags"
    "eia_set ops s edge i
      ((flags AND NOT (push_bit (nat sh) (mask (nat n)))) OR push_bit (nat sh) v) = Some s'"
  using assms by (auto simp: write_range_def bind_Some_iff)

lemma holds_write:
  assumes "holds s edge r" "write_range ops s edge r v = Some s'"
  shows "holds s' edge' r' = holds s edge' r'"
proof -
  obtain i sh n j sh' n' where r: "r = (i, sh, n)" "r' = (j, sh', n')" by (cases r; cases r')
  have ok: "ok s edge i" using assms(1) r by (simp add: holds_def)
  obtain w where "eia_set ops s edge i w = Some s'" using assms(2) r by (auto elim: write_elim)
  from ok_set [OF ok this] width_set [OF ok this] show ?thesis
    using r by (simp add: holds_def)
qed

lemma write_read:
  assumes h: "holds s edge r" and w: "write_range ops s edge r v = Some s'"
    and fits: "take_bit (nat (snd (snd r))) v = v"
  shows "read_range ops s' edge r = Some v"
proof -
  obtain i sh n where r: "r = (i, sh, n)" by (cases r)
  have h': "range_ok (i, sh, n)" "ok s edge i" "sh + n \<le> int (width s i)"
    using h r by (auto simp: holds_def)
  obtain flags where fl: "eia_set ops s edge i
      ((flags AND NOT (push_bit (nat sh) (mask (nat n)))) OR push_bit (nat sh) v) = Some s'"
    using w r by (auto elim: write_elim)
  have "extract_bits (take_bit (width s i)
      ((flags AND NOT (push_bit (nat sh) (mask (nat n)))) OR push_bit (nat sh) v))
      (push_bit (nat sh) (mask (nat n))) (int (nat sh)) = v"
    using h' fits width_le [OF h'(2)] r by (intro extract_written) (auto simp: range_ok_def)
  then show ?thesis
    using get_set [OF h'(2) fl] h' r by (simp add: read_range_def range_ok_def)
qed

lemma write_read_other:
  assumes h: "holds s edge r" "holds s edge' r'" and w: "write_range ops s edge r v = Some s'"
    and fits: "take_bit (nat (snd (snd r))) v = v"
    and dis: "edge' \<noteq> edge \<or> disjoint r r'"
  shows "read_range ops s' edge' r' = read_range ops s edge' r'"
proof -
  obtain i sh n j sh' n' where r: "r = (i, sh, n)" "r' = (j, sh', n')" by (cases r; cases r')
  have h1: "range_ok (i, sh, n)" "ok s edge i" "sh + n \<le> int (width s i)"
    and h2: "range_ok (j, sh', n')" "ok s edge' j" "sh' + n' \<le> int (width s j)"
    using h r by (auto simp: holds_def)
  obtain flags where g: "eia_get ops s edge i = Some flags" and fl: "eia_set ops s edge i
      ((flags AND NOT (push_bit (nat sh) (mask (nat n)))) OR push_bit (nat sh) v) = Some s'"
    using w r by (auto elim: write_elim)
  show ?thesis
  proof (cases "(edge', j) = (edge, i)")
    case False
    then show ?thesis using get_set_other [OF h1(2) fl h2(2)] r by (simp add: read_range_def)
  next
    case True
    then have "sh + n \<le> sh' \<or> sh' + n' \<le> sh" using dis r by (auto simp: disjoint_def)
    then have "extract_bits (take_bit (width s i)
      ((flags AND NOT (push_bit (nat sh) (mask (nat n)))) OR push_bit (nat sh) v))
      (push_bit (nat sh') (mask (nat n'))) (int (nat sh'))
      = extract_bits flags (push_bit (nat sh') (mask (nat n'))) (int (nat sh'))"
      using h1 h2 fits width_le [OF h1(2)] r True
      by (intro extract_frame) (auto simp: range_ok_def)
    then show ?thesis
      using get_set [OF h1(2) fl] g h2 r True by (simp add: read_range_def range_ok_def)
  qed
qed

text \<open>The access can hold every range of \<open>e\<close> for the edge.\<close>

definition holds_ev :: "'s \<Rightarrow> int \<Rightarrow> 'a int_ev_scheme \<Rightarrow> bool" where
  "holds_ev s edge e \<longleftrightarrow> (\<forall>r \<in> set (ranges e). holds s edge r)"

lemma holds_dir: "holds_ev s edge e \<Longrightarrow> holds s edge (dir_range e reverse)"
  by (auto simp: holds_ev_def dir_range_def ranges_def)

lemma SetInt_elim:
  assumes "ready e" "ev_SetInt ops reverse edge s v e = Some (e', s')"
  obtains mv where "in_bounds e v" "e' = e\<lparr>MaxValue := mv\<rparr>"
    "write_range ops s edge (dir_range e reverse) (stored e reverse v) = Some s'"
    "\<not> (reverse \<and> \<not> StoreTwoDir e \<and> \<not> NegateReverseDir e)"
proof -
  let ?mv = "if sint (signed_dir e reverse v) > sint (MaxValue e)
    then signed_dir e reverse v else MaxValue e"
  have "in_bounds e v" "e' = e\<lparr>MaxValue := ?mv\<rparr>"
    "write_range ops s edge (dir_range e reverse) (stored e reverse v) = Some s'"
    "\<not> (reverse \<and> \<not> StoreTwoDir e \<and> \<not> NegateReverseDir e)"
    using assms
    by (auto simp: ev_SetInt_def checkValue_def UncheckedSet_range in_bounds_def
        simp del: int_ev.update_convs split: if_split_asm)
  then show ?thesis by (rule that)
qed

lemma SetInt_Some:
  assumes "ready e" "holds_ev s edge e" "in_bounds e v"
    "reverse \<longrightarrow> StoreTwoDir e \<or> NegateReverseDir e"
  shows "\<exists>e' s'. ev_SetInt ops reverse edge s v e = Some (e', s')"
proof -
  have "isInitialized e" by (rule ready_isInitialized [OF assms(1)])
  moreover obtain s' where
    "write_range ops s edge (dir_range e reverse) (stored e reverse v) = Some s'"
    using write_Some [OF holds_dir [OF assms(2)]] by blast
  ultimately show ?thesis
    using assms by (auto simp: ev_SetInt_def checkValue_def UncheckedSet_range in_bounds_def)
qed

lemma ready_upd [simp]:
  "ready (e\<lparr>MaxValue := mv\<rparr>) = ready e" "holds_ev s edge (e\<lparr>MaxValue := mv\<rparr>) = holds_ev s edge e"
  "ranges (e\<lparr>MaxValue := mv\<rparr>) = ranges e" "dir_range (e\<lparr>MaxValue := mv\<rparr>) d = dir_range e d"
  "signed_dir (e\<lparr>MaxValue := mv\<rparr>) d v = signed_dir e d v"
  "fwd_range (e\<lparr>MaxValue := mv\<rparr>) = fwd_range e" "bwd_range (e\<lparr>MaxValue := mv\<rparr>) = bwd_range e"
  by (simp_all add: ready_def bounds_ok_def ranges_def fwd_range_def bwd_range_def holds_ev_def
      dir_range_def signed_dir_def)

text \<open>
  Reading back in the same direction gives the value; the other direction gives the same range's
  value with its sign when the directions share a range.
\<close>

lemma SetInt_GetInt:
  assumes "ready e" "holds_ev s edge e" "ev_SetInt ops reverse edge s v e = Some (e', s')"
  shows "ev_GetInt ops reverse edge s' e' = Some v"
    and "\<not> StoreTwoDir e \<Longrightarrow>
      ev_GetInt ops (\<not> reverse) edge s' e' = Some (if NegateReverseDir e then - v else v)"
proof -
  obtain mv where b: "in_bounds e v" and e': "e' = e\<lparr>MaxValue := mv\<rparr>" and
    w: "write_range ops s edge (dir_range e reverse) (stored e reverse v) = Some s'"
    using SetInt_elim [OF assms(1,3)] by blast
  have rd: "read_range ops s' edge (dir_range e reverse) = Some (stored e reverse v)"
    using stored_fits [OF assms(1) b, of reverse]
    by (intro write_read [OF holds_dir [OF assms(2)] w])
      (auto simp: dir_range_def fwd_range_def bwd_range_def)
  have "MinStorableValue e' = MinStorableValue e" by (simp add: e')
  then show "ev_GetInt ops reverse edge s' e' = Some v"
    using rd assms(1) by (simp add: ev_GetInt_range e' stored_def) (simp add: signed_dir_def)
  show "ev_GetInt ops (\<not> reverse) edge s' e' = Some (if NegateReverseDir e then - v else v)"
    if "\<not> StoreTwoDir e"
  proof -
    have "dir_range e (\<not> reverse) = dir_range e reverse" using that by (simp add: dir_range_def)
    then show ?thesis
      using rd assms(1) by (simp add: ev_GetInt_range e' stored_def) (simp add: signed_dir_def)
  qed
qed

text \<open>A write leaves every other encoded value, and every other edge, as it was.\<close>

lemma SetInt_frame:
  assumes "ready e" "holds_ev s edge e" "ev_SetInt ops reverse edge s v e = Some (e', s')"
    and "ready f" "holds_ev s edge' f"
    and dis: "edge' \<noteq> edge \<or> disjoint (dir_range e reverse) (dir_range f reverse')"
  shows "ev_GetInt ops reverse' edge' s' f = ev_GetInt ops reverse' edge' s f"
proof -
  obtain mv where b: "in_bounds e v" and
    w: "write_range ops s edge (dir_range e reverse) (stored e reverse v) = Some s'"
    using SetInt_elim [OF assms(1,3)] by blast
  have "read_range ops s' edge' (dir_range f reverse') = read_range ops s edge' (dir_range f reverse')"
    using stored_fits [OF assms(1) b, of reverse]
    by (intro write_read_other [OF holds_dir [OF assms(2)] holds_dir [OF assms(5)] w _ dis])
      (auto simp: dir_range_def fwd_range_def bwd_range_def)
  then show ?thesis using assms(4) by (simp add: ev_GetInt_range)
qed

lemma SetInt_holds:
  assumes "ready e" "holds_ev s edge e" "ev_SetInt ops reverse edge s v e = Some (e', s')"
  shows "holds_ev s' edge' f = holds_ev s edge' f" "ready e'" "ranges e' = ranges e"
proof -
  obtain mv where e': "e' = e\<lparr>MaxValue := mv\<rparr>" and
    w: "write_range ops s edge (dir_range e reverse) (stored e reverse v) = Some s'"
    using SetInt_elim [OF assms(1,3)] by blast
  show "holds_ev s' edge' f = holds_ev s edge' f"
    using holds_write [OF holds_dir [OF assms(2)] w] by (simp add: holds_ev_def)
  show "ready e'" "ranges e' = ranges e" using assms(1) by (simp_all add: e')
qed

end

section \<open>Allocation of bit ranges\<close>

text \<open>The position of a range in the bit string of an edge, and the first unused bit.\<close>

definition range_pos :: "bit_range \<Rightarrow> int" where
  "range_pos = (\<lambda>(i, sh, n). i * 32 + sh)"

definition range_end :: "bit_range \<Rightarrow> int" where
  "range_end = (\<lambda>(i, sh, n). i * 32 + sh + n)"

definition cfg_inv :: "init_config \<Rightarrow> bool" where
  "cfg_inv c \<longleftrightarrow> - 1 \<le> DataIndex c \<and> 1 \<le> NextShift c \<and> NextShift c \<le> 32 \<and>
     (DataIndex c = - 1 \<longrightarrow> NextShift c = 32)"

lemma cfg_inv_New: "cfg_inv NewInitializerConfig"
  by (simp add: cfg_inv_def NewInitializerConfig_def)

lemma requiredBits_New: "requiredBits NewInitializerConfig = 0"
  by (simp add: requiredBits_def NewInitializerConfig_def)

lemma sdiv_32: "0 \<le> (a :: int) \<Longrightarrow> a sdiv 32 = a div 32"
  by (cases "a = 0") (simp_all add: signed_divide_int_def)

lemma low_mask:
  assumes "n \<le> 32"
  shows "(ucast (push_bit n (1 :: i64) - 1) :: i32) = mask n"
proof -
  have "push_bit n (1 :: i64) - 1 = mask n"
    by (simp add: push_bit_of_1 mask_eq_exp_minus_1)
  then show ?thesis using assms by (intro bit_word_eqI) (auto simp: bit_simps)
qed

lemma cfg_Next_spec:
  assumes "cfg_inv c" "1 \<le> n" "n \<le> 32"
  obtains c' where "cfg_Next c n = Some c'" "cfg_inv c'"
    "range_ok (DataIndex c', Shift c', n)"
    "BitMask c' = range_mask (DataIndex c', Shift c', n)"
    "requiredBits c \<le> range_pos (DataIndex c', Shift c', n)"
    "requiredBits c' = range_end (DataIndex c', Shift c', n)"
proof -
  have s: "1 \<le> NextShift c" "NextShift c \<le> 32" "- 1 \<le> DataIndex c"
    "DataIndex c = - 1 \<Longrightarrow> NextShift c = 32"
    using assms(1) by (auto simp: cfg_inv_def)
  have d: "(NextShift c - 1) sdiv 32 = 0" using s by (simp add: sdiv_32)
  have d2: "(NextShift c - 1 + n) sdiv 32 > 0 \<longleftrightarrow> NextShift c + n > 32"
    using s assms(2) by (simp add: sdiv_32) linarith
  define di where "di = (if NextShift c + n > 32 then DataIndex c + 1 else DataIndex c)"
  define sh where "sh = (if NextShift c + n > 32 then 0 else NextShift c)"
  have sh: "0 \<le> sh" "sh + n \<le> 32" "0 \<le> di"
  proof -
    have "DataIndex c = - 1 \<or> 0 \<le> DataIndex c" using s(3) by linarith
    then show "0 \<le> sh" "sh + n \<le> 32" "0 \<le> di" using s assms by (auto simp: sh_def di_def)
  qed
  have nx: "cfg_Next c n = Some \<lparr>DataIndex = di, Shift = sh, NextShift = sh + n,
      BitMask = push_bit (nat sh) (mask (nat n))\<rparr>"
    using assms s sh low_mask [of "nat n"]
    by (auto simp: cfg_Next_def Let_def d d2 di_def sh_def)
  show ?thesis
    by (rule that [OF nx])
      (use sh s assms in \<open>auto simp: cfg_inv_def range_ok_def range_mask_def requiredBits_def
        range_pos_def range_end_def di_def sh_def\<close>)
qed

lemma disjoint_pos:
  assumes "range_ok r" "range_ok r'" "range_end r \<le> range_pos r'"
  shows "disjoint r r'" "disjoint r' r"
  using assms by (auto simp: range_ok_def range_pos_def range_end_def disjoint_def)

text \<open>
  An encoded value as its constructor leaves it. \<open>Init\<close> makes it ready, and its ranges lie
  between the first unused bit before and the first unused bit after.
\<close>

definition fresh :: "'a int_ev_scheme \<Rightarrow> bool" where
  "fresh e \<longleftrightarrow> bounds_ok e \<and> 1 \<le> Bits e \<and> Bits e \<le> 32 \<and> FwdMask e = 0"

lemma bounds_ok_upd [simp]:
  "bounds_ok (e\<lparr>FwdMask := m, FwdDataIndex := i, FwdShift := sh\<rparr>) = bounds_ok e"
  "bounds_ok (e\<lparr>FwdMask := m, BwdMask := m', FwdDataIndex := i, BwdDataIndex := i', FwdShift := sh,
     BwdShift := sh'\<rparr>) = bounds_ok e"
  by (simp_all add: bounds_ok_def)

lemma Init_spec:
  assumes "fresh e" "cfg_inv c"
  obtains used e' c' where "ev_Init e c = Some (used, e', c')" "ready e'" "cfg_inv c'"
    "\<And>r. r \<in> set (ranges e') \<Longrightarrow> requiredBits c \<le> range_pos r \<and> range_end r \<le> requiredBits c'"
    "requiredBits c + used \<le> requiredBits c'"
    "Name e' = Name e" "MinStorableValue e' = MinStorableValue e"
    "MaxStorableValue e' = MaxStorableValue e" "StoreTwoDir e' = StoreTwoDir e"
proof -
  have b: "1 \<le> Bits e" "Bits e \<le> 32" "bounds_ok e" "\<not> isInitialized e"
    using assms(1) by (auto simp: fresh_def isInitialized_def)
  obtain c1 where c1: "cfg_Next c (Bits e) = Some c1" "cfg_inv c1"
    "range_ok (DataIndex c1, Shift c1, Bits e)"
    "BitMask c1 = range_mask (DataIndex c1, Shift c1, Bits e)"
    "requiredBits c \<le> range_pos (DataIndex c1, Shift c1, Bits e)"
    "requiredBits c1 = range_end (DataIndex c1, Shift c1, Bits e)"
    using cfg_Next_spec [OF assms(2) b(1,2)] by blast
  show ?thesis
  proof (cases "StoreTwoDir e")
    case False
    show ?thesis
      by (rule that [of "Bits e" "e\<lparr>FwdMask := BitMask c1, FwdDataIndex := DataIndex c1,
            FwdShift := Shift c1\<rparr>" c1])
        (use False b c1 in \<open>auto simp: ev_Init_def ready_def ranges_def fwd_range_def
          range_end_def range_pos_def\<close>)
  next
    case True
    obtain c2 where c2: "cfg_Next c1 (Bits e) = Some c2" "cfg_inv c2"
      "range_ok (DataIndex c2, Shift c2, Bits e)"
      "BitMask c2 = range_mask (DataIndex c2, Shift c2, Bits e)"
      "requiredBits c1 \<le> range_pos (DataIndex c2, Shift c2, Bits e)"
      "requiredBits c2 = range_end (DataIndex c2, Shift c2, Bits e)"
      using cfg_Next_spec [OF c1(2) b(1,2)] by blast
    have dis: "disjoint (DataIndex c1, Shift c1, Bits e) (DataIndex c2, Shift c2, Bits e)"
      using disjoint_pos(1) [OF c1(3) c2(3)] c1(6) c2(5) by simp
    show ?thesis
      by (rule that [of "2 * Bits e" "e\<lparr>FwdMask := BitMask c1, BwdMask := BitMask c2,
            FwdDataIndex := DataIndex c1, BwdDataIndex := DataIndex c2,
            FwdShift := Shift c1, BwdShift := Shift c2\<rparr>" c2])
        (use True b c1 c2 dis in \<open>auto simp: ev_Init_def ready_def ranges_def fwd_range_def
          bwd_range_def range_end_def range_pos_def\<close>)
  qed
qed

text \<open>Initializing several encoded values one after the other, as the encoding manager does.\<close>

fun init_all :: "int_ev list \<Rightarrow> init_config \<Rightarrow> (int_ev list \<times> init_config) option" where
  "init_all [] c = Some ([], c)"
| "init_all (e # es) c = do {
     (used, e', c') \<leftarrow> ev_Init e c;
     (es', c'') \<leftarrow> init_all es c';
     Some (e' # es', c'') }"

lemma init_all_spec:
  assumes "\<forall>e \<in> set es. fresh e" "cfg_inv c"
  shows "\<exists>es' c'. init_all es c = Some (es', c') \<and> cfg_inv c' \<and> requiredBits c \<le> requiredBits c' \<and>
    length es' = length es \<and> (\<forall>e \<in> set es'. ready e) \<and>
    (\<forall>e \<in> set es'. \<forall>r \<in> set (ranges e). requiredBits c \<le> range_pos r \<and> range_end r \<le> requiredBits c') \<and>
    (\<forall>k l. k < l \<and> l < length es' \<longrightarrow>
       (\<forall>r \<in> set (ranges (es' ! k)). \<forall>r' \<in> set (ranges (es' ! l)). range_end r \<le> range_pos r'))"
  using assms
proof (induction es arbitrary: c)
  case (Cons e es)
  obtain used e' c1 where i: "ev_Init e c = Some (used, e', c1)" "ready e'" "cfg_inv c1"
    "\<And>r. r \<in> set (ranges e') \<Longrightarrow> requiredBits c \<le> range_pos r \<and> range_end r \<le> requiredBits c1"
  proof -
    have "fresh e" using Cons.prems(1) by simp
    then show ?thesis by (rule Init_spec [OF _ Cons.prems(2)]) (rule that)
  qed
  have len: "range_pos r \<le> range_end r" if "r \<in> set (ranges e')" for r
    using i(2) that by (cases r) (auto simp: ready_def range_ok_def range_pos_def range_end_def)
  have c1: "requiredBits c \<le> requiredBits c1"
    using i(4) [of "fwd_range e'"] len [of "fwd_range e'"] by (simp add: ranges_def)
  obtain es' c2 where r: "init_all es c1 = Some (es', c2)" "cfg_inv c2"
    "requiredBits c1 \<le> requiredBits c2" "length es' = length es" "\<forall>e \<in> set es'. ready e"
    "\<forall>e \<in> set es'. \<forall>r \<in> set (ranges e). requiredBits c1 \<le> range_pos r \<and> range_end r \<le> requiredBits c2"
    "\<forall>k l. k < l \<and> l < length es' \<longrightarrow>
       (\<forall>r \<in> set (ranges (es' ! k)). \<forall>r' \<in> set (ranges (es' ! l)). range_end r \<le> range_pos r')"
    using Cons.IH [of c1] Cons.prems i(3) by auto
  have "range_end r \<le> range_pos r'"
    if kl: "k < l" and rest: "l < length (e' # es')" "r \<in> set (ranges ((e' # es') ! k))"
      "r' \<in> set (ranges ((e' # es') ! l))" for k l r r'
  proof (cases k)
    case 0
    obtain l' where l': "l = Suc l'" using kl by (cases l) auto
    then have "es' ! l' \<in> set es'" using rest by simp
    with that(3,4) 0 l' r(6) i(4) show ?thesis by fastforce
  next
    case (Suc k')
    obtain l' where "l = Suc l'" using kl by (cases l) auto
    then show ?thesis using that r(7) Suc by simp
  qed
  moreover have "requiredBits c \<le> range_pos rg \<and> range_end rg \<le> requiredBits c2"
    if "x \<in> set (e' # es')" "rg \<in> set (ranges x)" for x rg
    using that i(4) r(3,6) c1 by fastforce
  moreover have "init_all (e # es) c = Some (e' # es', c2)" using i(1) r(1) by simp
  ultimately show ?case
    using i(2) r(2-5) c1 by (intro exI [of _ "e' # es'"] exI [of _ c2]) auto
qed simp


section \<open>ArrayEdgeIntAccess\<close>

record array_eia =
  intsPerEdge :: int
  arr :: "i32 list"

definition NewArrayEdgeIntAccess :: "int \<Rightarrow> array_eia" where
  "NewArrayEdgeIntAccess n = \<lparr>intsPerEdge = n, arr = []\<rparr>"

definition NewArrayEdgeIntAccessFromBytes :: "int \<Rightarrow> array_eia" where
  "NewArrayEdgeIntAccessFromBytes bytes = NewArrayEdgeIntAccess ((bytes + 3) sdiv 4)"

definition array_GetInt :: "array_eia \<Rightarrow> int \<Rightarrow> int \<Rightarrow> i32 option" where
  "array_GetInt a edgeID index =
     (let i = edgeID * intsPerEdge a + index
      in if i \<ge> int (length (arr a)) then Some 0 else idx (arr a) i)"

definition array_SetInt :: "array_eia \<Rightarrow> int \<Rightarrow> int \<Rightarrow> i32 \<Rightarrow> array_eia option" where
  "array_SetInt a edgeID index value = do {
     let i = edgeID * intsPerEdge a + index;
     let xs = (if i \<ge> int (length (arr a))
       then arr a @ replicate (nat (i + 1) - length (arr a)) 0 else arr a);
     xs \<leftarrow> put xs i value;
     Some (a\<lparr>arr := xs\<rparr>) }"

definition array_access :: "array_eia edge_int_access" where
  "array_access = \<lparr>eia_get = array_GetInt, eia_set = array_SetInt\<rparr>"

definition array_ok :: "array_eia \<Rightarrow> int \<Rightarrow> int \<Rightarrow> bool" where
  "array_ok a edge i \<longleftrightarrow> 0 \<le> edge \<and> 0 \<le> i \<and> i < intsPerEdge a"

lemma array_index_inj:
  fixes e e' i j n :: int
  assumes "0 \<le> i" "i < n" "0 \<le> j" "j < n" "e * n + i = e' * n + j"
  shows "e = e' \<and> i = j"
proof -
  have "(e * n + i) div n = e" using assms(1,2) by simp
  moreover have "(e' * n + j) div n = e'" using assms(3,4) by simp
  ultimately have "e = e'" using assms(5) by metis
  then show ?thesis using assms(5) by simp
qed

lemma array_GetInt_Some:
  "0 \<le> edgeID * intsPerEdge a + index \<Longrightarrow> array_GetInt a edgeID index =
   Some (if nat (edgeID * intsPerEdge a + index) < length (arr a)
     then arr a ! nat (edgeID * intsPerEdge a + index) else 0)"
  by (auto simp: array_GetInt_def idx_def Let_def)

lemma array_SetInt_Some:
  assumes "array_SetInt a edgeID index v = Some a'"
  shows "intsPerEdge a' = intsPerEdge a \<and> 0 \<le> edgeID * intsPerEdge a + index \<and>
    (\<forall>k. (if k < length (arr a') then arr a' ! k else 0) =
       (if k = nat (edgeID * intsPerEdge a + index) then v
        else if k < length (arr a) then arr a ! k else 0))"
  using assms
  by (auto simp: array_SetInt_def Let_def put_Some_iff bind_Some_iff nth_list_update nth_append
      split: if_splits)

interpretation array_eia: edge_int_access_contract array_access array_ok "\<lambda>_ _. 32"
proof
  fix s edge i v
  assume ok: "array_ok s edge i"
  then have p: "0 \<le> edge * intsPerEdge s + i" by (auto simp: array_ok_def)
  then show "\<exists>v. eia_get array_access s edge i = Some v"
    by (simp add: array_access_def array_GetInt_Some)
  show "\<exists>s'. eia_set array_access s edge i v = Some s'"
    using p by (auto simp: array_access_def array_SetInt_def Let_def put_def)
  fix s' edge' j
  assume set: "eia_set array_access s edge i v = Some s'"
  note S = array_SetInt_Some [OF set [unfolded array_access_def, simplified]]
  then show "array_ok s' edge' j = array_ok s edge' j" by (simp add: array_ok_def)
  from S have "(if k < length (arr s') then arr s' ! k else 0) =
      (if k = nat (edge * intsPerEdge s + i) then v
       else if k < length (arr s) then arr s ! k else 0)" for k by blast
  from this [of "nat (edge * intsPerEdge s + i)"]
  moreover have "intsPerEdge s' = intsPerEdge s" using S by blast
  ultimately show "eia_get array_access s' edge i = Some (take_bit 32 v)"
    using p by (simp add: array_access_def array_GetInt_Some take_bit_word_eq_self split: if_splits)
  assume ok': "array_ok s edge' j" and ne: "(edge', j) \<noteq> (edge, i)"
  have p': "0 \<le> edge' * intsPerEdge s + j" using ok' by (auto simp: array_ok_def)
  have "edge' * intsPerEdge s + j \<noteq> edge * intsPerEdge s + i"
    using array_index_inj [of j "intsPerEdge s" i edge' edge] ok ok' ne by (auto simp: array_ok_def)
  then have "nat (edge' * intsPerEdge s + j) \<noteq> nat (edge * intsPerEdge s + i)"
    using p p' by (simp add: nat_eq_iff)
  moreover have "intsPerEdge s' = intsPerEdge s" using S by blast
  moreover from S have "(if k < length (arr s') then arr s' ! k else 0) =
      (if k = nat (edge * intsPerEdge s + i) then v
       else if k < length (arr s) then arr s ! k else 0)" for k by blast
  ultimately show "eia_get array_access s' edge' j = eia_get array_access s edge' j"
    using p' by (simp only: array_access_def array_GetInt_Some edge_int_access.simps) simp
qed simp_all

end
