(* ===== verification/DecimalEncodedValue.thy ===== *)
theory DecimalEncodedValue imports GoFloat EncodedValue begin

text \<open>
  \<^verbatim>\<open>core/routing/ev/decimal_encoded_value_impl.go\<close>: decimals stored as multiples of a factor.
  The arithmetic is that of \<open>float64\<close>: every operation rounds, and the theorems account for it.
\<close>

section \<open>The code\<close>

record decimal_ev =
  dec_impl :: int_ev
  Factor :: flt
  UseMaximumAsInfinity :: bool

definition NewDecimalEncodedValueImplFull ::
  "string \<Rightarrow> int \<Rightarrow> flt \<Rightarrow> flt \<Rightarrow> bool \<Rightarrow> bool \<Rightarrow> bool \<Rightarrow> decimal_ev option" where
  "NewDecimalEncodedValueImplFull name bits minStorableValue factor negateReverseDirection
     storeTwoDirections useMaximumAsInfinity = do {
     let minSV = int32_of_f64 (math_Round (fdiv minStorableValue factor));
     impl \<leftarrow> NewIntEncodedValueImplFull name bits minSV negateReverseDirection storeTwoDirections;
     check (\<not> (\<not> negateReverseDirection \<and>
       \<not> flt_eq (fmul (f64_of_int (sint (MinStorableValue impl))) factor) minStorableValue));
     Some \<lparr>dec_impl = impl, Factor = factor, UseMaximumAsInfinity = useMaximumAsInfinity\<rparr> }"

definition NewDecimalEncodedValueImpl :: "string \<Rightarrow> int \<Rightarrow> flt \<Rightarrow> bool \<Rightarrow> decimal_ev option" where
  "NewDecimalEncodedValueImpl name bits factor storeTwoDirections =
     NewDecimalEncodedValueImplFull name bits (Fin 0) factor False storeTwoDirections False"

definition max_float :: "decimal_ev \<Rightarrow> flt" where
  "max_float d = f64_of_int (sint (MaxStorableValue (dec_impl d)))"

definition min_float :: "decimal_ev \<Rightarrow> flt" where
  "min_float d = f64_of_int (sint (MinStorableValue (dec_impl d)))"

definition SetDecimal :: "'s edge_int_access \<Rightarrow> bool \<Rightarrow> int \<Rightarrow> 's \<Rightarrow> flt \<Rightarrow> decimal_ev
    \<Rightarrow> (decimal_ev \<times> 's) option" where
  "SetDecimal ops reverse edgeID s value d = do {
     check (isInitialized (dec_impl d));
     (impl, s) \<leftarrow>
       (if UseMaximumAsInfinity d \<and> math_IsInf value
        then ev_SetInt ops reverse edgeID s (MaxStorableValue (dec_impl d)) (dec_impl d)
        else if UseMaximumAsInfinity d \<and> flt_le (fmul (max_float d) (Factor d)) value
        then UncheckedSet ops reverse edgeID s (MaxStorableValue (dec_impl d) - 1) (dec_impl d)
        else do {
          check (\<not> (\<not> UseMaximumAsInfinity d \<and> math_IsInf value));
          check (\<not> math_IsNaN value);
          let value = fdiv value (Factor d);
          check (\<not> flt_less (max_float d) value);
          check (\<not> flt_less value (min_float d));
          UncheckedSet ops reverse edgeID s (int32_of_f64 (math_Round value)) (dec_impl d)
        });
     Some (d\<lparr>dec_impl := impl\<rparr>, s) }"

definition GetDecimal :: "'s edge_int_access \<Rightarrow> bool \<Rightarrow> int \<Rightarrow> 's \<Rightarrow> decimal_ev \<Rightarrow> flt option" where
  "GetDecimal ops reverse edgeID s d = do {
     v \<leftarrow> ev_GetInt ops reverse edgeID s (dec_impl d);
     if UseMaximumAsInfinity d \<and> v = MaxStorableValue (dec_impl d) then Some PInf
     else Some (fmul (f64_of_int (sint v)) (Factor d)) }"

definition GetMaxStorableDecimal :: "decimal_ev \<Rightarrow> flt" where
  "GetMaxStorableDecimal d =
     (if UseMaximumAsInfinity d then PInf else fmul (max_float d) (Factor d))"

definition GetMinStorableDecimal :: "decimal_ev \<Rightarrow> flt" where
  "GetMinStorableDecimal d = fmul (min_float d) (Factor d)"

definition GetNextStorableValue :: "decimal_ev \<Rightarrow> flt \<Rightarrow> flt option" where
  "GetNextStorableValue d value = do {
     check (\<not> (\<not> UseMaximumAsInfinity d \<and> flt_less (GetMaxStorableDecimal d) value));
     if UseMaximumAsInfinity d \<and>
       flt_less (fmul (f64_of_int (sint (MaxStorableValue (dec_impl d) - 1))) (Factor d)) value
     then Some PInf
     else Some (fmul (Factor d) (f64_of_int (int64_of_f64 (math_Ceil (fdiv value (Factor d)))))) }"

definition GetSmallestNonZeroValue :: "decimal_ev \<Rightarrow> flt option" where
  "GetSmallestNonZeroValue d = do {
     check (\<not> (MinStorableValue (dec_impl d) \<noteq> 0 \<or> NegateReverseDir (dec_impl d)));
     Some (Factor d) }"

definition GetMaxOrMaxStorableDecimal :: "decimal_ev \<Rightarrow> flt" where
  "GetMaxOrMaxStorableDecimal d =
     (let v = GetMaxOrMaxStorableInt (dec_impl d)
      in if UseMaximumAsInfinity d \<and> v = MaxStorableValue (dec_impl d) then PInf
         else fmul (f64_of_int (sint v)) (Factor d))"

section \<open>Rounding errors of the scaled value\<close>

lemma one_over_pow_le: "1 / 2 ^ n \<le> (1 :: rat)"
  by simp

lemma f64_Fin:
  assumes "\<bar>rnd 53 (- 1074) q\<bar> < 2 powi 1024"
  shows "f64 q = Fin (rnd 53 (- 1074) q)"
proof -
  have "\<not> 2 powi 1024 \<le> rnd 53 (- 1074) q" "\<not> rnd 53 (- 1074) q \<le> - (2 powi 1024)"
    using assms unfolding abs_less_iff by linarith+
  then show ?thesis unfolding f64_def to_format_def Let_def by (simp only: if_False)
qed

lemma rnd_quotient_error:
  assumes "\<bar>q\<bar> < 2 powi 32"
  shows "\<bar>rnd 53 (- 1074) q - q\<bar> \<le> 1 / 2 ^ 22"
proof (cases "q = 0")
  case False
  then have "(2::rat) powi ilog2 \<bar>q\<bar> < 2 powi 32"
    using ilog2_bounds [of "\<bar>q\<bar>"] assms by (auto intro: le_less_trans)
  then have "ilog2 \<bar>q\<bar> < 32" by (simp only: powi_less_iff)
  then have "(2::rat) powi ulp_exp 53 (- 1074) q \<le> 2 powi (- 21)"
    unfolding powi_le_iff by (simp add: ulp_exp_def)
  also have "(2::rat) powi (- 21) = 1 / 2 ^ 21" by (simp add: power_int_minus_divide)
  finally show ?thesis using rnd_error_ulp [of 53 "- 1074" q] by simp
qed simp

lemma rnd_product_error:
  assumes "2 powi (- 1000) \<le> f" "\<bar>k\<bar> \<le> 2 powi 32"
  shows "\<bar>rnd 53 (- 1074) (k * f) - k * f\<bar> \<le> f / 2 ^ 21"
proof (cases "k * f = 0")
  case False
  have f: "0 < f" using assms(1) powi_pos less_le_trans by blast
  have "(2::rat) powi ulp_exp 53 (- 1074) (k * f) \<le> f / 2 ^ 20"
  proof (cases "ulp_exp 53 (- 1074) (k * f) = - 1074")
    case True
    have "(2::rat) powi (- 1074) * 2 ^ 20 \<le> 2 powi (- 1000)"
    proof -
      have "(2::rat) powi (- 1074) * 2 ^ 20 = 2 powi (- 1054)"
        using powi_split [of "- 1074" "- 1054"] by simp
      then show ?thesis by (simp only: powi_le_iff)
    qed
    with assms(1) have "(2::rat) powi (- 1074) * 2 ^ 20 \<le> f" by (rule order.trans [rotated])
    then show ?thesis unfolding True by (simp add: field_simps)
  next
    case False
    then have u: "ulp_exp 53 (- 1074) (k * f) = ilog2 \<bar>k * f\<bar> - 52" by (auto simp: ulp_exp_def)
    have "2 powi ilog2 \<bar>k * f\<bar> \<le> \<bar>k * f\<bar>" using ilog2_bounds [of "\<bar>k * f\<bar>"] \<open>k * f \<noteq> 0\<close> by simp
    also have "\<dots> \<le> 2 powi 32 * f" using assms(2) f by (simp add: abs_mult mult_right_mono)
    finally have "2 powi ilog2 \<bar>k * f\<bar> \<le> 2 ^ 32 * f" by simp
    moreover have "(2::rat) powi (ilog2 \<bar>k * f\<bar> - 52) = 2 powi ilog2 \<bar>k * f\<bar> / 2 ^ 52"
      by (simp add: power_int_diff)
    ultimately show ?thesis unfolding u by (simp add: field_simps)
  qed
  then show ?thesis using rnd_error_ulp [of 53 "- 1074" "k * f"] by simp
next
  case True
  then show ?thesis using order.strict_trans2 [OF powi_pos assms(1)] by auto
qed

lemma round_half_away_near:
  assumes "\<bar>y - of_int k\<bar> < 1 / 2"
  shows "round_half_away y = k"
proof -
  have y: "of_int k - 1 / 2 < y" "y < of_int k + 1 / 2" using assms by linarith+
  show ?thesis
  proof (cases "0 \<le> y")
    case True
    have "\<lfloor>y + 1 / 2\<rfloor> = k" by (rule floor_unique) (use y in linarith)+
    then show ?thesis using True by (simp add: round_half_away_def)
  next
    case False
    have "\<lceil>y - 1 / 2\<rceil> = k" by (rule ceiling_unique) (use y in linarith)+
    then show ?thesis using False by (simp add: round_half_away_def)
  qed
qed

lemma round_half_away_error: "\<bar>of_int (round_half_away y) - y\<bar> \<le> 1 / 2"
proof (cases "0 \<le> y")
  case True
  then show ?thesis
    using floor_correct [of "y + 1 / 2"] unfolding round_half_away_def abs_le_iff by simp linarith
next
  case False
  then show ?thesis
    using ceiling_correct [of "y - 1 / 2"] unfolding round_half_away_def abs_le_iff by simp linarith
qed

section \<open>What is read back\<close>

text \<open>
  The factor is a positive float far from the limits of the format, so that neither a product
  with a storable integer nor the quotient overflows or loses its relative precision.
\<close>

definition factor_ok :: "decimal_ev \<Rightarrow> rat \<Rightarrow> bool" where
  "factor_ok d f \<longleftrightarrow> Factor d = Fin f \<and> 2 powi (- 1000) \<le> f \<and> f \<le> 2 powi 900"

text \<open>The value that \<open>GetDecimal\<close> gives for the stored integer \<open>k\<close>.\<close>

definition dec_value :: "decimal_ev \<Rightarrow> int \<Rightarrow> flt" where
  "dec_value d k =
     (if UseMaximumAsInfinity d \<and> k = sint (MaxStorableValue (dec_impl d)) then PInf
      else fmul (f64_of_int k) (Factor d))"

lemma i32_float: "- (2 ^ 31) \<le> k \<Longrightarrow> k < 2 ^ 31 \<Longrightarrow> f64_of_int k = Fin (of_int k)"
  unfolding f64_of_int_def by (rule f64_of_int_exact) simp

lemma rat_i32: "- (2 ^ 31) \<le> k \<Longrightarrow> k < 2 ^ 31 \<Longrightarrow> \<bar>of_int k :: rat\<bar> \<le> 2 powi 31"
proof -
  assume "- (2 ^ 31) \<le> k" "k < 2 ^ 31"
  then have "\<bar>k\<bar> \<le> 2 ^ 31" by linarith
  then have "of_int \<bar>k\<bar> \<le> (of_int (2 ^ 31) :: rat)" by (simp only: of_int_le_iff)
  then show ?thesis by simp
qed

lemma factor_product:
  assumes "factor_ok d f" "- (2 ^ 31) \<le> k" "k < 2 ^ 31"
  shows "fmul (f64_of_int k) (Factor d) = Fin (rnd 53 (- 1074) (of_int k * f))"
    "\<bar>rnd 53 (- 1074) (of_int k * f) - of_int k * f\<bar> \<le> f / 2 ^ 21"
proof -
  have f: "2 powi (- 1000) \<le> f" "f \<le> 2 powi 900" "Factor d = Fin f"
    using assms(1) by (auto simp: factor_ok_def)
  have f0: "0 < f" using f(1) powi_pos less_le_trans by blast
  have k: "\<bar>of_int k :: rat\<bar> \<le> 2 powi 31" by (rule rat_i32 [OF assms(2,3)])
  also have "(2::rat) powi 31 \<le> 2 powi 32" by (simp only: powi_le_iff)
  finally have k': "\<bar>of_int k :: rat\<bar> \<le> 2 powi 32" .
  show e: "\<bar>rnd 53 (- 1074) (of_int k * f) - of_int k * f\<bar> \<le> f / 2 ^ 21"
    by (rule rnd_product_error [OF f(1) k'])
  have "\<bar>of_int k * f\<bar> \<le> 2 powi 31 * 2 powi 900"
    unfolding abs_mult using k f(2) f0 by (intro mult_mono) auto
  also have "(2::rat) powi 31 * 2 powi 900 = 2 powi 931" by (subst power_int_add [symmetric]) simp_all
  finally have "\<bar>rnd 53 (- 1074) (of_int k * f)\<bar> \<le> 2 powi 931 + f" 
  proof -
    have "f / 2 ^ 21 \<le> f" using f0 by simp
    moreover assume "\<bar>of_int k * f\<bar> \<le> 2 powi 931"
    ultimately show ?thesis using e by linarith
  qed
  also have "\<dots> \<le> 2 powi 931 + 2 powi 931"
    using f(2) order.trans [OF f(2), of "2 powi 931"] by (simp only: powi_le_iff) simp
  also have "\<dots> = 2 powi 932" using powi_Suc [of 931] by simp
  also have "\<dots> < 2 powi 1024" by (simp only: powi_less_iff)
  finally have b: "\<bar>rnd 53 (- 1074) (of_int k * f)\<bar> < 2 powi 1024" .
  then have "f64 (of_int k * f) = Fin (rnd 53 (- 1074) (of_int k * f))" by (rule f64_Fin)
  then show "fmul (f64_of_int k) (Factor d) = Fin (rnd 53 (- 1074) (of_int k * f))"
    using i32_float [OF assms(2,3)] f(3) by simp
qed

lemma round_product_quotient:
  assumes "factor_ok d f" "- (2 ^ 31) \<le> k" "k < 2 ^ 31"
  shows "\<bar>rnd 53 (- 1074) (rnd 53 (- 1074) (of_int k * f) / f) - of_int k\<bar> \<le> 1 / 2 ^ 20"
proof -
  let ?x = "rnd 53 (- 1074) (of_int k * f)"
  have f0: "0 < f" using assms(1) powi_pos less_le_trans unfolding factor_ok_def by blast
  have "\<bar>?x / f - of_int k\<bar> = \<bar>?x - of_int k * f\<bar> / f" using f0
    by (simp add: abs_if field_simps)
  also have "\<dots> \<le> 1 / 2 ^ 21" using factor_product(2) [OF assms] f0 by (simp add: field_simps)
  finally have q: "\<bar>?x / f - of_int k\<bar> \<le> 1 / 2 ^ 21" .
  have "\<bar>?x / f\<bar> \<le> 2 powi 31 + 1" 
    using q rat_i32 [OF assms(2,3)] one_over_pow_le [of 21] by linarith
  also have "\<dots> < 2 powi 32" by simp
  finally have "\<bar>rnd 53 (- 1074) (?x / f) - ?x / f\<bar> \<le> 1 / 2 ^ 22" by (rule rnd_quotient_error)
  moreover have "(1::rat) / 2 ^ 21 + 1 / 2 ^ 22 \<le> 1 / 2 ^ 20" by simp
  ultimately show ?thesis using q by linarith
qed

lemma int32_of_round: "- (2 ^ 31) \<le> k \<Longrightarrow> k < 2 ^ 31 \<Longrightarrow>
  int32_of_f64 (Fin (of_int k)) = word_of_int k"
  by (simp add: rat_trunc_def Let_def)

lemma f64_small:
  assumes "\<bar>q\<bar> < 2 powi 32"
  shows "f64 q = Fin (rnd 53 (- 1074) q)"
proof -
  have "\<bar>rnd 53 (- 1074) q\<bar> \<le> \<bar>q\<bar> + 1" 
    using rnd_quotient_error [OF assms] one_over_pow_le [of 22] by linarith
  also have "\<dots> < 2 powi 33" using assms by simp
  also have "(2::rat) powi 33 \<le> 2 powi 1024" by (simp only: powi_le_iff)
  finally have "\<bar>rnd 53 (- 1074) q\<bar> < 2 powi 1024" .
  then show ?thesis by (rule f64_Fin)
qed

text \<open>
  The integer that is stored for a decimal: the largest one for an infinite value, the one
  before it for a value that is too large, and else the nearest to the rounded quotient.
\<close>

definition nearest :: "rat \<Rightarrow> rat \<Rightarrow> int \<Rightarrow> bool" where
  "nearest r f k \<longleftrightarrow> \<bar>of_int k - rnd 53 (- 1074) (r / f)\<bar> \<le> 1 / 2"

definition stores :: "decimal_ev \<Rightarrow> flt \<Rightarrow> int \<Rightarrow> bool" where
  "stores d x k \<longleftrightarrow>
     (let m = sint (MaxStorableValue (dec_impl d)) in
      if UseMaximumAsInfinity d \<and> math_IsInf x then k = m
      else if UseMaximumAsInfinity d \<and> flt_le (fmul (max_float d) (Factor d)) x then k = m - 1
      else \<exists>r f. x = Fin r \<and> Factor d = Fin f \<and> nearest r f k \<and> \<bar>r / f\<bar> < 2 powi 32)"

definition dec_ok :: "decimal_ev \<Rightarrow> bool" where
  "dec_ok d \<longleftrightarrow> ready (dec_impl d) \<and>
     sint (MinStorableValue (dec_impl d)) < sint (MaxStorableValue (dec_impl d)) \<and>
     (\<exists>f. factor_ok d f)"

lemma max_min_float:
  "max_float d = Fin (of_int (sint (MaxStorableValue (dec_impl d))))"
  "min_float d = Fin (of_int (sint (MinStorableValue (dec_impl d))))"
  using sint_i32_bounds by (simp_all add: max_float_def min_float_def i32_float)

lemma ev_SetInt_Unchecked:
  assumes "ready e" "in_bounds e v"
  shows "ev_SetInt ops reverse edge s v e = UncheckedSet ops reverse edge s v e"
  using assms ready_isInitialized [OF assms(1)] by (simp add: ev_SetInt_def checkValue_def in_bounds_def)

lemma quotient_bounded:
  assumes "\<bar>rnd 53 (- 1074) q\<bar> \<le> 2 powi 31"
  shows "\<bar>q\<bar> < 2 powi 32"
proof (rule ccontr)
  assume "\<not> \<bar>q\<bar> < 2 powi 32"
  have R: "representable 53 (- 1074) (2 powi 32)"
    unfolding representable_def by (rule exI [of _ 1], rule exI [of _ 32]) simp
  have "2 powi 32 \<le> rnd 53 (- 1074) \<bar>q\<bar>" by (rule le_rnd [OF R]) (use \<open>\<not> \<bar>q\<bar> < 2 powi 32\<close> in simp_all)
  also have "rnd 53 (- 1074) \<bar>q\<bar> \<le> \<bar>rnd 53 (- 1074) q\<bar>"
    using rnd_minus [of 53 "- 1074" q] by (cases "0 \<le> q") simp_all
  finally show False using assms by simp
qed

lemma f64_eq_FinD: "f64 q = Fin y \<Longrightarrow> y = rnd 53 (- 1074) q"
  by (auto simp: f64_def to_format_def Let_def split: if_splits)

lemma sint_minus_1:
  assumes "sint (n :: i32) < sint (m :: i32)"
  shows "sint (m - 1) = sint m - 1"
proof -
  have "m - 1 = word_of_int (sint m - 1)" by (simp add: wi_hom_syms)
  moreover have "sint (word_of_int (sint m - 1) :: i32) = sint m - 1"
    using assms sint_i32_bounds [of m] sint_i32_bounds [of n] by (intro sint32_of_int) linarith+
  ultimately show ?thesis by simp
qed

lemma nearest_round:
  assumes "of_int lo \<le> y" "y \<le> of_int hi"
  shows "lo \<le> round_half_away y" "round_half_away y \<le> hi"
proof -
  have "of_int lo - 1 < (of_int (round_half_away y) :: rat)" "of_int (round_half_away y) < of_int hi + (1 :: rat)"
    using round_half_away_error [of y] assms by linarith+
  then show "lo \<le> round_half_away y" "round_half_away y \<le> hi" by linarith+
qed

lemma SetDecimal_elim:
  assumes ok: "dec_ok d" and set: "SetDecimal ops reverse edge s x d = Some (d', s')"
  obtains k impl where "stores d x k" "d' = d\<lparr>dec_impl := impl\<rparr>"
    "sint (MinStorableValue (dec_impl d)) \<le> k" "k \<le> sint (MaxStorableValue (dec_impl d))"
    "ev_SetInt ops reverse edge s (word_of_int k) (dec_impl d) = Some (impl, s')"
proof -
  let ?e = "dec_impl d" let ?mx = "MaxStorableValue ?e" let ?mn = "MinStorableValue ?e"
  obtain f where f: "Factor d = Fin f" "0 < f"
    using ok order.strict_trans2 [OF powi_pos] by (auto simp: dec_ok_def factor_ok_def)
  have r: "ready ?e" "sint ?mn < sint ?mx" using ok by (auto simp: dec_ok_def)
  note mb = sint_i32_bounds [of ?mx] sint_i32_bounds [of ?mn]
  have "\<exists>k impl. stores d x k \<and> sint ?mn \<le> k \<and> k \<le> sint ?mx \<and> d' = d\<lparr>dec_impl := impl\<rparr> \<and>
    UncheckedSet ops reverse edge s (word_of_int k) ?e = Some (impl, s')"
  proof (cases "UseMaximumAsInfinity d \<and> math_IsInf x")
    case True
    then have "\<exists>impl. UncheckedSet ops reverse edge s (word_of_int (sint ?mx)) ?e = Some (impl, s') \<and>
      d' = d\<lparr>dec_impl := impl\<rparr>"
      using set by (auto simp: SetDecimal_def ev_SetInt_def bind_Some_iff split: if_splits)
    then show ?thesis using r(2) True by (intro exI [of _ "sint ?mx"]) (auto simp: stores_def)
  next
    case ninf: False
    show ?thesis
    proof (cases "UseMaximumAsInfinity d \<and> flt_le (fmul (max_float d) (Factor d)) x")
      case True
      have "?mx - 1 = word_of_int (sint ?mx - 1)" by (simp add: wi_hom_syms)
      then have "\<exists>impl. UncheckedSet ops reverse edge s (word_of_int (sint ?mx - 1)) ?e = Some (impl, s') \<and>
        d' = d\<lparr>dec_impl := impl\<rparr>"
        using set True ninf by (auto simp: SetDecimal_def bind_Some_iff split: if_splits)
      then show ?thesis using r(2) True ninf
        by (intro exI [of _ "sint ?mx - 1"]) (auto simp: stores_def Let_def)
    next
      case False
      have "x \<noteq> NaN" "\<not> math_IsInf x" using set ninf False
        by (auto simp: SetDecimal_def math_IsNaN_def split: if_splits)
      then obtain q where q: "x = Fin q" by (cases x) (auto simp: math_IsInf_def)
      have dv: "fdiv x (Factor d) = f64 (q / f)" using f q by simp
      have g: "\<not> flt_less (max_float d) (f64 (q / f))" "\<not> flt_less (f64 (q / f)) (min_float d)"
        and U: "\<exists>impl. UncheckedSet ops reverse edge s (int32_of_f64 (math_Round (f64 (q / f)))) ?e
          = Some (impl, s') \<and> d' = d\<lparr>dec_impl := impl\<rparr>"
        using set ninf False unfolding SetDecimal_def
        by (auto simp: dv bind_Some_iff Let_def split: if_splits)
      let ?y = "rnd 53 (- 1074) (q / f)"
      obtain y where y: "f64 (q / f) = Fin y"
        using g by (cases "f64 (q / f)") (auto simp: max_min_float)
      have fy: "f64 (q / f) = Fin ?y" using y f64_eq_FinD [OF y] by simp
      have b: "of_int (sint ?mn) \<le> ?y" "?y \<le> of_int (sint ?mx)"
        using g by (auto simp: max_min_float fy not_less)
      note k = nearest_round [OF b]
      have "\<bar>?y\<bar> \<le> 2 powi 31" using b rat_i32 [of "sint ?mx"] rat_i32 [of "sint ?mn"] mb by linarith
      then have "\<bar>q / f\<bar> < 2 powi 32" by (rule quotient_bounded)
      then have "stores d x (round_half_away ?y)"
        unfolding stores_def Let_def if_not_P [OF ninf] if_not_P [OF False]
        using q f(1) round_half_away_error [of ?y] by (auto simp: nearest_def)
      moreover have "int32_of_f64 (math_Round (f64 (q / f))) = word_of_int (round_half_away ?y)"
        unfolding fy math_Round.simps using k mb by (intro int32_of_round) linarith+
      ultimately show ?thesis using U k by auto
    qed
  qed
  then obtain k impl where k: "stores d x k" "sint ?mn \<le> k" "k \<le> sint ?mx" "d' = d\<lparr>dec_impl := impl\<rparr>"
    "UncheckedSet ops reverse edge s (word_of_int k) ?e = Some (impl, s')" by blast
  have "sint (word_of_int k :: i32) = k" using k(2,3) mb by (intro sint32_of_int) linarith+
  then have "in_bounds ?e (word_of_int k)" using k(2,3) by (simp add: in_bounds_def)
  then show ?thesis using k by (intro that) (auto simp: ev_SetInt_Unchecked [OF r(1)])
qed

context edge_int_access_contract begin

lemma SetDecimal_GetDecimal:
  assumes "dec_ok d" "holds_ev s edge (dec_impl d)"
    "SetDecimal ops reverse edge s x d = Some (d', s')"
  obtains k where "stores d x k" "sint (MinStorableValue (dec_impl d)) \<le> k"
    "k \<le> sint (MaxStorableValue (dec_impl d))"
    "GetDecimal ops reverse edge s' d' = Some (dec_value d k)"
proof -
  let ?e = "dec_impl d"
  obtain k impl where k: "stores d x k" "d' = d\<lparr>dec_impl := impl\<rparr>"
    "sint (MinStorableValue ?e) \<le> k" "k \<le> sint (MaxStorableValue ?e)"
    "ev_SetInt ops reverse edge s (word_of_int k) ?e = Some (impl, s')"
    by (rule SetDecimal_elim [OF assms(1,3)])
  have rdy: "ready ?e" using assms(1) by (simp add: dec_ok_def)
  have g: "ev_GetInt ops reverse edge s' impl = Some (word_of_int k)"
    by (rule SetInt_GetInt(1) [OF rdy assms(2) k(5)])
  obtain mv where "impl = ?e\<lparr>MaxValue := mv\<rparr>" using SetInt_elim [OF rdy k(5)] by blast
  then have m: "MaxStorableValue impl = MaxStorableValue ?e" by simp
  have sk: "sint (word_of_int k :: i32) = k"
    using k(3,4) sint_i32_bounds [of "MaxStorableValue ?e"] sint_i32_bounds [of "MinStorableValue ?e"]
    by (intro sint32_of_int) linarith+
  then have "(word_of_int k = MaxStorableValue ?e) = (k = sint (MaxStorableValue ?e))"
    by (metis signed_word_eqI)
  then have "GetDecimal ops reverse edge s' d' = Some (dec_value d k)"
    using g m sk by (simp add: GetDecimal_def k(2) dec_value_def)
  with k show ?thesis by (intro that)
qed

end

lemma factor_pos: "factor_ok d f \<Longrightarrow> 0 < f"
  using order.strict_trans2 [OF powi_pos] by (auto simp: factor_ok_def)

text \<open>The stored integer times the factor is within half the factor of the value, up to rounding errors.\<close>

lemma stored_product_error:
  assumes "factor_ok d f" "\<not> (UseMaximumAsInfinity d \<and> flt_le (fmul (max_float d) (Factor d)) (Fin r))" "stores d (Fin r) k"
    "- (2 ^ 31) \<le> k" "k < 2 ^ 31"
  obtains y where "fmul (f64_of_int k) (Factor d) = Fin y" "\<bar>y - r\<bar> \<le> f * (1 / 2 + 1 / 2 ^ 20)"
proof -
  let ?y = "rnd 53 (- 1074) (of_int k * f)" let ?q = "rnd 53 (- 1074) (r / f)"
  have f: "0 < f" "Factor d = Fin f" using assms(1) factor_pos by (auto simp: factor_ok_def)
  have n: "\<bar>of_int k - ?q\<bar> \<le> 1 / 2" "\<bar>r / f\<bar> < 2 powi 32"
    using assms(2,3) f(2) by (auto simp: stores_def nearest_def Let_def math_IsInf_def)
  have "\<bar>of_int k - r / f\<bar> \<le> 1 / 2 + 1 / 2 ^ 22"
    using n(1) rnd_quotient_error [OF n(2)] by linarith
  then have "\<bar>of_int k * f - r\<bar> \<le> (1 / 2 + 1 / 2 ^ 22) * f"
  proof -
    assume "\<bar>of_int k - r / f\<bar> \<le> 1 / 2 + 1 / 2 ^ 22"
    then have "\<bar>of_int k - r / f\<bar> * f \<le> (1 / 2 + 1 / 2 ^ 22) * f" using f(1) by simp
    moreover have "\<bar>of_int k - r / f\<bar> * f = \<bar>(of_int k - r / f) * f\<bar>" using f(1) by (simp add: abs_mult)
    moreover have "(of_int k - r / f) * f = of_int k * f - r" using f(1) by (simp add: left_diff_distrib)
    ultimately show ?thesis by simp
  qed
  then have "\<bar>?y - r\<bar> \<le> (1 / 2 + 1 / 2 ^ 22) * f + f / 2 ^ 21"
    using factor_product(2) [OF assms(1,4,5)] by linarith
  also have "\<dots> = f * (1 / 2 + 1 / 2 ^ 22 + 1 / 2 ^ 21)" by (simp add: algebra_simps)
  also have "\<dots> \<le> f * (1 / 2 + 1 / 2 ^ 20)"
    using f(1) by (intro mult_left_mono) simp_all
  finally show ?thesis
    using factor_product(1) [OF assms(1,4,5)] by (intro that)
qed

text \<open>A value of the grid is stored as the integer it comes from.\<close>

lemma grid_quotient:
  assumes "factor_ok d f" "- (2 ^ 31) \<le> k" "k < 2 ^ 31" "nearest (rnd 53 (- 1074) (of_int k * f)) f k'"
  shows "k' = k"
proof -
  have "\<bar>of_int k' - of_int k :: rat\<bar> \<le> 1 / 2 + 1 / 2 ^ 20"
    using round_product_quotient [OF assms(1-3)] assms(4) unfolding nearest_def by linarith
  also have "\<dots> < 1" by simp
  finally have "\<bar>of_int (k' - k) :: rat\<bar> < 1" by simp
  then have "of_int \<bar>k' - k\<bar> < (1 :: rat)" by simp
  then show ?thesis by linarith
qed

lemma grid_below_max:
  assumes "factor_ok d f" "- (2 ^ 31) \<le> k" "k < m" "m < 2 ^ 31"
  shows "rnd 53 (- 1074) (of_int k * f) < rnd 53 (- 1074) (of_int m * f)"
proof -
  have f: "0 < f" using assms(1) by (rule factor_pos)
  have "of_int k * f + f \<le> of_int m * f"
  proof -
    have "of_int (k + 1) \<le> (of_int m :: rat)" using assms(3) by (simp only: of_int_le_iff)
    then have "of_int (k + 1) * f \<le> of_int m * f" using f by (intro mult_right_mono) auto
    then show ?thesis by (simp add: distrib_right)
  qed
  moreover have "f / 2 ^ 21 + f / 2 ^ 21 < f" using f by simp
  moreover have "\<bar>rnd 53 (- 1074) (of_int k * f) - of_int k * f\<bar> \<le> f / 2 ^ 21"
    by (rule factor_product(2) [OF assms(1)]) (use assms in linarith)+
  moreover have "\<bar>rnd 53 (- 1074) (of_int m * f) - of_int m * f\<bar> \<le> f / 2 ^ 21"
    by (rule factor_product(2) [OF assms(1)]) (use assms in linarith)+
  ultimately show ?thesis by linarith
qed

lemma stores_grid:
  assumes "factor_ok d f" "- (2 ^ 31) \<le> k" "k \<le> sint (MaxStorableValue (dec_impl d))"
    "stores d (dec_value d k) k'"
  shows "k' = k"
proof (cases "UseMaximumAsInfinity d \<and> k = sint (MaxStorableValue (dec_impl d))")
  case True
  then show ?thesis using assms(4) by (simp add: stores_def dec_value_def math_IsInf_def)
next
  case False
  let ?m = "sint (MaxStorableValue (dec_impl d))"
  let ?x = "rnd 53 (- 1074) (of_int k * f)"
  have k: "- (2 ^ 31) \<le> k" "k < 2 ^ 31" "?m < 2 ^ 31" "- (2 ^ 31) \<le> ?m"
    using assms(2,3) sint_i32_bounds [of "MaxStorableValue (dec_impl d)"] by linarith+
  have x: "dec_value d k = Fin ?x" unfolding dec_value_def if_not_P [OF False]
    by (rule factor_product(1) [OF assms(1) k(1,2)])
  have "\<not> (UseMaximumAsInfinity d \<and> flt_le (fmul (max_float d) (Factor d)) (Fin ?x))"
  proof
    assume A: "UseMaximumAsInfinity d \<and> flt_le (fmul (max_float d) (Factor d)) (Fin ?x)"
    then have "k < ?m" using False assms(3) by auto
    from grid_below_max [OF assms(1) k(1) this k(3)] A show False
      using factor_product(1) [OF assms(1) k(4,3)] by (simp add: max_float_def)
  qed
  then have "nearest ?x f k'"
    using assms(1,4) unfolding x stores_def Let_def factor_ok_def
    by (auto simp: math_IsInf_def split: if_splits)
  then show ?thesis by (rule grid_quotient [OF assms(1) k(1,2)])
qed

text \<open>
  Values strictly between the least and the largest storable one are always accepted. At the ends
  the quotient may be rounded past the bound, see \<open>max_rejected\<close>.
\<close>

lemma max_product: "fmul (max_float d) (Factor d) =
  fmul (f64_of_int (sint (MaxStorableValue (dec_impl d)))) (Factor d)"
  by (simp add: max_float_def)

context edge_int_access_contract begin

lemma SetDecimal_Some:
  assumes ok: "dec_ok d" and h: "holds_ev s edge (dec_impl d)"
    and rev: "reverse \<longrightarrow> StoreTwoDir (dec_impl d) \<or> NegateReverseDir (dec_impl d)"
    and k: "sint (MinStorableValue (dec_impl d)) < k" "k < sint (MaxStorableValue (dec_impl d))"
  shows "\<exists>d' s'. SetDecimal ops reverse edge s (dec_value d k) d = Some (d', s')"
proof -
  let ?e = "dec_impl d"
  obtain f where f: "factor_ok d f" using ok by (auto simp: dec_ok_def)
  have F: "Factor d = Fin f" "0 < f" using f factor_pos by (auto simp: factor_ok_def)
  have r: "ready ?e" using ok by (simp add: dec_ok_def)
  have b: "- (2 ^ 31) \<le> k" "k < 2 ^ 31"
    and m: "- (2 ^ 31) \<le> sint (MaxStorableValue ?e)" "sint (MaxStorableValue ?e) < 2 ^ 31"
    using k sint_i32_bounds [of "MaxStorableValue ?e"] sint_i32_bounds [of "MinStorableValue ?e"]
    by linarith+
  let ?x = "rnd 53 (- 1074) (of_int k * f)" let ?y = "rnd 53 (- 1074) (?x / f)"
  have x: "dec_value d k = Fin ?x" using factor_product(1) [OF f b] k(2) by (simp add: dec_value_def)
  have nl: "\<not> flt_le (fmul (max_float d) (Factor d)) (Fin ?x)"
    using grid_below_max [OF f b(1) k(2) m(2)] factor_product(1) [OF f m] by (simp add: max_float_def)
  have yk: "\<bar>?y - of_int k\<bar> \<le> 1 / 2 ^ 20" by (rule round_product_quotient [OF f b])
  then have small: "\<bar>?y - of_int k\<bar> < 1 / 2" by (rule le_less_trans) simp
  have "of_int (sint (MinStorableValue ?e)) + 1 \<le> (of_int k :: rat)"
    "of_int k + 1 \<le> (of_int (sint (MaxStorableValue ?e)) :: rat)"
    using k by linarith+
  then have yb: "of_int (sint (MinStorableValue ?e)) \<le> ?y" "?y \<le> of_int (sint (MaxStorableValue ?e))"
    using small by linarith+
  have "\<bar>?y\<bar> \<le> 2 powi 31" using yb rat_i32 [OF m] rat_i32 [of "sint (MinStorableValue ?e)"]
      sint_i32_bounds [of "MinStorableValue ?e"] by linarith
  then have "f64 (?x / f) = Fin ?y" by (rule f64_small [OF quotient_bounded])
  then have dv: "fdiv (Fin ?x) (Factor d) = Fin ?y" using F by simp
  have "round_half_away ?y = k" by (rule round_half_away_near [OF small])
  then have c: "int32_of_f64 (math_Round (Fin ?y)) = word_of_int k"
    unfolding math_Round.simps by (simp only: int32_of_round [OF b])
  have "sint (word_of_int k :: i32) = k" using b by simp
  then have ib: "in_bounds ?e (word_of_int k)" using k by (simp add: in_bounds_def)
  obtain e' s' where "ev_SetInt ops reverse edge s (word_of_int k) ?e = Some (e', s')"
    using SetInt_Some [OF r h ib rev] by blast
  then have "UncheckedSet ops reverse edge s (word_of_int k) ?e = Some (e', s')"
    by (simp add: ev_SetInt_Unchecked [OF r ib])
  moreover have "\<not> flt_less (max_float d) (Fin ?y)" "\<not> flt_less (Fin ?y) (min_float d)"
    using yb by (simp_all add: max_min_float)
  ultimately show ?thesis
    using nl ready_isInitialized [OF r] unfolding x
    by (auto simp: SetDecimal_def math_IsInf_def math_IsNaN_def Let_def dv c
        simp del: math_Round.simps int32_of_f64.simps)
qed

end

section \<open>Values at the upper end\<close>

text \<open>
  With \<open>UseMaximumAsInfinity\<close> the largest integer means infinity, and \<open>SetDecimal\<close> replaces finite
  values from \<open>max * factor\<close> on by the integer before it. It misses the finite values below that
  are rounded up to it.
\<close>

lemma rounds_to_infinity:
  assumes "dec_ok d" "UseMaximumAsInfinity d" "Factor d = Fin 1"
    and r: "r < of_int (sint (MaxStorableValue (dec_impl d)))"
    and k: "stores d (Fin r) k" and q: "rnd 53 (- 1074) r = r"
    and up: "of_int (sint (MaxStorableValue (dec_impl d))) - 1 / 2 < r"
  shows "dec_value d k = PInf"
proof -
  let ?m = "sint (MaxStorableValue (dec_impl d))"
  have mf: "max_float d = Fin (of_int ?m)" by (simp add: max_min_float)
  have "fmul (max_float d) (Factor d) = Fin (of_int ?m)"
    using i32_float [of ?m] sint_i32_bounds [of "MaxStorableValue (dec_impl d)"]
    by (simp add: mf assms(3) f64_of_int_def)
  then have "nearest r 1 k" using k r assms(2,3) by (auto simp: stores_def math_IsInf_def Let_def)
  then have "\<bar>of_int k - r\<bar> \<le> 1 / 2" using q by (simp add: nearest_def)
  then have "of_int k < (of_int ?m + 1 :: rat)" "of_int ?m - 1 < (of_int k :: rat)" using r up by linarith+
  then have "k = ?m" by linarith
  then show ?thesis using assms(2) by (simp add: dec_value_def)
qed

text \<open>
  Without infinity the largest storable decimal itself can be refused: with the factor \<open>0.1\<close>
  (the float \<open>3602879701896397 / 2^55\<close>) and the largest integer 3, the product is rounded up and
  the quotient of it by the factor again, to \<open>3 + 2^-51\<close>.
\<close>

lemma rnd_eq:
  assumes "2 powi l \<le> q" "q < 2 powi (l + 1)" "em \<le> l - int p + 1"
    "rne (q / 2 powi (l - int p + 1)) = n"
  shows "rnd p em q = of_int n * 2 powi (l - int p + 1)"
proof -
  have "0 < q" by (rule order.strict_trans2 [OF powi_pos assms(1)])
  moreover have "ulp_exp p em q = l - int p + 1"
    using ilog2_unique [OF assms(1,2)] calculation assms(3) by (simp add: ulp_exp_def)
  ultimately show ?thesis using assms(4) by (simp add: rnd_def)
qed

lemma rne_eq:
  assumes "of_int n - 1 / 2 < x" "x < of_int n + 1 / 2"
  shows "rne x = n"
proof -
  have "\<bar>of_int (rne x) - x\<bar> \<le> 1 / 2" by (rule rne_error)
  then have "of_int (rne x) < (of_int n + 1 :: rat)" "of_int n - 1 < (of_int (rne x) :: rat)"
    using assms by linarith+
  then show ?thesis by linarith
qed

abbreviation tenth :: rat where "tenth \<equiv> 3602879701896397 / 2 ^ 55"

lemma three_tenths: "rnd 53 (- 1074) (3 * tenth) = 5404319552844596 / 2 ^ 54"
proof -
  have p: "(2::rat) powi - 2 = 1 / 4" "(2::rat) powi (- 2 + 1) = 1 / 2"
    "(2::rat) powi (- 2 - int 53 + 1) = 1 / 2 ^ 54"
    by (simp_all add: power_int_minus_divide)
  have "\<lfloor>10808639105689191 / 2 :: rat\<rfloor> = 5404319552844595" by (rule floor_unique) simp_all
  then have "rne (3 * tenth / (1 / 2 ^ 54)) = 5404319552844596"
    by (simp add: rne_def)
  then have "rnd 53 (- 1074) (3 * tenth) = of_int 5404319552844596 * 2 powi (- 2 - int 53 + 1)"
    by (intro rnd_eq) (simp_all only: p, simp_all)
  then show ?thesis by (simp add: p)
qed

lemma three_tenths_quotient:
  "rnd 53 (- 1074) (5404319552844596 / 2 ^ 54 / tenth) = 3 + 1 / 2 ^ 51"
proof -
  have p: "(2::rat) powi 1 = 2" "(2::rat) powi (1 + 1) = 4"
    "(2::rat) powi (1 - int 53 + 1) = 1 / 2 ^ 51"
    by (simp_all add: power_int_minus_divide)
  have "rne (5404319552844596 / 2 ^ 54 / tenth / (1 / 2 ^ 51)) = 6755399441055745"
    by (rule rne_eq) simp_all
  then have "rnd 53 (- 1074) (5404319552844596 / 2 ^ 54 / tenth)
      = of_int 6755399441055745 * 2 powi (1 - int 53 + 1)"
    by (intro rnd_eq) (simp_all only: p, simp_all)
  then show ?thesis by (simp only: p) simp
qed

lemma largest_tenth:
  assumes "Factor d = Fin tenth" "\<not> UseMaximumAsInfinity d" "sint (MaxStorableValue (dec_impl d)) = 3"
  shows "GetMaxStorableDecimal d = Fin (5404319552844596 / 2 ^ 54)" "fdiv (GetMaxStorableDecimal d) (Factor d) = Fin (3 + 1 / 2 ^ 51)"
    "max_float d = Fin 3"
proof -
  show m: "max_float d = Fin 3" using assms(3) by (simp add: max_min_float)
  have b: "\<bar>3 * tenth\<bar> < 2 powi 32" "\<bar>5404319552844596 / 2 ^ 54 / tenth\<bar> < 2 powi 32"
    by simp_all
  show x: "GetMaxStorableDecimal d = Fin (5404319552844596 / 2 ^ 54)"
    using f64_small [OF b(1)] assms(1,2) by (simp only: GetMaxStorableDecimal_def m three_tenths fmul.simps if_False)
  show "fdiv (GetMaxStorableDecimal d) (Factor d) = Fin (3 + 1 / 2 ^ 51)"
    using f64_small [OF b(2)] unfolding x three_tenths_quotient assms(1) by simp
qed

lemma max_rejected:
  assumes "Factor d = Fin tenth" "\<not> UseMaximumAsInfinity d" "sint (MaxStorableValue (dec_impl d)) = 3"
  shows "SetDecimal ops reverse edge s (GetMaxStorableDecimal d) d = None"
  using largest_tenth [OF assms] assms(2) by (simp add: SetDecimal_def math_IsInf_def math_IsNaN_def Let_def)

lemma max_quotient_above:
  assumes "Factor d = Fin tenth" "\<not> UseMaximumAsInfinity d" "sint (MaxStorableValue (dec_impl d)) = 3"
  shows "flt_less (max_float d) (fdiv (GetMaxStorableDecimal d) (Factor d))"
proof -
  have "flt_less (Fin 3) (Fin (3 + 1 / 2 ^ 51))" by simp
  then show ?thesis by (simp only: largest_tenth(2,3) [OF assms])
qed

end
