(* ===== verification/GeoUtil.thy ===== *)
theory GeoUtil imports DecimalEncodedValue begin

text \<open>
  \<^verbatim>\<open>core/util/helper.go\<close>, \<^verbatim>\<open>bbox.go\<close> and \<^verbatim>\<open>gh_utility.go\<close>: the compression of
  degrees and elevations to integers, bounding boxes and edge keys. Degrees and elevations are
  floats, and the theorems are about the rounded arithmetic of the code.
\<close>

section \<open>Degrees and elevations\<close>

definition degreeFactor :: rat where "degreeFactor = 10000000"
definition eleFactor :: rat where "eleFactor = 1000"
definition maxEleUint :: int where "maxEleUint = 11000000"

abbreviation (input) MaxInt32 :: int where "MaxInt32 \<equiv> 2 ^ 31 - 1"

definition DegreeToInt :: "flt \<Rightarrow> i32" where
  "DegreeToInt deg =
     (if flt_le MaxFloat64 deg then word_of_int MaxInt32
      else if flt_le deg (fneg MaxFloat64) then word_of_int (- MaxInt32)
      else int32_of_f64 (math_Floor (fadd (fmul deg (Fin degreeFactor)) (Fin (1 / 2)))))"

definition IntToDegree :: "i32 \<Rightarrow> flt" where
  "IntToDegree stored' =
     (if sint stored' = MaxInt32 then MaxFloat64
      else if sint stored' = - MaxInt32 then fneg MaxFloat64
      else fdiv (f64_of_int (sint stored')) (Fin degreeFactor))"

text \<open>The bound \<open>float64(maxEleUint)/eleFactor-1000\<close> is a constant expression, 10000.\<close>

definition EleToUInt :: "flt \<Rightarrow> int option" where
  "EleToUInt ele = do {
     check (\<not> math_IsNaN ele);
     if flt_less ele (Fin (- 1000)) then Some 0
     else if flt_le (Fin 10000) ele then Some maxEleUint
     else let v = int64_of_f64 (math_Floor (fadd (fmul (fadd ele (Fin 1000)) (Fin eleFactor)) (Fin (1 / 2))))
       in Some (if v \<ge> maxEleUint then maxEleUint else v) }"

definition UIntToEle :: "int \<Rightarrow> flt" where
  "UIntToEle integEle =
     (if integEle \<ge> maxEleUint then MaxFloat64
      else fsub (fdiv (f64_of_int integEle) (Fin eleFactor)) (Fin 1000))"

subsection \<open>Round trips\<close>

lemma rnd_error_small:
  assumes "\<bar>q\<bar> < 2 powi e" "- 1021 \<le> e"
  shows "\<bar>rnd 53 (- 1074) q - q\<bar> \<le> 2 powi (e - 54)"
proof (cases "q = 0")
  case False
  then have "0 < \<bar>q\<bar>" by simp
  then have "(2::rat) powi ilog2 \<bar>q\<bar> < 2 powi e"
    by (rule le_less_trans [OF conjunct1 [OF ilog2_bounds] assms(1)])
  then have "ilog2 \<bar>q\<bar> < e" by (simp only: powi_less_iff)
  then have "ulp_exp 53 (- 1074) q \<le> e - 53" using assms(2) by (simp add: ulp_exp_def)
  then have "(2::rat) powi ulp_exp 53 (- 1074) q \<le> 2 powi (e - 53)" by (simp only: powi_le_iff)
  moreover have "(2::rat) powi (e - 53) = 2 * 2 powi (e - 54)"
    using powi_Suc [of "e - 54"] by (simp add: algebra_simps)
  ultimately show ?thesis using rnd_error_ulp [of 53 "- 1074" q] by linarith
qed simp

lemma MaxFloat64_big: "\<bar>r\<bar> < 2 powi 32 \<Longrightarrow> \<not> flt_le MaxFloat64 (Fin r) \<and> \<not> flt_le (Fin r) (fneg MaxFloat64)"
  by (simp add: MaxFloat64_def abs_less_iff)

text \<open>The rounded \<open>x * factor + 0.5\<close> is close to \<open>n + 0.5\<close> when \<open>x * factor\<close> is close to \<open>n\<close>.\<close>

lemma scaled_floor:
  fixes n :: int
  assumes x: "\<bar>x * f - of_int n\<bar> \<le> 1 / 2 ^ 20" and n: "\<bar>n\<bar> \<le> 2 ^ 31"
  shows "math_Floor (fadd (fmul (Fin x) (Fin f)) (Fin (1 / 2))) = Fin (of_int n)"
proof -
  have "of_int \<bar>n\<bar> \<le> (of_int (2 ^ 31) :: rat)" using n by (simp only: of_int_le_iff)
  then have n': "\<bar>of_int n :: rat\<bar> \<le> 2 powi 31" by simp
  have one: "1 / 2 ^ 20 \<le> (1 :: rat)" by simp
  have two: "2 powi 31 + 1 + (1 :: rat) < 2 powi 32" by simp
  have p: "\<bar>x * f\<bar> < 2 powi 32" using x n' one two by linarith
  let ?p = "rnd 53 (- 1074) (x * f)"
  have p': "\<bar>?p - x * f\<bar> \<le> 1 / 2 ^ 22" by (rule rnd_quotient_error [OF p])
  have d: "1 / 2 ^ 20 + 1 / 2 ^ 22 + 1 / 2 ^ 22 < (1 / 2 :: rat)" by simp
  then have "\<bar>?p - of_int n\<bar> < 1 / 2" using p' x by linarith
  then have "\<bar>?p + 1 / 2\<bar> \<le> 2 powi 31 + 1" using n' by linarith
  then have s: "\<bar>?p + 1 / 2\<bar> < 2 powi 32" using two by linarith
  let ?s = "rnd 53 (- 1074) (?p + 1 / 2)"
  have "\<bar>?s - (?p + 1 / 2)\<bar> \<le> 1 / 2 ^ 22" by (rule rnd_quotient_error [OF s])
  then have "\<bar>?s - (of_int n + 1 / 2)\<bar> < 1 / 2" using p' x d by linarith
  then have "of_int n < ?s" "?s < of_int n + 1" by linarith+
  then have "\<lfloor>?s\<rfloor> = n" by (intro floor_unique) simp_all
  then show ?thesis using f64_small [OF p] f64_small [OF s] by simp
qed

lemma degree_grid:
  assumes "- (2 ^ 31) \<le> n" "n < 2 ^ 31"
  shows "fdiv (f64_of_int n) (Fin degreeFactor) = Fin (rnd 53 (- 1074) (of_int n / 10000000))"
    "\<bar>rnd 53 (- 1074) (of_int n / 10000000) * 10000000 - of_int n\<bar> \<le> 1 / 2 ^ 20"
    "\<bar>rnd 53 (- 1074) (of_int n / 10000000)\<bar> < 2 powi 8"
proof -
  let ?q = "of_int n / 10000000 :: rat"
  have "\<bar>of_int n :: rat\<bar> \<le> 2 powi 31" by (rule rat_i32 [OF assms])
  then have q: "\<bar>?q\<bar> < 215" by (simp add: abs_le_iff abs_less_iff)
  then have q8: "\<bar>?q\<bar> < 2 powi 8" by simp
  have e: "\<bar>rnd 53 (- 1074) ?q - ?q\<bar> \<le> 2 powi (8 - 54)" by (rule rnd_error_small [OF q8]) simp
  have c: "(2::rat) powi (8 - 54) = 1 / 2 ^ 46" by (simp add: power_int_minus_divide)
  have "\<bar>rnd 53 (- 1074) ?q * 10000000 - of_int n\<bar> = \<bar>rnd 53 (- 1074) ?q - ?q\<bar> * 10000000"
    by (simp add: abs_if algebra_simps)
  also have "\<dots> \<le> 1 / 2 ^ 46 * 10000000" using e unfolding c by (intro mult_right_mono) simp_all
  also have "\<dots> \<le> 1 / 2 ^ 20" by simp
  finally show "\<bar>rnd 53 (- 1074) ?q * 10000000 - of_int n\<bar> \<le> 1 / 2 ^ 20" .
  have "(1::rat) / 2 ^ 46 \<le> 1" by simp
  moreover have "215 + 1 < (2::rat) powi 8" by simp
  ultimately show "\<bar>rnd 53 (- 1074) ?q\<bar> < 2 powi 8" using e q unfolding c by linarith
  have "\<bar>?q\<bar> < 2 powi 32" using q by simp
  then show "fdiv (f64_of_int n) (Fin degreeFactor) = Fin (rnd 53 (- 1074) ?q)"
    using f64_small [of ?q] i32_float [OF assms] by (simp add: degreeFactor_def)
qed

lemma DegreeToInt_IntToDegree: "DegreeToInt (IntToDegree v) = v"
proof (cases "sint v = MaxInt32 \<or> sint v = - MaxInt32")
  case True
  have "\<not> flt_le MaxFloat64 (fneg MaxFloat64)" "flt_le MaxFloat64 MaxFloat64"
    "flt_le (fneg MaxFloat64) (fneg MaxFloat64)"
    by (simp_all add: MaxFloat64_def)
  note M = this
  from True show ?thesis
  proof
    assume a: "sint v = MaxInt32"
    then have "DegreeToInt (IntToDegree v) = word_of_int MaxInt32"
      using M by (simp add: DegreeToInt_def IntToDegree_def)
    then show ?thesis unfolding a [symmetric] by simp
  next
    assume a: "sint v = - MaxInt32"
    then have "DegreeToInt (IntToDegree v) = word_of_int (- MaxInt32)"
      using M by (simp add: DegreeToInt_def IntToDegree_def)
    then show ?thesis unfolding a [symmetric] by simp
  qed
next
  case False
  let ?n = "sint v"
  have n: "- (2 ^ 31) \<le> ?n" "?n < 2 ^ 31" by (rule sint_i32_bounds)+
  note G = degree_grid [OF n]
  let ?x = "rnd 53 (- 1074) (of_int ?n / 10000000)"
  have "\<bar>?x\<bar> < 2 powi 32" using G(3) by simp
  note M = MaxFloat64_big [OF this]
  have n': "\<bar>?n\<bar> \<le> 2 ^ 31" using n by linarith
  have "IntToDegree v = Fin ?x" using False G(1) by (simp add: IntToDegree_def)
  then have "DegreeToInt (IntToDegree v) =
      int32_of_f64 (math_Floor (fadd (fmul (Fin ?x) (Fin degreeFactor)) (Fin (1 / 2))))"
    using M by (simp only: DegreeToInt_def if_False)
  also have "\<dots> = int32_of_f64 (Fin (of_int ?n))"
    using scaled_floor [OF G(2) n'] by (simp only: degreeFactor_def)
  also have "\<dots> = word_of_int ?n" by (rule int32_of_round [OF n])
  finally show ?thesis by simp
qed

text \<open>A degree is stored to within half a unit of the seventh decimal, and the error of two divisions.\<close>

lemma IntToDegree_DegreeToInt:
  assumes d: "\<bar>d\<bar> \<le> 200"
  obtains r where "IntToDegree (DegreeToInt (Fin d)) = Fin r" "\<bar>r - d\<bar> \<le> 1 / 20000000 + 1 / 2 ^ 43"
proof -
  have "2000000001 < (2::rat) powi 32" by simp
  have p: "\<bar>d * 10000000\<bar> \<le> 2000000000" using d by (simp add: abs_le_iff)
  then have p32: "\<bar>d * 10000000\<bar> < 2 powi 32" "\<bar>d * 10000000\<bar> < 2 powi 31"
    by (auto intro: le_less_trans)
  let ?p = "rnd 53 (- 1074) (d * 10000000)"
  have ep: "\<bar>?p - d * 10000000\<bar> \<le> 2 powi (31 - 54)" by (rule rnd_error_small [OF p32(2)]) simp
  have c: "(2::rat) powi (31 - 54) = 1 / 2 ^ 23" by (simp add: power_int_minus_divide)
  have one: "(1::rat) / 2 ^ 23 \<le> 1" by simp
  have "\<bar>?p + 1 / 2\<bar> \<le> 2000000002" using ep p one unfolding c by linarith
  then have s31: "\<bar>?p + 1 / 2\<bar> < 2 powi 31" by (rule le_less_trans) simp
  then have s32: "\<bar>?p + 1 / 2\<bar> < 2 powi 32" by (rule order.strict_trans) simp
  let ?s = "rnd 53 (- 1074) (?p + 1 / 2)"
  have es: "\<bar>?s - (?p + 1 / 2)\<bar> \<le> 1 / 2 ^ 23"
    using rnd_error_small [OF s31] unfolding c by simp
  define n where "n = \<lfloor>?s\<rfloor>"
  have fl: "of_int n \<le> ?s" "?s < of_int n + 1" unfolding n_def by linarith+
  have nd: "\<bar>of_int n - d * 10000000\<bar> \<le> 1 / 2 + 1 / 2 ^ 22"
  proof -
    have "(1::rat) / 2 ^ 23 + 1 / 2 ^ 23 = 1 / 2 ^ 22" by simp
    then show ?thesis using ep es fl unfolding c by linarith
  qed
  have "1 / 2 + 1 / 2 ^ 22 \<le> (1::rat)" by simp
  then have "\<bar>of_int n :: rat\<bar> \<le> 2000000001" using nd p by linarith
  then have "of_int \<bar>n\<bar> \<le> (of_int 2000000001 :: rat)" by simp
  then have n: "\<bar>n\<bar> \<le> 2000000001" by (simp only: of_int_le_iff)
  then have ni: "- (2 ^ 31) \<le> n" "n < 2 ^ 31" by simp_all
  have "\<bar>d\<bar> < 2 powi 32" using d by simp
  note M = MaxFloat64_big [OF this]
  have "DegreeToInt (Fin d) = int32_of_f64 (Fin (of_int n))"
    using M f64_small [OF p32(1)] f64_small [OF s32]
    by (simp only: DegreeToInt_def if_False degreeFactor_def fmul.simps fadd.simps math_Floor.simps n_def)
  then have dn: "DegreeToInt (Fin d) = word_of_int n" using int32_of_round [OF ni] by simp
  have sn: "sint (word_of_int n :: i32) = n" using ni by simp
  have mm: "n \<noteq> MaxInt32" "n \<noteq> - MaxInt32" using n by auto
  note G = degree_grid [OF ni]
  let ?r = "rnd 53 (- 1074) (of_int n / 10000000)"
  have "\<bar>of_int n / 10000000 :: rat\<bar> \<le> 201"
    using \<open>\<bar>of_int n :: rat\<bar> \<le> 2000000001\<close> by (simp add: abs_le_iff)
  then have q8: "\<bar>of_int n / 10000000 :: rat\<bar> < 2 powi 8" by (rule le_less_trans) simp
  have er: "\<bar>?r - of_int n / 10000000\<bar> \<le> 1 / 2 ^ 46"
    using rnd_error_small [OF q8] by (simp add: power_int_minus_divide)
  have "\<bar>of_int n / 10000000 - d\<bar> = \<bar>of_int n - d * 10000000\<bar> / 10000000"
    by (simp add: abs_if field_simps)
  also have "\<dots> \<le> (1 / 2 + 1 / 2 ^ 22) / 10000000" using nd by (intro divide_right_mono) simp_all
  finally have "\<bar>?r - d\<bar> \<le> (1 / 2 + 1 / 2 ^ 22) / 10000000 + 1 / 2 ^ 46" using er by linarith
  also have "\<dots> \<le> 1 / 20000000 + 1 / 2 ^ 43" by simp
  finally have "\<bar>?r - d\<bar> \<le> 1 / 20000000 + 1 / 2 ^ 43" .
  moreover have "IntToDegree (DegreeToInt (Fin d)) = Fin ?r"
    using mm G(1) sn unfolding dn by (simp only: IntToDegree_def if_False)
  ultimately show ?thesis by (rule that [rotated])
qed

lemma EleToUInt_UIntToEle:
  assumes n: "0 \<le> n" "n \<le> maxEleUint"
  shows "EleToUInt (UIntToEle n) = Some n"
proof (cases "n = maxEleUint")
  case True
  then show ?thesis by (simp add: EleToUInt_def UIntToEle_def MaxFloat64_def math_IsNaN_def)
next
  case False
  then have n1: "n \<le> 10999999" using n by (simp add: maxEleUint_def)
  then have "of_int n \<le> (of_int 10999999 :: rat)" by (simp only: of_int_le_iff)
  moreover have "0 \<le> (of_int n :: rat)" using n(1) by simp
  ultimately have q: "0 \<le> (of_int n / 1000 :: rat)" "of_int n / 1000 \<le> (10999999 / 1000 :: rat)" by simp_all
  have c: "(2::rat) powi (14 - 54) = 1 / 2 ^ 40" by (simp add: power_int_minus_divide)
  have b14: "(11001 :: rat) < 2 powi 14" "(2::rat) powi 14 < 2 powi 32" by simp_all
  have one: "(1::rat) / 2 ^ 40 + 1 / 2 ^ 40 + 1 / 2 ^ 40 \<le> 1 / 2000" by simp
  let ?a = "rnd 53 (- 1074) (of_int n / 1000)"
  have q14: "\<bar>of_int n / 1000 :: rat\<bar> < 2 powi 14" using q b14 by linarith
  have ea: "\<bar>?a - of_int n / 1000\<bar> \<le> 1 / 2 ^ 40" using rnd_error_small [OF q14] unfolding c by simp
  have a0: "0 \<le> ?a" by (rule rnd_nonneg [OF q(1)])
  let ?e = "rnd 53 (- 1074) (?a - 1000)"
  have a14: "\<bar>?a - 1000\<bar> < 2 powi 14" using ea q one b14 a0 by linarith
  have ee: "\<bar>?e - (?a - 1000)\<bar> \<le> 1 / 2 ^ 40" using rnd_error_small [OF a14] unfolding c by simp
  have "representable 53 (- 1074) (of_int (- 1000))" by (rule representable_of_int) simp_all
  then have lo: "- 1000 \<le> ?e" using le_rnd [of 53 "- 1074" "- 1000" "?a - 1000"] a0 by simp
  have hi: "?e < 10000" using ea ee q one by linarith
  let ?f = "rnd 53 (- 1074) (?e + 1000)"
  have f14: "\<bar>?e + 1000\<bar> < 2 powi 14" using lo hi b14 by linarith
  have ef: "\<bar>?f - (?e + 1000)\<bar> \<le> 1 / 2 ^ 40" using rnd_error_small [OF f14] unfolding c by simp
  have "\<bar>?f - of_int n / 1000\<bar> \<le> 1 / 2 ^ 40 + 1 / 2 ^ 40 + 1 / 2 ^ 40" using ea ee ef by linarith
  then have "\<bar>?f - of_int n / 1000\<bar> * 1000 \<le> (1 / 2 ^ 40 + 1 / 2 ^ 40 + 1 / 2 ^ 40) * 1000"
    by (intro mult_right_mono) simp_all
  moreover have "\<bar>?f - of_int n / 1000\<bar> * 1000 = \<bar>?f * 1000 - of_int n\<bar>"
    by (simp add: abs_if algebra_simps)
  moreover have "(1 / 2 ^ 40 + 1 / 2 ^ 40 + 1 / 2 ^ 40) * 1000 \<le> (1 / 2 ^ 20 :: rat)" by simp
  ultimately have s: "\<bar>?f * 1000 - of_int n\<bar> \<le> 1 / 2 ^ 20" by linarith
  have i32: "- (2 ^ 31) \<le> n" "n < 2 ^ 31" "\<bar>n\<bar> \<le> 2 ^ 31" using n n1 by simp_all
  have "UIntToEle n = Fin ?e"
    using False n f64_small [OF order.strict_trans [OF q14 b14(2)]] f64_small [OF order.strict_trans [OF a14 b14(2)]]
      i32_float [OF i32(1,2)]
    by (simp add: UIntToEle_def eleFactor_def fsub_def)
  moreover have "fadd (Fin ?e) (Fin 1000) = Fin ?f"
    using f64_small [OF order.strict_trans [OF f14 b14(2)]] by simp
  moreover note scaled_floor [OF s i32(3)]
  moreover have "int64_of_f64 (Fin (of_int n)) = n" using i32 by (simp add: rat_trunc_def Let_def)
  moreover have "\<not> flt_less (Fin ?e) (Fin (- 1000))" "\<not> flt_le (Fin 10000) (Fin ?e)" using lo hi by simp_all
  ultimately show ?thesis using False n
    by (simp add: EleToUInt_def math_IsNaN_def eleFactor_def Let_def del: fadd.simps fmul.simps
        int64_of_f64.simps flt_less.simps flt_le.simps)
qed

end
