(* ===== verification/BBox.thy ===== *)
theory BBox imports GeoUtil begin

text \<open>
  \<^verbatim>\<open>core/util/bbox.go\<close> (without parsing and printing) and the edge keys of
  \<^verbatim>\<open>gh_utility.go\<close>.
\<close>

section \<open>BBox\<close>

record bbox =
  MinLon :: flt
  MaxLon :: flt
  MinLat :: flt
  MaxLat :: flt
  MinEle :: flt
  MaxEle :: flt
  bbox_Is3D :: bool

definition NewBBox :: "flt \<Rightarrow> flt \<Rightarrow> flt \<Rightarrow> flt \<Rightarrow> bbox" where
  "NewBBox minLon maxLon minLat maxLat = \<lparr>MinLon = minLon, MaxLon = maxLon,
     MinLat = minLat, MaxLat = maxLat, MinEle = NaN, MaxEle = NaN, bbox_Is3D = False\<rparr>"

definition NewBBox3D :: "flt \<Rightarrow> flt \<Rightarrow> flt \<Rightarrow> flt \<Rightarrow> flt \<Rightarrow> flt \<Rightarrow> bbox" where
  "NewBBox3D minLon maxLon minLat maxLat minEle maxEle = \<lparr>MinLon = minLon, MaxLon = maxLon,
     MinLat = minLat, MaxLat = maxLat, MinEle = minEle, MaxEle = maxEle, bbox_Is3D = True\<rparr>"

definition CreateInverse :: "bool \<Rightarrow> bbox" where
  "CreateInverse is3D =
     (if is3D
      then \<lparr>MinLon = MaxFloat64, MaxLon = fneg MaxFloat64, MinLat = MaxFloat64,
        MaxLat = fneg MaxFloat64, MinEle = MaxFloat64, MaxEle = fneg MaxFloat64, bbox_Is3D = True\<rparr>
      else \<lparr>MinLon = MaxFloat64, MaxLon = fneg MaxFloat64, MinLat = MaxFloat64,
        MaxLat = fneg MaxFloat64, MinEle = NaN, MaxEle = NaN, bbox_Is3D = False\<rparr>)"

definition bbox_Update :: "flt \<Rightarrow> flt \<Rightarrow> bbox \<Rightarrow> bbox" where
  "bbox_Update lat lon b =
     (let b = (if flt_less (MaxLat b) lat then b\<lparr>MaxLat := lat\<rparr> else b);
          b = (if flt_less lat (MinLat b) then b\<lparr>MinLat := lat\<rparr> else b);
          b = (if flt_less (MaxLon b) lon then b\<lparr>MaxLon := lon\<rparr> else b)
      in if flt_less lon (MinLon b) then b\<lparr>MinLon := lon\<rparr> else b)"

definition bbox_Update3D :: "flt \<Rightarrow> flt \<Rightarrow> flt \<Rightarrow> bbox \<Rightarrow> bbox option" where
  "bbox_Update3D lat lon ele b = do {
     check (bbox_Is3D b);
     let b = (if flt_less (MaxEle b) ele then b\<lparr>MaxEle := ele\<rparr> else b);
     let b = (if flt_less ele (MinEle b) then b\<lparr>MinEle := ele\<rparr> else b);
     Some (bbox_Update lat lon b) }"

definition bbox_Contains :: "bbox \<Rightarrow> flt \<Rightarrow> flt \<Rightarrow> bool" where
  "bbox_Contains b lat lon \<longleftrightarrow>
     flt_le lat (MaxLat b) \<and> flt_le (MinLat b) lat \<and> flt_le lon (MaxLon b) \<and> flt_le (MinLon b) lon"

definition ContainsBBox :: "bbox \<Rightarrow> bbox \<Rightarrow> bool" where
  "ContainsBBox b other \<longleftrightarrow>
     flt_le (MaxLat other) (MaxLat b) \<and> flt_le (MinLat b) (MinLat other) \<and>
     flt_le (MaxLon other) (MaxLon b) \<and> flt_le (MinLon b) (MinLon other)"

definition IntersectsCoords :: "bbox \<Rightarrow> flt \<Rightarrow> flt \<Rightarrow> flt \<Rightarrow> flt \<Rightarrow> bool" where
  "IntersectsCoords b minLon maxLon minLat maxLat \<longleftrightarrow>
     flt_less (MinLon b) maxLon \<and> flt_less (MinLat b) maxLat \<and>
     flt_less minLon (MaxLon b) \<and> flt_less minLat (MaxLat b)"

definition bbox_Intersects :: "bbox \<Rightarrow> bbox \<Rightarrow> bool" where
  "bbox_Intersects b other \<longleftrightarrow>
     flt_less (MinLon b) (MaxLon other) \<and> flt_less (MinLat b) (MaxLat other) \<and>
     flt_less (MinLon other) (MaxLon b) \<and> flt_less (MinLat other) (MaxLat b)"

definition math_Max :: "flt \<Rightarrow> flt \<Rightarrow> flt" where
  "math_Max x y = (if x = PInf \<or> y = PInf then PInf else if x = NaN \<or> y = NaN then NaN
     else if flt_less y x then x else y)"

definition math_Min :: "flt \<Rightarrow> flt \<Rightarrow> flt" where
  "math_Min x y = (if x = NInf \<or> y = NInf then NInf else if x = NaN \<or> y = NaN then NaN
     else if flt_less x y then x else y)"

text \<open>The zero box and \<open>false\<close> are returned when the boxes do not intersect.\<close>

definition zero_bbox :: bbox where
  "zero_bbox = \<lparr>MinLon = Fin 0, MaxLon = Fin 0, MinLat = Fin 0, MaxLat = Fin 0, MinEle = Fin 0,
     MaxEle = Fin 0, bbox_Is3D = False\<rparr>"

definition CalculateIntersection :: "bbox \<Rightarrow> bbox \<Rightarrow> bbox \<times> bool" where
  "CalculateIntersection b other =
     (if \<not> bbox_Intersects b other then (zero_bbox, False)
      else (NewBBox (math_Max (MinLon b) (MinLon other)) (math_Min (MaxLon b) (MaxLon other))
        (math_Max (MinLat b) (MinLat other)) (math_Min (MaxLat b) (MaxLat other)), True))"

definition bbox_IsValid :: "bbox \<Rightarrow> bool" where
  "bbox_IsValid b =
     (if flt_le (MaxLon b) (MinLon b) \<or> flt_le (MaxLat b) (MinLat b) then False
      else if bbox_Is3D b \<and> (flt_less (MaxEle b) (MinEle b) \<or>
        flt_eq (MaxEle b) (fneg MaxFloat64) \<or> flt_eq (MinEle b) MaxFloat64) then False
      else \<not> flt_eq (MaxLat b) (fneg MaxFloat64) \<and> \<not> flt_eq (MinLat b) MaxFloat64 \<and>
        \<not> flt_eq (MaxLon b) (fneg MaxFloat64) \<and> \<not> flt_eq (MinLon b) MaxFloat64)"

definition FromPoints :: "flt \<Rightarrow> flt \<Rightarrow> flt \<Rightarrow> flt \<Rightarrow> bbox" where
  "FromPoints lat1 lon1 lat2 lon2 =
     (let (lat1, lat2) = (if flt_less lat2 lat1 then (lat2, lat1) else (lat1, lat2));
          (lon1, lon2) = (if flt_less lon2 lon1 then (lon2, lon1) else (lon1, lon2))
      in NewBBox lon1 lon2 lat1 lat2)"

text \<open>A point is a pair of its latitude and longitude.\<close>

fun CalcBBox :: "(flt \<times> flt) list \<Rightarrow> bbox" where
  "CalcBBox [] = zero_bbox"
| "CalcBBox (p # points) =
     fold (\<lambda>(lat, lon). bbox_Update lat lon) points (NewBBox (snd p) (snd p) (fst p) (fst p))"

subsection \<open>What a box contains\<close>

lemma bbox_Update_sel [simp]:
  "MaxLat (bbox_Update lat lon b) = (if flt_less (MaxLat b) lat then lat else MaxLat b)"
  "MinLat (bbox_Update lat lon b) = (if flt_less lat (MinLat b) then lat else MinLat b)"
  "MaxLon (bbox_Update lat lon b) = (if flt_less (MaxLon b) lon then lon else MaxLon b)"
  "MinLon (bbox_Update lat lon b) = (if flt_less lon (MinLon b) then lon else MinLon b)"
  by (simp_all add: bbox_Update_def Let_def)

definition bbox_num :: "bbox \<Rightarrow> bool" where
  "bbox_num b \<longleftrightarrow> MinLon b \<noteq> NaN \<and> MaxLon b \<noteq> NaN \<and> MinLat b \<noteq> NaN \<and> MaxLat b \<noteq> NaN"

lemma flt_less_le_trans: "flt_less x y \<Longrightarrow> flt_le y z \<Longrightarrow> flt_le x z"
  by (meson flt_le_trans flt_less_iff)

lemma bbox_Update_grows:
  assumes "bbox_num b" "lat \<noteq> NaN" "lon \<noteq> NaN"
  shows "bbox_num (bbox_Update lat lon b)"
    "bbox_Contains b x y \<Longrightarrow> bbox_Contains (bbox_Update lat lon b) x y"
    "bbox_Contains b lat' lon' \<Longrightarrow> bbox_Contains (bbox_Update lat lon b) lat lon"
proof -
  show "bbox_num (bbox_Update lat lon b)" using assms by (simp add: bbox_num_def)
  show "bbox_Contains b x y \<Longrightarrow> bbox_Contains (bbox_Update lat lon b) x y"
    by (auto simp: bbox_Contains_def flt_less_iff intro: flt_le_trans)
  show "bbox_Contains (bbox_Update lat lon b) lat lon" if "bbox_Contains b lat' lon'"
  proof -
    have "flt_le (MinLat b) (MaxLat b)" "flt_le (MinLon b) (MaxLon b)"
      using that by (auto simp: bbox_Contains_def intro: flt_le_trans)
    then show ?thesis using assms flt_le_total
      by (auto simp: bbox_Contains_def bbox_num_def flt_less_iff intro: flt_le_trans)
  qed
qed

lemma CalcBBox_Contains:
  assumes "\<forall>(lat, lon) \<in> set ps. lat \<noteq> NaN \<and> lon \<noteq> NaN" "(lat, lon) \<in> set ps"
  shows "bbox_Contains (CalcBBox ps) lat lon"
proof -
  have "bbox_Contains (fold (\<lambda>(lat, lon). bbox_Update lat lon) qs b) x y"
    if "bbox_num b" "bbox_Contains b u v" "\<forall>(lat, lon) \<in> set qs. lat \<noteq> NaN \<and> lon \<noteq> NaN"
      "bbox_Contains b x y \<or> (x, y) \<in> set qs" for qs b u v x y
    using that
  proof (induction qs arbitrary: b u v)
    case (Cons q qs)
    obtain lat lon where q: "q = (lat, lon)" by (cases q)
    have n: "lat \<noteq> NaN" "lon \<noteq> NaN" using Cons.prems(3) q by auto
    note G = bbox_Update_grows [OF Cons.prems(1) n]
    have "bbox_Contains (bbox_Update lat lon b) x y \<or> (x, y) \<in> set qs"
      using Cons.prems(2,4) q G(2,3) by auto
    then show ?case
      using Cons.IH [OF G(1) G(3) [OF Cons.prems(2)]] Cons.prems(3) q by simp
  qed simp
  note key = this
  obtain a c qs where ps: "ps = (a, c) # qs" using assms(2) by (cases ps) auto
  have n: "a \<noteq> NaN" "c \<noteq> NaN" using assms(1) ps by auto
  then have "bbox_num (NewBBox c c a a)" "bbox_Contains (NewBBox c c a a) a c"
    by (simp_all add: bbox_num_def NewBBox_def bbox_Contains_def)
  from key [OF this, of qs lat lon] show ?thesis
    using assms ps \<open>bbox_Contains (NewBBox c c a a) a c\<close> by auto
qed

lemma flt_le_math_Max:
  "x \<noteq> NaN \<Longrightarrow> y \<noteq> NaN \<Longrightarrow> flt_le (math_Max x y) z \<longleftrightarrow> flt_le x z \<and> flt_le y z"
  by (auto simp: math_Max_def flt_less_iff intro: flt_le_trans dest: flt_le_total)

lemma flt_le_math_Min:
  "x \<noteq> NaN \<Longrightarrow> y \<noteq> NaN \<Longrightarrow> flt_le z (math_Min x y) \<longleftrightarrow> flt_le z x \<and> flt_le z y"
  by (cases x; cases y; cases z) (auto simp: math_Min_def)

lemma CalculateIntersection_Contains:
  assumes "bbox_num a" "bbox_num b" "bbox_Intersects a b"
  shows "snd (CalculateIntersection a b)"
    "bbox_Contains (fst (CalculateIntersection a b)) lat lon \<longleftrightarrow>
      bbox_Contains a lat lon \<and> bbox_Contains b lat lon"
  using assms
  by (auto simp: CalculateIntersection_def NewBBox_def bbox_Contains_def bbox_num_def
      flt_le_math_Max flt_le_math_Min)

section \<open>Edge keys\<close>

definition CreateEdgeKey :: "int \<Rightarrow> bool \<Rightarrow> int" where
  "CreateEdgeKey edgeID reverse = (let k = push_bit 1 edgeID in if reverse then k + 1 else k)"

definition ReverseEdgeKey :: "int \<Rightarrow> int" where
  "ReverseEdgeKey edgeKey = edgeKey XOR 1"

definition GetEdgeFromEdgeKey :: "int \<Rightarrow> int" where
  "GetEdgeFromEdgeKey edgeKey = drop_bit 1 edgeKey"

lemma GetEdgeFromEdgeKey_Create [simp]: "GetEdgeFromEdgeKey (CreateEdgeKey e r) = e"
  by (simp add: GetEdgeFromEdgeKey_def CreateEdgeKey_def Let_def drop_bit_eq_div)

lemma ReverseEdgeKey_Create [simp]: "ReverseEdgeKey (CreateEdgeKey e r) = CreateEdgeKey e (\<not> r)"
  by (cases r) (simp_all add: ReverseEdgeKey_def CreateEdgeKey_def Let_def xor_one_eq)

lemma CreateEdgeKey_odd [simp]: "odd (CreateEdgeKey e r) = r"
  by (simp add: CreateEdgeKey_def Let_def)

end
