(* ===== verification/NodesEdges.thy ===== *)
theory NodesEdges imports StorageAccess BBox begin

text \<open>
  \<^verbatim>\<open>core/storage/base_graph_nodes_and_edges.go\<close>: the records of nodes and edges in two data
  accesses. An edge holds its two nodes and, for each of them, the next edge in the list of that
  node; a node holds the first edge of its list.
\<close>

section \<open>State and layout\<close>

abbreviation (input) noEdge :: int where "noEdge \<equiv> - 1"
abbreviation (input) NoTurnEntry :: int where "NoTurnEntry \<equiv> - 1"

record nodes_edges =
  nodes :: data_access
  edges :: data_access
  nEdgeRef :: int
  nLat :: int
  nLon :: int
  nEle :: int
  nTC :: int
  nodeEntryBytes :: int
  nodeCount :: int
  eNodeA :: int
  eNodeB :: int
  eLinkA :: int
  eLinkB :: int
  eDist :: int
  eKV :: int
  eFlags :: int
  eGeo :: int
  bytesForFlags :: int
  edgeEntryBytes :: int
  edgeCount :: int
  withTurnCosts :: bool
  withElevation :: bool
  Bounds :: bbox
  frozen :: bool

definition initNodeLayout :: "nodes_edges \<Rightarrow> nodes_edges" where
  "initNodeLayout s =
     (let s = s\<lparr>nEdgeRef := 0, nLat := 4, nLon := 8\<rparr>;
          s = s\<lparr>nEle := (if withElevation s then nLon s + 4 else nLon s)\<rparr>;
          s = s\<lparr>nTC := (if withTurnCosts s then nEle s + 4 else nEle s)\<rparr>
      in s\<lparr>nodeEntryBytes := nTC s + 4\<rparr>)"

definition initEdgeLayout :: "nodes_edges \<Rightarrow> nodes_edges" where
  "initEdgeLayout s =
     (let s = s\<lparr>eNodeA := 0, eNodeB := 4, eLinkA := 8, eLinkB := 12, eDist := 16, eKV := 20,
            eFlags := 24\<rparr>;
          s = s\<lparr>eGeo := eFlags s + bytesForFlags s\<rparr>
      in s\<lparr>edgeEntryBytes := eGeo s + 5\<rparr>)"

definition new_nodes_edges :: "data_access \<Rightarrow> data_access \<Rightarrow> bool \<Rightarrow> bool \<Rightarrow> int \<Rightarrow> nodes_edges" where
  "new_nodes_edges nd ed elev tc flagBytes =
     initEdgeLayout (initNodeLayout
       \<lparr>nodes = nd, edges = ed, nEdgeRef = 0, nLat = 0, nLon = 0, nEle = 0, nTC = 0,
        nodeEntryBytes = 0, nodeCount = 0, eNodeA = 0, eNodeB = 0, eLinkA = 0, eLinkB = 0,
        eDist = 0, eKV = 0, eFlags = 0, eGeo = 0, bytesForFlags = flagBytes, edgeEntryBytes = 0,
        edgeCount = 0, withTurnCosts = tc, withElevation = elev, Bounds = CreateInverse elev,
        frozen = False\<rparr>)"

definition NewBaseGraphNodesAndEdges :: "(string \<Rightarrow> string \<Rightarrow> bool) \<Rightarrow> bool \<Rightarrow> bool \<Rightarrow> int \<Rightarrow> int
    \<Rightarrow> gh_directory \<Rightarrow> (nodes_edges \<times> gh_directory) option" where
  "NewBaseGraphNodesAndEdges matches elev tc segmentSize flagBytes dir = do {
     (nd, dir) \<leftarrow> CreateFull ''nodes'' (DefaultTypeFor matches dir ''nodes'' True) segmentSize dir;
     (ed, dir) \<leftarrow> CreateFull ''edges'' (DefaultTypeFor matches dir ''edges'' False) segmentSize dir;
     Some (new_nodes_edges nd ed elev tc flagBytes, dir) }"

definition ne_Create :: "int \<Rightarrow> nodes_edges \<Rightarrow> nodes_edges option" where
  "ne_Create initSize s = do {
     nd \<leftarrow> da_Create initSize (nodes s);
     ed \<leftarrow> da_Create initSize (edges s);
     Some (s\<lparr>nodes := nd, edges := ed\<rparr>) }"

definition ToNodePointer :: "int \<Rightarrow> nodes_edges \<Rightarrow> int option" where
  "ToNodePointer node s = do {
     check (\<not> (node < 0 \<or> node \<ge> nodeCount s));
     Some (node * nodeEntryBytes s) }"

definition ToEdgePointer :: "int \<Rightarrow> nodes_edges \<Rightarrow> int option" where
  "ToEdgePointer edge s = do {
     check (\<not> (edge < 0 \<or> edge \<ge> edgeCount s));
     Some (edge * edgeEntryBytes s) }"

section \<open>Fields of a record\<close>

definition get_node_int :: "int \<Rightarrow> nodes_edges \<Rightarrow> i32 option" where
  "get_node_int pos s = da_GetInt pos (nodes s)"

definition set_node_int :: "int \<Rightarrow> i32 \<Rightarrow> nodes_edges \<Rightarrow> nodes_edges option" where
  "set_node_int pos v s = map_option (\<lambda>d. s\<lparr>nodes := d\<rparr>) (da_SetInt pos v (nodes s))"

definition get_edge_int :: "int \<Rightarrow> nodes_edges \<Rightarrow> i32 option" where
  "get_edge_int pos s = da_GetInt pos (edges s)"

definition set_edge_int :: "int \<Rightarrow> i32 \<Rightarrow> nodes_edges \<Rightarrow> nodes_edges option" where
  "set_edge_int pos v s = map_option (\<lambda>d. s\<lparr>edges := d\<rparr>) (da_SetInt pos v (edges s))"

definition SetEdgeRef :: "int \<Rightarrow> int \<Rightarrow> nodes_edges \<Rightarrow> nodes_edges option" where
  "SetEdgeRef nodePtr edgeRef s = set_node_int (nodePtr + nEdgeRef s) (word_of_int edgeRef) s"

definition GetEdgeRef :: "int \<Rightarrow> nodes_edges \<Rightarrow> int option" where
  "GetEdgeRef nodePtr s = map_option sint (get_node_int (nodePtr + nEdgeRef s) s)"

definition SetLat :: "int \<Rightarrow> flt \<Rightarrow> nodes_edges \<Rightarrow> nodes_edges option" where
  "SetLat nodePtr lat s = set_node_int (nodePtr + nLat s) (DegreeToInt lat) s"

definition GetLat :: "int \<Rightarrow> nodes_edges \<Rightarrow> flt option" where
  "GetLat nodePtr s = map_option IntToDegree (get_node_int (nodePtr + nLat s) s)"

definition SetLon :: "int \<Rightarrow> flt \<Rightarrow> nodes_edges \<Rightarrow> nodes_edges option" where
  "SetLon nodePtr lon s = set_node_int (nodePtr + nLon s) (DegreeToInt lon) s"

definition GetLon :: "int \<Rightarrow> nodes_edges \<Rightarrow> flt option" where
  "GetLon nodePtr s = map_option IntToDegree (get_node_int (nodePtr + nLon s) s)"

definition SetEle :: "int \<Rightarrow> flt \<Rightarrow> nodes_edges \<Rightarrow> nodes_edges option" where
  "SetEle nodePtr ele s = do {
     u \<leftarrow> EleToUInt ele;
     set_node_int (nodePtr + nEle s) (word_of_int u) s }"

definition GetEle :: "int \<Rightarrow> nodes_edges \<Rightarrow> flt option" where
  "GetEle nodePtr s = map_option (\<lambda>v. UIntToEle (sint v)) (get_node_int (nodePtr + nEle s) s)"

definition SetTurnCostRef :: "int \<Rightarrow> int \<Rightarrow> nodes_edges \<Rightarrow> nodes_edges option" where
  "SetTurnCostRef nodePtr tcRef s = set_node_int (nodePtr + nTC s) (word_of_int tcRef) s"

definition GetTurnCostRef :: "int \<Rightarrow> nodes_edges \<Rightarrow> int option" where
  "GetTurnCostRef nodePtr s = map_option sint (get_node_int (nodePtr + nTC s) s)"

definition SetNodeA :: "int \<Rightarrow> int \<Rightarrow> nodes_edges \<Rightarrow> nodes_edges option" where
  "SetNodeA edgePtr nodeA s = set_edge_int (edgePtr + eNodeA s) (word_of_int nodeA) s"

definition GetNodeA :: "int \<Rightarrow> nodes_edges \<Rightarrow> int option" where
  "GetNodeA edgePtr s = map_option sint (get_edge_int (edgePtr + eNodeA s) s)"

definition SetNodeB :: "int \<Rightarrow> int \<Rightarrow> nodes_edges \<Rightarrow> nodes_edges option" where
  "SetNodeB edgePtr nodeB s = set_edge_int (edgePtr + eNodeB s) (word_of_int nodeB) s"

definition GetNodeB :: "int \<Rightarrow> nodes_edges \<Rightarrow> int option" where
  "GetNodeB edgePtr s = map_option sint (get_edge_int (edgePtr + eNodeB s) s)"

definition SetLinkA :: "int \<Rightarrow> int \<Rightarrow> nodes_edges \<Rightarrow> nodes_edges option" where
  "SetLinkA edgePtr linkA s = set_edge_int (edgePtr + eLinkA s) (word_of_int linkA) s"

definition GetLinkA :: "int \<Rightarrow> nodes_edges \<Rightarrow> int option" where
  "GetLinkA edgePtr s = map_option sint (get_edge_int (edgePtr + eLinkA s) s)"

definition SetLinkB :: "int \<Rightarrow> int \<Rightarrow> nodes_edges \<Rightarrow> nodes_edges option" where
  "SetLinkB edgePtr linkB s = set_edge_int (edgePtr + eLinkB s) (word_of_int linkB) s"

definition GetLinkB :: "int \<Rightarrow> nodes_edges \<Rightarrow> int option" where
  "GetLinkB edgePtr s = map_option sint (get_edge_int (edgePtr + eLinkB s) s)"

definition SetKeyValuesRef :: "int \<Rightarrow> int \<Rightarrow> nodes_edges \<Rightarrow> nodes_edges option" where
  "SetKeyValuesRef edgePtr ref' s = set_edge_int (edgePtr + eKV s) (word_of_int ref') s"

definition GetKeyValuesRef :: "int \<Rightarrow> nodes_edges \<Rightarrow> int option" where
  "GetKeyValuesRef edgePtr s = map_option sint (get_edge_int (edgePtr + eKV s) s)"

subsection \<open>Distances\<close>

definition intDistFactor :: rat where "intDistFactor = 1000"

definition MaxDist :: flt where
  "MaxDist = fdiv (f64_of_int MaxInt32) (Fin intDistFactor)"

definition distToInt :: "flt \<Rightarrow> int option" where
  "distToInt distance = do {
     check (\<not> flt_less distance (Fin 0));
     let distance = (if flt_less MaxDist distance then MaxDist else distance);
     Some (int64_of_f64 (math_Round (fmul distance (Fin intDistFactor)))) }"

definition SetDist :: "int \<Rightarrow> flt \<Rightarrow> nodes_edges \<Rightarrow> nodes_edges option" where
  "SetDist edgePtr distance s = do {
     v \<leftarrow> distToInt distance;
     set_edge_int (edgePtr + eDist s) (word_of_int v) s }"

definition GetDist :: "int \<Rightarrow> nodes_edges \<Rightarrow> flt option" where
  "GetDist edgePtr s =
     map_option (\<lambda>v. fdiv (f64_of_int (sint v)) (Fin intDistFactor)) (get_edge_int (edgePtr + eDist s) s)"

subsection \<open>Geometry references of five bytes\<close>

definition SetGeoRef :: "int \<Rightarrow> i64 \<Rightarrow> nodes_edges \<Rightarrow> nodes_edges option" where
  "SetGeoRef edgePtr geoRef s = do {
     let highest25Bits = uint (drop_bit 39 geoRef);
     check (\<not> (highest25Bits \<noteq> 0 \<and> highest25Bits \<noteq> 0x1FFFFFF));
     s \<leftarrow> set_edge_int (edgePtr + eGeo s) (ucast geoRef) s;
     d \<leftarrow> da_SetByte (edgePtr + eGeo s + 4) (ucast (drop_bit 32 geoRef)) (edges s);
     Some (s\<lparr>edges := d\<rparr>) }"

definition GetGeoRef :: "int \<Rightarrow> nodes_edges \<Rightarrow> i64 option" where
  "GetGeoRef edgePtr s = do {
     low \<leftarrow> get_edge_int (edgePtr + eGeo s) s;
     high \<leftarrow> da_GetByte (edgePtr + eGeo s + 4) (edges s);
     Some ((scast low AND 0xFFFFFFFF) OR push_bit 32 (scast high)) }"

subsection \<open>Flags\<close>

record ints_ref =
  Ints :: "i32 list"
  Offset :: int
  Length :: int

definition NewIntsRef :: "int \<Rightarrow> ints_ref option" where
  "NewIntsRef capacity = do {
     check (capacity > 0);
     Some \<lparr>Ints = replicate (nat capacity) 0, Offset = 0, Length = capacity\<rparr> }"

definition DeepCopy :: "ints_ref \<Rightarrow> ints_ref option" where
  "DeepCopy r = do {
     check (0 \<le> Length r);
     src \<leftarrow> slice (Ints r) (Offset r) (Offset r + Length r);
     Some \<lparr>Ints = src, Offset = 0, Length = Length r\<rparr> }"

definition ints_IsEmpty :: "ints_ref \<Rightarrow> bool" where
  "ints_IsEmpty r \<longleftrightarrow> list_all (\<lambda>v. v = 0) (Ints r)"

fun ints_equal_loop :: "nat \<Rightarrow> int \<Rightarrow> ints_ref \<Rightarrow> ints_ref \<Rightarrow> bool option" where
  "ints_equal_loop 0 i r other = Some True"
| "ints_equal_loop (Suc n) i r other = do {
     x \<leftarrow> idx (Ints r) (Offset r + i);
     y \<leftarrow> idx (Ints other) (Offset other + i);
     if x \<noteq> y then Some False else ints_equal_loop n (i + 1) r other }"

definition ints_Equals :: "ints_ref \<Rightarrow> ints_ref \<Rightarrow> bool option" where
  "ints_Equals r other =
     (if Length r \<noteq> Length other then Some False else ints_equal_loop (nat (Length r)) 0 r other)"

definition CreateEdgeFlags :: "nodes_edges \<Rightarrow> ints_ref option" where
  "CreateEdgeFlags s = NewIntsRef ((bytesForFlags s + 3) sdiv 4)"

definition getFlagInt :: "int \<Rightarrow> int \<Rightarrow> nodes_edges \<Rightarrow> i32 option" where
  "getFlagInt edgePtr byteOff s = do {
     check (\<not> byteOff \<ge> bytesForFlags s);
     let pos = edgePtr + byteOff + eFlags s;
     let remaining = bytesForFlags s - byteOff;
     if remaining = 3 then do {
       h \<leftarrow> da_GetShort pos (edges s);
       b \<leftarrow> da_GetByte (pos + 2) (edges s);
       Some ((push_bit 8 (scast h) AND 0xFFFFFF) OR (ucast b AND 0xFF)) }
     else if remaining = 2 then do {
       h \<leftarrow> da_GetShort pos (edges s);
       Some (scast h AND 0xFFFF) }
     else if remaining = 1 then do {
       b \<leftarrow> da_GetByte pos (edges s);
       Some (ucast b AND 0xFF) }
     else da_GetInt pos (edges s) }"

definition setFlagInt :: "int \<Rightarrow> int \<Rightarrow> i32 \<Rightarrow> nodes_edges \<Rightarrow> nodes_edges option" where
  "setFlagInt edgePtr byteOff value s = do {
     check (\<not> byteOff \<ge> bytesForFlags s);
     let pos = edgePtr + byteOff + eFlags s;
     let remaining = bytesForFlags s - byteOff;
     d \<leftarrow> (if remaining = 3 then do {
         d \<leftarrow> da_SetShort pos (ucast (signed_drop_bit 8 value)) (edges s);
         da_SetByte (pos + 2) (ucast value) d }
       else if remaining = 2 then da_SetShort pos (ucast value) (edges s)
       else if remaining = 1 then da_SetByte pos (ucast value) (edges s)
       else da_SetInt pos value (edges s));
     Some (s\<lparr>edges := d\<rparr>) }"

text \<open>\<open>ReadFlags\<close> fills the slice of the reference from its start, \<open>WriteFlags\<close> reads it from there.\<close>

fun read_flags_loop :: "nat \<Rightarrow> int \<Rightarrow> int \<Rightarrow> i32 list \<Rightarrow> nodes_edges \<Rightarrow> i32 list option" where
  "read_flags_loop 0 i edgePtr xs s = Some xs"
| "read_flags_loop (Suc n) i edgePtr xs s = do {
     v \<leftarrow> getFlagInt edgePtr (i * 4) s;
     xs \<leftarrow> put xs i v;
     read_flags_loop n (i + 1) edgePtr xs s }"

definition ReadFlags :: "int \<Rightarrow> ints_ref \<Rightarrow> nodes_edges \<Rightarrow> ints_ref option" where
  "ReadFlags edgePtr flags s = do {
     xs \<leftarrow> read_flags_loop (nat (Length flags)) 0 edgePtr (Ints flags) s;
     Some (flags\<lparr>Ints := xs\<rparr>) }"

fun write_flags_loop :: "nat \<Rightarrow> int \<Rightarrow> int \<Rightarrow> i32 list \<Rightarrow> nodes_edges \<Rightarrow> nodes_edges option" where
  "write_flags_loop 0 i edgePtr xs s = Some s"
| "write_flags_loop (Suc n) i edgePtr xs s = do {
     v \<leftarrow> idx xs i;
     s \<leftarrow> setFlagInt edgePtr (i * 4) v s;
     write_flags_loop n (i + 1) edgePtr xs s }"

definition WriteFlags :: "int \<Rightarrow> ints_ref \<Rightarrow> nodes_edges \<Rightarrow> nodes_edges option" where
  "WriteFlags edgePtr flags s = write_flags_loop (nat (Length flags)) 0 edgePtr (Ints flags) s"

definition ne_GetInt :: "nodes_edges \<Rightarrow> int \<Rightarrow> int \<Rightarrow> i32 option" where
  "ne_GetInt s edgeID index = do {
     p \<leftarrow> ToEdgePointer edgeID s;
     getFlagInt p (index * 4) s }"

definition ne_SetInt :: "nodes_edges \<Rightarrow> int \<Rightarrow> int \<Rightarrow> i32 \<Rightarrow> nodes_edges option" where
  "ne_SetInt s edgeID index value = do {
     p \<leftarrow> ToEdgePointer edgeID s;
     setFlagInt p (index * 4) value s }"

definition ne_access :: "nodes_edges edge_int_access" where
  "ne_access = \<lparr>eia_get = ne_GetInt, eia_set = ne_SetInt\<rparr>"

text \<open>\<open>IntsRefEdgeIntAccess\<close> ignores the edge.\<close>

definition ints_access :: "i32 list edge_int_access" where
  "ints_access = \<lparr>eia_get = (\<lambda>xs edgeID index. idx xs index),
     eia_set = (\<lambda>xs edgeID index value. put xs index value)\<rparr>"

section \<open>Growing\<close>

fun init_nodes :: "nat \<Rightarrow> int \<Rightarrow> nodes_edges \<Rightarrow> nodes_edges option" where
  "init_nodes 0 n s = Some s"
| "init_nodes (Suc k) n s = do {
     p \<leftarrow> ToNodePointer n s;
     s \<leftarrow> SetEdgeRef p noEdge s;
     s \<leftarrow> (if withTurnCosts s then SetTurnCostRef p NoTurnEntry s else Some s);
     init_nodes k (n + 1) s }"

definition EnsureNodeCapacity :: "int \<Rightarrow> nodes_edges \<Rightarrow> nodes_edges option" where
  "EnsureNodeCapacity node s =
     (if node < nodeCount s then Some s
      else do {
        let oldCount = nodeCount s;
        let s = s\<lparr>nodeCount := node + 1\<rparr>;
        (g, d) \<leftarrow> da_EnsureCapacity (nodeCount s * nodeEntryBytes s) (nodes s);
        init_nodes (nat (nodeCount s - oldCount)) oldCount (s\<lparr>nodes := d\<rparr>) })"

definition ne_Edge :: "int \<Rightarrow> int \<Rightarrow> nodes_edges \<Rightarrow> (int \<times> nodes_edges) option" where
  "ne_Edge nodeA nodeB s = do {
     check (edgeCount s \<noteq> MaxInt32);
     check (nodeA \<noteq> nodeB);
     s \<leftarrow> EnsureNodeCapacity (max nodeA nodeB) s;
     let edgeID = edgeCount s;
     let edgePtr = edgeCount s * edgeEntryBytes s;
     let s = s\<lparr>edgeCount := edgeCount s + 1\<rparr>;
     (g, d) \<leftarrow> da_EnsureCapacity (edgeCount s * edgeEntryBytes s) (edges s);
     let s = s\<lparr>edges := d\<rparr>;
     s \<leftarrow> SetNodeA edgePtr nodeA s;
     s \<leftarrow> SetNodeB edgePtr nodeB s;
     ptrA \<leftarrow> ToNodePointer nodeA s;
     prevA \<leftarrow> GetEdgeRef ptrA s;
     s \<leftarrow> SetLinkA edgePtr (if prevA \<ge> 0 then prevA else noEdge) s;
     s \<leftarrow> SetEdgeRef ptrA edgeID s;
     ptrB \<leftarrow> ToNodePointer nodeB s;
     prevB \<leftarrow> GetEdgeRef ptrB s;
     s \<leftarrow> SetLinkB edgePtr (if prevB \<ge> 0 then prevB else noEdge) s;
     s \<leftarrow> SetEdgeRef ptrB edgeID s;
     Some (edgeID, s) }"

section \<open>Files\<close>

definition VersionNode :: int where "VersionNode = 9"
definition VersionEdge :: int where "VersionEdge = 24"

definition boolToInt32 :: "bool \<Rightarrow> i32" where
  "boolToInt32 b = (if b then 1 else 0)"

definition checkDAVersion :: "int \<Rightarrow> int \<Rightarrow> unit option" where
  "checkDAVersion expected actual = check (\<not> expected \<noteq> actual)"

definition node_headers :: "nodes_edges \<Rightarrow> data_access \<Rightarrow> data_access option" where
  "node_headers s d = do {
     d \<leftarrow> da_Set_Header (0*4) (word_of_int VersionNode) d;
     d \<leftarrow> da_Set_Header (1*4) (word_of_int (nodeEntryBytes s)) d;
     d \<leftarrow> da_Set_Header (2*4) (word_of_int (nodeCount s)) d;
     d \<leftarrow> da_Set_Header (3*4) (DegreeToInt (MinLon (Bounds s))) d;
     d \<leftarrow> da_Set_Header (4*4) (DegreeToInt (MaxLon (Bounds s))) d;
     d \<leftarrow> da_Set_Header (5*4) (DegreeToInt (MinLat (Bounds s))) d;
     d \<leftarrow> da_Set_Header (6*4) (DegreeToInt (MaxLat (Bounds s))) d;
     d \<leftarrow> (if withElevation s then do {
         d \<leftarrow> da_Set_Header (7*4) 1 d;
         lo \<leftarrow> EleToUInt (MinEle (Bounds s));
         d \<leftarrow> da_Set_Header (8*4) (word_of_int lo) d;
         hi \<leftarrow> EleToUInt (MaxEle (Bounds s));
         da_Set_Header (9*4) (word_of_int hi) d }
       else da_Set_Header (7*4) 0 d);
     da_Set_Header (10*4) (boolToInt32 (frozen s)) d }"

definition edge_headers :: "nodes_edges \<Rightarrow> data_access \<Rightarrow> data_access option" where
  "edge_headers s d = do {
     d \<leftarrow> da_Set_Header (0*4) (word_of_int VersionEdge) d;
     d \<leftarrow> da_Set_Header (1*4) (word_of_int (edgeEntryBytes s)) d;
     da_Set_Header (2*4) (word_of_int (edgeCount s)) d }"

definition ne_Flush :: "nodes_edges \<Rightarrow> file_system \<Rightarrow> (nodes_edges \<times> file_system) option" where
  "ne_Flush s fs = do {
     nd \<leftarrow> node_headers s (nodes s);
     ed \<leftarrow> edge_headers s (edges s);
     fs \<leftarrow> da_Flush ed fs;
     fs \<leftarrow> da_Flush nd fs;
     Some (s\<lparr>nodes := nd, edges := ed\<rparr>, fs) }"

definition load_node_headers :: "nodes_edges \<Rightarrow> nodes_edges option" where
  "load_node_headers s = do {
     let d = nodes s;
     v \<leftarrow> da_Get_Header (0*4) d;
     u \<leftarrow> checkDAVersion VersionNode (sint v);
     entry \<leftarrow> da_Get_Header (1*4) d;
     count \<leftarrow> da_Get_Header (2*4) d;
     minLon \<leftarrow> da_Get_Header (3*4) d;
     maxLon \<leftarrow> da_Get_Header (4*4) d;
     minLat \<leftarrow> da_Get_Header (5*4) d;
     maxLat \<leftarrow> da_Get_Header (6*4) d;
     let s = s\<lparr>nodeEntryBytes := sint entry, nodeCount := sint count,
       Bounds := (Bounds s)\<lparr>MinLon := IntToDegree minLon, MaxLon := IntToDegree maxLon,
         MinLat := IntToDegree minLat, MaxLat := IntToDegree maxLat\<rparr>\<rparr>;
     ele \<leftarrow> da_Get_Header (7*4) d;
     let hasElevation = (ele = 1);
     check (\<not> hasElevation \<noteq> withElevation s);
     s \<leftarrow> (if withElevation s then do {
         lo \<leftarrow> da_Get_Header (8*4) d;
         hi \<leftarrow> da_Get_Header (9*4) d;
         Some (s\<lparr>Bounds := (Bounds s)\<lparr>MinEle := UIntToEle (sint lo), MaxEle := UIntToEle (sint hi)\<rparr>\<rparr>) }
       else Some s);
     fr \<leftarrow> da_Get_Header (10*4) d;
     Some (s\<lparr>frozen := (fr = 1)\<rparr>) }"

definition load_edge_headers :: "nodes_edges \<Rightarrow> nodes_edges option" where
  "load_edge_headers s = do {
     let d = edges s;
     v \<leftarrow> da_Get_Header (0*4) d;
     u \<leftarrow> checkDAVersion VersionEdge (sint v);
     entry \<leftarrow> da_Get_Header (1*4) d;
     count \<leftarrow> da_Get_Header (2*4) d;
     Some (s\<lparr>edgeEntryBytes := sint entry, edgeCount := sint count\<rparr>) }"

definition ne_LoadExisting :: "file_system \<Rightarrow> nodes_edges \<Rightarrow> (bool \<times> nodes_edges) option" where
  "ne_LoadExisting fs s = do {
     (ok, nd) \<leftarrow> da_LoadExisting fs (nodes s);
     let s = s\<lparr>nodes := nd\<rparr>;
     if \<not> ok then Some (False, s)
     else do {
       (ok, ed) \<leftarrow> da_LoadExisting fs (edges s);
       let s = s\<lparr>edges := ed\<rparr>;
       if \<not> ok then Some (False, s)
       else do {
         s \<leftarrow> load_node_headers s;
         s \<leftarrow> load_edge_headers s;
         Some (True, s) } } }"

definition ne_Close :: "nodes_edges \<Rightarrow> nodes_edges" where
  "ne_Close s = s\<lparr>edges := da_Close (edges s), nodes := da_Close (nodes s)\<rparr>"

definition SetFrozen :: "bool \<Rightarrow> nodes_edges \<Rightarrow> nodes_edges" where
  "SetFrozen f s = s\<lparr>frozen := f\<rparr>"

section \<open>Well-formed storage\<close>

definition ne_layout :: "nodes_edges \<Rightarrow> bool" where
  "ne_layout s \<longleftrightarrow> nEdgeRef s = 0 \<and> nLat s = 4 \<and> nLon s = 8 \<and>
     nEle s = (if withElevation s then 12 else 8) \<and>
     nTC s = (if withTurnCosts s then nEle s + 4 else nEle s) \<and> nodeEntryBytes s = nTC s + 4 \<and>
     eNodeA s = 0 \<and> eNodeB s = 4 \<and> eLinkA s = 8 \<and> eLinkB s = 12 \<and> eDist s = 16 \<and> eKV s = 20 \<and>
     eFlags s = 24 \<and> eGeo s = 24 + bytesForFlags s \<and> edgeEntryBytes s = eGeo s + 5 \<and>
     0 \<le> bytesForFlags s"

text \<open>
  Both data accesses are well formed, the one of the nodes supports aligned integers and the one of
  the edges, whose records have no alignment, everything.
\<close>

definition ne_inv :: "nodes_edges \<Rightarrow> bool" where
  "ne_inv s \<longleftrightarrow> ne_layout s \<and> da_inv (nodes s) \<and> da_inv (edges s) \<and>
     (\<forall>p. p mod 4 = 0 \<longrightarrow> da_supp (nodes s) 4 p) \<and> (\<forall>w p. da_supp (edges s) w p) \<and>
     0 \<le> nodeCount s \<and> 0 \<le> edgeCount s \<and> nodeCount s \<le> 2 ^ 31 \<and> edgeCount s < 2 ^ 31 \<and>
     nodeCount s * nodeEntryBytes s \<le> da_Capacity (nodes s) \<and>
     edgeCount s * edgeEntryBytes s \<le> da_Capacity (edges s)"

lemma ne_layout_data [simp]: "ne_layout (s\<lparr>nodes := nd\<rparr>) = ne_layout s"
    "ne_layout (s\<lparr>edges := ed\<rparr>) = ne_layout s"
    "ne_layout (s\<lparr>nodeCount := c\<rparr>) = ne_layout s"
    "ne_layout (s\<lparr>edgeCount := c\<rparr>) = ne_layout s"
  by (simp_all add: ne_layout_def)

definition node_int :: "nodes_edges \<Rightarrow> int \<Rightarrow> int \<Rightarrow> i32" where
  "node_int s n off = mem32 (da_mem (nodes s)) (n * nodeEntryBytes s + off)"

definition edge_int :: "nodes_edges \<Rightarrow> int \<Rightarrow> int \<Rightarrow> i32" where
  "edge_int s e off = mem32 (da_mem (edges s)) (e * edgeEntryBytes s + off)"

lemma record_end:
  assumes "0 \<le> e" "e < n" "off + w \<le> E" "n * E \<le> c" "0 \<le> (E :: int)"
  shows "e * E + off + w \<le> c"
proof -
  have "(e + 1) * E \<le> n * E" using assms(2,5) by (intro mult_right_mono) auto
  then show ?thesis using assms(3,4) by (simp add: distrib_right)
qed

lemma record_disjoint:
  assumes "e \<noteq> e'" "0 \<le> off" "off + w \<le> E" "0 \<le> off'" "off' + w' \<le> (E :: int)" "0 \<le> E"
  shows "e * E + off + w \<le> e' * E + off' \<or> e' * E + off' + w' \<le> e * E + off"
proof (cases "e < e'")
  case True
  then have "(e + 1) * E \<le> e' * E" using assms(6) by (intro mult_right_mono) auto
  then show ?thesis using assms by (simp add: distrib_right)
next
  case False
  then have "(e' + 1) * E \<le> e * E" using assms(1,6) by (intro mult_right_mono) auto
  then show ?thesis using assms by (simp add: distrib_right)
qed

lemma record_bytes:
  assumes "0 \<le> off" "off + 4 \<le> (E :: int)" "0 \<le> off'" "off' + 4 \<le> E"
    "off' = off \<or> off' + 4 \<le> off \<or> off + 4 \<le> off'"
  shows "mem32 (upd m (e * E + off) (bytes32 v)) (e' * E + off') =
    (if e' = e \<and> off' = off then v else mem32 m (e' * E + off'))"
proof (cases "e' = e")
  case True
  then show ?thesis using assms(5) by (auto simp: mem32_frame)
next
  case False
  have "e' * E + off' + 4 \<le> e * E + off \<or> e * E + off + 4 \<le> e' * E + off'"
    using record_disjoint [of e' e off' 4 E off 4] assms False by linarith
  then show ?thesis using False by (auto simp: mem32_frame)
qed

lemma layout_pos: "ne_layout s \<Longrightarrow> 12 \<le> nodeEntryBytes s \<and> 29 \<le> edgeEntryBytes s \<and>
    nodeEntryBytes s mod 4 = 0"
  by (auto simp: ne_layout_def)

lemma edge_acc:
  assumes "ne_inv s" "0 \<le> e" "e < edgeCount s" "0 \<le> off" "off + int w \<le> edgeEntryBytes s"
  shows "da.acc (edges s) w (e * edgeEntryBytes s + off)"
proof -
  have E: "0 \<le> edgeEntryBytes s" using assms(1) layout_pos by (fastforce simp: ne_inv_def)
  have "e * edgeEntryBytes s + off + int w \<le> da_Capacity (edges s)"
    by (rule record_end [OF assms(2,3,5) _ E]) (use assms(1) in \<open>simp add: ne_inv_def\<close>)
  moreover have "0 \<le> e * edgeEntryBytes s + off" using assms(2,4) E by simp
  ultimately show ?thesis using assms(1) by (simp add: da.acc_def ne_inv_def)
qed

lemma node_acc:
  assumes "ne_inv s" "0 \<le> n" "n < nodeCount s" "0 \<le> off" "off + 4 \<le> nodeEntryBytes s" "off mod 4 = 0"
  shows "da.acc (nodes s) 4 (n * nodeEntryBytes s + off)"
proof -
  have E: "0 \<le> nodeEntryBytes s" "nodeEntryBytes s mod 4 = 0"
    using assms(1) layout_pos by (fastforce simp: ne_inv_def)+
  have "n * nodeEntryBytes s + off + 4 \<le> da_Capacity (nodes s)"
    by (rule record_end [OF assms(2,3,5) _ E(1)]) (use assms(1) in \<open>simp add: ne_inv_def\<close>)
  moreover have "0 \<le> n * nodeEntryBytes s + off" using assms(2,4) E by simp
  moreover have "(n * nodeEntryBytes s + off) mod 4 = 0"
    using E(2) assms(6) by (metis add_0 mod_add_eq mod_mult_right_eq mult_zero_right mod_0)
  ultimately show ?thesis using assms(1) by (simp add: da.acc_def ne_inv_def)
qed

lemma get_edge_field:
  assumes "ne_inv s" "0 \<le> e" "e < edgeCount s" "0 \<le> off" "off + 4 \<le> edgeEntryBytes s"
  shows "get_edge_int (e * edgeEntryBytes s + off) s = Some (edge_int s e off)"
  using edge_acc [OF assms(1-4), of 4] assms(5) by (simp add: get_edge_int_def edge_int_def da.get_int)

lemma get_node_field:
  assumes "ne_inv s" "0 \<le> n" "n < nodeCount s" "0 \<le> off" "off + 4 \<le> nodeEntryBytes s" "off mod 4 = 0"
  shows "get_node_int (n * nodeEntryBytes s + off) s = Some (node_int s n off)"
  using node_acc [OF assms] by (simp add: get_node_int_def node_int_def da.get_int)

text \<open>A write of a field of one record changes this field only.\<close>

lemma set_edge_field:
  assumes inv: "ne_inv s" and e: "0 \<le> e" "e < edgeCount s" "0 \<le> off" "off + 4 \<le> edgeEntryBytes s"
  obtains d where "set_edge_int (e * edgeEntryBytes s + off) v s = Some (s\<lparr>edges := d\<rparr>)"
    "ne_inv (s\<lparr>edges := d\<rparr>)" "da_mem d = upd (da_mem (edges s)) (e * edgeEntryBytes s + off) (bytes32 v)"
    "\<And>e' o'. 0 \<le> o' \<Longrightarrow> o' + 4 \<le> edgeEntryBytes s \<Longrightarrow> o' = off \<or> o' + 4 \<le> off \<or> off + 4 \<le> o' \<Longrightarrow>
      edge_int (s\<lparr>edges := d\<rparr>) e' o' = (if e' = e \<and> o' = off then v else edge_int s e' o')"
proof -
  have "off + int 4 \<le> edgeEntryBytes s" using e(4) by simp
  note A = edge_acc [OF inv e(1-3) this]
  obtain d where d: "da_SetInt (e * edgeEntryBytes s + off) v (edges s) = Some d"
    "da_mem d = upd (da_mem (edges s)) (e * edgeEntryBytes s + off) (bytes32 v)"
    "da_Capacity d = da_Capacity (edges s)" "da_inv d" "da_supp d = da_supp (edges s)"
    by (rule da.set_int [OF A])
  have "ne_inv (s\<lparr>edges := d\<rparr>)" using inv d by (simp add: ne_inv_def)
  moreover have "edge_int (s\<lparr>edges := d\<rparr>) e' o' = (if e' = e \<and> o' = off then v else edge_int s e' o')"
    if "0 \<le> o'" "o' + 4 \<le> edgeEntryBytes s" "o' = off \<or> o' + 4 \<le> off \<or> off + 4 \<le> o'" for e' o'
    using record_bytes [OF e(3,4) that] d(2) by (simp add: edge_int_def)
  ultimately show ?thesis using d(1,2) by (intro that [of d]) (simp_all add: set_edge_int_def)
qed

lemma set_node_field:
  assumes inv: "ne_inv s" and n: "0 \<le> n" "n < nodeCount s" "0 \<le> off" "off + 4 \<le> nodeEntryBytes s"
    "off mod 4 = 0"
  obtains d where "set_node_int (n * nodeEntryBytes s + off) v s = Some (s\<lparr>nodes := d\<rparr>)"
    "ne_inv (s\<lparr>nodes := d\<rparr>)" "da_mem d = upd (da_mem (nodes s)) (n * nodeEntryBytes s + off) (bytes32 v)"
    "\<And>n' o'. 0 \<le> o' \<Longrightarrow> o' + 4 \<le> nodeEntryBytes s \<Longrightarrow> o' = off \<or> o' + 4 \<le> off \<or> off + 4 \<le> o' \<Longrightarrow>
      node_int (s\<lparr>nodes := d\<rparr>) n' o' = (if n' = n \<and> o' = off then v else node_int s n' o')"
proof -
  note A = node_acc [OF inv n]
  obtain d where d: "da_SetInt (n * nodeEntryBytes s + off) v (nodes s) = Some d"
    "da_mem d = upd (da_mem (nodes s)) (n * nodeEntryBytes s + off) (bytes32 v)"
    "da_Capacity d = da_Capacity (nodes s)" "da_inv d" "da_supp d = da_supp (nodes s)"
    by (rule da.set_int [OF A])
  have "ne_inv (s\<lparr>nodes := d\<rparr>)" using inv d by (simp add: ne_inv_def)
  moreover have "node_int (s\<lparr>nodes := d\<rparr>) n' o' = (if n' = n \<and> o' = off then v else node_int s n' o')"
    if "0 \<le> o'" "o' + 4 \<le> nodeEntryBytes s" "o' = off \<or> o' + 4 \<le> off \<or> off + 4 \<le> o'" for n' o'
    using record_bytes [OF n(3,4) that] d(2) by (simp add: node_int_def)
  ultimately show ?thesis using d(1,2) by (intro that [of d]) (simp_all add: set_node_int_def)
qed

section \<open>Updates of one field\<close>

definition edge_upd :: "nodes_edges \<Rightarrow> int \<Rightarrow> int \<Rightarrow> i32 \<Rightarrow> nodes_edges \<Rightarrow> bool" where
  "edge_upd s e off v s' \<longleftrightarrow> (\<exists>d. s' = s\<lparr>edges := d\<rparr>) \<and> ne_inv s' \<and>
     (\<forall>e' o'. 0 \<le> o' \<and> o' + 4 \<le> edgeEntryBytes s \<and> (o' = off \<or> o' + 4 \<le> off \<or> off + 4 \<le> o') \<longrightarrow>
        edge_int s' e' o' = (if e' = e \<and> o' = off then v else edge_int s e' o'))"

text \<open>The offsets of the integers in the record of a node.\<close>

definition node_off :: "nodes_edges \<Rightarrow> int \<Rightarrow> bool" where
  "node_off s off \<longleftrightarrow> 0 \<le> off \<and> off + 4 \<le> nodeEntryBytes s \<and> off mod 4 = 0"

definition node_upd :: "nodes_edges \<Rightarrow> int \<Rightarrow> int \<Rightarrow> i32 \<Rightarrow> nodes_edges \<Rightarrow> bool" where
  "node_upd s n off v s' \<longleftrightarrow> (\<exists>d. s' = s\<lparr>nodes := d\<rparr>) \<and> ne_inv s' \<and>
     (\<forall>n' o'. node_off s o' \<longrightarrow> node_int s' n' o' = (if n' = n \<and> o' = off then v else node_int s n' o'))"

lemma edge_set_upd:
  assumes "ne_inv s" "0 \<le> e" "e < edgeCount s" "0 \<le> off" "off + 4 \<le> edgeEntryBytes s"
  obtains s' where "set_edge_int (e * edgeEntryBytes s + off) v s = Some s'" "edge_upd s e off v s'"
proof -
  note ret = that
  obtain d where d: "set_edge_int (e * edgeEntryBytes s + off) v s = Some (s\<lparr>edges := d\<rparr>)"
    "ne_inv (s\<lparr>edges := d\<rparr>)"
    "\<And>e' o'. 0 \<le> o' \<Longrightarrow> o' + 4 \<le> edgeEntryBytes s \<Longrightarrow> o' = off \<or> o' + 4 \<le> off \<or> off + 4 \<le> o' \<Longrightarrow>
      edge_int (s\<lparr>edges := d\<rparr>) e' o' = (if e' = e \<and> o' = off then v else edge_int s e' o')"
    using set_edge_field [OF assms, of v] by metis
  show ?thesis by (rule ret [OF d(1)]) (use d(2,3) in \<open>auto simp: edge_upd_def\<close>)
qed

lemma mult4_apart: "(a :: int) mod 4 = 0 \<Longrightarrow> b mod 4 = 0 \<Longrightarrow> a = b \<or> a + 4 \<le> b \<or> b + 4 \<le> a"
  by presburger

lemma node_set_upd:
  assumes "ne_inv s" "0 \<le> n" "n < nodeCount s" "node_off s off"
  obtains s' where "set_node_int (n * nodeEntryBytes s + off) v s = Some s'" "node_upd s n off v s'"
proof -
  note ret = that
  have off: "0 \<le> off" "off + 4 \<le> nodeEntryBytes s" "off mod 4 = 0" using assms(4) by (auto simp: node_off_def)
  obtain d where d: "set_node_int (n * nodeEntryBytes s + off) v s = Some (s\<lparr>nodes := d\<rparr>)"
    "ne_inv (s\<lparr>nodes := d\<rparr>)"
    "\<And>n' o'. 0 \<le> o' \<Longrightarrow> o' + 4 \<le> nodeEntryBytes s \<Longrightarrow> o' = off \<or> o' + 4 \<le> off \<or> off + 4 \<le> o' \<Longrightarrow>
      node_int (s\<lparr>nodes := d\<rparr>) n' o' = (if n' = n \<and> o' = off then v else node_int s n' o')"
    using set_node_field [OF assms(1-3) off, of v] by metis
  have "node_int (s\<lparr>nodes := d\<rparr>) n' o' = (if n' = n \<and> o' = off then v else node_int s n' o')"
    if "node_off s o'" for n' o'
    using d(3) [of o' n'] mult4_apart [OF _ off(3), of o'] that by (auto simp: node_off_def)
  then show ?thesis by (intro ret [OF d(1)]) (use d(2) in \<open>auto simp: node_upd_def\<close>)
qed

text \<open>An update of an edge leaves the nodes and all counts and offsets alone, and conversely.\<close>

lemma edge_upd_frame:
  assumes "edge_upd s e off v s'"
  shows "ne_inv s'" "nodes s' = nodes s" "node_int s' = node_int s" "nodeCount s' = nodeCount s"
    "edgeCount s' = edgeCount s" "nodeEntryBytes s' = nodeEntryBytes s"
    "edgeEntryBytes s' = edgeEntryBytes s" "withTurnCosts s' = withTurnCosts s"
    "withElevation s' = withElevation s" "Bounds s' = Bounds s" "frozen s' = frozen s" "nTC s' = nTC s"
    "bytesForFlags s' = bytesForFlags s"
  using assms by (auto simp: edge_upd_def node_int_def [abs_def])

lemma edge_upd_at:
  assumes "edge_upd s e off v s'" "0 \<le> o'" "o' + 4 \<le> edgeEntryBytes s" "o' = off \<or> o' + 4 \<le> off \<or> off + 4 \<le> o'"
  shows "edge_int s' e' o' = (if e' = e \<and> o' = off then v else edge_int s e' o')"
  using assms unfolding edge_upd_def by blast

lemma node_upd_frame:
  assumes "node_upd s n off v s'"
  shows "ne_inv s'" "edges s' = edges s" "edge_int s' = edge_int s" "nodeCount s' = nodeCount s"
    "edgeCount s' = edgeCount s" "nodeEntryBytes s' = nodeEntryBytes s"
    "edgeEntryBytes s' = edgeEntryBytes s" "withTurnCosts s' = withTurnCosts s"
    "withElevation s' = withElevation s" "Bounds s' = Bounds s" "frozen s' = frozen s" "nTC s' = nTC s"
    "bytesForFlags s' = bytesForFlags s"
  using assms by (auto simp: node_upd_def edge_int_def [abs_def])

lemma node_upd_at:
  assumes "node_upd s n off v s'" "node_off s o'"
  shows "node_int s' n' o' = (if n' = n \<and> o' = off then v else node_int s n' o')"
  using assms unfolding node_upd_def by blast

lemma node_upd_off: "node_upd s n off v s' \<Longrightarrow> node_off s' = node_off s"
  by (auto simp: node_upd_def node_off_def [abs_def])

text \<open>The offsets of the fields.\<close>

lemma ne_offsets:
  assumes "ne_inv s"
  shows "nEdgeRef s = 0" "nLat s = 4" "nLon s = 8" "eNodeA s = 0" "eNodeB s = 4" "eLinkA s = 8"
    "eLinkB s = 12" "eDist s = 16" "eKV s = 20" "eFlags s = 24" "12 \<le> nodeEntryBytes s"
    "29 \<le> edgeEntryBytes s" "nTC s mod 4 = 0" "withTurnCosts s \<Longrightarrow> 12 \<le> nTC s"
    "nTC s + 4 = nodeEntryBytes s" "0 \<le> nTC s" "eGeo s + 5 = edgeEntryBytes s" "24 \<le> eGeo s"
  using assms by (auto simp: ne_inv_def ne_layout_def)

lemma ToNodePointer_eq: "0 \<le> n \<Longrightarrow> n < nodeCount s \<Longrightarrow> ToNodePointer n s = Some (n * nodeEntryBytes s)"
  by (simp add: ToNodePointer_def)

lemma ToEdgePointer_eq: "0 \<le> e \<Longrightarrow> e < edgeCount s \<Longrightarrow> ToEdgePointer e s = Some (e * edgeEntryBytes s)"
  by (simp add: ToEdgePointer_def)

lemma node_off_fields:
  assumes "ne_inv s"
  shows "node_off s 0" "node_off s 4" "node_off s 8" "withTurnCosts s \<Longrightarrow> node_off s (nTC s)"
    "withElevation s \<Longrightarrow> node_off s (nEle s)" "withElevation s \<Longrightarrow> nEle s = 12"
  using assms by (auto simp: node_off_def ne_inv_def ne_layout_def)

section \<open>New nodes\<close>

lemma init_nodes_spec:
  assumes "ne_inv s" "0 \<le> n" "n + int k = nodeCount s"
  obtains d where "init_nodes k n s = Some (s\<lparr>nodes := d\<rparr>)" "ne_inv (s\<lparr>nodes := d\<rparr>)"
    "\<And>n' o'. node_off s o' \<Longrightarrow> node_int (s\<lparr>nodes := d\<rparr>) n' o' =
      (if n \<le> n' \<and> n' < nodeCount s \<and> (o' = 0 \<or> withTurnCosts s \<and> o' = nTC s) then - 1 else node_int s n' o')"
  using assms
proof (induction k arbitrary: n s thesis)
  case 0
  show ?case by (rule 0(1) [of "nodes s"]) (use 0(2-4) in auto)
next
  case (Suc k)
  note inv = Suc.prems(2)
  have n: "0 \<le> n" "n < nodeCount s" using Suc.prems(3,4) by auto
  note off = ne_offsets(1) [OF inv] node_off_fields [OF inv]
  obtain s1 where s1: "set_node_int (n * nodeEntryBytes s + 0) (- 1) s = Some s1" "node_upd s n 0 (- 1) s1"
    by (rule node_set_upd [OF inv n off(2)])
  note f1 = node_upd_frame [OF s1(2)]
  obtain s2 where s2: "(if withTurnCosts s1 then SetTurnCostRef (n * nodeEntryBytes s) NoTurnEntry s1 else Some s1) = Some s2"
    "ne_inv s2" "\<exists>d. s2 = s\<lparr>nodes := d\<rparr>"
    "\<And>n' o'. node_off s o' \<Longrightarrow> node_int s2 n' o' =
      (if n' = n \<and> (o' = 0 \<or> withTurnCosts s \<and> o' = nTC s) then - 1 else node_int s n' o')"
  proof (cases "withTurnCosts s")
    case True
    note ret = that
    have "node_off s1 (nTC s)" using off(5) [OF True] node_upd_off [OF s1(2)] by simp
    then obtain s2 where s2: "set_node_int (n * nodeEntryBytes s1 + nTC s) (- 1) s1 = Some s2"
      "node_upd s1 n (nTC s) (- 1) s2"
      using node_set_upd [OF f1(1)] n f1(4) by metis
    have "\<exists>d. s2 = s\<lparr>nodes := d\<rparr>" using s1(2) s2(2) by (auto simp: node_upd_def)
    then show ?thesis
      by (intro ret [of s2])
        (use s2 f1 True node_upd_frame(1) [OF s2(2)] node_upd_at [OF s1(2)] node_upd_at [OF s2(2)]
          node_upd_off [OF s1(2)] in \<open>auto simp: SetTurnCostRef_def\<close>)
  next
    case False
    note ret = that
    show ?thesis
      by (rule ret [of s1]) (use s1 f1 False node_upd_at [OF s1(2)] in \<open>auto simp: node_upd_def\<close>)
  qed
  obtain d where d: "s2 = s\<lparr>nodes := d\<rparr>" using s2(3) by blast
  have n2: "n + 1 + int k = nodeCount s2" using Suc.prems(4) d by simp
  obtain d' where d': "init_nodes k (n + 1) s2 = Some (s2\<lparr>nodes := d'\<rparr>)" "ne_inv (s2\<lparr>nodes := d'\<rparr>)"
    "\<And>n' o'. node_off s2 o' \<Longrightarrow> node_int (s2\<lparr>nodes := d'\<rparr>) n' o' =
      (if n + 1 \<le> n' \<and> n' < nodeCount s2 \<and> (o' = 0 \<or> withTurnCosts s2 \<and> o' = nTC s2) then - 1
       else node_int s2 n' o')"
    using Suc.IH [of "n + 1" s2, OF _ s2(2) _ n2] n(1) by (smt (verit))
  have e: "s2\<lparr>nodes := d'\<rparr> = s\<lparr>nodes := d'\<rparr>" using d by simp
  have o2: "node_off s2 = node_off s" by (auto simp: d node_off_def [abs_def])
  show ?case
  proof (rule Suc.prems(1) [of d'])
    show "init_nodes (Suc k) n s = Some (s\<lparr>nodes := d'\<rparr>)"
      using s1(1) s2(1) d'(1) e ToNodePointer_eq [OF n] f1(8) off(1) by (simp add: SetEdgeRef_def)
    show "ne_inv (s\<lparr>nodes := d'\<rparr>)" using d'(2) e by simp
    fix n' o' assume o': "node_off s o'"
    show "node_int (s\<lparr>nodes := d'\<rparr>) n' o' = (if n \<le> n' \<and> n' < nodeCount s \<and>
        (o' = 0 \<or> withTurnCosts s \<and> o' = nTC s) then - 1 else node_int s n' o')"
      using d'(3) [unfolded e o2, OF o', of n'] s2(4) [OF o', of n'] d n by auto
  qed
qed

lemma EnsureNodeCapacity_spec:
  assumes inv: "ne_inv s" and node: "node < 2 ^ 31"
  obtains d where
    "EnsureNodeCapacity node s = Some (s\<lparr>nodeCount := max (nodeCount s) (node + 1), nodes := d\<rparr>)"
    "ne_inv (s\<lparr>nodeCount := max (nodeCount s) (node + 1), nodes := d\<rparr>)"
    "\<And>n o'. n < nodeCount s \<Longrightarrow> node_off s o' \<Longrightarrow>
      mem32 (da_mem d) (n * nodeEntryBytes s + o') = node_int s n o'"
    "\<And>n o'. nodeCount s \<le> n \<Longrightarrow> n \<le> node \<Longrightarrow> o' = 0 \<or> withTurnCosts s \<and> o' = nTC s \<Longrightarrow>
      mem32 (da_mem d) (n * nodeEntryBytes s + o') = - 1"
proof (cases "node < nodeCount s")
  case True
  then have m: "s\<lparr>nodeCount := max (nodeCount s) (node + 1), nodes := nodes s\<rparr> = s" by simp
  show ?thesis
    by (rule that [of "nodes s", unfolded m]) (use True inv in \<open>auto simp: EnsureNodeCapacity_def node_int_def\<close>)
next
  case False
  let ?s = "s\<lparr>nodeCount := node + 1\<rparr>"
  have c: "0 \<le> nodeCount s" using inv by (simp add: ne_inv_def)
  have e: "0 \<le> (node + 1) * nodeEntryBytes s"
    using False c ne_offsets(11) [OF inv] by (intro mult_nonneg_nonneg) auto
  have "da_inv (nodes s)" using inv by (simp add: ne_inv_def)
  then obtain g d where d: "da_EnsureCapacity ((node + 1) * nodeEntryBytes s) (nodes s) = Some (g, d)"
    "da_mem d = da_mem (nodes s)" "da_Capacity (nodes s) \<le> da_Capacity d"
    "(node + 1) * nodeEntryBytes s \<le> da_Capacity d" "da_inv d" "da_supp d = da_supp (nodes s)"
    using da.ensure [OF _ e] by metis
  let ?t = "?s\<lparr>nodes := d\<rparr>"
  have t: "ne_inv ?t" using inv d node False c by (simp add: ne_inv_def)
  have k: "nodeCount s + int (nat (node + 1 - nodeCount s)) = nodeCount ?t" using False by simp
  obtain d' where d': "init_nodes (nat (node + 1 - nodeCount s)) (nodeCount s) ?t = Some (?t\<lparr>nodes := d'\<rparr>)"
    "ne_inv (?t\<lparr>nodes := d'\<rparr>)"
    "\<And>n' o'. node_off ?t o' \<Longrightarrow> node_int (?t\<lparr>nodes := d'\<rparr>) n' o' =
      (if nodeCount s \<le> n' \<and> n' < nodeCount ?t \<and> (o' = 0 \<or> withTurnCosts ?t \<and> o' = nTC ?t) then - 1
       else node_int ?t n' o')"
    using init_nodes_spec [OF t c k] by blast
  have m: "max (nodeCount s) (node + 1) = node + 1" using False by simp
  have o: "node_off ?t = node_off s" by (auto simp: node_off_def [abs_def])
  have at: "mem32 (da_mem d') (n * nodeEntryBytes s + o') =
      (if nodeCount s \<le> n \<and> n \<le> node \<and> (o' = 0 \<or> withTurnCosts s \<and> o' = nTC s) then - 1 else node_int s n o')"
    if "node_off s o'" for n o'
    using d'(3) [unfolded o, OF that, of n] d(2) by (auto simp: node_int_def split: if_splits)
  show ?thesis
    unfolding m
  proof (rule that [of d', unfolded m])
    show "EnsureNodeCapacity node s = Some (s\<lparr>nodeCount := node + 1, nodes := d'\<rparr>)"
      using False d(1) d'(1) by (simp add: EnsureNodeCapacity_def Let_def)
    show "ne_inv (s\<lparr>nodeCount := node + 1, nodes := d'\<rparr>)" using d'(2) by simp
    fix n o' :: int
    show "mem32 (da_mem d') (n * nodeEntryBytes s + o') = node_int s n o'"
      if "n < nodeCount s" "node_off s o'"
      using at [OF that(2), of n] that(1) by simp
    show "mem32 (da_mem d') (n * nodeEntryBytes s + o') = - 1"
      if "nodeCount s \<le> n" "n \<le> node" "o' = 0 \<or> withTurnCosts s \<and> o' = nTC s"
    proof -
      have "node_off s o'" using that(3) node_off_fields [OF inv] by auto
      then show ?thesis using at [of o' n] that by (simp split: if_splits)
    qed
  qed
qed

end
