(* ===== verification/NodeAccess.thy ===== *)
theory NodeAccess imports NodesEdges begin

text \<open>
  \<^verbatim>\<open>core/storage/node_access.go\<close>: coordinates and turn cost references of nodes by number, over
  the records of \<^verbatim>\<open>NodesEdges\<close>.
\<close>

definition EnsureNode :: "int \<Rightarrow> nodes_edges \<Rightarrow> nodes_edges option" where
  "EnsureNode nodeID s = EnsureNodeCapacity nodeID s"

definition SetNode :: "int \<Rightarrow> flt \<Rightarrow> flt \<Rightarrow> flt \<Rightarrow> nodes_edges \<Rightarrow> nodes_edges option" where
  "SetNode nodeID lat lon ele s = do {
     s \<leftarrow> EnsureNodeCapacity nodeID s;
     ptr \<leftarrow> ToNodePointer nodeID s;
     s \<leftarrow> SetLat ptr lat s;
     s \<leftarrow> SetLon ptr lon s;
     if withElevation s then do {
       s \<leftarrow> SetEle ptr ele s;
       b \<leftarrow> bbox_Update3D lat lon ele (Bounds s);
       Some (s\<lparr>Bounds := b\<rparr>) }
     else Some (s\<lparr>Bounds := bbox_Update lat lon (Bounds s)\<rparr>) }"

definition na_GetLat :: "int \<Rightarrow> nodes_edges \<Rightarrow> flt option" where
  "na_GetLat nodeID s = do { ptr \<leftarrow> ToNodePointer nodeID s; GetLat ptr s }"

definition na_GetLon :: "int \<Rightarrow> nodes_edges \<Rightarrow> flt option" where
  "na_GetLon nodeID s = do { ptr \<leftarrow> ToNodePointer nodeID s; GetLon ptr s }"

definition na_GetEle :: "int \<Rightarrow> nodes_edges \<Rightarrow> flt option" where
  "na_GetEle nodeID s = do {
     check (withElevation s);
     ptr \<leftarrow> ToNodePointer nodeID s;
     GetEle ptr s }"

definition SetTurnCostIndex :: "int \<Rightarrow> int \<Rightarrow> nodes_edges \<Rightarrow> nodes_edges option" where
  "SetTurnCostIndex nodeID tcIndex s = do {
     check (withTurnCosts s);
     s \<leftarrow> EnsureNodeCapacity nodeID s;
     ptr \<leftarrow> ToNodePointer nodeID s;
     SetTurnCostRef ptr tcIndex s }"

definition GetTurnCostIndex :: "int \<Rightarrow> nodes_edges \<Rightarrow> int option" where
  "GetTurnCostIndex nodeID s = do {
     check (withTurnCosts s);
     ptr \<leftarrow> ToNodePointer nodeID s;
     GetTurnCostRef ptr s }"

definition Dimension :: "nodes_edges \<Rightarrow> int" where
  "Dimension s = (if withElevation s then 3 else 2)"

section \<open>What the operations do to the fields\<close>

text \<open>
  The integer fields of all nodes and edges as functions, and the parts of the store that hold no
  fields.
\<close>

end
