(* ===== verification/AdjacencyLists.thy ===== *)
theory AdjacencyLists imports NodeAccess begin

text \<open>
  The linked lists of \<^verbatim>\<open>base_graph_nodes_and_edges.go\<close>: every node has a list of its edges, its
  links are stored in the edges. \<^verbatim>\<open>Edge\<close> puts the new edge in front of the lists of its two nodes.
\<close>

section \<open>The fields of the lists\<close>

definition end_a :: "nodes_edges \<Rightarrow> int \<Rightarrow> int" where "end_a s e = sint (edge_int s e 0)"
definition end_b :: "nodes_edges \<Rightarrow> int \<Rightarrow> int" where "end_b s e = sint (edge_int s e 4)"
definition next_a :: "nodes_edges \<Rightarrow> int \<Rightarrow> int" where "next_a s e = sint (edge_int s e 8)"
definition next_b :: "nodes_edges \<Rightarrow> int \<Rightarrow> int" where "next_b s e = sint (edge_int s e 12)"
definition first_edge :: "nodes_edges \<Rightarrow> int \<Rightarrow> int" where "first_edge s n = sint (node_int s n 0)"

lemmas list_fields = end_a_def end_b_def next_a_def next_b_def first_edge_def

definition valid_edge :: "nodes_edges \<Rightarrow> int \<Rightarrow> bool" where
  "valid_edge s e \<longleftrightarrow> 0 \<le> e \<and> e < edgeCount s"

definition valid_node :: "nodes_edges \<Rightarrow> int \<Rightarrow> bool" where
  "valid_node s n \<longleftrightarrow> 0 \<le> n \<and> n < nodeCount s"

definition next_of :: "nodes_edges \<Rightarrow> int \<Rightarrow> int \<Rightarrow> int" where
  "next_of s n e = (if end_a s e = n then next_a s e else next_b s e)"

lemma get_ends:
  assumes "ne_inv s" "valid_edge s e"
  shows "GetNodeA (e * edgeEntryBytes s) s = Some (end_a s e)"
    "GetNodeB (e * edgeEntryBytes s) s = Some (end_b s e)"
    "GetLinkA (e * edgeEntryBytes s) s = Some (next_a s e)"
    "GetLinkB (e * edgeEntryBytes s) s = Some (next_b s e)"
  using get_edge_field [OF assms(1), of e 0] get_edge_field [OF assms(1), of e 4]
    get_edge_field [OF assms(1), of e 8] get_edge_field [OF assms(1), of e 12]
    assms(2) ne_offsets [OF assms(1)]
  by (simp_all add: valid_edge_def list_fields GetNodeA_def GetNodeB_def GetLinkA_def GetLinkB_def)

lemma get_first:
  assumes "ne_inv s" "valid_node s n"
  shows "GetEdgeRef (n * nodeEntryBytes s) s = Some (first_edge s n)"
  using get_node_field [OF assms(1), of n 0] assms(2) ne_offsets [OF assms(1)]
  by (simp add: valid_node_def list_fields GetEdgeRef_def)

section \<open>Lists\<close>

fun chain :: "(int \<Rightarrow> int) \<Rightarrow> int \<Rightarrow> int list \<Rightarrow> bool" where
  "chain nx r [] \<longleftrightarrow> r = noEdge"
| "chain nx r (e # es) \<longleftrightarrow> r = e \<and> 0 \<le> e \<and> chain nx (nx e) es"

lemma chain_cong: "(\<And>e. e \<in> set es \<Longrightarrow> nx e = ny e) \<Longrightarrow> chain nx r es = chain ny r es"
  by (induction es arbitrary: r) auto

lemma chain_unique: "chain nx r xs \<Longrightarrow> chain nx r ys \<Longrightarrow> xs = ys"
proof (induction xs arbitrary: r ys)
  case Nil
  then show ?case by (cases ys) auto
next
  case (Cons x xs)
  then show ?case by (cases ys) auto
qed

lemma chain_first: "chain nx r es \<Longrightarrow> r = (case es of [] \<Rightarrow> noEdge | e # _ \<Rightarrow> e)"
  by (cases es) auto

text \<open>
  \<open>adj n\<close> is the list of the edges of \<open>n\<close>: following the links from the node gives exactly the edges
  that have this node, each of them once.
\<close>

definition graph_ok :: "nodes_edges \<Rightarrow> (int \<Rightarrow> int list) \<Rightarrow> bool" where
  "graph_ok s adj \<longleftrightarrow> ne_inv s \<and>
     (\<forall>e. valid_edge s e \<longrightarrow> valid_node s (end_a s e) \<and> valid_node s (end_b s e) \<and> end_a s e \<noteq> end_b s e) \<and>
     (\<forall>n. valid_node s n \<longrightarrow> chain (next_of s n) (first_edge s n) (adj n) \<and> distinct (adj n) \<and>
        set (adj n) = {e. valid_edge s e \<and> (end_a s e = n \<or> end_b s e = n)}) \<and>
     (\<forall>n. \<not> valid_node s n \<longrightarrow> adj n = [])"

lemma graph_okD:
  assumes "graph_ok s adj"
  shows "ne_inv s"
    "valid_edge s e \<Longrightarrow> valid_node s (end_a s e)" "valid_edge s e \<Longrightarrow> valid_node s (end_b s e)"
    "valid_edge s e \<Longrightarrow> end_a s e \<noteq> end_b s e"
    "valid_node s n \<Longrightarrow> chain (next_of s n) (first_edge s n) (adj n)"
    "distinct (adj n)"
    "valid_node s n \<Longrightarrow> set (adj n) = {e. valid_edge s e \<and> (end_a s e = n \<or> end_b s e = n)}"
    "\<not> valid_node s n \<Longrightarrow> adj n = []"
  using assms unfolding graph_ok_def by (blast, blast, blast, blast, blast, (cases "valid_node s n"; simp), blast, blast)

section \<open>Adding an edge\<close>

text \<open>The fields after \<open>Edge\<close>.\<close>

definition edge_added :: "nodes_edges \<Rightarrow> int \<Rightarrow> int \<Rightarrow> nodes_edges \<Rightarrow> bool" where
  "edge_added s a b s' \<longleftrightarrow> ne_inv s' \<and> edgeCount s' = edgeCount s + 1 \<and>
     bytesForFlags s' = bytesForFlags s \<and> withTurnCosts s' = withTurnCosts s \<and>
     withElevation s' = withElevation s \<and>
     nodeCount s' = max (nodeCount s) (max a b + 1) \<and>
     (\<forall>e. valid_edge s e \<longrightarrow> end_a s' e = end_a s e \<and> end_b s' e = end_b s e \<and>
        next_a s' e = next_a s e \<and> next_b s' e = next_b s e) \<and>
     (let i = edgeCount s; old = (\<lambda>n. if n < nodeCount s then first_edge s n else noEdge) in
        end_a s' i = a \<and> end_b s' i = b \<and>
        next_a s' i = (if old a \<ge> 0 then old a else noEdge) \<and> next_b s' i = (if old b \<ge> 0 then old b else noEdge) \<and>
        (\<forall>n. 0 \<le> n \<and> n < nodeCount s' \<longrightarrow> first_edge s' n = (if n = a \<or> n = b then i else old n)))"

lemma ne_Edge_fields:
  assumes inv: "ne_inv s" and a: "0 \<le> a" "a < 2 ^ 31" and b: "0 \<le> b" "b < 2 ^ 31" and ab: "a \<noteq> b"
    and room: "edgeCount s < MaxInt32"
  obtains s' where "ne_Edge a b s = Some (edgeCount s, s')" "edge_added s a b s'"
proof -
  note ret = that
  let ?i = "edgeCount s"
  have i: "0 \<le> ?i" "?i + 1 < 2 ^ 31" using inv room by (auto simp: ne_inv_def)
  have m: "max a b < 2 ^ 31" using a b by simp
  obtain d where d: "EnsureNodeCapacity (max a b) s =
      Some (s\<lparr>nodeCount := max (nodeCount s) (max a b + 1), nodes := d\<rparr>)"
    "ne_inv (s\<lparr>nodeCount := max (nodeCount s) (max a b + 1), nodes := d\<rparr>)"
    "\<And>n o'. n < nodeCount s \<Longrightarrow> node_off s o' \<Longrightarrow> mem32 (da_mem d) (n * nodeEntryBytes s + o') = node_int s n o'"
    "\<And>n o'. nodeCount s \<le> n \<Longrightarrow> n \<le> max a b \<Longrightarrow> o' = 0 \<or> withTurnCosts s \<and> o' = nTC s \<Longrightarrow>
      mem32 (da_mem d) (n * nodeEntryBytes s + o') = - 1"
    by (rule EnsureNodeCapacity_spec [OF inv m]) blast
  define s1 where "s1 = s\<lparr>nodeCount := max (nodeCount s) (max a b + 1), nodes := d\<rparr>"
  have s1: "ne_inv s1" "edge_int s1 = edge_int s" "edgeCount s1 = ?i" "edgeEntryBytes s1 = edgeEntryBytes s"
    "nodeEntryBytes s1 = nodeEntryBytes s" "nodeCount s1 = max (nodeCount s) (max a b + 1)"
    using d(2) by (simp_all add: s1_def edge_int_def [abs_def])
  define old where "old n = (if n < nodeCount s then first_edge s n else noEdge)" for n
  have first1: "first_edge s1 n = old n" if "n < nodeCount s1" for n
    using d(3) [of n 0] d(4) [of n 0] node_off_fields(1) [OF inv] that
    by (auto simp: first_edge_def old_def node_int_def s1_def)
  let ?E = "edgeEntryBytes s" and ?N = "nodeEntryBytes s"
  have "0 \<le> (?i + 1) * ?E" using i ne_offsets(12) [OF inv] by (intro mult_nonneg_nonneg) auto
  then obtain g d2 where d2: "da_EnsureCapacity ((?i + 1) * ?E) (edges s1) = Some (g, d2)"
    "da_mem d2 = da_mem (edges s1)" "da_Capacity (edges s1) \<le> da_Capacity d2"
    "(?i + 1) * ?E \<le> da_Capacity d2" "da_inv d2" "da_supp d2 = da_supp (edges s1)"
    using da.ensure [of "edges s1" "(?i + 1) * ?E"] s1(1) unfolding ne_inv_def by metis
  define s2 where "s2 = s1\<lparr>edgeCount := ?i + 1, edges := d2\<rparr>"
  have s2: "ne_inv s2" "edge_int s2 = edge_int s" "node_int s2 = node_int s1" "edgeCount s2 = ?i + 1"
    "edgeEntryBytes s2 = ?E" "nodeEntryBytes s2 = ?N" "nodeCount s2 = nodeCount s1"
    using s1 d2 i by (auto simp: s2_def edge_int_def [abs_def] node_int_def [abs_def] ne_inv_def)
  have O: "nEdgeRef s = 0" "eNodeA s = 0" "eNodeB s = 4" "eLinkA s = 8" "eLinkB s = 12" "29 \<le> ?E"
    using ne_offsets [OF inv] by auto
  have na: "valid_node s2 a" "valid_node s2 b" using a b s2(7) s1(6) by (auto simp: valid_node_def)
  obtain s3 where s3: "SetNodeA (?i * ?E) a s2 = Some s3" "edge_upd s2 ?i 0 (word_of_int a) s3"
    using edge_set_upd [OF s2(1), of ?i 0 "word_of_int a"] i s2(4,5) O ne_offsets [OF s2(1)]
    by (auto simp: SetNodeA_def)
  note f3 = edge_upd_frame [OF s3(2)]
  obtain s4 where s4: "SetNodeB (?i * ?E) b s3 = Some s4" "edge_upd s3 ?i 4 (word_of_int b) s4"
    using edge_set_upd [OF f3(1), of ?i 4 "word_of_int b"] i s2(4,5) f3(5,7) O ne_offsets [OF f3(1)]
    by (auto simp: SetNodeB_def)
  note f4 = edge_upd_frame [OF s4(2)]
  let ?pa = "old a" and ?pb = "old b"
  have ref4: "GetEdgeRef (a * ?N) s4 = Some ?pa"
    using get_first [OF f4(1), of a] na f3 f4 s2 s1 first1 by (simp add: valid_node_def first_edge_def)
  obtain s5 where s5: "SetLinkA (?i * ?E) (if ?pa \<ge> 0 then ?pa else noEdge) s4 = Some s5"
    "edge_upd s4 ?i 8 (word_of_int (if ?pa \<ge> 0 then ?pa else noEdge)) s5"
    using edge_set_upd [OF f4(1), of ?i 8 "word_of_int (if ?pa \<ge> 0 then ?pa else noEdge)"]
      i s2(4,5) f3(5,7) f4(5,7) O ne_offsets [OF f4(1)] by (auto simp: SetLinkA_def simp del: of_int_minus)
  note f5 = edge_upd_frame [OF s5(2)]
  have cnt5: "edgeCount s5 = ?i + 1" "edgeEntryBytes s5 = ?E" "nodeEntryBytes s5 = ?N" "nodeCount s5 = nodeCount s1"
    using f3 f4 f5 s2 by simp_all
  obtain s6 where s6: "SetEdgeRef (a * ?N) ?i s5 = Some s6" "node_upd s5 a 0 (word_of_int ?i) s6"
    using node_set_upd [OF f5(1), of a 0 "word_of_int ?i"] na node_off_fields(1) [OF f5(1)]
      ne_offsets [OF f5(1)] cnt5 s2(7) by (auto simp: SetEdgeRef_def valid_node_def)
  note f6 = node_upd_frame [OF s6(2)]
  note n6 = node_upd_at [OF s6(2) node_off_fields(1) [OF f5(1)]]
  have ref6: "GetEdgeRef (b * ?N) s6 = Some ?pb"
    using get_first [OF f6(1), of b] na n6 [of b] ab f6 cnt5 f3 f4 f5 s2 first1
    by (simp add: valid_node_def first_edge_def)
  obtain s7 where s7: "SetLinkB (?i * ?E) (if ?pb \<ge> 0 then ?pb else noEdge) s6 = Some s7"
    "edge_upd s6 ?i 12 (word_of_int (if ?pb \<ge> 0 then ?pb else noEdge)) s7"
    using edge_set_upd [OF f6(1), of ?i 12 "word_of_int (if ?pb \<ge> 0 then ?pb else noEdge)"]
      i cnt5 f6(5,7) O ne_offsets [OF f6(1)] by (auto simp: SetLinkB_def simp del: of_int_minus)
  note f7 = edge_upd_frame [OF s7(2)]
  have cnt7: "edgeCount s7 = ?i + 1" "edgeEntryBytes s7 = ?E" "nodeEntryBytes s7 = ?N" "nodeCount s7 = nodeCount s1"
    using f6 f7 cnt5 by simp_all
  obtain s8 where s8: "SetEdgeRef (b * ?N) ?i s7 = Some s8" "node_upd s7 b 0 (word_of_int ?i) s8"
    using node_set_upd [OF f7(1), of b 0 "word_of_int ?i"] na node_off_fields(1) [OF f7(1)]
      ne_offsets [OF f7(1)] cnt7 s2(7) by (auto simp: SetEdgeRef_def valid_node_def)
  note f8 = node_upd_frame [OF s8(2)]
  note n8 = node_upd_at [OF s8(2) node_off_fields(1) [OF f7(1)]]
  have "ne_Edge a b s = Some (?i, s8)"
    using room ab d(1) [folded s1_def] d2(1) s1(3,4) s2_def s3(1) s4(1) s5(1) s6(1) s7(1) s8(1) ref4 ref6
      na f3(4,6) f4(4,6) f6(4,6) cnt5 cnt7 s2(6)
    by (simp add: ne_Edge_def Let_def ToNodePointer_def valid_node_def)
  moreover have "edge_added s a b s8"
  proof -
    have E: "edge_int s8 e off = (if e = ?i \<and> off = 12 then word_of_int (if ?pb \<ge> 0 then ?pb else noEdge)
      else if e = ?i \<and> off = 8 then word_of_int (if ?pa \<ge> 0 then ?pa else noEdge)
      else if e = ?i \<and> off = 4 then word_of_int b else if e = ?i \<and> off = 0 then word_of_int a
      else edge_int s e off)" if "off \<in> {0, 4, 8, 12}" for e off
    proof -
      have r: "0 \<le> off" "off + 4 \<le> ?E" using that O(6) by auto
      have ap: "off = k \<or> off + 4 \<le> k \<or> k + 4 \<le> off" if "k \<in> {0, 4, 8, 12}" for k
        using that \<open>off \<in> {0, 4, 8, 12}\<close> by auto
      have "edge_int s8 e off = edge_int s7 e off" using f8(3) by simp
      also have "\<dots> = (if e = ?i \<and> off = 12 then word_of_int (if ?pb \<ge> 0 then ?pb else noEdge) else edge_int s6 e off)"
        using r ap [of 12] cnt5 f6(7) by (intro edge_upd_at [OF s7(2)]) simp_all
      also have "edge_int s6 e off = edge_int s5 e off" using f6(3) by simp
      also have "\<dots> = (if e = ?i \<and> off = 8 then word_of_int (if ?pa \<ge> 0 then ?pa else noEdge) else edge_int s4 e off)"
        using r ap [of 8] s2(5) f3(7) f4(7) by (intro edge_upd_at [OF s5(2)]) simp_all
      also have "edge_int s4 e off = (if e = ?i \<and> off = 4 then word_of_int b else edge_int s3 e off)"
        using r ap [of 4] s2(5) f3(7) by (intro edge_upd_at [OF s4(2)]) simp_all
      also have "edge_int s3 e off = (if e = ?i \<and> off = 0 then word_of_int a else edge_int s2 e off)"
        using r ap [of 0] s2(5) by (intro edge_upd_at [OF s3(2)]) simp_all
      finally show ?thesis using s2(2) by simp
    qed
    have bnd: "- (2 ^ 31) \<le> old n" "old n < 2 ^ 31" for n
      using sint_i32_bounds [of "node_int s n 0"] by (auto simp: old_def first_edge_def)
    have F: "first_edge s8 n = (if n = a \<or> n = b then ?i else old n)" if "n < nodeCount s1" for n
      using n8 [of n] n6 [of n] first1 [OF that] f7(3) f5(3) f4(3) f3(3) s2(3) i
      by (auto simp: first_edge_def)
    have w: "sint (word_of_int (if old n \<ge> 0 then old n else noEdge) :: i32) = (if old n \<ge> 0 then old n else noEdge)" for n
      by (rule sint32_of_int) (use bnd [of n] in auto)
    have "end_a s8 e = end_a s e \<and> end_b s8 e = end_b s e \<and> next_a s8 e = next_a s e \<and> next_b s8 e = next_b s e"
      if "valid_edge s e" for e
      using E [of 0 e] E [of 4 e] E [of 8 e] E [of 12 e] that by (simp add: list_fields valid_edge_def)
    moreover have "end_a s8 ?i = a" "end_b s8 ?i = b"
      using E [of 0 ?i] E [of 4 ?i] a b by (simp_all add: list_fields)
    moreover have "next_a s8 ?i = (if ?pa \<ge> 0 then ?pa else noEdge)" "next_b s8 ?i = (if ?pb \<ge> 0 then ?pb else noEdge)"
      using E [of 8 ?i] E [of 12 ?i] w by (simp_all only: list_fields) simp_all
    moreover have "nodeCount s8 = nodeCount s1" "edgeCount s8 = ?i + 1" "ne_inv s8" using f8 cnt7 by simp_all
    moreover have "bytesForFlags s8 = bytesForFlags s" "withTurnCosts s8 = withTurnCosts s"
      "withElevation s8 = withElevation s"
      using f8(8,9,13) f7(8,9,13) f6(8,9,13) f5(8,9,13) f4(8,9,13) f3(8,9,13) by (simp_all add: s2_def s1_def)
    ultimately show ?thesis
      unfolding edge_added_def Let_def old_def [symmetric] using F s1(6) by simp
  qed
  ultimately show ?thesis by (rule ret)
qed

text \<open>The lists after \<open>Edge\<close>.\<close>

lemma graph_ok_add:
  assumes G: "graph_ok s adj" and S: "edge_added s a b s'" and a: "0 \<le> a" and b: "0 \<le> b" and ab: "a \<noteq> b"
  shows "graph_ok s' (adj(a := edgeCount s # adj a, b := edgeCount s # adj b))"
proof -
  let ?i = "edgeCount s"
  define old where "old n = (if n < nodeCount s then first_edge s n else noEdge)" for n
  note g = graph_okD [OF G]
  have i: "0 \<le> ?i" using g(1) by (simp add: ne_inv_def)
  have s': "ne_inv s'" "edgeCount s' = ?i + 1" "nodeCount s' = max (nodeCount s) (max a b + 1)"
    "\<And>e. valid_edge s e \<Longrightarrow> end_a s' e = end_a s e" "\<And>e. valid_edge s e \<Longrightarrow> end_b s' e = end_b s e"
    "\<And>e. valid_edge s e \<Longrightarrow> next_a s' e = next_a s e" "\<And>e. valid_edge s e \<Longrightarrow> next_b s' e = next_b s e"
    "end_a s' ?i = a" "end_b s' ?i = b" "next_a s' ?i = (if old a \<ge> 0 then old a else noEdge)"
    "next_b s' ?i = (if old b \<ge> 0 then old b else noEdge)"
    "\<And>n. 0 \<le> n \<Longrightarrow> n < nodeCount s' \<Longrightarrow> first_edge s' n = (if n = a \<or> n = b then ?i else old n)"
    using S unfolding edge_added_def Let_def old_def [symmetric] by blast+
  have nodes: "valid_node s n \<Longrightarrow> valid_node s' n" "valid_node s' a" "valid_node s' b" for n
    using s'(3) a b by (auto simp: valid_node_def)
  have edges: "valid_edge s' e \<longleftrightarrow> valid_edge s e \<or> e = ?i" for e
    using s'(2) i by (auto simp: valid_edge_def)
  have new: "\<not> valid_edge s ?i" by (simp add: valid_edge_def)
  have sub: "e \<in> set (adj n) \<Longrightarrow> valid_edge s e" for e n
    using g(7,8) [of n] by (cases "valid_node s n") auto
  have next_old: "next_of s' n e = next_of s n e" if "e \<in> set (adj n)" for n e
    using s'(4,6,7) sub [OF that] by (simp add: next_of_def)
  have oldc: "chain (next_of s' n) (old n) (adj n)" "old n = - 1 \<or> 0 \<le> old n" if n: "0 \<le> n" for n
  proof -
    have "chain (next_of s n) (old n) (adj n)"
      using g(5,8) [of n] n by (cases "valid_node s n") (auto simp: old_def valid_node_def)
    then show "chain (next_of s' n) (old n) (adj n)" "old n = - 1 \<or> 0 \<le> old n"
      using chain_cong [of "adj n" "next_of s' n" "next_of s n" "old n"] next_old by (simp, cases "adj n") auto
  qed
  have nexta: "next_of s' a ?i = old a" "next_of s' b ?i = old b"
    using s'(8-11) oldc(2) [OF a] oldc(2) [OF b] ab by (auto simp: next_of_def)
  let ?adj = "adj(a := ?i # adj a, b := ?i # adj b)"
  have chain': "chain (next_of s' n) (first_edge s' n) (?adj n)" if "valid_node s' n" for n
    using that s'(12) [of n] oldc [of n] nexta i by (auto simp: valid_node_def)
  have dist: "distinct (?adj n)" for n using g(6) sub new by auto
  have inc: "set (?adj n) = {e. valid_edge s' e \<and> (end_a s' e = n \<or> end_b s' e = n)}" if n: "valid_node s' n" for n
  proof -
    have "set (adj n) = {e. valid_edge s e \<and> (end_a s e = n \<or> end_b s e = n)}"
      using g(7,8) [of n] g(2,3) by (cases "valid_node s n") auto
    moreover have "{e. valid_edge s' e \<and> (end_a s' e = n \<or> end_b s' e = n)} =
        {e. valid_edge s e \<and> (end_a s e = n \<or> end_b s e = n)} \<union> (if n = a \<or> n = b then {?i} else {})"
      using edges s'(4,5,8,9) new by auto
    ultimately show ?thesis by (auto split: if_splits)
  qed
  have ends: "valid_node s' (end_a s' e) \<and> valid_node s' (end_b s' e) \<and> end_a s' e \<noteq> end_b s' e"
    if "valid_edge s' e" for e
    using that edges s'(4,5,8,9) g(2-4) nodes ab by auto
  have out: "?adj n = []" if "\<not> valid_node s' n" for n
    using that nodes g(8) by (auto simp: fun_upd_def)
  show ?thesis unfolding graph_ok_def using s'(1) ends chain' dist inc out by blast
qed

section \<open>A new store\<close>

text \<open>
  In a directory of an in-memory type the nodes are kept in integers and the edges in bytes.
\<close>

lemma new_nodes_edges_inv:
  assumes "da_inv nd" "da_inv ed" "\<forall>p. p mod 4 = 0 \<longrightarrow> da_supp nd 4 p" "\<forall>w p. da_supp ed w p" "0 \<le> flagBytes"
    "0 \<le> da_Capacity nd" "0 \<le> da_Capacity ed"
  shows "ne_inv (new_nodes_edges nd ed elev tc flagBytes)"
  using assms by (auto simp: ne_inv_def ne_layout_def new_nodes_edges_def initNodeLayout_def
      initEdgeLayout_def Let_def)

lemma new_store:
  assumes dir: "memory_directory matches dir" "das_names dir = []" and args: "segmentSize \<noteq> 0" "0 \<le> flagBytes"
  obtains s0 dir' s where
    "NewBaseGraphNodesAndEdges matches elev tc segmentSize flagBytes dir = Some (s0, dir')"
    "ne_Create initSize s0 = Some s" "graph_ok s (\<lambda>_. [])" "edgeCount s = 0" "nodeCount s = 0"
    "withElevation s = elev" "withTurnCosts s = tc" "bytesForFlags s = flagBytes"
    "Bounds s = CreateInverse elev" "frozen s = False"
proof -
  note ret = that
  let ?nt = "DefaultTypeFor matches dir ''nodes'' True"
  let ?d1 = "dir\<lparr>das_names := [''nodes'']\<rparr>"
  have dt: "DefaultTypeFor matches ?d1 ''edges'' False = DefaultTypeFor matches dir ''edges'' False"
    by (simp add: DefaultTypeFor_def getDefault_def split: option.split)
  have types: "IsInMemory ?nt" "IsInMemory (DefaultTypeFor matches dir ''edges'' False)"
    "\<not> Integ (DefaultTypeFor matches dir ''edges'' False)" "Integ ?nt"
    using dir(1) by (auto simp: memory_directory_def DefaultTypeFor_def Let_def IsInMemory_def
        DATypeRAMIntStore_def DATypeRAMInt_def)
  have loc: "dir_location dir = [] \<or> last (dir_location dir) = CHR ''/''"
    using dir(1) by (simp add: memory_directory_def)
  have names: "\<not> list_ex is_upper ''nodes''" "''nodes'' \<notin> set (das_names dir)"
    "\<not> list_ex is_upper ''edges''" "''edges'' \<notin> set (das_names ?d1)"
    by (simp_all add: is_upper_def dir(2))
  have loc1: "dir_location ?d1 = [] \<or> last (dir_location ?d1) = CHR ''/''" using loc by simp
  obtain nd where nd: "CreateFull ''nodes'' ?nt segmentSize dir = Some (nd, ?d1)" "da_inv nd" "da_Capacity nd = 0"
    "\<And>w p. da_supp nd w p \<longleftrightarrow> (Integ ?nt \<longrightarrow> w = 4 \<and> p mod 4 = 0 \<or> w = 2 \<and> p mod 2 = 0)"
    by (rule CreateFull_ok [OF names(1,2) types(1) args(1) loc]) (unfold dir(2), blast)
  obtain ed where ed: "CreateFull ''edges'' (DefaultTypeFor matches dir ''edges'' False) segmentSize ?d1 =
      Some (ed, ?d1\<lparr>das_names := [''edges'', ''nodes'']\<rparr>)" "da_inv ed" "da_Capacity ed = 0"
    "\<And>w p. da_supp ed w p"
    by (rule CreateFull_ok [OF names(3,4) types(2) args(1) loc1]) (use types(3) in auto)
  obtain nd' where nd': "da_Create initSize nd = Some nd'" "da_inv nd'" "da_mem nd' = da_mem nd"
    "da_supp nd' = da_supp nd" "max 40 initSize \<le> da_Capacity nd'"
    by (rule da_Create_ok [OF nd(2,3)])
  obtain ed' where ed': "da_Create initSize ed = Some ed'" "da_inv ed'" "da_mem ed' = da_mem ed"
    "da_supp ed' = da_supp ed" "max 40 initSize \<le> da_Capacity ed'"
    by (rule da_Create_ok [OF ed(2,3)])
  let ?fresh = "new_nodes_edges nd ed elev tc flagBytes" and ?s = "new_nodes_edges nd' ed' elev tc flagBytes"
  have "ne_inv ?s" using nd nd' ed ed' args(2) by (intro new_nodes_edges_inv) auto
  moreover have sel: "edgeCount ?s = 0" "nodeCount ?s = 0" "withElevation ?s = elev" "withTurnCosts ?s = tc"
    "bytesForFlags ?s = flagBytes" "Bounds ?s = CreateInverse elev" "frozen ?s = False"
    by (simp_all add: new_nodes_edges_def initNodeLayout_def initEdgeLayout_def Let_def)
  ultimately have ok: "graph_ok ?s (\<lambda>_. [])" by (auto simp: graph_ok_def valid_edge_def valid_node_def)
  show ?thesis
  proof (rule ret)
    show "NewBaseGraphNodesAndEdges matches elev tc segmentSize flagBytes dir =
        Some (?fresh, ?d1\<lparr>das_names := [''edges'', ''nodes'']\<rparr>)"
      using nd(1) ed(1) dt by (simp add: NewBaseGraphNodesAndEdges_def)
    show "ne_Create initSize ?fresh = Some ?s"
      using nd'(1) ed'(1) by (simp add: ne_Create_def new_nodes_edges_def initNodeLayout_def initEdgeLayout_def Let_def)
  qed (use ok sel in auto)
qed

section \<open>Building a graph\<close>

text \<open>A sequence of calls of \<open>Edge\<close>, and the lists they build: the newest edge of a node comes first.\<close>

fun add_edges :: "(int \<times> int) list \<Rightarrow> nodes_edges \<Rightarrow> nodes_edges option" where
  "add_edges [] s = Some s"
| "add_edges ((a, b) # es) s = do { (i, s) \<leftarrow> ne_Edge a b s; add_edges es s }"

fun lists_after :: "int \<Rightarrow> (int \<times> int) list \<Rightarrow> (int \<Rightarrow> int list) \<Rightarrow> (int \<Rightarrow> int list)" where
  "lists_after i [] adj = adj"
| "lists_after i ((a, b) # es) adj = lists_after (i + 1) es (adj(a := i # adj a, b := i # adj b))"

lemma add_edges_ok:
  assumes "graph_ok s adj" "edgeCount s + int (length es) \<le> MaxInt32"
    "\<forall>(a, b) \<in> set es. 0 \<le> a \<and> a < 2 ^ 31 \<and> 0 \<le> b \<and> b < 2 ^ 31 \<and> a \<noteq> b"
  shows "\<exists>s'. add_edges es s = Some s' \<and> graph_ok s' (lists_after (edgeCount s) es adj) \<and>
    edgeCount s' = edgeCount s + int (length es) \<and> bytesForFlags s' = bytesForFlags s"
  using assms
proof (induction es arbitrary: s adj)
  case (Cons e es)
  obtain a b where e: "e = (a, b)" by (cases e)
  have ab: "0 \<le> a" "a < 2 ^ 31" "0 \<le> b" "b < 2 ^ 31" "a \<noteq> b" using Cons.prems(3) e by auto
  obtain s1 where s1: "ne_Edge a b s = Some (edgeCount s, s1)" "edge_added s a b s1"
    using ne_Edge_fields [OF graph_okD(1) [OF Cons.prems(1)] ab] Cons.prems(2) by auto
  have c: "edgeCount s1 = edgeCount s + 1" and fb: "bytesForFlags s1 = bytesForFlags s"
    using s1(2) by (simp_all add: edge_added_def)
  have "graph_ok s1 (adj(a := edgeCount s # adj a, b := edgeCount s # adj b))"
    by (rule graph_ok_add [OF Cons.prems(1) s1(2) ab(1,3,5)])
  moreover have "edgeCount s1 + int (length es) \<le> MaxInt32" using Cons.prems(2) c by simp
  moreover have "\<forall>(a, b) \<in> set es. 0 \<le> a \<and> a < 2 ^ 31 \<and> 0 \<le> b \<and> b < 2 ^ 31 \<and> a \<noteq> b"
    using Cons.prems(3) by simp
  ultimately have "\<exists>s'. add_edges es s1 = Some s' \<and>
      graph_ok s' (lists_after (edgeCount s1) es (adj(a := edgeCount s # adj a, b := edgeCount s # adj b))) \<and>
      edgeCount s' = edgeCount s1 + int (length es) \<and> bytesForFlags s' = bytesForFlags s1"
    by (rule Cons.IH)
  then obtain s' where "add_edges es s1 = Some s'"
    "graph_ok s' (lists_after (edgeCount s + 1) es (adj(a := edgeCount s # adj a, b := edgeCount s # adj b)))"
    "edgeCount s' = edgeCount s1 + int (length es)" "bytesForFlags s' = bytesForFlags s1"
    unfolding c by blast
  then show ?case using s1(1) c fb e by (intro exI [of _ s']) simp
qed auto

section \<open>Properties\<close>

text \<open>A store in memory with room for two bytes of flags, on which the properties are tried out.\<close>

definition sample_store :: nodes_edges where
  "sample_store = the (do {
     (s, dir) \<leftarrow> NewBaseGraphNodesAndEdges (\<lambda>_ _. False) False True 128 7 (NewRAMDirectory ''w'' ''g'' False);
     ne_Create 100 s })"

lemma sample_store_ok:
  "graph_ok sample_store (\<lambda>_. [])" "edgeCount sample_store = 0" "nodeCount sample_store = 0"
  "bytesForFlags sample_store = 7" "withElevation sample_store = False" "withTurnCosts sample_store = True"
proof -
  have dir: "memory_directory (\<lambda>_ _. False) (NewRAMDirectory ''w'' ''g'' False)"
    "das_names (NewRAMDirectory ''w'' ''g'' False) = []"
    by (rule NewRAMDirectory_memory) (simp add: NewRAMDirectory_def NewGHDirectory_def Let_def)
  obtain s0 dir' s where s:
    "NewBaseGraphNodesAndEdges (\<lambda>_ _. False) False True 128 7 (NewRAMDirectory ''w'' ''g'' False) = Some (s0, dir')"
    "ne_Create 100 s0 = Some s" "graph_ok s (\<lambda>_. [])" "edgeCount s = 0" "nodeCount s = 0"
    "withElevation s = False" "withTurnCosts s = True" "bytesForFlags s = 7"
    by (rule new_store [OF dir, of 128 7 False True 100]) auto
  have "sample_store = s" using s(1,2) by (simp add: sample_store_def)
  then show "graph_ok sample_store (\<lambda>_. [])" "edgeCount sample_store = 0" "nodeCount sample_store = 0"
    "bytesForFlags sample_store = 7" "withElevation sample_store = False" "withTurnCosts sample_store = True"
    using s by simp_all
qed

text \<open>
  C6. \<open>Edge(a, b)\<close> on a graph whose node lists are well formed returns the next edge number and keeps the
  lists well formed: the new edge comes first in the lists of both nodes (which are created when they
  do not exist), all other lists and the ends of all other edges stay as they are.
\<close>

theorem Edge_prepends:
  assumes "graph_ok s adj" "0 \<le> a" "a < 2 ^ 31" "0 \<le> b" "b < 2 ^ 31" "a \<noteq> b" "edgeCount s < 2 ^ 31 - 1"
  shows "\<exists>s'. ne_Edge a b s = Some (edgeCount s, s') \<and>
    graph_ok s' (adj(a := edgeCount s # adj a, b := edgeCount s # adj b)) \<and>
    edgeCount s' = edgeCount s + 1 \<and> nodeCount s' = max (nodeCount s) (max a b + 1) \<and>
    end_a s' (edgeCount s) = a \<and> end_b s' (edgeCount s) = b \<and>
    (\<forall>e. valid_edge s e \<longrightarrow> end_a s' e = end_a s e \<and> end_b s' e = end_b s e)"
proof -
  obtain s' where "ne_Edge a b s = Some (edgeCount s, s')" "edge_added s a b s'"
    using ne_Edge_fields [OF graph_okD(1) [OF assms(1)] assms(2-6)] assms(7) by auto
  then show ?thesis
    using graph_ok_add [OF assms(1) _ assms(2,4,6)] by (auto simp: edge_added_def Let_def)
qed

theorem Edge_prepends_witness:
  "\<exists>s'. ne_Edge 2 0 sample_store = Some (0, s') \<and> graph_ok s' ((\<lambda>_. [])(2 := [0], 0 := [0]))"
  using Edge_prepends [OF sample_store_ok(1), of 2 0] sample_store_ok(2) by auto

end
