(* ===== verification/EdgeFlags.thy ===== *)
theory EdgeFlags imports AdjacencyLists begin

text \<open>
  The flags of an edge in \<^verbatim>\<open>base_graph_nodes_and_edges.go\<close> are a client of the data access and the
  provider of the integers that encoded values use: the last integer of an edge has as many bytes as
  are left.
\<close>

section \<open>The integers of the flags\<close>

definition flag_bytes :: "nodes_edges \<Rightarrow> int \<Rightarrow> int" where
  "flag_bytes s i = min 4 (bytesForFlags s - 4 * i)"

definition flag_pos :: "nodes_edges \<Rightarrow> int \<Rightarrow> int \<Rightarrow> int" where
  "flag_pos s e i = e * edgeEntryBytes s + 24 + 4 * i"

definition flag_val :: "memory \<Rightarrow> int \<Rightarrow> int \<Rightarrow> i32" where
  "flag_val m p n =
     (if n = 3 then (push_bit 8 (scast (mem16 m p)) AND 0xFFFFFF) OR (ucast (m (p + 2)) AND 0xFF)
      else if n = 2 then scast (mem16 m p) AND 0xFFFF
      else if n = 1 then ucast (m p) AND 0xFF
      else mem32 m p)"

definition flag_ok :: "nodes_edges \<Rightarrow> int \<Rightarrow> int \<Rightarrow> bool" where
  "flag_ok s e i \<longleftrightarrow> ne_inv s \<and> valid_edge s e \<and> 0 \<le> i \<and> 4 * i < bytesForFlags s"

lemma flag_okD:
  assumes "flag_ok s e i"
  shows "ne_inv s" "0 \<le> e" "e < edgeCount s" "0 \<le> i" "1 \<le> flag_bytes s i" "flag_bytes s i \<le> 4"
    "eFlags s = 24" "24 + 4 * i + flag_bytes s i \<le> edgeEntryBytes s" "4 * i < bytesForFlags s"
    "flag_bytes s i = 1 \<or> flag_bytes s i = 2 \<or> flag_bytes s i = 3 \<or> flag_bytes s i = 4"
  using assms by (auto simp: flag_ok_def valid_edge_def flag_bytes_def ne_inv_def ne_layout_def)

lemma flag_acc:
  assumes "flag_ok s e i" "0 \<le> k" "k + int w \<le> flag_bytes s i"
  shows "da.acc (edges s) w (flag_pos s e i + k)"
proof -
  note F = flag_okD [OF assms(1)]
  have "da.acc (edges s) w (e * edgeEntryBytes s + (24 + 4 * i + k))"
    by (rule edge_acc [OF F(1-3)]) (use F assms in auto)
  then show ?thesis by (simp add: flag_pos_def algebra_simps)
qed

lemma getFlagInt_val:
  assumes "flag_ok s e i"
  shows "getFlagInt (e * edgeEntryBytes s) (i * 4) s =
    Some (flag_val (da_mem (edges s)) (flag_pos s e i) (flag_bytes s i))"
proof -
  note F = flag_okD [OF assms] and A = flag_acc [OF assms]
  have p: "e * edgeEntryBytes s + i * 4 + eFlags s = flag_pos s e i" using F(7) by (simp add: flag_pos_def)
  have r: "bytesForFlags s - i * 4 = flag_bytes s i \<or> flag_bytes s i = 4 \<and> 4 \<le> bytesForFlags s - i * 4"
    by (auto simp: flag_bytes_def min_def)
  have g: "\<not> i * 4 \<ge> bytesForFlags s" using F(9) by simp
  from F(10) show ?thesis
  proof (elim disjE)
    assume n: "flag_bytes s i = 1"
    then have "bytesForFlags s - i * 4 = 1" using r by auto
    then show ?thesis using da.get_byte [OF A [of 0 1]] g p n by (simp add: getFlagInt_def flag_val_def Let_def)
  next
    assume n: "flag_bytes s i = 2"
    then have "bytesForFlags s - i * 4 = 2" using r by auto
    then show ?thesis using da.get_short [OF A [of 0 2]] g p n by (simp add: getFlagInt_def flag_val_def Let_def)
  next
    assume n: "flag_bytes s i = 3"
    then have "bytesForFlags s - i * 4 = 3" using r by auto
    then show ?thesis using da.get_short [OF A [of 0 2]] da.get_byte [OF A [of 2 1]] g p n
      by (simp add: getFlagInt_def flag_val_def Let_def)
  next
    assume n: "flag_bytes s i = 4"
    then have "4 \<le> bytesForFlags s - i * 4" using r by auto
    then show ?thesis using da.get_int [OF A [of 0 4]] g p n
      by (auto simp: getFlagInt_def flag_val_def Let_def)
  qed
qed

lemma flag_val_cong:
  assumes "\<And>q. p \<le> q \<Longrightarrow> q < p + n \<Longrightarrow> m q = m' q" "n = 1 \<or> n = 2 \<or> n = 3 \<or> n = 4"
  shows "flag_val m p n = flag_val m' p n"
  using assms(2)
proof (elim disjE)
  assume n: "n = 1"
  then have "m p = m' p" using assms(1) by simp
  then show ?thesis using n by (simp add: flag_val_def)
next
  assume n: "n = 2"
  then have "m p = m' p" "m (p + 1) = m' (p + 1)" using assms(1) by simp_all
  then show ?thesis using n by (simp add: flag_val_def mem16_def)
next
  assume n: "n = 3"
  then have "m p = m' p" "m (p + 1) = m' (p + 1)" "m (p + 2) = m' (p + 2)" using assms(1) by simp_all
  then show ?thesis using n by (simp add: flag_val_def mem16_def)
next
  assume n: "n = 4"
  then have "m p = m' p" "m (p + 1) = m' (p + 1)" "m (p + 2) = m' (p + 2)" "m (p + 3) = m' (p + 3)"
    using assms(1) by simp_all
  then show ?thesis using n by (simp add: flag_val_def mem32_def)
qed

lemma flag_words:
  fixes v :: i32
  shows "(push_bit 8 (scast (ucast (signed_drop_bit 8 v) :: i16)) AND 0xFFFFFF) OR
      (ucast (ucast v :: byte) AND 0xFF) = take_bit 24 v" (is ?three)
    and "scast (ucast v :: i16) AND 0xFFFF = take_bit 16 v" (is ?two)
    and "ucast (ucast v :: byte) AND 0xFF = take_bit 8 v" (is ?one)
proof -
  have m: "(0xFFFFFF :: i32) = mask 24" "(0xFFFF :: i32) = mask 16" "(0xFF :: i32) = mask 8"
    by (simp_all add: mask_eq_exp_minus_1)
  show ?three unfolding m by (rule bit_word_eqI) (auto simp: bit_simps)
  show ?two unfolding m by (rule bit_word_eqI) (auto simp: bit_simps)
  show ?one unfolding m by (rule bit_word_eqI) (auto simp: bit_simps)
qed

lemma setFlagInt_mem:
  assumes ok: "flag_ok s e i"
  obtains d where "setFlagInt (e * edgeEntryBytes s) (i * 4) v s = Some (s\<lparr>edges := d\<rparr>)"
    "ne_inv (s\<lparr>edges := d\<rparr>)"
    "\<And>q. q < flag_pos s e i \<or> flag_pos s e i + flag_bytes s i \<le> q \<Longrightarrow> da_mem d q = da_mem (edges s) q"
    "flag_val (da_mem d) (flag_pos s e i) (flag_bytes s i) = take_bit (nat (8 * flag_bytes s i)) v"
proof -
  note ret = that
  note F = flag_okD [OF ok] and A = flag_acc [OF ok]
  let ?p = "flag_pos s e i"
  have p: "e * edgeEntryBytes s + i * 4 + eFlags s = ?p" using F(7) by (simp add: flag_pos_def)
  have r: "bytesForFlags s - i * 4 = flag_bytes s i \<or> flag_bytes s i = 4 \<and> 4 \<le> bytesForFlags s - i * 4"
    by (auto simp: flag_bytes_def min_def)
  have g: "\<not> i * 4 \<ge> bytesForFlags s" using F(9) by simp
  have inv: "ne_inv (s\<lparr>edges := d\<rparr>)"
    if "da_inv d" "da_Capacity d = da_Capacity (edges s)" "da_supp d = da_supp (edges s)" for d
    using F(1) that by (simp add: ne_inv_def)
  from F(10) show ?thesis
  proof (elim disjE)
    assume n: "flag_bytes s i = 1"
    then have rem: "bytesForFlags s - i * 4 = 1" using r by auto
    have a0: "da.acc (edges s) 1 (?p + 0)" by (rule A) (simp_all add: n)
    obtain d where d: "da_SetByte (?p + 0) (ucast v) (edges s) = Some d"
      "da_mem d = upd (da_mem (edges s)) (?p + 0) [ucast v]" "da_Capacity d = da_Capacity (edges s)"
      "da_inv d" "da_supp d = da_supp (edges s)"
      by (rule da.set_byte [OF a0])
    show ?thesis
      by (rule ret [of d]) (use d rem g p n inv [OF d(4,3,5)] flag_words(3) [of v] in
          \<open>auto simp: setFlagInt_def Let_def upd_def flag_val_def\<close>)
  next
    assume n: "flag_bytes s i = 2"
    then have rem: "bytesForFlags s - i * 4 = 2" using r by auto
    have a0: "da.acc (edges s) 2 (?p + 0)" by (rule A) (simp_all add: n)
    obtain d where d: "da_SetShort (?p + 0) (ucast v) (edges s) = Some d"
      "da_mem d = upd (da_mem (edges s)) (?p + 0) (bytes16 (ucast v))" "da_Capacity d = da_Capacity (edges s)"
      "da_inv d" "da_supp d = da_supp (edges s)"
      by (rule da.set_short [OF a0])
    show ?thesis
      by (rule ret [of d]) (use d rem g p n inv [OF d(4,3,5)] flag_words(2) [of v] in
          \<open>auto simp: setFlagInt_def Let_def flag_val_def upd_frame\<close>)
  next
    assume n: "flag_bytes s i = 3"
    then have rem: "bytesForFlags s - i * 4 = 3" using r by auto
    have a0: "da.acc (edges s) 2 (?p + 0)" by (rule A) (simp_all add: n)
    let ?h = "ucast (signed_drop_bit 8 v) :: i16"
    obtain d1 where d1: "da_SetShort (?p + 0) ?h (edges s) = Some d1"
      "da_mem d1 = upd (da_mem (edges s)) (?p + 0) (bytes16 ?h)" "da.acc d1 = da.acc (edges s)"
      "da_Capacity d1 = da_Capacity (edges s)" "da_inv d1" "da_supp d1 = da_supp (edges s)"
      by (rule da.set_short [OF a0])
    have "da.acc d1 1 (?p + 2)" unfolding d1(3) by (rule A) (simp_all add: n)
    then obtain d where d: "da_SetByte (?p + 2) (ucast v) d1 = Some d"
      "da_mem d = upd (da_mem d1) (?p + 2) [ucast v]" "da_Capacity d = da_Capacity d1"
      "da_inv d" "da_supp d = da_supp d1"
      by (rule da.set_byte)
    have mm: "mem16 (da_mem d) ?p = ?h" "da_mem d (?p + 2) = ucast v"
      unfolding d(2) d1(2) by (simp add: mem16_frame, simp add: upd_def)
    show ?thesis
      by (rule ret [of d]) (use d d1 mm rem g p n inv [of d] flag_words(1) [of v] in
          \<open>auto simp: setFlagInt_def Let_def flag_val_def upd_frame\<close>)
  next
    assume n: "flag_bytes s i = 4"
    then have rem: "4 \<le> bytesForFlags s - i * 4" using r by auto
    have a0: "da.acc (edges s) 4 (?p + 0)" by (rule A) (simp_all add: n)
    obtain d where d: "da_SetInt (?p + 0) v (edges s) = Some d"
      "da_mem d = upd (da_mem (edges s)) (?p + 0) (bytes32 v)" "da_Capacity d = da_Capacity (edges s)"
      "da_inv d" "da_supp d = da_supp (edges s)"
      by (rule da.set_int [OF a0])
    show ?thesis
      by (rule ret [of d]) (use d rem g p n inv [OF d(4,3,5)] in
          \<open>auto simp: setFlagInt_def Let_def flag_val_def upd_frame take_bit_word_eq_self\<close>)
  qed
qed

section \<open>The access to the integers of an edge\<close>

definition flag_width :: "nodes_edges \<Rightarrow> int \<Rightarrow> nat" where
  "flag_width s i = nat (8 * flag_bytes s i)"

lemma ne_GetInt_val:
  "flag_ok s e i \<Longrightarrow> eia_get ne_access s e i = Some (flag_val (da_mem (edges s)) (flag_pos s e i) (flag_bytes s i))"
  using getFlagInt_val [of s e i] by (simp add: ne_access_def ne_GetInt_def ToEdgePointer_def flag_ok_def valid_edge_def)

lemma ne_SetInt_mem:
  assumes "flag_ok s e i"
  obtains d where "eia_set ne_access s e i v = Some (s\<lparr>edges := d\<rparr>)" "ne_inv (s\<lparr>edges := d\<rparr>)"
    "\<And>q. q < flag_pos s e i \<or> flag_pos s e i + flag_bytes s i \<le> q \<Longrightarrow> da_mem d q = da_mem (edges s) q"
    "flag_val (da_mem d) (flag_pos s e i) (flag_bytes s i) = take_bit (nat (8 * flag_bytes s i)) v"
proof -
  note ret = that
  obtain d where d: "setFlagInt (e * edgeEntryBytes s) (i * 4) v s = Some (s\<lparr>edges := d\<rparr>)"
    "ne_inv (s\<lparr>edges := d\<rparr>)"
    "\<And>q. q < flag_pos s e i \<or> flag_pos s e i + flag_bytes s i \<le> q \<Longrightarrow> da_mem d q = da_mem (edges s) q"
    "flag_val (da_mem d) (flag_pos s e i) (flag_bytes s i) = take_bit (nat (8 * flag_bytes s i)) v"
    by (rule setFlagInt_mem [OF assms, where v = v]) (rule that)
  show ?thesis
    by (rule ret [of d]) (use d assms in \<open>auto simp: ne_access_def ne_SetInt_def ToEdgePointer_def flag_ok_def valid_edge_def\<close>)
qed

lemma flag_apart:
  assumes "flag_ok s e i" "flag_ok s e' j" "(e', j) \<noteq> (e, i)"
  shows "flag_pos s e' j + flag_bytes s j \<le> flag_pos s e i \<or> flag_pos s e i + flag_bytes s i \<le> flag_pos s e' j"
proof (cases "e' = e")
  case True
  then have "i < j \<or> j < i" using assms(3) by auto
  then show ?thesis using True flag_okD(6) [OF assms(1)] flag_okD(6) [OF assms(2)] by (auto simp: flag_pos_def)
next
  case False
  note F = flag_okD [OF assms(1)] and F' = flag_okD [OF assms(2)]
  show ?thesis
    using record_disjoint [of e' e "24 + 4 * j" "flag_bytes s j" "edgeEntryBytes s" "24 + 4 * i" "flag_bytes s i"]
      False F F' by (auto simp: flag_pos_def)
qed

interpretation ne_eia: edge_int_access_contract ne_access flag_ok flag_width
proof
  fix s e i v
  assume ok: "flag_ok s e i"
  show "\<exists>v. eia_get ne_access s e i = Some v" using ne_GetInt_val [OF ok] by simp
  show "flag_width s i \<le> 32" using flag_okD(6) [OF ok] by (simp add: flag_width_def)
  obtain d where d: "eia_set ne_access s e i v = Some (s\<lparr>edges := d\<rparr>)" "ne_inv (s\<lparr>edges := d\<rparr>)"
    "\<And>q. q < flag_pos s e i \<or> flag_pos s e i + flag_bytes s i \<le> q \<Longrightarrow> da_mem d q = da_mem (edges s) q"
    "flag_val (da_mem d) (flag_pos s e i) (flag_bytes s i) = take_bit (nat (8 * flag_bytes s i)) v"
    by (rule ne_SetInt_mem [OF ok, where v = v]) (rule that)
  show "\<exists>s'. eia_set ne_access s e i v = Some s'" using d(1) by simp
  fix s' e' j
  assume "eia_set ne_access s e i v = Some s'"
  then have s': "s' = s\<lparr>edges := d\<rparr>" using d(1) by simp
  have same: "flag_pos s' = flag_pos s" "flag_bytes s' = flag_bytes s" "da_mem (edges s') = da_mem d"
    by (simp_all add: s' flag_pos_def [abs_def] flag_bytes_def [abs_def])
  have ok': "flag_ok s' e' j = flag_ok s e' j" for e' j
    using d(2) ok by (auto simp: s' flag_ok_def valid_edge_def)
  then show "flag_ok s' e' j = flag_ok s e' j" .
  show "flag_width s' j = flag_width s j" by (simp add: flag_width_def same)
  show "eia_get ne_access s' e i = Some (take_bit (flag_width s i) v)"
    using ne_GetInt_val [of s' e i] ok' [of e i] ok d(4) by (simp add: same flag_width_def)
  assume oj: "flag_ok s e' j" and ne: "(e', j) \<noteq> (e, i)"
  have "flag_val (da_mem d) (flag_pos s e' j) (flag_bytes s j) =
      flag_val (da_mem (edges s)) (flag_pos s e' j) (flag_bytes s j)"
    using flag_apart [OF ok oj ne] by (intro flag_val_cong d(3) flag_okD(10) [OF oj]) auto
  then show "eia_get ne_access s' e' j = eia_get ne_access s e' j"
    using ne_GetInt_val [of s' e' j] ne_GetInt_val [OF oj] ok' [of e' j] oj by (simp add: same)
qed

text \<open>The flags share the record of an edge with its other fields, which a write leaves alone.\<close>

lemma set_flags_frame:
  assumes ok: "flag_ok s e i" and set: "eia_set ne_access s e i v = Some s'"
  shows "ne_inv s'" "edgeCount s' = edgeCount s" "nodeCount s' = nodeCount s" "nodes s' = nodes s"
    "0 \<le> off \<Longrightarrow> off + 4 \<le> 24 \<Longrightarrow> edge_int s' e' off = edge_int s e' off"
proof -
  obtain d where d: "eia_set ne_access s e i v = Some (s\<lparr>edges := d\<rparr>)" "ne_inv (s\<lparr>edges := d\<rparr>)"
    "\<And>q. q < flag_pos s e i \<or> flag_pos s e i + flag_bytes s i \<le> q \<Longrightarrow> da_mem d q = da_mem (edges s) q"
    using ne_SetInt_mem [OF ok, of v] by metis
  have s': "s' = s\<lparr>edges := d\<rparr>" using set d(1) by simp
  then show "ne_inv s'" "edgeCount s' = edgeCount s" "nodeCount s' = nodeCount s" "nodes s' = nodes s"
    using d(2) by simp_all
  assume off: "0 \<le> off" "off + 4 \<le> 24"
  note F = flag_okD [OF ok]
  have "e' * edgeEntryBytes s + off + 4 \<le> flag_pos s e i \<or>
      flag_pos s e i + flag_bytes s i \<le> e' * edgeEntryBytes s + off"
    using record_disjoint [of e' e off 4 "edgeEntryBytes s" "24 + 4 * i" "flag_bytes s i"] off F
    by (cases "e' = e") (auto simp: flag_pos_def)
  then have "da_mem d (e' * edgeEntryBytes s + off + k) = da_mem (edges s) (e' * edgeEntryBytes s + off + k)"
    if "0 \<le> k" "k < 4" for k
    using that by (intro d(3)) auto
  from this [of 0] this [of 1] this [of 2] this [of 3]
  show "edge_int s' e' off = edge_int s e' off" by (simp add: s' edge_int_def mem32_def)
qed

end
