(* ===== verification/GraphPermutation.thy ===== *)
theory GraphPermutation imports AdjacencyLists begin

text \<open>
  \<open>SortEdges\<close> and \<open>RelabelNodes\<close> of \<^verbatim>\<open>base_graph_nodes_and_edges.go\<close>: the records are moved in place
  along the cycles of a permutation. The mapping is a Go function that may panic, its result is an
  option; the loop over a cycle ends only when the mapping is a permutation and is a partial
  function.
\<close>

section \<open>Edges\<close>

record edge_data =
  ed_nodeA :: int
  ed_nodeB :: int
  ed_linkA :: int
  ed_linkB :: int
  ed_dist :: i32
  ed_kv :: int
  ed_flags :: ints_ref
  ed_geo :: i64

definition loadEdge :: "int \<Rightarrow> nodes_edges \<Rightarrow> edge_data option" where
  "loadEdge ptr s = do {
     flags \<leftarrow> CreateEdgeFlags s;
     flags \<leftarrow> ReadFlags ptr flags s;
     a \<leftarrow> GetNodeA ptr s;
     b \<leftarrow> GetNodeB ptr s;
     la \<leftarrow> GetLinkA ptr s;
     lb \<leftarrow> GetLinkB ptr s;
     d \<leftarrow> get_edge_int (ptr + eDist s) s;
     kv \<leftarrow> GetKeyValuesRef ptr s;
     geo \<leftarrow> GetGeoRef ptr s;
     Some \<lparr>ed_nodeA = a, ed_nodeB = b, ed_linkA = la, ed_linkB = lb, ed_dist = d, ed_kv = kv,
       ed_flags = flags, ed_geo = geo\<rparr> }"

definition remapEdge :: "int \<Rightarrow> (int \<Rightarrow> int option) \<Rightarrow> int option" where
  "remapEdge edge getNewEdge = (if edge = noEdge then Some noEdge else getNewEdge edge)"

definition storeEdge :: "int \<Rightarrow> edge_data \<Rightarrow> (int \<Rightarrow> int option) \<Rightarrow> nodes_edges \<Rightarrow> nodes_edges option" where
  "storeEdge ptr e getNewEdge s = do {
     s \<leftarrow> SetNodeA ptr (ed_nodeA e) s;
     s \<leftarrow> SetNodeB ptr (ed_nodeB e) s;
     la \<leftarrow> remapEdge (ed_linkA e) getNewEdge;
     s \<leftarrow> SetLinkA ptr la s;
     lb \<leftarrow> remapEdge (ed_linkB e) getNewEdge;
     s \<leftarrow> SetLinkB ptr lb s;
     s \<leftarrow> set_edge_int (ptr + eDist s) (ed_dist e) s;
     s \<leftarrow> SetKeyValuesRef ptr (ed_kv e) s;
     s \<leftarrow> WriteFlags ptr (ed_flags e) s;
     SetGeoRef ptr (ed_geo e) s }"

partial_function (option) edge_cycle :: "(int \<Rightarrow> int option) \<Rightarrow> int \<Rightarrow> int \<Rightarrow> edge_data \<Rightarrow> bool list
    \<Rightarrow> nodes_edges \<Rightarrow> (bool list \<times> nodes_edges) option" where
  "edge_cycle getNewEdge edge cur carry visited s = do {
     visited \<leftarrow> put visited cur True;
     dest \<leftarrow> getNewEdge cur;
     destPtr \<leftarrow> ToEdgePointer dest s;
     nxt \<leftarrow> loadEdge destPtr s;
     s \<leftarrow> storeEdge destPtr carry getNewEdge s;
     if dest = edge then Some (visited, s)
     else edge_cycle getNewEdge edge dest nxt visited s }"

fun sort_edges_loop :: "nat \<Rightarrow> int \<Rightarrow> (int \<Rightarrow> int option) \<Rightarrow> bool list \<Rightarrow> nodes_edges \<Rightarrow> nodes_edges option" where
  "sort_edges_loop 0 edge getNewEdge visited s = Some s"
| "sort_edges_loop (Suc k) edge getNewEdge visited s = do {
     done \<leftarrow> idx visited edge;
     if done then sort_edges_loop k (edge + 1) getNewEdge visited s
     else do {
       ptr \<leftarrow> ToEdgePointer edge s;
       carry \<leftarrow> loadEdge ptr s;
       (visited, s) \<leftarrow> edge_cycle getNewEdge edge edge carry visited s;
       sort_edges_loop k (edge + 1) getNewEdge visited s } }"

fun update_edge_refs :: "nat \<Rightarrow> int \<Rightarrow> (int \<Rightarrow> int option) \<Rightarrow> nodes_edges \<Rightarrow> nodes_edges option" where
  "update_edge_refs 0 node getNewEdge s = Some s"
| "update_edge_refs (Suc k) node getNewEdge s = do {
     ptr \<leftarrow> ToNodePointer node s;
     edgeRef \<leftarrow> GetEdgeRef ptr s;
     s \<leftarrow> (if edgeRef \<noteq> noEdge then do { e \<leftarrow> getNewEdge edgeRef; SetEdgeRef ptr e s } else Some s);
     update_edge_refs k (node + 1) getNewEdge s }"

definition SortEdges :: "(int \<Rightarrow> int option) \<Rightarrow> nodes_edges \<Rightarrow> nodes_edges option" where
  "SortEdges getNewEdge s = do {
     s \<leftarrow> sort_edges_loop (nat (edgeCount s)) 0 getNewEdge (replicate (nat (edgeCount s)) False) s;
     update_edge_refs (nat (nodeCount s)) 0 getNewEdge s }"

section \<open>Nodes\<close>

record node_data =
  nd_edgeRef :: int
  nd_lat :: flt
  nd_lon :: flt
  nd_ele :: flt
  nd_tcRef :: int

definition loadNode :: "int \<Rightarrow> nodes_edges \<Rightarrow> node_data option" where
  "loadNode ptr s = do {
     e \<leftarrow> GetEdgeRef ptr s;
     lat \<leftarrow> GetLat ptr s;
     lon \<leftarrow> GetLon ptr s;
     ele \<leftarrow> (if withElevation s then GetEle ptr s else Some (Fin 0));
     tc \<leftarrow> (if withTurnCosts s then GetTurnCostRef ptr s else Some 0);
     Some \<lparr>nd_edgeRef = e, nd_lat = lat, nd_lon = lon, nd_ele = ele, nd_tcRef = tc\<rparr> }"

definition storeNode :: "int \<Rightarrow> node_data \<Rightarrow> nodes_edges \<Rightarrow> nodes_edges option" where
  "storeNode ptr nd s = do {
     s \<leftarrow> SetEdgeRef ptr (nd_edgeRef nd) s;
     s \<leftarrow> SetLat ptr (nd_lat nd) s;
     s \<leftarrow> SetLon ptr (nd_lon nd) s;
     s \<leftarrow> (if withElevation s then SetEle ptr (nd_ele nd) s else Some s);
     if withTurnCosts s then SetTurnCostRef ptr (nd_tcRef nd) s else Some s }"

fun relabel_ends :: "nat \<Rightarrow> int \<Rightarrow> (int \<Rightarrow> int option) \<Rightarrow> nodes_edges \<Rightarrow> nodes_edges option" where
  "relabel_ends 0 edge getNewNode s = Some s"
| "relabel_ends (Suc k) edge getNewNode s = do {
     ptr \<leftarrow> ToEdgePointer edge s;
     a \<leftarrow> GetNodeA ptr s;
     a \<leftarrow> getNewNode a;
     s \<leftarrow> SetNodeA ptr a s;
     b \<leftarrow> GetNodeB ptr s;
     b \<leftarrow> getNewNode b;
     s \<leftarrow> SetNodeB ptr b s;
     relabel_ends k (edge + 1) getNewNode s }"

partial_function (option) node_cycle :: "(int \<Rightarrow> int option) \<Rightarrow> int \<Rightarrow> int \<Rightarrow> node_data \<Rightarrow> bool list
    \<Rightarrow> nodes_edges \<Rightarrow> (bool list \<times> nodes_edges) option" where
  "node_cycle getNewNode node cur carry visited s = do {
     visited \<leftarrow> put visited cur True;
     dest \<leftarrow> getNewNode cur;
     destPtr \<leftarrow> ToNodePointer dest s;
     nxt \<leftarrow> loadNode destPtr s;
     s \<leftarrow> storeNode destPtr carry s;
     if dest = node then Some (visited, s)
     else node_cycle getNewNode node dest nxt visited s }"

fun relabel_nodes_loop :: "nat \<Rightarrow> int \<Rightarrow> (int \<Rightarrow> int option) \<Rightarrow> bool list \<Rightarrow> nodes_edges \<Rightarrow> nodes_edges option" where
  "relabel_nodes_loop 0 node getNewNode visited s = Some s"
| "relabel_nodes_loop (Suc k) node getNewNode visited s = do {
     done \<leftarrow> idx visited node;
     if done then relabel_nodes_loop k (node + 1) getNewNode visited s
     else do {
       ptr \<leftarrow> ToNodePointer node s;
       carry \<leftarrow> loadNode ptr s;
       (visited, s) \<leftarrow> node_cycle getNewNode node node carry visited s;
       relabel_nodes_loop k (node + 1) getNewNode visited s } }"

definition RelabelNodes :: "(int \<Rightarrow> int option) \<Rightarrow> nodes_edges \<Rightarrow> nodes_edges option" where
  "RelabelNodes getNewNode s = do {
     s \<leftarrow> relabel_ends (nat (edgeCount s)) 0 getNewNode s;
     relabel_nodes_loop (nat (nodeCount s)) 0 getNewNode (replicate (nat (nodeCount s)) False) s }"

end
