(* ===== verification/EncodedValueKinds.thy ===== *)
theory EncodedValueKinds imports EncodedValue begin

text \<open>
  \<^verbatim>\<open>core/routing/ev\<close>: the boolean, enum and string encoded values, which store a one-bit flag,
  the ordinal of an enum constant and the index of an interned string in an integer encoded value.
\<close>

section \<open>SimpleBooleanEncodedValue\<close>

definition NewSimpleBooleanEncodedValueDir :: "string \<Rightarrow> bool \<Rightarrow> int_ev option" where
  "NewSimpleBooleanEncodedValueDir name storeBothDirections =
     NewIntEncodedValueImpl name 1 storeBothDirections"

definition NewSimpleBooleanEncodedValue :: "string \<Rightarrow> int_ev option" where
  "NewSimpleBooleanEncodedValue name = NewSimpleBooleanEncodedValueDir name False"

definition SetBool :: "'s edge_int_access \<Rightarrow> bool \<Rightarrow> int \<Rightarrow> 's \<Rightarrow> bool \<Rightarrow> int_ev
    \<Rightarrow> (int_ev \<times> 's) option" where
  "SetBool ops reverse edgeID s value e =
     ev_SetInt ops reverse edgeID s (if value then 1 else 0) e"

definition GetBool :: "'s edge_int_access \<Rightarrow> bool \<Rightarrow> int \<Rightarrow> 's \<Rightarrow> int_ev \<Rightarrow> bool option" where
  "GetBool ops reverse edgeID s e = do {
     v \<leftarrow> ev_GetInt ops reverse edgeID s e;
     Some (v = 1) }"

section \<open>EnumEncodedValue\<close>

text \<open>The constants of an enum are their ordinals; \<open>E(i)\<close> and \<open>int32(value)\<close> convert them.\<close>

record enum_ev =
  enum_impl :: int_ev
  enum_Values :: "int list"

definition enumSequence :: "nat \<Rightarrow> int list" where
  "enumSequence n = map int [0..<n]"

text \<open>\<open>uint(len(values)-1)\<close> of an empty slice is the largest \<open>uint\<close>.\<close>

definition NewEnumEncodedValueDir :: "string \<Rightarrow> int list \<Rightarrow> bool \<Rightarrow> enum_ev option" where
  "NewEnumEncodedValueDir name values storeTwoDirections = do {
     impl \<leftarrow> NewIntEncodedValueImpl name
       (int (bits_Len (nat ((int (length values) - 1) mod 2 ^ 64)))) storeTwoDirections;
     Some \<lparr>enum_impl = impl, enum_Values = values\<rparr> }"

definition NewEnumEncodedValue :: "string \<Rightarrow> int list \<Rightarrow> enum_ev option" where
  "NewEnumEncodedValue name values = NewEnumEncodedValueDir name values False"

definition SetEnum :: "'s edge_int_access \<Rightarrow> bool \<Rightarrow> int \<Rightarrow> 's \<Rightarrow> int \<Rightarrow> enum_ev
    \<Rightarrow> (enum_ev \<times> 's) option" where
  "SetEnum ops reverse edgeID s value e = do {
     (impl, s) \<leftarrow> ev_SetInt ops reverse edgeID s (word_of_int value) (enum_impl e);
     Some (e\<lparr>enum_impl := impl\<rparr>, s) }"

definition GetEnum :: "'s edge_int_access \<Rightarrow> bool \<Rightarrow> int \<Rightarrow> 's \<Rightarrow> enum_ev \<Rightarrow> int option" where
  "GetEnum ops reverse edgeID s e = do {
     v \<leftarrow> ev_GetInt ops reverse edgeID s (enum_impl e);
     idx (enum_Values e) (sint v) }"

section \<open>StringEncodedValue\<close>

record string_ev =
  str_impl :: int_ev
  str_MaxValues :: int
  str_Values :: "string list"
  str_IndexMap :: "string \<Rightarrow> int option"

definition bits_LeadingZeros32 :: "i32 \<Rightarrow> int" where
  "bits_LeadingZeros32 x = 32 - int (bits_Len (unat x))"

definition roundUp :: "int \<Rightarrow> int" where
  "roundUp value =
     (if value \<le> 0 then 0
      else uint (drop_bit (nat (bits_LeadingZeros32 (word_of_int value))) (- 1 :: i32)))"

definition NewStringEncodedValueDir :: "string \<Rightarrow> int \<Rightarrow> bool \<Rightarrow> string_ev option" where
  "NewStringEncodedValueDir name expectedValueCount storeTwoDirections = do {
     let n = 32 - bits_LeadingZeros32 (word_of_int expectedValueCount);
     impl \<leftarrow> NewIntEncodedValueImpl name n storeTwoDirections;
     check (0 \<le> expectedValueCount);
     Some \<lparr>str_impl = impl, str_MaxValues = roundUp expectedValueCount, str_Values = [],
       str_IndexMap = Map.empty\<rparr> }"

definition NewStringEncodedValue :: "string \<Rightarrow> int \<Rightarrow> string_ev option" where
  "NewStringEncodedValue name expectedValueCount =
     NewStringEncodedValueDir name expectedValueCount False"

fun index_values :: "string list \<Rightarrow> int \<Rightarrow> (string \<Rightarrow> int option) \<Rightarrow> string \<Rightarrow> int option" where
  "index_values [] i m = m"
| "index_values (v # vs) i m = index_values vs (i + 1) (m(v \<mapsto> i + 1))"

definition NewStringEncodedValueWithValues ::
  "string \<Rightarrow> int \<Rightarrow> string list \<Rightarrow> bool \<Rightarrow> string_ev option" where
  "NewStringEncodedValueWithValues name numBits values storeTwoDirections = do {
     check (0 \<le> numBits);
     let maxValues = sint (push_bit (nat numBits) (1 :: i64) - 1);
     check (\<not> int (length values) > maxValues);
     impl \<leftarrow> NewIntEncodedValueImpl name numBits storeTwoDirections;
     Some \<lparr>str_impl = impl, str_MaxValues = maxValues, str_Values = values,
       str_IndexMap = index_values values 0 Map.empty\<rparr> }"

text \<open>A string that is not known yet is appended; its index is the new length.\<close>

definition SetString :: "'s edge_int_access \<Rightarrow> bool \<Rightarrow> int \<Rightarrow> 's \<Rightarrow> string \<Rightarrow> string_ev
    \<Rightarrow> (string_ev \<times> 's) option" where
  "SetString ops reverse edgeID s value e =
     (if value = [] then do {
        (impl, s) \<leftarrow> ev_SetInt ops reverse edgeID s 0 (str_impl e);
        Some (e\<lparr>str_impl := impl\<rparr>, s)
      } else do {
        (i, e) \<leftarrow> (case str_IndexMap e value of
           Some i \<Rightarrow> Some (i, e)
         | None \<Rightarrow> do {
             check (int (length (str_Values e)) \<noteq> str_MaxValues e);
             let vs = str_Values e @ [value];
             Some (int (length vs),
               e\<lparr>str_Values := vs, str_IndexMap := (str_IndexMap e)(value \<mapsto> int (length vs))\<rparr>)
           });
        (impl, s) \<leftarrow> ev_SetInt ops reverse edgeID s (word_of_int i) (str_impl e);
        Some (e\<lparr>str_impl := impl\<rparr>, s) })"

definition GetString :: "'s edge_int_access \<Rightarrow> bool \<Rightarrow> int \<Rightarrow> 's \<Rightarrow> string_ev \<Rightarrow> string option" where
  "GetString ops reverse edgeID s e = do {
     v \<leftarrow> ev_GetInt ops reverse edgeID s (str_impl e);
     if v = 0 then Some [] else idx (str_Values e) (sint (v - 1)) }"

definition IndexOf :: "string_ev \<Rightarrow> string \<Rightarrow> int" where
  "IndexOf e value = (case str_IndexMap e value of Some i \<Rightarrow> i | None \<Rightarrow> 0)"

section \<open>Constructors give fresh encoded values\<close>

lemma NewInt_fresh:
  assumes "NewIntEncodedValueImpl name n b = Some e"
  shows "fresh e" "MinStorableValue e = 0" "sint (MaxStorableValue e) = 2 ^ nat n - 1"
    "Bits e = n" "1 \<le> n" "n \<le> 31" "StoreTwoDir e = b" "\<not> NegateReverseDir e" "Name e = name"
proof -
  have n: "1 \<le> n" "n \<le> 31" and e: "e = \<lparr>Name = name, Bits = n, MinStorableValue = 0,
       MaxStorableValue = word_of_int (2 ^ nat n - 1), MaxValue = MinInt32,
       NegateReverseDir = False, StoreTwoDir = b,
       FwdDataIndex = 0, BwdDataIndex = 0, FwdShift = - 1, BwdShift = - 1,
       FwdMask = 0, BwdMask = 0\<rparr>"
    using assms by (auto simp: NewIntEncodedValueImpl_def NewIntEncodedValueImplFull_def Let_def
        split: if_splits)
  have "(2::int) ^ nat n \<le> 2 ^ 31" using n by (intro power_increasing) auto
  then have "- (2 ^ 31) \<le> (2::int) ^ nat n - 1" "(2::int) ^ nat n - 1 < 2 ^ 31"
    using zero_less_power [of "2::int" "nat n"] by linarith+
  then have s: "sint (word_of_int (2 ^ nat n - 1) :: i32) = 2 ^ nat n - 1"
    by (rule sint32_of_int)
  show "fresh e" using n s by (simp add: e fresh_def bounds_ok_def)
  show "MinStorableValue e = 0" "sint (MaxStorableValue e) = 2 ^ nat n - 1"
    "Bits e = n" "1 \<le> n" "n \<le> 31" "StoreTwoDir e = b" "\<not> NegateReverseDir e" "Name e = name"
    using n s by (simp_all add: e)
qed

lemma less_pow_bits_Len: "n < 2 ^ bits_Len n"
  using bits_Len_bounds [of n] by blast

lemma sint_small: "0 \<le> k \<Longrightarrow> k \<le> sint (m :: i32) \<Longrightarrow> sint (word_of_int k :: i32) = k"
  using sint_i32_bounds [of m] by (intro sint32_of_int) linarith+

section \<open>Booleans\<close>

definition bool_ev :: "int_ev \<Rightarrow> bool" where
  "bool_ev e \<longleftrightarrow> MinStorableValue e = 0 \<and> sint (MaxStorableValue e) = 1 \<and> \<not> NegateReverseDir e"

lemma NewSimpleBoolean_spec:
  assumes "NewSimpleBooleanEncodedValueDir name b = Some e"
  shows "fresh e \<and> bool_ev e \<and> StoreTwoDir e = b"
  using NewInt_fresh [OF assms [unfolded NewSimpleBooleanEncodedValueDir_def]]
  by (simp add: bool_ev_def)

context edge_int_access_contract begin

lemma SetBool_GetBool:
  assumes "ready e" "bool_ev e" "holds_ev s edge e" "reverse \<longrightarrow> StoreTwoDir e"
  obtains e' s' where "SetBool ops reverse edge s b e = Some (e', s')"
    "GetBool ops reverse edge s' e' = Some b"
proof -
  have "in_bounds e (if b then 1 else 0)" using assms(2) by (simp add: in_bounds_def bool_ev_def)
  then obtain e' s' where s: "ev_SetInt ops reverse edge s (if b then 1 else 0) e = Some (e', s')"
    using SetInt_Some [OF assms(1,3)] assms(4) by blast
  show ?thesis
    using SetInt_GetInt(1) [OF assms(1,3) s] s
    by (intro that [of e' s']) (simp_all add: SetBool_def GetBool_def)
qed

end

section \<open>Enums\<close>

definition enum_ev_ok :: "enum_ev \<Rightarrow> bool" where
  "enum_ev_ok e \<longleftrightarrow> MinStorableValue (enum_impl e) = 0 \<and> \<not> NegateReverseDir (enum_impl e) \<and>
     int (length (enum_Values e)) \<le> sint (MaxStorableValue (enum_impl e)) + 1"

lemma enumSequence_simps [simp]:
  "length (enumSequence n) = n" "i < n \<Longrightarrow> enumSequence n ! i = int i"
  by (simp_all add: enumSequence_def)

lemma NewEnum_spec:
  assumes "NewEnumEncodedValueDir name vals b = Some e" "vals \<noteq> []"
    "length vals < 2 ^ 63"
  shows "fresh (enum_impl e) \<and> enum_ev_ok e \<and> enum_Values e = vals"
proof -
  have "(int (length vals) - 1) mod 2 ^ 64 = int (length vals) - 1"
    using assms(2,3) by (intro mod_pos_pos_trivial) (cases vals; simp)+
  moreover have "nat (int (length vals) - 1) = length vals - 1" using assms(2) by (cases vals) auto
  ultimately have n: "NewIntEncodedValueImpl name (int (bits_Len (length vals - 1))) b = Some (enum_impl e)"
    "enum_Values e = vals"
    using assms(1) by (auto simp: NewEnumEncodedValueDir_def bind_Some_iff)
  have "length vals - 1 < 2 ^ bits_Len (length vals - 1)" by (rule less_pow_bits_Len)
  then have "length vals \<le> 2 ^ bits_Len (length vals - 1)" by linarith
  then have "int (length vals) \<le> 2 ^ bits_Len (length vals - 1)"
    by (metis of_nat_le_iff of_nat_numeral of_nat_power)
  then show ?thesis using NewInt_fresh [OF n(1)] n(2) by (simp add: enum_ev_ok_def)
qed

context edge_int_access_contract begin

lemma SetEnum_GetEnum:
  assumes "ready (enum_impl e)" "enum_ev_ok e" "holds_ev s edge (enum_impl e)"
    "reverse \<longrightarrow> StoreTwoDir (enum_impl e)" "i < length (enum_Values e)"
  obtains e' s' where "SetEnum ops reverse edge s (int i) e = Some (e', s')"
    "GetEnum ops reverse edge s' e' = Some (enum_Values e ! i)"
proof -
  let ?e = "enum_impl e"
  have k: "int i \<le> sint (MaxStorableValue ?e)" using assms(2,5) by (auto simp: enum_ev_ok_def)
  then have v: "sint (word_of_int (int i) :: i32) = int i" by (intro sint_small) auto
  then have "in_bounds ?e (word_of_int (int i))"
    using assms(2) k by (simp add: in_bounds_def enum_ev_ok_def)
  then obtain e' s' where s: "ev_SetInt ops reverse edge s (word_of_int (int i)) ?e = Some (e', s')"
    using SetInt_Some [OF assms(1,3)] assms(4) by blast
  show ?thesis
    using SetInt_GetInt(1) [OF assms(1,3) s] s v assms(5)
    by (intro that [of "e\<lparr>enum_impl := e'\<rparr>" s']) (simp_all add: SetEnum_def GetEnum_def)
qed

end

section \<open>Strings\<close>

text \<open>
  The index map is the inverse of the list of values, and every index can be stored. Both are
  kept by \<open>SetString\<close>, so an edge keeps its string when later strings are added.
\<close>

definition string_inv :: "string_ev \<Rightarrow> bool" where
  "string_inv e \<longleftrightarrow> distinct (str_Values e) \<and> [] \<notin> set (str_Values e) \<and>
     (\<forall>v i. str_IndexMap e v = Some i \<longleftrightarrow>
        (1 \<le> i \<and> i \<le> int (length (str_Values e)) \<and> str_Values e ! nat (i - 1) = v)) \<and>
     int (length (str_Values e)) \<le> str_MaxValues e \<and>
     str_MaxValues e \<le> sint (MaxStorableValue (str_impl e)) \<and>
     MinStorableValue (str_impl e) = 0 \<and> \<not> NegateReverseDir (str_impl e)"

lemma roundUp_eq:
  assumes "0 < n" "n < 2 ^ 32"
  shows "roundUp n = 2 ^ bits_Len (nat n) - 1"
proof -
  have u: "unat (word_of_int n :: i32) = nat n" using assms
    by (simp add: unat_eq_nat_uint uint_word_of_int)
  have "nat n < 2 ^ 32" using assms(2) by (simp add: nat_less_iff)
  have b: "bits_Len (nat n) \<le> 32"
  proof (rule ccontr)
    assume "\<not> bits_Len (nat n) \<le> 32"
    then have "(2::nat) ^ 32 \<le> 2 ^ (bits_Len (nat n) - 1)" by (intro power_increasing) auto
    also have "\<dots> \<le> nat n" using bits_Len_bounds [of "nat n"] assms by auto
    finally show False using \<open>nat n < 2 ^ 32\<close> by simp
  qed
  have "drop_bit (32 - k) (- 1 :: i32) = mask k" if "k \<le> 32" for k
    using that by (intro bit_word_eqI) (auto simp: bit_simps)
  from this [OF b] have "uint (drop_bit (32 - bits_Len (nat n)) (- 1 :: i32)) = mask (bits_Len (nat n))"
    using b by (simp add: uint_mask_eq min_def)
  moreover have "nat (bits_LeadingZeros32 (word_of_int n)) = 32 - bits_Len (nat n)"
    by (simp add: bits_LeadingZeros32_def u nat_diff_distrib')
  ultimately show ?thesis using assms by (simp add: roundUp_def mask_eq_exp_minus_1)
qed

lemma NewString_spec:
  assumes "NewStringEncodedValueDir name n b = Some e" "n < 2 ^ 32"
  shows "fresh (str_impl e) \<and> string_inv e"
proof -
  obtain impl where impl: "NewIntEncodedValueImpl name (32 - bits_LeadingZeros32 (word_of_int n)) b = Some impl"
    and n: "0 \<le> n" and e: "e = \<lparr>str_impl = impl, str_MaxValues = roundUp n, str_Values = [],
       str_IndexMap = Map.empty\<rparr>"
    using assms(1) by (auto simp: NewStringEncodedValueDir_def Let_def bind_Some_iff split: if_splits)
  have u: "unat (word_of_int n :: i32) = nat n" using n assms(2)
    by (simp add: unat_eq_nat_uint uint_word_of_int)
  have bits: "32 - bits_LeadingZeros32 (word_of_int n) = int (bits_Len (nat n))"
    by (simp add: bits_LeadingZeros32_def u)
  note N = NewInt_fresh [OF impl [unfolded bits]]
  have "0 < n" using N(5) n by (cases "n = 0") (auto simp: bits_Len.simps)
  then have "roundUp n = sint (MaxStorableValue impl)" using N(3) roundUp_eq assms(2) by simp
  moreover have "0 \<le> roundUp n" by (simp add: roundUp_def)
  ultimately show ?thesis using N by (simp add: e string_inv_def)
qed

lemma string_index:
  assumes "string_inv e" "str_IndexMap e v = Some i"
  shows "1 \<le> i" "i \<le> int (length (str_Values e))" "str_Values e ! nat (i - 1) = v"
  using assms by (auto simp: string_inv_def)

lemma string_index_None:
  assumes "string_inv e" "str_IndexMap e v = None"
  shows "v \<notin> set (str_Values e)"
proof
  assume "v \<in> set (str_Values e)"
  then obtain k where "k < length (str_Values e)" "str_Values e ! k = v" by (auto simp: in_set_conv_nth)
  then have "str_IndexMap e v = Some (int k + 1)" using assms(1) by (simp add: string_inv_def)
  then show False using assms(2) by simp
qed

text \<open>Interning a new string keeps the invariant.\<close>

lemma string_inv_append:
  assumes "string_inv e" "v \<noteq> []" "v \<notin> set (str_Values e)"
    "int (length (str_Values e)) < str_MaxValues e"
  shows "string_inv (e\<lparr>str_Values := str_Values e @ [v],
    str_IndexMap := (str_IndexMap e)(v \<mapsto> int (length (str_Values e @ [v])))\<rparr>)"
proof -
  let ?n = "length (str_Values e)"
  have old: "str_IndexMap e w = Some i \<longleftrightarrow>
    1 \<le> i \<and> i \<le> int ?n \<and> str_Values e ! nat (i - 1) = w" for w i
    using assms(1) by (simp add: string_inv_def)
  have "((str_IndexMap e)(v \<mapsto> int ?n + 1)) w = Some i \<longleftrightarrow>
    1 \<le> i \<and> i \<le> int ?n + 1 \<and> (str_Values e @ [v]) ! nat (i - 1) = w" for w i
  proof (cases "i = int ?n + 1")
    case True
    then show ?thesis using old [of w i] by auto
  next
    case False
    have "nat (i - 1) < ?n" if "1 \<le> i" "i \<le> int ?n" using that by linarith
    moreover from this have "str_Values e ! nat (i - 1) \<noteq> v" if "1 \<le> i" "i \<le> int ?n"
      using that assms(3) nth_mem by metis
    ultimately show ?thesis using False old [of w i] by (auto simp: nth_append)
  qed
  then show ?thesis using assms by (simp add: string_inv_def add.commute)
qed

context edge_int_access_contract begin

lemma SetInt_index:
  assumes inv: "string_inv e" and rdy: "ready (str_impl e)" "holds_ev s edge (str_impl e)"
    and rev: "reverse \<longrightarrow> StoreTwoDir (str_impl e)"
    and i: "0 \<le> i" "i \<le> int (length (str_Values e))"
  obtains impl s' where "ev_SetInt ops reverse edge s (word_of_int i) (str_impl e) = Some (impl, s')"
    "GetString ops reverse edge s' (e\<lparr>str_impl := impl\<rparr>) =
       Some (if i = 0 then [] else str_Values e ! nat (i - 1))"
    "string_inv (e\<lparr>str_impl := impl\<rparr>)"
proof -
  let ?e = "str_impl e"
  have m: "i \<le> sint (MaxStorableValue ?e)" using inv i by (auto simp: string_inv_def)
  have v: "sint (word_of_int i :: i32) = i" using i m by (intro sint_small) auto
  have "in_bounds ?e (word_of_int i)" using inv v m i by (simp add: in_bounds_def string_inv_def)
  then obtain impl s' where s: "ev_SetInt ops reverse edge s (word_of_int i) ?e = Some (impl, s')"
    using SetInt_Some [OF rdy] rev by blast
  have g: "ev_GetInt ops reverse edge s' impl = Some (word_of_int i)"
    by (rule SetInt_GetInt(1) [OF rdy s])
  have v1: "sint (word_of_int i - 1 :: i32) = i - 1" if "i \<noteq> 0"
  proof -
    have "word_of_int i - 1 = (word_of_int (i - 1) :: i32)" by (simp add: wi_hom_syms)
    moreover have "sint (word_of_int (i - 1) :: i32) = i - 1" using i m that by (intro sint_small [of _ "MaxStorableValue ?e"]) auto
    ultimately show ?thesis by simp
  qed
  have "(word_of_int i = (0 :: i32)) = (i = 0)" using v by (metis signed_0 of_int_0)
  then have "GetString ops reverse edge s' (e\<lparr>str_impl := impl\<rparr>) =
       Some (if i = 0 then [] else str_Values e ! nat (i - 1))"
    using g v1 i by (auto simp: GetString_def idx_def)
  moreover obtain mv where "impl = ?e\<lparr>MaxValue := mv\<rparr>" using SetInt_elim [OF rdy(1) s] by blast
  then have "string_inv (e\<lparr>str_impl := impl\<rparr>)" using inv by (simp add: string_inv_def)
  ultimately show ?thesis using s by (intro that)
qed

lemma SetString_GetString:
  assumes inv: "string_inv e" and rdy: "ready (str_impl e)" "holds_ev s edge (str_impl e)"
    and rev: "reverse \<longrightarrow> StoreTwoDir (str_impl e)"
    and room: "int (length (str_Values e)) < str_MaxValues e \<or> v \<in> set (str_Values e) \<or> v = []"
  obtains e' s' where "SetString ops reverse edge s v e = Some (e', s')"
    "GetString ops reverse edge s' e' = Some v" "string_inv e'"
    "\<exists>vs. str_Values e' = str_Values e @ vs"
proof -
  consider (empty) "v = []" | (known) i where "v \<noteq> []" "str_IndexMap e v = Some i"
    | (fresh) "v \<noteq> []" "str_IndexMap e v = None" by fastforce
  then show ?thesis
  proof cases
    case empty
    obtain impl s' where S: "ev_SetInt ops reverse edge s (word_of_int 0) (str_impl e) = Some (impl, s')"
      "GetString ops reverse edge s' (e\<lparr>str_impl := impl\<rparr>) =
       Some (if (0::int) = 0 then [] else str_Values e ! nat (0 - 1))"
      "string_inv (e\<lparr>str_impl := impl\<rparr>)"
      by (rule SetInt_index [OF inv rdy rev, of 0]) simp_all
    show ?thesis
      by (rule that [of "e\<lparr>str_impl := impl\<rparr>" s']) (use S empty in \<open>simp_all add: SetString_def\<close>)
  next
    case known
    note I = string_index [OF inv known(2)]
    obtain impl s' where S: "ev_SetInt ops reverse edge s (word_of_int i) (str_impl e) = Some (impl, s')"
      "GetString ops reverse edge s' (e\<lparr>str_impl := impl\<rparr>) =
       Some (if i = 0 then [] else str_Values e ! nat (i - 1))"
      "string_inv (e\<lparr>str_impl := impl\<rparr>)"
      by (rule SetInt_index [OF inv rdy rev, of i]) (use I in simp_all)
    show ?thesis
      by (rule that [of "e\<lparr>str_impl := impl\<rparr>" s']) (use S known I in \<open>simp_all add: SetString_def\<close>)
  next
    case fresh
    let ?e = "e\<lparr>str_Values := str_Values e @ [v],
      str_IndexMap := (str_IndexMap e)(v \<mapsto> int (length (str_Values e @ [v])))\<rparr>"
    let ?i = "int (length (str_Values e @ [v]))"
    have nv: "v \<notin> set (str_Values e)" using string_index_None [OF inv fresh(2)] .
    then have lt: "int (length (str_Values e)) < str_MaxValues e" using room fresh(1) by blast
    have inv': "string_inv ?e" by (rule string_inv_append [OF inv fresh(1) nv lt])
    obtain impl s' where S: "ev_SetInt ops reverse edge s (word_of_int ?i) (str_impl ?e) = Some (impl, s')"
      "GetString ops reverse edge s' (?e\<lparr>str_impl := impl\<rparr>) =
       Some (if ?i = 0 then [] else str_Values ?e ! nat (?i - 1))"
      "string_inv (?e\<lparr>str_impl := impl\<rparr>)"
      by (rule SetInt_index [OF inv', of s edge reverse ?i]) (use rdy rev in simp_all)
    show ?thesis
      by (rule that [of "?e\<lparr>str_impl := impl\<rparr>" s'])
        (use S fresh lt in \<open>simp_all add: SetString_def Let_def nth_append\<close>)
  qed
qed

end

end
