(* ===== verification/TurnCostStorage.thy ===== *)
theory TurnCostStorage imports GraphPermutation EncodedValueKinds DecimalEncodedValue begin

text \<open>
  \<^verbatim>\<open>core/storage/turn_cost_storage.go\<close>: the turn cost entries, in a list per via node. The first
  entry of a node is kept with the node (\<^verbatim>\<open>node_access.go\<close>), so most operations work on both.
\<close>

section \<open>State\<close>

abbreviation (input) tcFrom :: int where "tcFrom \<equiv> 0"
abbreviation (input) tcTo :: int where "tcTo \<equiv> 4"
abbreviation (input) tcFlags :: int where "tcFlags \<equiv> 8"
abbreviation (input) tcNext :: int where "tcNext \<equiv> 12"
abbreviation (input) bytesPerTCEntry :: int where "bytesPerTCEntry \<equiv> 16"

record tc_storage =
  tc_da :: data_access
  tc_count :: int

definition NewTurnCostStorage :: "(string \<Rightarrow> string \<Rightarrow> bool) \<Rightarrow> int \<Rightarrow> gh_directory
    \<Rightarrow> (tc_storage \<times> gh_directory) option" where
  "NewTurnCostStorage matches segmentSize dir = do {
     (d, dir) \<leftarrow> CreateFull ''turn_costs'' (DefaultTypeFor matches dir ''turn_costs'' True) segmentSize dir;
     Some (\<lparr>tc_da = d, tc_count = 0\<rparr>, dir) }"

definition tc_Create :: "int \<Rightarrow> tc_storage \<Rightarrow> tc_storage option" where
  "tc_Create initBytes t = do { d \<leftarrow> da_Create initBytes (tc_da t); Some (t\<lparr>tc_da := d\<rparr>) }"

definition VersionTurnCosts :: int where "VersionTurnCosts = 0"

definition tc_LoadExisting :: "file_system \<Rightarrow> tc_storage \<Rightarrow> (bool \<times> tc_storage) option" where
  "tc_LoadExisting fs t = do {
     (ok, d) \<leftarrow> da_LoadExisting fs (tc_da t);
     let t = t\<lparr>tc_da := d\<rparr>;
     if \<not> ok then Some (False, t)
     else do {
       v \<leftarrow> da_Get_Header (0*4) d;
       u \<leftarrow> checkDAVersion VersionTurnCosts (sint v);
       n \<leftarrow> da_Get_Header (1*4) d;
       check (\<not> sint n \<noteq> bytesPerTCEntry);
       c \<leftarrow> da_Get_Header (2*4) d;
       Some (True, t\<lparr>tc_count := sint c\<rparr>) } }"

definition tc_Flush :: "tc_storage \<Rightarrow> file_system \<Rightarrow> (tc_storage \<times> file_system) option" where
  "tc_Flush t fs = do {
     d \<leftarrow> da_Set_Header (0*4) (word_of_int VersionTurnCosts) (tc_da t);
     d \<leftarrow> da_Set_Header (1*4) (word_of_int bytesPerTCEntry) d;
     d \<leftarrow> da_Set_Header (2*4) (word_of_int (tc_count t)) d;
     fs \<leftarrow> da_Flush d fs;
     Some (t\<lparr>tc_da := d\<rparr>, fs) }"

definition tc_Close :: "tc_storage \<Rightarrow> tc_storage" where
  "tc_Close t = t\<lparr>tc_da := da_Close (tc_da t)\<rparr>"

definition toPointer :: "int \<Rightarrow> int" where
  "toPointer index = index * bytesPerTCEntry"

definition tc_get :: "int \<Rightarrow> int \<Rightarrow> tc_storage \<Rightarrow> i32 option" where
  "tc_get index field t = da_GetInt (toPointer index + field) (tc_da t)"

definition tc_set :: "int \<Rightarrow> int \<Rightarrow> i32 \<Rightarrow> tc_storage \<Rightarrow> tc_storage option" where
  "tc_set index field v t = map_option (\<lambda>d. t\<lparr>tc_da := d\<rparr>) (da_SetInt (toPointer index + field) v (tc_da t))"

definition GetFromEdge :: "int \<Rightarrow> tc_storage \<Rightarrow> int option" where
  "GetFromEdge index t = map_option sint (tc_get index tcFrom t)"

definition GetToEdge :: "int \<Rightarrow> tc_storage \<Rightarrow> int option" where
  "GetToEdge index t = map_option sint (tc_get index tcTo t)"

definition GetFlags :: "int \<Rightarrow> tc_storage \<Rightarrow> i32 option" where
  "GetFlags index t = tc_get index tcFlags t"

definition tc_GetNext :: "int \<Rightarrow> tc_storage \<Rightarrow> int option" where
  "tc_GetNext index t = map_option sint (tc_get index tcNext t)"

definition tc_SetFlags :: "int \<Rightarrow> i32 \<Rightarrow> tc_storage \<Rightarrow> tc_storage option" where
  "tc_SetFlags index flags t = tc_set index tcFlags flags t"

section \<open>Finding and adding entries\<close>

text \<open>
  The loop of \<open>FindOrCreateEntry\<close>: \<open>Inl idx\<close> when the entry exists, \<open>Inr prevIdx\<close> at the end of the
  list. A cyclic list has no result.
\<close>

partial_function (option) find_entry_loop :: "i32 \<Rightarrow> i32 \<Rightarrow> int \<Rightarrow> int \<Rightarrow> tc_storage \<Rightarrow> (int + int) option" where
  "find_entry_loop fromEdge toEdge i prevIdx t =
     (if i \<noteq> NoTurnEntry then do {
        f \<leftarrow> tc_get i tcFrom t;
        found \<leftarrow> (if f = fromEdge then do { e \<leftarrow> tc_get i tcTo t; Some (e = toEdge) } else Some False);
        if found then Some (Inl i)
        else do {
          n \<leftarrow> tc_get i tcNext t;
          find_entry_loop fromEdge toEdge (sint n) i t } }
      else Some (Inr prevIdx))"

definition append_entry :: "int \<Rightarrow> int \<Rightarrow> int \<Rightarrow> int \<Rightarrow> tc_storage \<Rightarrow> nodes_edges
    \<Rightarrow> (int \<times> tc_storage \<times> nodes_edges) option" where
  "append_entry fromEdge viaNode toEdge prevIdx t s = do {
     let newIdx = tc_count t;
     let t = t\<lparr>tc_count := tc_count t + 1\<rparr>;
     (g, d) \<leftarrow> da_EnsureCapacity (tc_count t * bytesPerTCEntry) (tc_da t);
     let t = t\<lparr>tc_da := d\<rparr>;
     t \<leftarrow> tc_set newIdx tcFrom (word_of_int fromEdge) t;
     t \<leftarrow> tc_set newIdx tcTo (word_of_int toEdge) t;
     t \<leftarrow> tc_set newIdx tcFlags 0 t;
     t \<leftarrow> tc_set newIdx tcNext (word_of_int NoTurnEntry) t;
     if prevIdx = NoTurnEntry
     then do { s \<leftarrow> SetTurnCostIndex viaNode newIdx s; Some (newIdx, t, s) }
     else do { t \<leftarrow> tc_set prevIdx tcNext (word_of_int newIdx) t; Some (newIdx, t, s) } }"

definition FindOrCreateEntry :: "int \<Rightarrow> int \<Rightarrow> int \<Rightarrow> tc_storage \<Rightarrow> nodes_edges
    \<Rightarrow> (int \<times> tc_storage \<times> nodes_edges) option" where
  "FindOrCreateEntry fromEdge viaNode toEdge t s = do {
     i \<leftarrow> GetTurnCostIndex viaNode s;
     r \<leftarrow> find_entry_loop (word_of_int fromEdge) (word_of_int toEdge) i NoTurnEntry t;
     case r of
       Inl i \<Rightarrow> Some (i, t, s)
     | Inr prevIdx \<Rightarrow> append_entry fromEdge viaNode toEdge prevIdx t s }"

definition maxEntries :: nat where "maxEntries = 1000"

fun find_index_loop :: "nat \<Rightarrow> int \<Rightarrow> int \<Rightarrow> int \<Rightarrow> tc_storage \<Rightarrow> int option" where
  "find_index_loop 0 fromEdge toEdge i t = None"
| "find_index_loop (Suc k) fromEdge toEdge i t =
     (if i = NoTurnEntry then Some (- 1)
      else do {
        f \<leftarrow> tc_get i tcFrom t;
        found \<leftarrow> (if sint f = fromEdge then do { e \<leftarrow> tc_get i tcTo t; Some (sint e = toEdge) } else Some False);
        if found then Some i
        else do {
          n \<leftarrow> tc_get i tcNext t;
          find_index_loop k fromEdge toEdge (sint n) t } })"

definition findIndex :: "int \<Rightarrow> int \<Rightarrow> int \<Rightarrow> tc_storage \<Rightarrow> nodes_edges \<Rightarrow> int option" where
  "findIndex fromEdge viaNode toEdge t s = do {
     check (\<not> (fromEdge < 0 \<or> toEdge < 0));
     check (\<not> viaNode < 0);
     i \<leftarrow> GetTurnCostIndex viaNode s;
     find_index_loop maxEntries fromEdge toEdge i t }"

text \<open>\<open>tcEdgeIntAccess\<close>: the flags of an entry, whatever the index.\<close>

definition tc_access :: "tc_storage edge_int_access" where
  "tc_access = \<lparr>eia_get = (\<lambda>t entryIndex index. tc_get entryIndex tcFlags t),
     eia_set = (\<lambda>t entryIndex index v. tc_set entryIndex tcFlags v t)\<rparr>"

definition tc_GetDecimal :: "decimal_ev \<Rightarrow> int \<Rightarrow> int \<Rightarrow> int \<Rightarrow> tc_storage \<Rightarrow> nodes_edges \<Rightarrow> flt option" where
  "tc_GetDecimal dev fromEdge viaNode toEdge t s = do {
     i \<leftarrow> findIndex fromEdge viaNode toEdge t s;
     if i < 0 then Some (Fin 0) else GetDecimal tc_access False i t dev }"

definition tc_GetBool :: "int_ev \<Rightarrow> int \<Rightarrow> int \<Rightarrow> int \<Rightarrow> tc_storage \<Rightarrow> nodes_edges \<Rightarrow> bool option" where
  "tc_GetBool bev fromEdge viaNode toEdge t s = do {
     i \<leftarrow> findIndex fromEdge viaNode toEdge t s;
     if i < 0 then Some False else GetBool tc_access False i t bev }"

definition tc_SetBool :: "int_ev \<Rightarrow> int \<Rightarrow> int \<Rightarrow> int \<Rightarrow> bool \<Rightarrow> tc_storage \<Rightarrow> nodes_edges
    \<Rightarrow> (int_ev \<times> tc_storage \<times> nodes_edges) option" where
  "tc_SetBool bev fromEdge viaNode toEdge v t s = do {
     (i, t, s) \<leftarrow> FindOrCreateEntry fromEdge viaNode toEdge t s;
     check (\<not> i < 0);
     (bev, t) \<leftarrow> SetBool tc_access False i t v bev;
     Some (bev, t, s) }"

definition tc_SetDecimal :: "decimal_ev \<Rightarrow> int \<Rightarrow> int \<Rightarrow> int \<Rightarrow> flt \<Rightarrow> tc_storage \<Rightarrow> nodes_edges
    \<Rightarrow> (decimal_ev \<times> tc_storage \<times> nodes_edges) option" where
  "tc_SetDecimal dev fromEdge viaNode toEdge cost t s = do {
     (i, t, s) \<leftarrow> FindOrCreateEntry fromEdge viaNode toEdge t s;
     check (\<not> i < 0);
     (dev, t) \<leftarrow> SetDecimal tc_access False i t cost dev;
     Some (dev, t, s) }"

section \<open>Permuting\<close>

fun tc_sort_edges :: "nat \<Rightarrow> int \<Rightarrow> (int \<Rightarrow> int option) \<Rightarrow> tc_storage \<Rightarrow> tc_storage option" where
  "tc_sort_edges 0 i getNewEdge t = Some t"
| "tc_sort_edges (Suc k) i getNewEdge t = do {
     f \<leftarrow> tc_get i tcFrom t;
     f \<leftarrow> getNewEdge (sint f);
     t \<leftarrow> tc_set i tcFrom (word_of_int f) t;
     e \<leftarrow> tc_get i tcTo t;
     e \<leftarrow> getNewEdge (sint e);
     t \<leftarrow> tc_set i tcTo (word_of_int e) t;
     tc_sort_edges k (i + 1) getNewEdge t }"

definition tc_SortEdges :: "(int \<Rightarrow> int option) \<Rightarrow> tc_storage \<Rightarrow> tc_storage option" where
  "tc_SortEdges getNewEdge t = tc_sort_edges (nat (tc_count t)) 0 getNewEdge t"

record tc_entry =
  tce_from :: i32
  tce_to :: i32
  tce_flags :: i32
  tce_next :: i32

fun read_entries :: "nat \<Rightarrow> int \<Rightarrow> tc_storage \<Rightarrow> tc_entry list option" where
  "read_entries 0 i t = Some []"
| "read_entries (Suc k) i t = do {
     f \<leftarrow> tc_get i tcFrom t;
     e \<leftarrow> tc_get i tcTo t;
     fl \<leftarrow> tc_get i tcFlags t;
     n \<leftarrow> tc_get i tcNext t;
     es \<leftarrow> read_entries k (i + 1) t;
     Some (\<lparr>tce_from = f, tce_to = e, tce_flags = fl, tce_next = n\<rparr> # es) }"

partial_function (option) sort_node_entries :: "tc_entry list \<Rightarrow> int \<Rightarrow> bool \<Rightarrow> int \<Rightarrow> tc_storage
    \<Rightarrow> nodes_edges \<Rightarrow> (tc_storage \<times> nodes_edges) option" where
  "sort_node_entries entries node firstForNode i t s =
     (if i \<noteq> NoTurnEntry then do {
        (t, s) \<leftarrow> (if firstForNode
          then do { s \<leftarrow> SetTurnCostIndex node (tc_count t) s; Some (t, s) }
          else do { t \<leftarrow> tc_set (tc_count t - 1) tcNext (word_of_int (tc_count t)) t; Some (t, s) });
        e \<leftarrow> idx entries i;
        t \<leftarrow> tc_set (tc_count t) tcFrom (tce_from e) t;
        t \<leftarrow> tc_set (tc_count t) tcTo (tce_to e) t;
        t \<leftarrow> tc_set (tc_count t) tcFlags (tce_flags e) t;
        t \<leftarrow> tc_set (tc_count t) tcNext (word_of_int NoTurnEntry) t;
        sort_node_entries entries node False (sint (tce_next e)) (t\<lparr>tc_count := tc_count t + 1\<rparr>) s }
      else Some (t, s))"

fun sort_nodes_loop :: "nat \<Rightarrow> int \<Rightarrow> tc_entry list \<Rightarrow> tc_storage \<Rightarrow> nodes_edges
    \<Rightarrow> (tc_storage \<times> nodes_edges) option" where
  "sort_nodes_loop 0 node entries t s = Some (t, s)"
| "sort_nodes_loop (Suc k) node entries t s = do {
     i \<leftarrow> GetTurnCostIndex node s;
     (t, s) \<leftarrow> sort_node_entries entries node True i t s;
     sort_nodes_loop k (node + 1) entries t s }"

definition tc_SortNodes :: "int \<Rightarrow> tc_storage \<Rightarrow> nodes_edges \<Rightarrow> (tc_storage \<times> nodes_edges) option" where
  "tc_SortNodes node_count t s = do {
     entries \<leftarrow> read_entries (nat (tc_count t)) 0 t;
     let countBefore = tc_count t;
     (t, s) \<leftarrow> sort_nodes_loop (nat node_count) 0 entries (t\<lparr>tc_count := 0\<rparr>) s;
     check (\<not> countBefore \<noteq> tc_count t);
     Some (t, s) }"

section \<open>Iterating\<close>

partial_function (option) count_entries :: "int \<Rightarrow> int \<Rightarrow> tc_storage \<Rightarrow> int option" where
  "count_entries i count t =
     (if i \<noteq> NoTurnEntry then do {
        n \<leftarrow> tc_get i tcNext t;
        count_entries (sint n) (count + 1) t }
      else Some count)"

definition GetTurnCostsCount :: "int \<Rightarrow> tc_storage \<Rightarrow> nodes_edges \<Rightarrow> int option" where
  "GetTurnCostsCount node t s = do {
     i \<leftarrow> GetTurnCostIndex node s;
     count_entries i 0 t }"

record tc_iterator =
  tci_nodeCount :: int
  tci_viaNode :: int
  tci_index :: int

definition GetAllTurnCosts :: "int \<Rightarrow> tc_iterator" where
  "GetAllTurnCosts node_count = \<lparr>tci_nodeCount = node_count, tci_viaNode = - 1, tci_index = NoTurnEntry\<rparr>"

definition nextTCI :: "tc_storage \<Rightarrow> tc_iterator \<Rightarrow> (bool \<times> tc_iterator) option" where
  "nextTCI t it =
     (if tci_index it = NoTurnEntry then Some (False, it)
      else do {
        n \<leftarrow> tc_get (tci_index it) tcNext t;
        Some (sint n \<noteq> NoTurnEntry, it\<lparr>tci_index := sint n\<rparr>) })"

definition nextNode :: "nodes_edges \<Rightarrow> tc_iterator \<Rightarrow> (bool \<times> tc_iterator) option" where
  "nextNode s it =
     (let it = it\<lparr>tci_viaNode := tci_viaNode it + 1\<rparr>
      in if tci_viaNode it \<ge> tci_nodeCount it then Some (False, it)
         else do {
           i \<leftarrow> GetTurnCostIndex (tci_viaNode it) s;
           Some (True, it\<lparr>tci_index := i\<rparr>) })"

text \<open>The loop of \<open>Next\<close> visits every node at most once: the number of nodes left is enough fuel.\<close>

fun next_node_loop :: "nat \<Rightarrow> nodes_edges \<Rightarrow> tc_iterator \<Rightarrow> (bool \<times> tc_iterator) option" where
  "next_node_loop 0 s it = None"
| "next_node_loop (Suc k) s it = do {
     (more, it) \<leftarrow> nextNode s it;
     if \<not> more then Some (False, it)
     else if tci_index it \<noteq> NoTurnEntry then Some (True, it)
     else next_node_loop k s it }"

definition tci_Next :: "tc_storage \<Rightarrow> nodes_edges \<Rightarrow> tc_iterator \<Rightarrow> (bool \<times> tc_iterator) option" where
  "tci_Next t s it = do {
     (more, it) \<leftarrow> nextTCI t it;
     if more then Some (True, it)
     else next_node_loop (Suc (nat (tci_nodeCount it - tci_viaNode it))) s it }"

definition tci_GetBool :: "int_ev \<Rightarrow> tc_storage \<Rightarrow> tc_iterator \<Rightarrow> bool option" where
  "tci_GetBool bev t it = do {
     v \<leftarrow> tc_get (tci_index it) tcFlags t;
     GetBool ints_access False (- 1) [v] bev }"

definition tci_GetCost :: "decimal_ev \<Rightarrow> tc_storage \<Rightarrow> tc_iterator \<Rightarrow> flt option" where
  "tci_GetCost dev t it = do {
     v \<leftarrow> tc_get (tci_index it) tcFlags t;
     GetDecimal ints_access False (- 1) [v] dev }"

end
