(* ===== verification/KVStorage.thy ===== *)
theory KVStorage imports NodesEdges "HOL-Library.AList" begin

text \<open>
  \<^verbatim>\<open>core/storage/kv_storage.go\<close>: key-value pairs of edges, appended to a data access. Go strings are
  byte strings (\<open>string\<close>), floating-point values are kept as their bit patterns, which is all the code
  does with them; \<open>KvOther\<close> is a value of any other type, \<open>KvNil\<close> is nil.
\<close>

section \<open>Values\<close>

datatype kv_value = KvString string | KvBytes "byte list" | KvInt int | KvInt32 i32
  | KvFloat32 "32 word" | KvInt64 i64 | KvFloat64 "64 word" | KvOther | KvNil

definition str_bytes :: "string \<Rightarrow> byte list" where "str_bytes s = map of_char s"
definition bytes_str :: "byte list \<Rightarrow> string" where "bytes_str b = map (\<lambda>x. char_of (uint x)) b"

text \<open>The classes of values are the characters \<open>S [ i f l d\<close>.\<close>

definition classTypeOf :: "kv_value \<Rightarrow> byte option" where
  "classTypeOf v = (case v of
     KvString _ \<Rightarrow> Some 83 | KvBytes _ \<Rightarrow> Some 91 | KvInt _ \<Rightarrow> Some 105 | KvInt32 _ \<Rightarrow> Some 105
   | KvFloat32 _ \<Rightarrow> Some 102 | KvInt64 _ \<Rightarrow> Some 108 | KvFloat64 _ \<Rightarrow> Some 100 | KvOther \<Rightarrow> None | KvNil \<Rightarrow> None)"

section \<open>State\<close>

abbreviation (input) kvEmptyPointer :: int where "kvEmptyPointer \<equiv> 0"
abbreviation (input) kvStartPointer :: int where "kvStartPointer \<equiv> 1"

record kv_storage =
  kv_keys :: data_access
  kv_vals :: data_access
  keyToIndex :: "string \<Rightarrow> int option"
  indexToKey :: "string list"
  indexToType :: "byte list"
  bytePointer :: int

definition NewKVStorage :: "(string \<Rightarrow> string \<Rightarrow> bool) \<Rightarrow> bool \<Rightarrow> gh_directory \<Rightarrow> (kv_storage \<times> gh_directory) option" where
  "NewKVStorage matches edge dir = do {
     let (keysName, valsName) = (if edge then (''edgekv_keys'', ''edgekv_vals'') else (''nodekv_keys'', ''nodekv_vals''));
     (ks, dir) \<leftarrow> CreateFull keysName (getDefault matches dir keysName) (10 * 1024) dir;
     (vs, dir) \<leftarrow> CreateFull valsName (getDefault matches dir valsName) (- 1) dir;
     Some (\<lparr>kv_keys = ks, kv_vals = vs, keyToIndex = (\<lambda>_. None), indexToKey = [], indexToType = [],
       bytePointer = kvStartPointer\<rparr>, dir) }"

definition kv_Create :: "int \<Rightarrow> kv_storage \<Rightarrow> kv_storage option" where
  "kv_Create initBytes kv = do {
     ks \<leftarrow> da_Create initBytes (kv_keys kv);
     vs \<leftarrow> da_Create initBytes (kv_vals kv);
     Some (kv\<lparr>kv_keys := ks, kv_vals := vs, keyToIndex := (keyToIndex kv)([] \<mapsto> 0),
       indexToKey := indexToKey kv @ [[]], indexToType := indexToType kv @ [83]\<rparr>) }"

section \<open>Writing\<close>

definition be16 :: "16 word \<Rightarrow> byte list" where
  "be16 v = [ucast (drop_bit 8 v), ucast v]"

definition le32 :: "32 word \<Rightarrow> byte list" where "le32 v = bytes32 v"

definition le64 :: "64 word \<Rightarrow> byte list" where
  "le64 v = bytes32 (ucast v) @ bytes32 (ucast (drop_bit 32 v))"

text \<open>A string or a byte slice: a length byte, which truncates, and the bytes.\<close>

definition write_blob :: "byte list \<Rightarrow> kv_storage \<Rightarrow> kv_storage option" where
  "write_blob b kv = do {
     (g, d) \<leftarrow> da_EnsureCapacity (bytePointer kv + 1 + int (length b)) (kv_vals kv);
     d \<leftarrow> da_SetByte (bytePointer kv) (word_of_int (int (length b))) d;
     let kv = kv\<lparr>kv_vals := d, bytePointer := bytePointer kv + 1\<rparr>;
     if length b > 0 then do {
       d \<leftarrow> da_SetBytes (bytePointer kv) b (int (length b)) (kv_vals kv);
       Some (kv\<lparr>kv_vals := d, bytePointer := bytePointer kv + int (length b)\<rparr>) }
     else Some kv }"

definition write_fixed :: "byte list \<Rightarrow> kv_storage \<Rightarrow> kv_storage option" where
  "write_fixed b kv = do {
     (g, d) \<leftarrow> da_EnsureCapacity (bytePointer kv + int (length b)) (kv_vals kv);
     d \<leftarrow> da_SetBytes (bytePointer kv) b (int (length b)) d;
     Some (kv\<lparr>kv_vals := d, bytePointer := bytePointer kv + int (length b)\<rparr>) }"

definition writeValue :: "kv_value \<Rightarrow> byte \<Rightarrow> kv_storage \<Rightarrow> kv_storage option" where
  "writeValue v classType kv =
     (if classType = 83 then write_blob (case v of KvString s \<Rightarrow> str_bytes s | _ \<Rightarrow> []) kv
      else if classType = 91 then write_blob (case v of KvBytes b \<Rightarrow> b | _ \<Rightarrow> []) kv
      else if classType = 105 then do {
        let w = (case v of KvInt n \<Rightarrow> word_of_int n | KvInt32 n \<Rightarrow> n | _ \<Rightarrow> 0);
        (g, d) \<leftarrow> da_EnsureCapacity (bytePointer kv + 4) (kv_vals kv);
        d \<leftarrow> da_SetInt (bytePointer kv) w d;
        Some (kv\<lparr>kv_vals := d, bytePointer := bytePointer kv + 4\<rparr>) }
      else if classType = 102 then
        (case v of KvFloat32 w \<Rightarrow> write_fixed (le32 w) kv | _ \<Rightarrow> None)
      else if classType = 108 then
        (case v of KvInt64 w \<Rightarrow> write_fixed (le64 w) kv | _ \<Rightarrow> None)
      else if classType = 100 then
        (case v of KvFloat64 w \<Rightarrow> write_fixed (le64 w) kv | _ \<Rightarrow> None)
      else Some kv)"

text \<open>The index of a key, which a new key gets with the class of its first value.\<close>

definition key_index :: "string \<Rightarrow> kv_value \<Rightarrow> kv_storage \<Rightarrow> (int \<times> kv_storage) option" where
  "key_index key v kv =
     (case keyToIndex kv key of
        Some i \<Rightarrow> Some (i, kv)
      | None \<Rightarrow> do {
          let i = int (length (indexToKey kv));
          ty \<leftarrow> classTypeOf v;
          Some (i, kv\<lparr>keyToIndex := (keyToIndex kv)(key \<mapsto> i), indexToKey := indexToKey kv @ [key],
            indexToType := indexToType kv @ [ty]\<rparr>) })"

fun add_entries :: "(string \<times> kv_value) list \<Rightarrow> kv_storage \<Rightarrow> kv_storage option" where
  "add_entries [] kv = Some kv"
| "add_entries ((key, v) # es) kv = do {
     (keyIdx, kv) \<leftarrow> key_index key v kv;
     let raw = (word_of_int (push_bit 2 keyIdx OR 3) :: 16 word);
     kv \<leftarrow> write_fixed (be16 raw) kv;
     ty \<leftarrow> idx (indexToType kv) keyIdx;
     kv \<leftarrow> writeValue v ty kv;
     add_entries es kv }"

text \<open>
  The entries of the map in the order in which the loop over it meets them, a different key each.
  A nil map panics.
\<close>

definition kv_Add :: "(string \<times> kv_value) list option \<Rightarrow> kv_storage \<Rightarrow> (int \<times> kv_storage) option" where
  "kv_Add entries kv = do {
     es \<leftarrow> entries;
     if es = [] then Some (kvEmptyPointer, kv)
     else do {
       let entryPointer = bytePointer kv;
       (g, d) \<leftarrow> da_EnsureCapacity (bytePointer kv + 1) (kv_vals kv);
       d \<leftarrow> da_SetByte (bytePointer kv) (word_of_int (int (length es))) d;
       let kv = kv\<lparr>kv_vals := d, bytePointer := bytePointer kv + 1\<rparr>;
       kv \<leftarrow> add_entries es kv;
       Some (entryPointer, kv) } }"

section \<open>Reading\<close>

definition read_bytes :: "int \<Rightarrow> nat \<Rightarrow> data_access \<Rightarrow> byte list option" where
  "read_bytes pos n d = da_GetBytes pos (replicate n 0) (int n) d"

definition get_le32 :: "byte list \<Rightarrow> 32 word" where
  "get_le32 b = word32 (b ! 0) (b ! 1) (b ! 2) (b ! 3)"

definition get_le64 :: "byte list \<Rightarrow> 64 word" where
  "get_le64 b = ucast (get_le32 b) OR push_bit 32 (ucast (get_le32 (drop 4 b)))"

definition readValue :: "int \<Rightarrow> byte \<Rightarrow> data_access \<Rightarrow> kv_value option" where
  "readValue pos classType d =
     (if classType = 83 then do {
        n \<leftarrow> da_GetByte pos d;
        if n = 0 then Some (KvString [])
        else do { b \<leftarrow> read_bytes (pos + 1) (unat n) d; Some (KvString (bytes_str b)) } }
      else if classType = 91 then do {
        n \<leftarrow> da_GetByte pos d;
        if unat n > 0 then do { b \<leftarrow> read_bytes (pos + 1) (unat n) d; Some (KvBytes b) }
        else Some (KvBytes []) }
      else if classType = 105 then do { v \<leftarrow> da_GetInt pos d; Some (KvInt (sint v)) }
      else if classType = 102 then do { b \<leftarrow> read_bytes pos 4 d; Some (KvFloat32 (get_le32 b)) }
      else if classType = 108 then do { b \<leftarrow> read_bytes pos 8 d; Some (KvInt64 (get_le64 b)) }
      else if classType = 100 then do { b \<leftarrow> read_bytes pos 8 d; Some (KvFloat64 (get_le64 b)) }
      else Some KvNil)"

definition valueLength :: "int \<Rightarrow> byte \<Rightarrow> data_access \<Rightarrow> int option" where
  "valueLength pos classType d =
     (if classType = 83 \<or> classType = 91 then do { n \<leftarrow> da_GetByte pos d; Some (1 + uint n) }
      else if classType = 105 \<or> classType = 102 then Some 4
      else if classType = 108 \<or> classType = 100 then Some 8
      else Some 0)"

fun get_loop :: "nat \<Rightarrow> int \<Rightarrow> int \<Rightarrow> int \<Rightarrow> kv_storage \<Rightarrow> kv_value option" where
  "get_loop 0 pos keyIdx dirBit kv = Some KvNil"
| "get_loop (Suc k) pos keyIdx dirBit kv = do {
     b \<leftarrow> read_bytes pos 2 (kv_vals kv);
     let raw = uint (be_Uint16 b);
     let curKeyIdx = drop_bit 2 raw;
     let pos = pos + 2;
     if curKeyIdx \<ge> int (length (indexToKey kv)) then Some KvNil
     else do {
       classType \<leftarrow> idx (indexToType kv) curKeyIdx;
       if curKeyIdx = keyIdx \<and> raw AND dirBit \<noteq> 0 then readValue pos classType (kv_vals kv)
       else do {
         n \<leftarrow> valueLength pos classType (kv_vals kv);
         get_loop k (pos + n) keyIdx dirBit kv } } }"

definition kv_Get :: "int \<Rightarrow> string \<Rightarrow> bool \<Rightarrow> kv_storage \<Rightarrow> kv_value option" where
  "kv_Get entryPointer key reverse kv =
     (if entryPointer = kvEmptyPointer then Some KvNil
      else case keyToIndex kv key of
        None \<Rightarrow> Some KvNil
      | Some keyIdx \<Rightarrow> do {
          count \<leftarrow> da_GetByte entryPointer (kv_vals kv);
          get_loop (unat count) (entryPointer + 1) keyIdx (if reverse then 1 else 2) kv })"

text \<open>
  \<open>GetAll\<close> builds a map, nil for the empty pointer. The map is a list of its entries, in the order in which
  a loop over it meets them.
\<close>

fun get_all_loop :: "nat \<Rightarrow> int \<Rightarrow> (string \<times> kv_value) list \<Rightarrow> kv_storage
    \<Rightarrow> (string \<times> kv_value) list option" where
  "get_all_loop 0 pos result kv = Some result"
| "get_all_loop (Suc k) pos result kv = do {
     b \<leftarrow> read_bytes pos 2 (kv_vals kv);
     let keyIdx = drop_bit 2 (uint (be_Uint16 b));
     let pos = pos + 2;
     if keyIdx \<ge> int (length (indexToKey kv)) then Some result
     else do {
       classType \<leftarrow> idx (indexToType kv) keyIdx;
       key \<leftarrow> idx (indexToKey kv) keyIdx;
       v \<leftarrow> readValue pos classType (kv_vals kv);
       n \<leftarrow> valueLength pos classType (kv_vals kv);
       get_all_loop k (pos + n) (AList.update key v result) kv } }"

definition kv_GetAll :: "int \<Rightarrow> kv_storage \<Rightarrow> (string \<times> kv_value) list option option" where
  "kv_GetAll entryPointer kv =
     (if entryPointer = kvEmptyPointer then Some None
      else do {
        count \<leftarrow> da_GetByte entryPointer (kv_vals kv);
        m \<leftarrow> get_all_loop (unat count) (entryPointer + 1) [] kv;
        Some (Some m) })"

section \<open>Files\<close>

definition VersionKVStorage :: int where "VersionKVStorage = 2"

fun write_keys :: "(string \<times> byte) list \<Rightarrow> int \<Rightarrow> data_access \<Rightarrow> data_access option" where
  "write_keys [] pos d = Some d"
| "write_keys ((key, ty) # ks) pos d = do {
     d \<leftarrow> da_SetBytes pos (be16 (word_of_int (int (length key)))) 2 d;
     let pos = pos + 2;
     (pos, d) \<leftarrow> (if length key > 0 then do {
         d \<leftarrow> da_SetBytes pos (str_bytes key) (int (length key)) d;
         Some (pos + int (length key), d) }
       else Some (pos, d));
     d \<leftarrow> da_SetByte pos ty d;
     write_keys ks (pos + 1) d }"

definition kv_Flush :: "kv_storage \<Rightarrow> file_system \<Rightarrow> (kv_storage \<times> file_system) option" where
  "kv_Flush kv fs = do {
     let totalSize = 2 + sum_list (map (\<lambda>key. 2 + int (length key) + 1) (indexToKey kv));
     (g, ks) \<leftarrow> da_EnsureCapacity totalSize (kv_keys kv);
     ks \<leftarrow> da_SetBytes 0 (be16 (word_of_int (int (length (indexToKey kv))))) 2 ks;
     ks \<leftarrow> write_keys (zip (indexToKey kv) (indexToType kv)) 2 ks;
     vs \<leftarrow> da_Set_Header (0*4) (GetIntLow (word_of_int (bytePointer kv))) (kv_vals kv);
     vs \<leftarrow> da_Set_Header (1*4) (GetIntHigh (word_of_int (bytePointer kv))) vs;
     vs \<leftarrow> da_Set_Header (2*4) (word_of_int VersionKVStorage) vs;
     fs \<leftarrow> da_Flush ks fs;
     fs \<leftarrow> da_Flush vs fs;
     Some (kv\<lparr>kv_keys := ks, kv_vals := vs\<rparr>, fs) }"

fun load_keys :: "nat \<Rightarrow> int \<Rightarrow> int \<Rightarrow> kv_storage \<Rightarrow> kv_storage option" where
  "load_keys 0 i pos kv = Some kv"
| "load_keys (Suc k) i pos kv = do {
     b \<leftarrow> read_bytes pos 2 (kv_keys kv);
     let keyLen = unat (be_Uint16 b);
     let pos = pos + 2;
     kb \<leftarrow> (if keyLen > 0 then read_bytes pos keyLen (kv_keys kv) else Some []);
     let pos = pos + int keyLen;
     ty \<leftarrow> da_GetByte pos (kv_keys kv);
     let key = bytes_str kb;
     load_keys k (i + 1) (pos + 1) (kv\<lparr>keyToIndex := (keyToIndex kv)(key \<mapsto> i),
       indexToKey := indexToKey kv @ [key], indexToType := indexToType kv @ [ty]\<rparr>) }"

definition kv_LoadExisting :: "file_system \<Rightarrow> kv_storage \<Rightarrow> (bool \<times> kv_storage) option" where
  "kv_LoadExisting fs kv = do {
     (ok, vs) \<leftarrow> da_LoadExisting fs (kv_vals kv);
     let kv = kv\<lparr>kv_vals := vs\<rparr>;
     if \<not> ok then Some (False, kv)
     else do {
       (ok, ks) \<leftarrow> da_LoadExisting fs (kv_keys kv);
       let kv = kv\<lparr>kv_keys := ks\<rparr>;
       if \<not> ok then Some (False, kv)
       else do {
         low \<leftarrow> da_Get_Header (0*4) vs;
         high \<leftarrow> da_Get_Header (1*4) vs;
         let kv = kv\<lparr>bytePointer := sint (ToLongFromInts low high)\<rparr>;
         v \<leftarrow> da_Get_Header (2*4) vs;
         u \<leftarrow> checkDAVersion VersionKVStorage (sint v);
         b \<leftarrow> read_bytes 0 2 ks;
         kv \<leftarrow> load_keys (unat (be_Uint16 b)) 0 2
           (kv\<lparr>keyToIndex := (\<lambda>_. None), indexToKey := [], indexToType := []\<rparr>);
         Some (True, kv) } } }"

definition kv_Close :: "kv_storage \<Rightarrow> kv_storage" where
  "kv_Close kv = kv\<lparr>kv_keys := da_Close (kv_keys kv), kv_vals := da_Close (kv_vals kv)\<rparr>"

definition kv_IsClosed :: "kv_storage \<Rightarrow> bool" where
  "kv_IsClosed kv \<longleftrightarrow> da_IsClosed (kv_vals kv) \<and> da_IsClosed (kv_keys kv)"

end
