(* ===== verification/PointList.thy ===== *)
theory PointList imports GeoUtil begin

text \<open>
  \<^verbatim>\<open>core/util/point_list.go\<close>: points in parallel slices of latitudes, longitudes and elevations, and
  the fetch modes of \<^verbatim>\<open>fetch_mode.go\<close>. Parsing and printing are left out.
\<close>

record point_list =
  lats :: "flt list"
  lons :: "flt list"
  eles :: "flt list"
  pl_is3D :: bool
  immutable :: bool

definition NewPointList :: "bool \<Rightarrow> point_list" where
  "NewPointList is3D = \<lparr>lats = [], lons = [], eles = [], pl_is3D = is3D, immutable = False\<rparr>"

definition ensureMutable :: "point_list \<Rightarrow> unit option" where
  "ensureMutable pl = check (\<not> immutable pl)"

definition pl_Add :: "flt \<Rightarrow> flt \<Rightarrow> point_list \<Rightarrow> point_list option" where
  "pl_Add lat lon pl = do {
     ensureMutable pl;
     check (\<not> pl_is3D pl);
     Some (pl\<lparr>lats := lats pl @ [lat], lons := lons pl @ [lon]\<rparr>) }"

definition pl_Add3D :: "flt \<Rightarrow> flt \<Rightarrow> flt \<Rightarrow> point_list \<Rightarrow> point_list option" where
  "pl_Add3D lat lon ele pl = do {
     ensureMutable pl;
     let pl = pl\<lparr>lats := lats pl @ [lat], lons := lons pl @ [lon]\<rparr>;
     if pl_is3D pl then Some (pl\<lparr>eles := eles pl @ [ele]\<rparr>)
     else do { check (math_IsNaN ele); Some pl } }"

definition pl_checkIndex :: "int \<Rightarrow> point_list \<Rightarrow> unit option" where
  "pl_checkIndex index pl = check (\<not> index \<ge> int (length (lats pl)))"

definition pl_GetLat :: "int \<Rightarrow> point_list \<Rightarrow> flt option" where
  "pl_GetLat index pl = do { pl_checkIndex index pl; idx (lats pl) index }"

definition pl_GetLon :: "int \<Rightarrow> point_list \<Rightarrow> flt option" where
  "pl_GetLon index pl = do { pl_checkIndex index pl; idx (lons pl) index }"

definition pl_GetEle :: "int \<Rightarrow> point_list \<Rightarrow> flt option" where
  "pl_GetEle index pl = do {
     pl_checkIndex index pl;
     if \<not> pl_is3D pl then Some NaN else idx (eles pl) index }"

definition pl_AddFrom :: "point_list \<Rightarrow> int \<Rightarrow> point_list \<Rightarrow> point_list option" where
  "pl_AddFrom other index pl = do {
     ensureMutable pl;
     lat \<leftarrow> pl_GetLat index other;
     lon \<leftarrow> pl_GetLon index other;
     if pl_is3D pl then do { ele \<leftarrow> pl_GetEle index other; pl_Add3D lat lon ele pl }
     else pl_Add lat lon pl }"

definition AddPointList :: "point_list \<Rightarrow> point_list \<Rightarrow> point_list option" where
  "AddPointList other pl = do {
     ensureMutable pl;
     let pl' = pl\<lparr>lats := lats pl @ lats other, lons := lons pl @ lons other\<rparr>;
     if pl_is3D pl then
       (if pl_is3D other then Some (pl'\<lparr>eles := eles pl @ eles other\<rparr>)
        else Some (pl'\<lparr>eles := eles pl @ map (\<lambda>_. NaN) (lats other)\<rparr>))
     else Some pl' }"

definition pl_Set :: "int \<Rightarrow> flt \<Rightarrow> flt \<Rightarrow> flt \<Rightarrow> point_list \<Rightarrow> point_list option" where
  "pl_Set index lat lon ele pl = do {
     ensureMutable pl;
     pl_checkIndex index pl;
     la \<leftarrow> put (lats pl) index lat;
     lo \<leftarrow> put (lons pl) index lon;
     let pl = pl\<lparr>lats := la, lons := lo\<rparr>;
     if pl_is3D pl then do { el \<leftarrow> put (eles pl) index ele; Some (pl\<lparr>eles := el\<rparr>) }
     else do { check (math_IsNaN ele); Some pl } }"

definition pl_Size :: "point_list \<Rightarrow> int" where "pl_Size pl = int (length (lats pl))"
definition pl_IsEmpty :: "point_list \<Rightarrow> bool" where "pl_IsEmpty pl \<longleftrightarrow> lats pl = []"

definition MakeImmutable :: "point_list \<Rightarrow> point_list" where
  "MakeImmutable pl = pl\<lparr>immutable := True\<rparr>"

definition pl_Reverse :: "point_list \<Rightarrow> point_list option" where
  "pl_Reverse pl = do {
     ensureMutable pl;
     let pl = pl\<lparr>lats := rev (lats pl), lons := rev (lons pl)\<rparr>;
     Some (if pl_is3D pl then pl\<lparr>eles := rev (eles pl)\<rparr> else pl) }"

definition pl_Copy :: "int \<Rightarrow> int \<Rightarrow> point_list \<Rightarrow> point_list option" where
  "pl_Copy from' end' pl = do {
     check (\<not> from' > end');
     check (\<not> (from' < 0 \<or> end' > int (length (lats pl))));
     la \<leftarrow> slice (lats pl) from' end';
     lo \<leftarrow> slice (lons pl) from' end';
     el \<leftarrow> (if pl_is3D pl then slice (eles pl) from' end' else Some []);
     Some \<lparr>lats = la, lons = lo, eles = el, pl_is3D = pl_is3D pl, immutable = False\<rparr> }"

definition pl_Clone :: "bool \<Rightarrow> point_list \<Rightarrow> point_list option" where
  "pl_Clone reverse pl = do {
     c \<leftarrow> pl_Copy 0 (int (length (lats pl))) pl;
     if reverse then pl_Reverse c else Some c }"

text \<open>Shortening to a prefix keeps the capacity of the slices, which is not modelled.\<close>

definition TrimToSize :: "int \<Rightarrow> point_list \<Rightarrow> point_list option" where
  "TrimToSize newSize pl = do {
     ensureMutable pl;
     check (\<not> newSize > int (length (lats pl)));
     la \<leftarrow> slice (lats pl) 0 newSize;
     lo \<leftarrow> slice (lons pl) 0 newSize;
     let pl = pl\<lparr>lats := la, lons := lo\<rparr>;
     if pl_is3D pl then do { el \<leftarrow> slice (eles pl) 0 newSize; Some (pl\<lparr>eles := el\<rparr>) } else Some pl }"

definition RemoveLastPoint :: "point_list \<Rightarrow> point_list option" where
  "RemoveLastPoint pl = do {
     ensureMutable pl;
     let n = int (length (lats pl));
     check (\<not> n = 0);
     la \<leftarrow> slice (lats pl) 0 (n - 1);
     lo \<leftarrow> slice (lons pl) 0 (n - 1);
     let pl = pl\<lparr>lats := la, lons := lo\<rparr>;
     if pl_is3D pl then do { el \<leftarrow> slice (eles pl) 0 (n - 1); Some (pl\<lparr>eles := el\<rparr>) } else Some pl }"

definition pl_Clear :: "point_list \<Rightarrow> point_list option" where
  "pl_Clear pl = do {
     ensureMutable pl;
     let pl = pl\<lparr>lats := [], lons := []\<rparr>;
     Some (if pl_is3D pl then pl\<lparr>eles := []\<rparr> else pl) }"

definition EqualsEpsCustom :: "flt \<Rightarrow> flt \<Rightarrow> flt \<Rightarrow> bool" where
  "EqualsEpsCustom d1 d2 epsilon = flt_less (math_Abs (fsub d1 d2)) epsilon"

definition EqualsEps :: "flt \<Rightarrow> flt \<Rightarrow> bool" where
  "EqualsEps d1 d2 = flt_less (math_Abs (fsub d1 d2)) (f64 (1 / 1000000))"

fun pl_equals_loop :: "nat \<Rightarrow> int \<Rightarrow> point_list \<Rightarrow> point_list \<Rightarrow> bool option" where
  "pl_equals_loop 0 i pl other = Some True"
| "pl_equals_loop (Suc k) i pl other = do {
     la \<leftarrow> idx (lats pl) i;
     la' \<leftarrow> idx (lats other) i;
     same \<leftarrow> (if \<not> EqualsEps la la' then Some False
       else do { lo \<leftarrow> idx (lons pl) i; lo' \<leftarrow> idx (lons other) i; Some (EqualsEps lo lo') });
     if \<not> same then Some False
     else do {
       same \<leftarrow> (if pl_is3D pl
         then do { el \<leftarrow> idx (eles pl) i; el' \<leftarrow> idx (eles other) i; Some (EqualsEpsCustom el el' (f64 (1 / 100))) }
         else Some True);
       if \<not> same then Some False else pl_equals_loop k (i + 1) pl other } }"

definition pl_Equals :: "point_list option \<Rightarrow> point_list option \<Rightarrow> bool option" where
  "pl_Equals p q = (case (p, q) of
     (None, None) \<Rightarrow> Some True
   | (Some pl, Some other) \<Rightarrow>
       if pl_IsEmpty pl \<and> pl_IsEmpty other then Some True
       else if length (lats pl) \<noteq> length (lats other) \<or> pl_is3D pl \<noteq> pl_is3D other then Some False
       else pl_equals_loop (length (lats pl)) 0 pl other
   | _ \<Rightarrow> Some False)"

section \<open>Fetch modes\<close>

datatype fetch_mode = FetchModeTowerOnly | FetchModePillarOnly | FetchModeBaseAndPillar
  | FetchModePillarAndAdj | FetchModeAll

section \<open>Points\<close>

text \<open>The slices of a list have the same length, and the list of its points is what it stands for.\<close>

definition pl_ok :: "point_list \<Rightarrow> bool" where
  "pl_ok pl \<longleftrightarrow> length (lons pl) = length (lats pl) \<and>
     (if pl_is3D pl then length (eles pl) = length (lats pl) else eles pl = [])"

definition points :: "point_list \<Rightarrow> (flt \<times> flt \<times> flt) list" where
  "points pl = zip (lats pl) (zip (lons pl) (if pl_is3D pl then eles pl else map (\<lambda>_. NaN) (lats pl)))"

lemma length_points: "pl_ok pl \<Longrightarrow> length (points pl) = length (lats pl)"
  by (auto simp: pl_ok_def points_def split: if_splits)

lemma pl_Add_points:
  assumes "pl_ok pl" "pl_Add lat lon pl = Some pl'"
  shows "pl_ok pl'" "points pl' = points pl @ [(lat, lon, NaN)]"
  using assms by (auto simp: pl_Add_def pl_ok_def points_def ensureMutable_def split: if_splits)

lemma pl_Add3D_points:
  assumes "pl_ok pl" "pl_Add3D lat lon ele pl = Some pl'"
  shows "pl_ok pl'" "points pl' = points pl @ [(lat, lon, ele)]"
  using assms
  by (auto simp: pl_Add3D_def pl_ok_def points_def ensureMutable_def Let_def math_IsNaN_def split: if_splits)

lemma pl_Reverse_points:
  assumes "pl_ok pl" "pl_Reverse pl = Some pl'"
  shows "pl_ok pl'" "points pl' = rev (points pl)"
  using assms
  by (auto simp: pl_Reverse_def pl_ok_def points_def ensureMutable_def Let_def zip_rev rev_map [symmetric] split: if_splits)

lemma AddPointList_points:
  assumes "pl_ok pl" "pl_ok other" "AddPointList other pl = Some pl'" "\<not> pl_is3D pl \<longrightarrow> \<not> pl_is3D other"
  shows "pl_ok pl'" "points pl' = points pl @ points other"
  using assms
  by (auto simp: AddPointList_def pl_ok_def points_def ensureMutable_def Let_def split: if_splits)

lemma pl_Get_points:
  assumes "pl_ok pl" "0 \<le> i" "i < pl_Size pl"
  shows "pl_GetLat i pl = Some (fst (points pl ! nat i))"
    "pl_GetLon i pl = Some (fst (snd (points pl ! nat i)))"
    "pl_GetEle i pl = Some (snd (snd (points pl ! nat i)))"
  using assms
  by (auto simp: pl_GetLat_def pl_GetLon_def pl_GetEle_def pl_checkIndex_def idx_def pl_Size_def pl_ok_def
      points_def split: if_splits)

lemma pl_Copy_points:
  assumes "pl_ok pl" "pl_Copy from' end' pl = Some pl'"
  shows "pl_ok pl'" "points pl' = take (nat end' - nat from') (drop (nat from') (points pl))"
  using assms
  by (auto simp: pl_Copy_def pl_ok_def points_def slice_def drop_zip take_zip drop_map take_map split: if_splits)

lemma pl_Clone_points:
  assumes "pl_ok pl" "pl_Clone r pl = Some pl'"
  shows "pl_ok pl'" "points pl' = (if r then rev (points pl) else points pl)"
proof -
  obtain c where c: "pl_Copy 0 (int (length (lats pl))) pl = Some c"
    using assms(2) by (auto simp: pl_Clone_def bind_Some_iff)
  note C = pl_Copy_points [OF assms(1) c]
  have "points c = points pl" using C(2) length_points [OF assms(1)] by simp
  then show "pl_ok pl'" "points pl' = (if r then rev (points pl) else points pl)"
    using assms(2) c C(1) pl_Reverse_points [OF C(1)] by (auto simp: pl_Clone_def split: if_splits)
qed

end
