(* ===== verification/BaseGraph.thy ===== *)
theory BaseGraph imports TurnCostStorage KVStorage PointList begin

text \<open>
  \<^verbatim>\<open>core/storage/base_graph.go\<close>: the graph owns the node and edge records, the way geometry (pillar
  points of edges in a byte storage of their own), the key-value storage and the turn costs.
\<close>

section \<open>State\<close>

record base_graph =
  Store :: nodes_edges
  EdgeKVStorage :: kv_storage
  TurnCosts :: "tc_storage option"
  wayGeometry :: data_access
  bg_dir :: gh_directory
  bg_segmentSize :: int
  initialized :: bool
  minGeoRef :: int
  maxGeoRef :: int
  eleBytesPerCoord :: int

definition NewBaseGraph :: "(string \<Rightarrow> string \<Rightarrow> bool) \<Rightarrow> gh_directory \<Rightarrow> bool \<Rightarrow> bool \<Rightarrow> int \<Rightarrow> int \<Rightarrow> base_graph option" where
  "NewBaseGraph matches dir elev tc segmentSize flagBytes = do {
     (store, dir) \<leftarrow> NewBaseGraphNodesAndEdges matches elev tc segmentSize flagBytes dir;
     (kv, dir) \<leftarrow> NewKVStorage matches True dir;
     (geo, dir) \<leftarrow> CreateFull ''geometry'' (getDefault matches dir ''geometry'') segmentSize dir;
     (tcs, dir) \<leftarrow> (if tc
       then do { (t, dir) \<leftarrow> NewTurnCostStorage matches segmentSize dir; Some (Some t, dir) }
       else Some (None, dir));
     Some \<lparr>Store = store, EdgeKVStorage = kv, TurnCosts = tcs, wayGeometry = geo, bg_dir = dir,
       bg_segmentSize = segmentSize, initialized = False, minGeoRef = 0, maxGeoRef = 0,
       eleBytesPerCoord = (if withElevation store then 3 else 0)\<rparr> }"

definition bg_Create :: "int \<Rightarrow> base_graph \<Rightarrow> base_graph option" where
  "bg_Create initSize bg = do {
     check (\<not> initialized bg);
     store \<leftarrow> ne_Create initSize (Store bg);
     let geoInit = min initSize 2000;
     geo \<leftarrow> da_Create geoInit (wayGeometry bg);
     kv \<leftarrow> kv_Create geoInit (EdgeKVStorage bg);
     tcs \<leftarrow> (case TurnCosts bg of None \<Rightarrow> Some None | Some t \<Rightarrow> map_option Some (tc_Create geoInit t));
     Some (bg\<lparr>Store := store, wayGeometry := geo, EdgeKVStorage := kv, TurnCosts := tcs,
       initialized := True, minGeoRef := - 1, maxGeoRef := 1\<rparr>) }"

definition IsFrozen :: "base_graph \<Rightarrow> bool" where "IsFrozen bg = frozen (Store bg)"

definition Freeze :: "base_graph \<Rightarrow> base_graph" where
  "Freeze bg = bg\<lparr>Store := SetFrozen True (Store bg)\<rparr>"

definition SupportsTurnCosts :: "base_graph \<Rightarrow> bool" where
  "SupportsTurnCosts bg \<longleftrightarrow> TurnCosts bg \<noteq> None"

definition bg_SortEdges :: "(int \<Rightarrow> int option) \<Rightarrow> base_graph \<Rightarrow> base_graph option" where
  "bg_SortEdges getNewEdge bg = do {
     store \<leftarrow> SortEdges getNewEdge (Store bg);
     case TurnCosts bg of
       None \<Rightarrow> Some (bg\<lparr>Store := store\<rparr>)
     | Some t \<Rightarrow> do {
         t \<leftarrow> tc_SortEdges getNewEdge t;
         Some (bg\<lparr>Store := store, TurnCosts := Some t\<rparr>) } }"

definition bg_RelabelNodes :: "(int \<Rightarrow> int option) \<Rightarrow> base_graph \<Rightarrow> base_graph option" where
  "bg_RelabelNodes getNewNode bg = do {
     store \<leftarrow> RelabelNodes getNewNode (Store bg);
     case TurnCosts bg of
       None \<Rightarrow> Some (bg\<lparr>Store := store\<rparr>)
     | Some t \<Rightarrow> do {
         (t, store) \<leftarrow> tc_SortNodes (nodeCount store) t store;
         Some (bg\<lparr>Store := store, TurnCosts := Some t\<rparr>) } }"

section \<open>Files\<close>

definition VersionGeometry :: int where "VersionGeometry = 7"

definition setWayGeometryHeader :: "base_graph \<Rightarrow> base_graph option" where
  "setWayGeometryHeader bg = do {
     d \<leftarrow> da_Set_Header (0*4) (word_of_int VersionGeometry) (wayGeometry bg);
     d \<leftarrow> da_Set_Header (1*4) (GetIntLow (word_of_int (minGeoRef bg))) d;
     d \<leftarrow> da_Set_Header (2*4) (GetIntHigh (word_of_int (minGeoRef bg))) d;
     d \<leftarrow> da_Set_Header (3*4) (GetIntLow (word_of_int (maxGeoRef bg))) d;
     d \<leftarrow> da_Set_Header (4*4) (GetIntHigh (word_of_int (maxGeoRef bg))) d;
     Some (bg\<lparr>wayGeometry := d\<rparr>) }"

definition loadWayGeometryHeader :: "base_graph \<Rightarrow> base_graph option" where
  "loadWayGeometryHeader bg = do {
     let d = wayGeometry bg;
     v \<leftarrow> da_Get_Header (0*4) d;
     u \<leftarrow> checkDAVersion VersionGeometry (sint v);
     minLow \<leftarrow> da_Get_Header (1*4) d;
     minHigh \<leftarrow> da_Get_Header (2*4) d;
     maxLow \<leftarrow> da_Get_Header (3*4) d;
     maxHigh \<leftarrow> da_Get_Header (4*4) d;
     Some (bg\<lparr>minGeoRef := sint (ToLongFromInts minLow minHigh),
       maxGeoRef := sint (ToLongFromInts maxLow maxHigh)\<rparr>) }"

definition bg_Flush :: "base_graph \<Rightarrow> file_system \<Rightarrow> (base_graph \<times> file_system) option" where
  "bg_Flush bg fs = do {
     (bg, fs) \<leftarrow> (if \<not> da_IsClosed (wayGeometry bg) then do {
         bg \<leftarrow> setWayGeometryHeader bg;
         fs \<leftarrow> da_Flush (wayGeometry bg) fs;
         Some (bg, fs) } else Some (bg, fs));
     (bg, fs) \<leftarrow> (if \<not> kv_IsClosed (EdgeKVStorage bg) then do {
         (kv, fs) \<leftarrow> kv_Flush (EdgeKVStorage bg) fs;
         Some (bg\<lparr>EdgeKVStorage := kv\<rparr>, fs) } else Some (bg, fs));
     (store, fs) \<leftarrow> ne_Flush (Store bg) fs;
     let bg = bg\<lparr>Store := store\<rparr>;
     case TurnCosts bg of
       None \<Rightarrow> Some (bg, fs)
     | Some t \<Rightarrow> do { (t, fs) \<leftarrow> tc_Flush t fs; Some (bg\<lparr>TurnCosts := Some t\<rparr>, fs) } }"

definition bg_LoadExisting :: "file_system \<Rightarrow> base_graph \<Rightarrow> (bool \<times> base_graph) option" where
  "bg_LoadExisting fs bg = do {
     check (\<not> initialized bg);
     (ok, store) \<leftarrow> ne_LoadExisting fs (Store bg);
     let bg = bg\<lparr>Store := store\<rparr>;
     if \<not> ok then Some (False, bg) else do {
     (ok, geo) \<leftarrow> da_LoadExisting fs (wayGeometry bg);
     let bg = bg\<lparr>wayGeometry := geo\<rparr>;
     if \<not> ok then Some (False, bg) else do {
     (ok, kv) \<leftarrow> kv_LoadExisting fs (EdgeKVStorage bg);
     let bg = bg\<lparr>EdgeKVStorage := kv\<rparr>;
     if \<not> ok then Some (False, bg) else do {
     (ok, tcs) \<leftarrow> (case TurnCosts bg of None \<Rightarrow> Some (True, None)
       | Some t \<Rightarrow> do { (ok, t) \<leftarrow> tc_LoadExisting fs t; Some (ok, Some t) });
     let bg = bg\<lparr>TurnCosts := tcs\<rparr>;
     if \<not> ok then Some (False, bg) else do {
     bg \<leftarrow> loadWayGeometryHeader (bg\<lparr>initialized := True\<rparr>);
     Some (True, bg) } } } } }"

definition bg_Close :: "base_graph \<Rightarrow> base_graph" where
  "bg_Close bg =
     (let bg = (if \<not> da_IsClosed (wayGeometry bg) then bg\<lparr>wayGeometry := da_Close (wayGeometry bg)\<rparr> else bg);
          bg = (if \<not> kv_IsClosed (EdgeKVStorage bg) then bg\<lparr>EdgeKVStorage := kv_Close (EdgeKVStorage bg)\<rparr> else bg);
          bg = bg\<lparr>Store := ne_Close (Store bg)\<rparr>
      in case TurnCosts bg of None \<Rightarrow> bg
         | Some t \<Rightarrow> if \<not> da_IsClosed (tc_da t) then bg\<lparr>TurnCosts := Some (tc_Close t)\<rparr> else bg)"

section \<open>Edges\<close>

definition GetOtherNode :: "int \<Rightarrow> int \<Rightarrow> base_graph \<Rightarrow> int option" where
  "GetOtherNode edge node bg = do {
     p \<leftarrow> ToEdgePointer edge (Store bg);
     a \<leftarrow> GetNodeA p (Store bg);
     if node = a then GetNodeB p (Store bg) else Some a }"

definition IsAdjacentToNode :: "int \<Rightarrow> int \<Rightarrow> base_graph \<Rightarrow> bool option" where
  "IsAdjacentToNode edge node bg = do {
     p \<leftarrow> ToEdgePointer edge (Store bg);
     a \<leftarrow> GetNodeA p (Store bg);
     if a = node then Some True else do { b \<leftarrow> GetNodeB p (Store bg); Some (b = node) } }"

definition bg_SetDist :: "int \<Rightarrow> flt \<Rightarrow> base_graph \<Rightarrow> base_graph option" where
  "bg_SetDist edgeID distance bg = do {
     p \<leftarrow> ToEdgePointer edgeID (Store bg);
     store \<leftarrow> SetDist p distance (Store bg);
     Some (bg\<lparr>Store := store\<rparr>) }"

definition bg_GetDist :: "int \<Rightarrow> base_graph \<Rightarrow> flt option" where
  "bg_GetDist edgeID bg = do { p \<leftarrow> ToEdgePointer edgeID (Store bg); GetDist p (Store bg) }"

section \<open>Way geometry\<close>

fun geometry_bytes_loop :: "nat \<Rightarrow> int \<Rightarrow> point_list \<Rightarrow> bool \<Rightarrow> bool \<Rightarrow> int \<Rightarrow> byte list \<Rightarrow> byte list option" where
  "geometry_bytes_loop 0 i pl reverse is3D coordBytes buf = Some buf"
| "geometry_bytes_loop (Suc k) i pl reverse is3D coordBytes buf = do {
     let src = (if reverse then pl_Size pl - 1 - i else i);
     let off = 3 + i * coordBytes;
     lat \<leftarrow> pl_GetLat src pl;
     buf \<leftarrow> FromInt buf (DegreeToInt lat) off;
     lon \<leftarrow> pl_GetLon src pl;
     buf \<leftarrow> FromInt buf (DegreeToInt lon) (off + 4);
     buf \<leftarrow> (if is3D then do {
         ele \<leftarrow> pl_GetEle src pl;
         u \<leftarrow> EleToUInt ele;
         FromUInt3 buf (word_of_int u) (off + 8) }
       else Some buf);
     geometry_bytes_loop k (i + 1) pl reverse is3D coordBytes buf }"

definition createWayGeometryBytes :: "point_list \<Rightarrow> bool \<Rightarrow> base_graph \<Rightarrow> byte list option" where
  "createWayGeometryBytes pl reverse bg = do {
     let count = pl_Size pl;
     let coordBytes = 8 + eleBytesPerCoord bg;
     let buf = [word_of_int count, word_of_int (drop_bit 8 count), word_of_int (drop_bit 16 count)] @
       replicate (nat (count * coordBytes)) 0;
     geometry_bytes_loop (nat count) 0 pl reverse (withElevation (Store bg)) coordBytes buf }"

definition getPillarCount :: "int \<Rightarrow> base_graph \<Rightarrow> int option" where
  "getPillarCount geoRef bg = do {
     low \<leftarrow> da_GetShort geoRef (wayGeometry bg);
     high \<leftarrow> da_GetByte (geoRef + 2) (wayGeometry bg);
     Some (sint low OR push_bit 16 (uint high)) }"

definition nextGeoRef :: "int \<Rightarrow> base_graph \<Rightarrow> (int \<times> base_graph) option" where
  "nextGeoRef bytes bg = do {
     let tmp = maxGeoRef bg;
     let bg = bg\<lparr>maxGeoRef := maxGeoRef bg + bytes\<rparr>;
     (g, d) \<leftarrow> da_EnsureCapacity (maxGeoRef bg) (wayGeometry bg);
     Some (tmp, bg\<lparr>wayGeometry := d\<rparr>) }"

definition setWayGeometryAtGeoRef :: "point_list \<Rightarrow> int \<Rightarrow> bool \<Rightarrow> int \<Rightarrow> base_graph \<Rightarrow> base_graph option" where
  "setWayGeometryAtGeoRef pl edgePointer reverse geoRef bg = do {
     bytes \<leftarrow> createWayGeometryBytes pl reverse bg;
     (g, d) \<leftarrow> da_EnsureCapacity (geoRef + int (length bytes)) (wayGeometry bg);
     d \<leftarrow> da_SetBytes geoRef bytes (int (length bytes)) d;
     store \<leftarrow> SetGeoRef edgePointer (word_of_int geoRef) (Store bg);
     Some (bg\<lparr>wayGeometry := d, Store := store\<rparr>) }"

definition setWayGeometry :: "point_list option \<Rightarrow> int \<Rightarrow> bool \<Rightarrow> base_graph \<Rightarrow> base_graph option" where
  "setWayGeometry pillarNodes edgePointer reverse bg =
     (case pillarNodes of
        None \<Rightarrow> do { store \<leftarrow> SetGeoRef edgePointer 0 (Store bg); Some (bg\<lparr>Store := store\<rparr>) }
      | Some pl \<Rightarrow>
          if pl_IsEmpty pl
          then do { store \<leftarrow> SetGeoRef edgePointer 0 (Store bg); Some (bg\<lparr>Store := store\<rparr>) }
          else do {
            check (\<not> pl_is3D pl \<noteq> withElevation (Store bg));
            existing \<leftarrow> GetGeoRef edgePointer (Store bg);
            let existingGeoRef = sint existing;
            check (\<not> existingGeoRef < 0);
            let count = pl_Size pl;
            if existingGeoRef > 0 then do {
              c \<leftarrow> getPillarCount existingGeoRef bg;
              check (\<not> count > c);
              setWayGeometryAtGeoRef pl edgePointer reverse existingGeoRef bg }
            else do {
              (geoRef, bg) \<leftarrow> nextGeoRef (3 + count * (8 + eleBytesPerCoord bg)) bg;
              setWayGeometryAtGeoRef pl edgePointer reverse geoRef bg } })"

definition addNodeToPointList :: "int \<Rightarrow> base_graph \<Rightarrow> point_list \<Rightarrow> point_list option" where
  "addNodeToPointList nodeID bg pl = do {
     lat \<leftarrow> na_GetLat nodeID (Store bg);
     lon \<leftarrow> na_GetLon nodeID (Store bg);
     if withElevation (Store bg) then do {
       ele \<leftarrow> na_GetEle nodeID (Store bg);
       pl_Add3D lat lon ele pl }
     else pl_Add lat lon pl }"

fun read_pillars :: "nat \<Rightarrow> int \<Rightarrow> byte list \<Rightarrow> bool \<Rightarrow> int \<Rightarrow> point_list \<Rightarrow> point_list option" where
  "read_pillars 0 off buf is3D coordBytes pl = Some pl"
| "read_pillars (Suc k) off buf is3D coordBytes pl = do {
     la \<leftarrow> ToInt buf off;
     lo \<leftarrow> ToInt buf (off + 4);
     let lat = IntToDegree la;
     let lon = IntToDegree lo;
     pl \<leftarrow> (if is3D then do {
         u \<leftarrow> ToUInt3 buf (off + 8);
         pl_Add3D lat lon (UIntToEle (sint u)) pl }
       else pl_Add lat lon pl);
     read_pillars k (off + coordBytes) buf is3D coordBytes pl }"

definition fetchWayGeometry :: "int \<Rightarrow> bool \<Rightarrow> fetch_mode \<Rightarrow> int \<Rightarrow> int \<Rightarrow> base_graph \<Rightarrow> point_list option" where
  "fetchWayGeometry edgePointer reverse mode baseNode adjNode bg =
     (let is3D = withElevation (Store bg) in
      if mode = FetchModeTowerOnly then do {
        pl \<leftarrow> addNodeToPointList baseNode bg (NewPointList is3D);
        addNodeToPointList adjNode bg pl }
      else do {
        ref \<leftarrow> GetGeoRef edgePointer (Store bg);
        let geoRef = sint ref;
        let coordBytes = 8 + eleBytesPerCoord bg;
        if \<not> geoRef > 0 \<and> mode = FetchModePillarOnly then Some (NewPointList is3D)
        else do {
          (count, buf) \<leftarrow> (if geoRef > 0 then do {
              count \<leftarrow> getPillarCount geoRef bg;
              check (0 \<le> count * coordBytes);
              buf \<leftarrow> da_GetBytes (geoRef + 3) (replicate (nat (count * coordBytes)) 0) (count * coordBytes)
                (wayGeometry bg);
              Some (count, buf) }
            else Some (0, []));
          let pl = NewPointList is3D;
          pl \<leftarrow> (if reverse then
              (if mode = FetchModeAll \<or> mode = FetchModePillarAndAdj then addNodeToPointList adjNode bg pl else Some pl)
            else if mode = FetchModeAll \<or> mode = FetchModeBaseAndPillar then addNodeToPointList baseNode bg pl
            else Some pl);
          pl \<leftarrow> read_pillars (nat count) 0 buf is3D coordBytes pl;
          if reverse then do {
            pl \<leftarrow> (if mode = FetchModeAll \<or> mode = FetchModeBaseAndPillar
              then addNodeToPointList baseNode bg pl else Some pl);
            pl_Reverse pl }
          else if mode = FetchModeAll \<or> mode = FetchModePillarAndAdj then addNodeToPointList adjNode bg pl
          else Some pl } })"

end
