(* ===== verification/EdgeIteration.thy ===== *)
theory EdgeIteration imports BaseGraph begin

text \<open>
  \<^verbatim>\<open>core/storage/edge_iterator_impl.go\<close> and \<^verbatim>\<open>edge_iterator_state_impl.go\<close>: a state stands for one edge
  seen from one of its nodes; the iterator follows the list of a node, the other iterator goes over
  all edges. A state refers to the graph, which is an argument here. An edge filter is a function that
  may panic.
\<close>

section \<open>EdgeIteratorStateImpl\<close>

record edge_state =
  edgePointer :: int
  BaseNode :: int
  AdjNode :: int
  Reverse :: bool
  EdgeID :: int

definition NewEdgeIteratorStateImpl :: edge_state where
  "NewEdgeIteratorStateImpl = \<lparr>edgePointer = - 1, BaseNode = 0, AdjNode = 0, Reverse = False, EdgeID = - 1\<rparr>"

definition anyAdjNode :: int where "anyAdjNode = - (2 ^ 31)"

definition es_Init :: "int \<Rightarrow> int \<Rightarrow> base_graph \<Rightarrow> 'a edge_state_scheme \<Rightarrow> (bool \<times> 'a edge_state_scheme) option" where
  "es_Init edgeID expectedAdjNode bg e = do {
     check (\<not> (edgeID < 0 \<or> edgeID \<ge> edgeCount (Store bg)));
     p \<leftarrow> ToEdgePointer edgeID (Store bg);
     a \<leftarrow> GetNodeA p (Store bg);
     b \<leftarrow> GetNodeB p (Store bg);
     let e = e\<lparr>EdgeID := edgeID, edgePointer := p, BaseNode := a, AdjNode := b\<rparr>;
     if expectedAdjNode = AdjNode e \<or> expectedAdjNode = anyAdjNode then Some (True, e\<lparr>Reverse := False\<rparr>)
     else if expectedAdjNode = BaseNode e
     then Some (True, e\<lparr>Reverse := True, BaseNode := AdjNode e, AdjNode := expectedAdjNode\<rparr>)
     else Some (False, e) }"

definition InitEdgeKey :: "int \<Rightarrow> base_graph \<Rightarrow> 'a edge_state_scheme \<Rightarrow> 'a edge_state_scheme option" where
  "InitEdgeKey edgeKey bg e = do {
     check (\<not> edgeKey < 0);
     let edgeID = GetEdgeFromEdgeKey edgeKey;
     p \<leftarrow> ToEdgePointer edgeID (Store bg);
     a \<leftarrow> GetNodeA p (Store bg);
     b \<leftarrow> GetNodeB p (Store bg);
     let e = e\<lparr>EdgeID := edgeID, edgePointer := p, BaseNode := a, AdjNode := b, Reverse := (edgeKey AND 1 \<noteq> 0)\<rparr>;
     Some (if Reverse e then e\<lparr>BaseNode := b, AdjNode := a\<rparr> else e) }"

definition GetEdgeKey :: "'a edge_state_scheme \<Rightarrow> int" where
  "GetEdgeKey e = CreateEdgeKey (EdgeID e) (Reverse e)"

definition GetReverseEdgeKey :: "'a edge_state_scheme \<Rightarrow> int" where
  "GetReverseEdgeKey e = ReverseEdgeKey (GetEdgeKey e)"

definition es_GetDistance :: "base_graph \<Rightarrow> 'a edge_state_scheme \<Rightarrow> flt option" where
  "es_GetDistance bg e = GetDist (edgePointer e) (Store bg)"

text \<open>Writing through a state changes the store of the graph.\<close>

definition on_store :: "(nodes_edges \<Rightarrow> nodes_edges option) \<Rightarrow> base_graph \<Rightarrow> base_graph option" where
  "on_store f bg = do { store \<leftarrow> f (Store bg); Some (bg\<lparr>Store := store\<rparr>) }"

definition es_SetDistance :: "flt \<Rightarrow> 'a edge_state_scheme \<Rightarrow> base_graph \<Rightarrow> base_graph option" where
  "es_SetDistance distance e = on_store (SetDist (edgePointer e) distance)"

definition es_GetFlags :: "base_graph \<Rightarrow> 'a edge_state_scheme \<Rightarrow> ints_ref option" where
  "es_GetFlags bg e = do {
     flags \<leftarrow> CreateEdgeFlags (Store bg);
     ReadFlags (edgePointer e) flags (Store bg) }"

definition es_SetFlags :: "ints_ref \<Rightarrow> 'a edge_state_scheme \<Rightarrow> base_graph \<Rightarrow> base_graph option" where
  "es_SetFlags flags e = on_store (WriteFlags (edgePointer e) flags)"

text \<open>
  The accessors of encoded values use the store as the access to the integers of the edge, in the
  direction of the state or in the other one. A setter also updates the encoded value (its largest
  value, new strings).
\<close>

definition store_set :: "('p \<times> nodes_edges) option \<Rightarrow> base_graph \<Rightarrow> ('p \<times> base_graph) option" where
  "store_set r bg = map_option (\<lambda>(p, store). (p, bg\<lparr>Store := store\<rparr>)) r"

definition es_GetBool :: "int_ev \<Rightarrow> base_graph \<Rightarrow> 'a edge_state_scheme \<Rightarrow> bool option" where
  "es_GetBool p bg e = GetBool ne_access (Reverse e) (EdgeID e) (Store bg) p"

definition es_SetBool :: "int_ev \<Rightarrow> bool \<Rightarrow> 'a edge_state_scheme \<Rightarrow> base_graph \<Rightarrow> (int_ev \<times> base_graph) option" where
  "es_SetBool p v e bg = store_set (SetBool ne_access (Reverse e) (EdgeID e) (Store bg) v p) bg"

definition es_GetReverseBool :: "int_ev \<Rightarrow> base_graph \<Rightarrow> 'a edge_state_scheme \<Rightarrow> bool option" where
  "es_GetReverseBool p bg e = GetBool ne_access (\<not> Reverse e) (EdgeID e) (Store bg) p"

definition es_SetReverseBool :: "int_ev \<Rightarrow> bool \<Rightarrow> 'a edge_state_scheme \<Rightarrow> base_graph \<Rightarrow> (int_ev \<times> base_graph) option" where
  "es_SetReverseBool p v e bg = store_set (SetBool ne_access (\<not> Reverse e) (EdgeID e) (Store bg) v p) bg"

definition es_SetBoolBothDir :: "int_ev \<Rightarrow> bool \<Rightarrow> bool \<Rightarrow> 'a edge_state_scheme \<Rightarrow> base_graph \<Rightarrow> (int_ev \<times> base_graph) option" where
  "es_SetBoolBothDir p fwd bwd e bg = do {
     check (StoreTwoDir p);
     (p, bg) \<leftarrow> es_SetBool p fwd e bg;
     es_SetReverseBool p bwd e bg }"

definition es_GetInt :: "int_ev \<Rightarrow> base_graph \<Rightarrow> 'a edge_state_scheme \<Rightarrow> i32 option" where
  "es_GetInt p bg e = ev_GetInt ne_access (Reverse e) (EdgeID e) (Store bg) p"

definition es_SetInt :: "int_ev \<Rightarrow> i32 \<Rightarrow> 'a edge_state_scheme \<Rightarrow> base_graph \<Rightarrow> (int_ev \<times> base_graph) option" where
  "es_SetInt p v e bg = store_set (ev_SetInt ne_access (Reverse e) (EdgeID e) (Store bg) v p) bg"

definition es_GetReverseInt :: "int_ev \<Rightarrow> base_graph \<Rightarrow> 'a edge_state_scheme \<Rightarrow> i32 option" where
  "es_GetReverseInt p bg e = ev_GetInt ne_access (\<not> Reverse e) (EdgeID e) (Store bg) p"

definition es_SetReverseInt :: "int_ev \<Rightarrow> i32 \<Rightarrow> 'a edge_state_scheme \<Rightarrow> base_graph \<Rightarrow> (int_ev \<times> base_graph) option" where
  "es_SetReverseInt p v e bg = store_set (ev_SetInt ne_access (\<not> Reverse e) (EdgeID e) (Store bg) v p) bg"

definition es_SetIntBothDir :: "int_ev \<Rightarrow> i32 \<Rightarrow> i32 \<Rightarrow> 'a edge_state_scheme \<Rightarrow> base_graph \<Rightarrow> (int_ev \<times> base_graph) option" where
  "es_SetIntBothDir p fwd bwd e bg = do {
     check (StoreTwoDir p);
     (p, bg) \<leftarrow> es_SetInt p fwd e bg;
     es_SetReverseInt p bwd e bg }"

definition es_GetDecimal :: "decimal_ev \<Rightarrow> base_graph \<Rightarrow> 'a edge_state_scheme \<Rightarrow> flt option" where
  "es_GetDecimal p bg e = GetDecimal ne_access (Reverse e) (EdgeID e) (Store bg) p"

definition es_SetDecimal :: "decimal_ev \<Rightarrow> flt \<Rightarrow> 'a edge_state_scheme \<Rightarrow> base_graph \<Rightarrow> (decimal_ev \<times> base_graph) option" where
  "es_SetDecimal p v e bg = store_set (SetDecimal ne_access (Reverse e) (EdgeID e) (Store bg) v p) bg"

definition es_GetReverseDecimal :: "decimal_ev \<Rightarrow> base_graph \<Rightarrow> 'a edge_state_scheme \<Rightarrow> flt option" where
  "es_GetReverseDecimal p bg e = GetDecimal ne_access (\<not> Reverse e) (EdgeID e) (Store bg) p"

definition es_SetReverseDecimal :: "decimal_ev \<Rightarrow> flt \<Rightarrow> 'a edge_state_scheme \<Rightarrow> base_graph \<Rightarrow> (decimal_ev \<times> base_graph) option" where
  "es_SetReverseDecimal p v e bg = store_set (SetDecimal ne_access (\<not> Reverse e) (EdgeID e) (Store bg) v p) bg"

definition es_SetDecimalBothDir :: "decimal_ev \<Rightarrow> flt \<Rightarrow> flt \<Rightarrow> 'a edge_state_scheme \<Rightarrow> base_graph
    \<Rightarrow> (decimal_ev \<times> base_graph) option" where
  "es_SetDecimalBothDir p fwd bwd e bg = do {
     check (StoreTwoDir (dec_impl p));
     (p, bg) \<leftarrow> es_SetDecimal p fwd e bg;
     es_SetReverseDecimal p bwd e bg }"

definition es_GetEnum :: "enum_ev \<Rightarrow> base_graph \<Rightarrow> 'a edge_state_scheme \<Rightarrow> int option" where
  "es_GetEnum p bg e = GetEnum ne_access (Reverse e) (EdgeID e) (Store bg) p"

definition es_SetEnum :: "enum_ev \<Rightarrow> int \<Rightarrow> 'a edge_state_scheme \<Rightarrow> base_graph \<Rightarrow> (enum_ev \<times> base_graph) option" where
  "es_SetEnum p v e bg = store_set (SetEnum ne_access (Reverse e) (EdgeID e) (Store bg) v p) bg"

definition es_GetReverseEnum :: "enum_ev \<Rightarrow> base_graph \<Rightarrow> 'a edge_state_scheme \<Rightarrow> int option" where
  "es_GetReverseEnum p bg e = GetEnum ne_access (\<not> Reverse e) (EdgeID e) (Store bg) p"

definition es_SetReverseEnum :: "enum_ev \<Rightarrow> int \<Rightarrow> 'a edge_state_scheme \<Rightarrow> base_graph \<Rightarrow> (enum_ev \<times> base_graph) option" where
  "es_SetReverseEnum p v e bg = store_set (SetEnum ne_access (\<not> Reverse e) (EdgeID e) (Store bg) v p) bg"

definition es_SetEnumBothDir :: "enum_ev \<Rightarrow> int \<Rightarrow> int \<Rightarrow> 'a edge_state_scheme \<Rightarrow> base_graph
    \<Rightarrow> (enum_ev \<times> base_graph) option" where
  "es_SetEnumBothDir p fwd bwd e bg = do {
     check (StoreTwoDir (enum_impl p));
     (p, bg) \<leftarrow> es_SetEnum p fwd e bg;
     es_SetReverseEnum p bwd e bg }"

definition es_GetString :: "string_ev \<Rightarrow> base_graph \<Rightarrow> 'a edge_state_scheme \<Rightarrow> string option" where
  "es_GetString p bg e = GetString ne_access (Reverse e) (EdgeID e) (Store bg) p"

definition es_SetString :: "string_ev \<Rightarrow> string \<Rightarrow> 'a edge_state_scheme \<Rightarrow> base_graph \<Rightarrow> (string_ev \<times> base_graph) option" where
  "es_SetString p v e bg = store_set (SetString ne_access (Reverse e) (EdgeID e) (Store bg) v p) bg"

definition es_GetReverseString :: "string_ev \<Rightarrow> base_graph \<Rightarrow> 'a edge_state_scheme \<Rightarrow> string option" where
  "es_GetReverseString p bg e = GetString ne_access (\<not> Reverse e) (EdgeID e) (Store bg) p"

definition es_SetReverseString :: "string_ev \<Rightarrow> string \<Rightarrow> 'a edge_state_scheme \<Rightarrow> base_graph \<Rightarrow> (string_ev \<times> base_graph) option" where
  "es_SetReverseString p v e bg = store_set (SetString ne_access (\<not> Reverse e) (EdgeID e) (Store bg) v p) bg"

definition es_SetStringBothDir :: "string_ev \<Rightarrow> string \<Rightarrow> string \<Rightarrow> 'a edge_state_scheme \<Rightarrow> base_graph
    \<Rightarrow> (string_ev \<times> base_graph) option" where
  "es_SetStringBothDir p fwd bwd e bg = do {
     check (StoreTwoDir (str_impl p));
     (p, bg) \<leftarrow> es_SetString p fwd e bg;
     es_SetReverseString p bwd e bg }"

definition es_SetKeyValues :: "(string \<times> kv_value) list option \<Rightarrow> 'a edge_state_scheme \<Rightarrow> base_graph \<Rightarrow> base_graph option" where
  "es_SetKeyValues entries e bg = do {
     (pointer, kv) \<leftarrow> kv_Add entries (EdgeKVStorage bg);
     store \<leftarrow> SetKeyValuesRef (edgePointer e) pointer (Store bg);
     Some (bg\<lparr>EdgeKVStorage := kv, Store := store\<rparr>) }"

definition es_GetKeyValues :: "base_graph \<Rightarrow> 'a edge_state_scheme \<Rightarrow> (string \<times> kv_value) list option option" where
  "es_GetKeyValues bg e = do {
     kvRef \<leftarrow> GetKeyValuesRef (edgePointer e) (Store bg);
     kv_GetAll kvRef (EdgeKVStorage bg) }"

definition es_GetValue :: "string \<Rightarrow> base_graph \<Rightarrow> 'a edge_state_scheme \<Rightarrow> kv_value option" where
  "es_GetValue key bg e = do {
     kvRef \<leftarrow> GetKeyValuesRef (edgePointer e) (Store bg);
     kv_Get kvRef key (Reverse e) (EdgeKVStorage bg) }"

definition es_GetName :: "base_graph \<Rightarrow> 'a edge_state_scheme \<Rightarrow> string option" where
  "es_GetName bg e = do {
     v \<leftarrow> es_GetValue ''name'' bg e;
     Some (case v of KvString s \<Rightarrow> s | _ \<Rightarrow> []) }"

definition FetchWayGeometry :: "fetch_mode \<Rightarrow> base_graph \<Rightarrow> 'a edge_state_scheme \<Rightarrow> point_list option" where
  "FetchWayGeometry mode bg e = fetchWayGeometry (edgePointer e) (Reverse e) mode (BaseNode e) (AdjNode e) bg"

definition SetWayGeometry :: "point_list option \<Rightarrow> 'a edge_state_scheme \<Rightarrow> base_graph \<Rightarrow> base_graph option" where
  "SetWayGeometry list' e bg = setWayGeometry list' (edgePointer e) (Reverse e) bg"

text \<open>\<open>Detach\<close> ignores whether \<open>Init\<close> succeeds.\<close>

definition es_Detach :: "bool \<Rightarrow> base_graph \<Rightarrow> 'a edge_state_scheme \<Rightarrow> edge_state option" where
  "es_Detach reverseArg bg e = do {
     check (EdgeID e \<ge> 0);
     if reverseArg then do {
       (ok, edge) \<leftarrow> es_Init (EdgeID e) (BaseNode e) bg NewEdgeIteratorStateImpl;
       Some (edge\<lparr>Reverse := \<not> Reverse e\<rparr>) }
     else do {
       (ok, edge) \<leftarrow> es_Init (EdgeID e) (AdjNode e) bg NewEdgeIteratorStateImpl;
       Some edge } }"

section \<open>Edges of the graph\<close>

definition bg_Edge :: "int \<Rightarrow> int \<Rightarrow> base_graph \<Rightarrow> (edge_state \<times> base_graph) option" where
  "bg_Edge nodeA nodeB bg = do {
     check (\<not> IsFrozen bg);
     (edgeID, store) \<leftarrow> ne_Edge nodeA nodeB (Store bg);
     let bg = bg\<lparr>Store := store\<rparr>;
     (ok, edge) \<leftarrow> es_Init edgeID nodeB bg NewEdgeIteratorStateImpl;
     Some (edge, bg) }"

text \<open>The result is nil when the edge does not have the node.\<close>

definition GetEdgeIteratorState :: "int \<Rightarrow> int \<Rightarrow> base_graph \<Rightarrow> edge_state option option" where
  "GetEdgeIteratorState edgeID adjNode bg = do {
     (ok, edge) \<leftarrow> es_Init edgeID adjNode bg NewEdgeIteratorStateImpl;
     Some (if ok then Some edge else None) }"

definition GetEdgeIteratorStateForKey :: "int \<Rightarrow> base_graph \<Rightarrow> edge_state option" where
  "GetEdgeIteratorStateForKey edgeKey bg = InitEdgeKey edgeKey bg NewEdgeIteratorStateImpl"

text \<open>Copying from a state of the same graph.\<close>

definition copyProperties :: "'a edge_state_scheme \<Rightarrow> 'b edge_state_scheme \<Rightarrow> base_graph \<Rightarrow> base_graph option" where
  "copyProperties src dst bg = do {
     p \<leftarrow> ToEdgePointer (EdgeID dst) (Store bg);
     flags \<leftarrow> es_GetFlags bg src;
     bg \<leftarrow> on_store (WriteFlags p flags) bg;
     d \<leftarrow> es_GetDistance bg src;
     bg \<leftarrow> es_SetDistance d dst bg;
     kvs \<leftarrow> es_GetKeyValues bg src;
     bg \<leftarrow> es_SetKeyValues kvs dst bg;
     pl \<leftarrow> FetchWayGeometry FetchModePillarOnly bg src;
     SetWayGeometry (Some pl) dst bg }"

section \<open>The iterator over the edges of a node\<close>

record edge_iterator = edge_state +
  nextEdgeID :: int

type_synonym edge_filter = "base_graph \<Rightarrow> edge_iterator \<Rightarrow> bool option"

definition newEdgeIteratorImpl :: edge_iterator where
  "newEdgeIteratorImpl = edge_state.extend NewEdgeIteratorStateImpl \<lparr>nextEdgeID = 0\<rparr>"

definition SetBaseNode :: "int \<Rightarrow> base_graph \<Rightarrow> edge_iterator \<Rightarrow> edge_iterator option" where
  "SetBaseNode baseNode bg it = do {
     p \<leftarrow> ToNodePointer baseNode (Store bg);
     edgeRef \<leftarrow> GetEdgeRef p (Store bg);
     Some (it\<lparr>nextEdgeID := edgeRef, EdgeID := edgeRef, BaseNode := baseNode\<rparr>) }"

definition goToNext :: "base_graph \<Rightarrow> edge_iterator \<Rightarrow> edge_iterator option" where
  "goToNext bg it = do {
     p \<leftarrow> ToEdgePointer (nextEdgeID it) (Store bg);
     let it = it\<lparr>edgePointer := p, EdgeID := nextEdgeID it\<rparr>;
     nodeA \<leftarrow> GetNodeA p (Store bg);
     if BaseNode it = nodeA then do {
       b \<leftarrow> GetNodeB p (Store bg);
       n \<leftarrow> GetLinkA p (Store bg);
       Some (it\<lparr>AdjNode := b, Reverse := False, nextEdgeID := n\<rparr>) }
     else do {
       n \<leftarrow> GetLinkB p (Store bg);
       Some (it\<lparr>AdjNode := nodeA, Reverse := True, nextEdgeID := n\<rparr>) } }"

partial_function (option) ei_Next :: "edge_filter \<Rightarrow> base_graph \<Rightarrow> edge_iterator \<Rightarrow> (bool \<times> edge_iterator) option" where
  "ei_Next filter' bg it =
     (if nextEdgeID it \<ge> 0 then do {
        it \<leftarrow> goToNext bg it;
        ok \<leftarrow> filter' bg it;
        if ok then Some (True, it) else ei_Next filter' bg it }
      else Some (False, it))"

definition ei_Detach :: "bool \<Rightarrow> base_graph \<Rightarrow> edge_iterator \<Rightarrow> edge_state option" where
  "ei_Detach reverseArg bg it = do {
     check (\<not> EdgeID it = nextEdgeID it);
     es_Detach reverseArg bg it }"

section \<open>The iterator over all edges\<close>

definition aei_Next :: "base_graph \<Rightarrow> edge_state \<Rightarrow> (bool \<times> edge_state) option" where
  "aei_Next bg it =
     (let it = it\<lparr>EdgeID := EdgeID it + 1\<rparr>
      in if EdgeID it \<ge> edgeCount (Store bg) then Some (False, it)
         else do {
           p \<leftarrow> ToEdgePointer (EdgeID it) (Store bg);
           a \<leftarrow> GetNodeA p (Store bg);
           b \<leftarrow> GetNodeB p (Store bg);
           Some (True, it\<lparr>edgePointer := p, BaseNode := a, AdjNode := b, Reverse := False\<rparr>) })"

definition aei_Detach :: "bool \<Rightarrow> edge_state \<Rightarrow> edge_state option" where
  "aei_Detach reverseArg it = do {
     check (\<not> edgePointer it < 0);
     let iter = NewEdgeIteratorStateImpl\<lparr>EdgeID := EdgeID it, edgePointer := edgePointer it\<rparr>;
     Some (if reverseArg
       then iter\<lparr>Reverse := \<not> Reverse it, BaseNode := AdjNode it, AdjNode := BaseNode it\<rparr>
       else iter\<lparr>Reverse := Reverse it, BaseNode := BaseNode it, AdjNode := AdjNode it\<rparr>) }"

section \<open>Loops over an iterator\<close>

text \<open>
  The loops of \<^verbatim>\<open>core/util/gh_utility.go\<close> call \<open>Next\<close> until it is false: the states they see, and
  what they compute from them.
\<close>

partial_function (option) iter_states :: "edge_filter \<Rightarrow> base_graph \<Rightarrow> edge_iterator \<Rightarrow> edge_iterator list option" where
  "iter_states filter' bg it = do {
     (more, it) \<leftarrow> ei_Next filter' bg it;
     if more then do { its \<leftarrow> iter_states filter' bg it; Some (it # its) } else Some [] }"

definition GetEdgeIDs :: "edge_filter \<Rightarrow> base_graph \<Rightarrow> edge_iterator \<Rightarrow> int list option" where
  "GetEdgeIDs filter' bg it = map_option (map EdgeID) (iter_states filter' bg it)"

definition util_Count :: "edge_filter \<Rightarrow> base_graph \<Rightarrow> edge_iterator \<Rightarrow> int option" where
  "util_Count filter' bg it = map_option (\<lambda>its. int (length its)) (iter_states filter' bg it)"

definition CountAdj :: "edge_filter \<Rightarrow> base_graph \<Rightarrow> int \<Rightarrow> edge_iterator \<Rightarrow> int option" where
  "CountAdj filter' bg adj it =
     map_option (\<lambda>its. int (length (filter (\<lambda>it. AdjNode it = adj) its))) (iter_states filter' bg it)"

definition GetNeighbors :: "edge_filter \<Rightarrow> base_graph \<Rightarrow> edge_iterator \<Rightarrow> int set option" where
  "GetNeighbors filter' bg it = map_option (\<lambda>its. set (map AdjNode its)) (iter_states filter' bg it)"

definition AllEdges :: edge_filter where "AllEdges bg it = Some True"

section \<open>What an iterator sees\<close>

text \<open>The state of the iterator of node \<open>n\<close> at edge \<open>e\<close>.\<close>

definition edge_view :: "nodes_edges \<Rightarrow> int \<Rightarrow> int \<Rightarrow> edge_iterator" where
  "edge_view s n e = \<lparr>edgePointer = e * edgeEntryBytes s, BaseNode = n,
     AdjNode = (if end_a s e = n then end_b s e else end_a s e), Reverse = (end_a s e \<noteq> n), EdgeID = e,
     nextEdgeID = next_of s n e\<rparr>"

lemma edge_view_sel [simp]: "EdgeID (edge_view s n e) = e" "BaseNode (edge_view s n e) = n"
    "nextEdgeID (edge_view s n e) = next_of s n e"
    "AdjNode (edge_view s n e) = (if end_a s e = n then end_b s e else end_a s e)"
    "Reverse (edge_view s n e) = (end_a s e \<noteq> n)" "edgePointer (edge_view s n e) = e * edgeEntryBytes s"
  by (simp_all add: edge_view_def)

lemma goToNext_view:
  assumes "ne_inv (Store bg)" "valid_edge (Store bg) e" "nextEdgeID it = e" "BaseNode it = n"
  shows "goToNext bg it = Some (edge_view (Store bg) n e)"
  using assms get_ends [OF assms(1,2)]
  by (auto simp: goToNext_def ToEdgePointer_def valid_edge_def edge_view_def next_of_def Let_def)

lemma iter_states_view:
  assumes "ne_inv (Store bg)" "chain (next_of (Store bg) n) (nextEdgeID it) es" "BaseNode it = n"
    "\<forall>e \<in> set es. valid_edge (Store bg) e"
    "\<forall>e \<in> set es. f bg (edge_view (Store bg) n e) = Some (ok e)"
  shows "iter_states f bg it = Some (map (edge_view (Store bg) n) (filter ok es))"
  using assms
proof (induction es arbitrary: it)
  case Nil
  then have "ei_Next f bg it = Some (False, it)" by (subst ei_Next.simps) simp
  then show ?case by (subst iter_states.simps) simp
next
  case (Cons e es)
  let ?v = "edge_view (Store bg) n e"
  have e: "nextEdgeID it = e" "0 \<le> e" using Cons.prems(2) by auto
  have go: "goToNext bg it = Some ?v"
    by (rule goToNext_view [OF Cons.prems(1) _ e(1) Cons.prems(3)]) (use Cons.prems(4) in simp)
  have IH: "iter_states f bg ?v = Some (map (edge_view (Store bg) n) (filter ok es))"
    by (rule Cons.IH) (use Cons.prems in auto)
  have fl: "f bg ?v = Some (ok e)" using Cons.prems(5) by simp
  show ?case
  proof (cases "ok e")
    case True
    then have "ei_Next f bg it = Some (True, ?v)" using e go fl by (subst ei_Next.simps) simp
    then show ?thesis using IH True by (subst iter_states.simps) simp
  next
    case False
    then have "ei_Next f bg it = ei_Next f bg ?v" using e go fl by (subst ei_Next.simps) simp
    then have "iter_states f bg it = iter_states f bg ?v"
      by (subst (1 2) iter_states.simps) simp
    then show ?thesis using IH False by simp
  qed
qed

lemma SetBaseNode_first:
  assumes "ne_inv (Store bg)" "valid_node (Store bg) n"
  shows "SetBaseNode n bg it = Some (it\<lparr>nextEdgeID := first_edge (Store bg) n, EdgeID := first_edge (Store bg) n,
    BaseNode := n\<rparr>)"
  using assms get_first [OF assms] by (simp add: SetBaseNode_def ToNodePointer_def valid_node_def)

lemma explore_states:
  assumes G: "graph_ok (Store bg) adj" and n: "valid_node (Store bg) n"
    and f: "\<forall>e \<in> set (adj n). f bg (edge_view (Store bg) n e) = Some (ok e)"
  shows "do { it \<leftarrow> SetBaseNode n bg it; iter_states f bg it } =
    Some (map (edge_view (Store bg) n) (filter ok (adj n)))"
proof -
  note g = graph_okD [OF G]
  have "iter_states f bg (it\<lparr>nextEdgeID := first_edge (Store bg) n, EdgeID := first_edge (Store bg) n,
      BaseNode := n\<rparr>) = Some (map (edge_view (Store bg) n) (filter ok (adj n)))"
    by (rule iter_states_view [OF g(1)]) (use g(5,7) [OF n] f in auto)
  then show ?thesis using SetBaseNode_first [OF g(1) n] by simp
qed

section \<open>States of edges\<close>

lemma es_Init_cases:
  assumes "graph_ok (Store bg) adj" "valid_edge (Store bg) e"
  shows "es_Init e x bg st = Some (x = end_b (Store bg) e \<or> x = anyAdjNode \<or> x = end_a (Store bg) e,
    if x = end_b (Store bg) e \<or> x = anyAdjNode
    then st\<lparr>EdgeID := e, edgePointer := e * edgeEntryBytes (Store bg), BaseNode := end_a (Store bg) e,
      AdjNode := end_b (Store bg) e, Reverse := False\<rparr>
    else if x = end_a (Store bg) e
    then st\<lparr>EdgeID := e, edgePointer := e * edgeEntryBytes (Store bg), BaseNode := end_b (Store bg) e,
      AdjNode := end_a (Store bg) e, Reverse := True\<rparr>
    else st\<lparr>EdgeID := e, edgePointer := e * edgeEntryBytes (Store bg), BaseNode := end_a (Store bg) e,
      AdjNode := end_b (Store bg) e\<rparr>)"
  using assms(2) get_ends [OF graph_okD(1) [OF assms(1)] assms(2)]
  by (auto simp: es_Init_def ToEdgePointer_def valid_edge_def Let_def)

lemma InitEdgeKey_key:
  assumes "graph_ok (Store bg) adj" "valid_edge (Store bg) e"
  shows "InitEdgeKey (CreateEdgeKey e r) bg st = Some (st\<lparr>EdgeID := e,
    edgePointer := e * edgeEntryBytes (Store bg),
    BaseNode := (if r then end_b (Store bg) e else end_a (Store bg) e),
    AdjNode := (if r then end_a (Store bg) e else end_b (Store bg) e), Reverse := r\<rparr>)"
proof -
  have nn: "\<not> CreateEdgeKey e r < 0" using assms(2) by (auto simp: CreateEdgeKey_def valid_edge_def push_bit_eq_mult Let_def)
  have odd: "(CreateEdgeKey e r AND 1 \<noteq> 0) = r"
    using CreateEdgeKey_odd [of e r] by (simp only: and_one_eq odd_iff_mod_2_eq_one) auto
  show ?thesis
    using assms(2) get_ends [OF graph_okD(1) [OF assms(1)] assms(2)] nn
    by (simp add: InitEdgeKey_def ToEdgePointer_def valid_edge_def Let_def odd)
qed

text \<open>The iterator over all edges.\<close>

partial_function (option) all_edge_states :: "base_graph \<Rightarrow> edge_state \<Rightarrow> edge_state list option" where
  "all_edge_states bg it = do {
     (more, it) \<leftarrow> aei_Next bg it;
     if more then do { its \<leftarrow> all_edge_states bg it; Some (it # its) } else Some [] }"

definition stored_view :: "nodes_edges \<Rightarrow> int \<Rightarrow> edge_state" where
  "stored_view s e = \<lparr>edgePointer = e * edgeEntryBytes s, BaseNode = end_a s e, AdjNode = end_b s e,
     Reverse = False, EdgeID = e\<rparr>"

lemma all_edge_states_from:
  assumes inv: "ne_inv (Store bg)" and k: "int k = edgeCount (Store bg) - EdgeID it - 1" and i: "- 1 \<le> EdgeID it"
  shows "all_edge_states bg it = Some (map (stored_view (Store bg)) [EdgeID it + 1 .. edgeCount (Store bg) - 1])"
  using k i
proof (induction k arbitrary: it)
  case 0
  then show ?case by (subst all_edge_states.simps) (simp add: aei_Next_def)
next
  case (Suc k)
  let ?e = "EdgeID it + 1"
  have e: "valid_edge (Store bg) ?e" using Suc.prems by (simp add: valid_edge_def)
  have "aei_Next bg it = Some (True, stored_view (Store bg) ?e)"
    using e get_ends [OF inv e] by (simp add: aei_Next_def valid_edge_def ToEdgePointer_def stored_view_def)
  moreover have "all_edge_states bg (stored_view (Store bg) ?e) =
      Some (map (stored_view (Store bg)) [EdgeID (stored_view (Store bg) ?e) + 1 .. edgeCount (Store bg) - 1])"
    by (rule Suc.IH) (use Suc.prems in \<open>auto simp: stored_view_def\<close>)
  moreover have "[?e .. edgeCount (Store bg) - 1] = ?e # [?e + 1 .. edgeCount (Store bg) - 1]"
    using e by (subst upto.simps) (simp add: valid_edge_def)
  ultimately show ?case by (subst all_edge_states.simps) (simp add: stored_view_def)
qed

section \<open>Properties\<close>

text \<open>A graph with the edges 0-1, 0-2 and 1-2.\<close>

definition sample_graph :: base_graph where
  "sample_graph = (the (NewBaseGraph (\<lambda>_ _. False) (NewRAMDirectory ''w'' ''g'' False) False True 128 7))
     \<lparr>Store := the (add_edges [(0, 1), (0, 2), (1, 2)] sample_store)\<rparr>"

lemma sample_graph_ok:
  "graph_ok (Store sample_graph) (lists_after 0 [(0, 1), (0, 2), (1, 2)] (\<lambda>_. []))"
  "edgeCount (Store sample_graph) = 3" "bytesForFlags (Store sample_graph) = 7"
proof -
  have "\<exists>s'. add_edges [(0, 1), (0, 2), (1, 2)] sample_store = Some s' \<and>
      graph_ok s' (lists_after (edgeCount sample_store) [(0, 1), (0, 2), (1, 2)] (\<lambda>_. [])) \<and>
      edgeCount s' = edgeCount sample_store + int (length [(0 :: int, 1 :: int), (0, 2), (1, 2)]) \<and>
      bytesForFlags s' = bytesForFlags sample_store"
    by (rule add_edges_ok [OF sample_store_ok(1)]) (auto simp: sample_store_ok(2))
  then show "graph_ok (Store sample_graph) (lists_after 0 [(0, 1), (0, 2), (1, 2)] (\<lambda>_. []))"
    "edgeCount (Store sample_graph) = 3" "bytesForFlags (Store sample_graph) = 7"
    by (auto simp: sample_graph_def sample_store_ok(2,4))
qed

lemma sample_graph_nodes: "valid_node (Store sample_graph) 0"
proof (rule ccontr)
  assume "\<not> valid_node (Store sample_graph) 0"
  then have "lists_after 0 [(0, 1), (0, 2), (1, 2)] (\<lambda>_. []) 0 = []" by (rule graph_okD(8) [OF sample_graph_ok(1)])
  then show False by simp
qed

text \<open>
  C7. An explorer set to a node visits exactly the edges of the list of the node that pass the filter, in
  this order and each once, with the node as base node, the other end as adjacent node and the direction
  that tells which end the node is; in particular the loop ends.
\<close>

theorem explorer_visits_list:
  assumes "graph_ok (Store bg) adj" "valid_node (Store bg) n"
    "\<forall>e \<in> set (adj n). f bg (edge_view (Store bg) n e) = Some (pass e)"
  shows "do { it \<leftarrow> SetBaseNode n bg newEdgeIteratorImpl; iter_states f bg it } =
    Some (map (edge_view (Store bg) n) (filter pass (adj n)))"
  using assms by (rule explore_states)

theorem explorer_visits_list_witness:
  "do { it \<leftarrow> SetBaseNode 0 sample_graph newEdgeIteratorImpl; iter_states AllEdges sample_graph it } =
    Some (map (edge_view (Store sample_graph) 0) [1, 0])"
  using explorer_visits_list [OF sample_graph_ok(1) sample_graph_nodes, of AllEdges "\<lambda>_. True"]
  by (simp add: AllEdges_def)

text \<open>
  C9. Initializing a state from an edge key and asking it for its key gives the key back, for both
  directions: base and adjacent node are the ends of the edge, swapped for the reverse key.
\<close>

theorem edge_key_round_trip:
  assumes "graph_ok (Store bg) adj" "0 \<le> key" "key < 2 * edgeCount (Store bg)"
  shows "\<exists>st. GetEdgeIteratorStateForKey key bg = Some st \<and> GetEdgeKey st = key \<and>
    GetReverseEdgeKey st = ReverseEdgeKey key \<and> EdgeID st = key div 2 \<and>
    (if even key then BaseNode st = end_a (Store bg) (key div 2) \<and> AdjNode st = end_b (Store bg) (key div 2)
     else BaseNode st = end_b (Store bg) (key div 2) \<and> AdjNode st = end_a (Store bg) (key div 2))"
proof -
  have key: "CreateEdgeKey (key div 2) (odd key) = key"
    by (auto simp: CreateEdgeKey_def push_bit_eq_mult Let_def elim: oddE evenE)
  have "valid_edge (Store bg) (key div 2)" using assms(2,3) by (auto simp: valid_edge_def)
  from InitEdgeKey_key [OF assms(1) this, of "odd key" NewEdgeIteratorStateImpl]
  show ?thesis
    using ReverseEdgeKey_Create [of "key div 2" "odd key"] unfolding key
    by (simp add: GetEdgeIteratorStateForKey_def GetEdgeKey_def GetReverseEdgeKey_def key)
qed

theorem edge_key_round_trip_witness:
  "\<exists>st. GetEdgeIteratorStateForKey 5 sample_graph = Some st \<and> GetEdgeKey st = 5"
  using edge_key_round_trip [OF sample_graph_ok(1), of 5] sample_graph_ok(2) by auto

text \<open>
  C10. The iterator over all edges visits the edges \<open>0, 1, ..., edgeCount - 1\<close> once each, in storage
  direction, and ends.
\<close>

theorem all_edges_visited:
  assumes "ne_inv (Store bg)"
  shows "all_edge_states bg NewEdgeIteratorStateImpl =
    Some (map (stored_view (Store bg)) [0..edgeCount (Store bg) - 1])"
  using all_edge_states_from [OF assms, of "nat (edgeCount (Store bg))" NewEdgeIteratorStateImpl] assms
  by (simp add: NewEdgeIteratorStateImpl_def ne_inv_def)

theorem all_edges_visited_witness:
  "all_edge_states sample_graph NewEdgeIteratorStateImpl = Some (map (stored_view (Store sample_graph)) [0, 1, 2])"
  using all_edges_visited [OF graph_okD(1) [OF sample_graph_ok(1)]] sample_graph_ok(2) by (simp add: upto.simps)

end
