(* ===== verification/GraphValues.thy ===== *)
theory GraphValues imports EdgeFlags EdgeIteration begin

text \<open>
  Encoded values on the edges of a graph: the bits that \<^verbatim>\<open>encoded_value.go\<close> hands out, the records of
  \<^verbatim>\<open>base_graph_nodes_and_edges.go\<close> and the access through \<^verbatim>\<open>edge_iterator_state_impl.go\<close> together.
\<close>

section \<open>Room for the values\<close>

lemma GetRequiredBytes_le:
  assumes "cfg_inv c" "GetRequiredBytes c \<le> b"
  shows "requiredBits c \<le> 8 * b"
proof (cases "requiredBits c + 7 < 0")
  case True
  have "0 \<le> requiredBits c" using assms(1) by (auto simp: cfg_inv_def requiredBits_def)
  with True show ?thesis by simp
next
  case False
  then have "(requiredBits c + 7) div 8 \<le> b"
    using assms(2) by (auto simp: GetRequiredBytes_def signed_divide_int_def sgn_if split: if_splits)
  then show ?thesis by presburger
qed

lemma range_fits:
  assumes "range_ok r" "range_end r \<le> 8 * bytesForFlags s" "ne_inv s" "valid_edge s e"
  shows "ne_eia.holds s e r"
proof -
  obtain i sh n where r: "r = (i, sh, n)" by (cases r)
  have b: "0 \<le> i" "0 \<le> sh" "1 \<le> n" "sh + n \<le> 32" "i * 32 + sh + n \<le> 8 * bytesForFlags s"
    using assms(1,2) by (auto simp: r range_ok_def range_end_def)
  then have ok: "flag_ok s e i" using assms(3,4) by (auto simp: flag_ok_def)
  have "sh + n \<le> 8 * flag_bytes s i" using b by (auto simp: flag_bytes_def min_def)
  then show ?thesis using assms(1) ok flag_okD(5) [OF ok] by (simp add: r ne_eia.holds_def flag_width_def)
qed

lemma ready_ranges: "ready e \<Longrightarrow> r \<in> set (ranges e) \<Longrightarrow> range_ok r"
  by (simp add: ready_def)

lemma values_fit:
  assumes "\<forall>x \<in> set es. fresh x" "init_all es NewInitializerConfig = Some (es', c)"
    "GetRequiredBytes c \<le> bytesForFlags s" "ne_inv s" "valid_edge s e" "k < length es'"
  shows "ready (es' ! k)" "ne_eia.holds_ev s e (es' ! k)"
    "l < length es' \<Longrightarrow> k \<noteq> l \<Longrightarrow> disjoint (dir_range (es' ! k) r) (dir_range (es' ! l) r')"
proof -
  obtain es2 c2 where I: "init_all es NewInitializerConfig = Some (es2, c2)" "cfg_inv c2"
    "\<forall>e \<in> set es2. ready e"
    "\<forall>e \<in> set es2. \<forall>r \<in> set (ranges e). requiredBits NewInitializerConfig \<le> range_pos r \<and> range_end r \<le> requiredBits c2"
    "\<forall>k l. k < l \<and> l < length es2 \<longrightarrow>
       (\<forall>r \<in> set (ranges (es2 ! k)). \<forall>r' \<in> set (ranges (es2 ! l)). range_end r \<le> range_pos r')"
    using init_all_spec [OF assms(1) cfg_inv_New] by blast
  have eq: "es2 = es'" "c2 = c" using I(1) assms(2) by auto
  note I = I [unfolded eq]
  have R: "ready (es' ! j)" if "j < length es'" for j using I(3) that by simp
  show "ready (es' ! k)" by (rule R [OF assms(6)])
  have "requiredBits c \<le> 8 * bytesForFlags s" by (rule GetRequiredBytes_le [OF I(2) assms(3)])
  then show "ne_eia.holds_ev s e (es' ! k)"
    unfolding ne_eia.holds_ev_def using I(4) assms(4-6) ready_ranges [OF R [OF assms(6)]]
    by (intro ballI range_fits) (auto dest!: nth_mem intro: order_trans)
  assume l: "l < length es'" "k \<noteq> l"
  have dr: "dir_range (es' ! j) d \<in> set (ranges (es' ! j))" for j d by (auto simp: dir_range_def ranges_def)
  have ok: "range_ok (dir_range (es' ! k) r)" "range_ok (dir_range (es' ! l) r')"
    by (rule ready_range [OF R [OF assms(6)]], rule ready_range [OF R [OF l(1)]])
  show "disjoint (dir_range (es' ! k) r) (dir_range (es' ! l) r')"
  proof (cases "k < l")
    case True
    then show ?thesis using I(5) dr l by (intro disjoint_pos(1) [OF ok]) blast
  next
    case False
    then show ?thesis using I(5) dr l assms(6) by (intro disjoint_pos(2) [OF ok(2,1)]) (meson linorder_neqE_nat)
  qed
qed

section \<open>Writing a value leaves the graph alone\<close>

lemma graph_ok_cong:
  assumes "graph_ok s adj" "ne_inv s'" "edgeCount s' = edgeCount s" "nodeCount s' = nodeCount s" "nodes s' = nodes s"
    "nodeEntryBytes s' = nodeEntryBytes s"
    "\<And>e off. off \<in> {0, 4, 8, 12} \<Longrightarrow> edge_int s' e off = edge_int s e off"
  shows "graph_ok s' adj"
proof -
  have f: "end_a s' = end_a s" "end_b s' = end_b s" "next_a s' = next_a s" "next_b s' = next_b s"
    "first_edge s' = first_edge s"
    using assms(5-7) by (auto simp: list_fields [abs_def] node_int_def)
  have v: "valid_edge s' = valid_edge s" "valid_node s' = valid_node s" "next_of s' = next_of s"
    using assms(3,4) f by (auto simp: valid_edge_def valid_node_def next_of_def fun_eq_iff)
  show ?thesis using assms(1,2) by (simp add: graph_ok_def f v)
qed

lemma set_flags_entry:
  assumes "flag_ok s e i" "eia_set ne_access s e i v = Some s'"
  shows "nodeEntryBytes s' = nodeEntryBytes s" "bytesForFlags s' = bytesForFlags s"
proof -
  obtain d where "eia_set ne_access s e i v = Some (s\<lparr>edges := d\<rparr>)"
    using ne_SetInt_mem [OF assms(1), of v] by metis
  then show "nodeEntryBytes s' = nodeEntryBytes s" "bytesForFlags s' = bytesForFlags s" using assms(2) by auto
qed

lemma SetInt_graph_ok:
  assumes "graph_ok s adj" "ready x" "ne_eia.holds_ev s e x" "ev_SetInt ne_access rv e s v x = Some (x', s')"
  shows "graph_ok s' adj" "bytesForFlags s' = bytesForFlags s" "edgeCount s' = edgeCount s"
proof -
  obtain i sh n where r: "dir_range x rv = (i, sh, n)" by (cases "dir_range x rv")
  have w: "write_range ne_access s e (i, sh, n) (stored x rv v) = Some s'"
    using ne_eia.SetInt_elim [OF assms(2,4)] r by metis
  then obtain u where u: "eia_set ne_access s e i u = Some s'" by (auto simp: write_range_def bind_Some_iff)
  have ok: "flag_ok s e i" using ne_eia.holds_dir [OF assms(3), of rv] by (simp add: r ne_eia.holds_def)
  note F = set_flags_frame [OF ok u] and E = set_flags_entry [OF ok u]
  show "graph_ok s' adj" by (rule graph_ok_cong [OF assms(1) F(1-4) E(1)]) (use F(5) in auto)
  show "bytesForFlags s' = bytesForFlags s" "edgeCount s' = edgeCount s" using E(2) F(2) by simp_all
qed

section \<open>Properties\<close>

definition sample_values :: "int_ev list" where
  "sample_values = [the (NewIntEncodedValueImpl ''car_speed'' 5 True), the (NewIntEncodedValueImpl ''lanes'' 3 False)]"

lemma sample_values_fresh: "\<forall>x \<in> set sample_values. fresh x"
proof -
  have "NewIntEncodedValueImpl ''car_speed'' 5 True \<noteq> None" "NewIntEncodedValueImpl ''lanes'' 3 False \<noteq> None"
    by code_simp+
  then show ?thesis using NewInt_fresh(1) by (auto simp: sample_values_def)
qed

lemma sample_values_init:
  obtains es' c where "init_all sample_values NewInitializerConfig = Some (es', c)" "GetRequiredBytes c = 2"
    "length es' = 2" "in_bounds (es' ! 0) 17" "StoreTwoDir (es' ! 0)"
proof -
  have "case init_all sample_values NewInitializerConfig of None \<Rightarrow> False
    | Some (es', c) \<Rightarrow> GetRequiredBytes c = 2 \<and> length es' = 2 \<and> in_bounds (es' ! 0) 17 \<and> StoreTwoDir (es' ! 0)"
    by code_simp
  then show ?thesis using that by (auto split: option.splits)
qed

text \<open>
  C8. Encoded values that are initialized one after the other and written to the edges of a graph whose
  records are as long as the values require: a value within the bounds is stored, is read back from the
  same edge and direction, and neither any other value of this edge, nor the values of other edges, nor
  the node lists and ends of the edges change.
\<close>

theorem edge_values_independent:
  assumes "graph_ok s adj" "valid_edge s e" "\<forall>x \<in> set es. fresh x"
    "init_all es NewInitializerConfig = Some (es', c)" "GetRequiredBytes c \<le> bytesForFlags s"
    "k < length es'" "in_bounds (es' ! k) v" "r \<longrightarrow> StoreTwoDir (es' ! k) \<or> NegateReverseDir (es' ! k)"
  shows "\<exists>x' s'. ev_SetInt ne_access r e s v (es' ! k) = Some (x', s') \<and>
    ev_GetInt ne_access r e s' x' = Some v \<and> graph_ok s' adj \<and>
    (\<forall>l e' r'. l < length es' \<and> valid_edge s e' \<and> (l \<noteq> k \<or> e' \<noteq> e) \<longrightarrow>
      ev_GetInt ne_access r' e' s' (es' ! l) = ev_GetInt ne_access r' e' s (es' ! l))"
proof -
  note inv = graph_okD(1) [OF assms(1)]
  note F = values_fit [OF assms(3-5) inv]
  obtain x' s' where S: "ev_SetInt ne_access r e s v (es' ! k) = Some (x', s')"
    using ne_eia.SetInt_Some [OF F(1) F(2) assms(7,8)] assms(2,6) by blast
  have "ev_GetInt ne_access r' e' s' (es' ! l) = ev_GetInt ne_access r' e' s (es' ! l)"
    if "l < length es'" "valid_edge s e'" "l \<noteq> k \<or> e' \<noteq> e" for l e' r'
    by (rule ne_eia.SetInt_frame [OF F(1) [OF assms(2,6)] F(2) [OF assms(2,6)] S F(1) [OF that(2,1)] F(2) [OF that(2,1)]])
      (use that F(3) [OF assms(2,6) that(1)] in blast)
  then show ?thesis
    using S ne_eia.SetInt_GetInt(1) [OF F(1) [OF assms(2,6)] F(2) [OF assms(2,6)] S]
      SetInt_graph_ok(1) [OF assms(1) F(1) [OF assms(2,6)] F(2) [OF assms(2,6)] S] by blast
qed

theorem edge_values_independent_witness:
  "\<exists>es' :: int_ev list. \<exists>x' s'. ev_SetInt ne_access True 1 (Store sample_graph) 17 (es' ! 0) = Some (x', s') \<and>
    ev_GetInt ne_access True 1 s' x' = Some 17"
proof -
  obtain es' c where I: "init_all sample_values NewInitializerConfig = Some (es', c)" "GetRequiredBytes c = 2"
    "length es' = 2" "in_bounds (es' ! 0) 17" "StoreTwoDir (es' ! 0)"
    by (rule sample_values_init)
  have "\<exists>x' s'. ev_SetInt ne_access True 1 (Store sample_graph) 17 (es' ! 0) = Some (x', s') \<and>
    ev_GetInt ne_access True 1 s' x' = Some 17"
    using edge_values_independent [OF sample_graph_ok(1) _ sample_values_fresh I(1), of 1 0 17 True] I sample_graph_ok(2,3)
    by (simp add: valid_edge_def) (elim exE conjE, intro exI conjI)
  then show ?thesis by (rule exI [of _ es'])
qed

end
