(* ===== verification/BytesAccess.thy ===== *)
theory BytesAccess imports StorageAccess begin

text \<open>
  Byte slices of a \<open>DataAccess\<close> (\<^verbatim>\<open>core/storage/data_access.go\<close>): the contract that the key-value storage
  and the way geometry rely on. A slice is limited to the size of a segment; the int based
  implementation has no slices at all.
\<close>

section \<open>The contract\<close>

locale bytes_access_contract = data_access_contract +
  fixes SetBytes :: "int \<Rightarrow> byte list \<Rightarrow> int \<Rightarrow> 'a \<Rightarrow> 'a option"
    and GetBytes :: "int \<Rightarrow> byte list \<Rightarrow> int \<Rightarrow> 'a \<Rightarrow> byte list option"
    and lim :: "'a \<Rightarrow> int"
  assumes SetBytes_law: "inv d \<Longrightarrow> 0 \<le> p \<Longrightarrow> p + int (length vs) \<le> cap d \<Longrightarrow> 0 < length vs \<Longrightarrow>
      int (length vs) \<le> lim d \<Longrightarrow>
      \<exists>d'. SetBytes p vs (int (length vs)) d = Some d' \<and> inv d' \<and> cap d' = cap d \<and> supp d' = supp d \<and>
        mem d' = upd (mem d) p vs \<and> lim d' = lim d"
    and GetBytes_law: "inv d \<Longrightarrow> 0 \<le> p \<Longrightarrow> p + int (length buf) \<le> cap d \<Longrightarrow> 0 < length buf \<Longrightarrow>
      int (length buf) \<le> lim d \<Longrightarrow>
      GetBytes p buf (int (length buf)) d = Some (mem_bytes (mem d) p (length buf))"
    and lim_SetInt: "inv d \<Longrightarrow> SetInt p v d = Some d' \<Longrightarrow> lim d' = lim d"
    and lim_SetByte: "inv d \<Longrightarrow> SetByte p b d = Some d' \<Longrightarrow> lim d' = lim d"
    and lim_Ensure: "inv d \<Longrightarrow> EnsureCapacity n d = Some (g, d') \<Longrightarrow> lim d' = lim d"
begin


text \<open>The accesses with their limits, as the storage classes use them.\<close>

lemma set_bytes:
  assumes "inv d" "0 \<le> p" "p + int (length vs) \<le> cap d" "0 < length vs" "int (length vs) \<le> lim d"
  obtains d' where "SetBytes p vs (int (length vs)) d = Some d'" "mem d' = upd (mem d) p vs"
    "inv d'" "cap d' = cap d" "supp d' = supp d" "lim d' = lim d"
  using SetBytes_law [OF assms] by blast

lemma set_byte_lim:
  assumes "acc d 1 p"
  obtains d' where "SetByte p v d = Some d'" "mem d' = upd (mem d) p [v]"
    "inv d'" "cap d' = cap d" "supp d' = supp d" "lim d' = lim d"
proof -
  obtain d' where d': "SetByte p v d = Some d'" "mem d' = upd (mem d) p [v]"
    "acc d' = acc d" "cap d' = cap d" "inv d'" "supp d' = supp d"
    by (rule set_byte [OF assms])
  have "inv d" using assms by (simp add: acc_def)
  from that [OF d'(1,2,5,4,6) lim_SetByte [OF this d'(1)]] show ?thesis .
qed

lemma set_int_lim:
  assumes "acc d 4 p"
  obtains d' where "SetInt p v d = Some d'" "mem d' = upd (mem d) p (bytes32 v)"
    "inv d'" "cap d' = cap d" "supp d' = supp d" "lim d' = lim d"
proof -
  obtain d' where d': "SetInt p v d = Some d'" "mem d' = upd (mem d) p (bytes32 v)"
    "acc d' = acc d" "cap d' = cap d" "inv d'" "supp d' = supp d"
    by (rule set_int [OF assms])
  have "inv d" using assms by (simp add: acc_def)
  from that [OF d'(1,2,5,4,6) lim_SetInt [OF this d'(1)]] show ?thesis .
qed

lemma ensure_lim:
  assumes "inv d" "0 \<le> n"
  obtains g d' where "EnsureCapacity n d = Some (g, d')" "mem d' = mem d" "cap d \<le> cap d'" "n \<le> cap d'"
    "inv d'" "supp d' = supp d" "lim d' = lim d"
  using Ensure_law [OF assms] lim_Ensure [OF assms(1)] by metis

lemma get_bytes:
  assumes "inv d" "0 \<le> p" "p + int n \<le> cap d" "0 < n" "int n \<le> lim d"
  shows "GetBytes p (replicate n 0) (int n) d = Some (mem_bytes (mem d) p n)"
  using GetBytes_law [of d p "replicate n 0"] assms by simp

end

section \<open>The implementations\<close>

fun da_lim :: "data_access \<Rightarrow> int" where
  "da_lim (Ram r) = segmentSizeInBytes r"
| "da_lim (RamInt r) = 0"

lemma on_segment_size: "on_segment f s r = Some r' \<Longrightarrow> segmentSizeInBytes r' = segmentSizeInBytes r"
  by (auto simp: on_segment_def bind_Some_iff)

lemma ram_SetInt_size: "ram_SetInt p v r = Some r' \<Longrightarrow> segmentSizeInBytes r' = segmentSizeInBytes r"
  by (auto simp: ram_SetInt_def Let_def bind_Some_iff split: if_splits dest!: on_segment_size)

lemma ram_SetByte_size: "ram_SetByte p v r = Some r' \<Longrightarrow> segmentSizeInBytes r' = segmentSizeInBytes r"
  by (auto simp: ram_SetByte_def dest!: on_segment_size)

lemma ram_Ensure_size: "ram_EnsureCapacity n r = Some (g, r') \<Longrightarrow> segmentSizeInBytes r' = segmentSizeInBytes r"
  by (auto simp: ram_EnsureCapacity_def Let_def bind_Some_iff split: if_splits)

interpretation dab: bytes_access_contract da_GetInt da_SetInt da_GetShort da_SetShort da_GetByte
  da_SetByte da_EnsureCapacity da_inv da_Capacity da_mem da_supp da_SetBytes da_GetBytes da_lim
proof
  fix d :: data_access and p :: int and vs :: "byte list"
  assume d: "da_inv d" "0 \<le> p" "p + int (length vs) \<le> da_Capacity d" "0 < length vs"
    "int (length vs) \<le> da_lim d"
  then obtain r where r: "d = Ram r" by (cases d) auto
  obtain r' where "ram_SetBytes p vs (int (length vs)) r = Some r'" "same_shape r r'"
    "ram_mem r' = upd (ram_mem r) p vs"
    by (rule ram_SetBytes_law [of r p vs]) (use d r in simp_all)
  then show "\<exists>d'. da_SetBytes p vs (int (length vs)) d = Some d' \<and> da_inv d' \<and>
      da_Capacity d' = da_Capacity d \<and> da_supp d' = da_supp d \<and> da_mem d' = upd (da_mem d) p vs \<and>
      da_lim d' = da_lim d"
    using d r same_shape_D [of r r'] by (intro exI [of _ "Ram r'"]) auto
next
  fix d :: data_access and p :: int and buf :: "byte list"
  assume d: "da_inv d" "0 \<le> p" "p + int (length buf) \<le> da_Capacity d" "0 < length buf"
    "int (length buf) \<le> da_lim d"
  then obtain r where r: "d = Ram r" by (cases d) auto
  then show "da_GetBytes p buf (int (length buf)) d = Some (mem_bytes (da_mem d) p (length buf))"
    using ram_GetBytes_law [of r p buf] d by simp
next
  fix d d' :: data_access and p v
  assume "da_SetInt p v d = Some d'"
  then show "da_lim d' = da_lim d" by (cases d) (auto dest: ram_SetInt_size)
next
  fix d d' :: data_access and p b
  assume "da_SetByte p b d = Some d'"
  then show "da_lim d' = da_lim d" by (cases d) (auto dest: ram_SetByte_size)
next
  fix d d' :: data_access and n g
  assume "da_EnsureCapacity n d = Some (g, d')"
  then show "da_lim d' = da_lim d" by (cases d) (auto dest: ram_Ensure_size)
qed

text \<open>A created data access that is not integer based takes slices of at least 128 bytes.\<close>

lemma CreateFull_lim:
  assumes "CreateFull name dt segmentSize dir = Some (d, dir')" "\<not> Integ dt" "segmentSize \<noteq> 0"
  shows "128 \<le> da_lim d"
proof -
  have "128 \<le> segmentSizeInBytes b" if "newDataAccessBase name loc segmentSize = Some b" for loc b
  proof -
    let ?z = "if segmentSize < 0 then segmentSizeDefault else segmentSize"
    let ?b = "\<lparr>da_name = name, da_location = loc, da_header = replicate headerCount 0,
      segmentSizeInBytes = 0, segmentSizePower = 0, indexDivisor = 0, da_closed = False\<rparr>"
    have "0 < ?z" using assms(3) by (auto simp: segmentSizeDefault_def)
    then obtain k where k: "7 \<le> k" "setSegmentSize ?b ?z =
      ?b\<lparr>segmentSizeInBytes := 2 ^ k, segmentSizePower := int k, indexDivisor := 2 ^ k - 1\<rparr>"
      by (rule setSegmentSize_pos)
    have "b = setSegmentSize ?b ?z" using that by (auto simp: newDataAccessBase_def Let_def split: if_splits)
    then have "segmentSizeInBytes b = 2 ^ k" unfolding k(2) by simp
    then show ?thesis using power_increasing [OF k(1), of "2::int"] by simp
  qed
  note B = this
  show ?thesis
    using assms(1,2)
    by (auto simp: CreateFull_def NewRAMDataAccess_def bind_Some_iff da_base.defs split: if_splits dest!: B)
qed


lemma CreateFull_default_lim:
  assumes "CreateFull name dt (- 1) dir = Some (d, dir')" "\<not> Integ dt"
  shows "da_lim d = 2 ^ 20"
proof -
  have "segmentSizeInBytes b = 2 ^ 20" if "newDataAccessBase name loc (- 1) = Some b" for loc b
  proof -
    let ?b = "\<lparr>da_name = name, da_location = loc, da_header = replicate headerCount 0,
      segmentSizeInBytes = 0, segmentSizePower = 0, indexDivisor = 0, da_closed = False\<rparr>"
    have "b = setSegmentSize ?b (2 ^ 20)"
      using that by (auto simp: newDataAccessBase_def segmentSizeDefault_def Let_def split: if_splits)
    then show ?thesis using setSegmentSize_power [of 20 ?b] by simp
  qed
  note B = this
  show ?thesis
    using assms
    by (auto simp: CreateFull_def NewRAMDataAccess_def bind_Some_iff da_base.defs split: if_splits dest!: B)
qed

lemma da_Create_lim: "da_Create n d = Some d' \<Longrightarrow> da_lim d' = da_lim d"
  by (cases d) (auto simp: ram_Create_def bind_Some_iff split: if_splits dest: ram_Ensure_size)

section \<open>Slices of the memory\<close>

lemma mem_bytes_appendD:
  assumes "mem_bytes m p (length xs + length ys) = xs @ ys"
  shows "mem_bytes m p (length xs) = xs" "mem_bytes m (p + int (length xs)) (length ys) = ys"
  using assms unfolding mem_bytes_add by (simp_all add: mem_bytes_def)

lemma mem_bytes_cong: "(\<And>q. p \<le> q \<Longrightarrow> q < p + int n \<Longrightarrow> m q = m' q) \<Longrightarrow> mem_bytes m p n = mem_bytes m' p n"
  by (simp add: mem_bytes_def)

lemma mem_bytes_32: "mem_bytes m p 4 = bytes32 v \<Longrightarrow> mem32 m p = v"
  using word32_bytes [of v]
  by (simp add: mem_bytes_def mem32_def eval_nat_numeral) (metis One_nat_def nth_Cons_0 nth_Cons_Suc numeral_2_eq_2 numeral_3_eq_3)

lemma mem_bytes_1: "mem_bytes m p 1 = [b] \<Longrightarrow> m p = b"
  by (simp add: mem_bytes_def)

end
