(* ===== verification/KVEntries.thy ===== *)
theory KVEntries imports KVStorage BytesAccess begin

text \<open>
  What the key-value storage (\<^verbatim>\<open>core/storage/kv_storage.go\<close>) promises: it is a growing list of maps, one
  for each call of \<open>Add\<close>, and \<open>Get\<close> and \<open>GetAll\<close> look a map up by the pointer that \<open>Add\<close> returned.
\<close>

section \<open>The bytes of an entry\<close>

fun value_bytes :: "kv_value \<Rightarrow> byte list" where
  "value_bytes (KvString s) = word_of_int (int (length s)) # str_bytes s"
| "value_bytes (KvBytes b) = word_of_int (int (length b)) # b"
| "value_bytes (KvInt n) = bytes32 (word_of_int n)"
| "value_bytes (KvInt32 w) = bytes32 w"
| "value_bytes (KvFloat32 w) = le32 w"
| "value_bytes (KvInt64 w) = le64 w"
| "value_bytes (KvFloat64 w) = le64 w"
| "value_bytes _ = []"

text \<open>Lengths are one byte, so longer strings and slices are not kept.\<close>

fun value_ok :: "kv_value \<Rightarrow> bool" where
  "value_ok (KvString s) \<longleftrightarrow> length s \<le> 255"
| "value_ok (KvBytes b) \<longleftrightarrow> length b \<le> 255"
| "value_ok KvOther \<longleftrightarrow> False"
| "value_ok KvNil \<longleftrightarrow> False"
| "value_ok _ \<longleftrightarrow> True"

text \<open>What is read for a value: integers come back as \<open>int\<close>, truncated to 32 bits.\<close>

fun read_back :: "kv_value \<Rightarrow> kv_value" where
  "read_back (KvInt n) = KvInt (sint (word_of_int n :: i32))"
| "read_back (KvInt32 w) = KvInt (sint w)"
| "read_back v = v"

definition key_word :: "int \<Rightarrow> 16 word" where
  "key_word i = word_of_int (push_bit 2 i OR 3)"

lemma uint_small: "0 \<le> x \<Longrightarrow> x < 2 ^ LENGTH('a::len) \<Longrightarrow> uint (word_of_int x :: 'a word) = x"
  by (simp add: uint_word_of_int)

lemma key_word:
  assumes "0 \<le> i" "i < 2 ^ 14"
  shows "drop_bit 2 (uint (key_word i)) = i" "uint (key_word i) AND 1 \<noteq> 0" "uint (key_word i) AND 2 \<noteq> 0"
proof -
  have e: "push_bit 2 i OR 3 = 4 * i + 3"
  proof -
    have "push_bit 2 i OR mask 2 = push_bit 2 i + mask 2" by (rule disjunctive_add [symmetric]) (auto simp: bit_simps)
    then show ?thesis by (simp add: push_bit_eq_mult mask_eq_exp_minus_1)
  qed
  have u: "uint (key_word i) = 4 * i + 3"
    unfolding key_word_def e by (rule uint_small) (use assms in simp_all)
  show "drop_bit 2 (uint (key_word i)) = i" by (simp add: u drop_bit_eq_div)
  show "uint (key_word i) AND 1 \<noteq> 0" unfolding u and_one_eq by presburger
  show "uint (key_word i) AND 2 \<noteq> 0"
  proof -
    have "odd ((4 * i + 3) div 2)" by presburger
    then have "bit (4 * i + 3) 1" by (simp add: bit_iff_odd)
    then show ?thesis unfolding u by (metis and_exp_eq_0_iff_not_bit power_one_right)
  qed
qed

lemma be_Uint16_be16 [simp]: "be_Uint16 (be16 w) = w"
  by (auto simp: be_Uint16_def be16_def bit_simps intro!: bit_word_eqI)

lemma length_value [simp]: "length (le32 v) = 4" "length (le64 w) = 8" "length (be16 u) = 2" "length (str_bytes s) = length s"
  by (simp_all add: le32_def le64_def be16_def str_bytes_def)

lemma bytes_str_bytes [simp]: "bytes_str (str_bytes s) = s"
proof -
  have "char_of (uint (of_char c :: byte)) = c" for c
  proof -
    have b: "0 \<le> (of_char c :: int)" "(of_char c :: int) < 2 ^ LENGTH(8)"
      using pos_mod_bound [of 256 "of_char c :: int"] pos_mod_sign [of 256 "of_char c :: int"]
      by simp_all
    have "uint (word_of_int (of_char c) :: byte) = of_char c" by (rule uint_small [OF b])
    moreover have "(word_of_int (of_char c) :: byte) = of_char c"
      by (cases c) (simp add: of_char_def of_bool_def)
    ultimately have "uint (of_char c :: byte) = of_char c" by simp
    then show ?thesis by simp
  qed
  then show ?thesis by (simp add: bytes_str_def str_bytes_def comp_def)
qed

lemma get_le32_le32 [simp]: "get_le32 (le32 w @ xs) = w" "get_le32 (le32 w) = w"
  using word32_bytes [of w] by (simp_all add: get_le32_def le32_def nth_append)

lemma get_le64_le64 [simp]: "get_le64 (le64 w) = w"
proof -
  have "get_le32 (le64 w) = ucast w" "get_le32 (drop 4 (le64 w)) = ucast (drop_bit 32 w)"
    using get_le32_le32 by (simp_all add: le64_def le32_def)
  then show ?thesis by (auto simp: get_le64_def bit_simps intro!: bit_word_eqI)
qed


section \<open>The invariant\<close>

text \<open>\<open>ty\<close> is the class of the values of each key; the class of a key is that of its first value.\<close>

definition kv_ok :: "(string \<Rightarrow> byte) \<Rightarrow> kv_storage \<Rightarrow> bool" where
  "kv_ok ty kv \<longleftrightarrow> da_inv (kv_vals kv) \<and> (\<forall>w p. da_supp (kv_vals kv) w p) \<and> 255 \<le> da_lim (kv_vals kv) \<and>
     1 \<le> bytePointer kv \<and> bytePointer kv \<le> da_Capacity (kv_vals kv) \<and> distinct (indexToKey kv) \<and>
     (\<forall>k i. keyToIndex kv k = Some i \<longleftrightarrow> 0 \<le> i \<and> i < int (length (indexToKey kv)) \<and> indexToKey kv ! nat i = k) \<and>
     indexToType kv = map ty (indexToKey kv)"

lemma kv_okD:
  assumes "kv_ok ty kv"
  shows "da_inv (kv_vals kv)" "da_supp (kv_vals kv) w p" "255 \<le> da_lim (kv_vals kv)" "1 \<le> bytePointer kv"
    "bytePointer kv \<le> da_Capacity (kv_vals kv)" "distinct (indexToKey kv)"
    "keyToIndex kv k = Some i \<longleftrightarrow> 0 \<le> i \<and> i < int (length (indexToKey kv)) \<and> indexToKey kv ! nat i = k"
    "indexToType kv = map ty (indexToKey kv)"
  using assms by (simp_all add: kv_ok_def)

text \<open>Bytes appended at the end of the values, the keys being left alone.\<close>

definition appended :: "byte list \<Rightarrow> kv_storage \<Rightarrow> kv_storage \<Rightarrow> bool" where
  "appended bs kv kv' \<longleftrightarrow> (\<exists>d. kv' = kv\<lparr>kv_vals := d, bytePointer := bytePointer kv + int (length bs)\<rparr> \<and>
     da_inv d \<and> da_supp d = da_supp (kv_vals kv) \<and> da_lim d = da_lim (kv_vals kv) \<and>
     bytePointer kv + int (length bs) \<le> da_Capacity d \<and>
     da_mem d = upd (da_mem (kv_vals kv)) (bytePointer kv) bs)"

lemma appended_trans: "appended xs kv kv1 \<Longrightarrow> appended ys kv1 kv2 \<Longrightarrow> appended (xs @ ys) kv kv2"
  by (auto simp: appended_def upd_upd_append add.assoc)

lemma appended_mem:
  "appended bs kv kv' \<Longrightarrow> da_mem (kv_vals kv') = upd (da_mem (kv_vals kv)) (bytePointer kv) bs"
  by (auto simp: appended_def)

lemma appended_ok: "kv_ok ty kv \<Longrightarrow> appended bs kv kv' \<Longrightarrow> kv_ok ty kv'"
  by (auto simp: appended_def kv_ok_def)

lemma upd_Nil [simp]: "upd m p [] = m"
  by (auto simp: upd_def fun_eq_iff)

lemma appended_lim: "appended bs kv kv' \<Longrightarrow> da_lim (kv_vals kv') = da_lim (kv_vals kv)"
  by (auto simp: appended_def)

lemma append_byte:
  assumes "kv_ok ty kv" "bytePointer kv + 1 \<le> n"
  obtains g d d' where "da_EnsureCapacity n (kv_vals kv) = Some (g, d)" "da_SetByte (bytePointer kv) b d = Some d'"
    "appended [b] kv (kv\<lparr>kv_vals := d', bytePointer := bytePointer kv + 1\<rparr>)" "n \<le> da_Capacity d'"
proof -
  note ok = kv_okD [OF assms(1)] and ret = that
  have n: "0 \<le> n" using ok(4) assms(2) by simp
  obtain g d where d: "da_EnsureCapacity n (kv_vals kv) = Some (g, d)" "da_mem d = da_mem (kv_vals kv)"
    "n \<le> da_Capacity d" "da_inv d" "da_supp d = da_supp (kv_vals kv)" "da_lim d = da_lim (kv_vals kv)"
    using dab.ensure_lim [OF ok(1) n] by metis
  have "da.acc d 1 (bytePointer kv)" using ok(2,4) d assms(2) by (simp add: da.acc_def)
  then obtain d' where d': "da_SetByte (bytePointer kv) b d = Some d'" "da_mem d' = upd (da_mem d) (bytePointer kv) [b]"
    "da_inv d'" "da_Capacity d' = da_Capacity d" "da_supp d' = da_supp d" "da_lim d' = da_lim d"
    using dab.set_byte_lim by metis
  show ?thesis by (rule ret [OF d(1) d'(1)]) (use d d' assms(2) in \<open>auto simp: appended_def\<close>)
qed

lemma append_bytes:
  assumes "kv_ok ty kv" "0 < length bs" "int (length bs) \<le> da_lim (kv_vals kv)"
    "bytePointer kv + int (length bs) \<le> da_Capacity (kv_vals kv)"
  obtains d where "da_SetBytes (bytePointer kv) bs (int (length bs)) (kv_vals kv) = Some d"
    "appended bs kv (kv\<lparr>kv_vals := d, bytePointer := bytePointer kv + int (length bs)\<rparr>)"
proof -
  note ok = kv_okD [OF assms(1)] and ret = that
  obtain d where d: "da_SetBytes (bytePointer kv) bs (int (length bs)) (kv_vals kv) = Some d"
    "da_mem d = upd (da_mem (kv_vals kv)) (bytePointer kv) bs" "da_inv d" "da_Capacity d = da_Capacity (kv_vals kv)"
    "da_supp d = da_supp (kv_vals kv)" "da_lim d = da_lim (kv_vals kv)"
    by (rule dab.set_bytes [OF ok(1), of "bytePointer kv" bs]) (use ok assms in auto)
  show ?thesis by (rule ret [OF d(1)]) (use d assms(4) in \<open>auto simp: appended_def\<close>)
qed

text \<open>Growing the storage is not visible.\<close>

lemma ensure_ok:
  assumes "kv_ok ty kv" "0 \<le> n"
  obtains g d where "da_EnsureCapacity n (kv_vals kv) = Some (g, d)" "appended [] kv (kv\<lparr>kv_vals := d\<rparr>)"
    "n \<le> da_Capacity d"
proof -
  note ok = kv_okD [OF assms(1)] and ret = that
  obtain g d where d: "da_EnsureCapacity n (kv_vals kv) = Some (g, d)" "da_mem d = da_mem (kv_vals kv)"
    "da_Capacity (kv_vals kv) \<le> da_Capacity d" "n \<le> da_Capacity d" "da_inv d" "da_supp d = da_supp (kv_vals kv)"
    "da_lim d = da_lim (kv_vals kv)"
    using dab.ensure_lim [OF ok(1) assms(2)] by metis
  show ?thesis by (rule ret [OF d(1)]) (use d ok(5) in \<open>auto simp: appended_def\<close>)
qed

lemma write_fixed_ok:
  assumes "kv_ok ty kv" "0 < length bs" "length bs \<le> 255"
  obtains kv' where "write_fixed bs kv = Some kv'" "appended bs kv kv'"
proof -
  note ret = that
  have n: "0 \<le> bytePointer kv + int (length bs)" using kv_okD(4) [OF assms(1)] by simp
  obtain g d where d: "da_EnsureCapacity (bytePointer kv + int (length bs)) (kv_vals kv) = Some (g, d)"
    "appended [] kv (kv\<lparr>kv_vals := d\<rparr>)" "bytePointer kv + int (length bs) \<le> da_Capacity d"
    by (rule ensure_ok [OF assms(1) n])
  obtain d' where d': "da_SetBytes (bytePointer kv) bs (int (length bs)) d = Some d'"
    "appended bs (kv\<lparr>kv_vals := d\<rparr>) (kv\<lparr>kv_vals := d', bytePointer := bytePointer kv + int (length bs)\<rparr>)"
    by (rule append_bytes [OF appended_ok [OF assms(1) d(2)] assms(2)])
      (use d(3) appended_lim [OF d(2)] kv_okD(3) [OF assms(1)] assms(3) in auto)
  show ?thesis
    by (rule ret [of "kv\<lparr>kv_vals := d', bytePointer := bytePointer kv + int (length bs)\<rparr>"])
      (use d d' appended_trans [OF d(2) d'(2)] in \<open>auto simp: write_fixed_def\<close>)
qed

lemma write_blob_ok:
  assumes "kv_ok ty kv" "int (length bs) \<le> da_lim (kv_vals kv)"
  obtains kv' where "write_blob bs kv = Some kv'" "appended (word_of_int (int (length bs)) # bs) kv kv'"
proof -
  note ret = that
  let ?n = "bytePointer kv + 1 + int (length bs)"
  let ?l = "word_of_int (int (length bs)) :: byte"
  obtain g d d' where d: "da_EnsureCapacity ?n (kv_vals kv) = Some (g, d)" "da_SetByte (bytePointer kv) ?l d = Some d'"
    "appended [?l] kv (kv\<lparr>kv_vals := d', bytePointer := bytePointer kv + 1\<rparr>)" "?n \<le> da_Capacity d'"
    by (rule append_byte [OF assms(1), of ?n ?l]) (simp, rule that)
  let ?kv = "kv\<lparr>kv_vals := d', bytePointer := bytePointer kv + 1\<rparr>"
  show ?thesis
  proof (cases "length bs > 0")
    case True
    obtain d2 where d2: "da_SetBytes (bytePointer kv + 1) bs (int (length bs)) d' = Some d2"
      "appended bs ?kv (?kv\<lparr>kv_vals := d2, bytePointer := bytePointer kv + 1 + int (length bs)\<rparr>)"
      by (rule append_bytes [OF appended_ok [OF assms(1) d(3)] True])
        (use d(4) assms(2) appended_lim [OF d(3)] in auto)
    show ?thesis
      by (rule ret [of "kv\<lparr>kv_vals := d2, bytePointer := bytePointer kv + 1 + int (length bs)\<rparr>"])
        (use d d2 True appended_trans [OF d(3) d2(2)] in \<open>auto simp: write_blob_def\<close>)
  next
    case False
    then show ?thesis using d by (intro ret [of ?kv]) (auto simp: write_blob_def)
  qed
qed

lemma write_int_ok:
  assumes "kv_ok ty kv"
  obtains g d d' where "da_EnsureCapacity (bytePointer kv + 4) (kv_vals kv) = Some (g, d)"
    "da_SetInt (bytePointer kv) w d = Some d'"
    "appended (bytes32 w) kv (kv\<lparr>kv_vals := d', bytePointer := bytePointer kv + 4\<rparr>)"
proof -
  note ok = kv_okD [OF assms(1)] and ret = that
  have n: "0 \<le> bytePointer kv + 4" using ok(4) by simp
  obtain g d where d: "da_EnsureCapacity (bytePointer kv + 4) (kv_vals kv) = Some (g, d)" "da_mem d = da_mem (kv_vals kv)"
    "bytePointer kv + 4 \<le> da_Capacity d" "da_inv d" "da_supp d = da_supp (kv_vals kv)" "da_lim d = da_lim (kv_vals kv)"
    using dab.ensure_lim [OF ok(1) n] by metis
  have "da.acc d 4 (bytePointer kv)" using ok(2,4) d by (simp add: da.acc_def)
  then obtain d' where d': "da_SetInt (bytePointer kv) w d = Some d'" "da_mem d' = upd (da_mem d) (bytePointer kv) (bytes32 w)"
    "da_inv d'" "da_Capacity d' = da_Capacity d" "da_supp d' = da_supp d" "da_lim d' = da_lim d"
    using dab.set_int_lim by metis
  show ?thesis by (rule ret [OF d(1) d'(1)]) (use d d' in \<open>auto simp: appended_def\<close>)
qed

lemma writeValue_ok:
  assumes "kv_ok ty kv" "value_ok v" "classTypeOf v = Some c"
  obtains kv' where "writeValue v c kv = Some kv'" "appended (value_bytes v) kv kv'"
proof -
  note ret = that
  have int: thesis if "v = KvInt n \<and> w = word_of_int n \<or> v = KvInt32 w" for n w
  proof -
    obtain g d d' where d: "da_EnsureCapacity (bytePointer kv + 4) (kv_vals kv) = Some (g, d)"
      "da_SetInt (bytePointer kv) w d = Some d'"
      "appended (bytes32 w) kv (kv\<lparr>kv_vals := d', bytePointer := bytePointer kv + 4\<rparr>)"
      by (rule write_int_ok [OF assms(1)])
    show ?thesis by (rule ret [of "kv\<lparr>kv_vals := d', bytePointer := bytePointer kv + 4\<rparr>"])
        (use d that assms(3) in \<open>auto simp: writeValue_def classTypeOf_def\<close>)
  qed
  show ?thesis
  proof (cases v)
    case (KvString s)
    then have l: "length (str_bytes s) \<le> 255" using assms(2) by simp
    obtain kv' where "write_blob (str_bytes s) kv = Some kv'" "appended (word_of_int (int (length (str_bytes s))) # str_bytes s) kv kv'"
      by (rule write_blob_ok [OF assms(1), of "str_bytes s"]) (use l kv_okD(3) [OF assms(1)] in auto)
    then show ?thesis using KvString assms(3)
      by (intro ret [of kv']) (auto simp: writeValue_def classTypeOf_def)
  next
    case (KvBytes b)
    then have l: "length b \<le> 255" using assms(2) by simp
    obtain kv' where "write_blob b kv = Some kv'" "appended (word_of_int (int (length b)) # b) kv kv'"
      by (rule write_blob_ok [OF assms(1), of "b"]) (use l kv_okD(3) [OF assms(1)] in auto)
    then show ?thesis using KvBytes assms(3)
      by (intro ret [of kv']) (auto simp: writeValue_def classTypeOf_def)
  next
    case (KvFloat32 w)
    then have l: "0 < length (le32 w) \<and> length (le32 w) \<le> 255" using assms(2) by simp
    obtain kv' where "write_fixed (le32 w) kv = Some kv'" "appended (le32 w) kv kv'"
      by (rule write_fixed_ok [OF assms(1), of "le32 w"]) (use l in auto)
    then show ?thesis using KvFloat32 assms(3)
      by (intro ret [of kv']) (auto simp: writeValue_def classTypeOf_def)
  next
    case (KvInt64 w)
    then have l: "0 < length (le64 w) \<and> length (le64 w) \<le> 255" using assms(2) by simp
    obtain kv' where "write_fixed (le64 w) kv = Some kv'" "appended (le64 w) kv kv'"
      by (rule write_fixed_ok [OF assms(1), of "le64 w"]) (use l in auto)
    then show ?thesis using KvInt64 assms(3)
      by (intro ret [of kv']) (auto simp: writeValue_def classTypeOf_def)
  next
    case (KvFloat64 w)
    then have l: "0 < length (le64 w) \<and> length (le64 w) \<le> 255" using assms(2) by simp
    obtain kv' where "write_fixed (le64 w) kv = Some kv'" "appended (le64 w) kv kv'"
      by (rule write_fixed_ok [OF assms(1), of "le64 w"]) (use l in auto)
    then show ?thesis using KvFloat64 assms(3)
      by (intro ret [of kv']) (auto simp: writeValue_def classTypeOf_def)
  next
    case (KvInt n)
    then show ?thesis by (intro int [of n "word_of_int n"]) simp
  next
    case (KvInt32 w)
    then show ?thesis by (intro int [of 0 w]) simp
  qed (use assms(2) in simp_all)
qed


section \<open>Entries\<close>

definition keys_extend :: "kv_storage \<Rightarrow> kv_storage \<Rightarrow> bool" where
  "keys_extend kv kv' \<longleftrightarrow> (\<exists>ks. indexToKey kv' = indexToKey kv @ ks)"

text \<open>A later state: more keys, more bytes, and the old ones as they were.\<close>

definition extends :: "kv_storage \<Rightarrow> kv_storage \<Rightarrow> bool" where
  "extends kv kv' \<longleftrightarrow> keys_extend kv kv' \<and> bytePointer kv \<le> bytePointer kv' \<and>
     (\<forall>q < bytePointer kv. da_mem (kv_vals kv') q = da_mem (kv_vals kv) q)"

lemma extends_refl [simp]: "extends kv kv"
  by (simp add: extends_def keys_extend_def)

lemma extends_trans: "extends kv kv1 \<Longrightarrow> extends kv1 kv2 \<Longrightarrow> extends kv kv2"
  by (force simp: extends_def keys_extend_def)

lemma appended_extends: "appended bs kv kv' \<Longrightarrow> extends kv kv'"
  by (auto simp: appended_def extends_def keys_extend_def upd_def)

lemma extends_index:
  assumes "kv_ok ty kv" "kv_ok ty kv'" "extends kv kv'" "keyToIndex kv k = Some i"
  shows "keyToIndex kv' k = Some i"
  using assms kv_okD(7) [OF assms(1), of k i] kv_okD(7) [OF assms(2), of k i]
  by (auto simp: extends_def keys_extend_def nth_append nat_less_iff)

lemma key_index_ok:
  assumes "kv_ok ty kv" "classTypeOf v = Some (ty k)"
  obtains i kv' where "key_index k v kv = Some (i, kv')" "kv_ok ty kv'" "kv_vals kv' = kv_vals kv"
    "bytePointer kv' = bytePointer kv" "keyToIndex kv' k = Some i" "extends kv kv'"
    "set (indexToKey kv') = insert k (set (indexToKey kv))"
proof (cases "keyToIndex kv k")
  case (Some i)
  then have "k \<in> set (indexToKey kv)" using kv_okD(7) [OF assms(1), of k i] by auto
  then show ?thesis using Some assms(1)
    by (intro that [of i kv]) (auto simp: key_index_def)
next
  case None
  note ok = kv_okD [OF assms(1)]
  let ?i = "int (length (indexToKey kv))"
  let ?kv = "kv\<lparr>keyToIndex := (keyToIndex kv)(k \<mapsto> ?i), indexToKey := indexToKey kv @ [k],
    indexToType := indexToType kv @ [ty k]\<rparr>"
  have new: "k \<notin> set (indexToKey kv)"
  proof
    assume "k \<in> set (indexToKey kv)"
    then obtain j where "j < length (indexToKey kv)" "indexToKey kv ! j = k" by (auto simp: in_set_conv_nth)
    then show False using ok(7) [of k "int j"] None by simp
  qed
  have "((keyToIndex kv)(k \<mapsto> ?i)) k' = Some i \<longleftrightarrow>
    0 \<le> i \<and> i < ?i + 1 \<and> (indexToKey kv @ [k]) ! nat i = k'" for k' i
  proof (cases "i = ?i")
    case True
    then show ?thesis using ok(7) [of k' i] by auto
  next
    case False
    then have "indexToKey kv ! nat i \<noteq> k" if "0 \<le> i" "i < ?i + 1"
      using new that nth_mem [of "nat i" "indexToKey kv"] by (auto simp: nat_less_iff)
    then show ?thesis using False ok(7) [of k' i] by (auto simp: nth_append nat_less_iff)
  qed
  then have "kv_ok ty ?kv" using assms(1) new by (auto simp: kv_ok_def)
  then show ?thesis using None assms(2)
    by (intro that [of ?i ?kv]) (auto simp: key_index_def extends_def keys_extend_def Let_def)
qed

text \<open>The entries that start at a position of the values.\<close>

fun entries_at :: "kv_storage \<Rightarrow> int \<Rightarrow> (string \<times> kv_value) list \<Rightarrow> bool" where
  "entries_at kv p [] \<longleftrightarrow> True"
| "entries_at kv p ((k, v) # es) \<longleftrightarrow>
     (let n = 2 + length (value_bytes v) in
      (\<exists>i. keyToIndex kv k = Some i \<and> i < 2 ^ 14 \<and>
        mem_bytes (da_mem (kv_vals kv)) p n = be16 (key_word i) @ value_bytes v) \<and>
      1 \<le> p \<and> p + int n \<le> bytePointer kv \<and> value_ok v \<and> entries_at kv (p + int n) es)"

definition typed :: "(string \<Rightarrow> byte) \<Rightarrow> (string \<times> kv_value) list \<Rightarrow> bool" where
  "typed ty es \<longleftrightarrow> (\<forall>(k, v) \<in> set es. classTypeOf v = Some (ty k))"

lemma entries_at_extends:
  assumes "kv_ok ty kv" "kv_ok ty kv'" "extends kv kv'" "entries_at kv p es"
  shows "entries_at kv' p es"
  using assms(4)
proof (induction es arbitrary: p)
  case (Cons e es)
  obtain k v where e: "e = (k, v)" by (cases e)
  let ?n = "2 + length (value_bytes v)"
  obtain i where i: "keyToIndex kv k = Some i" "i < 2 ^ 14"
    "mem_bytes (da_mem (kv_vals kv)) p ?n = be16 (key_word i) @ value_bytes v"
    and b: "1 \<le> p" "p + int ?n \<le> bytePointer kv" "value_ok v" "entries_at kv (p + int ?n) es"
    using Cons.prems by (auto simp: e Let_def)
  have "mem_bytes (da_mem (kv_vals kv')) p ?n = mem_bytes (da_mem (kv_vals kv)) p ?n"
    using assms(3) b(2) by (intro mem_bytes_cong) (auto simp: extends_def)
  moreover have "p + int ?n \<le> bytePointer kv'" using assms(3) b(2) by (simp add: extends_def)
  ultimately show ?case
    using extends_index [OF assms(1-3) i(1)] i b Cons.IH by (auto simp: e Let_def)
qed simp

lemma add_entries_ok:
  assumes "kv_ok ty kv" "typed ty es" "\<forall>(k, v) \<in> set es. value_ok v"
    "card (set (indexToKey kv) \<union> fst ` set es) \<le> 2 ^ 14"
  shows "\<exists>kv'. add_entries es kv = Some kv' \<and> kv_ok ty kv' \<and> extends kv kv' \<and>
    entries_at kv' (bytePointer kv) es \<and> set (indexToKey kv') = set (indexToKey kv) \<union> fst ` set es"
  using assms
proof (induction es arbitrary: kv)
  case (Cons e es)
  obtain k v where e: "e = (k, v)" by (cases e)
  have v: "classTypeOf v = Some (ty k)" "value_ok v" using Cons.prems(2,3) by (auto simp: e typed_def)
  obtain i kv1 where k1: "key_index k v kv = Some (i, kv1)" "kv_ok ty kv1" "kv_vals kv1 = kv_vals kv"
    "bytePointer kv1 = bytePointer kv" "keyToIndex kv1 k = Some i" "extends kv kv1"
    "set (indexToKey kv1) = insert k (set (indexToKey kv))"
    by (rule key_index_ok [OF Cons.prems(1) v(1)])
  have i: "0 \<le> i" "i < int (length (indexToKey kv1))" "indexToKey kv1 ! nat i = k"
    using kv_okD(7) [OF k1(2), of k i] k1(5) by auto
  obtain kv2 where k2: "write_fixed (be16 (key_word i)) kv1 = Some kv2" "appended (be16 (key_word i)) kv1 kv2"
    by (rule write_fixed_ok [OF k1(2), of "be16 (key_word i)"]) simp_all
  note ok2 = appended_ok [OF k1(2) k2(2)]
  have same: "indexToKey kv2 = indexToKey kv1" "indexToType kv2 = indexToType kv1" "keyToIndex kv2 = keyToIndex kv1"
    using k2(2) by (auto simp: appended_def)
  have ty: "idx (indexToType kv2) i = Some (ty k)"
    using i kv_okD(8) [OF k1(2)] by (simp add: same idx_def nat_less_iff)
  obtain kv3 where k3: "writeValue v (ty k) kv2 = Some kv3" "appended (value_bytes v) kv2 kv3"
    by (rule writeValue_ok [OF ok2 v(2,1)])
  note ok3 = appended_ok [OF ok2 k3(2)] and app = appended_trans [OF k2(2) k3(2)]
  note ext3 = extends_trans [OF k1(6) appended_extends [OF app]]
  have keys3: "indexToKey kv3 = indexToKey kv1" "keyToIndex kv3 = keyToIndex kv1"
    using app by (auto simp: appended_def)
  have un: "set (indexToKey kv3) \<union> fst ` set es = set (indexToKey kv) \<union> fst ` set (e # es)"
    using k1(7) by (auto simp: keys3 e)
  obtain kv' where kv': "add_entries es kv3 = Some kv'" "kv_ok ty kv'" "extends kv3 kv'"
    "entries_at kv' (bytePointer kv3) es" "set (indexToKey kv') = set (indexToKey kv3) \<union> fst ` set es"
    using Cons.IH [OF ok3] Cons.prems(2-4) un by (auto simp: typed_def)
  have "i < 2 ^ 14"
  proof -
    have "card (set (indexToKey kv1)) \<le> 2 ^ 14"
      using Cons.prems(4) un keys3(1) by (metis List.finite_set card_mono finite_Un finite_imageI le_trans sup_ge1)
    then show ?thesis using i(2) distinct_card [OF kv_okD(6) [OF k1(2)]] by simp
  qed
  moreover have "keyToIndex kv' k = Some i"
    using extends_index [OF ok3 kv'(2,3)] k1(5) keys3(2) by simp
  moreover have "mem_bytes (da_mem (kv_vals kv')) (bytePointer kv) (2 + length (value_bytes v)) =
      be16 (key_word i) @ value_bytes v"
  proof -
    have l: "length (be16 (key_word i) @ value_bytes v) = 2 + length (value_bytes v)" by simp
    have "mem_bytes (da_mem (kv_vals kv')) (bytePointer kv) (2 + length (value_bytes v)) =
      mem_bytes (da_mem (kv_vals kv3)) (bytePointer kv) (2 + length (value_bytes v))"
      using kv'(3) app k1(4) by (intro mem_bytes_cong) (auto simp: extends_def appended_def)
    then show ?thesis using app k1(4) mem_bytes_upd [of _ "bytePointer kv" "be16 (key_word i) @ value_bytes v"]
      unfolding l by (auto simp: appended_def)
  qed
  moreover have "bytePointer kv3 = bytePointer kv + int (2 + length (value_bytes v))"
    using app k1(4) by (auto simp: appended_def)
  moreover have "1 \<le> bytePointer kv" by (rule kv_okD(4) [OF Cons.prems(1)])
  moreover have "bytePointer kv3 \<le> bytePointer kv'" using kv'(3) by (simp add: extends_def)
  ultimately have "entries_at kv' (bytePointer kv) (e # es)" using kv'(4) v(2) by (auto simp: e Let_def)
  moreover have "add_entries (e # es) kv = Some kv'"
    using k1(1) k2(1) k3(1) ty kv'(1) by (simp add: e key_word_def Let_def)
  ultimately show ?case
    using kv'(2,5) un extends_trans [OF ext3 kv'(3)] by auto
qed simp


section \<open>Reading\<close>

lemma read_bytes_ok:
  assumes "kv_ok ty kv" "0 \<le> p" "p + int n \<le> bytePointer kv" "0 < n" "n \<le> 255"
  shows "read_bytes p n (kv_vals kv) = Some (mem_bytes (da_mem (kv_vals kv)) p n)"
  using kv_okD [OF assms(1)] assms(2-5) unfolding read_bytes_def
  by (intro dab.get_bytes) auto

lemma get_byte_ok:
  assumes "kv_ok ty kv" "0 \<le> p" "p < bytePointer kv"
  shows "da_GetByte p (kv_vals kv) = Some (da_mem (kv_vals kv) p)"
  using kv_okD [OF assms(1)] assms(2,3) by (intro da.get_byte) (auto simp: da.acc_def)

lemma get_int_ok:
  assumes "kv_ok ty kv" "0 \<le> p" "p + 4 \<le> bytePointer kv"
  shows "da_GetInt p (kv_vals kv) = Some (mem32 (da_mem (kv_vals kv)) p)"
  using kv_okD [OF assms(1)] assms(2,3) by (intro da.get_int) (auto simp: da.acc_def)

lemma length_byte:
  assumes "n \<le> 255"
  shows "unat (word_of_nat n :: byte) = n" "uint (word_of_nat n :: byte) = int n" "(word_of_nat n :: byte) = 0 \<longleftrightarrow> n = 0"
proof -
  show u: "unat (word_of_nat n :: byte) = n" using assms by (simp add: unat_of_nat take_bit_nat_eq_self)
  show "uint (word_of_nat n :: byte) = int n" by (simp only: uint_nat u)
  show "(word_of_nat n :: byte) = 0 \<longleftrightarrow> n = 0" using u by (cases "n = 0") auto
qed

lemma mem_bytes_Cons: "mem_bytes m p (Suc n) = b # bs \<longleftrightarrow> m p = b \<and> mem_bytes m (p + 1) n = bs"
  using mem_bytes_add [of m p 1 n] by (auto simp: mem_bytes_def)

text \<open>A string or a byte slice: the length byte and the bytes after it.\<close>

lemma read_blob:
  assumes "kv_ok ty kv" "length bs \<le> 255" "0 \<le> p" "p + 1 + int (length bs) \<le> bytePointer kv"
    "mem_bytes (da_mem (kv_vals kv)) p (Suc (length bs)) = word_of_int (int (length bs)) # bs"
  shows "da_GetByte p (kv_vals kv) = Some (word_of_int (int (length bs)))"
    "bs \<noteq> [] \<Longrightarrow> read_bytes (p + 1) (length bs) (kv_vals kv) = Some bs"
proof -
  have m: "da_mem (kv_vals kv) p = word_of_int (int (length bs))"
    "mem_bytes (da_mem (kv_vals kv)) (p + 1) (length bs) = bs"
    using assms(5) by (simp_all add: mem_bytes_Cons)
  then show "da_GetByte p (kv_vals kv) = Some (word_of_int (int (length bs)))"
    using assms(3,4) by (subst get_byte_ok [OF assms(1)]) auto
  show "read_bytes (p + 1) (length bs) (kv_vals kv) = Some bs" if "bs \<noteq> []"
    using assms that m by (subst read_bytes_ok [OF assms(1)]) auto
qed

lemma readValue_ok:
  assumes "kv_ok ty kv" "value_ok v" "classTypeOf v = Some c" "0 \<le> p"
    "p + int (length (value_bytes v)) \<le> bytePointer kv"
    "mem_bytes (da_mem (kv_vals kv)) p (length (value_bytes v)) = value_bytes v"
  shows "readValue p c (kv_vals kv) = Some (read_back v)"
    "valueLength p c (kv_vals kv) = Some (int (length (value_bytes v)))"
proof -
  have "readValue p c (kv_vals kv) = Some (read_back v) \<and>
    valueLength p c (kv_vals kv) = Some (int (length (value_bytes v)))"
  proof (cases v)
    case (KvString s)
    have "da_GetByte p (kv_vals kv) = Some (word_of_int (int (length (str_bytes s))))"
      "str_bytes s \<noteq> [] \<Longrightarrow> read_bytes (p + 1) (length (str_bytes s)) (kv_vals kv) = Some (str_bytes s)"
      by (rule read_blob [OF assms(1)]; use assms KvString in simp)+
    moreover have "s \<noteq> [] \<Longrightarrow> str_bytes s \<noteq> []" by (simp add: str_bytes_def)
    ultimately show ?thesis using assms(2,3) KvString length_byte [of "length s"]
      by (auto simp: readValue_def valueLength_def classTypeOf_def)
  next
    case (KvBytes b)
    have "da_GetByte p (kv_vals kv) = Some (word_of_int (int (length b)))"
      "b \<noteq> [] \<Longrightarrow> read_bytes (p + 1) (length b) (kv_vals kv) = Some b"
      by (rule read_blob [OF assms(1)]; use assms KvBytes in simp)+
    then show ?thesis using assms(2,3) KvBytes length_byte [of "length b"]
      by (auto simp: readValue_def valueLength_def classTypeOf_def)
  next
    case (KvInt n)
    then show ?thesis using assms(3-6) mem_bytes_32 [of _ p] get_int_ok [OF assms(1), of p]
      by (auto simp: readValue_def valueLength_def classTypeOf_def)
  next
    case (KvInt32 w)
    then show ?thesis using assms(3-6) mem_bytes_32 [of _ p] get_int_ok [OF assms(1), of p]
      by (auto simp: readValue_def valueLength_def classTypeOf_def)
  next
    case (KvFloat32 w)
    then show ?thesis using assms(3-6) read_bytes_ok [OF assms(1), of p 4]
      by (auto simp: readValue_def valueLength_def classTypeOf_def)
  next
    case (KvInt64 w)
    then show ?thesis using assms(3-6) read_bytes_ok [OF assms(1), of p 8]
      by (auto simp: readValue_def valueLength_def classTypeOf_def)
  next
    case (KvFloat64 w)
    then show ?thesis using assms(3-6) read_bytes_ok [OF assms(1), of p 8]
      by (auto simp: readValue_def valueLength_def classTypeOf_def)
  qed (use assms(2) in simp_all)
  then show "readValue p c (kv_vals kv) = Some (read_back v)"
    "valueLength p c (kv_vals kv) = Some (int (length (value_bytes v)))" by simp_all
qed

text \<open>One step of the two loops over the entries.\<close>

lemma entry_step:
  assumes "kv_ok ty kv" "entries_at kv p ((k, v) # es)" "classTypeOf v = Some (ty k)"
  obtains i where "read_bytes p 2 (kv_vals kv) = Some (be16 (key_word i))" "keyToIndex kv k = Some i"
    "0 \<le> i" "i < 2 ^ 14" "i < int (length (indexToKey kv))" "idx (indexToType kv) i = Some (ty k)"
    "idx (indexToKey kv) i = Some k" "readValue (p + 2) (ty k) (kv_vals kv) = Some (read_back v)"
    "valueLength (p + 2) (ty k) (kv_vals kv) = Some (int (length (value_bytes v)))"
    "entries_at kv (p + 2 + int (length (value_bytes v))) es"
proof -
  obtain i where i: "keyToIndex kv k = Some i" "i < 2 ^ 14"
    "mem_bytes (da_mem (kv_vals kv)) p (2 + length (value_bytes v)) = be16 (key_word i) @ value_bytes v"
    and b: "1 \<le> p" "p + int (2 + length (value_bytes v)) \<le> bytePointer kv" "value_ok v"
    "entries_at kv (p + int (2 + length (value_bytes v))) es"
    using assms(2) by (auto simp: Let_def)
  note D = kv_okD(7) [OF assms(1), of k i, unfolded i(1), simplified]
  have m: "mem_bytes (da_mem (kv_vals kv)) p 2 = be16 (key_word i)"
    "mem_bytes (da_mem (kv_vals kv)) (p + 2) (length (value_bytes v)) = value_bytes v"
    using mem_bytes_appendD [of _ p "be16 (key_word i)" "value_bytes v"] i(3) by simp_all
  have "read_bytes p 2 (kv_vals kv) = Some (be16 (key_word i))"
    using b m(1) by (subst read_bytes_ok [OF assms(1)]) auto
  moreover have "idx (indexToType kv) i = Some (ty k)" "idx (indexToKey kv) i = Some k"
    using D kv_okD(8) [OF assms(1)] by (auto simp: idx_def nat_less_iff)
  moreover have "0 \<le> p + 2" "p + 2 + int (length (value_bytes v)) \<le> bytePointer kv" using b(1,2) by simp_all
  note R = readValue_ok [OF assms(1) b(3) assms(3) this m(2)]
  ultimately show ?thesis using i b(4) D R by (intro that [of i]) (auto simp: add.assoc)
qed

lemma get_loop_ok:
  assumes "kv_ok ty kv" "keyToIndex kv key = Some i" "entries_at kv p es" "typed ty es" "d = 1 \<or> d = 2"
  shows "get_loop (length es) p i d kv =
    Some (case map_of es key of None \<Rightarrow> KvNil | Some v \<Rightarrow> read_back v)"
  using assms(3,4)
proof (induction es arbitrary: p)
  case (Cons e es)
  obtain k v where e: "e = (k, v)" by (cases e)
  have t: "classTypeOf v = Some (ty k)" "typed ty es" using Cons.prems(2) by (auto simp: e typed_def)
  obtain j where j: "read_bytes p 2 (kv_vals kv) = Some (be16 (key_word j))" "keyToIndex kv k = Some j"
    "0 \<le> j" "j < 2 ^ 14" "j < int (length (indexToKey kv))" "idx (indexToType kv) j = Some (ty k)"
    "idx (indexToKey kv) j = Some k" "readValue (p + 2) (ty k) (kv_vals kv) = Some (read_back v)"
    "valueLength (p + 2) (ty k) (kv_vals kv) = Some (int (length (value_bytes v)))"
    "entries_at kv (p + 2 + int (length (value_bytes v))) es"
    using entry_step [OF assms(1) _ t(1)] Cons.prems(1) unfolding e by metis
  have "j = i \<longleftrightarrow> k = key"
  proof
    show "k = key" if "j = i"
      using that j(2) assms(2) kv_okD(7) [OF assms(1), of k j] kv_okD(7) [OF assms(1), of key i] by simp
    show "j = i" if "k = key" using that j(2) assms(2) by simp
  qed
  moreover have "uint (key_word j) AND d \<noteq> 0" using key_word(2,3) [OF j(3,4)] assms(5) by auto
  moreover note IH = Cons.IH [OF j(10) t(2)] and w = key_word(1) [OF j(3,4)]
  ultimately show ?case
  proof (cases "k = key")
    case True
    then show ?thesis using j(1,5,6,8) w \<open>j = i \<longleftrightarrow> k = key\<close> \<open>uint (key_word j) AND d \<noteq> 0\<close> by (simp add: e)
  next
    case False
    then show ?thesis using j(1,5,6,9) w \<open>j = i \<longleftrightarrow> k = key\<close> IH by (simp add: e)
  qed
qed simp

lemma update_new: "k \<notin> fst ` set r \<Longrightarrow> AList.update k v r = r @ [(k, v)]"
  by (induction r) auto

lemma get_all_loop_ok:
  assumes "kv_ok ty kv" "entries_at kv p es" "typed ty es" "distinct (map fst (r @ es))"
  shows "get_all_loop (length es) p r kv = Some (r @ map (apsnd read_back) es)"
  using assms(2-4)
proof (induction es arbitrary: p r)
  case (Cons e es)
  obtain k v where e: "e = (k, v)" by (cases e)
  have t: "classTypeOf v = Some (ty k)" "typed ty es" using Cons.prems(2) by (auto simp: e typed_def)
  obtain j where j: "read_bytes p 2 (kv_vals kv) = Some (be16 (key_word j))" "keyToIndex kv k = Some j"
    "0 \<le> j" "j < 2 ^ 14" "j < int (length (indexToKey kv))" "idx (indexToType kv) j = Some (ty k)"
    "idx (indexToKey kv) j = Some k" "readValue (p + 2) (ty k) (kv_vals kv) = Some (read_back v)"
    "valueLength (p + 2) (ty k) (kv_vals kv) = Some (int (length (value_bytes v)))"
    "entries_at kv (p + 2 + int (length (value_bytes v))) es"
    using entry_step [OF assms(1) _ t(1)] Cons.prems(1) unfolding e by metis
  have "AList.update k (read_back v) r = r @ [(k, read_back v)]"
    using Cons.prems(3) by (intro update_new) (auto simp: e)
  moreover have "distinct (map fst ((r @ [(k, read_back v)]) @ es))" using Cons.prems(3) by (auto simp: e)
  ultimately show ?case
    using j key_word(1) [OF j(3,4)] Cons.IH [OF j(10) t(2), of "r @ [(k, read_back v)]"]
    by (simp add: e Let_def)
qed simp


section \<open>Maps\<close>

definition entry_map :: "(string \<times> kv_value) list \<Rightarrow> string \<Rightarrow> kv_value" where
  "entry_map es key = (case map_of es key of None \<Rightarrow> KvNil | Some v \<Rightarrow> read_back v)"

text \<open>A map that can be stored, and a map that is stored at a pointer.\<close>

definition map_ok :: "(string \<Rightarrow> byte) \<Rightarrow> (string \<times> kv_value) list \<Rightarrow> bool" where
  "map_ok ty es \<longleftrightarrow> typed ty es \<and> (\<forall>(k, v) \<in> set es. value_ok v) \<and> distinct (map fst es) \<and> length es \<le> 255"

definition stored_at :: "(string \<Rightarrow> byte) \<Rightarrow> kv_storage \<Rightarrow> int \<Rightarrow> (string \<times> kv_value) list \<Rightarrow> bool" where
  "stored_at ty kv p es \<longleftrightarrow> map_ok ty es \<and>
     (if es = [] then p = 0
      else 1 \<le> p \<and> p < bytePointer kv \<and> da_mem (kv_vals kv) p = word_of_nat (length es) \<and> entries_at kv (p + 1) es)"

lemma stored_at_extends:
  assumes "kv_ok ty kv" "kv_ok ty kv'" "extends kv kv'" "stored_at ty kv p es"
  shows "stored_at ty kv' p es"
  using assms(4) entries_at_extends [OF assms(1-3)] assms(3) by (auto simp: stored_at_def extends_def)

lemma entries_at_index: "entries_at kv p es \<Longrightarrow> (k, v) \<in> set es \<Longrightarrow> \<exists>i. keyToIndex kv k = Some i"
  by (induction es arbitrary: p) (auto simp: Let_def)

lemma kv_Get_ok:
  assumes "kv_ok ty kv" "stored_at ty kv p es"
  shows "kv_Get p k r kv = Some (entry_map es k)"
proof (cases "es = []")
  case True
  then show ?thesis using assms(2) by (simp add: stored_at_def kv_Get_def entry_map_def)
next
  case False
  then have s: "1 \<le> p" "p < bytePointer kv" "da_mem (kv_vals kv) p = word_of_nat (length es)"
    "entries_at kv (p + 1) es" "map_ok ty es" using assms(2) by (auto simp: stored_at_def)
  have c: "da_GetByte p (kv_vals kv) = Some (word_of_nat (length es))"
    using get_byte_ok [OF assms(1), of p] s(1-3) by simp
  have n: "unat (word_of_nat (length es) :: byte) = length es" using s(5) length_byte(1) by (simp add: map_ok_def)
  show ?thesis
  proof (cases "keyToIndex kv k")
    case None
    then have "k \<notin> fst ` set es" using entries_at_index [OF s(4)] by fastforce
    then have "map_of es k = None" by (simp add: map_of_eq_None_iff)
    then show ?thesis using None s(1) by (simp add: kv_Get_def entry_map_def)
  next
    case (Some i)
    have t: "typed ty es" using s(5) by (simp add: map_ok_def)
    have "get_loop (length es) (p + 1) i (if r then 1 else 2) kv = Some (entry_map es k)"
      unfolding entry_map_def by (rule get_loop_ok [OF assms(1) Some s(4) t]) simp
    then show ?thesis using Some s(1) c n by (simp add: kv_Get_def)
  qed
qed

lemma kv_GetAll_ok:
  assumes "kv_ok ty kv" "stored_at ty kv p es"
  shows "kv_GetAll p kv = Some (if es = [] then None else Some (map (apsnd read_back) es))"
proof (cases "es = []")
  case True
  then show ?thesis using assms(2) by (simp add: stored_at_def kv_GetAll_def)
next
  case False
  then have s: "1 \<le> p" "p < bytePointer kv" "da_mem (kv_vals kv) p = word_of_nat (length es)"
    "entries_at kv (p + 1) es" "map_ok ty es" using assms(2) by (auto simp: stored_at_def)
  have c: "da_GetByte p (kv_vals kv) = Some (word_of_nat (length es))"
    using get_byte_ok [OF assms(1), of p] s(1-3) by simp
  have n: "unat (word_of_nat (length es) :: byte) = length es" using s(5) length_byte(1) by (simp add: map_ok_def)
  have "get_all_loop (length es) (p + 1) [] kv = Some ([] @ map (apsnd read_back) es)"
    by (rule get_all_loop_ok [OF assms(1) s(4)]) (use s(5) in \<open>simp_all add: map_ok_def\<close>)
  then show ?thesis using False s(1) c n by (simp add: kv_GetAll_def)
qed

lemma kv_Add_ok:
  assumes "kv_ok ty kv" "map_ok ty es" "card (set (indexToKey kv) \<union> fst ` set es) \<le> 2 ^ 14"
  obtains p kv' where "kv_Add (Some es) kv = Some (p, kv')" "kv_ok ty kv'" "extends kv kv'" "stored_at ty kv' p es"
    "set (indexToKey kv') = set (indexToKey kv) \<union> fst ` set es"
proof (cases "es = []")
  case True
  then show ?thesis using assms by (intro that [of 0 kv]) (auto simp: kv_Add_def stored_at_def)
next
  case False
  note ret = that
  let ?c = "word_of_int (int (length es)) :: byte"
  obtain g d d' where d: "da_EnsureCapacity (bytePointer kv + 1) (kv_vals kv) = Some (g, d)"
    "da_SetByte (bytePointer kv) ?c d = Some d'"
    "appended [?c] kv (kv\<lparr>kv_vals := d', bytePointer := bytePointer kv + 1\<rparr>)"
    by (rule append_byte [OF assms(1), of "bytePointer kv + 1" ?c]) (simp, rule that)
  let ?kv = "kv\<lparr>kv_vals := d', bytePointer := bytePointer kv + 1\<rparr>"
  note ok1 = appended_ok [OF assms(1) d(3)] and ext1 = appended_extends [OF d(3)]
  have t: "typed ty es" "\<forall>(k, v) \<in> set es. value_ok v" using assms(2) by (auto simp: map_ok_def)
  obtain kv' where kv': "add_entries es ?kv = Some kv'" "kv_ok ty kv'" "extends ?kv kv'"
    "entries_at kv' (bytePointer kv + 1) es" "set (indexToKey kv') = set (indexToKey kv) \<union> fst ` set es"
    using add_entries_ok [OF ok1 t] assms(3) by auto
  have "da_mem (kv_vals kv') (bytePointer kv) = da_mem d' (bytePointer kv)"
    using kv'(3) by (simp add: extends_def)
  then have "da_mem (kv_vals kv') (bytePointer kv) = word_of_nat (length es)"
    using appended_mem [OF d(3)] by (simp add: upd_def)
  moreover have "1 \<le> bytePointer kv" "bytePointer kv < bytePointer kv'"
    using kv_okD(4) [OF assms(1)] kv'(3) by (auto simp: extends_def)
  ultimately have "stored_at ty kv' (bytePointer kv) es"
    using False assms(2) kv'(4) by (simp add: stored_at_def)
  moreover have "kv_Add (Some es) kv = Some (bytePointer kv, kv')" using False d(1,2) kv'(1) by (simp add: kv_Add_def)
  ultimately show ?thesis using kv'(2,5) extends_trans [OF ext1 kv'(3)] by (intro ret)
qed

text \<open>Adding one map after the other, as the import does for the edges of a graph.\<close>

fun add_all :: "(string \<times> kv_value) list list \<Rightarrow> kv_storage \<Rightarrow> (int list \<times> kv_storage) option" where
  "add_all [] kv = Some ([], kv)"
| "add_all (es # ess) kv = do {
     (p, kv) \<leftarrow> kv_Add (Some es) kv;
     (ps, kv) \<leftarrow> add_all ess kv;
     Some (p # ps, kv) }"

definition all_keys :: "(string \<times> kv_value) list list \<Rightarrow> string set" where
  "all_keys ess = (\<Union>es \<in> set ess. fst ` set es)"

lemma add_all_ok:
  assumes "kv_ok ty kv" "\<forall>es \<in> set ess. map_ok ty es" "card (set (indexToKey kv) \<union> all_keys ess) \<le> 2 ^ 14"
  shows "\<exists>ps kv'. add_all ess kv = Some (ps, kv') \<and> kv_ok ty kv' \<and> extends kv kv' \<and>
    length ps = length ess \<and> (\<forall>j < length ess. stored_at ty kv' (ps ! j) (ess ! j))"
  using assms
proof (induction ess arbitrary: kv)
  case (Cons es ess)
  have fin: "finite (all_keys xs)" for xs by (simp add: all_keys_def)
  have u: "set (indexToKey kv) \<union> all_keys (es # ess) = (set (indexToKey kv) \<union> fst ` set es) \<union> all_keys ess"
    by (auto simp: all_keys_def)
  have "card (set (indexToKey kv) \<union> fst ` set es) \<le> card (set (indexToKey kv) \<union> all_keys (es # ess))"
    unfolding u using fin by (intro card_mono) auto
  then have c: "card (set (indexToKey kv) \<union> fst ` set es) \<le> 2 ^ 14" using Cons.prems(3) by linarith
  have m: "map_ok ty es" using Cons.prems(2) by simp
  obtain p kv1 where k1: "kv_Add (Some es) kv = Some (p, kv1)" "kv_ok ty kv1" "extends kv kv1" "stored_at ty kv1 p es"
    "set (indexToKey kv1) = set (indexToKey kv) \<union> fst ` set es"
    by (rule kv_Add_ok [OF Cons.prems(1) m c])
  obtain ps kv' where k2: "add_all ess kv1 = Some (ps, kv')" "kv_ok ty kv'" "extends kv1 kv'"
    "length ps = length ess" "\<forall>j < length ess. stored_at ty kv' (ps ! j) (ess ! j)"
    using Cons.IH [OF k1(2)] Cons.prems(2,3) unfolding k1(5) u by auto
  have "stored_at ty kv' ((p # ps) ! j) ((es # ess) ! j)" if "j < length (es # ess)" for j
    using that k2(5) stored_at_extends [OF k1(2) k2(2,3) k1(4)] by (cases j) auto
  then show ?case using k1(1) k2 extends_trans [OF k1(3) k2(3)] by auto
qed simp

section \<open>A new storage\<close>

lemma kv_dirs_ok:
  assumes dir: "memory_directory matches dir" "\<not> list_ex is_upper kn" "\<not> list_ex is_upper vn"
    "kn \<notin> set (das_names dir)" "vn \<notin> set (das_names dir)" "kn \<noteq> vn"
  obtains ks vs ks' vs' where
    "CreateFull kn (getDefault matches dir kn) (10 * 1024) dir = Some (ks, dir\<lparr>das_names := kn # das_names dir\<rparr>)"
    "CreateFull vn (getDefault matches (dir\<lparr>das_names := kn # das_names dir\<rparr>) vn) (- 1)
       (dir\<lparr>das_names := kn # das_names dir\<rparr>) = Some (vs, dir\<lparr>das_names := vn # kn # das_names dir\<rparr>)"
    "da_Create n ks = Some ks'" "da_Create n vs = Some vs'" "da_inv vs'" "\<And>w p. da_supp vs' w p" "da_lim vs' = 2 ^ 20"
    "40 \<le> da_Capacity vs'"
proof -
  note ret = that
  let ?d1 = "dir\<lparr>das_names := kn # das_names dir\<rparr>"
  have t: "IsInMemory (getDefault matches d m)" "\<not> Integ (getDefault matches d m)"
    "dir_location d = [] \<or> last (dir_location d) = CHR ''/''" if "d = dir \<or> d = ?d1" for m d
  proof -
    have "getDefault matches d m = getDefault matches dir m" "dir_location d = dir_location dir"
      using that by (auto simp: getDefault_def split: option.split)
    then show "IsInMemory (getDefault matches d m)" "\<not> Integ (getDefault matches d m)"
      "dir_location d = [] \<or> last (dir_location d) = CHR ''/''"
      using dir(1) by (simp_all add: memory_directory_def)
  qed
  obtain ks where ks: "CreateFull kn (getDefault matches dir kn) (10 * 1024) dir = Some (ks, ?d1)" "da_inv ks" "da_Capacity ks = 0"
    by (rule CreateFull_ok [OF dir(2,4) t(1), of dir "10 * 1024"]) (use t(3) in \<open>auto intro: that\<close>)
  obtain vs where vs: "CreateFull vn (getDefault matches ?d1 vn) (- 1) ?d1 = Some (vs, ?d1\<lparr>das_names := vn # das_names ?d1\<rparr>)"
    "da_inv vs" "da_Capacity vs = 0"
    "\<And>w p. da_supp vs w p \<longleftrightarrow> (Integ (getDefault matches ?d1 vn) \<longrightarrow> w = 4 \<and> p mod 4 = 0 \<or> w = 2 \<and> p mod 2 = 0)"
    by (rule CreateFull_ok [OF dir(3), of ?d1 "getDefault matches ?d1 vn" "- 1"])
      (use t(1) [of ?d1] t(3) [of ?d1] dir(5,6) in \<open>auto intro: that\<close>)
  obtain ks' where ks': "da_Create n ks = Some ks'" by (rule da_Create_ok [OF ks(2,3), of n])
  obtain vs' where vs': "da_Create n vs = Some vs'" "da_inv vs'" "da_supp vs' = da_supp vs" "max 40 n \<le> da_Capacity vs'"
    by (rule da_Create_ok [OF vs(2,3), of n])
  have "da_lim vs' = 2 ^ 20"
    using CreateFull_default_lim [OF vs(1) t(2)] da_Create_lim [OF vs'(1)] by simp
  then show ?thesis
    by (intro ret [OF ks(1) _ ks' vs'(1,2)]) (use vs vs' t(2) [of ?d1] in auto)
qed

lemma new_kv_ok:
  assumes dir: "memory_directory matches dir" "das_names dir = []" and ty: "ty [] = 83"
  obtains kv0 dir' kv where "NewKVStorage matches edge dir = Some (kv0, dir')" "kv_Create n kv0 = Some kv"
    "kv_ok ty kv" "indexToKey kv = [[]]" "da_lim (kv_vals kv) = 2 ^ 20"
proof -
  note ret = that
  define kn where "kn = (if edge then ''edgekv_keys'' else ''nodekv_keys'')"
  define vn where "vn = (if edge then ''edgekv_vals'' else ''nodekv_vals'')"
  have names: "\<not> list_ex is_upper kn" "\<not> list_ex is_upper vn" "kn \<noteq> vn"
    by (auto simp: kn_def vn_def is_upper_def)
  obtain ks vs ks' vs' where
    A: "CreateFull kn (getDefault matches dir kn) (10 * 1024) dir = Some (ks, dir\<lparr>das_names := kn # das_names dir\<rparr>)"
    "CreateFull vn (getDefault matches (dir\<lparr>das_names := kn # das_names dir\<rparr>) vn) (- 1)
       (dir\<lparr>das_names := kn # das_names dir\<rparr>) = Some (vs, dir\<lparr>das_names := vn # kn # das_names dir\<rparr>)"
    and C: "da_Create n ks = Some ks'" "da_Create n vs = Some vs'" and V: "da_inv vs'" "\<And>w p. da_supp vs' w p"
    "da_lim vs' = 2 ^ 20" "40 \<le> da_Capacity vs'"
    by (rule kv_dirs_ok [OF dir(1) names(1,2) _ _ names(3), where n = n]) (use dir(2) in \<open>auto intro: that\<close>)
  let ?new = "\<lparr>kv_keys = ks, kv_vals = vs, keyToIndex = (\<lambda>_. None), indexToKey = [], indexToType = [],
    bytePointer = kvStartPointer\<rparr>"
  let ?kv = "\<lparr>kv_keys = ks', kv_vals = vs', keyToIndex = [[] \<mapsto> 0], indexToKey = [[]], indexToType = [83],
    bytePointer = kvStartPointer\<rparr>"
  have "NewKVStorage matches edge dir = Some (?new, dir\<lparr>das_names := vn # kn # das_names dir\<rparr>)"
    using A by (cases edge) (simp_all add: NewKVStorage_def kn_def vn_def)
  moreover have "kv_Create n ?new = Some ?kv" using C by (simp add: kv_Create_def)
  moreover have "kv_ok ty ?kv" using V ty by (auto simp: kv_ok_def split: if_splits)
  ultimately show ?thesis by (rule ret) (simp_all add: V(3))
qed

section \<open>Properties\<close>

text \<open>
  C18. The key-value storage refines a list of maps: after maps with at most 255 entries each have been
  added one after the other, strings and slices being at most 255 bytes long and each key having values
  of one class, every pointer that \<open>Add\<close> returned gives exactly the map that was added there. \<open>Get\<close>
  returns the value of each of its keys in both directions and nil for every other key, and \<open>GetAll\<close>
  returns the whole map. A number is read back as it is stored: an \<open>int\<close> has lost all but its lower 32 bits. There
  may be at most \<open>2 ^ 14\<close> different keys.
\<close>

theorem kv_storage_is_list_of_maps:
  assumes "kv_ok ty kv" "\<forall>es \<in> set ess. map_ok ty es" "card (set (indexToKey kv) \<union> all_keys ess) \<le> 2 ^ 14"
  shows "\<exists>ps kv'. add_all ess kv = Some (ps, kv') \<and> kv_ok ty kv' \<and> length ps = length ess \<and>
    (\<forall>j < length ess.
      (\<forall>key reverse. kv_Get (ps ! j) key reverse kv' = Some (entry_map (ess ! j) key)) \<and>
      kv_GetAll (ps ! j) kv' = Some (if ess ! j = [] then None else Some (map (apsnd read_back) (ess ! j))))"
proof -
  obtain ps kv' where R: "add_all ess kv = Some (ps, kv')" "kv_ok ty kv'" "length ps = length ess"
    "\<forall>j < length ess. stored_at ty kv' (ps ! j) (ess ! j)"
    using add_all_ok [OF assms] by blast
  then show ?thesis using kv_Get_ok [OF R(2)] kv_GetAll_ok [OF R(2)]
    by (intro exI [of _ ps] exI [of _ kv']) simp
qed

definition sample_maps :: "(string \<times> kv_value) list list" where
  "sample_maps = [[(''street_name'', KvString ''Main Street''), (''lanes'', KvInt 2)], [],
     [(''lanes'', KvInt 3), (''toll'', KvFloat64 5)]]"

definition sample_class :: "string \<Rightarrow> byte" where
  "sample_class k = (if k = ''lanes'' then 105 else if k = ''toll'' then 100 else 83)"

theorem kv_storage_is_list_of_maps_witness:
  "\<exists>kv0 dir' kv ps kv'. NewKVStorage (\<lambda>_ _. False) True (NewRAMDirectory ''w'' ''g'' False) = Some (kv0, dir') \<and>
    kv_Create 100 kv0 = Some kv \<and> add_all sample_maps kv = Some (ps, kv') \<and>
    kv_Get (ps ! 0) ''lanes'' True kv' = Some (KvInt 2) \<and>
    kv_Get (ps ! 2) ''lanes'' False kv' = Some (KvInt 3) \<and> kv_Get (ps ! 2) ''street_name'' False kv' = Some KvNil"
proof -
  have dir: "memory_directory (\<lambda>_ _. False) (NewRAMDirectory ''w'' ''g'' False)"
    "das_names (NewRAMDirectory ''w'' ''g'' False) = []"
    by (rule NewRAMDirectory_memory) (simp add: NewRAMDirectory_def NewGHDirectory_def Let_def)
  have ty: "sample_class [] = 83" by (simp add: sample_class_def)
  obtain kv0 dir' kv where K: "NewKVStorage (\<lambda>_ _. False) True (NewRAMDirectory ''w'' ''g'' False) = Some (kv0, dir')"
    "kv_Create 100 kv0 = Some kv" "kv_ok sample_class kv" "indexToKey kv = [[]]"
    by (rule new_kv_ok [OF dir, where ty = sample_class and edge = True and n = 100]) (rule ty)
  have m: "\<forall>es \<in> set sample_maps. map_ok sample_class es"
    by (auto simp: sample_maps_def map_ok_def typed_def classTypeOf_def sample_class_def)
  have "set (indexToKey kv) \<union> all_keys sample_maps = {[], ''street_name'', ''lanes'', ''toll''}"
    by (auto simp: K(4) sample_maps_def all_keys_def)
  moreover have "card {[], ''street_name'', ''lanes'', ''toll''} \<le> 4"
    by (intro card_insert_le_m1) auto
  ultimately have c: "card (set (indexToKey kv) \<union> all_keys sample_maps) \<le> 2 ^ 14" by simp
  obtain ps kv' where R: "add_all sample_maps kv = Some (ps, kv')"
    "\<And>j key reverse. j < length sample_maps \<Longrightarrow> kv_Get (ps ! j) key reverse kv' = Some (entry_map (sample_maps ! j) key)"
    using kv_storage_is_list_of_maps [OF K(3) m c] by blast
  from R(2) [of 0 "''lanes''" True] R(2) [of 2 "''lanes''" False] R(2) [of 2 "''street_name''" False] show ?thesis
    using K(1,2) R(1) by (auto simp: sample_maps_def entry_map_def)
qed

section \<open>Strings that are too long\<close>

text \<open>
  C23. The length of a string is kept in one byte and nothing checks it: a string of 256 bytes is written with
  the length 0, and \<open>Get\<close> returns the empty string for it.
\<close>

theorem kv_string_256_reads_empty:
  assumes "kv_ok ty kv" "ty k = 83" "length s = 256" "256 \<le> da_lim (kv_vals kv)"
    "card (insert k (set (indexToKey kv))) \<le> 2 ^ 14"
  shows "\<exists>p kv'. kv_Add (Some [(k, KvString s)]) kv = Some (p, kv') \<and>
    (\<forall>reverse. kv_Get p k reverse kv' = Some (KvString []))"
proof -
  let ?p = "bytePointer kv"
  obtain g d d' where d: "da_EnsureCapacity (?p + 1) (kv_vals kv) = Some (g, d)" "da_SetByte ?p 1 d = Some d'"
    "appended [1] kv (kv\<lparr>kv_vals := d', bytePointer := ?p + 1\<rparr>)"
    by (rule append_byte [OF assms(1), of "?p + 1" 1]) (simp, rule that)
  let ?kv = "kv\<lparr>kv_vals := d', bytePointer := ?p + 1\<rparr>"
  note ok = appended_ok [OF assms(1) d(3)]
  have cl: "classTypeOf (KvString s) = Some (ty k)" by (simp add: classTypeOf_def assms(2))
  obtain i kv1 where k1: "key_index k (KvString s) ?kv = Some (i, kv1)" "kv_ok ty kv1" "kv_vals kv1 = d'"
    "bytePointer kv1 = ?p + 1" "keyToIndex kv1 k = Some i" "set (indexToKey kv1) = insert k (set (indexToKey kv))"
    by (rule key_index_ok [OF ok cl]) (rule that, auto)
  have i: "0 \<le> i" "i < int (length (indexToKey kv1))" "indexToKey kv1 ! nat i = k"
    using kv_okD(7) [OF k1(2), of k i] k1(5) by auto
  have i14: "i < 2 ^ 14" using i(2) distinct_card [OF kv_okD(6) [OF k1(2)]] assms(5) k1(6) by simp
  obtain kv2 where k2: "write_fixed (be16 (key_word i)) kv1 = Some kv2" "appended (be16 (key_word i)) kv1 kv2"
    by (rule write_fixed_ok [OF k1(2), of "be16 (key_word i)"]) simp_all
  have lim: "256 \<le> da_lim (kv_vals kv2)"
    using appended_lim [OF k2(2)] appended_lim [OF d(3)] k1(3) assms(4) by simp
  have ty: "idx (indexToType kv2) i = Some (ty k)"
    using i kv_okD(8) [OF k1(2)] k2(2) by (auto simp: appended_def idx_def nat_less_iff)
  have l: "length (str_bytes s) = 256" using assms(3) by simp
  obtain kv3 where k3: "write_blob (str_bytes s) kv2 = Some kv3" "appended (0 # str_bytes s) kv2 kv3"
  proof (rule write_blob_ok [OF appended_ok [OF k1(2) k2(2)], of "str_bytes s"])
    show "int (length (str_bytes s)) \<le> da_lim (kv_vals kv2)" using lim l by simp
    fix kv' assume "write_blob (str_bytes s) kv2 = Some kv'"
      "appended (word_of_int (int (length (str_bytes s))) # str_bytes s) kv2 kv'"
    moreover have "word_of_int (int (length (str_bytes s))) = (0 :: byte)" unfolding l by simp
    ultimately show thesis by (intro that) (simp_all only:)
  qed
  note app = appended_trans [OF k2(2) k3(2)]
  note ok3 = appended_ok [OF k1(2) app]
  have m: "da_mem (kv_vals kv3) = upd (da_mem d') (?p + 1) (be16 (key_word i) @ 0 # str_bytes s)"
    using appended_mem [OF app] k1(3,4) by simp
  have b3: "bytePointer kv3 = ?p + 260" using app k1(4) l by (auto simp: appended_def)
  have "mem_bytes (da_mem (kv_vals kv3)) (?p + 1) (3 + 256) = (be16 (key_word i) @ [0]) @ str_bytes s"
    using mem_bytes_upd [of "da_mem d'" "?p + 1" "be16 (key_word i) @ 0 # str_bytes s"] l by (simp add: m)
  then have "mem_bytes (da_mem (kv_vals kv3)) (?p + 1) 3 = be16 (key_word i) @ [0]"
    using mem_bytes_appendD(1) [of _ "?p + 1" "be16 (key_word i) @ [0]" "str_bytes s"] l by simp
  then have e: "entries_at kv3 (?p + 1) [(k, KvString [])]"
    using i14 k1(5) app kv_okD(4) [OF assms(1)] b3 by (auto simp: appended_def str_bytes_def numeral_3_eq_3)
  have "da_mem (kv_vals kv3) ?p = 1" using appended_mem [OF d(3)] by (simp add: m upd_def)
  then have "stored_at ty kv3 ?p [(k, KvString [])]"
    using e kv_okD(4) [OF assms(1)] b3 assms(2) by (simp add: stored_at_def map_ok_def typed_def classTypeOf_def)
  from kv_Get_ok [OF ok3 this, of k] have "kv_Get ?p k r kv3 = Some (KvString [])" for r
    by (simp add: entry_map_def)
  moreover have "kv_Add (Some [(k, KvString s)]) kv = Some (?p, kv3)"
    using d(1,2) k1(1) k2(1) k3(1) ty assms(2)
    by (simp add: kv_Add_def writeValue_def key_word_def Let_def)
  ultimately show ?thesis by blast
qed

theorem kv_string_256_reads_empty_witness:
  "\<exists>kv0 dir' kv p kv'. NewKVStorage (\<lambda>_ _. False) True (NewRAMDirectory ''w'' ''g'' False) = Some (kv0, dir') \<and>
    kv_Create 100 kv0 = Some kv \<and> kv_Add (Some [(''name'', KvString (replicate 256 CHR ''x''))]) kv = Some (p, kv') \<and>
    kv_Get p ''name'' False kv' = Some (KvString [])"
proof -
  have dir: "memory_directory (\<lambda>_ _. False) (NewRAMDirectory ''w'' ''g'' False)"
    "das_names (NewRAMDirectory ''w'' ''g'' False) = []"
    by (rule NewRAMDirectory_memory) (simp add: NewRAMDirectory_def NewGHDirectory_def Let_def)
  obtain kv0 dir' kv where K: "NewKVStorage (\<lambda>_ _. False) True (NewRAMDirectory ''w'' ''g'' False) = Some (kv0, dir')"
    "kv_Create 100 kv0 = Some kv" "kv_ok (\<lambda>_. 83) kv" "indexToKey kv = [[]]" "da_lim (kv_vals kv) = 2 ^ 20"
    by (rule new_kv_ok [OF dir, where ty = "\<lambda>_. 83" and edge = True and n = 100]) (rule refl)
  have "card (insert ''name'' (set (indexToKey kv))) \<le> 2 ^ 14"
    by (rule order_trans [OF card_insert_le_m1 [of 2]]) (simp_all add: K(4))
  then have "\<exists>p kv'. kv_Add (Some [(''name'', KvString (replicate 256 CHR ''x''))]) kv = Some (p, kv') \<and>
      (\<forall>reverse. kv_Get p ''name'' reverse kv' = Some (KvString []))"
    by (intro kv_string_256_reads_empty [OF K(3)]) (simp_all add: K(5))
  then show ?thesis using K(1,2) by blast
qed

end
