(* ===== verification/WayGeometry.thy ===== *)
theory WayGeometry imports EdgeIteration BytesAccess begin

text \<open>
  The way geometry of \<^verbatim>\<open>core/storage/base_graph.go\<close>: the pillar points of an edge are written as a count and
  fixed point coordinates into the bytes at the reference in the edge's record, and are read back rounded.
\<close>

section \<open>References of five bytes\<close>

definition geo_ref :: "nodes_edges \<Rightarrow> int \<Rightarrow> i64" where
  "geo_ref s e = (let p = e * edgeEntryBytes s + eGeo s
     in (scast (mem32 (da_mem (edges s)) p) AND 0xFFFFFFFF) OR push_bit 32 (scast (da_mem (edges s) (p + 4))))"

lemma GetGeoRef_eq:
  assumes "ne_inv s" "0 \<le> e" "e < edgeCount s"
  shows "GetGeoRef (e * edgeEntryBytes s) s = Some (geo_ref s e)"
proof -
  note O = ne_offsets(17,18) [OF assms(1)]
  have g: "0 \<le> eGeo s" "0 \<le> eGeo s + 4" using O(2) by simp_all
  have "da.acc (edges s) 4 (e * edgeEntryBytes s + eGeo s)"
    by (rule edge_acc [OF assms g(1)]) (use O in simp)
  moreover have "da.acc (edges s) 1 (e * edgeEntryBytes s + (eGeo s + 4))"
    by (rule edge_acc [OF assms g(2)]) (use O in simp)
  ultimately show ?thesis
    by (simp add: GetGeoRef_def get_edge_int_def da.get_int da.get_byte geo_ref_def add.assoc Let_def)
qed

lemma five_bytes:
  fixes r :: i64
  assumes "drop_bit 39 r = 0"
  shows "(scast (ucast r :: i32) AND 0xFFFFFFFF) OR push_bit 32 (scast (ucast (drop_bit 32 r) :: byte)) = r"
proof -
  have hi: "\<not> bit r n" if "39 \<le> n" for n
  proof -
    have "bit (drop_bit 39 r) (n - 39) = bit r n" using that by (simp add: bit_drop_bit_eq)
    then show ?thesis using assms by simp
  qed
  have m: "(0xFFFFFFFF :: i64) = mask 32" by (simp add: mask_eq_exp_minus_1)
  show ?thesis
    unfolding m
  proof (rule bit_word_eqI)
    fix n assume "n < LENGTH(64)"
    then consider "n < 31" | "n = 31" | "32 \<le> n" "n < 39" | "39 \<le> n" "n < 64" by fastforce
    then show "bit ((scast (ucast r :: i32) AND mask 32) OR push_bit 32 (scast (ucast (drop_bit 32 r) :: byte)) :: i64) n = bit r n"
      using hi by cases (auto simp: bit_simps not_less less_diff_conv2 min_def)
  qed
qed

lemma SetGeoRef_ok:
  assumes "ne_inv s" "0 \<le> e" "e < edgeCount s" "0 \<le> ref" "ref < 2 ^ 39"
  obtains d where "SetGeoRef (e * edgeEntryBytes s) (word_of_int ref) s = Some (s\<lparr>edges := d\<rparr>)"
    "ne_inv (s\<lparr>edges := d\<rparr>)" "geo_ref (s\<lparr>edges := d\<rparr>) e = word_of_int ref"
    "\<And>e'. e' \<noteq> e \<Longrightarrow> geo_ref (s\<lparr>edges := d\<rparr>) e' = geo_ref s e'"
    "\<And>e' off. 0 \<le> off \<Longrightarrow> off + 4 \<le> eGeo s \<Longrightarrow> edge_int (s\<lparr>edges := d\<rparr>) e' off = edge_int s e' off"
proof -
  note ret = that and O = ne_offsets(17,18) [OF assms(1)]
  let ?r = "word_of_int ref :: i64" and ?p = "e * edgeEntryBytes s + eGeo s"
  have u: "uint ?r = ref" using assms(4,5) by (simp add: uint_word_of_int)
  have hi: "drop_bit 39 ?r = 0"
  proof -
    have "uint (drop_bit 39 ?r) = drop_bit 39 ref"
      using assms(4,5) u by (simp add: unsigned_drop_bit_eq take_bit_int_eq_self)
    also have "\<dots> = 0" using assms(4,5) by (simp add: drop_bit_eq_div)
    finally show ?thesis by (simp only: uint_0_iff)
  qed
  have g: "0 \<le> eGeo s" "eGeo s + 4 \<le> edgeEntryBytes s" using O by simp_all
  obtain d1 where d1: "set_edge_int ?p (ucast ?r) s = Some (s\<lparr>edges := d1\<rparr>)" "ne_inv (s\<lparr>edges := d1\<rparr>)"
    "da_mem d1 = upd (da_mem (edges s)) ?p (bytes32 (ucast ?r))"
    using set_edge_field [OF assms(1-3) g, of "ucast ?r"] by metis
  have "da.acc d1 1 (?p + 4)"
    using edge_acc [OF d1(2), of e "eGeo s + 4" 1] assms(2,3) O by (simp add: add.assoc)
  then obtain d where d: "da_SetByte (?p + 4) (ucast (drop_bit 32 ?r)) d1 = Some d"
    "da_mem d = upd (da_mem d1) (?p + 4) [ucast (drop_bit 32 ?r)]"
    "da_Capacity d = da_Capacity d1" "da_inv d" "da_supp d = da_supp d1"
    by (rule da.set_byte [where v = "ucast (drop_bit 32 ?r)"])
  have m: "da_mem d = upd (da_mem (edges s)) ?p (bytes32 (ucast ?r) @ [ucast (drop_bit 32 ?r)])"
    using upd_upd_append [of _ ?p "bytes32 (ucast ?r)"] by (simp add: d(2) d1(3))
  have frame: "da_mem d q = da_mem (edges s) q" if "q < ?p \<or> ?p + 5 \<le> q" for q
    using that by (auto simp: m upd_def)
  have set: "SetGeoRef (e * edgeEntryBytes s) ?r s = Some (s\<lparr>edges := d\<rparr>)"
    using d1(1) d(1) by (simp add: SetGeoRef_def hi)
  have inv: "ne_inv (s\<lparr>edges := d\<rparr>)" using d1(2) d(3-5) by (simp add: ne_inv_def)
  have mine: "geo_ref (s\<lparr>edges := d\<rparr>) e = ?r"
  proof -
    have "mem32 (da_mem d) ?p = ucast ?r"
      unfolding d(2) using d1(3) by (subst mem32_frame) simp_all
    moreover have "da_mem d (?p + 4) = ucast (drop_bit 32 ?r)" by (simp add: d(2))
    ultimately show ?thesis using five_bytes [OF hi] by (simp add: geo_ref_def Let_def)
  qed
  have other: "geo_ref (s\<lparr>edges := d\<rparr>) e' = geo_ref s e'" if "e' \<noteq> e" for e'
  proof -
    let ?q = "e' * edgeEntryBytes s + eGeo s"
    have apart: "?q + 5 \<le> ?p \<or> ?p + 5 \<le> ?q"
      using record_disjoint [OF that, of "eGeo s" 5 "edgeEntryBytes s" "eGeo s" 5] O by simp
    then have "da_mem d (?q + k) = da_mem (edges s) (?q + k)" if "0 \<le> k" "k < 5" for k
      using that by (intro frame) auto
    from this [of 0] this [of 1] this [of 2] this [of 3] this [of 4] show ?thesis
      by (simp add: geo_ref_def mem32_def Let_def)
  qed
  have fields: "edge_int (s\<lparr>edges := d\<rparr>) e' off = edge_int s e' off" if "0 \<le> off" "off + 4 \<le> eGeo s" for e' off
  proof -
    let ?q = "e' * edgeEntryBytes s + off"
    have "?q + 4 \<le> ?p \<or> ?p + 5 \<le> ?q"
      using record_disjoint [of e' e off 4 "edgeEntryBytes s" "eGeo s" 5] that O by (cases "e' = e") auto
    then have "da_mem d (?q + k) = da_mem (edges s) (?q + k)" if "0 \<le> k" "k < 4" for k
      using that by (intro frame) auto
    from this [of 0] this [of 1] this [of 2] this [of 3] show ?thesis
      by (simp add: edge_int_def mem32_def)
  qed
  show ?thesis by (rule ret [OF set inv mine other fields])
qed


section \<open>The bytes of a geometry\<close>

type_synonym point = "flt \<times> flt \<times> flt"

definition point_bytes :: "bool \<Rightarrow> point \<Rightarrow> byte list" where
  "point_bytes is3D = (\<lambda>(lat, lon, ele). bytes32 (DegreeToInt lat) @ bytes32 (DegreeToInt lon) @
     (if is3D then bytes24 (word_of_int (the (EleToUInt ele))) else []))"

text \<open>The point that is read for a written one.\<close>

definition rounded :: "bool \<Rightarrow> point \<Rightarrow> point" where
  "rounded is3D = (\<lambda>(lat, lon, ele). (IntToDegree (DegreeToInt lat), IntToDegree (DegreeToInt lon),
     if is3D then UIntToEle (the (EleToUInt ele)) else NaN))"

definition coord_bytes :: "bool \<Rightarrow> int" where
  "coord_bytes is3D = (if is3D then 11 else 8)"

definition geo_bytes :: "bool \<Rightarrow> point list \<Rightarrow> byte list" where
  "geo_bytes is3D ps = (let count = int (length ps)
     in [word_of_int count, word_of_int (drop_bit 8 count), word_of_int (drop_bit 16 count)] @
       concat (map (point_bytes is3D) ps))"

lemma length_bytes24 [simp]: "length (bytes24 v) = 3"
  by (simp add: bytes24_def)

lemma length_point_bytes [simp]: "length (point_bytes is3D p) = nat (coord_bytes is3D)"
  by (simp add: point_bytes_def coord_bytes_def split: prod.split)

lemma length_concat_points: "length (concat (map (point_bytes is3D) ps)) = length ps * nat (coord_bytes is3D)"
  by (induction ps) simp_all

lemma length_geo_bytes: "int (length (geo_bytes is3D ps)) = 3 + int (length ps) * coord_bytes is3D"
  by (simp add: geo_bytes_def Let_def length_concat_points coord_bytes_def)

lemma elevation_range:
  assumes "e \<noteq> NaN"
  obtains u where "EleToUInt e = Some u" "0 \<le> u" "u \<le> maxEleUint"
proof -
  note ret = that
  consider "flt_less e (Fin (- 1000))" | "flt_le (Fin 10000) e" | r where "e = Fin r" "- 1000 \<le> r" "r < 10000"
    using assms by (cases e) (auto, meson not_le)
  then show ?thesis
  proof cases
    case 1
    then show ?thesis using assms by (intro ret [of 0]) (simp_all add: EleToUInt_def math_IsNaN_def maxEleUint_def)
  next
    case 2
    then have "\<not> flt_less e (Fin (- 1000))" by (cases e) auto
    then show ?thesis using 2 assms
      by (intro ret [of maxEleUint]) (simp_all add: EleToUInt_def math_IsNaN_def maxEleUint_def)
  next
    case 3
    let ?a = "rnd 53 (- 1074) (r + 1000)"
    have big: "(11000 :: rat) < 2 powi 32" "(11000002 :: rat) < 2 powi 32" by simp_all
    have "representable 53 (- 1074) (of_int 11000)" by (rule representable_of_int) simp_all
    then have a: "0 \<le> ?a" "?a \<le> 11000" using rnd_nonneg [of "r + 1000"] rnd_le [of 53 "- 1074" 11000 "r + 1000"] 3 by simp_all
    let ?b = "rnd 53 (- 1074) (?a * 1000)"
    have "representable 53 (- 1074) (of_int 11000000)" by (rule representable_of_int) simp_all
    then have b: "0 \<le> ?b" "?b \<le> 11000000" using rnd_nonneg [of "?a * 1000"] rnd_le [of 53 "- 1074" 11000000 "?a * 1000"] a by simp_all
    let ?c = "rnd 53 (- 1074) (?b + 1 / 2)"
    have c: "0 \<le> ?c" using rnd_nonneg [of "?b + 1 / 2"] b by simp
    have f: "f64 (r + 1000) = Fin ?a" "f64 (?a * 1000) = Fin ?b" "f64 (?b + 1 / 2) = Fin ?c"
      using 3 a b big by (auto intro!: f64_small)
    have fl: "0 \<le> \<lfloor>?c\<rfloor>" using c by simp
    have cub: "?c \<le> 2 powi 32"
    proof -
      have "\<bar>?c - (?b + 1 / 2)\<bar> \<le> 1"
        using rnd_quotient_error [of "?b + 1 / 2"] one_over_pow_le [of 22] b big by (auto simp: abs_if split: if_splits)
      then show ?thesis using b big by linarith
    qed
    then have "\<lfloor>?c\<rfloor> \<le> 2 ^ 32" by (simp add: floor_le_iff)
    then have "int64_of_f64 (math_Floor (fadd (fmul (fadd e (Fin 1000)) (Fin eleFactor)) (Fin (1 / 2)))) = \<lfloor>?c\<rfloor>"
      using fl by (simp add: 3(1) eleFactor_def f rat_trunc_def Let_def)
    then show ?thesis using 3 fl
      by (intro ret [of "min maxEleUint \<lfloor>?c\<rfloor>"])
        (auto simp: EleToUInt_def math_IsNaN_def maxEleUint_def Let_def min_def simp del: fadd.simps fmul.simps int64_of_f64.simps math_Floor.simps)
  qed
qed

text \<open>Writing at the end of the written part of a buffer.\<close>

lemma copy_into_next:
  "length new \<le> length rest \<Longrightarrow> copy_into (done @ rest) (length done) new = (done @ new) @ drop (length new) rest"
  by (simp add: copy_into_def)

lemma FromInt_next:
  assumes "int (length done) = off" "4 \<le> length rest"
  shows "FromInt (done @ rest) v off = Some ((done @ bytes32 v) @ drop 4 rest)"
  using assms copy_into_next [of "bytes32 v" rest "done"] by (auto simp: FromInt_def via_slice_put32)

lemma FromUInt3_next:
  assumes "int (length done) = off" "3 \<le> length rest"
  shows "FromUInt3 (done @ rest) v off = Some ((done @ bytes24 v) @ drop 3 rest)"
  using assms copy_into_next [of "bytes24 v" rest "done"] by (auto simp: FromUInt3_copy)

definition elevations_ok :: "bool \<Rightarrow> point list \<Rightarrow> bool" where
  "elevations_ok is3D ps \<longleftrightarrow> (is3D \<longrightarrow> (\<forall>p \<in> set ps. snd (snd p) \<noteq> NaN))"

lemma geometry_bytes_loop_ok:
  assumes pl: "pl_ok pl" "pl_is3D pl = is3D" "elevations_ok is3D (points pl)"
    and qs: "qs = (if reverse then rev (points pl) else points pl)"
    and len: "length done = 3 + i * nat (coord_bytes is3D)" "length rest = k * nat (coord_bytes is3D)" "i + k = length qs"
  shows "geometry_bytes_loop k (int i) pl reverse is3D (coord_bytes is3D) (done @ rest) =
    Some (done @ concat (map (point_bytes is3D) (drop i qs)))"
  using len
proof (induction k arbitrary: i "done" rest)
  case (Suc k)
  let ?cb = "nat (coord_bytes is3D)" and ?n = "length (points pl)"
  have n: "length qs = ?n" "pl_Size pl = int ?n" using qs length_points [OF pl(1)] by (auto simp: pl_Size_def)
  have i: "i < ?n" using Suc.prems(3) n(1) by simp
  define j where "j = (if reverse then ?n - 1 - i else i)"
  have j: "j < ?n" "qs ! i = points pl ! j" "(if reverse then pl_Size pl - 1 - int i else int i) = int j"
    using i n by (auto simp: j_def qs rev_nth)
  obtain lat lon ele where p: "points pl ! j = (lat, lon, ele)" by (cases "points pl ! j") auto
  note G = pl_Get_points [OF pl(1), of "int j", simplified, unfolded p, simplified]
  have g: "pl_GetLat (int j) pl = Some lat" "pl_GetLon (int j) pl = Some lon" "pl_GetEle (int j) pl = Some ele"
    using G j(1) n(2) by simp_all
  have u: "EleToUInt ele = Some (the (EleToUInt ele))" if is3D
  proof -
    have "ele \<noteq> NaN" using pl(3) that j(1) p nth_mem [of j "points pl"] by (force simp: elevations_ok_def)
    then obtain u where "EleToUInt ele = Some u" by (rule elevation_range)
    then show ?thesis by simp
  qed
  have cb: "coord_bytes is3D = int ?cb" "8 \<le> ?cb" "is3D \<Longrightarrow> ?cb = 11" "\<not> is3D \<Longrightarrow> ?cb = 8"
    by (auto simp: coord_bytes_def)
  have off: "int (length done) = 3 + int i * coord_bytes is3D" using Suc.prems(1) cb(1) by simp
  have r: "8 \<le> length rest" "is3D \<Longrightarrow> 11 \<le> length rest" using Suc.prems(2) cb by auto
  let ?d1 = "done @ bytes32 (DegreeToInt lat)" and ?d2 = "(done @ bytes32 (DegreeToInt lat)) @ bytes32 (DegreeToInt lon)"
  have w1: "FromInt (done @ rest) (DegreeToInt lat) (3 + int i * coord_bytes is3D) = Some (?d1 @ drop 4 rest)"
    by (rule FromInt_next [OF off]) (use r in simp)
  have w2: "FromInt (?d1 @ drop 4 rest) (DegreeToInt lon) (3 + int i * coord_bytes is3D + 4) = Some (?d2 @ drop 4 (drop 4 rest))"
    by (rule FromInt_next) (use r off in simp_all)
  let ?d3 = "done @ point_bytes is3D (lat, lon, ele)"
  have w3: "(if is3D then do { u \<leftarrow> EleToUInt ele;
         FromUInt3 (?d2 @ drop 4 (drop 4 rest)) (word_of_int u) (3 + int i * coord_bytes is3D + 8) }
       else Some (?d2 @ drop 4 (drop 4 rest))) = Some (?d3 @ drop ?cb rest)"
  proof (cases is3D)
    case True
    have "FromUInt3 (?d2 @ drop 4 (drop 4 rest)) (word_of_int (the (EleToUInt ele))) (3 + int i * coord_bytes is3D + 8) =
      Some ((?d2 @ bytes24 (word_of_int (the (EleToUInt ele)))) @ drop 3 (drop 4 (drop 4 rest)))"
      by (rule FromUInt3_next) (use r(2) [OF True] off in simp_all)
    moreover obtain v where "EleToUInt ele = Some v" using u [OF True] by blast
    ultimately show ?thesis using True cb(3) [OF True] by (simp add: point_bytes_def)
  next
    case False
    then show ?thesis using cb(4) [OF False] by (simp add: point_bytes_def)
  qed
  have IH: "geometry_bytes_loop k (int (Suc i)) pl reverse is3D (coord_bytes is3D) (?d3 @ drop ?cb rest) =
    Some (?d3 @ concat (map (point_bytes is3D) (drop (Suc i) qs)))"
    by (rule Suc.IH) (use Suc.prems in auto)
  have "drop i qs = (lat, lon, ele) # drop (Suc i) qs"
    using Cons_nth_drop_Suc [of i qs] i n(1) j(2) p by simp
  moreover have "int i + 1 = int (Suc i)" by simp
  moreover have "geometry_bytes_loop (Suc k) (int i) pl reverse is3D (coord_bytes is3D) (done @ rest) =
    Some (?d3 @ concat (map (point_bytes is3D) (drop (Suc i) qs)))"
    unfolding geometry_bytes_loop.simps Let_def j(3) g Option.bind.simps w1 w2 w3
    using IH by (simp add: add.commute)
  ultimately show ?case by simp
qed simp

lemma createWayGeometryBytes_ok:
  assumes "pl_ok pl" "pl_is3D pl = withElevation (Store bg)" "elevations_ok (pl_is3D pl) (points pl)"
    "8 + eleBytesPerCoord bg = coord_bytes (pl_is3D pl)"
  shows "createWayGeometryBytes pl reverse bg =
    Some (geo_bytes (pl_is3D pl) (if reverse then rev (points pl) else points pl))"
proof -
  let ?qs = "if reverse then rev (points pl) else points pl" and ?is3D = "pl_is3D pl" and ?n = "length (points pl)"
  let ?c = "int ?n"
  have n: "pl_Size pl = ?c" "length ?qs = ?n" using length_points [OF assms(1)] by (simp_all add: pl_Size_def)
  let ?h = "[word_of_int ?c, word_of_int (drop_bit 8 ?c), word_of_int (drop_bit 16 ?c)] :: byte list"
  have len: "nat (?c * coord_bytes b) = ?n * nat (coord_bytes b)" for b by (simp add: nat_mult_distrib)
  have "geometry_bytes_loop ?n (int 0) pl reverse ?is3D (coord_bytes ?is3D)
      (?h @ replicate (?n * nat (coord_bytes ?is3D)) 0) = Some (?h @ concat (map (point_bytes ?is3D) (drop 0 ?qs)))"
    by (rule geometry_bytes_loop_ok [OF assms(1) refl assms(3) refl]) (use n in auto)
  then show ?thesis using n assms(2,4) by (simp add: createWayGeometryBytes_def geo_bytes_def Let_def len)
qed


section \<open>Reading a geometry\<close>

lemma le_Uint32_bytes [simp]: "le_Uint32 (bytes32 v @ xs) = Some v"
  using join32 [of v] by (simp add: le_Uint32_def bytes32_def)

lemma ToInt_at:
  assumes "0 \<le> off" "drop (nat off) buf = bytes32 v @ rest"
  shows "ToInt buf off = Some v"
proof -
  have "nat off + 4 \<le> length buf" using arg_cong [OF assms(2), of length] by simp
  then have "slice buf off (int (length buf)) = Some (drop (nat off) buf)" using assms(1) by (simp add: slice_def)
  then show ?thesis by (simp add: ToInt_def assms(2))
qed

lemma ToUInt3_at:
  assumes "0 \<le> off" "drop (nat off) buf = bytes24 v @ rest"
  shows "ToUInt3 buf off = Some (v AND 0xFFFFFF)"
proof -
  have l: "nat off + 3 \<le> length buf" using arg_cong [OF assms(2), of length] by simp
  have keep: "xs ! k = y \<Longrightarrow> xs = xs[k := y]" for xs :: "byte list" and k y by auto
  have n: "buf ! (nat off + k) = (bytes24 v @ rest) ! k" if "k < 3" for k
    using l that assms(2) [symmetric] by simp
  have "put buf (off + 2) (ucast (signed_drop_bit 16 v)) = Some buf"
    "put buf (off + 1) (ucast (signed_drop_bit 8 v)) = Some buf" "put buf off (ucast v) = Some buf"
    using n [of 0] n [of 1] n [of 2] l assms(1)
    by (auto simp: put_Some_iff bytes24_def signed_drop_bits_byte nat_add_distrib intro: keep)
  then have "FromUInt3 buf v off = Some buf" by (simp add: FromUInt3_def)
  then show ?thesis by (rule ToUInt3_FromUInt3)
qed

lemma uint_elevation:
  assumes "0 \<le> u" "u \<le> maxEleUint"
  shows "sint ((word_of_int u :: i32) AND 0xFFFFFF) = u"
proof -
  have u: "0 \<le> u" "u < 2 ^ 24" using assms by (simp_all add: maxEleUint_def)
  have "(word_of_int u :: i32) AND 0xFFFFFF = take_bit 24 (word_of_int u)"
    by (simp add: take_bit_eq_mask mask_eq_exp_minus_1)
  also have "\<dots> = word_of_int (take_bit 24 u)" by (rule bit_word_eqI) (auto simp: bit_simps)
  also have "\<dots> = word_of_int u" using u by (simp add: take_bit_int_eq_self)
  finally show ?thesis using u by simp
qed

definition pl_fresh :: "bool \<Rightarrow> point_list \<Rightarrow> bool" where
  "pl_fresh is3D pl \<longleftrightarrow> pl_ok pl \<and> pl_is3D pl = is3D \<and> \<not> immutable pl"

lemma pl_fresh_New [simp]: "pl_fresh is3D (NewPointList is3D)" "points (NewPointList is3D) = []"
  by (simp_all add: pl_fresh_def NewPointList_def pl_ok_def points_def)

lemma pl_add_point:
  assumes "pl_fresh is3D pl"
  obtains pl' where "(if is3D then pl_Add3D lat lon ele pl else pl_Add lat lon pl) = Some pl'"
    "pl_fresh is3D pl'" "points pl' = points pl @ [(lat, lon, if is3D then ele else NaN)]"
proof (cases is3D)
  case True
  have "\<exists>pl'. pl_Add3D lat lon ele pl = Some pl' \<and> \<not> immutable pl' \<and> pl_is3D pl'"
    using assms True by (simp add: pl_Add3D_def pl_fresh_def ensureMutable_def Let_def)
  then obtain pl' where "pl_Add3D lat lon ele pl = Some pl'" "\<not> immutable pl'" "pl_is3D pl'" by blast
  with pl_Add3D_points [of pl lat lon ele pl'] show ?thesis
    using that [of pl'] assms True by (simp add: pl_fresh_def)
next
  case False
  have "\<exists>pl'. pl_Add lat lon pl = Some pl' \<and> \<not> immutable pl' \<and> \<not> pl_is3D pl'"
    using assms False by (simp add: pl_Add_def pl_fresh_def ensureMutable_def)
  then obtain pl' where "pl_Add lat lon pl = Some pl'" "\<not> immutable pl'" "\<not> pl_is3D pl'" by blast
  with pl_Add_points [of pl lat lon pl'] show ?thesis
    using that [of pl'] assms False by (simp add: pl_fresh_def)
qed

lemma read_pillars_ok:
  assumes "0 \<le> off" "drop (nat off) buf = concat (map (point_bytes is3D) qs)" "elevations_ok is3D qs" "pl_fresh is3D pl"
  shows "\<exists>pl'. read_pillars (length qs) off buf is3D (coord_bytes is3D) pl = Some pl' \<and> pl_fresh is3D pl' \<and>
    points pl' = points pl @ map (rounded is3D) qs"
  using assms
proof (induction qs arbitrary: off pl)
  case (Cons q qs)
  obtain lat lon ele where q: "q = (lat, lon, ele)" by (cases q)
  let ?rest = "concat (map (point_bytes is3D) qs)" and ?e = "if is3D then bytes24 (word_of_int (the (EleToUInt ele))) else []"
  have d: "drop (nat off) buf = bytes32 (DegreeToInt lat) @ bytes32 (DegreeToInt lon) @ ?e @ ?rest"
    using Cons.prems(2) by (simp add: q point_bytes_def)
  have n: "nat (off + 4) = nat off + 4" "nat (off + 8) = nat off + 8" "nat (off + coord_bytes is3D) = nat off + nat (coord_bytes is3D)"
    using Cons.prems(1) by (auto simp: coord_bytes_def nat_add_distrib)
  have d4: "drop (nat (off + 4)) buf = bytes32 (DegreeToInt lon) @ ?e @ ?rest"
    unfolding n drop_plus d by simp
  have d8: "drop (nat (off + 8)) buf = ?e @ ?rest" unfolding n drop_plus d by simp
  have dn: "drop (nat (off + coord_bytes is3D)) buf = ?rest" unfolding n drop_plus d by (simp add: coord_bytes_def)
  have r: "ToInt buf off = Some (DegreeToInt lat)" "ToInt buf (off + 4) = Some (DegreeToInt lon)"
    using ToInt_at [OF Cons.prems(1) d] ToInt_at [OF _ d4] Cons.prems(1) by simp_all
  let ?lat = "IntToDegree (DegreeToInt lat)" and ?lon = "IntToDegree (DegreeToInt lon)"
  let ?ele = "UIntToEle (the (EleToUInt ele))"
  obtain pl1 where p1: "(if is3D then pl_Add3D ?lat ?lon ?ele pl else pl_Add ?lat ?lon pl) = Some pl1"
    "pl_fresh is3D pl1" "points pl1 = points pl @ [(?lat, ?lon, if is3D then ?ele else NaN)]"
    by (rule pl_add_point [OF Cons.prems(4)])
  have step: "(if is3D then do { u \<leftarrow> ToUInt3 buf (off + 8); pl_Add3D ?lat ?lon (UIntToEle (sint u)) pl }
      else pl_Add ?lat ?lon pl) = Some pl1"
  proof (cases is3D)
    case True
    then have "ele \<noteq> NaN" using Cons.prems(3) q by (simp add: elevations_ok_def)
    then obtain u where u: "EleToUInt ele = Some u" "0 \<le> u" "u \<le> maxEleUint" by (rule elevation_range)
    have "ToUInt3 buf (off + 8) = Some (word_of_int u AND 0xFFFFFF)"
      using ToUInt3_at [of "off + 8" buf "word_of_int u" ?rest] d8 Cons.prems(1) True u(1) by simp
    then show ?thesis using True p1(1) u uint_elevation [OF u(2,3)] by simp
  qed (use p1(1) in simp)
  obtain pl' where IH: "read_pillars (length qs) (off + coord_bytes is3D) buf is3D (coord_bytes is3D) pl1 = Some pl'"
    "pl_fresh is3D pl'" "points pl' = points pl1 @ map (rounded is3D) qs"
  proof -
    have "0 \<le> off + coord_bytes is3D" using Cons.prems(1) by (simp add: coord_bytes_def)
    from Cons.IH [OF this dn _ p1(2)] show ?thesis using Cons.prems(3) that by (auto simp: elevations_ok_def)
  qed
  have "read_pillars (length (q # qs)) off buf is3D (coord_bytes is3D) pl = Some pl'"
    using r step IH(1) by (simp add: Let_def)
  then show ?case using IH(2,3) p1(3) by (auto simp: q rounded_def)
qed simp


section \<open>Geometries of edges\<close>

definition geo_inv :: "base_graph \<Rightarrow> bool" where
  "geo_inv bg \<longleftrightarrow> ne_inv (Store bg) \<and> da_inv (wayGeometry bg) \<and> (\<forall>w p. da_supp (wayGeometry bg) w p) \<and>
     eleBytesPerCoord bg = (if withElevation (Store bg) then 3 else 0) \<and> 1 \<le> maxGeoRef bg"

lemma geo_invD:
  assumes "geo_inv bg"
  shows "ne_inv (Store bg)" "da_inv (wayGeometry bg)" "da_supp (wayGeometry bg) w p"
    "8 + eleBytesPerCoord bg = coord_bytes (withElevation (Store bg))" "1 \<le> maxGeoRef bg"
  using assms by (auto simp: geo_inv_def coord_bytes_def)

text \<open>The edge \<open>e\<close> has the pillars \<open>qs\<close>, stored below the next free reference.\<close>

definition pillars_at :: "base_graph \<Rightarrow> int \<Rightarrow> point list \<Rightarrow> bool" where
  "pillars_at bg e qs \<longleftrightarrow> (\<exists>ref. geo_ref (Store bg) e = word_of_int ref \<and>
     (let bs = geo_bytes (withElevation (Store bg)) qs in
      if qs = [] then ref = 0
      else 0 < ref \<and> ref < 2 ^ 39 \<and> ref + int (length bs) \<le> maxGeoRef bg \<and>
        maxGeoRef bg \<le> da_Capacity (wayGeometry bg) \<and> int (length bs) \<le> da_lim (wayGeometry bg) \<and>
        length qs < 2 ^ 15 \<and> elevations_ok (withElevation (Store bg)) qs \<and>
        mem_bytes (da_mem (wayGeometry bg)) ref (length bs) = bs))"

lemma sint_ref: "0 \<le> ref \<Longrightarrow> ref < 2 ^ 39 \<Longrightarrow> sint (word_of_int ref :: i64) = ref"
  by (rule sint_word_of_int_eq) simp_all

text \<open>The points of a node, as the list gets them.\<close>

definition node_point :: "nodes_edges \<Rightarrow> int \<Rightarrow> point" where
  "node_point s n = (IntToDegree (node_int s n 4), IntToDegree (node_int s n 8),
     if withElevation s then UIntToEle (sint (node_int s n 12)) else NaN)"

lemma addNodeToPointList_ok:
  assumes "ne_inv (Store bg)" "0 \<le> n" "n < nodeCount (Store bg)" "pl_fresh (withElevation (Store bg)) pl"
  obtains pl' where "addNodeToPointList n bg pl = Some pl'" "pl_fresh (withElevation (Store bg)) pl'"
    "points pl' = points pl @ [node_point (Store bg) n]"
proof -
  note ret = that
  let ?s = "Store bg"
  note F = node_off_fields [OF assms(1)] and O = ne_offsets [OF assms(1)]
  have g: "get_node_int (n * nodeEntryBytes ?s + off) ?s = Some (node_int ?s n off)" if "node_off ?s off" for off
    using that by (intro get_node_field [OF assms(1-3)]) (simp_all add: node_off_def)
  obtain pl' where P: "(if withElevation ?s then pl_Add3D (IntToDegree (node_int ?s n 4)) (IntToDegree (node_int ?s n 8))
      (UIntToEle (sint (node_int ?s n 12))) pl else pl_Add (IntToDegree (node_int ?s n 4)) (IntToDegree (node_int ?s n 8)) pl) = Some pl'"
    "pl_fresh (withElevation ?s) pl'" "points pl' = points pl @ [(IntToDegree (node_int ?s n 4), IntToDegree (node_int ?s n 8),
      if withElevation ?s then UIntToEle (sint (node_int ?s n 12)) else NaN)]"
    by (rule pl_add_point [OF assms(4)])
  have "addNodeToPointList n bg pl = Some pl'"
    using P(1) assms(2,3) F(5,6) g [OF F(2)] g [OF F(3)] g [of "nEle ?s"] O(2,3)
    by (simp add: addNodeToPointList_def na_GetLat_def na_GetLon_def na_GetEle_def GetLat_def GetLon_def GetEle_def
        ToNodePointer_eq split: if_splits)
  then show ?thesis using P(2,3) by (intro ret) (simp_all add: node_point_def)
qed

text \<open>The points that a mode asks for, from the base node to the adjacent node.\<close>

definition mode_base :: "fetch_mode \<Rightarrow> bool" where
  "mode_base m \<longleftrightarrow> m = FetchModeAll \<or> m = FetchModeBaseAndPillar"

definition mode_adj :: "fetch_mode \<Rightarrow> bool" where
  "mode_adj m \<longleftrightarrow> m = FetchModeAll \<or> m = FetchModePillarAndAdj"

definition way_points :: "nodes_edges \<Rightarrow> fetch_mode \<Rightarrow> int \<Rightarrow> int \<Rightarrow> point list \<Rightarrow> point list" where
  "way_points s mode base adj ps =
     (if mode = FetchModeTowerOnly then [node_point s base, node_point s adj]
      else (if mode_base mode then [node_point s base] else []) @ ps @
        (if mode_adj mode then [node_point s adj] else []))"

lemma opt_node:
  assumes "ne_inv (Store bg)" "0 \<le> n" "n < nodeCount (Store bg)" "pl_fresh (withElevation (Store bg)) pl"
  obtains pl' where "(if c then addNodeToPointList n bg pl else Some pl) = Some pl'"
    "pl_fresh (withElevation (Store bg)) pl'" "points pl' = points pl @ (if c then [node_point (Store bg) n] else [])"
proof (cases c)
  case True
  obtain pl' where "addNodeToPointList n bg pl = Some pl'" "pl_fresh (withElevation (Store bg)) pl'"
    "points pl' = points pl @ [node_point (Store bg) n]"
    by (rule addNodeToPointList_ok [OF assms])
  then show ?thesis using True that [of pl'] by simp
qed (use assms(4) that in simp)

lemma reverse_fresh:
  assumes "pl_fresh is3D pl"
  obtains pl' where "pl_Reverse pl = Some pl'" "pl_fresh is3D pl'" "points pl' = rev (points pl)"
proof -
  have "\<exists>pl'. pl_Reverse pl = Some pl' \<and> \<not> immutable pl' \<and> pl_is3D pl' = pl_is3D pl"
    using assms by (simp add: pl_Reverse_def pl_fresh_def ensureMutable_def Let_def)
  then obtain pl' where "pl_Reverse pl = Some pl'" "\<not> immutable pl'" "pl_is3D pl' = pl_is3D pl" by blast
  then show ?thesis using pl_Reverse_points [of pl pl'] assms by (intro that [of pl']) (auto simp: pl_fresh_def)
qed

lemma pillar_count:
  assumes "geo_inv bg" "pillars_at bg e qs" "qs \<noteq> []" "geo_ref (Store bg) e = word_of_int ref" "0 \<le> ref" "ref < 2 ^ 39"
  shows "0 < ref" "getPillarCount ref bg = Some (int (length qs))"
    "da_GetBytes (ref + 3) (replicate (nat (int (length qs) * coord_bytes (withElevation (Store bg)))) 0)
      (int (length qs) * coord_bytes (withElevation (Store bg))) (wayGeometry bg) =
      Some (concat (map (point_bytes (withElevation (Store bg))) qs))"
    "elevations_ok (withElevation (Store bg)) qs"
proof -
  let ?is3D = "withElevation (Store bg)" and ?m = "da_mem (wayGeometry bg)"
  let ?bs = "geo_bytes ?is3D qs" and ?n = "int (length qs)" and ?c = "concat (map (point_bytes (withElevation (Store bg))) qs)"
  obtain r where "geo_ref (Store bg) e = word_of_int r" "0 < r" "r < 2 ^ 39" "r + int (length ?bs) \<le> maxGeoRef bg"
    "maxGeoRef bg \<le> da_Capacity (wayGeometry bg)" "int (length ?bs) \<le> da_lim (wayGeometry bg)"
    "length qs < 2 ^ 15" "elevations_ok ?is3D qs" "mem_bytes ?m r (length ?bs) = ?bs"
    using assms(2,3) by (auto simp: pillars_at_def Let_def)
  moreover from this have "r = ref" using sint_ref [of r] sint_ref [of ref] assms(4-6) by simp
  ultimately have R: "0 < ref" "ref + int (length ?bs) \<le> da_Capacity (wayGeometry bg)"
    "int (length ?bs) \<le> da_lim (wayGeometry bg)" "length qs < 2 ^ 15" "elevations_ok ?is3D qs"
    "mem_bytes ?m ref (length ?bs) = ?bs" by auto
  note I = geo_invD [OF assms(1)]
  show "0 < ref" "elevations_ok ?is3D qs" by (rule R)+
  let ?h = "[word_of_int ?n, word_of_int (drop_bit 8 ?n), word_of_int (drop_bit 16 ?n)] :: byte list"
  have bs: "?bs = ?h @ ?c" by (simp add: geo_bytes_def Let_def)
  have l: "length ?bs = 3 + length ?c" by (simp add: bs)
  have l3: "length ?h = 3" by simp
  have "mem_bytes ?m ref (length ?h + length ?c) = ?h @ ?c" using R(6) unfolding bs by (simp only: length_append)
  note m = mem_bytes_appendD [OF this, unfolded l3, unfolded of_nat_numeral]
  have h: "?m ref = word_of_int ?n" "?m (ref + 1) = word_of_int (drop_bit 8 ?n)" "?m (ref + 2) = word_of_int (drop_bit 16 ?n)"
    using m(1) by (simp_all add: mem_bytes_def numeral_3_eq_3)
  have n: "0 \<le> ?n" "?n < 2 ^ 15" using R(4) by simp_all
  have a: "da.acc (wayGeometry bg) 2 ref" "da.acc (wayGeometry bg) 1 (ref + 2)"
    using I(2,3) R(1,2) l by (simp_all add: da.acc_def)
  have "mem16 ?m ref = word_of_int ?n"
  proof -
    have "mem16 ?m ref = word16 (word_of_int ?n) (word_of_int (drop_bit 8 ?n))" using h by (simp add: mem16_def)
    also have "\<dots> = word_of_int ?n"
      by (rule bit_word_eqI) (auto simp: word16_def bit_simps)
    finally show ?thesis .
  qed
  moreover have "sint (word_of_int ?n :: i16) = ?n" using n by (intro sint_word_of_int_eq) simp_all
  moreover have "drop_bit 16 ?n = 0" using n by (simp add: drop_bit_eq_div)
  ultimately show "getPillarCount ref bg = Some ?n"
    using h(3) by (simp add: getPillarCount_def da.get_short [OF a(1)] da.get_byte [OF a(2)])
  have c: "nat (?n * coord_bytes ?is3D) = length ?c" "?n * coord_bytes ?is3D = int (length ?c)"
    by (simp_all add: length_concat_points nat_mult_distrib coord_bytes_def)
  have "0 < length ?c" using assms(3) by (simp add: length_concat_points coord_bytes_def)
  then show "da_GetBytes (ref + 3) (replicate (nat (?n * coord_bytes ?is3D)) 0) (?n * coord_bytes ?is3D) (wayGeometry bg) = Some ?c"
    unfolding c using dab.get_bytes [OF I(2), of "ref + 3" "length ?c"] R(1-3) l m(2) by simp
qed


lemma fetchWayGeometry_ok:
  assumes inv: "geo_inv bg" and e: "0 \<le> e" "e < edgeCount (Store bg)" and at: "pillars_at bg e qs"
    and nodes: "0 \<le> base" "base < nodeCount (Store bg)" "0 \<le> adj" "adj < nodeCount (Store bg)"
  obtains pl where "fetchWayGeometry (e * edgeEntryBytes (Store bg)) reverse mode base adj bg = Some pl"
    "points pl = way_points (Store bg) mode base adj
      (map (rounded (withElevation (Store bg))) (if reverse then rev qs else qs))"
proof -
  note ret = that and I = geo_invD [OF inv]
  let ?s = "Store bg" and ?is3D = "withElevation (Store bg)"
  have fresh: "pl_fresh ?is3D (NewPointList ?is3D)" by simp
  show ?thesis
  proof (cases "mode = FetchModeTowerOnly")
    case True
    obtain p1 where p1: "addNodeToPointList base bg (NewPointList ?is3D) = Some p1" "pl_fresh ?is3D p1"
      "points p1 = [node_point ?s base]"
      using addNodeToPointList_ok [OF I(1) nodes(1,2) fresh] by (metis append_Nil pl_fresh_New(2))
    obtain p2 where p2: "addNodeToPointList adj bg p1 = Some p2" "points p2 = points p1 @ [node_point ?s adj]"
      by (rule addNodeToPointList_ok [OF I(1) nodes(3,4) p1(2)])
    show ?thesis using True p1 p2 by (intro ret [of p2]) (simp_all add: fetchWayGeometry_def way_points_def)
  next
    case False
    obtain ref where ref: "geo_ref ?s e = word_of_int ref" "0 \<le> ref" "ref < 2 ^ 39" "qs = [] \<longleftrightarrow> ref = 0"
      using at by (auto simp: pillars_at_def Let_def split: if_splits)
    have sref: "sint (word_of_int ref :: i64) = ref" by (rule sint_ref [OF ref(2,3)])
    note get = GetGeoRef_eq [OF I(1) e, unfolded ref(1)]
    define buf where "buf = concat (map (point_bytes ?is3D) qs)"
    have elev: "elevations_ok ?is3D qs"
      using pillar_count(4) [OF inv at _ ref(1-3)] by (cases "qs = []") (auto simp: elevations_ok_def)
    have rd: "(if ref > 0 then do {
        count \<leftarrow> getPillarCount ref bg;
        check (0 \<le> count * coord_bytes ?is3D);
        buf \<leftarrow> da_GetBytes (ref + 3) (replicate (nat (count * coord_bytes ?is3D)) 0) (count * coord_bytes ?is3D) (wayGeometry bg);
        Some (count, buf) } else Some (0, [])) = Some (int (length qs), buf)"
    proof (cases "qs = []")
      case True
      then show ?thesis using ref(4) by (simp add: buf_def)
    next
      case False
      have "0 \<le> int (length qs) * coord_bytes ?is3D" by (simp add: coord_bytes_def)
      then show ?thesis using pillar_count(1-3) [OF inv at False ref(1-3)] by (simp add: buf_def)
    qed
    have drop: "drop (nat 0) buf = concat (map (point_bytes ?is3D) qs)" by (simp add: buf_def)
    let ?pre = "if reverse then mode_adj mode else mode_base mode" and ?pre_node = "if reverse then adj else base"
    let ?post = "if reverse then mode_base mode else mode_adj mode" and ?post_node = "if reverse then base else adj"
    have pn: "0 \<le> ?pre_node" "?pre_node < nodeCount ?s" "0 \<le> ?post_node" "?post_node < nodeCount ?s"
      using nodes by auto
    obtain p1 where p1: "(if ?pre then addNodeToPointList ?pre_node bg (NewPointList ?is3D) else Some (NewPointList ?is3D)) = Some p1"
      "pl_fresh ?is3D p1" "points p1 = (if ?pre then [node_point ?s ?pre_node] else [])"
      by (rule opt_node [OF I(1) pn(1,2) fresh, of ?pre]) (rule that, simp_all)
    obtain p2 where p2: "read_pillars (length qs) 0 buf ?is3D (coord_bytes ?is3D) p1 = Some p2" "pl_fresh ?is3D p2"
      "points p2 = points p1 @ map (rounded ?is3D) qs"
      using read_pillars_ok [OF _ drop elev p1(2)] by auto
    obtain p3 where p3: "(if ?post then addNodeToPointList ?post_node bg p2 else Some p2) = Some p3" "pl_fresh ?is3D p3"
      "points p3 = points p2 @ (if ?post then [node_point ?s ?post_node] else [])"
      by (rule opt_node [OF I(1) pn(3,4) p2(2)])
    obtain p4 where p4: "pl_Reverse p3 = Some p4" "points p4 = rev (points p3)"
      by (rule reverse_fresh [OF p3(2)])
    have skip: "points (NewPointList ?is3D) = way_points ?s mode base adj (map (rounded ?is3D) (if reverse then rev qs else qs))"
      if "\<not> ref > 0" "mode = FetchModePillarOnly"
      using that ref(2,4) by (simp add: way_points_def mode_base_def mode_adj_def)
    have m: "mode = FetchModeAll \<or> mode = FetchModePillarAndAdj \<longleftrightarrow> mode_adj mode"
      "mode = FetchModeAll \<or> mode = FetchModeBaseAndPillar \<longleftrightarrow> mode_base mode"
      by (simp_all add: mode_base_def mode_adj_def)
    have fetch: "fetchWayGeometry (e * edgeEntryBytes ?s) reverse mode base adj bg =
      (if \<not> ref > 0 \<and> mode = FetchModePillarOnly then Some (NewPointList ?is3D) else if reverse then Some p4 else Some p3)"
    proof (cases "\<not> ref > 0 \<and> mode = FetchModePillarOnly")
      case True
      then show ?thesis using False get sref by (simp add: fetchWayGeometry_def Let_def)
    next
      case nz: False
      have "fetchWayGeometry (e * edgeEntryBytes ?s) reverse mode base adj bg = (if reverse then Some p4 else Some p3)"
      proof (cases reverse)
        case True
        note P = p1(1) [unfolded if_P [OF True]] p2(1) p3(1) [unfolded if_P [OF True]] p4(1)
        show ?thesis
          by (simp only: fetchWayGeometry_def Let_def if_not_P [OF False] get Option.bind.simps sref I(4)
              if_not_P [OF nz] m rd prod.case if_P [OF True] P nat_int)
      next
        case fwd: False
        note P = p1(1) [unfolded if_not_P [OF fwd]] p2(1) p3(1) [unfolded if_not_P [OF fwd]]
        show ?thesis
          by (simp only: fetchWayGeometry_def Let_def if_not_P [OF False] get Option.bind.simps sref I(4)
              if_not_P [OF nz] m rd prod.case if_not_P [OF fwd] P nat_int)
      qed
      then show ?thesis unfolding if_not_P [OF nz] .
    qed
    have pts: "points (if reverse then p4 else p3) =
      way_points ?s mode base adj (map (rounded ?is3D) (if reverse then rev qs else qs))"
      using False p1(3) p2(3) p3(3) p4(2) by (auto simp: way_points_def rev_map)
    show ?thesis
    proof (cases "\<not> ref > 0 \<and> mode = FetchModePillarOnly")
      case True
      then show ?thesis using fetch skip by (intro ret [of "NewPointList ?is3D"]) simp_all
    next
      case nz: False
      show ?thesis
      proof (rule ret)
        show "fetchWayGeometry (e * edgeEntryBytes ?s) reverse mode base adj bg = Some (if reverse then p4 else p3)"
          unfolding fetch if_not_P [OF nz] by simp
        show "points (if reverse then p4 else p3) =
          way_points ?s mode base adj (map (rounded ?is3D) (if reverse then rev qs else qs))" by (rule pts)
      qed
    qed
  qed
qed

text \<open>Writing: the edge gets a new reference at the end, and the geometries of other edges stay.\<close>

lemma setWayGeometry_ok:
  assumes inv: "geo_inv bg" and e: "0 \<le> e" "e < edgeCount (Store bg)" and none: "geo_ref (Store bg) e = 0"
    and pl: "pl_ok pl" "points pl \<noteq> []" "pl_is3D pl = withElevation (Store bg)"
      "elevations_ok (pl_is3D pl) (points pl)" "length (points pl) < 2 ^ 15"
    and room: "maxGeoRef bg + n \<le> 2 ^ 39" "n \<le> da_lim (wayGeometry bg)"
      "n = 3 + int (length (points pl)) * coord_bytes (pl_is3D pl)"
  obtains bg' where "setWayGeometry (Some pl) (e * edgeEntryBytes (Store bg)) reverse bg = Some bg'" "geo_inv bg'"
    "pillars_at bg' e (if reverse then rev (points pl) else points pl)"
    "\<And>e' qs. e' \<noteq> e \<Longrightarrow> pillars_at bg e' qs \<Longrightarrow> pillars_at bg' e' qs"
    "edgeCount (Store bg') = edgeCount (Store bg)" "nodes (Store bg') = nodes (Store bg)"
    "nodeCount (Store bg') = nodeCount (Store bg)" "edgeEntryBytes (Store bg') = edgeEntryBytes (Store bg)"
    "withElevation (Store bg') = withElevation (Store bg)" "nodeEntryBytes (Store bg') = nodeEntryBytes (Store bg)"
    "\<And>e' off. 0 \<le> off \<Longrightarrow> off + 4 \<le> eGeo (Store bg) \<Longrightarrow> edge_int (Store bg') e' off = edge_int (Store bg) e' off"
proof -
  note ret = that and I = geo_invD [OF inv]
  let ?qs = "if reverse then rev (points pl) else points pl" and ?is3D = "withElevation (Store bg)" and ?r = "maxGeoRef bg"
  define bs where "bs = geo_bytes ?is3D ?qs"
  have lbs: "int (length bs) = n" using room(3) pl(3) by (simp add: bs_def length_geo_bytes)
  moreover have "0 < n" using room(3) by (simp add: coord_bytes_def)
  ultimately have lbs: "int (length bs) = n" "0 < length bs" by auto
  have q: "?qs \<noteq> []" "length ?qs < 2 ^ 15" "elevations_ok ?is3D ?qs"
    using pl by (auto simp: elevations_ok_def)
  have cr: "createWayGeometryBytes pl reverse b = Some bs"
    if "Store b = Store bg" "eleBytesPerCoord b = eleBytesPerCoord bg" for b
    using createWayGeometryBytes_ok [OF pl(1), of b reverse] pl(3,4) I(4) that by (simp add: bs_def)
  have size: "3 + pl_Size pl * (8 + eleBytesPerCoord bg) = n"
    using room(3) length_points [OF pl(1)] I(4) pl(3) by (simp add: pl_Size_def)
  have r0: "0 \<le> ?r + n" using I(5) lbs by simp
  obtain g d1 where d1: "da_EnsureCapacity (?r + n) (wayGeometry bg) = Some (g, d1)" "da_mem d1 = da_mem (wayGeometry bg)"
    "?r + n \<le> da_Capacity d1" "da_inv d1" "da_supp d1 = da_supp (wayGeometry bg)" "da_lim d1 = da_lim (wayGeometry bg)"
    using dab.ensure_lim [OF I(2) r0] by metis
  obtain g' d2 where d2: "da_EnsureCapacity (?r + n) d1 = Some (g', d2)" "da_mem d2 = da_mem (wayGeometry bg)"
    "?r + n \<le> da_Capacity d2" "da_inv d2" "da_supp d2 = da_supp (wayGeometry bg)" "da_lim d2 = da_lim (wayGeometry bg)"
    using dab.ensure_lim [OF d1(4) r0] d1 by metis
  obtain d3 where d3: "da_SetBytes ?r bs (int (length bs)) d2 = Some d3" "da_mem d3 = upd (da_mem d2) ?r bs"
    "da_inv d3" "da_Capacity d3 = da_Capacity d2" "da_supp d3 = da_supp d2" "da_lim d3 = da_lim d2"
    by (rule dab.set_bytes [OF d2(4), of ?r bs]) (use I(5) d2(3,6) lbs room(2) in auto)
  have r39: "0 \<le> ?r" "?r < 2 ^ 39" using I(5) room(1) lbs by linarith+
  obtain ed where S: "SetGeoRef (e * edgeEntryBytes (Store bg)) (word_of_int ?r) (Store bg) = Some (Store bg\<lparr>edges := ed\<rparr>)"
    "ne_inv (Store bg\<lparr>edges := ed\<rparr>)" "geo_ref (Store bg\<lparr>edges := ed\<rparr>) e = word_of_int ?r"
    "\<And>e'. e' \<noteq> e \<Longrightarrow> geo_ref (Store bg\<lparr>edges := ed\<rparr>) e' = geo_ref (Store bg) e'"
    "\<And>e' off. 0 \<le> off \<Longrightarrow> off + 4 \<le> eGeo (Store bg) \<Longrightarrow> edge_int (Store bg\<lparr>edges := ed\<rparr>) e' off = edge_int (Store bg) e' off"
    by (rule SetGeoRef_ok [OF I(1) e r39]) (rule that)
  let ?bg = "bg\<lparr>maxGeoRef := ?r + n, wayGeometry := d3, Store := Store bg\<lparr>edges := ed\<rparr>\<rparr>"
  have "\<not> pl_IsEmpty pl" using pl(1,2) length_points [OF pl(1)] by (auto simp: pl_IsEmpty_def)
  then have set: "setWayGeometry (Some pl) (e * edgeEntryBytes (Store bg)) reverse bg = Some ?bg"
    using GetGeoRef_eq [OF I(1) e] none pl(3) d1(1) d2(1) d3(1) S(1) cr lbs(1)
    by (simp add: setWayGeometry_def nextGeoRef_def setWayGeometryAtGeoRef_def Let_def size)
  have inv': "geo_inv ?bg" using inv S(2) d3 d2 r0 I(5) lbs by (auto simp: geo_inv_def)
  have "mem_bytes (da_mem d3) ?r (length bs) = bs" unfolding d3(2) by (rule mem_bytes_upd)
  moreover have "0 < ?r" "?r + n \<le> da_Capacity d3" "n \<le> da_lim d3" using I(5) d3(4,6) d2(3,6) room(2) by simp_all
  ultimately have mine: "pillars_at ?bg e ?qs"
    using q r39(2) lbs(1) unfolding pillars_at_def Let_def
    by (intro exI [of _ ?r] conjI) (simp_all add: S(3) bs_def [symmetric])
  have other: "pillars_at ?bg e' qs" if ne: "e' \<noteq> e" and at: "pillars_at bg e' qs" for e' qs
  proof -
    obtain ref where ref: "geo_ref (Store bg) e' = word_of_int ref"
      "if qs = [] then ref = 0 else 0 < ref \<and> ref < 2 ^ 39 \<and> ref + int (length (geo_bytes ?is3D qs)) \<le> ?r \<and>
        ?r \<le> da_Capacity (wayGeometry bg) \<and> int (length (geo_bytes ?is3D qs)) \<le> da_lim (wayGeometry bg) \<and>
        length qs < 2 ^ 15 \<and> elevations_ok ?is3D qs \<and>
        mem_bytes (da_mem (wayGeometry bg)) ref (length (geo_bytes ?is3D qs)) = geo_bytes ?is3D qs"
      using at by (auto simp: pillars_at_def Let_def)
    have "mem_bytes (da_mem d3) ref (length (geo_bytes ?is3D qs)) =
        mem_bytes (da_mem (wayGeometry bg)) ref (length (geo_bytes ?is3D qs))" if "qs \<noteq> []"
      using ref(2) that by (intro mem_bytes_cong) (auto simp: d3(2) d2(2) upd_def)
    then show ?thesis
      using ref S(4) [OF ne] d3(4,6) d2(3,6) lbs by (auto simp: pillars_at_def Let_def split: if_splits)
  qed
  show ?thesis by (rule ret [OF set inv' mine other]) (use S(5) in auto)
qed


section \<open>Properties\<close>

text \<open>A graph with a byte based geometry, whose first edge has no pillars yet.\<close>

definition sample_geometry :: data_access where
  "sample_geometry = fst (the (CreateFull ''geometry'' DATypeRAM 128 (NewRAMDirectory ''w'' ''g'' False)))"

lemma sample_geometry_ok: "da_inv sample_geometry" "da_supp sample_geometry w p" "128 \<le> da_lim sample_geometry"
proof -
  have names: "\<not> list_ex is_upper ''geometry''" by (simp add: is_upper_def)
  obtain d where d: "CreateFull ''geometry'' DATypeRAM 128 (NewRAMDirectory ''w'' ''g'' False) =
      Some (d, (NewRAMDirectory ''w'' ''g'' False)\<lparr>das_names := ''geometry'' # das_names (NewRAMDirectory ''w'' ''g'' False)\<rparr>)"
    "da_inv d" "\<And>w p. da_supp d w p \<longleftrightarrow> (Integ DATypeRAM \<longrightarrow> w = 4 \<and> p mod 4 = 0 \<or> w = 2 \<and> p mod 2 = 0)"
    by (rule CreateFull_ok [OF names, of "NewRAMDirectory ''w'' ''g'' False" DATypeRAM 128])
      (auto simp: NewRAMDirectory_def NewGHDirectory_def Let_def DATypeRAM_def IsInMemory_def intro: that)
  have s: "sample_geometry = d" by (simp add: sample_geometry_def d(1))
  have "\<not> Integ DATypeRAM" by (simp add: DATypeRAM_def)
  then show "da_inv sample_geometry" "da_supp sample_geometry w p" "128 \<le> da_lim sample_geometry"
    unfolding s using d(2,3) CreateFull_lim [OF d(1)] by simp_all
qed

text \<open>
  C19. Setting the way geometry of an edge that has none and fetching it again gives the pillar points rounded
  to the stored precision, in the direction that is asked for: reversed once if the points were given for the
  reverse direction, and once more if they are fetched for it. Every fetch mode returns these points between
  the base and the adjacent node that the mode asks for, and what is fetched for any other edge, in any mode
  and direction, stays what it was. The points are fewer than \<open>2 ^ 15\<close>, and their bytes fit into a segment.
\<close>

theorem way_geometry_round_trip:
  assumes "geo_inv bg" "0 \<le> e" "e < edgeCount (Store bg)" "geo_ref (Store bg) e = 0"
    "pl_ok pl" "points pl \<noteq> []" "pl_is3D pl = withElevation (Store bg)" "elevations_ok (pl_is3D pl) (points pl)"
    "length (points pl) < 2 ^ 15" "maxGeoRef bg + (3 + int (length (points pl)) * coord_bytes (pl_is3D pl)) \<le> 2 ^ 39"
    "3 + int (length (points pl)) * coord_bytes (pl_is3D pl) \<le> da_lim (wayGeometry bg)"
    "0 \<le> base" "base < nodeCount (Store bg)" "0 \<le> adj" "adj < nodeCount (Store bg)"
  shows "\<exists>bg'. setWayGeometry (Some pl) (e * edgeEntryBytes (Store bg)) reverse bg = Some bg' \<and>
    (\<forall>reverse' mode. \<exists>pl'. fetchWayGeometry (e * edgeEntryBytes (Store bg)) reverse' mode base adj bg' = Some pl' \<and>
      points pl' = way_points (Store bg) mode base adj
        (map (rounded (withElevation (Store bg))) (if reverse = reverse' then points pl else rev (points pl)))) \<and>
    (\<forall>e' qs reverse' mode. e' \<noteq> e \<and> 0 \<le> e' \<and> e' < edgeCount (Store bg) \<and> pillars_at bg e' qs \<longrightarrow>
      (\<exists>pl'. fetchWayGeometry (e' * edgeEntryBytes (Store bg)) reverse' mode base adj bg' = Some pl' \<and>
        points pl' = way_points (Store bg) mode base adj
          (map (rounded (withElevation (Store bg))) (if reverse' then rev qs else qs))))"
proof -
  obtain bg' where S: "setWayGeometry (Some pl) (e * edgeEntryBytes (Store bg)) reverse bg = Some bg'" "geo_inv bg'"
    "pillars_at bg' e (if reverse then rev (points pl) else points pl)"
    "\<And>e' qs. e' \<noteq> e \<Longrightarrow> pillars_at bg e' qs \<Longrightarrow> pillars_at bg' e' qs"
    "edgeCount (Store bg') = edgeCount (Store bg)" "nodes (Store bg') = nodes (Store bg)"
    "nodeCount (Store bg') = nodeCount (Store bg)" "edgeEntryBytes (Store bg') = edgeEntryBytes (Store bg)"
    "withElevation (Store bg') = withElevation (Store bg)" "nodeEntryBytes (Store bg') = nodeEntryBytes (Store bg)"
    by (rule setWayGeometry_ok [OF assms(1-11) refl]) (rule that)
  have np: "node_point (Store bg') = node_point (Store bg)"
    using S(6,9,10) by (auto simp: node_point_def node_int_def fun_eq_iff)
  then have wp: "way_points (Store bg') = way_points (Store bg)" by (auto simp: way_points_def fun_eq_iff)
  have F: "\<exists>pl'. fetchWayGeometry (e' * edgeEntryBytes (Store bg)) r mode base adj bg' = Some pl' \<and>
      points pl' = way_points (Store bg) mode base adj (map (rounded (withElevation (Store bg))) (if r then rev qs else qs))"
    if "0 \<le> e'" "e' < edgeCount (Store bg)" "pillars_at bg' e' qs" for e' qs r mode
  proof -
    have "e' < edgeCount (Store bg')" "base < nodeCount (Store bg')" "adj < nodeCount (Store bg')"
      using that(2) assms(13,15) S(5,7) by simp_all
    then show ?thesis

      by (rule fetchWayGeometry_ok [OF S(2) that(1) _ that(3) assms(12) _ assms(14), of r mode, unfolded S(8,9) wp]) blast+
  qed
  have "(if r then rev (if reverse then rev (points pl) else points pl) else (if reverse then rev (points pl) else points pl)) =
    (if reverse = r then points pl else rev (points pl))" for r by simp
  then show ?thesis using S(1) F [OF assms(2,3) S(3)] F S(4) by (intro exI [of _ bg']) simp
qed


definition sample_pillars :: point_list where
  "sample_pillars = \<lparr>lats = [Fin 1, Fin 2], lons = [Fin 3, Fin 4], eles = [], pl_is3D = False, immutable = False\<rparr>"

theorem way_geometry_round_trip_witness:
  "\<exists>bg bg' pl'. setWayGeometry (Some sample_pillars) (0 * edgeEntryBytes (Store bg)) True bg = Some bg' \<and>
    fetchWayGeometry (0 * edgeEntryBytes (Store bg)) False FetchModePillarOnly 0 1 bg' = Some pl' \<and>
    points pl' = map (rounded False) [(Fin 2, Fin 4, NaN), (Fin 1, Fin 3, NaN)]"
proof -
  note ok = sample_store_ok
  obtain s1 where s1: "edge_added sample_store 0 1 s1"
    using ne_Edge_fields [OF graph_okD(1) [OF ok(1)], of 0 1] ok(2) by auto
  then have S1: "ne_inv s1" "edgeCount s1 = 1" "nodeCount s1 = 2" "withElevation s1 = False"
    using ok(2,3,5) by (simp_all add: edge_added_def)
  have e: "(0::int) \<le> 0" "0 < edgeCount s1" "(0::int) < 2 ^ 39" using S1(2) by simp_all
  obtain d where d: "ne_inv (s1\<lparr>edges := d\<rparr>)" "geo_ref (s1\<lparr>edges := d\<rparr>) 0 = word_of_int 0"
    by (rule SetGeoRef_ok [OF S1(1) e(1,2,1,3)])
  let ?bg = "sample_graph\<lparr>Store := s1\<lparr>edges := d\<rparr>, wayGeometry := sample_geometry, eleBytesPerCoord := 0, maxGeoRef := 1\<rparr>"
  have inv: "geo_inv ?bg" using sample_geometry_ok d(1) S1(4) by (simp add: geo_inv_def)
  have pl: "pl_ok sample_pillars" "points sample_pillars = [(Fin 1, Fin 3, NaN), (Fin 2, Fin 4, NaN)]" "\<not> pl_is3D sample_pillars"
    by (simp_all add: pl_ok_def points_def sample_pillars_def)
  have "\<exists>bg'. setWayGeometry (Some sample_pillars) (0 * edgeEntryBytes (Store ?bg)) True ?bg = Some bg' \<and>
    (\<forall>reverse' mode. \<exists>pl'. fetchWayGeometry (0 * edgeEntryBytes (Store ?bg)) reverse' mode 0 1 bg' = Some pl' \<and>
      points pl' = way_points (Store ?bg) mode 0 1
        (map (rounded (withElevation (Store ?bg))) (if True = reverse' then points sample_pillars else rev (points sample_pillars)))) \<and>
    (\<forall>e' qs reverse' mode. e' \<noteq> 0 \<and> 0 \<le> e' \<and> e' < edgeCount (Store ?bg) \<and> pillars_at ?bg e' qs \<longrightarrow>
      (\<exists>pl'. fetchWayGeometry (e' * edgeEntryBytes (Store ?bg)) reverse' mode 0 1 bg' = Some pl' \<and>
        points pl' = way_points (Store ?bg) mode 0 1
          (map (rounded (withElevation (Store ?bg))) (if reverse' then rev qs else qs))))"
    by (rule way_geometry_round_trip [OF inv])
      (use pl d(2) S1(2-4) sample_geometry_ok(3) in \<open>simp_all add: elevations_ok_def coord_bytes_def\<close>)
  then obtain bg' where B: "setWayGeometry (Some sample_pillars) (0 * edgeEntryBytes (Store ?bg)) True ?bg = Some bg'"
    "\<exists>pl'. fetchWayGeometry (0 * edgeEntryBytes (Store ?bg)) False FetchModePillarOnly 0 1 bg' = Some pl' \<and>
      points pl' = way_points (Store ?bg) FetchModePillarOnly 0 1
        (map (rounded (withElevation (Store ?bg))) (if True = False then points sample_pillars else rev (points sample_pillars)))"
    by blast
  then show ?thesis using pl S1(4)
    by (intro exI [of _ ?bg] exI [of _ bg']) (auto simp: way_points_def mode_base_def mode_adj_def)
qed

end
