(* ===== verification/ContainerHeap.thy ===== *)
theory ContainerHeap imports GoPrelude "HOL-Library.Multiset" begin

text \<open>
  The functions of Go's \<^verbatim>\<open>container/heap\<close> on a slice, for any \<open>Less\<close>: \<^verbatim>\<open>up\<close>, \<^verbatim>\<open>down\<close>, \<^verbatim>\<open>Push\<close> and
  \<^verbatim>\<open>Pop\<close> of the standard library, and what they promise when \<open>Less\<close> is a strict weak order on the
  elements that are in the heap.
\<close>

section \<open>The functions\<close>

definition heap_Swap :: "nat \<Rightarrow> nat \<Rightarrow> 'a list \<Rightarrow> 'a list" where
  "heap_Swap i j h = h[i := h ! j, j := h ! i]"

definition heap_parent :: "nat \<Rightarrow> nat" where
  "heap_parent j = (j - 1) div 2"

function heap_up :: "('a \<Rightarrow> 'a \<Rightarrow> bool) \<Rightarrow> nat \<Rightarrow> 'a list \<Rightarrow> 'a list" where
  "heap_up lt j h =
     (if heap_parent j = j \<or> \<not> lt (h ! j) (h ! heap_parent j) then h
      else heap_up lt (heap_parent j) (heap_Swap (heap_parent j) j h))"
  by pat_completeness auto
termination
  by (relation "measure (\<lambda>(lt, j, h). j)") (auto simp: heap_parent_def)

declare heap_up.simps [simp del]

definition heap_child :: "('a \<Rightarrow> 'a \<Rightarrow> bool) \<Rightarrow> nat \<Rightarrow> nat \<Rightarrow> 'a list \<Rightarrow> nat" where
  "heap_child lt i n h =
     (let j1 = 2 * i + 1; j2 = j1 + 1 in if j2 < n \<and> lt (h ! j2) (h ! j1) then j2 else j1)"

lemma heap_child_gt [simp]: "i < heap_child lt i n h"
  by (simp add: heap_child_def Let_def)

function heap_down :: "('a \<Rightarrow> 'a \<Rightarrow> bool) \<Rightarrow> nat \<Rightarrow> nat \<Rightarrow> 'a list \<Rightarrow> 'a list" where
  "heap_down lt i n h =
     (if 2 * i + 1 \<ge> n then h
      else if \<not> lt (h ! heap_child lt i n h) (h ! i) then h
      else heap_down lt (heap_child lt i n h) n (heap_Swap i (heap_child lt i n h) h))"
  by pat_completeness auto
termination
  by (relation "measure (\<lambda>(lt, i, n, h). n - i)") (auto intro!: diff_less_mono2)

declare heap_down.simps [simp del]

definition heap_Push :: "('a \<Rightarrow> 'a \<Rightarrow> bool) \<Rightarrow> 'a \<Rightarrow> 'a list \<Rightarrow> 'a list" where
  "heap_Push lt x h = heap_up lt (length h) (h @ [x])"

text \<open>\<open>Pop\<close> swaps the root to the end, restores the order before it and cuts the end off.\<close>

definition heap_Pop :: "('a \<Rightarrow> 'a \<Rightarrow> bool) \<Rightarrow> 'a list \<Rightarrow> ('a \<times> 'a list) option" where
  "heap_Pop lt h =
     (if h = [] then None
      else let n = length h - 1; h' = heap_down lt 0 n (heap_Swap 0 n h)
           in Some (h' ! n, take n h'))"

section \<open>Elements\<close>

lemma length_heap_Swap [simp]: "length (heap_Swap i j h) = length h"
  by (simp add: heap_Swap_def)

lemma mset_heap_Swap [simp]: "i < length h \<Longrightarrow> j < length h \<Longrightarrow> mset (heap_Swap i j h) = mset h"
  by (simp add: heap_Swap_def mset_swap)

lemma nth_heap_Swap:
  "i < length h \<Longrightarrow> j < length h \<Longrightarrow> k < length h \<Longrightarrow>
    heap_Swap i j h ! k = (if k = j then h ! i else if k = i then h ! j else h ! k)"
  by (auto simp: heap_Swap_def nth_list_update)

lemma heap_parent_less: "0 < k \<Longrightarrow> heap_parent k < k"
  by (auto simp: heap_parent_def)

lemma heap_parent_0 [simp]: "heap_parent 0 = 0"
  by (simp add: heap_parent_def)

lemma heap_parent_eq: "0 < k \<Longrightarrow> heap_parent k = i \<longleftrightarrow> k = 2 * i + 1 \<or> k = 2 * i + 2"
  by (auto simp: heap_parent_def)

lemma heap_child_less: "2 * i + 1 < n \<Longrightarrow> heap_child lt i n h < n"
  by (auto simp: heap_child_def Let_def)

lemma heap_parent_child [simp]: "heap_parent (heap_child lt i n h) = i"
  by (auto simp: heap_child_def heap_parent_def Let_def)

lemma mset_heap_up: "j < length h \<Longrightarrow> mset (heap_up lt j h) = mset h"
proof (induction lt j h rule: heap_up.induct)
  case (1 lt j h)
  then show ?case
    using heap_parent_less [of j]
    by (subst heap_up.simps) (cases j, auto)
qed

lemma mset_heap_down: "n \<le> length h \<Longrightarrow> mset (heap_down lt i n h) = mset h"
proof (induction lt i n h rule: heap_down.induct)
  case (1 lt i n h)
  then show ?case
    using heap_child_less [of i n lt h] by (subst heap_down.simps) auto
qed

lemma length_heap_down [simp]: "length (heap_down lt i n h) = length h"
  by (induction lt i n h rule: heap_down.induct) (subst heap_down.simps, simp)

text \<open>\<open>down\<close> with bound \<open>n\<close> leaves the elements from \<open>n\<close> on alone.\<close>

lemma heap_down_above: "n \<le> k \<Longrightarrow> k < length h \<Longrightarrow> heap_down lt i n h ! k = h ! k"
proof (induction lt i n h rule: heap_down.induct)
  case (1 lt i n h)
  then show ?case
    using heap_child_less [of i n lt h] by (subst heap_down.simps) (auto simp: nth_heap_Swap)
qed

lemma mset_heap_Push [simp]: "mset (heap_Push lt x h) = add_mset x (mset h)"
  by (simp add: heap_Push_def mset_heap_up)

lemma length_heap_Push [simp]: "length (heap_Push lt x h) = Suc (length h)"
  by (metis mset_heap_Push size_mset size_add_mset)

lemma heap_Pop_root:
  assumes "h \<noteq> []"
  shows "\<exists>h'. heap_Pop lt h = Some (h ! 0, h') \<and> mset h = add_mset (h ! 0) (mset h')"
proof -
  let ?n = "length h - 1"
  let ?d = "heap_down lt 0 ?n (heap_Swap 0 ?n h)"
  have n: "?n < length h" using assms by simp
  have top: "?d ! ?n = h ! 0"
    using n assms by (simp add: heap_down_above nth_heap_Swap)
  have "mset ?d = mset h" using n assms by (simp add: mset_heap_down)
  moreover have "?d = take ?n ?d @ [?d ! ?n]"
    using n by (metis Suc_pred' assms length_greater_0_conv length_heap_Swap length_heap_down take_Suc_conv_app_nth take_all_iff le_refl)
  then have "mset ?d = add_mset (?d ! ?n) (mset (take ?n ?d))"
    by (metis add_mset_add_single mset.simps mset_append)
  ultimately show ?thesis using top assms by (auto simp: heap_Pop_def Let_def)
qed

section \<open>The contract\<close>

text \<open>
  The heap order up to index \<open>n\<close>: no element is less than its parent. The contract of \<open>Less\<close> is that
  of the documentation: not being less is a transitive and total relation.
\<close>

definition is_heap :: "('a \<Rightarrow> 'a \<Rightarrow> bool) \<Rightarrow> nat \<Rightarrow> 'a list \<Rightarrow> bool" where
  "is_heap lt n h \<longleftrightarrow> (\<forall>k. 0 < k \<and> k < n \<longrightarrow> \<not> lt (h ! k) (h ! heap_parent k))"

definition heap_but_up :: "('a \<Rightarrow> 'a \<Rightarrow> bool) \<Rightarrow> nat \<Rightarrow> 'a list \<Rightarrow> bool" where
  "heap_but_up lt j h \<longleftrightarrow>
     (\<forall>k. 0 < k \<and> k < length h \<and> k \<noteq> j \<longrightarrow> \<not> lt (h ! k) (h ! heap_parent k)) \<and>
     (\<forall>k. 0 < k \<and> k < length h \<and> heap_parent k = j \<and> 0 < j \<longrightarrow> \<not> lt (h ! k) (h ! heap_parent j))"

definition heap_but_down :: "('a \<Rightarrow> 'a \<Rightarrow> bool) \<Rightarrow> nat \<Rightarrow> nat \<Rightarrow> 'a list \<Rightarrow> bool" where
  "heap_but_down lt i n h \<longleftrightarrow>
     (\<forall>k. 0 < k \<and> k < n \<and> heap_parent k \<noteq> i \<longrightarrow> \<not> lt (h ! k) (h ! heap_parent k)) \<and>
     (\<forall>k. 0 < k \<and> k < n \<and> heap_parent k = i \<and> 0 < i \<longrightarrow> \<not> lt (h ! k) (h ! heap_parent i))"

locale weak_order =
  fixes lt :: "'a \<Rightarrow> 'a \<Rightarrow> bool" and ok :: "'a \<Rightarrow> bool"
  assumes asym: "ok a \<Longrightarrow> ok b \<Longrightarrow> lt a b \<Longrightarrow> \<not> lt b a"
    and trans: "ok a \<Longrightarrow> ok b \<Longrightarrow> ok c \<Longrightarrow> \<not> lt b a \<Longrightarrow> \<not> lt c b \<Longrightarrow> \<not> lt c a"
begin

text \<open>The step of \<open>up\<close>: after the swap only the parent can be out of order.\<close>

lemma up_step:
  assumes j: "j < length h" "0 < j" and okh: "\<forall>x \<in> set h. ok x" and hj: "heap_but_up lt j h"
    and lt: "lt (h ! j) (h ! heap_parent j)"
  shows "heap_but_up lt (heap_parent j) (heap_Swap (heap_parent j) j h)"
proof -
  let ?i = "heap_parent j"
  let ?g = "heap_Swap ?i j h"
  have ok: "k < length h \<Longrightarrow> ok (h ! k)" for k using okh by simp
  have i: "?i < j" using j by (simp add: heap_parent_less)
  have old: "\<not> lt (h ! k) (h ! heap_parent k)" if "0 < k" "k < length h" "k \<noteq> j" for k
    using hj that by (simp add: heap_but_up_def)
  have below: "\<not> lt (h ! k) (h ! ?i)" if "0 < k" "k < length h" "heap_parent k = j" for k
    using hj that j by (simp add: heap_but_up_def)
  have nl: "\<not> lt (h ! ?i) (h ! j)" using asym [OF ok ok lt] i j by simp
  have sw: "?g ! k = (if k = j then h ! ?i else if k = ?i then h ! j else h ! k)" if "k < length h" for k
    using that i j by (simp add: nth_heap_Swap)
  have side: "\<not> lt (h ! k) (h ! j)" if "0 < k" "k < length h" "k \<noteq> j" "heap_parent k = ?i" for k
    using trans [OF ok ok ok nl] old [of k] that i j by simp
  have "\<not> lt (?g ! k) (?g ! heap_parent k)" if k: "0 < k" "k < length h" "k \<noteq> ?i" for k
  proof -
    have p: "heap_parent k < length h" "heap_parent k < k" using heap_parent_less [OF k(1)] k by simp_all
    consider "k = j" | "k \<noteq> j" "heap_parent k = ?i" | "k \<noteq> j" "heap_parent k = j" | "k \<noteq> j" "heap_parent k \<noteq> ?i" "heap_parent k \<noteq> j"
      by blast
    then show ?thesis
      using k p i j nl side [of k] below [of k] old [of k] sw [of k] sw [of "heap_parent k"] by cases auto
  qed
  moreover have "\<not> lt (?g ! k) (?g ! heap_parent ?i)"
    if k: "0 < k" "k < length h" "heap_parent k = ?i" "0 < ?i" for k
  proof -
    have pi: "heap_parent ?i < ?i" by (rule heap_parent_less [OF k(4)])
    have up: "\<not> lt (h ! ?i) (h ! heap_parent ?i)" using old [of ?i] k(4) i j by simp
    have "\<not> lt (h ! k) (h ! heap_parent ?i)" if "k \<noteq> j"
      using trans [OF ok ok ok up] old [of k] that k i j pi by simp
    moreover have "k \<noteq> ?i" using heap_parent_less [OF k(1)] k(3) by simp
    moreover have "?g ! heap_parent ?i = h ! heap_parent ?i" using sw [of "heap_parent ?i"] pi i j by simp
    ultimately show ?thesis using up sw [of k] k by auto
  qed
  ultimately show ?thesis by (simp add: heap_but_up_def)
qed

lemma up_heap:
  "j < length h \<Longrightarrow> \<forall>x \<in> set h. ok x \<Longrightarrow> heap_but_up lt j h \<Longrightarrow> is_heap lt (length h) (heap_up lt j h)"
proof (induction j arbitrary: h rule: less_induct)
  case (less j)
  let ?i = "heap_parent j"
  show ?case
  proof (cases "?i = j \<or> \<not> lt (h ! j) (h ! ?i)")
    case True
    have "\<not> lt (h ! k) (h ! heap_parent k)" if "0 < k" "k < length h" for k
      using True less.prems(3) that heap_parent_less [of k] by (cases "k = j") (auto simp: heap_but_up_def)
    then show ?thesis using True by (subst heap_up.simps) (auto simp: is_heap_def)
  next
    case False
    then have j: "0 < j" by (cases "j = 0") auto
    then have i: "?i < j" by (rule heap_parent_less)
    let ?g = "heap_Swap ?i j h"
    have "heap_but_up lt ?i ?g" using up_step less.prems j False by simp
    moreover have "set ?g = set h" using i less.prems(1) mset_heap_Swap [of ?i h j] by (intro mset_eq_setD) simp
    ultimately have "is_heap lt (length ?g) (heap_up lt ?i ?g)"
      using i less.prems(1,2) by (intro less.IH) auto
    then show ?thesis using False by (subst heap_up.simps) simp
  qed
qed

text \<open>The step of \<open>down\<close> goes to the least child.\<close>

lemma down_step:
  assumes n: "n \<le> length h" "2 * i + 1 < n" and okh: "\<forall>x \<in> set h. ok x" and hi: "heap_but_down lt i n h"
    and lt: "lt (h ! heap_child lt i n h) (h ! i)"
    and min: "\<And>k. 0 < k \<Longrightarrow> k < n \<Longrightarrow> heap_parent k = i \<Longrightarrow> \<not> lt (h ! k) (h ! heap_child lt i n h)"
  shows "heap_but_down lt (heap_child lt i n h) n (heap_Swap i (heap_child lt i n h) h)"
proof -
  define c where "c = heap_child lt i n h"
  let ?g = "heap_Swap i c h"
  note lt = lt [folded c_def] and min = min [folded c_def]
  have pc: "heap_parent c = i" by (simp add: c_def)
  have ok: "k < n \<Longrightarrow> ok (h ! k)" for k using n okh by simp
  have c: "c < n" "i < c" using heap_child_less [OF n(2)] by (simp_all add: c_def)
  have old: "\<not> lt (h ! k) (h ! heap_parent k)" if "0 < k" "k < n" "heap_parent k \<noteq> i" for k
    using hi that by (simp add: heap_but_down_def)
  have up: "\<not> lt (h ! c) (h ! heap_parent i)" if "0 < i"
  proof -
    have "0 < c" using c by linarith
    moreover have "\<forall>k. 0 < k \<and> k < n \<and> heap_parent k = i \<and> 0 < i \<longrightarrow> \<not> lt (h ! k) (h ! heap_parent i)"
      using hi unfolding heap_but_down_def by (rule conjunct2)
    ultimately show ?thesis using c(1) that pc by blast
  qed
  have sw: "?g ! k = (if k = c then h ! i else if k = i then h ! c else h ! k)" if "k < n" for k
    using that c n by (simp add: nth_heap_Swap)
  have nl: "\<not> lt (h ! i) (h ! c)" using asym [OF ok ok lt] c by simp
  have "\<not> lt (?g ! k) (?g ! heap_parent k)" if k: "0 < k" "k < n" "heap_parent k \<noteq> c" for k
  proof -
    have p: "heap_parent k < k" using heap_parent_less [OF k(1)] .
    consider "k = c" | "k \<noteq> c" "heap_parent k = i" | "k = i" "heap_parent k \<noteq> i"
      | "k \<noteq> c" "k \<noteq> i" "heap_parent k \<noteq> i" using p by fastforce
    then show ?thesis
      using k p c pc nl up min [of k] old [of k] sw [of k] sw [of i] sw [of "heap_parent k"] by cases auto
  qed
  moreover have "\<not> lt (?g ! k) (?g ! heap_parent c)"
    if k: "0 < k" "k < n" "heap_parent k = c" "0 < c" for k
    using old [of k] sw [of k] sw [of i] k c pc heap_parent_less [OF k(1)] by auto
  ultimately show ?thesis unfolding c_def [symmetric] by (simp add: heap_but_down_def)
qed

lemma down_heap:
  "n \<le> length h \<Longrightarrow> \<forall>x \<in> set h. ok x \<Longrightarrow> heap_but_down lt i n h \<Longrightarrow> is_heap lt n (heap_down lt i n h)"
proof (induction "n - i" arbitrary: i h rule: less_induct)
  case (less i h)
  let ?c = "heap_child lt i n h"
  have ok: "k < n \<Longrightarrow> ok (h ! k)" for k using less.prems(1,2) by simp
  have old: "\<not> lt (h ! k) (h ! heap_parent k)" if "0 < k" "k < n" "heap_parent k \<noteq> i" for k
    using less.prems(3) that by (simp add: heap_but_down_def)
  show ?case
  proof (cases "2 * i + 1 \<ge> n")
    case True
    have "\<not> lt (h ! k) (h ! heap_parent k)" if "0 < k" "k < n" for k
    proof -
      have "heap_parent k \<noteq> i" using heap_parent_eq [OF that(1), of i] True that(2) by linarith
      then show ?thesis by (rule old [OF that])
    qed
    then show ?thesis using True by (subst heap_down.simps) (simp add: is_heap_def)
  next
    case inner: False
    have c: "?c < n" "i < ?c" using heap_child_less [of i n lt h] inner by simp_all
    have min: "\<not> lt (h ! k) (h ! ?c)" if k: "0 < k" "k < n" "heap_parent k = i" for k
    proof -
      have irr: "\<not> lt (h ! k) (h ! k)" using asym [OF ok ok] k by blast
      consider "k = 2 * i + 1" | "k = 2 * i + 2" using heap_parent_eq [OF k(1), of i] k(3) by blast
      then show ?thesis
      proof cases
        case 1
        then show ?thesis using irr asym [OF ok [of "2 * i + 2"] ok [of "2 * i + 1"]] k by (auto simp: heap_child_def Let_def)
      next
        case 2
        then show ?thesis using irr k by (auto simp: heap_child_def Let_def)
      qed
    qed
    show ?thesis
    proof (cases "lt (h ! ?c) (h ! i)")
      case False
      have "\<not> lt (h ! k) (h ! i)" if "0 < k" "k < n" "heap_parent k = i" for k
        using trans [OF ok ok ok False min] that c by simp
      then have "\<not> lt (h ! k) (h ! heap_parent k)" if "0 < k" "k < n" for k
        using old [of k] that by (cases "heap_parent k = i") auto
      then show ?thesis using inner False by (subst heap_down.simps) (simp add: is_heap_def)
    next
      case True
      let ?g = "heap_Swap i ?c h"
      have "heap_but_down lt ?c n ?g" using down_step less.prems inner True min by simp
      moreover have "set ?g = set h" using c less.prems(1) by (intro mset_eq_setD mset_heap_Swap) linarith+
      moreover have "n - ?c < n - i" using c by linarith
      ultimately have "is_heap lt n (heap_down lt ?c n ?g)"
        using c less.prems(1,2) by (intro less.hyps) auto
      then show ?thesis using inner True by (subst heap_down.simps) simp
    qed
  qed
qed

lemma root_min:
  assumes "is_heap lt (length h) h" "\<forall>x \<in> set h. ok x" "x \<in> set h"
  shows "\<not> lt x (h ! 0)"
proof -
  have "k < length h \<Longrightarrow> \<not> lt (h ! k) (h ! 0)" for k
  proof (induction k rule: less_induct)
    case (less k)
    have ok: "i < length h \<Longrightarrow> ok (h ! i)" for i using assms(2) by simp
    show ?case
    proof (cases "k = 0")
      case True
      then show ?thesis using asym ok less.prems by blast
    next
      case False
      then have p: "heap_parent k < k" "\<not> lt (h ! k) (h ! heap_parent k)"
        using heap_parent_less assms(1) less.prems by (auto simp: is_heap_def)
      have "\<not> lt (h ! heap_parent k) (h ! 0)" using less p by simp
      moreover have "heap_parent k < length h" "0 < length h" using p less.prems by linarith+
      ultimately show ?thesis using trans [OF ok ok ok _ p(2), of 0] less.prems by blast
    qed
  qed
  then show ?thesis using assms(3) by (auto simp: in_set_conv_nth)
qed

text \<open>What a client sees: \<open>Push\<close> adds an element, \<open>Pop\<close> removes a least one, both keep the heap order.\<close>

lemma Push_heap:
  assumes "is_heap lt (length h) h" "\<forall>y \<in> set h. ok y" "ok x"
  shows "is_heap lt (length (heap_Push lt x h)) (heap_Push lt x h)"
proof -
  have "heap_but_up lt (length h) (h @ [x])"
    unfolding heap_but_up_def
  proof (intro conjI allI impI; elim conjE)
    fix k assume "0 < k" "k < length (h @ [x])" "k \<noteq> length h"
    then show "\<not> lt ((h @ [x]) ! k) ((h @ [x]) ! heap_parent k)"
      using assms(1) heap_parent_less [of k] by (simp add: is_heap_def nth_append)
  next
    fix k assume "0 < k" "k < length (h @ [x])" "heap_parent k = length h"
    then show "\<not> lt ((h @ [x]) ! k) ((h @ [x]) ! heap_parent (length h))"
      using heap_parent_less [of k] by simp
  qed
  then have "is_heap lt (length (h @ [x])) (heap_up lt (length h) (h @ [x]))"
    using assms(2,3) by (intro up_heap) auto
  then show ?thesis unfolding length_heap_Push by (simp add: heap_Push_def)
qed

lemma Pop_heap:
  assumes "is_heap lt (length h) h" "\<forall>y \<in> set h. ok y" "h \<noteq> []"
  shows "\<exists>x h'. heap_Pop lt h = Some (x, h') \<and> mset h = add_mset x (mset h') \<and>
    (\<forall>y \<in> set h. \<not> lt y x) \<and> is_heap lt (length h') h'"
proof -
  let ?n = "length h - 1"
  let ?d = "heap_down lt 0 ?n (heap_Swap 0 ?n h)"
  have n: "?n < length h" using assms(3) by simp
  have s: "set (heap_Swap 0 ?n h) = set h" using n mset_heap_Swap [of 0 h ?n] assms(3) by (intro mset_eq_setD) simp
  have "heap_but_down lt 0 ?n (heap_Swap 0 ?n h)"
    unfolding heap_but_down_def
  proof (intro conjI allI impI; elim conjE)
    fix k assume k: "0 < k" "k < ?n" "heap_parent k \<noteq> 0"
    then have "\<not> lt (h ! k) (h ! heap_parent k)" using assms(1) by (simp add: is_heap_def)
    then show "\<not> lt (heap_Swap 0 ?n h ! k) (heap_Swap 0 ?n h ! heap_parent k)"
      using k n assms(3) heap_parent_less [of k] nth_heap_Swap [of 0 h ?n k] nth_heap_Swap [of 0 h ?n "heap_parent k"] by simp
  qed simp
  then have "is_heap lt ?n ?d" by (intro down_heap) (use n s assms(2) in auto)
  then have "\<not> lt (take ?n ?d ! k) (take ?n ?d ! heap_parent k)" if "0 < k" "k < ?n" for k
    using that heap_parent_less [of k] by (simp add: is_heap_def)
  then have "is_heap lt (length (take ?n ?d)) (take ?n ?d)" by (simp add: is_heap_def)
  moreover obtain h' where h': "heap_Pop lt h = Some (h ! 0, h')" "mset h = add_mset (h ! 0) (mset h')"
    using heap_Pop_root [OF assms(3)] by blast
  moreover have "h' = take ?n ?d" using h'(1) assms(3) by (simp add: heap_Pop_def Let_def)
  ultimately show ?thesis using root_min [OF assms(1,2)] by blast
qed

end

end
