(* ===== verification/RoutingAlgorithm.thy ===== *)
theory RoutingAlgorithm imports EdgeIteration ContainerHeap begin

text \<open>
  What the routing algorithms of \<^verbatim>\<open>core/routing\<close> share: the interfaces \<open>Graph\<close> and \<open>Weighting\<close> as
  records of functions, the traversal mode, the entries of the shortest path tree and their heap, the
  abstract algorithm with its limits, and the path with its extraction. Entries are shared and updated
  through pointers, so they live in a store: a list of entries, a pointer is an index. The clock is an
  input of the model.
\<close>

section \<open>The interfaces\<close>

text \<open>
  The operations of \<open>storage.Graph\<close> the algorithms call: \<open>SetBase\<close> and \<open>NextEdge\<close> are the explorer made
  by \<open>CreateEdgeExplorer(AllEdges)\<close> and its iterator.
\<close>

record graph_iface =
  GetNodes :: int
  SetBase :: "int \<Rightarrow> edge_iterator option"
  NextEdge :: "edge_iterator \<Rightarrow> (bool \<times> edge_iterator) option"
  EdgeState :: "int \<Rightarrow> int \<Rightarrow> edge_state option option"
  EdgeDistance :: "edge_state \<Rightarrow> flt option"
  EdgeGeometry :: "fetch_mode \<Rightarrow> edge_state \<Rightarrow> point_list option"
  NodesIs3D :: bool
  NodeLat :: "int \<Rightarrow> flt option"
  NodeLon :: "int \<Rightarrow> flt option"
  NodeEle :: "int \<Rightarrow> flt option"

definition base_graph_iface :: "base_graph \<Rightarrow> graph_iface" where
  "base_graph_iface bg = \<lparr>GetNodes = nodeCount (Store bg),
     SetBase = (\<lambda>n. SetBaseNode n bg newEdgeIteratorImpl), NextEdge = ei_Next AllEdges bg,
     EdgeState = (\<lambda>e n. GetEdgeIteratorState e n bg), EdgeDistance = es_GetDistance bg,
     EdgeGeometry = (\<lambda>mode e. FetchWayGeometry mode bg e), NodesIs3D = withElevation (Store bg),
     NodeLat = (\<lambda>n. na_GetLat n (Store bg)), NodeLon = (\<lambda>n. na_GetLon n (Store bg)),
     NodeEle = (\<lambda>n. na_GetEle n (Store bg))\<rparr>"

text \<open>\<open>for iter.Next() { body }\<close>\<close>

partial_function (option) for_each ::
    "('i \<Rightarrow> (bool \<times> 'i) option) \<Rightarrow> ('i \<Rightarrow> 'a \<Rightarrow> 'a option) \<Rightarrow> 'i \<Rightarrow> 'a \<Rightarrow> 'a option" where
  "for_each next' body it a = do {
     (more, it) \<leftarrow> next' it;
     if more then do { a \<leftarrow> body it a; for_each next' body it a } else Some a }"

record weighting =
  CalcMinWeightPerDistance :: flt
  CalcEdgeWeight :: "edge_state \<Rightarrow> bool \<Rightarrow> flt option"
  CalcEdgeMillis :: "edge_state \<Rightarrow> bool \<Rightarrow> i64 option"
  CalcTurnWeight :: "int \<Rightarrow> int \<Rightarrow> int \<Rightarrow> flt option"
  CalcTurnMillis :: "int \<Rightarrow> int \<Rightarrow> int \<Rightarrow> i64 option"
  HasTurnCosts :: bool

definition EdgeIsValid :: "int \<Rightarrow> bool" where "EdgeIsValid edgeID \<longleftrightarrow> edgeID \<ge> 0"

definition CalcWeightWithTurnWeight :: "weighting \<Rightarrow> edge_state \<Rightarrow> bool \<Rightarrow> int \<Rightarrow> flt option" where
  "CalcWeightWithTurnWeight w st reverse prevOrNextEdgeID = do {
     edgeWeight \<leftarrow> CalcEdgeWeight w st reverse;
     if \<not> EdgeIsValid prevOrNextEdgeID then Some edgeWeight
     else if reverse then do {
       t \<leftarrow> CalcTurnWeight w (EdgeID st) (BaseNode st) prevOrNextEdgeID;
       Some (fadd edgeWeight t) }
     else do {
       t \<leftarrow> CalcTurnWeight w prevOrNextEdgeID (BaseNode st) (EdgeID st);
       Some (fadd edgeWeight t) } }"

definition MaxInt64 :: i64 where "MaxInt64 = word_of_int (2 ^ 63 - 1)"

definition CalcMillisWithTurnMillis :: "weighting \<Rightarrow> edge_state \<Rightarrow> bool \<Rightarrow> int \<Rightarrow> i64 option" where
  "CalcMillisWithTurnMillis w st reverse prevOrNextEdgeID = do {
     edgeMillis \<leftarrow> CalcEdgeMillis w st reverse;
     if edgeMillis = MaxInt64 then Some edgeMillis
     else if \<not> EdgeIsValid prevOrNextEdgeID then Some edgeMillis
     else do {
       turnMillis \<leftarrow> (if reverse then CalcTurnMillis w (EdgeID st) (BaseNode st) prevOrNextEdgeID
         else CalcTurnMillis w prevOrNextEdgeID (BaseNode st) (EdgeID st));
       if turnMillis = MaxInt64 then Some turnMillis
       else Some (edgeMillis + turnMillis) } }"

section \<open>The traversal mode\<close>

datatype traversal_mode = NodeBased | EdgeBased

definition IsEdgeBased :: "traversal_mode \<Rightarrow> bool" where "IsEdgeBased m \<longleftrightarrow> m = EdgeBased"

definition CreateTraversalID :: "traversal_mode \<Rightarrow> edge_state \<Rightarrow> bool \<Rightarrow> int" where
  "CreateTraversalID m st reverse =
     (if IsEdgeBased m then (if reverse then GetReverseEdgeKey st else GetEdgeKey st) else AdjNode st)"

section \<open>Entries of the shortest path tree\<close>

record spt_entry =
  spt_Edge :: int
  spt_IncEdge :: int
  spt_AdjNode :: int
  spt_Weight :: flt
  WeightOfVisitedPath :: flt
  spt_Parent :: "nat option"
  Deleted :: bool

definition NewSPTEntry :: "int \<Rightarrow> flt \<Rightarrow> spt_entry" where
  "NewSPTEntry node weight = \<lparr>spt_Edge = noEdge, spt_IncEdge = noEdge, spt_AdjNode = node,
     spt_Weight = weight, WeightOfVisitedPath = weight, spt_Parent = None, Deleted = False\<rparr>"

definition NewSPTEntryFull :: "int \<Rightarrow> int \<Rightarrow> flt \<Rightarrow> nat option \<Rightarrow> spt_entry" where
  "NewSPTEntryFull edgeID adjNode weight parent = \<lparr>spt_Edge = edgeID, spt_IncEdge = edgeID,
     spt_AdjNode = adjNode, spt_Weight = weight, WeightOfVisitedPath = weight, spt_Parent = parent, Deleted = False\<rparr>"

definition NewSPTEntryWithHeuristic :: "int \<Rightarrow> int \<Rightarrow> flt \<Rightarrow> flt \<Rightarrow> nat option \<Rightarrow> spt_entry" where
  "NewSPTEntryWithHeuristic edgeID adjNode heapWeight pathWeight parent = \<lparr>spt_Edge = edgeID,
     spt_IncEdge = edgeID, spt_AdjNode = adjNode, spt_Weight = heapWeight, WeightOfVisitedPath = pathWeight,
     spt_Parent = parent, Deleted = False\<rparr>"

definition newSPTEntryWithIncEdge :: "int \<Rightarrow> int \<Rightarrow> int \<Rightarrow> flt \<Rightarrow> nat option \<Rightarrow> spt_entry" where
  "newSPTEntryWithIncEdge edgeID incEdge adjNode weight parent = \<lparr>spt_Edge = edgeID,
     spt_IncEdge = incEdge, spt_AdjNode = adjNode, spt_Weight = weight, WeightOfVisitedPath = weight,
     spt_Parent = parent, Deleted = False\<rparr>"

definition spt_entry_Less :: "spt_entry \<Rightarrow> spt_entry \<Rightarrow> bool" where
  "spt_entry_Less e other \<longleftrightarrow> flt_less (spt_Weight e) (spt_Weight other)"

type_synonym spt_store = "spt_entry list"

text \<open>The order of \<open>sptEntryHeap\<close>, a heap of pointers.\<close>

definition spt_Less :: "spt_store \<Rightarrow> nat \<Rightarrow> nat \<Rightarrow> bool" where
  "spt_Less es p q \<longleftrightarrow> flt_less (spt_Weight (es ! p)) (spt_Weight (es ! q))"

definition spt_Push :: "spt_store \<Rightarrow> nat \<Rightarrow> nat list \<Rightarrow> nat list" where
  "spt_Push es p h = heap_Push (spt_Less es) p h"

definition spt_Pop :: "spt_store \<Rightarrow> nat list \<Rightarrow> (nat \<times> nat list) option" where
  "spt_Pop es h = heap_Pop (spt_Less es) h"

definition mark_deleted :: "nat \<Rightarrow> spt_store \<Rightarrow> spt_store" where
  "mark_deleted p es = es[p := (es ! p)\<lparr>Deleted := True\<rparr>]"

section \<open>The abstract algorithm\<close>

record algorithm =
  Graph :: graph_iface
  Weighting :: weighting
  TraversalMode :: traversal_mode
  MaxVisitedNodes :: int
  TimeoutMillis :: i64
  FinishTimeMillis :: i64
  AlreadyRun :: bool
  VisitedNodes :: int

definition MaxInt :: int where "MaxInt = 2 ^ 63 - 1"

definition NewAbstractRoutingAlgorithm :: "graph_iface \<Rightarrow> weighting \<Rightarrow> traversal_mode \<Rightarrow> algorithm option" where
  "NewAbstractRoutingAlgorithm g w mode = do {
     check (\<not> (HasTurnCosts w \<and> \<not> IsEdgeBased mode));
     Some \<lparr>Graph = g, Weighting = w, TraversalMode = mode, MaxVisitedNodes = MaxInt, TimeoutMillis = MaxInt64,
       FinishTimeMillis = MaxInt64, AlreadyRun = False, VisitedNodes = 0\<rparr> }"

definition SetMaxVisitedNodes :: "int \<Rightarrow> 'a algorithm_scheme \<Rightarrow> 'a algorithm_scheme" where
  "SetMaxVisitedNodes n a = a\<lparr>MaxVisitedNodes := n\<rparr>"

definition SetTimeoutMillis :: "i64 \<Rightarrow> 'a algorithm_scheme \<Rightarrow> 'a algorithm_scheme" where
  "SetTimeoutMillis t a = a\<lparr>TimeoutMillis := t\<rparr>"

definition Accept :: "edge_state \<Rightarrow> int \<Rightarrow> 'a algorithm_scheme \<Rightarrow> bool" where
  "Accept st prevOrNextEdgeID a \<longleftrightarrow> IsEdgeBased (TraversalMode a) \<or> EdgeID st \<noteq> prevOrNextEdgeID"

definition CheckAlreadyRun :: "'a algorithm_scheme \<Rightarrow> 'a algorithm_scheme option" where
  "CheckAlreadyRun a = do { check (\<not> AlreadyRun a); Some (a\<lparr>AlreadyRun := True\<rparr>) }"

definition SetupFinishTime :: "i64 \<Rightarrow> 'a algorithm_scheme \<Rightarrow> 'a algorithm_scheme" where
  "SetupFinishTime now a =
     (let finish = now + TimeoutMillis a in
      a\<lparr>FinishTimeMillis := if 0 <s TimeoutMillis a \<and> finish <s now then MaxInt64 else finish\<rparr>)"

definition IsMaxVisitedNodesExceeded :: "'a algorithm_scheme \<Rightarrow> bool" where
  "IsMaxVisitedNodesExceeded a \<longleftrightarrow> MaxVisitedNodes a < VisitedNodes a"

definition IsTimeoutExceeded :: "i64 \<Rightarrow> 'a algorithm_scheme \<Rightarrow> bool" where
  "IsTimeoutExceeded now a \<longleftrightarrow> FinishTimeMillis a <s MaxInt64 \<and> FinishTimeMillis a <s now"

section \<open>The path\<close>

record gh_path =
  PathGraph :: graph_iface
  path_Weight :: flt
  Distance :: flt
  Time :: i64
  EdgeIDs :: "int list"
  FromNode :: int
  EndNode :: int
  Found :: bool

definition NewPath :: "graph_iface \<Rightarrow> gh_path" where
  "NewPath g = \<lparr>PathGraph = g, path_Weight = MaxFloat64, Distance = Fin 0, Time = 0, EdgeIDs = [],
     FromNode = - 1, EndNode = - 1, Found = False\<rparr>"

definition CreateEmptyPath :: "'a algorithm_scheme \<Rightarrow> gh_path" where
  "CreateEmptyPath a = NewPath (Graph a)"

definition AddEdge :: "int \<Rightarrow> gh_path \<Rightarrow> gh_path" where
  "AddEdge e p = p\<lparr>EdgeIDs := EdgeIDs p @ [e]\<rparr>"

definition AddDistance :: "flt \<Rightarrow> gh_path \<Rightarrow> gh_path" where
  "AddDistance d p = p\<lparr>Distance := fadd (Distance p) d\<rparr>"

definition AddTime :: "i64 \<Rightarrow> gh_path \<Rightarrow> gh_path" where
  "AddTime t p = p\<lparr>Time := Time p + t\<rparr>"

definition GetFromNode :: "gh_path \<Rightarrow> int option" where
  "GetFromNode p = do { check (\<not> FromNode p < 0); Some (FromNode p) }"

definition GetFinalEdge :: "gh_path \<Rightarrow> edge_state option option" where
  "GetFinalEdge p = do {
     e \<leftarrow> idx (EdgeIDs p) (int (length (EdgeIDs p)) - 1);
     EdgeState (PathGraph p) e (EndNode p) }"

definition ReverseEdgeIDs :: "gh_path \<Rightarrow> gh_path" where
  "ReverseEdgeIDs p = p\<lparr>EdgeIDs := rev (EdgeIDs p)\<rparr>"

text \<open>\<open>ForEveryEdge\<close> with the visitor's \<open>Next\<close> as a function of the state, the index and the edge before.\<close>

fun every_edge_loop :: "graph_iface \<Rightarrow> (edge_state \<Rightarrow> int \<Rightarrow> int \<Rightarrow> 'a \<Rightarrow> 'a option) \<Rightarrow>
    int \<Rightarrow> int \<Rightarrow> int \<Rightarrow> int list \<Rightarrow> 'a \<Rightarrow> 'a option" where
  "every_edge_loop g visit i tmpNode prev [] a = Some a"
| "every_edge_loop g visit i tmpNode prev (e # es) a = do {
     r \<leftarrow> EdgeState g e tmpNode;
     edgeBase \<leftarrow> r;
     let tmpNode = BaseNode edgeBase;
     r \<leftarrow> EdgeState g (EdgeID edgeBase) tmpNode;
     edgeBase \<leftarrow> r;
     a \<leftarrow> visit edgeBase i prev a;
     every_edge_loop g visit (i + 1) tmpNode (EdgeID edgeBase) es a }"

definition ForEveryEdge :: "(edge_state \<Rightarrow> int \<Rightarrow> int \<Rightarrow> 'a \<Rightarrow> 'a option) \<Rightarrow> gh_path \<Rightarrow> 'a \<Rightarrow> 'a option" where
  "ForEveryEdge visit p a = do {
     from' \<leftarrow> GetFromNode p;
     every_edge_loop (PathGraph p) visit 0 from' noEdge (EdgeIDs p) a }"

definition CalcEdges :: "gh_path \<Rightarrow> edge_state list option" where
  "CalcEdges p = (if EdgeIDs p = [] then Some [] else ForEveryEdge (\<lambda>st _ _ edges. Some (edges @ [st])) p [])"

definition CalcNodes :: "gh_path \<Rightarrow> int list option" where
  "CalcNodes p =
     (if EdgeIDs p = [] then Some (if Found p then [EndNode p] else [])
      else do {
        tmpNode \<leftarrow> GetFromNode p;
        ForEveryEdge (\<lambda>st _ _ nodes. Some (nodes @ [AdjNode st])) p [tmpNode] })"

definition path_addNode :: "int \<Rightarrow> gh_path \<Rightarrow> point_list \<Rightarrow> point_list option" where
  "path_addNode n p pl =
     (let g = PathGraph p in do {
        lat \<leftarrow> NodeLat g n;
        lon \<leftarrow> NodeLon g n;
        if NodesIs3D g then do { ele \<leftarrow> NodeEle g n; pl_Add3D lat lon ele pl } else pl_Add lat lon pl })"

fun add_points :: "nat \<Rightarrow> int \<Rightarrow> point_list \<Rightarrow> point_list \<Rightarrow> point_list option" where
  "add_points 0 j pl pts = Some pts"
| "add_points (Suc k) j pl pts = do {
     lat \<leftarrow> pl_GetLat j pl;
     lon \<leftarrow> pl_GetLon j pl;
     ele \<leftarrow> pl_GetEle j pl;
     pts \<leftarrow> (if pl_is3D pts then pl_Add3D lat lon ele pts else pl_Add lat lon pts);
     add_points k (j + 1) pl pts }"

definition CalcPoints :: "gh_path \<Rightarrow> point_list option" where
  "CalcPoints p =
     (let pts = NewPointList (NodesIs3D (PathGraph p)) in
      if EdgeIDs p = [] then (if Found p then path_addNode (EndNode p) p pts else Some pts)
      else do {
        tmpNode \<leftarrow> GetFromNode p;
        pts \<leftarrow> path_addNode tmpNode p pts;
        ForEveryEdge (\<lambda>st _ _ pts. do {
          pl \<leftarrow> EdgeGeometry (PathGraph p) FetchModePillarAndAdj st;
          add_points (length (lats pl)) 0 pl pts }) p pts })"

section \<open>Extraction of the path\<close>

text \<open>A nil parent is \<^const>\<open>None\<close>; following it panics, as in \<open>parentEntry.Edge\<close>.\<close>

definition onEdge :: "graph_iface \<Rightarrow> weighting \<Rightarrow> int \<Rightarrow> int \<Rightarrow> int \<Rightarrow> gh_path \<Rightarrow> gh_path option" where
  "onEdge g w edge adjNode prevEdge p = do {
     r \<leftarrow> EdgeState g edge adjNode;
     st \<leftarrow> r;
     d \<leftarrow> EdgeDistance g st;
     t \<leftarrow> CalcMillisWithTurnMillis w st False prevEdge;
     Some (AddEdge edge (AddTime t (AddDistance d p))) }"

partial_function (option) followParentsUntilRoot ::
    "graph_iface \<Rightarrow> weighting \<Rightarrow> spt_store \<Rightarrow> spt_entry \<Rightarrow> gh_path \<Rightarrow> (spt_entry \<times> gh_path) option" where
  "followParentsUntilRoot g w es currEntry p =
     (if EdgeIsValid (spt_Edge currEntry) then do {
        q \<leftarrow> spt_Parent currEntry;
        parentEntry \<leftarrow> idx es (int q);
        p \<leftarrow> onEdge g w (spt_Edge currEntry) (spt_AdjNode currEntry) (spt_Edge parentEntry) p;
        followParentsUntilRoot g w es parentEntry p }
      else Some (currEntry, p))"

definition ExtractPath :: "graph_iface \<Rightarrow> weighting \<Rightarrow> spt_store \<Rightarrow> spt_entry option \<Rightarrow> gh_path option" where
  "ExtractPath g w es sptEntry =
     (case sptEntry of None \<Rightarrow> Some (NewPath g)
      | Some e \<Rightarrow> do {
          (root, p) \<leftarrow> followParentsUntilRoot g w es e (NewPath g);
          Some ((ReverseEdgeIDs p)\<lparr>FromNode := spt_AdjNode root, EndNode := spt_AdjNode e,
            Found := True, path_Weight := spt_Weight e\<rparr>) })"

end
