(* ===== verification/Dijkstra.thy ===== *)
theory Dijkstra imports RoutingAlgorithm begin

text \<open>
  \<^verbatim>\<open>core/routing/dijkstra.go\<close>: the single-source search with a heap of entries, in which an improved
  entry is marked deleted and replaced. The clock of a run is a function of the number of visited nodes.
\<close>

record dijkstra = algorithm +
  entries :: spt_store
  fromMap :: "int \<Rightarrow> nat option"
  fromHeap :: "nat list"
  currEdge :: "nat option"
  to_node :: int

definition NewDijkstra :: "graph_iface \<Rightarrow> weighting \<Rightarrow> traversal_mode \<Rightarrow> dijkstra option" where
  "NewDijkstra g w mode = do {
     a \<leftarrow> NewAbstractRoutingAlgorithm g w mode;
     Some (algorithm.extend a \<lparr>entries = [], fromMap = (\<lambda>_. None), fromHeap = [], currEdge = None, to_node = - 1\<rparr>) }"

definition dij_finished :: "dijkstra \<Rightarrow> bool option" where
  "dij_finished d = do {
     p \<leftarrow> currEdge d;
     Some (spt_AdjNode (entries d ! p) = to_node d) }"

text \<open>A new entry becomes the best one of its traversal id and enters the heap.\<close>

definition dij_push :: "int \<Rightarrow> spt_entry \<Rightarrow> dijkstra \<Rightarrow> dijkstra" where
  "dij_push tid e d =
     (let n = length (entries d); es = entries d @ [e] in
      d\<lparr>entries := es, fromMap := (fromMap d)(tid := Some n), fromHeap := spt_Push es n (fromHeap d)\<rparr>)"

definition dij_relax :: "nat \<Rightarrow> edge_iterator \<Rightarrow> dijkstra \<Rightarrow> dijkstra option" where
  "dij_relax p it d =
     (let st = edge_state.truncate it; curr = entries d ! p in
      if \<not> Accept st (spt_Edge curr) d then Some d
      else do {
        w \<leftarrow> CalcWeightWithTurnWeight (Weighting d) st False (spt_Edge curr);
        let tmpWeight = fadd w (spt_Weight curr);
        if math_IsPInf tmpWeight then Some d
        else let traversalID = CreateTraversalID (TraversalMode d) st False;
                 nEdge = NewSPTEntryFull (EdgeID st) (AdjNode st) tmpWeight (Some p)
             in case fromMap d traversalID of
                  None \<Rightarrow> Some (dij_push traversalID nEdge d)
                | Some q \<Rightarrow>
                    if flt_less tmpWeight (spt_Weight (entries d ! q))
                    then Some (dij_push traversalID nEdge (d\<lparr>entries := mark_deleted q (entries d)\<rparr>))
                    else Some d })"

partial_function (option) dij_runAlgo :: "(int \<Rightarrow> i64) \<Rightarrow> dijkstra \<Rightarrow> dijkstra option" where
  "dij_runAlgo clock d =
     (if fromHeap d = [] then Some d
      else do {
        (p, h) \<leftarrow> spt_Pop (entries d) (fromHeap d);
        let d = d\<lparr>fromHeap := h, currEdge := Some p\<rparr>;
        if Deleted (entries d ! p) then dij_runAlgo clock d
        else do {
          let d = d\<lparr>VisitedNodes := VisitedNodes d + 1\<rparr>;
          fin \<leftarrow> dij_finished d;
          if IsMaxVisitedNodesExceeded d \<or> fin \<or> IsTimeoutExceeded (clock (VisitedNodes d)) d then Some d
          else do {
            it \<leftarrow> SetBase (Graph d) (spt_AdjNode (entries d ! p));
            d \<leftarrow> for_each (NextEdge (Graph d)) (dij_relax p) it d;
            dij_runAlgo clock d } } })"

definition dij_extractPath :: "dijkstra \<Rightarrow> gh_path option" where
  "dij_extractPath d =
     (case currEdge d of None \<Rightarrow> Some (CreateEmptyPath d)
      | Some p \<Rightarrow> do {
          fin \<leftarrow> dij_finished d;
          if \<not> fin then Some (CreateEmptyPath d)
          else ExtractPath (Graph d) (Weighting d) (entries d) (Some (entries d ! p)) })"

definition dij_start :: "(int \<Rightarrow> i64) \<Rightarrow> int \<Rightarrow> int \<Rightarrow> dijkstra \<Rightarrow> dijkstra option" where
  "dij_start clock from' to d = do {
     d \<leftarrow> CheckAlreadyRun d;
     let d = (SetupFinishTime (clock 0) d)\<lparr>to_node := to\<rparr>;
     let n = length (entries d);
     let es = entries d @ [NewSPTEntry from' (Fin 0)];
     let d = d\<lparr>entries := es, fromHeap := spt_Push es n (fromHeap d)\<rparr>;
     Some (if \<not> IsEdgeBased (TraversalMode d) then d\<lparr>fromMap := (fromMap d)(from' := Some n)\<rparr> else d) }"

definition dij_CalcPath :: "(int \<Rightarrow> i64) \<Rightarrow> int \<Rightarrow> int \<Rightarrow> dijkstra \<Rightarrow> (gh_path \<times> dijkstra) option" where
  "dij_CalcPath clock from' to d = do {
     d \<leftarrow> dij_start clock from' to d;
     d \<leftarrow> dij_runAlgo clock d;
     p \<leftarrow> dij_extractPath d;
     Some (p, d) }"

definition dij_CalcPaths :: "(int \<Rightarrow> i64) \<Rightarrow> int \<Rightarrow> int \<Rightarrow> dijkstra \<Rightarrow> (gh_path list \<times> dijkstra) option" where
  "dij_CalcPaths clock from' to d = do { (p, d) \<leftarrow> dij_CalcPath clock from' to d; Some ([p], d) }"

end
