(* ===== verification/SearchTree.thy ===== *)
theory SearchTree imports RoutingAlgorithm begin

text \<open>
  The invariant of a search with a heap of tree entries in which improved entries are replaced, and what
  relaxing one edge does to it. The interface \<open>search_graph\<close> says what the search knows of the graph: the
  edge states at each node, the weight of a step after a previous edge and the traversal id of a state.
  Both traversal modes satisfy it, in both directions.
\<close>

section \<open>Walks\<close>

fun walk :: "(int \<Rightarrow> edge_state list) \<Rightarrow> int \<Rightarrow> edge_state list \<Rightarrow> bool" where
  "walk adj n [] \<longleftrightarrow> True"
| "walk adj n (st # sts) \<longleftrightarrow> st \<in> set (adj n) \<and> walk adj (AdjNode st) sts"

fun walk_end :: "int \<Rightarrow> edge_state list \<Rightarrow> int" where
  "walk_end n [] = n"
| "walk_end n (st # sts) = walk_end (AdjNode st) sts"

text \<open>The weight of a walk, summed in the order of its edges with the rounding of \<open>float64\<close>.\<close>

fun walk_weight :: "(int \<Rightarrow> edge_state \<Rightarrow> flt) \<Rightarrow> int \<Rightarrow> flt \<Rightarrow> edge_state list \<Rightarrow> flt" where
  "walk_weight wt prev c [] = c"
| "walk_weight wt prev c (st # sts) = walk_weight wt (EdgeID st) (fadd (wt prev st) c) sts"

definition last_edge :: "int \<Rightarrow> edge_state list \<Rightarrow> int" where
  "last_edge prev sts = (if sts = [] then prev else EdgeID (last sts))"

lemma walk_snoc [simp]: "walk adj n (sts @ [st]) \<longleftrightarrow> walk adj n sts \<and> st \<in> set (adj (walk_end n sts))"
  by (induction sts arbitrary: n) auto

lemma walk_end_snoc [simp]: "walk_end n (sts @ [st]) = AdjNode st"
  by (induction sts arbitrary: n) auto

lemma walk_weight_snoc [simp]:
  "walk_weight wt prev c (sts @ [st]) = fadd (wt (last_edge prev sts) st) (walk_weight wt prev c sts)"
  by (induction sts arbitrary: prev c) (auto simp: last_edge_def)

lemma last_edge_simps [simp]: "last_edge prev [] = prev" "last_edge prev (sts @ [st]) = EdgeID st"
  by (simp_all add: last_edge_def)

section \<open>Stores of entries\<close>

text \<open>A later store has the same entries, some of them marked deleted, and more of them.\<close>

definition later :: "spt_store \<Rightarrow> spt_store \<Rightarrow> bool" where
  "later es es' \<longleftrightarrow> length es \<le> length es' \<and>
     (\<forall>q < length es. es' ! q = (es ! q)\<lparr>Deleted := Deleted (es' ! q)\<rparr>)"

lemma later_fields:
  assumes "later es es'" "q < length es"
  shows "spt_Edge (es' ! q) = spt_Edge (es ! q)" "spt_AdjNode (es' ! q) = spt_AdjNode (es ! q)"
    "spt_Weight (es' ! q) = spt_Weight (es ! q)" "spt_Parent (es' ! q) = spt_Parent (es ! q)"
    "WeightOfVisitedPath (es' ! q) = WeightOfVisitedPath (es ! q)" "q < length es'"
proof -
  have *: "es' ! q = (es ! q)\<lparr>Deleted := Deleted (es' ! q)\<rparr>" using assms by (simp add: later_def)
  show "spt_Edge (es' ! q) = spt_Edge (es ! q)" by (subst *) simp
  show "spt_AdjNode (es' ! q) = spt_AdjNode (es ! q)" by (subst *) simp
  show "spt_Weight (es' ! q) = spt_Weight (es ! q)" by (subst *) simp
  show "spt_Parent (es' ! q) = spt_Parent (es ! q)" by (subst *) simp
  show "WeightOfVisitedPath (es' ! q) = WeightOfVisitedPath (es ! q)" by (subst *) simp
  show "q < length es'" using assms by (simp add: later_def)
qed

lemma later_append [simp]: "later es (es @ xs)"
  by (simp add: later_def nth_append)

lemma later_mark [simp]: "later es (mark_deleted q es)"
  by (cases "q < length es") (auto simp: later_def mark_deleted_def nth_list_update)

lemma length_mark [simp]: "length (mark_deleted q es) = length es"
  by (simp add: mark_deleted_def)

lemma Deleted_mark: "r < length es \<Longrightarrow> Deleted (mark_deleted q es ! r) \<longleftrightarrow> Deleted (es ! r) \<or> r = q"
  by (cases "r = q") (simp_all add: mark_deleted_def)

lemma later_trans: "later es es' \<Longrightarrow> later es' es'' \<Longrightarrow> later es es''"
proof -
  assume a: "later es es'" "later es' es''"
  have "es'' ! q = (es ! q)\<lparr>Deleted := Deleted (es'' ! q)\<rparr>" if "q < length es" for q
  proof -
    have 1: "es' ! q = (es ! q)\<lparr>Deleted := Deleted (es' ! q)\<rparr>" using a(1) that by (simp add: later_def)
    have 2: "es'' ! q = (es' ! q)\<lparr>Deleted := Deleted (es'' ! q)\<rparr>" using a that by (simp add: later_def)
    show ?thesis by (subst 2, subst 1) simp
  qed
  then show ?thesis using a by (auto simp: later_def)
qed

lemma is_heap_cong:
  assumes "\<And>x y. x \<in> set h \<Longrightarrow> y \<in> set h \<Longrightarrow> lt x y = lt' x y"
  shows "is_heap lt (length h) h = is_heap lt' (length h) h"
proof -
  have "heap_parent k < length h" if "k < length h" for k
    using heap_parent_less [of k] that by (cases "k = 0") auto
  then show ?thesis using assms by (auto simp: is_heap_def)
qed

interpretation spt: weak_order "spt_Less es" "\<lambda>p. spt_Weight (es ! p) \<noteq> NaN" for es
proof
  fix a b c
  assume "spt_Weight (es ! a) \<noteq> NaN" "spt_Weight (es ! b) \<noteq> NaN" "spt_Weight (es ! c) \<noteq> NaN"
    "\<not> spt_Less es b a" "\<not> spt_Less es c b"
  then show "\<not> spt_Less es c a" by (auto simp: spt_Less_def flt_not_less intro: flt_le_trans)
qed (auto simp: spt_Less_def flt_less_iff)

text \<open>Entries that left the heap and are in use are settled.\<close>

definition settled :: "spt_store \<Rightarrow> nat list \<Rightarrow> nat \<Rightarrow> bool" where
  "settled es h q \<longleftrightarrow> q < length es \<and> \<not> Deleted (es ! q) \<and> q \<notin> set h"

section \<open>The search graph\<close>

locale search_graph =
  fixes adj :: "int \<Rightarrow> edge_state list" and node_ok :: "int \<Rightarrow> bool"
    and wt :: "int \<Rightarrow> edge_state \<Rightarrow> flt" and tid :: "edge_state \<Rightarrow> int" and edge_based :: bool
  assumes adj_ends: "node_ok n \<Longrightarrow> st \<in> set (adj n) \<Longrightarrow> BaseNode st = n \<and> node_ok (AdjNode st) \<and> 0 \<le> EdgeID st"
    and same_edge: "node_ok n \<Longrightarrow> node_ok m \<Longrightarrow> st \<in> set (adj n) \<Longrightarrow> st' \<in> set (adj m) \<Longrightarrow>
      EdgeID st = EdgeID st' \<Longrightarrow> (n = m \<and> AdjNode st = AdjNode st') \<or> (AdjNode st = m \<and> AdjNode st' = n)"
    and adj_inj: "node_ok n \<Longrightarrow> st \<in> set (adj n) \<Longrightarrow> st' \<in> set (adj n) \<Longrightarrow> EdgeID st = EdgeID st' \<Longrightarrow> st = st'"
    and tid_adj: "node_ok n \<Longrightarrow> node_ok m \<Longrightarrow> st \<in> set (adj n) \<Longrightarrow> st' \<in> set (adj m) \<Longrightarrow>
      tid st = tid st' \<Longrightarrow> AdjNode st = AdjNode st'"
    and tid_edge: "edge_based \<Longrightarrow> node_ok n \<Longrightarrow> node_ok m \<Longrightarrow> st \<in> set (adj n) \<Longrightarrow> st' \<in> set (adj m) \<Longrightarrow>
      tid st = tid st' \<Longrightarrow> EdgeID st = EdgeID st'"
    and tid_node: "\<not> edge_based \<Longrightarrow> tid st = AdjNode st"
    and wt_first: "node_ok n \<Longrightarrow> st \<in> set (adj n) \<Longrightarrow> wf64 (wt noEdge st) \<and> fnonneg (wt noEdge st)"
    and wt_next: "node_ok n \<Longrightarrow> st \<in> set (adj n) \<Longrightarrow> node_ok m \<Longrightarrow> st' \<in> set (adj m) \<Longrightarrow> AdjNode st' = n \<Longrightarrow>
      wf64 (wt (EdgeID st') st) \<and> fnonneg (wt (EdgeID st') st) \<and>
      (\<not> edge_based \<longrightarrow> wt (EdgeID st') st = wt noEdge st)"
begin

text \<open>Entry \<open>q\<close> was made from entry \<open>p\<close> along state \<open>st\<close>.\<close>

definition came_from :: "spt_store \<Rightarrow> nat \<Rightarrow> nat \<Rightarrow> edge_state \<Rightarrow> bool" where
  "came_from es q p st \<longleftrightarrow> p < q \<and> q < length es \<and> spt_Parent (es ! q) = Some p \<and>
     st \<in> set (adj (spt_AdjNode (es ! p))) \<and> EdgeID st = spt_Edge (es ! q) \<and> AdjNode st = spt_AdjNode (es ! q) \<and>
     spt_Weight (es ! q) = fadd (wt (spt_Edge (es ! p)) st) (spt_Weight (es ! p))"

definition tree_ok :: "int \<Rightarrow> spt_store \<Rightarrow> bool" where
  "tree_ok from' es \<longleftrightarrow> es \<noteq> [] \<and> node_ok from' \<and>
     spt_Edge (es ! 0) = noEdge \<and> spt_AdjNode (es ! 0) = from' \<and> spt_Weight (es ! 0) = Fin 0 \<and>
     spt_Parent (es ! 0) = None \<and>
     (\<forall>q. 0 < q \<and> q < length es \<longrightarrow> (\<exists>p st. came_from es q p st)) \<and>
     (\<forall>q < length es. spt_Weight (es ! q) \<noteq> PInf)"

lemma came_from_later: "later es es' \<Longrightarrow> came_from es q p st \<Longrightarrow> came_from es' q p st"
  using later_fields [of es es' q] later_fields [of es es' p] by (simp add: came_from_def)

lemma came_from_before:
  "later es es' \<Longrightarrow> q < length es \<Longrightarrow> came_from es' q p st \<Longrightarrow> came_from es q p st"
  using later_fields [of es es' q] later_fields [of es es' p] by (simp add: came_from_def)

lemma tree_node:
  assumes "tree_ok from' es" "q < length es"
  shows "node_ok (spt_AdjNode (es ! q))"
  using assms(2)
proof (induction q rule: less_induct)
  case (less q)
  show ?case
  proof (cases "q = 0")
    case True
    then show ?thesis using assms(1) by (simp add: tree_ok_def)
  next
    case False
    then obtain p st where c: "came_from es q p st" using assms(1) less.prems by (auto simp: tree_ok_def)
    then have "node_ok (spt_AdjNode (es ! p))" using less by (simp add: came_from_def)
    then show ?thesis using adj_ends [of "spt_AdjNode (es ! p)" st] c by (auto simp: came_from_def)
  qed
qed

text \<open>The weight of a step from an entry.\<close>

lemma step_ok:
  assumes "tree_ok from' es" "p < length es" "st \<in> set (adj (spt_AdjNode (es ! p)))"
  shows "wf64 (wt (spt_Edge (es ! p)) st)" "fnonneg (wt (spt_Edge (es ! p)) st)"
    "\<not> edge_based \<Longrightarrow> wt (spt_Edge (es ! p)) st = wt noEdge st"
proof -
  note n = tree_node [OF assms(1,2)]
  have "wf64 (wt (spt_Edge (es ! p)) st) \<and> fnonneg (wt (spt_Edge (es ! p)) st) \<and>
    (\<not> edge_based \<longrightarrow> wt (spt_Edge (es ! p)) st = wt noEdge st)"
  proof (cases "p = 0")
    case True
    then show ?thesis using assms wt_first [OF n assms(3)] by (simp add: tree_ok_def)
  next
    case False
    then obtain r st' where c: "came_from es p r st'" using assms(1,2) by (auto simp: tree_ok_def)
    then have r: "node_ok (spt_AdjNode (es ! r))" using assms(2) by (intro tree_node [OF assms(1)]) (simp add: came_from_def)
    show ?thesis using wt_next [OF n assms(3) r, of st'] c by (simp add: came_from_def)
  qed
  then show "wf64 (wt (spt_Edge (es ! p)) st)" "fnonneg (wt (spt_Edge (es ! p)) st)"
    "\<not> edge_based \<Longrightarrow> wt (spt_Edge (es ! p)) st = wt noEdge st" by blast+
qed

lemma tree_weight:
  assumes "tree_ok from' es" "q < length es"
  shows "wf64 (spt_Weight (es ! q))" "fnonneg (spt_Weight (es ! q))" "spt_Weight (es ! q) \<noteq> NaN"
    "spt_Weight (es ! q) \<noteq> PInf"
proof -
  have "wf64 (spt_Weight (es ! q)) \<and> fnonneg (spt_Weight (es ! q))"
    using assms(2)
  proof (induction q rule: less_induct)
    case (less q)
    show ?case
    proof (cases "q = 0")
      case True
      then show ?thesis using assms(1) by (simp add: tree_ok_def)
    next
      case False
      then obtain p st where c: "came_from es q p st" using assms(1) less.prems by (auto simp: tree_ok_def)
      then have p: "p < q" "p < length es" using less.prems by (auto simp: came_from_def)
      then show ?thesis
        using c step_ok [OF assms(1) p(2), of st] less.IH [OF p] by (auto simp: came_from_def fnonneg_fadd)
    qed
  qed
  then show "wf64 (spt_Weight (es ! q))" "fnonneg (spt_Weight (es ! q))" "spt_Weight (es ! q) \<noteq> NaN"
    "spt_Weight (es ! q) \<noteq> PInf" using assms by (auto simp: tree_ok_def)
qed

text \<open>A step does not lower the weight.\<close>

lemma step_inflates:
  assumes "tree_ok from' es" "p < length es" "st \<in> set (adj (spt_AdjNode (es ! p)))"
  shows "flt_le (spt_Weight (es ! p)) (fadd (wt (spt_Edge (es ! p)) st) (spt_Weight (es ! p)))"
  using fadd_inflate [OF tree_weight(1,2) [OF assms(1,2)] step_ok(2) [OF assms]] by (simp add: fadd_commute)

section \<open>The invariant\<close>

text \<open>
  \<open>es\<close>, \<open>M\<close> and \<open>h\<close> are the store, the map from traversal ids and the heap; \<open>todo\<close> are the steps of settled
  entries that are still to be relaxed, \<open>B\<close> separates the settled weights from those in the heap.
\<close>

definition mapped :: "int \<Rightarrow> spt_store \<Rightarrow> (int \<Rightarrow> nat option) \<Rightarrow> bool" where
  "mapped from' es M \<longleftrightarrow>
     (\<forall>t q. M t = Some q \<longrightarrow> q < length es \<and> \<not> Deleted (es ! q) \<and>
        ((q = 0 \<and> \<not> edge_based \<and> t = from') \<or> (\<exists>p st. came_from es q p st \<and> tid st = t))) \<and>
     (\<forall>q < length es. \<not> Deleted (es ! q) \<and> (q \<noteq> 0 \<or> \<not> edge_based) \<longrightarrow> (\<exists>t. M t = Some q)) \<and>
     (\<forall>q < length es. Deleted (es ! q) \<longrightarrow>
        (\<exists>q' t. M t = Some q' \<and> spt_AdjNode (es ! q') = spt_AdjNode (es ! q)))"

definition relaxed :: "spt_store \<Rightarrow> (int \<Rightarrow> nat option) \<Rightarrow> nat \<Rightarrow> edge_state \<Rightarrow> bool" where
  "relaxed es M s st \<longleftrightarrow>
     (let c = fadd (wt (spt_Edge (es ! s)) st) (spt_Weight (es ! s)) in
      (edge_based \<or> EdgeID st \<noteq> spt_Edge (es ! s)) \<and> c \<noteq> PInf \<longrightarrow>
      (\<exists>q. M (tid st) = Some q \<and> flt_le (spt_Weight (es ! q)) c))"

definition search_inv ::
    "int \<Rightarrow> spt_store \<Rightarrow> (int \<Rightarrow> nat option) \<Rightarrow> nat list \<Rightarrow> (nat \<times> edge_state) set \<Rightarrow> flt \<Rightarrow> bool" where
  "search_inv from' es M h todo B \<longleftrightarrow> tree_ok from' es \<and> distinct h \<and> set h \<subseteq> {..<length es} \<and>
     is_heap (spt_Less es) (length h) h \<and> \<not> Deleted (es ! 0) \<and> mapped from' es M \<and>
     (\<forall>q. settled es h q \<longrightarrow> flt_le (spt_Weight (es ! q)) B) \<and>
     (\<forall>r \<in> set h. flt_le B (spt_Weight (es ! r))) \<and>
     (\<forall>q p st. came_from es q p st \<longrightarrow> settled es h p) \<and>
     (\<forall>s st. settled es h s \<and> st \<in> set (adj (spt_AdjNode (es ! s))) \<and> (s, st) \<notin> todo \<longrightarrow> relaxed es M s st)"

lemma search_invD:
  assumes "search_inv from' es M h todo B"
  shows "tree_ok from' es" "distinct h" "r \<in> set h \<Longrightarrow> r < length es" "is_heap (spt_Less es) (length h) h"
    "\<not> Deleted (es ! 0)" "mapped from' es M" "settled es h q \<Longrightarrow> flt_le (spt_Weight (es ! q)) B"
    "r \<in> set h \<Longrightarrow> flt_le B (spt_Weight (es ! r))" "came_from es q p st \<Longrightarrow> settled es h p"
    "settled es h s \<Longrightarrow> st \<in> set (adj (spt_AdjNode (es ! s))) \<Longrightarrow> (s, st) \<notin> todo \<Longrightarrow> relaxed es M s st"
  using assms unfolding search_inv_def by blast+

lemma mappedD:
  assumes "mapped from' es M"
  shows "M t = Some q \<Longrightarrow> q < length es" "M t = Some q \<Longrightarrow> \<not> Deleted (es ! q)"
    "M t = Some q \<Longrightarrow> (q = 0 \<and> \<not> edge_based \<and> t = from') \<or> (\<exists>p st. came_from es q p st \<and> tid st = t)"
    "q < length es \<Longrightarrow> \<not> Deleted (es ! q) \<Longrightarrow> q \<noteq> 0 \<or> \<not> edge_based \<Longrightarrow> \<exists>t. M t = Some q"
    "q < length es \<Longrightarrow> Deleted (es ! q) \<Longrightarrow> \<exists>q' t. M t = Some q' \<and> spt_AdjNode (es ! q') = spt_AdjNode (es ! q)"
  using assms unfolding mapped_def by blast+

lemma mapped_inj:
  assumes "tree_ok from' es" "mapped from' es M" "M t = Some q" "M t' = Some q"
  shows "t = t'"
proof (cases "q = 0")
  case True
  then have "\<not> came_from es q p st" for p st by (simp add: came_from_def)
  then show ?thesis using mappedD(3) [OF assms(2,3)] mappedD(3) [OF assms(2,4)] by blast
next
  case False
  then obtain p st p' st' where c: "came_from es q p st" "tid st = t" "came_from es q p' st'" "tid st' = t'"
    using mappedD(3) [OF assms(2,3)] mappedD(3) [OF assms(2,4)] by blast
  have p: "p' = p" "p < length es" using c by (auto simp: came_from_def)
  have "st = st'" by (rule adj_inj [OF tree_node [OF assms(1) p(2)]]) (use c p in \<open>auto simp: came_from_def\<close>)
  then show ?thesis using c by simp
qed

text \<open>The best entry of an id is at the node of every state with this id.\<close>

lemma mapped_node:
  assumes "tree_ok from' es" "mapped from' es M" "M (tid st) = Some q" "node_ok n" "st \<in> set (adj n)"
  shows "spt_AdjNode (es ! q) = AdjNode st" "edge_based \<Longrightarrow> spt_Edge (es ! q) = EdgeID st"
proof -
  from mappedD(3) [OF assms(2,3)]
  have "spt_AdjNode (es ! q) = AdjNode st \<and> (edge_based \<longrightarrow> spt_Edge (es ! q) = EdgeID st)"
  proof (elim disjE exE conjE)
    fix p st' assume c: "came_from es q p st'" "tid st' = tid st"
    have p: "node_ok (spt_AdjNode (es ! p))" by (rule tree_node [OF assms(1)]) (use c in \<open>simp add: came_from_def\<close>)
    have st': "st' \<in> set (adj (spt_AdjNode (es ! p)))" "AdjNode st' = spt_AdjNode (es ! q)" "EdgeID st' = spt_Edge (es ! q)"
      using c by (simp_all add: came_from_def)
    show ?thesis
      using tid_adj [OF p assms(4) st'(1) assms(5) c(2)] tid_edge [OF _ p assms(4) st'(1) assms(5) c(2)] st' by auto
  qed (use assms(1) tid_node in \<open>auto simp: tree_ok_def\<close>)
  then show "spt_AdjNode (es ! q) = AdjNode st" "edge_based \<Longrightarrow> spt_Edge (es ! q) = EdgeID st" by auto
qed

section \<open>Relaxing a step\<close>

lemma inv_todo:
  assumes "search_inv from' es M h todo B" "\<And>s st. (s, st) \<in> todo \<Longrightarrow> (s, st) \<notin> todo' \<Longrightarrow> settled es h s \<Longrightarrow>
    st \<in> set (adj (spt_AdjNode (es ! s))) \<Longrightarrow> relaxed es M s st"
  shows "search_inv from' es M h todo' B"
  using assms unfolding search_inv_def by blast

text \<open>
  The step of settled entry \<open>p\<close> along \<open>st\<close> has weight \<open>c\<close> and improves: the entry it replaces, if any, is
  marked, and a new entry is pushed.
\<close>

definition step_weight_of :: "spt_store \<Rightarrow> nat \<Rightarrow> edge_state \<Rightarrow> flt" where
  "step_weight_of es p st = fadd (wt (spt_Edge (es ! p)) st) (spt_Weight (es ! p))"

definition step_entry :: "spt_store \<Rightarrow> nat \<Rightarrow> edge_state \<Rightarrow> spt_entry" where
  "step_entry es p st = NewSPTEntryFull (EdgeID st) (AdjNode st) (step_weight_of es p st) (Some p)"

definition replaced :: "spt_store \<Rightarrow> nat option \<Rightarrow> spt_store" where
  "replaced es r = (case r of None \<Rightarrow> es | Some q \<Rightarrow> mark_deleted q es)"

lemma later_replaced [simp]: "later es (replaced es r)" "length (replaced es r) = length es"
  by (auto simp: replaced_def later_def split: option.split simp del: later_mark)
    (metis later_mark later_def length_mark)

lemma Deleted_replaced: "q < length es \<Longrightarrow> Deleted (replaced es r ! q) \<longleftrightarrow> Deleted (es ! q) \<or> r = Some q"
  by (auto simp: replaced_def Deleted_mark split: option.split)

definition improves :: "spt_store \<Rightarrow> (int \<Rightarrow> nat option) \<Rightarrow> nat list \<Rightarrow> nat \<Rightarrow> edge_state \<Rightarrow> bool" where
  "improves es M h p st \<longleftrightarrow> settled es h p \<and> st \<in> set (adj (spt_AdjNode (es ! p))) \<and>
     step_weight_of es p st \<noteq> PInf \<and>
     (\<forall>q. M (tid st) = Some q \<longrightarrow> flt_less (step_weight_of es p st) (spt_Weight (es ! q)))"

lemma step_entry_sel [simp]: "spt_Edge (step_entry es p st) = EdgeID st" "spt_AdjNode (step_entry es p st) = AdjNode st"
  "spt_Weight (step_entry es p st) = step_weight_of es p st" "spt_Parent (step_entry es p st) = Some p"
  "\<not> Deleted (step_entry es p st)"
  by (simp_all add: step_entry_def NewSPTEntryFull_def)

lemma improves_tree:
  assumes t: "tree_ok from' es" and i: "improves es M h p st"
  defines "es' \<equiv> replaced es (M (tid st)) @ [step_entry es p st]"
  shows "later es es'" "length es' = Suc (length es)" "es' ! length es = step_entry es p st"
    "came_from es' (length es) p st" "tree_ok from' es'" "q < length es \<Longrightarrow> Deleted (es' ! q) \<longleftrightarrow> Deleted (es ! q) \<or> M (tid st) = Some q"
    "flt_le (spt_Weight (es ! p)) (step_weight_of es p st)"
proof -
  show l: "later es es'" unfolding es'_def by (rule later_trans [OF later_replaced(1) later_append])
  show len: "length es' = Suc (length es)" by (simp add: es'_def)
  show new: "es' ! length es = step_entry es p st"
    using later_replaced(2) [of es "M (tid st)"] by (metis es'_def nth_append_length)
  have p: "p < length es" "st \<in> set (adj (spt_AdjNode (es ! p)))" "step_weight_of es p st \<noteq> PInf"
    using i by (simp_all add: improves_def settled_def)
  show c: "came_from es' (length es) p st"
    using p new len later_fields [OF l p(1)] by (simp add: came_from_def step_weight_of_def)
  show "q < length es \<Longrightarrow> Deleted (es' ! q) \<longleftrightarrow> Deleted (es ! q) \<or> M (tid st) = Some q"
    by (simp add: es'_def nth_append Deleted_replaced)
  show "flt_le (spt_Weight (es ! p)) (step_weight_of es p st)"
    using step_inflates [OF t p(1,2)] by (simp add: step_weight_of_def)
  have 0: "0 < length es" using t by (simp add: tree_ok_def)
  have "\<exists>p st. came_from es' q p st" if "0 < q" "q < length es'" for q
  proof (cases "q = length es")
    case False
    then have "q < length es" using that(2) len by simp
    then have "\<exists>p st. came_from es q p st" using t that(1) by (simp add: tree_ok_def)
    then show ?thesis using came_from_later [OF l] by blast
  qed (use c in blast)
  moreover have "spt_Weight (es' ! q) \<noteq> PInf" if "q < length es'" for q
    using that len new p t later_fields [OF l, of q] by (cases "q = length es") (auto simp: tree_ok_def)
  ultimately show "tree_ok from' es'" using t later_fields [OF l 0] len by (simp add: tree_ok_def) force
qed

lemma improved_in_heap:
  assumes inv: "search_inv from' es M h todo (spt_Weight (es ! p))" and i: "improves es M h p st" and q: "M (tid st) = Some q"
  shows "q \<in> set h" "q \<noteq> 0" "q \<noteq> p"
proof -
  note I = search_invD [OF inv]
  have p: "p < length es" "st \<in> set (adj (spt_AdjNode (es ! p)))" using i by (simp_all add: improves_def settled_def)
  have lt: "flt_less (step_weight_of es p st) (spt_Weight (es ! q))" using i q by (simp add: improves_def)
  have up: "flt_le (spt_Weight (es ! p)) (step_weight_of es p st)" by (rule improves_tree(7) [OF I(1) i])
  have ql: "q < length es" "\<not> Deleted (es ! q)" using mappedD(1,2) [OF I(6) q] .
  show "q \<in> set h"
  proof (rule ccontr)
    assume "q \<notin> set h"
    then have "settled es h q" using ql by (simp add: settled_def)
    then show False using I(7) up lt flt_le_trans unfolding flt_less_iff by blast
  qed
  show "q \<noteq> p" using up lt unfolding flt_less_iff by blast
  have "fnonneg (step_weight_of es p st)" using flt_le_trans [OF tree_weight(2) [OF I(1) p(1)] up] .
  then have "\<not> flt_less (step_weight_of es p st) (spt_Weight (es ! 0))"
    using I(1) by (simp add: flt_less_iff tree_ok_def)
  then show "q \<noteq> 0" using lt by (cases "q = 0") auto
qed

lemma improves_mapped:
  assumes inv: "search_inv from' es M h todo (spt_Weight (es ! p))" and i: "improves es M h p st"
  defines "es' \<equiv> replaced es (M (tid st)) @ [step_entry es p st]"
  shows "mapped from' es' (M(tid st := Some (length es)))"
proof -
  note I = search_invD [OF inv]
  note T = improves_tree [OF I(1) i, folded es'_def]
  let ?n = "length es" and ?M = "M(tid st := Some (length es))"
  have p: "p < length es" "st \<in> set (adj (spt_AdjNode (es ! p)))" using i by (simp_all add: improves_def settled_def)
  have other: "M (tid st) \<noteq> Some q" if "M t = Some q" "t \<noteq> tid st" for t q
    using mapped_inj [OF I(1,6) that(1)] that(2) by blast
  have old: "spt_AdjNode (es' ! q) = spt_AdjNode (es ! q)" if "q < ?n" for q using later_fields [OF T(1) that] by simp
  have "q < length es' \<and> \<not> Deleted (es' ! q) \<and>
      ((q = 0 \<and> \<not> edge_based \<and> t = from') \<or> (\<exists>p st. came_from es' q p st \<and> tid st = t))"
    if "?M t = Some q" for t q
  proof (cases "t = tid st")
    case True
    then show ?thesis using that T(2,3,4) by auto
  next
    case False
    then have m: "M t = Some q" using that by simp
    show ?thesis
      using mappedD(1-3) [OF I(6) m] other [OF m False] T(2,6) came_from_later [OF T(1)] by fastforce
  qed
  moreover have "\<exists>t. ?M t = Some q" if "q < length es'" "\<not> Deleted (es' ! q)" "q \<noteq> 0 \<or> \<not> edge_based" for q
  proof (cases "q = ?n")
    case False
    then have q: "q < ?n" using that(1) T(2) by simp
    then have nd: "\<not> Deleted (es ! q)" "M (tid st) \<noteq> Some q" using T(6) [OF q] that(2) by blast+
    from mappedD(4) [OF I(6) q nd(1) that(3)] obtain t where t: "M t = Some q" ..
    then have "t \<noteq> tid st" using nd(2) by auto
    then show ?thesis using t by (intro exI [of _ t]) simp
  qed auto
  moreover have "\<exists>q' t. ?M t = Some q' \<and> spt_AdjNode (es' ! q') = spt_AdjNode (es' ! q)"
    if q: "q < length es'" "Deleted (es' ! q)" for q
  proof -
    have qn: "q < ?n" using q T(2,3) by (cases "q = ?n") (simp_all add: less_Suc_eq)
    have new: "spt_AdjNode (es' ! ?n) = spt_AdjNode (es ! q')" if "M (tid st) = Some q'" for q'
      using mapped_node(1) [OF I(1,6) that tree_node [OF I(1) p(1)] p(2)] T(3) by simp
    show ?thesis
    proof (cases "M (tid st) = Some q")
      case True
      then show ?thesis using new [OF True] old [OF qn] by (intro exI [of _ ?n] exI [of _ "tid st"]) simp
    next
      case False
      then obtain q' t where m: "M t = Some q'" "spt_AdjNode (es ! q') = spt_AdjNode (es ! q)"
        using mappedD(5) [OF I(6) qn] q T(6) [OF qn] by auto
      show ?thesis
      proof (cases "t = tid st")
        case True
        then show ?thesis using new [of q'] m old [OF qn] by (intro exI [of _ ?n] exI [of _ "tid st"]) simp
      next
        case False
        then show ?thesis using m old [OF qn] old [OF mappedD(1) [OF I(6) m(1)]] by (intro exI [of _ q'] exI [of _ t]) simp
      qed
    qed
  qed
  ultimately show ?thesis unfolding mapped_def by blast
qed

lemma improves_settled:
  assumes inv: "search_inv from' es M h todo (spt_Weight (es ! p))" and i: "improves es M h p st"
  defines "es' \<equiv> replaced es (M (tid st)) @ [step_entry es p st]"
  shows "settled es' (spt_Push es' (length es) h) q \<longleftrightarrow> settled es h q"
proof -
  note I = search_invD [OF inv]
  note T = improves_tree [OF I(1) i, folded es'_def]
  have s: "set (spt_Push es' (length es) h) = insert (length es) (set h)"
    using mset_heap_Push [of "spt_Less es'" "length es" h] by (metis spt_Push_def set_mset_add_mset_insert set_mset_mset)
  show ?thesis
    using T(2) T(6) [of q] improved_in_heap(1) [OF inv i, of q] by (auto simp: settled_def s less_Suc_eq)
qed

lemma relax_push:
  assumes inv: "search_inv from' es M h todo (spt_Weight (es ! p))" and i: "improves es M h p st"
  defines "es' \<equiv> replaced es (M (tid st)) @ [step_entry es p st]"
  shows "search_inv from' es' (M(tid st := Some (length es))) (spt_Push es' (length es) h) (todo - {(p, st)}) (spt_Weight (es ! p))"
proof -
  note I = search_invD [OF inv]
  note T = improves_tree [OF I(1) i, folded es'_def]
  note S = improves_settled [OF inv i, folded es'_def]
  let ?n = "length es" and ?M = "M(tid st := Some (length es))" and ?h = "spt_Push es' (length es) h"
  have ms: "mset ?h = add_mset ?n (mset h)" by (simp add: spt_Push_def)
  then have s: "set ?h = insert ?n (set h)" by (metis set_mset_add_mset_insert set_mset_mset)
  have W: "spt_Weight (es' ! q) = spt_Weight (es ! q)" if "q < ?n" for q using later_fields [OF T(1) that] by simp
  have hp: "is_heap (spt_Less es') (length h) h"
    using I(3,4) by (subst is_heap_cong [of h _ "spt_Less es"]) (auto simp: spt_Less_def W)
  have "is_heap (spt_Less es') (length ?h) ?h"
    unfolding spt_Push_def
    by (rule spt.Push_heap [OF hp]) (use tree_weight(3) [OF T(5)] I(3) T(2) in \<open>fastforce simp: less_Suc_eq\<close>)+
  moreover have "distinct ?h"
    using I(2,3) ms by (metis distinct_count_atmost_1 distinct.simps(2) mset.simps(2) nat_neq_iff mset_eq_imp_distinct_iff)
  moreover have "set ?h \<subseteq> {..<length es'}" using I(3) T(2) s by (auto simp: less_Suc_eq)
  moreover have "\<not> Deleted (es' ! 0)"
  proof -
    have "0 < ?n" using I(1) by (simp add: tree_ok_def)
    then show ?thesis using T(6) [of 0] I(5) improved_in_heap(2) [OF inv i, of 0] by blast
  qed
  moreover have "flt_le (spt_Weight (es' ! q)) (spt_Weight (es ! p))" if "settled es' ?h q" for q
    using that I(7) W unfolding S by (simp add: settled_def)
  moreover have "flt_le (spt_Weight (es ! p)) (spt_Weight (es' ! r))" if "r \<in> set ?h" for r
    using that I(3,8) W T(3,7) unfolding s by auto
  moreover have "settled es' ?h r" if c: "came_from es' q r st'" for q r st'
  proof (cases "q = ?n")
    case True
    then have "r = p" using c T(4) by (simp add: came_from_def)
    then show ?thesis using i unfolding S by (simp add: improves_def)
  next
    case False
    then have "q < ?n" using c T(2) by (simp add: came_from_def)
    then show ?thesis using I(9) came_from_before [OF T(1) _ c] unfolding S by blast
  qed
  moreover have "relaxed es' ?M r st'"
    if r: "settled es' ?h r" "st' \<in> set (adj (spt_AdjNode (es' ! r)))" "(r, st') \<notin> todo - {(p, st)}" for r st'
  proof -
    have rs: "settled es h r" using r(1) unfolding S .
    then have rn: "r < ?n" by (simp add: settled_def)
    note F = later_fields [OF T(1) rn]
    have p: "p < ?n" using i by (simp add: improves_def settled_def)
    have cw: "fadd (wt (spt_Edge (es' ! r)) st') (spt_Weight (es' ! r)) = step_weight_of es r st'"
      by (simp add: F step_weight_of_def)
    show ?thesis
    proof (cases "r = p \<and> st' = st")
      case True
      have "step_weight_of es p st \<noteq> NaN" using T(7) by auto
      then show ?thesis using True T(3) cw by (simp add: relaxed_def)
    next
      case False
      then have old: "relaxed es M r st'" using I(10) [OF rs] r F by auto
      show ?thesis
        unfolding relaxed_def Let_def cw
      proof (intro impI, elim conjE)
        assume a: "edge_based \<or> EdgeID st' \<noteq> spt_Edge (es' ! r)" "step_weight_of es r st' \<noteq> PInf"
        then obtain q where q: "M (tid st') = Some q" "flt_le (spt_Weight (es ! q)) (step_weight_of es r st')"
          using old F by (auto simp: relaxed_def step_weight_of_def)
        show "\<exists>q. ?M (tid st') = Some q \<and> flt_le (spt_Weight (es' ! q)) (step_weight_of es r st')"
        proof (cases "tid st' = tid st")
          case True
          then have "flt_less (step_weight_of es p st) (spt_Weight (es ! q))" using q i by (simp add: improves_def)
          then have "flt_le (step_weight_of es p st) (step_weight_of es r st')"
            using q(2) flt_le_trans unfolding flt_less_iff by blast
          then show ?thesis using True T(3) by simp
        next
          case False
          then show ?thesis using q W [OF mappedD(1) [OF I(6) q(1)]] by auto
        qed
      qed
    qed
  qed
  moreover have "mapped from' es' ?M" unfolding es'_def by (rule improves_mapped [OF inv i])
  ultimately show ?thesis using T(5) unfolding search_inv_def by blast
qed

text \<open>The other outcomes of a step leave the state as it is.\<close>

lemma relax_skip:
  assumes inv: "search_inv from' es M h todo B" and p: "settled es h p" "st \<in> set (adj (spt_AdjNode (es ! p)))"
    and c: "\<not> (edge_based \<or> EdgeID st \<noteq> spt_Edge (es ! p)) \<or> step_weight_of es p st = PInf \<or>
      (\<exists>q. M (tid st) = Some q \<and> \<not> flt_less (step_weight_of es p st) (spt_Weight (es ! q)))"
  shows "search_inv from' es M h (todo - {(p, st)}) B"
proof (rule inv_todo [OF inv])
  fix s st' assume *: "(s, st') \<in> todo" "(s, st') \<notin> todo - {(p, st)}"
  note I = search_invD [OF inv]
  have pl: "p < length es" using p by (simp add: settled_def)
  have "step_weight_of es p st \<noteq> NaN"
    using step_inflates [OF I(1) pl p(2)] by (auto simp: step_weight_of_def)
  moreover have "spt_Weight (es ! q) \<noteq> NaN" if "M (tid st) = Some q" for q
    using tree_weight(3) [OF I(1) mappedD(1) [OF I(6) that]] .
  moreover have "s = p" "st' = st" using * by auto
  ultimately show "relaxed es M s st'"
    using c by (auto simp: relaxed_def step_weight_of_def [symmetric] Let_def flt_not_less)
qed

section \<open>Taking an entry from the heap\<close>

lemma pop_least:
  assumes inv: "search_inv from' es M h {} B" and h: "h \<noteq> []"
  obtains u h' where "spt_Pop es h = Some (u, h')" "mset h = add_mset u (mset h')" "u < length es"
    "set h = insert u (set h')" "u \<notin> set h'" "distinct h'" "is_heap (spt_Less es) (length h') h'"
    "\<forall>r \<in> set h. flt_le (spt_Weight (es ! u)) (spt_Weight (es ! r))"
proof -
  note I = search_invD [OF inv]
  have nan: "\<forall>y \<in> set h. spt_Weight (es ! y) \<noteq> NaN" using tree_weight(3) [OF I(1)] I(3) by blast
  obtain u h' where p: "heap_Pop (spt_Less es) h = Some (u, h')" "mset h = add_mset u (mset h')"
    "\<forall>y \<in> set h. \<not> spt_Less es y u" "is_heap (spt_Less es) (length h') h'"
    using spt.Pop_heap [OF I(4) nan h] by blast
  have s: "set h = insert u (set h')" using p(2) by (metis set_mset_add_mset_insert set_mset_mset)
  have "distinct (u # h')" using I(2) p(2) by (metis mset.simps(2) mset_eq_imp_distinct_iff)
  moreover have "flt_le (spt_Weight (es ! u)) (spt_Weight (es ! r))" if "r \<in> set h" for r
    using p(3) that nan s by (auto simp: spt_Less_def flt_not_less)
  moreover have "u < length es" using I(3) s by simp
  ultimately show ?thesis using that [of u h'] p s by (auto simp: spt_Pop_def)
qed

lemma pop_deleted:
  assumes inv: "search_inv from' es M h {} B" and p: "spt_Pop es h = Some (u, h')" and h: "h \<noteq> []"
    and d: "Deleted (es ! u)"
  shows "search_inv from' es M h' {} B" "settled es h' q = settled es h q" "length h' < length h"
proof -
  obtain u' h'' where P: "spt_Pop es h = Some (u', h'')" "mset h = add_mset u' (mset h'')" "u' < length es"
    "set h = insert u' (set h'')" "u' \<notin> set h''" "distinct h''" "is_heap (spt_Less es) (length h'') h''"
    by (rule pop_least [OF inv h])
  then have e: "u' = u" "h'' = h'" using p by simp_all
  have st: "settled es h' q = settled es h q" for q using P(4) d unfolding e by (auto simp: settled_def)
  then show "settled es h' q = settled es h q" .
  show "search_inv from' es M h' {} B"
    using inv P(4,6,7) unfolding e search_inv_def st by auto
  show "length h' < length h" using P(2) unfolding e by (metis size_mset size_add_mset lessI)
qed

lemma pop_settles:
  assumes inv: "search_inv from' es M h {} B" and p: "spt_Pop es h = Some (u, h')" and h: "h \<noteq> []"
    and d: "\<not> Deleted (es ! u)"
  shows "search_inv from' es M h' ({u} \<times> set (adj (spt_AdjNode (es ! u)))) (spt_Weight (es ! u))"
    "settled es h' q \<longleftrightarrow> settled es h q \<or> q = u" "\<not> settled es h u" "u < length es"
    "\<forall>r \<in> set h. flt_le (spt_Weight (es ! u)) (spt_Weight (es ! r))"
proof -
  note I = search_invD [OF inv]
  obtain u' h'' where P: "spt_Pop es h = Some (u', h'')" "mset h = add_mset u' (mset h'')" "u' < length es"
    "set h = insert u' (set h'')" "u' \<notin> set h''" "distinct h''" "is_heap (spt_Less es) (length h'') h''"
    "\<forall>r \<in> set h. flt_le (spt_Weight (es ! u')) (spt_Weight (es ! r))"
    by (rule pop_least [OF inv h])
  then have e: "u' = u" "h'' = h'" using p by simp_all
  note P = P [unfolded e]
  have st: "settled es h' q \<longleftrightarrow> settled es h q \<or> q = u" for q using P(3,4,5) d by (auto simp: settled_def)
  then show "settled es h' q \<longleftrightarrow> settled es h q \<or> q = u" .
  show "\<not> settled es h u" using P(4) by (simp add: settled_def)
  show "u < length es" "\<forall>r \<in> set h. flt_le (spt_Weight (es ! u)) (spt_Weight (es ! r))" by (rule P(3)) (rule P(8))
  have "flt_le (spt_Weight (es ! q)) (spt_Weight (es ! u))" if "settled es h' q" for q
    using that I(7) [of q] I(8) [of u] P(4) tree_weight(3) [OF I(1) P(3)] flt_le_trans unfolding st by auto
  moreover have "(q, st') \<notin> {u} \<times> set (adj (spt_AdjNode (es ! u))) \<Longrightarrow> settled es h' q \<Longrightarrow>
      st' \<in> set (adj (spt_AdjNode (es ! q))) \<Longrightarrow> relaxed es M q st'" for q st'
    using I(10) [of q st'] unfolding st by auto
  moreover have "came_from es q p st' \<Longrightarrow> settled es h' p" for q p st'
    using I(9) unfolding st by blast
  moreover have "set h' \<subseteq> {..<length es}" "\<forall>r \<in> set h'. flt_le (spt_Weight (es ! u)) (spt_Weight (es ! r))"
    using I(3) P(4,8) by auto
  ultimately show "search_inv from' es M h' ({u} \<times> set (adj (spt_AdjNode (es ! u)))) (spt_Weight (es ! u))"
    unfolding search_inv_def using I(1,5,6) P(6,7) by blast
qed

section \<open>Start, walks and counts\<close>

lemma search_start:
  assumes "node_ok from'"
  shows "search_inv from' [NewSPTEntry from' (Fin 0)] (if edge_based then (\<lambda>_. None) else (\<lambda>_. None)(from' := Some 0))
      [0] {} (Fin 0)"
    "\<not> settled [NewSPTEntry from' (Fin 0)] [0] q"
proof -
  have nc: "\<not> came_from [NewSPTEntry from' (Fin 0)] q p st" for q p st
    by (cases q) (auto simp: came_from_def)
  show ns: "\<not> settled [NewSPTEntry from' (Fin 0)] [0] q" for q by (auto simp: settled_def)
  show "search_inv from' [NewSPTEntry from' (Fin 0)] (if edge_based then (\<lambda>_. None) else (\<lambda>_. None)(from' := Some 0))
      [0] {} (Fin 0)"
    using assms nc ns unfolding search_inv_def
    by (auto simp: tree_ok_def is_heap_def mapped_def NewSPTEntry_def)
qed

text \<open>Every entry stands for a walk from the start with its weight.\<close>

lemma entry_walk:
  assumes t: "tree_ok from' es" and q: "q < length es"
  shows "\<exists>ws. walk adj from' ws \<and> walk_end from' ws = spt_AdjNode (es ! q) \<and> last_edge noEdge ws = spt_Edge (es ! q) \<and>
    walk_weight wt noEdge (Fin 0) ws = spt_Weight (es ! q)"
  using q
proof (induction q rule: less_induct)
  case (less q)
  show ?case
  proof (cases "q = 0")
    case True
    then show ?thesis using t by (intro exI [of _ "[]"]) (simp add: tree_ok_def)
  next
    case False
    then obtain p st where c: "came_from es q p st" using t less.prems by (auto simp: tree_ok_def)
    then have p: "p < q" "p < length es" by (auto simp: came_from_def)
    from less.IH [OF p] obtain ws where "walk adj from' ws" "walk_end from' ws = spt_AdjNode (es ! p)"
      "last_edge noEdge ws = spt_Edge (es ! p)" "walk_weight wt noEdge (Fin 0) ws = spt_Weight (es ! p)" by blast
    then show ?thesis using c by (intro exI [of _ "ws @ [st]"]) (simp add: came_from_def)
  qed
qed

lemma walk_node:
  assumes "node_ok from'" "walk adj from' ws"
  shows "node_ok (walk_end from' ws)"
  using assms(2)
proof (induction ws rule: rev_induct)
  case (snoc st ws)
  then show ?case using adj_ends [of "walk_end from' ws" st] by simp
qed (simp add: assms(1))

lemma walk_step_ok:
  assumes "node_ok from'" "walk adj from' (ws @ [st])"
  shows "fnonneg (wt (last_edge noEdge ws) st)" "wf64 (wt (last_edge noEdge ws) st)"
    "\<not> edge_based \<Longrightarrow> wt (last_edge noEdge ws) st = wt noEdge st"
proof -
  have n: "node_ok (walk_end from' ws)" "st \<in> set (adj (walk_end from' ws))"
    using walk_node [OF assms(1)] assms(2) by simp_all
  have "fnonneg (wt (last_edge noEdge ws) st) \<and> wf64 (wt (last_edge noEdge ws) st) \<and>
    (\<not> edge_based \<longrightarrow> wt (last_edge noEdge ws) st = wt noEdge st)"
  proof (cases ws rule: rev_cases)
    case Nil
    then show ?thesis using wt_first [OF n] by simp
  next
    case (snoc ws' st')
    have "walk adj from' (ws' @ [st'])" using assms(2) unfolding snoc walk_snoc by blast
    then have w: "walk adj from' ws'" "st' \<in> set (adj (walk_end from' ws'))" by simp_all
    show ?thesis using wt_next [OF n walk_node [OF assms(1) w(1)] w(2)] unfolding snoc by simp
  qed
  then show "fnonneg (wt (last_edge noEdge ws) st)" "wf64 (wt (last_edge noEdge ws) st)"
    "\<not> edge_based \<Longrightarrow> wt (last_edge noEdge ws) st = wt noEdge st" by blast+
qed

lemma walk_weight_ok:
  assumes "node_ok from'" "walk adj from' ws"
  shows "wf64 (walk_weight wt noEdge (Fin 0) ws) \<and> fnonneg (walk_weight wt noEdge (Fin 0) ws)"
  using assms(2)
proof (induction ws rule: rev_induct)
  case (snoc st ws)
  then show ?case using walk_step_ok [OF assms(1) snoc.prems] by (simp add: fnonneg_fadd)
qed simp

text \<open>
  A walk of finite weight \<open>c\<close> is either dominated by a settled entry at its end, or by an entry that is still
  in the heap.
\<close>

definition covered :: "int \<Rightarrow> spt_store \<Rightarrow> nat list \<Rightarrow> edge_state list \<Rightarrow> flt \<Rightarrow> bool" where
  "covered from' es h ws c \<longleftrightarrow>
     (\<exists>s. settled es h s \<and> spt_AdjNode (es ! s) = walk_end from' ws \<and>
        (edge_based \<longrightarrow> spt_Edge (es ! s) = last_edge noEdge ws) \<and> flt_le (spt_Weight (es ! s)) c) \<or>
     (\<exists>r \<in> set h. \<not> Deleted (es ! r) \<and> flt_le (spt_Weight (es ! r)) c)"

lemma covered_mono: "covered from' es h ws c \<Longrightarrow> flt_le c c' \<Longrightarrow> covered from' es h ws c'"
  unfolding covered_def using flt_le_trans by blast

lemma turn_back:
  assumes inv: "search_inv from' es M h {} B" and s: "settled es h s"
    and st: "st \<in> set (adj (spt_AdjNode (es ! s)))" "EdgeID st = spt_Edge (es ! s)"
  shows "\<exists>r. settled es h r \<and> spt_AdjNode (es ! r) = AdjNode st \<and> flt_le (spt_Weight (es ! r)) (spt_Weight (es ! s))"
proof -
  note I = search_invD [OF inv]
  have sl: "s < length es" using s by (simp add: settled_def)
  have "0 \<le> EdgeID st" using adj_ends [OF tree_node [OF I(1) sl] st(1)] by simp
  then have "s \<noteq> 0" using I(1) st(2) by (cases "s = 0") (simp_all add: tree_ok_def)
  then obtain p st' where c: "came_from es s p st'" using I(1) sl by (auto simp: tree_ok_def)
  then have pl: "p < length es" by (simp add: came_from_def)
  have *: "(spt_AdjNode (es ! s) = spt_AdjNode (es ! p) \<and> AdjNode st = AdjNode st') \<or>
      (AdjNode st = spt_AdjNode (es ! p) \<and> AdjNode st' = spt_AdjNode (es ! s))"
    by (rule same_edge [OF tree_node [OF I(1) sl] tree_node [OF I(1) pl] st(1)]) (use c st(2) in \<open>simp_all add: came_from_def\<close>)
  have le: "flt_le (spt_Weight (es ! p)) (spt_Weight (es ! s))"
    using step_inflates [OF I(1) pl, of st'] c by (simp add: came_from_def)
  have AdjS: "AdjNode st' = spt_AdjNode (es ! s)" using c by (simp add: came_from_def)
  show ?thesis
  proof (cases "AdjNode st = spt_AdjNode (es ! p)")
    case True
    then show ?thesis using I(9) [OF c] le by auto
  next
    case False
    then show ?thesis using * s tree_weight(3) [OF I(1) sl] AdjS by auto
  qed
qed

lemma walk_covered:
  assumes inv: "search_inv from' es M h {} B" and w: "walk adj from' ws"
    and fin: "walk_weight wt noEdge (Fin 0) ws \<noteq> PInf"
  shows "covered from' es h ws (walk_weight wt noEdge (Fin 0) ws)"
  using w fin
proof (induction ws rule: rev_induct)
  case Nil
  note I = search_invD [OF inv]
  have "0 < length es" using I(1) by (simp add: tree_ok_def)
  moreover have "spt_AdjNode (es ! 0) = from'" "spt_Edge (es ! 0) = noEdge" "spt_Weight (es ! 0) = Fin 0"
    using I(1) by (simp_all add: tree_ok_def)
  ultimately show ?case
    using I(5) by (cases "0 \<in> set h") (auto simp: covered_def settled_def intro!: exI [of _ 0] bexI [of _ 0])
next
  case (snoc st ws)
  note I = search_invD [OF inv]
  let ?c = "walk_weight wt noEdge (Fin 0) ws" and ?v = "wt (last_edge noEdge ws) st"
  have from': "node_ok from'" using I(1) by (simp add: tree_ok_def)
  note v = walk_step_ok [OF from' snoc.prems(1)]
  have w: "walk adj from' ws" "st \<in> set (adj (walk_end from' ws))" using snoc.prems(1) by simp_all
  have c: "wf64 ?c" "fnonneg ?c" using walk_weight_ok [OF from' w(1)] by blast+
  have up: "flt_le ?c (fadd ?v ?c)" using fadd_inflate [OF c v(1)] by (simp add: fadd_commute)
  then have "?c \<noteq> PInf" using snoc.prems(2) by auto
  then consider (s) s where "settled es h s" "spt_AdjNode (es ! s) = walk_end from' ws"
      "edge_based \<longrightarrow> spt_Edge (es ! s) = last_edge noEdge ws" "flt_le (spt_Weight (es ! s)) ?c"
    | (r) "\<exists>r \<in> set h. \<not> Deleted (es ! r) \<and> flt_le (spt_Weight (es ! r)) ?c"
    using snoc.IH [OF w(1)] unfolding covered_def by blast
  then show ?case
  proof cases
    case r
    then show ?thesis using up flt_le_trans unfolding covered_def walk_weight_snoc by blast
  next
    case s
    have sl: "s < length es" using s(1) by (simp add: settled_def)
    have st: "st \<in> set (adj (spt_AdjNode (es ! s)))" using w(2) s(2) by simp
    have nn: "fnonneg (spt_Weight (es ! s))" by (rule tree_weight(2) [OF I(1) sl])
    have veq: "wt (spt_Edge (es ! s)) st = ?v"
      using v(3) s(3) step_ok(3) [OF I(1) sl st] by (cases edge_based) auto
    have le: "flt_le (fadd ?v (spt_Weight (es ! s))) (fadd ?v ?c)"
      using fadd_mono [OF nn v(1) s(4)] by (simp add: fadd_commute)
    show ?thesis
    proof (cases "edge_based \<or> EdgeID st \<noteq> spt_Edge (es ! s)")
      case True
      have "relaxed es M s st" using I(10) [OF s(1) st] by simp
      moreover have "fadd ?v (spt_Weight (es ! s)) \<noteq> PInf" using le snoc.prems(2) by auto
      ultimately obtain q where q: "M (tid st) = Some q" "flt_le (spt_Weight (es ! q)) (fadd ?v (spt_Weight (es ! s)))"
        using True by (auto simp: relaxed_def veq)
      note N = mapped_node [OF I(1,6) q(1) tree_node [OF I(1) sl] st]
      note Q = mappedD(1,2) [OF I(6) q(1)] flt_le_trans [OF q(2) le]
      show ?thesis
      proof (cases "q \<in> set h")
        case True
        then show ?thesis using Q unfolding covered_def walk_weight_snoc by blast
      next
        case False
        then have "settled es h q" using Q by (simp add: settled_def)
        then show ?thesis using N Q(3) unfolding covered_def walk_weight_snoc walk_end_snoc last_edge_simps by blast
      qed
    next
      case False
      then obtain r where "settled es h r" "spt_AdjNode (es ! r) = AdjNode st"
        "flt_le (spt_Weight (es ! r)) (spt_Weight (es ! s))" using turn_back [OF inv s(1) st] by blast
      moreover have "flt_le (spt_Weight (es ! s)) (fadd ?v ?c)" using s(4) up flt_le_trans by blast
      ultimately show ?thesis
        using False flt_le_trans unfolding covered_def walk_weight_snoc walk_end_snoc by blast
    qed
  qed
qed

lemma settled_bound:
  assumes inv: "search_inv from' es M h todo B" and fin: "finite T"
    and T: "from' \<in> T" "\<And>n st. node_ok n \<Longrightarrow> st \<in> set (adj n) \<Longrightarrow> tid st \<in> T"
  shows "finite {q. settled es h q}" "card {q. settled es h q} \<le> Suc (card T)"
proof -
  note I = search_invD [OF inv]
  have dom: "dom M \<subseteq> T"
  proof
    fix t assume "t \<in> dom M"
    then obtain q where m: "M t = Some q" by blast
    from mappedD(3) [OF I(6) m] show "t \<in> T"
    proof (elim disjE exE conjE)
      fix p st assume c: "came_from es q p st" "tid st = t"
      then have "node_ok (spt_AdjNode (es ! p))" by (intro tree_node [OF I(1)]) (simp add: came_from_def)
      then show ?thesis using T(2) [of "spt_AdjNode (es ! p)" st] c by (auto simp: came_from_def)
    qed (use T(1) in simp)
  qed
  have "{q. settled es h q} \<subseteq> insert 0 (the ` M ` T)"
  proof
    fix q assume "q \<in> {q. settled es h q}"
    then have q: "q < length es" "\<not> Deleted (es ! q)" by (simp_all add: settled_def)
    show "q \<in> insert 0 (the ` M ` T)"
    proof (cases "q = 0")
      case False
      then obtain t where "M t = Some q" using mappedD(4) [OF I(6) q] by blast
      then show ?thesis using dom by (force simp: image_iff intro!: bexI [of _ t])
    qed simp
  qed
  moreover have fA: "finite (the ` M ` T)" using fin by simp
  then have "finite (insert 0 (the ` M ` T))" "card (insert 0 (the ` M ` T)) \<le> Suc (card (the ` M ` T))"
    by (simp_all add: card_insert_if)
  moreover have "card (the ` M ` T) \<le> card T"
    using card_image_le [of "M ` T" the] card_image_le [OF fin, of M] fin by simp
  ultimately show "finite {q. settled es h q}" "card {q. settled es h q} \<le> Suc (card T)"
    using finite_subset card_mono le_trans Suc_le_mono by meson+
qed

end

end
