(* ===== verification/DijkstraRun.thy ===== *)
theory DijkstraRun imports Dijkstra SearchTree begin

text \<open>
  The run of Dijkstra's algorithm on a graph and a weighting that keep their contracts: it returns, the
  result is a walk of least weight, and without limits it finds one whenever there is one.
\<close>

section \<open>The contract of graph and weighting\<close>

definition step_weight :: "weighting \<Rightarrow> int \<Rightarrow> edge_state \<Rightarrow> flt" where
  "step_weight w prev st = the (CalcWeightWithTurnWeight w st False prev)"

fun iterates :: "('i \<Rightarrow> (bool \<times> 'i) option) \<Rightarrow> 'i \<Rightarrow> 'i list \<Rightarrow> bool" where
  "iterates nx it [] \<longleftrightarrow> (\<exists>it'. nx it = Some (False, it'))"
| "iterates nx it (x # xs) \<longleftrightarrow> nx it = Some (True, x) \<and> iterates nx x xs"

fun fold_opt :: "('i \<Rightarrow> 'a \<Rightarrow> 'a option) \<Rightarrow> 'i list \<Rightarrow> 'a \<Rightarrow> 'a option" where
  "fold_opt f [] a = Some a"
| "fold_opt f (x # xs) a = do { a \<leftarrow> f x a; fold_opt f xs a }"

lemma for_each_iterates: "iterates nx it its \<Longrightarrow> for_each nx body it a = fold_opt body its a"
proof (induction its arbitrary: it a)
  case Nil
  then show ?case by (subst for_each.simps) auto
next
  case (Cons x xs)
  then show ?case by (subst for_each.simps) (auto intro!: bind_option_cong)
qed

lemma CreateEdgeKey_eq: "CreateEdgeKey e r = 2 * e + (if r then 1 else 0)"
  by (simp add: CreateEdgeKey_def push_bit_eq_mult Let_def)

lemma CreateEdgeKey_inj [simp]: "CreateEdgeKey e r = CreateEdgeKey e' r' \<longleftrightarrow> e = e' \<and> r = r'"
  unfolding CreateEdgeKey_eq by (cases r; cases r'; simp; presburger)

locale routing_problem =
  fixes g :: graph_iface and W :: weighting and mode :: traversal_mode
    and adj :: "int \<Rightarrow> edge_state list" and node_ok :: "int \<Rightarrow> bool"
  assumes finite_nodes: "finite {n. node_ok n}"
    and explore: "node_ok n \<Longrightarrow> \<exists>it its. SetBase g n = Some it \<and> iterates (NextEdge g) it its \<and>
      map edge_state.truncate its = adj n"
    and ends: "node_ok n \<Longrightarrow> st \<in> set (adj n) \<Longrightarrow> BaseNode st = n \<and> node_ok (AdjNode st) \<and> 0 \<le> EdgeID st"
    and other_end: "node_ok n \<Longrightarrow> node_ok m \<Longrightarrow> st \<in> set (adj n) \<Longrightarrow> st' \<in> set (adj m) \<Longrightarrow>
      EdgeID st = EdgeID st' \<Longrightarrow> st = st' \<or> (AdjNode st = m \<and> AdjNode st' = n \<and> Reverse st \<noteq> Reverse st')"
    and once: "node_ok n \<Longrightarrow> st \<in> set (adj n) \<Longrightarrow> st' \<in> set (adj n) \<Longrightarrow> EdgeID st = EdgeID st' \<Longrightarrow> st = st'"
    and state: "node_ok n \<Longrightarrow> st \<in> set (adj n) \<Longrightarrow> EdgeState g (EdgeID st) (AdjNode st) = Some (Some st) \<and>
      (\<exists>x. EdgeDistance g st = Some x)"
    and edge_weight: "node_ok n \<Longrightarrow> st \<in> set (adj n) \<Longrightarrow>
      \<exists>x. CalcEdgeWeight W st False = Some x \<and> wf64 x \<and> fnonneg x"
    and turn_weight: "node_ok n \<Longrightarrow> node_ok m \<Longrightarrow> st \<in> set (adj n) \<Longrightarrow> st' \<in> set (adj m) \<Longrightarrow> AdjNode st' = n \<Longrightarrow>
      \<exists>x. CalcTurnWeight W (EdgeID st') n (EdgeID st) = Some x \<and> wf64 x \<and> fnonneg x \<and> (mode = NodeBased \<longrightarrow> x = Fin 0)"
    and millis: "node_ok n \<Longrightarrow> st \<in> set (adj n) \<Longrightarrow> \<exists>x. CalcEdgeMillis W st False = Some x"
    and turn_millis: "node_ok n \<Longrightarrow> node_ok m \<Longrightarrow> st \<in> set (adj n) \<Longrightarrow> st' \<in> set (adj m) \<Longrightarrow> AdjNode st' = n \<Longrightarrow>
      \<exists>x. CalcTurnMillis W (EdgeID st') n (EdgeID st) = Some x"
begin

lemma first_weight:
  assumes "node_ok n" "st \<in> set (adj n)"
  shows "CalcWeightWithTurnWeight W st False noEdge = Some (step_weight W noEdge st)"
    "wf64 (step_weight W noEdge st)" "fnonneg (step_weight W noEdge st)"
  using edge_weight [OF assms] by (auto simp: step_weight_def CalcWeightWithTurnWeight_def EdgeIsValid_def)

lemma next_weight:
  assumes "node_ok n" "st \<in> set (adj n)" "node_ok m" "st' \<in> set (adj m)" "AdjNode st' = n"
  shows "CalcWeightWithTurnWeight W st False (EdgeID st') = Some (step_weight W (EdgeID st') st)"
    "wf64 (step_weight W (EdgeID st') st)" "fnonneg (step_weight W (EdgeID st') st)"
    "mode = NodeBased \<Longrightarrow> step_weight W (EdgeID st') st = step_weight W noEdge st"
proof -
  obtain x where x: "CalcEdgeWeight W st False = Some x" "wf64 x" "fnonneg x" using edge_weight [OF assms(1,2)] by blast
  obtain t where t: "CalcTurnWeight W (EdgeID st') n (EdgeID st) = Some t" "wf64 t" "fnonneg t" "mode = NodeBased \<longrightarrow> t = Fin 0"
    using turn_weight [OF assms(1,3,2,4,5)] by blast
  have e: "EdgeIsValid (EdgeID st')" "BaseNode st = n"
    using ends [OF assms(3,4)] ends [OF assms(1,2)] by (simp_all add: EdgeIsValid_def)
  have c: "CalcWeightWithTurnWeight W st False (EdgeID st') = Some (fadd x t)"
    using x t e by (simp add: CalcWeightWithTurnWeight_def)
  then show "CalcWeightWithTurnWeight W st False (EdgeID st') = Some (step_weight W (EdgeID st') st)"
    "wf64 (step_weight W (EdgeID st') st)" "fnonneg (step_weight W (EdgeID st') st)"
    using x t by (simp_all add: step_weight_def fnonneg_fadd)
  have "step_weight W noEdge st = x" using x by (simp add: step_weight_def CalcWeightWithTurnWeight_def EdgeIsValid_def)
  then show "step_weight W (EdgeID st') st = step_weight W noEdge st" if "mode = NodeBased"
    using that c x t by (simp add: step_weight_def fadd_commute [of x])
qed

end

sublocale routing_problem \<subseteq> search_graph adj node_ok "step_weight W" "\<lambda>st. CreateTraversalID mode st False" "IsEdgeBased mode"
proof
  show "node_ok n \<Longrightarrow> st \<in> set (adj n) \<Longrightarrow> BaseNode st = n \<and> node_ok (AdjNode st) \<and> 0 \<le> EdgeID st" for n st
    by (rule ends)
  show "node_ok n \<Longrightarrow> st \<in> set (adj n) \<Longrightarrow> st' \<in> set (adj n) \<Longrightarrow> EdgeID st = EdgeID st' \<Longrightarrow> st = st'" for n st st'
    by (rule once)
  fix n m st st'
  assume *: "node_ok n" "node_ok m" "st \<in> set (adj n)" "st' \<in> set (adj m)"
  show "EdgeID st = EdgeID st' \<Longrightarrow> (n = m \<and> AdjNode st = AdjNode st') \<or> (AdjNode st = m \<and> AdjNode st' = n)"
    using other_end [OF *] ends [OF *(1,3)] ends [OF *(2,4)] by auto
  show "CreateTraversalID mode st False = CreateTraversalID mode st' False \<Longrightarrow> AdjNode st = AdjNode st'"
    using other_end [OF *] by (auto simp: CreateTraversalID_def GetEdgeKey_def split: if_splits)
  show "IsEdgeBased mode \<Longrightarrow> CreateTraversalID mode st False = CreateTraversalID mode st' False \<Longrightarrow> EdgeID st = EdgeID st'"
    by (simp add: CreateTraversalID_def GetEdgeKey_def)
next
  show "\<not> IsEdgeBased mode \<Longrightarrow> CreateTraversalID mode st False = AdjNode st" for st
    by (simp add: CreateTraversalID_def)
next
  show "node_ok n \<Longrightarrow> st \<in> set (adj n) \<Longrightarrow> wf64 (step_weight W noEdge st) \<and> fnonneg (step_weight W noEdge st)" for n st
    using first_weight by blast
next
  fix n m st st'
  assume "node_ok n" "st \<in> set (adj n)" "node_ok m" "st' \<in> set (adj m)" "AdjNode st' = n"
  from next_weight [OF this]
  show "wf64 (step_weight W (EdgeID st') st) \<and> fnonneg (step_weight W (EdgeID st') st) \<and>
      (\<not> IsEdgeBased mode \<longrightarrow> step_weight W (EdgeID st') st = step_weight W noEdge st)"
    by (cases mode) (simp_all add: IsEdgeBased_def)
qed

section \<open>Relaxing the edges of a node\<close>

context routing_problem begin

abbreviation traversal_id :: "edge_state \<Rightarrow> int" where
  "traversal_id st \<equiv> CreateTraversalID mode st False"

lemma entry_weight:
  assumes "tree_ok from' es" "p < length es" "st \<in> set (adj (spt_AdjNode (es ! p)))"
  shows "CalcWeightWithTurnWeight W st False (spt_Edge (es ! p)) = Some (step_weight W (spt_Edge (es ! p)) st)"
proof (cases "p = 0")
  case True
  then show ?thesis using first_weight(1) [OF tree_node [OF assms(1,2)] assms(3)] assms(1) by (simp add: tree_ok_def)
next
  case False
  then obtain r st' where c: "came_from es p r st'" using assms by (auto simp: tree_ok_def)
  then have "node_ok (spt_AdjNode (es ! r))" by (intro tree_node [OF assms(1)]) (simp add: came_from_def)
  from next_weight(1) [OF tree_node [OF assms(1,2)] assms(3) this, of st'] c show ?thesis by (simp add: came_from_def)
qed

definition run_inv :: "int \<Rightarrow> (nat \<times> edge_state) set \<Rightarrow> flt \<Rightarrow> dijkstra \<Rightarrow> bool" where
  "run_inv from' todo B d \<longleftrightarrow> Graph d = g \<and> Weighting d = W \<and> TraversalMode d = mode \<and>
     search_inv from' (entries d) (fromMap d) (fromHeap d) todo B"

text \<open>What relaxing steps may change.\<close>

definition relax_frame :: "dijkstra \<Rightarrow> dijkstra \<Rightarrow> bool" where
  "relax_frame d d' \<longleftrightarrow> later (entries d) (entries d') \<and>
     d' = d\<lparr>entries := entries d', fromMap := fromMap d', fromHeap := fromHeap d'\<rparr> \<and>
     (\<forall>q. settled (entries d') (fromHeap d') q \<longleftrightarrow> settled (entries d) (fromHeap d) q)"

lemma relax_frame_refl [simp]: "relax_frame d d"
  by (simp add: relax_frame_def later_def)

lemma relax_frame_trans: "relax_frame d d' \<Longrightarrow> relax_frame d' d'' \<Longrightarrow> relax_frame d d''"
proof -
  assume a: "relax_frame d d'" "relax_frame d' d''"
  have 1: "d' = d\<lparr>entries := entries d', fromMap := fromMap d', fromHeap := fromHeap d'\<rparr>"
    and 2: "d'' = d'\<lparr>entries := entries d'', fromMap := fromMap d'', fromHeap := fromHeap d''\<rparr>"
    using a by (simp_all add: relax_frame_def)
  have "d'' = d\<lparr>entries := entries d'', fromMap := fromMap d'', fromHeap := fromHeap d''\<rparr>"
    by (subst 2, subst 1) simp
  then show ?thesis using a later_trans unfolding relax_frame_def by blast
qed

lemma relax_one:
  assumes inv: "run_inv from' todo (spt_Weight (entries d ! p)) d" and p: "settled (entries d) (fromHeap d) p"
    and st: "edge_state.truncate it \<in> set (adj (spt_AdjNode (entries d ! p)))"
  shows "\<exists>d'. dij_relax p it d = Some d' \<and> relax_frame d d' \<and>
    run_inv from' (todo - {(p, edge_state.truncate it)}) (spt_Weight (entries d ! p)) d'"
proof -
  let ?st = "edge_state.truncate it" and ?es = "entries d" and ?M = "fromMap d" and ?h = "fromHeap d"
  have G: "Graph d = g" "Weighting d = W" "TraversalMode d = mode"
    and S: "search_inv from' ?es ?M ?h todo (spt_Weight (?es ! p))" using inv by (simp_all add: run_inv_def)
  note I = search_invD [OF S]
  have pl: "p < length ?es" using p by (simp add: settled_def)
  note w = entry_weight [OF I(1) pl st]
  let ?c = "fadd (step_weight W (spt_Edge (?es ! p)) ?st) (spt_Weight (?es ! p))"
  have c: "step_weight_of ?es p ?st = ?c" by (simp add: step_weight_of_def)
  have acc: "Accept ?st (spt_Edge (?es ! p)) d \<longleftrightarrow> IsEdgeBased mode \<or> EdgeID ?st \<noteq> spt_Edge (?es ! p)"
    by (simp add: Accept_def G)
  have skip: "\<exists>d'. Some d = Some d' \<and> relax_frame d d' \<and> run_inv from' (todo - {(p, ?st)}) (spt_Weight (?es ! p)) d'"
    if "\<not> Accept ?st (spt_Edge (?es ! p)) d \<or> ?c = PInf \<or>
      (\<exists>q. ?M (traversal_id ?st) = Some q \<and> \<not> flt_less ?c (spt_Weight (?es ! q)))"
  proof -
    have "search_inv from' ?es ?M ?h (todo - {(p, ?st)}) (spt_Weight (?es ! p))"
      by (rule relax_skip [OF S p st]) (use that acc c in auto)
    then show ?thesis using G by (auto simp: run_inv_def)
  qed
  have push: "\<exists>d'. Some d2 = Some d' \<and> relax_frame d d' \<and> run_inv from' (todo - {(p, ?st)}) (spt_Weight (?es ! p)) d'"
    if i: "improves ?es ?M ?h p ?st"
      and d2: "d2 = dij_push (traversal_id ?st) (NewSPTEntryFull (EdgeID ?st) (AdjNode ?st) ?c (Some p))
        (d\<lparr>entries := replaced ?es (?M (traversal_id ?st))\<rparr>)" for d2
  proof -
    let ?es' = "replaced ?es (?M (traversal_id ?st)) @ [step_entry ?es p ?st]"
    have "d2 = d\<lparr>entries := ?es', fromMap := ?M(traversal_id ?st := Some (length ?es)), fromHeap := spt_Push ?es' (length ?es) ?h\<rparr>"
      by (simp add: d2 dij_push_def Let_def step_entry_def c)
    then show ?thesis
      using relax_push [OF S i] improves_settled [OF S i] improves_tree(1) [OF I(1) i] G
      by (simp add: run_inv_def relax_frame_def)
  qed
  show ?thesis
  proof (cases "\<not> Accept ?st (spt_Edge (?es ! p)) d \<or> ?c = PInf")
    case True
    then show ?thesis using skip w G by (auto simp: dij_relax_def Let_def math_IsPInf_def)
  next
    case False
    show ?thesis
    proof (cases "?M (traversal_id ?st)")
      case None
      then have "improves ?es ?M ?h p ?st" using False p st c by (simp add: improves_def)
      from push [OF this refl] show ?thesis
        using False None w G by (simp add: dij_relax_def Let_def math_IsPInf_def replaced_def)
    next
      case (Some q)
      show ?thesis
      proof (cases "flt_less ?c (spt_Weight (?es ! q))")
        case True
        then have "improves ?es ?M ?h p ?st" using False p st c Some by (simp add: improves_def)
        from push [OF this refl] show ?thesis
          using False Some True w G by (simp add: dij_relax_def Let_def math_IsPInf_def replaced_def)
      next
        case nless: False
        then show ?thesis using skip False Some w G by (auto simp: dij_relax_def Let_def math_IsPInf_def)
      qed
    qed
  qed
qed

lemma relax_list:
  assumes "run_inv from' ({p} \<times> set (map edge_state.truncate its)) (spt_Weight (entries d ! p)) d"
    "settled (entries d) (fromHeap d) p"
    "set (map edge_state.truncate its) \<subseteq> set (adj (spt_AdjNode (entries d ! p)))"
  shows "\<exists>d'. fold_opt (dij_relax p) its d = Some d' \<and> relax_frame d d' \<and> run_inv from' {} (spt_Weight (entries d ! p)) d'"
  using assms
proof (induction its arbitrary: d)
  case Nil
  then show ?case by simp
next
  case (Cons it its)
  let ?st = "edge_state.truncate it"
  have "?st \<in> set (adj (spt_AdjNode (entries d ! p)))" using Cons.prems(3) by simp
  from relax_one [OF Cons.prems(1,2) this]
  obtain d1 where d1: "dij_relax p it d = Some d1" "relax_frame d d1"
    "run_inv from' ({p} \<times> set (map edge_state.truncate (it # its)) - {(p, ?st)}) (spt_Weight (entries d ! p)) d1"
    by blast
  have pl: "p < length (entries d)" using Cons.prems(2) by (simp add: settled_def)
  have l: "later (entries d) (entries d1)" using d1(2) by (simp add: relax_frame_def)
  note F = later_fields [OF l pl]
  have "search_inv from' (entries d1) (fromMap d1) (fromHeap d1) ({p} \<times> set (map edge_state.truncate its)) (spt_Weight (entries d ! p))"
    by (rule inv_todo [of _ _ _ _ "{p} \<times> set (map edge_state.truncate (it # its)) - {(p, ?st)}"])
      (use d1(3) in \<open>auto simp: run_inv_def\<close>)
  then have "run_inv from' ({p} \<times> set (map edge_state.truncate its)) (spt_Weight (entries d1 ! p)) d1"
    using d1(3) F by (simp add: run_inv_def)
  moreover have "settled (entries d1) (fromHeap d1) p" using d1(2) Cons.prems(2) by (simp add: relax_frame_def)
  ultimately obtain d2 where "fold_opt (dij_relax p) its d1 = Some d2" "relax_frame d1 d2"
    "run_inv from' {} (spt_Weight (entries d1 ! p)) d2"
    using Cons.IH [of d1] Cons.prems(3) F by auto
  then show ?case using d1 F relax_frame_trans by auto
qed

section \<open>The main loop\<close>

definition traversal_ids :: "int \<Rightarrow> int set" where
  "traversal_ids from' = insert from' (\<Union>n \<in> {n. node_ok n}. traversal_id ` set (adj n))"

lemma finite_traversal_ids [simp]: "finite (traversal_ids from')"
  using finite_nodes by (simp add: traversal_ids_def)

definition settled_set :: "dijkstra \<Rightarrow> nat set" where
  "settled_set d = {q. settled (entries d) (fromHeap d) q}"

lemma settled_set_bound:
  assumes "run_inv from' todo B d"
  shows "finite (settled_set d)" "card (settled_set d) \<le> Suc (card (traversal_ids from'))"
proof -
  have S: "search_inv from' (entries d) (fromMap d) (fromHeap d) todo B" using assms by (simp add: run_inv_def)
  have T: "from' \<in> traversal_ids from'" "\<And>n st. node_ok n \<Longrightarrow> st \<in> set (adj n) \<Longrightarrow> traversal_id st \<in> traversal_ids from'"
    by (auto simp: traversal_ids_def)
  show "finite (settled_set d)" "card (settled_set d) \<le> Suc (card (traversal_ids from'))"
    unfolding settled_set_def by (rule settled_bound [OF S finite_traversal_ids T]; simp)+
qed

text \<open>Between two entries taken from the heap.\<close>

definition loop_inv :: "int \<Rightarrow> dijkstra \<Rightarrow> bool" where
  "loop_inv from' d \<longleftrightarrow> (\<exists>B. run_inv from' {} B d) \<and>
     (\<forall>q \<in> settled_set d. spt_AdjNode (entries d ! q) \<noteq> to_node d) \<and>
     VisitedNodes d = int (card (settled_set d)) \<and>
     (\<forall>p. currEdge d = Some p \<longrightarrow> p < length (entries d) \<and> (p \<in> settled_set d \<or> Deleted (entries d ! p))) \<and>
     (fromHeap d = [] \<longrightarrow> currEdge d \<noteq> None)"

text \<open>What the run returns: a least walk to the target, or none.\<close>

definition no_limits :: "int \<Rightarrow> dijkstra \<Rightarrow> bool" where
  "no_limits from' d \<longleftrightarrow> int (card (traversal_ids from')) + 2 \<le> MaxVisitedNodes d \<and> FinishTimeMillis d = MaxInt64"

definition least_entry :: "int \<Rightarrow> dijkstra \<Rightarrow> nat \<Rightarrow> bool" where
  "least_entry from' d p \<longleftrightarrow> tree_ok from' (entries d) \<and> p < length (entries d) \<and>
     (\<forall>ws. walk adj from' ws \<and> walk_end from' ws = spt_AdjNode (entries d ! p) \<longrightarrow>
       flt_le (spt_Weight (entries d ! p)) (walk_weight (step_weight W) noEdge (Fin 0) ws))"

definition run_result :: "int \<Rightarrow> bool \<Rightarrow> dijkstra \<Rightarrow> bool" where
  "run_result from' cmpl d \<longleftrightarrow> Graph d = g \<and> Weighting d = W \<and>
     (\<exists>p. currEdge d = Some p \<and> p < length (entries d) \<and>
       (if spt_AdjNode (entries d ! p) = to_node d then least_entry from' d p
        else cmpl \<longrightarrow> (\<forall>ws. walk adj from' ws \<and> walk_end from' ws = to_node d \<longrightarrow>
          walk_weight (step_weight W) noEdge (Fin 0) ws = PInf)))"

text \<open>The entry taken last has the least weight of all walks to its node, if no settled entry is there.\<close>

lemma popped_least:
  assumes inv: "search_inv from' es M h {} B" and u: "u < length es"
    and least: "\<forall>r \<in> set h. flt_le (spt_Weight (es ! u)) (spt_Weight (es ! r))"
    and fresh: "\<forall>q. settled es h q \<longrightarrow> spt_AdjNode (es ! q) \<noteq> spt_AdjNode (es ! u)"
    and w: "walk adj from' ws" "walk_end from' ws = spt_AdjNode (es ! u)"
  shows "flt_le (spt_Weight (es ! u)) (walk_weight (step_weight W) noEdge (Fin 0) ws)"
proof (cases "walk_weight (step_weight W) noEdge (Fin 0) ws = PInf")
  case True
  then show ?thesis using tree_weight(3) [OF search_invD(1) [OF inv] u] by simp
next
  case False
  from walk_covered [OF inv w(1) this] show ?thesis
    using fresh least w(2) flt_le_trans unfolding covered_def by metis
qed

lemma none_left:
  assumes inv: "search_inv from' es M [] {} B"
    and fresh: "\<forall>q. settled es [] q \<longrightarrow> spt_AdjNode (es ! q) \<noteq> to"
    and w: "walk adj from' ws" "walk_end from' ws = to"
  shows "walk_weight (step_weight W) noEdge (Fin 0) ws = PInf"
  using walk_covered [OF inv w(1)] fresh w(2) unfolding covered_def by auto

lemma empty_heap_result:
  assumes inv: "loop_inv from' d" and h: "fromHeap d = []"
  shows "run_result from' c d"
proof -
  obtain B where S: "search_inv from' (entries d) (fromMap d) [] {} B" and G: "Graph d = g" "Weighting d = W"
    using inv h by (auto simp: loop_inv_def run_inv_def)
  note I = search_invD [OF S]
  have fresh: "\<forall>q. settled (entries d) [] q \<longrightarrow> spt_AdjNode (entries d ! q) \<noteq> to_node d"
    using inv h by (auto simp: loop_inv_def settled_set_def)
  obtain p where p: "currEdge d = Some p" "p < length (entries d)"
      "settled (entries d) [] p \<or> Deleted (entries d ! p)"
    using inv h by (auto simp: loop_inv_def settled_set_def)
  have "spt_AdjNode (entries d ! p) \<noteq> to_node d"
  proof (cases "Deleted (entries d ! p)")
    case True
    then obtain q t where "fromMap d t = Some q" "spt_AdjNode (entries d ! q) = spt_AdjNode (entries d ! p)"
      using mappedD(5) [OF I(6) p(2)] by blast
    moreover from this have "settled (entries d) [] q" using mappedD(1,2) [OF I(6)] by (auto simp: settled_def)
    ultimately show ?thesis using fresh by auto
  qed (use p fresh in blast)
  then show ?thesis using p G none_left [OF S fresh] by (auto simp: run_result_def)
qed

lemma relaxed_node:
  assumes inv: "run_inv from' ({p} \<times> set (adj (spt_AdjNode (entries d ! p)))) (spt_Weight (entries d ! p)) d"
    and p: "settled (entries d) (fromHeap d) p"
  shows "\<exists>it d'. SetBase (Graph d) (spt_AdjNode (entries d ! p)) = Some it \<and>
    for_each (NextEdge (Graph d)) (dij_relax p) it d = Some d' \<and> relax_frame d d' \<and>
    run_inv from' {} (spt_Weight (entries d ! p)) d'"
proof -
  have S: "tree_ok from' (entries d)" "Graph d = g" using inv by (simp_all add: run_inv_def search_inv_def)
  have "node_ok (spt_AdjNode (entries d ! p))" using tree_node [OF S(1)] p by (simp add: settled_def)
  from explore [OF this] obtain it its where it: "SetBase g (spt_AdjNode (entries d ! p)) = Some it"
    "iterates (NextEdge g) it its" "map edge_state.truncate its = adj (spt_AdjNode (entries d ! p))" by blast
  have "set (map edge_state.truncate its) = set (adj (spt_AdjNode (entries d ! p)))" by (simp only: it(3))
  then obtain d' where "fold_opt (dij_relax p) its d = Some d'" "relax_frame d d'" "run_inv from' {} (spt_Weight (entries d ! p)) d'"
    using relax_list [OF _ p, of from' its] inv by auto
  then show ?thesis using it S for_each_iterates [OF it(2), of "dij_relax p" d] by auto
qed

lemma relax_frame_settled: "relax_frame d d' \<Longrightarrow> settled_set d' = settled_set d"
  by (simp add: relax_frame_def settled_set_def)

lemma relax_frame_fields:
  assumes "relax_frame d d'"
  shows "Graph d' = Graph d" "MaxVisitedNodes d' = MaxVisitedNodes d" "FinishTimeMillis d' = FinishTimeMillis d"
    "VisitedNodes d' = VisitedNodes d" "currEdge d' = currEdge d" "to_node d' = to_node d" "Weighting d' = Weighting d"
proof -
  have *: "d' = d\<lparr>entries := entries d', fromMap := fromMap d', fromHeap := fromHeap d'\<rparr>"
    using assms by (simp add: relax_frame_def)
  show "Graph d' = Graph d" by (subst *) simp
  show "MaxVisitedNodes d' = MaxVisitedNodes d" by (subst *) simp
  show "FinishTimeMillis d' = FinishTimeMillis d" by (subst *) simp
  show "VisitedNodes d' = VisitedNodes d" by (subst *) simp
  show "currEdge d' = currEdge d" by (subst *) simp
  show "to_node d' = to_node d" by (subst *) simp
  show "Weighting d' = Weighting d" by (subst *) simp
qed

text \<open>One round of the loop: it stops with a result, or it goes on with less to do.\<close>

definition work_left :: "int \<Rightarrow> dijkstra \<Rightarrow> nat \<times> nat" where
  "work_left from' d = (Suc (card (traversal_ids from')) - card (settled_set d), length (fromHeap d))"

lemma loop_step:
  assumes inv: "loop_inv from' d" and h: "fromHeap d \<noteq> []"
  shows "(\<exists>d'. dij_runAlgo clock d = Some d' \<and> run_result from' (no_limits from' d) d' \<and> to_node d' = to_node d) \<or>
    (\<exists>d'. dij_runAlgo clock d = dij_runAlgo clock d' \<and> loop_inv from' d' \<and> to_node d' = to_node d \<and>
      no_limits from' d' = no_limits from' d \<and> (work_left from' d', work_left from' d) \<in> less_than <*lex*> less_than)"
proof -
  obtain B where R: "run_inv from' {} B d" using inv by (auto simp: loop_inv_def)
  then have S: "search_inv from' (entries d) (fromMap d) (fromHeap d) {} B"
    and G: "Graph d = g" "Weighting d = W" "TraversalMode d = mode" by (simp_all add: run_inv_def)
  note I = search_invD [OF S]
  obtain u h' where P: "spt_Pop (entries d) (fromHeap d) = Some (u, h')" "u < length (entries d)"
    using pop_least [OF S h] by metis
  define d1 where "d1 = d\<lparr>fromHeap := h', currEdge := Some u\<rparr>"
  show ?thesis
  proof (cases "Deleted (entries d ! u)")
    case True
    note D = pop_deleted [OF S P(1) h True]
    have run: "dij_runAlgo clock d = dij_runAlgo clock d1"
      using h P(1) True by (subst dij_runAlgo.simps) (simp add: d1_def Let_def)
    have ss: "settled_set d1 = settled_set d" using D(2) by (simp add: settled_set_def d1_def)
    have "loop_inv from' d1"
      using inv D(1) G P(2) True unfolding loop_inv_def ss by (auto simp: d1_def run_inv_def)
    moreover have "(work_left from' d1, work_left from' d) \<in> less_than <*lex*> less_than"
      using D(3) unfolding work_left_def ss by (simp add: d1_def)
    ultimately show ?thesis using run by (intro disjI2 exI [of _ d1]) (simp add: d1_def no_limits_def)
  next
    case False
    note D = pop_settles [OF S P(1) h False]
    define d2 where "d2 = d1\<lparr>VisitedNodes := VisitedNodes d1 + 1\<rparr>"
    have ss: "settled_set d2 = insert u (settled_set d)" using D(2) by (auto simp: settled_set_def d1_def d2_def)
    have un: "u \<notin> settled_set d" using D(3) by (simp add: settled_set_def)
    have R2: "run_inv from' ({u} \<times> set (adj (spt_AdjNode (entries d2 ! u)))) (spt_Weight (entries d2 ! u)) d2"
      using D(1) G by (simp add: run_inv_def d1_def d2_def)
    have cs: "card (settled_set d2) = Suc (card (settled_set d))"
      using settled_set_bound(1) [OF R] un unfolding ss by simp
    have vis: "VisitedNodes d2 = int (card (settled_set d2))"
      using inv cs by (simp add: loop_inv_def d1_def d2_def)
    let ?stop = "IsMaxVisitedNodesExceeded d2 \<or> spt_AdjNode (entries d ! u) = to_node d \<or> IsTimeoutExceeded (clock (VisitedNodes d2)) d2"
    have fin: "dij_finished d2 = Some (spt_AdjNode (entries d ! u) = to_node d)"
      by (simp add: dij_finished_def d1_def d2_def)
    have fresh: "\<forall>q. settled (entries d) (fromHeap d) q \<longrightarrow> spt_AdjNode (entries d ! q) \<noteq> to_node d"
      using inv by (auto simp: loop_inv_def settled_set_def)
    show ?thesis
    proof (cases ?stop)
      case True
      then have "dij_runAlgo clock d = Some d2"
        using h P(1) False fin by (subst dij_runAlgo.simps) (auto simp: d1_def d2_def Let_def)
      moreover have "run_result from' (no_limits from' d) d2"
      proof (cases "spt_AdjNode (entries d ! u) = to_node d")
        case True
        have "least_entry from' d2 u"
          unfolding least_entry_def using I(1) P(2) popped_least [OF S P(2) D(5)] fresh True
          by (auto simp: d1_def d2_def)
        then show ?thesis using True G P(2) by (simp add: run_result_def d1_def d2_def)
      next
        case no: False
        have "\<not> no_limits from' d"
        proof
          assume "no_limits from' d"
          then have "int (card (traversal_ids from')) + 2 \<le> MaxVisitedNodes d2" "FinishTimeMillis d2 = MaxInt64"
            by (simp_all add: no_limits_def d1_def d2_def)
          moreover have "card (settled_set d2) \<le> Suc (card (traversal_ids from'))" by (rule settled_set_bound(2) [OF R2])
          ultimately show False using True no vis by (simp add: IsMaxVisitedNodesExceeded_def IsTimeoutExceeded_def)
        qed
        then show ?thesis using no G P(2) by (simp add: run_result_def d1_def d2_def)
      qed
      ultimately show ?thesis by (intro disjI1 exI [of _ d2]) (simp add: d1_def d2_def)
    next
      case go: False
      have us: "settled (entries d2) (fromHeap d2) u" using ss by (auto simp: settled_set_def)
      obtain it d3 where F: "SetBase (Graph d2) (spt_AdjNode (entries d2 ! u)) = Some it"
        "for_each (NextEdge (Graph d2)) (dij_relax u) it d2 = Some d3" "relax_frame d2 d3"
        "run_inv from' {} (spt_Weight (entries d2 ! u)) d3" using relaxed_node [OF R2 us] by blast
      note FF = relax_frame_fields [OF F(3)]
      have run: "dij_runAlgo clock d = dij_runAlgo clock d3"
        using h P(1) False fin go F(1,2) by (subst dij_runAlgo.simps) (simp add: d1_def d2_def Let_def)
      have s3: "settled_set d3 = settled_set d2" by (rule relax_frame_settled [OF F(3)])
      have l: "later (entries d2) (entries d3)" using F(3) by (simp add: relax_frame_def)
      have node: "spt_AdjNode (entries d3 ! q) = spt_AdjNode (entries d2 ! q)" if "q \<in> settled_set d2" for q
        using later_fields(2) [OF l] that by (simp add: settled_set_def settled_def)
      have e2: "entries d2 = entries d" "to_node d2 = to_node d" "currEdge d2 = Some u" by (simp_all add: d1_def d2_def)
      have "loop_inv from' d3"
        unfolding loop_inv_def s3
      proof (intro conjI allI impI ballI)
        show "\<exists>B. run_inv from' {} B d3" using F(4) by blast
        show "VisitedNodes d3 = int (card (settled_set d2))" using vis FF by simp
        fix q assume "q \<in> settled_set d2"
        then show "spt_AdjNode (entries d3 ! q) \<noteq> to_node d3"
          using node [of q] fresh go e2 FF unfolding ss by (auto simp: settled_set_def)
      next
        fix p assume "currEdge d3 = Some p"
        then have "p = u" using FF e2 by simp
        then show "p < length (entries d3)" "p \<in> settled_set d2 \<or> Deleted (entries d3 ! p)"
          using us later_fields(6) [OF l] by (simp_all add: settled_set_def settled_def)
      next
        show "currEdge d3 \<noteq> None" using FF e2 by simp
      qed
      moreover have "(work_left from' d3, work_left from' d) \<in> less_than <*lex*> less_than"
        using settled_set_bound(2) [OF F(4)] cs unfolding work_left_def s3 by auto
      ultimately show ?thesis
        using run FF e2 by (intro disjI2 exI [of _ d3]) (simp add: no_limits_def d1_def d2_def)
    qed
  qed
qed

lemma run_returns:
  assumes "loop_inv from' d"
  shows "\<exists>d'. dij_runAlgo clock d = Some d' \<and> run_result from' (no_limits from' d) d' \<and> to_node d' = to_node d"
  using assms
proof (induction "work_left from' d" arbitrary: d rule: wf_induct_rule [OF wf_lex_prod [OF wf_less_than wf_less_than]])
  case (1 d)
  show ?case
  proof (cases "fromHeap d = []")
    case True
    then have "dij_runAlgo clock d = Some d" by (subst dij_runAlgo.simps) simp
    then show ?thesis using empty_heap_result [OF 1(2) True] by blast
  next
    case False
    from loop_step [OF 1(2) False, of clock] show ?thesis
    proof (elim disjE exE conjE)
      fix d' assume "dij_runAlgo clock d = dij_runAlgo clock d'" "loop_inv from' d'" "to_node d' = to_node d"
        "no_limits from' d' = no_limits from' d" "(work_left from' d', work_left from' d) \<in> less_than <*lex*> less_than"
      then show ?thesis using 1(1) [of d'] by auto
    qed blast
  qed
qed

section \<open>The path\<close>

lemma entry_millis:
  assumes "tree_ok from' es" "p < length es" "st \<in> set (adj (spt_AdjNode (es ! p)))"
  shows "\<exists>t. CalcMillisWithTurnMillis W st False (spt_Edge (es ! p)) = Some t"
proof -
  have n: "node_ok (spt_AdjNode (es ! p))" by (rule tree_node [OF assms(1,2)])
  obtain t where t: "CalcEdgeMillis W st False = Some t" using millis [OF n assms(3)] by blast
  show ?thesis
  proof (cases "p = 0")
    case True
    then show ?thesis using t assms(1) by (simp add: CalcMillisWithTurnMillis_def EdgeIsValid_def tree_ok_def)
  next
    case False
    then obtain r st' where c: "came_from es p r st'" using assms by (auto simp: tree_ok_def)
    then have r: "node_ok (spt_AdjNode (es ! r))" by (intro tree_node [OF assms(1)]) (simp add: came_from_def)
    have st': "st' \<in> set (adj (spt_AdjNode (es ! r)))" "AdjNode st' = spt_AdjNode (es ! p)" "EdgeID st' = spt_Edge (es ! p)"
      using c by (simp_all add: came_from_def)
    obtain x where "CalcTurnMillis W (EdgeID st') (spt_AdjNode (es ! p)) (EdgeID st) = Some x"
      using turn_millis [OF n r assms(3) st'(1,2)] by blast
    then show ?thesis using t ends [OF n assms(3)] st'(3) by (simp add: CalcMillisWithTurnMillis_def)
  qed
qed

text \<open>Following the parents collects the edges of a walk from the start, last edge first.\<close>

lemma follow_walk:
  assumes t: "tree_ok from' es" and q: "q < length es"
  shows "\<exists>ws p'. walk adj from' ws \<and> walk_end from' ws = spt_AdjNode (es ! q) \<and>
    walk_weight (step_weight W) noEdge (Fin 0) ws = spt_Weight (es ! q) \<and> last_edge noEdge ws = spt_Edge (es ! q) \<and>
    followParentsUntilRoot g W es (es ! q) p = Some (es ! 0, p') \<and> EdgeIDs p' = EdgeIDs p @ rev (map EdgeID ws) \<and>
    PathGraph p' = PathGraph p"
  using q
proof (induction q arbitrary: p rule: less_induct)
  case (less q)
  show ?case
  proof (cases "q = 0")
    case True
    have "followParentsUntilRoot g W es (es ! 0) p = Some (es ! 0, p)"
      using t by (subst followParentsUntilRoot.simps) (simp add: EdgeIsValid_def tree_ok_def)
    then show ?thesis using True t by (intro exI [of _ "[]"] exI [of _ p]) (simp add: tree_ok_def)
  next
    case False
    then obtain r st where c: "came_from es q r st" using t less.prems by (auto simp: tree_ok_def)
    then have r: "r < q" "r < length es" "spt_Parent (es ! q) = Some r" "st \<in> set (adj (spt_AdjNode (es ! r)))"
      "EdgeID st = spt_Edge (es ! q)" "AdjNode st = spt_AdjNode (es ! q)" by (simp_all add: came_from_def)
    have n: "node_ok (spt_AdjNode (es ! r))" by (rule tree_node [OF t r(2)])
    have valid: "EdgeIsValid (spt_Edge (es ! q))" using ends [OF n r(4)] r(5) by (simp add: EdgeIsValid_def)
    obtain x where x: "EdgeState g (EdgeID st) (AdjNode st) = Some (Some st)" "EdgeDistance g st = Some x"
      using state [OF n r(4)] by blast
    obtain ms where ms: "CalcMillisWithTurnMillis W st False (spt_Edge (es ! r)) = Some ms"
      using entry_millis [OF t r(2,4)] by blast
    let ?p1 = "AddEdge (spt_Edge (es ! q)) (AddTime ms (AddDistance x p))"
    have on: "onEdge g W (spt_Edge (es ! q)) (spt_AdjNode (es ! q)) (spt_Edge (es ! r)) p = Some ?p1"
      using x ms r(5,6) by (simp add: onEdge_def)
    from less.IH [OF r(1,2), of ?p1] obtain ws p' where ih: "walk adj from' ws" "walk_end from' ws = spt_AdjNode (es ! r)"
      "walk_weight (step_weight W) noEdge (Fin 0) ws = spt_Weight (es ! r)" "last_edge noEdge ws = spt_Edge (es ! r)"
      "followParentsUntilRoot g W es (es ! r) ?p1 = Some (es ! 0, p')"
      "EdgeIDs p' = EdgeIDs ?p1 @ rev (map EdgeID ws)" "PathGraph p' = PathGraph ?p1" by blast
    have "followParentsUntilRoot g W es (es ! q) p = Some (es ! 0, p')"
      using valid r(2,3) on ih(5) by (subst followParentsUntilRoot.simps) simp
    moreover have "EdgeIDs p' = EdgeIDs p @ rev (map EdgeID (ws @ [st]))" "PathGraph p' = PathGraph p"
      using ih(6,7) r(5) by (simp_all add: AddEdge_def AddTime_def AddDistance_def)
    moreover have "walk_weight (step_weight W) noEdge (Fin 0) (ws @ [st]) = spt_Weight (es ! q)"
      using c ih(3,4) by (simp add: came_from_def)
    ultimately show ?thesis using ih(1,2) r(4,5,6) by (intro exI [of _ "ws @ [st]"] exI [of _ p']) simp
  qed
qed

lemma extract_walk:
  assumes t: "tree_ok from' es" and q: "q < length es"
  shows "\<exists>ws path. ExtractPath g W es (Some (es ! q)) = Some path \<and> walk adj from' ws \<and>
    walk_end from' ws = spt_AdjNode (es ! q) \<and> walk_weight (step_weight W) noEdge (Fin 0) ws = spt_Weight (es ! q) \<and>
    Found path \<and> EdgeIDs path = map EdgeID ws \<and> path_Weight path = spt_Weight (es ! q) \<and> FromNode path = from' \<and>
    EndNode path = spt_AdjNode (es ! q) \<and> PathGraph path = g"
proof -
  from follow_walk [OF assms, of "NewPath g"] obtain ws p' where w: "walk adj from' ws"
    "walk_end from' ws = spt_AdjNode (es ! q)" "walk_weight (step_weight W) noEdge (Fin 0) ws = spt_Weight (es ! q)"
    "followParentsUntilRoot g W es (es ! q) (NewPath g) = Some (es ! 0, p')"
    "EdgeIDs p' = EdgeIDs (NewPath g) @ rev (map EdgeID ws)" "PathGraph p' = PathGraph (NewPath g)" by blast
  have "rev (rev (map EdgeID ws)) = map EdgeID ws" by simp
  then show ?thesis
    using w t by (intro exI [of _ ws]) (simp add: ExtractPath_def ReverseEdgeIDs_def NewPath_def tree_ok_def)
qed

section \<open>A whole run\<close>

definition unused :: "dijkstra \<Rightarrow> bool" where
  "unused d \<longleftrightarrow> Graph d = g \<and> Weighting d = W \<and> TraversalMode d = mode \<and> \<not> AlreadyRun d \<and> VisitedNodes d = 0 \<and>
     entries d = [] \<and> fromMap d = (\<lambda>_. None) \<and> fromHeap d = [] \<and> currEdge d = None"

lemma start_loop:
  assumes "unused d" "node_ok from'"
  shows "\<exists>d1. dij_start clock from' to d = Some d1 \<and> loop_inv from' d1 \<and> to_node d1 = to \<and>
    MaxVisitedNodes d1 = MaxVisitedNodes d \<and> FinishTimeMillis d1 = FinishTimeMillis (SetupFinishTime (clock 0) d)"
proof -
  let ?es = "[NewSPTEntry from' (Fin 0)]"
  let ?d = "(SetupFinishTime (clock 0) (d\<lparr>AlreadyRun := True\<rparr>))\<lparr>to_node := to, entries := ?es, fromHeap := [0],
    fromMap := if IsEdgeBased mode then (\<lambda>_. None) else (\<lambda>_. None)(from' := Some 0)\<rparr>"
  have push: "spt_Push ?es 0 [] = [0]"
    by (simp add: spt_Push_def heap_Push_def) (subst heap_up.simps, simp)
  have start: "dij_start clock from' to d = Some ?d"
    using assms(1) push by (auto simp: dij_start_def CheckAlreadyRun_def unused_def Let_def SetupFinishTime_def)
  have ss: "settled_set ?d = {}" using search_start(2) [OF assms(2)] by (simp add: settled_set_def)
  have "run_inv from' {} (Fin 0) ?d"
    using search_start(1) [OF assms(2)] assms(1) by (simp add: run_inv_def unused_def SetupFinishTime_def Let_def)
  then have "loop_inv from' ?d"
    using assms(1) unfolding loop_inv_def ss by (auto simp: unused_def SetupFinishTime_def Let_def)
  then show ?thesis using start by (intro exI [of _ ?d]) (simp add: SetupFinishTime_def Let_def)
qed

definition reachable_weight :: "int \<Rightarrow> int \<Rightarrow> edge_state list \<Rightarrow> bool" where
  "reachable_weight from' to ws \<longleftrightarrow> walk adj from' ws \<and> walk_end from' ws = to \<and>
     walk_weight (step_weight W) noEdge (Fin 0) ws \<noteq> PInf"

lemma CalcPath_result:
  assumes "unused d" "node_ok from'"
  shows "\<exists>path d'. dij_CalcPath clock from' to d = Some (path, d') \<and>
    (Found path \<longrightarrow> (\<exists>ws. walk adj from' ws \<and> walk_end from' ws = to \<and> EdgeIDs path = map EdgeID ws \<and>
       path_Weight path = walk_weight (step_weight W) noEdge (Fin 0) ws \<and> path_Weight path \<noteq> PInf \<and>
       FromNode path = from' \<and> EndNode path = to \<and>
       (\<forall>vs. walk adj from' vs \<and> walk_end from' vs = to \<longrightarrow>
         flt_le (path_Weight path) (walk_weight (step_weight W) noEdge (Fin 0) vs)))) \<and>
    (\<not> Found path \<longrightarrow> path = NewPath g \<and>
      (int (card (traversal_ids from')) + 2 \<le> MaxVisitedNodes d \<and>
         FinishTimeMillis (SetupFinishTime (clock 0) d) = MaxInt64 \<longrightarrow>
       (\<forall>ws. walk adj from' ws \<and> walk_end from' ws = to \<longrightarrow> walk_weight (step_weight W) noEdge (Fin 0) ws = PInf)))"
proof -
  obtain d1 where d1: "dij_start clock from' to d = Some d1" "loop_inv from' d1" "to_node d1 = to"
    "MaxVisitedNodes d1 = MaxVisitedNodes d" "FinishTimeMillis d1 = FinishTimeMillis (SetupFinishTime (clock 0) d)"
    using start_loop [OF assms] by blast
  obtain d2 where d2: "dij_runAlgo clock d1 = Some d2" "run_result from' (no_limits from' d1) d2" "to_node d2 = to_node d1"
    using run_returns [OF d1(2)] by blast
  obtain p where p: "currEdge d2 = Some p" "p < length (entries d2)" "Graph d2 = g" "Weighting d2 = W"
    using d2(2) by (auto simp: run_result_def)
  show ?thesis
  proof (cases "spt_AdjNode (entries d2 ! p) = to")
    case True
    have L: "least_entry from' d2 p" using d2(2,3) p(1) True d1(3) by (auto simp: run_result_def)
    then have t: "tree_ok from' (entries d2)" by (simp add: least_entry_def)
    from extract_walk [OF t p(2)] obtain ws path where E: "ExtractPath g W (entries d2) (Some (entries d2 ! p)) = Some path"
      "walk adj from' ws" "walk_end from' ws = spt_AdjNode (entries d2 ! p)"
      "walk_weight (step_weight W) noEdge (Fin 0) ws = spt_Weight (entries d2 ! p)" "Found path"
      "EdgeIDs path = map EdgeID ws" "path_Weight path = spt_Weight (entries d2 ! p)" "FromNode path = from'"
      "EndNode path = spt_AdjNode (entries d2 ! p)" by blast
    have "dij_CalcPath clock from' to d = Some (path, d2)"
      using d1(1,3) d2(1,3) p True E(1) by (simp add: dij_CalcPath_def dij_extractPath_def dij_finished_def)
    moreover have "path_Weight path \<noteq> PInf" using tree_weight(4) [OF t p(2)] E(7) by simp
    ultimately show ?thesis using E L True unfolding least_entry_def by auto
  next
    case False
    then have "dij_CalcPath clock from' to d = Some (NewPath g, d2)"
      using d1(1,3) d2(1,3) p by (simp add: dij_CalcPath_def dij_extractPath_def dij_finished_def CreateEmptyPath_def)
    moreover have "\<not> Found (NewPath g)" by (simp add: NewPath_def)
    moreover have "no_limits from' d1 \<longrightarrow> (\<forall>ws. walk adj from' ws \<and> walk_end from' ws = to \<longrightarrow>
        walk_weight (step_weight W) noEdge (Fin 0) ws = PInf)"
      using d2(2,3) p(1) False d1(3) by (auto simp: run_result_def)
    ultimately show ?thesis using d1(4,5) by (auto simp: no_limits_def)
  qed
qed

end

lemma finish_time_max:
  assumes "TimeoutMillis a = MaxInt64" "0 \<le>s now"
  shows "FinishTimeMillis (SetupFinishTime now a) = MaxInt64"
proof -
  have n: "0 \<le> sint now" "sint now < 2 ^ 63" using assms(2) sint_less [of now] by (simp_all add: word_sle_eq)
  have now: "now = word_of_int (sint now)" by simp
  show ?thesis
  proof (cases "now = 0")
    case True
    then show ?thesis using assms(1) by (simp add: SetupFinishTime_def Let_def)
  next
    case False
    then have pos: "1 \<le> sint now" using n by (metis int_one_le_iff_zero_less less_le signed_0 signed_word_eqI)
    have "now + MaxInt64 = word_of_int (sint now + (2 ^ 63 - 1))"
      unfolding MaxInt64_def by (metis now wi_hom_add)
    also have "\<dots> = word_of_int (sint now - 1 - 2 ^ 63)"
      by (rule word_of_int_eq_iff [THEN iffD2]) (simp add: take_bit_eq_mod mod_eq_dvd_iff algebra_simps)
    finally have "sint (now + MaxInt64) = sint now - 1 - 2 ^ 63"
      using n pos by (simp only:) (rule sint_word_of_int_eq; simp)
    moreover have "sint MaxInt64 = 2 ^ 63 - 1" unfolding MaxInt64_def by (rule sint_word_of_int_eq) simp_all
    ultimately have "now + MaxInt64 <s now" "0 <s MaxInt64" using n by (simp_all add: word_sless_alt)
    then show ?thesis using assms(1) by (simp add: SetupFinishTime_def Let_def)
  qed
qed

end
