(* ===== verification/GraphRouting.thy ===== *)
theory GraphRouting imports DijkstraRun begin

text \<open>
  Dijkstra's algorithm on the stored graph: a graph whose node lists are well formed and a weighting that
  returns weights that are not negative keep the contract of \<open>routing_problem\<close>, so the run on the store
  finds least walks.
\<close>

section \<open>The stored graph keeps the contract\<close>

definition states_at :: "base_graph \<Rightarrow> (int \<Rightarrow> int list) \<Rightarrow> int \<Rightarrow> edge_state list" where
  "states_at bg adj n = map (\<lambda>e. edge_state.truncate (edge_view (Store bg) n e)) (adj n)"

text \<open>
  What the documentation of \<open>Weighting\<close> promises: weights in \<open>[0, +Inf]\<close> that are not NaN, and turn weights
  of zero when the search is node-based.
\<close>

definition weighting_ok :: "base_graph \<Rightarrow> (int \<Rightarrow> int list) \<Rightarrow> weighting \<Rightarrow> traversal_mode \<Rightarrow> bool" where
  "weighting_ok bg adj W mode \<longleftrightarrow>
     (\<forall>n st. valid_node (Store bg) n \<and> st \<in> set (states_at bg adj n) \<longrightarrow>
        (\<exists>x. CalcEdgeWeight W st False = Some x \<and> wf64 x \<and> fnonneg x) \<and> (\<exists>x. CalcEdgeMillis W st False = Some x)) \<and>
     (\<forall>n m st st'. valid_node (Store bg) n \<and> valid_node (Store bg) m \<and> st \<in> set (states_at bg adj n) \<and>
        st' \<in> set (states_at bg adj m) \<and> AdjNode st' = n \<longrightarrow>
        (\<exists>x. CalcTurnWeight W (EdgeID st') n (EdgeID st) = Some x \<and> wf64 x \<and> fnonneg x \<and> (mode = NodeBased \<longrightarrow> x = Fin 0)) \<and>
        (\<exists>x. CalcTurnMillis W (EdgeID st') n (EdgeID st) = Some x))"

lemma truncate_sel [simp]:
  "EdgeID (edge_state.truncate it) = EdgeID it" "BaseNode (edge_state.truncate it) = BaseNode it"
  "AdjNode (edge_state.truncate it) = AdjNode it" "Reverse (edge_state.truncate it) = Reverse it"
  "edgePointer (edge_state.truncate it) = edgePointer it"
  by (simp_all add: edge_state.truncate_def)

lemma iter_states_iterates: "iter_states f bg it = Some its \<Longrightarrow> iterates (ei_Next f bg) it its"
proof (induction its arbitrary: it)
  case Nil
  then show ?case
    by (subst (asm) iter_states.simps) (auto simp: bind_Some_iff split: if_splits)
next
  case (Cons x xs)
  then show ?case
    by (subst (asm) iter_states.simps) (auto simp: bind_Some_iff split: if_splits)
qed

definition routable :: "base_graph \<Rightarrow> (int \<Rightarrow> int list) \<Rightarrow> weighting \<Rightarrow> traversal_mode \<Rightarrow> int \<Rightarrow> bool" where
  "routable bg adj W mode n \<longleftrightarrow> graph_ok (Store bg) adj \<and> weighting_ok bg adj W mode \<and> valid_node (Store bg) n"

lemma states_atD:
  assumes "graph_ok (Store bg) adj" "valid_node (Store bg) n" "st \<in> set (states_at bg adj n)"
  shows "\<exists>e. st = edge_state.truncate (edge_view (Store bg) n e) \<and> valid_edge (Store bg) e \<and>
    (end_a (Store bg) e = n \<or> end_b (Store bg) e = n) \<and> end_a (Store bg) e \<noteq> end_b (Store bg) e"
  using assms graph_okD(7) [OF assms(1,2)] graph_okD(4) [OF assms(1)] by (auto simp: states_at_def)

lemma state_of_view:
  assumes "graph_ok (Store bg) adj" "valid_edge (Store bg) e"
    "end_a (Store bg) e = n \<or> end_b (Store bg) e = n"
  shows "GetEdgeIteratorState e (if end_a (Store bg) e = n then end_b (Store bg) e else end_a (Store bg) e) bg =
    Some (Some (edge_state.truncate (edge_view (Store bg) n e)))"
  using assms es_Init_cases [OF assms(1,2), of "if end_a (Store bg) e = n then end_b (Store bg) e else end_a (Store bg) e"
      NewEdgeIteratorStateImpl]
    graph_okD(2,3,4) [OF assms(1), of e]
  by (auto simp: GetEdgeIteratorState_def edge_state.truncate_def edge_view_def NewEdgeIteratorStateImpl_def
      valid_node_def anyAdjNode_def)

interpretation bgr: routing_problem "base_graph_iface bg" W mode "states_at bg adj" "routable bg adj W mode"
  for bg W mode adj
proof
  show "finite {n. routable bg adj W mode n}"
    by (rule finite_subset [of _ "{0..<nodeCount (Store bg)}"]) (auto simp: routable_def valid_node_def)
next
  fix n assume "routable bg adj W mode n"
  then have G: "graph_ok (Store bg) adj" and n: "valid_node (Store bg) n" by (simp_all add: routable_def)
  obtain it where it: "SetBaseNode n bg newEdgeIteratorImpl = Some it"
    using SetBaseNode_first [OF graph_okD(1) [OF G] n] by blast
  have "iter_states AllEdges bg it = Some (map (edge_view (Store bg) n) (adj n))"
    using explore_states [OF G n, of AllEdges "\<lambda>_. True" newEdgeIteratorImpl] it by (simp add: AllEdges_def)
  from iter_states_iterates [OF this]
  show "\<exists>it its. SetBase (base_graph_iface bg) n = Some it \<and> iterates (NextEdge (base_graph_iface bg)) it its \<and>
      map edge_state.truncate its = states_at bg adj n"
    using it by (auto simp: base_graph_iface_def states_at_def)
next
  fix n st assume a: "routable bg adj W mode n" "st \<in> set (states_at bg adj n)"
  then have G: "graph_ok (Store bg) adj" and n: "valid_node (Store bg) n" and W: "weighting_ok bg adj W mode"
    by (simp_all add: routable_def)
  obtain e where e: "st = edge_state.truncate (edge_view (Store bg) n e)" "valid_edge (Store bg) e"
    "end_a (Store bg) e = n \<or> end_b (Store bg) e = n" "end_a (Store bg) e \<noteq> end_b (Store bg) e"
    using states_atD [OF G n a(2)] by blast
  show "BaseNode st = n \<and> routable bg adj W mode (AdjNode st) \<and> 0 \<le> EdgeID st"
    using e a(1) graph_okD(2,3) [OF G e(2)] by (auto simp: routable_def valid_edge_def)
  have ptr: "valid_edge (Store bg) e" by (rule e(2))
  show "EdgeState (base_graph_iface bg) (EdgeID st) (AdjNode st) = Some (Some st) \<and>
      (\<exists>x. EdgeDistance (base_graph_iface bg) st = Some x)"
    using state_of_view [OF G e(2,3)] e(2) get_edge_field [OF graph_okD(1) [OF G], of e "eDist (Store bg)"]
      ne_offsets [OF graph_okD(1) [OF G]]
    by (auto simp: base_graph_iface_def e(1) es_GetDistance_def GetDist_def valid_edge_def)
  show "\<exists>x. CalcEdgeWeight W st False = Some x \<and> wf64 x \<and> fnonneg x" "\<exists>x. CalcEdgeMillis W st False = Some x"
    using W n a(2) unfolding weighting_ok_def by blast+
  fix st' assume b: "st' \<in> set (states_at bg adj n)" "EdgeID st = EdgeID st'"
  then show "st = st'" using e(1) by (auto simp: states_at_def)
next
  fix n m st st'
  assume a: "routable bg adj W mode n" "routable bg adj W mode m" "st \<in> set (states_at bg adj n)" "st' \<in> set (states_at bg adj m)"
  then have G: "graph_ok (Store bg) adj" and n: "valid_node (Store bg) n" "valid_node (Store bg) m" and W: "weighting_ok bg adj W mode"
    by (simp_all add: routable_def)
  show "EdgeID st = EdgeID st' \<Longrightarrow> st = st' \<or> (AdjNode st = m \<and> AdjNode st' = n \<and> Reverse st \<noteq> Reverse st')"
    using states_atD [OF G n(1) a(3)] states_atD [OF G n(2) a(4)] by auto
  assume "AdjNode st' = n"
  then show "\<exists>x. CalcTurnWeight W (EdgeID st') n (EdgeID st) = Some x \<and> wf64 x \<and> fnonneg x \<and> (mode = NodeBased \<longrightarrow> x = Fin 0)"
    "\<exists>x. CalcTurnMillis W (EdgeID st') n (EdgeID st) = Some x"
    using W n a(3,4) unfolding weighting_ok_def by blast+
qed

section \<open>Properties\<close>

lemma new_dijkstra_unused:
  assumes "NewDijkstra (base_graph_iface bg) W mode = Some d"
  shows "bgr.unused bg W mode (SetMaxVisitedNodes k (SetTimeoutMillis t d))"
    "MaxVisitedNodes (SetMaxVisitedNodes k (SetTimeoutMillis t d)) = k"
    "TimeoutMillis (SetMaxVisitedNodes k (SetTimeoutMillis t d)) = t"
  using assms
  by (auto simp: NewDijkstra_def NewAbstractRoutingAlgorithm_def bgr.unused_def SetMaxVisitedNodes_def
      SetTimeoutMillis_def algorithm.extend_def split: if_splits)

lemma traversal_ids_bound:
  assumes "routable bg adj W mode from'"
  shows "int (card (bgr.traversal_ids mode bg adj W from')) + 2 \<le> MaxInt"
proof -
  have G: "graph_ok (Store bg) adj" using assms by (simp add: routable_def)
  note g = graph_okD [OF G]
  have b: "nodeCount (Store bg) \<le> 2 ^ 31" "edgeCount (Store bg) \<le> 2 ^ 31"
    using g(1) by (simp_all add: ne_inv_def)
  have "CreateTraversalID mode st False \<in> {0..<2 ^ 32}" if n: "routable bg adj W mode n" "st \<in> set (states_at bg adj n)" for n st
  proof -
    have nn: "valid_node (Store bg) n" using n(1) by (simp add: routable_def)
    from states_atD [OF G nn n(2)] obtain e where "st = edge_state.truncate (edge_view (Store bg) n e)"
      "valid_edge (Store bg) e" by blast
    then show ?thesis
      using b g(2,3) [of e]
      by (auto simp: CreateTraversalID_def GetEdgeKey_def CreateEdgeKey_eq valid_edge_def valid_node_def)
  qed
  moreover have "from' \<in> {0..<2 ^ 32}" using assms b by (auto simp: routable_def valid_node_def)
  ultimately have "bgr.traversal_ids mode bg adj W from' \<subseteq> {0..<2 ^ 32}" by (auto simp: bgr.traversal_ids_def)
  then have "card (bgr.traversal_ids mode bg adj W from') \<le> card {0..<(2 :: int) ^ 32}" by (intro card_mono) auto
  then show ?thesis by (simp add: MaxInt_def)
qed

text \<open>Edge 1 (from 0 to 2) is longer than the edges 0 and 2 over node 1.\<close>

definition sample_weighting :: weighting where
  "sample_weighting = \<lparr>CalcMinWeightPerDistance = Fin 0,
     CalcEdgeWeight = (\<lambda>st reverse. Some (if EdgeID st = 1 then Fin 5 else Fin 1)),
     CalcEdgeMillis = (\<lambda>st reverse. Some 0), CalcTurnWeight = (\<lambda>_ _ _. Some (Fin 0)),
     CalcTurnMillis = (\<lambda>_ _ _. Some 0), HasTurnCosts = False\<rparr>"

lemma sample_weighting_ok: "weighting_ok bg adj sample_weighting mode"
proof -
  have "wf64 (Fin 5)" using wf64_of_int [of 5] by simp
  moreover have "wf64 (Fin 1)" using wf64_of_int [of 1] by simp
  moreover have "wf64 (Fin 0)" using wf64_of_int [of 0] by simp
  ultimately show ?thesis by (simp add: weighting_ok_def sample_weighting_def)
qed

lemma other_node:
  assumes "graph_ok (Store bg) adj" "valid_node (Store bg) n" "valid_node (Store bg) m" "n \<noteq> m"
    "e \<in> set (adj n)" "e \<in> set (adj m)"
  shows "edge_state.truncate (edge_view (Store bg) n e) \<in> set (states_at bg adj n)"
    "AdjNode (edge_state.truncate (edge_view (Store bg) n e)) = m"
  using graph_okD(7) [OF assms(1,2)] graph_okD(7) [OF assms(1,3)] assms(4-) by (auto simp: states_at_def)

abbreviation sample_lists :: "int \<Rightarrow> int list" where
  "sample_lists \<equiv> lists_after 0 [(0, 1), (0, 2), (1, 2)] (\<lambda>_. [])"

lemma sample_nodes: "valid_node (Store sample_graph) 0" "valid_node (Store sample_graph) 1" "valid_node (Store sample_graph) 2"
  using graph_okD(8) [OF sample_graph_ok(1), of 0] graph_okD(8) [OF sample_graph_ok(1), of 1]
    graph_okD(8) [OF sample_graph_ok(1), of 2] by auto

lemma f64_small_int: "f64 1 = Fin 1" "f64 2 = Fin 2" "wf64 (Fin 1)"
  using wf64_of_int [of 1] wf64_of_int [of 2] f64_wf [of 1] f64_wf [of 2] by simp_all

lemma sample_walk:
  "\<exists>ws. walk (states_at sample_graph sample_lists) 0 ws \<and> walk_end 0 ws = 2 \<and>
    walk_weight (step_weight sample_weighting) noEdge (Fin 0) ws = Fin 2"
proof -
  let ?a = "edge_state.truncate (edge_view (Store sample_graph) 0 0)"
    and ?b = "edge_state.truncate (edge_view (Store sample_graph) 1 2)"
  have a: "?a \<in> set (states_at sample_graph sample_lists 0)" "AdjNode ?a = 1"
    using other_node [OF sample_graph_ok(1) sample_nodes(1,2), of 0] by simp_all
  have b: "?b \<in> set (states_at sample_graph sample_lists 1)" "AdjNode ?b = 2"
    using other_node [OF sample_graph_ok(1) sample_nodes(2,3), of 2] by simp_all
  have w: "step_weight sample_weighting noEdge ?a = Fin 1" "step_weight sample_weighting 0 ?b = Fin 1"
    using f64_small_int
    by (simp_all add: step_weight_def CalcWeightWithTurnWeight_def sample_weighting_def EdgeIsValid_def)
  have "walk_weight (step_weight sample_weighting) noEdge (Fin 0) [?a, ?b] = Fin 2"
    using w f64_small_int by simp
  then show ?thesis using a b by (intro exI [of _ "[?a, ?b]"]) simp
qed

lemma sample_dijkstra: "\<exists>d. NewDijkstra (base_graph_iface sample_graph) sample_weighting NodeBased = Some d"
  by (simp add: NewDijkstra_def NewAbstractRoutingAlgorithm_def sample_weighting_def)

text \<open>
  C1. Dijkstra's algorithm on a stored graph whose node lists are well formed, with a weighting that keeps its
  contract, always returns, in both traversal modes and for every limit of visited nodes and time; when it
  finds a path, its edges are those of a walk from the first node to the second whose weight, summed in
  double precision along the walk, is the weight of the path, and no walk between the nodes has a smaller
  weight.
\<close>

theorem dijkstra_least_walk:
  assumes "graph_ok (Store bg) adj" "weighting_ok bg adj W mode" "valid_node (Store bg) from'"
    "NewDijkstra (base_graph_iface bg) W mode = Some d"
  shows "\<exists>path d'. dij_CalcPath clock from' to (SetMaxVisitedNodes k (SetTimeoutMillis t d)) = Some (path, d') \<and>
    (Found path \<longrightarrow> (\<exists>ws. walk (states_at bg adj) from' ws \<and> walk_end from' ws = to \<and> EdgeIDs path = map EdgeID ws \<and>
       path_Weight path = walk_weight (step_weight W) noEdge (Fin 0) ws \<and> path_Weight path \<noteq> PInf \<and>
       FromNode path = from' \<and> EndNode path = to \<and>
       (\<forall>vs. walk (states_at bg adj) from' vs \<and> walk_end from' vs = to \<longrightarrow>
         flt_le (path_Weight path) (walk_weight (step_weight W) noEdge (Fin 0) vs))))"
proof -
  have "routable bg adj W mode from'" using assms(1-3) by (simp add: routable_def)
  from bgr.CalcPath_result [OF new_dijkstra_unused(1) [OF assms(4)] this, of clock to k t] show ?thesis by blast
qed

text \<open>
  C2. Without limits the search is complete: it finds a path exactly when some walk between the nodes has a
  weight that is not infinite; the clock must not be negative when the search starts.
\<close>

theorem dijkstra_complete:
  assumes "graph_ok (Store bg) adj" "weighting_ok bg adj W mode" "valid_node (Store bg) from'"
    "NewDijkstra (base_graph_iface bg) W mode = Some d" "0 \<le>s clock 0"
  shows "\<exists>path d'. dij_CalcPath clock from' to d = Some (path, d') \<and>
    (Found path \<longleftrightarrow> (\<exists>ws. walk (states_at bg adj) from' ws \<and> walk_end from' ws = to \<and>
       walk_weight (step_weight W) noEdge (Fin 0) ws \<noteq> PInf))"
proof -
  have r: "routable bg adj W mode from'" using assms(1-3) by (simp add: routable_def)
  have d: "d = SetMaxVisitedNodes MaxInt (SetTimeoutMillis MaxInt64 d)"
    using assms(4) by (auto simp: NewDijkstra_def NewAbstractRoutingAlgorithm_def SetMaxVisitedNodes_def
      SetTimeoutMillis_def algorithm.extend_def split: if_splits)
  note N = new_dijkstra_unused [OF assms(4), of MaxInt MaxInt64, folded d]
  have "FinishTimeMillis (SetupFinishTime (clock 0) d) = MaxInt64" by (rule finish_time_max [OF N(3) assms(5)])
  then show ?thesis
    using bgr.CalcPath_result [OF N(1) r, of clock to] traversal_ids_bound [OF r] N(2) by metis
qed

theorem dijkstra_least_walk_witness:
  "\<exists>d path d'. NewDijkstra (base_graph_iface sample_graph) sample_weighting NodeBased = Some d \<and>
    dij_CalcPath (\<lambda>_. 0) 0 2 (SetMaxVisitedNodes 10 (SetTimeoutMillis 1000 d)) = Some (path, d') \<and>
    (Found path \<longrightarrow> FromNode path = 0 \<and> flt_le (path_Weight path) (Fin 2))"
proof -
  obtain d where d: "NewDijkstra (base_graph_iface sample_graph) sample_weighting NodeBased = Some d"
    using sample_dijkstra by blast
  from dijkstra_least_walk [OF sample_graph_ok(1) sample_weighting_ok sample_nodes(1) d, of "\<lambda>_. 0" 2 10 1000] sample_walk
  show ?thesis using d by metis
qed

theorem dijkstra_complete_witness:
  "\<exists>d path d'. NewDijkstra (base_graph_iface sample_graph) sample_weighting NodeBased = Some d \<and>
    dij_CalcPath (\<lambda>_. 0) 0 2 d = Some (path, d') \<and> Found path"
proof -
  obtain d where d: "NewDijkstra (base_graph_iface sample_graph) sample_weighting NodeBased = Some d"
    using sample_dijkstra by blast
  from dijkstra_complete [OF sample_graph_ok(1) sample_weighting_ok sample_nodes(1) d, of "\<lambda>_. 0" 2] sample_walk d
  show ?thesis by (metis flt.distinct(9) flt.simps(9) word_sle_eq order_refl)
qed

end
