(* ===== verification/StoredValues.thy ===== *)
theory StoredValues imports GraphValues begin

text \<open>
  Decimals, enums and strings as values of the edges of a graph: what is read back after a write, with the
  rounding of \<open>float64\<close>, and where the code does not give back what it stored.
\<close>

section \<open>Values that were allocated for the records of a graph\<close>

definition allocated_in :: "nodes_edges \<Rightarrow> int_ev \<Rightarrow> bool" where
  "allocated_in s x \<longleftrightarrow> (\<exists>es es' c. (\<forall>y \<in> set es. fresh y) \<and> init_all es NewInitializerConfig = Some (es', c) \<and>
     GetRequiredBytes c \<le> bytesForFlags s \<and> x \<in> set es')"

lemma allocated_fits:
  assumes "allocated_in s x" "graph_ok s adj" "valid_edge s e"
  shows "ready x" "ne_eia.holds_ev s e x"
proof -
  obtain es es' c k where "\<forall>y \<in> set es. fresh y" "init_all es NewInitializerConfig = Some (es', c)"
    "GetRequiredBytes c \<le> bytesForFlags s" "k < length es'" "x = es' ! k"
    using assms(1) by (auto simp: allocated_in_def in_set_conv_nth)
  then show "ready x" "ne_eia.holds_ev s e x"
    using values_fit(1,2) [of es es' c s e k] graph_okD(1) [OF assms(2)] assms(3) by auto
qed

definition both_ways :: "int_ev \<Rightarrow> bool \<Rightarrow> bool" where
  "both_ways x r \<longleftrightarrow> (r \<longrightarrow> StoreTwoDir x \<or> NegateReverseDir x)"

definition sample_slot :: int_ev where
  "sample_slot = fst (the (init_all sample_values NewInitializerConfig)) ! 0"

lemma sample_slot:
  "allocated_in (Store sample_graph) sample_slot" "sint (MaxStorableValue sample_slot) = 31"
  "sint (MinStorableValue sample_slot) = 0" "StoreTwoDir sample_slot" "\<not> NegateReverseDir sample_slot"
proof -
  have "case init_all sample_values NewInitializerConfig of None \<Rightarrow> False | Some (es', c) \<Rightarrow>
      GetRequiredBytes c = 2 \<and> length es' = 2 \<and> sint (MaxStorableValue (es' ! 0)) = 31 \<and>
      sint (MinStorableValue (es' ! 0)) = 0 \<and> StoreTwoDir (es' ! 0) \<and> \<not> NegateReverseDir (es' ! 0)" by code_simp
  then obtain es' c where I: "init_all sample_values NewInitializerConfig = Some (es', c)" "GetRequiredBytes c = 2"
    "length es' = 2" "sint (MaxStorableValue (es' ! 0)) = 31" "sint (MinStorableValue (es' ! 0)) = 0"
    "StoreTwoDir (es' ! 0)" "\<not> NegateReverseDir (es' ! 0)" by (auto split: option.splits)
  have s: "sample_slot = es' ! 0" by (simp add: sample_slot_def I(1))
  show "allocated_in (Store sample_graph) sample_slot"
    unfolding allocated_in_def s using sample_values_fresh I sample_graph_ok(3)
    by (intro exI [of _ sample_values] exI [of _ es'] exI [of _ c]) auto
  show "sint (MaxStorableValue sample_slot) = 31" "sint (MinStorableValue sample_slot) = 0" "StoreTwoDir sample_slot"
    "\<not> NegateReverseDir sample_slot" using I by (simp_all add: s)
qed

lemma sample_edge: "valid_edge (Store sample_graph) 1"
  using sample_graph_ok(2) by (simp add: valid_edge_def)

text \<open>A decimal with the integers 0 to 31 and the factor 1.\<close>

definition sample_decimal :: "bool \<Rightarrow> decimal_ev" where
  "sample_decimal b = \<lparr>dec_impl = sample_slot, Factor = Fin 1, UseMaximumAsInfinity = b\<rparr>"

lemma sample_factor: "factor_ok (sample_decimal b) 1"
proof -
  have "(2::rat) powi (- 1000) \<le> 2 powi 0" "(2::rat) powi 0 \<le> 2 powi 900"
    by (subst powi_le_iff, simp)+
  then show ?thesis by (simp add: factor_ok_def sample_decimal_def)
qed

lemma sample_decimal_ok: "dec_ok (sample_decimal b)"
  unfolding dec_ok_def
  using sample_factor [of b] sample_slot(2,3) allocated_fits(1) [OF sample_slot(1) sample_graph_ok(1) sample_edge]
  by (auto simp: sample_decimal_def)

section \<open>Decimals\<close>

text \<open>
  C24. Every value of the grid of a decimal encoded value but the first and the last is stored on an edge and
  read back as exactly the same float, although the product with the factor and the quotient by it round.
\<close>

theorem decimal_grid_round_trip:
  assumes "graph_ok s adj" "valid_edge s e" "allocated_in s (dec_impl d)" "dec_ok d" "both_ways (dec_impl d) r"
    "sint (MinStorableValue (dec_impl d)) < k" "k < sint (MaxStorableValue (dec_impl d))"
  shows "\<exists>d' s'. SetDecimal ne_access r e s (dec_value d k) d = Some (d', s') \<and>
    GetDecimal ne_access r e s' d' = Some (dec_value d k)"
proof -
  note A = allocated_fits(2) [OF assms(3,1,2)]
  obtain d' s' where S: "SetDecimal ne_access r e s (dec_value d k) d = Some (d', s')"
    using ne_eia.SetDecimal_Some [OF assms(4) A assms(5) [unfolded both_ways_def] assms(6,7)] by blast
  obtain k' where k': "stores d (dec_value d k) k'" "GetDecimal ne_access r e s' d' = Some (dec_value d k')"
    by (rule ne_eia.SetDecimal_GetDecimal [OF assms(4) A S])
  obtain f where f: "factor_ok d f" using assms(4) by (auto simp: dec_ok_def)
  have "- (2 ^ 31) \<le> k" using assms(6) sint_i32_bounds [of "MinStorableValue (dec_impl d)"] by linarith
  then have "k' = k" using assms(7) by (intro stores_grid [OF f _ _ k'(1)]) simp_all
  then show ?thesis using S k'(2) by blast
qed

theorem decimal_grid_round_trip_witness:
  "\<exists>d' s'. SetDecimal ne_access True 1 (Store sample_graph) (dec_value (sample_decimal False) 17) (sample_decimal False) = Some (d', s') \<and>
    GetDecimal ne_access True 1 s' d' = Some (dec_value (sample_decimal False) 17)"
  using decimal_grid_round_trip [OF sample_graph_ok(1) sample_edge, of "sample_decimal False" True 17] sample_slot
    sample_decimal_ok [of False] by (simp add: sample_decimal_def both_ways_def)

text \<open>
  C25. A finite decimal that is accepted is read back with an error of at most half the factor, up to the rounding of
  two float operations. The exceptions are those of encoded values whose largest integer stands for infinity: a value
  from the largest one on is read back as the value before it, and one that is rounded up to the largest one is read
  back as infinity.
\<close>

theorem decimal_rounding:
  assumes "graph_ok s adj" "valid_edge s e" "allocated_in s (dec_impl d)" "dec_ok d" "factor_ok d f"
    "SetDecimal ne_access r e s (Fin x) d = Some (d', s')"
  defines "largest \<equiv> fmul (max_float d) (Factor d)"
  shows "if UseMaximumAsInfinity d \<and> flt_le largest (Fin x)
    then GetDecimal ne_access r e s' d' = Some (fmul (f64_of_int (sint (MaxStorableValue (dec_impl d)) - 1)) (Factor d))
    else \<exists>y. \<bar>y - x\<bar> \<le> f * (1 / 2 + 1 / 2 ^ 20) \<and>
      GetDecimal ne_access r e s' d' = Some (if UseMaximumAsInfinity d \<and> Fin y = largest then PInf else Fin y)"
proof -
  note A = allocated_fits(2) [OF assms(3,1,2)]
  let ?m = "sint (MaxStorableValue (dec_impl d))"
  obtain k where k: "stores d (Fin x) k" "sint (MinStorableValue (dec_impl d)) \<le> k"
    "k \<le> ?m" "GetDecimal ne_access r e s' d' = Some (dec_value d k)"
    by (rule ne_eia.SetDecimal_GetDecimal [OF assms(4) A assms(6)])
  have b: "- (2 ^ 31) \<le> k" "k < 2 ^ 31" and m: "- (2 ^ 31) \<le> ?m" "?m < 2 ^ 31"
    using k(2,3) sint_i32_bounds [of "MinStorableValue (dec_impl d)"] sint_i32_bounds [of "MaxStorableValue (dec_impl d)"]
    by linarith+
  show ?thesis
  proof (cases "UseMaximumAsInfinity d \<and> flt_le largest (Fin x)")
    case True
    then have "k = ?m - 1" using k(1) by (simp add: stores_def Let_def math_IsInf_def largest_def)
    then show ?thesis using True k(4) by (simp add: dec_value_def)
  next
    case False
    obtain y where y: "fmul (f64_of_int k) (Factor d) = Fin y" "\<bar>y - x\<bar> \<le> f * (1 / 2 + 1 / 2 ^ 20)"
      using stored_product_error [OF assms(5) _ k(1) b] False by (auto simp: largest_def)
    have "k = ?m \<longleftrightarrow> Fin y = largest"
    proof
      assume "Fin y = largest"
      moreover have "\<not> flt_le (fmul (f64_of_int ?m) (Factor d)) (fmul (f64_of_int k) (Factor d))" if "k < ?m"
        using grid_below_max [OF assms(5) b(1) that m(2)] factor_product(1) [OF assms(5) m] factor_product(1) [OF assms(5) b] by simp
      ultimately show "k = ?m" using k(3) y(1) by (cases "k = ?m") (auto simp: largest_def max_float_def)
    qed (use y(1) in \<open>simp add: largest_def max_float_def\<close>)
    then have "dec_value d k = (if UseMaximumAsInfinity d \<and> Fin y = largest then PInf else Fin y)"
      using y(1) by (simp add: dec_value_def)
    then show ?thesis using False y(2) k(4) by auto
  qed
qed

theorem decimal_rounding_witness:
  "\<exists>d' s' y. SetDecimal ne_access False 1 (Store sample_graph) (Fin 5) (sample_decimal False) = Some (d', s') \<and>
    GetDecimal ne_access False 1 s' d' = Some (Fin y) \<and> \<bar>y - 5\<bar> \<le> 1 / 2 + 1 / 2 ^ 20"
proof -
  have v: "dec_value (sample_decimal False) 5 = Fin 5"
    using f64_wf [of 5] wf64_of_int [of 5] i32_float [of 5] by (simp add: dec_value_def sample_decimal_def)
  have "\<exists>d' s'. SetDecimal ne_access False 1 (Store sample_graph) (Fin 5) (sample_decimal False) = Some (d', s')"
    using ne_eia.SetDecimal_Some [OF sample_decimal_ok [of False] allocated_fits(2) [OF _ sample_graph_ok(1) sample_edge], of False 5]
      sample_slot unfolding v by (simp add: sample_decimal_def)
  then obtain d' s' where S: "SetDecimal ne_access False 1 (Store sample_graph) (Fin 5) (sample_decimal False) = Some (d', s')"
    by blast
  from decimal_rounding [OF sample_graph_ok(1) sample_edge _ sample_decimal_ok sample_factor S] show ?thesis
    using S sample_slot(1) by (auto simp: sample_decimal_def)
qed

text \<open>
  C33. With \<open>UseMaximumAsInfinity\<close> a finite value just below the largest integer is accepted and read back as
  infinity: it is rounded up to the integer that stands for infinity, although values from the largest one
  on are replaced by the integer before.
\<close>

theorem decimal_finite_reads_infinity:
  assumes "graph_ok s adj" "valid_edge s e" "allocated_in s (dec_impl d)" "dec_ok d" "both_ways (dec_impl d) r"
    "UseMaximumAsInfinity d" "Factor d = Fin 1" "rnd 53 (- 1074) x = x"
    "of_int (sint (MaxStorableValue (dec_impl d))) - 1 / 2 < x" "x < of_int (sint (MaxStorableValue (dec_impl d)))"
    "sint (MinStorableValue (dec_impl d)) < sint (MaxStorableValue (dec_impl d))"
  shows "\<exists>d' s'. SetDecimal ne_access r e s (Fin x) d = Some (d', s') \<and> GetDecimal ne_access r e s' d' = Some PInf"
proof -
  let ?e = "dec_impl d" let ?m = "sint (MaxStorableValue ?e)"
  note A = allocated_fits [OF assms(3,1,2)]
  have mb: "- (2 ^ 31) \<le> ?m" "?m < 2 ^ 31" by (rule sint_i32_bounds)+
  have "\<bar>(of_int ?m :: rat)\<bar> \<le> 2 powi 31" by (rule rat_i32 [OF mb])
  moreover have "(2::rat) powi 31 + 1 < 2 powi 32" by simp
  ultimately have x32: "\<bar>x\<bar> < 2 powi 32" using assms(9,10) by linarith
  have fx: "f64 x = Fin x" using f64_small [OF x32] assms(8) by simp
  have dv: "fdiv (Fin x) (Factor d) = Fin x" using fx by (simp add: assms(7))
  have mx: "fmul (max_float d) (Factor d) = Fin (of_int ?m)"
    using i32_float [OF mb] by (simp add: max_min_float assms(7) f64_of_int_def)
  have "round_half_away x = ?m"
    by (rule round_half_away_near) (use assms(9,10) in linarith)
  then have c: "int32_of_f64 (math_Round (Fin x)) = MaxStorableValue ?e"
    unfolding math_Round.simps using int32_of_round [OF mb] by simp
  have ib: "in_bounds ?e (MaxStorableValue ?e)" using assms(11) by (simp add: in_bounds_def)
  obtain e' s' where "ev_SetInt ne_access r e s (MaxStorableValue ?e) ?e = Some (e', s')"
    using ne_eia.SetInt_Some [OF A ib assms(5) [unfolded both_ways_def]] by blast
  then have U: "UncheckedSet ne_access r e s (MaxStorableValue ?e) ?e = Some (e', s')"
    by (simp add: ev_SetInt_Unchecked [OF A(1) ib])
  have "of_int (sint (MinStorableValue ?e)) + 1 \<le> (of_int ?m :: rat)" using assms(11) by linarith
  then have "\<not> flt_less (max_float d) (Fin x)" "\<not> flt_less (Fin x) (min_float d)"
    using assms(9,10) by (simp_all add: max_min_float)
  then have S: "SetDecimal ne_access r e s (Fin x) d = Some (d\<lparr>dec_impl := e'\<rparr>, s')"
    using U mx assms(10) ready_isInitialized [OF A(1)]
    by (auto simp: SetDecimal_def math_IsInf_def math_IsNaN_def Let_def dv c
        simp del: math_Round.simps int32_of_f64.simps)
  obtain k where k: "stores d (Fin x) k" "GetDecimal ne_access r e s' (d\<lparr>dec_impl := e'\<rparr>) = Some (dec_value d k)"
    by (rule ne_eia.SetDecimal_GetDecimal [OF assms(4) A(2) S])
  then show ?thesis using S rounds_to_infinity [OF assms(4,6,7,10) k(1) assms(8,9)] by auto
qed

lemma three_quarters: "rnd 53 (- 1074) (123 / 4) = 123 / 4"
proof (rule rnd_representable)
  have "(2::rat) powi - 2 = 1 / 4" by (simp add: power_int_minus_divide)
  then show "representable 53 (- 1074) (123 / 4)"
    unfolding representable_def by (intro exI [of _ 123] exI [of _ "- 2"]) simp
qed

theorem decimal_finite_reads_infinity_witness:
  "\<exists>d' s'. SetDecimal ne_access False 1 (Store sample_graph) (Fin (123 / 4)) (sample_decimal True) = Some (d', s') \<and>
    GetDecimal ne_access False 1 s' d' = Some PInf"
  using decimal_finite_reads_infinity [OF sample_graph_ok(1) sample_edge, of "sample_decimal True" False "123 / 4"] sample_slot
    sample_decimal_ok [of True] three_quarters by (simp add: sample_decimal_def both_ways_def)

section \<open>Strings and enums\<close>

lemmas ne_SetString = edge_int_access_contract.SetString_GetString [OF ne_eia.edge_int_access_contract_axioms]
  and ne_SetEnum = edge_int_access_contract.SetEnum_GetEnum [OF ne_eia.edge_int_access_contract_axioms]

lemma SetString_elim:
  assumes "SetString ops r edge s v e = Some (e', s')"
  obtains w impl vs where "ev_SetInt ops r edge s w (str_impl e) = Some (impl, s')" "str_impl e' = impl"
    "str_Values e' = str_Values e @ vs"
  using assms
  by (auto simp: SetString_def bind_Some_iff Let_def split: if_splits option.splits prod.splits)

lemma GetInt_MaxValue [simp]: "ev_GetInt ops r edge s (x\<lparr>MaxValue := m\<rparr>) = ev_GetInt ops r edge s x"
  by (simp add: ev_GetInt_def cong: if_cong)

text \<open>
  C26. A string that is known or for which there is room is stored on an edge and read back, and every string
  that was read from another edge before is still read there: new strings only extend the list.
\<close>

theorem string_round_trip:
  assumes "graph_ok s adj" "valid_edge s e" "allocated_in s (str_impl x)" "string_inv x" "r \<longrightarrow> StoreTwoDir (str_impl x)"
    "int (length (str_Values x)) < str_MaxValues x \<or> v \<in> set (str_Values x) \<or> v = []"
  shows "\<exists>x' s'. SetString ne_access r e s v x = Some (x', s') \<and> GetString ne_access r e s' x' = Some v \<and>
    string_inv x' \<and> (\<forall>e2 r2 v2. valid_edge s e2 \<and> e2 \<noteq> e \<and> GetString ne_access r2 e2 s x = Some v2 \<longrightarrow>
      GetString ne_access r2 e2 s' x' = Some v2)"
proof -
  note A = allocated_fits [OF assms(3,1)]
  obtain x' s' where S: "SetString ne_access r e s v x = Some (x', s')" "GetString ne_access r e s' x' = Some v"
    "string_inv x'" by (rule ne_SetString [OF assms(4) A(1,2) [OF assms(2)] assms(5,6)])
  obtain w impl vs where W: "ev_SetInt ne_access r e s w (str_impl x) = Some (impl, s')" "str_impl x' = impl"
    "str_Values x' = str_Values x @ vs" by (rule SetString_elim [OF S(1)])
  obtain m where m: "impl = (str_impl x)\<lparr>MaxValue := m\<rparr>"
    using ne_eia.SetInt_elim [OF A(1) [OF assms(2)] W(1)] by blast
  have "GetString ne_access r2 e2 s' x' = Some v2"
    if "valid_edge s e2" "e2 \<noteq> e" "GetString ne_access r2 e2 s x = Some v2" for e2 r2 v2
  proof -
    have "ev_GetInt ne_access r2 e2 s' (str_impl x) = ev_GetInt ne_access r2 e2 s (str_impl x)"
      by (rule ne_eia.SetInt_frame [OF A(1,2) [OF assms(2)] W(1) A(1,2) [OF that(1)]]) (use that(2) in simp)
    then have eq: "ev_GetInt ne_access r2 e2 s' (str_impl x') = ev_GetInt ne_access r2 e2 s (str_impl x)"
      by (simp add: W(2) m)
    from that(3) obtain k where k: "ev_GetInt ne_access r2 e2 s (str_impl x) = Some k"
      "(if k = 0 then Some [] else idx (str_Values x) (sint (k - 1))) = Some v2"
      unfolding GetString_def bind_Some_iff by blast
    have "idx (str_Values x @ vs) i = Some y" if "idx (str_Values x) i = Some y" for i y
      using that by (auto simp: idx_def nth_append split: if_splits)
    then have "(if k = 0 then Some [] else idx (str_Values x') (sint (k - 1))) = Some v2"
      using k(2) unfolding W(3) by (cases "k = 0") simp_all
    then show ?thesis unfolding GetString_def eq k(1) by simp
  qed
  then show ?thesis using S by blast
qed

definition sample_string :: string_ev where
  "sample_string = \<lparr>str_impl = sample_slot, str_MaxValues = 31, str_Values = [], str_IndexMap = Map.empty\<rparr>"

theorem string_round_trip_witness:
  "\<exists>x' s'. SetString ne_access True 1 (Store sample_graph) ''asphalt'' sample_string = Some (x', s') \<and>
    GetString ne_access True 1 s' x' = Some ''asphalt''"
proof -
  have "MinStorableValue sample_slot = 0" using sample_slot(3) by (metis signed_0 signed_word_eqI)
  then have "string_inv sample_string" using sample_slot by (simp add: string_inv_def sample_string_def)
  then show ?thesis
    using string_round_trip [OF sample_graph_ok(1) sample_edge, of sample_string True "''asphalt''"] sample_slot
    by (auto simp: sample_string_def)
qed

text \<open>
  C27. An enum constant of the list of an enum encoded value is stored on an edge by its ordinal and read back.
\<close>

theorem enum_round_trip:
  assumes "graph_ok s adj" "valid_edge s e" "allocated_in s (enum_impl x)" "enum_ev_ok x" "r \<longrightarrow> StoreTwoDir (enum_impl x)"
    "i < length (enum_Values x)"
  shows "\<exists>x' s'. SetEnum ne_access r e s (int i) x = Some (x', s') \<and>
    GetEnum ne_access r e s' x' = Some (enum_Values x ! i)"
  using ne_SetEnum [OF allocated_fits(1) [OF assms(3,1,2)] assms(4) allocated_fits(2) [OF assms(3,1,2)] assms(5,6)]
  by metis

definition sample_enum :: enum_ev where
  "sample_enum = \<lparr>enum_impl = sample_slot, enum_Values = [0, 1, 2]\<rparr>"

theorem enum_round_trip_witness:
  "\<exists>x' s'. SetEnum ne_access True 1 (Store sample_graph) 2 sample_enum = Some (x', s') \<and>
    GetEnum ne_access True 1 s' x' = Some 2"
proof -
  have "MinStorableValue sample_slot = 0" using sample_slot(3) by (metis signed_0 signed_word_eqI)
  then have "enum_ev_ok sample_enum" using sample_slot by (simp add: enum_ev_ok_def sample_enum_def)
  then show ?thesis
    using enum_round_trip [OF sample_graph_ok(1) sample_edge, of sample_enum True 2] sample_slot
    by (simp add: sample_enum_def)
qed

section \<open>The largest decimal\<close>

text \<open>
  C34. A decimal with two bits, without infinity and with the factor 0.1 refuses its own largest storable value on
  every edge: the product with the factor and the quotient by it both round up, so the quotient is above the largest
  integer, which is the bound it is checked against. The edge can hold the value: storing that integer succeeds, and
  the decimal reads exactly the refused value.
\<close>

theorem largest_decimal_refused:
  assumes "graph_ok s adj" "valid_edge s e" "allocated_in s (dec_impl d)" "both_ways (dec_impl d) r" "Factor d = Fin tenth"
    "\<not> UseMaximumAsInfinity d" "sint (MaxStorableValue (dec_impl d)) = 3" "sint (MinStorableValue (dec_impl d)) \<le> 3"
  shows "SetDecimal ne_access r e s (GetMaxStorableDecimal d) d = None \<and>
    flt_less (max_float d) (fdiv (GetMaxStorableDecimal d) (Factor d)) \<and>
    (\<exists>impl s'. ev_SetInt ne_access r e s (MaxStorableValue (dec_impl d)) (dec_impl d) = Some (impl, s') \<and>
      GetDecimal ne_access r e s' (d\<lparr>dec_impl := impl\<rparr>) = Some (GetMaxStorableDecimal d))"
proof -
  note A = allocated_fits [OF assms(3,1,2)]
  have "in_bounds (dec_impl d) (MaxStorableValue (dec_impl d))" using assms(7,8) by (simp add: in_bounds_def)
  then obtain impl s' where S: "ev_SetInt ne_access r e s (MaxStorableValue (dec_impl d)) (dec_impl d) = Some (impl, s')"
    using ne_eia.SetInt_Some [OF A _ assms(4) [unfolded both_ways_def]] by blast
  have "ev_GetInt ne_access r e s' impl = Some (MaxStorableValue (dec_impl d))" by (rule ne_eia.SetInt_GetInt(1) [OF A S])
  then have "GetDecimal ne_access r e s' (d\<lparr>dec_impl := impl\<rparr>) = Some (GetMaxStorableDecimal d)"
    using assms(6) by (simp add: GetDecimal_def GetMaxStorableDecimal_def max_float_def)
  then show ?thesis using S by (intro conjI exI) (rule max_rejected [OF assms(5-7)], rule max_quotient_above [OF assms(5-7)])
qed

definition priority_slot :: int_ev where
  "priority_slot = fst (the (init_all [the (NewIntEncodedValueImpl ''priority'' 2 False)] NewInitializerConfig)) ! 0"

lemma priority_slot:
  "allocated_in (Store sample_graph) priority_slot" "sint (MaxStorableValue priority_slot) = 3"
  "sint (MinStorableValue priority_slot) = 0"
proof -
  let ?es = "[the (NewIntEncodedValueImpl ''priority'' 2 False)]"
  have "case init_all ?es NewInitializerConfig of None \<Rightarrow> False | Some (es', c) \<Rightarrow>
      GetRequiredBytes c = 1 \<and> length es' = 1 \<and> sint (MaxStorableValue (es' ! 0)) = 3 \<and> sint (MinStorableValue (es' ! 0)) = 0"
    by code_simp
  then obtain es' c where I: "init_all ?es NewInitializerConfig = Some (es', c)" "GetRequiredBytes c = 1" "length es' = 1"
    "sint (MaxStorableValue (es' ! 0)) = 3" "sint (MinStorableValue (es' ! 0)) = 0" by (auto split: option.splits)
  have s: "priority_slot = es' ! 0" by (simp only: priority_slot_def I(1) option.sel fst_conv)
  have "NewIntEncodedValueImpl ''priority'' 2 False \<noteq> None" by code_simp
  then have "\<forall>y \<in> set ?es. fresh y" using NewInt_fresh(1) by auto
  then show "allocated_in (Store sample_graph) priority_slot"
    unfolding allocated_in_def s using I sample_graph_ok(3)
    by (intro exI [of _ ?es] exI [of _ es'] exI [of _ c]) auto
  show "sint (MaxStorableValue priority_slot) = 3" "sint (MinStorableValue priority_slot) = 0" using I by (simp_all add: s)
qed

definition sample_priority :: decimal_ev where
  "sample_priority = \<lparr>dec_impl = priority_slot, Factor = Fin tenth, UseMaximumAsInfinity = False\<rparr>"

theorem largest_decimal_refused_witness:
  "SetDecimal ne_access False 1 (Store sample_graph) (GetMaxStorableDecimal sample_priority) sample_priority = None \<and>
   (\<exists>impl s'. ev_SetInt ne_access False 1 (Store sample_graph) (MaxStorableValue priority_slot) priority_slot = Some (impl, s') \<and>
     GetDecimal ne_access False 1 s' (sample_priority\<lparr>dec_impl := impl\<rparr>) = Some (GetMaxStorableDecimal sample_priority))"
  using largest_decimal_refused [OF sample_graph_ok(1) sample_edge, of sample_priority False] priority_slot
  by (simp add: sample_priority_def both_ways_def)

end
