(* ===== verification/StoredFiles.thy ===== *)
theory StoredFiles imports RamDataAccess RamIntDataAccess BBox EncodedValueKinds begin

text \<open>
  Properties of the storage layer on its own: data accesses that are flushed to a file and loaded again, slices
  over several segments, the allocation of bits to encoded values, and the integers of coordinates and boxes.
\<close>

section \<open>Flushing and loading\<close>

text \<open>
  C30. A storing RAM data access that is flushed and then loaded by a new access of the same name has the
  same bytes, header integers and segment size again, whatever segment size the new access started with.
\<close>

theorem ram_saved_and_loaded:
  assumes "ram_inv r" "length (da_header r) = headerCount" "segmentSizeInBytes r < 2 ^ 32" "ram_store r" "\<not> da_closed r"
    "ram_segments r \<noteq> []" "ram_Capacity r < 2 ^ 63"
    "fullName r0 = fullName r" "ram_store r0" "\<not> da_closed r0" "ram_segments r0 = []"
  shows "\<exists>fs' r'. ram_Flush r fs = Some fs' \<and> ram_LoadExisting fs' r0 = Some (True, r') \<and>
    ram_segments r' = ram_segments r \<and> da_header r' = da_header r \<and> ram_mem r' = ram_mem r \<and> ram_inv r'"
proof -
  obtain fs' where f: "ram_Flush r fs = Some fs'"
    "ram_LoadExisting fs' r0 = Some (True, r0\<lparr>ram_segments := ram_segments r, da_header := da_header r,
      segmentSizeInBytes := segmentSizeInBytes r, segmentSizePower := segmentSizePower r,
      indexDivisor := indexDivisor r\<rparr>)" by (rule ram_Flush_LoadExisting [OF assms(1-11), of fs])
  have "ram_mem (r0\<lparr>ram_segments := ram_segments r, da_header := da_header r,
      segmentSizeInBytes := segmentSizeInBytes r, segmentSizePower := segmentSizePower r,
      indexDivisor := indexDivisor r\<rparr>) = ram_mem r" by (simp add: ram_mem_def ram_Capacity_def fun_eq_iff)
  then show ?thesis using f assms(1) by (auto simp: ram_inv_def)
qed

definition sample_ram :: "nat \<Rightarrow> ram_da" where
  "sample_ram n = (the (NewRAMDataAccess ''nodes'' ''dir/'' True 128))\<lparr>ram_segments := replicate n (replicate 128 7)\<rparr>"

lemma sample_ram:
  "ram_inv (sample_ram n)" "length (da_header (sample_ram n)) = headerCount" "segmentSizeInBytes (sample_ram n) = 128"
  "ram_store (sample_ram n)" "\<not> da_closed (sample_ram n)" "ram_segments (sample_ram n) = replicate n (replicate 128 7)"
  "fullName (sample_ram n) = ''dir/nodes''" "ram_Capacity (sample_ram n) = int n * 128"
proof -
  have "case NewRAMDataAccess ''nodes'' ''dir/'' True 128 of None \<Rightarrow> False | Some r \<Rightarrow> segmentSizeInBytes r = 128 \<and>
      segmentSizePower r = 7 \<and> indexDivisor r = 127 \<and> length (da_header r) = headerCount \<and> ram_store r \<and> \<not> da_closed r \<and>
      fullName r = ''dir/nodes''" by code_simp
  then obtain r where r: "NewRAMDataAccess ''nodes'' ''dir/'' True 128 = Some r" "segmentSizeInBytes r = 128"
      "segmentSizePower r = 7" "indexDivisor r = 127" "length (da_header r) = headerCount" "ram_store r" "\<not> da_closed r"
      "fullName r = ''dir/nodes''" by (auto split: option.splits)
  then show "length (da_header (sample_ram n)) = headerCount" "segmentSizeInBytes (sample_ram n) = 128"
    "ram_store (sample_ram n)" "\<not> da_closed (sample_ram n)" "ram_segments (sample_ram n) = replicate n (replicate 128 7)"
    "fullName (sample_ram n) = ''dir/nodes''" "ram_Capacity (sample_ram n) = int n * 128"
    by (simp_all add: sample_ram_def fullName_def ram_Capacity_def)
  show "ram_inv (sample_ram n)" unfolding ram_inv_def using r by (intro exI [of _ 7]) (simp add: sample_ram_def)
qed

theorem ram_saved_and_loaded_witness:
  "\<exists>fs' r'. ram_Flush (sample_ram 2) Map.empty = Some fs' \<and> ram_LoadExisting fs' (sample_ram 0) = Some (True, r') \<and>
    ram_mem r' = ram_mem (sample_ram 2)"
  using ram_saved_and_loaded [of "sample_ram 2" "sample_ram 0" Map.empty] sample_ram [of 2] sample_ram [of 0] by auto

text \<open>
  C31. The same for the integer segments: integers, header and segment size survive the file format of bytes.
\<close>

theorem ram_int_saved_and_loaded:
  assumes "ramint_inv r" "length (da_header r) = headerCount" "segmentSizeInBytes r < 2 ^ 32" "int_store r" "\<not> da_closed r"
    "int_segments r \<noteq> []" "ramint_Capacity r < 2 ^ 63"
    "fullName r0 = fullName r" "int_store r0" "\<not> da_closed r0" "int_segments r0 = []"
  shows "\<exists>fs' r'. ramint_Flush r fs = Some fs' \<and> ramint_LoadExisting fs' r0 = Some (True, r') \<and>
    int_segments r' = int_segments r \<and> da_header r' = da_header r \<and> ramint_mem r' = ramint_mem r \<and> ramint_inv r'"
proof -
  obtain fs' r' where "ramint_Flush r fs = Some fs'" "ramint_LoadExisting fs' r0 = Some (True, r')"
    "int_segments r' = int_segments r" "da_header r' = da_header r"
    "segmentSizeInBytes r' = segmentSizeInBytes r" "ramint_inv r'" "ramint_mem r' = ramint_mem r"
    by (rule ramint_Flush_LoadExisting [OF assms(1-11), of fs])
  then show ?thesis by blast
qed

definition sample_int_ram :: "nat \<Rightarrow> ram_int_da" where
  "sample_int_ram n = (the (NewRAMIntDataAccess ''edges'' ''dir/'' True 128))\<lparr>int_segments := replicate n (replicate 32 7)\<rparr>"

lemma sample_int_ram:
  "ramint_inv (sample_int_ram n)" "length (da_header (sample_int_ram n)) = headerCount"
  "segmentSizeInBytes (sample_int_ram n) = 128" "int_store (sample_int_ram n)" "\<not> da_closed (sample_int_ram n)"
  "int_segments (sample_int_ram n) = replicate n (replicate 32 7)" "fullName (sample_int_ram n) = ''dir/edges''"
  "ramint_Capacity (sample_int_ram n) = int n * 128"
proof -
  have "case NewRAMIntDataAccess ''edges'' ''dir/'' True 128 of None \<Rightarrow> False | Some r \<Rightarrow> segmentSizeInBytes r = 128 \<and>
      segmentSizeIntsPow r = 5 \<and> indexDivisor r = 31 \<and> length (da_header r) = headerCount \<and> int_store r \<and> \<not> da_closed r \<and>
      fullName r = ''dir/edges''" by code_simp
  then obtain r where r: "NewRAMIntDataAccess ''edges'' ''dir/'' True 128 = Some r" "segmentSizeInBytes r = 128"
      "segmentSizeIntsPow r = 5" "indexDivisor r = 31" "length (da_header r) = headerCount" "int_store r" "\<not> da_closed r"
      "fullName r = ''dir/edges''" by (auto split: option.splits)
  then show "length (da_header (sample_int_ram n)) = headerCount" "segmentSizeInBytes (sample_int_ram n) = 128"
    "int_store (sample_int_ram n)" "\<not> da_closed (sample_int_ram n)"
    "int_segments (sample_int_ram n) = replicate n (replicate 32 7)" "fullName (sample_int_ram n) = ''dir/edges''"
    "ramint_Capacity (sample_int_ram n) = int n * 128"
    by (simp_all add: sample_int_ram_def fullName_def ramint_Capacity_def)
  show "ramint_inv (sample_int_ram n)" unfolding ramint_inv_def using r by (intro exI [of _ 5]) (simp add: sample_int_ram_def)
qed

theorem ram_int_saved_and_loaded_witness:
  "\<exists>fs' r'. ramint_Flush (sample_int_ram 2) Map.empty = Some fs' \<and>
    ramint_LoadExisting fs' (sample_int_ram 0) = Some (True, r') \<and> ramint_mem r' = ramint_mem (sample_int_ram 2)"
  using ram_int_saved_and_loaded [of "sample_int_ram 2" "sample_int_ram 0" Map.empty]
    sample_int_ram [of 2] sample_int_ram [of 0] by auto

section \<open>Slices over segments\<close>

text \<open>
  C35. Writing a slice that is longer than two segments from the start of a segment succeeds but writes only
  its first two segments, although the segments behind them exist.
\<close>

theorem long_slice_truncated:
  assumes "ram_inv r" "0 \<le> seg" "seg + 1 < int (length (ram_segments r))" "segmentSizeInBytes r = 2 ^ k"
    "2 * 2 ^ k < length vs"
  shows "\<exists>r'. ram_SetBytes (seg * 2 ^ k) vs (int (length vs)) r = Some r' \<and>
    ram_mem r' = upd (ram_mem r) (seg * 2 ^ k) (take (2 * 2 ^ k) vs)"
proof -
  obtain r' where "ram_SetBytes (seg * 2 ^ k) vs (int (length vs)) r = Some r'"
    "ram_mem r' = upd (ram_mem r) (seg * 2 ^ k) (take (2 * 2 ^ k) vs)"
    by (rule ram_SetBytes_truncates [OF assms])
  then show ?thesis by blast
qed

theorem long_slice_truncated_witness:
  "\<exists>r'. ram_SetBytes 0 (replicate 300 9) 300 (sample_ram 4) = Some r' \<and> ram_mem r' 255 = 9 \<and> ram_mem r' 256 = 7"
proof -
  have "\<exists>r'. ram_SetBytes (0 * 2 ^ 7) (replicate 300 9) (int (length (replicate 300 (9 :: byte)))) (sample_ram 4) = Some r' \<and>
      ram_mem r' = upd (ram_mem (sample_ram 4)) (0 * 2 ^ 7) (take (2 * 2 ^ 7) (replicate 300 9))"
    by (rule long_slice_truncated) (use sample_ram [of 4] in simp_all)
  then obtain r' where r': "ram_SetBytes 0 (replicate 300 9) 300 (sample_ram 4) = Some r'"
    "ram_mem r' = upd (ram_mem (sample_ram 4)) 0 (take 256 (replicate 300 9))" by auto
  have "ram_mem (sample_ram 4) 256 = 7"
    using sample_ram(3,6,8) [of 4] by (simp add: ram_mem_def)
  then show ?thesis using r' by (auto simp: upd_def)
qed

section \<open>Allocation of bits\<close>

text \<open>
  C32. Initializing any number of fresh encoded values one after the other succeeds and gives them ranges of
  bits that lie one behind the other, each within one integer, forward and backward ranges apart.
\<close>

theorem allocation_disjoint:
  assumes "\<forall>e \<in> set es. fresh e"
  shows "\<exists>es' c. init_all es NewInitializerConfig = Some (es', c) \<and> length es' = length es \<and> (\<forall>e \<in> set es'. ready e) \<and>
    (\<forall>e \<in> set es'. \<forall>r \<in> set (ranges e). range_end r \<le> requiredBits c) \<and>
    (\<forall>k l. k < l \<and> l < length es' \<longrightarrow>
      (\<forall>r \<in> set (ranges (es' ! k)). \<forall>r' \<in> set (ranges (es' ! l)). range_end r \<le> range_pos r'))"
  using init_all_spec [OF assms cfg_inv_New] by blast

theorem allocation_disjoint_witness:
  "\<exists>x es' c. NewIntEncodedValueImpl ''lanes'' 20 True = Some x \<and> init_all [x, x] NewInitializerConfig = Some (es', c) \<and>
    (\<forall>r \<in> set (ranges (es' ! 0)). \<forall>r' \<in> set (ranges (es' ! 1)). range_end r \<le> range_pos r')"
proof -
  have "NewIntEncodedValueImpl ''lanes'' 20 True \<noteq> None" by code_simp
  then obtain x where x: "NewIntEncodedValueImpl ''lanes'' 20 True = Some x" by blast
  have "NewIntEncodedValueImpl ''lanes'' (int 20) True = Some x" using x by simp
  then have "fresh x" by (rule NewInt_fresh(1))
  then have "\<forall>e \<in> set [x, x]. fresh e" by simp
  from allocation_disjoint [OF this] obtain es' c where I: "init_all [x, x] NewInitializerConfig = Some (es', c)"
    "length es' = length [x, x]" "\<forall>k l. k < l \<and> l < length es' \<longrightarrow>
      (\<forall>r \<in> set (ranges (es' ! k)). \<forall>r' \<in> set (ranges (es' ! l)). range_end r \<le> range_pos r')" by blast
  have "(0 :: nat) < 1 \<and> 1 < length es'" using I(2) by simp
  then show ?thesis using x I(1,3) by blast
qed

section \<open>Coordinates and boxes\<close>

text \<open>C37. Every integer of a coordinate is the integer of its own degree: storing again changes nothing.\<close>

theorem stored_degree_stable: "DegreeToInt (IntToDegree v) = v"
  by (rule DegreeToInt_IntToDegree)

text \<open>C38. A degree of at most 200 is stored to within half of the seventh decimal, and the rounding of two operations.\<close>

theorem stored_degree_error:
  assumes "\<bar>x\<bar> \<le> 200"
  shows "\<exists>y. IntToDegree (DegreeToInt (Fin x)) = Fin y \<and> \<bar>y - x\<bar> \<le> 1 / 20000000 + 1 / 2 ^ 43"
  by (rule IntToDegree_DegreeToInt [OF assms]) blast

theorem stored_degree_error_witness:
  "\<exists>y. IntToDegree (DegreeToInt (Fin (523 / 10))) = Fin y \<and> \<bar>y - 523 / 10\<bar> \<le> 1 / 20000000 + 1 / 2 ^ 43"
  by (rule stored_degree_error) simp

text \<open>
  C36. The intersection of two boxes that intersect contains exactly the points that both contain.
\<close>

theorem intersection_exact:
  assumes "bbox_num a" "bbox_num b" "bbox_Intersects a b"
  shows "snd (CalculateIntersection a b) \<and> (bbox_Contains (fst (CalculateIntersection a b)) lat lon \<longleftrightarrow>
    bbox_Contains a lat lon \<and> bbox_Contains b lat lon)"
  using CalculateIntersection_Contains [OF assms] by blast

theorem intersection_exact_witness:
  "bbox_Contains (fst (CalculateIntersection (NewBBox (Fin 0) (Fin 2) (Fin 0) (Fin 2)) (NewBBox (Fin 1) (Fin 3) (Fin 1) (Fin 3))))
    (Fin 1) (Fin 2)"
  using intersection_exact [of "NewBBox (Fin 0) (Fin 2) (Fin 0) (Fin 2)" "NewBBox (Fin 1) (Fin 3) (Fin 1) (Fin 3)" "Fin 1" "Fin 2"]
  by (simp add: NewBBox_def bbox_num_def bbox_Intersects_def bbox_Contains_def)

end
