(* ===== verification/AStar.thy ===== *)
theory AStar imports Dijkstra begin

text \<open>
  \<^verbatim>\<open>core/routing/astar.go\<close> and the approximators of the remaining weight. An approximator is a state with the
  operations of the interface \<open>WeightApproximator\<close>; the distance calculation of the beeline approximator, which
  uses trigonometric functions, is a function it is given. The record of the search is the one of Dijkstra's
  algorithm with the approximator and the two edges a path may be restricted to.
\<close>

section \<open>Approximators\<close>

record 'a approximator =
  ap_SetTo :: "int \<Rightarrow> 'a \<Rightarrow> 'a option"
  ap_Approximate :: "int \<Rightarrow> 'a \<Rightarrow> flt option"
  ap_Reverse :: "'a \<Rightarrow> 'a"
  ap_GetSlack :: "'a \<Rightarrow> flt"

type_synonym dist_calc = "flt \<Rightarrow> flt \<Rightarrow> flt \<Rightarrow> flt \<Rightarrow> flt"

record beeline =
  bl_nodes :: graph_iface
  bl_weighting :: weighting
  minWeightPerDistance :: flt
  distCalc :: dist_calc
  toLat :: flt
  toLon :: flt
  epsilon :: flt

definition NewBeelineWeightApproximator :: "dist_calc \<Rightarrow> graph_iface \<Rightarrow> weighting \<Rightarrow> beeline" where
  "NewBeelineWeightApproximator distEarth g w = \<lparr>bl_nodes = g, bl_weighting = w,
     minWeightPerDistance = CalcMinWeightPerDistance w, distCalc = distEarth, toLat = Fin 0, toLon = Fin 0,
     epsilon = Fin 1\<rparr>"

definition beeline_SetTo :: "int \<Rightarrow> beeline \<Rightarrow> beeline option" where
  "beeline_SetTo toNode b = do {
     lat \<leftarrow> NodeLat (bl_nodes b) toNode;
     lon \<leftarrow> NodeLon (bl_nodes b) toNode;
     Some (b\<lparr>toLat := lat, toLon := lon\<rparr>) }"

definition SetEpsilon :: "flt \<Rightarrow> beeline \<Rightarrow> beeline" where "SetEpsilon e b = b\<lparr>epsilon := e\<rparr>"

definition SetDistanceCalc :: "dist_calc \<Rightarrow> beeline \<Rightarrow> beeline" where "SetDistanceCalc dc b = b\<lparr>distCalc := dc\<rparr>"

definition beeline_Reverse :: "dist_calc \<Rightarrow> beeline \<Rightarrow> beeline" where
  "beeline_Reverse distEarth b =
     SetEpsilon (epsilon b) (SetDistanceCalc (distCalc b) (NewBeelineWeightApproximator distEarth (bl_nodes b) (bl_weighting b)))"

definition beeline_Approximate :: "int \<Rightarrow> beeline \<Rightarrow> flt option" where
  "beeline_Approximate fromNode b = do {
     fromLat \<leftarrow> NodeLat (bl_nodes b) fromNode;
     fromLon \<leftarrow> NodeLon (bl_nodes b) fromNode;
     let dist = distCalc b (toLat b) (toLon b) fromLat fromLon;
     Some (fmul (fmul dist (minWeightPerDistance b)) (epsilon b)) }"

definition beeline_ops :: "dist_calc \<Rightarrow> beeline approximator" where
  "beeline_ops distEarth = \<lparr>ap_SetTo = beeline_SetTo, ap_Approximate = beeline_Approximate,
     ap_Reverse = beeline_Reverse distEarth, ap_GetSlack = (\<lambda>_. Fin 0)\<rparr>"

text \<open>The balanced approximator of the bidirectional search.\<close>

record 'a balanced =
  fwd :: 'a
  rev_approx :: 'a
  fromOffset :: flt
  toOffset :: flt

definition NewBalancedWeightApproximator :: "'a approximator \<Rightarrow> 'a \<Rightarrow> 'a balanced" where
  "NewBalancedWeightApproximator ops approx =
     \<lparr>fwd = approx, rev_approx = ap_Reverse ops approx, fromOffset = Fin 0, toOffset = Fin 0\<rparr>"

definition SetFromTo :: "'a approximator \<Rightarrow> int \<Rightarrow> int \<Rightarrow> 'a balanced \<Rightarrow> 'a balanced option" where
  "SetFromTo ops from' to b = do {
     r \<leftarrow> ap_SetTo ops from' (rev_approx b);
     f \<leftarrow> ap_SetTo ops to (fwd b);
     x \<leftarrow> ap_Approximate ops from' f;
     y \<leftarrow> ap_Approximate ops to r;
     Some (b\<lparr>fwd := f, rev_approx := r, fromOffset := fmul (Fin (1 / 2)) x, toOffset := fmul (Fin (1 / 2)) y\<rparr>) }"

definition balanced_Approximate :: "'a approximator \<Rightarrow> int \<Rightarrow> bool \<Rightarrow> 'a balanced \<Rightarrow> flt option" where
  "balanced_Approximate ops node reverse b = do {
     x \<leftarrow> ap_Approximate ops node (fwd b);
     y \<leftarrow> ap_Approximate ops node (rev_approx b);
     let weightApproximation = fmul (Fin (1 / 2)) (fsub x y);
     Some (if reverse then fsub (fromOffset b) weightApproximation else fadd (toOffset b) weightApproximation) }"

section \<open>The search\<close>

abbreviation (input) AnyEdge :: int where "AnyEdge \<equiv> - 2"

record 'a astar = dijkstra +
  approx_ops :: "'a approximator"
  weightApprox :: 'a
  fromOutEdge :: int
  toInEdge :: int

definition NewAStarWith :: "'a approximator \<Rightarrow> 'a \<Rightarrow> graph_iface \<Rightarrow> weighting \<Rightarrow> traversal_mode \<Rightarrow> 'a astar option" where
  "NewAStarWith ops approx g w mode = do {
     d \<leftarrow> NewDijkstra g w mode;
     Some (dijkstra.extend d \<lparr>approx_ops = ops, weightApprox = approx, fromOutEdge = AnyEdge, toInEdge = AnyEdge\<rparr>) }"

definition NewAStar :: "dist_calc \<Rightarrow> dist_calc \<Rightarrow> graph_iface \<Rightarrow> weighting \<Rightarrow> traversal_mode \<Rightarrow> beeline astar option" where
  "NewAStar distEarth distPlane g w mode =
     NewAStarWith (beeline_ops distEarth) (SetDistanceCalc distPlane (NewBeelineWeightApproximator distEarth g w)) g w mode"

definition SetApproximation :: "'b approximator \<Rightarrow> 'b \<Rightarrow> 'a astar \<Rightarrow> 'b astar" where
  "SetApproximation ops approx a = dijkstra.extend (dijkstra.truncate a)
     \<lparr>approx_ops = ops, weightApprox = approx, fromOutEdge = fromOutEdge a, toInEdge = toInEdge a\<rparr>"

definition ast_finished :: "'a astar \<Rightarrow> bool option" where
  "ast_finished a = do {
     p \<leftarrow> currEdge a;
     let curr = entries a ! p;
     Some (spt_AdjNode curr = to_node a \<and> (toInEdge a = AnyEdge \<or> spt_Edge curr = toInEdge a) \<and>
       (fromOutEdge a = AnyEdge \<or> spt_Edge curr \<noteq> noEdge)) }"

definition ast_push :: "int \<Rightarrow> spt_entry \<Rightarrow> 'a astar \<Rightarrow> 'a astar" where
  "ast_push tid e a =
     (let n = length (entries a); es = entries a @ [e] in
      a\<lparr>entries := es, fromMap := (fromMap a)(tid := Some n), fromHeap := spt_Push es n (fromHeap a)\<rparr>)"

definition ast_relax :: "nat \<Rightarrow> edge_iterator \<Rightarrow> 'a astar \<Rightarrow> 'a astar option" where
  "ast_relax p it a =
     (let st = edge_state.truncate it; curr = entries a ! p in
      if \<not> Accept st (spt_Edge curr) a then Some a
      else if spt_Edge curr = noEdge \<and> fromOutEdge a \<noteq> AnyEdge \<and> EdgeID st \<noteq> fromOutEdge a then Some a
      else do {
        w \<leftarrow> CalcWeightWithTurnWeight (Weighting a) st False (spt_Edge curr);
        let tmpWeight = fadd w (WeightOfVisitedPath curr);
        if math_IsPInf tmpWeight then Some a
        else let traversalID = CreateTraversalID (TraversalMode a) st False;
                 ase = fromMap a traversalID
             in if (case ase of None \<Rightarrow> True | Some q \<Rightarrow> flt_less tmpWeight (WeightOfVisitedPath (entries a ! q))) then do {
                  currWeightToGoal \<leftarrow> ap_Approximate (approx_ops a) (AdjNode st) (weightApprox a);
                  if math_IsPInf currWeightToGoal then Some a
                  else let a = (case ase of None \<Rightarrow> a | Some q \<Rightarrow> a\<lparr>entries := mark_deleted q (entries a)\<rparr>)
                       in Some (ast_push traversalID (NewSPTEntryWithHeuristic (EdgeID st) (AdjNode st)
                            (fadd tmpWeight currWeightToGoal) tmpWeight (Some p)) a) }
                else Some a })"

partial_function (option) ast_runAlgo :: "(int \<Rightarrow> i64) \<Rightarrow> 'a astar \<Rightarrow> 'a astar option" where
  "ast_runAlgo clock a =
     (if fromHeap a = [] then Some a
      else do {
        (p, h) \<leftarrow> spt_Pop (entries a) (fromHeap a);
        let a = a\<lparr>fromHeap := h, currEdge := Some p\<rparr>;
        if Deleted (entries a ! p) then ast_runAlgo clock a
        else do {
          let a = a\<lparr>VisitedNodes := VisitedNodes a + 1\<rparr>;
          fin \<leftarrow> ast_finished a;
          if IsMaxVisitedNodesExceeded a \<or> fin \<or> IsTimeoutExceeded (clock (VisitedNodes a)) a then Some a
          else do {
            it \<leftarrow> SetBase (Graph a) (spt_AdjNode (entries a ! p));
            a \<leftarrow> for_each (NextEdge (Graph a)) (ast_relax p) it a;
            ast_runAlgo clock a } } })"

definition ast_extractPath :: "'a astar \<Rightarrow> gh_path option" where
  "ast_extractPath a =
     (case currEdge a of None \<Rightarrow> Some (CreateEmptyPath a)
      | Some p \<Rightarrow> do {
          fin \<leftarrow> ast_finished a;
          if \<not> fin then Some (CreateEmptyPath a)
          else do {
            path \<leftarrow> ExtractPath (Graph a) (Weighting a) (entries a) (Some (entries a ! p));
            Some (path\<lparr>path_Weight := WeightOfVisitedPath (entries a ! p)\<rparr>) } })"

definition CalcPathEdgeToEdge ::
    "(int \<Rightarrow> i64) \<Rightarrow> int \<Rightarrow> int \<Rightarrow> int \<Rightarrow> int \<Rightarrow> 'a astar \<Rightarrow> (gh_path \<times> 'a astar) option" where
  "CalcPathEdgeToEdge clock from' to outEdge inEdge a = do {
     check (\<not> ((outEdge \<noteq> AnyEdge \<or> inEdge \<noteq> AnyEdge) \<and> \<not> IsEdgeBased (TraversalMode a)));
     let a = a\<lparr>fromOutEdge := outEdge, toInEdge := inEdge\<rparr>;
     a \<leftarrow> CheckAlreadyRun a;
     let a = (SetupFinishTime (clock 0) a)\<lparr>to_node := to\<rparr>;
     if outEdge = noEdge \<or> inEdge = noEdge then do { path \<leftarrow> ast_extractPath a; Some (path, a) }
     else do {
       approx \<leftarrow> ap_SetTo (approx_ops a) to (weightApprox a);
       let a = a\<lparr>weightApprox := approx\<rparr>;
       weightToGoal \<leftarrow> ap_Approximate (approx_ops a) from' approx;
       if math_IsPInf weightToGoal then do { path \<leftarrow> ast_extractPath a; Some (path, a) }
       else do {
         let n = length (entries a);
         let es = entries a @ [NewSPTEntryWithHeuristic noEdge from' weightToGoal (Fin 0) None];
         let a = a\<lparr>entries := es, fromHeap := spt_Push es n (fromHeap a)\<rparr>;
         let a = (if \<not> IsEdgeBased (TraversalMode a) then a\<lparr>fromMap := (fromMap a)(from' := Some n)\<rparr> else a);
         a \<leftarrow> ast_runAlgo clock a;
         path \<leftarrow> ast_extractPath a;
         Some (path, a) } } }"

definition ast_CalcPath :: "(int \<Rightarrow> i64) \<Rightarrow> int \<Rightarrow> int \<Rightarrow> 'a astar \<Rightarrow> (gh_path \<times> 'a astar) option" where
  "ast_CalcPath clock from' to a = CalcPathEdgeToEdge clock from' to AnyEdge AnyEdge a"

definition ast_CalcPaths :: "(int \<Rightarrow> i64) \<Rightarrow> int \<Rightarrow> int \<Rightarrow> 'a astar \<Rightarrow> (gh_path list \<times> 'a astar) option" where
  "ast_CalcPaths clock from' to a = do { (p, a) \<leftarrow> ast_CalcPath clock from' to a; Some ([p], a) }"

end
