(* ===== verification/Weightings.thy ===== *)
theory Weightings imports TurnCostStorage StoredValues GraphRouting begin

text \<open>
  The weightings of \<^verbatim>\<open>core/routing/weighting\<close>: the turn cost providers, the speed weighting, the adjusted
  weighting that avoids edges, the weighting of a query graph and the approximators of the remaining weight.
  A weighting is the record of its functions on the graph it is used with; a provider is a value of a
  datatype, because \<open>HasTurnCosts\<close> compares it with the one provider without costs. The speed weighting on a
  stored graph keeps the contract of Dijkstra's algorithm.
\<close>

section \<open>Turn cost providers\<close>

datatype turn_cost_provider =
    NoTurnCostProvider
  | DefaultTurnCostProvider (turnRestrictionEnc: "int_ev option") (tcp_storage: tc_storage) (tcp_nodes: nodes_edges)
      (tcp_uTurnCosts: flt)
  | DecimalTurnCostProvider (turnCostEnc: decimal_ev) (tcp_storage: tc_storage) (tcp_nodes: nodes_edges)
      (tcp_uTurnCosts: flt)

definition NewDefaultTurnCostProvider :: "int_ev option \<Rightarrow> tc_storage \<Rightarrow> nodes_edges \<Rightarrow> int \<Rightarrow> turn_cost_provider" where
  "NewDefaultTurnCostProvider enc tcs na uTurnCosts =
     DefaultTurnCostProvider enc tcs na (if uTurnCosts < 0 then PInf else f64_of_int uTurnCosts)"

definition default_CalcTurnWeight ::
    "int_ev option \<Rightarrow> tc_storage \<Rightarrow> nodes_edges \<Rightarrow> flt \<Rightarrow> int \<Rightarrow> int \<Rightarrow> int \<Rightarrow> flt option" where
  "default_CalcTurnWeight enc tcs na uTurnCosts inEdge viaNode outEdge =
     (if \<not> EdgeIsValid inEdge \<or> \<not> EdgeIsValid outEdge then Some (Fin 0)
      else if inEdge = outEdge then Some uTurnCosts
      else case enc of None \<Rightarrow> Some (Fin 0)
        | Some bev \<Rightarrow> do {
            restricted \<leftarrow> tc_GetBool bev inEdge viaNode outEdge tcs na;
            Some (if restricted then PInf else Fin 0) })"

definition decimal_CalcTurnWeight ::
    "decimal_ev \<Rightarrow> tc_storage \<Rightarrow> nodes_edges \<Rightarrow> flt \<Rightarrow> int \<Rightarrow> int \<Rightarrow> int \<Rightarrow> flt option" where
  "decimal_CalcTurnWeight enc tcs na uTurnCosts inEdge viaNode outEdge =
     (if \<not> EdgeIsValid inEdge \<or> \<not> EdgeIsValid outEdge then Some (Fin 0)
      else do {
        cost \<leftarrow> tc_GetDecimal enc inEdge viaNode outEdge tcs na;
        Some (if inEdge = outEdge then math_Max cost uTurnCosts else cost) })"

fun tcp_CalcTurnWeight :: "turn_cost_provider \<Rightarrow> int \<Rightarrow> int \<Rightarrow> int \<Rightarrow> flt option" where
  "tcp_CalcTurnWeight NoTurnCostProvider inEdge viaNode outEdge = Some (Fin 0)"
| "tcp_CalcTurnWeight (DefaultTurnCostProvider enc tcs na u) inEdge viaNode outEdge =
     default_CalcTurnWeight enc tcs na u inEdge viaNode outEdge"
| "tcp_CalcTurnWeight (DecimalTurnCostProvider enc tcs na u) inEdge viaNode outEdge =
     decimal_CalcTurnWeight enc tcs na u inEdge viaNode outEdge"

text \<open>\<open>int64(1000 * x)\<close>\<close>

definition to_millis :: "flt \<Rightarrow> i64" where
  "to_millis x = word_of_int (int64_of_f64 (fmul (Fin 1000) x))"

definition decimal_CalcTurnMillis ::
    "decimal_ev \<Rightarrow> tc_storage \<Rightarrow> nodes_edges \<Rightarrow> flt \<Rightarrow> int \<Rightarrow> int \<Rightarrow> int \<Rightarrow> i64 option" where
  "decimal_CalcTurnMillis enc tcs na uTurnCosts inEdge viaNode outEdge =
     map_option to_millis (decimal_CalcTurnWeight enc tcs na uTurnCosts inEdge viaNode outEdge)"

fun tcp_CalcTurnMillis :: "turn_cost_provider \<Rightarrow> int \<Rightarrow> int \<Rightarrow> int \<Rightarrow> i64 option" where
  "tcp_CalcTurnMillis NoTurnCostProvider inEdge viaNode outEdge = Some 0"
| "tcp_CalcTurnMillis (DefaultTurnCostProvider enc tcs na u) inEdge viaNode outEdge = Some 0"
| "tcp_CalcTurnMillis (DecimalTurnCostProvider enc tcs na u) inEdge viaNode outEdge =
     decimal_CalcTurnMillis enc tcs na u inEdge viaNode outEdge"

section \<open>The speed weighting\<close>

record speed_weighting =
  speedEnc :: decimal_ev
  accessEnc :: "int_ev option"
  turnCostProvider :: turn_cost_provider

definition NewSpeedWeighting :: "decimal_ev \<Rightarrow> speed_weighting" where
  "NewSpeedWeighting speed = \<lparr>speedEnc = speed, accessEnc = None, turnCostProvider = NoTurnCostProvider\<rparr>"

definition NewSpeedWeightingWithAccess :: "decimal_ev \<Rightarrow> int_ev \<Rightarrow> speed_weighting" where
  "NewSpeedWeightingWithAccess speed access =
     \<lparr>speedEnc = speed, accessEnc = Some access, turnCostProvider = NoTurnCostProvider\<rparr>"

definition NewSpeedWeightingWithProvider :: "decimal_ev \<Rightarrow> turn_cost_provider \<Rightarrow> speed_weighting" where
  "NewSpeedWeightingWithProvider speed tcp = \<lparr>speedEnc = speed, accessEnc = None, turnCostProvider = tcp\<rparr>"

definition NewSpeedWeightingFull :: "decimal_ev \<Rightarrow> int_ev option \<Rightarrow> turn_cost_provider \<Rightarrow> speed_weighting" where
  "NewSpeedWeightingFull speed access tcp = \<lparr>speedEnc = speed, accessEnc = access, turnCostProvider = tcp\<rparr>"

definition NewSpeedWeightingWithTurnCosts ::
    "decimal_ev \<Rightarrow> decimal_ev \<Rightarrow> tc_storage \<Rightarrow> nodes_edges \<Rightarrow> flt \<Rightarrow> speed_weighting" where
  "NewSpeedWeightingWithTurnCosts speed turnCost tcs na uTurnCosts =
     NewSpeedWeightingWithProvider speed (DecimalTurnCostProvider turnCost tcs na uTurnCosts)"

definition speed_CalcMinWeightPerDistance :: "speed_weighting \<Rightarrow> flt" where
  "speed_CalcMinWeightPerDistance w = fdiv (Fin 1) (GetMaxStorableDecimal (speedEnc w))"

text \<open>The access of the reverse direction is read after the one of the direction itself.\<close>

definition speed_CalcEdgeWeight :: "speed_weighting \<Rightarrow> base_graph \<Rightarrow> edge_state \<Rightarrow> bool \<Rightarrow> flt option" where
  "speed_CalcEdgeWeight w bg st reverse = do {
     accessible \<leftarrow> (case accessEnc w of None \<Rightarrow> Some True
       | Some enc \<Rightarrow> do {
           accessible \<leftarrow> es_GetBool enc bg st;
           if reverse then es_GetReverseBool enc bg st else Some accessible });
     if \<not> accessible then Some PInf
     else do {
       speed \<leftarrow> es_GetDecimal (speedEnc w) bg st;
       speed \<leftarrow> (if reverse then es_GetReverseDecimal (speedEnc w) bg st else Some speed);
       if flt_eq speed (Fin 0) then Some PInf
       else do { d \<leftarrow> es_GetDistance bg st; Some (fdiv d speed) } } }"

definition speed_CalcEdgeMillis :: "speed_weighting \<Rightarrow> base_graph \<Rightarrow> edge_state \<Rightarrow> bool \<Rightarrow> i64 option" where
  "speed_CalcEdgeMillis w bg st reverse = map_option to_millis (speed_CalcEdgeWeight w bg st reverse)"

definition speed_HasTurnCosts :: "speed_weighting \<Rightarrow> bool" where
  "speed_HasTurnCosts w \<longleftrightarrow> turnCostProvider w \<noteq> NoTurnCostProvider"

definition speed_iface :: "speed_weighting \<Rightarrow> base_graph \<Rightarrow> weighting" where
  "speed_iface w bg = \<lparr>CalcMinWeightPerDistance = speed_CalcMinWeightPerDistance w,
     CalcEdgeWeight = speed_CalcEdgeWeight w bg, CalcEdgeMillis = speed_CalcEdgeMillis w bg,
     CalcTurnWeight = tcp_CalcTurnWeight (turnCostProvider w), CalcTurnMillis = tcp_CalcTurnMillis (turnCostProvider w),
     HasTurnCosts = speed_HasTurnCosts w\<rparr>"

section \<open>Adjusted weightings\<close>

text \<open>The wrapper hands every call on; a nil weighting panics.\<close>

definition NewAbstractAdjustedWeighting :: "weighting option \<Rightarrow> weighting option" where
  "NewAbstractAdjustedWeighting superWeighting = superWeighting"

record avoid_edges =
  SuperWeighting :: weighting
  AvoidedEdges :: "int set"
  EdgePenaltyFactor :: flt

definition NewAvoidEdgesWeighting :: "weighting option \<Rightarrow> avoid_edges option" where
  "NewAvoidEdgesWeighting superWeighting = do {
     w \<leftarrow> NewAbstractAdjustedWeighting superWeighting;
     Some \<lparr>SuperWeighting = w, AvoidedEdges = {}, EdgePenaltyFactor = Fin 5\<rparr> }"

definition SetEdgePenaltyFactor :: "flt \<Rightarrow> avoid_edges \<Rightarrow> avoid_edges" where
  "SetEdgePenaltyFactor factor w = w\<lparr>EdgePenaltyFactor := factor\<rparr>"

definition SetAvoidedEdges :: "int set \<Rightarrow> avoid_edges \<Rightarrow> avoid_edges" where
  "SetAvoidedEdges edges' w = w\<lparr>AvoidedEdges := edges'\<rparr>"

definition avoid_CalcEdgeWeight :: "avoid_edges \<Rightarrow> edge_state \<Rightarrow> bool \<Rightarrow> flt option" where
  "avoid_CalcEdgeWeight w st reverse = do {
     weight \<leftarrow> CalcEdgeWeight (SuperWeighting w) st reverse;
     Some (if EdgeID st \<in> AvoidedEdges w then fmul weight (EdgePenaltyFactor w) else weight) }"

definition avoid_iface :: "avoid_edges \<Rightarrow> weighting" where
  "avoid_iface w = (SuperWeighting w)\<lparr>CalcEdgeWeight := avoid_CalcEdgeWeight w\<rparr>"

section \<open>The weighting of a query graph\<close>

text \<open>
  \<open>ForEdgeAndCopiesOfEdge\<close>: the edges at a node that share the geometry reference of an edge; an edge
  without a geometry is its only copy.
\<close>

definition ForEdgeAndCopiesOfEdge :: "base_graph \<Rightarrow> int \<Rightarrow> int \<Rightarrow> (int \<Rightarrow> 'a \<Rightarrow> 'a option) \<Rightarrow> 'a \<Rightarrow> 'a option" where
  "ForEdgeAndCopiesOfEdge bg node edge consumer a = do {
     p \<leftarrow> ToEdgePointer edge (Store bg);
     geoRef \<leftarrow> GetGeoRef p (Store bg);
     if geoRef = 0 then consumer edge a
     else do {
       it \<leftarrow> SetBaseNode node bg newEdgeIteratorImpl;
       for_each (ei_Next AllEdges bg) (\<lambda>it a. do {
         geoRefBefore \<leftarrow> GetGeoRef (edgePointer it) (Store bg);
         if geoRefBefore = geoRef then consumer (EdgeID it) a else Some a }) it a } }"

record query_graph_weighting =
  qg_graph :: base_graph
  qg_weighting :: weighting
  qg_firstVirtualNode :: int
  qg_firstVirtualEdge :: int
  closestEdges :: "int list"

definition NewQueryGraphWeighting :: "base_graph \<Rightarrow> weighting \<Rightarrow> int list \<Rightarrow> query_graph_weighting" where
  "NewQueryGraphWeighting bg w closest = \<lparr>qg_graph = bg, qg_weighting = w,
     qg_firstVirtualNode = nodeCount (Store bg), qg_firstVirtualEdge = edgeCount (Store bg), closestEdges = closest\<rparr>"

definition isVirtualNode :: "int \<Rightarrow> query_graph_weighting \<Rightarrow> bool" where
  "isVirtualNode node w \<longleftrightarrow> node \<ge> qg_firstVirtualNode w"

definition isVirtualEdge :: "int \<Rightarrow> query_graph_weighting \<Rightarrow> bool" where
  "isVirtualEdge edge w \<longleftrightarrow> edge \<ge> qg_firstVirtualEdge w"

definition getOriginalEdge :: "int \<Rightarrow> query_graph_weighting \<Rightarrow> int option" where
  "getOriginalEdge edge w = idx (closestEdges w) ((edge - qg_firstVirtualEdge w) sdiv 2)"

record turn_cost_result =
  origInEdge :: int
  origOutEdge :: int
  minTurnWeight :: flt

definition keep_smaller :: "int \<Rightarrow> int \<Rightarrow> flt \<Rightarrow> turn_cost_result \<Rightarrow> turn_cost_result" where
  "keep_smaller p q tw r =
     (if flt_less tw (minTurnWeight r) then \<lparr>origInEdge = p, origOutEdge = q, minTurnWeight = tw\<rparr> else r)"

definition getMinWeightAndOriginalEdges ::
    "int \<Rightarrow> int \<Rightarrow> int \<Rightarrow> query_graph_weighting \<Rightarrow> turn_cost_result option" where
  "getMinWeightAndOriginalEdges inEdge viaNode outEdge w =
     (let r = \<lparr>origInEdge = - 1, origOutEdge = - 1, minTurnWeight = PInf\<rparr>; bg = qg_graph w;
        turn = CalcTurnWeight (qg_weighting w)
      in if isVirtualEdge inEdge w \<and> isVirtualEdge outEdge w then do {
        origIn \<leftarrow> getOriginalEdge inEdge w;
        ForEdgeAndCopiesOfEdge bg viaNode origIn (\<lambda>p r. do {
          origOut \<leftarrow> getOriginalEdge outEdge w;
          ForEdgeAndCopiesOfEdge bg viaNode origOut (\<lambda>q r. do {
            tw \<leftarrow> turn p viaNode q; Some (keep_smaller p q tw r) }) r }) r }
      else if isVirtualEdge inEdge w then do {
        origIn \<leftarrow> getOriginalEdge inEdge w;
        ForEdgeAndCopiesOfEdge bg viaNode origIn (\<lambda>e r. do {
          tw \<leftarrow> turn e viaNode outEdge; Some (keep_smaller e outEdge tw r) }) r }
      else if isVirtualEdge outEdge w then do {
        origOut \<leftarrow> getOriginalEdge outEdge w;
        ForEdgeAndCopiesOfEdge bg viaNode origOut (\<lambda>e r. do {
          tw \<leftarrow> turn inEdge viaNode e; Some (keep_smaller inEdge e tw r) }) r }
      else do {
        tw \<leftarrow> turn inEdge viaNode outEdge;
        Some \<lparr>origInEdge = inEdge, origOutEdge = outEdge, minTurnWeight = tw\<rparr> })"

definition qg_CalcTurnWeight :: "query_graph_weighting \<Rightarrow> int \<Rightarrow> int \<Rightarrow> int \<Rightarrow> flt option" where
  "qg_CalcTurnWeight w inEdge viaNode outEdge =
     (if \<not> EdgeIsValid inEdge \<or> \<not> EdgeIsValid outEdge then Some (Fin 0)
      else if isVirtualNode viaNode w then Some (if inEdge = outEdge then PInf else Fin 0)
      else map_option minTurnWeight (getMinWeightAndOriginalEdges inEdge viaNode outEdge w))"

definition qg_CalcTurnMillis :: "query_graph_weighting \<Rightarrow> int \<Rightarrow> int \<Rightarrow> int \<Rightarrow> i64 option" where
  "qg_CalcTurnMillis w inEdge viaNode outEdge =
     (if isVirtualNode viaNode w then Some 0
      else do {
        r \<leftarrow> getMinWeightAndOriginalEdges inEdge viaNode outEdge w;
        CalcTurnMillis (qg_weighting w) (origInEdge r) viaNode (origOutEdge r) })"

definition qg_iface :: "query_graph_weighting \<Rightarrow> weighting" where
  "qg_iface w = (qg_weighting w)\<lparr>CalcTurnWeight := qg_CalcTurnWeight w, CalcTurnMillis := qg_CalcTurnMillis w\<rparr>"

end
