(* ===== verification/ValueWrites.thy ===== *)
theory ValueWrites imports StoredValues begin

text \<open>
  Sequences of writes to the encoded values of edges, as an import makes them: what stays as it is, and that the
  largest value an encoded value remembers is never below a value that an edge stores.
\<close>

section \<open>Sequences of writes\<close>

text \<open>Decimals whose integers are not negative, with a factor that keeps clear of the limits of floats.\<close>

definition unsigned_decimal :: "int_ev \<Rightarrow> flt \<Rightarrow> bool" where
  "unsigned_decimal x f \<longleftrightarrow> MinStorableValue x = 0 \<and> 0 < sint (MaxStorableValue x) \<and> Bits x \<le> 31 \<and> \<not> NegateReverseDir x \<and>
     (\<exists>q. f = Fin q \<and> 2 powi (- 1000) \<le> q \<and> q \<le> 2 powi 900)"

abbreviation plain_decimal :: "int_ev \<Rightarrow> flt \<Rightarrow> decimal_ev" where
  "plain_decimal x f \<equiv> \<lparr>dec_impl = x, Factor = f, UseMaximumAsInfinity = False\<rparr>"

text \<open>
  From the values \<open>vs\<close> and the edges of \<open>s\<close> by any number of writes: of a decimal with the \<open>k\<close>th integer and the factor
  \<open>F k\<close>, or of an integer, a flag or an enum, which are written as integers.
\<close>

inductive stored_writes :: "(nat \<Rightarrow> flt) \<Rightarrow> int_ev list \<Rightarrow> nodes_edges \<Rightarrow> int_ev list \<Rightarrow> nodes_edges \<Rightarrow> bool"
  for F vs s where
  no_write: "stored_writes F vs s vs s"
| decimal_write: "stored_writes F vs s vs1 s1 \<Longrightarrow> k < length vs1 \<Longrightarrow> valid_edge s1 e \<Longrightarrow> unsigned_decimal (vs1 ! k) (F k) \<Longrightarrow>
    SetDecimal ne_access r e s1 x (plain_decimal (vs1 ! k) (F k)) = Some (d', s2) \<Longrightarrow>
    stored_writes F vs s (vs1[k := dec_impl d']) s2"
| integer_write: "stored_writes F vs s vs1 s1 \<Longrightarrow> k < length vs1 \<Longrightarrow> valid_edge s1 e \<Longrightarrow>
    ev_SetInt ne_access r e s1 v (vs1 ! k) = Some (x', s2) \<Longrightarrow> stored_writes F vs s (vs1[k := x']) s2"

lemma SetInt_max:
  assumes "ev_SetInt ops r e s v x = Some (x', s')" "\<not> NegateReverseDir x"
  shows "sint (MaxValue x') = max (sint (MaxValue x)) (sint v)"
proof -
  have "UncheckedSet ops r e s v x = Some (x', s')" using assms(1) by (auto simp: ev_SetInt_def checkValue_def split: if_splits)
  then show ?thesis using assms(2)
    by (auto simp: UncheckedSet_def Let_def bind_Some_iff split: if_splits)
qed

section \<open>The invariant\<close>

text \<open>No edge stores more than the largest value that is remembered, or than zero when there is none.\<close>

definition tracked :: "nodes_edges \<Rightarrow> int_ev \<Rightarrow> bool" where
  "tracked s x \<longleftrightarrow> (\<forall>e r v. valid_edge s e \<longrightarrow> ev_GetInt ne_access r e s x = Some v \<longrightarrow> sint v \<le> max 0 (sint (MaxValue x))) \<and>
     (MaxValue x = MinInt32 \<or> 0 \<le> sint (MaxValue x))"

definition writes_inv :: "(int \<Rightarrow> int list) \<Rightarrow> int_ev list \<Rightarrow> nodes_edges \<Rightarrow> int_ev list \<Rightarrow> nodes_edges \<Rightarrow> bool" where
  "writes_inv adj vs s vs1 s1 \<longleftrightarrow> graph_ok s1 adj \<and> bytesForFlags s1 = bytesForFlags s \<and> edgeCount s1 = edgeCount s \<and>
     nodeCount s1 = nodeCount s \<and> (\<forall>e. edge_int s1 e (eDist s1) = edge_int s e (eDist s)) \<and>
     length vs1 = length vs \<and> (\<forall>k < length vs. \<exists>m. vs1 ! k = (vs ! k)\<lparr>MaxValue := m\<rparr>) \<and>
     (\<forall>k < length vs. MinStorableValue (vs ! k) = 0 \<and> \<not> NegateReverseDir (vs ! k) \<longrightarrow> tracked s1 (vs1 ! k))"

lemma SetInt_store:
  assumes "graph_ok s adj" "ready x" "ne_eia.holds_ev s e x" "ev_SetInt ne_access rv e s v x = Some (x', s')"
  shows "nodeCount s' = nodeCount s" "edge_int s' e' (eDist s') = edge_int s e' (eDist s)"
proof -
  obtain i sh n where r: "dir_range x rv = (i, sh, n)" by (cases "dir_range x rv")
  have w: "write_range ne_access s e (i, sh, n) (stored x rv v) = Some s'"
    using ne_eia.SetInt_elim [OF assms(2,4)] r by metis
  then obtain u where u: "eia_set ne_access s e i u = Some s'" by (auto simp: write_range_def bind_Some_iff)
  have ok: "flag_ok s e i" using ne_eia.holds_dir [OF assms(3), of rv] by (simp add: r ne_eia.holds_def)
  note F = set_flags_frame [OF ok u]
  show "nodeCount s' = nodeCount s" by (rule F(3))
  show "edge_int s' e' (eDist s') = edge_int s e' (eDist s)"
    using F(5) [of 16 e'] ne_offsets(8) [OF F(1)] ne_offsets(8) [OF graph_okD(1) [OF assms(1)]] by simp
qed

text \<open>The values were allocated together, and the edges have room for them.\<close>

definition allocation :: "int_ev list \<Rightarrow> nodes_edges \<Rightarrow> bool" where
  "allocation vs s \<longleftrightarrow> (\<exists>es c. (\<forall>x \<in> set es. fresh x) \<and> init_all es NewInitializerConfig = Some (vs, c) \<and>
     GetRequiredBytes c \<le> bytesForFlags s)"

lemma fits:
  assumes "allocation vs s" "writes_inv adj vs s vs1 s1" "valid_edge s1 e" "k < length vs"
  shows "ready (vs1 ! k)" "ne_eia.holds_ev s1 e (vs1 ! k)"
    "l < length vs \<Longrightarrow> k \<noteq> l \<Longrightarrow> disjoint (dir_range (vs1 ! k) r) (dir_range (vs1 ! l) r')"
proof -
  have I: "graph_ok s1 adj" "bytesForFlags s1 = bytesForFlags s" "\<forall>k < length vs. \<exists>m. vs1 ! k = (vs ! k)\<lparr>MaxValue := m\<rparr>"
    using assms(2) by (auto simp: writes_inv_def)
  obtain es c where A: "\<forall>x \<in> set es. fresh x" "init_all es NewInitializerConfig = Some (vs, c)" "GetRequiredBytes c \<le> bytesForFlags s"
    using assms(1) by (auto simp: allocation_def)
  have b: "GetRequiredBytes c \<le> bytesForFlags s1" using A(3) I(2) by simp
  note V = values_fit [OF A(1,2) b graph_okD(1) [OF I(1)] assms(3,4)]
  obtain m where m: "vs1 ! k = (vs ! k)\<lparr>MaxValue := m\<rparr>" using I(3) assms(4) by blast
  show "ready (vs1 ! k)" "ne_eia.holds_ev s1 e (vs1 ! k)" using V(1,2) m by simp_all
  assume l: "l < length vs" "k \<noteq> l"
  obtain m' where "vs1 ! l = (vs ! l)\<lparr>MaxValue := m'\<rparr>" using I(3) l by blast
  then show "disjoint (dir_range (vs1 ! k) r) (dir_range (vs1 ! l) r')" using V(3) [OF l] m by simp
qed

lemma SetInt_step:
  assumes A: "allocation vs s" and I: "writes_inv adj vs s vs1 s1" and k: "k < length vs" and e: "valid_edge s1 e"
    and S: "ev_SetInt ne_access r e s1 v (vs1 ! k) = Some (x', s2)"
  shows "writes_inv adj vs s (vs1[k := x']) s2"
proof -
  note i = I [unfolded writes_inv_def]
  note f = fits [OF A I e k]
  have len: "length vs1 = length vs" using i by blast
  obtain mv where mv: "in_bounds (vs1 ! k) v" "x' = (vs1 ! k)\<lparr>MaxValue := mv\<rparr>"
    by (rule ne_eia.SetInt_elim [OF f(1) S])
  obtain m where m: "vs1 ! k = (vs ! k)\<lparr>MaxValue := m\<rparr>" using i k by blast
  have G: "graph_ok s2 adj" "bytesForFlags s2 = bytesForFlags s1" "edgeCount s2 = edgeCount s1"
    using SetInt_graph_ok [OF _ f(1,2) S] i by blast+
  have valid: "valid_edge s1 e' = valid_edge s2 e'" for e' using G(3) by (simp add: valid_edge_def)
  have frame: "ev_GetInt ne_access r' e' s2 (vs1 ! l) = ev_GetInt ne_access r' e' s1 (vs1 ! l)"
    if "valid_edge s1 e'" "l < length vs" "e' \<noteq> e \<or> l \<noteq> k \<or> disjoint (dir_range (vs1 ! k) r) (dir_range (vs1 ! k) r')" for e' l r'
  proof (rule ne_eia.SetInt_frame [OF f(1,2) S fits(1,2) [OF A I that(1,2)]])
    show "e' \<noteq> e \<or> disjoint (dir_range (vs1 ! k) r) (dir_range (vs1 ! l) r')" using that(2,3) f(3) [of l] by (cases "l = k") auto
  qed
  have "tracked s2 (vs1[k := x'] ! l)" if l: "l < length vs" "MinStorableValue (vs ! l) = 0 \<and> \<not> NegateReverseDir (vs ! l)" for l
  proof -
    have t: "tracked s1 (vs1 ! l)" using i l by blast
    show ?thesis
    proof (cases "l = k")
      case False
      then show ?thesis using t frame l valid by (simp add: tracked_def)
    next
      case True
      have n: "\<not> NegateReverseDir (vs1 ! k)" "MinStorableValue (vs1 ! k) = 0" using l(2) True m by simp_all
      have mx: "sint (MaxValue x') = max (sint (MaxValue (vs1 ! k))) (sint v)" by (rule SetInt_max [OF S n(1)])
      have v: "0 \<le> sint v" using mv(1) n(2) by (simp add: in_bounds_def)
      have "sint w \<le> max 0 (sint (MaxValue x'))"
        if w: "valid_edge s1 e'" "ev_GetInt ne_access r' e' s2 x' = Some w" for e' r' w
      proof (cases "e' = e \<and> (r' = r \<or> \<not> StoreTwoDir (vs1 ! k))")
        case True
        have "r' = r \<or> r' = (\<not> r)" by auto
        then have "w = v"
          using ne_eia.SetInt_GetInt [OF f(1,2) S] w(2) n(1) True by auto
        then show ?thesis using mx by simp
      next
        case False
        have dis: "disjoint (dir_range (vs1 ! k) r) (dir_range (vs1 ! k) r')" if "r' \<noteq> r" "StoreTwoDir (vs1 ! k)"
          using f(1) that by (cases r; cases r') (auto simp: ready_def dir_range_def disjoint_def)
        have "ev_GetInt ne_access r' e' s2 (vs1 ! k) = ev_GetInt ne_access r' e' s1 (vs1 ! k)"
          using False dis by (intro frame [OF w(1) k]) auto
        then have "ev_GetInt ne_access r' e' s1 (vs1 ! k) = Some w" using w(2) mv(2) by simp
        then have "sint w \<le> max 0 (sint (MaxValue (vs1 ! k)))" using t w(1) \<open>l = k\<close> by (auto simp: tracked_def)
        then show ?thesis using mx by linarith
      qed
      then show ?thesis using mx v k len valid True by (simp add: tracked_def le_max_iff_disj)
    qed
  qed
  moreover have "\<exists>m. vs1[k := x'] ! l = (vs ! l)\<lparr>MaxValue := m\<rparr>" if "l < length vs" for l
    using i that mv(2) m len by (cases "l = k") (auto intro: exI [of _ mv])
  ultimately show ?thesis
    using i G SetInt_store [OF _ f(1,2) S] by (auto simp: writes_inv_def)
qed

lemma writes_keep:
  assumes "allocation vs s" "writes_inv adj vs s vs s" "stored_writes F vs s vs1 s1"
  shows "writes_inv adj vs s vs1 s1"
  using assms(3)
proof induction
  case no_write
  then show ?case by (rule assms(2))
next
  case (decimal_write vs1 s1 k e r x d' s2)
  have k: "k < length vs" using decimal_write.IH decimal_write.hyps(2) by (simp add: writes_inv_def)
  note f = fits [OF assms(1) decimal_write.IH decimal_write.hyps(3) k]
  have "dec_ok (plain_decimal (vs1 ! k) (F k))"
    using f(1) decimal_write.hyps(4) by (auto simp: dec_ok_def unsigned_decimal_def factor_ok_def)
  then obtain impl y where "ev_SetInt ne_access r e s1 y (vs1 ! k) = Some (impl, s2)" "dec_impl d' = impl"
    using SetDecimal_elim [OF _ decimal_write.hyps(5)] by (metis decimal_ev.select_convs(1) decimal_ev.simps(5) decimal_ev.surjective decimal_ev.update_convs(1))
  then show ?case using SetInt_step [OF assms(1) decimal_write.IH k decimal_write.hyps(3)] by blast
next
  case (integer_write vs1 s1 k e r v x' s2)
  have "k < length vs" using integer_write.IH integer_write.hyps(2) by (simp add: writes_inv_def)
  then show ?case using SetInt_step [OF assms(1) integer_write.IH _ integer_write.hyps(3,4)] by blast
qed

text \<open>Before the first write nothing is remembered, and every unsigned value is zero.\<close>

definition unwritten :: "int_ev list \<Rightarrow> nodes_edges \<Rightarrow> bool" where
  "unwritten vs s \<longleftrightarrow> (\<forall>x \<in> set vs. MaxValue x = MinInt32 \<and>
     (MinStorableValue x = 0 \<longrightarrow> (\<forall>e r. valid_edge s e \<longrightarrow> ev_GetInt ne_access r e s x = Some 0)))"

lemma unwritten_inv:
  assumes "graph_ok s adj" "unwritten vs s"
  shows "writes_inv adj vs s vs s"
proof -
  have "\<exists>m. x = x\<lparr>MaxValue := m\<rparr>" for x :: int_ev by (rule exI [of _ "MaxValue x"]) simp
  then show ?thesis using assms by (auto simp: writes_inv_def tracked_def unwritten_def)
qed

section \<open>Clearing values\<close>

text \<open>Values that start at zero can be cleared on a list of edges; the rest of the graph stays.\<close>

definition same_graph :: "(int \<Rightarrow> int list) \<Rightarrow> nodes_edges \<Rightarrow> nodes_edges \<Rightarrow> bool" where
  "same_graph adj s s1 \<longleftrightarrow> graph_ok s1 adj \<and> bytesForFlags s1 = bytesForFlags s \<and> edgeCount s1 = edgeCount s \<and>
     nodeCount s1 = nodeCount s \<and> (\<forall>e. edge_int s1 e (eDist s1) = edge_int s e (eDist s))"

lemma writes_same_graph: "writes_inv adj vs s vs1 s1 \<Longrightarrow> same_graph adj s s1"
  by (simp add: writes_inv_def same_graph_def)

lemma clearing:
  assumes A: "allocation vs s"
  shows "graph_ok s adj \<Longrightarrow> \<forall>(k, e, r) \<in> set ts. k < length vs \<and> valid_edge s e \<and> in_bounds (vs ! k) 0 \<and> StoreTwoDir (vs ! k) \<Longrightarrow>
    \<exists>s1. same_graph adj s s1 \<and> (\<forall>(k, e, r) \<in> set ts. ev_GetInt ne_access r e s1 (vs ! k) = Some 0)"
proof (induction ts)
  case Nil
  then show ?case by (auto simp: same_graph_def)
next
  case (Cons t ts)
  obtain k e r where t: "t = (k, e, r)" by (cases t)
  obtain s1 where s1: "same_graph adj s s1" "\<forall>(k, e, r) \<in> set ts. ev_GetInt ne_access r e s1 (vs ! k) = Some 0"
    using Cons by auto
  have G: "graph_ok s1 adj" and k: "k < length vs" "valid_edge s1 e" "in_bounds (vs ! k) 0" "StoreTwoDir (vs ! k)"
    using s1(1) Cons.prems(2) by (auto simp: t same_graph_def valid_edge_def)
  obtain es c where al: "\<forall>x \<in> set es. fresh x" "init_all es NewInitializerConfig = Some (vs, c)" "GetRequiredBytes c \<le> bytesForFlags s1"
    using A s1(1) by (auto simp: allocation_def same_graph_def)
  note V = values_fit [OF al graph_okD(1) [OF G]]
  obtain x' s2 where S: "ev_SetInt ne_access r e s1 0 (vs ! k) = Some (x', s2)"
    using ne_eia.SetInt_Some [OF V(1,2) [OF k(2,1)] k(3)] k(4) by blast
  obtain m where m: "x' = (vs ! k)\<lparr>MaxValue := m\<rparr>" using ne_eia.SetInt_elim [OF V(1) [OF k(2,1)] S] by metis
  have own: "ev_GetInt ne_access r e s2 (vs ! k) = Some 0" using ne_eia.SetInt_GetInt(1) [OF V(1,2) [OF k(2,1)] S] m by simp
  have "ev_GetInt ne_access r' e' s2 (vs ! l) = Some 0" if "(l, e', r') \<in> set ts" for l e' r'
  proof (cases "l = k \<and> e' = e \<and> r' = r")
    case False
    have l: "l < length vs" "valid_edge s1 e'" using that Cons.prems(2) s1(1) by (auto simp: same_graph_def valid_edge_def)
    have "disjoint (dir_range (vs ! k) r) (dir_range (vs ! k) r')" if "r' \<noteq> r"
      using V(1) [OF k(2,1)] k(4) that by (cases r; cases r') (auto simp: ready_def dir_range_def disjoint_def)
    then have "e' \<noteq> e \<or> disjoint (dir_range (vs ! k) r) (dir_range (vs ! l) r')"
      using False V(3) [OF k(2,1) l(1)] by (cases "l = k") auto
    then have "ev_GetInt ne_access r' e' s2 (vs ! l) = ev_GetInt ne_access r' e' s1 (vs ! l)"
      by (rule ne_eia.SetInt_frame [OF V(1,2) [OF k(2,1)] S V(1,2) [OF l(2,1)]])
    then show ?thesis using s1(2) that by auto
  qed (use own in simp)
  moreover have "same_graph adj s s2"
    using s1(1) SetInt_graph_ok [OF G V(1,2) [OF k(2,1)] S] SetInt_store [OF G V(1,2) [OF k(2,1)] S]
    by (simp add: same_graph_def)
  ultimately show ?case using own by (auto simp: t)
qed

text \<open>The same value is written to a list of edges.\<close>

lemma writing:
  assumes A: "allocation vs s"
  shows "stored_writes F vs s vs1 s1 \<Longrightarrow> writes_inv adj vs s vs1 s1 \<Longrightarrow>
    \<forall>(k, e, r) \<in> set ts. k < length vs \<and> valid_edge s e \<and> in_bounds (vs ! k) v \<and> StoreTwoDir (vs ! k) \<Longrightarrow>
    \<exists>vs2 s2. stored_writes F vs s vs2 s2 \<and> writes_inv adj vs s vs2 s2 \<and>
      (\<forall>(k, e, r) \<in> set ts. ev_GetInt ne_access r e s2 (vs ! k) = Some v)"
proof (induction ts)
  case Nil
  then show ?case by auto
next
  case (Cons t ts)
  obtain k e r where t: "t = (k, e, r)" by (cases t)
  obtain vs2 s2 where s2: "stored_writes F vs s vs2 s2" and I: "writes_inv adj vs s vs2 s2"
    and old: "\<forall>(k, e, r) \<in> set ts. ev_GetInt ne_access r e s2 (vs ! k) = Some v"
    using Cons by auto
  have valid: "valid_edge s2 = valid_edge s" using I by (auto simp: writes_inv_def valid_edge_def fun_eq_iff)
  have k: "k < length vs" "valid_edge s2 e" "in_bounds (vs ! k) v" "StoreTwoDir (vs ! k)" "k < length vs2"
    using Cons.prems(3) I by (auto simp: t valid writes_inv_def)
  have vs2: "\<exists>m. vs2 ! l = (vs ! l)\<lparr>MaxValue := m\<rparr>" if "l < length vs" for l using I that by (auto simp: writes_inv_def)
  obtain m where m: "vs2 ! k = (vs ! k)\<lparr>MaxValue := m\<rparr>" using vs2 [OF k(1)] by blast
  note f = fits [OF A I k(2,1)]
  obtain x' s3 where S: "ev_SetInt ne_access r e s2 v (vs2 ! k) = Some (x', s3)"
    using ne_eia.SetInt_Some [OF f(1,2), of v r] k(3,4) m by (auto simp: in_bounds_def)
  obtain m' where m': "x' = (vs2 ! k)\<lparr>MaxValue := m'\<rparr>" using ne_eia.SetInt_elim [OF f(1) S] by metis
  have own: "ev_GetInt ne_access r e s3 (vs ! k) = Some v" using ne_eia.SetInt_GetInt(1) [OF f(1,2) S] m m' by simp
  have "ev_GetInt ne_access r' e' s3 (vs ! l) = Some v" if t': "(l, e', r') \<in> set ts" for l e' r'
  proof (cases "l = k \<and> e' = e \<and> r' = r")
    case False
    have l: "l < length vs" "valid_edge s2 e'" using t' Cons.prems(3) by (auto simp: valid)
    obtain n where n: "vs2 ! l = (vs ! l)\<lparr>MaxValue := n\<rparr>" using vs2 [OF l(1)] by blast
    have "disjoint (dir_range (vs2 ! k) r) (dir_range (vs2 ! k) r')" if "r' \<noteq> r"
      using f(1) k(4) m that by (cases r; cases r') (auto simp: ready_def dir_range_def disjoint_def)
    then have "e' \<noteq> e \<or> disjoint (dir_range (vs2 ! k) r) (dir_range (vs2 ! l) r')"
      using False f(3) [OF l(1)] by (cases "l = k") auto
    then have "ev_GetInt ne_access r' e' s3 (vs2 ! l) = ev_GetInt ne_access r' e' s2 (vs2 ! l)"
      by (rule ne_eia.SetInt_frame [OF f(1,2) S fits(1,2) [OF A I l(2,1)]])
    then show ?thesis using old t' n by auto
  qed (use own in simp)
  moreover have "stored_writes F vs s (vs2[k := x']) s3" by (rule integer_write [OF s2 k(5,2) S])
  moreover have "writes_inv adj vs s (vs2[k := x']) s3" by (rule SetInt_step [OF A I k(1,2) S])
  ultimately show ?case using own by (intro exI [of _ "vs2[k := x']"] exI [of _ s3]) (auto simp: t)
qed

end
