(* ===== verification/FastestRoutes.thy ===== *)
theory FastestRoutes imports Weightings ValueWrites begin

text \<open>
  The speed weighting on a stored graph: its values are read from the flags of the edges, its weights keep the
  contract of \<open>Weighting\<close>, and Dijkstra's algorithm with it finds the fastest route.
\<close>

section \<open>The speed weighting keeps the contract\<close>

definition speed_ok :: "nodes_edges \<Rightarrow> decimal_ev \<Rightarrow> bool" where
  "speed_ok s d \<longleftrightarrow> allocated_in s (dec_impl d) \<and> Bits (dec_impl d) \<le> 31 \<and> MinStorableValue (dec_impl d) = 0 \<and>
     \<not> NegateReverseDir (dec_impl d) \<and> (\<exists>f > 0. Factor d = Fin f)"

definition access_ok :: "nodes_edges \<Rightarrow> int_ev option \<Rightarrow> bool" where
  "access_ok s a \<longleftrightarrow> (\<forall>x. a = Some x \<longrightarrow> allocated_in s x)"

definition distances_ok :: "nodes_edges \<Rightarrow> bool" where
  "distances_ok s \<longleftrightarrow> (\<forall>e. valid_edge s e \<longrightarrow> 0 \<le> sint (edge_int s e (eDist s)))"

lemma extract_nonneg:
  assumes "range_ok (i, sh, n)" "n \<le> 31"
  shows "0 \<le> sint (extract_bits flags (push_bit (nat sh) (mask (nat n))) sh)"
proof -
  have "extract_bits flags (push_bit (nat sh) (mask (nat n))) sh = take_bit (nat n) (drop_bit (nat sh) flags)"
    using assms
    by (auto simp: extract_bits_def range_ok_def bit_eq_iff bit_simps)
  then have "bit (extract_bits flags (push_bit (nat sh) (mask (nat n))) sh) 31 = False"
    using assms(2) by (auto simp: bit_simps)
  then show ?thesis by (simp add: sint_uint not_le signed_take_bit_eq_if_positive bit_uint_iff)
qed

lemma read_value:
  assumes "allocated_in s x" "graph_ok s adj" "valid_edge s e"
  shows "\<exists>v. ev_GetInt ne_access r e s x = Some v"
    "Bits x \<le> 31 \<Longrightarrow> MinStorableValue x = 0 \<Longrightarrow> \<not> NegateReverseDir x \<Longrightarrow>
      \<exists>v. ev_GetInt ne_access r e s x = Some v \<and> 0 \<le> sint v"
proof -
  note A = allocated_fits [OF assms]
  obtain i sh n where d: "dir_range x r = (i, sh, n)" by (cases "dir_range x r")
  have h: "ne_eia.holds s e (i, sh, n)" using ne_eia.holds_dir [OF A(2), of r] d by simp
  then obtain f where f: "eia_get ne_access s e i = Some f"
    using ne_eia.get_ok by (fastforce simp: ne_eia.holds_def)
  have R: "ev_GetInt ne_access r e s x =
      Some (signed_dir x r (MinStorableValue x + extract_bits f (push_bit (nat sh) (mask (nat n))) sh))"
    using ev_GetInt_range [OF A(1), of ne_access r e s] d f by (simp add: read_range_def)
  then show "\<exists>v. ev_GetInt ne_access r e s x = Some v" by simp
  assume b: "Bits x \<le> 31" "MinStorableValue x = 0" "\<not> NegateReverseDir x"
  have "n = Bits x" using d by (auto simp: dir_range_def fwd_range_def bwd_range_def split: if_splits)
  moreover have "range_ok (i, sh, n)" using h by (simp add: ne_eia.holds_def)
  ultimately have "0 \<le> sint (extract_bits f (push_bit (nat sh) (mask (nat n))) sh)"
    using extract_nonneg b(1) by blast
  then show "\<exists>v. ev_GetInt ne_access r e s x = Some v \<and> 0 \<le> sint v"
    using R b by (simp add: signed_dir_def)
qed

lemma fnonneg_f64: "0 \<le> q \<Longrightarrow> fnonneg (f64 q)"
  using f64_mono [of 0 q] by simp

lemma read_speed:
  assumes "speed_ok s d" "graph_ok s adj" "valid_edge s e"
  shows "\<exists>x. GetDecimal ne_access r e s d = Some x \<and> wf64 x \<and> fnonneg x"
proof -
  obtain f where f: "0 < f" "Factor d = Fin f" using assms(1) by (auto simp: speed_ok_def)
  obtain v where v: "ev_GetInt ne_access r e s (dec_impl d) = Some v" "0 \<le> sint v"
    using read_value(2) [of s "dec_impl d" adj e r] assms by (auto simp: speed_ok_def)
  have "sint v < 2 ^ 31" "- (2 ^ 31) \<le> sint v" using sint_i32_bounds [of v] by simp_all
  then have i: "f64_of_int (sint v) = Fin (of_int (sint v))" by (intro i32_float)
  have "0 \<le> of_int (sint v) * f" using v(2) f(1) by (intro mult_nonneg_nonneg) (simp_all only: of_int_0_le_iff less_imp_le)
  then show ?thesis using v f i
    by (auto simp: GetDecimal_def intro!: fnonneg_f64)
qed

lemma read_flag:
  assumes "allocated_in s x" "graph_ok s adj" "valid_edge s e"
  shows "\<exists>b. GetBool ne_access r e s x = Some b"
  using read_value(1) [OF assms, of r] by (auto simp: GetBool_def)

lemma read_distance:
  assumes "graph_ok (Store bg) adj" "distances_ok (Store bg)" "valid_edge (Store bg) e"
    "edgePointer st = e * edgeEntryBytes (Store bg)"
  shows "\<exists>x. es_GetDistance bg st = Some (Fin x) \<and> 0 \<le> x"
proof -
  let ?v = "edge_int (Store bg) e (eDist (Store bg))"
  have g: "get_edge_int (e * edgeEntryBytes (Store bg) + eDist (Store bg)) (Store bg) = Some ?v"
    using get_edge_field [OF graph_okD(1) [OF assms(1)], of e "eDist (Store bg)"] ne_offsets [OF graph_okD(1) [OF assms(1)]] assms(3)
    by (auto simp: valid_edge_def)
  have v: "0 \<le> sint ?v" "sint ?v < 2 ^ 31" using assms(2,3) sint_i32_bounds [of ?v] by (auto simp: distances_ok_def)
  then have i: "f64_of_int (sint ?v) = Fin (of_int (sint ?v))" by (intro i32_float) simp_all
  have "\<exists>x. f64 (of_int k / 1000) = Fin x \<and> 0 \<le> x" if k: "0 \<le> k" "k < 2 ^ 31" for k :: int
  proof -
    have "(of_int k :: rat) \<le> of_int (2 ^ 31)" using k(2) by (simp only: of_int_le_iff)
    then have "flt_le (f64 (of_int k / 1000)) (f64 (of_int (2 ^ 31)))"
      by (intro f64_mono) (simp add: divide_le_eq)
    moreover have "f64 (of_int (2 ^ 31)) = Fin (of_int (2 ^ 31))" by (rule f64_of_int_exact) simp
    moreover have "fnonneg (f64 (of_int k / 1000))" using k(1) by (intro fnonneg_f64) simp
    ultimately show ?thesis by (cases "f64 (of_int k / 1000)") auto
  qed
  from this [OF v] show ?thesis using g i by (auto simp: es_GetDistance_def GetDist_def assms(4) intDistFactor_def)
qed

lemma fdiv_nonneg: "0 \<le> x \<Longrightarrow> wf64 y \<Longrightarrow> fnonneg y \<Longrightarrow> y \<noteq> Fin 0 \<Longrightarrow> wf64 (fdiv (Fin x) y) \<and> fnonneg (fdiv (Fin x) y)"
  using fnonneg_cases [of y] by (auto intro!: fnonneg_f64)

lemma speed_edge_weight:
  assumes "graph_ok (Store bg) adj" "distances_ok (Store bg)" "speed_ok (Store bg) (speedEnc w)"
    "access_ok (Store bg) (accessEnc w)" "valid_edge (Store bg) (EdgeID st)"
    "edgePointer st = EdgeID st * edgeEntryBytes (Store bg)"
  shows "\<exists>x. speed_CalcEdgeWeight w bg st r = Some x \<and> wf64 x \<and> fnonneg x"
proof -
  have E: "valid_edge (Store bg) (EdgeID st)" by (rule assms(5))
  obtain d where d: "es_GetDistance bg st = Some (Fin d)" "0 \<le> d"
    using read_distance [OF assms(1,2,5,6)] by blast
  have s: "\<exists>x. GetDecimal ne_access c (EdgeID st) (Store bg) (speedEnc w) = Some x \<and> wf64 x \<and> fnonneg x" for c
    by (rule read_speed [OF assms(3,1,5)])
  obtain v where v: "GetDecimal ne_access (Reverse st) (EdgeID st) (Store bg) (speedEnc w) = Some v" "wf64 v" "fnonneg v"
    using s by blast
  obtain v' where v': "GetDecimal ne_access (\<not> Reverse st) (EdgeID st) (Store bg) (speedEnc w) = Some v'" "wf64 v'" "fnonneg v'"
    using s by blast
  have a: "\<exists>b. GetBool ne_access c (EdgeID st) (Store bg) x = Some b" if "accessEnc w = Some x" for c x
    using read_flag assms(1,4,5) that by (auto simp: access_ok_def)
  show ?thesis
    using d v v' a [of _ "Reverse st"] a [of _ "\<not> Reverse st"] fdiv_nonneg [OF d(2)]
    by (cases r) (fastforce simp: speed_CalcEdgeWeight_def es_GetBool_def es_GetReverseBool_def es_GetDecimal_def
        es_GetReverseDecimal_def flt_eq_def split: option.splits)+
qed

section \<open>The contract\<close>

text \<open>Without turn costs, or with a cost for u-turns in the edge-based mode.\<close>

definition turns_ok :: "turn_cost_provider \<Rightarrow> traversal_mode \<Rightarrow> bool" where
  "turns_ok tcp mode \<longleftrightarrow> tcp = NoTurnCostProvider \<or>
     (mode = EdgeBased \<and> (\<exists>tcs na u. tcp = DefaultTurnCostProvider None tcs na u \<and> wf64 u \<and> fnonneg u))"

definition u_turn :: "turn_cost_provider \<Rightarrow> flt" where
  "u_turn tcp = (case tcp of DefaultTurnCostProvider _ _ _ u \<Rightarrow> u | _ \<Rightarrow> Fin 0)"

definition speed_weighting_ok :: "base_graph \<Rightarrow> speed_weighting \<Rightarrow> traversal_mode \<Rightarrow> bool" where
  "speed_weighting_ok bg w mode \<longleftrightarrow> distances_ok (Store bg) \<and> speed_ok (Store bg) (speedEnc w) \<and>
     access_ok (Store bg) (accessEnc w) \<and> turns_ok (turnCostProvider w) mode"

lemma turn_weight:
  assumes "turns_ok tcp mode" "0 \<le> e" "0 \<le> e'"
  shows "tcp_CalcTurnWeight tcp e n e' = Some (if e = e' then u_turn tcp else Fin 0)"
    "wf64 (u_turn tcp)" "fnonneg (u_turn tcp)" "mode = NodeBased \<Longrightarrow> u_turn tcp = Fin 0"
    "\<exists>x. tcp_CalcTurnMillis tcp e n e' = Some x"
  using assms
  by (auto simp: turns_ok_def u_turn_def default_CalcTurnWeight_def EdgeIsValid_def)

lemma state_facts:
  assumes "graph_ok (Store bg) adj" "valid_node (Store bg) n" "st \<in> set (states_at bg adj n)"
  shows "valid_edge (Store bg) (EdgeID st)" "edgePointer st = EdgeID st * edgeEntryBytes (Store bg)" "0 \<le> EdgeID st"
  using states_atD [OF assms] by (auto simp: edge_view_def valid_edge_def)

lemma speed_contract:
  assumes "graph_ok (Store bg) adj" "speed_weighting_ok bg w mode"
  shows "weighting_ok bg adj (speed_iface w bg) mode"
proof -
  note w = assms(2) [unfolded speed_weighting_ok_def]
  have e: "\<exists>x. speed_CalcEdgeWeight w bg st False = Some x \<and> wf64 x \<and> fnonneg x"
    if "valid_node (Store bg) n" "st \<in> set (states_at bg adj n)" for n st
    using speed_edge_weight [OF assms(1), of w st False] w state_facts [OF assms(1) that] by blast
  have z: "wf64 (Fin 0)" using wf64_of_int [of 0] by simp
  have t: "(\<exists>x. tcp_CalcTurnWeight (turnCostProvider w) (EdgeID st') n (EdgeID st) = Some x \<and> wf64 x \<and> fnonneg x \<and>
        (mode = NodeBased \<longrightarrow> x = Fin 0)) \<and>
      (\<exists>x. tcp_CalcTurnMillis (turnCostProvider w) (EdgeID st') n (EdgeID st) = Some x)"
    if "valid_node (Store bg) n" "valid_node (Store bg) m" "st \<in> set (states_at bg adj n)" "st' \<in> set (states_at bg adj m)" for n m st st'
    using turn_weight [of "turnCostProvider w" mode "EdgeID st'" "EdgeID st"] w z
      state_facts(3) [OF assms(1) that(1,3)] state_facts(3) [OF assms(1) that(2,4)] by auto
  show ?thesis
    unfolding weighting_ok_def
    using e t by (fastforce simp: speed_iface_def speed_CalcEdgeMillis_def)
qed

text \<open>
  What a driver needs for an edge: its stored length over its stored speed, or forever when it has an access flag that
  is not set or a speed of zero; and after the edge \<open>prev\<close>, where turning back onto the same edge costs extra.
\<close>

definition leg_time :: "speed_weighting \<Rightarrow> base_graph \<Rightarrow> edge_state \<Rightarrow> flt" where
  "leg_time w bg st =
     (let speed = the (es_GetDecimal (speedEnc w) bg st);
          closed = (\<exists>access. accessEnc w = Some access \<and> es_GetBool access bg st = Some False)
      in if closed \<or> speed = Fin 0 then PInf else fdiv (the (es_GetDistance bg st)) speed)"

definition leg_cost :: "speed_weighting \<Rightarrow> base_graph \<Rightarrow> int \<Rightarrow> edge_state \<Rightarrow> flt" where
  "leg_cost w bg prev st =
     (if prev = EdgeID st then fadd (leg_time w bg st) (u_turn (turnCostProvider w)) else leg_time w bg st)"

lemma speed_leg_time:
  assumes "graph_ok (Store bg) adj" "speed_weighting_ok bg w mode" "valid_edge (Store bg) (EdgeID st)"
    "edgePointer st = EdgeID st * edgeEntryBytes (Store bg)"
  shows "speed_CalcEdgeWeight w bg st False = Some (leg_time w bg st)"
proof -
  note w = assms(2) [unfolded speed_weighting_ok_def]
  obtain d where d: "es_GetDistance bg st = Some (Fin d)"
    using read_distance [OF assms(1) _ assms(3,4)] w by blast
  obtain v where v: "es_GetDecimal (speedEnc w) bg st = Some v" "fnonneg v"
    using read_speed [OF _ assms(1,3)] w by (fastforce simp: es_GetDecimal_def)
  have a: "\<exists>b. es_GetBool x bg st = Some b" if "accessEnc w = Some x" for x
    using read_flag [OF _ assms(1,3)] w that by (fastforce simp: es_GetBool_def access_ok_def)
  have z: "flt_eq v (Fin 0) \<longleftrightarrow> v = Fin 0" using v(2) by (cases v) (auto simp: flt_eq_def)
  show ?thesis
  proof (cases "accessEnc w")
    case None
    then show ?thesis using d v z by (simp add: speed_CalcEdgeWeight_def leg_time_def Let_def)
  next
    case (Some x)
    then obtain b where "es_GetBool x bg st = Some b" using a by blast
    then show ?thesis using Some d v z by (cases b) (simp_all add: speed_CalcEdgeWeight_def leg_time_def Let_def)
  qed
qed

lemma leg_cost_step:
  assumes "graph_ok (Store bg) adj" "speed_weighting_ok bg w mode" "valid_node (Store bg) n" "st \<in> set (states_at bg adj n)"
  shows "step_weight (speed_iface w bg) prev st = leg_cost w bg prev st"
proof -
  note w = assms(2) [unfolded speed_weighting_ok_def] and st = state_facts [OF assms(1,3,4)]
  note x = speed_leg_time [OF assms(1,2) st(1,2)]
  have wf: "wf64 (leg_time w bg st)" using speed_edge_weight [OF assms(1) _ _ _ st(1,2), of w False] w x by auto
  show ?thesis
    using x turn_weight(1) [of "turnCostProvider w" mode prev "EdgeID st" "BaseNode st"] w st(3)
      fadd_0 [OF wf]
    by (auto simp: step_weight_def leg_cost_def CalcWeightWithTurnWeight_def speed_iface_def EdgeIsValid_def
        fadd_commute [of "leg_time w bg st" "Fin 0"])
qed

lemma walk_leg_cost:
  assumes "graph_ok (Store bg) adj" "speed_weighting_ok bg w mode"
  shows "valid_node (Store bg) n \<Longrightarrow> walk (states_at bg adj) n ws \<Longrightarrow>
    walk_weight (step_weight (speed_iface w bg)) prev c ws = walk_weight (leg_cost w bg) prev c ws"
proof (induction ws arbitrary: n prev c)
  case (Cons st ws)
  then have st: "st \<in> set (states_at bg adj n)" and ws: "walk (states_at bg adj) (AdjNode st) ws" by auto
  have "valid_node (Store bg) (AdjNode st)"
    using states_atD [OF assms(1) Cons.prems(1) st] graph_okD(2,3) [OF assms(1)] by auto
  from Cons.IH [OF this ws] leg_cost_step [OF assms Cons.prems(1) st] show ?case by simp
qed simp

section \<open>The result of a search\<close>

text \<open>A search without limits of time and of visited nodes, which starts at a time that is not negative.\<close>

definition unlimited :: "int \<Rightarrow> i64 \<Rightarrow> i64 \<Rightarrow> bool" where
  "unlimited k t now \<longleftrightarrow> k = MaxInt \<and> t = MaxInt64 \<and> 0 \<le>s now"

lemma search_result:
  assumes "routable bg adj W mode from'" "NewDijkstra (base_graph_iface bg) W mode = Some d"
    and cost: "\<And>ws. walk (states_at bg adj) from' ws \<Longrightarrow> walk_weight (step_weight W) noEdge (Fin 0) ws = cost ws"
  shows "\<exists>path d'. dij_CalcPath clock from' to (SetMaxVisitedNodes k (SetTimeoutMillis t d)) = Some (path, d') \<and>
    (Found path \<longrightarrow> (\<exists>ws. walk (states_at bg adj) from' ws \<and> walk_end from' ws = to \<and> EdgeIDs path = map EdgeID ws \<and>
       path_Weight path = cost ws \<and> path_Weight path \<noteq> PInf \<and>
       (\<forall>vs. walk (states_at bg adj) from' vs \<and> walk_end from' vs = to \<longrightarrow> flt_le (path_Weight path) (cost vs)))) \<and>
    (unlimited k t (clock 0) \<longrightarrow>
       (Found path \<longleftrightarrow> (\<exists>ws. walk (states_at bg adj) from' ws \<and> walk_end from' ws = to \<and> cost ws \<noteq> PInf)))"
proof -
  note N = new_dijkstra_unused [OF assms(2), of k t]
  have fin: "FinishTimeMillis (SetupFinishTime (clock 0) (SetMaxVisitedNodes k (SetTimeoutMillis t d))) = MaxInt64 \<and>
      int (card (bgr.traversal_ids mode bg adj W from')) + 2 \<le> MaxVisitedNodes (SetMaxVisitedNodes k (SetTimeoutMillis t d))"
    if "unlimited k t (clock 0)"
    using that finish_time_max [of _ "clock 0"] N(2,3) traversal_ids_bound [OF assms(1)] by (simp add: unlimited_def)
  from bgr.CalcPath_result [OF N(1) assms(1), of clock to] obtain path d' where P:
    "dij_CalcPath clock from' to (SetMaxVisitedNodes k (SetTimeoutMillis t d)) = Some (path, d')"
    "Found path \<longrightarrow> (\<exists>ws. walk (states_at bg adj) from' ws \<and> walk_end from' ws = to \<and> EdgeIDs path = map EdgeID ws \<and>
       path_Weight path = walk_weight (step_weight W) noEdge (Fin 0) ws \<and> path_Weight path \<noteq> PInf \<and>
       FromNode path = from' \<and> EndNode path = to \<and>
       (\<forall>vs. walk (states_at bg adj) from' vs \<and> walk_end from' vs = to \<longrightarrow>
         flt_le (path_Weight path) (walk_weight (step_weight W) noEdge (Fin 0) vs)))"
    "\<not> Found path \<longrightarrow> path = NewPath (base_graph_iface bg) \<and>
      (int (card (bgr.traversal_ids mode bg adj W from')) + 2 \<le> MaxVisitedNodes (SetMaxVisitedNodes k (SetTimeoutMillis t d)) \<and>
         FinishTimeMillis (SetupFinishTime (clock 0) (SetMaxVisitedNodes k (SetTimeoutMillis t d))) = MaxInt64 \<longrightarrow>
       (\<forall>ws. walk (states_at bg adj) from' ws \<and> walk_end from' ws = to \<longrightarrow> walk_weight (step_weight W) noEdge (Fin 0) ws = PInf))"
    by (elim exE conjE) (rule that)
  have best: "\<exists>ws. walk (states_at bg adj) from' ws \<and> walk_end from' ws = to \<and> EdgeIDs path = map EdgeID ws \<and>
       path_Weight path = cost ws \<and> path_Weight path \<noteq> PInf \<and>
       (\<forall>vs. walk (states_at bg adj) from' vs \<and> walk_end from' vs = to \<longrightarrow> flt_le (path_Weight path) (cost vs))" if "Found path"
  proof -
    from mp [OF P(2) that] obtain ws where ws: "walk (states_at bg adj) from' ws" "walk_end from' ws = to" "EdgeIDs path = map EdgeID ws"
      "path_Weight path = walk_weight (step_weight W) noEdge (Fin 0) ws" "path_Weight path \<noteq> PInf"
      "\<forall>vs. walk (states_at bg adj) from' vs \<and> walk_end from' vs = to \<longrightarrow>
         flt_le (path_Weight path) (walk_weight (step_weight W) noEdge (Fin 0) vs)" by (elim exE conjE) (rule that)
    then show ?thesis using cost by (intro exI [of _ ws]) auto
  qed
  have none: "cost ws = PInf" if "\<not> Found path" "unlimited k t (clock 0)" "walk (states_at bg adj) from' ws" "walk_end from' ws = to" for ws
  proof -
    note all = mp [OF P(3) that(1), THEN conjunct2]
    have "walk_weight (step_weight W) noEdge (Fin 0) ws = PInf"
      using mp [OF all conjI [OF conjunct2 [OF fin [OF that(2)]] conjunct1 [OF fin [OF that(2)]]]] that(3,4) by blast
    then show ?thesis using cost [OF that(3)] by simp
  qed
  have "Found path \<longleftrightarrow> (\<exists>ws. walk (states_at bg adj) from' ws \<and> walk_end from' ws = to \<and> cost ws \<noteq> PInf)"
    if "unlimited k t (clock 0)"
  proof
    assume "Found path"
    from best [OF this] show "\<exists>ws. walk (states_at bg adj) from' ws \<and> walk_end from' ws = to \<and> cost ws \<noteq> PInf" by auto
  next
    assume "\<exists>ws. walk (states_at bg adj) from' ws \<and> walk_end from' ws = to \<and> cost ws \<noteq> PInf"
    then show "Found path" using none [OF _ that] by blast
  qed
  then show ?thesis using P(1) best by (intro exI [of _ path] exI [of _ d'] conjI impI)
qed

section \<open>The fastest route\<close>

text \<open>
  C3. With the speed weighting Dijkstra's algorithm on a stored graph returns, and the path it finds is a walk with
  the least travel time of all walks between the nodes. The time of an edge is its stored distance divided by its
  stored speed; an edge whose access flag is not set or whose speed is zero takes forever and is never on the path.
  In the edge-based mode a u-turn adds its own cost. Without limits a path is found exactly when some walk takes less
  than forever. The length of an edge must not be negative, its speed not below zero, and turns cost nothing but for
  u-turns.
\<close>

theorem fastest_route:
  assumes "graph_ok (Store bg) adj" "speed_weighting_ok bg w mode" "valid_node (Store bg) from'"
    "NewDijkstra (base_graph_iface bg) (speed_iface w bg) mode = Some d"
  shows "\<exists>path d'. dij_CalcPath clock from' to (SetMaxVisitedNodes k (SetTimeoutMillis t d)) = Some (path, d') \<and>
    (Found path \<longrightarrow> (\<exists>ws. walk (states_at bg adj) from' ws \<and> walk_end from' ws = to \<and> EdgeIDs path = map EdgeID ws \<and>
       path_Weight path = walk_weight (leg_cost w bg) noEdge (Fin 0) ws \<and> path_Weight path \<noteq> PInf \<and>
       (\<forall>vs. walk (states_at bg adj) from' vs \<and> walk_end from' vs = to \<longrightarrow>
         flt_le (path_Weight path) (walk_weight (leg_cost w bg) noEdge (Fin 0) vs)))) \<and>
    (unlimited k t (clock 0) \<longrightarrow> (Found path \<longleftrightarrow> (\<exists>ws. walk (states_at bg adj) from' ws \<and> walk_end from' ws = to \<and>
       walk_weight (leg_cost w bg) noEdge (Fin 0) ws \<noteq> PInf)))"
proof -
  have r: "routable bg adj (speed_iface w bg) mode from'" using assms(1,3) speed_contract [OF assms(1,2)] by (simp add: routable_def)
  show ?thesis by (rule search_result [OF r assms(4) walk_leg_cost [OF assms(1,2,3)]])
qed

subsection \<open>Storing distances\<close>

lemma SetDist_entry:
  assumes "graph_ok s adj" "valid_edge s e" "distToInt x = Some v"
  obtains s' where "SetDist (e * edgeEntryBytes s) x s = Some s'" "graph_ok s' adj"
    "edgeCount s' = edgeCount s" "nodeCount s' = nodeCount s" "bytesForFlags s' = bytesForFlags s"
    "\<And>e'. edge_int s' e' (eDist s') = (if e' = e then word_of_int v else edge_int s e' (eDist s))"
proof -
  note inv = graph_okD(1) [OF assms(1)]
  note off = ne_offsets [OF inv]
  have e: "0 \<le> e" "e < edgeCount s" using assms(2) by (simp_all add: valid_edge_def)
  obtain d where d: "set_edge_int (e * edgeEntryBytes s + eDist s) (word_of_int v) s = Some (s\<lparr>edges := d\<rparr>)"
    "ne_inv (s\<lparr>edges := d\<rparr>)"
    "\<And>e' o'. 0 \<le> o' \<Longrightarrow> o' + 4 \<le> edgeEntryBytes s \<Longrightarrow> o' = eDist s \<or> o' + 4 \<le> eDist s \<or> eDist s + 4 \<le> o' \<Longrightarrow>
      edge_int (s\<lparr>edges := d\<rparr>) e' o' = (if e' = e \<and> o' = eDist s then word_of_int v else edge_int s e' o')"
    by (rule set_edge_field [OF inv e, of "eDist s" "word_of_int v"]) (use off in auto)
  show ?thesis
  proof (rule that)
    show "SetDist (e * edgeEntryBytes s) x s = Some (s\<lparr>edges := d\<rparr>)" using assms(3) d(1) by (simp add: SetDist_def)
    show "graph_ok (s\<lparr>edges := d\<rparr>) adj"
      by (rule graph_ok_cong [OF assms(1) d(2)]) (use d(3) off in auto)
    show "edge_int (s\<lparr>edges := d\<rparr>) e' (eDist (s\<lparr>edges := d\<rparr>)) =
        (if e' = e then word_of_int v else edge_int s e' (eDist s))" for e'
      using d(3) [of "eDist s" e'] off by simp
  qed simp_all
qed

text \<open>The graph with a length of one metre for each edge.\<close>

fun set_dists :: "(int \<times> flt) list \<Rightarrow> nodes_edges \<Rightarrow> nodes_edges option" where
  "set_dists [] s = Some s"
| "set_dists ((e, x) # es) s = do { p \<leftarrow> ToEdgePointer e s; s \<leftarrow> SetDist p x s; set_dists es s }"

lemma set_dists_ok:
  assumes "graph_ok s adj" "\<forall>(e, x) \<in> set es. valid_edge s e \<and> distToInt x = Some 1000"
  shows "\<exists>s'. set_dists es s = Some s' \<and> graph_ok s' adj \<and> edgeCount s' = edgeCount s \<and> nodeCount s' = nodeCount s \<and>
    bytesForFlags s' = bytesForFlags s \<and>
    (\<forall>e. edge_int s' e (eDist s') = (if e \<in> fst ` set es then 1000 else edge_int s e (eDist s)))"
  using assms
proof (induction es arbitrary: s)
  case (Cons a es)
  obtain e x where a: "a = (e, x)" by (cases a)
  have e: "valid_edge s e" "distToInt x = Some 1000" using Cons.prems(2) by (auto simp: a)
  obtain s1 where s1: "SetDist (e * edgeEntryBytes s) x s = Some s1" "graph_ok s1 adj"
    "edgeCount s1 = edgeCount s" "nodeCount s1 = nodeCount s" "bytesForFlags s1 = bytesForFlags s"
    "\<And>e'. edge_int s1 e' (eDist s1) = (if e' = e then word_of_int 1000 else edge_int s e' (eDist s))"
    by (rule SetDist_entry [OF Cons.prems(1) e]) blast
  have "\<forall>(e, x) \<in> set es. valid_edge s1 e \<and> distToInt x = Some 1000" using Cons.prems(2) s1(3) by (auto simp: valid_edge_def)
  from Cons.IH [OF s1(2) this] obtain s' where s': "set_dists es s1 = Some s'" "graph_ok s' adj"
    "edgeCount s' = edgeCount s1" "nodeCount s' = nodeCount s1" "bytesForFlags s' = bytesForFlags s1"
    "\<forall>e. edge_int s' e (eDist s') = (if e \<in> fst ` set es then 1000 else edge_int s1 e (eDist s1))" by blast
  show ?case using s1 s' e(1) by (auto simp: a ToEdgePointer_def valid_edge_def)
qed simp

lemma one_metre: "distToInt (Fin 1) = Some 1000"
proof -
  have m: "f64_of_int MaxInt32 = Fin (of_int MaxInt32)" by (intro i32_float) simp_all
  have "flt_le (f64 1) (f64 (of_int MaxInt32 / 1000))" by (intro f64_mono) simp
  moreover have "f64 1 = Fin 1" using f64_of_int_exact [of 1] by simp
  ultimately have "flt_le (Fin 1) MaxDist" using m by (simp add: MaxDist_def intDistFactor_def)
  then have "\<not> flt_less MaxDist (Fin 1)" by (simp add: flt_less_iff)
  moreover have "f64 1000 = Fin 1000" using f64_of_int_exact [of 1000] by simp
  moreover have "round_half_away 1000 = 1000" by (simp add: round_half_away_def floor_eq_iff)
  ultimately show ?thesis
    by (simp add: distToInt_def intDistFactor_def Let_def rat_trunc_def)
qed

definition metre_graph :: base_graph where
  "metre_graph = sample_graph\<lparr>Store := the (set_dists [(0, Fin 1), (1, Fin 1), (2, Fin 1)] (Store sample_graph))\<rparr>"

lemma metre_graph_ok:
  "graph_ok (Store metre_graph) sample_lists" "distances_ok (Store metre_graph)" "valid_node (Store metre_graph) 0"
  "edgeCount (Store metre_graph) = 3" "bytesForFlags (Store metre_graph) = 7"
  and metre_lengths: "e \<in> {0, 1, 2} \<Longrightarrow> edge_int (Store metre_graph) e (eDist (Store metre_graph)) = 1000"
proof -
  have "\<forall>(e, x) \<in> set [(0, Fin 1), (1, Fin 1), (2, Fin 1)]. valid_edge (Store sample_graph) e \<and> distToInt x = Some 1000"
    using one_metre sample_graph_ok(2) by (simp add: valid_edge_def)
  from set_dists_ok [OF sample_graph_ok(1) this]
  obtain s where s: "set_dists [(0, Fin 1), (1, Fin 1), (2, Fin 1)] (Store sample_graph) = Some s" "graph_ok s sample_lists"
    "edgeCount s = 3" "nodeCount s = nodeCount (Store sample_graph)" "bytesForFlags s = 7"
    "\<forall>e. edge_int s e (eDist s) = (if e \<in> {0, 1, 2} then 1000 else edge_int (Store sample_graph) e (eDist (Store sample_graph)))"
    using sample_graph_ok(2,3) by auto
  have g: "Store metre_graph = s" using s(1) by (simp add: metre_graph_def del: set_dists.simps)
  show "graph_ok (Store metre_graph) sample_lists" "edgeCount (Store metre_graph) = 3" "bytesForFlags (Store metre_graph) = 7"
    using s by (simp_all add: g)
  show "valid_node (Store metre_graph) 0" using sample_nodes(1) s(4) by (simp add: g valid_node_def)
  show "e \<in> {0, 1, 2} \<Longrightarrow> edge_int (Store metre_graph) e (eDist (Store metre_graph)) = 1000" using s(6) by (simp add: g)
  have "e \<in> {0, 1, 2}" if "valid_edge s e" for e using that s(3) by (auto simp: valid_edge_def)
  then show "distances_ok (Store metre_graph)" using s(6) by (auto simp: g distances_ok_def)
qed

subsection \<open>A car on this graph\<close>

definition car_values :: "int_ev list" where
  "car_values = [the (NewIntEncodedValueImpl ''car_average_speed'' 5 True), the (NewSimpleBooleanEncodedValueDir ''car_access'' True)]"

definition car_slots :: "int_ev list" where "car_slots = fst (the (init_all car_values NewInitializerConfig))"

lemma car_slots:
  "bytesForFlags s = 7 \<Longrightarrow> allocation car_slots s" "length car_slots = 2" "Bits (car_slots ! 0) = 5"
  "k < 2 \<Longrightarrow> MinStorableValue (car_slots ! k) = 0" "k < 2 \<Longrightarrow> StoreTwoDir (car_slots ! k)" "k < 2 \<Longrightarrow> \<not> NegateReverseDir (car_slots ! k)"
  "k < 2 \<Longrightarrow> MaxValue (car_slots ! k) = MinInt32" "sint (MaxStorableValue (car_slots ! 0)) = 31" "sint (MaxStorableValue (car_slots ! 1)) = 1"
proof -
  have "case init_all car_values NewInitializerConfig of None \<Rightarrow> False | Some (es', c) \<Rightarrow>
      GetRequiredBytes c = 2 \<and> length es' = 2 \<and> Bits (es' ! 0) = 5 \<and>
      list_all (\<lambda>x. MinStorableValue x = 0 \<and> StoreTwoDir x \<and> \<not> NegateReverseDir x \<and> MaxValue x = MinInt32) es' \<and>
      sint (MaxStorableValue (es' ! 0)) = 31 \<and> sint (MaxStorableValue (es' ! 1)) = 1" by code_simp
  then obtain es' c where I: "init_all car_values NewInitializerConfig = Some (es', c)" "GetRequiredBytes c = 2"
    "length es' = 2" "Bits (es' ! 0) = 5"
    "\<forall>x \<in> set es'. MinStorableValue x = 0 \<and> StoreTwoDir x \<and> \<not> NegateReverseDir x \<and> MaxValue x = MinInt32"
    "sint (MaxStorableValue (es' ! 0)) = 31" "sint (MaxStorableValue (es' ! 1)) = 1" by (auto simp: list_all_iff split: option.splits)
  have s: "car_slots = es'" by (simp add: car_slots_def I(1))
  have "NewIntEncodedValueImpl ''car_average_speed'' 5 True \<noteq> None" "NewSimpleBooleanEncodedValueDir ''car_access'' True \<noteq> None"
    by code_simp+
  then have "\<forall>x \<in> set car_values. fresh x"
    using NewInt_fresh(1) by (auto simp: car_values_def NewSimpleBooleanEncodedValueDir_def)
  then show "bytesForFlags s = 7 \<Longrightarrow> allocation car_slots s" using I(1,2) s by (auto simp: allocation_def)
  show "length car_slots = 2" "Bits (car_slots ! 0) = 5" "sint (MaxStorableValue (car_slots ! 0)) = 31"
    "sint (MaxStorableValue (car_slots ! 1)) = 1" using I s by simp_all
  show "k < 2 \<Longrightarrow> MinStorableValue (car_slots ! k) = 0" "k < 2 \<Longrightarrow> StoreTwoDir (car_slots ! k)" "k < 2 \<Longrightarrow> \<not> NegateReverseDir (car_slots ! k)"
    "k < 2 \<Longrightarrow> MaxValue (car_slots ! k) = MinInt32" using I(3,5) s by simp_all
qed

definition car_speed :: decimal_ev where "car_speed = plain_decimal (car_slots ! 0) (Fin 1)"

text \<open>
  The three edges without access and speed, and then the edges 0 and 2 opened in both directions with speed 1; the
  direct edge from node 0 to node 2 stays closed.
\<close>

lemma open_graph:
  obtains s0 vs and bg :: base_graph where "graph_ok s0 sample_lists" "allocation car_slots s0" "unwritten car_slots s0"
    "stored_writes (\<lambda>_. Fin 1) car_slots s0 vs (Store bg)" "writes_inv sample_lists car_slots s0 vs (Store bg)"
    "bytesForFlags s0 = 7" "edgeCount s0 = 3" "nodeCount s0 = nodeCount (Store metre_graph)"
    "\<forall>e \<in> {0, 1, 2}. edge_int (Store bg) e (eDist (Store bg)) = 1000"
    "\<And>e k r. e \<in> {0, 2} \<Longrightarrow> k < 2 \<Longrightarrow> ev_GetInt ne_access r e (Store bg) (car_slots ! k) = Some 1"
proof -
  note M = metre_graph_ok
  have v3: "valid_edge t e \<longleftrightarrow> e \<in> {0, 1, 2}" if "edgeCount t = 3" for t e using that by (auto simp: valid_edge_def)
  define ts where "ts = (\<lambda>es. [(k, e, r). k \<leftarrow> [0, 1 :: nat], e \<leftarrow> es :: int list, r \<leftarrow> [False, True]])"
  have ts: "(k, e, r) \<in> set (ts es) \<longleftrightarrow> k < 2 \<and> e \<in> set es" for k e r es by (cases r) (auto simp: ts_def less_2_cases_iff)
  have A: "allocation car_slots (Store metre_graph)" by (rule car_slots(1) [OF M(5)])
  have b: "in_bounds (car_slots ! k) 0" "in_bounds (car_slots ! k) 1" if "k < 2" for k
    using car_slots(4) [OF that] car_slots(8,9) that by (auto simp: in_bounds_def less_2_cases_iff)
  have "\<forall>(k, e, r) \<in> set (ts [0, 1, 2]). k < length car_slots \<and> valid_edge (Store metre_graph) e \<and> in_bounds (car_slots ! k) 0 \<and>
      StoreTwoDir (car_slots ! k)"
    using car_slots(2,5) b(1) v3 [OF M(4)] by (auto simp: ts)
  from clearing [OF A M(1) this] obtain s0 where s0: "same_graph sample_lists (Store metre_graph) s0"
    "\<forall>(k, e, r) \<in> set (ts [0, 1, 2]). ev_GetInt ne_access r e s0 (car_slots ! k) = Some 0" by blast
  have g0: "graph_ok s0 sample_lists" "bytesForFlags s0 = 7" "edgeCount s0 = 3" "nodeCount s0 = nodeCount (Store metre_graph)"
    "\<And>e. edge_int s0 e (eDist s0) = edge_int (Store metre_graph) e (eDist (Store metre_graph))"
    using s0(1) M by (simp_all add: same_graph_def)
  have A0: "allocation car_slots s0" by (rule car_slots(1) [OF g0(2)])
  have "ev_GetInt ne_access r e s0 (car_slots ! k) = Some 0" if "k < 2" "e \<in> {0, 1, 2}" for k e r
    using bspec [OF s0(2), of "(k, e, r)"] that by (auto simp: ts)
  then have U: "unwritten car_slots s0"
    using car_slots(2,7) v3 [OF g0(3)] by (auto simp: unwritten_def in_set_conv_nth)
  note I0 = unwritten_inv [OF g0(1) U]
  have "\<forall>(k, e, r) \<in> set (ts [0, 2]). k < length car_slots \<and> valid_edge s0 e \<and> in_bounds (car_slots ! k) 1 \<and> StoreTwoDir (car_slots ! k)"
    using car_slots(2,5) b(2) v3 [OF g0(3)] by (auto simp: ts)
  from writing [OF A0 no_write I0 this] obtain vs t where t: "stored_writes (\<lambda>_. Fin 1) car_slots s0 vs t"
    "writes_inv sample_lists car_slots s0 vs t" "\<forall>(k, e, r) \<in> set (ts [0, 2]). ev_GetInt ne_access r e t (car_slots ! k) = Some 1"
    by blast
  let ?bg = "metre_graph\<lparr>Store := t\<rparr>"
  show thesis
  proof (rule that [of s0 vs ?bg, OF g0(1) A0 U _ _ g0(2-4)])
    show "stored_writes (\<lambda>_. Fin 1) car_slots s0 vs (Store ?bg)" "writes_inv sample_lists car_slots s0 vs (Store ?bg)" using t(1,2) by simp_all
    show "\<forall>e \<in> {0, 1, 2}. edge_int (Store ?bg) e (eDist (Store ?bg)) = 1000"
      using t(2) g0(5) metre_lengths by (simp add: writes_inv_def)
    show "ev_GetInt ne_access r e (Store ?bg) (car_slots ! k) = Some 1" if "e \<in> {0, 2}" "k < 2" for e k r
      using that bspec [OF t(3), of "(k, e, r)"] by (auto simp: ts)
  qed
qed

lemma open_graph_ok:
  assumes "allocation car_slots s0" "writes_inv sample_lists car_slots s0 vs (Store bg)" "bytesForFlags s0 = 7" "edgeCount s0 = 3"
    "nodeCount s0 = nodeCount (Store metre_graph)" "\<forall>e \<in> {0, 1, 2}. edge_int (Store bg) e (eDist (Store bg)) = 1000"
  shows "graph_ok (Store bg) sample_lists" "distances_ok (Store bg)" "edgeCount (Store bg) = 3"
    "valid_node (Store bg) 0" "valid_node (Store bg) 1" "valid_node (Store bg) 2" "k < 2 \<Longrightarrow> allocated_in (Store bg) (car_slots ! k)"
proof -
  show g: "graph_ok (Store bg) sample_lists" "edgeCount (Store bg) = 3" using assms(2,4) by (simp_all add: writes_inv_def)
  show "valid_node (Store bg) 0" "valid_node (Store bg) 1" "valid_node (Store bg) 2"
    using graph_okD(8) [OF g(1), of 0] graph_okD(8) [OF g(1), of 1] graph_okD(8) [OF g(1), of 2] by auto
  have "e \<in> {0, 1, 2}" if "valid_edge (Store bg) e" for e using that g(2) by (auto simp: valid_edge_def)
  then have "edge_int (Store bg) e (eDist (Store bg)) = 1000" if "valid_edge (Store bg) e" for e using that assms(6) by blast
  then show "distances_ok (Store bg)" by (simp add: distances_ok_def)
  have "allocation car_slots (Store bg)" using assms(2,3) by (intro car_slots(1)) (simp add: writes_inv_def)
  then show "k < 2 \<Longrightarrow> allocated_in (Store bg) (car_slots ! k)" using car_slots(2) nth_mem [of k car_slots]
    by (auto simp: allocation_def allocated_in_def)
qed

text \<open>What the states of the open edges read.\<close>

lemma open_edge:
  assumes "graph_ok (Store bg) sample_lists" "edgeCount (Store bg) = 3" "edge_int (Store bg) (EdgeID st) (eDist (Store bg)) = 1000"
    "\<And>k r. k < 2 \<Longrightarrow> ev_GetInt ne_access r (EdgeID st) (Store bg) (car_slots ! k) = Some 1" "EdgeID st \<in> {0, 2}"
    "edgePointer st = EdgeID st * edgeEntryBytes (Store bg)"
  shows "es_GetDecimal car_speed bg st = Some (Fin 1)" "es_GetBool (car_slots ! 1) bg st = Some True" "es_GetDistance bg st = Some (Fin 1)"
proof -
  have one: "f64_of_int 1 = Fin 1" "f64 1 = Fin 1" using i32_float [of 1] f64_small_int(1) by simp_all
  show "es_GetDecimal car_speed bg st = Some (Fin 1)"
    using assms(4) [of 0] one by (simp add: es_GetDecimal_def GetDecimal_def car_speed_def)
  show "es_GetBool (car_slots ! 1) bg st = Some True" using assms(4) [of 1] by (simp add: es_GetBool_def GetBool_def)
  have "valid_edge (Store bg) (EdgeID st)" using assms(2,5) by (auto simp: valid_edge_def)
  then have "get_edge_int (edgePointer st + eDist (Store bg)) (Store bg) = Some 1000"
    using get_edge_field [OF graph_okD(1) [OF assms(1)], of "EdgeID st" "eDist (Store bg)"] ne_offsets [OF graph_okD(1) [OF assms(1)]]
      assms(3,6) by (simp add: valid_edge_def)
  moreover have "f64_of_int 1000 = Fin 1000" using i32_float [of 1000] by simp
  ultimately show "es_GetDistance bg st = Some (Fin 1)"
    using one by (simp add: es_GetDistance_def GetDist_def intDistFactor_def)
qed

text \<open>The walk over node 1.\<close>

lemma open_walk:
  assumes "graph_ok (Store bg) sample_lists" "valid_node (Store bg) 0" "valid_node (Store bg) 1" "valid_node (Store bg) 2"
  obtains a b where "walk (states_at bg sample_lists) 0 [a, b]" "walk_end 0 [a, b] = 2" "EdgeID a = 0" "EdgeID b = 2"
    "edgePointer a = EdgeID a * edgeEntryBytes (Store bg)" "edgePointer b = EdgeID b * edgeEntryBytes (Store bg)"
proof -
  let ?a = "edge_state.truncate (edge_view (Store bg) 0 0)" and ?b = "edge_state.truncate (edge_view (Store bg) 1 2)"
  have "?a \<in> set (states_at bg sample_lists 0)" "AdjNode ?a = 1"
    using other_node [OF assms(1-3), of 0] by simp_all
  moreover have "?b \<in> set (states_at bg sample_lists 1)" "AdjNode ?b = 2"
    using other_node [OF assms(1,3,4), of 2] by simp_all
  ultimately show thesis by (intro that [of ?a ?b]) (simp_all add: edge_view_def)
qed

theorem fastest_route_witness:
  "\<exists>bg d path d'. NewDijkstra (base_graph_iface bg) (speed_iface (NewSpeedWeightingWithAccess car_speed (car_slots ! 1)) bg) NodeBased = Some d \<and>
    dij_CalcPath (\<lambda>_. 0) 0 2 (SetMaxVisitedNodes MaxInt (SetTimeoutMillis MaxInt64 d)) = Some (path, d') \<and>
    Found path \<and> flt_le (path_Weight path) (Fin 2)"
proof -
  obtain s0 vs and bg :: base_graph where O: "graph_ok s0 sample_lists" "allocation car_slots s0" "unwritten car_slots s0"
    "stored_writes (\<lambda>_. Fin 1) car_slots s0 vs (Store bg)" "writes_inv sample_lists car_slots s0 vs (Store bg)"
    "bytesForFlags s0 = 7" "edgeCount s0 = 3" "nodeCount s0 = nodeCount (Store metre_graph)"
    "\<forall>e \<in> {0, 1, 2}. edge_int (Store bg) e (eDist (Store bg)) = 1000"
    "\<And>e k r. e \<in> {0, 2} \<Longrightarrow> k < 2 \<Longrightarrow> ev_GetInt ne_access r e (Store bg) (car_slots ! k) = Some 1"
    by (rule open_graph) blast
  note G = open_graph_ok [OF O(2,5-9)]
  let ?w = "NewSpeedWeightingWithAccess car_speed (car_slots ! 1)"
  have w: "speed_weighting_ok bg ?w NodeBased"
    using G(2) G(7) [of 0] G(7) [of 1] car_slots(3) car_slots(4) [of 0] car_slots(6) [of 0]
    by (auto simp: speed_weighting_ok_def speed_ok_def access_ok_def turns_ok_def NewSpeedWeightingWithAccess_def car_speed_def)
  have "\<exists>d. NewDijkstra (base_graph_iface bg) (speed_iface ?w bg) NodeBased = Some d"
    by (simp add: NewDijkstra_def NewAbstractRoutingAlgorithm_def speed_iface_def speed_HasTurnCosts_def NewSpeedWeightingWithAccess_def)
  then obtain d where d: "NewDijkstra (base_graph_iface bg) (speed_iface ?w bg) NodeBased = Some d" ..
  obtain a b where ab: "walk (states_at bg sample_lists) 0 [a, b]" "walk_end 0 [a, b] = 2" "EdgeID a = 0" "EdgeID b = 2"
    "edgePointer a = EdgeID a * edgeEntryBytes (Store bg)" "edgePointer b = EdgeID b * edgeEntryBytes (Store bg)"
    by (rule open_walk [OF G(1,4-6)]) blast
  have one: "fdiv (Fin 1) (Fin 1) = Fin 1" "fadd (Fin 1) (Fin 0) = Fin 1" "fadd (Fin 1) (Fin 1) = Fin 2"
    using f64_small_int by simp_all
  have t: "leg_time ?w bg st = Fin 1" if "EdgeID st \<in> {0, 2}" "edgePointer st = EdgeID st * edgeEntryBytes (Store bg)" for st
    using open_edge [OF G(1,3) _ O(10) that] O(9) that(1) one(1)
    by (auto simp: leg_time_def NewSpeedWeightingWithAccess_def)
  have c: "walk_weight (leg_cost ?w bg) noEdge (Fin 0) [a, b] = Fin 2"
    using t [of a] t [of b] ab(3-6) one(2,3) by (simp add: leg_cost_def del: fadd.simps)
  obtain path d' where p: "dij_CalcPath (\<lambda>_. 0) 0 2 (SetMaxVisitedNodes MaxInt (SetTimeoutMillis MaxInt64 d)) = Some (path, d')"
    "Found path \<longrightarrow> (\<exists>ws. walk (states_at bg sample_lists) 0 ws \<and> walk_end 0 ws = 2 \<and> EdgeIDs path = map EdgeID ws \<and>
       path_Weight path = walk_weight (leg_cost ?w bg) noEdge (Fin 0) ws \<and> path_Weight path \<noteq> PInf \<and>
       (\<forall>vs. walk (states_at bg sample_lists) 0 vs \<and> walk_end 0 vs = 2 \<longrightarrow>
         flt_le (path_Weight path) (walk_weight (leg_cost ?w bg) noEdge (Fin 0) vs)))"
    "unlimited MaxInt MaxInt64 0 \<longrightarrow> (Found path \<longleftrightarrow> (\<exists>ws. walk (states_at bg sample_lists) 0 ws \<and> walk_end 0 ws = 2 \<and>
       walk_weight (leg_cost ?w bg) noEdge (Fin 0) ws \<noteq> PInf))"
    using fastest_route [OF G(1) w G(4) d, of "\<lambda>_. 0" 2 MaxInt MaxInt64] by (elim exE conjE) (rule that)
  have "unlimited MaxInt MaxInt64 0" by (simp add: unlimited_def)
  moreover have "\<exists>ws. walk (states_at bg sample_lists) 0 ws \<and> walk_end 0 ws = 2 \<and> walk_weight (leg_cost ?w bg) noEdge (Fin 0) ws \<noteq> PInf"
    by (rule exI [of _ "[a, b]"]) (simp only: ab(1,2) c, simp)
  ultimately have found: "Found path" using p(3) by simp
  then have "flt_le (path_Weight path) (Fin 2)" using p(2) ab(1,2) c by metis
  then show ?thesis using d p(1) found by blast
qed

end
