(* ===== verification/AStarRun.thy ===== *)
theory AStarRun imports AStar FastestRoutes begin

text \<open>
  A* with an approximation that is zero makes the same steps as Dijkstra's algorithm: a simulation of the two
  runs, and the equivalence of the two algorithms on a stored graph.
\<close>

section \<open>The common part of the two records\<close>

lemma truncate_dijkstra [simp]:
  "Graph (dijkstra.truncate a) = Graph a" "Weighting (dijkstra.truncate a) = Weighting a"
  "TraversalMode (dijkstra.truncate a) = TraversalMode a" "MaxVisitedNodes (dijkstra.truncate a) = MaxVisitedNodes a"
  "TimeoutMillis (dijkstra.truncate a) = TimeoutMillis a" "FinishTimeMillis (dijkstra.truncate a) = FinishTimeMillis a"
  "AlreadyRun (dijkstra.truncate a) = AlreadyRun a" "VisitedNodes (dijkstra.truncate a) = VisitedNodes a"
  "entries (dijkstra.truncate a) = entries a" "fromMap (dijkstra.truncate a) = fromMap a"
  "fromHeap (dijkstra.truncate a) = fromHeap a" "currEdge (dijkstra.truncate a) = currEdge a"
  "to_node (dijkstra.truncate a) = to_node a"
  by (simp_all add: dijkstra.truncate_def)

lemma truncate_update [simp]:
  "dijkstra.truncate (a\<lparr>entries := x1\<rparr>) = (dijkstra.truncate a)\<lparr>entries := x1\<rparr>"
  "dijkstra.truncate (a\<lparr>fromMap := x2\<rparr>) = (dijkstra.truncate a)\<lparr>fromMap := x2\<rparr>"
  "dijkstra.truncate (a\<lparr>fromHeap := x3\<rparr>) = (dijkstra.truncate a)\<lparr>fromHeap := x3\<rparr>"
  "dijkstra.truncate (a\<lparr>currEdge := x4\<rparr>) = (dijkstra.truncate a)\<lparr>currEdge := x4\<rparr>"
  "dijkstra.truncate (a\<lparr>to_node := x5\<rparr>) = (dijkstra.truncate a)\<lparr>to_node := x5\<rparr>"
  "dijkstra.truncate (a\<lparr>VisitedNodes := x6\<rparr>) = (dijkstra.truncate a)\<lparr>VisitedNodes := x6\<rparr>"
  "dijkstra.truncate (a\<lparr>AlreadyRun := x7\<rparr>) = (dijkstra.truncate a)\<lparr>AlreadyRun := x7\<rparr>"
  "dijkstra.truncate (a\<lparr>FinishTimeMillis := x8\<rparr>) = (dijkstra.truncate a)\<lparr>FinishTimeMillis := x8\<rparr>"
  "dijkstra.truncate (a'\<lparr>weightApprox := x9\<rparr>) = dijkstra.truncate a'"
  "dijkstra.truncate (a'\<lparr>fromOutEdge := x10\<rparr>) = dijkstra.truncate a'"
  "dijkstra.truncate (a'\<lparr>toInEdge := x11\<rparr>) = dijkstra.truncate a'"
  by (simp_all add: dijkstra.truncate_def)

lemma truncate_checks [simp]:
  "Accept st e (dijkstra.truncate a) = Accept st e a"
  "IsMaxVisitedNodesExceeded (dijkstra.truncate a) = IsMaxVisitedNodesExceeded a"
  "IsTimeoutExceeded t (dijkstra.truncate a) = IsTimeoutExceeded t a"
  "CreateEmptyPath (dijkstra.truncate a) = CreateEmptyPath a"
  "dijkstra.truncate (SetupFinishTime t a) = SetupFinishTime t (dijkstra.truncate a)"
  by (simp_all add: Accept_def IsMaxVisitedNodesExceeded_def IsTimeoutExceeded_def CreateEmptyPath_def SetupFinishTime_def Let_def)

lemma truncate_ast_push [simp]: "dijkstra.truncate (ast_push t e a) = dij_push t e (dijkstra.truncate a)"
  by (simp add: ast_push_def dij_push_def Let_def)

lemma push_sel [simp]:
  "fromOutEdge (ast_push t e a) = fromOutEdge a" "toInEdge (ast_push t e a) = toInEdge a"
  "approx_ops (ast_push t e a) = approx_ops a" "weightApprox (ast_push t e a) = weightApprox a"
  "Graph (dij_push t e d) = Graph d" "TraversalMode (dij_push t e d) = TraversalMode d"
  "length (entries (dij_push t e d)) = Suc (length (entries d))"
  by (simp_all add: ast_push_def dij_push_def Let_def)

lemma SetupFinishTime_sel [simp]:
  "Graph (SetupFinishTime t b) = Graph b" "TraversalMode (SetupFinishTime t b) = TraversalMode b"
  "entries (SetupFinishTime t c) = entries c" "fromMap (SetupFinishTime t c) = fromMap c"
  "fromHeap (SetupFinishTime t c) = fromHeap c" "currEdge (SetupFinishTime t c) = currEdge c"
  "approx_ops (SetupFinishTime t a) = approx_ops a" "weightApprox (SetupFinishTime t a) = weightApprox a"
  "fromOutEdge (SetupFinishTime t a) = fromOutEdge a" "toInEdge (SetupFinishTime t a) = toInEdge a"
  by (simp_all add: SetupFinishTime_def Let_def)

section \<open>The simulation\<close>

context routing_problem begin

definition entries_plain :: "dijkstra \<Rightarrow> bool" where
  "entries_plain d \<longleftrightarrow> (\<forall>e \<in> set (entries d). WeightOfVisitedPath e = spt_Weight e \<and> node_ok (spt_AdjNode e)) \<and>
     (\<forall>p \<in> set (fromHeap d). p < length (entries d)) \<and> (\<forall>p \<in> ran (fromMap d). p < length (entries d))"

definition restricted :: "'a astar \<Rightarrow> bool" where
  "restricted a \<longleftrightarrow> fromOutEdge a \<noteq> AnyEdge \<or> toInEdge a \<noteq> AnyEdge"

definition zero_approx :: "'a approximator \<Rightarrow> 'a \<Rightarrow> bool" where
  "zero_approx ops s \<longleftrightarrow> (\<forall>n. node_ok n \<longrightarrow> ap_Approximate ops n s = Some (Fin 0))"

definition same_run :: "'a astar \<Rightarrow> dijkstra \<Rightarrow> bool" where
  "same_run a d \<longleftrightarrow> dijkstra.truncate a = d \<and> \<not> restricted a \<and> zero_approx (approx_ops a) (weightApprox a) \<and>
     entries_plain d \<and> Graph d = g"

lemma entries_plain_push:
  assumes "entries_plain d" "WeightOfVisitedPath e = spt_Weight e" "node_ok (spt_AdjNode e)"
  shows "entries_plain (dij_push t e d)"
proof -
  have "set (spt_Push (entries d @ [e]) (length (entries d)) (fromHeap d)) = insert (length (entries d)) (set (fromHeap d))"
    by (metis spt_Push_def set_mset_mset mset_heap_Push set_mset_add_mset_insert)
  then show ?thesis
    using assms by (fastforce simp: entries_plain_def dij_push_def Let_def ran_def split: if_splits)
qed

lemma entries_plain_mark: "entries_plain d \<Longrightarrow> entries_plain (d\<lparr>entries := mark_deleted q (entries d)\<rparr>)"
proof (cases "q < length (entries d)")
  case True
  assume "entries_plain d"
  then show ?thesis using True
    by (auto simp: entries_plain_def mark_deleted_def dest!: set_update_subset_insert [THEN subsetD])
next
  case False
  assume "entries_plain d"
  then show ?thesis using False by (simp add: mark_deleted_def list_update_beyond)
qed

lemma relax_same:
  assumes "same_run a d" "TraversalMode d = mode" "p < length (entries d)" "node_ok (AdjNode it)" "dij_relax p it d = Some d'"
  shows "\<exists>a'. TraversalMode d' = mode \<and> ast_relax p it a = Some a' \<and> same_run a' d' \<and> length (entries d) \<le> length (entries d')"
proof -
  let ?st = "edge_state.truncate it"
  have d: "d = dijkstra.truncate a" and r: "fromOutEdge a = AnyEdge" "toInEdge a = AnyEdge"
    and z: "ap_Approximate (approx_ops a) (AdjNode it) (weightApprox a) = Some (Fin 0)"
    and P: "entries_plain d" and mode: "TraversalMode a = mode"
    using assms(1,2,4) by (auto simp: same_run_def restricted_def zero_approx_def)
  have pw: "WeightOfVisitedPath (entries a ! p) = spt_Weight (entries a ! p)"
    using P assms(3) by (auto simp: entries_plain_def d)
  have qw: "WeightOfVisitedPath (entries a ! q) = spt_Weight (entries a ! q)" if "fromMap a t = Some q" for q t
    using P that by (auto simp: entries_plain_def d ran_def)
  let ?t = "traversal_id ?st" and ?curr = "entries a ! p"
  consider "d' = d" "ast_relax p it a = Some a"
    | w q where "d' = dij_push ?t (NewSPTEntryFull (EdgeID it) (AdjNode it) w (Some p)) (case q of None \<Rightarrow> d | Some q \<Rightarrow> d\<lparr>entries := mark_deleted q (entries d)\<rparr>)"
      "ast_relax p it a = Some (ast_push ?t (NewSPTEntryWithHeuristic (EdgeID it) (AdjNode it) (fadd w (Fin 0)) w (Some p))
         (case q of None \<Rightarrow> a | Some q \<Rightarrow> a\<lparr>entries := mark_deleted q (entries a)\<rparr>))" "wf64 w"
  proof (cases "Accept ?st (spt_Edge ?curr) a")
    case False
    then show ?thesis using assms(5) that(1) by (simp add: dij_relax_def ast_relax_def d)
  next
    case acc: True
    obtain w where w: "CalcWeightWithTurnWeight (Weighting a) ?st False (spt_Edge ?curr) = Some w"
      using assms(5) acc by (auto simp: dij_relax_def d Let_def bind_Some_iff)
    show ?thesis
    proof (cases "math_IsPInf (fadd w (spt_Weight ?curr))")
      case True
      then show ?thesis using assms(5) acc w pw r that(1) by (simp add: dij_relax_def ast_relax_def d)
    next
      case fin: False
      show ?thesis
      proof (cases "fromMap a ?t")
        case None
        then show ?thesis using assms(5) acc w pw r z fin mode that(2) [of "fadd w (spt_Weight ?curr)" None]
          by (simp add: dij_relax_def ast_relax_def d math_IsPInf_def Let_def)
      next
        case (Some q)
        then show ?thesis using assms(5) acc w pw qw [OF Some] r z fin mode that(1) that(2) [of "fadd w (spt_Weight ?curr)" "Some q"]
          by (cases "flt_less (fadd w (spt_Weight ?curr)) (spt_Weight (entries a ! q))")
            (simp_all add: dij_relax_def ast_relax_def d math_IsPInf_def Let_def)
      qed
    qed
  qed
  then show ?thesis
  proof cases
    case 1
    then show ?thesis using assms(1,2) by auto
  next
    case 2
    let ?e = "NewSPTEntryFull (EdgeID it) (AdjNode it) w (Some p)"
    have e: "NewSPTEntryWithHeuristic (EdgeID it) (AdjNode it) (fadd w (Fin 0)) w (Some p) = ?e"
      using 2(3) fadd_commute [of w "Fin 0"] by (simp add: NewSPTEntryWithHeuristic_def NewSPTEntryFull_def)
    let ?d = "case q of None \<Rightarrow> d | Some q \<Rightarrow> d\<lparr>entries := mark_deleted q (entries d)\<rparr>"
    have "entries_plain ?d" using P entries_plain_mark by (cases q) auto
    then have "entries_plain (dij_push ?t ?e ?d)"
      using assms(4) by (intro entries_plain_push) (simp_all add: NewSPTEntryFull_def)
    then show ?thesis
      using 2 assms(1,2) unfolding e
      by (cases q) (auto simp: same_run_def restricted_def d mark_deleted_def)
  qed
qed

lemma relax_all_same:
  assumes "same_run a d" "TraversalMode d = mode" "p < length (entries d)" "\<forall>it \<in> set its. node_ok (AdjNode it)"
    "fold_opt (dij_relax p) its d = Some d'"
  shows "\<exists>a'. fold_opt (ast_relax p) its a = Some a' \<and> same_run a' d' \<and> TraversalMode d' = mode"
  using assms
proof (induction its arbitrary: a d)
  case Nil
  then show ?case by simp
next
  case (Cons it its)
  obtain d1 where d1: "dij_relax p it d = Some d1" "fold_opt (dij_relax p) its d1 = Some d'"
    using Cons.prems(5) by (auto simp: bind_Some_iff)
  obtain a1 where a1: "TraversalMode d1 = mode" "ast_relax p it a = Some a1" "same_run a1 d1" "length (entries d) \<le> length (entries d1)"
    using relax_same [OF Cons.prems(1-3) _ d1(1)] Cons.prems(4) by auto
  show ?case using Cons.IH [OF a1(3,1) _ _ d1(2)] a1 Cons.prems(3,4) by simp
qed

lemma popped:
  assumes "entries_plain d" "spt_Pop (entries d) (fromHeap d) = Some (p, h)" "fromHeap d \<noteq> []"
  shows "p < length (entries d)" "entries_plain (d\<lparr>fromHeap := h, currEdge := c\<rparr>)"
proof -
  have "mset (fromHeap d) = add_mset p (mset h)"
    using assms(2) heap_Pop_root [OF assms(3), of "spt_Less (entries d)"] by (auto simp: spt_Pop_def)
  then have "p \<in> set (fromHeap d)" "set h \<subseteq> set (fromHeap d)"
    by (metis set_mset_mset set_mset_add_mset_insert insertI1, metis set_mset_mset set_mset_add_mset_insert subset_insertI)
  then show "p < length (entries d)" "entries_plain (d\<lparr>fromHeap := h, currEdge := c\<rparr>)"
    using assms(1) by (auto simp: entries_plain_def)
qed

lemma finished_same: "\<not> restricted a \<Longrightarrow> ast_finished a = dij_finished (dijkstra.truncate a)"
  by (cases "currEdge a") (auto simp: ast_finished_def dij_finished_def restricted_def)

lemma run_same:
  assumes "dij_runAlgo clock d = Some d'" "same_run a d" "TraversalMode d = mode"
  shows "\<exists>a'. ast_runAlgo clock a = Some a' \<and> same_run a' d'"
  using assms
proof (induction arbitrary: a rule: dij_runAlgo.raw_induct [rotated, consumes 1])
  case (1 run clock d d')
  show ?case
  proof (cases "fromHeap d = []")
    case True
    then show ?thesis using 1(2,3) by (subst ast_runAlgo.simps) (auto simp: same_run_def)
  next
    case False
    from 1(3) have d: "d = dijkstra.truncate a" and P: "entries_plain d" and g: "Graph d = g" and r: "\<not> restricted a"
      by (simp_all add: same_run_def)
    obtain p h where pop: "spt_Pop (entries d) (fromHeap d) = Some (p, h)"
      using 1(2) False by (auto simp: bind_Some_iff)
    let ?d = "d\<lparr>fromHeap := h, currEdge := Some p\<rparr>" and ?a = "a\<lparr>fromHeap := h, currEdge := Some p\<rparr>"
    note pp = popped(1) [OF P pop False] popped(2) [OF P pop False, of "Some p"]
    have s: "same_run ?a ?d" using 1(3) pp(2) by (simp add: same_run_def restricted_def)
    show ?thesis
    proof (cases "Deleted (entries d ! p)")
      case True
      then have "run clock ?d = Some d'" using 1(2) False pop by simp
      from 1(1) [OF this s] 1(4) obtain a' where "ast_runAlgo clock ?a = Some a'" "same_run a' d'" by auto
      then show ?thesis using False pop True d by (subst ast_runAlgo.simps) simp
    next
      case kept: False
      let ?d1 = "?d\<lparr>VisitedNodes := VisitedNodes d + 1\<rparr>" and ?a1 = "?a\<lparr>VisitedNodes := VisitedNodes a + 1\<rparr>"
      have s1: "same_run ?a1 ?d1" using s by (simp add: same_run_def restricted_def entries_plain_def d)
      have r1: "ast_finished ?a1 = dij_finished ?d1"
        using finished_same [of ?a1] r by (simp add: restricted_def d)
      obtain fin where fin: "dij_finished ?d1 = Some fin" by (simp add: dij_finished_def)
      have lim: "IsMaxVisitedNodesExceeded ?a1 = IsMaxVisitedNodesExceeded ?d1"
        "IsTimeoutExceeded t ?a1 = IsTimeoutExceeded t ?d1" for t
        by (simp_all add: IsMaxVisitedNodesExceeded_def IsTimeoutExceeded_def d)
      show ?thesis
      proof (cases "IsMaxVisitedNodesExceeded ?d1 \<or> fin \<or> IsTimeoutExceeded (clock (VisitedNodes ?d1)) ?d1")
        case True
        then have "d' = ?d1" using 1(2) False pop kept fin by (simp add: Let_def)
        moreover have "ast_runAlgo clock a = Some ?a1"
          using False pop kept fin True r1 lim d by (subst ast_runAlgo.simps) (simp add: Let_def)
        ultimately show ?thesis using s1 by blast
      next
        case go: False
        have n: "node_ok (spt_AdjNode (entries d ! p))" using P pp(1) by (simp add: entries_plain_def)
        obtain it its where it: "SetBase g (spt_AdjNode (entries d ! p)) = Some it" "iterates (NextEdge g) it its"
          "map edge_state.truncate its = adj (spt_AdjNode (entries d ! p))" using explore [OF n] by blast
        have ok: "\<forall>it \<in> set its. node_ok (AdjNode it)"
        proof
          fix x assume "x \<in> set its"
          then have "edge_state.truncate x \<in> set (adj (spt_AdjNode (entries d ! p)))" using it(3) by (metis image_eqI list.set_map)
          from ends [OF n this] show "node_ok (AdjNode x)" by simp
        qed
        obtain d2 where d2: "fold_opt (dij_relax p) its ?d1 = Some d2" "run clock d2 = Some d'"
          using 1(2) False pop kept fin go it(1) for_each_iterates [OF it(2), of "dij_relax p" ?d1] g by (auto simp: Let_def bind_Some_iff)
        obtain a2 where a2: "fold_opt (ast_relax p) its ?a1 = Some a2" "same_run a2 d2" "TraversalMode d2 = mode"
          using relax_all_same [OF s1 _ _ ok d2(1)] 1(4) pp(1) by auto
        obtain a' where "ast_runAlgo clock a2 = Some a'" "same_run a' d'" using 1(1) [OF d2(2) a2(2,3)] by blast
        moreover have "ast_runAlgo clock a = ast_runAlgo clock a2"
          using False pop kept fin go r1 lim d it(1) for_each_iterates [OF it(2), of "ast_relax p" ?a1] g a2(1)
          by (subst ast_runAlgo.simps) (simp add: Let_def)
        ultimately show ?thesis by simp
      qed
    qed
  qed
qed

section \<open>The whole search\<close>

lemma start_same:
  assumes "unused (dijkstra.truncate a)" "\<not> restricted a" "node_ok from'" "zero_approx (approx_ops a) s"
    "dij_start clock from' to (dijkstra.truncate a) = Some d1"
  defines "a0 \<equiv> (SetupFinishTime (clock 0) (a\<lparr>AlreadyRun := True\<rparr>))\<lparr>to_node := to, weightApprox := s\<rparr>"
  defines "a1 \<equiv> a0\<lparr>entries := [NewSPTEntryWithHeuristic noEdge from' (Fin 0) (Fin 0) None], fromHeap := [0]\<rparr>"
  shows "same_run (if \<not> IsEdgeBased mode then a1\<lparr>fromMap := (fromMap a1)(from' := Some 0)\<rparr> else a1) d1"
    "TraversalMode d1 = mode"
proof -
  let ?e = "NewSPTEntryWithHeuristic noEdge from' (Fin 0) (Fin 0) None"
  have e: "?e = NewSPTEntry from' (Fin 0)" by (simp add: NewSPTEntryWithHeuristic_def NewSPTEntry_def)
  have push: "spt_Push [?e] 0 [] = [0]" by (simp add: spt_Push_def heap_Push_def) (subst heap_up.simps, simp)
  have d1: "d1 = dijkstra.truncate (if \<not> IsEdgeBased mode then a1\<lparr>fromMap := (fromMap a1)(from' := Some 0)\<rparr> else a1)"
    using assms(1,5) push
    by (auto simp: dij_start_def CheckAlreadyRun_def unused_def Let_def a1_def a0_def e [symmetric] SetupFinishTime_def split: if_splits)
  then show "same_run (if \<not> IsEdgeBased mode then a1\<lparr>fromMap := (fromMap a1)(from' := Some 0)\<rparr> else a1) d1"
    "TraversalMode d1 = mode"
    using assms(1-4)
    by (auto simp: same_run_def restricted_def entries_plain_def a1_def a0_def unused_def NewSPTEntryWithHeuristic_def)
qed

lemma extract_same:
  assumes "same_run a d" "currEdge d = Some p" "p < length (entries d)"
  shows "ast_extractPath a = dij_extractPath d"
proof -
  have d: "d = dijkstra.truncate a" and r: "\<not> restricted a" and P: "entries_plain d" using assms(1) by (simp_all add: same_run_def)
  have w: "WeightOfVisitedPath (entries a ! p) = spt_Weight (entries a ! p)"
    using P assms(3) by (auto simp: entries_plain_def d)
  have "(path :: gh_path)\<lparr>path_Weight := spt_Weight (entries a ! p)\<rparr> = path"
    if "ExtractPath g' W' es (Some (entries a ! p)) = Some path" for path g' W' es
    using that by (auto simp: ExtractPath_def bind_Some_iff)
  note keep = this
  show ?thesis
  proof (cases "spt_AdjNode (entries a ! p) = to_node a")
    case True
    then have "ast_extractPath a = do { path \<leftarrow> ExtractPath (Graph a) (Weighting a) (entries a) (Some (entries a ! p));
        Some (path\<lparr>path_Weight := spt_Weight (entries a ! p)\<rparr>) }"
      "dij_extractPath d = ExtractPath (Graph a) (Weighting a) (entries a) (Some (entries a ! p))"
      using assms(2) finished_same [OF r] w by (simp_all add: ast_extractPath_def dij_extractPath_def dij_finished_def d)
    then show ?thesis
      using keep [of "Graph a" "Weighting a" "entries a"]
      by (cases "ExtractPath (Graph a) (Weighting a) (entries a) (Some (entries a ! p))") simp_all
  next
    case False
    then show ?thesis
      using assms(2) finished_same [OF r] by (simp add: ast_extractPath_def dij_extractPath_def dij_finished_def d)
  qed
qed

lemma CalcPath_same:
  assumes "unused (dijkstra.truncate a)" "\<not> restricted a" "node_ok from'"
    "ap_SetTo (approx_ops a) to (weightApprox a) = Some s" "zero_approx (approx_ops a) s"
  shows "\<exists>path a'. ast_CalcPath clock from' to a = Some (path, a') \<and>
    dij_CalcPath clock from' to (dijkstra.truncate a) = Some (path, dijkstra.truncate a')"
proof -
  let ?d = "dijkstra.truncate a"
  obtain d1 where d1: "dij_start clock from' to ?d = Some d1" "loop_inv from' d1" "to_node d1 = to"
    using start_loop [OF assms(1,3)] by blast
  obtain d2 where d2: "dij_runAlgo clock d1 = Some d2" "run_result from' (no_limits from' d1) d2"
    using run_returns [OF d1(2)] by blast
  obtain p where p: "currEdge d2 = Some p" "p < length (entries d2)" using d2(2) by (auto simp: run_result_def)
  obtain path d' where path: "dij_CalcPath clock from' to ?d = Some (path, d')" using CalcPath_result [OF assms(1,3)] by blast
  then have path': "dij_extractPath d2 = Some path" "d' = d2"
    using d1(1) d2(1) by (auto simp: dij_CalcPath_def bind_Some_iff)
  let ?a0 = "(SetupFinishTime (clock 0) (a\<lparr>AlreadyRun := True\<rparr>))\<lparr>to_node := to, weightApprox := s\<rparr>"
  let ?a1 = "?a0\<lparr>entries := [NewSPTEntryWithHeuristic noEdge from' (Fin 0) (Fin 0) None], fromHeap := [0]\<rparr>"
  let ?a2 = "if \<not> IsEdgeBased mode then ?a1\<lparr>fromMap := (fromMap ?a1)(from' := Some 0)\<rparr> else ?a1"
  note st = start_same [OF assms(1-3,5) d1(1)]
  obtain a3 where a3: "ast_runAlgo clock ?a2 = Some a3" "same_run a3 d2" using run_same [OF d2(1) st] by blast
  have push: "spt_Push [NewSPTEntryWithHeuristic noEdge from' (Fin 0) (Fin 0) None] 0 [] = [0]"
    by (simp add: spt_Push_def heap_Push_def) (subst heap_up.simps, simp)
  have same: "a\<lparr>fromOutEdge := AnyEdge, toInEdge := AnyEdge\<rparr> = a" using assms(2) by (simp add: restricted_def)
  have zero: "ap_Approximate (approx_ops a) from' s = Some (Fin 0)" using assms(3,5) by (simp add: zero_approx_def)
  have "ast_CalcPath clock from' to a = do { a \<leftarrow> ast_runAlgo clock ?a2; path \<leftarrow> ast_extractPath a; Some (path, a) }"
    using assms(1,4) push zero
    unfolding ast_CalcPath_def CalcPathEdgeToEdge_def same
    by (simp add: CheckAlreadyRun_def unused_def math_IsPInf_def Let_def)
  also have "\<dots> = Some (path, a3)" using a3(1) extract_same [OF a3(2) p] path'(1) by simp
  finally have "ast_CalcPath clock from' to a = Some (path, a3)" .
  then show ?thesis using path path'(2) a3(2) by (auto simp: same_run_def)
qed

end

section \<open>On the stored graph\<close>

lemma node_coordinates:
  assumes "graph_ok (Store bg) adj" "valid_node (Store bg) n"
  shows "\<exists>x y. na_GetLat n (Store bg) = Some x \<and> na_GetLon n (Store bg) = Some y"
proof -
  note inv = graph_okD(1) [OF assms(1)]
  have n: "0 \<le> n" "n < nodeCount (Store bg)" using assms(2) by (simp_all add: valid_node_def)
  show ?thesis
    using get_node_field [OF inv n, of "nLat (Store bg)"] get_node_field [OF inv n, of "nLon (Store bg)"] ne_offsets [OF inv] n
    by (auto simp: na_GetLat_def na_GetLon_def GetLat_def GetLon_def ToNodePointer_def)
qed

text \<open>
  C5. A* with its own approximation, the beeline to the target times the least weight per distance, finds on a
  stored graph exactly the path of Dijkstra's algorithm when the weighting promises no weight per distance,
  for every distance calculation that returns numbers, every clock and every limit; in particular it returns.
\<close>

theorem astar_is_dijkstra:
  assumes "graph_ok (Store bg) adj" "weighting_ok bg adj W mode" "valid_node (Store bg) from'" "valid_node (Store bg) to"
    "CalcMinWeightPerDistance W = Fin 0" "\<forall>a b c e. \<exists>x. distPlane a b c e = Fin x"
    "NewAStar distEarth distPlane (base_graph_iface bg) W mode = Some a" "NewDijkstra (base_graph_iface bg) W mode = Some d"
  shows "\<exists>path a' d'. ast_CalcPath clock from' to (SetMaxVisitedNodes k (SetTimeoutMillis t a)) = Some (path, a') \<and>
    dij_CalcPath clock from' to (SetMaxVisitedNodes k (SetTimeoutMillis t d)) = Some (path, d') \<and>
    (Found path \<longrightarrow> EndNode path = to)"
proof -
  let ?g = "base_graph_iface bg" and ?a = "SetMaxVisitedNodes k (SetTimeoutMillis t a)"
  let ?b = "SetDistanceCalc distPlane (NewBeelineWeightApproximator distEarth ?g W)"
  have r: "routable bg adj W mode from'" "routable bg adj W mode n \<Longrightarrow> valid_node (Store bg) n" for n
    using assms(1-3) by (simp_all add: routable_def)
  have a: "a = dijkstra.extend d \<lparr>approx_ops = beeline_ops distEarth, weightApprox = ?b, fromOutEdge = AnyEdge, toInEdge = AnyEdge\<rparr>"
    using assms(7,8) by (simp add: NewAStar_def NewAStarWith_def)
  then have t: "dijkstra.truncate ?a = SetMaxVisitedNodes k (SetTimeoutMillis t d)"
    by (simp add: SetMaxVisitedNodes_def SetTimeoutMillis_def dijkstra.truncate_def dijkstra.extend_def)
  have f: "approx_ops ?a = beeline_ops distEarth" "weightApprox ?a = ?b" "\<not> bgr.restricted ?a"
    by (simp_all add: a SetMaxVisitedNodes_def SetTimeoutMillis_def bgr.restricted_def dijkstra.extend_def)
  obtain lat lon where to: "na_GetLat to (Store bg) = Some lat" "na_GetLon to (Store bg) = Some lon"
    using node_coordinates [OF assms(1,4)] by blast
  let ?s = "?b\<lparr>toLat := lat, toLon := lon\<rparr>"
  have s: "ap_SetTo (approx_ops ?a) to (weightApprox ?a) = Some ?s"
    using to by (simp add: f beeline_ops_def beeline_SetTo_def SetDistanceCalc_def NewBeelineWeightApproximator_def base_graph_iface_def)
  have "beeline_Approximate n ?s = Some (Fin 0)" if n: "valid_node (Store bg) n" for n
  proof -
    obtain x y where xy: "na_GetLat n (Store bg) = Some x" "na_GetLon n (Store bg) = Some y"
      using node_coordinates [OF assms(1) n] by blast
    moreover obtain q where "distPlane lat lon x y = Fin q" using assms(6) by blast
    ultimately show ?thesis using assms(5)
      by (simp add: beeline_Approximate_def SetDistanceCalc_def NewBeelineWeightApproximator_def base_graph_iface_def)
  qed
  then have z: "bgr.zero_approx bg adj W mode (approx_ops ?a) ?s"
    using r(2) by (auto simp: bgr.zero_approx_def f beeline_ops_def)
  have u: "bgr.unused bg W mode (dijkstra.truncate ?a)" using new_dijkstra_unused(1) [OF assms(8)] t by simp
  from bgr.CalcPath_same [OF u f(3) r(1) s z, of clock]
  obtain path a' where p: "ast_CalcPath clock from' to ?a = Some (path, a')"
    "dij_CalcPath clock from' to (SetMaxVisitedNodes k (SetTimeoutMillis t d)) = Some (path, dijkstra.truncate a')"
    unfolding t by blast
  with bgr.CalcPath_result [OF new_dijkstra_unused(1) [OF assms(8)] r(1), of clock to k t]
  have "Found path \<longrightarrow> EndNode path = to" by auto
  then show ?thesis using p by blast
qed

theorem astar_is_dijkstra_witness:
  "\<exists>a d path a' d'. NewAStar (\<lambda>_ _ _ _. Fin 1) (\<lambda>_ _ _ _. Fin 1) (base_graph_iface sample_graph) sample_weighting NodeBased = Some a \<and>
    NewDijkstra (base_graph_iface sample_graph) sample_weighting NodeBased = Some d \<and>
    ast_CalcPath (\<lambda>_. 0) 0 2 (SetMaxVisitedNodes 10 (SetTimeoutMillis 1000 a)) = Some (path, a') \<and>
    dij_CalcPath (\<lambda>_. 0) 0 2 (SetMaxVisitedNodes 10 (SetTimeoutMillis 1000 d)) = Some (path, d')"
proof -
  obtain d where d: "NewDijkstra (base_graph_iface sample_graph) sample_weighting NodeBased = Some d"
    using sample_dijkstra by blast
  then obtain a where a: "NewAStar (\<lambda>_ _ _ _. Fin 1) (\<lambda>_ _ _ _. Fin 1) (base_graph_iface sample_graph) sample_weighting NodeBased = Some a"
    by (simp add: NewAStar_def NewAStarWith_def)
  have z: "CalcMinWeightPerDistance sample_weighting = Fin 0" by (simp add: sample_weighting_def)
  from astar_is_dijkstra [OF sample_graph_ok(1) sample_weighting_ok sample_nodes(1,3) z _ a d, of "\<lambda>_. 0" 10 1000]
  show ?thesis using a d by auto
qed

end
