(* ===== verification/CustomModel.thy ===== *)
theory CustomModel imports GoStrings begin

text \<open>
  Custom models, \<^verbatim>\<open>web-api/custom_model.go\<close> and \<^verbatim>\<open>web-api/statement.go\<close>: the statements that adjust speed and
  priority, their merge, and the arithmetic of ranges.
\<close>

datatype keyword = KeywordIf | KeywordElseIf | KeywordElse

datatype op = OpMultiply | OpLimit | OpAdd

record statement =
  Keyword :: keyword
  Condition :: string
  Operation :: op
  st_Value :: string

definition If' :: "string \<Rightarrow> op \<Rightarrow> string \<Rightarrow> statement" where
  "If' condition op value = \<lparr>Keyword = KeywordIf, Condition = condition, Operation = op, st_Value = value\<rparr>"

definition ElseIf :: "string \<Rightarrow> op \<Rightarrow> string \<Rightarrow> statement" where
  "ElseIf condition op value = \<lparr>Keyword = KeywordElseIf, Condition = condition, Operation = op, st_Value = value\<rparr>"

definition Else :: "op \<Rightarrow> string \<Rightarrow> statement" where
  "Else op value = \<lparr>Keyword = KeywordElse, Condition = [], Operation = op, st_Value = value\<rparr>"

record min_max =
  mm_Min :: flt
  mm_Max :: flt

text \<open>The predeclared functions \<open>min\<close> and \<open>max\<close> on floats: a NaN argument gives NaN.\<close>

definition go_min :: "flt \<Rightarrow> flt \<Rightarrow> flt" where
  "go_min x y = (if x = NaN \<or> y = NaN then NaN else if flt_less y x then y else x)"

definition go_max :: "flt \<Rightarrow> flt \<Rightarrow> flt" where
  "go_max x y = (if x = NaN \<or> y = NaN then NaN else if flt_less x y then y else x)"

definition op_Apply :: "op \<Rightarrow> min_max \<Rightarrow> min_max \<Rightarrow> min_max" where
  "op_Apply op a b =
     (case op of
        OpMultiply \<Rightarrow> \<lparr>mm_Min = fmul (mm_Min a) (mm_Min b), mm_Max = fmul (mm_Max a) (mm_Max b)\<rparr>
      | OpLimit \<Rightarrow> \<lparr>mm_Min = go_min (mm_Min a) (mm_Min b), mm_Max = go_min (mm_Max a) (mm_Max b)\<rparr>
      | OpAdd \<Rightarrow> \<lparr>mm_Min = fadd (mm_Min a) (mm_Min b), mm_Max = fadd (mm_Max a) (mm_Max b)\<rparr>)"

record custom_model =
  DistanceInfluence :: "flt option"
  HeadingPenalty :: "flt option"
  Speed :: "statement list"
  Priority :: "statement list"

definition NewCustomModel :: custom_model where
  "NewCustomModel = \<lparr>DistanceInfluence = None, HeadingPenalty = None, Speed = [], Priority = []\<rparr>"

definition AddToSpeed :: "statement \<Rightarrow> custom_model \<Rightarrow> custom_model" where
  "AddToSpeed st cm = cm\<lparr>Speed := Speed cm @ [st]\<rparr>"

definition AddToPriority :: "statement \<Rightarrow> custom_model \<Rightarrow> custom_model" where
  "AddToPriority st cm = cm\<lparr>Priority := Priority cm @ [st]\<rparr>"

definition SetDistanceInfluence :: "flt \<Rightarrow> custom_model \<Rightarrow> custom_model" where
  "SetDistanceInfluence v cm = cm\<lparr>DistanceInfluence := Some v\<rparr>"

definition SetHeadingPenalty :: "flt \<Rightarrow> custom_model \<Rightarrow> custom_model" where
  "SetHeadingPenalty v cm = cm\<lparr>HeadingPenalty := Some v\<rparr>"

text \<open>The merge copies the base, so neither argument is shared with the result.\<close>

definition MergeCustomModels :: "custom_model \<Rightarrow> custom_model option \<Rightarrow> custom_model" where
  "MergeCustomModels base query =
     (case query of None \<Rightarrow> base
      | Some q \<Rightarrow> base
          \<lparr>DistanceInfluence := (case DistanceInfluence q of None \<Rightarrow> DistanceInfluence base | Some v \<Rightarrow> Some v),
           HeadingPenalty := (case HeadingPenalty q of None \<Rightarrow> HeadingPenalty base | Some v \<Rightarrow> Some v),
           Speed := Speed base @ Speed q, Priority := Priority base @ Priority q\<rparr>)"

end
