(* ===== verification/EnumValues.thy ===== *)
theory EnumValues imports GoStrings EncodedValueKinds begin

text \<open>
  The enums of \<^verbatim>\<open>core/routing/ev\<close> that conditions of custom models may compare with: the names of their values,
  the search of a value by its name and the encoded value that stores them. A value is its index.
\<close>

section \<open>The names\<close>

definition roadClassNames :: "string list" where
  "roadClassNames = [''other'', ''motorway'', ''trunk'', ''primary'', ''secondary'', ''tertiary'',
     ''residential'', ''unclassified'', ''service'', ''road'', ''track'', ''bridleway'', ''steps'',
     ''cycleway'', ''path'', ''living_street'', ''footway'', ''pedestrian'', ''platform'', ''corridor'',
     ''construction'', ''busway'']"

definition roadAccessNames :: "string list" where
  "roadAccessNames = [''yes'', ''destination'', ''customers'', ''delivery'', ''private'',
     ''agricultural'', ''forestry'', ''no'']"

definition tollNames :: "string list" where
  "tollNames = [''missing'', ''no'', ''hgv'', ''all'']"

definition hazmatNames :: "string list" where
  "hazmatNames = [''yes'', ''no'']"

definition surfaceNames :: "string list" where
  "surfaceNames = [''missing'', ''paved'', ''asphalt'', ''concrete'', ''paving_stones'',
     ''cobblestone'', ''unpaved'', ''compacted'', ''fine_gravel'', ''gravel'', ''ground'', ''dirt'',
     ''grass'', ''sand'', ''wood'', ''other'']"

definition smoothnessNames :: "string list" where
  "smoothnessNames = [''missing'', ''excellent'', ''good'', ''intermediate'', ''bad'', ''very_bad'',
     ''horrible'', ''very_horrible'', ''impassable'', ''other'']"

definition roadEnvironmentNames :: "string list" where
  "roadEnvironmentNames = [''other'', ''road'', ''ferry'', ''tunnel'', ''bridge'', ''ford'']"

definition trackTypeNames :: "string list" where
  "trackTypeNames = [''missing'', ''grade1'', ''grade2'', ''grade3'', ''grade4'', ''grade5'']"

definition footwayNames :: "string list" where
  "footwayNames = [''missing'', ''sidewalk'', ''crossing'', ''access_aisle'', ''link'',
     ''traffic_island'', ''alley'']"

definition crossingNames :: "string list" where
  "crossingNames = [''missing'', ''railway_barrier'', ''railway'', ''traffic_signals'',
     ''uncontrolled'', ''marked'', ''unmarked'', ''no'']"

definition routeNetworkNames :: "string list" where
  "routeNetworkNames = [''missing'', ''international'', ''national'', ''regional'', ''local'',
     ''other'']"

definition hgvNames :: "string list" where
  "hgvNames = [''missing'', ''yes'', ''designated'', ''destination'', ''delivery'', ''discouraged'',
     ''agricultural'', ''no'']"

definition maxWeightExceptNames :: "string list" where
  "maxWeightExceptNames = [''missing'', ''delivery'', ''destination'', ''forestry'']"

section \<open>Finding a value by its name\<close>

text \<open>The loop \<open>for i, n := range names\<close>; no match is the given value, an empty name the first one.\<close>

fun find_name :: "string list \<Rightarrow> int \<Rightarrow> string \<Rightarrow> int \<Rightarrow> int" where
  "find_name [] i name other = other"
| "find_name (n # ns) i name other = (if EqualFold n name then i else find_name ns (i + 1) name other)"

definition find_or_first :: "string list \<Rightarrow> string \<Rightarrow> int" where
  "find_or_first names name = (if name = [] then 0 else find_name names 0 name 0)"

definition RoadClassFind :: "string \<Rightarrow> int" where "RoadClassFind = find_or_first roadClassNames"

definition RoadAccessFind :: "string \<Rightarrow> int" where
  "RoadAccessFind name =
     (if name = [] then 0
      else if EqualFold name ''permit'' \<or> EqualFold name ''service'' then 4
      else find_name roadAccessNames 0 name 0)"

definition TollFind :: "string \<Rightarrow> int" where "TollFind = find_or_first tollNames"

definition HazmatFind :: "string \<Rightarrow> int" where "HazmatFind = find_or_first hazmatNames"

text \<open>The map from tags to surfaces: the names but the first and the last, and six further tags.\<close>

definition surfaceMap :: "(string \<times> int) list" where
  "surfaceMap = map (\<lambda>i. (surfaceNames ! i, int i)) [1..<15] @
     [(''metal'', 1), (''sett'', 5), (''unhewn_cobblestone'', 5), (''earth'', 11), (''pebblestone'', 9), (''grass_paver'', 12)]"

definition SurfaceFind :: "string \<Rightarrow> int" where
  "SurfaceFind name =
     (if name = [] then 0
      else let i = strings_Index_char name (CHR '':'');
               name = (if i \<noteq> - 1 then take (nat i) name else name)
           in case map_of surfaceMap name of Some v \<Rightarrow> v | None \<Rightarrow> 15)"

definition SmoothnessFind :: "string \<Rightarrow> int" where
  "SmoothnessFind name = (if name = [] then 0 else find_name smoothnessNames 0 name 9)"

definition RoadEnvironmentFind :: "string \<Rightarrow> int" where "RoadEnvironmentFind = find_or_first roadEnvironmentNames"

definition TrackTypeFind :: "string \<Rightarrow> int" where "TrackTypeFind = find_or_first trackTypeNames"

definition FootwayFind :: "string \<Rightarrow> int" where "FootwayFind = find_or_first footwayNames"

definition CrossingFind :: "string \<Rightarrow> int" where "CrossingFind = find_or_first crossingNames"

definition RouteNetworkFind :: "string \<Rightarrow> int" where "RouteNetworkFind = find_or_first routeNetworkNames"

definition HgvFind :: "string \<Rightarrow> int" where "HgvFind = find_or_first hgvNames"

definition MaxWeightExceptFind :: "string \<Rightarrow> int" where
  "MaxWeightExceptFind name =
     (if name = [] then 0
      else if EqualFold name ''permit'' \<or> EqualFold name ''private'' then 1
      else find_name maxWeightExceptNames 0 name 0)"

section \<open>The kinds\<close>

datatype enum_kind = RoadClass | RoadAccess | Toll | Hazmat | Surface | Smoothness | RoadEnvironment | TrackType
  | Footway | Crossing | RouteNetwork | Hgv | MaxWeightExcept

fun enum_names :: "enum_kind \<Rightarrow> string list" where
  "enum_names RoadClass = roadClassNames"
| "enum_names RoadAccess = roadAccessNames"
| "enum_names Toll = tollNames"
| "enum_names Hazmat = hazmatNames"
| "enum_names Surface = surfaceNames"
| "enum_names Smoothness = smoothnessNames"
| "enum_names RoadEnvironment = roadEnvironmentNames"
| "enum_names TrackType = trackTypeNames"
| "enum_names Footway = footwayNames"
| "enum_names Crossing = crossingNames"
| "enum_names RouteNetwork = routeNetworkNames"
| "enum_names Hgv = hgvNames"
| "enum_names MaxWeightExcept = maxWeightExceptNames"

fun enum_find :: "enum_kind \<Rightarrow> string \<Rightarrow> int" where
  "enum_find RoadClass = RoadClassFind"
| "enum_find RoadAccess = RoadAccessFind"
| "enum_find Toll = TollFind"
| "enum_find Hazmat = HazmatFind"
| "enum_find Surface = SurfaceFind"
| "enum_find Smoothness = SmoothnessFind"
| "enum_find RoadEnvironment = RoadEnvironmentFind"
| "enum_find TrackType = TrackTypeFind"
| "enum_find Footway = FootwayFind"
| "enum_find Crossing = CrossingFind"
| "enum_find RouteNetwork = RouteNetworkFind"
| "enum_find Hgv = HgvFind"
| "enum_find MaxWeightExcept = MaxWeightExceptFind"

text \<open>\<open>String()\<close>: the name of a value; a value out of range prints as the first name.\<close>

definition enum_String :: "enum_kind \<Rightarrow> int \<Rightarrow> string" where
  "enum_String k v =
     (let ns = enum_names k in if 0 \<le> v \<and> v < int (length ns) then ns ! nat v else ns ! 0)"

text \<open>\<open>Create\<close>: the encoded value of all values of the kind.\<close>

definition enum_Create :: "enum_kind \<Rightarrow> string \<Rightarrow> enum_ev option" where
  "enum_Create k name = NewEnumEncodedValue name (enumSequence (length (enum_names k)))"

section \<open>Names of plain characters\<close>

definition plain_chars :: string where "plain_chars = ''abcdefghijklmnopqrstuvwxyz0123456789_''"

abbreviation plain :: "string \<Rightarrow> bool" where "plain s \<equiv> set s \<subseteq> set plain_chars"

definition upper_char :: "char \<Rightarrow> char" where
  "upper_char c = (if 97 \<le> byte_of c \<and> byte_of c \<le> 122 then char_of (byte_of c - 32) else c)"

definition upper :: "string \<Rightarrow> string" where "upper = map upper_char"

lemma plain_byte: "c \<in> set plain_chars \<Longrightarrow>
    (97 \<le> byte_of c \<and> byte_of c \<le> 122) \<or> (48 \<le> byte_of c \<and> byte_of c \<le> 57) \<or> byte_of c = 95"
  by (auto simp: plain_chars_def)

lemma plain_char_cases:
  "c \<in> set plain_chars \<Longrightarrow> lower_char c = c \<and> lower_char (upper_char c) = c \<and> c \<noteq> char_of (197 :: nat) \<and> c \<noteq> char_of (226 :: nat) \<and>
     upper_char c \<noteq> char_of (197 :: nat) \<and> upper_char c \<noteq> char_of (226 :: nat)"
proof -
  assume "c \<in> set plain_chars"
  note b = plain_byte [OF this]
  have n: "x \<noteq> char_of m" if "byte_of x < 128" "128 \<le> m" "m < 256" for x :: char and m :: nat
    using that by (metis of_char_of mod_less not_le)
  have u: "byte_of (upper_char c) = (if 97 \<le> byte_of c \<and> byte_of c \<le> 122 then byte_of c - 32 else byte_of c)"
    using b by (auto simp: upper_char_def)
  have "byte_of (lower_char (upper_char c)) = byte_of c" using b by (auto simp: lower_char_def u upper_char_def)
  then have "lower_char (upper_char c) = c" by (metis char_of_char)
  moreover have "lower_char c = c" using b by (auto simp: lower_char_def)
  moreover have "byte_of c < 128" "byte_of (upper_char c) < 128" using b by (auto simp: u)
  ultimately show ?thesis by (auto intro!: n)
qed

lemma fold_plain: "plain s \<Longrightarrow> fold_ascii s = s" "plain s \<Longrightarrow> fold_ascii (upper s) = s"
  by (induction s) (auto simp: HasPrefix_def upper_def dest!: plain_char_cases)

lemma find_name_nth:
  assumes "distinct ns" "\<forall>n \<in> set ns. plain n" "j < length ns" "fold_ascii name = ns ! j"
  shows "find_name ns i name other = i + int j"
  using assms
proof (induction ns arbitrary: i j)
  case (Cons n ns)
  show ?case
  proof (cases j)
    case 0
    then show ?thesis using Cons.prems by (simp add: EqualFold_def fold_plain)
  next
    case (Suc j')
    then have "n \<noteq> ns ! j'" using Cons.prems by auto
    moreover have "plain n" using Cons.prems(2) by simp
    ultimately have "\<not> EqualFold n name" using Cons.prems(4) Suc by (simp add: EqualFold_def fold_plain)
    then show ?thesis using Cons.IH [of j' "i + 1"] Cons.prems Suc by simp
  qed
qed simp

lemma names_plain: "distinct (enum_names k)" "\<forall>n \<in> set (enum_names k). plain n \<and> n \<noteq> []"
  by (cases k; simp add: roadClassNames_def roadAccessNames_def tollNames_def hazmatNames_def surfaceNames_def
      smoothnessNames_def roadEnvironmentNames_def trackTypeNames_def footwayNames_def crossingNames_def
      routeNetworkNames_def hgvNames_def maxWeightExceptNames_def plain_chars_def)+

lemma special_names:
  "''permit'' \<notin> set roadAccessNames" "''service'' \<notin> set roadAccessNames" "''permit'' \<notin> set maxWeightExceptNames"
  "''private'' \<notin> set maxWeightExceptNames" "plain ''permit''" "plain ''service''" "plain ''private''"
  by (simp_all add: roadAccessNames_def maxWeightExceptNames_def plain_chars_def)

lemma enum_find_nth:
  assumes "k \<noteq> Surface" "j < length (enum_names k)" "fold_ascii name = enum_names k ! j"
  shows "enum_find k name = int j"
proof -
  have n: "name \<noteq> []" using names_plain(2) [of k] assms(2,3) by (metis fold_ascii.simps(1) nth_mem)
  have f: "find_name (enum_names k) 0 name other = int j" for other
    using find_name_nth [OF names_plain(1) _ assms(2,3), of 0 other] names_plain(2) by auto
  have m: "enum_names k ! j \<in> set (enum_names k)" using assms(2) by simp
  have special: "\<not> EqualFold name t" if "t \<notin> set (enum_names k)" "plain t" for t
    using that m assms(3) by (auto simp: EqualFold_def fold_plain)
  consider "enum_find k name = find_or_first (enum_names k) name" | "k = RoadAccess" | "k = Smoothness" | "k = MaxWeightExcept"
    using assms(1)
    by (cases k) (simp_all add: RoadClassFind_def TollFind_def HazmatFind_def RoadEnvironmentFind_def TrackTypeFind_def
        FootwayFind_def CrossingFind_def RouteNetworkFind_def HgvFind_def)
  then show ?thesis
  proof cases
    case 1
    then show ?thesis using f n by (simp add: find_or_first_def)
  next
    case 2
    then show ?thesis using f n special [of "''permit''"] special [of "''service''"] special_names by (simp add: RoadAccessFind_def)
  next
    case 3
    then show ?thesis using f n by (simp add: SmoothnessFind_def)
  next
    case 4
    then show ?thesis using f n special [of "''permit''"] special [of "''private''"] special_names by (simp add: MaxWeightExceptFind_def)
  qed
qed

section \<open>Properties\<close>

text \<open>
  C28. For every enum but the surface the printed name of a value finds the value again, in lower case and in
  capital letters.
\<close>

theorem enum_names_found:
  assumes "k \<noteq> Surface" "0 \<le> v" "v < int (length (enum_names k))"
  shows "enum_find k (enum_String k v) = v \<and> enum_find k (upper (enum_String k v)) = v"
proof -
  have j: "nat v < length (enum_names k)" "enum_String k v = enum_names k ! nat v"
    using assms(2,3) by (simp_all add: enum_String_def Let_def)
  have "plain (enum_names k ! nat v)" using names_plain(2) j(1) by (metis nth_mem)
  then show ?thesis
    using enum_find_nth [OF assms(1) j(1)] fold_plain assms(2) by (simp add: j(2))
qed

theorem enum_names_found_witness: "enum_find RoadClass (upper ''residential'') = 6"
proof -
  have v: "RoadClass \<noteq> Surface" "(0::int) \<le> 6" "(6::int) < int (length (enum_names RoadClass))"
    by (simp_all add: roadClassNames_def)
  have s: "enum_String RoadClass 6 = ''residential''" by (simp add: enum_String_def roadClassNames_def)
  show ?thesis using enum_names_found [OF v] unfolding s by blast
qed

end
