(* ===== verification/Expressions.thy ===== *)
theory Expressions imports CustomModel EnumValues EdgeIteration begin

text \<open>
  \<^verbatim>\<open>core/routing/weighting/custom/expression.go\<close>: the parser of conditions and values. A parsed condition is a
  function of the graph, the edge and the direction, as the closure of the code. The rest of the input
  stands for the position of the parser; the depth of the recursion is bounded by fuel.
\<close>

section \<open>Encoded values by their name\<close>

datatype encoded_value = BoolEV int_ev | IntEV int_ev | DecimalEV decimal_ev | EnumEV enum_kind enum_ev | StringEV string_ev

type_synonym ev_lookup = "string \<Rightarrow> encoded_value option"

type_synonym cond_fn = "base_graph \<Rightarrow> edge_state \<Rightarrow> bool \<Rightarrow> bool option"
type_synonym value_fn = "base_graph \<Rightarrow> edge_state \<Rightarrow> bool \<Rightarrow> flt option"

datatype parse_error = UnexpectedTrailing | EmptyValue | UnknownEncodedValue string | NotDecimal string | ExpectedParen
  | ExpectedIdentifier | ExpectedValue string | CannotParseNumber string | UnsupportedComparison string | NotBoolean string

section \<open>The functions a condition is made of\<close>

definition read_bool :: "int_ev \<Rightarrow> cond_fn" where
  "read_bool enc bg st reverse = (if reverse then es_GetReverseBool enc bg st else es_GetBool enc bg st)"

definition read_decimal :: "decimal_ev \<Rightarrow> value_fn" where
  "read_decimal enc bg st reverse = (if reverse then es_GetReverseDecimal enc bg st else es_GetDecimal enc bg st)"

definition read_enum :: "enum_ev \<Rightarrow> base_graph \<Rightarrow> edge_state \<Rightarrow> bool \<Rightarrow> int option" where
  "read_enum enc bg st reverse = (if reverse then es_GetReverseEnum enc bg st else es_GetEnum enc bg st)"

definition buildDecimalComparison :: "decimal_ev \<Rightarrow> string \<Rightarrow> flt \<Rightarrow> cond_fn" where
  "buildDecimalComparison enc op rhs bg st reverse = do {
     val \<leftarrow> read_decimal enc bg st reverse;
     Some (if op = ''=='' then flt_eq val rhs
       else if op = ''!='' then \<not> flt_eq val rhs
       else if op = ''>'' then flt_less rhs val
       else if op = ''<'' then flt_less val rhs
       else if op = ''>='' then flt_le rhs val
       else if op = ''<='' then flt_le val rhs
       else False) }"

definition buildEnumComparison :: "enum_ev \<Rightarrow> string \<Rightarrow> int \<Rightarrow> cond_fn" where
  "buildEnumComparison enc op rhs bg st reverse = do {
     val \<leftarrow> read_enum enc bg st reverse;
     Some (if op = ''=='' then val = rhs else if op = ''!='' then val \<noteq> rhs else False) }"

definition resolveEnumComparison :: "encoded_value \<Rightarrow> string \<Rightarrow> string \<Rightarrow> cond_fn option" where
  "resolveEnumComparison enc op rhs =
     (case enc of EnumEV k e \<Rightarrow> Some (buildEnumComparison e op (enum_find k rhs)) | _ \<Rightarrow> None)"

definition bool_comparison :: "int_ev \<Rightarrow> string \<Rightarrow> string \<Rightarrow> cond_fn" where
  "bool_comparison enc op rhs bg st reverse = do {
     val \<leftarrow> read_bool enc bg st reverse;
     Some ((val = (rhs = ''true'')) = (op = ''=='')) }"

definition buildComparison :: "ev_lookup \<Rightarrow> string \<Rightarrow> string \<Rightarrow> string \<Rightarrow> parse_error + cond_fn" where
  "buildComparison lookup evName op rhs =
     (case lookup evName of
        None \<Rightarrow> Inl (UnknownEncodedValue evName)
      | Some enc \<Rightarrow>
          (case enc of BoolEV b \<Rightarrow> Inr (bool_comparison b op rhs)
           | _ \<Rightarrow> (case resolveEnumComparison enc op rhs of Some f \<Rightarrow> Inr f
             | None \<Rightarrow> (case enc of
                 DecimalEV d \<Rightarrow> (case ParseFloat rhs of None \<Rightarrow> Inl (CannotParseNumber rhs)
                   | Some x \<Rightarrow> Inr (buildDecimalComparison d op x))
               | _ \<Rightarrow> Inl (UnsupportedComparison evName)))))"

definition buildBooleanRef :: "ev_lookup \<Rightarrow> string \<Rightarrow> parse_error + cond_fn" where
  "buildBooleanRef lookup evName =
     (case lookup evName of
        None \<Rightarrow> Inl (UnknownEncodedValue evName)
      | Some enc \<Rightarrow> (case enc of BoolEV b \<Rightarrow> Inr (read_bool b) | _ \<Rightarrow> Inl (NotBoolean evName)))"

definition cond_or :: "cond_fn \<Rightarrow> cond_fn \<Rightarrow> cond_fn" where
  "cond_or l r bg st reverse = do { x \<leftarrow> l bg st reverse; if x then Some True else r bg st reverse }"

definition cond_and :: "cond_fn \<Rightarrow> cond_fn \<Rightarrow> cond_fn" where
  "cond_and l r bg st reverse = do { x \<leftarrow> l bg st reverse; if x then r bg st reverse else Some False }"

definition cond_not :: "cond_fn \<Rightarrow> cond_fn" where
  "cond_not c bg st reverse = map_option Not (c bg st reverse)"

definition cond_const :: "bool \<Rightarrow> cond_fn" where "cond_const b bg st reverse = Some b"

section \<open>The scanner\<close>

definition skipSpaces :: "string \<Rightarrow> string" where "skipSpaces s = dropWhile (\<lambda>c. c = CHR '' '') s"

definition ident_char :: "char \<Rightarrow> bool" where "ident_char c \<longleftrightarrow> c = CHR ''_'' \<or> IsLetter c \<or> IsDigit c"

definition value_char :: "char \<Rightarrow> bool" where
  "value_char c \<longleftrightarrow> c = CHR ''_'' \<or> c = CHR ''.'' \<or> c = CHR ''-'' \<or> IsLetter c \<or> IsDigit c"

definition readIdent :: "string \<Rightarrow> string \<times> string" where
  "readIdent s = (takeWhile ident_char s, dropWhile ident_char s)"

definition readValue :: "string \<Rightarrow> string \<times> string" where
  "readValue s = (takeWhile value_char s, dropWhile value_char s)"

definition readCompOp :: "string \<Rightarrow> string \<times> string" where
  "readCompOp s =
     (if take 2 s \<in> {''=='', ''!='', ''>='', ''<=''} then (take 2 s, drop 2 s)
      else if s \<noteq> [] \<and> hd s \<in> {CHR ''>'', CHR ''<''} then ([hd s], tl s)
      else ([], s))"

section \<open>The parser\<close>

type_synonym parse_result = "(parse_error + cond_fn \<times> string) option"

definition parse_atom :: "ev_lookup \<Rightarrow> string \<Rightarrow> parse_error + cond_fn \<times> string" where
  "parse_atom lookup s =
     (let (ident, s) = readIdent s in
      if ident = [] then Inl ExpectedIdentifier
      else if ident = ''true'' then Inr (cond_const True, s)
      else if ident = ''false'' then Inr (cond_const False, s)
      else let s = skipSpaces s; (op, s) = readCompOp s in
        if op \<noteq> [] then
          (let s = skipSpaces s; (rhs, s) = readValue s in
           if rhs = [] then Inl (ExpectedValue op)
           else case buildComparison lookup ident op rhs of Inl e \<Rightarrow> Inl e | Inr f \<Rightarrow> Inr (f, s))
        else (case buildBooleanRef lookup ident of Inl e \<Rightarrow> Inl e | Inr f \<Rightarrow> Inr (f, s)))"

text \<open>
  The four functions of the parser and their two loops, which extend a left operand, are the tasks of one
  recursion. The result is \<^const>\<open>None\<close> when the fuel is used up.
\<close>

datatype parse_task = ParseOr string | OrLoop cond_fn string | ParseAnd string | AndLoop cond_fn string
  | ParseNot string | ParsePrimary string

primrec parse :: "nat \<Rightarrow> ev_lookup \<Rightarrow> parse_task \<Rightarrow> parse_result" where
  "parse 0 l t = None"
| "parse (Suc n) l t =
     (case t of
        ParseOr s \<Rightarrow> do {
          r \<leftarrow> parse n l (ParseAnd s);
          case r of Inl e \<Rightarrow> Some (Inl e) | Inr (left, s) \<Rightarrow> parse n l (OrLoop left s) }
      | OrLoop left s \<Rightarrow>
          (let s = skipSpaces s in
           if \<not> HasPrefix s ''||'' then Some (Inr (left, s))
           else do {
             r \<leftarrow> parse n l (ParseAnd (drop 2 s));
             case r of Inl e \<Rightarrow> Some (Inl e) | Inr (right, s) \<Rightarrow> parse n l (OrLoop (cond_or left right) s) })
      | ParseAnd s \<Rightarrow> do {
          r \<leftarrow> parse n l (ParseNot s);
          case r of Inl e \<Rightarrow> Some (Inl e) | Inr (left, s) \<Rightarrow> parse n l (AndLoop left s) }
      | AndLoop left s \<Rightarrow>
          (let s = skipSpaces s in
           if \<not> HasPrefix s ''&&'' then Some (Inr (left, s))
           else do {
             r \<leftarrow> parse n l (ParseNot (drop 2 s));
             case r of Inl e \<Rightarrow> Some (Inl e) | Inr (right, s) \<Rightarrow> parse n l (AndLoop (cond_and left right) s) })
      | ParseNot s \<Rightarrow>
          (let s = skipSpaces s in
           if s \<noteq> [] \<and> hd s = CHR ''!'' then do {
             r \<leftarrow> parse n l (ParseNot (tl s));
             case r of Inl e \<Rightarrow> Some (Inl e) | Inr (inner, s) \<Rightarrow> Some (Inr (cond_not inner, s)) }
           else parse n l (ParsePrimary s))
      | ParsePrimary s \<Rightarrow>
          (let s = skipSpaces s in
           if s \<noteq> [] \<and> hd s = CHR ''('' then do {
             r \<leftarrow> parse n l (ParseOr (tl s));
             case r of Inl e \<Rightarrow> Some (Inl e)
             | Inr (inner, s) \<Rightarrow>
                 let s = skipSpaces s in
                 Some (if s = [] \<or> hd s \<noteq> CHR '')'' then Inl ExpectedParen else Inr (inner, tl s)) }
           else Some (parse_atom l s)))"

text \<open>Each call consumes a character or goes one level down: six levels for every character are enough.\<close>

definition parse_fuel :: "string \<Rightarrow> nat" where "parse_fuel s = 6 * length s + 6"

definition ParseCondition :: "string \<Rightarrow> ev_lookup \<Rightarrow> parse_result" where
  "ParseCondition expr lookup =
     (let s = TrimSpace expr in do {
        r \<leftarrow> parse (parse_fuel s) lookup (ParseOr s);
        Some (case r of Inl e \<Rightarrow> Inl e
          | Inr (f, rest) \<Rightarrow> if rest \<noteq> [] then Inl UnexpectedTrailing else Inr (f, rest)) })"

definition ParseValue :: "string \<Rightarrow> ev_lookup \<Rightarrow> parse_error + value_fn" where
  "ParseValue expr lookup =
     (let expr = TrimSpace expr in
      if expr = [] then Inl EmptyValue
      else case ParseFloat expr of
        Some v \<Rightarrow> Inr (\<lambda>bg st reverse. Some v)
      | None \<Rightarrow>
          (case lookup expr of None \<Rightarrow> Inl (UnknownEncodedValue expr)
           | Some enc \<Rightarrow> (case enc of DecimalEV d \<Rightarrow> Inr (read_decimal d) | _ \<Rightarrow> Inl (NotDecimal expr))))"

end
