(* ===== verification/CustomWeighting.thy ===== *)
theory CustomWeighting imports Expressions Weightings begin

text \<open>
  The custom weighting of \<^verbatim>\<open>core/routing/weighting/custom\<close> and the factory that makes it for a profile: the
  statements of a custom model become functions for the speed and the priority of an edge, the largest
  possible speed and priority are computed from the statements, and the weight of an edge is its travel time
  divided by the priority plus the influence of the distance.
\<close>

section \<open>Evaluation of statements\<close>

type_synonym edge_to_double = "base_graph \<Rightarrow> edge_state \<Rightarrow> bool \<Rightarrow> flt option"

record compiled_stmt =
  cs_cond :: cond_fn
  cs_val :: value_fn
  cs_op :: op

text \<open>The loop over the statements with the finished groups and the open one; a group starts with \<open>if\<close>.\<close>

fun split_loop :: "statement list \<Rightarrow> statement list list \<Rightarrow> statement list \<Rightarrow> statement list list option" where
  "split_loop [] result grp = Some (if length grp > 0 then result @ [grp] else result)"
| "split_loop (st # sts) result grp =
     (if Keyword st = KeywordIf then split_loop sts (if length grp > 0 then result @ [grp] else result) [st]
      else if length grp = 0 then None
      else split_loop sts result (grp @ [st]))"

definition SplitIntoGroups :: "statement list \<Rightarrow> statement list list option" where
  "SplitIntoGroups statements = split_loop statements [] []"

fun map_opt :: "('a \<Rightarrow> 'b option) \<Rightarrow> 'a list \<Rightarrow> 'b list option" where
  "map_opt f [] = Some []"
| "map_opt f (x # xs) = do { y \<leftarrow> f x; ys \<leftarrow> map_opt f xs; Some (y # ys) }"

definition compile_stmt :: "ev_lookup \<Rightarrow> statement \<Rightarrow> compiled_stmt option" where
  "compile_stmt lookup st = do {
     condFn \<leftarrow> (if Keyword st \<noteq> KeywordElse
       then (case ParseCondition (Condition st) lookup of Some (Inr (f, _)) \<Rightarrow> Some f | _ \<Rightarrow> None)
       else Some (cond_const True));
     valFn \<leftarrow> (case ParseValue (st_Value st) lookup of Inr f \<Rightarrow> Some f | Inl _ \<Rightarrow> None);
     Some \<lparr>cs_cond = condFn, cs_val = valFn, cs_op = Operation st\<rparr> }"

definition compileStatements :: "statement list \<Rightarrow> ev_lookup \<Rightarrow> compiled_stmt list list option" where
  "compileStatements statements lookup = do {
     groups \<leftarrow> SplitIntoGroups statements;
     map_opt (map_opt (compile_stmt lookup)) groups }"

definition apply_op :: "op \<Rightarrow> flt \<Rightarrow> flt \<Rightarrow> flt" where
  "apply_op op value v =
     (case op of OpMultiply \<Rightarrow> fmul value v | OpLimit \<Rightarrow> go_min value v | OpAdd \<Rightarrow> fadd value v)"

text \<open>The first statement of a group whose condition holds is the only one that counts.\<close>

fun eval_group :: "compiled_stmt list \<Rightarrow> base_graph \<Rightarrow> edge_state \<Rightarrow> bool \<Rightarrow> flt \<Rightarrow> flt option" where
  "eval_group [] bg st r value = Some value"
| "eval_group (cs # css) bg st r value = do {
     c \<leftarrow> cs_cond cs bg st r;
     if c then do { v \<leftarrow> cs_val cs bg st r; Some (apply_op (cs_op cs) value v) }
     else eval_group css bg st r value }"

fun eval_groups :: "compiled_stmt list list \<Rightarrow> base_graph \<Rightarrow> edge_state \<Rightarrow> bool \<Rightarrow> flt \<Rightarrow> flt option" where
  "eval_groups [] bg st r value = Some value"
| "eval_groups (g # gs) bg st r value = do { value \<leftarrow> eval_group g bg st r value; eval_groups gs bg st r value }"

definition BuildEdgeToDoubleMapping :: "statement list \<Rightarrow> flt \<Rightarrow> ev_lookup \<Rightarrow> edge_to_double option" where
  "BuildEdgeToDoubleMapping statements initialValue lookup =
     (if length statements = 0 then Some (\<lambda>bg st r. Some initialValue)
      else do {
        groups \<leftarrow> compileStatements statements lookup;
        Some (\<lambda>bg st r. eval_groups groups bg st r initialValue) })"

section \<open>The range of the values\<close>

definition valueMinMax :: "string \<Rightarrow> ev_lookup \<Rightarrow> min_max" where
  "valueMinMax expr lookup =
     (let expr = TrimSpace expr in
      case ParseFloat expr of Some v \<Rightarrow> \<lparr>mm_Min = v, mm_Max = v\<rparr>
      | None \<Rightarrow> (case lookup expr of
          Some (DecimalEV d) \<Rightarrow> \<lparr>mm_Min = GetMinStorableDecimal d, mm_Max = GetMaxOrMaxStorableDecimal d\<rparr>
        | _ \<Rightarrow> \<lparr>mm_Min = Fin 0, mm_Max = Fin 0\<rparr>))"

definition merge_range :: "min_max \<Rightarrow> min_max \<Rightarrow> min_max" where
  "merge_range a b = \<lparr>mm_Min = go_min (mm_Min a) (mm_Min b), mm_Max = go_max (mm_Max a) (mm_Max b)\<rparr>"

fun branches_loop :: "ev_lookup \<Rightarrow> min_max \<Rightarrow> statement list \<Rightarrow> min_max \<Rightarrow> bool \<Rightarrow> (min_max \<times> bool) option" where
  "branches_loop lookup mm [] merged hasElse = Some (merged, hasElse)"
| "branches_loop lookup mm (s # grp) merged hasElse =
     (let hasElse = (hasElse \<or> Keyword s = KeywordElse);
          applied = op_Apply (Operation s) mm (valueMinMax (st_Value s) lookup)
      in if flt_less (mm_Max applied) (Fin 0) then None
         else branches_loop lookup mm grp (merge_range merged applied) hasElse)"

definition findMinMaxForGroup :: "min_max \<Rightarrow> statement list \<Rightarrow> ev_lookup \<Rightarrow> min_max option" where
  "findMinMaxForGroup minMax grp lookup =
     (case grp of [] \<Rightarrow> None
      | first # _ \<Rightarrow>
          if Keyword first \<noteq> KeywordIf then None
          else if Condition first = ''true'' then
            (let result = op_Apply (Operation first) minMax (valueMinMax (st_Value first) lookup)
             in if flt_less (mm_Max result) (Fin 0) then None else Some result)
          else do {
            (merged, hasElse) \<leftarrow> branches_loop lookup minMax grp \<lparr>mm_Min = MaxFloat64, mm_Max = Fin 0\<rparr> False;
            Some (if \<not> hasElse then merge_range merged minMax else merged) })"

fun min_max_groups :: "ev_lookup \<Rightarrow> statement list list \<Rightarrow> min_max \<Rightarrow> min_max option" where
  "min_max_groups lookup [] mm = Some mm"
| "min_max_groups lookup (g # gs) mm = do { mm \<leftarrow> findMinMaxForGroup mm g lookup; min_max_groups lookup gs mm }"

definition FindMinMax :: "min_max \<Rightarrow> statement list \<Rightarrow> ev_lookup \<Rightarrow> min_max option" where
  "FindMinMax minMax statements lookup = do {
     groups \<leftarrow> SplitIntoGroups statements;
     min_max_groups lookup groups minMax }"

section \<open>The weighting\<close>

definition SpeedConv :: flt where "SpeedConv = f64 (36 / 10)"

record parameters =
  EdgeToSpeed :: edge_to_double
  EdgeToPriority :: edge_to_double
  MaxSpeed :: flt
  MaxPriority :: flt
  par_DistanceInfluence :: flt
  par_HeadingPenalty :: flt

record custom_weighting =
  edgeToSpeed :: edge_to_double
  edgeToPriority :: edge_to_double
  maxSpeed :: flt
  maxPriority :: flt
  distanceInfluence :: flt
  headingPenalty :: flt
  cw_turnCostProvider :: turn_cost_provider
  cw_hasTurnCosts :: bool

definition NewCustomWeighting :: "turn_cost_provider \<Rightarrow> bool \<Rightarrow> parameters \<Rightarrow> custom_weighting option" where
  "NewCustomWeighting tcp hasTurnCosts params =
     (let di = fdiv (par_DistanceInfluence params) (Fin 1000) in do {
        check (\<not> flt_less di (Fin 0));
        Some \<lparr>edgeToSpeed = EdgeToSpeed params, edgeToPriority = EdgeToPriority params, maxSpeed = MaxSpeed params,
          maxPriority = MaxPriority params, distanceInfluence = di, headingPenalty = par_HeadingPenalty params,
          cw_turnCostProvider = tcp, cw_hasTurnCosts = hasTurnCosts\<rparr> })"

definition cw_CalcMinWeightPerDistance :: "custom_weighting \<Rightarrow> flt" where
  "cw_CalcMinWeightPerDistance w =
     fadd (fdiv (fdiv (Fin 1) (fdiv (maxSpeed w) SpeedConv)) (maxPriority w)) (distanceInfluence w)"

definition calcSeconds :: "custom_weighting \<Rightarrow> flt \<Rightarrow> base_graph \<Rightarrow> edge_state \<Rightarrow> bool \<Rightarrow> flt option" where
  "calcSeconds w distance bg st reverse = do {
     speed \<leftarrow> edgeToSpeed w bg st reverse;
     check (\<not> flt_less speed (Fin 0));
     Some (if flt_eq speed (Fin 0) then PInf else fmul (fdiv distance speed) SpeedConv) }"

definition cw_CalcEdgeWeight :: "custom_weighting \<Rightarrow> base_graph \<Rightarrow> edge_state \<Rightarrow> bool \<Rightarrow> flt option" where
  "cw_CalcEdgeWeight w bg st reverse = do {
     priority \<leftarrow> edgeToPriority w bg st reverse;
     if flt_eq priority (Fin 0) then Some PInf
     else do {
       distance \<leftarrow> es_GetDistance bg st;
       seconds \<leftarrow> calcSeconds w distance bg st reverse;
       if math_IsPInf seconds then Some PInf
       else let distanceCosts = fmul distance (distanceInfluence w)
            in Some (if math_IsPInf distanceCosts then PInf else fadd (fdiv seconds priority) distanceCosts) } }"

definition cw_CalcEdgeMillis :: "custom_weighting \<Rightarrow> base_graph \<Rightarrow> edge_state \<Rightarrow> bool \<Rightarrow> i64 option" where
  "cw_CalcEdgeMillis w bg st reverse = do {
     distance \<leftarrow> es_GetDistance bg st;
     seconds \<leftarrow> calcSeconds w distance bg st reverse;
     Some (word_of_int (int64_of_f64 (math_Round (fmul seconds (Fin 1000))))) }"

definition custom_iface :: "custom_weighting \<Rightarrow> base_graph \<Rightarrow> weighting" where
  "custom_iface w bg = \<lparr>CalcMinWeightPerDistance = cw_CalcMinWeightPerDistance w,
     CalcEdgeWeight = cw_CalcEdgeWeight w bg, CalcEdgeMillis = cw_CalcEdgeMillis w bg,
     CalcTurnWeight = tcp_CalcTurnWeight (cw_turnCostProvider w), CalcTurnMillis = tcp_CalcTurnMillis (cw_turnCostProvider w),
     HasTurnCosts = cw_hasTurnCosts w\<rparr>"

section \<open>From a custom model to the weighting\<close>

definition globalMaxSpeed :: flt where "globalMaxSpeed = Fin 999"
definition globalPriority :: flt where "globalPriority = Fin 1"
definition defaultHeadingPenalty :: flt where "defaultHeadingPenalty = Fin 300"

definition CreateWeightingParameters :: "custom_model \<Rightarrow> ev_lookup \<Rightarrow> parameters option" where
  "CreateWeightingParameters cm lookup = do {
     speedMapping \<leftarrow> BuildEdgeToDoubleMapping (Speed cm) globalMaxSpeed lookup;
     priorityMapping \<leftarrow> BuildEdgeToDoubleMapping (Priority cm) globalPriority lookup;
     speedMinMax \<leftarrow> FindMinMax \<lparr>mm_Min = Fin 0, mm_Max = globalMaxSpeed\<rparr> (Speed cm) lookup;
     prioMinMax \<leftarrow> FindMinMax \<lparr>mm_Min = Fin 0, mm_Max = globalPriority\<rparr> (Priority cm) lookup;
     Some \<lparr>EdgeToSpeed = speedMapping, EdgeToPriority = priorityMapping,
       MaxSpeed = go_max (go_min (mm_Max speedMinMax) globalMaxSpeed) (Fin 1),
       MaxPriority = go_max (mm_Max prioMinMax) (f64 (1 / 100)),
       par_DistanceInfluence = (case DistanceInfluence cm of None \<Rightarrow> Fin 0 | Some v \<Rightarrow> v),
       par_HeadingPenalty = (case HeadingPenalty cm of None \<Rightarrow> defaultHeadingPenalty | Some v \<Rightarrow> v)\<rparr> }"

definition custom_CreateWeighting ::
    "ev_lookup \<Rightarrow> turn_cost_provider \<Rightarrow> bool \<Rightarrow> custom_model option \<Rightarrow> custom_weighting option" where
  "custom_CreateWeighting lookup tcp hasTurnCosts customModel = do {
     cm \<leftarrow> customModel;
     params \<leftarrow> CreateWeightingParameters cm lookup;
     NewCustomWeighting tcp hasTurnCosts params }"

section \<open>The factory\<close>

datatype any_value = AnyInt int | AnyFloat flt | AnyInt64 i64 | AnyOther

fun toInt :: "any_value \<Rightarrow> int option" where
  "toInt (AnyInt n) = Some n"
| "toInt (AnyFloat x) = Some (int64_of_f64 x)"
| "toInt (AnyInt64 n) = Some (sint n)"
| "toInt AnyOther = None"

record profile =
  pr_Name :: string
  pr_Weighting :: string
  CustomModelFiles :: "string list"
  CustomModel :: "(string \<Rightarrow> any_value option) option"
  TurnCosts :: "(string \<Rightarrow> any_value option) option"
  NavigationMode :: string
  Hints :: "string \<Rightarrow> any_value option"

definition GetKey :: "string \<Rightarrow> string \<Rightarrow> string" where "GetKey prefix str = prefix @ ''_'' @ str"
definition VehicleSpeedKey :: "string \<Rightarrow> string" where "VehicleSpeedKey name = GetKey name ''average_speed''"
definition VehicleAccessKey :: "string \<Rightarrow> string" where "VehicleAccessKey name = GetKey name ''access''"
definition TurnRestrictionKey :: "string \<Rightarrow> string" where "TurnRestrictionKey prefix = GetKey prefix ''turn_restriction''"
definition SubnetworkKey :: "string \<Rightarrow> string" where "SubnetworkKey prefix = prefix @ ''_subnetwork''"

text \<open>The files of custom models are embedded in the program; \<open>load\<close> gives their content.\<close>

fun merge_files :: "(string \<Rightarrow> custom_model option) \<Rightarrow> string list \<Rightarrow> custom_model \<Rightarrow> custom_model option" where
  "merge_files load [] cm = Some cm"
| "merge_files load (f # fs) cm = do { fileCM \<leftarrow> load f; merge_files load fs (MergeCustomModels cm (Some fileCM)) }"

definition buildCustomModel ::
    "(string \<Rightarrow> custom_model option) \<Rightarrow> profile \<Rightarrow> string \<Rightarrow> ev_lookup \<Rightarrow> custom_model option" where
  "buildCustomModel load profile vehicleSpeedKey em = do {
     cm \<leftarrow> (if length (CustomModelFiles profile) > 0 then merge_files load (CustomModelFiles profile) NewCustomModel
       else Some (AddToSpeed (If' ''true'' OpLimit vehicleSpeedKey)
         (AddToPriority (If' (''!'' @ VehicleAccessKey (pr_Name profile)) OpMultiply ''0'') NewCustomModel)));
     let subnetworkKey = SubnetworkKey (pr_Name profile);
     Some (if em subnetworkKey \<noteq> None then AddToPriority (If' subnetworkKey OpMultiply ''0'') cm else cm) }"

definition uturn_costs :: "(string \<Rightarrow> any_value option) \<Rightarrow> (string \<Rightarrow> any_value option) \<Rightarrow> int option" where
  "uturn_costs turnCosts hints = do {
     u \<leftarrow> (case turnCosts ''u_turn_costs'' of None \<Rightarrow> Some (- 1) | Some v \<Rightarrow> toInt v);
     case hints ''u_turn_costs'' of None \<Rightarrow> Some u | Some v \<Rightarrow> toInt v }"

definition CreateWeighting ::
    "(string \<Rightarrow> custom_model option) \<Rightarrow> ev_lookup \<Rightarrow> ev_lookup \<Rightarrow> tc_storage \<Rightarrow> nodes_edges \<Rightarrow> profile \<Rightarrow>
     (string \<Rightarrow> any_value option) \<Rightarrow> bool \<Rightarrow> custom_weighting option" where
  "CreateWeighting load em turn_em tcs na profile hints disableTurnCosts =
     (let weightingStr = map lower_char (pr_Weighting profile);
          weightingStr = (if weightingStr = [] then ''custom'' else weightingStr)
      in do {
        check (weightingStr = ''custom'');
        cm \<leftarrow> buildCustomModel load profile (VehicleSpeedKey (pr_Name profile)) em;
        (hasTurnCosts, tcp) \<leftarrow> (case TurnCosts profile of
            None \<Rightarrow> Some (False, NoTurnCostProvider)
          | Some turnCosts \<Rightarrow>
              if disableTurnCosts then Some (False, NoTurnCostProvider)
              else do {
                enc \<leftarrow> (case turn_em (TurnRestrictionKey (pr_Name profile)) of Some (BoolEV b) \<Rightarrow> Some b | _ \<Rightarrow> None);
                u \<leftarrow> uturn_costs turnCosts hints;
                Some (True, NewDefaultTurnCostProvider (Some enc) tcs na u) });
        custom_CreateWeighting em tcp hasTurnCosts (Some cm) })"

end
