(* ===== verification/ConditionParser.thy ===== *)
theory ConditionParser imports Expressions begin

text \<open>
  The parser of conditions against its grammar: the fuel is always enough, more of it changes nothing, and a
  condition that is printed from its syntax tree parses to the meaning of the tree, with \<open>!\<close> binding tighter
  than \<open>&&\<close> and \<open>&&\<close> tighter than \<open>||\<close>.
\<close>

section \<open>Fuel\<close>

primrec task_input :: "parse_task \<Rightarrow> string" where
  "task_input (ParseOr s) = s"
| "task_input (OrLoop f s) = s"
| "task_input (ParseAnd s) = s"
| "task_input (AndLoop f s) = s"
| "task_input (ParseNot s) = s"
| "task_input (ParsePrimary s) = s"

primrec task_level :: "parse_task \<Rightarrow> nat" where
  "task_level (ParseOr s) = 4"
| "task_level (OrLoop f s) = 1"
| "task_level (ParseAnd s) = 3"
| "task_level (AndLoop f s) = 1"
| "task_level (ParseNot s) = 2"
| "task_level (ParsePrimary s) = 1"

definition is_loop :: "parse_task \<Rightarrow> bool" where
  "is_loop t \<longleftrightarrow> (\<exists>f s. t = OrLoop f s \<or> t = AndLoop f s)"

lemma is_loop_simps [simp]:
  "is_loop (OrLoop f s)" "is_loop (AndLoop f s)" "\<not> is_loop (ParseOr s)" "\<not> is_loop (ParseAnd s)"
  "\<not> is_loop (ParseNot s)" "\<not> is_loop (ParsePrimary s)"
  by (auto simp: is_loop_def)

lemma length_skipSpaces: "length (skipSpaces s) \<le> length s"
  by (simp add: skipSpaces_def length_dropWhile_le)

lemma length_readCompOp: "length (snd (readCompOp s)) \<le> length s"
  by (auto simp: readCompOp_def)

lemma readIdent_shorter: "fst (readIdent s) \<noteq> [] \<Longrightarrow> length (snd (readIdent s)) < length s"
  by (cases s) (auto simp: readIdent_def length_dropWhile_le less_Suc_eq_le split: if_splits)

lemma length_readValue: "length (snd (readValue s)) \<le> length s"
  by (simp add: readValue_def length_dropWhile_le)

lemma atom_shorter:
  assumes "parse_atom l s = Inr (f, r)"
  shows "length r < length s"
proof -
  obtain i s1 where i: "readIdent s = (i, s1)" by (cases "readIdent s")
  obtain op s2 where op: "readCompOp (skipSpaces s1) = (op, s2)" by (cases "readCompOp (skipSpaces s1)")
  obtain v s3 where v: "readValue (skipSpaces s2) = (v, s3)" by (cases "readValue (skipSpaces s2)")
  have "i \<noteq> []" using assms by (auto simp: parse_atom_def i)
  then have 1: "length s1 < length s" using readIdent_shorter [of s] by (simp add: i)
  have 2: "length s2 \<le> length s1"
    using length_readCompOp [of "skipSpaces s1"] length_skipSpaces [of s1] by (simp add: op)
  have 3: "length s3 \<le> length s2"
    using length_readValue [of "skipSpaces s2"] length_skipSpaces [of s2] by (simp add: v)
  show ?thesis using assms 1 2 3 by (auto simp: parse_atom_def i op v Let_def split: if_splits sum.splits)
qed

definition good_result :: "parse_task \<Rightarrow> parse_error + cond_fn \<times> string \<Rightarrow> bool" where
  "good_result t r \<longleftrightarrow> (\<forall>f s. r = Inr (f, s) \<longrightarrow>
     (if is_loop t then length s \<le> length (task_input t) else length s < length (task_input t)))"

lemma parse_returns:
  "6 * length (task_input t) + task_level t \<le> n \<Longrightarrow> \<exists>r. parse n l t = Some r \<and> good_result t r"
proof (induction n arbitrary: t)
  case 0
  then show ?case by (cases t) simp_all
next
  case (Suc n)
  have then_: "\<exists>r. (do { r \<leftarrow> parse n l t1; case r of Inl e \<Rightarrow> Some (Inl e) | Inr (f, s) \<Rightarrow> k f s }) = Some r \<and> good_result t r"
    if fuel: "6 * length (task_input t1) + task_level t1 \<le> n" and
      k: "\<And>f s. good_result t1 (Inr (f, s)) \<Longrightarrow> \<exists>r. k f s = Some r \<and> good_result t r" for t1 k
  proof -
    obtain r where r: "parse n l t1 = Some r" "good_result t1 r" using Suc.IH [OF fuel] by blast
    show ?thesis
    proof (cases r)
      case (Inl e)
      then show ?thesis using r by (simp add: good_result_def)
    next
      case (Inr x)
      then show ?thesis using r k [of "fst x" "snd x"] by (cases x) simp
    qed
  qed
  have loop: "\<exists>r. parse n l t1 = Some r \<and> good_result t r"
    if "6 * length (task_input t1) + task_level t1 \<le> n" "length (task_input t1) \<le> length (task_input t)"
      "is_loop t1 \<Longrightarrow> \<not> is_loop t \<Longrightarrow> length (task_input t1) < length (task_input t)" for t1
    using Suc.IH [OF that(1)] that(2,3) by (fastforce simp: good_result_def split: if_splits)
  note ls = length_skipSpaces
  show ?case
  proof (cases t)
    case (ParseOr s)
    have "\<exists>r. (do { r \<leftarrow> parse n l (ParseAnd s);
        case r of Inl e \<Rightarrow> Some (Inl e) | Inr (left, s) \<Rightarrow> parse n l (OrLoop left s) }) = Some r \<and> good_result t r"
    proof (rule then_)
      fix f s1 assume "good_result (ParseAnd s) (Inr (f, s1))"
      then show "\<exists>r. parse n l (OrLoop f s1) = Some r \<and> good_result t r"
        using Suc.prems ParseOr by (intro loop) (auto simp: good_result_def)
    qed (use Suc.prems ParseOr in simp)
    then show ?thesis by (simp add: ParseOr)
  next
    case (OrLoop left s)
    let ?s = "skipSpaces s"
    show ?thesis
    proof (cases "HasPrefix ?s ''||''")
      case True
      then have len: "length (drop 2 ?s) + 2 \<le> length s"
        using ls [of s] arg_cong [of _ _ length, OF True [unfolded HasPrefix_def]] by simp
      have "\<exists>r. (do { r \<leftarrow> parse n l (ParseAnd (drop 2 ?s));
          case r of Inl e \<Rightarrow> Some (Inl e) | Inr (right, s) \<Rightarrow> parse n l (OrLoop (cond_or left right) s) }) = Some r \<and> good_result t r"
      proof (rule then_)
        fix f s1 assume "good_result (ParseAnd (drop 2 ?s)) (Inr (f, s1))"
        then show "\<exists>r. parse n l (OrLoop (cond_or left f) s1) = Some r \<and> good_result t r"
          using Suc.prems OrLoop len by (intro loop) (auto simp: good_result_def)
      qed (use Suc.prems OrLoop len in simp)
      then show ?thesis using True by (simp add: OrLoop Let_def)
    next
      case False
      then show ?thesis using ls [of s] by (simp add: OrLoop Let_def good_result_def)
    qed
  next
    case (ParseAnd s)
    have "\<exists>r. (do { r \<leftarrow> parse n l (ParseNot s);
        case r of Inl e \<Rightarrow> Some (Inl e) | Inr (left, s) \<Rightarrow> parse n l (AndLoop left s) }) = Some r \<and> good_result t r"
    proof (rule then_)
      fix f s1 assume "good_result (ParseNot s) (Inr (f, s1))"
      then show "\<exists>r. parse n l (AndLoop f s1) = Some r \<and> good_result t r"
        using Suc.prems ParseAnd by (intro loop) (auto simp: good_result_def)
    qed (use Suc.prems ParseAnd in simp)
    then show ?thesis by (simp add: ParseAnd)
  next
    case (AndLoop left s)
    let ?s = "skipSpaces s"
    show ?thesis
    proof (cases "HasPrefix ?s ''&&''")
      case True
      then have len: "length (drop 2 ?s) + 2 \<le> length s"
        using ls [of s] arg_cong [of _ _ length, OF True [unfolded HasPrefix_def]] by simp
      have "\<exists>r. (do { r \<leftarrow> parse n l (ParseNot (drop 2 ?s));
          case r of Inl e \<Rightarrow> Some (Inl e) | Inr (right, s) \<Rightarrow> parse n l (AndLoop (cond_and left right) s) }) = Some r \<and> good_result t r"
      proof (rule then_)
        fix f s1 assume "good_result (ParseNot (drop 2 ?s)) (Inr (f, s1))"
        then show "\<exists>r. parse n l (AndLoop (cond_and left f) s1) = Some r \<and> good_result t r"
          using Suc.prems AndLoop len by (intro loop) (auto simp: good_result_def)
      qed (use Suc.prems AndLoop len in simp)
      then show ?thesis using True by (simp add: AndLoop Let_def)
    next
      case False
      then show ?thesis using ls [of s] by (simp add: AndLoop Let_def good_result_def)
    qed
  next
    case (ParseNot s)
    let ?s = "skipSpaces s"
    show ?thesis
    proof (cases "?s \<noteq> [] \<and> hd ?s = CHR ''!''")
      case True
      then have len: "length (tl ?s) + 1 \<le> length s" using ls [of s] by (cases ?s) simp_all
      have "\<exists>r. (do { r \<leftarrow> parse n l (ParseNot (tl ?s));
          case r of Inl e \<Rightarrow> Some (Inl e) | Inr (inner, s) \<Rightarrow> Some (Inr (cond_not inner, s)) }) = Some r \<and> good_result t r"
        by (rule then_) (use Suc.prems ParseNot len in \<open>auto simp: good_result_def\<close>)
      then show ?thesis using True by (simp add: ParseNot Let_def)
    next
      case False
      have "\<exists>r. parse n l (ParsePrimary ?s) = Some r \<and> good_result (ParsePrimary ?s) r"
        using Suc.prems ParseNot ls [of s] by (intro Suc.IH) simp
      then show ?thesis using False ls [of s] by (fastforce simp: ParseNot Let_def good_result_def)
    qed
  next
    case (ParsePrimary s)
    let ?s = "skipSpaces s"
    show ?thesis
    proof (cases "?s \<noteq> [] \<and> hd ?s = CHR ''(''")
      case True
      then have len: "length (tl ?s) + 1 \<le> length s" using ls [of s] by (cases ?s) simp_all
      have "\<exists>r. (do { r \<leftarrow> parse n l (ParseOr (tl ?s));
          case r of Inl e \<Rightarrow> Some (Inl e)
          | Inr (inner, s) \<Rightarrow> Some (if skipSpaces s = [] \<or> hd (skipSpaces s) \<noteq> CHR '')'' then Inl ExpectedParen
              else Inr (inner, tl (skipSpaces s))) }) = Some r \<and> good_result t r"
      proof (rule then_)
        fix f s1 assume "good_result (ParseOr (tl ?s)) (Inr (f, s1))"
        then show "\<exists>r. Some (if skipSpaces s1 = [] \<or> hd (skipSpaces s1) \<noteq> CHR '')'' then Inl ExpectedParen
            else Inr (f, tl (skipSpaces s1))) = Some r \<and> good_result t r"
          using ParsePrimary len ls [of s1] by (auto simp: good_result_def Let_def)
      qed (use Suc.prems ParsePrimary len in simp)
      then show ?thesis using True by (simp add: ParsePrimary Let_def)
    next
      case False
      then show ?thesis using ls [of s] by (auto simp: ParsePrimary Let_def good_result_def dest!: atom_shorter)
    qed
  qed
qed

lemma parse_mono:
  "parse n l t = Some r \<Longrightarrow> parse (n + k) l t = Some r"
proof (induction n arbitrary: t r)
  case (Suc n)
  have seq: "(do { r \<leftarrow> parse (n + k) l t1; g r }) = Some r" if "(do { r \<leftarrow> parse n l t1; f r }) = Some r"
      "\<And>x. f x = Some r \<Longrightarrow> g x = Some r" for t1 f g
    using that Suc.IH by (auto simp: bind_Some_iff)
  show ?case using Suc.prems
    by (cases t) (auto simp: Let_def elim!: seq split: if_splits sum.splits prod.splits intro: Suc.IH)
qed simp

section \<open>The parser as a relation\<close>

definition parses :: "ev_lookup \<Rightarrow> parse_task \<Rightarrow> parse_error + cond_fn \<times> string \<Rightarrow> bool" where
  "parses l t r \<longleftrightarrow> (\<exists>n. parse n l t = Some r)"

lemma parses_unique:
  assumes "parses l t r" "6 * length (task_input t) + task_level t \<le> n"
  shows "parse n l t = Some r"
proof -
  obtain m where m: "parse m l t = Some r" using assms(1) by (auto simp: parses_def)
  obtain r' where r': "parse n l t = Some r'" using parse_returns [OF assms(2)] by blast
  show ?thesis using parse_mono [OF m, of n] parse_mono [OF r', of m] r' by (simp add: add.commute)
qed

lemma parses_both:
  assumes "parses l t r" "parses l t' r'"
  obtains n where "parse n l t = Some r" "parse n l t' = Some r'"
proof -
  obtain n m where "parse n l t = Some r" "parse m l t' = Some r'" using assms by (auto simp: parses_def)
  from that [OF parse_mono [OF this(1), of m]] parse_mono [OF this(2), of n] show thesis by (simp add: add.commute)
qed

lemma parses_Or:
  assumes "parses l (ParseAnd s) (Inr (f, s1))" "parses l (OrLoop f s1) r"
  shows "parses l (ParseOr s) r"
proof -
  obtain n where "parse n l (ParseAnd s) = Some (Inr (f, s1))" "parse n l (OrLoop f s1) = Some r" by (rule parses_both [OF assms])
  then have "parse (Suc n) l (ParseOr s) = Some r" by simp
  then show ?thesis unfolding parses_def by blast
qed

lemma parses_OrLoop:
  assumes "skipSpaces s = ''||'' @ s1" "parses l (ParseAnd s1) (Inr (g, s2))" "parses l (OrLoop (cond_or f g) s2) r"
  shows "parses l (OrLoop f s) r"
proof -
  obtain n where "parse n l (ParseAnd s1) = Some (Inr (g, s2))" "parse n l (OrLoop (cond_or f g) s2) = Some r"
    by (rule parses_both [OF assms(2,3)])
  then have "parse (Suc n) l (OrLoop f s) = Some r" using assms(1) by (simp add: HasPrefix_def)
  then show ?thesis unfolding parses_def by blast
qed

lemma parses_OrLoop_end: "\<not> HasPrefix (skipSpaces s) ''||'' \<Longrightarrow> parses l (OrLoop f s) (Inr (f, skipSpaces s))"
  unfolding parses_def by (rule exI [of _ 1]) simp

lemma parses_And:
  assumes "parses l (ParseNot s) (Inr (f, s1))" "parses l (AndLoop f s1) r"
  shows "parses l (ParseAnd s) r"
proof -
  obtain n where "parse n l (ParseNot s) = Some (Inr (f, s1))" "parse n l (AndLoop f s1) = Some r" by (rule parses_both [OF assms])
  then have "parse (Suc n) l (ParseAnd s) = Some r" by simp
  then show ?thesis unfolding parses_def by blast
qed

lemma parses_AndLoop:
  assumes "skipSpaces s = ''&&'' @ s1" "parses l (ParseNot s1) (Inr (g, s2))" "parses l (AndLoop (cond_and f g) s2) r"
  shows "parses l (AndLoop f s) r"
proof -
  obtain n where "parse n l (ParseNot s1) = Some (Inr (g, s2))" "parse n l (AndLoop (cond_and f g) s2) = Some r"
    by (rule parses_both [OF assms(2,3)])
  then have "parse (Suc n) l (AndLoop f s) = Some r" using assms(1) by (simp add: HasPrefix_def)
  then show ?thesis unfolding parses_def by blast
qed

lemma parses_AndLoop_end: "\<not> HasPrefix (skipSpaces s) ''&&'' \<Longrightarrow> parses l (AndLoop f s) (Inr (f, skipSpaces s))"
  unfolding parses_def by (rule exI [of _ 1]) simp

lemma parses_Not:
  assumes "skipSpaces s = CHR ''!'' # s1" "parses l (ParseNot s1) (Inr (f, s2))"
  shows "parses l (ParseNot s) (Inr (cond_not f, s2))"
proof -
  obtain n where "parse n l (ParseNot s1) = Some (Inr (f, s2))" using assms(2) by (auto simp: parses_def)
  then have "parse (Suc n) l (ParseNot s) = Some (Inr (cond_not f, s2))" using assms(1) by simp
  then show ?thesis unfolding parses_def by blast
qed

lemma parses_Paren:
  assumes "skipSpaces s = CHR ''('' # s1" "parses l (ParseOr s1) (Inr (f, s2))" "skipSpaces s2 = CHR '')'' # s3"
  shows "parses l (ParseNot s) (Inr (f, s3))"
proof -
  obtain n where "parse n l (ParseOr s1) = Some (Inr (f, s2))" using assms(2) by (auto simp: parses_def)
  moreover have "skipSpaces (CHR ''('' # s1) = CHR ''('' # s1" by (simp add: skipSpaces_def)
  ultimately have "parse (Suc (Suc n)) l (ParseNot s) = Some (Inr (f, s3))" using assms(1,3) by simp
  then show ?thesis unfolding parses_def by blast
qed

lemma parses_atom:
  assumes "skipSpaces s = s" "s \<noteq> []" "hd s \<noteq> CHR ''!''" "hd s \<noteq> CHR ''(''" "parse_atom l s = r"
  shows "parses l (ParseNot s) r"
proof -
  have "parse (Suc (Suc 0)) l (ParseNot s) = Some r" using assms by simp
  then show ?thesis unfolding parses_def by blast
qed

section \<open>The grammar\<close>

text \<open>A condition in parentheses is a disjunction of conjunctions.\<close>

datatype cond_expr = Lit bool | Ref string | Cmp string string string | Neg cond_expr | Paren "cond_expr list list"

definition join :: "string \<Rightarrow> string list \<Rightarrow> string" where
  "join sep ss = (case ss of [] \<Rightarrow> [] | x # xs \<Rightarrow> x @ concat (map ((@) sep) xs))"

fun print_cond :: "cond_expr \<Rightarrow> string" where
  "print_cond (Lit b) = (if b then ''true'' else ''false'')"
| "print_cond (Ref n) = n"
| "print_cond (Cmp n op v) = n @ '' '' @ op @ '' '' @ v"
| "print_cond (Neg c) = ''!'' @ print_cond c"
| "print_cond (Paren css) = ''('' @ join '' || '' (map (\<lambda>cs. join '' && '' (map print_cond cs)) css) @ '')''"

definition print_or :: "cond_expr list list \<Rightarrow> string" where
  "print_or css = join '' || '' (map (\<lambda>cs. join '' && '' (map print_cond cs)) css)"

text \<open>The value of an expression on an edge, from left to right and no further than needed.\<close>

fun conj :: "bool option list \<Rightarrow> bool option" where
  "conj [] = Some True"
| "conj (x # xs) = do { b \<leftarrow> x; if b then conj xs else Some False }"

fun disj :: "bool option list \<Rightarrow> bool option" where
  "disj [] = Some False"
| "disj (x # xs) = do { b \<leftarrow> x; if b then Some True else disj xs }"

fun eval_cond :: "ev_lookup \<Rightarrow> base_graph \<Rightarrow> edge_state \<Rightarrow> bool \<Rightarrow> cond_expr \<Rightarrow> bool option" where
  "eval_cond l bg st r (Lit b) = Some b"
| "eval_cond l bg st r (Ref n) = (case l n of Some (BoolEV b) \<Rightarrow> read_bool b bg st r | _ \<Rightarrow> None)"
| "eval_cond l bg st r (Cmp n op v) = (case buildComparison l n op v of Inr f \<Rightarrow> f bg st r | Inl _ \<Rightarrow> None)"
| "eval_cond l bg st r (Neg c) = map_option Not (eval_cond l bg st r c)"
| "eval_cond l bg st r (Paren css) = disj (map (\<lambda>cs. conj (map (eval_cond l bg st r) cs)) css)"

definition eval_or :: "ev_lookup \<Rightarrow> cond_expr list list \<Rightarrow> cond_fn" where
  "eval_or l css = (\<lambda>bg st r. disj (map (\<lambda>cs. conj (map (eval_cond l bg st r) cs)) css))"

definition ascii :: "char \<Rightarrow> bool" where "ascii c \<longleftrightarrow> byte_of c < 128"

definition name_ok :: "string \<Rightarrow> bool" where
  "name_ok n \<longleftrightarrow> n \<noteq> [] \<and> n \<noteq> ''true'' \<and> n \<noteq> ''false'' \<and> (\<forall>c \<in> set n. ident_char c \<and> ascii c)"

definition value_ok :: "string \<Rightarrow> bool" where
  "value_ok v \<longleftrightarrow> v \<noteq> [] \<and> (\<forall>c \<in> set v. value_char c \<and> ascii c)"

fun cond_ok :: "ev_lookup \<Rightarrow> cond_expr \<Rightarrow> bool" where
  "cond_ok l (Lit b) = True"
| "cond_ok l (Ref n) = (name_ok n \<and> (\<exists>b. l n = Some (BoolEV b)))"
| "cond_ok l (Cmp n op v) = (name_ok n \<and> op \<in> {''=='', ''!='', ''>='', ''<='', ''>'', ''<''} \<and> value_ok v \<and>
     (\<exists>f. buildComparison l n op v = Inr f))"
| "cond_ok l (Neg c) = cond_ok l c"
| "cond_ok l (Paren css) = (css \<noteq> [] \<and> (\<forall>cs \<in> set css. cs \<noteq> [] \<and> (\<forall>c \<in> set cs. cond_ok l c)))"

section \<open>What follows an operand\<close>

definition follow :: "string \<Rightarrow> bool" where
  "follow s \<longleftrightarrow> (s = [] \<or> hd s = CHR '' '' \<or> hd s = CHR '')'') \<and>
     (skipSpaces s = [] \<or> hd (skipSpaces s) \<in> {CHR '')'', CHR ''|'', CHR ''&''})"

lemma skip_space [simp]: "skipSpaces (CHR '' '' # s) = skipSpaces s" "skipSpaces [] = []"
  "c \<noteq> CHR '' '' \<Longrightarrow> skipSpaces (c # s) = c # s"
  by (simp_all add: skipSpaces_def)

lemma skip_idem [simp]: "skipSpaces (skipSpaces s) = skipSpaces s"
  unfolding skipSpaces_def by (induction s) auto

lemma ident_value: "ident_char c \<Longrightarrow> value_char c"
  by (auto simp: ident_char_def value_char_def)

lemma stop_chars: "\<not> value_char (CHR '' '')" "\<not> value_char (CHR '')'')" "\<not> value_char (CHR ''!'')" "\<not> value_char (CHR ''('')"
  by (simp_all add: value_char_def IsLetter_def IsDigit_def)

lemma value_char_not_space: "value_char c \<Longrightarrow> c \<noteq> CHR '' ''" "ident_char c \<Longrightarrow> c \<noteq> CHR '' ''"
  "ident_char c \<Longrightarrow> c \<noteq> CHR ''!''" "ident_char c \<Longrightarrow> c \<noteq> CHR ''(''"
  using stop_chars ident_value by blast+

lemma scan_append:
  assumes "\<forall>c \<in> set n. P c" "s = [] \<or> \<not> P (hd s)"
  shows "takeWhile P (n @ s) = n" "dropWhile P (n @ s) = s"
  using assms by (induction n; cases s; auto)+

lemma readIdent_append:
  assumes "\<forall>c \<in> set n. ident_char c" "s = [] \<or> \<not> ident_char (hd s)"
  shows "readIdent (n @ s) = (n, s)"
  by (simp only: readIdent_def scan_append [OF assms])

lemma readValue_append:
  assumes "\<forall>c \<in> set n. value_char c" "s = [] \<or> \<not> value_char (hd s)"
  shows "readValue (n @ s) = (n, s)"
  by (simp only: readValue_def scan_append [OF assms])

lemma follow_stop: "follow s \<Longrightarrow> s = [] \<or> \<not> value_char (hd s)" "follow s \<Longrightarrow> s = [] \<or> \<not> ident_char (hd s)"
  using stop_chars ident_value by (auto simp: follow_def)

lemma follow_no_op: "follow s \<Longrightarrow> readCompOp (skipSpaces s) = ([], skipSpaces s)"
  by (cases "skipSpaces s"; auto simp: follow_def readCompOp_def)

lemma readCompOp_append:
  "op \<in> {''=='', ''!='', ''>='', ''<='', ''>'', ''<''} \<Longrightarrow> readCompOp (op @ CHR '' '' # s) = (op, CHR '' '' # s)"
  by (auto simp: readCompOp_def)

lemma parse_space: "parse n l (ParseNot (CHR '' '' # s)) = parse n l (ParseNot s)"
  by (cases n) simp_all

lemma parse_And_space: "parse n l (ParseAnd (CHR '' '' # s)) = parse n l (ParseAnd s)"
  by (cases n; simp add: parse_space)

lemma parses_space:
  "parses l (ParseNot (CHR '' '' # s)) = parses l (ParseNot s)" "parses l (ParseAnd (CHR '' '' # s)) = parses l (ParseAnd s)"
  by (simp_all add: parses_def [abs_def] parse_space parse_And_space)

lemma foldl_and: "foldl cond_and f fs bg st r = conj (map (\<lambda>g. g bg st r) (f # fs))"
proof (induction fs arbitrary: f)
  case Nil
  show ?case by (cases "f bg st r") auto
next
  case (Cons g fs)
  then show ?case by (cases "f bg st r"; cases "g bg st r") (auto simp: cond_and_def)
qed

lemma foldl_or: "foldl cond_or f fs bg st r = disj (map (\<lambda>g. g bg st r) (f # fs))"
proof (induction fs arbitrary: f)
  case Nil
  show ?case by (cases "f bg st r") auto
next
  case (Cons g fs)
  then show ?case by (cases "f bg st r"; cases "g bg st r") (auto simp: cond_or_def)
qed

section \<open>Operands\<close>

text \<open>What the parser makes of an operand in front of any continuation.\<close>

definition operand_parsed :: "ev_lookup \<Rightarrow> cond_expr \<Rightarrow> bool" where
  "operand_parsed l c \<longleftrightarrow> (\<forall>s. follow s \<longrightarrow> (\<exists>s'. skipSpaces s' = skipSpaces s \<and>
     parses l (ParseNot (print_cond c @ s)) (Inr (\<lambda>bg st r. eval_cond l bg st r c, s'))))"

lemma name_okD:
  assumes "name_ok n"
  shows "n \<noteq> []" "n \<noteq> ''true''" "n \<noteq> ''false''" "\<forall>c \<in> set n. ident_char c"
    "skipSpaces (n @ s) = n @ s" "n @ s \<noteq> []" "hd (n @ s) \<noteq> CHR ''!''" "hd (n @ s) \<noteq> CHR ''(''"
proof -
  show n: "n \<noteq> []" "n \<noteq> ''true''" "n \<noteq> ''false''" "\<forall>c \<in> set n. ident_char c"
    using assms by (auto simp: name_ok_def)
  then have h: "hd (n @ s) = hd n" "ident_char (hd n)" by simp_all
  then show "hd (n @ s) \<noteq> CHR ''!''" "hd (n @ s) \<noteq> CHR ''(''" "n @ s \<noteq> []"
    using value_char_not_space n(1) by auto
  have "hd n \<noteq> CHR '' ''" using h(2) value_char_not_space by blast
  then show "skipSpaces (n @ s) = n @ s" using n(1) by (cases n) simp_all
qed

lemma Lit_parsed: "operand_parsed l (Lit b)"
proof -
  have "\<exists>s'. skipSpaces s' = skipSpaces s \<and> parses l (ParseNot (print_cond (Lit b) @ s)) (Inr (\<lambda>bg st r. eval_cond l bg st r (Lit b), s'))"
    if s: "follow s" for s
  proof -
    let ?n = "print_cond (Lit b)"
    have "\<forall>c \<in> set ?n. ident_char c" by (auto simp: ident_char_def IsLetter_def)
    then have R: "readIdent (?n @ s) = (?n, s)" by (rule readIdent_append) (rule follow_stop(2) [OF s])
    have c: "cond_const b = (\<lambda>bg st r. eval_cond l bg st r (Lit b))" by (simp add: cond_const_def fun_eq_iff)
    have "parse_atom l (?n @ s) = Inr (cond_const b, s)"
      unfolding parse_atom_def R by (cases b) simp_all
    then have "parses l (ParseNot (?n @ s)) (Inr (cond_const b, s))"
      by (intro parses_atom) (auto simp: skipSpaces_def)
    then show ?thesis unfolding c by blast
  qed
  then show ?thesis by (simp add: operand_parsed_def)
qed

lemma Ref_parsed:
  assumes "cond_ok l (Ref n)"
  shows "operand_parsed l (Ref n)"
proof -
  obtain b where n: "name_ok n" "l n = Some (BoolEV b)" using assms by auto
  note N = name_okD [OF n(1)]
  have "parses l (ParseNot (n @ s)) (Inr (\<lambda>bg st r. eval_cond l bg st r (Ref n), skipSpaces s))" if s: "follow s" for s
  proof -
    have R: "readIdent (n @ s) = (n, s)" by (rule readIdent_append [OF N(4)]) (rule follow_stop(2) [OF s])
    have c: "read_bool b = (\<lambda>bg st r. eval_cond l bg st r (Ref n))" using n(2) by (simp add: fun_eq_iff)
    have "parse_atom l (n @ s) = Inr (read_bool b, skipSpaces s)"
      using N(1-3) n(2) follow_no_op [OF s] by (simp add: parse_atom_def R buildBooleanRef_def)
    then show ?thesis unfolding c using N(5-8) by (intro parses_atom) simp_all
  qed
  then show ?thesis unfolding operand_parsed_def print_cond.simps using skip_idem by blast
qed

lemma Cmp_parsed:
  assumes "cond_ok l (Cmp n op v)"
  shows "operand_parsed l (Cmp n op v)"
proof -
  obtain f where n: "name_ok n" "op \<in> {''=='', ''!='', ''>='', ''<='', ''>'', ''<''}" "value_ok v"
    and f: "buildComparison l n op v = Inr f" using assms by auto
  note N = name_okD [OF n(1)]
  have v: "v \<noteq> []" "\<forall>c \<in> set v. value_char c" using n(3) by (auto simp: value_ok_def)
  have "parses l (ParseNot (print_cond (Cmp n op v) @ s)) (Inr (\<lambda>bg st r. eval_cond l bg st r (Cmp n op v), s))"
    if s: "follow s" for s
  proof -
    let ?s = "CHR '' '' # op @ CHR '' '' # v @ s"
    have p: "print_cond (Cmp n op v) @ s = n @ ?s" by simp
    have R: "readIdent (n @ ?s) = (n, ?s)"
      by (rule readIdent_append [OF N(4)]) (use stop_chars(1) ident_value in auto)
    have o: "skipSpaces ?s = op @ CHR '' '' # v @ s" "op \<noteq> []" using n(2) by auto
    have V: "readValue (v @ s) = (v, s)" by (rule readValue_append [OF v(2)]) (rule follow_stop(1) [OF s])
    have "skipSpaces (v @ s) = v @ s" using v value_char_not_space(1) by (cases v) auto
    then have "parse_atom l (n @ ?s) = Inr (f, s)"
      using N(1-3) f o v(1) by (simp add: parse_atom_def R readCompOp_append [OF n(2)] V Let_def)
    moreover have "f = (\<lambda>bg st r. eval_cond l bg st r (Cmp n op v))" using f by (simp add: fun_eq_iff)
    ultimately show ?thesis unfolding p using N(5-8) by (intro parses_atom) simp_all
  qed
  then show ?thesis by (auto simp: operand_parsed_def)
qed

lemma Neg_parsed:
  assumes "operand_parsed l c"
  shows "operand_parsed l (Neg c)"
proof -
  have "\<exists>s'. skipSpaces s' = skipSpaces s \<and> parses l (ParseNot (print_cond (Neg c) @ s)) (Inr (\<lambda>bg st r. eval_cond l bg st r (Neg c), s'))"
    if s: "follow s" for s
  proof -
    obtain s' where s': "skipSpaces s' = skipSpaces s"
      "parses l (ParseNot (print_cond c @ s)) (Inr (\<lambda>bg st r. eval_cond l bg st r c, s'))"
      using assms s by (auto simp: operand_parsed_def)
    have "skipSpaces (print_cond (Neg c) @ s) = CHR ''!'' # print_cond c @ s" by simp
    from parses_Not [OF this s'(2)]
    have "parses l (ParseNot (print_cond (Neg c) @ s)) (Inr (cond_not (\<lambda>bg st r. eval_cond l bg st r c), s'))" .
    moreover have "cond_not (\<lambda>bg st r. eval_cond l bg st r c) = (\<lambda>bg st r. eval_cond l bg st r (Neg c))"
      by (simp add: cond_not_def fun_eq_iff)
    ultimately show ?thesis using s'(1) by metis
  qed
  then show ?thesis by (simp add: operand_parsed_def)
qed

section \<open>Conjunctions and disjunctions\<close>

definition print_and :: "cond_expr list \<Rightarrow> string" where "print_and cs = join '' && '' (map print_cond cs)"

definition eval_and :: "ev_lookup \<Rightarrow> cond_expr list \<Rightarrow> cond_fn" where
  "eval_and l cs = (\<lambda>bg st r. conj (map (eval_cond l bg st r) cs))"

lemma and_tail:
  assumes "\<forall>c \<in> set cs. operand_parsed l c" "follow s" "\<not> HasPrefix (skipSpaces s) ''&&''"
    "skipSpaces s0 = skipSpaces (concat (map (\<lambda>c. '' && '' @ print_cond c) cs) @ s)"
  shows "parses l (AndLoop f s0) (Inr (foldl cond_and f (map (\<lambda>c bg st r. eval_cond l bg st r c) cs), skipSpaces s))"
  using assms
proof (induction cs arbitrary: f s0)
  case Nil
  then show ?case using parses_AndLoop_end [of s0 l f] by simp
next
  case (Cons c cs)
  let ?s = "concat (map (\<lambda>c. '' && '' @ print_cond c) cs) @ s"
  have fo: "follow ?s" using Cons.prems(2) by (cases cs) (auto simp: follow_def)
  obtain s' where s': "skipSpaces s' = skipSpaces ?s"
    "parses l (ParseNot (print_cond c @ ?s)) (Inr (\<lambda>bg st r. eval_cond l bg st r c, s'))"
    using Cons.prems(1) fo by (auto simp: operand_parsed_def)
  have s0: "skipSpaces s0 = ''&&'' @ (CHR '' '' # print_cond c @ ?s)" using Cons.prems(4) by simp
  have p: "parses l (ParseNot (CHR '' '' # print_cond c @ ?s)) (Inr (\<lambda>bg st r. eval_cond l bg st r c, s'))"
    using s'(2) by (simp only: parses_space)
  have "parses l (AndLoop (cond_and f (\<lambda>bg st r. eval_cond l bg st r c)) s')
      (Inr (foldl cond_and (cond_and f (\<lambda>bg st r. eval_cond l bg st r c)) (map (\<lambda>c bg st r. eval_cond l bg st r c) cs), skipSpaces s))"
    using Cons.prems(1-3) s'(1) by (intro Cons.IH) simp_all
  from parses_AndLoop [OF s0 p this] show ?case by simp
qed

lemma and_parsed:
  assumes "cs \<noteq> []" "\<forall>c \<in> set cs. operand_parsed l c" "follow s" "\<not> HasPrefix (skipSpaces s) ''&&''"
  shows "parses l (ParseAnd (print_and cs @ s)) (Inr (eval_and l cs, skipSpaces s))"
proof -
  obtain c ds where cs: "cs = c # ds" using assms(1) by (cases cs) auto
  let ?s = "concat (map (\<lambda>c. '' && '' @ print_cond c) ds) @ s"
  have fo: "follow ?s" using assms(3) by (cases ds) (auto simp: follow_def)
  obtain s' where s': "skipSpaces s' = skipSpaces ?s"
    "parses l (ParseNot (print_cond c @ ?s)) (Inr (\<lambda>bg st r. eval_cond l bg st r c, s'))"
    using assms(2) fo by (auto simp: operand_parsed_def cs)
  have p: "print_and cs @ s = print_cond c @ ?s" by (simp add: print_and_def join_def cs comp_def)
  have e: "foldl cond_and (\<lambda>bg st r. eval_cond l bg st r c) (map (\<lambda>c bg st r. eval_cond l bg st r c) ds) = eval_and l cs"
    by (simp add: fun_eq_iff foldl_and eval_and_def cs comp_def)
  have "parses l (AndLoop (\<lambda>bg st r. eval_cond l bg st r c) s') (Inr (eval_and l cs, skipSpaces s))"
    unfolding e [symmetric] by (rule and_tail) (use assms s'(1) in \<open>simp_all add: cs\<close>)
  from parses_And [OF s'(2) [folded p] this] show ?thesis .
qed

lemma or_tail:
  assumes "\<forall>cs \<in> set css. cs \<noteq> [] \<and> (\<forall>c \<in> set cs. operand_parsed l c)" "follow s"
    "\<not> HasPrefix (skipSpaces s) ''&&''" "\<not> HasPrefix (skipSpaces s) ''||''"
    "skipSpaces s0 = skipSpaces (concat (map (\<lambda>cs. '' || '' @ print_and cs) css) @ s)"
  shows "parses l (OrLoop f s0) (Inr (foldl cond_or f (map (eval_and l) css), skipSpaces s))"
  using assms
proof (induction css arbitrary: f s0)
  case Nil
  then show ?case using parses_OrLoop_end [of s0 l f] by simp
next
  case (Cons cs css)
  let ?s = "concat (map (\<lambda>cs. '' || '' @ print_and cs) css) @ s"
  have fo: "follow ?s" "\<not> HasPrefix (skipSpaces ?s) ''&&''" using Cons.prems(2,3)
    by (cases css; auto simp: follow_def HasPrefix_def)+
  have s0: "skipSpaces s0 = ''||'' @ (CHR '' '' # print_and cs @ ?s)" using Cons.prems(5) by simp
  have p: "parses l (ParseAnd (CHR '' '' # print_and cs @ ?s)) (Inr (eval_and l cs, skipSpaces ?s))"
    unfolding parses_space by (rule and_parsed) (use Cons.prems(1) fo in auto)
  have "parses l (OrLoop (cond_or f (eval_and l cs)) (skipSpaces ?s))
      (Inr (foldl cond_or (cond_or f (eval_and l cs)) (map (eval_and l) css), skipSpaces s))"
    using Cons.prems(1-4) by (intro Cons.IH) simp_all
  from parses_OrLoop [OF s0 p this] show ?case by simp
qed

lemma or_parsed:
  assumes "css \<noteq> []" "\<forall>cs \<in> set css. cs \<noteq> [] \<and> (\<forall>c \<in> set cs. operand_parsed l c)" "follow s"
    "\<not> HasPrefix (skipSpaces s) ''&&''" "\<not> HasPrefix (skipSpaces s) ''||''"
  shows "parses l (ParseOr (print_or css @ s)) (Inr (eval_or l css, skipSpaces s))"
proof -
  obtain cs dss where css: "css = cs # dss" using assms(1) by (cases css) auto
  let ?s = "concat (map (\<lambda>cs. '' || '' @ print_and cs) dss) @ s"
  have fo: "follow ?s" "\<not> HasPrefix (skipSpaces ?s) ''&&''" using assms(3,4)
    by (cases dss; auto simp: follow_def HasPrefix_def)+
  have p: "print_or css @ s = print_and cs @ ?s" by (simp add: print_or_def print_and_def join_def css comp_def)
  have a: "parses l (ParseAnd (print_and cs @ ?s)) (Inr (eval_and l cs, skipSpaces ?s))"
    by (rule and_parsed) (use assms(2) fo in \<open>auto simp: css\<close>)
  have e: "foldl cond_or (eval_and l cs) (map (eval_and l) dss) = eval_or l css"
    by (simp add: fun_eq_iff foldl_or eval_or_def eval_and_def css comp_def)
  have "parses l (OrLoop (eval_and l cs) (skipSpaces ?s)) (Inr (eval_or l css, skipSpaces s))"
    unfolding e [symmetric] by (rule or_tail) (use assms in \<open>simp_all add: css\<close>)
  from parses_Or [OF a [folded p] this] show ?thesis .
qed

lemma Paren_parsed:
  assumes "css \<noteq> []" "\<forall>cs \<in> set css. cs \<noteq> [] \<and> (\<forall>c \<in> set cs. operand_parsed l c)"
  shows "operand_parsed l (Paren css)"
proof -
  have "parses l (ParseNot (print_cond (Paren css) @ s)) (Inr (\<lambda>bg st r. eval_cond l bg st r (Paren css), s))" for s
  proof -
    have p: "skipSpaces (print_cond (Paren css) @ s) = CHR ''('' # print_or css @ CHR '')'' # s"
      by (simp add: print_or_def)
    have o: "parses l (ParseOr (print_or css @ CHR '')'' # s)) (Inr (eval_or l css, skipSpaces (CHR '')'' # s)))"
      by (rule or_parsed [OF assms]) (simp_all add: follow_def HasPrefix_def)
    have e: "eval_or l css = (\<lambda>bg st r. eval_cond l bg st r (Paren css))" by (simp add: eval_or_def)
    show ?thesis using parses_Paren [OF p o, of s] by (simp add: e)
  qed
  then show ?thesis by (auto simp: operand_parsed_def)
qed

lemma cond_parsed: "cond_ok l c \<Longrightarrow> operand_parsed l c"
proof (induction c)
  case (Paren css)
  then show ?case by (intro Paren_parsed) auto
qed (auto intro: Lit_parsed Ref_parsed Cmp_parsed Neg_parsed simp del: print_cond.simps eval_cond.simps cond_ok.simps(2,3))

section \<open>Properties\<close>

definition edge_char :: "char \<Rightarrow> bool" where
  "edge_char c \<longleftrightarrow> ascii c \<and> byte_of c \<notin> {9, 10, 11, 12, 13, 32}"

lemma white_space_chars: "w \<in> set white_space \<Longrightarrow> w \<noteq> [] \<and> \<not> edge_char (hd w) \<and> \<not> edge_char (last w)"
  by (auto simp: white_space_def edge_char_def ascii_def)

lemma trim_left_stop:
  assumes "s \<noteq> []" "edge_char (hd s)" "\<forall>w \<in> set ws. w \<noteq> [] \<and> \<not> edge_char (hd w)"
  shows "trim_left n ws s = s"
proof -
  have "\<not> HasPrefix s w" if w: "w \<in> set ws" for w
  proof
    assume "HasPrefix s w"
    then have "take (length w) s = w" by (simp add: HasPrefix_def)
    moreover have "w \<noteq> []" "\<not> edge_char (hd w)" using assms(3) w by auto
    ultimately have "hd w = hd s" by (cases w; cases s) auto
    then show False using assms(2,3) w by auto
  qed
  then have "List.find (HasPrefix s) ws = None" by (auto simp: find_None_iff)
  then show ?thesis by (cases n) simp_all
qed

lemma TrimSpace_id:
  assumes "s \<noteq> []" "edge_char (hd s)" "edge_char (last s)"
  shows "TrimSpace s = s"
proof -
  have 1: "trim_left n white_space s = s" for n
    by (rule trim_left_stop [OF assms(1,2)]) (use white_space_chars in blast)
  have 2: "trim_left n (map rev white_space) (rev s) = rev s" for n
    by (rule trim_left_stop) (use assms white_space_chars in \<open>auto simp: hd_rev\<close>)
  show ?thesis by (simp add: TrimSpace_def 1 2)
qed

definition edges_ok :: "string \<Rightarrow> bool" where
  "edges_ok s \<longleftrightarrow> s \<noteq> [] \<and> edge_char (hd s) \<and> edge_char (last s)"

lemma value_edge: "value_char c \<Longrightarrow> ascii c \<Longrightarrow> edge_char c" "ident_char c \<Longrightarrow> ascii c \<Longrightarrow> edge_char c"
  by (auto simp: edge_char_def value_char_def ident_char_def IsLetter_def IsDigit_def)

lemma join_edges:
  assumes "ss \<noteq> []" "\<forall>s \<in> set ss. edges_ok s"
  shows "edges_ok (join sep ss)"
proof -
  obtain s ts where ss: "ss = s # ts" using assms(1) by (cases ss) auto
  define c where "c = concat (map ((@) sep) ts)"
  have "c = [] \<or> edge_char (last c)"
    using assms(2) unfolding ss c_def
  proof (induction ts rule: rev_induct)
    case (snoc t ts)
    then show ?case by (simp add: edges_ok_def)
  qed simp
  then show ?thesis using assms(2) by (auto simp: ss join_def edges_ok_def c_def [symmetric] last_append)
qed

lemma print_edges: "cond_ok l c \<Longrightarrow> edges_ok (print_cond c)"
proof (induction c)
  case (Lit b)
  then show ?case by (simp add: edges_ok_def edge_char_def ascii_def)
next
  case (Ref n)
  then show ?case using value_edge by (auto simp: edges_ok_def name_ok_def)
next
  case (Cmp n op v)
  then show ?case using value_edge by (auto simp: edges_ok_def name_ok_def value_ok_def)
next
  case (Neg c)
  then show ?case by (simp add: edges_ok_def edge_char_def ascii_def)
next
  case (Paren css)
  then show ?case by (simp add: edges_ok_def edge_char_def ascii_def)
qed

lemma print_or_edges:
  assumes "cond_ok l (Paren css)"
  shows "edges_ok (print_or css)"
  unfolding print_or_def
  by (rule join_edges) (use assms in \<open>auto intro!: join_edges print_edges [where l = l]\<close>)

lemma ParseCondition_print:
  assumes "cond_ok lookup (Paren css)"
  shows "ParseCondition (print_or css) lookup = Some (Inr (\<lambda>bg st r. eval_cond lookup bg st r (Paren css), []))"
proof -
  let ?s = "print_or css"
  have t: "TrimSpace ?s = ?s" using print_or_edges [OF assms] by (intro TrimSpace_id) (simp_all add: edges_ok_def)
  have "parses lookup (ParseOr (?s @ [])) (Inr (eval_or lookup css, skipSpaces []))"
    by (rule or_parsed) (use assms cond_parsed in \<open>auto simp: follow_def HasPrefix_def\<close>)
  then have "parse (parse_fuel ?s) lookup (ParseOr ?s) = Some (Inr (eval_or lookup css, []))"
    by (intro parses_unique) (simp_all add: parse_fuel_def)
  then show ?thesis by (simp add: ParseCondition_def t eval_or_def)
qed

text \<open>
  C22. The parser of conditions ends on every input: the result is a function or an error, and the bound on the
  depth of its recursion is never reached.
\<close>

theorem parser_ends: "\<exists>r. ParseCondition expr lookup = Some r"
proof -
  let ?s = "TrimSpace expr"
  have "\<exists>r. parse (parse_fuel ?s) lookup (ParseOr ?s) = Some r"
    using parse_returns [of "ParseOr ?s" "parse_fuel ?s" lookup] by (auto simp: parse_fuel_def)
  then show ?thesis by (auto simp: ParseCondition_def Let_def)
qed

text \<open>
  C20. A condition printed from its syntax tree, a disjunction of conjunctions of literals, references,
  comparisons, negations and conditions in parentheses, is parsed completely, and the function the parser
  returns has on every edge and in both directions the value of the tree, which is evaluated from left to
  right and no further than needed.
\<close>

theorem condition_round_trip:
  assumes "cond_ok lookup (Paren css)"
  shows "ParseCondition (print_or css) lookup = Some (Inr (\<lambda>bg st r. eval_cond lookup bg st r (Paren css), []))"
  by (rule ParseCondition_print [OF assms])

text \<open>\<open>!car_access && road_class == RESIDENTIAL || (toll != no || false)\<close>\<close>

definition sample_condition :: "cond_expr list list" where
  "sample_condition = [[Neg (Ref ''car_access''), Cmp ''road_class'' ''=='' ''RESIDENTIAL''],
     [Paren [[Cmp ''toll'' ''!='' ''no''], [Lit False]]]]"

definition sample_lookup :: ev_lookup where
  "sample_lookup = (\<lambda>_. None)(''car_access'' \<mapsto> BoolEV (the (NewSimpleBooleanEncodedValue ''car_access'')),
     ''road_class'' \<mapsto> EnumEV RoadClass (the (enum_Create RoadClass ''road_class'')),
     ''toll'' \<mapsto> EnumEV Toll (the (enum_Create Toll ''toll'')))"

theorem condition_round_trip_witness:
  "print_or sample_condition = ''!car_access && road_class == RESIDENTIAL || (toll != no || false)'' \<and>
   ParseCondition ''!car_access && road_class == RESIDENTIAL || (toll != no || false)'' sample_lookup =
     Some (Inr (\<lambda>bg st r. eval_cond sample_lookup bg st r (Paren sample_condition), []))"
proof -
  have p: "print_or sample_condition = ''!car_access && road_class == RESIDENTIAL || (toll != no || false)''"
    by (simp add: print_or_def join_def sample_condition_def)
  have n: "name_ok ''car_access''" "name_ok ''road_class''" "name_ok ''toll''" "value_ok ''RESIDENTIAL''" "value_ok ''no''"
    by (simp_all add: name_ok_def value_ok_def ident_char_def value_char_def IsLetter_def ascii_def)
  have "cond_ok sample_lookup (Paren sample_condition)"
    using n by (simp add: sample_condition_def sample_lookup_def buildComparison_def resolveEnumComparison_def)
  from condition_round_trip [OF this] show ?thesis unfolding p by blast
qed

section \<open>Surfaces in conditions\<close>

lemma surface_condition:
  assumes "value_ok n" "lookup ''surface'' = Some (EnumEV Surface x)"
  shows "ParseCondition (''surface == '' @ n) lookup =
    Some (Inr (\<lambda>bg st r. map_option (\<lambda>stored. stored = SurfaceFind n) (read_enum x bg st r), []))"
proof -
  have "name_ok ''surface''" by (simp add: name_ok_def ident_char_def IsLetter_def ascii_def)
  then have "cond_ok lookup (Paren [[Cmp ''surface'' ''=='' n]])"
    using assms by (simp add: buildComparison_def resolveEnumComparison_def)
  moreover have "eval_cond lookup bg st r (Paren [[Cmp ''surface'' ''=='' n]]) =
      map_option (\<lambda>stored. stored = SurfaceFind n) (read_enum x bg st r)" for bg st r
    using assms(2) by (cases "read_enum x bg st r")
      (simp_all add: buildComparison_def resolveEnumComparison_def buildEnumComparison_def)
  ultimately show ?thesis using ParseCondition_print [of lookup "[[Cmp ''surface'' ''=='' n]]"]
    by (simp add: print_or_def join_def)
qed

lemma no_colon: "CHR '':'' \<notin> set n \<Longrightarrow> strings_Index_char n (CHR '':'') = - 1"
proof -
  assume "CHR '':'' \<notin> set n"
  then have "List.find (\<lambda>i. n ! i = CHR '':'') [0..<length n] = None" by (auto simp: find_None_iff in_set_conv_nth)
  then show ?thesis by (simp add: strings_Index_char_def)
qed

lemma surfaceMap_table: "surfaceMap = [(''paved'', 1), (''asphalt'', 2), (''concrete'', 3), (''paving_stones'', 4),
  (''cobblestone'', 5), (''unpaved'', 6), (''compacted'', 7), (''fine_gravel'', 8), (''gravel'', 9), (''ground'', 10),
  (''dirt'', 11), (''grass'', 12), (''sand'', 13), (''wood'', 14), (''metal'', 1), (''sett'', 5), (''unhewn_cobblestone'', 5),
  (''earth'', 11), (''pebblestone'', 9), (''grass_paver'', 12)]"
  by (simp add: surfaceMap_def surfaceNames_def upt_rec)

lemma find_table: "CHR '':'' \<notin> set n \<Longrightarrow> n \<noteq> [] \<Longrightarrow> SurfaceFind n = (case map_of surfaceMap n of Some v \<Rightarrow> v | None \<Rightarrow> 15)"
  by (simp add: SurfaceFind_def no_colon)

lemma upper_letters:
  "upper_char (CHR ''a'') = CHR ''A''" "upper_char (CHR ''b'') = CHR ''B''" "upper_char (CHR ''c'') = CHR ''C''"
  "upper_char (CHR ''d'') = CHR ''D''" "upper_char (CHR ''e'') = CHR ''E''" "upper_char (CHR ''f'') = CHR ''F''"
  "upper_char (CHR ''g'') = CHR ''G''" "upper_char (CHR ''h'') = CHR ''H''" "upper_char (CHR ''i'') = CHR ''I''"
  "upper_char (CHR ''j'') = CHR ''J''" "upper_char (CHR ''k'') = CHR ''K''" "upper_char (CHR ''l'') = CHR ''L''"
  "upper_char (CHR ''m'') = CHR ''M''" "upper_char (CHR ''n'') = CHR ''N''" "upper_char (CHR ''o'') = CHR ''O''"
  "upper_char (CHR ''p'') = CHR ''P''" "upper_char (CHR ''q'') = CHR ''Q''" "upper_char (CHR ''r'') = CHR ''R''"
  "upper_char (CHR ''s'') = CHR ''S''" "upper_char (CHR ''t'') = CHR ''T''" "upper_char (CHR ''u'') = CHR ''U''"
  "upper_char (CHR ''v'') = CHR ''V''" "upper_char (CHR ''w'') = CHR ''W''" "upper_char (CHR ''x'') = CHR ''X''"
  "upper_char (CHR ''y'') = CHR ''Y''" "upper_char (CHR ''z'') = CHR ''Z''" "upper_char (CHR ''_'') = CHR ''_''"
  by code_simp+

lemma surface_capitals: "map upper surfaceNames = [''MISSING'', ''PAVED'', ''ASPHALT'', ''CONCRETE'', ''PAVING_STONES'',
  ''COBBLESTONE'', ''UNPAVED'', ''COMPACTED'', ''FINE_GRAVEL'', ''GRAVEL'', ''GROUND'', ''DIRT'', ''GRASS'', ''SAND'', ''WOOD'',
  ''OTHER'']"
  by (simp add: surfaceNames_def upper_def upper_letters)

lemma surface_names_found:
  "map SurfaceFind surfaceNames = [15, 1, 2, 3, 4, 5, 6, 7, 8, 9, 10, 11, 12, 13, 14, 15]" "list_all value_ok surfaceNames"
  "list_all (\<lambda>n. SurfaceFind n = 15 \<and> value_ok n) (map upper surfaceNames)"
proof -
  show "map SurfaceFind surfaceNames = [15, 1, 2, 3, 4, 5, 6, 7, 8, 9, 10, 11, 12, 13, 14, 15]"
    by (simp add: surfaceNames_def find_table surfaceMap_table)
  show "list_all value_ok surfaceNames" by (simp add: surfaceNames_def value_ok_def value_char_def IsLetter_def ascii_def)
  show "list_all (\<lambda>n. SurfaceFind n = 15 \<and> value_ok n) (map upper surfaceNames)"
    unfolding surface_capitals by (simp add: find_table surfaceMap_table value_ok_def value_char_def IsLetter_def ascii_def)
qed

text \<open>
  C29. A surface is found by its name in lower case, except that the name of the first one is taken for \<open>other\<close>, the
  last one. In capital letters, as conditions are written, every surface is taken for \<open>other\<close>: the condition
  \<open>surface == ASPHALT\<close> is parsed completely and holds on the edges that store \<open>other\<close>, and so for each surface in
  place of asphalt; in lower case it holds on the edges that store the surface.
\<close>

theorem surface_capitals_lost:
  assumes "0 \<le> v" "v < 16" "lookup ''surface'' = Some (EnumEV Surface x)"
  shows "enum_find Surface (enum_String Surface v) = (if v = 0 then 15 else v) \<and>
    enum_find Surface (upper (enum_String Surface v)) = 15 \<and> enum_String Surface 15 = ''other'' \<and>
    ParseCondition (''surface == '' @ upper (enum_String Surface v)) lookup =
      Some (Inr (\<lambda>bg st r. map_option (\<lambda>stored. stored = 15) (if r then es_GetReverseEnum x bg st else es_GetEnum x bg st), [])) \<and>
    ParseCondition (''surface == '' @ enum_String Surface v) lookup =
      Some (Inr (\<lambda>bg st r. map_option (\<lambda>stored. stored = (if v = 0 then 15 else v))
        (if r then es_GetReverseEnum x bg st else es_GetEnum x bg st), []))"
proof -
  have l: "length surfaceNames = 16" by (simp add: surfaceNames_def)
  have n: "enum_String Surface v = surfaceNames ! nat v" "nat v < 16" using assms(1,2) l by (simp_all add: enum_String_def)
  have up: "SurfaceFind (upper (surfaceNames ! nat v)) = 15" "value_ok (upper (surfaceNames ! nat v))" "value_ok (surfaceNames ! nat v)"
    using surface_names_found(2,3) n(2) l by (simp_all add: list_all_length)
  have "SurfaceFind (surfaceNames ! nat v) = map SurfaceFind surfaceNames ! nat v" using n(2) l by simp
  also have "\<dots> = (if v = 0 then 15 else v)"
  proof -
    have "\<forall>j \<in> set [0..<16]. [15, 1, 2, 3, 4, 5, 6, 7, 8, 9, 10, 11, 12, 13, 14, 15] ! j = (if j = 0 then 15 else int j)"
      by (simp add: upt_rec)
    then have "map SurfaceFind surfaceNames ! nat v = (if nat v = 0 then 15 else int (nat v))"
      unfolding surface_names_found(1) using n(2) by (auto simp del: upt.simps)
    then show ?thesis using assms(1) by simp
  qed
  finally have low: "SurfaceFind (surfaceNames ! nat v) = (if v = 0 then 15 else v)" .
  have "enum_String Surface 15 = ''other''" by (simp add: enum_String_def surfaceNames_def)
  then show ?thesis
    using surface_condition [of "upper (surfaceNames ! nat v)" lookup x] surface_condition [of "surfaceNames ! nat v" lookup x]
      up low assms(3)
    by (simp add: n(1) read_enum_def)
qed

definition surface_lookup :: ev_lookup where
  "surface_lookup = (\<lambda>_. None)(''surface'' \<mapsto> EnumEV Surface (the (enum_Create Surface ''surface'')))"

theorem surface_capitals_lost_witness:
  "ParseCondition ''surface == ASPHALT'' surface_lookup =
     Some (Inr (\<lambda>bg st r. map_option (\<lambda>stored. stored = 15)
       (if r then es_GetReverseEnum (the (enum_Create Surface ''surface'')) bg st
        else es_GetEnum (the (enum_Create Surface ''surface'')) bg st), []))"
proof -
  have l: "surface_lookup ''surface'' = Some (EnumEV Surface (the (enum_Create Surface ''surface'')))" by (simp add: surface_lookup_def)
  have "upper (enum_String Surface 2) = ''ASPHALT''" by code_simp
  then show ?thesis using surface_capitals_lost [of 2 surface_lookup "the (enum_Create Surface ''surface'')"] l by simp
qed

end
