(* ===== verification/CustomRanges.thy ===== *)
theory CustomRanges imports CustomWeighting ConditionParser begin

text \<open>
  The range that is computed from the statements of a custom model holds every value the statements can give:
  the largest speed and priority, which the lower bound of the search needs, are not exceeded on any edge.
\<close>

section \<open>Comparisons up to NaN\<close>

text \<open>\<open>x\<close> is not above \<open>y\<close>; every comparison with NaN is false.\<close>

definition upto :: "flt \<Rightarrow> flt \<Rightarrow> bool" where "upto x y \<longleftrightarrow> \<not> flt_less y x"

definition nonneg_or_NaN :: "flt \<Rightarrow> bool" where "nonneg_or_NaN x \<longleftrightarrow> x = NaN \<or> fnonneg x"

lemma nonneg_or_NaN_cases:
  "nonneg_or_NaN x \<Longrightarrow> x = NaN \<or> x = PInf \<or> (\<exists>r. x = Fin r \<and> 0 \<le> r)"
  using fnonneg_cases by (auto simp: nonneg_or_NaN_def)

lemma f64_upto: "a \<le> b \<Longrightarrow> \<not> flt_less (f64 b) (f64 a)"
  using f64_mono [of a b] by (simp add: flt_less_iff)

lemma f64_nonneg: "0 \<le> q \<Longrightarrow> fnonneg (f64 q)"
  using f64_mono [of 0 q] by simp

lemma not_less_PInf: "\<not> flt_less PInf x" "\<not> flt_less x NaN"
  by (cases x; simp)+

lemma inf_of_sgn_sgn: "inf_of_sgn (sgn a) = inf_of_sgn a"
  by (simp add: inf_of_sgn_def sgn_if)

lemma fmul_cases:
  assumes "nonneg_or_NaN x" "nonneg_or_NaN v"
  obtains "x = NaN \<or> v = NaN" "fmul x v = NaN" | "x = PInf \<and> v = Fin 0 \<or> x = Fin 0 \<and> v = PInf" "fmul x v = NaN"
  | "x = PInf \<or> v = PInf" "fmul x v = PInf" | a b where "x = Fin a" "v = Fin b" "0 \<le> a" "0 \<le> b" "fmul x v = f64 (a * b)"
  using nonneg_or_NaN_cases [OF assms(1)] nonneg_or_NaN_cases [OF assms(2)]
  by (cases x; cases v) (auto simp: inf_of_sgn_sgn inf_of_sgn_def order_le_less)

lemma fmul_upto:
  assumes "nonneg_or_NaN x" "nonneg_or_NaN y" "nonneg_or_NaN v" "nonneg_or_NaN w" "upto x y" "upto v w"
  shows "upto (fmul x v) (fmul y w)"
  by (rule fmul_cases [OF assms(1,3)]; rule fmul_cases [OF assms(2,4)])
    (use assms(5,6) in \<open>auto simp: upto_def not_less_PInf intro!: f64_upto mult_mono\<close>)

lemma fmul_nonneg: "nonneg_or_NaN x \<Longrightarrow> nonneg_or_NaN v \<Longrightarrow> nonneg_or_NaN (fmul x v)"
  by (rule fmul_cases [of x v]) (auto simp: nonneg_or_NaN_def intro!: f64_nonneg)

lemma fadd_cases:
  assumes "nonneg_or_NaN x" "nonneg_or_NaN v"
  obtains "x = NaN \<or> v = NaN" "fadd x v = NaN" | "x = PInf \<or> v = PInf" "fadd x v = PInf"
  | a b where "x = Fin a" "v = Fin b" "0 \<le> a" "0 \<le> b" "fadd x v = f64 (a + b)"
  using nonneg_or_NaN_cases [OF assms(1)] nonneg_or_NaN_cases [OF assms(2)] by (cases x; cases v) auto

lemma fadd_upto:
  assumes "nonneg_or_NaN x" "nonneg_or_NaN y" "nonneg_or_NaN v" "nonneg_or_NaN w" "upto x y" "upto v w"
  shows "upto (fadd x v) (fadd y w)"
  by (rule fadd_cases [OF assms(1,3)]; rule fadd_cases [OF assms(2,4)])
    (use assms(5,6) in \<open>auto simp: upto_def not_less_PInf intro!: f64_upto add_mono\<close>)

lemma fadd_nonneg: "nonneg_or_NaN x \<Longrightarrow> nonneg_or_NaN v \<Longrightarrow> nonneg_or_NaN (fadd x v)"
  by (cases x; cases v) (auto simp: nonneg_or_NaN_def intro!: f64_nonneg)

lemma go_min_upto: "upto x y \<Longrightarrow> upto v w \<Longrightarrow> upto (go_min x v) (go_min y w)"
  by (cases x; cases y; cases v; cases w) (auto simp: upto_def go_min_def)

lemma apply_op_upto:
  assumes "nonneg_or_NaN x" "nonneg_or_NaN y" "nonneg_or_NaN v" "nonneg_or_NaN w" "upto x y" "upto v w"
  shows "upto (apply_op op x v) (apply_op op y w)"
  using fmul_upto [OF assms] fadd_upto [OF assms] go_min_upto [OF assms(5,6)]
  by (simp add: apply_op_def split: op.split)

lemma apply_op_nonneg: "nonneg_or_NaN x \<Longrightarrow> nonneg_or_NaN v \<Longrightarrow> nonneg_or_NaN (apply_op op x v)"
  using fmul_nonneg fadd_nonneg by (auto simp: apply_op_def go_min_def nonneg_or_NaN_def split: op.split)

section \<open>Ranges\<close>

definition in_range :: "flt \<Rightarrow> min_max \<Rightarrow> bool" where
  "in_range x mm \<longleftrightarrow> upto x (mm_Max mm) \<and> upto (mm_Min mm) x"

definition minmax_ok :: "min_max \<Rightarrow> bool" where
  "minmax_ok mm \<longleftrightarrow> nonneg_or_NaN (mm_Min mm) \<and> nonneg_or_NaN (mm_Max mm)"

lemma op_Apply_fields:
  "mm_Min (op_Apply op a b) = apply_op op (mm_Min a) (mm_Min b)" "mm_Max (op_Apply op a b) = apply_op op (mm_Max a) (mm_Max b)"
  by (cases op; simp add: op_Apply_def apply_op_def)+

lemma apply_within:
  assumes "nonneg_or_NaN x" "nonneg_or_NaN v" "minmax_ok a" "minmax_ok b" "in_range x a" "in_range v b"
  shows "in_range (apply_op op x v) (op_Apply op a b)" "minmax_ok (op_Apply op a b)"
  using assms apply_op_upto apply_op_nonneg by (auto simp: in_range_def minmax_ok_def op_Apply_fields)

lemma merge_within: "in_range x a \<or> in_range x b \<Longrightarrow> in_range x (merge_range a b)"
  by (cases x; cases "mm_Min a"; cases "mm_Max a"; cases "mm_Min b"; cases "mm_Max b")
    (auto simp: in_range_def merge_range_def go_min_def go_max_def upto_def)

lemma merge_ok: "minmax_ok a \<Longrightarrow> minmax_ok b \<Longrightarrow> minmax_ok (merge_range a b)"
  by (auto simp: minmax_ok_def merge_range_def go_min_def go_max_def nonneg_or_NaN_def)

section \<open>Statements\<close>

text \<open>The values of the statements are not negative, and the decimals of the edge are in their storable range.\<close>

definition values_nonneg :: "ev_lookup \<Rightarrow> statement list \<Rightarrow> bool" where
  "values_nonneg lookup sts \<longleftrightarrow>
     (\<forall>s \<in> set sts. let r = valueMinMax (st_Value s) lookup in fnonneg (mm_Min r) \<and> fnonneg (mm_Max r))"

definition decimals_in_range :: "ev_lookup \<Rightarrow> base_graph \<Rightarrow> edge_state \<Rightarrow> bool \<Rightarrow> bool" where
  "decimals_in_range lookup bg st r \<longleftrightarrow> (\<forall>name d v. lookup name = Some (DecimalEV d) \<longrightarrow> read_decimal d bg st r = Some v \<longrightarrow>
     in_range v \<lparr>mm_Min = GetMinStorableDecimal d, mm_Max = GetMaxOrMaxStorableDecimal d\<rparr>)"

lemma value_in_range:
  assumes "decimals_in_range lookup bg st r" "ParseValue e lookup = Inr f" "f bg st r = Some v"
  shows "in_range v (valueMinMax e lookup)"
proof (cases "ParseFloat (TrimSpace e)")
  case (Some x)
  then have "v = x" using assms(2,3) by (auto simp: ParseValue_def Let_def split: if_splits)
  then show ?thesis using Some by (cases x) (simp_all add: valueMinMax_def in_range_def upto_def)
next
  case None
  then obtain d where d: "lookup (TrimSpace e) = Some (DecimalEV d)" "f = read_decimal d"
    using assms(2) by (auto simp: ParseValue_def Let_def split: if_splits option.splits encoded_value.splits)
  then show ?thesis using assms(1,3) None by (auto simp: valueMinMax_def decimals_in_range_def)
qed

lemma in_range_nonneg: "in_range v mm \<Longrightarrow> fnonneg (mm_Min mm) \<Longrightarrow> nonneg_or_NaN v"
  by (cases v; cases "mm_Min mm") (auto simp: in_range_def upto_def nonneg_or_NaN_def)

lemma compile_stmtD:
  assumes "compile_stmt lookup s = Some c"
  shows "cs_op c = Operation s" "ParseValue (st_Value s) lookup = Inr (cs_val c)" "Keyword s = KeywordElse \<Longrightarrow> cs_cond c = cond_const True"
  using assms by (auto simp: compile_stmt_def split: if_splits option.splits sum.splits)

lemma stmt_in_range:
  assumes "decimals_in_range lookup bg st r" "values_nonneg lookup [s]" "compile_stmt lookup s = Some c"
    "cs_val c bg st r = Some v" "nonneg_or_NaN x" "in_range x mm" "minmax_ok mm"
  shows "in_range (apply_op (cs_op c) x v) (op_Apply (Operation s) mm (valueMinMax (st_Value s) lookup))"
proof -
  note c = compile_stmtD [OF assms(3)]
  have R: "in_range v (valueMinMax (st_Value s) lookup)" by (rule value_in_range [OF assms(1) c(2) assms(4)])
  have n: "fnonneg (mm_Min (valueMinMax (st_Value s) lookup))" "minmax_ok (valueMinMax (st_Value s) lookup)"
    using assms(2) by (simp_all add: values_nonneg_def Let_def minmax_ok_def nonneg_or_NaN_def)
  show ?thesis
    using apply_within(1) [OF assms(5) in_range_nonneg [OF R n(1)] assms(7) n(2) assms(6) R] by (simp add: c(1))
qed

lemma stmt_range_ok:
  "values_nonneg lookup [s] \<Longrightarrow> minmax_ok mm \<Longrightarrow> minmax_ok (op_Apply (Operation s) mm (valueMinMax (st_Value s) lookup))"
  using apply_op_nonneg by (auto simp: values_nonneg_def Let_def minmax_ok_def nonneg_or_NaN_def op_Apply_fields)

lemma values_nonneg_Cons: "values_nonneg lookup (s # sts) \<longleftrightarrow> values_nonneg lookup [s] \<and> values_nonneg lookup sts"
  by (auto simp: values_nonneg_def)

lemma branches_range:
  assumes "decimals_in_range lookup bg st r" "nonneg_or_NaN x" "in_range x mm" "minmax_ok mm"
  shows "values_nonneg lookup sts \<Longrightarrow> map_opt (compile_stmt lookup) sts = Some cs \<Longrightarrow>
    branches_loop lookup mm sts merged he = Some (merged', he') \<Longrightarrow> minmax_ok merged \<Longrightarrow>
    minmax_ok merged' \<and> (he' \<longleftrightarrow> he \<or> (\<exists>s \<in> set sts. Keyword s = KeywordElse)) \<and>
    (\<forall>z. in_range z merged \<longrightarrow> in_range z merged') \<and>
    (\<forall>y. eval_group cs bg st r x = Some y \<longrightarrow> in_range y merged' \<or> (y = x \<and> (\<forall>s \<in> set sts. Keyword s \<noteq> KeywordElse)))"
proof (induction sts arbitrary: cs merged he)
  case (Cons s sts)
  obtain c cs' where c: "compile_stmt lookup s = Some c" "map_opt (compile_stmt lookup) sts = Some cs'" "cs = c # cs'"
    using Cons.prems(2) by (auto split: Option.bind_splits)
  let ?a = "op_Apply (Operation s) mm (valueMinMax (st_Value s) lookup)"
  have v: "values_nonneg lookup [s]" "values_nonneg lookup sts" using Cons.prems(1) values_nonneg_Cons by blast+
  have l: "branches_loop lookup mm sts (merge_range merged ?a) (he \<or> Keyword s = KeywordElse) = Some (merged', he')"
    using Cons.prems(3) by (simp add: Let_def split: if_splits)
  have IH: "minmax_ok merged' \<and> (he' \<longleftrightarrow> (he \<or> Keyword s = KeywordElse) \<or> (\<exists>s \<in> set sts. Keyword s = KeywordElse)) \<and>
    (\<forall>z. in_range z (merge_range merged ?a) \<longrightarrow> in_range z merged') \<and>
    (\<forall>y. eval_group cs' bg st r x = Some y \<longrightarrow> in_range y merged' \<or> (y = x \<and> (\<forall>s \<in> set sts. Keyword s \<noteq> KeywordElse)))"
    by (rule Cons.IH [OF v(2) c(2) l merge_ok [OF Cons.prems(4) stmt_range_ok [OF v(1) assms(4)]]])
  have "in_range y merged' \<or> (y = x \<and> (\<forall>s \<in> set (s # sts). Keyword s \<noteq> KeywordElse))"
    if y: "eval_group cs bg st r x = Some y" for y
  proof -
    obtain b where b: "cs_cond c bg st r = Some b" using y by (auto simp: c(3) split: Option.bind_splits)
    show ?thesis
    proof (cases b)
      case True
      then obtain w where w: "cs_val c bg st r = Some w" "y = apply_op (cs_op c) x w"
        using y b by (auto simp: c(3) split: Option.bind_splits)
      then show ?thesis using stmt_in_range [OF assms(1) v(1) c(1) w(1) assms(2-4)] merge_within IH by blast
    next
      case False
      then have "Keyword s \<noteq> KeywordElse" using b compile_stmtD(3) [OF c(1)] by (auto simp: cond_const_def)
      then show ?thesis using y b False IH by (auto simp: c(3))
    qed
  qed
  then show ?case using IH merge_within by auto
qed simp

lemma true_parsed: "ParseCondition ''true'' lookup = Some (Inr (cond_const True, []))"
proof -
  have "cond_ok lookup (Paren [[Lit True]])" by simp
  from ParseCondition_print [OF this] show ?thesis
    by (simp add: print_or_def join_def cond_const_def fun_eq_iff)
qed

lemma MaxFloat64_ok: "minmax_ok \<lparr>mm_Min = MaxFloat64, mm_Max = Fin 0\<rparr>"
  by (simp add: minmax_ok_def nonneg_or_NaN_def MaxFloat64_def)

lemma group_range:
  assumes "decimals_in_range lookup bg st r" "nonneg_or_NaN x" "in_range x mm" "minmax_ok mm" "values_nonneg lookup sts"
    "map_opt (compile_stmt lookup) sts = Some cs" "findMinMaxForGroup mm sts lookup = Some mm'" "eval_group cs bg st r x = Some y"
  shows "in_range y mm' \<and> minmax_ok mm'"
proof -
  obtain s sts' where sts: "sts = s # sts'" using assms(7) by (cases sts) (auto simp: findMinMaxForGroup_def)
  obtain c cs' where c: "compile_stmt lookup s = Some c" "cs = c # cs'"
    using assms(6) by (auto simp: sts split: Option.bind_splits)
  have k: "Keyword s = KeywordIf" using assms(7) by (auto simp: sts findMinMaxForGroup_def split: if_splits)
  have v: "values_nonneg lookup [s]" using assms(5) by (simp add: sts values_nonneg_def)
  show ?thesis
  proof (cases "Condition s = ''true''")
    case True
    then have m: "mm' = op_Apply (Operation s) mm (valueMinMax (st_Value s) lookup)"
      using assms(7) k by (auto simp: sts findMinMaxForGroup_def Let_def split: if_splits)
    have "cs_cond c = cond_const True" using c(1) k True true_parsed [of lookup]
      by (auto simp: compile_stmt_def split: sum.splits Option.bind_splits)
    then obtain w where w: "cs_val c bg st r = Some w" "y = apply_op (cs_op c) x w"
      using assms(8) by (auto simp: c(2) cond_const_def split: Option.bind_splits)
    show ?thesis
      using stmt_in_range [OF assms(1) v c(1) w(1) assms(2-4)] stmt_range_ok [OF v assms(4)] by (simp add: m w(2))
  next
    case False
    let ?m = "\<lparr>mm_Min = MaxFloat64, mm_Max = Fin 0\<rparr>"
    obtain merged he where l: "branches_loop lookup mm sts ?m False = Some (merged, he)"
      "mm' = (if \<not> he then merge_range merged mm else merged)"
      using assms(7) k False by (auto simp: sts findMinMaxForGroup_def split: Option.bind_splits)
    from branches_range [OF assms(1-6) l(1) MaxFloat64_ok] have B: "minmax_ok merged"
      "he \<longleftrightarrow> (\<exists>s \<in> set sts. Keyword s = KeywordElse)"
      "in_range y merged \<or> (y = x \<and> (\<forall>s \<in> set sts. Keyword s \<noteq> KeywordElse))" using assms(8) by auto
    show ?thesis using B merge_within [of y merged mm] merge_ok [OF B(1) assms(4)] assms(3) by (cases he) (auto simp: l(2))
  qed
qed

lemma eval_group_nonneg:
  "decimals_in_range lookup bg st r \<Longrightarrow> nonneg_or_NaN x \<Longrightarrow> values_nonneg lookup sts \<Longrightarrow>
    map_opt (compile_stmt lookup) sts = Some cs \<Longrightarrow> eval_group cs bg st r x = Some y \<Longrightarrow> nonneg_or_NaN y"
proof (induction sts arbitrary: cs)
  case (Cons s sts)
  obtain c cs' where c: "compile_stmt lookup s = Some c" "map_opt (compile_stmt lookup) sts = Some cs'" "cs = c # cs'"
    using Cons.prems(4) by (auto split: Option.bind_splits)
  have v: "fnonneg (mm_Min (valueMinMax (st_Value s) lookup))" "values_nonneg lookup sts"
    using Cons.prems(3) by (auto simp: values_nonneg_def Let_def)
  have "nonneg_or_NaN w" if "cs_val c bg st r = Some w" for w
    using in_range_nonneg [OF value_in_range [OF Cons.prems(1) compile_stmtD(2) [OF c(1)] that] v(1)] .
  then show ?case
    using Cons.prems(5) Cons.IH [OF Cons.prems(1,2) v(2) c(2)] apply_op_nonneg [OF Cons.prems(2)]
    by (auto simp: c(3) split: Option.bind_splits if_splits)
qed simp

lemma groups_range:
  "decimals_in_range lookup bg st r \<Longrightarrow> nonneg_or_NaN x \<Longrightarrow> in_range x mm \<Longrightarrow> minmax_ok mm \<Longrightarrow>
    \<forall>g \<in> set gs. values_nonneg lookup g \<Longrightarrow> map_opt (map_opt (compile_stmt lookup)) gs = Some cgs \<Longrightarrow>
    min_max_groups lookup gs mm = Some mm' \<Longrightarrow> eval_groups cgs bg st r x = Some y \<Longrightarrow> in_range y mm'"
proof (induction gs arbitrary: cgs mm x)
  case (Cons g gs)
  obtain cg cgs' where c: "map_opt (compile_stmt lookup) g = Some cg" "map_opt (map_opt (compile_stmt lookup)) gs = Some cgs'"
    "cgs = cg # cgs'" using Cons.prems(6) by (auto split: Option.bind_splits)
  obtain m where m: "findMinMaxForGroup mm g lookup = Some m" "min_max_groups lookup gs m = Some mm'"
    using Cons.prems(7) by (auto split: Option.bind_splits)
  obtain z where z: "eval_group cg bg st r x = Some z" "eval_groups cgs' bg st r z = Some y"
    using Cons.prems(8) by (auto simp: c(3) split: Option.bind_splits)
  have v: "values_nonneg lookup g" "\<forall>g \<in> set gs. values_nonneg lookup g" using Cons.prems(5) by auto
  from group_range [OF Cons.prems(1-4) v(1) c(1) m(1) z(1)] eval_group_nonneg [OF Cons.prems(1,2) v(1) c(1) z(1)]
  show ?case using Cons.IH [OF Cons.prems(1) _ _ _ v(2) c(2) m(2) z(2)] by blast
qed simp

lemma split_statements:
  "split_loop sts result grp = Some gs \<Longrightarrow> set (concat gs) = set (concat result) \<union> set grp \<union> set sts"
  by (induction sts arbitrary: result grp) (auto split: if_splits)

lemma groups_nonneg:
  assumes "SplitIntoGroups sts = Some gs" "values_nonneg lookup sts"
  shows "\<forall>g \<in> set gs. values_nonneg lookup g"
  using split_statements [OF assms(1) [unfolded SplitIntoGroups_def]] assms(2) by (fastforce simp: values_nonneg_def)

lemma statements_range:
  assumes "BuildEdgeToDoubleMapping sts x lookup = Some f" "FindMinMax mm sts lookup = Some mm'"
    "decimals_in_range lookup bg st r" "values_nonneg lookup sts" "nonneg_or_NaN x" "in_range x mm" "minmax_ok mm"
    "f bg st r = Some y"
  shows "in_range y mm'"
proof -
  obtain gs where gs: "SplitIntoGroups sts = Some gs" "min_max_groups lookup gs mm = Some mm'"
    using assms(2) by (auto simp: FindMinMax_def split: Option.bind_splits)
  show ?thesis
  proof (cases "sts = []")
    case True
    then show ?thesis using gs assms(1,6,8) by (auto simp: SplitIntoGroups_def BuildEdgeToDoubleMapping_def)
  next
    case False
    then obtain cgs where c: "map_opt (map_opt (compile_stmt lookup)) gs = Some cgs"
      "f = (\<lambda>bg st r. eval_groups cgs bg st r x)"
      using assms(1) gs(1) by (auto simp: BuildEdgeToDoubleMapping_def compileStatements_def split: Option.bind_splits)
    show ?thesis
      using groups_range [OF assms(3,5,6,7) groups_nonneg [OF gs(1) assms(4)] c(1) gs(2)] assms(8) c(2) by blast
  qed
qed

end
