(* ===== verification/CustomRoutes.thy ===== *)
theory CustomRoutes imports CustomRanges FastestRoutes begin

text \<open>
  From a profile to its fastest route: the weighting the factory makes for a profile without custom model
  files reads access, subnetwork and speed of an edge through the parsed statements, keeps the contract of
  \<open>Weighting\<close>, and Dijkstra's algorithm with it finds the fastest open route.
\<close>

section \<open>The key of a speed is not a number\<close>

lemma lower_v: "lower_char (CHR ''v'') = CHR ''v''" "digit_value hex (CHR ''v'') = None" "\<not> IsDigit (CHR ''v'')"
  by (simp_all add: lower_char_def digit_value_def IsDigit_def Let_def)

lemma mantissa_stops:
  "CHR ''v'' \<in> set s \<Longrightarrow> CHR ''v'' \<in> set (snd (read_mantissa hex s m))"
proof (induction s arbitrary: m)
  case (Cons c s)
  show ?case
  proof (cases "c = CHR ''v''")
    case True
    then show ?thesis by (simp add: lower_v)
  next
    case False
    then have "CHR ''v'' \<in> set s" using Cons.prems by auto
    then show ?thesis using Cons.IH by (auto split: option.split)
  qed
qed simp

lemma exponent_stops: "CHR ''v'' \<in> set s \<Longrightarrow> read_exponent s e u = (e', u', r) \<Longrightarrow> CHR ''v'' \<in> set r"
  by (induction s e u rule: read_exponent.induct) (auto simp: lower_v split: if_splits)

lemma sign_keeps: "CHR ''v'' \<in> set s \<Longrightarrow> CHR ''v'' \<in> set (snd (strip_sign s))"
  by (auto simp: strip_sign_def split: list.split)

lemma signed_stops:
  assumes "CHR ''v'' \<in> set s" "signed_exponent s = Some (e, u, r)"
  shows "r \<noteq> []"
  using assms(2) exponent_stops sign_keeps [OF assms(1)]
  by (fastforce simp: signed_exponent_def Let_def split: prod.splits if_splits)

lemma ParseFloat_v:
  assumes "CHR ''v'' \<in> set s"
  shows "ParseFloat s = None"
proof -
  have l: "CHR ''v'' \<in> lower_char ` set t" if "CHR ''v'' \<in> set t" for t
    using imageI [OF that, of lower_char] lower_v(1) by simp
  have ne: "map lower_char t \<noteq> u" if "CHR ''v'' \<in> set t" "CHR ''v'' \<notin> set u" for t u
    using l [OF that(1)] that(2) by (metis list.set_map)
  have n: "map lower_char s \<noteq> ''nan''" "map lower_char (snd (strip_sign s)) \<noteq> ''inf''"
    "map lower_char (snd (strip_sign s)) \<noteq> ''infinity''"
    using ne [OF assms, of "''nan''"] ne [OF sign_keeps [OF assms], of "''inf''"] ne [OF sign_keeps [OF assms], of "''infinity''"]
    by (simp_all del: map_eq_Cons_conv)
  then have 1: "special_float s = None" by (simp add: special_float_def Let_def split_beta del: map_eq_Cons_conv)
  obtain neg t where t: "strip_sign s = (neg, t)" by fastforce
  have vt: "CHR ''v'' \<in> set t" using sign_keeps [OF assms] t by simp
  define hex where "hex = (length t > 2 \<and> t ! 0 = CHR ''0'' \<and> lower_char (t ! 1) = CHR ''x'')"
  have vd: "CHR ''v'' \<in> set (if hex then drop 2 t else t)"
  proof (cases t)
    case (Cons a u)
    then show ?thesis using vt lower_v(1) by (cases u) (auto simp: hex_def)
  qed (use vt in simp)
  obtain m r where m: "read_mantissa hex (if hex then drop 2 t else t)
      \<lparr>man = 0, frac_digits = 0, sawdot = False, sawdigits = False, underscores = False\<rparr> = (m, r)" by fastforce
  have r: "CHR ''v'' \<in> set r" using mantissa_stops [OF vd] m by (metis snd_conv)
  have e: "r' \<noteq> []" if "r = c # r0" "signed_exponent r0 = Some (x, u, r')" "lower_char c = CHR ''p'' \<or> lower_char c = CHR ''e''" for c r0 x u r'
  proof (rule signed_stops [OF _ that(2)])
    show "CHR ''v'' \<in> set r0" using r that(1,3) lower_v(1) by auto
  qed
  have 2: "read_float s = None"
  proof (cases r)
    case (Cons c r0)
    then show ?thesis using e [OF Cons]
      unfolding read_float_def t Let_def prod.case hex_def [symmetric] m
      by (auto split: option.splits)
  qed (use r in simp)
  show ?thesis using 1 2 by (simp add: ParseFloat_def)
qed

section \<open>The weighting of a default profile\<close>

text \<open>A profile without custom model files and turn costs, with a plain name.\<close>

definition default_profile :: "profile \<Rightarrow> bool" where
  "default_profile pr \<longleftrightarrow> map lower_char (pr_Weighting pr) \<in> {[], ''custom''} \<and> CustomModelFiles pr = [] \<and>
     TurnCosts pr = None \<and> (\<forall>c \<in> set (pr_Name pr). ident_char c \<and> ascii c)"

text \<open>The encoded values of the profile: access, an optional mark of small subnetworks, and the speed.\<close>

definition profile_values :: "ev_lookup \<Rightarrow> profile \<Rightarrow> int_ev \<Rightarrow> int_ev option \<Rightarrow> decimal_ev \<Rightarrow> bool" where
  "profile_values em pr acc sub speed \<longleftrightarrow> em (VehicleAccessKey (pr_Name pr)) = Some (BoolEV acc) \<and>
     em (SubnetworkKey (pr_Name pr)) = map_option BoolEV sub \<and> em (VehicleSpeedKey (pr_Name pr)) = Some (DecimalEV speed)"

lemma key_ok:
  assumes "\<forall>c \<in> set n. ident_char c \<and> ascii c"
  shows "name_ok (VehicleAccessKey n)" "name_ok (SubnetworkKey n)"
proof -
  have k: "name_ok (n @ suffix)" if "\<forall>c \<in> set suffix. ident_char c \<and> ascii c" "CHR ''_'' \<in> set suffix" for suffix
  proof -
    have ne: "n @ suffix \<noteq> t" if "CHR ''_'' \<notin> set t" for t using that \<open>CHR ''_'' \<in> set suffix\<close> by auto
    have "n @ suffix \<noteq> ''true''" "n @ suffix \<noteq> ''false''" by (rule ne, simp)+
    then show ?thesis using assms that by (auto simp: name_ok_def)
  qed
  show "name_ok (VehicleAccessKey n)" "name_ok (SubnetworkKey n)"
    unfolding VehicleAccessKey_def GetKey_def SubnetworkKey_def append_assoc
    by (intro k; simp add: ident_char_def IsLetter_def ascii_def)+
qed

lemma ref_parsed:
  assumes "name_ok n" "l n = Some (BoolEV b)"
  shows "ParseCondition n l = Some (Inr (read_bool b, []))"
    "ParseCondition (''!'' @ n) l = Some (Inr (\<lambda>bg st r. map_option Not (read_bool b bg st r), []))"
proof -
  have "cond_ok l (Paren [[Ref n]])" "cond_ok l (Paren [[Neg (Ref n)]])" using assms by simp_all
  from this [THEN ParseCondition_print]
  have "ParseCondition n l = Some (Inr (\<lambda>bg st r. eval_cond l bg st r (Paren [[Ref n]]), []))"
    "ParseCondition (''!'' @ n) l = Some (Inr (\<lambda>bg st r. eval_cond l bg st r (Paren [[Neg (Ref n)]]), []))"
    by (simp_all add: print_or_def join_def)
  moreover have "conj [x] = x" "disj [x] = x" for x :: "bool option"
    by (cases x; cases "the x"; simp)+
  ultimately show "ParseCondition n l = Some (Inr (read_bool b, []))"
    "ParseCondition (''!'' @ n) l = Some (Inr (\<lambda>bg st r. map_option Not (read_bool b bg st r), []))"
    using assms(2) by simp_all
qed

lemma speed_key:
  assumes "\<forall>c \<in> set n. ident_char c \<and> ascii c" "l (VehicleSpeedKey n) = Some (DecimalEV d)"
  shows "ParseValue (VehicleSpeedKey n) l = Inr (read_decimal d)"
    "valueMinMax (VehicleSpeedKey n) l = \<lparr>mm_Min = GetMinStorableDecimal d, mm_Max = GetMaxOrMaxStorableDecimal d\<rparr>"
    "ParseFloat (TrimSpace (VehicleSpeedKey n)) = None"
proof -
  let ?k = "VehicleSpeedKey n"
  have k: "?k \<noteq> []" "last ?k = CHR ''d''" "CHR ''v'' \<in> set ?k" by (simp_all add: VehicleSpeedKey_def GetKey_def)
  have "edge_char (hd ?k)"
    using assms(1) value_edge(2) by (cases n) (auto simp: VehicleSpeedKey_def GetKey_def edge_char_def ascii_def)
  then have t: "TrimSpace ?k = ?k" by (intro TrimSpace_id) (simp_all add: k edge_char_def ascii_def)
  show "ParseValue ?k l = Inr (read_decimal d)"
    "valueMinMax ?k l = \<lparr>mm_Min = GetMinStorableDecimal d, mm_Max = GetMaxOrMaxStorableDecimal d\<rparr>" "ParseFloat (TrimSpace ?k) = None"
    using assms(2) k(1) ParseFloat_v [OF k(3)] by (simp_all add: ParseValue_def valueMinMax_def t Let_def)
qed

lemma zero_value:
  "ParseFloat (TrimSpace ''0'') = Some (Fin 0)"
  "ParseValue ''0'' l = Inr (\<lambda>bg st reverse. Some (Fin 0))" "valueMinMax ''0'' l = \<lparr>mm_Min = Fin 0, mm_Max = Fin 0\<rparr>"
proof -
  have t: "TrimSpace ''0'' = ''0''" by (rule TrimSpace_id) (simp_all add: edge_char_def ascii_def)
  have "read_float ''0'' = Some (Fin 0)"
    by (simp add: read_float_def strip_sign_def digit_value_def IsDigit_def lower_char_def finite_result_def)
  moreover have "special_float ''0'' = None" by (simp add: special_float_def strip_sign_def lower_char_def)
  ultimately have "ParseFloat ''0'' = Some (Fin 0)" by (simp add: ParseFloat_def)
  then show "ParseFloat (TrimSpace ''0'') = Some (Fin 0)" "ParseValue ''0'' l = Inr (\<lambda>bg st reverse. Some (Fin 0))" "valueMinMax ''0'' l = \<lparr>mm_Min = Fin 0, mm_Max = Fin 0\<rparr>"
    by (simp_all add: ParseValue_def valueMinMax_def t)
qed

definition open_priority :: "int_ev \<Rightarrow> int_ev option \<Rightarrow> edge_to_double" where
  "open_priority acc sub bg st r = do {
     a \<leftarrow> read_bool acc bg st r;
     b \<leftarrow> (case sub of None \<Rightarrow> Some False | Some s \<Rightarrow> read_bool s bg st r);
     Some (if a \<and> \<not> b then Fin 1 else Fin 0) }"

definition capped_speed :: "decimal_ev \<Rightarrow> edge_to_double" where
  "capped_speed speed bg st r = do { v \<leftarrow> read_decimal speed bg st r; Some (go_min globalMaxSpeed v) }"

definition block_statement :: "string \<Rightarrow> statement" where
  "block_statement cond = If' cond OpMultiply ''0''"

lemma block_keyword [simp]: "Keyword (block_statement c) = KeywordIf" "Condition (block_statement c) = c"
  by (simp_all add: block_statement_def If'_def)

lemma block_compiled:
  assumes "ParseCondition cond l = Some (Inr (f, s))"
  shows "compile_stmt l (block_statement cond) = Some \<lparr>cs_cond = f, cs_val = \<lambda>bg st r. Some (Fin 0), cs_op = OpMultiply\<rparr>"
  using assms by (simp add: compile_stmt_def block_statement_def If'_def zero_value)

lemma block_range:
  assumes "cond \<noteq> ''true''"
  shows "findMinMaxForGroup \<lparr>mm_Min = Fin 0, mm_Max = Fin 1\<rparr> [block_statement cond] l = Some \<lparr>mm_Min = Fin 0, mm_Max = Fin 1\<rparr>"
  using assms
  by (simp add: findMinMaxForGroup_def block_statement_def If'_def zero_value op_Apply_def merge_range_def go_min_def go_max_def
      MaxFloat64_def)

lemma not_less_zero_min: "0 \<le> c \<Longrightarrow> fnonneg x \<Longrightarrow> \<not> flt_less (go_min (Fin c) x) (Fin 0)"
  by (cases x) (auto simp: go_min_def)

text \<open>The largest speed the edges may have is known and not negative.\<close>

definition max_known :: "decimal_ev \<Rightarrow> bool" where
  "max_known d \<longleftrightarrow> fnonneg (GetMaxOrMaxStorableDecimal d)"

lemma default_parameters:
  assumes "default_profile pr" "profile_values em pr acc sub speed" "max_known speed"
    "buildCustomModel load pr (VehicleSpeedKey (pr_Name pr)) em = Some cm"
  shows "\<exists>p. CreateWeightingParameters cm em = Some p \<and> EdgeToSpeed p = capped_speed speed \<and>
    EdgeToPriority p = open_priority acc sub \<and> par_DistanceInfluence p = Fin 0"
proof -
  let ?n = "pr_Name pr"
  have n: "\<forall>c \<in> set ?n. ident_char c \<and> ascii c" using assms(1) by (simp add: default_profile_def)
  note vals = assms(2) [unfolded profile_values_def]
  note K = key_ok [OF n]
  have sk: "ParseValue (VehicleSpeedKey ?n) em = Inr (read_decimal speed)"
    "valueMinMax (VehicleSpeedKey ?n) em = \<lparr>mm_Min = GetMinStorableDecimal speed, mm_Max = GetMaxOrMaxStorableDecimal speed\<rparr>"
    using speed_key(1,2) [OF n] vals by blast+
  define subs where "subs = (case sub of None \<Rightarrow> [] | Some s \<Rightarrow> [block_statement (SubnetworkKey ?n)])"
  have cm: "cm = \<lparr>DistanceInfluence = None, HeadingPenalty = None, Speed = [If' ''true'' OpLimit (VehicleSpeedKey ?n)],
      Priority = block_statement (''!'' @ VehicleAccessKey ?n) # subs\<rparr>"
    using assms(1,4) vals
    by (cases sub) (simp_all add: buildCustomModel_def default_profile_def NewCustomModel_def AddToSpeed_def AddToPriority_def
        block_statement_def subs_def Let_def)
  have f0: "fmul (Fin 1) (Fin 0) = Fin 0" "fmul (Fin 0) (Fin 0) = Fin 0" by simp_all
  have speed: "BuildEdgeToDoubleMapping (Speed cm) globalMaxSpeed em = Some (capped_speed speed)"
    by (simp add: cm BuildEdgeToDoubleMapping_def compileStatements_def SplitIntoGroups_def compile_stmt_def If'_def sk(1)
        true_parsed cond_const_def capped_speed_def apply_op_def fun_eq_iff)
  have a: "compile_stmt em (block_statement (''!'' @ VehicleAccessKey ?n)) =
      Some \<lparr>cs_cond = \<lambda>bg st r. map_option Not (read_bool acc bg st r), cs_val = \<lambda>bg st r. Some (Fin 0), cs_op = OpMultiply\<rparr>"
    by (rule block_compiled) (rule ref_parsed(2) [OF K(1)], use vals in simp)
  have b: "compile_stmt em (block_statement (SubnetworkKey ?n)) =
      Some \<lparr>cs_cond = read_bool s, cs_val = \<lambda>bg st r. Some (Fin 0), cs_op = OpMultiply\<rparr>" if "sub = Some s" for s
    by (rule block_compiled) (rule ref_parsed(1) [OF K(2)], use vals that in simp)
  have prio: "BuildEdgeToDoubleMapping (Priority cm) globalPriority em = Some (open_priority acc sub)"
    using a b
    by (cases sub) (auto simp: cm subs_def BuildEdgeToDoubleMapping_def compileStatements_def SplitIntoGroups_def globalPriority_def
        open_priority_def apply_op_def f0 fun_eq_iff split: Option.bind_split simp del: fmul.simps)
  have ne: "''!'' @ VehicleAccessKey ?n \<noteq> ''true''" "SubnetworkKey ?n \<noteq> ''true''" using K(2) by (auto simp: name_ok_def)
  have rs: "\<exists>mm. FindMinMax \<lparr>mm_Min = Fin 0, mm_Max = globalMaxSpeed\<rparr> (Speed cm) em = Some mm"
    using assms(3) not_less_zero_min [of 999]
    by (simp add: cm FindMinMax_def SplitIntoGroups_def findMinMaxForGroup_def If'_def sk(2) op_Apply_def max_known_def
        globalMaxSpeed_def)
  have rp: "\<exists>mm. FindMinMax \<lparr>mm_Min = Fin 0, mm_Max = globalPriority\<rparr> (Priority cm) em = Some mm"
    using block_range [OF ne(1), of em] block_range [OF ne(2), of em]
    by (cases sub) (simp_all add: cm subs_def FindMinMax_def SplitIntoGroups_def globalPriority_def)
  show ?thesis using rs rp by (auto simp: CreateWeightingParameters_def speed prio) (simp add: cm)
qed

lemma default_weighting:
  assumes "default_profile pr" "profile_values em pr acc sub speed" "max_known speed"
  shows "\<exists>w. CreateWeighting load em turn_em tcs na pr hints disable = Some w \<and> edgeToSpeed w = capped_speed speed \<and>
    edgeToPriority w = open_priority acc sub \<and> distanceInfluence w = Fin 0 \<and> cw_turnCostProvider w = NoTurnCostProvider \<and>
    \<not> cw_hasTurnCosts w"
proof -
  obtain cm where cm: "buildCustomModel load pr (VehicleSpeedKey (pr_Name pr)) em = Some cm"
    using assms(1) by (cases "em (SubnetworkKey (pr_Name pr))") (auto simp: buildCustomModel_def default_profile_def Let_def)
  obtain p where p: "CreateWeightingParameters cm em = Some p" "EdgeToSpeed p = capped_speed speed"
    "EdgeToPriority p = open_priority acc sub" "par_DistanceInfluence p = Fin 0"
    using default_parameters [OF assms cm] by blast
  have "fdiv (Fin 0) (Fin 1000) = Fin 0" by simp
  then show ?thesis
    using assms(1) cm p
    by (auto simp: CreateWeighting_def default_profile_def custom_CreateWeighting_def NewCustomWeighting_def Let_def)
qed

section \<open>The contract of the weighting\<close>

text \<open>The seconds on an open edge; no edge without access, in a small subnetwork or with speed zero is open.\<close>

definition travel_cost :: "int_ev \<Rightarrow> int_ev option \<Rightarrow> decimal_ev \<Rightarrow> base_graph \<Rightarrow> edge_state \<Rightarrow> flt" where
  "travel_cost acc sub speed bg st =
     (let v = the (es_GetDecimal speed bg st) in
      if \<not> the (es_GetBool acc bg st) \<or> (\<exists>s. sub = Some s \<and> the (es_GetBool s bg st)) \<or> v = Fin 0 then PInf
      else fmul (fdiv (the (es_GetDistance bg st)) (go_min globalMaxSpeed v)) SpeedConv)"

definition profile_ok :: "base_graph \<Rightarrow> ev_lookup \<Rightarrow> profile \<Rightarrow> int_ev \<Rightarrow> int_ev option \<Rightarrow> decimal_ev \<Rightarrow> bool" where
  "profile_ok bg em pr acc sub speed \<longleftrightarrow> default_profile pr \<and> profile_values em pr acc sub speed \<and> max_known speed \<and>
     distances_ok (Store bg) \<and> speed_ok (Store bg) speed \<and> allocated_in (Store bg) acc \<and> access_ok (Store bg) sub"

lemma conv_positive: "\<exists>c > 0. c \<le> 4 \<and> SpeedConv = Fin c"
proof -
  have "f64 3 = Fin 3" "f64 4 = Fin 4" using f64_of_int_exact [of 3] f64_of_int_exact [of 4] by simp_all
  moreover have "flt_le (f64 3) SpeedConv" "flt_le SpeedConv (f64 4)" unfolding SpeedConv_def by (rule f64_mono, simp)+
  ultimately have "flt_le (Fin 3) SpeedConv" "flt_le SpeedConv (Fin 4)" by simp_all
  moreover have "\<exists>c > 0. c \<le> 4 \<and> x = Fin c" if "flt_le (Fin 3) x" "flt_le x (Fin 4)" for x using that by (cases x) auto
  ultimately show ?thesis by blast
qed

lemma seconds_ok:
  assumes "0 \<le> d" "wf64 v" "fnonneg v" "v \<noteq> Fin 0"
  shows "wf64 (fmul (fdiv (Fin d) v) SpeedConv) \<and> fnonneg (fmul (fdiv (Fin d) v) SpeedConv)"
proof -
  obtain c where c: "0 < c" "SpeedConv = Fin c" using conv_positive by blast
  have "fnonneg (fdiv (Fin d) v)" using fdiv_nonneg [OF assms] by simp
  then show ?thesis using c(1) fnonneg_cases [of "fdiv (Fin d) v"]
    unfolding c(2) by (auto simp: inf_of_sgn_def intro!: fnonneg_f64)
qed

lemma capped_ok:
  assumes "wf64 v" "fnonneg v"
  shows "wf64 (go_min globalMaxSpeed v) \<and> fnonneg (go_min globalMaxSpeed v) \<and> (go_min globalMaxSpeed v = Fin 0 \<longleftrightarrow> v = Fin 0)"
proof -
  have "wf64 globalMaxSpeed" using wf64_of_int [of 999] by (simp add: globalMaxSpeed_def)
  then show ?thesis using assms by (cases v) (auto simp: go_min_def globalMaxSpeed_def simp del: wf64.simps(1))
qed

lemma custom_edge_weight:
  assumes "graph_ok (Store bg) adj" "profile_ok bg em pr acc sub speed" "valid_edge (Store bg) (EdgeID st)"
    "edgePointer st = EdgeID st * edgeEntryBytes (Store bg)"
    "edgeToSpeed w = capped_speed speed" "edgeToPriority w = open_priority acc sub" "distanceInfluence w = Fin 0"
  shows "cw_CalcEdgeWeight w bg st False = Some (travel_cost acc sub speed bg st)"
    "wf64 (travel_cost acc sub speed bg st)" "fnonneg (travel_cost acc sub speed bg st)"
    "\<exists>x. cw_CalcEdgeMillis w bg st False = Some x"
proof -
  note p = assms(2) [unfolded profile_ok_def]
  obtain d where d: "es_GetDistance bg st = Some (Fin d)" "0 \<le> d"
    using read_distance [OF assms(1) _ assms(3,4)] p by blast
  obtain v where v: "es_GetDecimal speed bg st = Some v" "wf64 v" "fnonneg v"
    using read_speed [OF _ assms(1,3)] p by (fastforce simp: es_GetDecimal_def)
  obtain a where a: "es_GetBool acc bg st = Some a"
    using read_flag [OF _ assms(1,3)] p by (fastforce simp: es_GetBool_def)
  have b: "\<exists>b. es_GetBool s bg st = Some b" if "sub = Some s" for s
    using read_flag [OF _ assms(1,3)] p that by (fastforce simp: es_GetBool_def access_ok_def)
  define c where "c = go_min globalMaxSpeed v"
  have c: "wf64 c" "fnonneg c" "c = Fin 0 \<longleftrightarrow> v = Fin 0" using capped_ok [OF v(2,3)] by (simp_all add: c_def)
  have c': "\<not> flt_less c (Fin 0)" "c \<noteq> NaN" using c(2) by (auto simp: flt_less_iff)
  define x where "x = fmul (fdiv (Fin d) c) SpeedConv"
  have x: "wf64 x" "fnonneg x" if "v \<noteq> Fin 0" using seconds_ok [OF d(2) c(1,2)] c(3) that by (simp_all add: x_def)
  have sec: "calcSeconds w (Fin d) bg st False = Some (if v = Fin 0 then PInf else x)"
    using v(1) c c' by (simp add: calcSeconds_def assms(5) capped_speed_def read_decimal_def c_def [symmetric] flt_eq_def x_def)
  have z: "fmul (Fin d) (Fin 0) = Fin 0" by simp
  have y: "fadd (fdiv x (Fin 1)) (Fin 0) = x" if "v \<noteq> Fin 0" "x \<noteq> PInf"
    using x [OF that(1)] that(2) fnonneg_cases [of x] by (auto simp: f64_wf simp del: wf64.simps)
  have t: "travel_cost acc sub speed bg st =
      (if \<not> a \<or> (\<exists>s. sub = Some s \<and> the (es_GetBool s bg st)) \<or> v = Fin 0 then PInf else x)"
    by (auto simp: travel_cost_def v(1) a d(1) c_def [symmetric] x_def Let_def)
  show "cw_CalcEdgeWeight w bg st False = Some (travel_cost acc sub speed bg st)"
    unfolding t using a b sec d(1) y z
    by (cases sub) (auto simp: cw_CalcEdgeWeight_def assms(6,7) open_priority_def read_bool_def flt_eq_def math_IsPInf_def
        Let_def simp del: fmul.simps fdiv.simps fadd.simps)
  show "wf64 (travel_cost acc sub speed bg st)" "fnonneg (travel_cost acc sub speed bg st)" using x by (auto simp: t)
  show "\<exists>x. cw_CalcEdgeMillis w bg st False = Some x" using d(1) sec by (simp add: cw_CalcEdgeMillis_def)
qed

lemma custom_contract:
  assumes "graph_ok (Store bg) adj" "profile_ok bg em pr acc sub speed" "edgeToSpeed w = capped_speed speed"
    "edgeToPriority w = open_priority acc sub" "distanceInfluence w = Fin 0" "cw_turnCostProvider w = NoTurnCostProvider"
  shows "weighting_ok bg adj (custom_iface w bg) mode"
proof -
  have e: "(\<exists>x. cw_CalcEdgeWeight w bg st False = Some x \<and> wf64 x \<and> fnonneg x) \<and> (\<exists>x. cw_CalcEdgeMillis w bg st False = Some x)"
    if "valid_node (Store bg) n" "st \<in> set (states_at bg adj n)" for n st
    using custom_edge_weight [OF assms(1,2) state_facts(1,2) [OF assms(1) that] assms(3-5)] by blast
  have z: "wf64 (Fin 0)" using wf64_of_int [of 0] by simp
  show ?thesis unfolding weighting_ok_def using e z by (auto simp: custom_iface_def assms(6))
qed

lemma custom_step:
  assumes "graph_ok (Store bg) adj" "profile_ok bg em pr acc sub speed" "edgeToSpeed w = capped_speed speed"
    "edgeToPriority w = open_priority acc sub" "distanceInfluence w = Fin 0" "cw_turnCostProvider w = NoTurnCostProvider"
    "valid_node (Store bg) n" "st \<in> set (states_at bg adj n)"
  shows "step_weight (custom_iface w bg) prev st = travel_cost acc sub speed bg st"
proof -
  note E = custom_edge_weight [OF assms(1,2) state_facts(1,2) [OF assms(1,7,8)] assms(3-5)]
  then show ?thesis
    using fadd_0 [OF E(2)] fadd_commute [of "travel_cost acc sub speed bg st" "Fin 0"]
    by (auto simp: step_weight_def CalcWeightWithTurnWeight_def custom_iface_def assms(6))
qed

text \<open>The travel time along a walk.\<close>

definition total_cost :: "int_ev \<Rightarrow> int_ev option \<Rightarrow> decimal_ev \<Rightarrow> base_graph \<Rightarrow> edge_state list \<Rightarrow> flt" where
  "total_cost acc sub speed bg ws = foldl (\<lambda>t st. fadd (travel_cost acc sub speed bg st) t) (Fin 0) ws"

lemma walk_total_cost:
  assumes "graph_ok (Store bg) adj" "profile_ok bg em pr acc sub speed" "edgeToSpeed w = capped_speed speed"
    "edgeToPriority w = open_priority acc sub" "distanceInfluence w = Fin 0" "cw_turnCostProvider w = NoTurnCostProvider"
  shows "valid_node (Store bg) n \<Longrightarrow> walk (states_at bg adj) n ws \<Longrightarrow>
    walk_weight (step_weight (custom_iface w bg)) prev c ws = foldl (\<lambda>t st. fadd (travel_cost acc sub speed bg st) t) c ws"
proof (induction ws arbitrary: n prev c)
  case (Cons st ws)
  then have st: "st \<in> set (states_at bg adj n)" and ws: "walk (states_at bg adj) (AdjNode st) ws" by auto
  have "valid_node (Store bg) (AdjNode st)"
    using states_atD [OF assms(1) Cons.prems(1) st] graph_okD(2,3) [OF assms(1)] by auto
  from Cons.IH [OF this ws] custom_step [OF assms Cons.prems(1) st] show ?case by simp
qed simp

section \<open>The decimals of a lookup\<close>

text \<open>After any writes to the edges the largest value a decimal remembers is that of no edge exceeded.\<close>

lemma stored_decimal:
  assumes "graph_ok s0 adj" "allocation vs0 s0" "unwritten vs0 s0" "stored_writes F vs0 s0 vs (Store bg)"
    "k < length vs" "unsigned_decimal (vs0 ! k) (F k)" "d = plain_decimal (vs ! k) (F k)"
  shows "fnonneg (GetMinStorableDecimal d)" "fnonneg (GetMaxOrMaxStorableDecimal d)"
    "valid_edge (Store bg) (EdgeID st) \<Longrightarrow> read_decimal d bg st r = Some v \<Longrightarrow>
      in_range v \<lparr>mm_Min = GetMinStorableDecimal d, mm_Max = GetMaxOrMaxStorableDecimal d\<rparr>"
proof -
  note I = writes_keep [OF assms(2) unwritten_inv [OF assms(1,3)] assms(4), unfolded writes_inv_def]
  note U = assms(6) [unfolded unsigned_decimal_def]
  let ?x = "vs ! k"
  have k: "k < length vs0" using assms(5) I by simp
  obtain m where m: "?x = (vs0 ! k)\<lparr>MaxValue := m\<rparr>" using I k by blast
  have tr: "tracked (Store bg) ?x" using I k U by blast
  obtain q where q: "F k = Fin q" "2 powi (- 1000) \<le> q" using U by blast
  have "(0 :: rat) < 2 powi (- 1000)" by simp
  then have q0: "0 < q" using q(2) by (rule less_le_trans)
  let ?max = "GetMaxOrMaxStorableInt ?x"
  have mx: "0 \<le> sint ?max" "n \<le> max 0 (sint (MaxValue ?x)) \<Longrightarrow> n \<le> sint ?max" for n
    using tr U m by (auto simp: GetMaxOrMaxStorableInt_def tracked_def)
  have i: "f64_of_int (sint n) = Fin (of_int (sint n))" for n :: i32
    by (intro i32_float; use sint_i32_bounds [of n] in simp)
  have b: "0 \<le> of_int x * q" "of_int x * q \<le> of_int y * q" if "0 \<le> x" "x \<le> y" for x y :: int
    using that q0 by (simp_all add: mult_right_mono)
  have mn: "GetMinStorableDecimal d = Fin 0"
    using U m q(1) i [of 0] by (simp add: assms(7) GetMinStorableDecimal_def min_float_def)
  have up: "GetMaxOrMaxStorableDecimal d = f64 (of_int (sint ?max) * q)"
    using i [of ?max] q(1) by (simp add: assms(7) GetMaxOrMaxStorableDecimal_def Let_def)
  show "fnonneg (GetMinStorableDecimal d)" "fnonneg (GetMaxOrMaxStorableDecimal d)"
    using b(1) [OF mx(1) order_refl] by (auto simp: mn up intro: fnonneg_f64)
  assume e: "valid_edge (Store bg) (EdgeID st)" and v: "read_decimal d bg st r = Some v"
  obtain c where c: "GetDecimal ne_access c (EdgeID st) (Store bg) d = Some v"
    using v by (auto simp: read_decimal_def es_GetDecimal_def es_GetReverseDecimal_def split: if_splits)
  then obtain n where n: "ev_GetInt ne_access c (EdgeID st) (Store bg) ?x = Some n" "v = fmul (f64_of_int (sint n)) (Fin q)"
    by (auto simp: GetDecimal_def assms(7) q(1) split: Option.bind_splits)
  have "allocation vs0 (Store bg)" using assms(2) I by (simp add: allocation_def)
  then have "allocated_in (Store bg) (vs0 ! k)" using k by (auto simp: allocation_def allocated_in_def)
  then obtain n' where "ev_GetInt ne_access c (EdgeID st) (Store bg) (vs0 ! k) = Some n'" "0 \<le> sint n'"
    using read_value(2) [of "Store bg" "vs0 ! k" adj "EdgeID st" c] I e U by auto
  moreover have "ev_GetInt ne_access c (EdgeID st) (Store bg) ?x = ev_GetInt ne_access c (EdgeID st) (Store bg) (vs0 ! k)"
    using m by (simp add: ev_GetInt_def cong: if_cong)
  ultimately have lo: "0 \<le> sint n" using n(1) by simp
  have hi: "sint n \<le> sint ?max" using tr e n(1) by (intro mx(2)) (auto simp: tracked_def)
  have "flt_le (f64 (of_int (sint n) * q)) (f64 (of_int (sint ?max) * q))" "flt_le (f64 0) (f64 (of_int (sint n) * q))"
    using b [OF lo hi] by (intro f64_mono; simp)+
  then show "in_range v \<lparr>mm_Min = GetMinStorableDecimal d, mm_Max = GetMaxOrMaxStorableDecimal d\<rparr>"
    by (simp add: in_range_def upto_def flt_less_iff mn up n(2) i)
qed

text \<open>Every decimal of the lookup is one of the unsigned decimals that are written.\<close>

definition stored_decimals :: "(nat \<Rightarrow> flt) \<Rightarrow> int_ev list \<Rightarrow> int_ev list \<Rightarrow> ev_lookup \<Rightarrow> bool" where
  "stored_decimals F vs0 vs lookup \<longleftrightarrow> (\<forall>name d. lookup name = Some (DecimalEV d) \<longrightarrow>
     (\<exists>k < length vs. unsigned_decimal (vs0 ! k) (F k) \<and> d = plain_decimal (vs ! k) (F k)))"

text \<open>No value of a statement is written as a negative number or as NaN.\<close>

definition literals_nonneg :: "statement list \<Rightarrow> bool" where
  "literals_nonneg sts \<longleftrightarrow> (\<forall>s \<in> set sts. \<forall>x. ParseFloat (TrimSpace (st_Value s)) = Some x \<longrightarrow> fnonneg x)"

lemma stored_decimals_ranges:
  assumes "graph_ok s0 adj" "allocation vs0 s0" "unwritten vs0 s0" "stored_writes F vs0 s0 vs (Store bg)" "stored_decimals F vs0 vs lookup"
  shows "valid_edge (Store bg) (EdgeID st) \<Longrightarrow> decimals_in_range lookup bg st r"
    "literals_nonneg sts \<Longrightarrow> values_nonneg lookup sts"
proof -
  note S = stored_decimal [OF assms(1-4)]
  have d: "\<exists>k < length vs. unsigned_decimal (vs0 ! k) (F k) \<and> d = plain_decimal (vs ! k) (F k)" if "lookup name = Some (DecimalEV d)" for name d
    using assms(5) that unfolding stored_decimals_def by blast
  show "valid_edge (Store bg) (EdgeID st) \<Longrightarrow> decimals_in_range lookup bg st r"
    unfolding decimals_in_range_def using d S(3) by blast
  have "fnonneg (GetMinStorableDecimal d) \<and> fnonneg (GetMaxOrMaxStorableDecimal d)" if "lookup name = Some (DecimalEV d)" for name d
    using d [OF that] S(1,2) by blast
  then show "literals_nonneg sts \<Longrightarrow> values_nonneg lookup sts"
    by (auto simp: values_nonneg_def literals_nonneg_def valueMinMax_def Let_def split: option.splits encoded_value.splits)
qed

section \<open>Properties\<close>

text \<open>
  C4. The weighting the factory makes for a profile without custom model files and turn costs, whose name consists
  of letters, digits and underscores in ASCII and whose statements are parsed from their text, with Dijkstra's
  algorithm on a stored graph: the factory succeeds, the search returns, and the path it finds is a walk with the
  least travel time, where an edge without access, in a small subnetwork or with speed zero is closed and every
  other edge takes its stored distance over its stored speed, which is cut at 999 km/h. Without limits a path is
  found exactly when some walk has no closed edge and a time that does not overflow.
\<close>

theorem default_profile_route:
  assumes "graph_ok (Store bg) adj" "profile_ok bg em pr acc sub speed" "valid_node (Store bg) from'"
  shows "\<exists>w d path d'. CreateWeighting load em turn_em tcs na pr hints disable = Some w \<and>
    NewDijkstra (base_graph_iface bg) (custom_iface w bg) mode = Some d \<and>
    dij_CalcPath clock from' to (SetMaxVisitedNodes k (SetTimeoutMillis t d)) = Some (path, d') \<and>
    (Found path \<longrightarrow> (\<exists>ws. walk (states_at bg adj) from' ws \<and> walk_end from' ws = to \<and> EdgeIDs path = map EdgeID ws \<and>
       path_Weight path = total_cost acc sub speed bg ws \<and> path_Weight path \<noteq> PInf \<and>
       (\<forall>vs. walk (states_at bg adj) from' vs \<and> walk_end from' vs = to \<longrightarrow>
         flt_le (path_Weight path) (total_cost acc sub speed bg vs)))) \<and>
    (unlimited k t (clock 0) \<longrightarrow> (Found path \<longleftrightarrow> (\<exists>ws. walk (states_at bg adj) from' ws \<and> walk_end from' ws = to \<and>
       total_cost acc sub speed bg ws \<noteq> PInf)))"
proof -
  obtain w where w: "CreateWeighting load em turn_em tcs na pr hints disable = Some w" "edgeToSpeed w = capped_speed speed"
    "edgeToPriority w = open_priority acc sub" "distanceInfluence w = Fin 0" "cw_turnCostProvider w = NoTurnCostProvider"
    "\<not> cw_hasTurnCosts w"
    using default_weighting assms(2) unfolding profile_ok_def by blast
  have "\<exists>d. NewDijkstra (base_graph_iface bg) (custom_iface w bg) mode = Some d"
    using w(6) by (simp add: NewDijkstra_def NewAbstractRoutingAlgorithm_def custom_iface_def)
  then obtain d where d: "NewDijkstra (base_graph_iface bg) (custom_iface w bg) mode = Some d" ..
  have r: "routable bg adj (custom_iface w bg) mode from'"
    using assms(1,3) custom_contract [OF assms(1,2) w(2-5)] by (simp add: routable_def)
  note W = walk_total_cost [OF assms(1,2) w(2-5) assms(3), of _ noEdge "Fin 0", folded total_cost_def]
  show ?thesis using search_result [OF r d W, of clock to k t] w(1) d by blast
qed

text \<open>
  C21. The largest speed and the largest priority that are computed from the statements of a custom model bound
  the values of every edge: no priority is above \<open>MaxPriority\<close>, and no speed is above \<open>MaxSpeed\<close> unless it is
  above the global maximum of 999. It holds after any sequence of writes to the edges, since every write that is
  accepted keeps the largest value of its decimal, when the flags of the edges were zero before, the statements
  read decimals that are not negative (as \<open>unsigned_decimal\<close> says, and not those with infinity) and contain no
  negative number and no NaN.
\<close>

theorem custom_maxima_sound:
  assumes "graph_ok s0 adj" "allocation vs0 s0" "unwritten vs0 s0" "stored_writes F vs0 s0 vs (Store bg)"
    "stored_decimals F vs0 vs lookup" "literals_nonneg (Speed cm)" "literals_nonneg (Priority cm)"
    "CreateWeightingParameters cm lookup = Some p" "valid_edge (Store bg) (EdgeID st)"
  shows "(\<forall>v. EdgeToSpeed p bg st r = Some v \<longrightarrow> flt_less globalMaxSpeed v \<or> \<not> flt_less (MaxSpeed p) v) \<and>
    (\<forall>v. EdgeToPriority p bg st r = Some v \<longrightarrow> \<not> flt_less (MaxPriority p) v)"
proof -
  let ?s = "\<lparr>mm_Min = Fin 0, mm_Max = globalMaxSpeed\<rparr>" and ?p = "\<lparr>mm_Min = Fin 0, mm_Max = globalPriority\<rparr>"
  note R = stored_decimals_ranges [OF assms(1-5)]
  note d = R(1) [OF assms(9), of r] and n = R(2) [OF assms(6)] R(2) [OF assms(7)]
  obtain sm pm where m: "FindMinMax ?s (Speed cm) lookup = Some sm" "FindMinMax ?p (Priority cm) lookup = Some pm"
    "BuildEdgeToDoubleMapping (Speed cm) globalMaxSpeed lookup = Some (EdgeToSpeed p)"
    "BuildEdgeToDoubleMapping (Priority cm) globalPriority lookup = Some (EdgeToPriority p)"
    "MaxSpeed p = go_max (go_min (mm_Max sm) globalMaxSpeed) (Fin 1)" "MaxPriority p = go_max (mm_Max pm) (f64 (1 / 100))"
    using assms(8) by (auto simp: CreateWeightingParameters_def split: Option.bind_splits)
  have i: "nonneg_or_NaN globalMaxSpeed" "nonneg_or_NaN globalPriority" "in_range globalMaxSpeed ?s" "in_range globalPriority ?p"
    "minmax_ok ?s" "minmax_ok ?p"
    by (simp_all add: nonneg_or_NaN_def globalMaxSpeed_def globalPriority_def in_range_def upto_def minmax_ok_def)
  have s: "\<not> flt_less (mm_Max sm) v" if "EdgeToSpeed p bg st r = Some v" for v
    using statements_range [OF m(3,1) d n(1) i(1,3,5) that] by (simp add: in_range_def upto_def)
  have q: "\<not> flt_less (mm_Max pm) v" if "EdgeToPriority p bg st r = Some v" for v
    using statements_range [OF m(4,2) d n(2) i(2,4,6) that] by (simp add: in_range_def upto_def)
  have mx: "\<not> flt_less (go_max a b) v" if "\<not> flt_less a v" for a b v
    using that by (cases a; cases b; cases v) (auto simp: go_max_def)
  have mn: "\<not> flt_less (go_min a b) v" if "\<not> flt_less a v" "\<not> flt_less b v" for a b v
    using that by (cases a; cases b; cases v) (auto simp: go_min_def)
  show ?thesis using mx [OF q] mx [OF mn [OF s]] by (auto simp: m(5,6))
qed

section \<open>A car on a sample graph\<close>

text \<open>A car whose values are those of a list of access and speed.\<close>

definition car_lookup :: "int_ev list \<Rightarrow> ev_lookup" where
  "car_lookup vs = (\<lambda>_. None)(''car_access'' \<mapsto> BoolEV (vs ! 1), ''car_average_speed'' \<mapsto> DecimalEV (plain_decimal (vs ! 0) (Fin 1)))"

definition car_profile :: profile where
  "car_profile = \<lparr>pr_Name = ''car'', pr_Weighting = '''', CustomModelFiles = [], CustomModel = None, TurnCosts = None,
     NavigationMode = '''', Hints = \<lambda>_. None\<rparr>"

lemma car_profile_values:
  "default_profile car_profile"
  "profile_values (car_lookup vs) car_profile (vs ! 1) None (plain_decimal (vs ! 0) (Fin 1))"
  by (auto simp: default_profile_def car_profile_def profile_values_def car_lookup_def VehicleAccessKey_def VehicleSpeedKey_def
      SubnetworkKey_def GetKey_def ident_char_def IsLetter_def ascii_def)

lemma car_maximum: "GetMaxOrMaxStorableDecimal car_speed = Fin 31"
proof -
  have "f64_of_int 31 = Fin 31" "f64 31 = Fin 31" using f64_of_int_exact [of 31] by (simp_all add: f64_of_int_def)
  then show ?thesis
    using car_slots(7) [of 0] car_slots(8) by (simp add: GetMaxOrMaxStorableDecimal_def GetMaxOrMaxStorableInt_def car_speed_def Let_def)
qed

lemma two_legs: "fadd (fmul (fdiv (Fin 1) (Fin 1)) SpeedConv) (fadd (fmul (fdiv (Fin 1) (Fin 1)) SpeedConv) (Fin 0)) \<noteq> PInf"
proof -
  obtain c where c: "0 < c" "c \<le> 4" "SpeedConv = Fin c" using conv_positive by blast
  have "wf64 SpeedConv" unfolding SpeedConv_def by simp
  then have f: "f64 c = Fin c" unfolding c(3) by (rule f64_wf)
  have "flt_le (f64 (c + c)) (f64 8)" using c(2) by (intro f64_mono) simp
  moreover have "f64 8 = Fin 8" using f64_of_int_exact [of 8] by simp
  ultimately have "f64 (c + c) \<noteq> PInf" by auto
  then show ?thesis using f f64_small_int(1) unfolding c(3) by simp
qed

text \<open>What the encoded values of the car need on the sample graph.\<close>

lemma car_ok:
  assumes "distances_ok (Store bg)" "allocated_in (Store bg) (car_slots ! 0)" "allocated_in (Store bg) (car_slots ! 1)"
  shows "profile_ok bg (car_lookup car_slots) car_profile (car_slots ! 1) None car_speed"
  using assms car_maximum car_profile_values(1) car_profile_values(2) [of car_slots] car_slots(3) car_slots(4) [of 0] car_slots(6) [of 0]
  by (auto simp: profile_ok_def max_known_def speed_ok_def access_ok_def car_speed_def)

theorem default_profile_route_witness:
  "\<forall>tcs na. \<exists>bg w d path d'. CreateWeighting (\<lambda>_. None) (car_lookup car_slots) (\<lambda>_. None) tcs na car_profile (\<lambda>_. None) False = Some w \<and>
    NewDijkstra (base_graph_iface bg) (custom_iface w bg) NodeBased = Some d \<and>
    dij_CalcPath (\<lambda>_. 0) 0 2 (SetMaxVisitedNodes MaxInt (SetTimeoutMillis MaxInt64 d)) = Some (path, d') \<and>
    Found path \<and> path_Weight path \<noteq> PInf"
proof (intro allI)
  fix tcs na
  obtain s0 vs and bg :: base_graph where O: "graph_ok s0 sample_lists" "allocation car_slots s0" "unwritten car_slots s0"
    "stored_writes (\<lambda>_. Fin 1) car_slots s0 vs (Store bg)" "writes_inv sample_lists car_slots s0 vs (Store bg)"
    "bytesForFlags s0 = 7" "edgeCount s0 = 3" "nodeCount s0 = nodeCount (Store metre_graph)"
    "\<forall>e \<in> {0, 1, 2}. edge_int (Store bg) e (eDist (Store bg)) = 1000"
    "\<And>e k r. e \<in> {0, 2} \<Longrightarrow> k < 2 \<Longrightarrow> ev_GetInt ne_access r e (Store bg) (car_slots ! k) = Some 1"
    by (rule open_graph) blast
  note G = open_graph_ok [OF O(2,5-9)]
  obtain a b where ab: "walk (states_at bg sample_lists) 0 [a, b]" "walk_end 0 [a, b] = 2" "EdgeID a = 0" "EdgeID b = 2"
    "edgePointer a = EdgeID a * edgeEntryBytes (Store bg)" "edgePointer b = EdgeID b * edgeEntryBytes (Store bg)"
    by (rule open_walk [OF G(1,4-6)]) blast
  have "go_min globalMaxSpeed (Fin 1) = Fin 1" by (simp add: go_min_def globalMaxSpeed_def)
  then have t: "travel_cost (car_slots ! 1) None car_speed bg st = fmul (fdiv (Fin 1) (Fin 1)) SpeedConv"
    if "EdgeID st \<in> {0, 2}" "edgePointer st = EdgeID st * edgeEntryBytes (Store bg)" for st
    using open_edge [OF G(1,3) _ O(10) that] O(9) that(1) by (auto simp: travel_cost_def)
  have cost: "total_cost (car_slots ! 1) None car_speed bg [a, b] \<noteq> PInf"
    using t [of a] t [of b] ab(3-6) two_legs by (simp add: total_cost_def del: fadd.simps fmul.simps fdiv.simps)
  have ok: "profile_ok bg (car_lookup car_slots) car_profile (car_slots ! 1) None car_speed"
    using car_ok [OF G(2)] G(7) [of 0] G(7) [of 1] by simp
  obtain w d path d' where p: "CreateWeighting (\<lambda>_. None) (car_lookup car_slots) (\<lambda>_. None) tcs na car_profile (\<lambda>_. None) False = Some w"
    "NewDijkstra (base_graph_iface bg) (custom_iface w bg) NodeBased = Some d"
    "dij_CalcPath (\<lambda>_. 0) 0 2 (SetMaxVisitedNodes MaxInt (SetTimeoutMillis MaxInt64 d)) = Some (path, d')"
    "Found path \<longrightarrow> (\<exists>ws. walk (states_at bg sample_lists) 0 ws \<and> walk_end 0 ws = 2 \<and> EdgeIDs path = map EdgeID ws \<and>
       path_Weight path = total_cost (car_slots ! 1) None car_speed bg ws \<and> path_Weight path \<noteq> PInf \<and>
       (\<forall>vs. walk (states_at bg sample_lists) 0 vs \<and> walk_end 0 vs = 2 \<longrightarrow>
         flt_le (path_Weight path) (total_cost (car_slots ! 1) None car_speed bg vs)))"
    "unlimited MaxInt MaxInt64 0 \<longrightarrow> (Found path \<longleftrightarrow> (\<exists>ws. walk (states_at bg sample_lists) 0 ws \<and> walk_end 0 ws = 2 \<and>
       total_cost (car_slots ! 1) None car_speed bg ws \<noteq> PInf))"
    using default_profile_route [OF G(1) ok G(4), where clock = "\<lambda>_. 0" and to = 2 and k = MaxInt and
        t = MaxInt64 and mode = NodeBased and load = "\<lambda>_. None" and turn_em = "\<lambda>_. None" and hints = "\<lambda>_. None" and disable = False and
        tcs = tcs and na = na]
    by (elim exE conjE) (rule that)
  have "unlimited MaxInt MaxInt64 0" by (simp add: unlimited_def)
  moreover have "\<exists>ws. walk (states_at bg sample_lists) 0 ws \<and> walk_end 0 ws = 2 \<and> total_cost (car_slots ! 1) None car_speed bg ws \<noteq> PInf"
    by (rule exI [of _ "[a, b]"]) (intro conjI ab(1,2) cost)
  ultimately have found: "Found path" using p(5) by simp
  with p(4) have "path_Weight path \<noteq> PInf" by blast
  with found p(1-3) show "\<exists>bg w d path d'. CreateWeighting (\<lambda>_. None) (car_lookup car_slots) (\<lambda>_. None) tcs na car_profile (\<lambda>_. None) False = Some w \<and>
    NewDijkstra (base_graph_iface bg) (custom_iface w bg) NodeBased = Some d \<and>
    dij_CalcPath (\<lambda>_. 0) 0 2 (SetMaxVisitedNodes MaxInt (SetTimeoutMillis MaxInt64 d)) = Some (path, d') \<and>
    Found path \<and> path_Weight path \<noteq> PInf" by blast
qed

text \<open>
  The default model of the car after the writes of the sample: an edge with speed 1 and access, and the largest speed
  and priority are no smaller.
\<close>

theorem custom_maxima_sound_witness:
  "\<exists>vs bg st cm p. buildCustomModel (\<lambda>_. None) car_profile ''car_average_speed'' (car_lookup vs) = Some cm \<and>
    CreateWeightingParameters cm (car_lookup vs) = Some p \<and>
    EdgeToSpeed p bg st False = Some (Fin 1) \<and> \<not> flt_less (MaxSpeed p) (Fin 1) \<and>
    EdgeToPriority p bg st False = Some (Fin 1) \<and> \<not> flt_less (MaxPriority p) (Fin 1)"
proof -
  obtain s0 vs and bg :: base_graph where O: "graph_ok s0 sample_lists" "allocation car_slots s0" "unwritten car_slots s0"
    "stored_writes (\<lambda>_. Fin 1) car_slots s0 vs (Store bg)" "writes_inv sample_lists car_slots s0 vs (Store bg)"
    "bytesForFlags s0 = 7" "edgeCount s0 = 3" "nodeCount s0 = nodeCount (Store metre_graph)"
    "\<forall>e \<in> {0, 1, 2}. edge_int (Store bg) e (eDist (Store bg)) = 1000"
    "\<And>e k r. e \<in> {0, 2} \<Longrightarrow> k < 2 \<Longrightarrow> ev_GetInt ne_access r e (Store bg) (car_slots ! k) = Some 1"
    by (rule open_graph) blast
  note G = open_graph_ok [OF O(2,5-9)]
  let ?d = "plain_decimal (vs ! 0) (Fin 1)"
  have len: "length vs = 2" and same: "k < 2 \<Longrightarrow> \<exists>m. vs ! k = (car_slots ! k)\<lparr>MaxValue := m\<rparr>" for k
    using O(5) car_slots(2) by (simp_all add: writes_inv_def)
  have "(2 :: rat) powi (- 1000) \<le> 1" "(1 :: rat) \<le> 2 powi 900" by (simp_all add: power_int_def power_le_one)
  then have u: "unsigned_decimal (car_slots ! 0) (Fin 1)"
    using car_slots(3,8) car_slots(4) [of 0] car_slots(6) [of 0] by (simp add: unsigned_decimal_def)
  have D: "stored_decimals (\<lambda>_. Fin 1) car_slots vs (car_lookup vs)"
    unfolding stored_decimals_def using u len by (auto simp: car_lookup_def split: if_splits intro!: exI [of _ 0])
  have known: "max_known ?d" unfolding max_known_def
    by (rule stored_decimal(2) [OF O(1-4) _ u refl]) (simp add: len)
  let ?cm = "\<lparr>DistanceInfluence = None, HeadingPenalty = None, Speed = [If' ''true'' OpLimit ''car_average_speed''],
    Priority = [If' ''!car_access'' OpMultiply ''0'']\<rparr>"
  have cm: "buildCustomModel (\<lambda>_. None) car_profile ''car_average_speed'' (car_lookup vs) = Some ?cm"
    by (simp add: buildCustomModel_def car_profile_def car_lookup_def SubnetworkKey_def VehicleAccessKey_def GetKey_def
        AddToSpeed_def AddToPriority_def NewCustomModel_def)
  have "VehicleSpeedKey (pr_Name car_profile) = ''car_average_speed''" by (simp add: VehicleSpeedKey_def GetKey_def car_profile_def)
  then obtain p where p: "CreateWeightingParameters ?cm (car_lookup vs) = Some p" "EdgeToSpeed p = capped_speed ?d"
    "EdgeToPriority p = open_priority (vs ! 1) None"
    using default_parameters [OF car_profile_values known, of "\<lambda>_. None" ?cm] cm by auto
  obtain a b where "walk (states_at bg sample_lists) 0 [a, b]" "walk_end 0 [a, b] = 2" and ab: "EdgeID a = 0" and "EdgeID b = 2"
    "edgePointer a = EdgeID a * edgeEntryBytes (Store bg)" "edgePointer b = EdgeID b * edgeEntryBytes (Store bg)"
    by (rule open_walk [OF G(1,4-6)]) blast
  have get: "ev_GetInt ne_access r 0 (Store bg) (vs ! k) = Some 1" if "k < 2" for k r
    using same [OF that] O(10) [of 0 k r] that by (auto simp: ev_GetInt_def cong: if_cong)
  have one: "f64_of_int 1 = Fin 1" "f64 1 = Fin 1" using i32_float [of 1] f64_small_int(1) by simp_all
  have ev: "EdgeToSpeed p bg a False = Some (Fin 1)" "EdgeToPriority p bg a False = Some (Fin 1)"
    using get [of 0] get [of 1] one ab
    by (simp_all add: p(2,3) capped_speed_def open_priority_def read_decimal_def read_bool_def es_GetDecimal_def es_GetBool_def
        GetDecimal_def GetBool_def go_min_def globalMaxSpeed_def)
  have "\<forall>c \<in> set ''car''. ident_char c \<and> ascii c" "car_lookup vs (VehicleSpeedKey ''car'') = Some (DecimalEV ?d)"
    by (auto simp: ident_char_def IsLetter_def ascii_def car_lookup_def VehicleSpeedKey_def GetKey_def)
  from speed_key(3) [of "''car''" "car_lookup vs", OF this] have "ParseFloat (TrimSpace ''car_average_speed'') = None" by (simp add: VehicleSpeedKey_def GetKey_def)
  then have n: "literals_nonneg (Speed ?cm)" "literals_nonneg (Priority ?cm)" using zero_value(1) by (auto simp: literals_nonneg_def If'_def)
  have v: "valid_edge (Store bg) (EdgeID a)" using G(3) by (simp add: valid_edge_def ab)
  from custom_maxima_sound [OF O(1-4) D n p(1) v, of False] ev
  have "\<not> flt_less (MaxSpeed p) (Fin 1)" "\<not> flt_less (MaxPriority p) (Fin 1)" by (auto simp: globalMaxSpeed_def)
  then show ?thesis using cm p(1) ev by blast
qed

end
