(* ===== verification/ContractionHeaps.thy ===== *)
theory ContractionHeaps imports GoFloat ContainerHeap begin

text \<open>
  The two binary heaps of the contraction, \<^verbatim>\<open>core/routing/ch/int_float_binary_heap.go\<close> and
  \<^verbatim>\<open>min_heap_with_update.go\<close>: arrays that start at index 1, with a sentinel key at index 0 that ends the loop
  that moves an element up. The loops are \<open>partial_function\<close>s because nothing else ends them.
\<close>

section \<open>IntFloatBinaryHeap\<close>

record float_heap =
  fh_size :: int
  elements :: "int list"
  fh_keys :: "flt list"

definition growFactor :: int where "growFactor = 2"

definition MaxFloat32 :: flt where "MaxFloat32 = Fin ((2 ^ 24 - 1) * 2 ^ 104)"

definition NewIntFloatBinaryHeap :: "int \<Rightarrow> float_heap option" where
  "NewIntFloatBinaryHeap initialCapacity = do {
     es \<leftarrow> go_make (initialCapacity + 1) 0;
     ks \<leftarrow> go_make (initialCapacity + 1) (Fin 0);
     ks \<leftarrow> put ks 0 (fneg MaxFloat32);
     Some \<lparr>fh_size = 0, elements = es, fh_keys = ks\<rparr> }"

definition fh_isFull :: "float_heap \<Rightarrow> bool" where
  "fh_isFull h \<longleftrightarrow> int (length (elements h)) = fh_size h + 1"

definition fh_IsEmpty :: "float_heap \<Rightarrow> bool" where "fh_IsEmpty h \<longleftrightarrow> fh_size h = 0"

partial_function (option) fh_up_loop :: "flt \<Rightarrow> int \<Rightarrow> float_heap \<Rightarrow> (int \<times> float_heap) option" where
  "fh_up_loop key hole h = do {
     pk \<leftarrow> idx (fh_keys h) (hole sdiv 2);
     if flt_less key pk then do {
       e \<leftarrow> idx (elements h) (hole sdiv 2);
       es \<leftarrow> put (elements h) hole e;
       ks \<leftarrow> put (fh_keys h) hole pk;
       fh_up_loop key (hole sdiv 2) (h\<lparr>elements := es, fh_keys := ks\<rparr>) }
     else Some (hole, h) }"

definition fill_hole :: "int \<Rightarrow> int \<Rightarrow> flt \<Rightarrow> float_heap \<Rightarrow> float_heap option" where
  "fill_hole hole element key h = do {
     es \<leftarrow> put (elements h) hole element;
     ks \<leftarrow> put (fh_keys h) hole key;
     Some (h\<lparr>elements := es, fh_keys := ks\<rparr>) }"

definition percolateUpMinHeap :: "int \<Rightarrow> float_heap \<Rightarrow> float_heap option" where
  "percolateUpMinHeap index h = do {
     element \<leftarrow> idx (elements h) index;
     key \<leftarrow> idx (fh_keys h) index;
     (hole, h) \<leftarrow> fh_up_loop key index h;
     fill_hole hole element key h }"

text \<open>The smaller child of a hole, which has at least one.\<close>

definition least_child :: "flt list \<Rightarrow> int \<Rightarrow> int \<Rightarrow> int option" where
  "least_child ks n hole =
     (let child = hole * 2 in
      if child \<noteq> n then do {
        a \<leftarrow> idx ks (child + 1);
        b \<leftarrow> idx ks child;
        Some (if flt_less a b then child + 1 else child) }
      else Some child)"

partial_function (option) fh_down_loop :: "flt \<Rightarrow> int \<Rightarrow> float_heap \<Rightarrow> (int \<times> float_heap) option" where
  "fh_down_loop key hole h =
     (if hole * 2 \<le> fh_size h then do {
        child \<leftarrow> least_child (fh_keys h) (fh_size h) hole;
        ck \<leftarrow> idx (fh_keys h) child;
        if flt_le key ck then Some (hole, h)
        else do {
          e \<leftarrow> idx (elements h) child;
          es \<leftarrow> put (elements h) hole e;
          ks \<leftarrow> put (fh_keys h) hole ck;
          fh_down_loop key child (h\<lparr>elements := es, fh_keys := ks\<rparr>) } }
      else Some (hole, h))"

definition percolateDownMinHeap :: "int \<Rightarrow> float_heap \<Rightarrow> float_heap option" where
  "percolateDownMinHeap index h = do {
     element \<leftarrow> idx (elements h) index;
     key \<leftarrow> idx (fh_keys h) index;
     (hole, h) \<leftarrow> fh_down_loop key index h;
     fill_hole hole element key h }"

definition ensureCapacity :: "int \<Rightarrow> float_heap \<Rightarrow> float_heap option" where
  "ensureCapacity capacity h = do {
     check (\<not> capacity < fh_size h);
     es \<leftarrow> go_make (capacity + 1) 0;
     ks \<leftarrow> go_make (capacity + 1) (Fin 0);
     Some (h\<lparr>elements := copy_into es 0 (elements h), fh_keys := copy_into ks 0 (fh_keys h)\<rparr>) }"

definition fh_Insert :: "flt \<Rightarrow> int \<Rightarrow> float_heap \<Rightarrow> float_heap option" where
  "fh_Insert key element h = do {
     h \<leftarrow> (if fh_isFull h then ensureCapacity (int (length (elements h)) * growFactor) h else Some h);
     let h = h\<lparr>fh_size := fh_size h + 1\<rparr>;
     h \<leftarrow> fill_hole (fh_size h) element (f32_of_f64 key) h;
     percolateUpMinHeap (fh_size h) h }"

fun find_element :: "int list \<Rightarrow> int \<Rightarrow> nat \<Rightarrow> int \<Rightarrow> int option" where
  "find_element es i 0 element = Some i"
| "find_element es i (Suc n) element = do {
     e \<leftarrow> idx es i;
     if e = element then Some i else find_element es (i + 1) n element }"

definition fh_Update :: "flt \<Rightarrow> int \<Rightarrow> float_heap \<Rightarrow> float_heap option" where
  "fh_Update key element h = do {
     i \<leftarrow> find_element (elements h) 1 (nat (fh_size h)) element;
     if i > fh_size h then Some h
     else do {
       let k = f32_of_f64 key;
       oldKey \<leftarrow> idx (fh_keys h) i;
       ks \<leftarrow> put (fh_keys h) i k;
       let h = h\<lparr>fh_keys := ks\<rparr>;
       if flt_less oldKey k then percolateDownMinHeap i h else percolateUpMinHeap i h } }"

definition fh_PeekElement :: "float_heap \<Rightarrow> int option" where
  "fh_PeekElement h = do { check (\<not> fh_IsEmpty h); idx (elements h) 1 }"

definition fh_PeekKey :: "float_heap \<Rightarrow> flt option" where
  "fh_PeekKey h = do { check (\<not> fh_IsEmpty h); idx (fh_keys h) 1 }"

definition fh_Poll :: "float_heap \<Rightarrow> (int \<times> float_heap) option" where
  "fh_Poll h = do {
     result \<leftarrow> fh_PeekElement h;
     e \<leftarrow> idx (elements h) (fh_size h);
     k \<leftarrow> idx (fh_keys h) (fh_size h);
     h \<leftarrow> fill_hole 1 e k h;
     let h = h\<lparr>fh_size := fh_size h - 1\<rparr>;
     h \<leftarrow> (if fh_size h \<noteq> 0 then percolateDownMinHeap 1 h else Some h);
     Some (result, h) }"

definition fh_Clear :: "float_heap \<Rightarrow> float_heap" where "fh_Clear h = h\<lparr>fh_size := 0\<rparr>"

definition fh_GetCapacity :: "float_heap \<Rightarrow> int" where "fh_GetCapacity h = int (length (elements h))"

definition fh_GetMemoryUsage :: "float_heap \<Rightarrow> int" where
  "fh_GetMemoryUsage h = int (length (elements h)) * 4 + int (length (fh_keys h)) * 4"

section \<open>MinHeapWithUpdate\<close>

record min_heap =
  tree :: "int list"
  positions :: "int list"
  mh_vals :: "flt list"
  maxElems :: int
  mh_size :: int

definition notPresent :: int where "notPresent = - 1"

definition NewMinHeapWithUpdate :: "int \<Rightarrow> min_heap option" where
  "NewMinHeapWithUpdate es = do {
     positions \<leftarrow> go_make (es + 1) notPresent;
     vals \<leftarrow> go_make (es + 1) (Fin 0);
     vals \<leftarrow> put vals 0 NInf;
     tree \<leftarrow> go_make (es + 1) 0;
     Some \<lparr>tree = tree, positions = positions, mh_vals = vals, maxElems = es, mh_size = 0\<rparr> }"

definition checkIdInRange :: "int \<Rightarrow> min_heap \<Rightarrow> unit option" where
  "checkIdInRange i h = check (\<not> (i < 0 \<or> i \<ge> maxElems h))"

definition mh_Contains :: "int \<Rightarrow> min_heap \<Rightarrow> bool option" where
  "mh_Contains i h = do { _ \<leftarrow> checkIdInRange i h; p \<leftarrow> idx (positions h) i; Some (p \<noteq> notPresent) }"

definition mh_IsEmpty :: "min_heap \<Rightarrow> bool" where "mh_IsEmpty h \<longleftrightarrow> mh_size h = 0"

text \<open>Moving the entry at \<open>from\<close> into the hole \<open>index\<close>, its position included.\<close>

definition mh_move :: "int \<Rightarrow> int \<Rightarrow> min_heap \<Rightarrow> min_heap option" where
  "mh_move index from' h = do {
     el \<leftarrow> idx (tree h) from';
     tree \<leftarrow> put (tree h) index el;
     v \<leftarrow> idx (mh_vals h) from';
     vals \<leftarrow> put (mh_vals h) index v;
     positions \<leftarrow> put (positions h) el index;
     Some (h\<lparr>tree := tree, mh_vals := vals, positions := positions\<rparr>) }"

definition mh_fill :: "int \<Rightarrow> int \<Rightarrow> flt \<Rightarrow> min_heap \<Rightarrow> min_heap option" where
  "mh_fill index el val h = do {
     tree \<leftarrow> put (tree h) index el;
     vals \<leftarrow> put (mh_vals h) index val;
     positions \<leftarrow> put (positions h) el index;
     Some (h\<lparr>tree := tree, mh_vals := vals, positions := positions\<rparr>) }"

partial_function (option) mh_up_loop :: "flt \<Rightarrow> int \<Rightarrow> min_heap \<Rightarrow> (int \<times> min_heap) option" where
  "mh_up_loop val index h = do {
     pv \<leftarrow> idx (mh_vals h) (drop_bit 1 index);
     if flt_less val pv then do {
       h \<leftarrow> mh_move index (drop_bit 1 index) h;
       mh_up_loop val (drop_bit 1 index) h }
     else Some (index, h) }"

definition percolateUp :: "int \<Rightarrow> min_heap \<Rightarrow> min_heap option" where
  "percolateUp index h =
     (if index = 1 then Some h
      else do {
        el \<leftarrow> idx (tree h) index;
        val \<leftarrow> idx (mh_vals h) index;
        (index, h) \<leftarrow> mh_up_loop val index h;
        mh_fill index el val h })"

partial_function (option) mh_down_loop :: "flt \<Rightarrow> int \<Rightarrow> min_heap \<Rightarrow> (int \<times> min_heap) option" where
  "mh_down_loop val index h =
     (if push_bit 1 index \<le> mh_size h then do {
        child \<leftarrow> least_child (mh_vals h) (mh_size h) index;
        cv \<leftarrow> idx (mh_vals h) child;
        if flt_le val cv then Some (index, h)
        else do { h \<leftarrow> mh_move index child h; mh_down_loop val child h } }
      else Some (index, h))"

definition percolateDown :: "int \<Rightarrow> min_heap \<Rightarrow> min_heap option" where
  "percolateDown index h =
     (if mh_size h = 0 then Some h
      else do {
        el \<leftarrow> idx (tree h) index;
        val \<leftarrow> idx (mh_vals h) index;
        (index, h) \<leftarrow> mh_down_loop val index h;
        mh_fill index el val h })"

definition mh_Push :: "int \<Rightarrow> flt \<Rightarrow> min_heap \<Rightarrow> min_heap option" where
  "mh_Push i value h = do {
     _ \<leftarrow> checkIdInRange i h;
     check (mh_size h \<noteq> maxElems h);
     c \<leftarrow> mh_Contains i h;
     check (\<not> c);
     let h = h\<lparr>mh_size := mh_size h + 1\<rparr>;
     h \<leftarrow> mh_fill (mh_size h) i value h;
     percolateUp (mh_size h) h }"

definition mh_Update :: "int \<Rightarrow> flt \<Rightarrow> min_heap \<Rightarrow> min_heap option" where
  "mh_Update i value h = do {
     _ \<leftarrow> checkIdInRange i h;
     index \<leftarrow> idx (positions h) i;
     check (\<not> index < 0);
     prev \<leftarrow> idx (mh_vals h) index;
     vals \<leftarrow> put (mh_vals h) index value;
     let h = h\<lparr>mh_vals := vals\<rparr>;
     if flt_less prev value then percolateDown index h
     else if flt_less value prev then percolateUp index h else Some h }"

definition mh_PeekId :: "min_heap \<Rightarrow> int option" where "mh_PeekId h = idx (tree h) 1"
definition mh_PeekValue :: "min_heap \<Rightarrow> flt option" where "mh_PeekValue h = idx (mh_vals h) 1"

definition mh_Poll :: "min_heap \<Rightarrow> (int \<times> min_heap) option" where
  "mh_Poll h = do {
     i \<leftarrow> mh_PeekId h;
     el \<leftarrow> idx (tree h) (mh_size h);
     tree \<leftarrow> put (tree h) 1 el;
     v \<leftarrow> idx (mh_vals h) (mh_size h);
     vals \<leftarrow> put (mh_vals h) 1 v;
     positions \<leftarrow> put (positions h) el 1;
     positions \<leftarrow> put positions i notPresent;
     let h = h\<lparr>tree := tree, mh_vals := vals, positions := positions, mh_size := mh_size h - 1\<rparr>;
     h \<leftarrow> (if mh_size h > 0 then percolateDown 1 h else Some h);
     Some (i, h) }"

fun clear_positions :: "int list \<Rightarrow> int \<Rightarrow> nat \<Rightarrow> int list \<Rightarrow> int list option" where
  "clear_positions tr i 0 ps = Some ps"
| "clear_positions tr i (Suc n) ps = do {
     el \<leftarrow> idx tr i;
     ps \<leftarrow> put ps el notPresent;
     clear_positions tr (i + 1) n ps }"

definition mh_Clear :: "min_heap \<Rightarrow> min_heap option" where
  "mh_Clear h = do {
     ps \<leftarrow> clear_positions (tree h) 1 (nat (mh_size h)) (positions h);
     Some (h\<lparr>positions := ps, mh_size := 0\<rparr>) }"

end
