(* ===== verification/ContractionQueues.thy ===== *)
theory ContractionQueues imports ContractionHeaps begin

text \<open>
  The heaps of the contraction against the heap of \<open>container/heap\<close>: moving a hole through arrays with a
  sentinel does what swapping entries does, so both heaps are priority queues.
\<close>

section \<open>The entries of a heap\<close>

definition key_less :: "flt \<times> int \<Rightarrow> flt \<times> int \<Rightarrow> bool" where
  "key_less x y \<longleftrightarrow> flt_less (fst x) (fst y)"

definition heap_list :: "int list \<Rightarrow> flt list \<Rightarrow> nat \<Rightarrow> (flt \<times> int) list" where
  "heap_list es ks n = map (\<lambda>i. (ks ! Suc i, es ! Suc i)) [0..<n]"

lemma length_heap_list [simp]: "length (heap_list es ks n) = n"
  by (simp add: heap_list_def)

lemma nth_heap_list [simp]: "i < n \<Longrightarrow> heap_list es ks n ! i = (ks ! Suc i, es ! Suc i)"
  by (simp add: heap_list_def)

interpretation keyed: weak_order key_less "\<lambda>x. fst x \<noteq> NaN"
proof
  fix a b c :: "flt \<times> int"
  assume "fst a \<noteq> NaN" "fst b \<noteq> NaN"
  then show "key_less a b \<Longrightarrow> \<not> key_less b a" using flt_not_less by (auto simp: key_less_def flt_less_iff)
  assume "fst c \<noteq> NaN" "\<not> key_less b a" "\<not> key_less c b"
  then show "\<not> key_less c a" using \<open>fst a \<noteq> NaN\<close> \<open>fst b \<noteq> NaN\<close> flt_le_trans
    by (auto simp: key_less_def flt_not_less)
qed

section \<open>Moving a hole up\<close>

lemma heap_list_fill:
  assumes "1 \<le> i" "i \<le> n" "n < length es" "n < length ks" "k < n"
  shows "heap_list (es[i := e]) (ks[i := key]) n ! k = (if k = i - 1 then (key, e) else (ks ! Suc k, es ! Suc k))"
  using assms by (auto simp: nth_list_update)

lemma swap_is_move:
  assumes "1 \<le> i" "i \<le> n" "1 \<le> j" "j \<le> n" "i \<noteq> j" "n < length es" "n < length ks"
  shows "heap_Swap (j - 1) (i - 1) (heap_list (es[i := e]) (ks[i := key]) n) =
    heap_list (es[i := es ! j, j := e]) (ks[i := ks ! j, j := key]) n"
  using assms by (intro nth_equalityI) (auto simp: nth_heap_Swap nth_list_update)

definition arrays_ok :: "nat \<Rightarrow> int list \<Rightarrow> flt list \<Rightarrow> bool" where
  "arrays_ok n es ks \<longleftrightarrow> n < length es \<and> n < length ks"

lemma half: "int i sdiv 2 = int (i div 2)"
  by (cases i) (simp_all add: signed_divide_int_def zdiv_int)

lemma up_loop_heap:
  "1 \<le> i \<Longrightarrow> i \<le> n \<Longrightarrow> arrays_ok n (elements h) (fh_keys h) \<Longrightarrow> \<not> flt_less key (fh_keys h ! 0) \<Longrightarrow>
    \<exists>j h'. fh_up_loop key (int i) h = Some (int j, h') \<and> 1 \<le> j \<and> j \<le> i \<and> fh_size h' = fh_size h \<and>
      length (elements h') = length (elements h) \<and> length (fh_keys h') = length (fh_keys h) \<and> fh_keys h' ! 0 = fh_keys h ! 0 \<and>
      heap_list ((elements h')[j := e]) ((fh_keys h')[j := key]) n =
        heap_up key_less (i - 1) (heap_list ((elements h)[i := e]) ((fh_keys h)[i := key]) n)"
proof (induction i arbitrary: h rule: less_induct)
  case (less i)
  let ?p = "i div 2" and ?l = "heap_list ((elements h)[i := e]) ((fh_keys h)[i := key]) n"
  have len: "n < length (elements h)" "n < length (fh_keys h)" using less.prems(3) by (simp_all add: arrays_ok_def)
  have p: "?p < i" "idx (fh_keys h) (int i sdiv 2) = Some (fh_keys h ! ?p)" using less.prems len by (auto simp: half)
  have par: "heap_parent (i - 1) = ?p - 1" by (auto simp: heap_parent_def)
  show ?case
  proof (cases "flt_less key (fh_keys h ! ?p)")
    case False
    have "heap_parent (i - 1) = i - 1 \<or> \<not> key_less (?l ! (i - 1)) (?l ! heap_parent (i - 1))"
    proof (cases "?p = 0")
      case True
      then show ?thesis by (simp add: par)
    next
      case p0: False
      then have "?l ! (i - 1) = (key, e)" "fst (?l ! (?p - 1)) = fh_keys h ! ?p"
        using less.prems p len by (subst heap_list_fill; auto)+
      then show ?thesis using False par by (simp add: key_less_def)
    qed
    then have "heap_up key_less (i - 1) ?l = ?l" by (subst heap_up.simps) simp
    then show ?thesis using less.prems False p by (subst fh_up_loop.simps) auto
  next
    case True
    then have p0: "1 \<le> ?p" using less.prems(4) by (cases "?p = 0") (auto simp: not_less_eq_eq)
    let ?h = "h\<lparr>elements := (elements h)[i := elements h ! ?p], fh_keys := (fh_keys h)[i := fh_keys h ! ?p]\<rparr>"
    have step: "fh_up_loop key (int i) h = fh_up_loop key (int ?p) ?h"
      using True p less.prems len by (subst fh_up_loop.simps) (auto simp: half)
    have g: "?l ! (i - 1) = (key, e)" "fst (?l ! (?p - 1)) = fh_keys h ! ?p"
      using less.prems p p0 len by (subst heap_list_fill; auto)+
    have "heap_up key_less (i - 1) ?l = heap_up key_less (?p - 1) (heap_Swap (?p - 1) (i - 1) ?l)"
      using True g p p0 par by (subst heap_up.simps) (simp add: key_less_def, linarith?)
    moreover have "heap_Swap (?p - 1) (i - 1) ?l = heap_list ((elements ?h)[?p := e]) ((fh_keys ?h)[?p := key]) n"
      using swap_is_move [of i n ?p] less.prems p p0 len by simp
    ultimately show ?thesis
      using less.IH [OF p(1) p0, of ?h] less.prems p p0 len step by (fastforce simp: arrays_ok_def)
  qed
qed

section \<open>Moving a hole down\<close>

lemma least_child_heap:
  assumes "1 \<le> i" "2 * i \<le> n" "n < length es" "n < length ks"
  shows "least_child ks (int n) (int i) = Some (int (Suc (heap_child key_less (i - 1) n (heap_list (es[i := e]) (ks[i := key]) n))))"
proof -
  let ?l = "heap_list (es[i := e]) (ks[i := key]) n"
  have j: "2 * (i - 1) + 1 = 2 * i - 1" "2 * i - 1 + 1 = 2 * i" "int i * 2 = int (2 * i)" "int (2 * i) + 1 = int (2 * i + 1)"
    using assms(1) by auto
  have a: "fst (?l ! (2 * i - 1)) = ks ! (2 * i)" using assms by (subst heap_list_fill) auto
  have b: "fst (?l ! (2 * i)) = ks ! (2 * i + 1)" if "2 * i < n" using assms that by (subst heap_list_fill) auto
  have x: "Suc (2 * i - 1) = 2 * i" "(int (2 * i) \<noteq> int n) = (2 * i < n)"
    using assms(1,2) by auto
  have y: "idx ks (int (2 * i)) = Some (ks ! (2 * i))" "2 * i < n \<Longrightarrow> idx ks (int (2 * i + 1)) = Some (ks ! (2 * i + 1))"
    using assms(2,4) unfolding idx_int by auto
  show ?thesis
    unfolding least_child_def heap_child_def Let_def j x
    using a b y x(1) by (cases "2 * i < n") (simp_all add: key_less_def del: of_nat_Suc of_nat_mult of_nat_add idx_int)
qed

lemma down_loop_heap:
  "1 \<le> i \<Longrightarrow> i \<le> n \<Longrightarrow> fh_size h = int n \<Longrightarrow> arrays_ok n (elements h) (fh_keys h) \<Longrightarrow> key \<noteq> NaN \<Longrightarrow>
    \<forall>k. 1 \<le> k \<and> k \<le> n \<and> k \<noteq> i \<longrightarrow> fh_keys h ! k \<noteq> NaN \<Longrightarrow>
    \<exists>j h'. fh_down_loop key (int i) h = Some (int j, h') \<and> 1 \<le> j \<and> j \<le> n \<and> fh_size h' = fh_size h \<and>
      length (elements h') = length (elements h) \<and> length (fh_keys h') = length (fh_keys h) \<and> fh_keys h' ! 0 = fh_keys h ! 0 \<and>
      heap_list ((elements h')[j := e]) ((fh_keys h')[j := key]) n =
        heap_down key_less (i - 1) n (heap_list ((elements h)[i := e]) ((fh_keys h)[i := key]) n)"
proof (induction "n - i" arbitrary: i h rule: less_induct)
  case (less i h)
  let ?l = "heap_list ((elements h)[i := e]) ((fh_keys h)[i := key]) n"
  have len: "n < length (elements h)" "n < length (fh_keys h)" using less.prems(4) by (simp_all add: arrays_ok_def)
  have b: "2 * (i - 1) + 1 \<ge> n \<longleftrightarrow> \<not> 2 * i \<le> n" using less.prems(1) by auto
  show ?case
  proof (cases "2 * i \<le> n")
    case False
    then have "heap_down key_less (i - 1) n ?l = ?l" using b by (subst heap_down.simps) simp
    moreover have "\<not> int i * 2 \<le> int n" using False by linarith
    ultimately show ?thesis using less.prems(1-4) by (subst fh_down_loop.simps) auto
  next
    case True
    define c where "c = Suc (heap_child key_less (i - 1) n ?l)"
    have lc: "least_child (fh_keys h) (int n) (int i) = Some (int c)"
      using least_child_heap [OF less.prems(1) True len] by (simp add: c_def)
    have hc: "heap_child key_less (i - 1) n ?l = c - 1" by (simp add: c_def)
    have "i - 1 < heap_child key_less (i - 1) n ?l" by (rule heap_child_gt)
    then have c: "i < c" unfolding c_def by linarith
    have c2: "c \<le> n" using heap_child_less [of "i - 1" n key_less ?l] True b unfolding c_def by linarith
    note c = c c2
    have g: "?l ! (i - 1) = (key, e)" "fst (?l ! (c - 1)) = fh_keys h ! c"
      using less.prems c len by (subst heap_list_fill; auto)+
    have le: "flt_le key (fh_keys h ! c) \<longleftrightarrow> \<not> key_less (?l ! (c - 1)) (?l ! (i - 1))"
      using less.prems(5,6) c g by (simp add: key_less_def flt_not_less)
    have i2: "int i * 2 \<le> int n" using True by linarith
    show ?thesis
    proof (cases "flt_le key (fh_keys h ! c)")
      case stop: True
      have "heap_down key_less (i - 1) n ?l = ?l" using stop le b True hc by (subst heap_down.simps) simp
      moreover have "fh_down_loop key (int i) h = Some (int i, h)"
        using stop i2 lc c len less.prems(3) by (subst fh_down_loop.simps) simp
      ultimately show ?thesis using less.prems(1,2) by auto
    next
      case go: False
      let ?h = "h\<lparr>elements := (elements h)[i := elements h ! c], fh_keys := (fh_keys h)[i := fh_keys h ! c]\<rparr>"
      have step: "fh_down_loop key (int i) h = fh_down_loop key (int c) ?h"
        using go i2 lc c len less.prems(3) by (subst fh_down_loop.simps) simp
      have "heap_down key_less (i - 1) n ?l = heap_down key_less (c - 1) n (heap_Swap (i - 1) (c - 1) ?l)"
        using go le b True hc by (subst heap_down.simps) simp
      moreover have "heap_Swap (i - 1) (c - 1) ?l = heap_Swap (c - 1) (i - 1) ?l"
        unfolding heap_Swap_def by (rule list_update_swap) (use less.prems(1) c in linarith)
      moreover have "heap_Swap (c - 1) (i - 1) ?l = heap_list ((elements ?h)[c := e]) ((fh_keys ?h)[c := key]) n"
        using swap_is_move [of i n c] less.prems(1) c len by simp
      moreover have "\<forall>k. 1 \<le> k \<and> k \<le> n \<and> k \<noteq> c \<longrightarrow> fh_keys ?h ! k \<noteq> NaN"
        using less.prems(1,2,6) c len by (auto simp: nth_list_update)
      ultimately show ?thesis
        using less.hyps [of c ?h] less.prems c len step by (fastforce simp: arrays_ok_def)
    qed
  qed
qed

section \<open>The heap of the code is a heap\<close>

definition fh_entries :: "float_heap \<Rightarrow> (flt \<times> int) list" where
  "fh_entries h = heap_list (elements h) (fh_keys h) (nat (fh_size h))"

definition fh_wf :: "flt \<Rightarrow> float_heap \<Rightarrow> bool" where
  "fh_wf b h \<longleftrightarrow> 0 \<le> fh_size h \<and> arrays_ok (nat (fh_size h)) (elements h) (fh_keys h) \<and> length (fh_keys h) = length (elements h) \<and>
     fh_keys h ! 0 = b"

text \<open>A key that the sentinel stops.\<close>

definition key_ok :: "flt \<Rightarrow> flt \<Rightarrow> bool" where "key_ok b k \<longleftrightarrow> flt_le b k"

definition fh_inv :: "flt \<Rightarrow> float_heap \<Rightarrow> bool" where
  "fh_inv b h \<longleftrightarrow> fh_wf b h \<and> (\<forall>x \<in> set (fh_entries h). key_ok b (fst x)) \<and> is_heap key_less (length (fh_entries h)) (fh_entries h)"

lemma key_okD: "key_ok b k \<Longrightarrow> k \<noteq> NaN" "key_ok b k \<Longrightarrow> \<not> flt_less k b"
  by (auto simp: key_ok_def flt_less_iff)

lemma percolateUp_heap:
  assumes "fh_wf b h" "1 \<le> i" "i \<le> nat (fh_size h)" "key_ok b (fst (fh_entries h ! (i - 1)))"
  shows "\<exists>h'. percolateUpMinHeap (int i) h = Some h' \<and> fh_wf b h' \<and> fh_size h' = fh_size h \<and>
    fh_entries h' = heap_up key_less (i - 1) (fh_entries h) \<and> length (elements h') = length (elements h)"
proof -
  define n where "n = nat (fh_size h)"
  have len: "n < length (elements h)" "n < length (fh_keys h)" using assms(1) by (simp_all add: fh_wf_def arrays_ok_def n_def)
  have i: "i \<le> n" using assms(3) by (simp add: n_def)
  have e: "fh_entries h ! (i - 1) = (fh_keys h ! i, elements h ! i)" using assms(2) i by (simp add: fh_entries_def n_def)
  obtain j h' where j: "fh_up_loop (fh_keys h ! i) (int i) h = Some (int j, h')" "1 \<le> j" "j \<le> i" "fh_size h' = fh_size h"
    "length (elements h') = length (elements h)" "length (fh_keys h') = length (fh_keys h)" "fh_keys h' ! 0 = fh_keys h ! 0"
    "heap_list ((elements h')[j := elements h ! i]) ((fh_keys h')[j := fh_keys h ! i]) n =
      heap_up key_less (i - 1) (heap_list ((elements h)[i := elements h ! i]) ((fh_keys h)[i := fh_keys h ! i]) n)"
    using up_loop_heap [of i n h "fh_keys h ! i" "elements h ! i"] assms(1,2,4) i len e key_okD(2)
    by (auto simp: fh_wf_def arrays_ok_def)
  show ?thesis using j assms(1) i len
    by (auto simp: percolateUpMinHeap_def fill_hole_def fh_entries_def n_def [symmetric] fh_wf_def arrays_ok_def)
qed

lemma percolateDown_heap:
  assumes "fh_wf b h" "1 \<le> i" "i \<le> nat (fh_size h)" "\<forall>x \<in> set (fh_entries h). key_ok b (fst x)"
  shows "\<exists>h'. percolateDownMinHeap (int i) h = Some h' \<and> fh_wf b h' \<and> fh_size h' = fh_size h \<and>
    fh_entries h' = heap_down key_less (i - 1) (length (fh_entries h)) (fh_entries h) \<and>
    length (elements h') = length (elements h)"
proof -
  define n where "n = nat (fh_size h)"
  have len: "n < length (elements h)" "n < length (fh_keys h)" using assms(1) by (simp_all add: fh_wf_def arrays_ok_def n_def)
  have i: "i \<le> n" using assms(3) by (simp add: n_def)
  have e: "fh_keys h ! k \<noteq> NaN" if "1 \<le> k" "k \<le> n" for k
  proof -
    have "fh_entries h ! (k - 1) \<in> set (fh_entries h)" using that by (intro nth_mem) (simp add: fh_entries_def n_def)
    then show ?thesis using assms(4) key_okD(1) that by (fastforce simp: fh_entries_def n_def [symmetric])
  qed
  have "\<exists>j h'. fh_down_loop (fh_keys h ! i) (int i) h = Some (int j, h') \<and> 1 \<le> j \<and> j \<le> n \<and> fh_size h' = fh_size h \<and>
      length (elements h') = length (elements h) \<and> length (fh_keys h') = length (fh_keys h) \<and> fh_keys h' ! 0 = fh_keys h ! 0 \<and>
      heap_list ((elements h')[j := elements h ! i]) ((fh_keys h')[j := fh_keys h ! i]) n =
        heap_down key_less (i - 1) n (heap_list ((elements h)[i := elements h ! i]) ((fh_keys h)[i := fh_keys h ! i]) n)"
    by (rule down_loop_heap) (use assms(1,2) i e in \<open>auto simp: fh_wf_def n_def\<close>)
  then obtain j h' where j: "fh_down_loop (fh_keys h ! i) (int i) h = Some (int j, h')" "1 \<le> j" "j \<le> n" "fh_size h' = fh_size h"
    "length (elements h') = length (elements h)" "length (fh_keys h') = length (fh_keys h)" "fh_keys h' ! 0 = fh_keys h ! 0"
    "heap_list ((elements h')[j := elements h ! i]) ((fh_keys h')[j := fh_keys h ! i]) n =
      heap_down key_less (i - 1) n (heap_list ((elements h)[i := elements h ! i]) ((fh_keys h)[i := fh_keys h ! i]) n)"
    by blast
  show ?thesis using j assms(1) i len
    by (auto simp: percolateDownMinHeap_def fill_hole_def fh_entries_def n_def [symmetric] fh_wf_def arrays_ok_def)
qed

text \<open>The arrays keep their lengths.\<close>

lemma up_loop_length:
  "fh_up_loop key i h = Some (j, h') \<Longrightarrow> length (elements h') = length (elements h)"
proof (induction key i h "(j, h')" rule: fh_up_loop.raw_induct [rotated, consumes 1])
  case (1 loop key i h)
  then show ?case by (auto simp: put_def split: Option.bind_splits if_splits)
qed

lemma down_loop_length:
  "fh_down_loop key i h = Some (j, h') \<Longrightarrow> length (elements h') = length (elements h)"
proof (induction key i h "(j, h')" rule: fh_down_loop.raw_induct [rotated, consumes 1])
  case (1 loop key i h)
  then show ?case by (auto simp: put_def split: Option.bind_splits if_splits)
qed

lemma percolateUp_length: "percolateUpMinHeap i h = Some h' \<Longrightarrow> length (elements h') = length (elements h)"
  using up_loop_length by (fastforce simp: percolateUpMinHeap_def fill_hole_def put_def split: Option.bind_splits if_splits)

lemma percolateDown_length: "percolateDownMinHeap i h = Some h' \<Longrightarrow> length (elements h') = length (elements h)"
  using down_loop_length by (fastforce simp: percolateDownMinHeap_def fill_hole_def put_def split: Option.bind_splits if_splits)

section \<open>Replacing an entry\<close>

context weak_order
begin

lemma replace_up:
  assumes "is_heap lt (length h) h" "i < length h" "\<forall>y \<in> set h. ok y" "ok x" "\<not> lt (h ! i) x"
  shows "heap_but_up lt i (h[i := x])"
  unfolding heap_but_up_def
proof (intro conjI allI impI; elim conjE)
  have ok: "k < length h \<Longrightarrow> ok (h ! k)" for k using assms(3) by simp
  have old: "\<not> lt (h ! k) (h ! heap_parent k)" if "0 < k" "k < length h" for k
    using assms(1) that by (simp add: is_heap_def)
  {
    fix k assume k: "0 < k" "k < length (h[i := x])" "k \<noteq> i"
    then have p: "heap_parent k < length h" using heap_parent_less [of k] by simp
    show "\<not> lt (h[i := x] ! k) (h[i := x] ! heap_parent k)"
    proof (cases "heap_parent k = i")
      case True
      have "\<not> lt (h ! k) x"
        by (rule trans [OF assms(4) ok ok assms(5)]) (use old [of k] k p assms(2) True in auto)
      then show ?thesis using True k assms(2) by simp
    qed (use old [of k] k in simp)
  next
    fix k assume k: "0 < k" "k < length (h[i := x])" "heap_parent k = i" "0 < i"
    have pi: "heap_parent i < i" by (rule heap_parent_less [OF k(4)])
    have ki: "i < k" using heap_parent_less [OF k(1)] k(3) by simp
    have "\<not> lt (h ! k) (h ! heap_parent i)"
      by (rule trans [OF ok ok ok old [OF k(4) assms(2)]]) (use old [of k] k pi assms(2) in auto)
    then show "\<not> lt (h[i := x] ! k) (h[i := x] ! heap_parent i)" using pi ki by simp
  }
qed

lemma replace_down:
  assumes "is_heap lt (length h) h" "i < length h" "\<forall>y \<in> set h. ok y" "ok x" "\<not> lt x (h ! i)"
  shows "heap_but_down lt i (length h) (h[i := x])"
  unfolding heap_but_down_def
proof (intro conjI allI impI; elim conjE)
  have ok: "k < length h \<Longrightarrow> ok (h ! k)" for k using assms(3) by simp
  have old: "\<not> lt (h ! k) (h ! heap_parent k)" if "0 < k" "k < length h" for k
    using assms(1) that by (simp add: is_heap_def)
  {
    fix k assume k: "0 < k" "k < length h" "heap_parent k \<noteq> i"
    then have p: "heap_parent k < length h" using heap_parent_less [of k] by simp
    show "\<not> lt (h[i := x] ! k) (h[i := x] ! heap_parent k)"
    proof (cases "k = i")
      case True
      have "\<not> lt x (h ! heap_parent k)"
        by (rule trans [OF ok ok assms(4) old [OF k(1,2)]]) (use p k True assms(5) in auto)
      then show ?thesis using True k by simp
    qed (use old [of k] k in simp)
  next
    fix k assume k: "0 < k" "k < length h" "heap_parent k = i" "0 < i"
    have pi: "heap_parent i < i" by (rule heap_parent_less [OF k(4)])
    have ki: "i < k" using heap_parent_less [OF k(1)] k(3) by simp
    have "\<not> lt (h ! k) (h ! heap_parent i)"
      by (rule trans [OF ok ok ok old [OF k(4) assms(2)]]) (use old [of k] k pi assms(2) in auto)
    then show "\<not> lt (h[i := x] ! k) (h[i := x] ! heap_parent i)" using pi ki by simp
  }
qed

end

lemma take_heap_down:
  "m \<le> length h \<Longrightarrow> take m (heap_down lt i m h) = heap_down lt i m (take m h)"
proof (induction lt i m h rule: heap_down.induct)
  case (1 lt i m h)
  have c: "heap_child lt i m (take m h) = heap_child lt i m h" if "2 * i + 1 < m" using that by (auto simp: heap_child_def Let_def)
  show ?case
  proof (cases "2 * i + 1 \<ge> m")
    case True
    then show ?thesis by (simp add: heap_down.simps [of lt i m])
  next
    case False
    let ?c = "heap_child lt i m h"
    have l: "?c < m" "i < m" using heap_child_less [of i m lt h] False by simp_all
    have s: "take m (heap_Swap i ?c h) = heap_Swap i ?c (take m h)" using l by (simp add: heap_Swap_def take_update_swap)
    show ?thesis using False 1 c l s by (simp add: heap_down.simps [of lt i m h] heap_down.simps [of lt i m "take m h"])
  qed
qed

section \<open>Operations of IntFloatBinaryHeap\<close>

lemma fh_invD:
  assumes "fh_inv b h"
  shows "fh_wf b h" "\<forall>x \<in> set (fh_entries h). key_ok b (fst x)" "\<forall>x \<in> set (fh_entries h). fst x \<noteq> NaN"
    "is_heap key_less (length (fh_entries h)) (fh_entries h)" "int (length (fh_entries h)) = fh_size h"
  using assms key_okD(1) by (auto simp: fh_inv_def fh_wf_def fh_entries_def)

lemma fh_NewD:
  assumes "NewIntFloatBinaryHeap n = Some h"
  shows "fh_inv (fneg MaxFloat32) h \<and> fh_entries h = []"
  using assms
  by (auto simp: NewIntFloatBinaryHeap_def go_make_def fh_inv_def fh_wf_def fh_entries_def heap_list_def arrays_ok_def is_heap_def
      put_def split: if_splits)

lemma copy_into_front: "k < length xs \<Longrightarrow> k < length ys \<Longrightarrow> copy_into ys 0 xs ! k = xs ! k"
  using nth_copy_into [of k ys 0 xs] by simp

lemma room_for_one:
  assumes "fh_wf b h"
  shows "\<exists>h'. (if fh_isFull h then ensureCapacity (int (length (elements h)) * growFactor) h else Some h) = Some h' \<and>
    fh_wf b h' \<and> fh_size h' = fh_size h \<and> fh_entries h' = fh_entries h \<and> nat (fh_size h) + 1 < length (elements h')"
proof (cases "fh_isFull h")
  case False
  then show ?thesis using assms by (auto simp: fh_isFull_def fh_wf_def arrays_ok_def)
next
  case True
  let ?l = "length (elements h)"
  have l: "0 < ?l" "nat (fh_size h) < ?l" "length (fh_keys h) = ?l" using assms by (auto simp: fh_wf_def arrays_ok_def)
  let ?h = "h\<lparr>elements := copy_into (replicate (nat (int ?l * 2 + 1)) 0) 0 (elements h),
    fh_keys := copy_into (replicate (nat (int ?l * 2 + 1)) (Fin 0)) 0 (fh_keys h)\<rparr>"
  have e: "ensureCapacity (int ?l * growFactor) h = Some ?h"
    using assms l by (simp add: ensureCapacity_def growFactor_def go_make_def fh_wf_def)
  have "fh_entries ?h = fh_entries h"
    using l by (intro nth_equalityI) (auto simp: fh_entries_def copy_into_front)
  then show ?thesis using True e assms l by (auto simp: fh_wf_def arrays_ok_def copy_into_front)
qed

lemma fh_Insert_ok:
  assumes "fh_inv b h" "key_ok b (f32_of_f64 key)"
  shows "\<exists>h'. fh_Insert key e h = Some h' \<and> fh_inv b h' \<and> mset (fh_entries h') = add_mset (f32_of_f64 key, e) (mset (fh_entries h))"
proof -
  note I = fh_invD [OF assms(1)]
  obtain h1 where h1: "(if fh_isFull h then ensureCapacity (int (length (elements h)) * growFactor) h else Some h) = Some h1"
    "fh_wf b h1" "fh_size h1 = fh_size h" "fh_entries h1 = fh_entries h" "nat (fh_size h) + 1 < length (elements h1)"
    using room_for_one [OF I(1)] by blast
  define n where "n = nat (fh_size h)"
  have sz: "fh_size h = int n" "length (fh_entries h) = n" using I(1,5) by (auto simp: n_def fh_wf_def)
  have len: "n + 1 < length (elements h1)" "length (fh_keys h1) = length (elements h1)" using h1 by (auto simp: n_def fh_wf_def)
  let ?x = "(f32_of_f64 key, e)"
  let ?h = "h1\<lparr>fh_size := int (n + 1), elements := (elements h1)[n + 1 := e], fh_keys := (fh_keys h1)[n + 1 := f32_of_f64 key]\<rparr>"
  have f: "fill_hole (int (n + 1)) e (f32_of_f64 key) (h1\<lparr>fh_size := int (n + 1)\<rparr>) = Some ?h"
    using len unfolding fill_hole_def by (simp del: of_nat_Suc of_nat_add)
  have en: "fh_entries ?h = fh_entries h @ [?x]"
    unfolding h1(4) [symmetric] using len h1(3) sz
    by (intro nth_equalityI) (auto simp: fh_entries_def nth_append nth_list_update)
  have wf: "fh_wf b ?h" using h1(2) len by (auto simp: fh_wf_def arrays_ok_def)
  have "\<exists>h'. percolateUpMinHeap (int (n + 1)) ?h = Some h' \<and> fh_wf b h' \<and> fh_size h' = fh_size ?h \<and>
      fh_entries h' = heap_up key_less (n + 1 - 1) (fh_entries ?h) \<and> length (elements h') = length (elements ?h)"
    by (rule percolateUp_heap [OF wf]) (use en sz assms(2) in \<open>simp_all add: nth_append\<close>)
  then obtain h' where h': "percolateUpMinHeap (int (n + 1)) ?h = Some h'" "fh_wf b h'" "fh_entries h' = heap_Push key_less ?x (fh_entries h)"
    using en sz(2) by (auto simp: heap_Push_def)
  have ins: "fh_Insert key e h = Some h'"
    using h1(1,3) f h'(1) sz(1) by (simp add: fh_Insert_def Let_def algebra_simps)
  have m: "mset (fh_entries h') = add_mset ?x (mset (fh_entries h))" by (simp add: h'(3))
  have "set (fh_entries h') = insert ?x (set (fh_entries h))" using m by (metis set_mset_mset set_mset_add_mset_insert)
  moreover have "is_heap key_less (length (fh_entries h')) (fh_entries h')"
    unfolding h'(3) by (rule keyed.Push_heap [OF I(4,3)]) (use assms(2) key_okD(1) in auto)
  ultimately have "fh_inv b h'" using h'(2) I(2) assms(2) by (simp add: fh_inv_def)
  then show ?thesis using ins m by blast
qed

lemma take_swap_last:
  "l \<noteq> [] \<Longrightarrow> take (length l - 1) (heap_Swap 0 (length l - 1) l) = take (length l - 1) (l[0 := last l])"
  by (intro nth_equalityI) (auto simp: heap_Swap_def last_conv_nth nth_list_update)

lemma fh_Poll_ok:
  assumes "fh_inv b h" "fh_entries h \<noteq> []"
  shows "\<exists>k e h'. fh_Poll h = Some (e, h') \<and> fh_PeekKey h = Some k \<and> fh_inv b h' \<and>
    mset (fh_entries h) = add_mset (k, e) (mset (fh_entries h')) \<and> (\<forall>x \<in> set (fh_entries h). flt_le k (fst x))"
proof -
  note I = fh_invD [OF assms(1)]
  define n where "n = nat (fh_size h)"
  have "0 < length (fh_entries h)" using assms(2) by simp
  then have "0 < fh_size h" using I(5) by linarith
  then have sz: "fh_size h = int n" "length (fh_entries h) = n" "0 < n" using I(5) unfolding n_def by linarith+
  have len: "n < length (elements h)" "length (fh_keys h) = length (elements h)" "fh_keys h ! 0 = b"
    using I(1) by (auto simp: n_def fh_wf_def arrays_ok_def)
  let ?l = "fh_entries h"
  obtain x l' where pop: "heap_Pop key_less ?l = Some (x, l')" "mset ?l = add_mset x (mset l')"
    "\<forall>y \<in> set ?l. \<not> key_less y x" "is_heap key_less (length l') l'"
    using keyed.Pop_heap [OF I(4,3) assms(2)] by blast
  have root: "x = ?l ! 0" "l' = take (n - 1) (heap_down key_less 0 (n - 1) (heap_Swap 0 (n - 1) ?l))"
    using pop(1) heap_Pop_root [OF assms(2), of key_less] sz assms(2) by (auto simp: heap_Pop_def Let_def)
  have l': "l' = heap_down key_less 0 (n - 1) (take (n - 1) (?l[0 := last ?l]))"
    unfolding root(2) using take_heap_down [of "n - 1" "heap_Swap 0 (n - 1) ?l" key_less 0] take_swap_last [OF assms(2)] sz by simp
  let ?h = "h\<lparr>elements := (elements h)[1 := elements h ! n], fh_keys := (fh_keys h)[1 := fh_keys h ! n], fh_size := int n - 1\<rparr>"
  have la: "last ?l = (fh_keys h ! n, elements h ! n)" using sz assms(2) by (simp add: last_conv_nth fh_entries_def)
  have en: "fh_entries ?h = take (n - 1) (?l[0 := last ?l])"
    using sz len la by (intro nth_equalityI) (auto simp: fh_entries_def nth_list_update nat_diff_distrib)
  have wf: "fh_wf b ?h" using I(1) len sz by (auto simp: fh_wf_def arrays_ok_def)
  have sub: "set (fh_entries ?h) \<subseteq> set ?l"
    using set_take_subset set_update_subset_insert last_in_set [OF assms(2)] unfolding en by fastforce
  have "\<exists>h'. (if fh_size ?h \<noteq> 0 then percolateDownMinHeap 1 ?h else Some ?h) = Some h' \<and> fh_wf b h' \<and> fh_entries h' = l'"
  proof (cases "n = 1")
    case True
    have "heap_down key_less 0 0 [] = []" by (subst heap_down.simps) simp
    then show ?thesis using True wf en l' by (auto simp: fh_entries_def heap_list_def)
  next
    case False
    have "\<exists>h'. percolateDownMinHeap (int 1) ?h = Some h' \<and> fh_wf b h' \<and> fh_size h' = fh_size ?h \<and>
        fh_entries h' = heap_down key_less (1 - 1) (length (fh_entries ?h)) (fh_entries ?h) \<and>
        length (elements h') = length (elements ?h)"
      by (rule percolateDown_heap [OF wf]) (use False sz sub I(2) in auto)
    moreover have "length (fh_entries ?h) = n - 1" unfolding en using sz by simp
    ultimately show ?thesis using False sz l' en by auto
  qed
  then obtain h' where h': "(if fh_size ?h \<noteq> 0 then percolateDownMinHeap 1 ?h else Some ?h) = Some h'" "fh_wf b h'" "fh_entries h' = l'"
    by blast
  have f: "fill_hole 1 (elements h ! n) (fh_keys h ! n) h = Some (?h\<lparr>fh_size := int n\<rparr>)"
    using put_int [of "elements h" 1] put_int [of "fh_keys h" 1] len sz unfolding fill_hole_def by simp
  have x: "x = (fh_keys h ! 1, elements h ! 1)" using root(1) sz by (simp add: fh_entries_def)
  have one: "idx (elements h) 1 = Some (elements h ! 1)" "idx (fh_keys h) 1 = Some (fh_keys h ! 1)"
    using idx_int [of "elements h" 1] idx_int [of "fh_keys h" 1] len sz by auto
  have "fh_Poll h = Some (snd x, h')"
    using f h'(1) len sz one x unfolding fh_Poll_def fh_PeekElement_def fh_IsEmpty_def Let_def by (cases "n = 1") simp_all
  moreover have "fh_PeekKey h = Some (fst x)" using sz one x by (simp add: fh_PeekKey_def fh_IsEmpty_def)
  moreover have "flt_le (fst x) (fst y)" if "y \<in> set ?l" for y
    using pop(3) that I(3) root(1) sz assms(2) by (auto simp: key_less_def flt_not_less)
  moreover have "set l' \<subseteq> set ?l" using pop(2) by (metis mset_subset_eq_add_right set_mset_mono set_mset_mset add_mset_add_single union_commute)
  then have "fh_inv b h'" using h' I(2) pop(4) by (auto simp: fh_inv_def)
  ultimately show ?thesis using pop(2) h'(3) by (intro exI [of _ "fst x"] exI [of _ "snd x"] exI [of _ h']) auto
qed

lemma find_element_spec:
  "j + n \<le> length es \<Longrightarrow>
    \<exists>i. find_element es (int j) n x = Some (int i) \<and> j \<le> i \<and> i \<le> j + n \<and> (\<forall>k. j \<le> k \<and> k < i \<longrightarrow> es ! k \<noteq> x) \<and>
      (i < j + n \<longrightarrow> es ! i = x)"
proof (induction n arbitrary: j)
  case (Suc n)
  have j: "j < length es" using Suc.prems by simp
  show ?case
  proof (cases "es ! j = x")
    case True
    then show ?thesis using j by (intro exI [of _ j]) simp
  next
    case False
    obtain i where i: "find_element es (int (Suc j)) n x = Some (int i)" "Suc j \<le> i" "i \<le> Suc j + n"
      "\<forall>k. Suc j \<le> k \<and> k < i \<longrightarrow> es ! k \<noteq> x" "i < Suc j + n \<longrightarrow> es ! i = x"
      using Suc.IH [of "Suc j"] Suc.prems by auto
    have "\<forall>k. j \<le> k \<and> k < i \<longrightarrow> es ! k \<noteq> x" using i(4) False by (metis le_antisym not_less_eq_eq)
    then show ?thesis using i j False by (intro exI [of _ i]) (auto simp: algebra_simps)
  qed
qed simp

text \<open>The key of an entry is replaced, and the entry moves to its place.\<close>

lemma replace_key:
  assumes "fh_inv b h" "1 \<le> i" "i \<le> nat (fh_size h)" "key_ok b k"
  shows "\<exists>h'. (if flt_less (fh_keys h ! i) k then percolateDownMinHeap (int i) (h\<lparr>fh_keys := (fh_keys h)[i := k]\<rparr>)
      else percolateUpMinHeap (int i) (h\<lparr>fh_keys := (fh_keys h)[i := k]\<rparr>)) = Some h' \<and> fh_inv b h' \<and>
    mset (fh_entries h') = mset ((fh_entries h)[i - 1 := (k, elements h ! i)])"
proof -
  note I = fh_invD [OF assms(1)]
  define n where "n = nat (fh_size h)"
  have sz: "fh_size h = int n" "length (fh_entries h) = n" using I(1,5) by (auto simp: n_def fh_wf_def)
  have len: "n < length (fh_keys h)" "length (fh_keys h) = length (elements h)" "fh_keys h ! 0 = b" "i \<le> n"
    using I(1) assms(3) by (auto simp: n_def fh_wf_def arrays_ok_def)
  let ?h = "h\<lparr>fh_keys := (fh_keys h)[i := k]\<rparr>" and ?l = "(fh_entries h)[i - 1 := (k, elements h ! i)]"
  have en: "fh_entries ?h = ?l"
    using len assms(2) sz by (intro nth_equalityI) (auto simp: fh_entries_def nth_list_update)
  have wf: "fh_wf b ?h" using I(1) len assms(2) by (auto simp: fh_wf_def arrays_ok_def)
  have ko: "\<forall>x \<in> set ?l. key_ok b (fst x)" using I(2) assms(4) set_update_subset_insert by fastforce
  then have nn: "\<forall>x \<in> set ?l. fst x \<noteq> NaN" using key_okD(1) by blast
  have il: "i - 1 < length (fh_entries h)" using assms(2) len sz by simp
  have e: "fh_entries h ! (i - 1) = (fh_keys h ! i, elements h ! i)" using assms(2) len sz by (simp add: fh_entries_def)
  have kn: "fst (k, elements h ! i) \<noteq> NaN" "fst (fh_entries h ! (i - 1)) \<noteq> NaN"
    using assms(4) key_okD(1) I(3) il by auto
  have isz: "i \<le> nat (fh_size ?h)" using assms(3) by simp
  show ?thesis
  proof (cases "flt_less (fh_keys h ! i) k")
    case True
    then have "\<not> key_less (k, elements h ! i) (fh_entries h ! (i - 1))"
      using e keyed.asym [OF kn(2,1)] by (simp add: key_less_def)
    then have "heap_but_down key_less (i - 1) (length ?l) ?l"
      using keyed.replace_down [OF I(4) il I(3) kn(1)] by simp
    then have hp: "is_heap key_less (length ?l) (heap_down key_less (i - 1) (length ?l) ?l)"
      using keyed.down_heap [OF _ nn] by blast
    have m: "mset (heap_down key_less (i - 1) (length ?l) ?l) = mset ?l" by (rule mset_heap_down) simp
    obtain h' where h': "percolateDownMinHeap (int i) ?h = Some h'" "fh_wf b h'"
      "fh_entries h' = heap_down key_less (i - 1) (length ?l) ?l"
      using percolateDown_heap [OF wf assms(2) isz] ko unfolding en by blast
    have "set (fh_entries h') = set ?l" using m h'(3) by (metis set_mset_mset)
    then have "fh_inv b h'" using h' hp ko by (simp add: fh_inv_def)
    then show ?thesis using True h' m by auto
  next
    case False
    then have "\<not> key_less (fh_entries h ! (i - 1)) (k, elements h ! i)" using e by (simp add: key_less_def)
    then have "heap_but_up key_less (i - 1) ?l" by (rule keyed.replace_up [OF I(4) il I(3) kn(1)])
    then have hp: "is_heap key_less (length ?l) (heap_up key_less (i - 1) ?l)"
      using keyed.up_heap [OF _ nn] il by simp
    have m: "mset (heap_up key_less (i - 1) ?l) = mset ?l" using il by (intro mset_heap_up) simp
    have "key_ok b (fst (fh_entries ?h ! (i - 1)))" unfolding en using il assms(4) by simp
    then obtain h' where h': "percolateUpMinHeap (int i) ?h = Some h'" "fh_wf b h'" "fh_entries h' = heap_up key_less (i - 1) ?l"
      using percolateUp_heap [OF wf assms(2) isz] unfolding en by blast
    have "set (fh_entries h') = set ?l" using m h'(3) by (metis set_mset_mset)
    then have "fh_inv b h'" using h' hp ko m by (metis fh_inv_def length_list_update size_mset)
    then show ?thesis using False h' m by auto
  qed
qed

lemma fh_Update_ok:
  assumes "fh_inv b h" "key_ok b (f32_of_f64 key)" "(old, e) \<in> set (fh_entries h)" "\<forall>x \<in># mset (fh_entries h) - {#(old, e)#}. snd x \<noteq> e"
  shows "\<exists>h'. fh_Update key e h = Some h' \<and> fh_inv b h' \<and>
    mset (fh_entries h') = add_mset (f32_of_f64 key, e) (mset (fh_entries h) - {#(old, e)#})"
proof -
  note I = fh_invD [OF assms(1)]
  define n where "n = nat (fh_size h)"
  have sz: "fh_size h = int n" "length (fh_entries h) = n" using I(1,5) by (auto simp: n_def fh_wf_def)
  have len: "n < length (elements h)" "length (fh_keys h) = length (elements h)"
    using I(1) by (auto simp: n_def fh_wf_def arrays_ok_def)
  obtain j where j: "j < n" "fh_entries h ! j = (old, e)" using assms(3) sz by (auto simp: in_set_conv_nth)
  obtain i where i: "find_element (elements h) (int 1) n e = Some (int i)" "1 \<le> i" "i \<le> 1 + n"
    "\<forall>k. 1 \<le> k \<and> k < i \<longrightarrow> elements h ! k \<noteq> e" "i < 1 + n \<longrightarrow> elements h ! i = e"
    using find_element_spec [of 1 n "elements h" e] len by auto
  have "elements h ! Suc j = e" using j sz by (simp add: fh_entries_def)
  then have "i \<le> Suc j" using i(4) by (metis One_nat_def Suc_le_mono le0 not_le)
  then have il: "i \<le> n" "elements h ! i = e" using j(1) i(5) by auto
  have ent: "fh_entries h ! (i - 1) = (fh_keys h ! i, e)" using i(2) il sz by (simp add: fh_entries_def)
  have m: "mset (fh_entries h) - {#(old, e)#} = mset (fh_entries h) - {#(fh_keys h ! i, e)#}"
  proof -
    have "(fh_keys h ! i, e) \<in> set (fh_entries h)" using ent i(2) il sz nth_mem [of "i - 1" "fh_entries h"] by simp
    then have "(fh_keys h ! i, e) = (old, e)" using assms(4)
      by (metis add_mset_remove_trivial_eq assms(3) insert_noteq_member set_mset_mset snd_conv)
    then show ?thesis by simp
  qed
  obtain h' where h': "(if flt_less (fh_keys h ! i) (f32_of_f64 key)
      then percolateDownMinHeap (int i) (h\<lparr>fh_keys := (fh_keys h)[i := f32_of_f64 key]\<rparr>)
      else percolateUpMinHeap (int i) (h\<lparr>fh_keys := (fh_keys h)[i := f32_of_f64 key]\<rparr>)) = Some h'" "fh_inv b h'"
    "mset (fh_entries h') = mset ((fh_entries h)[i - 1 := (f32_of_f64 key, elements h ! i)])"
    using replace_key [OF assms(1) i(2) _ assms(2)] il sz by auto
  have "fh_Update key e h = Some h'"
    using h'(1) i(1) il len sz by (simp add: fh_Update_def Let_def)
  moreover have "mset ((fh_entries h)[i - 1 := (f32_of_f64 key, e)]) = add_mset (f32_of_f64 key, e) (mset (fh_entries h) - {#(fh_keys h ! i, e)#})"
    using i(2) il sz ent by (subst mset_update) auto
  ultimately show ?thesis using h' il m by auto
qed

end
