(* ===== verification/UpdateHeap.thy ===== *)
theory UpdateHeap imports ContractionQueues begin

text \<open>
  The heap that keeps the position of every id: its arrays move as those of \<open>IntFloatBinaryHeap\<close>, and the
  positions follow them, so it is a map from ids to values that gives back a least one.
\<close>

section \<open>The heap without its positions\<close>

definition plain_heap :: "min_heap \<Rightarrow> float_heap" where
  "plain_heap h = \<lparr>fh_size = mh_size h, elements = tree h, fh_keys = mh_vals h\<rparr>"

text \<open>The positions but that of the id \<open>el\<close>, which fills the hole \<open>i\<close>.\<close>

definition others_placed :: "nat \<Rightarrow> int \<Rightarrow> nat \<Rightarrow> min_heap \<Rightarrow> bool" where
  "others_placed n el i h \<longleftrightarrow>
     (let t = (tree h)[i := el]; ids = (\<lambda>k. t ! k) ` {1..n} in
      1 \<le> i \<and> i \<le> n \<and> n < length (tree h) \<and> length (mh_vals h) = length (tree h) \<and>
      inj_on (\<lambda>k. t ! k) {1..n} \<and> ids \<subseteq> {0..<int (length (positions h))} \<and>
      (\<forall>k \<in> {1..n}. k \<noteq> i \<longrightarrow> positions h ! nat (t ! k) = int k) \<and>
      (\<forall>x. 0 \<le> x \<and> x < int (length (positions h)) \<and> x \<notin> ids \<longrightarrow> positions h ! nat x = notPresent))"

definition all_placed :: "nat \<Rightarrow> min_heap \<Rightarrow> bool" where
  "all_placed n h \<longleftrightarrow>
     (let ids = (\<lambda>k. tree h ! k) ` {1..n} in
      n < length (tree h) \<and> length (mh_vals h) = length (tree h) \<and>
      inj_on (\<lambda>k. tree h ! k) {1..n} \<and> ids \<subseteq> {0..<int (length (positions h))} \<and>
      (\<forall>k \<in> {1..n}. positions h ! nat (tree h ! k) = int k) \<and>
      (\<forall>x. 0 \<le> x \<and> x < int (length (positions h)) \<and> x \<notin> ids \<longrightarrow> positions h ! nat x = notPresent))"

lemma all_others:
  assumes "all_placed n h" "1 \<le> i" "i \<le> n"
  shows "others_placed n (tree h ! i) i h"
  using assms by (simp add: all_placed_def others_placed_def Let_def)

lemma move_placed:
  assumes o: "others_placed n el i h" and c: "1 \<le> c" "c \<le> n" "c \<noteq> i"
  shows "\<exists>h'. mh_move (int i) (int c) h = Some h' \<and> others_placed n el c h' \<and> mh_size h' = mh_size h \<and> maxElems h' = maxElems h \<and>
    length (positions h') = length (positions h) \<and>
    plain_heap h' = (plain_heap h)\<lparr>elements := (tree h)[i := tree h ! c], fh_keys := (mh_vals h)[i := mh_vals h ! c]\<rparr>"
proof -
  let ?t = "(tree h)[i := el]"
  note O = o [unfolded others_placed_def Let_def]
  define x where "x = tree h ! c"
  have i: "1 \<le> i" "i \<le> n" "i < length (tree h)" "c < length (tree h)" "length (mh_vals h) = length (tree h)" using O c by auto
  have tc: "?t ! c = x" using c by (simp add: x_def)
  have "?t ! c \<in> {0..<int (length (positions h))}" using O c by (meson atLeastAtMost_iff image_subset_iff)
  then have xr: "0 \<le> x" "x < int (length (positions h))" using tc by simp_all
  let ?h = "h\<lparr>tree := (tree h)[i := x], mh_vals := (mh_vals h)[i := mh_vals h ! c], positions := (positions h)[nat x := int i]\<rparr>"
  have m: "mh_move (int i) (int c) h = Some ?h"
    using i xr by (simp add: mh_move_def x_def [symmetric] put_def nat_less_iff)
  let ?u = "(tree h)[i := x, c := el]"
  have u: "?u ! k = (if k = c then el else if k = i then x else ?t ! k)" if "k \<in> {1..n}" for k
    using i that by (auto simp: nth_list_update)
  have ti: "?t ! i = el" using i by simp
  have ids: "(\<lambda>k. ?u ! k) ` {1..n} = (\<lambda>k. ?t ! k) ` {1..n}"
  proof
    show "(\<lambda>k. ?u ! k) ` {1..n} \<subseteq> (\<lambda>k. ?t ! k) ` {1..n}"
    proof
      fix y assume "y \<in> (\<lambda>k. ?u ! k) ` {1..n}"
      then obtain k where k: "k \<in> {1..n}" "y = ?u ! k" by blast
      consider "k = c" | "k = i" "k \<noteq> c" | "k \<noteq> c" "k \<noteq> i" by blast
      then show "y \<in> (\<lambda>k. ?t ! k) ` {1..n}"
      proof cases
        case 1
        then show ?thesis using k ti u [of k] i by (intro image_eqI [of _ _ i]) auto
      next
        case 2
        then show ?thesis using k tc u [of k] c by (intro image_eqI [of _ _ c]) auto
      next
        case 3
        then show ?thesis using k u [of k] by (intro image_eqI [of _ _ k]) auto
      qed
    qed
    show "(\<lambda>k. ?t ! k) ` {1..n} \<subseteq> (\<lambda>k. ?u ! k) ` {1..n}"
    proof
      fix y assume "y \<in> (\<lambda>k. ?t ! k) ` {1..n}"
      then obtain k where k: "k \<in> {1..n}" "y = ?t ! k" by blast
      consider "k = c" | "k = i" | "k \<noteq> c" "k \<noteq> i" by blast
      then show "y \<in> (\<lambda>k. ?u ! k) ` {1..n}"
      proof cases
        case 1
        then show ?thesis using k tc u [of i] i c by (intro image_eqI [of _ _ i]) auto
      next
        case 2
        then show ?thesis using k ti u [of c] c by (intro image_eqI [of _ _ c]) auto
      next
        case 3
        then show ?thesis using k u [of k] by (intro image_eqI [of _ _ k]) auto
      qed
    qed
  qed
  have inj: "inj_on (\<lambda>k. ?t ! k) {1..n}" using O by blast
  have "inj_on (\<lambda>k. ?u ! k) {1..n}"
    by (rule eq_card_imp_inj_on) (use ids card_image [OF inj] in simp_all)
  moreover have "(positions h)[nat x := int i] ! nat (?u ! k) = int k" if k: "k \<in> {1..n}" "k \<noteq> c" for k
  proof (cases "k = i")
    case True
    then show ?thesis using u [OF k(1)] k(2) xr by (simp add: nat_less_iff)
  next
    case False
    then have "?u ! k = ?t ! k" "positions h ! nat (?t ! k) = int k" using u [OF k(1)] k O by auto
    moreover have "?t ! k \<noteq> x" using inj_onD [OF inj, of k c] k c tc by auto
    moreover have "0 \<le> ?t ! k" using O k(1) by (auto simp: image_subset_iff)
    ultimately show ?thesis using xr(1) by (simp add: nth_list_update eq_nat_nat_iff)
  qed
  moreover have "(positions h)[nat x := int i] ! nat y = notPresent"
    if y: "0 \<le> y" "y < int (length (positions h))" "y \<notin> (\<lambda>k. ?t ! k) ` {1..n}" for y
  proof -
    have "y \<noteq> x" using y(3) tc c by (metis atLeastAtMost_iff image_eqI)
    then have "nat x \<noteq> nat y" using y(1) xr(1) by (simp add: eq_nat_nat_iff)
    then show ?thesis using O y by simp
  qed
  moreover have T: "(tree ?h)[c := el] = ?u" "positions ?h = (positions h)[nat x := int i]" by simp_all
  ultimately have "others_placed n el c ?h"
    unfolding others_placed_def Let_def T ids using O c i by simp
  then show ?thesis using m by (intro exI [of _ ?h]) (simp add: plain_heap_def x_def)
qed

lemma fill_placed:
  assumes o: "others_placed n el i h"
  shows "\<exists>h'. mh_fill (int i) el v h = Some h' \<and> all_placed n h' \<and> mh_size h' = mh_size h \<and> maxElems h' = maxElems h \<and>
    length (positions h') = length (positions h) \<and>
    plain_heap h' = (plain_heap h)\<lparr>elements := (tree h)[i := el], fh_keys := (mh_vals h)[i := v]\<rparr>"
proof -
  let ?t = "(tree h)[i := el]"
  note O = o [unfolded others_placed_def Let_def]
  have i: "1 \<le> i" "i \<le> n" "i < length (tree h)" "length (mh_vals h) = length (tree h)" using O by auto
  have ti: "?t ! i = el" using i by simp
  have "?t ! i \<in> {0..<int (length (positions h))}" using O i by (meson atLeastAtMost_iff image_subset_iff)
  then have er: "0 \<le> el" "el < int (length (positions h))" using ti by simp_all
  let ?h = "h\<lparr>tree := ?t, mh_vals := (mh_vals h)[i := v], positions := (positions h)[nat el := int i]\<rparr>"
  have m: "mh_fill (int i) el v h = Some ?h" using i er by (simp add: mh_fill_def put_def nat_less_iff)
  have inj: "inj_on (\<lambda>k. ?t ! k) {1..n}" using O by blast
  have "(positions h)[nat el := int i] ! nat (?t ! k) = int k" if k: "k \<in> {1..n}" for k
  proof (cases "k = i")
    case True
    then show ?thesis using ti er by (simp add: nat_less_iff)
  next
    case False
    then have "positions h ! nat (?t ! k) = int k" using k O by auto
    moreover have "?t ! k \<noteq> el" using inj_onD [OF inj, of k i] k i ti False by auto
    moreover have "0 \<le> ?t ! k" using O k by (auto simp: image_subset_iff)
    ultimately show ?thesis using er(1) by (simp add: nth_list_update eq_nat_nat_iff)
  qed
  moreover have "(positions h)[nat el := int i] ! nat y = notPresent"
    if y: "0 \<le> y" "y < int (length (positions h))" "y \<notin> (\<lambda>k. ?t ! k) ` {1..n}" for y
  proof -
    have "y \<noteq> el" using y(3) ti i by (metis atLeastAtMost_iff image_eqI)
    then have "nat el \<noteq> nat y" using y(1) er(1) by (simp add: eq_nat_nat_iff)
    then show ?thesis using O y by simp
  qed
  ultimately have "all_placed n ?h" using O i by (simp add: all_placed_def Let_def)
  then show ?thesis using m by (intro exI [of _ ?h]) (simp add: plain_heap_def)
qed

section \<open>The loops move the same entries\<close>

lemma half_bits: "drop_bit (Suc 0) (int i) = int (i div 2)" "push_bit (Suc 0) (int i) = int i * 2"
  by (simp_all add: drop_bit_eq_div push_bit_eq_mult zdiv_int)

lemma plain_heap_sel [simp]:
  "fh_size (plain_heap h) = mh_size h" "elements (plain_heap h) = tree h" "fh_keys (plain_heap h) = mh_vals h"
  by (simp_all add: plain_heap_def)

definition same_limits :: "min_heap \<Rightarrow> min_heap \<Rightarrow> bool" where
  "same_limits h h' \<longleftrightarrow> mh_size h' = mh_size h \<and> maxElems h' = maxElems h \<and> length (positions h') = length (positions h)"

lemma up_loop_placed:
  "others_placed n el i h \<Longrightarrow> \<not> flt_less val (mh_vals h ! 0) \<Longrightarrow> fh_up_loop val (int i) (plain_heap h) = Some (r, f') \<Longrightarrow>
    \<exists>j h'. r = int j \<and> mh_up_loop val (int i) h = Some (r, h') \<and> plain_heap h' = f' \<and> others_placed n el j h' \<and> same_limits h h'"
proof (induction i arbitrary: h rule: less_induct)
  case (less i)
  let ?p = "i div 2"
  have i: "1 \<le> i" "i \<le> n" "n < length (tree h)" "length (mh_vals h) = length (tree h)"
    using less.prems(1) by (auto simp: others_placed_def Let_def)
  have p: "?p < i" "?p < length (mh_vals h)" using i by linarith+
  show ?case
  proof (cases "flt_less val (mh_vals h ! ?p)")
    case False
    have r: "r = int i" "f' = plain_heap h"
      using less.prems(3) False p by (auto simp: fh_up_loop.simps [of val "int i"] half)
    moreover have "mh_up_loop val (int i) h = Some (int i, h)"
      using False p by (subst mh_up_loop.simps) (simp add: half_bits)
    ultimately show ?thesis using less.prems(1) by (auto simp: same_limits_def)
  next
    case True
    then have p1: "1 \<le> ?p" using less.prems(2) by (cases "?p = 0") (auto simp: not_less_eq_eq)
    obtain h1 where h1: "mh_move (int i) (int ?p) h = Some h1" "others_placed n el ?p h1" "mh_size h1 = mh_size h"
      "maxElems h1 = maxElems h" "length (positions h1) = length (positions h)"
      "plain_heap h1 = (plain_heap h)\<lparr>elements := (tree h)[i := tree h ! ?p], fh_keys := (mh_vals h)[i := mh_vals h ! ?p]\<rparr>"
      using move_placed [OF less.prems(1) p1] p i by fastforce
    have k: "mh_vals h1 = (mh_vals h)[i := mh_vals h ! ?p]" using arg_cong [OF h1(6), of fh_keys] by simp
    have "fh_up_loop val (int i) (plain_heap h) = fh_up_loop val (int ?p) (plain_heap h1)"
      using True p p1 i unfolding h1(6) by (subst fh_up_loop.simps) (simp add: half)
    moreover have "mh_up_loop val (int i) h = mh_up_loop val (int ?p) h1"
      using True p h1(1) by (subst mh_up_loop.simps) (simp add: half_bits)
    moreover have "\<not> flt_less val (mh_vals h1 ! 0)" using less.prems(2) i by (simp add: k)
    ultimately show ?thesis
      using less.IH [OF p(1) h1(2)] less.prems(3) h1(3-5) by (fastforce simp: same_limits_def)
  qed
qed

lemma down_loop_placed:
  "others_placed n el i h \<Longrightarrow> mh_size h = int n \<Longrightarrow> fh_down_loop val (int i) (plain_heap h) = Some (r, f') \<Longrightarrow>
    \<exists>j h'. r = int j \<and> mh_down_loop val (int i) h = Some (r, h') \<and> plain_heap h' = f' \<and> others_placed n el j h' \<and> same_limits h h'"
proof (induction "n - i" arbitrary: i h rule: less_induct)
  case (less i h)
  have i: "1 \<le> i" "i \<le> n" "n < length (tree h)" "length (mh_vals h) = length (tree h)"
    using less.prems(1) by (auto simp: others_placed_def Let_def)
  show ?case
  proof (cases "2 * i \<le> n")
    case False
    then have f: "\<not> int i * 2 \<le> int n" by linarith
    have r: "r = int i" "f' = plain_heap h"
      using less.prems(2,3) f by (auto simp: fh_down_loop.simps [of val "int i"])
    moreover have "mh_down_loop val (int i) h = Some (int i, h)"
      using f less.prems(2) by (subst mh_down_loop.simps) (simp add: half_bits)
    ultimately show ?thesis using less.prems(1) by (auto simp: same_limits_def)
  next
    case True
    then have t: "int i * 2 \<le> int n" by linarith
    have "\<exists>c. least_child (mh_vals h) (int n) (int i) = Some (int c) \<and> i < c \<and> c \<le> n"
    proof -
      let ?c = "heap_child key_less (i - 1) n (heap_list ((tree h)[i := 0]) ((mh_vals h)[i := NaN]) n)"
      have "i - 1 < ?c" by (rule heap_child_gt)
      moreover have "?c < n" by (rule heap_child_less) (use True i in linarith)
      moreover have "least_child (mh_vals h) (int n) (int i) = Some (int (Suc ?c))"
        by (rule least_child_heap) (use i True in simp_all)
      ultimately show ?thesis using i(1)
        by (intro exI [of _ "Suc ?c"] conjI) (assumption | linarith)+
    qed
    then obtain c where c: "least_child (mh_vals h) (int n) (int i) = Some (int c)" "i < c" "c \<le> n" by blast
    have cl: "c < length (mh_vals h)" "c < length (tree h)" using c i by simp_all
    show ?thesis
    proof (cases "flt_le val (mh_vals h ! c)")
      case stop: True
      have r: "r = int i" "f' = plain_heap h"
        using less.prems(2,3) t c cl stop by (auto simp: fh_down_loop.simps [of val "int i"])
      moreover have "mh_down_loop val (int i) h = Some (int i, h)"
        using t less.prems(2) c cl stop by (subst mh_down_loop.simps) (simp add: half_bits)
      ultimately show ?thesis using less.prems(1) by (auto simp: same_limits_def)
    next
      case False
      obtain h1 where h1: "mh_move (int i) (int c) h = Some h1" "others_placed n el c h1" "mh_size h1 = mh_size h"
        "maxElems h1 = maxElems h" "length (positions h1) = length (positions h)"
        "plain_heap h1 = (plain_heap h)\<lparr>elements := (tree h)[i := tree h ! c], fh_keys := (mh_vals h)[i := mh_vals h ! c]\<rparr>"
        using move_placed [OF less.prems(1), of c] c i by fastforce
      have "fh_down_loop val (int i) (plain_heap h) = fh_down_loop val (int c) (plain_heap h1)"
        using False t c cl i less.prems(2) unfolding h1(6) by (subst fh_down_loop.simps) simp
      moreover have "mh_down_loop val (int i) h = mh_down_loop val (int c) h1"
        using False t c cl h1(1) less.prems(2) by (subst mh_down_loop.simps) (simp add: half_bits)
      ultimately show ?thesis
        using less.hyps [of c h1] c h1 less.prems(2,3) by (fastforce simp: same_limits_def)
    qed
  qed
qed

lemma fill_hole_some: "fill_hole j e k f = Some f' \<Longrightarrow> f' = f\<lparr>elements := (elements f)[nat j := e], fh_keys := (fh_keys f)[nat j := k]\<rparr>"
  by (auto simp: fill_hole_def put_def split: if_splits)

lemma percolateUp_placed:
  assumes "all_placed n h" "1 \<le> i" "i \<le> n" "\<not> flt_less (mh_vals h ! i) (mh_vals h ! 0)"
    "percolateUpMinHeap (int i) (plain_heap h) = Some f'"
  shows "\<exists>h'. percolateUp (int i) h = Some h' \<and> plain_heap h' = f' \<and> all_placed n h' \<and> same_limits h h'"
proof -
  have len: "i < length (tree h)" "length (mh_vals h) = length (tree h)" using assms(1,3) by (auto simp: all_placed_def Let_def)
  obtain r f1 where f1: "fh_up_loop (mh_vals h ! i) (int i) (plain_heap h) = Some (r, f1)" "fill_hole r (tree h ! i) (mh_vals h ! i) f1 = Some f'"
    using assms(5) len by (auto simp: percolateUpMinHeap_def split: Option.bind_splits)
  obtain j h1 where h1: "r = int j" "mh_up_loop (mh_vals h ! i) (int i) h = Some (r, h1)" "plain_heap h1 = f1"
    "others_placed n (tree h ! i) j h1" "same_limits h h1"
    using up_loop_placed [OF all_others [OF assms(1-3)] assms(4) f1(1)] by blast
  obtain h2 where h2: "mh_fill (int j) (tree h ! i) (mh_vals h ! i) h1 = Some h2" "all_placed n h2" "same_limits h1 h2"
    "plain_heap h2 = (plain_heap h1)\<lparr>elements := (tree h1)[j := tree h ! i], fh_keys := (mh_vals h1)[j := mh_vals h ! i]\<rparr>"
    using fill_placed [OF h1(4), of "mh_vals h ! i"] by (auto simp: same_limits_def)
  have f': "f' = plain_heap h2"
    unfolding fill_hole_some [OF f1(2)] h1(1) h1(3) [symmetric] h2(4) by simp
  show ?thesis
  proof (cases "i = 1")
    case False
    then show ?thesis using h1 h2 f' len by (auto simp: percolateUp_def same_limits_def)
  next
    case True
    have "fh_up_loop (mh_vals h ! i) (int i) (plain_heap h) = Some (int i, plain_heap h)"
      using True assms(4) len half [of 1] idx_int [of "mh_vals h" 0] by (subst fh_up_loop.simps) auto
    then have "f' = plain_heap h" using fill_hole_some [OF f1(2)] f1(1) True by (auto simp: plain_heap_def)
    then show ?thesis using True assms(1) by (auto simp: percolateUp_def same_limits_def)
  qed
qed

lemma percolateDown_placed:
  assumes "all_placed n h" "1 \<le> i" "i \<le> n" "mh_size h = int n" "percolateDownMinHeap (int i) (plain_heap h) = Some f'"
  shows "\<exists>h'. percolateDown (int i) h = Some h' \<and> plain_heap h' = f' \<and> all_placed n h' \<and> same_limits h h'"
proof -
  have len: "i < length (tree h)" "length (mh_vals h) = length (tree h)" using assms(1,3) by (auto simp: all_placed_def Let_def)
  obtain r f1 where f1: "fh_down_loop (mh_vals h ! i) (int i) (plain_heap h) = Some (r, f1)" "fill_hole r (tree h ! i) (mh_vals h ! i) f1 = Some f'"
    using assms(5) len by (auto simp: percolateDownMinHeap_def split: Option.bind_splits)
  obtain j h1 where h1: "r = int j" "mh_down_loop (mh_vals h ! i) (int i) h = Some (r, h1)" "plain_heap h1 = f1"
    "others_placed n (tree h ! i) j h1" "same_limits h h1"
    using down_loop_placed [OF all_others [OF assms(1-3)] assms(4) f1(1)] by blast
  obtain h2 where h2: "mh_fill (int j) (tree h ! i) (mh_vals h ! i) h1 = Some h2" "all_placed n h2" "same_limits h1 h2"
    "plain_heap h2 = (plain_heap h1)\<lparr>elements := (tree h1)[j := tree h ! i], fh_keys := (mh_vals h1)[j := mh_vals h ! i]\<rparr>"
    using fill_placed [OF h1(4), of "mh_vals h ! i"] by (auto simp: same_limits_def)
  have f': "f' = plain_heap h2"
    unfolding fill_hole_some [OF f1(2)] h1(1) h1(3) [symmetric] h2(4) by simp
  then show ?thesis using h1 h2 len assms(2-4) by (auto simp: percolateDown_def same_limits_def)
qed

section \<open>The heap as a map\<close>

definition mh_entries :: "min_heap \<Rightarrow> (flt \<times> int) list" where "mh_entries h = fh_entries (plain_heap h)"

definition mh_map :: "min_heap \<Rightarrow> int \<rightharpoonup> flt" where
  "mh_map h = map_of (map (\<lambda>(v, i). (i, v)) (mh_entries h))"

definition mh_inv :: "min_heap \<Rightarrow> bool" where
  "mh_inv h \<longleftrightarrow> fh_inv NInf (plain_heap h) \<and> all_placed (nat (mh_size h)) h \<and>
     int (length (tree h)) = maxElems h + 1 \<and> int (length (positions h)) = maxElems h + 1 \<and>
     (\<forall>x \<in> set (mh_entries h). snd x < maxElems h)"

lemma key_ok_NInf: "key_ok NInf v \<longleftrightarrow> v \<noteq> NaN"
  by (cases v) (simp_all add: key_ok_def)

lemma not_less_NInf: "\<not> flt_less x NInf"
  by (cases x) simp_all

lemma entries_ids: "snd ` set (mh_entries h) = (\<lambda>k. tree h ! k) ` {1..nat (mh_size h)}"
proof -
  have "x \<in> (\<lambda>i. tree h ! Suc i) ` {0..<n}" if x: "x \<in> (\<lambda>k. tree h ! k) ` {1..n}" for x n
  proof -
    obtain k where "k \<in> {1..n}" "x = tree h ! k" using x by blast
    then show ?thesis by (intro image_eqI [of _ _ "k - 1"]) auto
  qed
  then show ?thesis by (auto simp: mh_entries_def fh_entries_def heap_list_def image_image)
qed

lemma entries_distinct:
  assumes "inj_on (\<lambda>k. tree h ! k) {1..nat (mh_size h)}"
  shows "distinct (map snd (mh_entries h))"
proof -
  have "map snd (mh_entries h) = map (\<lambda>k. tree h ! k) [1..<Suc (nat (mh_size h))]"
    by (intro nth_equalityI) (auto simp: mh_entries_def fh_entries_def simp del: upt_Suc)
  moreover have "set [1..<Suc (nat (mh_size h))] = {1..nat (mh_size h)}" by auto
  ultimately show ?thesis using assms by (simp add: distinct_map del: upt_Suc)
qed

lemma mh_invD:
  assumes "mh_inv h"
  shows "fh_inv NInf (plain_heap h)" "all_placed (nat (mh_size h)) h" "0 \<le> mh_size h" "length (mh_vals h) = length (tree h)"
    "nat (mh_size h) < length (tree h)" "mh_vals h ! 0 = NInf" "distinct (map snd (mh_entries h))"
    "int (length (tree h)) = maxElems h + 1" "int (length (positions h)) = maxElems h + 1"
  using assms entries_distinct by (auto simp: mh_inv_def fh_inv_def fh_wf_def all_placed_def Let_def)

text \<open>The map is the set of the entries, which are distinct.\<close>

lemma mh_map_iff:
  assumes "distinct (map snd (mh_entries h))"
  shows "mh_map h i = Some v \<longleftrightarrow> (v, i) \<in> set (mh_entries h)"
proof -
  have "distinct (map fst (map (\<lambda>(v, i). (i, v)) (mh_entries h)))" using assms by (simp add: comp_def case_prod_unfold)
  then show ?thesis by (auto simp: mh_map_def map_of_eq_Some_iff)
qed

lemma mh_map_dom: "dom (mh_map h) = snd ` set (mh_entries h)"
  by (force simp: mh_map_def dom_map_of_conv_image_fst)

lemma map_determined:
  assumes "mh_inv h" "mh_inv h'" "\<And>v i. (v, i) \<in> set (mh_entries h') \<longleftrightarrow> m i = Some v"
  shows "mh_map h' = m"
proof
  show "mh_map h' i = m i" for i
    using mh_map_iff [OF mh_invD(7) [OF assms(2)]] assms(3) by (cases "mh_map h' i"; cases "m i") (auto, metis option.simps(3))
qed

lemma ids_in_range:
  assumes "mh_inv h" "i \<in> dom (mh_map h)"
  shows "0 \<le> i" "i < maxElems h"
proof -
  show "i < maxElems h" using assms by (auto simp: mh_inv_def mh_map_dom)
  show "0 \<le> i" using assms(2) mh_invD(2) [OF assms(1)] unfolding mh_map_dom entries_ids
    by (auto simp: all_placed_def Let_def image_subset_iff)
qed

lemma position_of:
  assumes "mh_inv h" "0 \<le> i" "i < maxElems h"
  shows "\<exists>p. idx (positions h) i = Some p \<and> (i \<notin> dom (mh_map h) \<longrightarrow> p = notPresent) \<and>
    (i \<in> dom (mh_map h) \<longrightarrow> (\<exists>k. p = int k \<and> 1 \<le> k \<and> k \<le> nat (mh_size h) \<and> tree h ! k = i \<and> mh_map h i = Some (mh_vals h ! k)))"
proof -
  note I = mh_invD [OF assms(1)]
  have P: "\<forall>k \<in> {1..nat (mh_size h)}. positions h ! nat (tree h ! k) = int k"
    "\<forall>x. 0 \<le> x \<and> x < int (length (positions h)) \<and> x \<notin> (\<lambda>k. tree h ! k) ` {1..nat (mh_size h)} \<longrightarrow> positions h ! nat x = notPresent"
    using I(2) by (auto simp: all_placed_def Let_def)
  have x: "idx (positions h) i = Some (positions h ! nat i)" using assms(2,3) I(9) by (simp add: idx_def)
  show ?thesis
  proof (cases "i \<in> dom (mh_map h)")
    case False
    then show ?thesis using x P(2) assms(2,3) I(9) by (auto simp: mh_map_dom entries_ids)
  next
    case True
    then obtain k where k: "k \<in> {1..nat (mh_size h)}" "i = tree h ! k" by (auto simp: mh_map_dom entries_ids)
    have "mh_entries h ! (k - 1) = (mh_vals h ! k, i)" "k - 1 < length (mh_entries h)"
      using k by (auto simp: mh_entries_def fh_entries_def)
    then have "mh_map h i = Some (mh_vals h ! k)" using mh_map_iff [OF I(7)] by (metis nth_mem)
    then show ?thesis using x k P(1) True by auto
  qed
qed

lemma contains_dom:
  assumes "mh_inv h" "0 \<le> i" "i < maxElems h"
  shows "mh_Contains i h = Some (i \<in> dom (mh_map h))"
  using position_of [OF assms] assms(2,3) by (auto simp: mh_Contains_def checkIdInRange_def notPresent_def)

section \<open>Operations\<close>

lemma size_entries [simp]: "length (mh_entries h) = nat (mh_size h)"
  by (simp add: mh_entries_def fh_entries_def)

lemma result_inv:
  assumes "fh_inv NInf (plain_heap h')" "all_placed (nat (mh_size h')) h'" "int (length (tree h')) = maxElems h' + 1"
    "int (length (positions h')) = maxElems h' + 1" "\<forall>x \<in> set (mh_entries h'). snd x < maxElems h'"
  shows "mh_inv h'"
  using assms by (simp add: mh_inv_def)

lemma plain_lengths:
  assumes "plain_heap h' = f" shows "length (tree h') = length (elements f)"
  using assms by auto

text \<open>A full heap holds every id.\<close>

lemma room_left:
  assumes "mh_inv h" "0 \<le> i" "i < maxElems h" "i \<notin> dom (mh_map h)"
  shows "mh_size h < maxElems h"
proof -
  note I = mh_invD [OF assms(1)]
  have "dom (mh_map h) \<subseteq> {0..<maxElems h} - {i}" using ids_in_range [OF assms(1)] assms(4) by fastforce
  then have "set (map snd (mh_entries h)) \<subseteq> {0..<maxElems h} - {i}" by (simp add: mh_map_dom)
  then have "card (set (map snd (mh_entries h))) \<le> card ({0..<maxElems h} - {i})" by (intro card_mono) auto
  moreover have "card ({0..<maxElems h} - {i}) = nat (maxElems h) - 1" using assms(2,3) by (simp add: card_Diff_singleton)
  moreover have "card (set (map snd (mh_entries h))) = nat (mh_size h)" using distinct_card [OF I(7)] by simp
  ultimately show ?thesis using assms(2,3) I(3) by linarith
qed

lemma Push_ok:
  assumes "mh_inv h" "0 \<le> i" "i < maxElems h" "i \<notin> dom (mh_map h)" "v \<noteq> NaN"
  shows "\<exists>h'. mh_Push i v h = Some h' \<and> mh_inv h' \<and> mh_map h' = (mh_map h)(i \<mapsto> v) \<and> maxElems h' = maxElems h"
proof -
  note I = mh_invD [OF assms(1)]
  define n where "n = nat (mh_size h)"
  have sz: "mh_size h = int n" "int n < maxElems h" using I(3) room_left [OF assms(1-4)] by (simp_all add: n_def)
  have len: "n + 1 < length (tree h)" using sz I(8) by linarith
  let ?h = "h\<lparr>mh_size := int (n + 1)\<rparr>"
  have ni: "i \<notin> (\<lambda>k. tree h ! k) ` {1..n}" using assms(4) by (simp add: mh_map_dom entries_ids n_def)
  have T: "(\<lambda>k. (tree h)[n + 1 := i] ! k) ` {1..n + 1} = insert i ((\<lambda>k. tree h ! k) ` {1..n})"
  proof -
    have "{1..n + 1} = insert (n + 1) {1..n}" by auto
    then show ?thesis using len by (auto simp: nth_list_update)
  qed
  have inj: "inj_on (\<lambda>k. (tree h)[n + 1 := i] ! k) {1..n + 1}"
  proof -
    have "inj_on (\<lambda>k. tree h ! k) {1..n}" using I(2) by (simp add: all_placed_def Let_def n_def)
    then have "inj_on (\<lambda>k. (tree h)[n + 1 := i] ! k) {1..n}" by (subst inj_on_cong [of _ _ "\<lambda>k. tree h ! k"]) auto
    moreover have "{1..n + 1} = insert (n + 1) {1..n}" by auto
    ultimately show ?thesis using ni len by (auto simp: nth_list_update)
  qed
  have A: "(\<lambda>k. tree h ! k) ` {1..n} \<subseteq> {0..<int (length (positions h))}"
    "\<forall>k \<in> {1..n}. positions h ! nat (tree h ! k) = int k"
    "\<forall>x. 0 \<le> x \<and> x < int (length (positions h)) \<and> x \<notin> (\<lambda>k. tree h ! k) ` {1..n} \<longrightarrow> positions h ! nat x = notPresent"
    using I(2) by (auto simp: all_placed_def Let_def n_def)
  have "others_placed (n + 1) i (n + 1) ?h"
    unfolding others_placed_def Let_def
  proof (intro conjI)
    show "inj_on (\<lambda>k. (tree ?h)[n + 1 := i] ! k) {1..n + 1}" using inj by simp
    show "(\<lambda>k. (tree ?h)[n + 1 := i] ! k) ` {1..n + 1} \<subseteq> {0..<int (length (positions ?h))}"
      using A(1) assms(2,3) I(9) T by simp
    show "\<forall>x. 0 \<le> x \<and> x < int (length (positions ?h)) \<and> x \<notin> (\<lambda>k. (tree ?h)[n + 1 := i] ! k) ` {1..n + 1} \<longrightarrow>
        positions ?h ! nat x = notPresent" using A(3) T by simp
    show "\<forall>k \<in> {1..n + 1}. k \<noteq> n + 1 \<longrightarrow> positions ?h ! nat ((tree ?h)[n + 1 := i] ! k) = int k" using A(2) by simp
  qed (use len I(4) in auto)
  from fill_placed [OF this, of v] obtain h1 where h1: "mh_fill (int (n + 1)) i v ?h = Some h1" "all_placed (n + 1) h1"
    "mh_size h1 = int (n + 1)" "maxElems h1 = maxElems h" "length (positions h1) = length (positions h)"
    "plain_heap h1 = (plain_heap ?h)\<lparr>elements := (tree h)[n + 1 := i], fh_keys := (mh_vals h)[n + 1 := v]\<rparr>"
    by auto
  have f1: "tree h1 = (tree h)[n + 1 := i]" "mh_vals h1 = (mh_vals h)[n + 1 := v]"
    using arg_cong [OF h1(6), of elements] arg_cong [OF h1(6), of fh_keys] by simp_all
  have wf: "fh_wf NInf (plain_heap h1)" using I(4,6) len by (simp add: fh_wf_def h1(3) arrays_ok_def f1)
  have en: "fh_entries (plain_heap h1) = mh_entries h @ [(v, i)]"
    using len I(4) sz by (intro nth_equalityI) (auto simp: mh_entries_def fh_entries_def nth_append nth_list_update h1(3) f1)
  have FI: "\<forall>x \<in> set (mh_entries h). fst x \<noteq> NaN" "is_heap key_less (length (mh_entries h)) (mh_entries h)"
    using fh_invD(3,4) [OF I(1)] by (simp_all add: mh_entries_def)
  have ns: "nat (1 + int n) = Suc n" by simp
  have "\<exists>f'. percolateUpMinHeap (int (n + 1)) (plain_heap h1) = Some f' \<and> fh_wf NInf f' \<and> fh_size f' = fh_size (plain_heap h1) \<and>
      fh_entries f' = heap_up key_less (n + 1 - 1) (fh_entries (plain_heap h1)) \<and>
      length (elements f') = length (elements (plain_heap h1))"
    by (rule percolateUp_heap [OF wf]) (use en sz assms(5) h1(3) ns in \<open>simp_all add: key_ok_NInf nth_append\<close>)
  then obtain f' where f': "percolateUpMinHeap (int (n + 1)) (plain_heap h1) = Some f'" "fh_wf NInf f'" "fh_size f' = int (n + 1)"
    "fh_entries f' = heap_up key_less n (mh_entries h @ [(v, i)])" "length (elements f') = length (tree h)"
    using en h1(3) by (auto simp: f1)
  have push: "fh_entries f' = heap_Push key_less (v, i) (mh_entries h)" using f'(4) sz by (simp add: heap_Push_def)
  obtain h' where h': "percolateUp (int (n + 1)) h1 = Some h'" "plain_heap h' = f'" "all_placed (n + 1) h'" "same_limits h1 h'"
    using percolateUp_placed [OF h1(2) _ _ _ f'(1)] I(4,6) len by (auto simp: f1 not_less_NInf)
  have ent: "mset (mh_entries h') = add_mset (v, i) (mset (mh_entries h))"
    using push by (simp add: mh_entries_def h'(2))
  then have set: "set (mh_entries h') = insert (v, i) (set (mh_entries h))" by (metis set_mset_add_mset_insert set_mset_mset)
  have hp: "is_heap key_less (length (fh_entries f')) (fh_entries f')"
    unfolding push by (rule keyed.Push_heap [OF FI(2,1)]) (use assms(5) in simp)
  have lim: "mh_size h' = int (n + 1)" "maxElems h' = maxElems h" "length (positions h') = length (positions h)"
    using h'(4) h1(3-5) by (simp_all add: same_limits_def)
  have lt: "length (tree h') = length (tree h)" using plain_lengths [OF h'(2)] f'(5) by simp
  have inv: "mh_inv h'"
  proof (rule result_inv)
    show "fh_inv NInf (plain_heap h')"
      using f'(2) hp set FI(1) assms(5) by (auto simp: fh_inv_def h'(2) key_ok_NInf mh_entries_def)
    show "all_placed (nat (mh_size h')) h'" using h'(3) lim(1) by (simp add: nat_add_distrib)
    show "\<forall>x \<in> set (mh_entries h'). snd x < maxElems h'" using assms(1,3) set lim(2) by (auto simp: mh_inv_def)
  qed (use lim lt I(8,9) in simp_all)
  have "mh_map h' = (mh_map h)(i \<mapsto> v)"
  proof (rule map_determined [OF assms(1) inv])
    fix w j
    show "(w, j) \<in> set (mh_entries h') \<longleftrightarrow> ((mh_map h)(i \<mapsto> v)) j = Some w"
      using set mh_map_iff [OF I(7), of j w] assms(4) by (auto simp: dom_def)
  qed
  moreover have "mh_Push i v h = Some h'"
    using contains_dom [OF assms(1-3)] assms(2-4) sz h1(1,3) h'(1) by (simp add: mh_Push_def checkIdInRange_def Let_def algebra_simps)
  ultimately show ?thesis using inv lim(2) by blast
qed

lemma Update_ok:
  assumes "mh_inv h" "mh_map h i = Some old" "v \<noteq> NaN"
  shows "\<exists>h'. mh_Update i v h = Some h' \<and> mh_inv h' \<and> mh_map h' = (mh_map h)(i \<mapsto> v) \<and> maxElems h' = maxElems h"
proof -
  note I = mh_invD [OF assms(1)]
  define n where "n = nat (mh_size h)"
  have sz: "mh_size h = int n" using I(3) by (simp add: n_def)
  have r: "0 \<le> i" "i < maxElems h" using ids_in_range [OF assms(1)] assms(2) by auto
  obtain k where k: "idx (positions h) i = Some (int k)" "1 \<le> k" "k \<le> n" "tree h ! k = i" "old = mh_vals h ! k"
    using position_of [OF assms(1) r] assms(2) by (auto simp: n_def)
  have len: "k < length (tree h)" "k < length (mh_vals h)" using k I(4,5) by (simp_all add: n_def)
  have old: "old \<noteq> NaN"
    using mh_map_iff [OF I(7)] assms(2) fh_invD(3) [OF I(1)] by (fastforce simp: mh_entries_def)
  let ?h = "h\<lparr>mh_vals := (mh_vals h)[k := v]\<rparr>"
  have pl: "plain_heap ?h = (plain_heap h)\<lparr>fh_keys := (fh_keys (plain_heap h))[k := v]\<rparr>" by (simp add: plain_heap_def)
  have al: "all_placed n ?h" using I(2) by (simp add: all_placed_def Let_def n_def)
  obtain f' where f': "(if flt_less old v then percolateDownMinHeap (int k) (plain_heap ?h) else percolateUpMinHeap (int k) (plain_heap ?h)) = Some f'"
    "fh_inv NInf f'" "mset (fh_entries f') = mset ((mh_entries h)[k - 1 := (v, i)])"
    using replace_key [OF I(1) k(2), of v] k sz assms(3) unfolding pl by (auto simp: key_ok_NInf mh_entries_def)
  have "\<exists>h'. mh_Update i v h = Some h' \<and> all_placed n h' \<and> same_limits h h' \<and> fh_inv NInf (plain_heap h') \<and>
      mset (mh_entries h') = mset ((mh_entries h)[k - 1 := (v, i)]) \<and> length (tree h') = length (tree h)"
  proof -
    have u: "mh_Update i v h = (if flt_less old v then percolateDown (int k) ?h
        else if flt_less v old then percolateUp (int k) ?h else Some ?h)"
      using r k len by (simp add: mh_Update_def checkIdInRange_def Let_def)
    consider "flt_less old v" | "flt_less v old" "\<not> flt_less old v" | "\<not> flt_less v old" "\<not> flt_less old v" by blast
    then show ?thesis
    proof cases
      case 1
      then have d: "percolateDownMinHeap (int k) (plain_heap ?h) = Some f'" using f'(1) by simp
      have sz': "mh_size ?h = int n" using sz by simp
      obtain h' where h': "percolateDown (int k) ?h = Some h'" "plain_heap h' = f'" "all_placed n h'" "same_limits ?h h'"
        using percolateDown_placed [OF al k(2,3) sz' d] by blast
      have "length (elements f') = length (tree h)"
        using percolateDown_length [OF d] by simp
      then show ?thesis using u 1 h' f' by (auto simp: same_limits_def mh_entries_def)
    next
      case 2
      then have d: "percolateUpMinHeap (int k) (plain_heap ?h) = Some f'" using f'(1) by simp
      have nl: "\<not> flt_less (mh_vals ?h ! k) (mh_vals ?h ! 0)" using I(6) k(2) by (simp add: not_less_NInf)
      obtain h' where h': "percolateUp (int k) ?h = Some h'" "plain_heap h' = f'" "all_placed n h'" "same_limits ?h h'"
        using percolateUp_placed [OF al k(2,3) nl d] by blast
      have "length (elements f') = length (tree h)"
        using percolateUp_length [OF d] by simp
      then show ?thesis using u 2 h' f' by (auto simp: same_limits_def mh_entries_def)
    next
      case 3
      then have "v = old" using old assms(3) flt_le_antisym by (auto simp: flt_not_less)
      moreover have "mh_entries h ! (k - 1) = (old, i)" using k sz by (simp add: mh_entries_def fh_entries_def)
      ultimately have "?h = h" "(mh_entries h)[k - 1 := (v, i)] = mh_entries h" using k(5) by (simp_all add: list_update_same_conv, metis list_update_id)
      then show ?thesis using u 3 I by (simp add: n_def same_limits_def)
    qed
  qed
  then obtain h' where h': "mh_Update i v h = Some h'" "all_placed n h'" "same_limits h h'" "fh_inv NInf (plain_heap h')"
    "mset (mh_entries h') = mset ((mh_entries h)[k - 1 := (v, i)])" "length (tree h') = length (tree h)" by blast
  have e: "mh_entries h ! (k - 1) = (old, i)" "k - 1 < length (mh_entries h)" using k sz by (simp_all add: mh_entries_def fh_entries_def)
  have set: "set (mh_entries h') = insert (v, i) (set (mh_entries h) - {(old, i)})"
  proof -
    have "distinct (mh_entries h)" using I(7) by (simp add: distinct_map)
    then have "set ((mh_entries h)[k - 1 := (v, i)]) = insert (v, i) (set (mh_entries h) - {(old, i)})"
      using set_update_distinct [of "mh_entries h" "k - 1" "(v, i)"] e by simp
    then show ?thesis using h'(5) by (metis set_mset_mset)
  qed
  have lim: "mh_size h' = mh_size h" "maxElems h' = maxElems h" "length (positions h') = length (positions h)"
    using h'(3) by (simp_all add: same_limits_def)
  have inv: "mh_inv h'"
  proof (rule result_inv)
    show "\<forall>x \<in> set (mh_entries h'). snd x < maxElems h'" using assms(1) r set lim(2) by (auto simp: mh_inv_def)
  qed (use h' lim I(8,9) in \<open>simp_all add: n_def\<close>)
  have "mh_map h' = (mh_map h)(i \<mapsto> v)"
  proof (rule map_determined [OF assms(1) inv])
    fix w j
    show "(w, j) \<in> set (mh_entries h') \<longleftrightarrow> ((mh_map h)(i \<mapsto> v)) j = Some w"
      using set mh_map_iff [OF I(7), of j w] assms(2) by auto
  qed
  then show ?thesis using h'(1) inv lim(2) by blast
qed

lemma removed_placed:
  assumes "all_placed n h" "1 \<le> n"
  shows "all_placed (n - 1) (h\<lparr>tree := (tree h)[1 := tree h ! n], mh_vals := (mh_vals h)[1 := mh_vals h ! n],
    positions := (positions h)[nat (tree h ! n) := 1, nat (tree h ! 1) := notPresent], mh_size := m\<rparr>)"
proof -
  let ?t = "(tree h)[1 := tree h ! n]" and ?p = "(positions h)[nat (tree h ! n) := 1, nat (tree h ! 1) := notPresent]"
  have A: "n < length (tree h)" "length (mh_vals h) = length (tree h)" "inj_on (\<lambda>k. tree h ! k) {1..n}"
    "(\<lambda>k. tree h ! k) ` {1..n} \<subseteq> {0..<int (length (positions h))}"
    "\<forall>k \<in> {1..n}. positions h ! nat (tree h ! k) = int k"
    "\<forall>x. 0 \<le> x \<and> x < int (length (positions h)) \<and> x \<notin> (\<lambda>k. tree h ! k) ` {1..n} \<longrightarrow> positions h ! nat x = notPresent"
    using assms(1) by (simp_all add: all_placed_def Let_def)
  have ran: "0 \<le> tree h ! k" "nat (tree h ! k) < length (positions h)" if "k \<in> {1..n}" for k
    using A(4) that by (auto simp: image_subset_iff nat_less_iff)
  have ne: "nat (tree h ! k) \<noteq> nat (tree h ! l)" if "k \<in> {1..n}" "l \<in> {1..n}" "k \<noteq> l" for k l
    using inj_onD [OF A(3), of k l] that ran [OF that(1)] ran [OF that(2)] by (auto simp: eq_nat_nat_iff)
  have t: "?t ! k = (if k = 1 then tree h ! n else tree h ! k)" if "k \<in> {1..n}" for k using A(1) that by auto
  have pk: "?p ! nat (?t ! k) = int k" if "k \<in> {1..n - 1}" for k
  proof (cases "k = 1")
    have k: "k \<in> {1..n}" "k \<noteq> n" using that by auto
    case True
    then have "nat (tree h ! n) \<noteq> nat (tree h ! 1)" using ne [of n 1] k by auto
    then show ?thesis using True t [of 1] ran [of n] assms(2) k by auto
  next
    have k: "k \<in> {1..n}" "k \<noteq> n" using that by auto
    case False
    then have "nat (tree h ! k) \<noteq> nat (tree h ! n)" "nat (tree h ! k) \<noteq> nat (tree h ! 1)" using ne [of k n] ne [of k 1] k by auto
    then show ?thesis using False t [of k] A(5) k by auto
  qed
  have inj: "inj_on (\<lambda>k. ?t ! k) {1..n - 1}"
    by (rule inj_on_inverseI [of _ "\<lambda>x. nat (?p ! nat x)"]) (use pk in simp)
  have sub: "(\<lambda>k. ?t ! k) ` {1..n - 1} \<subseteq> {0..<int (length ?p)}"
    using t A(4) assms(2) by (auto simp: image_subset_iff)
  have rest: "?p ! nat x = notPresent" if x: "0 \<le> x" "x < int (length ?p)" "x \<notin> (\<lambda>k. ?t ! k) ` {1..n - 1}" for x
  proof (cases "x = tree h ! 1")
    case True
    then show ?thesis using ran [of 1] assms(2) by simp
  next
    case False
    have "x \<notin> (\<lambda>k. tree h ! k) ` {1..n}"
    proof
      assume "x \<in> (\<lambda>k. tree h ! k) ` {1..n}"
      then obtain k where k: "k \<in> {1..n}" "x = tree h ! k" by blast
      then have "k \<noteq> 1" using False by auto
      then have "x = ?t ! (if k = n then 1 else k)" using t [of k] t [of 1] k assms(2) by auto
      moreover have "(if k = n then 1 else k) \<in> {1..n - 1}" using k(1) \<open>k \<noteq> 1\<close> by auto
      ultimately show False using x(3) by blast
    qed
    then have "positions h ! nat x = notPresent" "x \<noteq> tree h ! n" using A(6) x assms(2) by auto
    then show ?thesis using False x(1) ran [of 1] ran [of n] assms(2) by (simp add: nth_list_update eq_nat_nat_iff)
  qed
  show ?thesis using A(1,2) inj sub pk rest unfolding all_placed_def Let_def by simp
qed

lemma Poll_ok:
  assumes "mh_inv h" "mh_map h \<noteq> Map.empty"
  shows "\<exists>i v h'. mh_Poll h = Some (i, h') \<and> mh_PeekValue h = Some v \<and> mh_map h i = Some v \<and>
    (\<forall>j w. mh_map h j = Some w \<longrightarrow> flt_le v w) \<and> mh_inv h' \<and> mh_map h' = (mh_map h)(i := None) \<and> maxElems h' = maxElems h"
proof -
  note I = mh_invD [OF assms(1)]
  define n where "n = nat (mh_size h)"
  have sz: "mh_size h = int n" using I(3) by (simp add: n_def)
  have ne: "mh_entries h \<noteq> []" using assms(2) by (auto simp: mh_map_def)
  then have n: "1 \<le> n" using size_entries [of h] by (cases "n = 0") (auto simp: n_def simp del: size_entries)
  obtain v i f' where f': "fh_Poll (plain_heap h) = Some (i, f')" "fh_PeekKey (plain_heap h) = Some v" "fh_inv NInf f'"
    "mset (mh_entries h) = add_mset (v, i) (mset (fh_entries f'))" "\<forall>x \<in> set (mh_entries h). flt_le v (fst x)"
    using fh_Poll_ok [OF I(1)] ne by (auto simp: mh_entries_def)
  have len: "n < length (tree h)" "n < length (mh_vals h)" using I(4,5) by (simp_all add: n_def)
  have one: "idx (tree h) 1 = Some (tree h ! 1)" "idx (mh_vals h) 1 = Some (mh_vals h ! 1)"
    "put (tree h) 1 x = Some ((tree h)[1 := x])" "put (mh_vals h) 1 y = Some ((mh_vals h)[1 := y])" for x y
    using idx_int [of "tree h" 1] idx_int [of "mh_vals h" 1] put_int [of "tree h" 1] put_int [of "mh_vals h" 1] len n by auto
  have i: "i = tree h ! 1" using f'(1) one sz n
    by (auto simp: fh_Poll_def fh_PeekElement_def fh_IsEmpty_def Let_def split: Option.bind_splits if_splits)
  let ?h = "h\<lparr>tree := (tree h)[1 := tree h ! n], mh_vals := (mh_vals h)[1 := mh_vals h ! n],
    positions := (positions h)[nat (tree h ! n) := 1, nat (tree h ! 1) := notPresent], mh_size := int n - 1\<rparr>"
  have al: "all_placed (n - 1) ?h" using removed_placed [of n h "int n - 1"] I(2) n by (simp add: n_def)
  have pl: "plain_heap ?h = (plain_heap h)\<lparr>elements := (tree h)[1 := tree h ! n], fh_keys := (mh_vals h)[1 := mh_vals h ! n],
    fh_size := int n - 1\<rparr>" by (simp add: plain_heap_def)
  have rest: "(if n \<noteq> 1 then percolateDownMinHeap 1 (plain_heap ?h) else Some (plain_heap ?h)) = Some f'"
    using f'(1) one len sz n unfolding pl
    by (cases "n = 1") (auto simp: fh_Poll_def fh_PeekElement_def fh_IsEmpty_def fill_hole_def Let_def split: Option.bind_splits if_splits)
  have ex: "\<exists>h'. (if n \<noteq> 1 then percolateDown 1 ?h else Some ?h) = Some h' \<and> plain_heap h' = f' \<and> all_placed (n - 1) h' \<and> same_limits ?h h'"
  proof (cases "n = 1")
    case True
    then show ?thesis using rest al by (simp add: same_limits_def)
  next
    case False
    then have d: "percolateDownMinHeap (int 1) (plain_heap ?h) = Some f'" using rest by simp
    have s: "1 \<le> n - 1" "mh_size ?h = int (n - 1)" using False n by auto
    show ?thesis using percolateDown_placed [OF al _ s d] False by auto
  qed
  then obtain h' where h': "(if n \<noteq> 1 then percolateDown 1 ?h else Some ?h) = Some h'" "plain_heap h' = f'" "all_placed (n - 1) h'"
    "same_limits ?h h'" by blast
  have ran: "tree h ! k \<in> {0..<int (length (positions h))}" if "k \<in> {1..n}" for k
    using I(2) that by (auto simp: all_placed_def Let_def n_def image_subset_iff)
  have put: "put (positions h) (tree h ! n) 1 = Some ((positions h)[nat (tree h ! n) := 1])"
    "put ((positions h)[nat (tree h ! n) := 1]) (tree h ! 1) notPresent =
      Some ((positions h)[nat (tree h ! n) := 1, nat (tree h ! 1) := notPresent])"
    using ran [of n] ran [of 1] n by (auto simp: put_def)
  have poll: "mh_Poll h = Some (i, h')"
    using one put len sz n h'(1) by (cases "n = 1") (auto simp: mh_Poll_def mh_PeekId_def i Let_def)
  have lim: "mh_size h' = int (n - 1)" "maxElems h' = maxElems h" "length (positions h') = length (positions h)"
    using h'(4) n by (auto simp: same_limits_def)
  have "length (elements f') = length (tree h)"
    using rest percolateDown_length [of 1 "plain_heap ?h" f'] by (cases "n = 1") auto
  then have lt: "length (tree h') = length (tree h)" using plain_lengths [OF h'(2)] by simp
  have ent: "mset (mh_entries h) = add_mset (v, i) (mset (mh_entries h'))" using f'(4) by (simp add: mh_entries_def h'(2))
  then have set: "set (mh_entries h) = insert (v, i) (set (mh_entries h'))" by (metis set_mset_add_mset_insert set_mset_mset)
  have inv: "mh_inv h'"
  proof (rule result_inv)
    show "\<forall>x \<in> set (mh_entries h'). snd x < maxElems h'" using assms(1) set lim(2) by (auto simp: mh_inv_def)
  qed (use h' f'(3) lim lt I(8,9) in simp_all)
  have vi: "mh_map h i = Some v" using mh_map_iff [OF I(7)] set by simp
  have "mh_map h' = (mh_map h)(i := None)"
  proof (rule map_determined [OF assms(1) inv])
    fix w j
    have "distinct (map snd (mh_entries h))" by (rule I(7))
    then have "mset (map snd (mh_entries h)) = add_mset i (mset (map snd (mh_entries h')))" "distinct (map snd (mh_entries h))"
      using arg_cong [OF ent, of "image_mset snd"] by simp_all
    then have "i \<notin> snd ` set (mh_entries h')"
      by (metis (no_types, lifting) distinct.simps(2) list.set_map mset.simps(2) mset_eq_imp_distinct_iff)
    then show "(w, j) \<in> set (mh_entries h') \<longleftrightarrow> ((mh_map h)(i := None)) j = Some w"
      using set mh_map_iff [OF I(7), of j w] by force
  qed
  moreover have "mh_PeekValue h = Some v" using f'(2) one sz n by (auto simp: mh_PeekValue_def fh_PeekKey_def split: if_splits)
  moreover have "flt_le v w" if "mh_map h j = Some w" for j w using mh_map_iff [OF I(7), of j w] that f'(5) by auto
  ultimately show ?thesis using poll vi inv lim(2) by blast
qed

end
