(* ===== verification/HeapFacts.thy ===== *)
theory HeapFacts imports UpdateHeap begin

text \<open>
  What the two heaps of the contraction promise their clients: an interface of a priority queue, which both
  provide, and their refinement of a multiset and of a map.
\<close>

section \<open>The interface\<close>

fun drain :: "('s \<Rightarrow> (int \<times> 's) option) \<Rightarrow> nat \<Rightarrow> 's \<Rightarrow> int list option" where
  "drain poll 0 s = Some []"
| "drain poll (Suc n) s = do { (e, s) \<leftarrow> poll s; es \<leftarrow> drain poll n s; Some (e # es) }"

locale priority_queue =
  fixes inv :: "'s \<Rightarrow> bool" and bag :: "'s \<Rightarrow> (flt \<times> int) multiset" and poll :: "'s \<Rightarrow> (int \<times> 's) option"
  assumes poll_least: "inv s \<Longrightarrow> bag s \<noteq> {#} \<Longrightarrow>
    \<exists>k e s'. poll s = Some (e, s') \<and> inv s' \<and> bag s = add_mset (k, e) (bag s') \<and> (\<forall>x \<in># bag s. flt_le k (fst x))"
begin

text \<open>Polling until nothing is left gives the elements in the order of their keys.\<close>

lemma drain_sorted:
  "inv s \<Longrightarrow> size (bag s) = n \<Longrightarrow>
    \<exists>kes. drain poll n s = Some (map snd kes) \<and> mset kes = bag s \<and> sorted_wrt flt_le (map fst kes)"
proof (induction n arbitrary: s)
  case (Suc n)
  then have "bag s \<noteq> {#}" by auto
  then obtain k e s' where p: "poll s = Some (e, s')" "inv s'" "bag s = add_mset (k, e) (bag s')" "\<forall>x \<in># bag s. flt_le k (fst x)"
    using poll_least [OF Suc.prems(1)] by blast
  then obtain kes where kes: "drain poll n s' = Some (map snd kes)" "mset kes = bag s'" "sorted_wrt flt_le (map fst kes)"
    using Suc by fastforce
  have "\<forall>x \<in> set kes. flt_le k (fst x)" using p(3,4) kes(2) by (metis insert_iff set_mset_add_mset_insert set_mset_mset)
  then show ?case using p kes by (intro exI [of _ "(k, e) # kes"]) simp
qed simp

end

definition fh_bag :: "float_heap \<Rightarrow> (flt \<times> int) multiset" where "fh_bag h = mset (fh_entries h)"

definition mh_bag :: "min_heap \<Rightarrow> (flt \<times> int) multiset" where "mh_bag h = mset (mh_entries h)"

definition float_heap_ok :: "float_heap \<Rightarrow> bool" where "float_heap_ok h \<longleftrightarrow> fh_inv (fneg MaxFloat32) h"

interpretation fq: priority_queue float_heap_ok fh_bag fh_Poll
proof
  fix h assume h: "float_heap_ok h" "fh_bag h \<noteq> {#}"
  have "fh_entries h \<noteq> []" using h(2) by (auto simp: fh_bag_def)
  then obtain k e h' where p: "fh_Poll h = Some (e, h')" "fh_inv (fneg MaxFloat32) h'"
    "mset (fh_entries h) = add_mset (k, e) (mset (fh_entries h'))" "\<forall>x \<in> set (fh_entries h). flt_le k (fst x)"
    using fh_Poll_ok [OF h(1) [unfolded float_heap_ok_def]] by blast
  show "\<exists>k e h'. fh_Poll h = Some (e, h') \<and> float_heap_ok h' \<and> fh_bag h = add_mset (k, e) (fh_bag h') \<and>
      (\<forall>x \<in># fh_bag h. flt_le k (fst x))"
    unfolding float_heap_ok_def fh_bag_def set_mset_mset using p by blast
qed

interpretation mq: priority_queue mh_inv mh_bag mh_Poll
proof
  fix h assume h: "mh_inv h" "mh_bag h \<noteq> {#}"
  have iff: "mh_map g i = Some v \<longleftrightarrow> (v, i) \<in> set (mh_entries g)" if "mh_inv g" for g i v
    by (rule mh_map_iff [OF mh_invD(7) [OF that]])
  have dis: "distinct (mh_entries g)" if "mh_inv g" for g using mh_invD(7) [OF that] by (simp add: distinct_map)
  have "mh_map h \<noteq> Map.empty" using h(2) by (auto simp: mh_bag_def mh_map_def)
  then obtain i v h' where p: "mh_Poll h = Some (i, h')" "mh_map h i = Some v" "\<forall>j w. mh_map h j = Some w \<longrightarrow> flt_le v w"
    "mh_inv h'" "mh_map h' = (mh_map h)(i := None)" using Poll_ok [OF h(1)] by blast
  have i: "(v, i) \<in> set (mh_entries h)" using p(2) iff [OF h(1)] by simp
  have "x \<in> set (mh_entries h') \<longleftrightarrow> x \<in> set (mh_entries h) \<and> x \<noteq> (v, i)" for x
  proof (cases x)
    case (Pair w j)
    have "(w, j) \<in> set (mh_entries h') \<longleftrightarrow> mh_map h' j = Some w" by (rule iff [OF p(4), symmetric])
    also have "\<dots> \<longleftrightarrow> mh_map h j = Some w \<and> (w, j) \<noteq> (v, i)" unfolding p(5) using p(2) by auto
    finally show ?thesis using Pair iff [OF h(1)] by simp
  qed
  then have "set (mh_entries h) = insert (v, i) (set (mh_entries h'))" "(v, i) \<notin> set (mh_entries h')"
    using i by blast+
  then have "set_mset (mset (mh_entries h)) = set_mset (mset ((v, i) # mh_entries h'))" "distinct ((v, i) # mh_entries h')"
    using dis [OF p(4)] by simp_all
  then have "mset (mh_entries h) = mset ((v, i) # mh_entries h')"
    using dis [OF h(1)] by (subst set_eq_iff_mset_eq_distinct [symmetric]) simp_all
  moreover have "\<forall>x \<in> set (mh_entries h). flt_le v (fst x)" using p(3) iff [OF h(1)] by auto
  ultimately show "\<exists>k e h'. mh_Poll h = Some (e, h') \<and> mh_inv h' \<and> mh_bag h = add_mset (k, e) (mh_bag h') \<and>
      (\<forall>x \<in># mh_bag h. flt_le k (fst x))"
    unfolding mh_bag_def set_mset_mset mset.simps using p(1,4) by blast
qed

section \<open>Properties\<close>

text \<open>
  C16. The heap with updates refines a map from ids to values: \<open>Contains\<close> is membership, \<open>Push\<close> adds an id that
  is not there and panics for one that is, \<open>Update\<close> replaces the value of an id, \<open>Poll\<close> removes an id whose
  value is least, and polling everything gives the ids in the order of their values.
\<close>

theorem min_heap_is_map:
  assumes "mh_inv h"
  shows "(\<forall>i. 0 \<le> i \<and> i < maxElems h \<longrightarrow> mh_Contains i h = Some (i \<in> dom (mh_map h))) \<and>
    (\<forall>i v. 0 \<le> i \<and> i < maxElems h \<and> v \<noteq> NaN \<and> i \<notin> dom (mh_map h) \<longrightarrow>
      (\<exists>h'. mh_Push i v h = Some h' \<and> mh_inv h' \<and> mh_map h' = (mh_map h)(i \<mapsto> v))) \<and>
    (\<forall>i v. i \<in> dom (mh_map h) \<longrightarrow> mh_Push i v h = None) \<and>
    (\<forall>i v. v \<noteq> NaN \<and> i \<in> dom (mh_map h) \<longrightarrow>
      (\<exists>h'. mh_Update i v h = Some h' \<and> mh_inv h' \<and> mh_map h' = (mh_map h)(i \<mapsto> v))) \<and>
    (mh_map h \<noteq> Map.empty \<longrightarrow> (\<exists>i v h'. mh_Poll h = Some (i, h') \<and> mh_map h i = Some v \<and>
      (\<forall>j w. mh_map h j = Some w \<longrightarrow> flt_le v w) \<and> mh_inv h' \<and> mh_map h' = (mh_map h)(i := None))) \<and>
    (\<exists>kes. drain mh_Poll (nat (mh_size h)) h = Some (map snd kes) \<and> mset kes = mh_bag h \<and> sorted_wrt flt_le (map fst kes))"
proof (intro conjI allI impI; (elim conjE)?)
  fix i v assume i: "i \<in> dom (mh_map h)"
  then have "mh_Contains i h = Some True" using contains_dom [OF assms] ids_in_range [OF assms i] by simp
  then show "mh_Push i v h = None" by (simp add: mh_Push_def split: option.split)
next
  show "\<exists>kes. drain mh_Poll (nat (mh_size h)) h = Some (map snd kes) \<and> mset kes = mh_bag h \<and> sorted_wrt flt_le (map fst kes)"
    by (rule mq.drain_sorted [OF assms]) (simp add: mh_bag_def)
next
  assume "mh_map h \<noteq> Map.empty"
  then show "\<exists>i v h'. mh_Poll h = Some (i, h') \<and> mh_map h i = Some v \<and>
      (\<forall>j w. mh_map h j = Some w \<longrightarrow> flt_le v w) \<and> mh_inv h' \<and> mh_map h' = (mh_map h)(i := None)"
    using Poll_ok [OF assms] by blast
qed (use contains_dom [OF assms] Push_ok [OF assms] Update_ok [OF assms] in blast)+

text \<open>
  C17. The heap of the witness searches refines a multiset of keys and elements: \<open>Insert\<close> adds the key, rounded
  to a \<open>float32\<close>, \<open>Update\<close> replaces the key of an element that occurs once, \<open>Poll\<close> panics on an empty heap
  and else removes an element with a least key, and polling everything gives the elements in the order of their
  keys. A new key is a number that is not below the least finite \<open>float32\<close>.
\<close>

theorem float_heap_is_multiset:
  assumes "float_heap_ok h"
  shows "(\<forall>k e. flt_le (fneg MaxFloat32) (f32_of_f64 k) \<longrightarrow>
      (\<exists>h'. fh_Insert k e h = Some h' \<and> float_heap_ok h' \<and> fh_bag h' = add_mset (f32_of_f64 k, e) (fh_bag h))) \<and>
    (\<forall>k old e. flt_le (fneg MaxFloat32) (f32_of_f64 k) \<and> (old, e) \<in># fh_bag h \<and> (\<forall>x \<in># fh_bag h - {#(old, e)#}. snd x \<noteq> e) \<longrightarrow>
      (\<exists>h'. fh_Update k e h = Some h' \<and> float_heap_ok h' \<and>
        fh_bag h' = add_mset (f32_of_f64 k, e) (fh_bag h - {#(old, e)#}))) \<and>
    (fh_bag h = {#} \<longrightarrow> fh_Poll h = None) \<and>
    (fh_bag h \<noteq> {#} \<longrightarrow> (\<exists>k e h'. fh_Poll h = Some (e, h') \<and> float_heap_ok h' \<and> fh_bag h = add_mset (k, e) (fh_bag h') \<and>
      (\<forall>x \<in># fh_bag h. flt_le k (fst x)))) \<and>
    (\<exists>kes. drain fh_Poll (nat (fh_size h)) h = Some (map snd kes) \<and> mset kes = fh_bag h \<and> sorted_wrt flt_le (map fst kes))"
proof (intro conjI allI impI; (elim conjE)?)
  note inv = assms [unfolded float_heap_ok_def]
  {
    fix k e assume "flt_le (fneg MaxFloat32) (f32_of_f64 k)"
    then show "\<exists>h'. fh_Insert k e h = Some h' \<and> float_heap_ok h' \<and> fh_bag h' = add_mset (f32_of_f64 k, e) (fh_bag h)"
      using fh_Insert_ok [OF inv] by (simp add: key_ok_def float_heap_ok_def fh_bag_def)
  next
    fix k old e assume "flt_le (fneg MaxFloat32) (f32_of_f64 k)" "(old, e) \<in># fh_bag h" "\<forall>x \<in># fh_bag h - {#(old, e)#}. snd x \<noteq> e"
    then show "\<exists>h'. fh_Update k e h = Some h' \<and> float_heap_ok h' \<and> fh_bag h' = add_mset (f32_of_f64 k, e) (fh_bag h - {#(old, e)#})"
      using fh_Update_ok [OF inv] by (simp add: key_ok_def float_heap_ok_def fh_bag_def)
  next
    assume "fh_bag h = {#}"
    then show "fh_Poll h = None" using fh_invD(5) [OF inv]
      by (auto simp: fh_bag_def fh_Poll_def fh_PeekElement_def fh_IsEmpty_def)
  next
    show "\<exists>kes. drain fh_Poll (nat (fh_size h)) h = Some (map snd kes) \<and> mset kes = fh_bag h \<and> sorted_wrt flt_le (map fst kes)"
      by (rule fq.drain_sorted [OF assms]) (simp add: fh_bag_def fh_entries_def)
  }
qed (use fq.poll_least [OF assms] in blast)

lemma mh_NewD:
  assumes "NewMinHeapWithUpdate n = Some h"
  shows "mh_inv h" "mh_map h = Map.empty" "maxElems h = n"
  using assms
  by (auto simp: NewMinHeapWithUpdate_def go_make_def put_def mh_inv_def fh_inv_def fh_wf_def arrays_ok_def all_placed_def
      fh_entries_def mh_entries_def heap_list_def is_heap_def mh_map_def notPresent_def split: if_splits)

theorem min_heap_is_map_witness:
  "\<exists>h h'. NewMinHeapWithUpdate 3 = Some h \<and> mh_Push 1 (Fin 5) h = Some h' \<and> mh_map h' = [1 \<mapsto> Fin 5]"
proof -
  have "\<exists>h. NewMinHeapWithUpdate 3 = Some h" by (simp add: NewMinHeapWithUpdate_def go_make_def put_def)
  then obtain h where h: "NewMinHeapWithUpdate 3 = Some h" ..
  note N = mh_NewD [OF h]
  from min_heap_is_map [OF N(1)] have "\<forall>i v. 0 \<le> i \<and> i < maxElems h \<and> v \<noteq> NaN \<and> i \<notin> dom (mh_map h) \<longrightarrow>
      (\<exists>h'. mh_Push i v h = Some h' \<and> mh_inv h' \<and> mh_map h' = (mh_map h)(i \<mapsto> v))" by (elim conjE)
  then have "\<exists>h'. mh_Push 1 (Fin 5) h = Some h' \<and> mh_map h' = [1 \<mapsto> Fin 5]" using N(2,3) by (auto dest!: spec [of _ 1] spec [of _ "Fin 5"])
  then show ?thesis using h by blast
qed

theorem float_heap_is_multiset_witness:
  "\<exists>h h'. NewIntFloatBinaryHeap 0 = Some h \<and> fh_Insert (Fin 0) 7 h = Some h' \<and> fh_bag h' = {#(Fin 0, 7)#}"
proof -
  have "\<exists>h. NewIntFloatBinaryHeap 0 = Some h" by (simp add: NewIntFloatBinaryHeap_def go_make_def put_def)
  then obtain h where h: "NewIntFloatBinaryHeap 0 = Some h" ..
  have N: "float_heap_ok h" "fh_bag h = {#}" using fh_NewD [OF h] by (simp_all add: float_heap_ok_def fh_bag_def)
  have k: "f32_of_f64 (Fin 0) = Fin 0" by (simp add: f32_def to_format_def)
  have le: "flt_le (fneg MaxFloat32) (Fin 0)" by (simp add: MaxFloat32_def)
  from float_heap_is_multiset [OF N(1)] have "\<forall>k e. flt_le (fneg MaxFloat32) (f32_of_f64 k) \<longrightarrow>
      (\<exists>h'. fh_Insert k e h = Some h' \<and> float_heap_ok h' \<and> fh_bag h' = add_mset (f32_of_f64 k, e) (fh_bag h))" by (elim conjE)
  from this [rule_format, of "Fin 0" 7] show ?thesis using h N(2) k le by auto
qed

end
