(* ===== verification/LongLongBTree.thy ===== *)
theory LongLongBTree imports GoFloat begin

text \<open>
  The B-tree from 64-bit keys to values of one to eight bytes (core/coll/gh\_long\_long\_btree.go): the entries,
  their split, insertion, look-up and compaction, and the tree with its size and height. Keys are only compared
  and are integers; values are 64-bit words, stored in \<open>bytesPerValue\<close> bytes.

  An entry is a value: an operation that changes what an entry points to returns the new entry, and the caller
  puts it in its place. The children of an entry are pointers, so a child is \<^const>\<open>None\<close> when it is nil. Of an
  entry that is split nothing is used afterwards but what the two new entries have copied.
\<close>

section \<open>Entries and the tree\<close>

datatype btree_entry = Entry (entrySize: int) (ekeys: "int list") (evals: "byte list")
  (children: "btree_entry option list") (isLeaf: bool)

record long_btree =
  emptyValue :: i64
  maxLeafEntries :: int
  initLeafSize :: int
  splitIndex :: int
  factor :: flt
  bt_size :: int
  bt_height :: int
  root :: btree_entry
  bytesPerValue :: int
  maxValue :: i64

definition set_vals :: "byte list \<Rightarrow> btree_entry \<Rightarrow> btree_entry" where
  "set_vals vs e = Entry (entrySize e) (ekeys e) vs (children e) (isLeaf e)"

definition set_children :: "btree_entry option list \<Rightarrow> btree_entry \<Rightarrow> btree_entry" where
  "set_children cs e = Entry (entrySize e) (ekeys e) (evals e) cs (isLeaf e)"

lemma set_sel [simp]:
  "entrySize (set_vals vs e) = entrySize e" "ekeys (set_vals vs e) = ekeys e" "evals (set_vals vs e) = vs"
  "children (set_vals vs e) = children e" "isLeaf (set_vals vs e) = isLeaf e"
  "entrySize (set_children cs e) = entrySize e" "ekeys (set_children cs e) = ekeys e" "evals (set_children cs e) = evals e"
  "children (set_children cs e) = cs" "isLeaf (set_children cs e) = isLeaf e"
  by (simp_all add: set_vals_def set_children_def)

text \<open>\<open>copy(dst[lo:hi], src)\<close>, which panics on bad bounds of the destination.\<close>

definition copy_slice :: "'a list \<Rightarrow> int \<Rightarrow> int \<Rightarrow> 'a list \<Rightarrow> 'a list option" where
  "copy_slice dst lo hi src = do { d \<leftarrow> slice dst lo hi; Some (copy_into dst (nat lo) (take (length d) src)) }"

definition newBTreeEntry :: "int \<Rightarrow> bool \<Rightarrow> int \<Rightarrow> btree_entry option" where
  "newBTreeEntry n leaf bpv = do {
     ks \<leftarrow> go_make n 0;
     vs \<leftarrow> go_make (n * bpv) 0;
     cs \<leftarrow> (if leaf then Some [] else go_make (n + 1) None);
     Some (Entry 0 ks vs cs leaf) }"

section \<open>Values as bytes\<close>

fun toLong_loop :: "byte list \<Rightarrow> int \<Rightarrow> nat \<Rightarrow> i64 \<Rightarrow> i64 option" where
  "toLong_loop b offset 0 res = Some res"
| "toLong_loop b offset (Suc i) res = do {
     x \<leftarrow> idx b (offset + int i);
     toLong_loop b offset i (res OR push_bit (i * 8) (ucast (x AND 0xFF))) }"

definition toLong :: "int \<Rightarrow> byte list \<Rightarrow> int \<Rightarrow> i64 option" where
  "toLong bpv b offset = do {
     x \<leftarrow> idx b (offset + bpv - 1);
     toLong_loop b offset (nat (bpv - 1)) (push_bit (nat ((bpv - 1) * 8)) (scast x)) }"

fun fromLong_loop :: "i64 \<Rightarrow> int \<Rightarrow> nat \<Rightarrow> nat \<Rightarrow> byte list \<Rightarrow> byte list option" where
  "fromLong_loop v offset i 0 bytes = Some bytes"
| "fromLong_loop v offset i (Suc n) bytes = do {
     bytes \<leftarrow> put bytes (offset + int i) (ucast (signed_drop_bit (i * 8) v));
     fromLong_loop v offset (Suc i) n bytes }"

definition fromLongInto :: "int \<Rightarrow> byte list \<Rightarrow> i64 \<Rightarrow> int \<Rightarrow> byte list option" where
  "fromLongInto bpv bytes v offset = fromLong_loop v offset 0 (nat bpv) bytes"

definition FromLong :: "int \<Rightarrow> i64 \<Rightarrow> byte list option" where
  "FromLong bpv v = do { bytes \<leftarrow> go_make bpv 0; fromLongInto bpv bytes v 0 }"

definition ToLong :: "int \<Rightarrow> byte list \<Rightarrow> i64 option" where
  "ToLong bpv b = toLong bpv b 0"

section \<open>Binary search\<close>

text \<open>The indices are not negative when they are halved, so the unsigned shift is a division by two.\<close>

function search_loop :: "int list \<Rightarrow> int \<Rightarrow> int \<Rightarrow> int \<Rightarrow> int option" where
  "search_loop ks key low high =
     (if high - low > 1 then do {
        k \<leftarrow> idx ks ((high + low) div 2);
        if k < key then search_loop ks key ((high + low) div 2) high else search_loop ks key low ((high + low) div 2) }
      else Some high)"
  by pat_completeness auto
termination by (relation "measure (\<lambda>(ks, key, low, high). nat (high - low))") auto

declare search_loop.simps [simp del]

definition binarySearch :: "int list \<Rightarrow> int \<Rightarrow> int \<Rightarrow> int \<Rightarrow> int option" where
  "binarySearch ks start len key = do {
     high \<leftarrow> search_loop ks key (start - 1) (start + len);
     if high = start + len then Some (NOT (start + len))
     else do { k \<leftarrow> idx ks high; Some (if k = key then high else NOT high) } }"

section \<open>Insertion into an entry\<close>

definition grown_size :: "int \<Rightarrow> flt \<Rightarrow> int" where
  "grown_size n f = int64_of_f64 (f32_of_f64 (fmul (f32 (of_int n)) f))"

definition ensureSize :: "int \<Rightarrow> long_btree \<Rightarrow> btree_entry \<Rightarrow> btree_entry option" where
  "ensureSize n t e =
     (if n \<le> int (length (ekeys e)) then Some e
      else let newSize = min (maxLeafEntries t) (max (n + 1) (grown_size n (factor t))) in do {
        ks \<leftarrow> go_make newSize 0;
        vs \<leftarrow> go_make (newSize * bytesPerValue t) 0;
        cs \<leftarrow> (if isLeaf e then Some (children e)
              else do { cs \<leftarrow> go_make (newSize + 1) None; Some (copy_into cs 0 (children e)) });
        Some (Entry (entrySize e) (copy_into ks 0 (ekeys e)) (copy_into vs 0 (evals e)) cs (isLeaf e)) })"

text \<open>The elements from \<open>index\<close> on move one place to the right.\<close>

definition shift_from :: "int \<Rightarrow> int \<Rightarrow> int \<Rightarrow> btree_entry \<Rightarrow> btree_entry option" where
  "shift_from index count bpv e = do {
     ksrc \<leftarrow> slice (ekeys e) index (index + count);
     ks \<leftarrow> copy_slice (ekeys e) (index + 1) (index + 1 + count) ksrc;
     vsrc \<leftarrow> slice (evals e) (index * bpv) ((index + count) * bpv);
     vs \<leftarrow> copy_slice (evals e) ((index + 1) * bpv) ((index + 1 + count) * bpv) vsrc;
     cs \<leftarrow> (if isLeaf e then Some (children e)
           else do {
             csrc \<leftarrow> slice (children e) (index + 1) (index + 1 + count);
             copy_slice (children e) (index + 2) (index + 2 + count) csrc });
     Some (Entry (entrySize e) ks vs cs (isLeaf e)) }"

definition insertKeyValue :: "int \<Rightarrow> int \<Rightarrow> byte list \<Rightarrow> long_btree \<Rightarrow> btree_entry \<Rightarrow> btree_entry option" where
  "insertKeyValue index key newValue t e = do {
     e \<leftarrow> ensureSize (entrySize e + 1) t e;
     e \<leftarrow> (if entrySize e - index > 0 then shift_from index (entrySize e - index) (bytesPerValue t) e else Some e);
     ks \<leftarrow> put (ekeys e) index key;
     vs \<leftarrow> copy_slice (evals e) (index * bytesPerValue t) ((index + 1) * bytesPerValue t) newValue;
     Some (Entry (entrySize e + 1) ks vs (children e) (isLeaf e)) }"

definition insertTree :: "int \<Rightarrow> btree_entry \<Rightarrow> long_btree \<Rightarrow> btree_entry \<Rightarrow> btree_entry option" where
  "insertTree index tree t e = do {
     key \<leftarrow> idx (ekeys tree) 0;
     v \<leftarrow> slice (evals tree) 0 (bytesPerValue t);
     e \<leftarrow> insertKeyValue index key v t e;
     if isLeaf e then Some e
     else do {
       l \<leftarrow> idx (children tree) 0;
       cs \<leftarrow> put (children e) index l;
       r \<leftarrow> idx (children tree) 1;
       cs \<leftarrow> put cs (index + 1) r;
       Some (set_children cs e) } }"

section \<open>Splitting a full entry\<close>

definition copyEntry :: "btree_entry \<Rightarrow> btree_entry \<Rightarrow> int \<Rightarrow> int \<Rightarrow> int \<Rightarrow> btree_entry option" where
  "copyEntry from' to' fromIdx count bpv = do {
     ksrc \<leftarrow> slice (ekeys from') fromIdx (fromIdx + count);
     ks \<leftarrow> copy_slice (ekeys to') 0 count ksrc;
     vsrc \<leftarrow> slice (evals from') (fromIdx * bpv) ((fromIdx + count) * bpv);
     vs \<leftarrow> copy_slice (evals to') 0 (count * bpv) vsrc;
     cs \<leftarrow> (if isLeaf from' then Some (children to')
           else do {
             csrc \<leftarrow> slice (children from') fromIdx (fromIdx + count + 1);
             copy_slice (children to') 0 (count + 1) csrc });
     Some (Entry count ks vs cs (isLeaf to')) }"

definition checkSplitEntry :: "long_btree \<Rightarrow> btree_entry \<Rightarrow> btree_entry option option" where
  "checkSplitEntry t e =
     (if entrySize e < maxLeafEntries t then Some None
      else let bpv = bytesPerValue t; splitIdx = splitIndex t; count = entrySize e - splitIdx - 1 in do {
        right \<leftarrow> newBTreeEntry (max (initLeafSize t) count) (isLeaf e) bpv;
        right \<leftarrow> copyEntry e right (splitIdx + 1) count bpv;
        left \<leftarrow> newBTreeEntry (max (initLeafSize t) splitIdx) (isLeaf e) bpv;
        left \<leftarrow> copyEntry e left 0 splitIdx bpv;
        parent \<leftarrow> newBTreeEntry 1 False bpv;
        k \<leftarrow> idx (ekeys e) splitIdx;
        ks \<leftarrow> put (ekeys parent) 0 k;
        v \<leftarrow> slice (evals e) (splitIdx * bpv) ((splitIdx + 1) * bpv);
        vs \<leftarrow> copy_slice (evals parent) 0 bpv v;
        cs \<leftarrow> put (children parent) 0 (Some left);
        cs \<leftarrow> put cs 1 (Some right);
        Some (Some (Entry 1 ks vs cs False)) })"

section \<open>Putting into an entry and looking up\<close>

text \<open>An operation on a child: a nil child panics.\<close>

definition with_child :: "int \<Rightarrow> (btree_entry \<Rightarrow> btree_entry option) \<Rightarrow> btree_entry \<Rightarrow> btree_entry option" where
  "with_child i f e = do {
     p \<leftarrow> idx (children e) i;
     c \<leftarrow> p;
     c \<leftarrow> f c;
     cs \<leftarrow> put (children e) i (Some c);
     Some (set_children cs e) }"

text \<open>The insertion \<open>ins\<close> at an index of a full entry goes to one of its halves.\<close>

definition split_insert ::
  "int \<Rightarrow> (int \<Rightarrow> btree_entry \<Rightarrow> btree_entry option) \<Rightarrow> long_btree \<Rightarrow> btree_entry \<Rightarrow> (btree_entry \<times> btree_entry option) option" where
  "split_insert index ins t e = do {
     s \<leftarrow> checkSplitEntry t e;
     case s of
       None \<Rightarrow> do { e \<leftarrow> ins index e; Some (e, None) }
     | Some p \<Rightarrow>
         if index \<le> splitIndex t then do { p \<leftarrow> with_child 0 (ins index) p; Some (e, Some p) }
         else do { p \<leftarrow> with_child 1 (ins (index - splitIndex t - 1)) p; Some (e, Some p) } }"

definition put_here :: "int \<Rightarrow> int \<Rightarrow> i64 \<Rightarrow> long_btree \<Rightarrow> btree_entry \<Rightarrow> (btree_entry \<times> btree_entry option) option" where
  "put_here index key newValue t e = do {
     v \<leftarrow> FromLong (bytesPerValue t) newValue;
     split_insert index (\<lambda>i. insertKeyValue i key v t) t e }"

lemma size_child:
  assumes "Some c \<in> set (children e)"
  shows "size c < size e"
proof (cases e)
  case (Entry n ks vs cs l)
  have "size c < size_list (size_option size) xs" if "Some c \<in> set xs" for xs
    using that by (induction xs) auto
  from this [of cs] show ?thesis using assms Entry by (simp add: less_SucI)
qed

lemma idx_in_set: "idx xs i = Some x \<Longrightarrow> x \<in> set xs"
  by (auto simp: idx_Some_iff)

function put_entry ::
  "int \<Rightarrow> i64 \<Rightarrow> long_btree \<Rightarrow> btree_entry \<Rightarrow> (btree_entry \<times> byte list option \<times> btree_entry option) option" where
  "put_entry key newValue t e =
     (case binarySearch (ekeys e) 0 (entrySize e) key of
        None \<Rightarrow> None
      | Some index \<Rightarrow>
          if index \<ge> 0 then do {
            old \<leftarrow> slice (evals e) (index * bytesPerValue t) ((index + 1) * bytesPerValue t);
            vs \<leftarrow> fromLongInto (bytesPerValue t) (evals e) newValue (index * bytesPerValue t);
            Some (set_vals vs e, Some old, None) }
          else if isLeaf e then do {
            (e, s) \<leftarrow> put_here (NOT index) key newValue t e;
            Some (e, None, s) }
          else (case idx (children e) (NOT index) of
              None \<Rightarrow> None
            | Some None \<Rightarrow> do { (e, s) \<leftarrow> put_here (NOT index) key newValue t e; Some (e, None, s) }
            | Some (Some c) \<Rightarrow> do {
                (c, old, tree) \<leftarrow> put_entry key newValue t c;
                cs \<leftarrow> put (children e) (NOT index) (Some c);
                let e = set_children cs e;
                case old of
                  Some _ \<Rightarrow> Some (e, old, tree)
                | None \<Rightarrow> (case tree of
                      None \<Rightarrow> Some (e, None, None)
                    | Some tr \<Rightarrow> do {
                        (e, s) \<leftarrow> split_insert (NOT index) (\<lambda>i. insertTree i tr t) t e;
                        Some (e, None, s) }) }))"
  by pat_completeness auto
termination
  by (relation "measure (\<lambda>(key, v, t, e). size e)") (auto intro!: size_child dest: idx_in_set)

declare put_entry.simps [simp del]

function get_entry :: "int \<Rightarrow> long_btree \<Rightarrow> btree_entry \<Rightarrow> i64 option" where
  "get_entry key t e =
     (case binarySearch (ekeys e) 0 (entrySize e) key of
        None \<Rightarrow> None
      | Some index \<Rightarrow>
          if index \<ge> 0 then toLong (bytesPerValue t) (evals e) (index * bytesPerValue t)
          else if isLeaf e then Some (emptyValue t)
          else (case idx (children e) (NOT index) of
              None \<Rightarrow> None
            | Some None \<Rightarrow> Some (emptyValue t)
            | Some (Some c) \<Rightarrow> get_entry key t c))"
  by pat_completeness auto
termination
  by (relation "measure (\<lambda>(key, t, e). size e)") (auto intro!: size_child dest: idx_in_set)

declare get_entry.simps [simp del]

section \<open>Memory\<close>

text \<open>The children of the entry, visited in order; nil children are passed over.\<close>

fun visit_children :: "(btree_entry \<Rightarrow> btree_entry option) \<Rightarrow> btree_entry option list \<Rightarrow> btree_entry option list option" where
  "visit_children f [] = Some []"
| "visit_children f (None # cs) = do { cs \<leftarrow> visit_children f cs; Some (None # cs) }"
| "visit_children f (Some c # cs) = do { c \<leftarrow> f c; cs \<leftarrow> visit_children f cs; Some (Some c # cs) }"

lemma visit_children_cong [fundef_cong]:
  "cs = ds \<Longrightarrow> (\<And>c. Some c \<in> set ds \<Longrightarrow> f c = g c) \<Longrightarrow> visit_children f cs = visit_children g ds"
  by (induction g ds arbitrary: cs rule: visit_children.induct) (auto cong: Option.bind_cong)

text \<open>An entry with more than one spare place gives its slices the length it uses.\<close>

definition shrink :: "int \<Rightarrow> btree_entry \<Rightarrow> btree_entry option" where
  "shrink bpv e =
     (if entrySize e + 1 < int (length (ekeys e)) then do {
        ks \<leftarrow> go_make (entrySize e) 0;
        vs \<leftarrow> go_make (entrySize e * bpv) 0;
        cs \<leftarrow> (if isLeaf e then Some (children e)
              else do { cs \<leftarrow> go_make (entrySize e + 1) None; Some (copy_into cs 0 (children e)) });
        Some (Entry (entrySize e) (copy_into ks 0 (ekeys e)) (copy_into vs 0 (evals e)) cs (isLeaf e)) }
      else Some e)"

lemma shrink_children:
  assumes "shrink bpv e = Some e'" "Some c \<in> set (children e')"
  shows "Some c \<in> set (children e)"
  using assms by (auto simp: shrink_def copy_into_def go_make_def split: if_splits dest: in_set_takeD)

function compact :: "int \<Rightarrow> btree_entry \<Rightarrow> btree_entry option" where
  "compact bpv e =
     (case shrink bpv e of
        None \<Rightarrow> None
      | Some e' \<Rightarrow>
          if isLeaf e' then Some e'
          else do { cs \<leftarrow> visit_children (compact bpv) (children e'); Some (set_children cs e') })"
  by pat_completeness auto
termination
  by (relation "measure (\<lambda>(bpv, e). size e)") (auto intro!: size_child dest: shrink_children)

declare compact.simps [simp del]

fun getCapacity :: "btree_entry \<Rightarrow> int" where
  "getCapacity (Entry n ks vs cs leaf) =
     int (length ks) * (8 + 4) + 3 * 12 + 4 + 1 +
     (if leaf then 0
      else int (length cs) * 8 + sum_list (map (\<lambda>c. case c of None \<Rightarrow> 0 | Some c \<Rightarrow> getCapacity c) cs))"

section \<open>The tree\<close>

definition bt_Clear :: "long_btree \<Rightarrow> long_btree option" where
  "bt_Clear t = do {
     r \<leftarrow> newBTreeEntry (initLeafSize t) True (bytesPerValue t);
     Some (t\<lparr>bt_size := 0, bt_height := 1, root := r\<rparr>) }"

definition NewGHLongLongBTree :: "int \<Rightarrow> int \<Rightarrow> i64 \<Rightarrow> long_btree option" where
  "NewGHLongLongBTree maxLeaf bytes noValue =
     (if bytes > 8 then None
      else if maxLeaf < 1 then None
      else if bytes * 8 - 1 < 0 then None
      else let
        maxV = push_bit (nat (bytes * 8 - 1)) 1 - 1;
        maxLeaf = (if maxLeaf mod 2 = 0 then maxLeaf + 1 else maxLeaf);
        (f, init) = (if maxLeaf < 10 then (Fin 2, 1) else if maxLeaf < 20 then (Fin 2, 4) else (f32 (17 / 10), maxLeaf div 10))
      in bt_Clear \<lparr>emptyValue = noValue, maxLeafEntries = maxLeaf, initLeafSize = init, splitIndex = maxLeaf div 2, factor = f,
           bt_size = 0, bt_height = 0, root = Entry 0 [] [] [] True, bytesPerValue = bytes, maxValue = maxV\<rparr>)"

definition bt_Optimize :: "long_btree \<Rightarrow> long_btree option" where
  "bt_Optimize t =
     (if bt_size t > 10000 then do { r \<leftarrow> compact (bytesPerValue t) (root t); Some (t\<lparr>root := r\<rparr>) } else Some t)"

definition bt_Put :: "int \<Rightarrow> i64 \<Rightarrow> long_btree \<Rightarrow> (i64 \<times> long_btree) option" where
  "bt_Put key v t =
     (if sint v > sint (maxValue t) then None
      else if v = emptyValue t then None
      else do {
        (r, old, tree) \<leftarrow> put_entry key v t (root t);
        let t = (case tree of None \<Rightarrow> t\<lparr>root := r\<rparr> | Some p \<Rightarrow> t\<lparr>bt_height := bt_height t + 1, root := p\<rparr>);
        case old of
          None \<Rightarrow> do {
            let t = t\<lparr>bt_size := bt_size t + 1\<rparr>;
            t \<leftarrow> (if bt_size t mod 1000000 = 0 then bt_Optimize t else Some t);
            Some (emptyValue t, t) }
        | Some b \<Rightarrow> do { x \<leftarrow> toLong (bytesPerValue t) b 0; Some (x, t) } })"

definition bt_Get :: "int \<Rightarrow> long_btree \<Rightarrow> i64 option" where
  "bt_Get key t = get_entry key t (root t)"

definition bt_GetMemoryUsage :: "long_btree \<Rightarrow> int" where
  "bt_GetMemoryUsage t = getCapacity (root t) div 2 ^ 20"

end
