(* ===== verification/BTreeEntries.thy ===== *)
theory BTreeEntries imports LongLongBTree begin

text \<open>
  The operations on one entry of the B-tree: the bytes of a value, the binary search, insertion, splitting and
  compaction, each against the list of the keys with their bytes and the list of the children.
\<close>

section \<open>Bytes of a value\<close>

definition long_bytes :: "nat \<Rightarrow> i64 \<Rightarrow> byte list" where
  "long_bytes b v = map (\<lambda>i. ucast (signed_drop_bit (i * 8) v)) [0..<b]"

definition bytes_long :: "byte list \<Rightarrow> i64" where
  "bytes_long bs = the (toLong (int (length bs)) bs 0)"

lemma length_long_bytes [simp]: "length (long_bytes b v) = b"
  by (simp add: long_bytes_def)

lemma fromLong_loop_spec:
  "i + n = b \<Longrightarrow> o' + b \<le> length bytes \<Longrightarrow> (\<forall>k < i. bytes ! (o' + k) = long_bytes b v ! k) \<Longrightarrow>
    \<exists>r. fromLong_loop v (int o') i n bytes = Some r \<and> length r = length bytes \<and>
      (\<forall>k < length bytes. r ! k = (if o' \<le> k \<and> k < o' + b then long_bytes b v ! (k - o') else bytes ! k))"
proof (induction n arbitrary: i bytes)
  case 0
  have "bytes ! k = long_bytes b v ! (k - o')" if "o' \<le> k" "k < o' + b" for k
    using 0 that by (metis add_diff_inverse_nat add_0_right le_add_diff_inverse nat_add_left_cancel_less)
  then show ?case by simp
next
  case (Suc n)
  let ?x = "ucast (signed_drop_bit (i * 8) v) :: byte"
  let ?bs = "bytes[o' + i := ?x]"
  have p: "put bytes (int o' + int i) ?x = Some ?bs" using Suc.prems(1,2) by (simp add: put_def nat_add_distrib)
  have "\<forall>k < Suc i. ?bs ! (o' + k) = long_bytes b v ! k"
    using Suc.prems by (auto simp: nth_list_update long_bytes_def less_Suc_eq)
  then obtain r where r: "fromLong_loop v (int o') (Suc i) n ?bs = Some r" "length r = length ?bs"
    "\<forall>k < length ?bs. r ! k = (if o' \<le> k \<and> k < o' + b then long_bytes b v ! (k - o') else ?bs ! k)"
    using Suc.IH [of "Suc i" ?bs] Suc.prems(1,2) by fastforce
  then show ?case using p Suc.prems(1) by (auto simp: nth_list_update)
qed

lemma fromLongInto_spec:
  assumes "k + b \<le> length bytes"
  shows "fromLongInto (int b) bytes v (int k) = Some (copy_into bytes k (long_bytes b v))"
proof -
  obtain r where r: "fromLong_loop v (int k) 0 b bytes = Some r" "length r = length bytes"
    "\<forall>j < length bytes. r ! j = (if k \<le> j \<and> j < k + b then long_bytes b v ! (j - k) else bytes ! j)"
    using fromLong_loop_spec [of 0 b b k bytes v] assms by auto
  have "r = copy_into bytes k (long_bytes b v)"
    using r assms by (intro nth_equalityI) (auto simp: nth_copy_into)
  then show ?thesis using r(1) by (simp add: fromLongInto_def)
qed

lemma FromLong_spec: "FromLong (int b) v = Some (long_bytes b v)"
  using fromLongInto_spec [of 0 b "replicate b 0" v]
  by (simp add: FromLong_def go_make_def copy_into_def)

lemma toLong_loop_shift:
  "i \<le> length bs \<Longrightarrow> k + length bs \<le> length b \<Longrightarrow> take (length bs) (drop k b) = bs \<Longrightarrow>
    toLong_loop b (int k) i r = toLong_loop bs 0 i r"
proof (induction i arbitrary: r)
  case (Suc i)
  have "bs ! i = b ! (k + i)" using Suc.prems by (metis Suc_le_lessD add_leE nth_drop nth_take)
  then show ?case using Suc by (simp add: idx_def nat_add_distrib nat_less_iff)
qed simp

lemma toLong_loop_some: "i \<le> length bs \<Longrightarrow> \<exists>v. toLong_loop bs 0 i r = Some v"
  by (induction i arbitrary: r) (auto simp: idx_def)

lemma toLong_spec:
  assumes "0 < b" "k + b \<le> length bs"
  shows "toLong (int b) bs (int k) = Some (bytes_long (take b (drop k bs)))"
proof -
  let ?t = "take b (drop k bs)"
  have t: "length ?t = b" using assms by simp
  have i: "idx bs (int k + int b - 1) = Some (?t ! (b - 1))" "idx ?t (int b - 1) = Some (?t ! (b - 1))"
    using assms by (simp_all add: idx_def nat_diff_distrib' nat_add_distrib)
  have "toLong_loop bs (int k) (b - 1) r = toLong_loop ?t 0 (b - 1) r" for r
    using assms by (intro toLong_loop_shift) auto
  moreover have "nat (int b - 1) = b - 1" using assms by simp
  ultimately have "toLong (int b) bs (int k) = toLong (int b) ?t 0"
    using i by (simp add: toLong_def)
  moreover have "\<exists>v. toLong (int b) ?t 0 = Some v"
    using toLong_loop_some [of "b - 1" ?t] t i \<open>nat (int b - 1) = b - 1\<close> by (simp add: toLong_def)
  ultimately show ?thesis using t by (auto simp: bytes_long_def)
qed

lemma toLong_loop_bits:
  "i \<le> length bs \<Longrightarrow> toLong_loop bs 0 i r = Some v \<Longrightarrow> j < 64 \<Longrightarrow> i \<le> 7 \<Longrightarrow>
    bit v j \<longleftrightarrow> bit r j \<or> j < 8 * i \<and> bit (bs ! (j div 8)) (j mod 8)"
proof (induction i arbitrary: r)
  case (Suc i)
  let ?r = "r OR push_bit (i * 8) (ucast (bs ! i AND 0xFF))"
  have v: "toLong_loop bs 0 i ?r = Some v" using Suc.prems by (simp add: idx_def)
  have m: "(bs ! i AND 0xFF) = bs ! i" proof -
    have "x AND 0xFF = x" for x :: byte
    proof -
      have "(0xFF :: byte) = mask 8" by (simp add: mask_eq_exp_minus_1)
      moreover have "x AND mask 8 = take_bit 8 x" by (simp add: take_bit_eq_mask)
      ultimately show ?thesis by (simp add: take_bit_word_eq_self)
    qed
    then show ?thesis .
  qed
  have b: "bit ?r j \<longleftrightarrow> bit r j \<or> (i * 8 \<le> j \<and> j < Suc i * 8 \<and> bit (bs ! (j div 8)) (j mod 8))"
  proof (cases "i * 8 \<le> j \<and> j < Suc i * 8")
    case True
    then have d: "j div 8 = i" by (intro div_nat_eqI) auto
    then have "j mod 8 = j - i * 8" using minus_div_mult_eq_mod [of j 8] by simp
    note d this
    then show ?thesis using True Suc.prems(3) m by (auto simp: bit_or_iff bit_push_bit_iff bit_ucast_iff)
  next
    case False
    then have "\<not> bit (push_bit (i * 8) (ucast (bs ! i)) :: i64) j"
      by (auto simp: bit_push_bit_iff bit_ucast_iff dest: bit_imp_le_length)
    then show ?thesis using False m by (auto simp: bit_or_iff)
  qed
  show ?case using Suc.IH [OF _ v Suc.prems(3)] Suc.prems b by auto
qed simp

lemma long_round_trip_bits:
  assumes "0 < b" "b \<le> 8"
  shows "bytes_long (long_bytes b v) = signed_take_bit (8 * b - 1) v"
proof -
  let ?bs = "long_bytes b v"
  let ?r = "push_bit ((b - 1) * 8) (scast (?bs ! (b - 1))) :: i64"
  obtain w where w: "toLong_loop ?bs 0 (b - 1) ?r = Some w"
    using toLong_loop_some [of "b - 1" ?bs] by auto
  have n: "nat (int b - 1) = b - 1" "nat ((int b - 1) * 8) = (b - 1) * 8" using assms by auto
  have "bytes_long ?bs = w"
    using w assms n by (simp add: bytes_long_def toLong_def idx_def)
  moreover have "w = signed_take_bit (8 * b - 1) v"
  proof (rule bit_word_eqI)
    fix j assume "j < LENGTH(64)"
    then have j: "j < 64" by simp
    have bs: "bit (?bs ! i) k \<longleftrightarrow> k < 8 \<and> bit v (min (i * 8 + k) 63)" if "i < b" for i k
      using that assms by (auto simp: long_bytes_def bit_ucast_iff bit_signed_drop_bit_iff min_def not_le
        dest: bit_imp_le_length)
    show "bit w j \<longleftrightarrow> bit (signed_take_bit (8 * b - 1) v) j"
    proof (cases "j < 8 * (b - 1)")
      case True
      have d: "j div 8 < b" using True by linarith
      have jj: "j div 8 * 8 + j mod 8 = j" by simp
      have "\<not> bit ?r j" using True by (simp add: bit_push_bit_iff)
      then have "bit w j \<longleftrightarrow> bit (?bs ! (j div 8)) (j mod 8)"
        using toLong_loop_bits [OF _ w j] True assms by simp
      also have "\<dots> \<longleftrightarrow> bit v j" using bs [OF d, of "j mod 8"] jj j by (simp add: min_def)
      also have "\<dots> \<longleftrightarrow> bit (signed_take_bit (8 * b - 1) v) j"
        using True j min_absorb1 [of j "8 * b - 1"] by (simp add: bit_signed_take_bit_iff)
      finally show ?thesis .
    next
      case False
      have "bit w j \<longleftrightarrow> bit ?r j" using toLong_loop_bits [OF _ w j] False assms by simp
      also have "\<dots> \<longleftrightarrow> bit (?bs ! (b - 1)) (min (j - (b - 1) * 8) 7)"
        using False j by (auto simp: bit_push_bit_iff bit_signed_iff min_def not_le)
      also have "\<dots> \<longleftrightarrow> bit v (min ((b - 1) * 8 + min (j - (b - 1) * 8) 7) 63)"
        using assms by (subst bs) auto
      also have "min ((b - 1) * 8 + min (j - (b - 1) * 8) 7) 63 = min j (8 * b - 1)"
        using False j assms by (auto simp: min_def)
      finally show ?thesis using j by (simp add: bit_signed_take_bit_iff min.commute)
    qed
  qed
  ultimately show ?thesis by simp
qed

section \<open>Binary search\<close>

lemma search_loop_spec:
  assumes "sorted_wrt (<) (ks :: int list)" "low < high" "0 \<le> low + 1" "high \<le> int (length ks)"
    "\<forall>k. int k \<le> low \<longrightarrow> k < length ks \<longrightarrow> ks ! k < key" "\<forall>k < length ks. high \<le> int k \<longrightarrow> key \<le> ks ! k"
  shows "\<exists>h. search_loop ks key low high = Some (int h) \<and> h \<le> length ks \<and>
    (\<forall>k < h. ks ! k < key) \<and> (\<forall>k < length ks. h \<le> k \<longrightarrow> key \<le> ks ! k)"
  using assms
proof (induction ks key low high rule: search_loop.induct)
  case (1 ks key low high)
  show ?case
  proof (cases "high - low > 1")
    case False
    then have "search_loop ks key low high = Some (int (nat high))" "high = low + 1"
      using "1.prems" by (simp_all add: search_loop.simps)
    then show ?thesis using "1.prems" by (intro exI [of _ "nat high"]) auto
  next
    case True
    let ?g = "(high + low) div 2"
    have g: "low < ?g" "?g < high" "0 \<le> ?g" using True "1.prems"(3) by auto
    then have k: "idx ks ?g = Some (ks ! nat ?g)" using "1.prems"(4) by (simp add: idx_def)
    have mono: "ks ! i < ks ! j" if "i < j" "j < length ks" for i j
      using "1.prems"(1) that by (simp add: sorted_wrt_iff_nth_less)
    show ?thesis
    proof (cases "ks ! nat ?g < key")
      case c: True
      have "\<forall>k. int k \<le> ?g \<longrightarrow> k < length ks \<longrightarrow> ks ! k < key"
      proof (intro allI impI)
        fix k assume k: "int k \<le> ?g" "k < length ks"
        show "ks ! k < key"
        proof (cases "k = nat ?g")
          case False
          then have "k < nat ?g" "nat ?g < length ks" using k g "1.prems"(4) by auto
          then show ?thesis using mono [of k "nat ?g"] c by linarith
        qed (use c in simp)
      qed
      then have "\<exists>h. search_loop ks key ?g high = Some (int h) \<and> h \<le> length ks \<and>
          (\<forall>k < h. ks ! k < key) \<and> (\<forall>k < length ks. h \<le> k \<longrightarrow> key \<le> ks ! k)"
        using "1.IH"(1) [OF True k c] "1.prems" g by simp
      then show ?thesis using True k c by (simp add: search_loop.simps [of ks key low high])
    next
      case c: False
      have "\<forall>k < length ks. ?g \<le> int k \<longrightarrow> key \<le> ks ! k"
      proof (intro allI impI)
        fix k assume k: "k < length ks" "?g \<le> int k"
        show "key \<le> ks ! k"
        proof (cases "k = nat ?g")
          case False
          then have lt: "nat ?g < k" using k g by linarith
          show ?thesis using mono [OF lt k(1)] c by linarith
        qed (use c in simp)
      qed
      then have "\<exists>h. search_loop ks key low ?g = Some (int h) \<and> h \<le> length ks \<and>
          (\<forall>k < h. ks ! k < key) \<and> (\<forall>k < length ks. h \<le> k \<longrightarrow> key \<le> ks ! k)"
        using "1.IH"(2) [OF True k c] "1.prems" g by simp
      then show ?thesis using True k c by (simp add: search_loop.simps [of ks key low high])
    qed
  qed
qed

text \<open>The loop does not look behind the entries in use.\<close>

lemma search_loop_take:
  "0 \<le> low + 1 \<Longrightarrow> high \<le> int n \<Longrightarrow> n \<le> length ks \<Longrightarrow> search_loop ks key low high = search_loop (take n ks) key low high"
proof (induction ks key low high rule: search_loop.induct)
  case (1 ks key low high)
  show ?case
  proof (cases "high - low > 1")
    case True
    let ?g = "(high + low) div 2"
    have g: "low < ?g" "?g < high" "0 \<le> ?g" using True "1.prems"(1) by auto
    then have k: "idx ks ?g = Some (ks ! nat ?g)" "idx (take n ks) ?g = Some (ks ! nat ?g)"
      using "1.prems" by (simp_all add: idx_def nat_less_iff)
    have u: "search_loop xs key low high =
        (if ks ! nat ?g < key then search_loop xs key ?g high else search_loop xs key low ?g)" if "idx xs ?g = Some (ks ! nat ?g)" for xs
      using True that by (subst search_loop.simps) simp
    show ?thesis unfolding u [OF k(1)] u [OF k(2)]
      using "1.IH"(1) [OF True k(1)] "1.IH"(2) [OF True k(1)] g "1.prems" by auto
  next
    case False
    then have "search_loop xs key low high = Some high" for xs by (subst search_loop.simps) simp
    then show ?thesis by simp
  qed
qed

lemma binarySearch_spec:
  assumes "sorted_wrt (<) (take n ks)" "n \<le> length ks"
  shows "(\<exists>i < n. ks ! i = key \<and> binarySearch ks 0 (int n) key = Some (int i)) \<or>
    (\<exists>i \<le> n. binarySearch ks 0 (int n) key = Some (NOT (int i)) \<and> (\<forall>k < i. ks ! k < key) \<and> (\<forall>k < n. i \<le> k \<longrightarrow> key < ks ! k))"
proof -
  obtain h where h: "search_loop (take n ks) key (- 1) (int n) = Some (int h)" "h \<le> n"
    "\<forall>k < h. take n ks ! k < key" "\<forall>k < n. h \<le> k \<longrightarrow> key \<le> take n ks ! k"
    using search_loop_spec [OF assms(1), of "- 1" "int n" key] assms(2) by auto
  have l: "search_loop ks key (- 1) (int n) = Some (int h)" using search_loop_take [of "- 1" "int n" n ks key] h(1) assms(2) by simp
  have mono: "ks ! i < ks ! j" if "i < j" "j < n" for i j
    using assms that by (simp add: sorted_wrt_iff_nth_less)
  show ?thesis
  proof (cases "h < n \<and> ks ! h = key")
    case True
    then show ?thesis using l assms(2) by (intro disjI1 exI [of _ h]) (simp add: binarySearch_def)
  next
    case False
    have "binarySearch ks 0 (int n) key = Some (NOT (int h))" using False l h(2) assms(2) by (auto simp: binarySearch_def)
    moreover have "\<forall>k < n. h \<le> k \<longrightarrow> key < ks ! k"
    proof (intro allI impI)
      fix k assume k: "k < n" "h \<le> k"
      have "key \<le> ks ! k" "key \<le> ks ! h" using h(4) k by auto
      then show "key < ks ! k" using mono [of h k] k False by (cases "h = k") auto
    qed
    ultimately show ?thesis using h(2,3) by (intro disjI2 exI [of _ h]) auto
  qed
qed

end
