(* ===== verification/BTreeInsert.thy ===== *)
theory BTreeInsert imports BTreeEntries begin

text \<open>
  The operations that change an entry of the B-tree, on the list of its keys with the bytes of their values
  (\<open>ents\<close>) and the list of its children.
\<close>

section \<open>Slices in blocks\<close>

lemma slice_eq: "lo = int a \<Longrightarrow> hi = int (a + m) \<Longrightarrow> a + m \<le> length xs \<Longrightarrow> slice xs lo hi = Some (take m (drop a xs))"
  by (simp add: slice_def nat_add_distrib)

lemma copy_slice_eq:
  "lo = int a \<Longrightarrow> hi = int (a + m) \<Longrightarrow> a + m \<le> length dst \<Longrightarrow> copy_slice dst lo hi src = Some (copy_into dst a (take m src))"
  by (simp add: copy_slice_def slice_eq)

definition val_at :: "nat \<Rightarrow> byte list \<Rightarrow> nat \<Rightarrow> byte list" where
  "val_at b vs i = take b (drop (i * b) vs)"

lemma block_index:
  assumes "j < b" shows "d * b \<le> k * b + j \<longleftrightarrow> d \<le> k" "k * b + j < d * b \<longleftrightarrow> k < (d :: nat)"
proof -
  have "k * b + j < d * b \<longleftrightarrow> k < d"
  proof
    assume "k < d"
    then have "(k + 1) * b \<le> d * b" by (intro mult_le_mono1) simp
    then show "k * b + j < d * b" using assms by simp
  next
    assume a: "k * b + j < d * b"
    show "k < d"
    proof (rule ccontr)
      assume "\<not> k < d"
      then have "d * b \<le> k * b" by (intro mult_le_mono1) simp
      then show False using a by linarith
    qed
  qed
  then show "k * b + j < d * b \<longleftrightarrow> k < d" "d * b \<le> k * b + j \<longleftrightarrow> d \<le> k" by auto
qed

lemma length_val_at: "length vs = L * b \<Longrightarrow> k < L \<Longrightarrow> length (val_at b vs k) = b"
proof -
  assume a: "length vs = L * b" "k < L"
  then have "(k + 1) * b \<le> L * b" by (intro mult_le_mono1) simp
  then show ?thesis using a by (simp add: val_at_def)
qed

lemma nth_val_at: "length vs = L * b \<Longrightarrow> k < L \<Longrightarrow> j < b \<Longrightarrow> val_at b vs k ! j = vs ! (k * b + j)"
proof -
  assume a: "length vs = L * b" "k < L" "j < b"
  then have "k * b + j < L * b" by (simp add: block_index)
  then show ?thesis using a by (simp add: val_at_def)
qed

lemma val_at_copy:
  assumes "length vs = L * b" "d + m \<le> L" "length src = m * b" "k < L"
  shows "val_at b (copy_into vs (d * b) src) k = (if d \<le> k \<and> k < d + m then val_at b src (k - d) else val_at b vs k)"
proof -
  have "d * b + m * b \<le> L * b" using assms(2) by (metis add_mult_distrib mult_le_mono1)
  then have "d * b \<le> length vs" using assms(1) by linarith
  then have l: "length (copy_into vs (d * b) src) = L * b" using assms(1) by simp
  have s: "length (val_at b src (k - d)) = b" if "d \<le> k" "k < d + m"
    using that by (intro length_val_at [OF assms(3)]) simp
  show ?thesis
  proof (intro nth_equalityI)
    show "length (val_at b (copy_into vs (d * b) src) k) =
        length (if d \<le> k \<and> k < d + m then val_at b src (k - d) else val_at b vs k)"
      using length_val_at [OF l assms(4)] length_val_at [OF assms(1,4)] s by simp
    fix j assume "j < length (val_at b (copy_into vs (d * b) src) k)"
    then have j: "j < b" using length_val_at [OF l assms(4)] by simp
    have kb: "k * b + j < length vs" using assms(1,4) j by (simp add: block_index)
    have "val_at b (copy_into vs (d * b) src) k ! j =
        (if d * b \<le> k * b + j \<and> k * b + j < d * b + length src then src ! (k * b + j - d * b) else vs ! (k * b + j))"
      using nth_val_at [OF l assms(4) j] nth_copy_into [OF kb] by simp
    also have "\<dots> = (if d \<le> k \<and> k < d + m then src ! ((k - d) * b + j) else vs ! (k * b + j))"
    proof -
      have "k * b + j < d * b + length src \<longleftrightarrow> k < d + m"
        using block_index(2) [OF j, of k "d + m"] assms(3) by (simp add: add_mult_distrib)
      moreover have "k * b + j - d * b = (k - d) * b + j" if "d \<le> k" using that by (simp add: diff_mult_distrib)
      ultimately show ?thesis using block_index(1) [OF j, of d k] by simp
    qed
    also have "\<dots> = (if d \<le> k \<and> k < d + m then val_at b src (k - d) else val_at b vs k) ! j"
      using nth_val_at [OF assms(1,4) j] nth_val_at [OF assms(3) _ j, of "k - d"] by auto
    finally show "val_at b (copy_into vs (d * b) src) k ! j =
      (if d \<le> k \<and> k < d + m then val_at b src (k - d) else val_at b vs k) ! j" .
  qed
qed

lemma val_at_take:
  assumes "k < m" shows "val_at b (take (m * b) (drop (s * b) vs)) k = val_at b vs (s + k)"
proof -
  have "(k + 1) * b \<le> m * b" using assms by (intro mult_le_mono1) simp
  then have "b \<le> m * b - k * b" by simp
  then show ?thesis by (simp add: val_at_def drop_take min_absorb1 add_mult_distrib add.commute)
qed

section \<open>Entries\<close>

definition arrays :: "nat \<Rightarrow> btree_entry \<Rightarrow> bool" where
  "arrays b e \<longleftrightarrow> 0 \<le> entrySize e \<and> entrySize e \<le> int (length (ekeys e)) \<and> length (evals e) = length (ekeys e) * b \<and>
     (if isLeaf e then children e = []
      else length (children e) = length (ekeys e) + 1 \<and>
        (\<forall>k < length (children e). nat (entrySize e) < k \<longrightarrow> children e ! k = None))"

definition ents :: "nat \<Rightarrow> btree_entry \<Rightarrow> (int \<times> byte list) list" where
  "ents b e = map (\<lambda>i. (ekeys e ! i, val_at b (evals e) i)) [0..<nat (entrySize e)]"

definition kids :: "btree_entry \<Rightarrow> btree_entry option list" where
  "kids e = (if isLeaf e then [] else take (nat (entrySize e) + 1) (children e))"

definition conf :: "nat \<Rightarrow> nat \<Rightarrow> long_btree \<Rightarrow> bool" where
  "conf b s t \<longleftrightarrow> bytesPerValue t = int b \<and> 1 \<le> b \<and> b \<le> 8 \<and> splitIndex t = int s \<and>
     maxLeafEntries t = 2 * int s + 1 \<and> 0 \<le> initLeafSize t"

lemma length_ents [simp]: "length (ents b e) = nat (entrySize e)"
  by (simp add: ents_def)

lemma nth_ents: "i < nat (entrySize e) \<Longrightarrow> ents b e ! i = (ekeys e ! i, val_at b (evals e) i)"
  by (simp add: ents_def)

lemma keys_ents: "arrays b e \<Longrightarrow> map fst (ents b e) = take (nat (entrySize e)) (ekeys e)"
  by (intro nth_equalityI) (auto simp: nth_ents arrays_def)

lemma ensureSize_spec:
  assumes "conf b s t" "arrays b e" "n = entrySize e + 1" "n \<le> maxLeafEntries t"
  shows "\<exists>e'. ensureSize n t e = Some e' \<and> arrays b e' \<and> entrySize e' = entrySize e \<and> isLeaf e' = isLeaf e \<and>
    n \<le> int (length (ekeys e')) \<and> ents b e' = ents b e \<and> kids e' = kids e"
proof (cases "n \<le> int (length (ekeys e))")
  case True
  then show ?thesis using assms by (simp add: ensureSize_def)
next
  case False
  note A = assms(2) [unfolded arrays_def]
  let ?m = "min (maxLeafEntries t) (max (n + 1) (grown_size n (factor t)))"
  define m where "m = nat ?m"
  let ?l = "length (ekeys e)"
  have m: "n \<le> ?m" "?m = int m" "?l \<le> m" "entrySize e = int ?l" using False A assms(3,4) by (auto simp: m_def)
  have mb: "\<not> int m * int b < 0" "\<not> int m + 1 < 0" by (simp_all add: not_less)
  have v: "bytesPerValue t = int b" using assms(1) by (simp add: conf_def)
  let ?cs = "if isLeaf e then children e else copy_into (replicate (m + 1) None) 0 (children e)"
  let ?e = "Entry (entrySize e) (copy_into (replicate m 0) 0 (ekeys e)) (copy_into (replicate (m * b) 0) 0 (evals e)) ?cs (isLeaf e)"
  have e: "ensureSize n t e = Some ?e"
    using False m(2) mb unfolding ensureSize_def Let_def v by (simp add: go_make_def nat_mult_distrib nat_add_distrib)
  have lb: "?l * b \<le> m * b" using m(3) by (intro mult_le_mono1)
  have "val_at b (copy_into (replicate (m * b) 0) 0 (evals e)) i = val_at b (evals e) i" if "i < ?l" for i
    using val_at_copy [of "replicate (m * b) 0" m b 0 ?l "evals e" i] A m(3) that by simp
  then have "ents b ?e = ents b e"
    using m(3,4) by (intro nth_equalityI) (auto simp: nth_ents nth_copy_into)
  moreover have "kids ?e = kids e"
  proof (cases "isLeaf e")
    case False
    then have "take (Suc ?l) (copy_into (replicate (m + 1) None) 0 (children e)) = take (Suc ?l) (children e)"
      using A m(3) by (simp add: copy_into_def)
    then show ?thesis using False m(4) by (simp add: kids_def)
  qed (simp add: kids_def)
  moreover have "arrays b ?e" using m A lb by (cases "isLeaf e") (auto simp: arrays_def nth_copy_into nth_Cons')
  ultimately show ?thesis using e m by (intro exI [of _ ?e]) auto
qed

section \<open>Insertion\<close>

lemma shift_from_spec:
  assumes "arrays b e" "i < n" "nat (entrySize e) = n" "n < length (ekeys e)"
  shows "\<exists>e'. shift_from (int i) (int (n - i)) (int b) e = Some e' \<and> entrySize e' = entrySize e \<and>
    isLeaf e' = isLeaf e \<and> length (ekeys e') = length (ekeys e) \<and> length (evals e') = length (evals e) \<and>
    length (children e') = length (children e) \<and> (\<forall>k < length (children e). n + 1 < k \<longrightarrow> children e' ! k = children e ! k) \<and>
    (\<forall>k < n + 1. ekeys e' ! k = ekeys e ! (if k \<le> i then k else k - 1)) \<and>
    (\<forall>k < n + 1. val_at b (evals e') k = val_at b (evals e) (if k \<le> i then k else k - 1)) \<and>
    (\<not> isLeaf e \<longrightarrow> (\<forall>k < n + 2. children e' ! k = children e ! (if k \<le> i + 1 then k else k - 1)))"
proof -
  note A = assms(1) [unfolded arrays_def]
  define c where "c = n - i"
  have c: "i + c = n" "0 < c" using assms(2) by (auto simp: c_def)
  let ?L = "length (ekeys e)"
  have lb: "(i + c) * b \<le> ?L * b" "(i + 1 + c) * b \<le> ?L * b" by (rule mult_le_mono1, use c assms(4) in simp)+
  let ?ks = "copy_into (ekeys e) (i + 1) (take c (take c (drop i (ekeys e))))"
  let ?vs = "copy_into (evals e) ((i + 1) * b) (take (c * b) (take (c * b) (drop (i * b) (evals e))))"
  let ?cs = "if isLeaf e then children e else copy_into (children e) (i + 2) (take c (take c (drop (i + 1) (children e))))"
  let ?e = "Entry (entrySize e) ?ks ?vs ?cs (isLeaf e)"
  have "slice (ekeys e) (int i) (int i + int c) = Some (take c (drop i (ekeys e)))"
    using c assms(4) by (intro slice_eq) auto
  moreover have "copy_slice (ekeys e) (int i + 1) (int i + 1 + int c) src = Some (copy_into (ekeys e) (i + 1) (take c src))" for src
    using c assms(4) by (intro copy_slice_eq) auto
  moreover have "slice (evals e) (int i * int b) ((int i + int c) * int b) = Some (take (c * b) (drop (i * b) (evals e)))"
    using lb A by (intro slice_eq) (auto simp: algebra_simps)
  moreover have "copy_slice (evals e) ((int i + 1) * int b) ((int i + 1 + int c) * int b) src =
      Some (copy_into (evals e) ((i + 1) * b) (take (c * b) src))" for src
    using lb A by (intro copy_slice_eq) (auto simp: algebra_simps)
  moreover have "slice (children e) (int i + 1) (int i + 1 + int c) = Some (take c (drop (i + 1) (children e)))"
    "copy_slice (children e) (int i + 2) (int i + 2 + int c) src = Some (copy_into (children e) (i + 2) (take c src))" if "\<not> isLeaf e" for src
    using c assms(4) A that by (auto intro!: slice_eq copy_slice_eq)
  ultimately have e: "shift_from (int i) (int c) (int b) e = Some ?e" by (auto simp: shift_from_def)
  have "?ks ! k = ekeys e ! (if k \<le> i then k else k - 1)" if "k < n + 1" for k
    using that c assms(4) by (auto simp: nth_copy_into)
  moreover have "val_at b ?vs k = val_at b (evals e) (if k \<le> i then k else k - 1)" if k: "k < n + 1" for k
  proof -
    have "length (take (c * b) (drop (i * b) (evals e))) = c * b" using lb A by (simp add: add_mult_distrib)
    then have "val_at b ?vs k = (if i + 1 \<le> k \<and> k < i + 1 + c then val_at b (take (c * b) (drop (i * b) (evals e))) (k - (i + 1))
        else val_at b (evals e) k)"
      using val_at_copy [of "evals e" ?L b "i + 1" c "take (c * b) (take (c * b) (drop (i * b) (evals e)))" k] A c assms(4) k by simp
    then show ?thesis using val_at_take [of "k - (i + 1)" c b i "evals e"] k c by auto
  qed
  moreover have "?cs ! k = children e ! (if k \<le> i + 1 then k else k - 1)" if "k < n + 2" "\<not> isLeaf e" for k
  proof -
    have "Suc (k - 2) = k - Suc 0" if "Suc (Suc i) \<le> k" using that by simp
    then show ?thesis using that c assms(4) A by (auto simp: nth_copy_into)
  qed
  moreover have lens: "length ?vs = length (evals e)" "length ?ks = ?L" "length ?cs = length (children e)"
    using c assms(4) A lb by (auto simp: add_mult_distrib)
  moreover have "?cs ! k = children e ! k" if "k < length (children e)" "n + 1 < k" for k
    using that c assms(4) A by (auto simp: nth_copy_into)
  ultimately show ?thesis using e unfolding c_def [symmetric]
    by (intro exI [of _ ?e]) simp
qed

lemma insertKeyValue_spec:
  assumes "conf b s t" "arrays b e" "nat (entrySize e) = n" "i \<le> n" "entrySize e < maxLeafEntries t" "length v = b"
  shows "\<exists>e'. insertKeyValue (int i) key v t e = Some e' \<and> arrays b e' \<and> entrySize e' = entrySize e + 1 \<and> isLeaf e' = isLeaf e \<and>
    ents b e' = take i (ents b e) @ (key, v) # drop i (ents b e) \<and>
    (\<not> isLeaf e \<longrightarrow> (\<forall>k < n + 2. (k \<le> i \<longrightarrow> children e' ! k = kids e ! k) \<and> (i + 1 < k \<longrightarrow> children e' ! k = kids e ! (k - 1))))"
proof -
  have bpv: "bytesPerValue t = int b" using assms(1) by (simp add: conf_def)
  obtain e1 where e1: "ensureSize (entrySize e + 1) t e = Some e1" "arrays b e1" "entrySize e1 = entrySize e" "isLeaf e1 = isLeaf e"
    "entrySize e + 1 \<le> int (length (ekeys e1))" "ents b e1 = ents b e" "kids e1 = kids e"
    using ensureSize_spec [OF assms(1,2) refl] assms(5) by auto
  note A1 = e1(2) [unfolded arrays_def]
  have n: "entrySize e = int n" "n < length (ekeys e1)" using assms(2,3) e1(5) by (auto simp: arrays_def)
  have "\<exists>e2. (if entrySize e1 - int i > 0 then shift_from (int i) (entrySize e1 - int i) (int b) e1 else Some e1) = Some e2 \<and>
    entrySize e2 = entrySize e \<and> isLeaf e2 = isLeaf e \<and> length (ekeys e2) = length (ekeys e1) \<and>
    length (evals e2) = length (evals e1) \<and> length (children e2) = length (children e1) \<and>
    (\<forall>k < length (children e1). n + 1 < k \<longrightarrow> children e2 ! k = children e1 ! k) \<and>
    (\<forall>k < n + 1. k \<noteq> i \<longrightarrow> ekeys e2 ! k = ekeys e1 ! (if k \<le> i then k else k - 1)) \<and>
    (\<forall>k < n + 1. k \<noteq> i \<longrightarrow> val_at b (evals e2) k = val_at b (evals e1) (if k \<le> i then k else k - 1)) \<and>
    (\<not> isLeaf e \<longrightarrow> (\<forall>k < n + 2. k \<noteq> i + 1 \<longrightarrow> children e2 ! k = children e1 ! (if k \<le> i + 1 then k else k - 1)))"
  proof (cases "i < n")
    case True
    then have "entrySize e1 - int i = int (n - i)" using e1(3) n(1) by simp
    then show ?thesis using shift_from_spec [OF e1(2) True _ n(2)] e1(3,4) n(1) True by auto
  next
    case False
    then show ?thesis using assms(4) n e1 by (intro exI [of _ e1]) auto
  qed
  then obtain e2 where e2:
    "(if entrySize e1 - int i > 0 then shift_from (int i) (entrySize e1 - int i) (int b) e1 else Some e1) = Some e2"
    "entrySize e2 = entrySize e" "isLeaf e2 = isLeaf e" "length (ekeys e2) = length (ekeys e1)"
    "length (evals e2) = length (evals e1)" "length (children e2) = length (children e1)"
    "\<forall>k < length (children e1). n + 1 < k \<longrightarrow> children e2 ! k = children e1 ! k"
    "\<forall>k < n + 1. k \<noteq> i \<longrightarrow> ekeys e2 ! k = ekeys e1 ! (if k \<le> i then k else k - 1)"
    "\<forall>k < n + 1. k \<noteq> i \<longrightarrow> val_at b (evals e2) k = val_at b (evals e1) (if k \<le> i then k else k - 1)"
    "\<not> isLeaf e \<longrightarrow> (\<forall>k < n + 2. k \<noteq> i + 1 \<longrightarrow> children e2 ! k = children e1 ! (if k \<le> i + 1 then k else k - 1))"
    by blast
  have A2: "length (evals e2) = length (ekeys e2) * b" "if isLeaf e then children e2 = [] else length (children e2) = length (ekeys e2) + 1"
    using A1 e1(4) e2(4-6) by (auto split: if_splits)
  let ?L = "length (ekeys e2)"
  have L: "n < ?L" using n(2) e2(4) by simp
  have lb: "(i + 1) * b \<le> ?L * b" using assms(4) L by (intro mult_le_mono1) simp
  let ?vs = "copy_into (evals e2) (i * b) v"
  let ?e = "Entry (entrySize e + 1) ((ekeys e2)[i := key]) ?vs (children e2) (isLeaf e)"
  have vs: "copy_slice (evals e2) (int i * int b) ((int i + 1) * int b) v = Some ?vs"
    using copy_slice_eq [of "int i * int b" "i * b" "(int i + 1) * int b" b "evals e2" v] lb A2 assms(6)
    by (simp add: algebra_simps)
  have e: "insertKeyValue (int i) key v t e = Some ?e"
    using e1(1) e2(1-3) vs L assms(4) unfolding insertKeyValue_def bpv by simp
  have "i * b \<le> ?L * b" by (rule mult_le_mono1) (use L assms(4) in simp)
  then have "i * b \<le> length (evals e2)" using A2 by (simp only:)
  then have lvs: "length ?vs = length (evals e2)" by simp
  have val: "val_at b ?vs k = (if k = i then v else val_at b (evals e2) k)" if "k < n + 1" for k
  proof -
    have "val_at b ?vs k = (if i \<le> k \<and> k < i + 1 then val_at b v (k - i) else val_at b (evals e2) k)"
      using val_at_copy [of "evals e2" ?L b i 1 v k] A2 L assms(4,6) that by simp
    then show ?thesis using assms(6) by (auto simp: val_at_def)
  qed
  have "ents b ?e = take i (ents b e1) @ (key, v) # drop i (ents b e1)"
  proof (intro nth_equalityI)
    have se: "nat (entrySize ?e) = n + 1" "nat (entrySize e1) = n" using n(1) e1(3) by simp_all
    then show "length (ents b ?e) = length (take i (ents b e1) @ (key, v) # drop i (ents b e1))" using assms(4) by simp
    fix k assume "k < length (ents b ?e)"
    then have k: "k < n + 1" using se by simp
    have "ents b ?e ! k = ((ekeys e2)[i := key] ! k, val_at b ?vs k)" using k se by (simp add: nth_ents)
    also have "\<dots> = (if k = i then (key, v) else ents b e1 ! (if k \<le> i then k else k - 1))"
      using k L e2(8,9) val [OF k] assms(4) se by (auto simp: nth_ents)
    also have "\<dots> = (take i (ents b e1) @ (key, v) # drop i (ents b e1)) ! k"
      using k assms(4) se by (auto simp: nth_append nth_Cons' )
    finally show "ents b ?e ! k = (take i (ents b e1) @ (key, v) # drop i (ents b e1)) ! k" .
  qed
  moreover have "children e2 ! k = kids e ! k" if "\<not> isLeaf e" "k < n + 2" "k \<le> i" for k
    using that e2(10) assms(4) n(1) e1(3,4) e1(7) [symmetric] by (auto simp: kids_def)
  moreover have "children e2 ! k = kids e ! (k - 1)" if "\<not> isLeaf e" "k < n + 2" "i + 1 < k" for k
    using that e2(10) assms(4) n(1) e1(3,4) e1(7) [symmetric] by (auto simp: kids_def)
  moreover have "arrays b ?e"
  proof (cases "isLeaf e")
    case False
    have "children e2 ! k = None" if "k < length (children e2)" "n + 1 < k" for k
      using A1 False e1(3,4) e2(6,7) n(1) that by simp
    then show ?thesis using A2 lvs L n(1) False by (simp add: arrays_def nat_add_distrib)
  qed (use A2 lvs L n(1) in \<open>simp add: arrays_def\<close>)
  ultimately show ?thesis using e e1(6) by (intro exI [of _ ?e]) simp
qed

lemma insertTree_spec:
  assumes "conf b s t" "arrays b e" "nat (entrySize e) = n" "i \<le> n" "entrySize e < maxLeafEntries t" "\<not> isLeaf e"
    "arrays b p" "ents b p = [(key, v)]" "kids p = [l, r]"
  shows "\<exists>e'. insertTree (int i) p t e = Some e' \<and> arrays b e' \<and> entrySize e' = entrySize e + 1 \<and> \<not> isLeaf e' \<and>
    ents b e' = take i (ents b e) @ (key, v) # drop i (ents b e) \<and>
    kids e' = take i (kids e) @ l # r # drop (i + 1) (kids e)"
proof -
  have bpv: "bytesPerValue t = int b" using assms(1) by (simp add: conf_def)
  note P = assms(7) [unfolded arrays_def]
  have "length (ents b p) = 1" using assms(8) by simp
  then have ps: "entrySize p = 1" by simp
  then have p0: "ekeys p ! 0 = key" "val_at b (evals p) 0 = v" using assms(8) by (simp_all add: ents_def)
  have lp: "1 \<le> length (ekeys p)" using P ps by simp
  then have "1 * b \<le> length (ekeys p) * b" by (intro mult_le_mono1)
  then have lv: "length v = b" "slice (evals p) 0 (int b) = Some v"
    using P p0(2) slice_eq [of 0 0 "int b" b "evals p"] by (auto simp: val_at_def)
  have kp: "\<not> isLeaf p" "children p ! 0 = l" "children p ! 1 = r" "2 \<le> length (children p)"
    using assms(9) ps P by (auto simp: kids_def split: if_splits) (metis nth_Cons_0 nth_Cons_Suc nth_take lessI zero_less_Suc)+
  have pi: "idx (ekeys p) 0 = Some key" "idx (children p) 0 = Some l" "idx (children p) 1 = Some r"
    using lp p0 kp by (auto simp: idx_def)
  obtain e' where e': "insertKeyValue (int i) key v t e = Some e'" "arrays b e'" "entrySize e' = entrySize e + 1" "isLeaf e' = isLeaf e"
    "ents b e' = take i (ents b e) @ (key, v) # drop i (ents b e)"
    "\<forall>k < n + 2. (k \<le> i \<longrightarrow> children e' ! k = kids e ! k) \<and> (i + 1 < k \<longrightarrow> children e' ! k = kids e ! (k - 1))"
    using insertKeyValue_spec [OF assms(1-5) lv(1)] assms(6) by blast
  have n: "entrySize e = int n" using assms(2,3) by (auto simp: arrays_def)
  note A = e'(2) [unfolded arrays_def] assms(2) [unfolded arrays_def]
  have lc: "n + 2 \<le> length (children e')" using A e'(3,4) n assms(6) by simp
  let ?cs = "(children e')[i := l, i + 1 := r]"
  have put: "put (children e') (int i) l = Some ((children e')[i := l])" "put ((children e')[i := l]) (int i + 1) r = Some ?cs"
    using lc assms(4) by (simp_all add: put_def nat_add_distrib)
  have it: "insertTree (int i) p t e = Some (set_children ?cs e')"
    using e'(1,4) assms(6) pi lv put unfolding insertTree_def bpv by simp
  have lk: "length (kids e) = n + 1" using A n assms(6) by (simp add: kids_def)
  have "kids (set_children ?cs e') = take i (kids e) @ l # r # drop (i + 1) (kids e)"
  proof (intro nth_equalityI)
    have nn: "nat (entrySize (set_children ?cs e')) = n + 1" using e'(3) n by simp
    then have k': "kids (set_children ?cs e') = take (n + 2) ?cs" using e'(4) assms(6) by (simp add: kids_def)
    then show "length (kids (set_children ?cs e')) = length (take i (kids e) @ l # r # drop (i + 1) (kids e))"
      using lc lk assms(4) by simp
    fix k assume "k < length (kids (set_children ?cs e'))"
    then have k: "k < n + 2" using k' by simp
    then have "kids (set_children ?cs e') ! k = ?cs ! k" using k' by simp
    also have "\<dots> = (if k < i then kids e ! k else if k = i then l else if k = i + 1 then r else kids e ! (k - 1))"
      using k e'(6) lc assms(4) by (auto simp: nth_list_update)
    also have "\<dots> = (take i (kids e) @ l # r # drop (i + 1) (kids e)) ! k"
    proof -
      have "Suc (k - 2) = k - Suc 0" if "\<not> k \<le> Suc i" using that by simp
      then show ?thesis using k lk assms(4) by (auto simp: nth_append nth_Cons')
    qed
    finally show "kids (set_children ?cs e') ! k = (take i (kids e) @ l # r # drop (i + 1) (kids e)) ! k" .
  qed
  moreover have "ents b (set_children ?cs e') = ents b e'" by (simp add: ents_def)
  moreover have "arrays b (set_children ?cs e')"
    using A e'(3,4) assms(4,6) n by (auto simp: arrays_def nth_list_update nat_add_distrib)
  ultimately show ?thesis using it e' assms(6) by (intro exI [of _ "set_children ?cs e'"]) simp
qed

section \<open>Splitting\<close>

lemma copyEntry_spec:
  assumes "arrays b e" "a + c \<le> nat (entrySize e)" "newBTreeEntry m (isLeaf e) (int b) = Some e0" "int c \<le> m"
  shows "\<exists>e'. copyEntry e e0 (int a) (int c) (int b) = Some e' \<and> arrays b e' \<and> entrySize e' = int c \<and> isLeaf e' = isLeaf e \<and>
    ents b e' = take c (drop a (ents b e)) \<and> kids e' = take (c + 1) (drop a (kids e))"
proof -
  note A = assms(1) [unfolded arrays_def]
  define k where "k = nat m"
  have mk: "m = int k" "c \<le> k" using assms(4) by (auto simp: k_def)
  have e0: "e0 = Entry 0 (replicate k 0) (replicate (k * b) 0) (if isLeaf e then [] else replicate (k + 1) None) (isLeaf e)"
    using assms(3) unfolding mk by (auto simp: newBTreeEntry_def go_make_def nat_mult_distrib nat_add_distrib split: if_splits)
  let ?L = "length (ekeys e)"
  have ac: "a + c \<le> ?L" using assms(2) A by linarith
  have lb: "(a + c) * b \<le> ?L * b" "c * b \<le> k * b" by (rule mult_le_mono1, use ac mk in simp)+
  let ?ks = "copy_into (replicate k 0) 0 (take c (take c (drop a (ekeys e))))"
  let ?vs = "copy_into (replicate (k * b) 0) 0 (take (c * b) (take (c * b) (drop (a * b) (evals e))))"
  let ?cs = "if isLeaf e then [] else copy_into (replicate (k + 1) None) 0 (take (c + 1) (take (c + 1) (drop a (children e))))"
  let ?e = "Entry (int c) ?ks ?vs ?cs (isLeaf e)"
  have "slice (ekeys e) (int a) (int a + int c) = Some (take c (drop a (ekeys e)))"
    using ac by (intro slice_eq) auto
  moreover have "copy_slice (replicate k (0 :: int)) 0 (int c) src = Some (copy_into (replicate k 0) 0 (take c src))" for src
    using mk by (intro copy_slice_eq) auto
  moreover have "slice (evals e) (int a * int b) ((int a + int c) * int b) = Some (take (c * b) (drop (a * b) (evals e)))"
    using lb A by (intro slice_eq) (auto simp: algebra_simps)
  moreover have "copy_slice (replicate (k * b) (0 :: byte)) 0 (int c * int b) src = Some (copy_into (replicate (k * b) 0) 0 (take (c * b) src))" for src
    using lb by (intro copy_slice_eq) auto
  moreover have "slice (children e) (int a) (int a + int c + 1) = Some (take (c + 1) (drop a (children e)))"
    "copy_slice (replicate (k + 1) (None :: btree_entry option)) 0 (int c + 1) src = Some (copy_into (replicate (k + 1) None) 0 (take (c + 1) src))"
    if "\<not> isLeaf e" for src
    using ac mk A that by (auto intro!: slice_eq copy_slice_eq)
  ultimately have e: "copyEntry e e0 (int a) (int c) (int b) = Some ?e" by (auto simp: copyEntry_def e0)
  have "ents b ?e = take c (drop a (ents b e))"
  proof (intro nth_equalityI)
    show "length (ents b ?e) = length (take c (drop a (ents b e)))" using assms(2) by simp
    fix i assume "i < length (ents b ?e)"
    then have i: "i < c" by simp
    have "length (take (c * b) (drop (a * b) (evals e))) = c * b" using lb A by (simp add: add_mult_distrib)
    then have "val_at b ?vs i = val_at b (take (c * b) (drop (a * b) (evals e))) i"
      using val_at_copy [of "replicate (k * b) 0" k b 0 c "take (c * b) (take (c * b) (drop (a * b) (evals e)))" i] mk i by simp
    also have "\<dots> = val_at b (evals e) (a + i)" by (rule val_at_take [OF i])
    finally show "ents b ?e ! i = take c (drop a (ents b e)) ! i"
      using i ac mk assms(2) by (simp add: nth_ents nth_copy_into)
  qed
  moreover have "kids ?e = take (c + 1) (drop a (kids e))"
  proof (cases "isLeaf e")
    case False
    have "take (c + 1) (copy_into (replicate (k + 1) None) 0 (take (c + 1) (drop a (children e)))) = take (c + 1) (drop a (children e))"
    proof -
      have "length (take (c + 1) (drop a (children e))) = c + 1" using A False ac by simp
      then show ?thesis using mk by (simp add: copy_into_def)
    qed
    moreover have "take (c + 1) (drop a (take (nat (entrySize e) + 1) (children e))) = take (c + 1) (drop a (children e))"
      using assms(2) by (simp add: drop_take)
    ultimately show ?thesis using False by (simp add: kids_def)
  qed (simp add: kids_def)
  moreover have "arrays b ?e"
    using mk ac A lb by (cases "isLeaf e") (auto simp: arrays_def add_mult_distrib nth_copy_into nth_Cons')
  ultimately show ?thesis using e by (intro exI [of _ ?e]) simp
qed

lemma new_some: "0 \<le> m \<Longrightarrow> \<exists>e. newBTreeEntry m leaf (int b) = Some e"
  by (auto simp: newBTreeEntry_def go_make_def not_less)

lemma checkSplitEntry_spec:
  assumes "conf b s t" "arrays b e" "entrySize e = maxLeafEntries t"
  shows "\<exists>p l r. checkSplitEntry t e = Some (Some p) \<and> arrays b p \<and> \<not> isLeaf p \<and> ents b p = [ents b e ! s] \<and> kids p = [Some l, Some r] \<and>
    arrays b l \<and> entrySize l = int s \<and> isLeaf l = isLeaf e \<and> ents b l = take s (ents b e) \<and> kids l = take (s + 1) (kids e) \<and>
    arrays b r \<and> entrySize r = int s \<and> isLeaf r = isLeaf e \<and> ents b r = drop (s + 1) (ents b e) \<and> kids r = drop (s + 1) (kids e)"
proof -
  note C = assms(1) [unfolded conf_def] and A = assms(2) [unfolded arrays_def]
  have n: "entrySize e = 2 * int s + 1" using C assms(3) by simp
  have nn: "nat (entrySize e) = 2 * s + 1" using n by simp
  have mx: "0 \<le> max (initLeafSize t) (int s)" by simp
  obtain r0 where r0: "newBTreeEntry (max (initLeafSize t) (int s)) (isLeaf e) (int b) = Some r0"
    using new_some [OF mx] by blast
  obtain r where r: "copyEntry e r0 (int (s + 1)) (int s) (int b) = Some r" "arrays b r" "entrySize r = int s" "isLeaf r = isLeaf e"
    "ents b r = take s (drop (s + 1) (ents b e))" "kids r = take (s + 1) (drop (s + 1) (kids e))"
    using copyEntry_spec [OF assms(2) _ r0, of "s + 1" s] nn by auto
  obtain l where l: "copyEntry e r0 (int 0) (int s) (int b) = Some l" "arrays b l" "entrySize l = int s" "isLeaf l = isLeaf e"
    "ents b l = take s (drop 0 (ents b e))" "kids l = take (s + 1) (drop 0 (kids e))"
    using copyEntry_spec [OF assms(2) _ r0, of 0 s] nn by auto
  have lk: "length (kids e) \<le> 2 * s + 2" using nn by (simp add: kids_def)
  let ?p = "Entry 1 [ekeys e ! s] (val_at b (evals e) s) [Some l, Some r] False"
  have sl: "s < length (ekeys e)" using A n by simp
  have lv: "length (val_at b (evals e) s) = b" using length_val_at [of "evals e" "length (ekeys e)" b s] A sl by simp
  have "(s + 1) * b \<le> length (ekeys e) * b" by (rule mult_le_mono1) (use sl in simp)
  then have v: "slice (evals e) (int s * int b) ((int s + 1) * int b) = Some (val_at b (evals e) s)"
    using slice_eq [of "int s * int b" "s * b" "(int s + 1) * int b" b "evals e"] A by (simp add: algebra_simps val_at_def)
  have cb: "copy_slice (replicate b (0 :: byte)) 0 (int b) (val_at b (evals e) s) = Some (val_at b (evals e) s)"
    using copy_slice_eq [of 0 0 "int b" b "replicate b (0 :: byte)" "val_at b (evals e) s"] lv by (simp add: copy_into_def)
  have new1: "newBTreeEntry 1 False (int b) = Some (Entry 0 [0] (replicate b 0) [None, None] False)"
    by (simp add: newBTreeEntry_def go_make_def numeral_2_eq_2)
  have cnt: "entrySize e - int s - 1 = int s" "int s + 1 = int (s + 1)" using n by simp_all
  have ik: "idx (ekeys e) (int s) = Some (ekeys e ! s)" using sl by simp
  have bt: "bytesPerValue t = int b" "splitIndex t = int s" using C by simp_all
  have puts: "put [0 :: int] 0 k = Some [k]" "put [None, None] 0 (Some l) = Some [Some l, None]"
    "put [Some l, None] 1 (Some r) = Some [Some l, Some r]" for k by (simp_all add: put_def)
  have l0: "copyEntry e r0 0 (int s) (int b) = Some l" using l(1) by simp
  have "checkSplitEntry t e = Some (Some ?p)"
    using assms(3) unfolding checkSplitEntry_def Let_def bt cnt(1) v [unfolded cnt(2)]
    using r0 r(1) l0 new1 ik v cb puts by (simp add: cnt(2))
  moreover have "arrays b ?p" using lv by (simp add: arrays_def)
  moreover have "ents b ?p = [ents b e ! s]" 
  proof -
    have "val_at b (val_at b (evals e) s) 0 = val_at b (evals e) s" using lv by (simp add: val_at_def)
    then have "ents b ?p = [(ekeys e ! s, val_at b (evals e) s)]" unfolding ents_def by simp
    then show ?thesis using nth_ents [of s e b] nn by simp
  qed
  moreover have "kids ?p = [Some l, Some r]" by (simp add: kids_def)
  moreover have "take s (drop (s + 1) (ents b e)) = drop (s + 1) (ents b e)" "take (s + 1) (drop (s + 1) (kids e)) = drop (s + 1) (kids e)"
    using nn lk by simp_all
  ultimately show ?thesis using l r by (intro exI [of _ ?p] exI [of _ l] exI [of _ r]) simp
qed

section \<open>Replacing a value, and compaction\<close>

lemma set_val_spec:
  assumes "arrays b e" "i < nat (entrySize e)" "length v = b"
  shows "arrays b (set_vals (copy_into (evals e) (i * b) v) e)"
    "ents b (set_vals (copy_into (evals e) (i * b) v) e) = (ents b e)[i := (ekeys e ! i, v)]"
proof -
  note A = assms(1) [unfolded arrays_def]
  let ?L = "length (ekeys e)"
  have L: "i < ?L" using A assms(2) by linarith
  have "i * b \<le> ?L * b" by (rule mult_le_mono1) (use L in simp)
  then have "i * b \<le> length (evals e)" using A by (simp only:)
  then show "arrays b (set_vals (copy_into (evals e) (i * b) v) e)" using A by (simp add: arrays_def)
  have "val_at b (copy_into (evals e) (i * b) v) k = (if k = i then v else val_at b (evals e) k)" if "k < nat (entrySize e)" for k
  proof -
    have "k < ?L" using A that by linarith
    then have "val_at b (copy_into (evals e) (i * b) v) k = (if i \<le> k \<and> k < i + 1 then val_at b v (k - i) else val_at b (evals e) k)"
      using val_at_copy [of "evals e" ?L b i 1 v k] A L assms(3) by simp
    then show ?thesis using assms(3) by (auto simp: val_at_def)
  qed
  then show "ents b (set_vals (copy_into (evals e) (i * b) v) e) = (ents b e)[i := (ekeys e ! i, v)]"
    by (intro nth_equalityI) (auto simp: nth_ents nth_list_update)
qed

lemma val_slice:
  assumes "arrays b e" "i < nat (entrySize e)"
  shows "slice (evals e) (int i * int b) ((int i + 1) * int b) = Some (val_at b (evals e) i)" "i * b + b \<le> length (evals e)"
    "length (val_at b (evals e) i) = b"
proof -
  note A = assms(1) [unfolded arrays_def]
  have L: "i < length (ekeys e)" using A assms(2) by linarith
  have "(i + 1) * b \<le> length (ekeys e) * b" by (rule mult_le_mono1) (use L in simp)
  then show l: "i * b + b \<le> length (evals e)" using A by simp
  then show "slice (evals e) (int i * int b) ((int i + 1) * int b) = Some (val_at b (evals e) i)"
    using slice_eq [of "int i * int b" "i * b" "(int i + 1) * int b" b "evals e"] by (simp add: algebra_simps val_at_def)
  show "length (val_at b (evals e) i) = b" using l by (simp add: val_at_def)
qed

lemma shrink_spec:
  assumes "arrays b e"
  shows "\<exists>e'. shrink (int b) e = Some e' \<and> arrays b e' \<and> entrySize e' = entrySize e \<and> isLeaf e' = isLeaf e \<and>
    ents b e' = ents b e \<and> kids e' = kids e"
proof (cases "entrySize e + 1 < int (length (ekeys e))")
  case False
  then show ?thesis using assms by (simp add: shrink_def)
next
  case True
  note A = assms [unfolded arrays_def]
  define n where "n = nat (entrySize e)"
  have n: "entrySize e = int n" "n \<le> length (ekeys e)" using A True by (auto simp: n_def)
  have nb: "n * b \<le> length (ekeys e) * b" by (rule mult_le_mono1) (rule n(2))
  let ?cs = "if isLeaf e then children e else copy_into (replicate (n + 1) None) 0 (children e)"
  let ?e = "Entry (int n) (copy_into (replicate n 0) 0 (ekeys e)) (copy_into (replicate (n * b) 0) 0 (evals e)) ?cs (isLeaf e)"
  have mb: "\<not> int n * int b < 0" "\<not> int n + 1 < 0" by (simp_all add: not_less)
  have e: "shrink (int b) e = Some ?e"
    using True mb unfolding shrink_def n(1) by (simp add: go_make_def nat_mult_distrib nat_add_distrib)
  have c: "copy_into (replicate m z) 0 xs = take m xs" if "m \<le> length xs" for m z and xs :: "'a list"
    using that by (simp add: copy_into_def)
  have "val_at b (take (n * b) (evals e)) i = val_at b (evals e) i" if "i < n" for i
    using val_at_take [of i n b 0 "evals e"] that by simp
  moreover have "copy_into (replicate (n * b) 0) 0 (evals e) = take (n * b) (evals e)" using nb A by (intro c) simp
  ultimately have "ents b ?e = ents b e"
    using n by (intro nth_equalityI) (auto simp: nth_ents nth_copy_into)
  moreover have "kids ?e = kids e" using A n c [of "n + 1" "children e"] by (auto simp: kids_def)
  moreover have "arrays b ?e" using A n by (cases "isLeaf e") (auto simp: arrays_def)
  ultimately show ?thesis using e n by (intro exI [of _ ?e]) simp
qed

end
