(* ===== verification/BTreeMap.thy ===== *)
theory BTreeMap imports BTreeInsert begin

text \<open>
  The B-tree as a sorted list: the entries of a tree in order, insertion into a sorted list as the specification
  of \<open>put\<close>, the shape of a tree (all leaves at one depth, every entry but the root at least half full), and the
  proof that putting keeps the shape and inserts, that looking up finds, and that compaction changes nothing.
\<close>

section \<open>Insertion into a sorted list\<close>

fun ins_kv :: "'k :: linorder \<Rightarrow> 'v \<Rightarrow> ('k \<times> 'v) list \<Rightarrow> ('k \<times> 'v) list" where
  "ins_kv k v [] = [(k, v)]"
| "ins_kv k v ((k', v') # xs) =
     (if k < k' then (k, v) # (k', v') # xs else if k = k' then (k, v) # xs else (k', v') # ins_kv k v xs)"

abbreviation sorted_keys :: "('k :: linorder \<times> 'v) list \<Rightarrow> bool" where
  "sorted_keys xs \<equiv> sorted_wrt (<) (map fst xs)"

lemma ins_kv_before: "\<forall>x \<in> set B. k < fst x \<Longrightarrow> ins_kv k v B = (k, v) # B"
  by (cases B) auto

lemma ins_kv_append1: "\<forall>x \<in> set A. fst x < k \<Longrightarrow> ins_kv k v (A @ C) = A @ ins_kv k v C"
  by (induction A) auto

lemma ins_kv_append2: "\<forall>x \<in> set B. k < fst x \<Longrightarrow> ins_kv k v (C @ B) = ins_kv k v C @ B"
  by (induction k v C rule: ins_kv.induct) (auto simp: ins_kv_before)

lemma set_ins_kv: "fst ` set (ins_kv k v xs) = insert k (fst ` set xs)"
  by (induction k v xs rule: ins_kv.induct) auto

lemma ins_kv_sorted: "sorted_keys xs \<Longrightarrow> sorted_keys (ins_kv k v xs)"
proof (induction k v xs rule: ins_kv.induct)
  case (2 k v k' v' xs)
  have "\<forall>y \<in> fst ` set (ins_kv k v xs). k' < y" if "k' < k"
    using 2(2) that unfolding set_ins_kv by simp
  then show ?case using 2 by auto
qed simp

lemma map_of_ins_kv: "sorted_keys xs \<Longrightarrow> map_of (ins_kv k v xs) = (map_of xs)(k \<mapsto> v)"
  by (induction k v xs rule: ins_kv.induct) (auto simp: fun_upd_twist)

lemma length_ins_kv: "sorted_keys xs \<Longrightarrow> length (ins_kv k v xs) = (if k \<in> dom (map_of xs) then length xs else length xs + 1)"
proof (induction k v xs rule: ins_kv.induct)
  case (2 k v k' v' xs)
  have "k \<notin> dom (map_of xs)" if "k < k'"
  proof -
    have "\<forall>y \<in> fst ` set xs. k' < y" using 2(2) by simp
    then show ?thesis using that unfolding dom_map_of_conv_image_fst by (metis order.asym)
  qed
  then show ?case using 2 by auto
qed simp

lemma map_of_sorted_split:
  assumes "\<forall>x \<in> set A. fst x < (k :: 'k :: linorder)" "\<forall>x \<in> set B. k < fst x"
  shows "map_of (A @ C @ B) k = map_of C k"
proof -
  have "fst x \<noteq> k" if "x \<in> set A" for x using bspec [OF assms(1) that] by (rule less_imp_neq)
  then have "k \<notin> fst ` set A" by blast
  moreover have "k \<noteq> fst x" if "x \<in> set B" for x using bspec [OF assms(2) that] by (rule less_imp_neq)
  then have "k \<notin> fst ` set B" by blast
  ultimately have "map_of A k = None" "map_of B k = None" by (simp_all add: map_of_eq_None_iff)
  then show ?thesis by (simp add: map_add_def split: option.split)
qed

lemma ins_kv_middle:
  assumes "\<forall>x \<in> set A. fst x < k" "\<forall>x \<in> set B. k < fst x"
  shows "ins_kv k v (A @ C @ B) = A @ ins_kv k v C @ B"
  using assms by (simp add: ins_kv_append1 ins_kv_append2)

section \<open>Children and entries in turn\<close>

fun weave :: "'a list list \<Rightarrow> 'a list \<Rightarrow> 'a list" where
  "weave (c # cs) (x # xs) = c @ x # weave cs xs"
| "weave (c # cs) [] = c"
| "weave [] xs = xs"

definition front :: "'a list list \<Rightarrow> 'a list \<Rightarrow> 'a list" where
  "front cs xs = concat (map2 (\<lambda>c x. c @ [x]) cs xs)"

definition rear :: "'a list \<Rightarrow> 'a list list \<Rightarrow> 'a list" where
  "rear xs cs = concat (map2 (#) xs cs)"

lemma front_simps [simp]: "front [] [] = []" "front (c # cs) (x # xs) = c @ x # front cs xs"
  by (simp_all add: front_def)

lemma rear_simps [simp]: "rear [] [] = []" "rear (x # xs) (c # cs) = x # c @ rear xs cs"
  by (simp_all add: rear_def)

lemma weave_append: "length cs1 = length xs1 \<Longrightarrow> weave (cs1 @ cs2) (xs1 @ xs2) = front cs1 xs1 @ weave cs2 xs2"
  by (induction cs1 xs1 rule: list_induct2) auto

lemma weave_rear: "length cs = length xs \<Longrightarrow> weave (c # cs) xs = c @ rear xs cs"
  by (induction cs xs arbitrary: c rule: list_induct2) auto

lemma weave_split:
  assumes "length cs = length xs + 1" "i \<le> length xs"
  shows "weave cs xs = front (take i cs) (take i xs) @ cs ! i @ rear (drop i xs) (drop (i + 1) cs)"
proof -
  have "weave cs xs = weave (take i cs @ cs ! i # drop (i + 1) cs) (take i xs @ drop i xs)"
    using assms by (simp add: id_take_nth_drop [symmetric])
  also have "\<dots> = front (take i cs) (take i xs) @ weave (cs ! i # drop (i + 1) cs) (drop i xs)"
    using assms by (intro weave_append) simp
  finally show ?thesis using assms by (simp add: weave_rear)
qed

lemma weave_join: "length cs1 = length xs1 + 1 \<Longrightarrow> weave (cs1 @ cs2) (xs1 @ x # xs2) = weave cs1 xs1 @ x # weave cs2 xs2"
proof (induction xs1 arbitrary: cs1)
  case Nil
  then obtain c where "cs1 = [c]" by (auto simp: length_Suc_conv)
  then show ?case by simp
next
  case (Cons y xs1)
  then obtain c cs where "cs1 = c # cs" "length cs = length xs1 + 1" by (auto simp: length_Suc_conv)
  then show ?case using Cons.IH by simp
qed

lemma set_weave: "length cs = length xs + 1 \<Longrightarrow> set (weave cs xs) = \<Union> (set ` set cs) \<union> set xs"
proof (induction cs xs rule: weave.induct)
  case (1 c cs x xs)
  then show ?case by auto
qed auto

lemma sorted_weave: "length cs = length xs + 1 \<Longrightarrow> sorted_keys (weave cs xs) \<Longrightarrow> sorted_keys xs \<and> (\<forall>c \<in> set cs. sorted_keys c)"
proof (induction cs xs rule: weave.induct)
  case (1 c cs x xs)
  then show ?case using set_weave [of cs xs] by (auto simp: sorted_wrt_append)
qed auto

lemma front_less:
  "length cs = length xs \<Longrightarrow> sorted_keys (front cs xs) \<Longrightarrow> \<forall>x \<in> set xs. fst x < k \<Longrightarrow> \<forall>x \<in> set (front cs xs). fst x < k"
proof (induction cs xs rule: list_induct2)
  case (Cons c cs x xs)
  have "\<forall>y \<in> set c. fst y < fst x" "sorted_keys (front cs xs)" using Cons.prems(1) by (simp_all add: sorted_wrt_append)
  then show ?case using Cons.IH Cons.prems(2) by (simp add: ball_Un) (meson order.strict_trans)
qed simp

lemma rear_greater:
  "length xs = length cs \<Longrightarrow> sorted_keys (rear xs cs) \<Longrightarrow> \<forall>x \<in> set xs. k < fst x \<Longrightarrow> \<forall>x \<in> set (rear xs cs). k < fst x"
proof (induction xs cs rule: list_induct2)
  case (Cons x xs c cs)
  have "\<forall>y \<in> set c. fst x < fst y" "sorted_keys (rear xs cs)" using Cons.prems(1) by (simp_all add: sorted_wrt_append)
  then show ?case using Cons.IH Cons.prems(2) by (simp add: ball_Un) (meson order.strict_trans)
qed simp

text \<open>A key between two entries is in the child between them.\<close>

lemma weave_bounds:
  assumes "length cs = length xs + 1" "i \<le> length xs" "sorted_keys (weave cs xs)"
    "\<forall>j < i. fst (xs ! j) < k" "\<forall>j < length xs. i \<le> j \<longrightarrow> k < fst (xs ! j)"
  shows "\<forall>x \<in> set (front (take i cs) (take i xs)). fst x < k" "\<forall>x \<in> set (rear (drop i xs) (drop (i + 1) cs)). k < fst x"
proof -
  have s: "sorted_keys (front (take i cs) (take i xs))" "sorted_keys (rear (drop i xs) (drop (i + 1) cs))"
    using assms(3) unfolding weave_split [OF assms(1,2)] by (simp_all add: sorted_wrt_append)
  show "\<forall>x \<in> set (front (take i cs) (take i xs)). fst x < k"
  proof (rule front_less [OF _ s(1)])
    show "\<forall>x \<in> set (take i xs). fst x < k"
      using assms(4) by (metis in_set_conv_nth length_take min_less_iff_conj nth_take)
  qed (use assms(1,2) in simp)
  show "\<forall>x \<in> set (rear (drop i xs) (drop (i + 1) cs)). k < fst x"
  proof (rule rear_greater [OF _ s(2)])
    show "\<forall>x \<in> set (drop i xs). k < fst x"
    proof
      fix x assume "x \<in> set (drop i xs)"
      then obtain j where "j < length xs - i" "x = xs ! (i + j)" by (auto simp: in_set_conv_nth)
      then show "k < fst x" using assms(5) by simp
    qed
  qed (use assms(1,2) in simp)
qed

section \<open>Shape and contents of a tree\<close>

primrec inorder :: "nat \<Rightarrow> nat \<Rightarrow> btree_entry \<Rightarrow> (int \<times> byte list) list" where
  "inorder b 0 e = ents b e"
| "inorder b (Suc h) e = weave (map (\<lambda>c. inorder b h (the c)) (kids e)) (ents b e)"

primrec wf_entry :: "nat \<Rightarrow> nat \<Rightarrow> nat \<Rightarrow> btree_entry \<Rightarrow> bool" where
  "wf_entry b s 0 e \<longleftrightarrow> arrays b e \<and> isLeaf e \<and> entrySize e \<le> 2 * int s + 1"
| "wf_entry b s (Suc h) e \<longleftrightarrow> arrays b e \<and> \<not> isLeaf e \<and> entrySize e \<le> 2 * int s + 1 \<and>
     (\<forall>c \<in> set (kids e). c \<noteq> None \<and> int s \<le> entrySize (the c) \<and> wf_entry b s h (the c))"

lemma wf_entry_arrays: "wf_entry b s h e \<Longrightarrow> arrays b e \<and> entrySize e \<le> 2 * int s + 1 \<and> (isLeaf e \<longleftrightarrow> h = 0)"
  by (cases h) auto

lemma length_kids: "arrays b e \<Longrightarrow> \<not> isLeaf e \<Longrightarrow> length (kids e) = nat (entrySize e) + 1"
  by (auto simp: arrays_def kids_def)

lemma sorted_ents:
  assumes "wf_entry b s h e" "sorted_keys (inorder b h e)"
  shows "sorted_keys (ents b e)"
proof (cases h)
  case (Suc k)
  then have "length (kids e) = nat (entrySize e) + 1" using assms(1) length_kids by auto
  then show ?thesis using sorted_weave [of "map (\<lambda>c. inorder b k (the c)) (kids e)" "ents b e"] assms(2) Suc by simp
qed (use assms in simp)

text \<open>Where a key is, or which child it belongs to.\<close>

lemma search_ents:
  assumes "wf_entry b s h e" "sorted_keys (inorder b h e)"
  shows "(\<exists>i < nat (entrySize e). ekeys e ! i = key \<and> binarySearch (ekeys e) 0 (entrySize e) key = Some (int i)) \<or>
    (\<exists>i \<le> nat (entrySize e). binarySearch (ekeys e) 0 (entrySize e) key = Some (NOT (int i)) \<and>
      (\<forall>j < i. fst (ents b e ! j) < key) \<and> (\<forall>j < nat (entrySize e). i \<le> j \<longrightarrow> key < fst (ents b e ! j)))"
proof -
  have A: "arrays b e" using wf_entry_arrays [OF assms(1)] by simp
  have "sorted_wrt (<) (take (nat (entrySize e)) (ekeys e))" using sorted_ents [OF assms] keys_ents [OF A] by simp
  moreover have n: "nat (entrySize e) \<le> length (ekeys e)" "entrySize e = int (nat (entrySize e))" using A by (auto simp: arrays_def)
  ultimately have "(\<exists>i < nat (entrySize e). ekeys e ! i = key \<and> binarySearch (ekeys e) 0 (entrySize e) key = Some (int i)) \<or>
    (\<exists>i \<le> nat (entrySize e). binarySearch (ekeys e) 0 (entrySize e) key = Some (NOT (int i)) \<and>
      (\<forall>k < i. ekeys e ! k < key) \<and> (\<forall>k < nat (entrySize e). i \<le> k \<longrightarrow> key < ekeys e ! k))"
    using binarySearch_spec by metis
  then show ?thesis by (elim disjE) (auto simp: nth_ents)
qed

section \<open>Insertion at an index\<close>

text \<open>
  What inserting the entry \<open>x\<close> does, and in an inner entry replacing the child at the index by the two children
  \<open>lr\<close>.
\<close>

definition new_kids :: "nat \<Rightarrow> (btree_entry option \<times> btree_entry option) option \<Rightarrow> btree_entry option list \<Rightarrow> btree_entry option list" where
  "new_kids i lr ks = (case lr of None \<Rightarrow> [] | Some (l, r) \<Rightarrow> take i ks @ l # r # drop (i + 1) ks)"

definition inserts ::
  "nat \<Rightarrow> nat \<Rightarrow> (int \<Rightarrow> btree_entry \<Rightarrow> btree_entry option) \<Rightarrow> int \<times> byte list \<Rightarrow> (btree_entry option \<times> btree_entry option) option \<Rightarrow> bool" where
  "inserts b s ins x lr \<longleftrightarrow>
     (\<forall>e i. arrays b e \<and> i \<le> nat (entrySize e) \<and> entrySize e < 2 * int s + 1 \<and> (isLeaf e \<longleftrightarrow> lr = None) \<longrightarrow>
       (\<exists>e'. ins (int i) e = Some e' \<and> arrays b e' \<and> entrySize e' = entrySize e + 1 \<and> isLeaf e' = isLeaf e \<and>
         ents b e' = take i (ents b e) @ x # drop i (ents b e) \<and> kids e' = new_kids i lr (kids e)))"

lemma inserts_value:
  assumes "conf b s t" "length v = b"
  shows "inserts b s (\<lambda>i. insertKeyValue i key v t) (key, v) None"
  unfolding inserts_def
proof (intro allI impI; elim conjE)
  fix e i assume e: "arrays b e" "i \<le> nat (entrySize e)" "entrySize e < 2 * int s + 1" "isLeaf e \<longleftrightarrow> None = None"
  have "entrySize e < maxLeafEntries t" using e(3) assms(1) by (simp add: conf_def)
  then show "\<exists>e'. insertKeyValue (int i) key v t e = Some e' \<and> arrays b e' \<and> entrySize e' = entrySize e + 1 \<and> isLeaf e' = isLeaf e \<and>
      ents b e' = take i (ents b e) @ (key, v) # drop i (ents b e) \<and> kids e' = new_kids i None (kids e)"
    using insertKeyValue_spec [OF assms(1) e(1) refl e(2) _ assms(2)] e(4) by (fastforce simp: new_kids_def kids_def)
qed

lemma inserts_tree:
  assumes "conf b s t" "arrays b p" "ents b p = [x]" "kids p = [l, r]"
  shows "inserts b s (\<lambda>i. insertTree i p t) x (Some (l, r))"
  unfolding inserts_def
proof (intro allI impI; elim conjE)
  fix e i assume e: "arrays b e" "i \<le> nat (entrySize e)" "entrySize e < 2 * int s + 1" "isLeaf e \<longleftrightarrow> Some (l, r) = None"
  have m: "entrySize e < maxLeafEntries t" and nl: "\<not> isLeaf e" using e(3,4) assms(1) by (simp_all add: conf_def)
  show "\<exists>e'. insertTree (int i) p t e = Some e' \<and> arrays b e' \<and> entrySize e' = entrySize e + 1 \<and> isLeaf e' = isLeaf e \<and>
      ents b e' = take i (ents b e) @ x # drop i (ents b e) \<and> kids e' = new_kids i (Some (l, r)) (kids e)"
    using insertTree_spec [OF assms(1) e(1) refl e(2) m nl assms(2) _ assms(4), of "fst x" "snd x"] assms(3) nl
    by (auto simp: new_kids_def)
qed

lemma with_child_spec:
  assumes "kids p = [Some l, Some r]" "arrays b p" "\<not> isLeaf p"
  shows "f l = Some l' \<Longrightarrow> \<exists>p'. with_child 0 f p = Some p' \<and> arrays b p' \<and> \<not> isLeaf p' \<and> ents b p' = ents b p \<and>
      kids p' = [Some l', Some r]"
    and "f r = Some r' \<Longrightarrow> \<exists>p'. with_child 1 f p = Some p' \<and> arrays b p' \<and> \<not> isLeaf p' \<and> ents b p' = ents b p \<and>
      kids p' = [Some l, Some r']"
proof -
  have n: "nat (entrySize p) + 1 = 2" using length_kids [OF assms(2,3)] assms(1) by simp
  then have t: "take 2 (children p) = [Some l, Some r]" using assms(1,3) by (simp add: kids_def numeral_2_eq_2)
  then obtain cs where cs: "children p = Some l # Some r # cs"
    by (cases "children p"; cases "tl (children p)") (auto simp: numeral_2_eq_2)
  show "\<exists>p'. with_child 0 f p = Some p' \<and> arrays b p' \<and> \<not> isLeaf p' \<and> ents b p' = ents b p \<and> kids p' = [Some l', Some r]"
    if "f l = Some l'"
    using that cs n assms(2,3)
    by (intro exI [of _ "set_children (Some l' # Some r # cs) p"])
      (auto simp: with_child_def idx_def put_def arrays_def ents_def kids_def numeral_2_eq_2)
  show "\<exists>p'. with_child 1 f p = Some p' \<and> arrays b p' \<and> \<not> isLeaf p' \<and> ents b p' = ents b p \<and> kids p' = [Some l, Some r']"
    if "f r = Some r'"
    using that cs n assms(2,3)
    by (intro exI [of _ "set_children (Some l # Some r' # cs) p"])
      (auto simp: with_child_def idx_def put_def arrays_def ents_def kids_def numeral_2_eq_2)
qed

lemma split_insert_spec:
  assumes "conf b s t" "inserts b s ins x lr" "arrays b e" "i \<le> nat (entrySize e)" "entrySize e \<le> 2 * int s + 1" "isLeaf e \<longleftrightarrow> lr = None"
  shows "(\<exists>e'. split_insert (int i) ins t e = Some (e', None) \<and> arrays b e' \<and> entrySize e' = entrySize e + 1 \<and>
      entrySize e' \<le> 2 * int s + 1 \<and> isLeaf e' = isLeaf e \<and>
      ents b e' = take i (ents b e) @ x # drop i (ents b e) \<and> kids e' = new_kids i lr (kids e)) \<or>
    (\<exists>p l r m. split_insert (int i) ins t e = Some (e, Some p) \<and> arrays b p \<and> \<not> isLeaf p \<and> ents b p = [m] \<and> kids p = [Some l, Some r] \<and>
      arrays b l \<and> arrays b r \<and> isLeaf l = isLeaf e \<and> isLeaf r = isLeaf e \<and> int s \<le> entrySize l \<and> int s \<le> entrySize r \<and>
      entrySize l \<le> 2 * int s + 1 \<and> entrySize r \<le> 2 * int s + 1 \<and>
      ents b l @ m # ents b r = take i (ents b e) @ x # drop i (ents b e) \<and> kids l @ kids r = new_kids i lr (kids e))"
proof (cases "entrySize e < 2 * int s + 1")
  case True
  obtain e' where "ins (int i) e = Some e'" "arrays b e'" "entrySize e' = entrySize e + 1" "isLeaf e' = isLeaf e"
    "ents b e' = take i (ents b e) @ x # drop i (ents b e)" "kids e' = new_kids i lr (kids e)"
    using assms(2-4,6) True unfolding inserts_def by blast
  moreover have "checkSplitEntry t e = Some None" using True assms(1) by (simp add: checkSplitEntry_def conf_def)
  ultimately show ?thesis using True by (intro disjI1 exI [of _ e']) (simp add: split_insert_def)
next
  case False
  then have full: "entrySize e = maxLeafEntries t" "entrySize e = 2 * int s + 1" using assms(1,5) by (simp_all add: conf_def)
  have st: "splitIndex t = int s" using assms(1) by (simp add: conf_def)
  obtain p l r where p: "checkSplitEntry t e = Some (Some p)" "arrays b p" "\<not> isLeaf p" "ents b p = [ents b e ! s]" "kids p = [Some l, Some r]"
    "arrays b l" "entrySize l = int s" "isLeaf l = isLeaf e" "ents b l = take s (ents b e)" "kids l = take (s + 1) (kids e)"
    "arrays b r" "entrySize r = int s" "isLeaf r = isLeaf e" "ents b r = drop (s + 1) (ents b e)" "kids r = drop (s + 1) (kids e)"
    using checkSplitEntry_spec [OF assms(1,3) full(1)] by blast
  have E: "s < length (ents b e)" "take s (ents b e) @ ents b e ! s # drop (s + 1) (ents b e) = ents b e"
    using full(2) by (simp_all add: id_take_nth_drop [symmetric])
  show ?thesis
  proof (cases "i \<le> s")
    case True
    obtain l' where l': "ins (int i) l = Some l'" "arrays b l'" "entrySize l' = entrySize l + 1" "isLeaf l' = isLeaf l"
      "ents b l' = take i (ents b l) @ x # drop i (ents b l)" "kids l' = new_kids i lr (kids l)"
      using assms(2)[unfolded inserts_def, rule_format, of l i] p(6-8) True assms(6) by auto
    obtain p' where p': "with_child 0 (ins (int i)) p = Some p'" "arrays b p'" "\<not> isLeaf p'" "ents b p' = ents b p"
      "kids p' = [Some l', Some r]"
      using with_child_spec(1) [where f = "ins (int i)", OF p(5,2,3) l'(1)] by blast
    have "split_insert (int i) ins t e = Some (e, Some p')" using p(1) p'(1) True st by (simp add: split_insert_def)
    moreover have "ents b l' @ ents b e ! s # ents b r = take i (ents b e) @ x # drop i (ents b e)"
    proof -
      have "drop i (take s (ents b e)) @ ents b e ! s # drop (s + 1) (ents b e) = drop i (ents b e)"
        using True E by (metis append_assoc append_take_drop_id drop_append take_append length_take min_absorb2 order_less_imp_le diff_is_0_eq drop0)
      then show ?thesis using True l'(5) p(9,14) by (simp add: min_absorb1)
    qed
    moreover have "kids l' @ kids r = new_kids i lr (kids e)"
    proof (cases lr)
      case None
      then have "isLeaf r" using assms(6) p(13) by simp
      then show ?thesis using None l'(6) by (simp add: new_kids_def kids_def)
    next
      case (Some lr')
      have "drop (i + 1) (take (s + 1) (kids e)) @ drop (s + 1) (kids e) = drop (i + 1) (kids e)"
        using True by (metis append_take_drop_id drop_drop drop_take le_add_diff_inverse2 add_le_mono1)
      then show ?thesis using Some True l'(6) p(10,15) by (simp add: new_kids_def min_absorb1 split: prod.split)
    qed
    ultimately show ?thesis using p p' l' by (intro disjI2 exI [of _ p'] exI [of _ l'] exI [of _ r] exI [of _ "ents b e ! s"]) simp
  next
    case False
    define j where "j = i - s - 1"
    have j: "i = s + 1 + j" "int i - int s - 1 = int j" using False by (auto simp: j_def)
    have js: "j \<le> s" using assms(4) full(2) j(1) by simp
    obtain r' where r': "ins (int j) r = Some r'" "arrays b r'" "entrySize r' = entrySize r + 1" "isLeaf r' = isLeaf r"
      "ents b r' = take j (ents b r) @ x # drop j (ents b r)" "kids r' = new_kids j lr (kids r)"
      using assms(2)[unfolded inserts_def, rule_format, of r j] p(11-13) js assms(6) by auto
    obtain p' where p': "with_child 1 (ins (int j)) p = Some p'" "arrays b p'" "\<not> isLeaf p'" "ents b p' = ents b p"
      "kids p' = [Some l, Some r']"
      using with_child_spec(2) [where f = "ins (int j)", OF p(5,2,3) r'(1)] by blast
    have "split_insert (int i) ins t e = Some (e, Some p')" using p(1) p'(1) False st j(2) by (simp add: split_insert_def)
    moreover have "ents b l @ ents b e ! s # ents b r' = take i (ents b e) @ x # drop i (ents b e)"
    proof -
      have "take i (ents b e) = take s (ents b e) @ ents b e ! s # take j (drop (s + 1) (ents b e))"
      proof -
        have "take i (ents b e) = take (s + 1) (ents b e) @ take j (drop (s + 1) (ents b e))" unfolding j(1) by (rule take_add)
        then show ?thesis using E(1) by (simp add: take_Suc_conv_app_nth)
      qed
      then show ?thesis using r'(5) p(9,14) j(1) by (simp add: add.commute)
    qed
    moreover have "kids l @ kids r' = new_kids i lr (kids e)"
    proof (cases lr)
      case None
      then have "isLeaf l" using assms(6) p(8) by simp
      then show ?thesis using None r'(6) by (simp add: new_kids_def kids_def)
    next
      case (Some lr')
      have "take i (kids e) = take (s + 1) (kids e) @ take j (drop (s + 1) (kids e))" unfolding j(1) by (rule take_add)
      moreover have "j + 1 + (s + 1) = i + 1" using j(1) by simp
      ultimately show ?thesis using Some r'(6) p(10,15) by (simp add: new_kids_def add.commute split: prod.split)
    qed
    ultimately show ?thesis using p p' r' by (intro disjI2 exI [of _ p'] exI [of _ l] exI [of _ r'] exI [of _ "ents b e ! s"]) simp
  qed
qed

end
