(* ===== verification/BTreePut.thy ===== *)
theory BTreePut imports BTreeMap begin

text \<open>
  Putting, looking up and compacting on whole trees: by induction on the height, over the facts of one entry.
\<close>

section \<open>Levels\<close>

text \<open>The entries in order of an entry with the list \<open>es\<close> of keys and bytes and the children \<open>ks\<close>.\<close>

definition level :: "nat \<Rightarrow> nat \<Rightarrow> (int \<times> byte list) list \<Rightarrow> btree_entry option list \<Rightarrow> (int \<times> byte list) list" where
  "level b h es ks = (case h of 0 \<Rightarrow> es | Suc g \<Rightarrow> weave (map (\<lambda>c. inorder b g (the c)) ks) es)"

definition kids_ok :: "nat \<Rightarrow> nat \<Rightarrow> nat \<Rightarrow> btree_entry option list \<Rightarrow> bool" where
  "kids_ok b s h ks =
     (case h of 0 \<Rightarrow> ks = [] | Suc g \<Rightarrow> \<forall>c \<in> set ks. c \<noteq> None \<and> int s \<le> entrySize (the c) \<and> wf_entry b s g (the c))"

lemma inorder_level: "inorder b h e = level b h (ents b e) (kids e)"
  by (cases h) (simp_all add: level_def)

lemma wf_entry_iff:
  "wf_entry b s h e \<longleftrightarrow> arrays b e \<and> (isLeaf e \<longleftrightarrow> h = 0) \<and> entrySize e \<le> 2 * int s + 1 \<and> kids_ok b s h (kids e)"
  by (cases h) (auto simp: kids_ok_def kids_def)

lemma inorder_at:
  assumes "wf_entry b s h e" "i < nat (entrySize e)"
  shows "\<exists>A B. inorder b h e = A @ ents b e ! i # B \<and> (\<forall>y. level b h ((ents b e)[i := y]) (kids e) = A @ y # B)"
proof -
  let ?E = "ents b e"
  have E: "?E = take i ?E @ ?E ! i # drop (i + 1) ?E" using assms(2) by (simp add: id_take_nth_drop [symmetric])
  have upd: "?E[i := y] = take i ?E @ y # drop (i + 1) ?E" for y using assms(2) by (simp add: upd_conv_take_nth_drop)
  show ?thesis
  proof (cases h)
    case 0
    then show ?thesis using E upd by (intro exI [of _ "take i ?E"] exI [of _ "drop (i + 1) ?E"]) (simp add: level_def)
  next
    case (Suc g)
    let ?cs = "map (\<lambda>c. inorder b g (the c)) (kids e)"
    have l: "length ?cs = nat (entrySize e) + 1" using assms(1) Suc length_kids [of b e] by simp
    have w: "weave ?cs (take i ?E @ y # drop (i + 1) ?E) =
        weave (take (i + 1) ?cs) (take i ?E) @ y # weave (drop (i + 1) ?cs) (drop (i + 1) ?E)" for y
    proof -
      have "length (take (i + 1) ?cs) = length (take i ?E) + 1" using l assms(2) by simp
      from weave_join [OF this, of "drop (i + 1) ?cs" y "drop (i + 1) ?E"] show ?thesis by (simp only: append_take_drop_id)
    qed
    have "inorder b h e = weave ?cs (take i ?E @ ?E ! i # drop (i + 1) ?E)" using Suc E by simp
    moreover have "level b h (?E[i := y]) (kids e) = weave ?cs (take i ?E @ y # drop (i + 1) ?E)" for y
      using Suc upd by (simp add: level_def)
    ultimately show ?thesis unfolding w
      by (intro exI [of _ "weave (take (i + 1) ?cs) (take i ?E)"] exI [of _ "weave (drop (i + 1) ?cs) (drop (i + 1) ?E)"] conjI allI)
  qed
qed

lemma level_insert:
  assumes "wf_entry b s h e" "sorted_keys (inorder b h e)" "i \<le> nat (entrySize e)"
    "\<forall>j < i. fst (ents b e ! j) < key" "\<forall>j < nat (entrySize e). i \<le> j \<longrightarrow> key < fst (ents b e ! j)"
  shows "h = 0 \<Longrightarrow> level b h (take i (ents b e) @ (key, v) # drop i (ents b e)) [] = ins_kv key v (inorder b h e) \<and>
      map_of (inorder b h e) key = None"
    and "h = Suc g \<Longrightarrow> \<exists>A B. inorder b h e = A @ inorder b g (the (kids e ! i)) @ B \<and> ins_kv key v (inorder b h e) =
      A @ ins_kv key v (inorder b g (the (kids e ! i))) @ B \<and> map_of (inorder b h e) key = map_of (inorder b g (the (kids e ! i))) key \<and>
      (\<forall>c. level b h (ents b e) ((kids e)[i := Some c]) = A @ inorder b g c @ B) \<and>
      (\<forall>l r x. level b h (take i (ents b e) @ x # drop i (ents b e)) (new_kids i (Some (Some l, Some r)) (kids e)) =
        A @ (inorder b g l @ x # inorder b g r) @ B)"
proof -
  let ?E = "ents b e"
  {
    assume h: "h = 0"
    have lo: "\<forall>x \<in> set (take i ?E). fst x < key" 
    proof
      fix x assume "x \<in> set (take i ?E)"
      then obtain j where "j < i" "x = ?E ! j" using assms(3) by (auto simp: in_set_conv_nth)
      then show "fst x < key" using assms(4) by simp
    qed
    have hi: "\<forall>x \<in> set (drop i ?E). key < fst x"
    proof
      fix x assume "x \<in> set (drop i ?E)"
      then obtain j where "j < nat (entrySize e) - i" "x = ?E ! (i + j)" using assms(3) by (auto simp: in_set_conv_nth)
      then show "key < fst x" using assms(5) by simp
    qed
    have "ins_kv key v (take i ?E @ [] @ drop i ?E) = take i ?E @ ins_kv key v [] @ drop i ?E" by (rule ins_kv_middle [OF lo hi])
    moreover have "map_of (take i ?E @ [] @ drop i ?E) key = None" unfolding map_of_sorted_split [OF lo hi] by simp
    ultimately show "level b h (take i ?E @ (key, v) # drop i ?E) [] = ins_kv key v (inorder b h e) \<and> map_of (inorder b h e) key = None"
      using h by (simp add: level_def)
  next
    assume h: "h = Suc g"
    let ?cs = "map (\<lambda>c. inorder b g (the c)) (kids e)"
    let ?A = "front (take i ?cs) (take i ?E)" and ?B = "rear (drop i ?E) (drop (i + 1) ?cs)"
    have l: "length (kids e) = nat (entrySize e) + 1" using assms(1) h length_kids [of b e] by simp
    then have lc: "length ?cs = length ?E + 1" "i \<le> length ?E" "i < length (kids e)" using assms(3) by simp_all
    have io: "inorder b h e = weave ?cs ?E" using h by simp
    have sp: "inorder b h e = ?A @ inorder b g (the (kids e ! i)) @ ?B"
      unfolding io weave_split [OF lc(1,2)] using lc(3) by simp
    have bounds: "\<forall>x \<in> set ?A. fst x < key" "\<forall>x \<in> set ?B. key < fst x"
    proof -
      have srt: "sorted_keys (weave ?cs ?E)" using assms(2) unfolding io .
      have "\<forall>j < length ?E. i \<le> j \<longrightarrow> key < fst (?E ! j)" using assms(5) unfolding length_ents .
      from weave_bounds [OF lc(1,2) srt assms(4) this]
      show "\<forall>x \<in> set ?A. fst x < key" "\<forall>x \<in> set ?B. key < fst x" .
    qed
    have "level b h ?E ((kids e)[i := Some c]) = ?A @ inorder b g c @ ?B" for c
    proof -
      have "level b h ?E ((kids e)[i := Some c]) = weave (?cs[i := inorder b g c]) ?E" using h by (simp add: level_def map_update)
      also have "\<dots> = ?A @ inorder b g c @ ?B"
        using weave_split [of "?cs[i := inorder b g c]" ?E i] lc by simp
      finally show ?thesis .
    qed
    moreover have "level b h (take i ?E @ x # drop i ?E) (new_kids i (Some (Some l, Some r)) (kids e)) =
        ?A @ (inorder b g l @ x # inorder b g r) @ ?B" for l r x
    proof -
      have "level b h (take i ?E @ x # drop i ?E) (new_kids i (Some (Some l, Some r)) (kids e)) =
          weave (take i ?cs @ inorder b g l # inorder b g r # drop (i + 1) ?cs) (take i ?E @ x # drop i ?E)"
        using h by (simp add: level_def new_kids_def take_map drop_map)
      also have "\<dots> = ?A @ weave (inorder b g l # inorder b g r # drop (i + 1) ?cs) (x # drop i ?E)"
        using lc by (intro weave_append) simp
      also have "weave (inorder b g l # inorder b g r # drop (i + 1) ?cs) (x # drop i ?E) = inorder b g l @ x # inorder b g r @ ?B"
        using weave_rear [of "drop (i + 1) ?cs" "drop i ?E" "inorder b g r"] lc by simp
      finally show ?thesis by simp
    qed
    ultimately show "\<exists>A B. inorder b h e = A @ inorder b g (the (kids e ! i)) @ B \<and> ins_kv key v (inorder b h e) =
      A @ ins_kv key v (inorder b g (the (kids e ! i))) @ B \<and> map_of (inorder b h e) key = map_of (inorder b g (the (kids e ! i))) key \<and>
      (\<forall>c. level b h (ents b e) ((kids e)[i := Some c]) = A @ inorder b g c @ B) \<and>
      (\<forall>l r x. level b h (take i (ents b e) @ x # drop i (ents b e)) (new_kids i (Some (Some l, Some r)) (kids e)) =
        A @ (inorder b g l @ x # inorder b g r) @ B)"
      using sp ins_kv_middle [OF bounds] map_of_sorted_split [OF bounds]
      by (intro exI [of _ ?A] exI [of _ ?B]) simp
  }
qed

section \<open>Putting\<close>

definition put_done ::
  "nat \<Rightarrow> nat \<Rightarrow> nat \<Rightarrow> btree_entry \<Rightarrow> (int \<times> byte list) list \<Rightarrow> btree_entry \<Rightarrow> btree_entry option \<Rightarrow> bool" where
  "put_done b s h e goal e' tree =
     (case tree of
        None \<Rightarrow> wf_entry b s h e' \<and> entrySize e \<le> entrySize e' \<and> inorder b h e' = goal
      | Some p \<Rightarrow> wf_entry b s (Suc h) p \<and> inorder b (Suc h) p = goal \<and> (\<exists>x l r. ents b p = [x] \<and> kids p = [Some l, Some r]))"

lemma split_insert_done:
  assumes "conf b s t" "inserts b s ins x lr" "arrays b e \<and> (isLeaf e \<longleftrightarrow> h = 0) \<and> entrySize e \<le> 2 * int s + 1"
    "i \<le> nat (entrySize e)" "h = 0 \<longleftrightarrow> lr = None"
    "kids_ok b s h (new_kids i lr (kids e))" "level b h (take i (ents b e) @ x # drop i (ents b e)) (new_kids i lr (kids e)) = goal"
  shows "\<exists>e' tree. split_insert (int i) ins t e = Some (e', tree) \<and> put_done b s h e goal e' tree"
proof -
  note W = assms(3)
  have lf: "isLeaf e \<longleftrightarrow> lr = None" using W assms(5) by simp
  have ae: "arrays b e" "entrySize e \<le> 2 * int s + 1" using W by simp_all
  from split_insert_spec [OF assms(1,2) ae(1) assms(4) ae(2) lf] show ?thesis
  proof (elim disjE; (elim exE conjE)?)
    fix e' assume e': "split_insert (int i) ins t e = Some (e', None)" "arrays b e'" "entrySize e' = entrySize e + 1"
      "entrySize e' \<le> 2 * int s + 1" "isLeaf e' = isLeaf e" "ents b e' = take i (ents b e) @ x # drop i (ents b e)"
      "kids e' = new_kids i lr (kids e)"
    then have "put_done b s h e goal e' None" using W assms(6,7) by (simp add: put_done_def wf_entry_iff inorder_level)
    then show ?thesis using e'(1) by blast
  next
    fix p l r m assume p: "split_insert (int i) ins t e = Some (e, Some p)" "arrays b p" "\<not> isLeaf p" "ents b p = [m]"
      "kids p = [Some l, Some r]" "arrays b l" "arrays b r" "isLeaf l = isLeaf e" "isLeaf r = isLeaf e" "int s \<le> entrySize l"
      "int s \<le> entrySize r" "entrySize l \<le> 2 * int s + 1" "entrySize r \<le> 2 * int s + 1"
      "ents b l @ m # ents b r = take i (ents b e) @ x # drop i (ents b e)" "kids l @ kids r = new_kids i lr (kids e)"
    have "length (ents b p) = 1" using p(4) by simp
    then have ps: "entrySize p = 1" by simp
    have ks: "kids_ok b s h (kids l)" "kids_ok b s h (kids r)" using assms(6) unfolding p(15) [symmetric]
      by (auto simp: kids_ok_def split: nat.splits)
    have wl: "wf_entry b s h l" "wf_entry b s h r" using p ks W by (simp_all add: wf_entry_iff)
    then have "wf_entry b s (Suc h) p" using p(2,3,5,10,11) ps by simp
    moreover have "inorder b (Suc h) p = goal"
    proof -
      have "inorder b (Suc h) p = inorder b h l @ m # inorder b h r" using p(4,5) by simp
      also have "\<dots> = level b h (ents b l @ m # ents b r) (kids l @ kids r)"
      proof (cases h)
        case (Suc g)
        have "length (kids l) = nat (entrySize l) + 1" using p(6,8) W Suc by (intro length_kids) simp_all
        then show ?thesis using Suc weave_join [of "map (\<lambda>c. inorder b g (the c)) (kids l)" "ents b l"] by (simp add: level_def)
      qed (simp add: level_def)
      finally show ?thesis using assms(7) p(14,15) by simp
    qed
    ultimately have "put_done b s h e goal e (Some p)" using p(4,5) by (simp add: put_done_def)
    then show ?thesis using p(1) by blast
  qed
qed

lemma set_children_kids:
  assumes "arrays b e" "\<not> isLeaf e" "i \<le> nat (entrySize e)"
  shows "\<exists>cs. put (children e) (int i) c = Some cs \<and> idx (children e) (int i) = Some (kids e ! i) \<and>
    arrays b (set_children cs e) \<and> kids (set_children cs e) = (kids e)[i := c] \<and> ents b (set_children cs e) = ents b e"
proof -
  have "i < length (children e)" using assms by (auto simp: arrays_def)
  then show ?thesis using assms
    by (intro exI [of _ "(children e)[i := c]"]) (auto simp: arrays_def kids_def ents_def take_update_swap)
qed

lemma found_at:
  assumes "wf_entry b s h e" "sorted_keys (inorder b h e)" "i < nat (entrySize e)" "ekeys e ! i = key"
  shows "map_of (inorder b h e) key = Some (val_at b (evals e) i)"
    "level b h ((ents b e)[i := (key, v)]) (kids e) = ins_kv key v (inorder b h e)"
proof -
  let ?old = "val_at b (evals e) i"
  have E: "ents b e ! i = (key, ?old)" using assms(3,4) by (simp add: nth_ents)
  obtain A B where AB: "inorder b h e = A @ (key, ?old) # B" "\<And>y. level b h ((ents b e)[i := y]) (kids e) = A @ y # B"
    using inorder_at [OF assms(1,3)] E by auto
  have bounds: "\<forall>x \<in> set A. fst x < key" "\<forall>x \<in> set B. key < fst x"
    using assms(2) unfolding AB(1) by (simp_all add: sorted_wrt_append)
  have "ins_kv key v (A @ [(key, ?old)] @ B) = A @ [(key, v)] @ B" unfolding ins_kv_middle [OF bounds] by simp
  moreover have "map_of (A @ [(key, ?old)] @ B) key = Some ?old" unfolding map_of_sorted_split [OF bounds] by simp
  ultimately show "map_of (inorder b h e) key = Some ?old" "level b h ((ents b e)[i := (key, v)]) (kids e) = ins_kv key v (inorder b h e)"
    using AB by simp_all
qed

lemma put_found:
  assumes "conf b s t" "wf_entry b s h e" "sorted_keys (inorder b h e)" "i < nat (entrySize e)" "ekeys e ! i = key"
    "binarySearch (ekeys e) 0 (entrySize e) key = Some (int i)"
  shows "\<exists>e' old. put_entry key v t e = Some (e', Some old, None) \<and> map_of (inorder b h e) key = Some old \<and>
    put_done b s h e (ins_kv key (long_bytes b v) (inorder b h e)) e' None"
proof -
  note W = assms(2) [unfolded wf_entry_iff]
  have bt: "bytesPerValue t = int b" using assms(1) by (simp add: conf_def)
  let ?old = "val_at b (evals e) i" and ?e = "set_vals (copy_into (evals e) (i * b) (long_bytes b v)) e"
  have sl: "slice (evals e) (int i * int b) ((int i + 1) * int b) = Some ?old" "i * b + b \<le> length (evals e)"
    using val_slice [of b e i] W assms(4) by simp_all
  have "fromLongInto (int b) (evals e) v (int i * int b) = Some (copy_into (evals e) (i * b) (long_bytes b v))"
    using fromLongInto_spec [OF sl(2)] by simp
  then have pe: "put_entry key v t e = Some (?e, Some ?old, None)"
    using sl(1) assms(6) by (subst put_entry.simps) (simp add: bt)
  have "kids ?e = kids e" by (simp add: kids_def)
  then have "wf_entry b s h ?e" "inorder b h ?e = ins_kv key (long_bytes b v) (inorder b h e)"
    using set_val_spec [of b e i "long_bytes b v"] W assms(4,5) found_at(2) [OF assms(2-5)]
    by (simp_all add: inorder_level wf_entry_iff)
  then show ?thesis using pe found_at(1) [OF assms(2-5)] by (simp add: put_done_def)
qed

lemma put_entry_spec:
  assumes "conf b s t"
  shows "wf_entry b s h e \<Longrightarrow> sorted_keys (inorder b h e) \<Longrightarrow>
    \<exists>e' tree. put_entry key v t e = Some (e', map_of (inorder b h e) key, tree) \<and>
      (map_of (inorder b h e) key \<noteq> None \<longrightarrow> tree = None) \<and>
      put_done b s h e (ins_kv key (long_bytes b v) (inorder b h e)) e' tree"
proof (induction h arbitrary: e)
  case (0 e)
  note W = 0(1) [unfolded wf_entry_iff]
  from search_ents [OF 0, of key] show ?case
  proof (elim disjE exE conjE)
    fix i assume "i < nat (entrySize e)" "ekeys e ! i = key" "binarySearch (ekeys e) 0 (entrySize e) key = Some (int i)"
    from put_found [OF assms 0 this, of v] show ?thesis by auto
  next
    fix i assume i: "i \<le> nat (entrySize e)" "binarySearch (ekeys e) 0 (entrySize e) key = Some (NOT (int i))"
      "\<forall>j < i. fst (ents b e ! j) < key" "\<forall>j < nat (entrySize e). i \<le> j \<longrightarrow> key < fst (ents b e ! j)"
    have bt: "bytesPerValue t = int b" using assms by (simp add: conf_def)
    note L = level_insert(1) [OF 0 i(1,3,4) refl, of "long_bytes b v"]
    have nk: "new_kids i None (kids e) = []" by (simp add: new_kids_def)
    obtain e' tree where r: "split_insert (int i) (\<lambda>i. insertKeyValue i key (long_bytes b v) t) t e = Some (e', tree)"
      "put_done b s 0 e (ins_kv key (long_bytes b v) (inorder b 0 e)) e' tree"
    proof -
      have pre: "arrays b e \<and> (isLeaf e \<longleftrightarrow> (0 :: nat) = 0) \<and> entrySize e \<le> 2 * int s + 1" using W by simp
      have ko: "kids_ok b s 0 (new_kids i None (kids e))" by (simp add: nk kids_ok_def)
      have lv: "level b 0 (take i (ents b e) @ (key, long_bytes b v) # drop i (ents b e)) (new_kids i None (kids e)) =
          ins_kv key (long_bytes b v) (inorder b 0 e)" using L nk by simp
      have "inserts b s (\<lambda>i. insertKeyValue i key (long_bytes b v) t) (key, long_bytes b v) None"
        by (rule inserts_value [OF assms]) simp
      from split_insert_done [OF assms this pre i(1) _ ko lv] show ?thesis using that by auto
    qed
    have "put_entry key v t e = Some (e', None, tree)"
      using i(2) W r(1) by (subst put_entry.simps) (simp add: put_here_def bt FromLong_spec)
    then show ?thesis using r(2) L by auto
  qed
next
  case (Suc h e)
  note W = Suc(2) [unfolded wf_entry_iff]
  from search_ents [OF Suc.prems, of key] show ?case
  proof (elim disjE exE conjE)
    fix i assume "i < nat (entrySize e)" "ekeys e ! i = key" "binarySearch (ekeys e) 0 (entrySize e) key = Some (int i)"
    from put_found [OF assms Suc.prems this, of v] show ?thesis by auto
  next
    fix i assume i: "i \<le> nat (entrySize e)" "binarySearch (ekeys e) 0 (entrySize e) key = Some (NOT (int i))"
      "\<forall>j < i. fst (ents b e ! j) < key" "\<forall>j < nat (entrySize e). i \<le> j \<longrightarrow> key < fst (ents b e ! j)"
    have nl: "\<not> isLeaf e" "arrays b e" "i < length (kids e)" using W i(1) length_kids [of b e] by simp_all
    then have "kids e ! i \<in> set (kids e)" by simp
    then obtain c where c: "kids e ! i = Some c" "int s \<le> entrySize c" "wf_entry b s h c" using Suc.prems(1) by force
    obtain A B where AB: "inorder b (Suc h) e = A @ inorder b h c @ B"
      "ins_kv key (long_bytes b v) (inorder b (Suc h) e) = A @ ins_kv key (long_bytes b v) (inorder b h c) @ B"
      "map_of (inorder b (Suc h) e) key = map_of (inorder b h c) key"
      "\<And>c. level b (Suc h) (ents b e) ((kids e)[i := Some c]) = A @ inorder b h c @ B"
      "\<And>l r x. level b (Suc h) (take i (ents b e) @ x # drop i (ents b e)) (new_kids i (Some (Some l, Some r)) (kids e)) =
        A @ (inorder b h l @ x # inorder b h r) @ B"
      using level_insert(2) [OF Suc.prems i(1,3,4) refl, of "long_bytes b v"] c(1) by auto
    have "sorted_keys (inorder b h c)" using Suc.prems(2) unfolding AB(1) by (simp add: sorted_wrt_append)
    then obtain c' tree where p: "put_entry key v t c = Some (c', map_of (inorder b h c) key, tree)"
      "map_of (inorder b h c) key \<noteq> None \<longrightarrow> tree = None"
      "put_done b s h c (ins_kv key (long_bytes b v) (inorder b h c)) c' tree"
      using Suc.IH [OF c(3)] by blast
    obtain cs where cs: "put (children e) (int i) (Some c') = Some cs" "idx (children e) (int i) = Some (kids e ! i)"
      "arrays b (set_children cs e)" "kids (set_children cs e) = (kids e)[i := Some c']" "ents b (set_children cs e) = ents b e"
      using set_children_kids [OF nl(2,1) i(1)] by blast
    have u: "put_entry key v t e =
        (case map_of (inorder b h c) key of
           Some _ \<Rightarrow> Some (set_children cs e, map_of (inorder b h c) key, tree)
         | None \<Rightarrow> (case tree of
               None \<Rightarrow> Some (set_children cs e, None, None)
             | Some tr \<Rightarrow> do {
                 (e, s) \<leftarrow> split_insert (int i) (\<lambda>i. insertTree i tr t) t (set_children cs e);
                 Some (e, None, s) }))"
      using i(2) nl(1) cs(1,2) c(1) p(1) 
      by (subst put_entry.simps) (cases "map_of (inorder b h c) key"; cases tree; simp add: Let_def del: idx_int put_int)
    show ?thesis
    proof (cases tree)
      case None
      then have pc: "wf_entry b s h c'" "entrySize c \<le> entrySize c'" "inorder b h c' = ins_kv key (long_bytes b v) (inorder b h c)"
        using p(3) by (simp_all add: put_done_def)
      have "kids_ok b s (Suc h) ((kids e)[i := Some c'])"
        using W pc c(2) by (auto simp: kids_ok_def dest!: set_update_subset_insert [THEN subsetD])
      then have "put_done b s (Suc h) e (ins_kv key (long_bytes b v) (inorder b (Suc h) e)) (set_children cs e) None"
        using W cs(3-5) AB(2,4) pc(3) by (simp add: put_done_def wf_entry_iff inorder_level del: inorder.simps)
      then show ?thesis using u None AB(3) by (cases "map_of (inorder b h c) key") auto
    next
      case (Some tr)
      then have tr: "wf_entry b s (Suc h) tr" "inorder b (Suc h) tr = ins_kv key (long_bytes b v) (inorder b h c)"
        using p(3) by (simp_all add: put_done_def)
      obtain x l r where x: "ents b tr = [x]" "kids tr = [Some l, Some r]" using p(3) Some by (auto simp: put_done_def)
      have old: "map_of (inorder b h c) key = None" using p(2) Some by auto
      have lr: "wf_entry b s h l" "wf_entry b s h r" "int s \<le> entrySize l" "int s \<le> entrySize r" using tr(1) x(2) by auto
      let ?e = "set_children cs e"
      have nk: "new_kids i (Some (Some l, Some r)) (kids ?e) = new_kids i (Some (Some l, Some r)) (kids e)"
        by (simp add: cs(4) new_kids_def)
      have ok: "kids_ok b s (Suc h) (new_kids i (Some (Some l, Some r)) (kids e))"
        using W lr by (auto simp: kids_ok_def new_kids_def dest: in_set_takeD in_set_dropD)
      have lv: "level b (Suc h) (take i (ents b ?e) @ x # drop i (ents b ?e)) (new_kids i (Some (Some l, Some r)) (kids ?e)) =
          ins_kv key (long_bytes b v) (inorder b (Suc h) e)"
        unfolding nk cs(5) AB(5) AB(2) tr(2) [symmetric] using x by simp
      obtain e' tree' where r: "split_insert (int i) (\<lambda>i. insertTree i tr t) t ?e = Some (e', tree')"
        "put_done b s (Suc h) ?e (ins_kv key (long_bytes b v) (inorder b (Suc h) e)) e' tree'"
      proof -
        have pre: "arrays b ?e \<and> (isLeaf ?e \<longleftrightarrow> Suc h = 0) \<and> entrySize ?e \<le> 2 * int s + 1" using W cs(3) by simp
        have ie: "i \<le> nat (entrySize ?e)" using i(1) by simp
        have "arrays b tr" using tr(1) by simp
        from inserts_tree [OF assms this x] have "inserts b s (\<lambda>i. insertTree i tr t) x (Some (Some l, Some r))" .
        from split_insert_done [OF assms this pre ie _ ok [folded nk] lv] show ?thesis using that by auto
      qed
      have "put_done b s (Suc h) e (ins_kv key (long_bytes b v) (inorder b (Suc h) e)) e' tree'"
        using r(2) unfolding put_done_def set_sel .
      moreover have "put_entry key v t e = Some (e', map_of (inorder b (Suc h) e) key, tree')"
        using u old Some r(1) AB(3) by simp
      ultimately show ?thesis using old AB(3) by auto
    qed
  qed
qed

section \<open>Looking up\<close>

lemma get_found:
  assumes "conf b s t" "wf_entry b s h e" "sorted_keys (inorder b h e)" "i < nat (entrySize e)" "ekeys e ! i = key"
    "binarySearch (ekeys e) 0 (entrySize e) key = Some (int i)"
  shows "get_entry key t e = Some (case map_of (inorder b h e) key of None \<Rightarrow> emptyValue t | Some bs \<Rightarrow> bytes_long bs)"
proof -
  have C: "bytesPerValue t = int b" "0 < b" using assms(1) by (simp_all add: conf_def)
  have "i * b + b \<le> length (evals e)" using val_slice [of b e i] assms(2,4) by (simp add: wf_entry_iff)
  then have "toLong (int b) (evals e) (int i * int b) = Some (bytes_long (val_at b (evals e) i))"
    using toLong_spec [OF C(2), of "i * b" "evals e"] by (simp add: val_at_def)
  then show ?thesis using found_at(1) [OF assms(2-5)] assms(6) C(1) by (subst get_entry.simps) simp
qed

lemma get_entry_spec:
  assumes "conf b s t"
  shows "wf_entry b s h e \<Longrightarrow> sorted_keys (inorder b h e) \<Longrightarrow>
    get_entry key t e = Some (case map_of (inorder b h e) key of None \<Rightarrow> emptyValue t | Some bs \<Rightarrow> bytes_long bs)"
proof (induction h arbitrary: e)
  case (0 e)
  note W = 0(1) [unfolded wf_entry_iff]
  from search_ents [OF 0, of key] show ?case
  proof (elim disjE exE conjE)
    fix i assume i: "i < nat (entrySize e)" "ekeys e ! i = key" "binarySearch (ekeys e) 0 (entrySize e) key = Some (int i)"
    from get_found [OF assms 0 i] show ?thesis .
  next
    fix i assume i: "i \<le> nat (entrySize e)" "binarySearch (ekeys e) 0 (entrySize e) key = Some (NOT (int i))"
      "\<forall>j < i. fst (ents b e ! j) < key" "\<forall>j < nat (entrySize e). i \<le> j \<longrightarrow> key < fst (ents b e ! j)"
    show ?thesis using level_insert(1) [OF 0 i(1,3,4) refl] i(2) W by (subst get_entry.simps) simp
  qed
next
  case (Suc h e)
  note W = Suc(2) [unfolded wf_entry_iff]
  from search_ents [OF Suc.prems, of key] show ?case
  proof (elim disjE exE conjE)
    fix i assume i: "i < nat (entrySize e)" "ekeys e ! i = key" "binarySearch (ekeys e) 0 (entrySize e) key = Some (int i)"
    from get_found [OF assms Suc.prems i] show ?thesis .
  next
    fix i assume i: "i \<le> nat (entrySize e)" "binarySearch (ekeys e) 0 (entrySize e) key = Some (NOT (int i))"
      "\<forall>j < i. fst (ents b e ! j) < key" "\<forall>j < nat (entrySize e). i \<le> j \<longrightarrow> key < fst (ents b e ! j)"
    have nl: "\<not> isLeaf e" "arrays b e" "i < length (kids e)" using W i(1) length_kids [of b e] by simp_all
    then have "kids e ! i \<in> set (kids e)" by simp
    then obtain c where c: "kids e ! i = Some c" "wf_entry b s h c" using Suc.prems(1) by force
    obtain A B where AB: "inorder b (Suc h) e = A @ inorder b h c @ B"
      "map_of (inorder b (Suc h) e) key = map_of (inorder b h c) key"
      using level_insert(2) [OF Suc.prems i(1,3,4) refl, of "[]"] unfolding c(1) option.sel by blast
    have "sorted_keys (inorder b h c)" using Suc.prems(2) unfolding AB(1) by (simp add: sorted_wrt_append)
    note IH = Suc.IH [OF c(2) this]
    have "idx (children e) (int i) = Some (Some c)" using set_children_kids [OF nl(2,1) i(1)] unfolding c(1) by blast
    then show ?thesis using i(2) nl(1) IH AB(2) by (subst get_entry.simps) (simp del: idx_int inorder.simps)
  qed
qed

section \<open>Compaction\<close>

lemma visit_children_spec:
  "\<forall>c. Some c \<in> set cs \<longrightarrow> (\<exists>c'. f c = Some c' \<and> P c c') \<Longrightarrow>
    \<exists>ds. visit_children f cs = Some ds \<and> list_all2 (\<lambda>c d. case c of None \<Rightarrow> d = None | Some c \<Rightarrow> \<exists>c'. d = Some c' \<and> P c c') cs ds"
proof (induction f cs rule: visit_children.induct)
  case (3 f c cs)
  then obtain c' where "f c = Some c'" "P c c'" by auto
  moreover obtain ds where "visit_children f cs = Some ds"
    "list_all2 (\<lambda>c d. case c of None \<Rightarrow> d = None | Some c \<Rightarrow> \<exists>c'. d = Some c' \<and> P c c') cs ds"
    using 3 \<open>f c = Some c'\<close> by force
  ultimately show ?case by auto
qed auto

lemma compact_spec:
  "wf_entry b s h e \<Longrightarrow>
    \<exists>e'. compact (int b) e = Some e' \<and> wf_entry b s h e' \<and> entrySize e' = entrySize e \<and> inorder b h e' = inorder b h e"
proof (induction h arbitrary: e)
  case (0 e)
  note W = 0 [unfolded wf_entry_iff]
  obtain e1 where e1: "shrink (int b) e = Some e1" "arrays b e1" "entrySize e1 = entrySize e" "isLeaf e1 = isLeaf e"
    "ents b e1 = ents b e" "kids e1 = kids e" using shrink_spec [of b e] W by blast
  then have "compact (int b) e = Some e1" using W by (subst compact.simps) simp
  then show ?case using e1 W by (simp add: wf_entry_iff)
next
  case (Suc h e)
  note W = Suc.prems [unfolded wf_entry_iff]
  obtain e1 where e1: "shrink (int b) e = Some e1" "arrays b e1" "entrySize e1 = entrySize e" "isLeaf e1 = isLeaf e"
    "ents b e1 = ents b e" "kids e1 = kids e" using shrink_spec [of b e] W by blast
  define n where "n = nat (entrySize e1)"
  have nl: "\<not> isLeaf e1" "kids e1 = take (n + 1) (children e1)" using W e1(4) by (simp_all add: kids_def n_def)
  have len: "n + 1 \<le> length (children e1)" using e1(2) nl(1) by (auto simp: arrays_def n_def)
  have inkids: "Some c \<in> set (kids e)" if x: "Some c \<in> set (children e1)" for c
  proof -
    obtain k where k: "k < length (children e1)" "children e1 ! k = Some c" using x by (auto simp: in_set_conv_nth)
    then have "k < n + 1" using e1(2) nl(1) by (fastforce simp: arrays_def n_def)
    then show ?thesis using k nl(2) e1(6) by (auto simp: in_set_conv_nth)
  qed
  let ?P = "\<lambda>c c'. wf_entry b s h c' \<and> entrySize c' = entrySize c \<and> inorder b h c' = inorder b h c"
  have "\<exists>c'. compact (int b) c = Some c' \<and> ?P c c'" if "Some c \<in> set (children e1)" for c
    using Suc.IH [of c] inkids [OF that] Suc.prems by auto
  then obtain ds where ds: "visit_children (compact (int b)) (children e1) = Some ds"
    "list_all2 (\<lambda>c d. case c of None \<Rightarrow> d = None | Some c \<Rightarrow> \<exists>c'. d = Some c' \<and> ?P c c') (children e1) ds"
    using visit_children_spec [of "children e1" "compact (int b)" ?P] by blast
  let ?e = "set_children ds e1"
  have ld: "length ds = length (children e1)" using ds(2) by (simp add: list_all2_lengthD)
  have d: "case children e1 ! k of None \<Rightarrow> ds ! k = None | Some c \<Rightarrow> \<exists>c'. ds ! k = Some c' \<and> ?P c c'" if "k < length (children e1)" for k
    using list_all2_nthD [OF ds(2) that] .
  have kd: "\<exists>c c'. kids e ! k = Some c \<and> ds ! k = Some c' \<and> ?P c c' \<and> int s \<le> entrySize c" if k: "k < n + 1" for k
  proof -
    have "kids e ! k \<in> set (kids e)" "kids e ! k = children e1 ! k" using k nl(2) e1(6) len by (auto simp: in_set_conv_nth)
    then obtain c where "kids e ! k = Some c" "children e1 ! k = Some c" "int s \<le> entrySize c" using Suc.prems by fastforce
    then show ?thesis using d [of k] k len by auto
  qed
  have ke: "kids ?e = take (n + 1) ds" using nl by (simp add: kids_def n_def)
  have "wf_entry b s (Suc h) ?e"
  proof -
    have "c \<noteq> None \<and> int s \<le> entrySize (the c) \<and> wf_entry b s h (the c)" if x: "c \<in> set (kids ?e)" for c
    proof -
      obtain k where "k < n + 1" "c = ds ! k" using x ke by (auto simp: in_set_conv_nth)
      then show ?thesis using kd [of k] by auto
    qed
    moreover have "arrays b ?e"
    proof -
      have "ds ! k = None" if "k < length ds" "nat (entrySize e1) < k" for k
        using d [of k] e1(2) nl(1) ld that by (auto simp: arrays_def)
      then show ?thesis using e1(2) nl(1) ld by (auto simp: arrays_def)
    qed
    ultimately show ?thesis using W e1(3) nl(1) by (simp add: wf_entry_iff [of b s "Suc h"] kids_ok_def)
  qed
  moreover have "inorder b (Suc h) ?e = inorder b (Suc h) e"
  proof -
    have "map (\<lambda>c. inorder b h (the c)) (kids ?e) = map (\<lambda>c. inorder b h (the c)) (kids e)"
    proof (rule nth_equalityI)
      show "length (map (\<lambda>c. inorder b h (the c)) (kids ?e)) = length (map (\<lambda>c. inorder b h (the c)) (kids e))"
        using ke nl(2) e1(6) ld by simp
      fix k assume "k < length (map (\<lambda>c. inorder b h (the c)) (kids ?e))"
      then have k: "k < n + 1" using ke len ld by simp
      then have "kids ?e ! k = ds ! k" "k < length (kids ?e)" "k < length (kids e)" using ke len ld nl(2) e1(6) [symmetric] by simp_all
      then show "map (\<lambda>c. inorder b h (the c)) (kids ?e) ! k = map (\<lambda>c. inorder b h (the c)) (kids e) ! k"
        using kd [OF k] by auto
    qed
    moreover have "ents b ?e = ents b e" using e1(5) by (simp add: ents_def)
    ultimately show ?thesis by simp
  qed
  moreover have "compact (int b) e = Some ?e" using e1(1) nl(1) ds(1) by (subst compact.simps) simp
  ultimately show ?case using e1(3) by (intro exI [of _ ?e]) simp
qed

end
