(* ===== verification/BTreeFacts.thy ===== *)
theory BTreeFacts imports BTreePut begin

text \<open>
  The B-tree as a map from keys to values: its invariant, the interface of a map from 64-bit keys to 64-bit values
  (core/coll/long\_long\_map.go), which the tree provides, and the height of a tree.
\<close>

section \<open>The invariant and the abstract map\<close>

abbreviation bt_bytes :: "long_btree \<Rightarrow> nat" where "bt_bytes t \<equiv> nat (bytesPerValue t)"
abbreviation bt_split :: "long_btree \<Rightarrow> nat" where "bt_split t \<equiv> nat (splitIndex t)"
abbreviation bt_depth :: "long_btree \<Rightarrow> nat" where "bt_depth t \<equiv> nat (bt_height t - 1)"
abbreviation bt_list :: "long_btree \<Rightarrow> (int \<times> byte list) list" where "bt_list t \<equiv> inorder (bt_bytes t) (bt_depth t) (root t)"

definition bt_inv :: "long_btree \<Rightarrow> bool" where
  "bt_inv t \<longleftrightarrow> conf (bt_bytes t) (bt_split t) t \<and> 1 \<le> bt_height t \<and> wf_entry (bt_bytes t) (bt_split t) (bt_depth t) (root t) \<and>
     (1 < bt_height t \<longrightarrow> 1 \<le> entrySize (root t)) \<and> sorted_keys (bt_list t) \<and> bt_size t = int (length (bt_list t)) \<and>
     maxValue t = push_bit (8 * bt_bytes t - 1) 1 - 1"

definition bt_map :: "long_btree \<Rightarrow> int \<rightharpoonup> i64" where
  "bt_map t = (\<lambda>k. map_option bytes_long (map_of (bt_list t) k))"

text \<open>The value that \<open>bytesPerValue\<close> bytes keep of a value.\<close>

definition stored_value :: "long_btree \<Rightarrow> i64 \<Rightarrow> i64" where
  "stored_value t v = signed_take_bit (8 * bt_bytes t - 1) v"

lemma bt_invD:
  assumes "bt_inv t"
  shows "conf (bt_bytes t) (bt_split t) t" "1 \<le> bt_height t" "wf_entry (bt_bytes t) (bt_split t) (bt_depth t) (root t)"
    "sorted_keys (bt_list t)" "bt_size t = int (length (bt_list t))" "bytesPerValue t = int (bt_bytes t)" "1 \<le> bt_bytes t" "bt_bytes t \<le> 8"
    "1 < bt_height t \<longrightarrow> 1 \<le> entrySize (root t)"
  using assms by (auto simp: bt_inv_def conf_def)

lemma conf_cong:
  "bytesPerValue t' = bytesPerValue t \<Longrightarrow> splitIndex t' = splitIndex t \<Longrightarrow> maxLeafEntries t' = maxLeafEntries t \<Longrightarrow>
    initLeafSize t' = initLeafSize t \<Longrightarrow> conf b s t' \<longleftrightarrow> conf b s t"
  by (simp add: conf_def)

lemma value_lengths: "wf_entry b s h e \<Longrightarrow> \<forall>x \<in> set (inorder b h e). length (snd x) = b"
proof (induction h arbitrary: e)
  case (0 e)
  then show ?case using val_slice(3) [of b e] by (auto simp: ents_def)
next
  case (Suc h e)
  have "\<forall>x \<in> set (ents b e). length (snd x) = b" using Suc.prems val_slice(3) [of b e] by (auto simp: ents_def)
  moreover have "length (map (\<lambda>c. inorder b h (the c)) (kids e)) = length (ents b e) + 1" using Suc.prems length_kids [of b e] by simp
  moreover have "\<forall>x \<in> set (inorder b h (the c)). length (snd x) = b" if "c \<in> set (kids e)" for c
    using Suc.IH [of "the c"] Suc.prems that by simp
  ultimately show ?case using set_weave [of "map (\<lambda>c. inorder b h (the c)) (kids e)" "ents b e"] by (simp add: ball_Un)
qed

lemma bt_Get_spec:
  assumes "bt_inv t"
  shows "bt_Get k t = Some (case bt_map t k of None \<Rightarrow> emptyValue t | Some v \<Rightarrow> v)"
  using get_entry_spec [OF bt_invD(1,3,4) [OF assms], of k] by (simp add: bt_Get_def bt_map_def split: option.split)

lemma size_card:
  assumes "bt_inv t"
  shows "bt_size t = int (card (dom (bt_map t)))"
proof -
  have d: "distinct (map fst (bt_list t))" using bt_invD(4) [OF assms] by (simp add: strict_sorted_iff)
  have "dom (bt_map t) = dom (map_of (bt_list t))" by (auto simp: bt_map_def dom_def)
  then have "dom (bt_map t) = fst ` set (bt_list t)" by (simp only: dom_map_of_conv_image_fst)
  then have "card (dom (bt_map t)) = length (bt_list t)" using distinct_card [OF d] by simp
  then show ?thesis using bt_invD(5) [OF assms] by simp
qed

lemma bt_Optimize_spec:
  assumes "bt_inv t"
  shows "\<exists>t'. bt_Optimize t = Some t' \<and> bt_inv t' \<and> bt_map t' = bt_map t \<and> t' = t\<lparr>root := root t'\<rparr>"
proof (cases "bt_size t > 10000")
  case True
  obtain r where r: "compact (int (bt_bytes t)) (root t) = Some r" "wf_entry (bt_bytes t) (bt_split t) (bt_depth t) r"
    "entrySize r = entrySize (root t)" "inorder (bt_bytes t) (bt_depth t) r = bt_list t"
    using compact_spec [OF bt_invD(3) [OF assms]] by blast
  then have "bt_Optimize t = Some (t\<lparr>root := r\<rparr>)" using True bt_invD(6) [OF assms] by (simp add: bt_Optimize_def)
  then show ?thesis using assms r conf_cong [of "t\<lparr>root := r\<rparr>" t] by (simp add: bt_inv_def bt_map_def)
qed (use assms in \<open>simp add: bt_Optimize_def\<close>)

lemma bt_Put_spec:
  assumes "bt_inv t" "sint v \<le> sint (maxValue t)" "v \<noteq> emptyValue t"
  shows "\<exists>t'. bt_Put k v t = Some (case bt_map t k of None \<Rightarrow> emptyValue t | Some w \<Rightarrow> w, t') \<and> bt_inv t' \<and>
    bt_map t' = (bt_map t)(k \<mapsto> stored_value t v) \<and> emptyValue t' = emptyValue t \<and> maxValue t' = maxValue t \<and>
    bytesPerValue t' = bytesPerValue t"
proof -
  note I = bt_invD [OF assms(1)]
  let ?b = "bt_bytes t" and ?h = "bt_depth t"
  let ?goal = "ins_kv k (long_bytes ?b v) (bt_list t)"
  obtain r tree where p: "put_entry k v t (root t) = Some (r, map_of (bt_list t) k, tree)"
    "map_of (bt_list t) k \<noteq> None \<longrightarrow> tree = None" "put_done ?b (bt_split t) ?h (root t) ?goal r tree"
    using put_entry_spec [OF I(1,3,4)] by blast
  define t1 where "t1 = (case tree of None \<Rightarrow> t\<lparr>root := r\<rparr> | Some q \<Rightarrow> t\<lparr>bt_height := bt_height t + 1, root := q\<rparr>)"
  have same: "bytesPerValue t1 = bytesPerValue t" "splitIndex t1 = splitIndex t" "emptyValue t1 = emptyValue t" "maxValue t1 = maxValue t"
    "maxLeafEntries t1 = maxLeafEntries t" "initLeafSize t1 = initLeafSize t" "bt_size t1 = bt_size t"
    by (simp_all add: t1_def split: option.split)
  have w1: "wf_entry ?b (bt_split t) (bt_depth t1) (root t1) \<and> bt_list t1 = ?goal \<and> 1 \<le> bt_height t1 \<and>
    (1 < bt_height t1 \<longrightarrow> 1 \<le> entrySize (root t1))"
  proof (cases tree)
    case None
    then show ?thesis using p(3) I(2,9) by (simp add: t1_def put_done_def) linarith
  next
    case (Some q)
    have h: "nat (bt_height t) = Suc ?h" using I(2) by simp
    have q: "wf_entry ?b (bt_split t) (Suc ?h) q" "inorder ?b (Suc ?h) q = ?goal" "\<exists>x l r. ents ?b q = [x] \<and> kids q = [Some l, Some r]"
      using p(3) Some by (simp_all add: put_done_def del: inorder.simps wf_entry.simps)
    obtain x where "ents ?b q = [x]" using q(3) by blast
    then have "length (ents ?b q) = 1" by (simp del: length_ents)
    then have "1 \<le> entrySize q" by simp
    then show ?thesis using q(1,2) h I(2) Some by (simp add: t1_def del: inorder.simps wf_entry.simps)
  qed
  have map1: "bt_map t1 = (bt_map t)(k \<mapsto> stored_value t v)"
    using w1 same map_of_ins_kv [OF I(4), of k "long_bytes ?b v"] long_round_trip_bits [of ?b v] I(7,8)
    by (auto simp: bt_map_def stored_value_def)
  have inv: "bt_inv (t1\<lparr>bt_size := n\<rparr>)" if "n = int (length ?goal)" for n
    using assms(1) w1 that same ins_kv_sorted [OF I(4), of k "long_bytes ?b v"] conf_cong [of "t1\<lparr>bt_size := n\<rparr>" t]
    by (simp add: bt_inv_def)
  have mapsz: "bt_map (t1\<lparr>bt_size := n\<rparr>) = bt_map t1" for n by (simp add: bt_map_def)
  have ok: "\<not> sint (maxValue t) < sint v" using assms(2) by simp
  show ?thesis
  proof (cases "map_of (bt_list t) k")
    case None
    then have len: "int (length ?goal) = bt_size t + 1" using length_ins_kv [OF I(4), of k "long_bytes ?b v"] I(5) by (simp add: domIff)
    let ?t2 = "t1\<lparr>bt_size := bt_size t1 + 1\<rparr>"
    have i2: "bt_inv ?t2" using inv [of "bt_size t1 + 1"] len same by simp
    obtain t3 where t3: "(if bt_size ?t2 mod 1000000 = 0 then bt_Optimize ?t2 else Some ?t2) = Some t3" "bt_inv t3" "bt_map t3 = bt_map ?t2"
      "t3 = ?t2\<lparr>root := root t3\<rparr>"
      using bt_Optimize_spec [OF i2] i2 by (cases "bt_size ?t2 mod 1000000 = 0") auto
    have e3: "emptyValue t3 = emptyValue t" "maxValue t3 = maxValue t" "bytesPerValue t3 = bytesPerValue t"
      using same by (subst t3(4), simp)+
    have "bt_Put k v t = Some (emptyValue t, t3)"
      using p(1) None ok assms(3) t3(1) e3(1) unfolding bt_Put_def
      by (cases "bt_size ?t2 mod 1000000 = 0") (simp_all add: t1_def [symmetric] Let_def)
    then show ?thesis using t3(2,3) e3 map1 mapsz None by (auto simp: bt_map_def)
  next
    case (Some old)
    then have len: "int (length ?goal) = bt_size t" using length_ins_kv [OF I(4), of k "long_bytes ?b v"] I(5) by (auto simp: domIff)
    have "t1\<lparr>bt_size := bt_size t\<rparr> = t1" using same by simp
    then have i1: "bt_inv t1" using inv [of "bt_size t"] len by simp
    have lo: "length old = ?b"
using value_lengths [OF I(3)] map_of_SomeD [OF Some] by force
    have "toLong (bytesPerValue t) old 0 = Some (bytes_long old)"
      using toLong_spec [of ?b 0 old] lo I(6,7) by simp
    then have "bt_Put k v t = Some (bytes_long old, t1)"
      using p(1) Some ok assms(3) same(1) unfolding bt_Put_def by (simp add: t1_def [symmetric] Let_def)
    then show ?thesis using i1 map1 same Some by (auto simp: bt_map_def)
  qed
qed

section \<open>New trees and values that fit\<close>

lemma bt_Clear_spec:
  assumes "conf b s t" "maxValue t = push_bit (8 * b - 1) 1 - 1"
  shows "\<exists>t'. bt_Clear t = Some t' \<and> bt_inv t' \<and> bt_map t' = Map.empty \<and> emptyValue t' = emptyValue t \<and> bytesPerValue t' = bytesPerValue t"
proof -
  note C = assms(1) [unfolded conf_def]
  have bs: "bt_bytes t = b" "bt_split t = s" using C by simp_all
  obtain r where r: "newBTreeEntry (initLeafSize t) True (int b) = Some r" using new_some [of "initLeafSize t" True b] C by auto
  have ar: "arrays b r" "entrySize r = 0" "isLeaf r"
    using r C by (auto simp: newBTreeEntry_def go_make_def arrays_def nat_mult_distrib split: if_splits)
  then have e: "ents b r = []" by (simp add: ents_def)
  let ?t = "t\<lparr>bt_size := 0, bt_height := 1, root := r\<rparr>"
  have "bt_Clear t = Some ?t" using r C by (simp add: bt_Clear_def)
  moreover have "bt_inv ?t" using assms ar e bs conf_cong [of ?t t] by (simp add: bt_inv_def)
  moreover have "bt_map ?t = Map.empty" using e bs by (simp add: bt_map_def)
  ultimately show ?thesis by (intro exI [of _ ?t]) simp
qed

lemma New_spec:
  assumes "NewGHLongLongBTree n b ev = Some t"
  shows "bt_inv t" "bt_map t = Map.empty" "emptyValue t = ev" "bytesPerValue t = b" "1 \<le> n" "1 \<le> b" "b \<le> 8"
proof -
  have ok: "b \<le> 8" "1 \<le> n" "1 \<le> b" using assms by (auto simp: NewGHLongLongBTree_def split: if_splits)
  then show "1 \<le> n" "1 \<le> b" "b \<le> 8" by simp_all
  define m where "m = (if n mod 2 = 0 then n + 1 else n)"
  have m: "m = 2 * (m div 2) + 1" "1 \<le> m" using ok by (auto simp: m_def) presburger+
  define f i where "f = (if m < 10 then Fin 2 else if m < 20 then Fin 2 else f32 (17 / 10))"
    and "i = (if m < 10 then 1 else if m < 20 then 4 else m div 10)"
  define t0 where "t0 = \<lparr>emptyValue = ev, maxLeafEntries = m, initLeafSize = i, splitIndex = m div 2, factor = f,
    bt_size = 0, bt_height = 0, root = Entry 0 [] [] [] True, bytesPerValue = b, maxValue = push_bit (nat (b * 8 - 1)) 1 - 1\<rparr>"
  have t: "bt_Clear t0 = Some t"
    using assms ok unfolding NewGHLongLongBTree_def Let_def m_def [symmetric] t0_def f_def i_def
    by (auto split: if_splits)
  have "conf (nat b) (nat (m div 2)) t0" using ok m by (auto simp: conf_def t0_def i_def)
  moreover have "maxValue t0 = push_bit (8 * nat b - 1) 1 - 1"
  proof -
    have "nat (b * 8 - 1) = 8 * nat b - 1" using ok by (simp add: nat_diff_distrib nat_mult_distrib)
    then show ?thesis by (simp add: t0_def)
  qed
  ultimately show "bt_inv t" "bt_map t = Map.empty" "emptyValue t = ev" "bytesPerValue t = b"
    using bt_Clear_spec [of "nat b" "nat (m div 2)" t0] t by (auto simp: t0_def)
qed

definition value_fits :: "long_btree \<Rightarrow> i64 \<Rightarrow> bool" where
  "value_fits t v \<longleftrightarrow> - (2 ^ (8 * bt_bytes t - 1)) \<le> sint v \<and> sint v < 2 ^ (8 * bt_bytes t - 1) \<and> v \<noteq> emptyValue t"

lemma stored_value_fits:
  assumes "value_fits t v" "1 \<le> bt_bytes t" "bt_bytes t \<le> 8"
  shows "stored_value t v = v"
  unfolding stored_value_def
proof (rule bit_word_eqI)
  fix j assume j: "j < LENGTH(64)"
  let ?n = "8 * bt_bytes t - 1"
  have "signed_take_bit ?n (sint v) = sint v" using assms(1) by (simp add: value_fits_def signed_take_bit_int_eq_self_iff)
  moreover have "bit (signed_take_bit ?n (sint v)) j \<longleftrightarrow> bit (sint v) (min j ?n)" by (simp add: bit_signed_take_bit_iff min.commute)
  ultimately have "bit (sint v) (min j ?n) \<longleftrightarrow> bit (sint v) j" by simp
  moreover have "bit (sint v) i \<longleftrightarrow> bit v i" if "i < 64" for i using that by (simp add: bit_sint_iff)
  moreover have "min j ?n < 64" "j < 64" using j by simp_all
  ultimately show "bit (signed_take_bit ?n v) j = bit v j" by (simp add: bit_signed_take_bit_iff min.commute)
qed

lemma sint_maxValue:
  assumes "bt_inv t"
  shows "sint (maxValue t) = 2 ^ (8 * bt_bytes t - 1) - 1"
proof -
  have "bt_bytes t \<in> {1, 2, 3, 4, 5, 6, 7, 8}" using bt_invD(7,8) [OF assms] by auto
  moreover have "maxValue t = push_bit (8 * bt_bytes t - 1) 1 - 1" using assms by (simp add: bt_inv_def)
  ultimately show ?thesis by auto
qed

section \<open>The interface\<close>

locale long_long_map =
  fixes inv :: "'s \<Rightarrow> bool" and amap :: "'s \<Rightarrow> int \<rightharpoonup> i64" and put_op :: "int \<Rightarrow> i64 \<Rightarrow> 's \<Rightarrow> (i64 \<times> 's) option"
    and get_op :: "int \<Rightarrow> 's \<Rightarrow> i64 option" and none :: "'s \<Rightarrow> i64" and fits :: "'s \<Rightarrow> i64 \<Rightarrow> bool"
  assumes get_law: "inv s \<Longrightarrow> get_op k s = Some (case amap s k of None \<Rightarrow> none s | Some v \<Rightarrow> v)"
    and put_law: "inv s \<Longrightarrow> fits s v \<Longrightarrow> \<exists>s'. put_op k v s = Some (case amap s k of None \<Rightarrow> none s | Some w \<Rightarrow> w, s') \<and> inv s' \<and>
      amap s' = (amap s)(k \<mapsto> v) \<and> none s' = none s \<and> fits s' = fits s"
    and fits_law: "fits s v \<Longrightarrow> v \<noteq> none s"
begin

lemma put_get:
  assumes "inv s" "fits s v" "put_op k v s = Some (x, s')"
  shows "inv s'" "get_op k s' = Some v" "j \<noteq> k \<Longrightarrow> get_op j s' = get_op j s" "x = the (get_op k s)" "none s' = none s" "fits s' = fits s"
  using put_law [OF assms(1,2), of k] assms(3) get_law [OF assms(1)] get_law [of s']
  by (auto split: option.split)

text \<open>A key is missing exactly when looking it up gives the empty value, as long as values that fit are put.\<close>

lemma missing_iff:
  assumes "inv s" "\<forall>v \<in> ran (amap s). fits s v"
  shows "get_op k s = Some (none s) \<longleftrightarrow> k \<notin> dom (amap s)"
  using get_law [OF assms(1)] assms(2) fits_law by (fastforce simp: ran_def split: option.splits)

end

interpretation bm: long_long_map bt_inv bt_map bt_Put bt_Get emptyValue value_fits
proof
  show "bt_inv s \<Longrightarrow> bt_Get k s = Some (case bt_map s k of None \<Rightarrow> emptyValue s | Some v \<Rightarrow> v)" for s k by (rule bt_Get_spec)
  fix s v k assume s: "bt_inv s" "value_fits s v"
  have "sint v \<le> sint (maxValue s)" "v \<noteq> emptyValue s" using s by (simp_all add: sint_maxValue value_fits_def)
  from bt_Put_spec [OF s(1) this, of k] show "\<exists>s'. bt_Put k v s = Some (case bt_map s k of None \<Rightarrow> emptyValue s | Some w \<Rightarrow> w, s') \<and> bt_inv s' \<and>
      bt_map s' = (bt_map s)(k \<mapsto> v) \<and> emptyValue s' = emptyValue s \<and> value_fits s' = value_fits s"
    using stored_value_fits [OF s(2) bt_invD(7,8) [OF s(1)]] by (auto simp: value_fits_def fun_eq_iff)
qed (simp add: value_fits_def)

section \<open>Height\<close>

lemma length_weave: "length cs = length xs + 1 \<Longrightarrow> length (weave cs xs) + 1 = sum_list (map (\<lambda>c. length c + 1) cs)"
proof (induction cs xs rule: weave.induct)
  case (2 c cs)
  then show ?case by (cases cs) auto
qed auto

lemma length_inorder: "wf_entry b s h e \<Longrightarrow> (nat (entrySize e) + 1) * (s + 1) ^ h \<le> length (inorder b h e) + 1"
proof (induction h arbitrary: e)
  case (Suc h e)
  let ?cs = "map (\<lambda>c. inorder b h (the c)) (kids e)"
  have lk: "length (kids e) = nat (entrySize e) + 1" using Suc.prems length_kids [of b e] by simp
  have each: "(s + 1) ^ Suc h \<le> length (inorder b h (the c)) + 1" if "c \<in> set (kids e)" for c
  proof -
    have "wf_entry b s h (the c)" "s + 1 \<le> nat (entrySize (the c)) + 1" using Suc.prems that by auto
    then have "(s + 1) * (s + 1) ^ h \<le> (nat (entrySize (the c)) + 1) * (s + 1) ^ h" by (intro mult_le_mono1)
    also have "\<dots> \<le> length (inorder b h (the c)) + 1" using Suc.IH \<open>wf_entry b s h (the c)\<close> .
    finally show ?thesis by simp
  qed
  have "(nat (entrySize e) + 1) * (s + 1) ^ Suc h = sum_list (map (\<lambda>c. (s + 1) ^ Suc h) (kids e))"
    using lk by (simp add: sum_list_triv)
  also have "\<dots> \<le> sum_list (map (\<lambda>c. length (inorder b h (the c)) + 1) (kids e))" using each by (intro sum_list_mono) auto
  also have "\<dots> = length (weave ?cs (ents b e)) + 1" using length_weave [of ?cs "ents b e"] lk by (simp add: comp_def)
  finally show ?case by simp
qed simp

inductive btree_states :: "int \<Rightarrow> int \<Rightarrow> i64 \<Rightarrow> long_btree \<Rightarrow> bool" for n b ev where
  new: "NewGHLongLongBTree n b ev = Some t \<Longrightarrow> btree_states n b ev t"
| put: "btree_states n b ev t \<Longrightarrow> bt_Put k v t = Some (x, t') \<Longrightarrow> btree_states n b ev t'"
| optimize: "btree_states n b ev t \<Longrightarrow> bt_Optimize t = Some t' \<Longrightarrow> btree_states n b ev t'"
| clear: "btree_states n b ev t \<Longrightarrow> bt_Clear t = Some t' \<Longrightarrow> btree_states n b ev t'"

lemma states_inv: "btree_states n b ev t \<Longrightarrow> bt_inv t"
proof (induction rule: btree_states.induct)
  case (put t k v x t')
  have "sint v \<le> sint (maxValue t)" "v \<noteq> emptyValue t" using put(2) by (auto simp: bt_Put_def split: if_splits)
  from bt_Put_spec [OF put(3) this, of k] put(2) show ?case by auto
next
  case (clear t t')
  then show ?case using bt_Clear_spec [OF bt_invD(1) [OF clear(3)]] by (auto simp: bt_inv_def)
qed (use New_spec(1) bt_Optimize_spec in \<open>fastforce+\<close>)

section \<open>Properties\<close>

text \<open>
  C15. Every tree that creation, \<open>Put\<close>, \<open>Optimize\<close> and \<open>Clear\<close> can reach is well formed: its slices have the lengths
  its entries say, its leaves are all at the depth that \<open>Height\<close> counts, every entry but the root is at least
  half full, its keys are in strictly increasing order, and \<open>GetSize\<close> counts them. So its height is at most
  logarithmic in its size.
\<close>

theorem btree_well_formed:
  assumes "btree_states n b ev t"
  shows "wf_entry (bt_bytes t) (bt_split t) (nat (bt_height t - 1)) (root t) \<and> sorted_keys (bt_list t) \<and>
    bt_size t = int (length (bt_list t)) \<and> 1 \<le> bt_height t \<and>
    (1 < bt_height t \<longrightarrow> 2 * (splitIndex t + 1) ^ nat (bt_height t - 1) \<le> bt_size t + 1)"
proof (intro conjI impI)
  note I = bt_invD [OF states_inv [OF assms]]
  assume h: "1 < bt_height t"
  have "2 * (bt_split t + 1) ^ bt_depth t \<le> (nat (entrySize (root t)) + 1) * (bt_split t + 1) ^ bt_depth t"
    using I(9) h by (intro mult_le_mono1) simp
  also have "\<dots> \<le> length (bt_list t) + 1" using length_inorder [OF I(3)] .
  finally have "int (2 * (bt_split t + 1) ^ bt_depth t) \<le> bt_size t + 1" using I(5) by linarith
  moreover have "int (bt_split t) = splitIndex t" using I(1) by (simp add: conf_def)
  ultimately show "2 * (splitIndex t + 1) ^ nat (bt_height t - 1) \<le> bt_size t + 1" by (simp add: add.commute)
qed (use bt_invD [OF states_inv [OF assms]] in simp_all)

text \<open>
  C14. The tree refines a map from keys to values: \<open>Get\<close> gives the value of a key or the empty value, \<open>Put\<close> gives the
  same answer and stores a value that fits in \<open>bytesPerValue\<close> bytes, panics for a value that is too large or is the
  empty value, and \<open>Optimize\<close>, which a million entries trigger, changes no value.
\<close>

theorem btree_is_map:
  assumes "btree_states n b ev t"
  shows "(\<forall>k. bt_Get k t = Some (case bt_map t k of None \<Rightarrow> emptyValue t | Some v \<Rightarrow> v)) \<and>
    (\<forall>k v. value_fits t v \<longrightarrow> (\<exists>t'. bt_Put k v t = Some (case bt_map t k of None \<Rightarrow> emptyValue t | Some w \<Rightarrow> w, t') \<and>
      bt_map t' = (bt_map t)(k \<mapsto> v))) \<and>
    (\<forall>k v. sint v > sint (maxValue t) \<or> v = emptyValue t \<longrightarrow> bt_Put k v t = None) \<and>
    (\<exists>t'. bt_Optimize t = Some t' \<and> bt_map t' = bt_map t) \<and>
    bt_size t = int (card (dom (bt_map t)))"
proof (intro conjI allI impI)
  note inv = states_inv [OF assms]
  show "bt_Get k t = Some (case bt_map t k of None \<Rightarrow> emptyValue t | Some v \<Rightarrow> v)" for k by (rule bm.get_law [OF inv])
  show "\<exists>t'. bt_Put k v t = Some (case bt_map t k of None \<Rightarrow> emptyValue t | Some w \<Rightarrow> w, t') \<and> bt_map t' = (bt_map t)(k \<mapsto> v)"
    if "value_fits t v" for k v using bm.put_law [OF inv that, of k] by blast
  show "sint v > sint (maxValue t) \<or> v = emptyValue t \<Longrightarrow> bt_Put k v t = None" for k v by (auto simp: bt_Put_def)
  show "\<exists>t'. bt_Optimize t = Some t' \<and> bt_map t' = bt_map t" using bt_Optimize_spec [OF inv] by blast
  show "bt_size t = int (card (dom (bt_map t)))" by (rule size_card [OF inv])
qed

lemma New_exists: "\<exists>t. NewGHLongLongBTree 3 4 (- 1) = Some t"
  by (simp add: NewGHLongLongBTree_def bt_Clear_def newBTreeEntry_def go_make_def)

theorem btree_well_formed_witness:
  "\<exists>t. NewGHLongLongBTree 3 4 (- 1) = Some t \<and> sorted_keys (bt_list t) \<and> bt_size t = int (length (bt_list t))"
proof -
  obtain t where t: "NewGHLongLongBTree 3 4 (- 1) = Some t" using New_exists ..
  then show ?thesis using btree_well_formed [OF btree_states.new [OF t]] by blast
qed

theorem btree_is_map_witness:
  "\<exists>t t'. NewGHLongLongBTree 3 4 (- 1) = Some t \<and> bt_Put 9 21 t = Some (- 1, t') \<and> bt_map t' = [9 \<mapsto> 21]"
proof -
  obtain t where t: "NewGHLongLongBTree 3 4 (- 1) = Some t" using New_exists ..
  note N = New_spec [OF t]
  have "value_fits t 21" using N(3,4) by (simp add: value_fits_def)
  moreover from btree_is_map [OF btree_states.new [OF t]] have "\<forall>k v. value_fits t v \<longrightarrow>
      (\<exists>t'. bt_Put k v t = Some (case bt_map t k of None \<Rightarrow> emptyValue t | Some w \<Rightarrow> w, t') \<and> bt_map t' = (bt_map t)(k \<mapsto> v))"
    by (elim conjE)
  ultimately have "\<exists>t'. bt_Put 9 21 t = Some (case bt_map t 9 of None \<Rightarrow> emptyValue t | Some w \<Rightarrow> w, t') \<and> bt_map t' = (bt_map t)(9 \<mapsto> 21)"
    by blast
  then show ?thesis using t N(2,3) by auto
qed

end
