(* ===== verification/ReaderElements.thy ===== *)
theory ReaderElements imports PointList "HOL-Library.AList" begin

text \<open>
  The elements of an OSM file with their tags (core/reader/reader\_element.go, reader\_node.go, reader\_way.go). The
  tags are a list of pairs with distinct keys; its order stands for the order in which a Go map is iterated.
\<close>

datatype tag_value =
    TagString string
  | TagFloat flt
  | TagInt int
  | TagMap "(string \<times> tag_value) list"
  | TagPoints point_list
  | TagNodeTags "(string \<times> tag_value) list option list"

type_synonym osm_tags = "(string \<times> tag_value) list"

datatype element_type = TypeNode | TypeWay | TypeRelation | TypeFileHeader

record reader_element =
  el_id :: int
  elemType :: element_type
  properties :: osm_tags

record reader_node = reader_element +
  node_Lat :: flt
  node_Lon :: flt

record reader_way = reader_element +
  way_Nodes :: "int list"

definition NewReaderNode :: "int \<Rightarrow> flt \<Rightarrow> flt \<Rightarrow> reader_node option" where
  "NewReaderNode i lat lon = (if i < 0 then None
     else Some \<lparr>el_id = i, elemType = TypeNode, properties = [], node_Lat = lat, node_Lon = lon\<rparr>)"

definition NewReaderWay :: "int \<Rightarrow> reader_way option" where
  "NewReaderWay i = (if i < 0 then None else Some \<lparr>el_id = i, elemType = TypeWay, properties = [], way_Nodes = []\<rparr>)"

definition SetTags :: "osm_tags \<Rightarrow> 'a reader_element_scheme \<Rightarrow> 'a reader_element_scheme" where
  "SetTags tags e = e\<lparr>properties := tags\<rparr>"

definition HasTags :: "'a reader_element_scheme \<Rightarrow> bool" where "HasTags e \<longleftrightarrow> 0 < length (properties e)"

definition GetTag :: "string \<Rightarrow> 'a reader_element_scheme \<Rightarrow> string" where
  "GetTag key e = (case map_of (properties e) key of Some (TagString s) \<Rightarrow> s | _ \<Rightarrow> [])"

definition GetTagWithDefault :: "string \<Rightarrow> tag_value option \<Rightarrow> 'a reader_element_scheme \<Rightarrow> tag_value option" where
  "GetTagWithDefault key defaultValue e = (case map_of (properties e) key of None \<Rightarrow> defaultValue | Some v \<Rightarrow> Some v)"

definition SetTag :: "string \<Rightarrow> tag_value \<Rightarrow> 'a reader_element_scheme \<Rightarrow> 'a reader_element_scheme" where
  "SetTag key v e = e\<lparr>properties := AList.update key v (properties e)\<rparr>"

definition HasTag :: "string \<Rightarrow> string list \<Rightarrow> 'a reader_element_scheme \<Rightarrow> bool" where
  "HasTag key vs e = (if vs = [] then map_of (properties e) key \<noteq> None else GetTag key e \<in> set vs)"

definition HasTagInCollection :: "string \<Rightarrow> string set \<Rightarrow> 'a reader_element_scheme \<Rightarrow> bool" where
  "HasTagInCollection key vs e \<longleftrightarrow> GetTag key e \<in> vs"

definition HasTagWithValue :: "string \<Rightarrow> string \<Rightarrow> 'a reader_element_scheme \<Rightarrow> bool" where
  "HasTagWithValue key v e \<longleftrightarrow> GetTag key e = v"

definition HasTagFromKeys :: "string list \<Rightarrow> string set \<Rightarrow> 'a reader_element_scheme \<Rightarrow> bool" where
  "HasTagFromKeys ks vs e = list_ex (\<lambda>k. GetTag k e \<in> vs) ks"

fun GetFirstValue :: "string list \<Rightarrow> 'a reader_element_scheme \<Rightarrow> string" where
  "GetFirstValue [] e = []"
| "GetFirstValue (k # ks) e = (if GetTag k e \<noteq> [] then GetTag k e else GetFirstValue ks e)"

fun first_index :: "int \<Rightarrow> string list \<Rightarrow> 'a reader_element_scheme \<Rightarrow> int" where
  "first_index i [] e = - 1"
| "first_index i (k # ks) e = (if GetTag k e \<noteq> [] then i else first_index (i + 1) ks e)"

definition GetFirstIndex :: "string list \<Rightarrow> 'a reader_element_scheme \<Rightarrow> int" where
  "GetFirstIndex ks e = first_index 0 ks e"

definition RemoveTag :: "string \<Rightarrow> 'a reader_element_scheme \<Rightarrow> 'a reader_element_scheme" where
  "RemoveTag key e = e\<lparr>properties := AList.delete key (properties e)\<rparr>"

definition ClearTags :: "'a reader_element_scheme \<Rightarrow> 'a reader_element_scheme" where
  "ClearTags e = e\<lparr>properties := []\<rparr>"

lemma GetTag_SetTag [simp]: "GetTag k (SetTag k' (TagString s) e) = (if k = k' then s else GetTag k e)"
  by (simp add: GetTag_def SetTag_def update_conv')

lemma GetTag_RemoveTag [simp]: "GetTag k (RemoveTag k' e) = (if k = k' then [] else GetTag k e)"
  by (simp add: GetTag_def RemoveTag_def delete_conv')

end
