(* ===== verification/OsmNodeData.thy ===== *)
theory OsmNodeData imports ReaderElements NodeAccess BTreeFacts begin

text \<open>
  The data of the nodes while an OSM file is read (core/reader/osm/osm\_node\_data.go and pillar\_info.go): the
  B-tree from OSM ids to internal ids, the coordinates of pillar nodes in a data access of their own and those of
  tower nodes in the node access of the graph, the tags of nodes and the nodes to be split. OSM ids and internal
  ids are integers, and an internal id is a 64-bit word where the tree holds it.
\<close>

section \<open>Pillar nodes\<close>

record pillar_info =
  enabled3D :: bool
  pi_da :: data_access
  rowSizeBytes :: int

definition NewPillarInfo ::
  "(string \<Rightarrow> string \<Rightarrow> bool) \<Rightarrow> bool \<Rightarrow> gh_directory \<Rightarrow> (pillar_info \<times> gh_directory) option" where
  "NewPillarInfo matches elev dir = do {
     let dim = (if elev then 3 else 2);
     (da, dir) \<leftarrow> CreateFull ''tmp_pillar_info'' (getDefault matches dir ''tmp_pillar_info'') (- 1) dir;
     da \<leftarrow> da_Create 100 da;
     Some (\<lparr>enabled3D = elev, pi_da = da, rowSizeBytes = dim * 4\<rparr>, dir) }"

definition pi_Dimension :: "pillar_info \<Rightarrow> int" where "pi_Dimension p = (if enabled3D p then 3 else 2)"

definition pi_bytePos :: "int \<Rightarrow> pillar_info \<Rightarrow> int" where "pi_bytePos nodeID p = nodeID * rowSizeBytes p"

definition pi_ensureNode :: "int \<Rightarrow> pillar_info \<Rightarrow> pillar_info option" where
  "pi_ensureNode nodeID p = do {
     (_, da) \<leftarrow> da_EnsureCapacity (pi_bytePos nodeID p + rowSizeBytes p) (pi_da p);
     Some (p\<lparr>pi_da := da\<rparr>) }"

definition pi_SetNode :: "int \<Rightarrow> flt \<Rightarrow> flt \<Rightarrow> flt \<Rightarrow> pillar_info \<Rightarrow> pillar_info option" where
  "pi_SetNode nodeID lat lon ele p = do {
     p \<leftarrow> pi_ensureNode nodeID p;
     let pos = pi_bytePos nodeID p;
     da \<leftarrow> da_SetInt pos (DegreeToInt lat) (pi_da p);
     da \<leftarrow> da_SetInt (pos + 4) (DegreeToInt lon) da;
     da \<leftarrow> (if enabled3D p then do { e \<leftarrow> EleToUInt ele; da_SetInt (pos + 8) (word_of_int e) da } else Some da);
     Some (p\<lparr>pi_da := da\<rparr>) }"

definition pi_GetLat :: "int \<Rightarrow> pillar_info \<Rightarrow> flt option" where
  "pi_GetLat i p = map_option IntToDegree (da_GetInt (pi_bytePos i p) (pi_da p))"

definition pi_GetLon :: "int \<Rightarrow> pillar_info \<Rightarrow> flt option" where
  "pi_GetLon i p = map_option IntToDegree (da_GetInt (pi_bytePos i p + 4) (pi_da p))"

definition pi_GetEle :: "int \<Rightarrow> pillar_info \<Rightarrow> flt option" where
  "pi_GetEle i p =
     (if enabled3D p then map_option (\<lambda>v. UIntToEle (sint v)) (da_GetInt (pi_bytePos i p + 8) (pi_da p)) else Some NaN)"

definition pi_Clear :: "gh_directory \<Rightarrow> file_system \<Rightarrow> pillar_info \<Rightarrow> (pillar_info \<times> gh_directory \<times> file_system) option" where
  "pi_Clear dir fs p = do {
     (da, dir, fs) \<leftarrow> dir_Remove (da_Name (pi_da p)) (pi_da p) dir fs;
     Some (p\<lparr>pi_da := da\<rparr>, dir, fs) }"

section \<open>Node data\<close>

definition JunctionNode :: int where "JunctionNode = - 2"
definition EmptyNode :: int where "EmptyNode = - 1"
definition EndNode :: int where "EndNode = 0"
definition IntermediateNode :: int where "IntermediateNode = 1"
definition ConnectionNode :: int where "ConnectionNode = 2"

lemmas node_types = JunctionNode_def EmptyNode_def EndNode_def IntermediateNode_def ConnectionNode_def

record segment_node =
  sn_OSMNodeID :: int
  sn_ID :: int
  sn_Tags :: "osm_tags option"

record osm_data =
  idsByOsmNodeIds :: long_btree
  pillarNodes :: pillar_info
  towerNodes :: nodes_edges
  nodeTagIndices :: long_btree
  nodeTags :: "osm_tags list"
  nodesToBeSplit :: "int set"
  nextTowerId :: int
  nextPillarId :: int
  nextArtificialOSMNodeId :: int

definition NewOSMNodeData ::
  "(string \<Rightarrow> string \<Rightarrow> bool) \<Rightarrow> nodes_edges \<Rightarrow> gh_directory \<Rightarrow> (osm_data \<times> gh_directory) option" where
  "NewOSMNodeData matches nodeAccess dir = do {
     ids \<leftarrow> NewGHLongLongBTree 200 5 (word_of_int EmptyNode);
     (p, dir) \<leftarrow> NewPillarInfo matches (withElevation nodeAccess) dir;
     tagIds \<leftarrow> NewGHLongLongBTree 200 4 (- 1);
     Some (\<lparr>idsByOsmNodeIds = ids, pillarNodes = p, towerNodes = nodeAccess, nodeTagIndices = tagIds, nodeTags = [],
       nodesToBeSplit = {}, nextTowerId = 0, nextPillarId = 0, nextArtificialOSMNodeId = - (2 ^ 63 - 1)\<rparr>, dir) }"

definition od_Is3D :: "osm_data \<Rightarrow> bool" where "od_Is3D d = withElevation (towerNodes d)"

definition GetID :: "int \<Rightarrow> osm_data \<Rightarrow> int option" where
  "GetID osmNodeID d = map_option sint (bt_Get osmNodeID (idsByOsmNodeIds d))"

definition IsTowerNode :: "int \<Rightarrow> bool" where "IsTowerNode i \<longleftrightarrow> i < JunctionNode"
definition IsPillarNode :: "int \<Rightarrow> bool" where "IsPillarNode i \<longleftrightarrow> i > ConnectionNode"
definition IsNodeID :: "int \<Rightarrow> bool" where "IsNodeID i \<longleftrightarrow> i > ConnectionNode \<or> i < JunctionNode"

definition TowerNodeToID :: "int \<Rightarrow> int" where "TowerNodeToID towerId = - towerId - 3"
definition IDToTowerNode :: "int \<Rightarrow> int" where "IDToTowerNode i = - i - 3"
definition PillarNodeToID :: "int \<Rightarrow> int" where "PillarNodeToID pillarId = pillarId + 3"
definition IDToPillarNode :: "int \<Rightarrow> int" where "IDToPillarNode i = i - 3"

lemmas node_ids = IsTowerNode_def IsPillarNode_def IsNodeID_def TowerNodeToID_def IDToTowerNode_def PillarNodeToID_def IDToPillarNode_def

text \<open>Writing an id to the tree, which answers with the old one.\<close>

definition put_id :: "int \<Rightarrow> int \<Rightarrow> osm_data \<Rightarrow> (int \<times> osm_data) option" where
  "put_id osmID i d = do {
     (old, t) \<leftarrow> bt_Put osmID (word_of_int i) (idsByOsmNodeIds d);
     Some (sint old, d\<lparr>idsByOsmNodeIds := t\<rparr>) }"

definition SetOrUpdateNodeType :: "int \<Rightarrow> int \<Rightarrow> (int \<Rightarrow> int) \<Rightarrow> osm_data \<Rightarrow> osm_data option" where
  "SetOrUpdateNodeType osmNodeID newNodeType nodeTypeUpdate d = do {
     c \<leftarrow> GetID osmNodeID d;
     (_, d) \<leftarrow> put_id osmNodeID (if c = EmptyNode then newNodeType else nodeTypeUpdate c) d;
     Some d }"

definition GetNodeCount :: "osm_data \<Rightarrow> int" where "GetNodeCount d = bt_size (idsByOsmNodeIds d)"

definition addTowerNode :: "int \<Rightarrow> flt \<Rightarrow> flt \<Rightarrow> flt \<Rightarrow> osm_data \<Rightarrow> (int \<times> osm_data) option" where
  "addTowerNode osmID lat lon ele d = do {
     s \<leftarrow> SetNode (nextTowerId d) lat lon ele (towerNodes d);
     let d = d\<lparr>towerNodes := s\<rparr>;
     let i = TowerNodeToID (nextTowerId d);
     (_, d) \<leftarrow> put_id osmID i d;
     let d = d\<lparr>nextTowerId := nextTowerId d + 1\<rparr>;
     check (nextTowerId d \<noteq> 2 ^ 31 - 1);
     Some (i, d) }"

definition addPillarNode :: "int \<Rightarrow> flt \<Rightarrow> flt \<Rightarrow> flt \<Rightarrow> osm_data \<Rightarrow> (int \<times> osm_data) option" where
  "addPillarNode osmID lat lon ele d = do {
     let i = PillarNodeToID (nextPillarId d);
     check (\<not> i > sint (maxValue (idsByOsmNodeIds d)));
     p \<leftarrow> pi_SetNode (nextPillarId d) lat lon ele (pillarNodes d);
     let d = d\<lparr>pillarNodes := p\<rparr>;
     (_, d) \<leftarrow> put_id osmID i d;
     Some (i, d\<lparr>nextPillarId := nextPillarId d + 1\<rparr>) }"

definition AddCoordinatesIfMapped :: "int \<Rightarrow> flt \<Rightarrow> flt \<Rightarrow> flt \<Rightarrow> osm_data \<Rightarrow> (int \<times> osm_data) option" where
  "AddCoordinatesIfMapped osmNodeID lat lon ele d = do {
     nodeType \<leftarrow> GetID osmNodeID d;
     if nodeType = EmptyNode then Some (nodeType, d)
     else if nodeType = JunctionNode \<or> nodeType = ConnectionNode then do {
       (_, d) \<leftarrow> addTowerNode osmNodeID lat lon ele d;
       Some (nodeType, d) }
     else if nodeType = IntermediateNode \<or> nodeType = EndNode then do {
       (_, d) \<leftarrow> addPillarNode osmNodeID lat lon ele d;
       Some (nodeType, d) }
     else None }"

text \<open>The coordinates of an internal id: \<^const>\<open>None\<close> is a panic and \<^term>\<open>Some None\<close> the nil pointer.\<close>

type_synonym point3 = "flt \<times> flt \<times> flt"

definition GetCoordinates :: "int \<Rightarrow> osm_data \<Rightarrow> point3 option option" where
  "GetCoordinates i d =
     (if IsTowerNode i then do {
        ele \<leftarrow> (if withElevation (towerNodes d) then na_GetEle (IDToTowerNode i) (towerNodes d) else Some NaN);
        lat \<leftarrow> na_GetLat (IDToTowerNode i) (towerNodes d);
        lon \<leftarrow> na_GetLon (IDToTowerNode i) (towerNodes d);
        Some (Some (lat, lon, ele)) }
      else if IsPillarNode i then do {
        ele \<leftarrow> (if enabled3D (pillarNodes d) then pi_GetEle (IDToPillarNode i) (pillarNodes d) else Some NaN);
        lat \<leftarrow> pi_GetLat (IDToPillarNode i) (pillarNodes d);
        lon \<leftarrow> pi_GetLon (IDToPillarNode i) (pillarNodes d);
        Some (Some (lat, lon, ele)) }
      else Some None)"

definition AddCopyOfNode :: "segment_node \<Rightarrow> osm_data \<Rightarrow> (segment_node \<times> osm_data) option" where
  "AddCopyOfNode node d = do {
     pt \<leftarrow> GetCoordinates (sn_ID node) d;
     (lat, lon, ele) \<leftarrow> pt;
     let newOsmID = nextArtificialOSMNodeId d;
     let d = d\<lparr>nextArtificialOSMNodeId := newOsmID + 1\<rparr>;
     (old, d) \<leftarrow> put_id newOsmID IntermediateNode d;
     check (old = EmptyNode);
     (i, d) \<leftarrow> addPillarNode newOsmID lat lon ele d;
     Some (\<lparr>sn_OSMNodeID = newOsmID, sn_ID = i, sn_Tags = sn_Tags node\<rparr>, d) }"

definition ConvertPillarToTowerNode :: "int \<Rightarrow> int \<Rightarrow> osm_data \<Rightarrow> (int \<times> osm_data) option" where
  "ConvertPillarToTowerNode i osmNodeID d = do {
     check (IsPillarNode i);
     let pillar = IDToPillarNode i;
     lat \<leftarrow> pi_GetLat pillar (pillarNodes d);
     lon \<leftarrow> pi_GetLon pillar (pillarNodes d);
     ele \<leftarrow> pi_GetEle pillar (pillarNodes d);
     check (\<not> (flt_eq lat MaxFloat64 \<or> flt_eq lon MaxFloat64));
     p \<leftarrow> pi_SetNode pillar MaxFloat64 MaxFloat64 MaxFloat64 (pillarNodes d);
     addTowerNode osmNodeID lat lon ele (d\<lparr>pillarNodes := p\<rparr>) }"

definition AddCoordinatesToPointList :: "int \<Rightarrow> point_list \<Rightarrow> osm_data \<Rightarrow> point_list option" where
  "AddCoordinatesToPointList i pointList d = do {
     pt \<leftarrow> GetCoordinates i d;
     (lat, lon, ele) \<leftarrow> pt;
     pl_Add3D lat lon ele pointList }"

definition od_SetTags :: "int \<Rightarrow> osm_tags \<Rightarrow> osm_data \<Rightarrow> osm_data option" where
  "od_SetTags osmNodeID tags d = do {
     tagIndex \<leftarrow> bt_Get osmNodeID (nodeTagIndices d);
     check (tagIndex = - 1);
     let n = length (nodeTags d);
     (_, t) \<leftarrow> bt_Put osmNodeID (of_nat n) (nodeTagIndices d);
     Some (d\<lparr>nodeTags := nodeTags d @ [tags], nodeTagIndices := t\<rparr>) }"

definition od_GetTags :: "int \<Rightarrow> osm_data \<Rightarrow> osm_tags option option" where
  "od_GetTags osmNodeID d = do {
     tagIndex \<leftarrow> bt_Get osmNodeID (nodeTagIndices d);
     if sint tagIndex < 0 then Some None else map_option Some (idx (nodeTags d) (sint tagIndex)) }"

definition SetSplitNode :: "int \<Rightarrow> osm_data \<Rightarrow> bool \<times> osm_data" where
  "SetSplitNode osmNodeID d =
     (if osmNodeID \<in> nodesToBeSplit d then (False, d)
      else (True, d\<lparr>nodesToBeSplit := insert osmNodeID (nodesToBeSplit d)\<rparr>))"

definition UnsetSplitNode :: "int \<Rightarrow> osm_data \<Rightarrow> osm_data option" where
  "UnsetSplitNode osmNodeID d = do {
     check (osmNodeID \<in> nodesToBeSplit d);
     Some (d\<lparr>nodesToBeSplit := nodesToBeSplit d - {osmNodeID}\<rparr>) }"

definition IsSplitNode :: "int \<Rightarrow> osm_data \<Rightarrow> bool" where
  "IsSplitNode osmNodeID d \<longleftrightarrow> osmNodeID \<in> nodesToBeSplit d"

definition od_Release :: "gh_directory \<Rightarrow> file_system \<Rightarrow> osm_data \<Rightarrow> (osm_data \<times> gh_directory \<times> file_system) option" where
  "od_Release dir fs d = do {
     ids \<leftarrow> bt_Clear (idsByOsmNodeIds d);
     (p, dir, fs) \<leftarrow> pi_Clear dir fs (pillarNodes d);
     tagIds \<leftarrow> bt_Clear (nodeTagIndices d);
     Some (d\<lparr>idsByOsmNodeIds := ids, pillarNodes := p, nodeTagIndices := tagIds, nodeTags := [], nodesToBeSplit := {}\<rparr>, dir, fs) }"

end
