(* ===== verification/OsmStores.thy ===== *)
theory OsmStores imports OsmNodeData begin

text \<open>
  What the stores of the node data keep, in two dimensions: the coordinates of tower nodes in the node access, those
  of pillar nodes in their own data access, and the internal ids in the B-tree.
\<close>

section \<open>Tower nodes\<close>

type_synonym int_point = "i32 \<times> i32"

definition degrees :: "int_point \<Rightarrow> flt \<times> flt" where "degrees p = (IntToDegree (fst p), IntToDegree (snd p))"

definition tower_point :: "nodes_edges \<Rightarrow> int \<Rightarrow> int_point" where
  "tower_point s n = (node_int s n 4, node_int s n 8)"

definition tower_ok :: "nodes_edges \<Rightarrow> bool" where "tower_ok s \<longleftrightarrow> ne_inv s \<and> \<not> withElevation s"

lemma tower_get:
  assumes "tower_ok s" "0 \<le> n" "n < nodeCount s"
  shows "na_GetLat n s = Some (IntToDegree (fst (tower_point s n)))" "na_GetLon n s = Some (IntToDegree (snd (tower_point s n)))"
proof -
  have inv: "ne_inv s" using assms(1) by (simp add: tower_ok_def)
  note O = ne_offsets [OF inv]
  have "get_node_int (n * nodeEntryBytes s + 4) s = Some (node_int s n 4)" "get_node_int (n * nodeEntryBytes s + 8) s = Some (node_int s n 8)"
    using get_node_field [OF inv assms(2,3)] O(11) by simp_all
  then show "na_GetLat n s = Some (IntToDegree (fst (tower_point s n)))" "na_GetLon n s = Some (IntToDegree (snd (tower_point s n)))"
    using assms(2,3) O(2,3) by (simp_all add: na_GetLat_def na_GetLon_def ToNodePointer_eq GetLat_def GetLon_def tower_point_def)
qed

lemma ne_inv_bounds: "ne_inv (s\<lparr>Bounds := b\<rparr>) = ne_inv s"
  unfolding ne_inv_def ne_layout_def by (cases s) simp

lemma SetNode_tower:
  assumes "tower_ok s" "0 \<le> n" "n < 2 ^ 31"
  shows "\<exists>s'. SetNode n lat lon ele s = Some s' \<and> tower_ok s' \<and> nodeCount s' = max (nodeCount s) (n + 1) \<and>
    tower_point s' n = (DegreeToInt lat, DegreeToInt lon) \<and>
    (\<forall>m. m \<noteq> n \<and> m < nodeCount s \<longrightarrow> tower_point s' m = tower_point s m)"
proof -
  have inv: "ne_inv s" and el: "\<not> withElevation s" using assms(1) by (simp_all add: tower_ok_def)
  obtain d where d: "EnsureNodeCapacity n s = Some (s\<lparr>nodeCount := max (nodeCount s) (n + 1), nodes := d\<rparr>)"
    "ne_inv (s\<lparr>nodeCount := max (nodeCount s) (n + 1), nodes := d\<rparr>)"
    "\<And>m o'. m < nodeCount s \<Longrightarrow> node_off s o' \<Longrightarrow> mem32 (da_mem d) (m * nodeEntryBytes s + o') = node_int s m o'"
    using EnsureNodeCapacity_spec [OF inv assms(3)] by metis
  let ?t = "s\<lparr>nodeCount := max (nodeCount s) (n + 1), nodes := d\<rparr>"
  have n: "0 \<le> n" "n < nodeCount ?t" using assms(2) by simp_all
  note O = ne_offsets [OF d(2)] and F = node_off_fields [OF d(2)]
  obtain s1 where s1: "set_node_int (n * nodeEntryBytes ?t + 4) (DegreeToInt lat) ?t = Some s1" "node_upd ?t n 4 (DegreeToInt lat) s1"
    using node_set_upd [OF d(2) n F(2)] by metis
  note U1 = node_upd_frame [OF s1(2)] node_upd_off [OF s1(2)]
  have n1: "n < nodeCount s1" "node_off s1 8" using n U1 F(3) by simp_all
  obtain s2 where s2: "set_node_int (n * nodeEntryBytes s1 + 8) (DegreeToInt lon) s1 = Some s2" "node_upd s1 n 8 (DegreeToInt lon) s2"
    using node_set_upd [OF U1(1) n(1) n1] by metis
  note U2 = node_upd_frame [OF s2(2)]
  let ?r = "s2\<lparr>Bounds := bbox_Update lat lon (Bounds s2)\<rparr>"
  have off1: "nLon s1 = 8" using ne_offsets(3) [OF U1(1)] .
  have "SetNode n lat lon ele s = Some ?r"
    using d(1) s1(1) s2(1) n U1 U2 el O(2,3) off1 by (simp add: SetNode_def ToNodePointer_eq SetLat_def SetLon_def)
  moreover have "ne_inv ?r" using U2(1) by (simp only: ne_inv_bounds)
  moreover have "nodeCount ?r = max (nodeCount s) (n + 1)" "\<not> withElevation ?r" using U1 U2 el by simp_all
  moreover have at: "tower_point ?r m = (if m = n then (DegreeToInt lat, DegreeToInt lon) else tower_point ?t m)" for m
  proof -
    have f8: "node_off s1 4" "node_off s1 8" "node_off ?t 4" "node_off ?t 8" using F U1 by simp_all
    have "tower_point ?r m = tower_point s2 m" by (simp add: tower_point_def node_int_def)
    then show ?thesis using node_upd_at [OF s2(2) f8(1)] node_upd_at [OF s2(2) f8(2)] node_upd_at [OF s1(2) f8(3)] node_upd_at [OF s1(2) f8(4)]
      by (simp add: tower_point_def)
  qed
  moreover have "tower_point ?t m = tower_point s m" if "m < nodeCount s" for m
  proof -
    have "node_off s 4" "node_off s 8" using node_off_fields [OF inv] by simp_all
    then show ?thesis using d(3) [OF that] by (simp add: tower_point_def node_int_def)
  qed
  ultimately show ?thesis by (intro exI [of _ ?r]) (auto simp: tower_ok_def)
qed

section \<open>Pillar nodes\<close>

definition pillar_ok :: "pillar_info \<Rightarrow> bool" where
  "pillar_ok p \<longleftrightarrow> da_inv (pi_da p) \<and> (\<forall>q. q mod 4 = 0 \<longrightarrow> da_supp (pi_da p) 4 q) \<and> \<not> enabled3D p \<and> rowSizeBytes p = 8"

definition pillar_point :: "pillar_info \<Rightarrow> int \<Rightarrow> int_point" where
  "pillar_point p i = (mem32 (da_mem (pi_da p)) (i * 8), mem32 (da_mem (pi_da p)) (i * 8 + 4))"

definition has_pillar :: "pillar_info \<Rightarrow> int \<Rightarrow> bool" where
  "has_pillar p i \<longleftrightarrow> 0 \<le> i \<and> (i + 1) * 8 \<le> da_Capacity (pi_da p)"

lemma pillar_acc:
  assumes "pillar_ok p" "has_pillar p i"
  shows "da.acc (pi_da p) 4 (i * 8)" "da.acc (pi_da p) 4 (i * 8 + 4)"
proof -
  have "(i * 8) mod 4 = 0" "(i * 8 + 4) mod 4 = 0" by presburger+
  then show "da.acc (pi_da p) 4 (i * 8)" "da.acc (pi_da p) 4 (i * 8 + 4)"
    using assms by (auto simp: da.acc_def pillar_ok_def has_pillar_def)
qed

lemma pillar_get:
  assumes "pillar_ok p" "has_pillar p i"
  shows "pi_GetLat i p = Some (IntToDegree (fst (pillar_point p i)))" "pi_GetLon i p = Some (IntToDegree (snd (pillar_point p i)))"
    "pi_GetEle i p = Some NaN"
  using pillar_acc [OF assms, THEN da.get_int] assms(1)
  by (simp_all add: pi_GetLat_def pi_GetLon_def pi_GetEle_def pi_bytePos_def pillar_point_def pillar_ok_def)

lemma pillar_set:
  assumes "pillar_ok p" "0 \<le> i"
  shows "\<exists>p'. pi_SetNode i lat lon ele p = Some p' \<and> pillar_ok p' \<and> has_pillar p' i \<and>
    pillar_point p' i = (DegreeToInt lat, DegreeToInt lon) \<and>
    (\<forall>j. has_pillar p j \<longrightarrow> has_pillar p' j) \<and> (\<forall>j. j \<noteq> i \<longrightarrow> pillar_point p' j = pillar_point p j)"
proof -
  have ok: "da_inv (pi_da p)" "\<not> enabled3D p" "rowSizeBytes p = 8" using assms(1) by (simp_all add: pillar_ok_def)
  obtain g d where d: "da_EnsureCapacity (i * 8 + 8) (pi_da p) = Some (g, d)" "da_mem d = da_mem (pi_da p)"
    "da_Capacity (pi_da p) \<le> da_Capacity d" "i * 8 + 8 \<le> da_Capacity d" "da_inv d" "da_supp d = da_supp (pi_da p)"
    using da.ensure [OF ok(1), of "i * 8 + 8"] assms(2) by (metis add_nonneg_nonneg mult_nonneg_nonneg zero_le_numeral)
  let ?p = "p\<lparr>pi_da := d\<rparr>"
  have p1: "pillar_ok ?p" "has_pillar ?p i" using d ok assms by (auto simp: pillar_ok_def has_pillar_def algebra_simps)
  have acc: "da.acc d 4 (i * 8)" "da.acc d 4 (i * 8 + 4)" using pillar_acc [OF p1] by simp_all
  obtain d1 where d1: "da_SetInt (i * 8) (DegreeToInt lat) d = Some d1" "da_mem d1 = upd (da_mem d) (i * 8) (bytes32 (DegreeToInt lat))"
    "da.acc d1 = da.acc d" "da_Capacity d1 = da_Capacity d" "da_inv d1" "da_supp d1 = da_supp d"
    by (rule da.set_int [OF acc(1)])
  obtain d2 where d2: "da_SetInt (i * 8 + 4) (DegreeToInt lon) d1 = Some d2" "da_mem d2 = upd (da_mem d1) (i * 8 + 4) (bytes32 (DegreeToInt lon))"
    "da_Capacity d2 = da_Capacity d1" "da_inv d2" "da_supp d2 = da_supp d1"
    using da.set_int [of d1 "i * 8 + 4" "DegreeToInt lon"] acc(2) d1(3) by metis
  let ?r = "p\<lparr>pi_da := d2\<rparr>"
  have "pi_SetNode i lat lon ele p = Some ?r"
    using d(1) d1(1) d2(1) ok by (simp add: pi_SetNode_def pi_ensureNode_def pi_bytePos_def)
  moreover have "pillar_ok ?r" using p1(1) d1 d2 by (simp add: pillar_ok_def)
  moreover have "has_pillar ?r i" "\<forall>j. has_pillar p j \<longrightarrow> has_pillar ?r j" using p1(2) d d1 d2 by (auto simp: has_pillar_def)
  moreover have "pillar_point ?r j = (if j = i then (DegreeToInt lat, DegreeToInt lon) else pillar_point p j)" for j
  proof -
    have fr: "j * 8 + 4 \<le> i * 8 \<or> i * 8 + 4 \<le> j * 8" "j * 8 + 4 + 4 \<le> i * 8 \<or> i * 8 + 4 \<le> j * 8 + 4"
      "j * 8 + 4 \<le> i * 8 + 4 \<or> i * 8 + 4 + 4 \<le> j * 8" "j * 8 + 4 + 4 \<le> i * 8 + 4 \<or> i * 8 + 4 + 4 \<le> j * 8 + 4" if "j \<noteq> i"
      using that by auto
    show ?thesis
      using fr mem32_frame [of "j * 8" "i * 8"] mem32_frame [of "j * 8 + 4" "i * 8"] mem32_frame [of "j * 8" "i * 8 + 4"]
        mem32_frame [of "j * 8 + 4" "i * 8 + 4"] mem32_frame [of "i * 8" "i * 8 + 4"]
      by (auto simp: pillar_point_def d2(2) d1(2) d(2))
  qed
  ultimately show ?thesis by (intro exI [of _ ?r]) auto
qed

end
