(* ===== verification/WaySegments.thy ===== *)
theory WaySegments imports OsmNodeData begin

text \<open>
  The two passes over an OSM file (core/reader/osm/way\_segment\_parser.go): the first classifies the nodes of the
  accepted ways, the second stores their coordinates and splits every way at its junctions, at missing nodes and at
  barriers into segments, each handed to the edge handler. The filters, the elevation, the preprocessing of ways
  and the edge handler are parameters; the handler works on a state \<open>'w\<close> of its own and may change the way.
\<close>

section \<open>First pass\<close>

record pass1 =
  p1_data :: osm_data
  p1_handledWays :: bool
  p1_handledRelations :: bool
  p1_wayCounter :: int
  p1_acceptedWays :: int

fun classify_nodes :: "int \<Rightarrow> int \<Rightarrow> int list \<Rightarrow> osm_data \<Rightarrow> osm_data option" where
  "classify_nodes lastIdx i [] d = Some d"
| "classify_nodes lastIdx i (osmID # rest) d = do {
     let isEnd = (i = 0 \<or> i = lastIdx);
     let nodeType = (if isEnd then EndNode else IntermediateNode);
     d \<leftarrow> SetOrUpdateNodeType osmID nodeType (\<lambda>prev. if prev = EndNode \<and> isEnd then ConnectionNode else JunctionNode) d;
     classify_nodes lastIdx (i + 1) rest d }"

definition p1_HandleWay :: "(reader_way \<Rightarrow> bool) \<Rightarrow> reader_way \<Rightarrow> pass1 \<Rightarrow> pass1 option" where
  "p1_HandleWay wayFilter way h = do {
     let h = h\<lparr>p1_handledWays := True\<rparr>;
     check (\<not> p1_handledRelations h);
     let h = h\<lparr>p1_wayCounter := p1_wayCounter h + 1\<rparr>;
     if \<not> wayFilter way then Some h
     else do {
       let h = h\<lparr>p1_acceptedWays := p1_acceptedWays h + 1\<rparr>;
       d \<leftarrow> classify_nodes (int (length (way_Nodes way)) - 1) 0 (way_Nodes way) (p1_data h);
       Some (h\<lparr>p1_data := d\<rparr>) } }"

text \<open>Relations go to a parameter with a state \<open>'x\<close> of its own.\<close>

definition p1_HandleRelation :: "('r \<Rightarrow> 'x \<Rightarrow> 'x option) \<Rightarrow> 'r \<Rightarrow> 'x \<Rightarrow> pass1 \<Rightarrow> ('x \<times> pass1) option" where
  "p1_HandleRelation relationPreprocessor relation x h = do {
     let h = h\<lparr>p1_handledRelations := True\<rparr>;
     x \<leftarrow> relationPreprocessor relation x;
     Some (x, h) }"

section \<open>Second pass\<close>

type_synonym 'w edge_handler =
  "int \<Rightarrow> int \<Rightarrow> point_list \<Rightarrow> osm_tags option list \<Rightarrow> reader_way \<Rightarrow> 'w \<Rightarrow> (reader_way \<times> 'w) option"

record 'w pass2 =
  p2_data :: osm_data
  p2_world :: 'w
  p2_handledNodes :: bool
  p2_handledWays :: bool
  p2_handledRelations :: bool
  nodeCounter :: int
  acceptedNodes :: int
  ignoredSplitNodes :: int
  p2_wayCounter :: int

definition includeIfNodeTags :: "string set" where
  "includeIfNodeTags = {''barrier'', ''highway'', ''railway'', ''crossing'', ''ford''}"

definition p2_HandleNode ::
  "(reader_node \<Rightarrow> flt) \<Rightarrow> (reader_node \<Rightarrow> bool) \<Rightarrow> reader_node \<Rightarrow> 'w pass2 \<Rightarrow> 'w pass2 option" where
  "p2_HandleNode elevationProvider splitNodeFilter node h = do {
     let h = h\<lparr>p2_handledNodes := True\<rparr>;
     check (\<not> p2_handledWays h);
     check (\<not> p2_handledRelations h);
     let h = h\<lparr>nodeCounter := nodeCounter h + 1\<rparr>;
     (nodeType, d) \<leftarrow> AddCoordinatesIfMapped (el_id node) (node_Lat node) (node_Lon node) (elevationProvider node) (p2_data h);
     let h = h\<lparr>p2_data := d\<rparr>;
     if nodeType = EmptyNode then Some h
     else do {
       let h = h\<lparr>acceptedNodes := acceptedNodes h + 1\<rparr>;
       let h = (if splitNodeFilter node
         then if nodeType = JunctionNode then h\<lparr>ignoredSplitNodes := ignoredSplitNodes h + 1\<rparr>
           else h\<lparr>p2_data := snd (SetSplitNode (el_id node) (p2_data h))\<rparr>
         else h);
       if list_ex (\<lambda>(k, _). k \<in> includeIfNodeTags) (properties node)
       then do {
         let tags = filter (\<lambda>(k, _). k \<notin> {''created_by'', ''source'', ''note'', ''fixme''}) (properties node);
         d \<leftarrow> od_SetTags (el_id node) tags (p2_data h);
         Some (h\<lparr>p2_data := d\<rparr>) }
       else Some h } }"

text \<open>
  The loop of \<open>handleSegment\<close> at index \<open>i\<close> of \<open>n\<close> nodes, with the ends found so far, the points, the nodes with
  their new ids and the tags.
\<close>

fun segment_loop ::
  "nat \<Rightarrow> nat \<Rightarrow> segment_node list \<Rightarrow> osm_data \<times> int \<times> int \<times> point_list \<times> segment_node list \<times> osm_tags option list \<Rightarrow>
    (osm_data \<times> int \<times> int \<times> point_list \<times> segment_node list \<times> osm_tags option list) option" where
  "segment_loop n i [] acc = Some acc"
| "segment_loop n i (node # rest) (d, from', to', pl, seg, tags) = do {
     check (IsNodeID (sn_ID node));
     (nid, d) \<leftarrow> (if IsPillarNode (sn_ID node) \<and> (i = 0 \<or> i = n - 1)
       then ConvertPillarToTowerNode (sn_ID node) (sn_OSMNodeID node) d else Some (sn_ID node, d));
     let node = node\<lparr>sn_ID := nid\<rparr>;
     check (i = 0 \<or> i = n - 1 \<or> \<not> IsTowerNode nid);
     let from' = (if i = 0 then IDToTowerNode nid else from');
     let to' = (if i \<noteq> 0 \<and> i = n - 1 then IDToTowerNode nid else to');
     pl \<leftarrow> AddCoordinatesToPointList nid pl d;
     segment_loop n (Suc i) rest (d, from', to', pl, seg @ [node], tags @ [sn_Tags node]) }"

definition handleSegment ::
  "'w edge_handler \<Rightarrow> segment_node list \<Rightarrow> reader_way \<Rightarrow> 'w pass2 \<Rightarrow> (segment_node list \<times> reader_way \<times> 'w pass2) option" where
  "handleSegment handler segment way h = do {
     (d, from', to', pl, seg, tags) \<leftarrow>
       segment_loop (length segment) 0 segment (p2_data h, - 1, - 1, NewPointList (od_Is3D (p2_data h)), [], []);
     check (\<not> (from' < 0 \<or> to' < 0));
     (way, w) \<leftarrow> handler from' to' pl tags way (p2_world h);
     Some (seg, way, h\<lparr>p2_data := d, p2_world := w\<rparr>) }"

fun barrier_loop ::
  "'w edge_handler \<Rightarrow> nat \<Rightarrow> nat \<Rightarrow> segment_node list \<Rightarrow> segment_node list \<Rightarrow> reader_way \<Rightarrow> 'w pass2 \<Rightarrow>
    (segment_node list \<times> reader_way \<times> 'w pass2) option" where
  "barrier_loop handler n i [] segment way h = Some (segment, way, h)"
| "barrier_loop handler n i (node # rest) segment way h =
     (if \<not> IsSplitNode (sn_OSMNodeID node) (p2_data h)
      then barrier_loop handler n (Suc i) rest (segment @ [node]) way h
      else do {
        d \<leftarrow> UnsetSplitNode (sn_OSMNodeID node) (p2_data h);
        (copy, d) \<leftarrow> AddCopyOfNode node d;
        let h = h\<lparr>p2_data := d\<rparr>;
        let (barrierFrom, barrierTo) = (if i = n - 1 then (copy, node) else (node, copy));
        (barrierFrom, way, h) \<leftarrow> (if segment \<noteq> [] then do {
            (seg, way, h) \<leftarrow> handleSegment handler (segment @ [barrierFrom]) way h;
            Some (last seg, way, h) }
          else Some (barrierFrom, way, h));
        let way = SetTag ''gh:barrier_edge'' (TagString ''true'') way;
        (seg, way, h) \<leftarrow> handleSegment handler [barrierFrom, barrierTo] way h;
        let way = RemoveTag ''gh:barrier_edge'' way;
        barrier_loop handler n (Suc i) rest [last seg] way h })"

definition splitSegmentAtSplitNodes ::
  "'w edge_handler \<Rightarrow> segment_node list \<Rightarrow> reader_way \<Rightarrow> 'w pass2 \<Rightarrow> (reader_way \<times> 'w pass2) option" where
  "splitSegmentAtSplitNodes handler parentSegment way h = do {
     (segment, way, h) \<leftarrow> barrier_loop handler (length parentSegment) 0 parentSegment [] way h;
     if length segment > 1 then do {
       (_, way, h) \<leftarrow> handleSegment handler segment way h;
       Some (way, h) }
     else Some (way, h) }"

definition splitLoopSegments ::
  "'w edge_handler \<Rightarrow> segment_node list \<Rightarrow> reader_way \<Rightarrow> 'w pass2 \<Rightarrow> (reader_way \<times> 'w pass2) option" where
  "splitLoopSegments handler segment way h = do {
     check (\<not> length segment < 2);
     let isLoop = (sn_OSMNodeID (hd segment) = sn_OSMNodeID (last segment));
     if length segment = 2 \<and> isLoop then Some (way, h)
     else if isLoop then do {
       (way, h) \<leftarrow> splitSegmentAtSplitNodes handler (butlast segment) way h;
       let mid = length segment - 2;
       i \<leftarrow> GetID (sn_OSMNodeID (segment ! mid)) (p2_data h);
       splitSegmentAtSplitNodes handler (drop mid (segment[mid := (segment ! mid)\<lparr>sn_ID := i\<rparr>])) way h }
     else splitSegmentAtSplitNodes handler segment way h }"

fun junction_loop ::
  "'w edge_handler \<Rightarrow> segment_node list \<Rightarrow> segment_node list \<Rightarrow> reader_way \<Rightarrow> 'w pass2 \<Rightarrow>
    (segment_node list \<times> reader_way \<times> 'w pass2) option" where
  "junction_loop handler [] segment way h = Some (segment, way, h)"
| "junction_loop handler (node # rest) segment way h =
     (if \<not> IsNodeID (sn_ID node)
      then if length segment > 1 then do {
          (way, h) \<leftarrow> splitLoopSegments handler segment way h;
          junction_loop handler rest [] way h }
        else junction_loop handler rest segment way h
      else if IsTowerNode (sn_ID node)
      then if length segment > 0 then do {
          (way, h) \<leftarrow> splitLoopSegments handler (segment @ [node]) way h;
          junction_loop handler rest [node] way h }
        else junction_loop handler rest (segment @ [node]) way h
      else junction_loop handler rest (segment @ [node]) way h)"

definition splitWayAtJunctionsAndEmptySections ::
  "'w edge_handler \<Rightarrow> segment_node list \<Rightarrow> reader_way \<Rightarrow> 'w pass2 \<Rightarrow> (reader_way \<times> 'w pass2) option" where
  "splitWayAtJunctionsAndEmptySections handler fullSegment way h = do {
     (segment, way, h) \<leftarrow> junction_loop handler fullSegment [] way h;
     if length segment > 1 then splitLoopSegments handler segment way h else Some (way, h) }"

fun full_segment :: "int list \<Rightarrow> osm_data \<Rightarrow> segment_node list option" where
  "full_segment [] d = Some []"
| "full_segment (osmID # rest) d = do {
     i \<leftarrow> GetID osmID d;
     tags \<leftarrow> od_GetTags osmID d;
     segment \<leftarrow> full_segment rest d;
     Some (\<lparr>sn_OSMNodeID = osmID, sn_ID = i, sn_Tags = tags\<rparr> # segment) }"

type_synonym way_preprocessor =
  "(int \<Rightarrow> point3 option option) \<Rightarrow> (int \<Rightarrow> osm_tags option option) \<Rightarrow> reader_way \<Rightarrow> reader_way option"

definition p2_HandleWay ::
  "(reader_way \<Rightarrow> bool) \<Rightarrow> way_preprocessor \<Rightarrow> 'w edge_handler \<Rightarrow> reader_way \<Rightarrow> 'w pass2 \<Rightarrow> (reader_way \<times> 'w pass2) option" where
  "p2_HandleWay wayFilter wayPreprocessor handler way h = do {
     let h = h\<lparr>p2_handledWays := True\<rparr>;
     check (\<not> p2_handledRelations h);
     let h = h\<lparr>p2_wayCounter := p2_wayCounter h + 1\<rparr>;
     if \<not> wayFilter way then Some (way, h)
     else do {
       let nd = p2_data h;
       segment \<leftarrow> full_segment (way_Nodes way) nd;
       way \<leftarrow> wayPreprocessor (\<lambda>i. do { j \<leftarrow> GetID i nd; GetCoordinates j nd }) (\<lambda>i. od_GetTags i nd) way;
       splitWayAtJunctionsAndEmptySections handler segment way h } }"

definition getInternalNodeIDOfOSMNode :: "int \<Rightarrow> 'w pass2 \<Rightarrow> int option" where
  "getInternalNodeIDOfOSMNode osmNodeID h = do {
     i \<leftarrow> GetID osmNodeID (p2_data h);
     Some (if IsTowerNode i then - i - 3 else - 1) }"

definition p2_HandleRelation ::
  "('r \<Rightarrow> (int \<Rightarrow> int option) \<Rightarrow> 'w \<Rightarrow> 'w option) \<Rightarrow> 'r \<Rightarrow> 'w pass2 \<Rightarrow> 'w pass2 option" where
  "p2_HandleRelation relationProcessor relation h = do {
     let h = h\<lparr>p2_handledRelations := True\<rparr>;
     w \<leftarrow> relationProcessor relation (\<lambda>i. getInternalNodeIDOfOSMNode i h) (p2_world h);
     Some (h\<lparr>p2_world := w\<rparr>) }"

end
