(* ===== verification/OsmFacts.thy ===== *)
theory OsmFacts imports OsmStores WaySegments begin

text \<open>
  The node data as a map from OSM ids to internal ids and coordinates: the invariant of the data, what each operation
  does to the ids and coordinates, and the segments that the second pass makes of a way.
\<close>

section \<open>Ids\<close>

definition osm_id :: "osm_data \<Rightarrow> int \<Rightarrow> int" where
  "osm_id d k = (case bt_map (idsByOsmNodeIds d) k of None \<Rightarrow> - 1 | Some v \<Rightarrow> sint v)"

definition ids_ok :: "long_btree \<Rightarrow> bool" where
  "ids_ok t \<longleftrightarrow> bt_inv t \<and> emptyValue t = - 1 \<and> bytesPerValue t = 5"

definition id_fits :: "int \<Rightarrow> bool" where "id_fits i \<longleftrightarrow> - (2 ^ 39) \<le> i \<and> i < 2 ^ 39 \<and> i \<noteq> - 1"

lemma sint_id: "id_fits i \<Longrightarrow> sint (word_of_int i :: i64) = i"
  by (simp add: id_fits_def sint_word_of_int_eq signed_take_bit_int_eq_self)

lemma GetID_osm_id:
  assumes "ids_ok (idsByOsmNodeIds d)"
  shows "GetID k d = Some (osm_id d k)"
  using bt_Get_spec [of "idsByOsmNodeIds d" k] assms by (simp add: GetID_def osm_id_def ids_ok_def split: option.split)

lemma put_id_spec:
  assumes "ids_ok (idsByOsmNodeIds d)" "id_fits i"
  shows "\<exists>t. put_id k i d = Some (osm_id d k, d\<lparr>idsByOsmNodeIds := t\<rparr>) \<and> ids_ok t \<and>
    osm_id (d\<lparr>idsByOsmNodeIds := t\<rparr>) = (osm_id d)(k := i)"
proof -
  let ?t = "idsByOsmNodeIds d" and ?v = "word_of_int i :: i64"
  have inv: "bt_inv ?t" "emptyValue ?t = - 1" "bytesPerValue ?t = 5" using assms(1) by (simp_all add: ids_ok_def)
  have ne: "?v \<noteq> - 1"
  proof
    assume "?v = - 1"
    then have "sint ?v = - 1" by simp
    then show False using assms(2) sint_id [OF assms(2)] by (simp add: id_fits_def)
  qed
  have fits: "value_fits ?t ?v" using sint_id [OF assms(2)] assms(2) inv ne by (simp add: value_fits_def id_fits_def)
  have le: "sint ?v \<le> sint (maxValue ?t)" using sint_maxValue [OF inv(1)] sint_id [OF assms(2)] assms(2) inv(3)
    by (simp add: id_fits_def)
  obtain t where t: "bt_Put k ?v ?t = Some (case bt_map ?t k of None \<Rightarrow> emptyValue ?t | Some w \<Rightarrow> w, t)" "bt_inv t"
    "bt_map t = (bt_map ?t)(k \<mapsto> stored_value ?t ?v)" "emptyValue t = emptyValue ?t" "bytesPerValue t = bytesPerValue ?t"
    using bt_Put_spec [OF inv(1) le, of k] ne inv(2) by auto
  have st: "stored_value ?t ?v = ?v" using stored_value_fits [OF fits] inv(3) by simp
  have "put_id k i d = Some (osm_id d k, d\<lparr>idsByOsmNodeIds := t\<rparr>)"
    using t(1) inv(2) by (simp add: put_id_def osm_id_def split: option.splits)
  moreover have "osm_id (d\<lparr>idsByOsmNodeIds := t\<rparr>) = (osm_id d)(k := i)"
    using t(3) st sint_id [OF assms(2)] by (auto simp: osm_id_def)
  ultimately show ?thesis using t(2,4,5) inv(2,3) by (intro exI [of _ t]) (simp add: ids_ok_def)
qed

section \<open>The invariant\<close>

definition node_point :: "osm_data \<Rightarrow> int \<Rightarrow> int_point" where
  "node_point d i =
     (if IsTowerNode i then tower_point (towerNodes d) (IDToTowerNode i) else pillar_point (pillarNodes d) (IDToPillarNode i))"

definition stored_id :: "osm_data \<Rightarrow> int \<Rightarrow> bool" where
  "stored_id d i \<longleftrightarrow> (if IsTowerNode i then IDToTowerNode i < nextTowerId d
     else if IsPillarNode i then IDToPillarNode i < nextPillarId d else True)"

definition od_inv :: "osm_data \<Rightarrow> bool" where
  "od_inv d \<longleftrightarrow> ids_ok (idsByOsmNodeIds d) \<and> tower_ok (towerNodes d) \<and> pillar_ok (pillarNodes d) \<and>
     0 \<le> nextTowerId d \<and> nextTowerId d \<le> nodeCount (towerNodes d) \<and> nextTowerId d < 2 ^ 31 - 1 \<and>
     0 \<le> nextPillarId d \<and> (\<forall>j. 0 \<le> j \<and> j < nextPillarId d \<longrightarrow> has_pillar (pillarNodes d) j) \<and>
     (\<forall>k. stored_id d (osm_id d k)) \<and> (\<forall>k k'. IsNodeID (osm_id d k) \<and> osm_id d k = osm_id d k' \<longrightarrow> k = k')"

lemma od_invD:
  assumes "od_inv d"
  shows "ids_ok (idsByOsmNodeIds d)" "tower_ok (towerNodes d)" "pillar_ok (pillarNodes d)"
    "0 \<le> nextTowerId d" "nextTowerId d \<le> nodeCount (towerNodes d)" "nextTowerId d < 2 ^ 31 - 1" "0 \<le> nextPillarId d"
    "stored_id d (osm_id d k)" "0 \<le> j \<Longrightarrow> j < nextPillarId d \<Longrightarrow> has_pillar (pillarNodes d) j"
    "IsNodeID (osm_id d k) \<Longrightarrow> osm_id d k = osm_id d k' \<Longrightarrow> k = k'"
  using assms unfolding od_inv_def by auto

lemma od_GetID: "od_inv d \<Longrightarrow> GetID k d = Some (osm_id d k)"
  by (rule GetID_osm_id) (rule od_invD(1))

lemma tower_pillar: "\<not> (IsTowerNode i \<and> IsPillarNode i)" "IsNodeID i \<longleftrightarrow> IsTowerNode i \<or> IsPillarNode i"
  by (auto simp: node_ids node_types)

lemma GetCoordinates_point:
  assumes "od_inv d" "IsNodeID (osm_id d k)"
  shows "GetCoordinates (osm_id d k) d =
    Some (Some (IntToDegree (fst (node_point d (osm_id d k))), IntToDegree (snd (node_point d (osm_id d k))), NaN))"
proof -
  note I = od_invD [OF assms(1)]
  let ?i = "osm_id d k"
  have flat: "\<not> withElevation (towerNodes d)" "\<not> enabled3D (pillarNodes d)" using I(2,3) by (simp_all add: tower_ok_def pillar_ok_def)
  show ?thesis
  proof (cases "IsTowerNode ?i")
    case True
    have "0 \<le> IDToTowerNode ?i" "IDToTowerNode ?i < nodeCount (towerNodes d)"
      using True I(8) [of k] I(5) by (auto simp: stored_id_def node_ids node_types)
    then show ?thesis using tower_get [OF I(2)] True flat by (simp add: GetCoordinates_def node_point_def)
  next
    case False
    then have p: "IsPillarNode ?i" using assms(2) tower_pillar by blast
    have "0 \<le> IDToPillarNode ?i" "IDToPillarNode ?i < nextPillarId d" using p False I(8) [of k] by (auto simp: stored_id_def node_ids node_types)
    then have "has_pillar (pillarNodes d) (IDToPillarNode ?i)" using I(9) by simp
    then show ?thesis using pillar_get [OF I(3)] False p flat by (simp add: GetCoordinates_def node_point_def)
  qed
qed

section \<open>Operations\<close>

lemma id_fits_type: "nodeType \<in> {JunctionNode, EndNode, IntermediateNode, ConnectionNode} \<Longrightarrow> id_fits nodeType \<and> \<not> IsNodeID nodeType"
  by (auto simp: node_types IsNodeID_def id_fits_def)

lemma put_type_inv:
  assumes "od_inv d" "id_fits i" "\<not> IsNodeID i"
  shows "\<exists>d'. put_id k i d = Some (osm_id d k, d') \<and> od_inv d' \<and> osm_id d' = (osm_id d)(k := i) \<and>
    node_point d' = node_point d \<and> d' = d\<lparr>idsByOsmNodeIds := idsByOsmNodeIds d'\<rparr>"
proof -
  note I = od_invD [OF assms(1)]
  obtain t where t: "put_id k i d = Some (osm_id d k, d\<lparr>idsByOsmNodeIds := t\<rparr>)" "ids_ok t"
    "osm_id (d\<lparr>idsByOsmNodeIds := t\<rparr>) = (osm_id d)(k := i)"
    using put_id_spec [OF I(1) assms(2), of k] by blast
  let ?d = "d\<lparr>idsByOsmNodeIds := t\<rparr>"
  have st: "stored_id ?d = stored_id d" and np: "node_point ?d = node_point d" by (simp_all add: fun_eq_iff stored_id_def node_point_def)
  have "stored_id d i" using assms(3) tower_pillar(2) by (simp add: stored_id_def)
  then have "od_inv ?d"
    unfolding od_inv_def t(3) st
  proof (intro conjI allI impI; (elim conjE)?)
    show "stored_id d (((osm_id d)(k := i)) k')" if "stored_id d i" for k' using that I(8) [of k'] by simp
    show "k1 = k2" if "IsNodeID (((osm_id d)(k := i)) k1)" "((osm_id d)(k := i)) k1 = ((osm_id d)(k := i)) k2" for k1 k2
      using that assms(3) I(10) [of k1 k2] by (auto split: if_splits)
  qed (use I(2-7,9) t(2) in auto)
  then show ?thesis using t(1,3) np by (intro exI [of _ ?d]) simp
qed

lemma SetOrUpdateNodeType_spec:
  assumes "od_inv d" "id_fits nodeType" "\<not> IsNodeID nodeType" "\<And>c. id_fits (f c) \<and> \<not> IsNodeID (f c)"
  shows "\<exists>d'. SetOrUpdateNodeType k nodeType f d = Some d' \<and> od_inv d' \<and>
    osm_id d' = (osm_id d)(k := if osm_id d k = EmptyNode then nodeType else f (osm_id d k)) \<and> node_point d' = node_point d \<and>
    d' = d\<lparr>idsByOsmNodeIds := idsByOsmNodeIds d'\<rparr>"
proof -
  let ?i = "if osm_id d k = EmptyNode then nodeType else f (osm_id d k)"
  have "id_fits ?i" "\<not> IsNodeID ?i" using assms(2-4) by simp_all
  then obtain d' where "put_id k ?i d = Some (osm_id d k, d')" "od_inv d'" "osm_id d' = (osm_id d)(k := ?i)" "node_point d' = node_point d"
    "d' = d\<lparr>idsByOsmNodeIds := idsByOsmNodeIds d'\<rparr>"
    using put_type_inv [OF assms(1), of ?i k] by blast
  then show ?thesis using od_GetID [OF assms(1), of k] by (simp add: SetOrUpdateNodeType_def)
qed

lemma addTowerNode_spec:
  assumes "od_inv d" "nextTowerId d < 2 ^ 31 - 2"
  shows "\<exists>d'. addTowerNode k lat lon ele d = Some (TowerNodeToID (nextTowerId d), d') \<and> od_inv d' \<and>
    osm_id d' = (osm_id d)(k := TowerNodeToID (nextTowerId d)) \<and> nextTowerId d' = nextTowerId d + 1 \<and>
    node_point d' (TowerNodeToID (nextTowerId d)) = (DegreeToInt lat, DegreeToInt lon) \<and>
    (\<forall>i. stored_id d i \<longrightarrow> node_point d' i = node_point d i) \<and>
    nodesToBeSplit d' = nodesToBeSplit d \<and> nextPillarId d' = nextPillarId d \<and> nodeTags d' = nodeTags d \<and>
    nodeTagIndices d' = nodeTagIndices d \<and> pillarNodes d' = pillarNodes d"
proof -
  note I = od_invD [OF assms(1)]
  let ?n = "nextTowerId d" and ?i = "TowerNodeToID (nextTowerId d)"
  obtain s where s: "SetNode ?n lat lon ele (towerNodes d) = Some s" "tower_ok s" "nodeCount s = max (nodeCount (towerNodes d)) (?n + 1)"
    "tower_point s ?n = (DegreeToInt lat, DegreeToInt lon)"
    "\<And>m. m \<noteq> ?n \<Longrightarrow> m < nodeCount (towerNodes d) \<Longrightarrow> tower_point s m = tower_point (towerNodes d) m"
    using SetNode_tower [OF I(2), of ?n lat lon ele] I(4) assms(2) by auto
  let ?d1 = "d\<lparr>towerNodes := s\<rparr>"
  have fits: "id_fits ?i" using I(4,6) by (simp add: id_fits_def node_ids)
  obtain t where t: "put_id k ?i ?d1 = Some (osm_id ?d1 k, ?d1\<lparr>idsByOsmNodeIds := t\<rparr>)" "ids_ok t"
    "osm_id (?d1\<lparr>idsByOsmNodeIds := t\<rparr>) = (osm_id ?d1)(k := ?i)"
    using put_id_spec [of ?d1, OF _ fits] I(1) by auto
  let ?d = "?d1\<lparr>idsByOsmNodeIds := t, nextTowerId := ?n + 1\<rparr>"
  have o1: "osm_id ?d1 = osm_id d" by (simp add: osm_id_def fun_eq_iff)
  have "osm_id ?d = osm_id (?d1\<lparr>idsByOsmNodeIds := t\<rparr>)" by (simp add: osm_id_def fun_eq_iff)
  then have ids: "osm_id ?d = (osm_id d)(k := ?i)" by (simp only: t(3) o1)
  have run: "addTowerNode k lat lon ele d = Some (?i, ?d)" using s(1) t(1) assms(2) by (simp add: addTowerNode_def)
  have tw: "IsTowerNode ?i" "IDToTowerNode ?i = ?n" using I(4) by (simp_all add: node_ids node_types)
  have st: "stored_id ?d i" if "stored_id d i \<or> i = ?i" for i using that tw by (auto simp: stored_id_def)
  have ne: "osm_id d k' \<noteq> ?i" for k' using I(8) [of k'] tw by (auto simp: stored_id_def)
  have inv: "od_inv ?d"
    unfolding od_inv_def ids
  proof (intro conjI allI impI; (elim conjE)?)
    show "stored_id ?d (((osm_id d)(k := ?i)) k')" for k' using st I(8) [of k'] by simp
    show "k1 = k2" if "IsNodeID (((osm_id d)(k := ?i)) k1)" "((osm_id d)(k := ?i)) k1 = ((osm_id d)(k := ?i)) k2" for k1 k2
      using that ne [of k1] ne [of k2] I(10) [of k1 k2] by (auto split: if_splits)
  qed (use I(3-7,9) s(2,3) t(2) assms(2) in \<open>auto\<close>)
  have pts: "node_point ?d i = node_point d i" if "stored_id d i" for i
    using that s(5) I(5) by (auto simp: node_point_def stored_id_def)
  show ?thesis using run inv ids pts tw s(4) by (intro exI [of _ ?d]) (simp add: node_point_def)
qed

lemma addPillarNode_spec:
  assumes "od_inv d" "nextPillarId d < 2 ^ 39 - 4"
  shows "\<exists>d'. addPillarNode k lat lon ele d = Some (PillarNodeToID (nextPillarId d), d') \<and> od_inv d' \<and>
    osm_id d' = (osm_id d)(k := PillarNodeToID (nextPillarId d)) \<and> nextTowerId d' = nextTowerId d \<and>
    node_point d' (PillarNodeToID (nextPillarId d)) = (DegreeToInt lat, DegreeToInt lon) \<and>
    (\<forall>i. IsNodeID i \<and> stored_id d i \<longrightarrow> node_point d' i = node_point d i) \<and>
    nodesToBeSplit d' = nodesToBeSplit d \<and> nextPillarId d' = nextPillarId d + 1 \<and> nodeTags d' = nodeTags d \<and>
    nodeTagIndices d' = nodeTagIndices d"
proof -
  note I = od_invD [OF assms(1)]
  let ?n = "nextPillarId d" and ?i = "PillarNodeToID (nextPillarId d)"
  obtain p where p: "pi_SetNode ?n lat lon ele (pillarNodes d) = Some p" "pillar_ok p" "has_pillar p ?n"
    "pillar_point p ?n = (DegreeToInt lat, DegreeToInt lon)" "\<And>j. has_pillar (pillarNodes d) j \<Longrightarrow> has_pillar p j"
    "\<And>j. j \<noteq> ?n \<Longrightarrow> pillar_point p j = pillar_point (pillarNodes d) j"
    using pillar_set [OF I(3,7), of lat lon ele] by blast
  let ?d1 = "d\<lparr>pillarNodes := p\<rparr>"
  have fits: "id_fits ?i" using I(7) assms(2) by (simp add: id_fits_def node_ids)
  obtain t where t: "put_id k ?i ?d1 = Some (osm_id ?d1 k, ?d1\<lparr>idsByOsmNodeIds := t\<rparr>)" "ids_ok t"
    "osm_id (?d1\<lparr>idsByOsmNodeIds := t\<rparr>) = (osm_id ?d1)(k := ?i)"
    using put_id_spec [of ?d1, OF _ fits] I(1) by auto
  let ?d = "?d1\<lparr>idsByOsmNodeIds := t, nextPillarId := ?n + 1\<rparr>"
  have o1: "osm_id ?d1 = osm_id d" by (simp add: osm_id_def fun_eq_iff)
  have "osm_id ?d = osm_id (?d1\<lparr>idsByOsmNodeIds := t\<rparr>)" by (simp add: osm_id_def fun_eq_iff)
  then have ids: "osm_id ?d = (osm_id d)(k := ?i)" by (simp only: t(3) o1)
  have "sint (maxValue (idsByOsmNodeIds d)) = 2 ^ 39 - 1" using sint_maxValue [of "idsByOsmNodeIds d"] I(1) by (simp add: ids_ok_def)
  then have "\<not> ?i > sint (maxValue (idsByOsmNodeIds d))" using assms(2) by (simp add: node_ids)
  then have run: "addPillarNode k lat lon ele d = Some (?i, ?d)" using p(1) t(1) by (simp add: addPillarNode_def)
  have pl: "IsPillarNode ?i" "IDToPillarNode ?i = ?n" "\<not> IsTowerNode ?i" using I(7) by (simp_all add: node_ids node_types)
  have st: "stored_id ?d i" if "stored_id d i \<or> i = ?i" for i using that pl by (auto simp: stored_id_def)
  have ne: "osm_id d k' \<noteq> ?i" for k' using I(8) [of k'] pl by (auto simp: stored_id_def)
  have inv: "od_inv ?d"
    unfolding od_inv_def ids
  proof (intro conjI allI impI; (elim conjE)?)
    show "stored_id ?d (((osm_id d)(k := ?i)) k')" for k' using st I(8) [of k'] by simp
    show "k1 = k2" if "IsNodeID (((osm_id d)(k := ?i)) k1)" "((osm_id d)(k := ?i)) k1 = ((osm_id d)(k := ?i)) k2" for k1 k2
      using that ne [of k1] ne [of k2] I(10) [of k1 k2] by (auto split: if_splits)
    show "has_pillar (pillarNodes ?d) j" if "0 \<le> j" "j < nextPillarId ?d" for j
      using that I(9) [of j] p(3,5) by (cases "j = ?n") auto
  qed (use I(2-7) p(2) t(2) in \<open>auto\<close>)
  have pts: "node_point ?d i = node_point d i" if "IsNodeID i" "stored_id d i" for i
    using that p(6) [of "IDToPillarNode i"] tower_pillar by (auto simp: node_point_def stored_id_def)
  show ?thesis using run inv ids pts pl p(4) by (intro exI [of _ ?d]) (simp add: node_point_def)
qed

text \<open>Turning a pillar into a tower node moves its coordinates to the node access and keeps them.\<close>

definition live_point :: "int_point \<Rightarrow> bool" where
  "live_point p \<longleftrightarrow> \<not> flt_eq (IntToDegree (fst p)) MaxFloat64 \<and> \<not> flt_eq (IntToDegree (snd p)) MaxFloat64"

lemma live_pointI:
  assumes "sint (fst p) \<noteq> MaxInt32" "sint (snd p) \<noteq> MaxInt32"
  shows "live_point p"
proof -
  have "\<not> flt_eq (IntToDegree v) MaxFloat64" if "sint v \<noteq> MaxInt32" for v
  proof
    assume "flt_eq (IntToDegree v) MaxFloat64"
    then have "DegreeToInt (IntToDegree v) = DegreeToInt MaxFloat64" by (simp add: flt_eq_def)
    moreover have "flt_le MaxFloat64 MaxFloat64" by (simp add: MaxFloat64_def)
    then have "DegreeToInt MaxFloat64 = word_of_int MaxInt32" by (simp add: DegreeToInt_def)
    ultimately have "v = word_of_int MaxInt32" by (simp only: DegreeToInt_IntToDegree)
    then show False using that by simp
  qed
  then show ?thesis using assms by (simp add: live_point_def)
qed

lemma ConvertPillarToTowerNode_spec:
  assumes "od_inv d" "IsPillarNode (osm_id d k)" "live_point (node_point d (osm_id d k))" "nextTowerId d < 2 ^ 31 - 2"
  shows "\<exists>d'. ConvertPillarToTowerNode (osm_id d k) k d = Some (TowerNodeToID (nextTowerId d), d') \<and> od_inv d' \<and>
    osm_id d' = (osm_id d)(k := TowerNodeToID (nextTowerId d)) \<and> nextTowerId d' = nextTowerId d + 1 \<and>
    node_point d' (TowerNodeToID (nextTowerId d)) = node_point d (osm_id d k) \<and>
    (\<forall>k'. k' \<noteq> k \<and> IsNodeID (osm_id d k') \<longrightarrow> node_point d' (osm_id d k') = node_point d (osm_id d k')) \<and>
    nodesToBeSplit d' = nodesToBeSplit d \<and> nextPillarId d' = nextPillarId d \<and> nodeTags d' = nodeTags d \<and>
    nodeTagIndices d' = nodeTagIndices d"
proof -
  note I = od_invD [OF assms(1)]
  let ?i = "osm_id d k" and ?T = "TowerNodeToID (nextTowerId d)"
  let ?j = "IDToPillarNode ?i"
  have nt: "\<not> IsTowerNode ?i" using assms(2) tower_pillar(1) by blast
  have j: "0 \<le> ?j" "?j < nextPillarId d" using I(8) [of k] assms(2) nt by (auto simp: stored_id_def node_ids node_types)
  then have has: "has_pillar (pillarNodes d) ?j" by (rule I(9))
  have np: "node_point d ?i = pillar_point (pillarNodes d) ?j" using nt by (simp add: node_point_def)
  note G = pillar_get [OF I(3) has]
  obtain p where p: "pi_SetNode ?j MaxFloat64 MaxFloat64 MaxFloat64 (pillarNodes d) = Some p" "pillar_ok p"
    "\<And>j. has_pillar (pillarNodes d) j \<Longrightarrow> has_pillar p j"
    "\<And>j. j \<noteq> ?j \<Longrightarrow> pillar_point p j = pillar_point (pillarNodes d) j"
    using pillar_set [OF I(3) j(1)] by metis
  let ?d1 = "d\<lparr>pillarNodes := p\<rparr>"
  have o1: "osm_id ?d1 = osm_id d" "stored_id ?d1 = stored_id d" by (simp_all add: fun_eq_iff osm_id_def stored_id_def)
  have inv1: "od_inv ?d1"
    unfolding od_inv_def o1
  proof (intro conjI allI impI; (elim conjE)?)
    show "has_pillar (pillarNodes ?d1) j" if "0 \<le> j" "j < nextPillarId ?d1" for j using that I(9) [of j] p(3) by simp
    show "k1 = k2" if "IsNodeID (osm_id d k1)" "osm_id d k1 = osm_id d k2" for k1 k2 using that by (rule I(10))
  qed (use I(1-8) p(2) in auto)
  let ?lat = "IntToDegree (fst (pillar_point (pillarNodes d) ?j))" and ?lon = "IntToDegree (snd (pillar_point (pillarNodes d) ?j))"
  obtain d' where d': "addTowerNode k ?lat ?lon NaN ?d1 = Some (?T, d')" "od_inv d'" "osm_id d' = (osm_id d)(k := ?T)"
    "nextTowerId d' = nextTowerId d + 1" "node_point d' ?T = (DegreeToInt ?lat, DegreeToInt ?lon)"
    "\<And>i. stored_id d i \<Longrightarrow> node_point d' i = node_point ?d1 i" "nodesToBeSplit d' = nodesToBeSplit d" "nextPillarId d' = nextPillarId d"
    "nodeTags d' = nodeTags d" "nodeTagIndices d' = nodeTagIndices d"
    using addTowerNode_spec [OF inv1, of k ?lat ?lon NaN] assms(4) o1 by auto
  have "ConvertPillarToTowerNode ?i k d = Some (?T, d')"
    using G p(1) d'(1) assms(2,3) np by (simp add: ConvertPillarToTowerNode_def live_point_def)
  moreover have "node_point d' ?T = node_point d ?i" using d'(5) np by (simp add: DegreeToInt_IntToDegree)
  moreover have "node_point d' (osm_id d k') = node_point d (osm_id d k')" if "k' \<noteq> k" "IsNodeID (osm_id d k')" for k'
  proof -
    have "osm_id d k' \<noteq> ?i" using that I(10) [of k' k] by auto
    then have "IDToPillarNode (osm_id d k') \<noteq> ?j" by (simp add: node_ids)
    then have "node_point ?d1 (osm_id d k') = node_point d (osm_id d k')" using p(4) by (simp add: node_point_def)
    then show ?thesis using d'(6) [OF I(8)] by simp
  qed
  ultimately show ?thesis using d'(2-4,7-10) by (intro exI [of _ d']) blast
qed

lemma AddCoordinatesIfMapped_spec:
  assumes "od_inv d" "nextTowerId d < 2 ^ 31 - 2" "nextPillarId d < 2 ^ 39 - 4"
    "osm_id d k \<in> {JunctionNode, EmptyNode, EndNode, IntermediateNode, ConnectionNode}"
  shows "\<exists>d'. AddCoordinatesIfMapped k lat lon ele d = Some (osm_id d k, d') \<and> od_inv d' \<and>
    (\<forall>k'. k' \<noteq> k \<longrightarrow> osm_id d' k' = osm_id d k' \<and>
       (IsNodeID (osm_id d k') \<longrightarrow> node_point d' (osm_id d k') = node_point d (osm_id d k'))) \<and>
    (if osm_id d k = EmptyNode then d' = d
     else node_point d' (osm_id d' k) = (DegreeToInt lat, DegreeToInt lon) \<and>
       (if osm_id d k \<in> {JunctionNode, ConnectionNode} then osm_id d' k = TowerNodeToID (nextTowerId d)
        else osm_id d' k = PillarNodeToID (nextPillarId d))) \<and>
    nextTowerId d' \<le> nextTowerId d + 1 \<and> nextPillarId d' \<le> nextPillarId d + 1 \<and> nodesToBeSplit d' = nodesToBeSplit d \<and>
    nodeTags d' = nodeTags d \<and> nodeTagIndices d' = nodeTagIndices d"
proof -
  note I = od_invD [OF assms(1)] and G = od_GetID [OF assms(1), of k]
  consider "osm_id d k = EmptyNode" | "osm_id d k \<in> {JunctionNode, ConnectionNode}" | "osm_id d k \<in> {EndNode, IntermediateNode}"
    using assms(4) by auto
  then show ?thesis
  proof cases
    case 1
    then show ?thesis using G assms(1) by (simp add: AddCoordinatesIfMapped_def)
  next
    case 2
    obtain d' where d': "addTowerNode k lat lon ele d = Some (TowerNodeToID (nextTowerId d), d')" "od_inv d'"
      "osm_id d' = (osm_id d)(k := TowerNodeToID (nextTowerId d))" "nextTowerId d' = nextTowerId d + 1"
      "node_point d' (TowerNodeToID (nextTowerId d)) = (DegreeToInt lat, DegreeToInt lon)"
      "\<And>i. stored_id d i \<Longrightarrow> node_point d' i = node_point d i" "nodesToBeSplit d' = nodesToBeSplit d" "nextPillarId d' = nextPillarId d"
      "nodeTags d' = nodeTags d" "nodeTagIndices d' = nodeTagIndices d"
      using addTowerNode_spec [OF assms(1,2), of k lat lon ele] by auto
    have t: "osm_id d k \<noteq> EmptyNode" "osm_id d k = JunctionNode \<or> osm_id d k = ConnectionNode" using 2 by (auto simp: node_types)
    have "AddCoordinatesIfMapped k lat lon ele d = Some (osm_id d k, d')"
      using G d'(1) t by (auto simp: AddCoordinatesIfMapped_def)
    then show ?thesis using 2 t(1) d'(2-5,7-10) d'(6) [OF I(8)] by (intro exI [of _ d']) simp
  next
    case 3
    obtain d' where d': "addPillarNode k lat lon ele d = Some (PillarNodeToID (nextPillarId d), d')" "od_inv d'"
      "osm_id d' = (osm_id d)(k := PillarNodeToID (nextPillarId d))" "nextTowerId d' = nextTowerId d"
      "node_point d' (PillarNodeToID (nextPillarId d)) = (DegreeToInt lat, DegreeToInt lon)"
      "\<And>i. IsNodeID i \<Longrightarrow> stored_id d i \<Longrightarrow> node_point d' i = node_point d i" "nodesToBeSplit d' = nodesToBeSplit d"
      "nextPillarId d' = nextPillarId d + 1" "nodeTags d' = nodeTags d" "nodeTagIndices d' = nodeTagIndices d"
      using addPillarNode_spec [OF assms(1,3), of k lat lon ele] by auto
    have t: "osm_id d k \<notin> {EmptyNode, JunctionNode, ConnectionNode}" "osm_id d k = IntermediateNode \<or> osm_id d k = EndNode"
      using 3 by (auto simp: node_types)
    have "AddCoordinatesIfMapped k lat lon ele d = Some (osm_id d k, d')"
      using G d'(1) t by (auto simp: AddCoordinatesIfMapped_def)
    then show ?thesis using t(1) d'(2-5,7-10) d'(6) [OF _ I(8)] by (intro exI [of _ d']) simp
  qed
qed

lemma AddCoordinates_mapped:
  assumes "od_inv d" "nextTowerId d < 2 ^ 31 - 2" "nextPillarId d < 2 ^ 39 - 4" "osm_id d k = t" "t \<in> {EndNode, ConnectionNode}"
  obtains d' where "AddCoordinatesIfMapped k lat lon ele d = Some (t, d')" "od_inv d'" "\<And>k'. k' \<noteq> k \<Longrightarrow> osm_id d' k' = osm_id d k'"
    "\<And>k'. k' \<noteq> k \<Longrightarrow> IsNodeID (osm_id d k') \<Longrightarrow> node_point d' (osm_id d k') = node_point d (osm_id d k')"
    "node_point d' (osm_id d' k) = (DegreeToInt lat, DegreeToInt lon)"
    "osm_id d' k = (if t = ConnectionNode then TowerNodeToID (nextTowerId d) else PillarNodeToID (nextPillarId d))"
    "nextTowerId d' \<le> nextTowerId d + 1" "nextPillarId d' \<le> nextPillarId d + 1" "nodesToBeSplit d' = nodesToBeSplit d"
    "nodeTags d' = nodeTags d" "nodeTagIndices d' = nodeTagIndices d"
proof -
  have ty: "t \<noteq> EmptyNode" "t \<in> {JunctionNode, ConnectionNode} \<longleftrightarrow> t = ConnectionNode"
    "t \<in> {JunctionNode, EmptyNode, EndNode, IntermediateNode, ConnectionNode}" using assms(5) by (auto simp: node_types)
  from AddCoordinatesIfMapped_spec [OF assms(1-3), of k lat lon ele, unfolded assms(4), OF ty(3)] obtain d' where
    d': "AddCoordinatesIfMapped k lat lon ele d = Some (t, d')" "od_inv d'"
    "\<forall>k'. k' \<noteq> k \<longrightarrow> osm_id d' k' = osm_id d k' \<and> (IsNodeID (osm_id d k') \<longrightarrow> node_point d' (osm_id d k') = node_point d (osm_id d k'))"
    "if t = EmptyNode then d' = d
     else node_point d' (osm_id d' k) = (DegreeToInt lat, DegreeToInt lon) \<and>
       (if t \<in> {JunctionNode, ConnectionNode} then osm_id d' k = TowerNodeToID (nextTowerId d)
        else osm_id d' k = PillarNodeToID (nextPillarId d))"
    "nextTowerId d' \<le> nextTowerId d + 1" "nextPillarId d' \<le> nextPillarId d + 1" "nodesToBeSplit d' = nodesToBeSplit d"
    "nodeTags d' = nodeTags d" "nodeTagIndices d' = nodeTagIndices d"
    by (elim exE conjE) (rule that)
  show ?thesis by (rule that [OF d'(1,2) _ _ _ _ d'(5-9)]) (use d'(3,4) ty in \<open>simp_all split: if_splits\<close>)
qed

end
