(* ===== verification/WayFacts.thy ===== *)
theory WayFacts imports OsmFacts begin

text \<open>
  The segments of a way whose nodes are all known and not to be split: the pieces into which its junctions and loops
  cut it, each handed to the edge handler with the coordinates of its nodes.
\<close>

section \<open>How handling segments changes the node data\<close>

definition ready :: "osm_data \<Rightarrow> int \<Rightarrow> bool" where
  "ready d k \<longleftrightarrow> IsNodeID (osm_id d k) \<and> (IsPillarNode (osm_id d k) \<longrightarrow> live_point (node_point d (osm_id d k)))"

abbreviation osm_tower :: "osm_data \<Rightarrow> int \<Rightarrow> bool" where "osm_tower d k \<equiv> IsTowerNode (osm_id d k)"
abbreviation osm_point :: "osm_data \<Rightarrow> int \<Rightarrow> int_point" where "osm_point d k \<equiv> node_point d (osm_id d k)"

text \<open>Only nodes of \<open>K\<close> change their ids, from pillar to tower, and every coordinate is kept.\<close>

definition promotes :: "int set \<Rightarrow> osm_data \<Rightarrow> osm_data \<Rightarrow> bool" where
  "promotes K d d' \<longleftrightarrow> od_inv d' \<and> nodesToBeSplit d' = nodesToBeSplit d \<and>
     (\<forall>k. (k \<notin> K \<longrightarrow> osm_id d' k = osm_id d k) \<and> (osm_tower d k \<longrightarrow> osm_id d' k = osm_id d k) \<and>
       (IsNodeID (osm_id d k) \<longrightarrow> osm_point d' k = osm_point d k \<and> (osm_id d' k = osm_id d k \<or> osm_tower d' k)))"

lemma promotesD:
  assumes "promotes K d d'"
  shows "od_inv d'" "nodesToBeSplit d' = nodesToBeSplit d" "k \<notin> K \<Longrightarrow> osm_id d' k = osm_id d k" "osm_tower d k \<Longrightarrow> osm_id d' k = osm_id d k"
    "IsNodeID (osm_id d k) \<Longrightarrow> osm_point d' k = osm_point d k" "IsNodeID (osm_id d k) \<Longrightarrow> osm_id d' k = osm_id d k \<or> osm_tower d' k"
  using assms by (auto simp: promotes_def)

lemma promotes_refl: "od_inv d \<Longrightarrow> promotes {} d d" by (simp add: promotes_def)

lemma promotes_node: "promotes K d d' \<Longrightarrow> IsNodeID (osm_id d k) \<Longrightarrow> IsNodeID (osm_id d' k)"
  using promotesD(6) tower_pillar(2) by metis

lemma promotes_trans:
  assumes "promotes K d d1" "promotes L d1 d2" "K \<subseteq> M" "L \<subseteq> M"
  shows "promotes M d d2"
  unfolding promotes_def
proof (intro conjI allI impI)
  fix k
  show "osm_id d2 k = osm_id d k" if "k \<notin> M"
  proof -
    have "k \<notin> K" "k \<notin> L" using that assms(3,4) by auto
    then show ?thesis using promotesD(3) [OF assms(1)] promotesD(3) [OF assms(2)] by simp
  qed
  show "osm_id d2 k = osm_id d k" if "osm_tower d k" using promotesD(4) [OF assms(1), of k] promotesD(4) [OF assms(2), of k] that by simp
  assume n: "IsNodeID (osm_id d k)"
  note n1 = promotes_node [OF assms(1) n]
  show "osm_point d2 k = osm_point d k" using promotesD(5) [OF assms(1) n] promotesD(5) [OF assms(2) n1] by simp
  show "osm_id d2 k = osm_id d k \<or> osm_tower d2 k"
    using promotesD(6) [OF assms(1) n] promotesD(6) [OF assms(2) n1] promotesD(4) [OF assms(2), of k] by auto
qed (use promotesD(1,2) [OF assms(1)] promotesD(1,2) [OF assms(2)] in simp_all)

lemma promotes_ready: "promotes K d d' \<Longrightarrow> ready d k \<Longrightarrow> ready d' k"
  unfolding ready_def using promotes_node promotesD(5,6) tower_pillar by metis

section \<open>One segment\<close>

definition points_2d :: "(flt \<times> flt) list \<Rightarrow> point_list" where
  "points_2d ps = \<lparr>lats = map fst ps, lons = map snd ps, eles = [], pl_is3D = False, immutable = False\<rparr>"

definition record_segment :: "(int \<times> int \<times> point_list) list edge_handler" where
  "record_segment from' to' pl tags way w = Some (way, w @ [(from', to', pl)])"

definition recorded :: "osm_data \<Rightarrow> int list \<Rightarrow> int \<times> int \<times> point_list" where
  "recorded d ks = (IDToTowerNode (osm_id d (hd ks)), IDToTowerNode (osm_id d (last ks)), points_2d (map (\<lambda>k. degrees (osm_point d k)) ks))"

definition seg_nodes :: "osm_data \<Rightarrow> segment_node list \<Rightarrow> int list \<Rightarrow> bool" where
  "seg_nodes d ns ks \<longleftrightarrow> map sn_OSMNodeID ns = ks \<and> (\<forall>n \<in> set ns. sn_ID n = osm_id d (sn_OSMNodeID n))"

lemma add_point:
  assumes "od_inv d" "IsNodeID (osm_id d k)"
  shows "AddCoordinatesToPointList (osm_id d k) (points_2d ps) d = Some (points_2d (ps @ [degrees (osm_point d k)]))"
  using GetCoordinates_point [OF assms] by (simp add: AddCoordinatesToPointList_def pl_Add3D_def ensureMutable_def points_2d_def degrees_def math_IsNaN_def)

lemma bind_if: "Option.bind (if c then m else None) f = (if c then Option.bind m f else None)"
  by simp

lemma segment_loop_append:
  "segment_loop n i (xs @ ys) acc = Option.bind (segment_loop n i xs acc) (segment_loop n (i + length xs) ys)"
proof (induction xs arbitrary: i acc)
  case (Cons x xs)
  obtain d f t pl seg tags where "acc = (d, f, t, pl, seg, tags)" by (cases acc)
  then show ?case by (simp add: Cons.IH Let_def Option.bind_assoc split_def bind_if cong: if_cong)
qed simp

lemma interior_loop:
  assumes "od_inv d" "seg_nodes d ns ks" "\<forall>k \<in> set ks. IsPillarNode (osm_id d k)" "0 < i" "i + length ks < n"
  shows "\<exists>seg' tags'. segment_loop n i ns (d, f, t, points_2d ps, seg, tags) =
    Some (d, f, t, points_2d (ps @ map (\<lambda>k. degrees (osm_point d k)) ks), seg', tags')"
  using assms(2-)
proof (induction ns arbitrary: ks i ps seg tags)
  case (Cons x ns)
  obtain k ks' where ks: "ks = k # ks'" "sn_OSMNodeID x = k" "sn_ID x = osm_id d k" "seg_nodes d ns ks'"
    using Cons.prems(1) by (cases ks) (auto simp: seg_nodes_def)
  have p: "IsPillarNode (osm_id d k)" "IsNodeID (osm_id d k)" "\<not> osm_tower d k" using Cons.prems(2) ks tower_pillar by auto
  have "i \<noteq> n - 1" using Cons.prems(4) ks(1) by simp
  moreover obtain seg' tags' where "segment_loop n (Suc i) ns
      (d, f, t, points_2d (ps @ [degrees (osm_point d k)]), seg @ [x\<lparr>sn_ID := osm_id d k\<rparr>], tags @ [sn_Tags x]) =
    Some (d, f, t, points_2d ((ps @ [degrees (osm_point d k)]) @ map (\<lambda>k. degrees (osm_point d k)) ks'), seg', tags')"
    using Cons.IH [OF ks(4), of "Suc i" "ps @ [degrees (osm_point d k)]" "seg @ [x\<lparr>sn_ID := osm_id d k\<rparr>]" "tags @ [sn_Tags x]"] Cons.prems(2-4) ks(1)
    by (auto simp del: segment_loop.simps)
  ultimately show ?case using Cons.prems(3) ks p add_point [OF assms(1) p(2)] by simp
qed (simp add: seg_nodes_def)

lemma end_step:
  assumes "IsNodeID (sn_ID x)" "i = 0 \<or> i = n - 1"
    "(if IsPillarNode (sn_ID x) then ConvertPillarToTowerNode (sn_ID x) (sn_OSMNodeID x) d else Some (sn_ID x, d)) = Some (nid, d')"
    "AddCoordinatesToPointList nid pl d' = Some pl'"
  shows "segment_loop n i (x # rest) (d, f, t, pl, seg, tags) =
    segment_loop n (Suc i) rest (d', if i = 0 then IDToTowerNode nid else f, if i = 0 then t else IDToTowerNode nid, pl',
      seg @ [x\<lparr>sn_ID := nid\<rparr>], tags @ [sn_Tags x])"
proof -
  have "(if IsPillarNode (sn_ID x) \<and> (i = 0 \<or> i = n - 1) then ConvertPillarToTowerNode (sn_ID x) (sn_OSMNodeID x) d
    else Some (sn_ID x, d)) = Some (nid, d')" using assms(2,3) by simp
  then show ?thesis using assms(1,2,4) unfolding segment_loop.simps by auto
qed

text \<open>Making sure that an end is a tower node.\<close>

lemma place_end:
  assumes "od_inv d" "ready d k" "nextTowerId d < 2 ^ 31 - 2"
  shows "\<exists>d'. (if IsPillarNode (osm_id d k) then ConvertPillarToTowerNode (osm_id d k) k d else Some (osm_id d k, d)) =
    Some (osm_id d' k, d') \<and> promotes {k} d d' \<and> osm_tower d' k \<and> nextTowerId d' \<le> nextTowerId d + 1"
proof (cases "IsPillarNode (osm_id d k)")
  case True
  let ?T = "TowerNodeToID (nextTowerId d)"
  obtain d' where d': "ConvertPillarToTowerNode (osm_id d k) k d = Some (?T, d')" "od_inv d'" "osm_id d' = (osm_id d)(k := ?T)"
    "nextTowerId d' = nextTowerId d + 1" "node_point d' ?T = osm_point d k"
    "\<And>k'. k' \<noteq> k \<Longrightarrow> IsNodeID (osm_id d k') \<Longrightarrow> node_point d' (osm_id d k') = osm_point d k'" "nodesToBeSplit d' = nodesToBeSplit d"
    using ConvertPillarToTowerNode_spec [OF assms(1) True _ assms(3)] assms(2) True by (auto simp: ready_def)
  have T: "IsTowerNode ?T" using od_invD(4) [OF assms(1)] by (simp add: node_ids node_types)
  have "\<not> osm_tower d k" using True tower_pillar(1) by blast
  then have "promotes {k} d d'" using d' T by (auto simp: promotes_def)
  then show ?thesis using d' T True by (intro exI [of _ d']) simp
next
  case False
  then have "osm_tower d k" using assms(2) tower_pillar(2) by (auto simp: ready_def)
  moreover have "promotes {k} d d" using assms(1) by (simp add: promotes_def)
  ultimately show ?thesis using False by auto
qed

lemma handleSegment_spec:
  assumes "od_inv (p2_data h)" "seg_nodes (p2_data h) ns ks" "ks = a # ms @ [b]" "a \<noteq> b" "\<forall>k \<in> set ms. IsPillarNode (osm_id (p2_data h) k) \<and> k \<noteq> a \<and> k \<noteq> b"
    "ready (p2_data h) a" "ready (p2_data h) b" "nextTowerId (p2_data h) < 2 ^ 31 - 3"
  shows "\<exists>seg d. handleSegment record_segment ns way h = Some (seg, way, h\<lparr>p2_data := d, p2_world := p2_world h @ [recorded d ks]\<rparr>) \<and>
    promotes {a, b} (p2_data h) d \<and> osm_tower d a \<and> osm_tower d b \<and> nextTowerId d \<le> nextTowerId (p2_data h) + 2"
proof -
  let ?d = "p2_data h" and ?n = "length ns"
  obtain x ys z where ns: "ns = x # ys @ [z]" "sn_OSMNodeID x = a" "seg_nodes ?d ys ms" "sn_OSMNodeID z = b"
    "sn_ID x = osm_id ?d a" "sn_ID z = osm_id ?d b"
  proof -
    have m: "map sn_OSMNodeID ns = a # ms @ [b]" "\<forall>n \<in> set ns. sn_ID n = osm_id ?d (sn_OSMNodeID n)"
      using assms(2,3) by (simp_all add: seg_nodes_def)
    then obtain x ns' where 1: "ns = x # ns'" "map sn_OSMNodeID ns' = ms @ [b]" "sn_OSMNodeID x = a" by auto
    then obtain ys zs where 2: "ns' = ys @ zs" "map sn_OSMNodeID ys = ms" "map sn_OSMNodeID zs = [b]" by (auto simp: map_eq_append_conv)
    then obtain z where "zs = [z]" "sn_OSMNodeID z = b" by auto
    then show ?thesis using that [of x ys z] m(2) 1 2 by (auto simp: seg_nodes_def)
  qed
  obtain d1 where d1: "(if IsPillarNode (osm_id ?d a) then ConvertPillarToTowerNode (osm_id ?d a) a ?d else Some (osm_id ?d a, ?d)) =
      Some (osm_id d1 a, d1)" "promotes {a} ?d d1" "osm_tower d1 a" "nextTowerId d1 \<le> nextTowerId ?d + 1"
    using place_end [OF assms(1,6)] assms(8) by auto
  note P1 = promotesD [OF d1(2)]
  have r1: "ready d1 b" by (rule promotes_ready [OF d1(2) assms(7)])
  obtain d2 where d2: "(if IsPillarNode (osm_id d1 b) then ConvertPillarToTowerNode (osm_id d1 b) b d1 else Some (osm_id d1 b, d1)) =
      Some (osm_id d2 b, d2)" "promotes {b} d1 d2" "osm_tower d2 b" "nextTowerId d2 \<le> nextTowerId d1 + 1"
    using place_end [OF P1(1) r1] d1(4) assms(8) by auto
  note P2 = promotesD [OF d2(2)]
  have flat: "\<not> od_Is3D ?d" using od_invD(2) [OF assms(1)] by (simp add: od_Is3D_def tower_ok_def)
  then have pl0: "NewPointList (od_Is3D ?d) = points_2d []" by (simp add: NewPointList_def points_2d_def)
  have node: "IsNodeID (osm_id ?d a)" "IsNodeID (osm_id ?d b)" "IsNodeID (osm_id d1 a)" "IsNodeID (osm_id d1 b)" "IsNodeID (osm_id d2 b)"
    using assms(6,7) r1 d1(3) d2(3) tower_pillar(2) by (auto simp: ready_def)
  have b1: "osm_id ?d b = osm_id d1 b" using P1(3) [of b] assms(4) by simp
  have ms1: "seg_nodes d1 ys ms" "\<forall>k \<in> set ms. IsPillarNode (osm_id d1 k)"
    using ns(3) assms(5) P1(3) by (auto simp: seg_nodes_def)
  have len: "length ys = length ms" using ns(3) by (auto simp: seg_nodes_def)
  let ?F = "IDToTowerNode (osm_id d1 a)" and ?pt = "\<lambda>d k. degrees (osm_point d k)"
  obtain seg tags where mid: "segment_loop ?n (Suc 0) ys (d1, ?F, - 1, points_2d [?pt d1 a], [x\<lparr>sn_ID := osm_id d1 a\<rparr>], [sn_Tags x]) =
      Some (d1, ?F, - 1, points_2d ([?pt d1 a] @ map (?pt d1) ms), seg, tags)"
    using interior_loop [OF P1(1) ms1, of "Suc 0" ?n] ns(1) len by fastforce
  have placed1: "(if IsPillarNode (sn_ID x) then ConvertPillarToTowerNode (sn_ID x) (sn_OSMNodeID x) ?d else Some (sn_ID x, ?d)) =
    Some (osm_id d1 a, d1)" using d1(1) by (simp only: ns(2,5))
  have placed2: "(if IsPillarNode (sn_ID z) then ConvertPillarToTowerNode (sn_ID z) (sn_OSMNodeID z) d1 else Some (sn_ID z, d1)) =
    Some (osm_id d2 b, d2)" using d2(1) by (simp only: ns(4,6) b1)
  have first: "segment_loop ?n 0 (x # ys @ [z]) (?d, - 1, - 1, points_2d [], [], []) =
      segment_loop ?n (Suc 0) (ys @ [z]) (d1, ?F, - 1, points_2d [?pt d1 a], [x\<lparr>sn_ID := osm_id d1 a\<rparr>], [sn_Tags x])"
    using end_step [of x 0 ?n, OF _ _ placed1] ns(5) node add_point [OF P1(1) node(3), of "[]"]
    by (simp del: segment_loop.simps)
  have last: "segment_loop ?n (Suc (length ys)) [z] (d1, ?F, - 1, points_2d ([?pt d1 a] @ map (?pt d1) ms), seg, tags) =
      Some (d2, ?F, IDToTowerNode (osm_id d2 b), points_2d (([?pt d1 a] @ map (?pt d1) ms) @ [?pt d2 b]),
        seg @ [z\<lparr>sn_ID := osm_id d2 b\<rparr>], tags @ [sn_Tags z])"
    using end_step [of z "Suc (length ys)" ?n, OF _ _ placed2, of _ _ "[]"] ns(1,6) b1 node add_point [OF P2(1) node(5)]
    by (simp del: segment_loop.simps(2))
  have T: "0 \<le> ?F" "0 \<le> IDToTowerNode (osm_id d2 b)" using d1(3) d2(3) by (simp_all add: node_ids node_types)
  have pts: "([?pt d1 a] @ map (?pt d1) ms) @ [?pt d2 b] = map (?pt d2) ks"
  proof -
    have "IsNodeID (osm_id d1 k)" if "k \<in> set (a # ms)" for k using that ms1(2) node(3) tower_pillar(2) by auto
    then have "osm_point d2 k = osm_point d1 k" if "k \<in> set (a # ms)" for k using that P2(5) by simp
    then show ?thesis using assms(3) by simp
  qed
  have F: "osm_id d2 a = osm_id d1 a" using P2(4) d1(3) by simp
  have ends: "hd ks = a" "last ks = b" using assms(3) by simp_all
  have "handleSegment record_segment ns way h =
      Some (seg @ [z\<lparr>sn_ID := osm_id d2 b\<rparr>], way, h\<lparr>p2_data := d2, p2_world := p2_world h @ [recorded d2 ks]\<rparr>)"
    unfolding handleSegment_def pl0 ns(1)
    using first mid last T pts F ends
    by (simp add: segment_loop_append ns(1) [symmetric] record_segment_def recorded_def del: segment_loop.simps)
  moreover have "promotes {a, b} ?d d2" by (rule promotes_trans [OF d1(2) d2(2)]) simp_all
  ultimately show ?thesis using d1(3,4) d2(3,4) F by (intro exI [of _ d2] exI conjI) auto
qed

section \<open>The pieces of a way\<close>

definition steps :: "'a list \<Rightarrow> ('a \<times> 'a) list" where "steps xs = zip xs (tl xs)"

text \<open>The runs between junctions, and what becomes of a run that is a loop.\<close>

fun runs :: "(int \<Rightarrow> bool) \<Rightarrow> int list \<Rightarrow> int list \<Rightarrow> int list list" where
  "runs T sk [] = (if length sk > 1 then [sk] else [])"
| "runs T sk (k # ks) = (if T k \<and> sk \<noteq> [] then (sk @ [k]) # runs T [k] ks else runs T (sk @ [k]) ks)"

definition loop_pieces :: "int list \<Rightarrow> int list list" where
  "loop_pieces r = (if hd r \<noteq> last r then [r] else if length r = 2 then [] else [butlast r, drop (length r - 2) r])"

definition way_pieces :: "(int \<Rightarrow> bool) \<Rightarrow> int list \<Rightarrow> int list \<Rightarrow> int list list" where
  "way_pieces T sk ks = concat (map loop_pieces (runs T sk ks))"

lemma way_pieces_simps [simp]:
  "way_pieces T sk [] = (if length sk > 1 then loop_pieces sk else [])"
  "way_pieces T sk (k # ks) = (if T k \<and> sk \<noteq> [] then loop_pieces (sk @ [k]) @ way_pieces T [k] ks else way_pieces T (sk @ [k]) ks)"
  by (simp_all add: way_pieces_def)

lemma way_pieces_cong: "(\<And>k. k \<in> set ks \<Longrightarrow> T k = T' k) \<Longrightarrow> way_pieces T sk ks = way_pieces T' sk ks"
proof (induction ks arbitrary: sk)
  case (Cons k ks)
  have "way_pieces T r ks = way_pieces T' r ks" for r using Cons.prems by (intro Cons.IH) simp
  then show ?case using Cons.prems [of k] by simp
qed simp

lemma steps_simps [simp]: "steps [] = []" "steps [a] = []" "steps (a # b # xs) = (a, b) # steps (b # xs)"
  by (simp_all add: steps_def)

lemma steps_join: "steps (xs @ [k]) @ steps (k # ys) = steps (xs @ k # ys)"
proof (induction xs)
  case (Cons x xs)
  then show ?case by (cases xs) simp_all
qed simp

text \<open>A run: its interior are pillars that occur once, and it is a loop only at a tower.\<close>

definition good_run :: "osm_data \<Rightarrow> int list \<Rightarrow> bool" where
  "good_run d r \<longleftrightarrow> (\<exists>a ms b. r = a # ms @ [b] \<and> distinct ms \<and> a \<notin> set ms \<and> b \<notin> set ms \<and> (a = b \<longrightarrow> osm_tower d a) \<and>
     (\<forall>k \<in> set ms. IsPillarNode (osm_id d k)) \<and> (\<forall>k \<in> set r. ready d k))"

definition good_piece :: "osm_data \<Rightarrow> int list \<Rightarrow> bool" where
  "good_piece d p \<longleftrightarrow> (\<exists>a ms b. p = a # ms @ [b] \<and> a \<noteq> b \<and> (\<forall>k \<in> set ms. IsPillarNode (osm_id d k) \<and> k \<noteq> a \<and> k \<noteq> b) \<and>
     (\<forall>k \<in> set p. ready d k))"

lemma run_loop:
  assumes "good_run d r" "hd r = last r" "length r \<noteq> 2"
  obtains a ms m where "r = a # ms @ [m, a]" "good_piece d (butlast r)" "good_piece d [m, a]" "drop (length r - 2) r = [m, a]"
    "r ! (length r - 2) = m" "a \<notin> set ms" "m \<notin> set ms" "m \<noteq> a"
proof -
  obtain a ms b where r: "r = a # ms @ [b]" "distinct ms" "a \<notin> set ms" "b \<notin> set ms"
    "\<forall>k \<in> set ms. IsPillarNode (osm_id d k)" "\<forall>k \<in> set r. ready d k"
    using assms(1) unfolding good_run_def by metis
  have b: "b = a" using r(1) assms(2) by simp
  obtain ms' m where ms: "ms = ms' @ [m]" using r(1) assms(3) by (cases ms rule: rev_cases) auto
  show ?thesis
  proof (rule that)
    show "r = a # ms' @ [m, a]" using r(1) ms b by simp
    have "\<exists>x zs y. butlast r = x # zs @ [y] \<and> x \<noteq> y \<and> (\<forall>k \<in> set zs. IsPillarNode (osm_id d k) \<and> k \<noteq> x \<and> k \<noteq> y)"
      using r b ms by (intro exI [of _ a] exI [of _ ms'] exI [of _ m]) (auto simp: butlast_append)
    then show "good_piece d (butlast r)" unfolding good_piece_def using r(6) in_set_butlastD [of _ r] by blast
    have "\<forall>k \<in> set [m, a]. ready d k" using r(1,6) ms b by simp
    then show "good_piece d [m, a]" using r b ms unfolding good_piece_def by (intro exI [of _ m] exI [of _ "[]"] exI [of _ a]) auto
  qed (use r ms b in auto)
qed

lemma good_run_pieces:
  assumes "good_run d r"
  shows "\<forall>p \<in> set (loop_pieces r). good_piece d p" "concat (map steps (loop_pieces r)) = filter (\<lambda>(a, b). a \<noteq> b) (steps r)"
    "\<forall>p \<in> set (loop_pieces r). set p \<subseteq> set r"
proof -
  obtain a ms b where r: "r = a # ms @ [b]" "distinct ms" "a \<notin> set ms" "b \<notin> set ms"
    "\<forall>k \<in> set ms. IsPillarNode (osm_id d k)" "\<forall>k \<in> set r. ready d k"
    using assms unfolding good_run_def by metis
  have ne: "x \<noteq> y" if xy: "(x, y) \<in> set (steps r)" and "ms \<noteq> [] \<or> a \<noteq> b" for x y
  proof -
    obtain i where "i < length r - 1" "x = r ! i" "y = r ! Suc i" using xy by (auto simp: steps_def set_zip nth_tl)
    then have i: "Suc i < length r" "x = r ! i" "y = r ! Suc i" by simp_all
    show ?thesis
    proof (cases "Suc i < length r - 1")
      case True
      have "distinct (a # ms)" using r(2,3) by simp
      moreover have "Suc i < length (a # ms)" using True r(1) by simp
      then have "((a # ms) @ [b]) ! i = (a # ms) ! i" "((a # ms) @ [b]) ! Suc i = (a # ms) ! Suc i"
        unfolding nth_append by simp_all
      then have "r ! i = (a # ms) ! i" "r ! Suc i = (a # ms) ! Suc i" using r(1) by simp_all
      ultimately show ?thesis using i True r(1) nth_eq_iff_index_eq [of "a # ms" i "Suc i"] by auto
    next
      case False
      then have e: "i = length ms" using i(1) r(1) by simp
      then have "y = b" using i(3) r(1) by (simp add: nth_append)
      moreover have "x = a \<and> ms = [] \<or> x \<in> set ms" using i(2) e r(1) by (cases ms rule: rev_cases) (auto simp: nth_append nth_Cons')
      ultimately show ?thesis using r(4) that(2) by auto
    qed
  qed
  have all: "filter (\<lambda>(a, b). a \<noteq> b) (steps r) = steps r" if "ms \<noteq> [] \<or> a \<noteq> b"
    using ne [OF _ that] by (auto simp: filter_id_conv)
  have "(\<forall>p \<in> set (loop_pieces r). good_piece d p) \<and> concat (map steps (loop_pieces r)) = filter (\<lambda>(a, b). a \<noteq> b) (steps r) \<and>
    (\<forall>p \<in> set (loop_pieces r). set p \<subseteq> set r)"
  proof (cases "a = b")
    case False
    have "good_piece d r" using r False unfolding good_piece_def by metis
    moreover have "loop_pieces r = [r]" using r(1) False by (simp add: loop_pieces_def)
    ultimately show ?thesis using all False by simp
  next
    case True
    then have hl: "hd r = last r" using r(1) by simp
    show ?thesis
    proof (cases "length r = 2")
      case True
      then have "r = [a, a]" using r(1) \<open>a = b\<close> by simp
      then show ?thesis using True by (simp add: loop_pieces_def)
    next
      case F: False
      obtain a' ms' m where d: "r = a' # ms' @ [m, a']" "good_piece d (butlast r)" "good_piece d [m, a']"
        "drop (length r - 2) r = [m, a']"
        using run_loop [OF assms hl F] by metis
      have "loop_pieces r = [butlast r, [m, a']]" using hl F d(4) by (simp add: loop_pieces_def)
      moreover have "steps (butlast r) @ steps [m, a'] = steps r"
        using steps_join [of "a' # ms'" m "[a']"] d(1) by (simp add: butlast_append)
      moreover have "ms \<noteq> []" using r(1) F by auto
      ultimately show ?thesis using d all by (auto dest: in_set_butlastD)
    qed
  qed
  then show "\<forall>p \<in> set (loop_pieces r). good_piece d p" "concat (map steps (loop_pieces r)) = filter (\<lambda>(a, b). a \<noteq> b) (steps r)"
    "\<forall>p \<in> set (loop_pieces r). set p \<subseteq> set r" by simp_all
qed

section \<open>Splitting a way\<close>

type_synonym recording = "(int \<times> int \<times> point_list) list pass2"

definition handled :: "int set \<Rightarrow> recording \<Rightarrow> int list list \<Rightarrow> recording \<Rightarrow> bool" where
  "handled K h ps h' \<longleftrightarrow> (\<exists>d. h' = h\<lparr>p2_data := d, p2_world := p2_world h @ map (recorded d) ps\<rparr> \<and> promotes K (p2_data h) d \<and>
     (\<forall>p \<in> set ps. osm_tower d (hd p) \<and> osm_tower d (last p)) \<and> nextTowerId d \<le> nextTowerId (p2_data h) + 2 * int (length ps))"

lemma handledD:
  assumes "handled K h ps h'"
  shows "promotes K (p2_data h) (p2_data h')" "p2_world h' = p2_world h @ map (recorded (p2_data h')) ps"
    "h' = h\<lparr>p2_data := p2_data h', p2_world := p2_world h'\<rparr>" "\<forall>p \<in> set ps. osm_tower (p2_data h') (hd p) \<and> osm_tower (p2_data h') (last p)"
    "nextTowerId (p2_data h') \<le> nextTowerId (p2_data h) + 2 * int (length ps)"
proof -
  obtain d where "h' = h\<lparr>p2_data := d, p2_world := p2_world h @ map (recorded d) ps\<rparr>" "promotes K (p2_data h) d"
    "\<forall>p \<in> set ps. osm_tower d (hd p) \<and> osm_tower d (last p)" "nextTowerId d \<le> nextTowerId (p2_data h) + 2 * int (length ps)"
    using assms unfolding handled_def by blast
  then show "promotes K (p2_data h) (p2_data h')" "p2_world h' = p2_world h @ map (recorded (p2_data h')) ps"
    "h' = h\<lparr>p2_data := p2_data h', p2_world := p2_world h'\<rparr>" "\<forall>p \<in> set ps. osm_tower (p2_data h') (hd p) \<and> osm_tower (p2_data h') (last p)"
    "nextTowerId (p2_data h') \<le> nextTowerId (p2_data h) + 2 * int (length ps)" by simp_all
qed

lemma handled_none: "od_inv (p2_data h) \<Longrightarrow> handled {} h [] h"
  unfolding handled_def by (intro exI [of _ "p2_data h"]) (simp add: promotes_refl)

lemma recorded_promotes:
  assumes "promotes K d d'" "\<forall>k \<in> set p. IsNodeID (osm_id d k)" "p \<noteq> []" "osm_tower d (hd p)" "osm_tower d (last p)"
  shows "recorded d' p = recorded d p"
proof -
  have "map (\<lambda>k. degrees (osm_point d' k)) p = map (\<lambda>k. degrees (osm_point d k)) p"
    using assms(2) promotesD(5) [OF assms(1)] by (intro map_cong) simp_all
  then show ?thesis using assms(3-5) promotesD(4) [OF assms(1)] by (simp only: recorded_def)
qed

lemma handled_trans:
  assumes "handled K h ps h1" "handled L h1 qs h2" "K \<subseteq> M" "L \<subseteq> M" "\<forall>p \<in> set ps. p \<noteq> [] \<and> (\<forall>k \<in> set p. IsNodeID (osm_id (p2_data h) k))"
  shows "handled M h (ps @ qs) h2"
proof -
  note A = handledD [OF assms(1)] and B = handledD [OF assms(2)]
  have same: "recorded (p2_data h2) p = recorded (p2_data h1) p" if p: "p \<in> set ps" for p
  proof (rule recorded_promotes [OF B(1)])
    show "\<forall>k \<in> set p. IsNodeID (osm_id (p2_data h1) k)" using assms(5) p promotes_node [OF A(1)] by blast
  qed (use assms(5) A(4) p in auto)
  have tw: "osm_tower (p2_data h2) (hd p) \<and> osm_tower (p2_data h2) (last p)" if "p \<in> set ps" for p
    using A(4) that promotesD(4) [OF B(1)] by simp
  have m: "map (recorded (p2_data h2)) ps = map (recorded (p2_data h1)) ps" using same by (intro map_cong) simp_all
  then have w: "p2_world h2 = p2_world h @ map (recorded (p2_data h2)) (ps @ qs)" using A(2) B(2) by simp
  have "h2 = h1\<lparr>p2_data := p2_data h2, p2_world := p2_world h2\<rparr>" by (rule B(3))
  also have "h1 = h\<lparr>p2_data := p2_data h1, p2_world := p2_world h1\<rparr>" by (rule A(3))
  finally have e: "h2 = h\<lparr>p2_data := p2_data h2, p2_world := p2_world h @ map (recorded (p2_data h2)) (ps @ qs)\<rparr>" using w by simp
  have "promotes M (p2_data h) (p2_data h2)" by (rule promotes_trans [OF A(1) B(1) assms(3,4)])
  then show ?thesis unfolding handled_def using e tw A(5) B(4,5) by (intro exI [of _ "p2_data h2"] conjI) auto
qed

lemma handled_mono: "handled K h ps h' \<Longrightarrow> K \<subseteq> M \<Longrightarrow> handled M h ps h'"
  by (auto simp: handled_def promotes_def)

lemma barrier_none:
  "\<forall>n \<in> set ns. sn_OSMNodeID n \<notin> nodesToBeSplit (p2_data h) \<Longrightarrow> barrier_loop H n i ns seg way h = Some (seg @ ns, way, h)"
  by (induction ns arbitrary: i seg) (simp_all add: IsSplitNode_def)

lemma split_piece:
  assumes "od_inv (p2_data h)" "seg_nodes (p2_data h) ns p" "good_piece (p2_data h) p" "\<forall>k \<in> set p. k \<notin> nodesToBeSplit (p2_data h)"
    "nextTowerId (p2_data h) < 2 ^ 31 - 3"
  shows "\<exists>h'. splitSegmentAtSplitNodes record_segment ns way h = Some (way, h') \<and> handled (set p) h [p] h'"
proof -
  obtain a ms b where p: "p = a # ms @ [b]" "a \<noteq> b" "\<forall>k \<in> set ms. IsPillarNode (osm_id (p2_data h) k) \<and> k \<noteq> a \<and> k \<noteq> b"
    "ready (p2_data h) a" "ready (p2_data h) b"
    using assms(3) unfolding good_piece_def by (auto 0 3)
  obtain seg d where d: "handleSegment record_segment ns way h = Some (seg, way, h\<lparr>p2_data := d, p2_world := p2_world h @ [recorded d p]\<rparr>)"
    "promotes {a, b} (p2_data h) d" "osm_tower d a" "osm_tower d b" "nextTowerId d \<le> nextTowerId (p2_data h) + 2"
    using handleSegment_spec [OF assms(1,2) p assms(5)] by blast
  have n: "\<forall>n \<in> set ns. sn_OSMNodeID n \<notin> nodesToBeSplit (p2_data h)" using assms(2,4) by (auto simp: seg_nodes_def)
  have "length ns = length p" using assms(2) by (auto simp: seg_nodes_def)
  then have "splitSegmentAtSplitNodes record_segment ns way h = Some (way, h\<lparr>p2_data := d, p2_world := p2_world h @ [recorded d p]\<rparr>)"
    using barrier_none [OF n] d(1) p(1) by (simp add: splitSegmentAtSplitNodes_def)
  moreover have "handled {a, b} h [p] (h\<lparr>p2_data := d, p2_world := p2_world h @ [recorded d p]\<rparr>)"
    using d(2-5) p(1) unfolding handled_def by (intro exI [of _ d]) simp
  ultimately show ?thesis using handled_mono [of "{a, b}" h "[p]" _ "set p"] p(1) by auto
qed

lemma split_run:
  assumes "od_inv (p2_data h)" "seg_nodes (p2_data h) ns r" "good_run (p2_data h) r" "\<forall>k \<in> set r. k \<notin> nodesToBeSplit (p2_data h)"
    "nextTowerId (p2_data h) < 2 ^ 31 - 5"
  shows "\<exists>h'. splitLoopSegments record_segment ns way h = Some (way, h') \<and> handled (set r) h (loop_pieces r) h'"
proof -
  have len: "length ns = length r" and ids: "\<And>i. i < length r \<Longrightarrow> sn_OSMNodeID (ns ! i) = r ! i"
    using assms(2) by (auto simp: seg_nodes_def)
  have cur: "\<And>n. n \<in> set ns \<Longrightarrow> sn_ID n = osm_id (p2_data h) (sn_OSMNodeID n)" using assms(2) by (simp add: seg_nodes_def)
  have r2: "2 \<le> length r" using assms(3) by (auto simp: good_run_def)
  then have "ns \<noteq> []" "r = map sn_OSMNodeID ns" using assms(2) len by (auto simp: seg_nodes_def)
  then have ends: "sn_OSMNodeID (hd ns) = hd r" "sn_OSMNodeID (last ns) = last r" by (simp_all add: hd_map last_map)
  consider "hd r \<noteq> last r" | "hd r = last r" "length r = 2" | "hd r = last r" "length r \<noteq> 2" by blast
  then show ?thesis
  proof cases
    case 1
    have "good_piece (p2_data h) r" using good_run_pieces(1) [OF assms(3)] 1 by (simp add: loop_pieces_def)
    from split_piece [OF assms(1,2) this assms(4)] show ?thesis using 1 ends len r2 assms(5) by (simp add: splitLoopSegments_def loop_pieces_def)
  next
    case 2
    then show ?thesis using ends len handled_mono [OF handled_none [OF assms(1)], of "set r"]
      by (intro exI [of _ h]) (simp add: splitLoopSegments_def loop_pieces_def)
  next
    case 3
    let ?d = "p2_data h"
    obtain a ms m where r: "r = a # ms @ [m, a]" "good_piece ?d (butlast r)" "good_piece ?d [m, a]" "drop (length r - 2) r = [m, a]"
      "r ! (length r - 2) = m" "a \<notin> set ms" "m \<notin> set ms" "m \<noteq> a"
      using run_loop [OF assms(3) 3] .
    have bl: "seg_nodes ?d (butlast ns) (butlast r)"
      using assms(2) unfolding seg_nodes_def by (auto simp: map_butlast dest: in_set_butlastD)
    have nb: "\<forall>k \<in> set (butlast r). k \<notin> nodesToBeSplit ?d" using assms(4) in_set_butlastD [of _ r] by blast
    obtain h1 where h1: "splitSegmentAtSplitNodes record_segment (butlast ns) way h = Some (way, h1)" "handled (set (butlast r)) h [butlast r] h1"
      using split_piece [OF assms(1) bl r(2) nb] assms(5) by auto
    note H = handledD [OF h1(2)]
    note P = promotesD [OF H(1)]
    let ?mid = "length ns - 2"
    let ?x = "(ns ! ?mid)\<lparr>sn_ID := osm_id (p2_data h1) m\<rparr>"
    have mid: "?mid < length ns" "sn_OSMNodeID (ns ! ?mid) = m" using r(5) ids len r2 by simp_all
    have tail: "drop ?mid (ns[?mid := ?x]) = [?x, last ns]"
    proof -
      have "ns \<noteq> []" "Suc ?mid = length ns - 1" using len r2 by auto
      then have "drop (Suc ?mid) ns = [last ns]" by (cases ns rule: rev_cases) simp_all
      moreover have "drop ?mid (ns[?mid := ?x]) = ?x # drop (Suc ?mid) ns" using mid(1) by (simp add: Cons_nth_drop_Suc [symmetric] drop_update_cancel)
      ultimately show ?thesis by simp
    qed
    have ta: "osm_tower ?d a" using assms(3) r(1) by (auto simp: good_run_def)
    have "seg_nodes (p2_data h1) [?x, last ns] [m, a]"
    proof -
      have "last ns \<in> set ns" using len r2 by (intro last_in_set) auto
      then show ?thesis using cur ends(2) mid(2) r(1) P(4) [OF ta] by (simp add: seg_nodes_def)
    qed
    moreover have "good_piece (p2_data h1) [m, a]" using r(3,8) promotes_ready [OF H(1)] unfolding good_piece_def
      by (intro exI [of _ m] exI [of _ "[]"] exI [of _ a]) auto
    moreover have "\<forall>k \<in> set [m, a]. k \<notin> nodesToBeSplit (p2_data h1)" using assms(4) r(1) P(2) by simp
    moreover have "nextTowerId (p2_data h1) < 2 ^ 31 - 3" using H(5) assms(5) by simp
    ultimately obtain h2 where h2: "splitSegmentAtSplitNodes record_segment [?x, last ns] way h1 = Some (way, h2)" "handled (set [m, a]) h1 [[m, a]] h2"
      using split_piece [OF P(1)] by blast
    have "splitLoopSegments record_segment ns way h = Some (way, h2)"
      using 3 ends len r2 h1(1) h2(1) tail mid(2) od_GetID [OF P(1), of m] by (simp add: splitLoopSegments_def Let_def)
    moreover have "handled (set r) h ([butlast r] @ [[m, a]]) h2"
    proof (rule handled_trans [OF h1(2) h2(2)])
      show "set (butlast r) \<subseteq> set r" "set [m, a] \<subseteq> set r" using r(1) by (auto dest: in_set_butlastD)
      show "\<forall>p \<in> set [butlast r]. p \<noteq> [] \<and> (\<forall>k \<in> set p. IsNodeID (osm_id ?d k))"
        using r(1,2) by (auto simp: good_piece_def ready_def)
    qed
    moreover have "loop_pieces r = [butlast r] @ [[m, a]]" using 3 r(4) by (simp add: loop_pieces_def)
    ultimately show ?thesis by auto
  qed
qed

text \<open>Ways whose nodes are known, not to be split, and shared only at towers.\<close>

definition way_ok :: "osm_data \<Rightarrow> int list \<Rightarrow> bool" where
  "way_ok d ks \<longleftrightarrow> (\<forall>k \<in> set ks. ready d k \<and> k \<notin> nodesToBeSplit d \<and> (IsPillarNode (osm_id d k) \<longrightarrow> count_list ks k = 1))"

lemma count_distinct: "\<forall>k \<in> set xs. count_list xs k \<le> 1 \<Longrightarrow> distinct xs"
proof (induction xs)
  case (Cons x xs)
  have "count_list xs x = 0" using Cons.prems by simp
  moreover have "count_list xs k \<le> 1" if "k \<in> set xs" for k using bspec [OF Cons.prems, of k] that by (simp split: if_splits)
  ultimately show ?case using Cons.IH by (simp add: count_list_0_iff)
qed simp

lemma way_ok_run:
  assumes "way_ok d ks" "ks = r @ rk" "r = a # ms @ [b]" "\<forall>k \<in> set ms. IsPillarNode (osm_id d k)"
  shows "good_run d r"
proof -
  have one: "count_list r k = 1" if "k \<in> set r" "IsPillarNode (osm_id d k)" for k
  proof -
    have "count_list r k \<le> 1" using assms(1,2) that by (auto simp: way_ok_def)
    moreover have "count_list r k \<noteq> 0" using that(1) by (simp add: count_list_0_iff)
    ultimately show ?thesis by simp
  qed
  have ms: "count_list (a # ms @ [b]) k = 1" if "k \<in> set ms" for k using one [of k] that assms(3,4) by simp
  have pos: "1 \<le> count_list ms k" if "k \<in> set ms" for k using that count_list_0_iff [of ms k] by (cases "count_list ms k") auto
  have dist: "count_list ms k \<le> 1 \<and> k \<noteq> a \<and> k \<noteq> b" if "k \<in> set ms" for k using ms [OF that] pos [OF that] by (auto split: if_splits)
  have rd: "\<forall>k \<in> set r. ready d k" using assms(1,2) by (simp add: way_ok_def)
  have "osm_tower d a" if "a = b"
  proof (rule ccontr)
    assume n: "\<not> osm_tower d a"
    have "ready d a" using rd assms(3) by simp
    then have "IsPillarNode (osm_id d a)" using n tower_pillar(2) by (auto simp: ready_def)
    then show False using one [of a] that assms(3) by simp
  qed
  moreover have "distinct ms" using dist by (intro count_distinct) blast
  ultimately show ?thesis unfolding good_run_def using dist rd assms(3,4) by blast
qed

lemma way_ok_tail:
  assumes "way_ok d (sk @ rk)"
  shows "way_ok d rk"
  unfolding way_ok_def
proof (intro ballI)
  fix k assume k: "k \<in> set rk"
  then have "count_list rk k \<noteq> 0" by (simp add: count_list_0_iff)
  then show "ready d k \<and> k \<notin> nodesToBeSplit d \<and> (IsPillarNode (osm_id d k) \<longrightarrow> count_list rk k = 1)"
    using assms k unfolding way_ok_def by auto
qed

lemma way_ok_promotes:
  assumes "promotes (set r) d d'" "way_ok d ks" "ks = sk @ k # rk" "r = sk @ [k]" "osm_tower d k"
  shows "way_ok d' (k # rk)" "k' \<in> set (k # rk) \<Longrightarrow> osm_id d' k' = osm_id d k'"
proof -
  note P = promotesD [OF assms(1)]
  have W: "ready d k'" "k' \<notin> nodesToBeSplit d" "IsPillarNode (osm_id d k') \<Longrightarrow> count_list ks k' = 1" if "k' \<in> set (k # rk)" for k'
    using assms(2,3) that by (auto simp: way_ok_def)
  show same: "osm_id d' k' = osm_id d k'" if k': "k' \<in> set (k # rk)" for k'
  proof (cases "osm_tower d k'")
    case False
    then have "IsPillarNode (osm_id d k')" using W(1) [OF k'] tower_pillar(2) by (auto simp: ready_def)
    then have c: "count_list (sk @ k # rk) k' = 1" using W(3) [OF k'] assms(3) by simp
    have "k' \<noteq> k" using False assms(5) by auto
    then have "k' \<in> set rk" using k' by simp
    then have "count_list rk k' \<noteq> 0" by (simp add: count_list_0_iff)
    then have "count_list sk k' = 0" using c \<open>k' \<noteq> k\<close> by simp
    then have "k' \<notin> set r" using assms(4) \<open>k' \<noteq> k\<close> by (simp add: count_list_0_iff)
    then show ?thesis by (rule P(3))
  qed (rule P(4))
  have "ready d' k' \<and> k' \<notin> nodesToBeSplit d' \<and> (IsPillarNode (osm_id d' k') \<longrightarrow> count_list (k # rk) k' = 1)" if k': "k' \<in> set (k # rk)" for k'
  proof (intro conjI impI)
    assume "IsPillarNode (osm_id d' k')"
    then have "count_list ks k' = 1" using same [OF k'] W(3) [OF k'] by simp
    moreover have "count_list (k # rk) k' \<noteq> 0" using k' unfolding count_list_0_iff by simp
    ultimately show "count_list (k # rk) k' = 1" unfolding assms(3) by simp
  qed (use promotes_ready [OF assms(1) W(1) [OF k']] W(2) [OF k'] P(2) in simp_all)
  then show "way_ok d' (k # rk)" unfolding way_ok_def by blast
qed

abbreviation split_rest :: "segment_node list \<Rightarrow> segment_node list \<Rightarrow> reader_way \<Rightarrow> recording \<Rightarrow> (reader_way \<times> recording) option" where
  "split_rest rs ss way h \<equiv> do {
     (segment, way, h) \<leftarrow> junction_loop record_segment rs ss way h;
     if length segment > 1 then splitLoopSegments record_segment segment way h else Some (way, h) }"

lemma split_rest_spec:
  assumes "od_inv (p2_data h)" "seg_nodes (p2_data h) ss sk" "seg_nodes (p2_data h) rs rk" "way_ok (p2_data h) (sk @ rk)"
    "\<forall>k \<in> set (tl sk). IsPillarNode (osm_id (p2_data h) k)" "nextTowerId (p2_data h) + 4 * int (length rk + 1) < 2 ^ 31 - 5"
  shows "\<exists>h'. split_rest rs ss way h = Some (way, h') \<and>
    handled (set (sk @ rk)) h (way_pieces (osm_tower (p2_data h)) sk rk) h'"
  using assms
proof (induction rs arbitrary: h ss sk rk)
  case Nil
  have rk: "rk = []" using Nil.prems(3) by (simp add: seg_nodes_def)
  have len: "length ss = length sk" using Nil.prems(2) by (auto simp: seg_nodes_def)
  show ?case
  proof (cases "length sk > 1")
    case True
    obtain a ms b where sk: "sk = a # ms @ [b]"
    proof -
      obtain a sk' where 1: "sk = a # sk'" "sk' \<noteq> []" using True by (cases sk) auto
      then obtain ms b where "sk' = ms @ [b]" by (cases sk' rule: rev_cases) auto
      then show ?thesis using that 1 by blast
    qed
    have "good_run (p2_data h) sk" using way_ok_run [OF Nil.prems(4) refl sk] Nil.prems(5) sk by simp
    moreover have "\<forall>k \<in> set sk. k \<notin> nodesToBeSplit (p2_data h)" using Nil.prems(4) by (simp add: way_ok_def)
    ultimately show ?thesis using split_run [OF Nil.prems(1,2)] Nil.prems(6) True len rk by simp
  next
    case False
    then show ?thesis using rk len handled_mono [OF handled_none [OF Nil.prems(1)], of "set sk"] by simp
  qed
next
  case (Cons x rs)
  let ?d = "p2_data h"
  obtain k rk' where rk: "rk = k # rk'" "sn_OSMNodeID x = k" "sn_ID x = osm_id ?d k" "seg_nodes ?d rs rk'"
    using Cons.prems(3) by (cases rk) (auto simp: seg_nodes_def)
  have node: "IsNodeID (osm_id ?d k)" "ready ?d k" using Cons.prems(4) rk(1) by (simp_all add: way_ok_def ready_def)
  have snoc: "seg_nodes ?d (ss @ [x]) (sk @ [k])" using Cons.prems(2) rk(2,3) by (auto simp: seg_nodes_def)
  have len: "length ss = length sk" using Cons.prems(2) by (auto simp: seg_nodes_def)
  show ?case
  proof (cases "osm_tower ?d k \<and> sk \<noteq> []")
    case False
    have "\<forall>j \<in> set (tl (sk @ [k])). IsPillarNode (osm_id ?d j)"
    proof (cases sk)
      case (Cons a sk')
      then have "IsPillarNode (osm_id ?d k)" using False node(1) tower_pillar(2) by auto
      then show ?thesis using Cons.prems(5) Cons by simp
    qed simp
    then obtain h' where "split_rest rs (ss @ [x]) way h = Some (way, h')"
      "handled (set ((sk @ [k]) @ rk')) h (way_pieces (osm_tower ?d) (sk @ [k]) rk') h'"
      using Cons.IH [OF Cons.prems(1) snoc rk(4)] Cons.prems(4,6) rk(1) by auto
    moreover have "junction_loop record_segment (x # rs) ss way h = junction_loop record_segment rs (ss @ [x]) way h"
      using False node(1) rk(3) len by auto
    ultimately show ?thesis using False rk(1) by auto
  next
    case True
    let ?r = "sk @ [k]"
    obtain a ms where sk: "sk = a # ms" using True by (cases sk) auto
    have "?r = a # ms @ [k]" "sk @ rk = ?r @ rk'" using sk rk(1) by simp_all
    from way_ok_run [OF Cons.prems(4) this(2,1)] have good: "good_run ?d ?r" using Cons.prems(5) sk by simp
    have "\<forall>j \<in> set ?r. j \<notin> nodesToBeSplit ?d" using Cons.prems(4) rk(1) by (simp add: way_ok_def)
    then obtain h1 where h1: "splitLoopSegments record_segment (ss @ [x]) way h = Some (way, h1)" "handled (set ?r) h (loop_pieces ?r) h1"
      using split_run [OF Cons.prems(1) snoc good] Cons.prems(6) by auto
    note H = handledD [OF h1(2)]
    note W = way_ok_promotes [OF H(1) Cons.prems(4) _ refl, of rk', unfolded rk(1), OF refl conjunct1 [OF True]]
    have "length (loop_pieces ?r) \<le> 2" by (simp add: loop_pieces_def)
    then have bound: "nextTowerId (p2_data h1) + 4 * int (length rk' + 1) < 2 ^ 31 - 5" using H(5) Cons.prems(6) rk(1) by simp
    have "seg_nodes (p2_data h1) [x] [k]" "seg_nodes (p2_data h1) rs rk'"
      using W(2) rk(2-4) by (auto simp: seg_nodes_def)
    then obtain h2 where h2: "split_rest rs [x] way h1 = Some (way, h2)"
      "handled (set ([k] @ rk')) h1 (way_pieces (osm_tower (p2_data h1)) [k] rk') h2"
      using Cons.IH [OF promotesD(1) [OF H(1)], of "[x]" "[k]" rk'] W(1) bound by auto
    have "junction_loop record_segment (x # rs) ss way h = junction_loop record_segment rs [x] way h1"
      using True node(1) rk(3) len h1(1) by auto
    then have "split_rest (x # rs) ss way h = Some (way, h2)" using h2(1) by simp
    moreover have "way_pieces (osm_tower (p2_data h1)) [k] rk' = way_pieces (osm_tower ?d) [k] rk'"
      using W(2) by (intro way_pieces_cong) simp
    moreover have "handled (set (sk @ rk)) h (loop_pieces ?r @ way_pieces (osm_tower (p2_data h1)) [k] rk') h2"
    proof (rule handled_trans [OF h1(2) h2(2)])
      show "set ?r \<subseteq> set (sk @ rk)" "set ([k] @ rk') \<subseteq> set (sk @ rk)" using rk(1) by auto
      show "\<forall>p \<in> set (loop_pieces ?r). p \<noteq> [] \<and> (\<forall>j \<in> set p. IsNodeID (osm_id ?d j))"
        using good_run_pieces(1) [OF good] by (auto simp: good_piece_def ready_def)
    qed
    ultimately show ?thesis using True rk(1) by auto
  qed
qed

end
