(* ===== verification/ImportedWays.thy ===== *)
theory ImportedWays imports WayFacts AdjacencyLists begin

text \<open>
  The properties of the second pass on ways: the segments that reach the edge handler, and what becomes of a gap in a
  way. New node data and the node data of two nodes are the data on which they are tried out.
\<close>

section \<open>New node data\<close>

lemma NewOSMNodeData_spec:
  assumes dir: "memory_directory matches dir" "''tmp_pillar_info'' \<notin> set (das_names dir)" and na: "tower_ok nodeAccess"
  shows "\<exists>d dir'. NewOSMNodeData matches nodeAccess dir = Some (d, dir') \<and> od_inv d \<and> (\<forall>k. osm_id d k = EmptyNode) \<and>
    nodesToBeSplit d = {} \<and> nextTowerId d = 0 \<and> nextPillarId d = 0 \<and> (\<forall>k. od_GetTags k d = Some None)"
proof -
  have ex: "\<exists>t. NewGHLongLongBTree 200 n (- 1) = Some t" if "n = 5 \<or> n = 4" for n
    using that by (auto simp: NewGHLongLongBTree_def bt_Clear_def newBTreeEntry_def go_make_def)
  obtain t where t: "NewGHLongLongBTree 200 5 (- 1) = Some t" using ex by blast
  obtain u where u: "NewGHLongLongBTree 200 4 (- 1) = Some u" using ex by blast
  let ?n = "''tmp_pillar_info''"
  have ty: "IsInMemory (getDefault matches dir ?n)" "\<not> Integ (getDefault matches dir ?n)"
    "dir_location dir = [] \<or> last (dir_location dir) = CHR ''/''"
    using dir(1) by (simp_all add: memory_directory_def)
  have up: "\<not> list_ex is_upper ?n" by (simp add: is_upper_def)
  obtain da dir' where da: "CreateFull ?n (getDefault matches dir ?n) (- 1) dir = Some (da, dir')" "da_inv da" "da_Capacity da = 0"
    "\<And>w p. da_supp da w p"
    by (rule CreateFull_ok [OF up dir(2) ty(1) _ ty(3), of "- 1"]) (use ty(2) in auto)
  obtain da' where da': "da_Create 100 da = Some da'" "da_inv da'" "da_supp da' = da_supp da"
    by (rule da_Create_ok [OF da(2,3), of 100])
  let ?p = "\<lparr>enabled3D = False, pi_da = da', rowSizeBytes = 8\<rparr>"
  let ?d = "\<lparr>idsByOsmNodeIds = t, pillarNodes = ?p, towerNodes = nodeAccess, nodeTagIndices = u, nodeTags = [],
    nodesToBeSplit = {}, nextTowerId = 0, nextPillarId = 0, nextArtificialOSMNodeId = - (2 ^ 63 - 1)\<rparr>"
  have el: "\<not> withElevation nodeAccess" "ne_inv nodeAccess" using na by (simp_all add: tower_ok_def)
  have run: "NewOSMNodeData matches nodeAccess dir = Some (?d, dir')"
    using t u da(1) da'(1) el(1) by (simp add: NewOSMNodeData_def NewPillarInfo_def EmptyNode_def)
  note T = New_spec [OF t] and U = New_spec [OF u]
  have ids: "osm_id ?d k = - 1" for k using T(2) by (simp add: osm_id_def)
  have "pillar_ok ?p" using da(4) da'(2,3) by (simp add: pillar_ok_def)
  moreover have "0 \<le> nodeCount nodeAccess" using el(2) by (simp add: ne_inv_def)
  ultimately have "od_inv ?d"
    using na T ids by (auto simp: od_inv_def ids_ok_def stored_id_def IsTowerNode_def IsPillarNode_def IsNodeID_def node_types)
  moreover have "od_GetTags k ?d = Some None" for k using bt_Get_spec [OF U(1), of k] U(2,3) by (simp add: od_GetTags_def)
  ultimately show ?thesis using run ids by (intro exI [of _ ?d] exI [of _ dir']) (simp add: EmptyNode_def)
qed

text \<open>Two nodes of a type, each with coordinates.\<close>

definition two_nodes :: "int \<Rightarrow> osm_data option" where
  "two_nodes nodeType = do {
     (d, dir) \<leftarrow> NewOSMNodeData (\<lambda>_ _. False) sample_store (NewRAMDirectory ''w'' ''g'' False);
     d \<leftarrow> SetOrUpdateNodeType 1 nodeType (\<lambda>_. JunctionNode) d;
     d \<leftarrow> SetOrUpdateNodeType 2 nodeType (\<lambda>_. JunctionNode) d;
     (_, d) \<leftarrow> AddCoordinatesIfMapped 1 (IntToDegree 10) (IntToDegree 20) NaN d;
     (_, d) \<leftarrow> AddCoordinatesIfMapped 2 (IntToDegree 30) (IntToDegree 40) NaN d;
     Some d }"

lemma two_nodes_spec:
  assumes "nodeType \<in> {EndNode, ConnectionNode}"
  shows "\<exists>d. two_nodes nodeType = Some d \<and> od_inv d \<and> nodesToBeSplit d = {} \<and> nextTowerId d \<le> 2 \<and> (\<forall>k. od_GetTags k d = Some None) \<and>
    (\<forall>k. k \<noteq> 1 \<and> k \<noteq> 2 \<longrightarrow> osm_id d k = EmptyNode) \<and> node_point d (osm_id d 1) = (10, 20) \<and> node_point d (osm_id d 2) = (30, 40) \<and>
    (nodeType = EndNode \<longrightarrow> IsPillarNode (osm_id d 1) \<and> IsPillarNode (osm_id d 2)) \<and>
    (nodeType = ConnectionNode \<longrightarrow> IsTowerNode (osm_id d 1) \<and> IsTowerNode (osm_id d 2))"
proof -
  have dir: "memory_directory (\<lambda>_ _. False) (NewRAMDirectory ''w'' ''g'' False)" by (rule NewRAMDirectory_memory)
  have names: "''tmp_pillar_info'' \<notin> set (das_names (NewRAMDirectory ''w'' ''g'' False))"
    by (simp add: NewRAMDirectory_def NewGHDirectory_def Let_def)
  have na: "tower_ok sample_store" using graph_okD(1) [OF sample_store_ok(1)] sample_store_ok(5) by (simp add: tower_ok_def)
  obtain d0 dir' where d0: "NewOSMNodeData (\<lambda>_ _. False) sample_store (NewRAMDirectory ''w'' ''g'' False) = Some (d0, dir')" "od_inv d0"
    "\<And>k. osm_id d0 k = EmptyNode" "nodesToBeSplit d0 = {}" "nextTowerId d0 = 0" "nextPillarId d0 = 0" "\<And>k. od_GetTags k d0 = Some None"
    using NewOSMNodeData_spec [OF dir names na] by blast
  have ty: "id_fits nodeType" "\<not> IsNodeID nodeType" and upd: "id_fits JunctionNode \<and> \<not> IsNodeID JunctionNode"
    using id_fits_type [of nodeType] id_fits_type [of JunctionNode] assms by auto
  obtain d1 where d1: "SetOrUpdateNodeType 1 nodeType (\<lambda>_. JunctionNode) d0 = Some d1" "od_inv d1" "osm_id d1 = (osm_id d0)(1 := nodeType)"
    "d1 = d0\<lparr>idsByOsmNodeIds := idsByOsmNodeIds d1\<rparr>"
    using SetOrUpdateNodeType_spec [OF d0(2) ty upd, of 1] d0(3) by auto
  obtain d2 where d2: "SetOrUpdateNodeType 2 nodeType (\<lambda>_. JunctionNode) d1 = Some d2" "od_inv d2" "osm_id d2 = (osm_id d1)(2 := nodeType)"
    "d2 = d1\<lparr>idsByOsmNodeIds := idsByOsmNodeIds d2\<rparr>"
    using SetOrUpdateNodeType_spec [OF d1(2) ty upd, of 2] d0(3) d1(3) by auto
  have same: "nextTowerId d2 = 0 \<and> nextPillarId d2 = 0 \<and> nodesToBeSplit d2 = {} \<and> nodeTags d2 = nodeTags d0 \<and> nodeTagIndices d2 = nodeTagIndices d0"
    using d0(4-6) by (subst (1 2 3 4 5) d2(4), subst (1 2 3 4 5) d1(4)) simp
  have t2: "osm_id d2 1 = nodeType" "osm_id d2 2 = nodeType" "\<And>k. k \<noteq> 1 \<Longrightarrow> k \<noteq> 2 \<Longrightarrow> osm_id d2 k = EmptyNode"
    using d0(3) d1(3) d2(3) by simp_all
  obtain d3 where d3: "AddCoordinatesIfMapped 1 (IntToDegree 10) (IntToDegree 20) NaN d2 = Some (nodeType, d3)" "od_inv d3"
    "\<And>k. k \<noteq> 1 \<Longrightarrow> osm_id d3 k = osm_id d2 k" "node_point d3 (osm_id d3 1) = (10, 20)"
    "osm_id d3 1 = (if nodeType = ConnectionNode then TowerNodeToID 0 else PillarNodeToID 0)"
    "nextTowerId d3 \<le> 1" "nextPillarId d3 \<le> 1" "nodesToBeSplit d3 = {}" "nodeTags d3 = nodeTags d2" "nodeTagIndices d3 = nodeTagIndices d2"
    by (rule AddCoordinates_mapped [OF d2(2) _ _ t2(1) assms, of "IntToDegree 10" "IntToDegree 20" NaN])
      (use same in \<open>simp_all add: DegreeToInt_IntToDegree cong: if_cong\<close>)
  have i1: "IsNodeID (osm_id d3 1)" "nextTowerId d3 < 2 ^ 31 - 2" "nextPillarId d3 < 2 ^ 39 - 4" using d3(5-7) by (simp_all add: node_ids node_types)
  have s2: "osm_id d3 2 = nodeType" "\<And>k. k \<noteq> 1 \<Longrightarrow> k \<noteq> 2 \<Longrightarrow> osm_id d3 k = EmptyNode" using d3(3) t2 by simp_all
  obtain d4 where d4: "AddCoordinatesIfMapped 2 (IntToDegree 30) (IntToDegree 40) NaN d3 = Some (nodeType, d4)" "od_inv d4"
    "\<And>k. k \<noteq> 2 \<Longrightarrow> osm_id d4 k = osm_id d3 k" "node_point d4 (osm_id d4 2) = (30, 40)"
    "osm_id d4 2 = (if nodeType = ConnectionNode then TowerNodeToID (nextTowerId d3) else PillarNodeToID (nextPillarId d3))"
    "nextTowerId d4 \<le> 2" "nodesToBeSplit d4 = {}" "nodeTags d4 = nodeTags d3" "nodeTagIndices d4 = nodeTagIndices d3"
    "node_point d4 (osm_id d3 1) = node_point d3 (osm_id d3 1)"
    by (rule AddCoordinates_mapped [OF d3(2) i1(2,3) s2(1) assms, of "IntToDegree 30" "IntToDegree 40" NaN])
      (use d3(6,8) i1(1) in \<open>simp_all add: DegreeToInt_IntToDegree cong: if_cong\<close>)
  have "two_nodes nodeType = Some d4" using d0(1) d1(1) d2(1) d3(1) d4(1) by (simp add: two_nodes_def)
  moreover have tags: "nodeTags d4 = nodeTags d0" "nodeTagIndices d4 = nodeTagIndices d0" using same d3(9,10) d4(8,9) by simp_all
  have "od_GetTags k d4 = od_GetTags k d0" for k by (simp only: od_GetTags_def tags)
  then have "od_GetTags k d4 = Some None" for k using d0(7) [of k] by simp
  moreover have "osm_id d4 1 = osm_id d3 1" "\<And>k. k \<noteq> 1 \<Longrightarrow> k \<noteq> 2 \<Longrightarrow> osm_id d4 k = EmptyNode" using d4(3) s2(2) by simp_all
  moreover have "0 \<le> nextTowerId d3" "0 \<le> nextPillarId d3" using od_invD(4,7) [OF d3(2)] .
  ultimately show ?thesis using d4(2,4-7,10) d3(4,5) by (intro exI [of _ d4]) (auto simp: node_ids node_types)
qed

section \<open>Properties\<close>

lemma full_segment_spec:
  assumes "od_inv d" "\<forall>k. od_GetTags k d \<noteq> None"
  shows "\<exists>ns. full_segment ks d = Some ns \<and> seg_nodes d ns ks"
proof (induction ks)
  case (Cons k ks)
  obtain tags where "od_GetTags k d = Some tags" using assms(2) by blast
  then show ?case using Cons.IH od_GetID [OF assms(1), of k] by (auto simp: seg_nodes_def)
qed (simp add: seg_nodes_def)

lemma way_pieces_good:
  assumes "way_ok d (sk @ rk)" "\<forall>k \<in> set (tl sk). IsPillarNode (osm_id d k)"
  shows "(\<forall>p \<in> set (way_pieces (osm_tower d) sk rk). good_piece d p) \<and>
    concat (map steps (way_pieces (osm_tower d) sk rk)) = filter (\<lambda>(a, b). a \<noteq> b) (steps (sk @ rk))"
  using assms
proof (induction rk arbitrary: sk)
  case Nil
  show ?case
  proof (cases "length sk > 1")
    case True
    then obtain a ms b where sk: "sk = a # ms @ [b]" by (cases sk; cases "tl sk" rule: rev_cases) auto
    have "good_run d sk" using way_ok_run [OF Nil.prems(1) refl sk] Nil.prems(2) sk by simp
    from good_run_pieces(1,2) [OF this] True show ?thesis by simp
  next
    case False
    then show ?thesis by (cases sk) auto
  qed
next
  case (Cons k rk)
  show ?case
  proof (cases "osm_tower d k \<and> sk \<noteq> []")
    case False
    have "IsPillarNode (osm_id d k)" if "sk \<noteq> []"
      using False that Cons.prems(1) tower_pillar(2) by (auto simp: way_ok_def ready_def)
    then have "\<forall>j \<in> set (tl (sk @ [k])). IsPillarNode (osm_id d j)" using Cons.prems(2) by (cases sk) auto
    then show ?thesis using Cons.IH [of "sk @ [k]"] Cons.prems(1) False by auto
  next
    case True
    obtain a ms where sk: "sk = a # ms" using True by (cases sk) auto
    have "sk @ k # rk = (sk @ [k]) @ rk" "sk @ [k] = a # ms @ [k]" using sk by simp_all
    from way_ok_run [OF Cons.prems(1) this] have good: "good_run d (sk @ [k])" using Cons.prems(2) sk by simp
    have "way_ok d ([k] @ rk)"
      using way_ok_tail [of d "sk" "k # rk"] Cons.prems(1) by simp
    then show ?thesis using Cons.IH [of "[k]"] True good_run_pieces(1,2) [OF good] steps_join [of sk k rk]
      by (auto simp: filter_append [symmetric])
  qed
qed

text \<open>
  C11. The second pass cuts a way whose nodes are all known and not to be split, and whose shared nodes are towers,
  into pieces that together make its steps, in order, except steps from a node to itself. Each piece starts and
  ends at different nodes, which are towers afterwards, and has only pillars between them; the edge handler gets
  the tower indices of the two ends and the coordinates of all nodes of the piece. Turning pillars at ends into
  towers keeps the coordinates of every node. The graph and the node data are those without elevation.
\<close>

theorem way_segments:
  assumes "od_inv (p2_data h)" "\<not> p2_handledRelations h" "wayFilter way" "\<forall>k. od_GetTags k (p2_data h) \<noteq> None"
    "wayPreprocessor (\<lambda>i. do { j \<leftarrow> GetID i (p2_data h); GetCoordinates j (p2_data h) }) (\<lambda>i. od_GetTags i (p2_data h)) way = Some way'"
    "way_ok (p2_data h) (way_Nodes way)" "nextTowerId (p2_data h) + 4 * int (length (way_Nodes way) + 1) < 2 ^ 31 - 5"
  shows "\<exists>h' pieces. p2_HandleWay wayFilter wayPreprocessor record_segment way h = Some (way', h') \<and>
    p2_world h' = p2_world h @ map (recorded (p2_data h')) pieces \<and>
    concat (map steps pieces) = filter (\<lambda>(a, b). a \<noteq> b) (steps (way_Nodes way)) \<and>
    (\<forall>p \<in> set pieces. \<exists>a ms b. p = a # ms @ [b] \<and> a \<noteq> b \<and> osm_tower (p2_data h') a \<and> osm_tower (p2_data h') b \<and>
       (\<forall>k \<in> set ms. IsPillarNode (osm_id (p2_data h) k))) \<and>
    (\<forall>k. IsNodeID (osm_id (p2_data h) k) \<longrightarrow> osm_point (p2_data h') k = osm_point (p2_data h) k)"
proof -
  let ?d = "p2_data h" and ?ks = "way_Nodes way"
  let ?h = "h\<lparr>p2_handledWays := True, p2_wayCounter := p2_wayCounter h + 1\<rparr>"
  let ?ps = "way_pieces (osm_tower ?d) [] ?ks"
  obtain ns where ns: "full_segment ?ks ?d = Some ns" "seg_nodes ?d ns ?ks" using full_segment_spec [OF assms(1,4)] by blast
  have "seg_nodes ?d [] []" by (simp add: seg_nodes_def)
  then have "\<exists>h'. split_rest ns [] way' ?h = Some (way', h') \<and> handled (set ([] @ ?ks)) ?h (way_pieces (osm_tower (p2_data ?h)) [] ?ks) h'"
    by (intro split_rest_spec) (use assms(1,6,7) ns(2) in simp_all)
  then obtain h' where h0: "split_rest ns [] way' ?h = Some (way', h')"
    "handled (set ([] @ ?ks)) ?h (way_pieces (osm_tower (p2_data ?h)) [] ?ks) h'" by (elim exE conjE) (rule that)
  have "p2_data ?h = ?d" by simp
  then have h': "split_rest ns [] way' ?h = Some (way', h')" "handled (set ?ks) ?h ?ps h'" using h0 by (simp_all only: append_Nil)
  note H = handledD [OF h'(2)]
  have good: "\<forall>p \<in> set ?ps. good_piece ?d p" "concat (map steps ?ps) = filter (\<lambda>(a, b). a \<noteq> b) (steps ?ks)"
    using way_pieces_good [of ?d "[]" ?ks] assms(6) by simp_all
  have run: "p2_HandleWay wayFilter wayPreprocessor record_segment way h = Some (way', h')"
    using h'(1) ns(1) assms(2,3,5) by (simp add: p2_HandleWay_def splitWayAtJunctionsAndEmptySections_def)
  have "\<exists>a ms b. p = a # ms @ [b] \<and> a \<noteq> b \<and> osm_tower (p2_data h') a \<and> osm_tower (p2_data h') b \<and>
       (\<forall>k \<in> set ms. IsPillarNode (osm_id ?d k))" if p: "p \<in> set ?ps" for p
  proof -
    have "good_piece ?d p" by (rule bspec [OF good(1) p])
    then obtain a ms b where "p = a # ms @ [b]" "a \<noteq> b" "\<forall>k \<in> set ms. IsPillarNode (osm_id ?d k)"
      unfolding good_piece_def by (elim exE conjE) (rule that, assumption, assumption, simp)
    then show ?thesis using H(4) p by (intro exI [of _ a] exI [of _ ms] exI [of _ b]) auto
  qed
  moreover have "osm_point (p2_data h') k = osm_point ?d k" if "IsNodeID (osm_id ?d k)" for k
    using promotesD(5) [OF H(1)] that by simp
  ultimately show ?thesis using run H(2) good(2) by (intro exI [of _ h'] exI [of _ ?ps]) simp
qed

text \<open>
  C12. A gap in a way that leaves a single node before it does not cut the way: of a way of two towers and a node
  without coordinates between them, the handler gets one segment, the straight line from the one to the other that
  the comment on missing nodes wants to avoid.
\<close>

theorem way_gap_bridged:
  assumes "od_inv (p2_data h)" "\<not> p2_handledRelations h" "wayFilter way" "\<forall>k. od_GetTags k (p2_data h) \<noteq> None"
    "wayPreprocessor (\<lambda>i. do { j \<leftarrow> GetID i (p2_data h); GetCoordinates j (p2_data h) }) (\<lambda>i. od_GetTags i (p2_data h)) way = Some way'"
    "way_Nodes way = [a, x, b]" "osm_tower (p2_data h) a" "\<not> IsNodeID (osm_id (p2_data h) x)" "osm_tower (p2_data h) b" "a \<noteq> b"
    "a \<notin> nodesToBeSplit (p2_data h)" "b \<notin> nodesToBeSplit (p2_data h)" "nextTowerId (p2_data h) < 2 ^ 31 - 20"
  shows "\<exists>h'. p2_HandleWay wayFilter wayPreprocessor record_segment way h = Some (way', h') \<and>
    p2_world h' = p2_world h @ [recorded (p2_data h') [a, b]]"
proof -
  let ?d = "p2_data h"
  let ?h = "h\<lparr>p2_handledWays := True, p2_wayCounter := p2_wayCounter h + 1\<rparr>"
  obtain ns where ns: "full_segment (way_Nodes way) ?d = Some ns" "seg_nodes ?d ns [a, x, b]"
    using full_segment_spec [OF assms(1,4), of "way_Nodes way"] assms(6) by auto
  then obtain na nx nb where n: "ns = [na, nx, nb]" "sn_OSMNodeID na = a" "sn_ID na = osm_id ?d a" "sn_ID nx = osm_id ?d x"
    "sn_OSMNodeID nb = b" "sn_ID nb = osm_id ?d b"
    by (auto simp: seg_nodes_def Cons_eq_map_conv)
  have t: "IsNodeID (osm_id ?d a)" "IsNodeID (osm_id ?d b)" "\<not> IsPillarNode (osm_id ?d a)" "\<not> IsPillarNode (osm_id ?d b)"
    using assms(7,9) tower_pillar by auto
  have "good_run ?d [a, b]"
    using assms(7,9,10) t unfolding good_run_def ready_def by (intro exI [of _ a] exI [of _ "[]"] exI [of _ b]) simp
  moreover have "seg_nodes ?d [na, nb] [a, b]" using n by (simp add: seg_nodes_def)
  ultimately obtain h' where h': "splitLoopSegments record_segment [na, nb] way' ?h = Some (way', h')"
    "handled (set [a, b]) ?h (loop_pieces [a, b]) h'"
    using split_run [of ?h "[na, nb]" "[a, b]" way'] assms(1,11-13) by auto
  have "p2_HandleWay wayFilter wayPreprocessor record_segment way h = Some (way', h')"
    using h'(1) ns(1) n assms(2,3,5,7-9) t by (simp add: p2_HandleWay_def splitWayAtJunctionsAndEmptySections_def)
  then show ?thesis using handledD(2) [OF h'(2)] assms(10) by (simp add: loop_pieces_def)
qed

definition sample_way :: "int list \<Rightarrow> reader_way" where
  "sample_way ks = \<lparr>el_id = 7, elemType = TypeWay, properties = [], way_Nodes = ks\<rparr>"

definition sample_pass :: "osm_data \<Rightarrow> recording" where
  "sample_pass d = \<lparr>p2_data = d, p2_world = [], p2_handledNodes = True, p2_handledWays = False, p2_handledRelations = False,
     nodeCounter = 2, acceptedNodes = 2, ignoredSplitNodes = 0, p2_wayCounter = 0\<rparr>"

theorem way_segments_witness:
  "\<exists>d h'. two_nodes EndNode = Some d \<and>
    p2_HandleWay (\<lambda>_. True) (\<lambda>_ _. Some) record_segment (sample_way [1, 2]) (sample_pass d) = Some (sample_way [1, 2], h') \<and>
    osm_tower (p2_data h') 1 \<and> osm_point (p2_data h') 1 = (10, 20) \<and> p2_world h' = [recorded (p2_data h') [1, 2]]"
proof -
  obtain d where d: "two_nodes EndNode = Some d" "od_inv d" "nodesToBeSplit d = {}" "nextTowerId d \<le> 2" "\<And>k. od_GetTags k d = Some None"
    "osm_point d 1 = (10, 20)" "osm_point d 2 = (30, 40)" "IsPillarNode (osm_id d 1)" "IsPillarNode (osm_id d 2)"
    using two_nodes_spec [of EndNode] by auto
  have nodes: "way_Nodes (sample_way [1, 2]) = [1, 2]" by (simp add: sample_way_def)
  have lp: "live_point (10, 20)" "live_point (30, 40)" by (rule live_pointI; simp)+
  have id: "IsNodeID (osm_id d 1)" "IsNodeID (osm_id d 2)" using d(8,9) tower_pillar by auto
  have "way_ok d [1, 2]" using d(3,6-9) lp id by (simp add: way_ok_def ready_def)
  then have "\<exists>h' pieces. p2_HandleWay (\<lambda>_. True) (\<lambda>_ _. Some) record_segment (sample_way [1, 2]) (sample_pass d) =
      Some (sample_way [1, 2], h') \<and>
    p2_world h' = p2_world (sample_pass d) @ map (recorded (p2_data h')) pieces \<and>
    concat (map steps pieces) = filter (\<lambda>(a, b). a \<noteq> b) (steps (way_Nodes (sample_way [1, 2]))) \<and>
    (\<forall>p \<in> set pieces. \<exists>a ms b. p = a # ms @ [b] \<and> a \<noteq> b \<and> osm_tower (p2_data h') a \<and> osm_tower (p2_data h') b \<and>
       (\<forall>k \<in> set ms. IsPillarNode (osm_id (p2_data (sample_pass d)) k))) \<and>
    (\<forall>k. IsNodeID (osm_id (p2_data (sample_pass d)) k) \<longrightarrow> osm_point (p2_data h') k = osm_point (p2_data (sample_pass d)) k)"
    by (intro way_segments) (use d(2,4,5) nodes in \<open>simp_all add: sample_pass_def\<close>)
  then obtain h' pieces where w: "p2_HandleWay (\<lambda>_. True) (\<lambda>_ _. Some) record_segment (sample_way [1, 2]) (sample_pass d) =
      Some (sample_way [1, 2], h')" "p2_world h' = p2_world (sample_pass d) @ map (recorded (p2_data h')) pieces"
    "concat (map steps pieces) = filter (\<lambda>(a, b). a \<noteq> b) (steps (way_Nodes (sample_way [1, 2])))"
    "\<forall>p \<in> set pieces. \<exists>a ms b. p = a # ms @ [b] \<and> a \<noteq> b \<and> osm_tower (p2_data h') a \<and> osm_tower (p2_data h') b \<and>
       (\<forall>k \<in> set ms. IsPillarNode (osm_id (p2_data (sample_pass d)) k))"
    "\<forall>k. IsNodeID (osm_id (p2_data (sample_pass d)) k) \<longrightarrow> osm_point (p2_data h') k = osm_point (p2_data (sample_pass d)) k"
    by (elim exE conjE) (rule that)
  have shape: "\<exists>a ms b. p = a # ms @ [b] \<and> osm_tower (p2_data h') a" if "p \<in> set pieces" for p using w(4) that by blast
  have "p2_data (sample_pass d) = d" "p2_world (sample_pass d) = []" by (simp_all add: sample_pass_def)
  then have h': "p2_world h' = map (recorded (p2_data h')) pieces" "concat (map steps pieces) = [(1, 2)]" "osm_point (p2_data h') 1 = osm_point d 1"
    using w(2,3,5) nodes id(1) by simp_all
  obtain p ps where ps: "pieces = p # ps" using h'(2) by (cases pieces) auto
  have long: "length (steps q) = length q - 1" for q :: "int list" by (cases q) (simp_all add: steps_def)
  obtain a ms b where p: "p = a # ms @ [b]" "osm_tower (p2_data h') a" using shape [of p] ps by auto
  have "length (steps p) + length (concat (map steps ps)) = 1" using arg_cong [OF h'(2), of length] ps by simp
  then have m: "ms = []" "concat (map steps ps) = []" using p(1) long [of p] by simp_all
  have "ps = []"
  proof (rule ccontr)
    assume "ps \<noteq> []"
    then obtain q qs where q: "ps = q # qs" by (cases ps) auto
    then obtain x zs y where "q = x # zs @ [y]" using shape [of q] ps by auto
    then have "steps q \<noteq> []" using long [of q] by auto
    then show False using m(2) q by simp
  qed
  then show ?thesis using d(1,6) w(1) h' ps p m(1) by (intro exI [of _ d] exI [of _ h']) simp
qed

theorem way_gap_bridged_witness:
  "\<exists>d h'. two_nodes ConnectionNode = Some d \<and> osm_id d 3 = EmptyNode \<and>
    p2_HandleWay (\<lambda>_. True) (\<lambda>_ _. Some) record_segment (sample_way [1, 3, 2]) (sample_pass d) = Some (sample_way [1, 3, 2], h') \<and>
    p2_world h' = [recorded (p2_data h') [1, 2]]"
proof -
  obtain d where d: "two_nodes ConnectionNode = Some d" "od_inv d" "nodesToBeSplit d = {}" "nextTowerId d \<le> 2" "\<And>k. od_GetTags k d = Some None"
    "osm_tower d 1" "osm_tower d 2" "osm_id d 3 = EmptyNode"
    using two_nodes_spec [of ConnectionNode] by auto
  have nodes: "way_Nodes (sample_way [1, 3, 2]) = [1, 3, 2]" by (simp add: sample_way_def)
  have "\<exists>h'. p2_HandleWay (\<lambda>_. True) (\<lambda>_ _. Some) record_segment (sample_way [1, 3, 2]) (sample_pass d) =
      Some (sample_way [1, 3, 2], h') \<and> p2_world h' = p2_world (sample_pass d) @ [recorded (p2_data h') [1, 2]]"
    by (rule way_gap_bridged [OF _ _ _ _ _ nodes]) (use d(2-8) in \<open>simp_all add: sample_pass_def node_ids node_types\<close>)
  then show ?thesis using d(1,8) by (auto simp: sample_pass_def)
qed

end
