(* ===== verification/AccessParsers.thy ===== *)
theory AccessParsers imports ReaderElements CustomWeighting begin

text \<open>
  The parsers that read from the tags of a way whether a car may use it and in which directions
  (\<^verbatim>\<open>core/routing/parsers\<close>), and the small parsers of the class, the environment and the roundabouts of roads. A
  parser writes encoded values of an edge; a set of Go strings is a \<^typ>\<open>string set\<close>.
\<close>

section \<open>Package strings\<close>

fun strings_Split :: "string \<Rightarrow> char \<Rightarrow> string list" where
  "strings_Split [] c = [[]]"
| "strings_Split (x # s) c = (if x = c then [] # strings_Split s c else (x # hd (strings_Split s c)) # tl (strings_Split s c))"

definition HasSuffix :: "string \<Rightarrow> string \<Rightarrow> bool" where
  "HasSuffix s suffix \<longleftrightarrow> length suffix \<le> length s \<and> drop (length s - length suffix) s = suffix"

definition TrimSuffix :: "string \<Rightarrow> string \<Rightarrow> string" where
  "TrimSuffix s suffix = (if HasSuffix s suffix then take (length s - length suffix) s else s)"

section \<open>Ways\<close>

datatype way_access = WayAccessWay | WayAccessFerry | WayAccessOther | WayAccessCanSkip

datatype transportation_mode = ModeOther | ModeFoot | ModeVehicle | ModeBike | ModeCar | ModeMotorcycle | ModeHGV | ModePSV | ModeBus | ModeHOV

definition IsMotorVehicle :: "transportation_mode \<Rightarrow> bool" where
  "IsMotorVehicle t \<longleftrightarrow> t \<in> {ModeCar, ModeMotorcycle, ModeHGV, ModePSV, ModeBus, ModeHOV}"

definition ToOSMRestrictions :: "transportation_mode \<Rightarrow> string list" where
  "ToOSMRestrictions m = (case m of
     ModeCar \<Rightarrow> [''motorcar'', ''motor_vehicle'', ''vehicle'', ''access'']
   | ModeBike \<Rightarrow> [''bicycle'', ''vehicle'', ''access'']
   | ModeFoot \<Rightarrow> [''foot'', ''access'']
   | ModeMotorcycle \<Rightarrow> [''motorcycle'', ''motor_vehicle'', ''vehicle'', ''access'']
   | ModeHGV \<Rightarrow> [''hgv'', ''motor_vehicle'', ''vehicle'', ''access'']
   | _ \<Rightarrow> [''access''])"

definition IsFerry :: "'a reader_element_scheme \<Rightarrow> bool" where
  "IsFerry way = (let route = GetTag ''route'' way in
     if route = ''ferry'' then GetTag ''ferry'' way \<noteq> ''no''
     else if route = ''shuttle_train'' then GetTag ''shuttle_train'' way \<noteq> ''no'' else False)"

definition isOneway :: "'a reader_element_scheme \<Rightarrow> bool" where
  "isOneway way = (let ow = GetTag ''oneway'' way in ow = ''yes'' \<or> ow = ''1'' \<or> ow = ''true'')"

definition isReverseOneway :: "'a reader_element_scheme \<Rightarrow> bool" where
  "isReverseOneway way = (let ow = GetTag ''oneway'' way in ow = ''-1'' \<or> ow = ''reverse'')"

definition directionPrefixes :: "string list" where "directionPrefixes = [''vehicle'', ''motor_vehicle'', ''motorcar'']"

definition isDirectionBlocked :: "string \<Rightarrow> 'a reader_element_scheme \<Rightarrow> bool" where
  "isDirectionBlocked direction way = list_ex (\<lambda>prefix. HasTag (prefix @ '':'' @ direction) [''no''] way) directionPrefixes"

definition anySemicolonPartInSet :: "string \<Rightarrow> string set \<Rightarrow> bool" where
  "anySemicolonPartInSet v xs = list_ex (\<lambda>part. TrimSpace part \<in> xs) (strings_Split v (CHR '';''))"

section \<open>Access\<close>

record access_parser =
  accessEnc :: int_ev
  roundaboutEnc :: int_ev
  restrictionKeys :: "string list"
  restrictedValues :: "string set"
  allowedValues :: "string set"
  barriers :: "string set"
  blockFords :: bool
  blockPrivate :: bool

definition newAbstractAccessParser :: "int_ev \<Rightarrow> int_ev \<Rightarrow> string list \<Rightarrow> access_parser" where
  "newAbstractAccessParser accessEv roundaboutEv ks = \<lparr>accessEnc = accessEv, roundaboutEnc = roundaboutEv, restrictionKeys = ks,
     restrictedValues = {''no'', ''restricted'', ''military'', ''emergency'', ''private'', ''permit''},
     allowedValues = {''yes'', ''designated'', ''official'', ''permissive'', ''destination''},
     barriers = {}, blockFords = True, blockPrivate = True\<rparr>"

definition isFordBlocked :: "access_parser \<Rightarrow> reader_node \<Rightarrow> bool" where
  "isFordBlocked p node \<longleftrightarrow> blockFords p \<and> (HasTag ''ford'' [''yes''] node \<or> HasTag ''ford'' [''pond''] node)"

text \<open>The loop over the restrictions of a node: the answer of the first decisive one.\<close>

fun barrier_restriction :: "access_parser \<Rightarrow> string list \<Rightarrow> reader_node \<Rightarrow> bool option" where
  "barrier_restriction p [] node = None"
| "barrier_restriction p (key # ks) node =
     (let v = GetTag key node in
      if v = [] then barrier_restriction p ks node
      else if v \<in> restrictedValues p then Some True
      else if v \<in> allowedValues p then Some False
      else barrier_restriction p ks node)"

definition IsBarrier :: "access_parser \<Rightarrow> reader_node \<Rightarrow> bool" where
  "IsBarrier p node =
     (let barrier = GetTag ''barrier'' node in
      if barrier = [] then isFordBlocked p node
      else case barrier_restriction p (restrictionKeys p) node of
        Some b \<Rightarrow> b
      | None \<Rightarrow> if barrier \<in> barriers p then True else isFordBlocked p node)"

definition HandleBarrierEdge :: "'s edge_int_access \<Rightarrow> int \<Rightarrow> access_parser \<Rightarrow> 's \<Rightarrow> (access_parser \<times> 's) option" where
  "HandleBarrierEdge ops edgeID p s = do {
     (e, s) \<leftarrow> SetBool ops False edgeID s False (accessEnc p);
     (e, s) \<leftarrow> SetBool ops True edgeID s False e;
     Some (p\<lparr>accessEnc := e\<rparr>, s) }"

text \<open>A prefix of a conditional restriction, before its condition.\<close>

definition conditional_allowed :: "access_parser \<Rightarrow> string \<Rightarrow> bool" where
  "conditional_allowed p condVal = (let i = strings_Index_char condVal (CHR ''@'') in
     0 \<le> i \<and> TrimSpace (take (nat i) condVal) \<in> allowedValues p)"

fun conditional_override :: "access_parser \<Rightarrow> string list \<Rightarrow> string \<Rightarrow> 'a reader_element_scheme \<Rightarrow> bool" where
  "conditional_override p [] restrictedKey way = False"
| "conditional_override p (key # ks) restrictedKey way =
     (if key = restrictedKey then False
      else let condVal = GetTag (key @ '':conditional'') way in
        if condVal \<noteq> [] \<and> conditional_allowed p condVal then True else conditional_override p ks restrictedKey way)"

definition hasConditionalOverride :: "access_parser \<Rightarrow> 'a reader_element_scheme \<Rightarrow> string \<Rightarrow> bool" where
  "hasConditionalOverride p way restrictedKey = conditional_override p (restrictionKeys p) restrictedKey way"

definition firstRestrictionValue :: "access_parser \<Rightarrow> 'a reader_element_scheme \<Rightarrow> string" where
  "firstRestrictionValue p way = GetFirstValue (restrictionKeys p) way"

definition getFerryAccess :: "access_parser \<Rightarrow> 'a reader_element_scheme \<Rightarrow> string \<Rightarrow> way_access" where
  "getFerryAccess p way highway =
     (let firstValue = firstRestrictionValue p way;
          ferryAllowed = firstValue \<in> allowedValues p \<or>
            (firstValue = [] \<and> \<not> HasTag ''foot'' [] way \<and> \<not> HasTag ''bicycle'' [] way) \<or> HasTag ''hgv'' [''yes''] way
      in if \<not> ferryAllowed then WayAccessCanSkip else if highway \<noteq> [] then WayAccessCanSkip else WayAccessFerry)"

definition getAccessForFord :: "access_parser \<Rightarrow> 'a reader_element_scheme \<Rightarrow> way_access" where
  "getAccessForFord p way =
     (if list_ex (\<lambda>key. let v = GetTag key way in v \<noteq> [] \<and> v \<in> allowedValues p) (restrictionKeys p) then WayAccessWay
      else WayAccessCanSkip)"

fun access_restriction :: "access_parser \<Rightarrow> string list \<Rightarrow> 'a reader_element_scheme \<Rightarrow> way_access option" where
  "access_restriction p [] way = None"
| "access_restriction p (key # ks) way =
     (let v = GetTag key way in
      if v = [] then access_restriction p ks way
      else if anySemicolonPartInSet v (allowedValues p) then Some WayAccessWay
      else if anySemicolonPartInSet v (restrictedValues p)
        then if hasConditionalOverride p way key then Some WayAccessWay else Some WayAccessCanSkip
      else access_restriction p ks way)"

definition getAccessFromRestrictions :: "access_parser \<Rightarrow> 'a reader_element_scheme \<Rightarrow> way_access" where
  "getAccessFromRestrictions p way = (case access_restriction p (restrictionKeys p) way of
     Some a \<Rightarrow> a
   | None \<Rightarrow> if GetTag ''service'' way = ''emergency_access'' then WayAccessCanSkip else WayAccessWay)"

definition getAccess :: "access_parser \<Rightarrow> 'a reader_element_scheme \<Rightarrow> string set \<Rightarrow> string set \<Rightarrow> way_access" where
  "getAccess p way highwayValues trackTypeValues =
     (let highway = GetTag ''highway'' way; trackType = GetTag ''tracktype'' way in
      if IsFerry way then getFerryAccess p way highway
      else if highway = [] \<or> highway \<notin> highwayValues then WayAccessCanSkip
      else if highway = ''track'' \<and> trackType \<noteq> [] \<and> trackType \<notin> trackTypeValues then WayAccessCanSkip
      else if blockFords p \<and> HasTag ''ford'' [''yes''] way then getAccessForFord p way
      else getAccessFromRestrictions p way)"

section \<open>Cars\<close>

definition carHighwayValues :: "string set" where
  "carHighwayValues = {''motorway'', ''motorway_link'', ''trunk'', ''trunk_link'', ''primary'', ''primary_link'',
     ''secondary'', ''secondary_link'', ''tertiary'', ''tertiary_link'', ''unclassified'', ''residential'',
     ''living_street'', ''service'', ''road'', ''track'', ''pedestrian''}"

definition carTrackTypeValues :: "string set" where "carTrackTypeValues = {''grade1'', ''grade2'', ''grade3'', ''''}"

definition carBarriers :: "string set" where
  "carBarriers = {''kissing_gate'', ''fence'', ''bollard'', ''stile'', ''turnstile'', ''cycle_barrier'',
     ''motorcycle_barrier'', ''block'', ''bus_trap'', ''sump_buster'', ''jersey_barrier''}"

text \<open>\<open>lookup\<close> finds a flag by its name, and panics for an unknown one.\<close>

definition NewCarAccessParser :: "(string \<Rightarrow> int_ev option) \<Rightarrow> bool \<Rightarrow> bool \<Rightarrow> access_parser option" where
  "NewCarAccessParser lookup fords private = do {
     accessEv \<leftarrow> lookup (VehicleAccessKey ''car'');
     roundaboutEv \<leftarrow> lookup ''roundabout'';
     let base = newAbstractAccessParser accessEv roundaboutEv (ToOSMRestrictions ModeCar);
     let base = base\<lparr>restrictedValues := restrictedValues base \<union> {''agricultural'', ''forestry'', ''delivery''},
       barriers := barriers base \<union> carBarriers, blockFords := fords, blockPrivate := private\<rparr>;
     Some (if \<not> private then base\<lparr>restrictedValues := restrictedValues base - {''private'', ''permit''}\<rparr> else base) }"

fun pedestrian_loop :: "access_parser \<Rightarrow> string list \<Rightarrow> 'a reader_element_scheme \<Rightarrow> way_access" where
  "pedestrian_loop p [] way = WayAccessCanSkip"
| "pedestrian_loop p (key # ks) way =
     (let v = GetTag key way; condVal = GetTag (key @ '':conditional'') way in
      if v \<noteq> [] \<and> v \<in> allowedValues p then WayAccessWay
      else if v \<noteq> [] \<and> v \<in> restrictedValues p then WayAccessCanSkip
      else if condVal \<noteq> [] \<and> conditional_allowed p condVal then WayAccessWay
      else pedestrian_loop p ks way)"

definition pedestrianAccess :: "access_parser \<Rightarrow> 'a reader_element_scheme \<Rightarrow> way_access" where
  "pedestrianAccess p way = pedestrian_loop p (restrictionKeys p) way"

definition car_GetAccess :: "access_parser \<Rightarrow> 'a reader_element_scheme \<Rightarrow> way_access" where
  "car_GetAccess p way =
     (let highway = GetTag ''highway'' way in
      if highway = ''pedestrian'' then pedestrianAccess p way
      else let access = getAccess p way carHighwayValues carTrackTypeValues in
        if access = WayAccessCanSkip then access
        else if highway = ''footway'' \<or> highway = ''cycleway'' \<or> highway = ''steps'' then WayAccessCanSkip else access)"

definition car_HandleWayTags ::
  "'s edge_int_access \<Rightarrow> int \<Rightarrow> reader_way \<Rightarrow> access_parser \<Rightarrow> 's \<Rightarrow> (access_parser \<times> 's) option" where
  "car_HandleWayTags ops edgeID way p s =
     (let access = car_GetAccess p way in
      if access = WayAccessCanSkip then Some (p, s)
      else if access = WayAccessFerry then do {
        (e, s) \<leftarrow> SetBool ops False edgeID s True (accessEnc p);
        (e, s) \<leftarrow> SetBool ops True edgeID s True e;
        Some (p\<lparr>accessEnc := e\<rparr>, s) }
      else do {
        (e, s) \<leftarrow> (if isOneway way then SetBool ops False edgeID s True (accessEnc p)
          else if isReverseOneway way then SetBool ops True edgeID s True (accessEnc p)
          else if isDirectionBlocked ''forward'' way then SetBool ops True edgeID s True (accessEnc p)
          else if isDirectionBlocked ''backward'' way then SetBool ops False edgeID s True (accessEnc p)
          else do {
            (e, s) \<leftarrow> SetBool ops False edgeID s True (accessEnc p);
            SetBool ops True edgeID s True e });
        r \<leftarrow> GetBool ops False edgeID s (roundaboutEnc p);
        (e, s) \<leftarrow> (if r then SetBool ops True edgeID s False e else Some (e, s));
        Some (p\<lparr>accessEnc := e\<rparr>, s) })"

section \<open>Roads\<close>

definition road_class_HandleWayTags ::
  "'s edge_int_access \<Rightarrow> int \<Rightarrow> reader_way \<Rightarrow> enum_ev \<Rightarrow> 's \<Rightarrow> (enum_ev \<times> 's) option" where
  "road_class_HandleWayTags ops edgeID way e s =
     (let highway = GetTag ''highway'' way; rc = RoadClassFind highway;
          rc = (if rc = 0 \<and> HasSuffix highway ''_link'' then RoadClassFind (TrimSuffix highway ''_link'') else rc)
      in if rc \<noteq> 0 then SetEnum ops False edgeID s rc e else Some (e, s))"

definition link_HandleWayTags :: "'s edge_int_access \<Rightarrow> int \<Rightarrow> reader_way \<Rightarrow> int_ev \<Rightarrow> 's \<Rightarrow> (int_ev \<times> 's) option" where
  "link_HandleWayTags ops edgeID way e s =
     (if HasSuffix (GetTag ''highway'' way) ''_link'' then SetBool ops False edgeID s True e else Some (e, s))"

definition roundabout_HandleWayTags :: "'s edge_int_access \<Rightarrow> int \<Rightarrow> reader_way \<Rightarrow> int_ev \<Rightarrow> 's \<Rightarrow> (int_ev \<times> 's) option" where
  "roundabout_HandleWayTags ops edgeID way e s =
     (let junction = GetTag ''junction'' way in
      if junction = ''roundabout'' \<or> junction = ''circular'' then SetBool ops False edgeID s True e else Some (e, s))"

definition way_id_HandleWayTags :: "'s edge_int_access \<Rightarrow> int \<Rightarrow> reader_way \<Rightarrow> int_ev \<Rightarrow> 's \<Rightarrow> (int_ev \<times> 's) option" where
  "way_id_HandleWayTags ops edgeID way e s = do {
     check (\<not> el_id way > sint (MaxStorableValue e));
     ev_SetInt ops False edgeID s (word_of_int (el_id way)) e }"

definition roadEnvironment :: "'a reader_element_scheme \<Rightarrow> int" where
  "roadEnvironment way =
     (let route = GetTag ''route'' way in
      if route = ''ferry'' \<or> route = ''shuttle_train'' then 2
      else if HasTag ''bridge'' [''yes''] way then 4
      else if HasTag ''tunnel'' [''yes''] way then 3
      else if HasTag ''ford'' [''yes''] way \<or> HasTag ''highway'' [''ford''] way then 5
      else 1)"

definition environment_HandleWayTags ::
  "'s edge_int_access \<Rightarrow> int \<Rightarrow> reader_way \<Rightarrow> enum_ev \<Rightarrow> 's \<Rightarrow> (enum_ev \<times> 's) option" where
  "environment_HandleWayTags ops edgeID way e s = SetEnum ops False edgeID s (roadEnvironment way) e"

text \<open>The loop over the parts of a restriction, with the best access found so far.\<close>

fun best_access :: "string list \<Rightarrow> int \<times> bool \<Rightarrow> int \<times> bool" where
  "best_access [] b = b"
| "best_access (part # ps) (best, found) =
     (let ra = RoadAccessFind (TrimSpace part) in
      if \<not> found \<or> ra < best then best_access ps (ra, True) else best_access ps (best, found))"

fun road_access_loop :: "string list \<Rightarrow> 'a reader_element_scheme \<Rightarrow> int \<times> bool \<Rightarrow> int \<times> bool" where
  "road_access_loop [] way b = b"
| "road_access_loop (key # ks) way b =
     (let v = GetTag key way in
      if v = [] then road_access_loop ks way b else road_access_loop ks way (best_access (strings_Split v (CHR '';'')) b))"

definition road_access_HandleWayTags ::
  "'s edge_int_access \<Rightarrow> string list \<Rightarrow> int \<Rightarrow> reader_way \<Rightarrow> enum_ev \<Rightarrow> 's \<Rightarrow> (enum_ev \<times> 's) option" where
  "road_access_HandleWayTags ops ks edgeID way e s =
     (let (best, found) = road_access_loop ks way (0, False) in
      if found \<and> best \<noteq> 0 then SetEnum ops False edgeID s best e else Some (e, s))"

section \<open>The parsers of an import\<close>

type_synonym 's tag_parser = "int \<Rightarrow> reader_way \<Rightarrow> ints_ref \<Rightarrow> 's \<Rightarrow> 's option"

record ('s, 'r) osm_parsers =
  ignoredHighways :: "string list"
  wayTagParsers :: "'s tag_parser list"
  relationTagParsers :: "((ints_ref \<Rightarrow> 'r \<Rightarrow> ints_ref option) \<times> 's tag_parser) list"
  relConfig :: init_config

definition NewOSMParsers :: "('s, 'r) osm_parsers" where
  "NewOSMParsers = \<lparr>ignoredHighways = [], wayTagParsers = [], relationTagParsers = [], relConfig = NewInitializerConfig\<rparr>"

definition AddIgnoredHighway :: "string \<Rightarrow> ('s, 'r) osm_parsers \<Rightarrow> ('s, 'r) osm_parsers" where
  "AddIgnoredHighway highway p = p\<lparr>ignoredHighways := ignoredHighways p @ [highway]\<rparr>"

definition AddWayTagParser :: "'s tag_parser \<Rightarrow> ('s, 'r) osm_parsers \<Rightarrow> ('s, 'r) osm_parsers" where
  "AddWayTagParser tp p = p\<lparr>wayTagParsers := wayTagParsers p @ [tp]\<rparr>"

definition AddRelationTagParser ::
  "(ints_ref \<Rightarrow> 'r \<Rightarrow> ints_ref option) \<times> 's tag_parser \<Rightarrow> ('s, 'r) osm_parsers \<Rightarrow> ('s, 'r) osm_parsers" where
  "AddRelationTagParser tp p = p\<lparr>relationTagParsers := relationTagParsers p @ [tp]\<rparr>"

definition AcceptWay :: "('s, 'r) osm_parsers \<Rightarrow> reader_way \<Rightarrow> bool" where
  "AcceptWay p way =
     (let highway = GetTag ''highway'' way in
      if highway \<noteq> [] then highway \<notin> set (ignoredHighways p)
      else if GetTag ''route'' way \<noteq> [] then True
      else if GetTag ''man_made'' way = ''pier'' then True
      else GetTag ''railway'' way = ''platform'')"

fun relation_flags_loop :: "(ints_ref \<Rightarrow> 'r \<Rightarrow> ints_ref option) list \<Rightarrow> 'r \<Rightarrow> ints_ref \<Rightarrow> ints_ref option" where
  "relation_flags_loop [] relation relFlags = Some relFlags"
| "relation_flags_loop (f # fs) relation relFlags = do { relFlags \<leftarrow> f relFlags relation; relation_flags_loop fs relation relFlags }"

definition HandleRelationTags :: "('s, 'r) osm_parsers \<Rightarrow> 'r \<Rightarrow> ints_ref \<Rightarrow> ints_ref option" where
  "HandleRelationTags p relation relFlags = relation_flags_loop (map fst (relationTagParsers p)) relation relFlags"

fun way_tags_loop :: "'s tag_parser list \<Rightarrow> int \<Rightarrow> reader_way \<Rightarrow> ints_ref \<Rightarrow> 's \<Rightarrow> 's option" where
  "way_tags_loop [] edgeID way relationFlags s = Some s"
| "way_tags_loop (f # fs) edgeID way relationFlags s = do {
     s \<leftarrow> f edgeID way relationFlags s;
     way_tags_loop fs edgeID way relationFlags s }"

definition HandleWayTags :: "('s, 'r) osm_parsers \<Rightarrow> int \<Rightarrow> reader_way \<Rightarrow> ints_ref \<Rightarrow> 's \<Rightarrow> 's option" where
  "HandleWayTags p edgeID way relationFlags s = do {
     s \<leftarrow> way_tags_loop (map snd (relationTagParsers p)) edgeID way relationFlags s;
     way_tags_loop (wayTagParsers p) edgeID way relationFlags s }"

definition CreateRelationFlags :: "('s, 'r) osm_parsers \<Rightarrow> ints_ref option" where
  "CreateRelationFlags p = do {
     check (\<not> GetRequiredInts (relConfig p) > 2);
     NewIntsRef 2 }"

end
