(* ===== verification/CarTags.thy ===== *)
theory CarTags imports AccessParsers begin

text \<open>
  Rules for cars on the tags of a way, stated on their own, and the access parser of cars against them: which ways are
  closed, which are ferries, and which directions of the others are blocked.
\<close>

section \<open>Words of a tag\<close>

fun joined :: "char \<Rightarrow> string list \<Rightarrow> string" where
  "joined c [] = []"
| "joined c [w] = w"
| "joined c (w # ws) = w @ c # joined c ws"

text \<open>A value lists words, separated by semicolons, one of which is in \<open>xs\<close>.\<close>

definition mentions :: "string \<Rightarrow> string set \<Rightarrow> bool" where
  "mentions v xs \<longleftrightarrow> (\<exists>ws. joined (CHR '';'') ws = v \<and> (\<forall>w \<in> set ws. CHR '';'' \<notin> set w) \<and> (\<exists>w \<in> set ws. TrimSpace w \<in> xs))"

lemma Split_nonempty [simp]: "strings_Split v c \<noteq> []"
  by (induction v) auto

lemma Split_parts: "joined c (strings_Split v c) = v \<and> (\<forall>w \<in> set (strings_Split v c). c \<notin> set w)"
proof (induction v)
  case (Cons x v)
  obtain w ws where S: "strings_Split v c = w # ws" by (cases "strings_Split v c") auto
  show ?case using Cons by (cases ws) (auto simp: S)
qed simp

lemma Split_char_word: "c \<notin> set w \<Longrightarrow> strings_Split (w @ c # v) c = w # strings_Split v c" "c \<notin> set w \<Longrightarrow> strings_Split w c = [w]"
  by (induction w) auto

lemma Split_joined: "ws \<noteq> [] \<Longrightarrow> \<forall>w \<in> set ws. c \<notin> set w \<Longrightarrow> strings_Split (joined c ws) c = ws"
  by (induction c ws rule: joined.induct) (simp_all add: Split_char_word)

lemma anySemicolonPart_mentions: "anySemicolonPartInSet v xs = mentions v xs"
proof
  assume "anySemicolonPartInSet v xs"
  then show "mentions v xs" using Split_parts [of "CHR '';''" v] by (auto simp: anySemicolonPartInSet_def mentions_def list_ex_iff)
next
  assume "mentions v xs"
  then obtain ws where ws: "joined (CHR '';'') ws = v" "\<forall>w \<in> set ws. CHR '';'' \<notin> set w" "\<exists>w \<in> set ws. TrimSpace w \<in> xs"
    by (auto simp: mentions_def)
  then have "strings_Split v (CHR '';'') = ws" using Split_joined [of ws] by fastforce
  then show "anySemicolonPartInSet v xs" using ws(3) by (simp add: anySemicolonPartInSet_def list_ex_iff)
qed

section \<open>The rules\<close>

text \<open>The tags about access that concern a car, from the most specific one, and what their words mean.\<close>

definition car_keys :: "string list" where "car_keys = [''motorcar'', ''motor_vehicle'', ''vehicle'', ''access'']"

definition granting :: "string set" where "granting = {''yes'', ''designated'', ''official'', ''permissive'', ''destination''}"

definition refusing :: "bool \<Rightarrow> string set" where
  "refusing private = {''no'', ''restricted'', ''military'', ''emergency'', ''agricultural'', ''forestry'', ''delivery''} \<union>
     (if private then {''private'', ''permit''} else {})"

definition car_tag :: "nat \<Rightarrow> 'a reader_element_scheme \<Rightarrow> string" where "car_tag i way = GetTag (car_keys ! i) way"

definition grants :: "nat \<Rightarrow> 'a reader_element_scheme \<Rightarrow> bool" where "grants i way \<longleftrightarrow> mentions (car_tag i way) granting"

definition forbids :: "bool \<Rightarrow> nat \<Rightarrow> 'a reader_element_scheme \<Rightarrow> bool" where
  "forbids private i way \<longleftrightarrow> mentions (car_tag i way) (refusing private) \<and> \<not> grants i way"

text \<open>The conditional form of the tag starts with a word that grants access, before its condition.\<close>

definition lifted :: "nat \<Rightarrow> 'a reader_element_scheme \<Rightarrow> bool" where
  "lifted i way \<longleftrightarrow> (\<exists>w rest. GetTag (car_keys ! i @ '':conditional'') way = w @ CHR ''@'' # rest \<and> CHR ''@'' \<notin> set w \<and>
     TrimSpace w \<in> granting)"

text \<open>A road is closed by a tag when no more specific one grants access or is lifted.\<close>

definition road_closed :: "bool \<Rightarrow> 'a reader_element_scheme \<Rightarrow> bool" where
  "road_closed private way \<longleftrightarrow>
     (\<exists>i < 4. forbids private i way \<and> (\<forall>j < i. \<not> grants j way \<and> \<not> lifted j way)) \<or>
     (GetTag ''service'' way = ''emergency_access'' \<and> (\<forall>i < 4. \<not> grants i way \<and> \<not> forbids private i way))"

text \<open>A pedestrian way is closed unless a tag opens it and none that is as specific forbids it.\<close>

definition pedestrian_open :: "bool \<Rightarrow> 'a reader_element_scheme \<Rightarrow> bool" where
  "pedestrian_open private way \<longleftrightarrow>
     (\<exists>i < 4. (car_tag i way \<in> granting \<or> lifted i way) \<and> (\<forall>j \<le> i. car_tag j way \<notin> refusing private))"

text \<open>The ways a car drives on.\<close>

definition drivable :: "string set" where
  "drivable = {c @ s |c s. c \<in> {''motorway'', ''trunk'', ''primary'', ''secondary'', ''tertiary''} \<and> s \<in> {'''', ''_link''}} \<union>
     {''unclassified'', ''residential'', ''living_street'', ''service'', ''road'', ''track''}"

definition ferry :: "'a reader_element_scheme \<Rightarrow> bool" where
  "ferry way \<longleftrightarrow> (\<exists>kind \<in> {''ferry'', ''shuttle_train''}. GetTag ''route'' way = kind \<and> GetTag kind way \<noteq> ''no'')"

definition car_road :: "bool \<Rightarrow> bool \<Rightarrow> 'a reader_element_scheme \<Rightarrow> bool" where
  "car_road fords private way \<longleftrightarrow>
     (if GetTag ''highway'' way = ''pedestrian'' then pedestrian_open private way
      else GetTag ''highway'' way \<in> drivable \<and> \<not> ferry way \<and>
        (GetTag ''highway'' way = ''track'' \<longrightarrow> GetTag ''tracktype'' way \<in> {'''', ''grade1'', ''grade2'', ''grade3''}) \<and>
        (if fords \<and> GetTag ''ford'' way = ''yes'' then \<exists>i < 4. car_tag i way \<in> granting else \<not> road_closed private way))"

text \<open>A ferry takes cars when its most specific tag says so, or when it names neither those who may use it, or takes lorries.\<close>

definition car_ferry :: "'a reader_element_scheme \<Rightarrow> bool" where
  "car_ferry way \<longleftrightarrow> ferry way \<and> GetTag ''highway'' way = [] \<and>
     ((\<exists>i < 4. car_tag i way \<in> granting \<and> (\<forall>j < i. car_tag j way = [])) \<or>
      ((\<forall>i < 4. car_tag i way = []) \<and> map_of (properties way) ''foot'' = None \<and> map_of (properties way) ''bicycle'' = None) \<or>
      GetTag ''hgv'' way = ''yes'')"

text \<open>Against the order of the nodes of the way, or along it.\<close>

definition blocked :: "bool \<Rightarrow> 'a reader_element_scheme \<Rightarrow> bool" where
  "blocked against way \<longleftrightarrow> (\<exists>who \<in> {''vehicle'', ''motor_vehicle'', ''motorcar''}.
     GetTag (who @ (if against then '':backward'' else '':forward'')) way = ''no'')"

definition car_direction :: "bool \<Rightarrow> 'a reader_element_scheme \<Rightarrow> bool" where
  "car_direction against way \<longleftrightarrow>
     (if GetTag ''oneway'' way \<in> {''yes'', ''1'', ''true''} then \<not> against
      else if GetTag ''oneway'' way \<in> {''-1'', ''reverse''} then against
      else \<not> blocked against way)"

section \<open>The parser\<close>

definition car_parser :: "bool \<Rightarrow> bool \<Rightarrow> access_parser \<Rightarrow> bool" where
  "car_parser fords private p \<longleftrightarrow> restrictionKeys p = car_keys \<and> allowedValues p = granting \<and> restrictedValues p = refusing private \<and>
     blockFords p = fords"

lemma NewCarAccessParser_fields:
  assumes "NewCarAccessParser lookup fords private = Some p"
  shows "car_parser fords private p" "lookup ''car_access'' = Some (accessEnc p)" "lookup ''roundabout'' = Some (roundaboutEnc p)"
proof -
  have k: "VehicleAccessKey ''car'' = ''car_access''" by (simp add: VehicleAccessKey_def GetKey_def)
  have r: "restrictedValues (newAbstractAccessParser a ra ks) \<union> {''agricultural'', ''forestry'', ''delivery''} = refusing True"
    "refusing True - {''private'', ''permit''} = refusing False" for a ra ks
    unfolding refusing_def newAbstractAccessParser_def by force+
  obtain a ra where L: "lookup ''car_access'' = Some a" "lookup ''roundabout'' = Some ra"
    using assms unfolding NewCarAccessParser_def k by (auto split: Option.bind_splits)
  define base where "base = newAbstractAccessParser a ra (ToOSMRestrictions ModeCar)"
  define cars where "cars = base\<lparr>restrictedValues := refusing True, barriers := barriers base \<union> carBarriers,
    blockFords := fords, blockPrivate := private\<rparr>"
  have "p = (if \<not> private then cars\<lparr>restrictedValues := restrictedValues cars - {''private'', ''permit''}\<rparr> else cars)"
    using assms unfolding NewCarAccessParser_def k L Let_def Option.bind.bind_lunit r(1) base_def [symmetric] cars_def [symmetric]
    by (simp del: insert_iff)
  then have "p = cars\<lparr>restrictedValues := refusing private\<rparr>" using r(2) by (cases "private") (simp_all add: cars_def)
  then show "car_parser fords private p" "lookup ''car_access'' = Some (accessEnc p)" "lookup ''roundabout'' = Some (roundaboutEnc p)"
    using L by (simp_all add: cars_def base_def newAbstractAccessParser_def car_parser_def ToOSMRestrictions_def car_keys_def granting_def)
qed

lemma less_4: "(\<exists>i < 4. P i) = (P 0 \<or> P 1 \<or> P 2 \<or> P (3 :: nat))" "(\<forall>i < 4. P i) = (P 0 \<and> P 1 \<and> P 2 \<and> P (3 :: nat))"
  by (auto simp: numeral_eq_Suc less_Suc_eq)

lemma less_3:
  "(\<forall>j < 3. P j) = (P 0 \<and> P 1 \<and> P (2 :: nat))" "(\<forall>j < 2. P j) = (P 0 \<and> P (1 :: nat))" "(\<forall>j < 1. P j) = P (0 :: nat)"
  "(\<forall>j \<le> 3. P j) = (P 0 \<and> P 1 \<and> P 2 \<and> P (3 :: nat))" "(\<forall>j \<le> 2. P j) = (P 0 \<and> P 1 \<and> P (2 :: nat))" "(\<forall>j \<le> 1. P j) = (P 0 \<and> P (1 :: nat))"
  by (auto simp: numeral_eq_Suc less_Suc_eq le_Suc_eq)

lemma car_keys_nth: "car_keys ! 0 = ''motorcar''" "car_keys ! 1 = ''motor_vehicle''" "car_keys ! 2 = ''vehicle''" "car_keys ! 3 = ''access''"
  by (simp_all add: car_keys_def)

lemma car_keys_list: "car_keys = [car_keys ! 0, car_keys ! 1, car_keys ! 2, car_keys ! 3]" by (simp add: car_keys_def)

lemma words_nonempty: "[] \<notin> granting" "[] \<notin> refusing private" "granting \<inter> refusing private = {}"
  by (auto simp: granting_def refusing_def)

lemma TrimSpace_Nil: "TrimSpace [] = []" by (simp add: TrimSpace_def Let_def)

lemma mentions_Nil: "[] \<notin> xs \<Longrightarrow> \<not> mentions [] xs"
  by (simp add: anySemicolonPart_mentions [symmetric] anySemicolonPartInSet_def TrimSpace_Nil)

lemma conditional_lifted:
  assumes "car_parser fords private p"
  shows "(GetTag (car_keys ! i @ '':conditional'') way \<noteq> [] \<and> conditional_allowed p (GetTag (car_keys ! i @ '':conditional'') way)) = lifted i way"
proof -
  let ?v = "GetTag (car_keys ! i @ '':conditional'') way"
  have "(\<exists>w rest. v = w @ CHR ''@'' # rest \<and> CHR ''@'' \<notin> set w \<and> TrimSpace w \<in> granting) = (v \<noteq> [] \<and> conditional_allowed p v)" for v
  proof
    assume "\<exists>w rest. v = w @ CHR ''@'' # rest \<and> CHR ''@'' \<notin> set w \<and> TrimSpace w \<in> granting"
    then obtain w rest where w: "v = w @ CHR ''@'' # rest" "CHR ''@'' \<notin> set w" "TrimSpace w \<in> granting" by blast
    have "List.find (\<lambda>i. v ! i = CHR ''@'') [0..<length v] = Some (length w)"
      using w(1,2) by (auto simp: find_Some_iff nth_append in_set_conv_nth intro!: exI [of _ "length w"])
    then show "v \<noteq> [] \<and> conditional_allowed p v"
      using w assms by (simp add: conditional_allowed_def strings_Index_char_def car_parser_def)
  next
    assume c: "v \<noteq> [] \<and> conditional_allowed p v"
    then obtain i where i: "List.find (\<lambda>i. v ! i = CHR ''@'') [0..<length v] = Some i" "TrimSpace (take i v) \<in> granting"
      using assms by (auto simp: conditional_allowed_def strings_Index_char_def Let_def car_parser_def split: option.splits)
    then have "i < length v" "v ! i = CHR ''@''" "\<forall>j < i. v ! j \<noteq> CHR ''@''" by (auto simp: find_Some_iff)
    then have "v = take i v @ CHR ''@'' # drop (Suc i) v" "CHR ''@'' \<notin> set (take i v)"
      by (simp_all add: id_take_nth_drop in_set_conv_nth) (metis id_take_nth_drop)
    then show "\<exists>w rest. v = w @ CHR ''@'' # rest \<and> CHR ''@'' \<notin> set w \<and> TrimSpace w \<in> granting" using i(2) by blast
  qed
  from this [of ?v] show ?thesis by (simp add: lifted_def)
qed

lemma road_rules:
  assumes "car_parser fords private p"
  shows "getAccessFromRestrictions p way = (if road_closed private way then WayAccessCanSkip else WayAccessWay)"
proof -
  note P = assms [unfolded car_parser_def]
  have ne: "\<not> mentions [] granting" "\<not> mentions [] (refusing private)" by (rule mentions_Nil, rule words_nonempty)+
  have step: "access_restriction p (car_keys ! i # ks) way =
      (if grants i way then Some WayAccessWay
       else if forbids private i way then Some (if hasConditionalOverride p way (car_keys ! i) then WayAccessWay else WayAccessCanSkip)
       else access_restriction p ks way)" for i ks
    using ne P
    by (cases "GetTag (car_keys ! i) way = []")
      (simp_all add: anySemicolonPart_mentions grants_def forbids_def car_tag_def Let_def)
  have c: "conditional_override p (car_keys ! i # ks) k way =
      (if car_keys ! i = k then False else lifted i way \<or> conditional_override p ks k way)" for i ks k
    using conditional_lifted [OF assms, of i way] by (auto simp: Let_def)
  have o: "conditional_override p car_keys k way =
      (if car_keys ! 0 = k then False else lifted 0 way \<or> (if car_keys ! 1 = k then False else lifted 1 way \<or>
        (if car_keys ! 2 = k then False else lifted 2 way \<or> (if car_keys ! 3 = k then False else lifted 3 way))))" for k
    by (subst car_keys_list) (simp only: c conditional_override.simps(1) simp_thms)
  have d: "hasConditionalOverride p way (car_keys ! 0) = False" "hasConditionalOverride p way (car_keys ! 1) = lifted 0 way"
    "hasConditionalOverride p way (car_keys ! 2) = (lifted 0 way \<or> lifted 1 way)"
    "hasConditionalOverride p way (car_keys ! 3) = (lifted 0 way \<or> lifted 1 way \<or> lifted 2 way)"
    unfolding hasConditionalOverride_def P [THEN conjunct1] o car_keys_nth by simp_all
  have r: "access_restriction p (restrictionKeys p) way =
      (if grants 0 way then Some WayAccessWay else if forbids private 0 way then Some WayAccessCanSkip
       else if grants 1 way then Some WayAccessWay else if forbids private 1 way then Some (if lifted 0 way then WayAccessWay else WayAccessCanSkip)
       else if grants 2 way then Some WayAccessWay
       else if forbids private 2 way then Some (if lifted 0 way \<or> lifted 1 way then WayAccessWay else WayAccessCanSkip)
       else if grants 3 way then Some WayAccessWay
       else if forbids private 3 way then Some (if lifted 0 way \<or> lifted 1 way \<or> lifted 2 way then WayAccessWay else WayAccessCanSkip)
       else None)"
    unfolding P [THEN conjunct1]
    by (subst car_keys_list) (simp only: step d access_restriction.simps(1) if_False)
  show ?thesis
    unfolding getAccessFromRestrictions_def r road_closed_def less_4 less_3 by (auto simp: forbids_def)
qed

lemma pedestrian_rules:
  assumes "car_parser fords private p"
  shows "pedestrianAccess p way = (if pedestrian_open private way then WayAccessWay else WayAccessCanSkip)"
proof -
  note P = assms [unfolded car_parser_def]
  have step: "pedestrian_loop p (car_keys ! i # ks) way =
      (if car_tag i way \<in> granting then WayAccessWay else if car_tag i way \<in> refusing private then WayAccessCanSkip
       else if lifted i way then WayAccessWay else pedestrian_loop p ks way)" for i ks
    using conditional_lifted [OF assms, of i way] P words_nonempty(1,2)
    by (auto simp: car_tag_def Let_def)
  have x: "car_tag i way \<in> granting \<Longrightarrow> car_tag i way \<notin> refusing private" for i using words_nonempty(3) by blast
  have r: "pedestrianAccess p way =
      (if car_tag 0 way \<in> granting then WayAccessWay else if car_tag 0 way \<in> refusing private then WayAccessCanSkip
       else if lifted 0 way then WayAccessWay
       else if car_tag 1 way \<in> granting then WayAccessWay else if car_tag 1 way \<in> refusing private then WayAccessCanSkip
       else if lifted 1 way then WayAccessWay
       else if car_tag 2 way \<in> granting then WayAccessWay else if car_tag 2 way \<in> refusing private then WayAccessCanSkip
       else if lifted 2 way then WayAccessWay
       else if car_tag 3 way \<in> granting then WayAccessWay else if car_tag 3 way \<in> refusing private then WayAccessCanSkip
       else if lifted 3 way then WayAccessWay else WayAccessCanSkip)"
    unfolding pedestrianAccess_def P [THEN conjunct1]
    by (subst car_keys_list) (simp add: step del: pedestrian_loop.simps(2))
  show ?thesis
    unfolding r pedestrian_open_def less_4 less_3 using x [of 0] x [of 1] x [of 2] x [of 3] by simp
qed

lemma ferry_rules:
  assumes "car_parser fords private p"
  shows "IsFerry way = ferry way"
    "getFerryAccess p way highway = (if highway = [] \<and>
      ((\<exists>i < 4. car_tag i way \<in> granting \<and> (\<forall>j < i. car_tag j way = [])) \<or>
       ((\<forall>i < 4. car_tag i way = []) \<and> map_of (properties way) ''foot'' = None \<and> map_of (properties way) ''bicycle'' = None) \<or>
       GetTag ''hgv'' way = ''yes'') then WayAccessFerry else WayAccessCanSkip)"
proof -
  note P = assms [unfolded car_parser_def]
  show "IsFerry way = ferry way" by (auto simp: IsFerry_def ferry_def Let_def)
  have f: "firstRestrictionValue p way = (if car_tag 0 way \<noteq> [] then car_tag 0 way else if car_tag 1 way \<noteq> [] then car_tag 1 way
      else if car_tag 2 way \<noteq> [] then car_tag 2 way else car_tag 3 way)"
    unfolding firstRestrictionValue_def P [THEN conjunct1] by (subst car_keys_list) (simp add: car_tag_def)
  show "getFerryAccess p way highway = (if highway = [] \<and>
      ((\<exists>i < 4. car_tag i way \<in> granting \<and> (\<forall>j < i. car_tag j way = [])) \<or>
       ((\<forall>i < 4. car_tag i way = []) \<and> map_of (properties way) ''foot'' = None \<and> map_of (properties way) ''bicycle'' = None) \<or>
       GetTag ''hgv'' way = ''yes'') then WayAccessFerry else WayAccessCanSkip)"
    unfolding getFerryAccess_def f less_4 less_3 HasTag_def Let_def using P words_nonempty(1) by simp
qed

lemma ford_rules:
  assumes "car_parser fords private p"
  shows "getAccessForFord p way = (if \<exists>i < 4. car_tag i way \<in> granting then WayAccessWay else WayAccessCanSkip)"
proof -
  note P = assms [unfolded car_parser_def]
  have "list_ex (\<lambda>key. let v = GetTag key way in v \<noteq> [] \<and> v \<in> allowedValues p) (restrictionKeys p) =
      (\<exists>i < 4. car_tag i way \<in> granting)"
    unfolding less_4 P [THEN conjunct1] using P words_nonempty(1) by (subst car_keys_list) (auto simp: car_tag_def)
  then show ?thesis by (simp add: getAccessForFord_def)
qed

lemma drivable_words: "drivable = {''motorway'', ''motorway_link'', ''trunk'', ''trunk_link'', ''primary'', ''primary_link'',
  ''secondary'', ''secondary_link'', ''tertiary'', ''tertiary_link'', ''unclassified'', ''residential'',
  ''living_street'', ''service'', ''road'', ''track''}"
proof -
  have "{c @ s |c s. c \<in> A \<and> s \<in> B} = (\<Union>c \<in> A. \<Union>s \<in> B. {c @ s})" for A B :: "string set" by blast
  then show ?thesis unfolding drivable_def by (simp only: UN_insert UN_empty Un_empty_right append.simps Un_insert_left Un_empty_left)
qed

lemma drivable_values: "x \<noteq> ''pedestrian'' \<Longrightarrow> x \<in> carHighwayValues \<longleftrightarrow> x \<in> drivable"
  unfolding drivable_words carHighwayValues_def by (simp only: insert_iff simp_thms empty_iff)

lemma not_drivable: "x \<in> drivable \<Longrightarrow> x \<noteq> [] \<and> x \<noteq> ''footway'' \<and> x \<noteq> ''cycleway'' \<and> x \<noteq> ''steps'' \<and> x \<noteq> ''pedestrian''"
  unfolding drivable_words by auto

lemma car_GetAccess_rules:
  assumes "car_parser fords private p"
  shows "car_GetAccess p way =
    (if car_ferry way then WayAccessFerry else if car_road fords private way then WayAccessWay else WayAccessCanSkip)"
proof -
  note P = assms [unfolded car_parser_def]
  let ?h = "GetTag ''highway'' way" and ?t = "GetTag ''tracktype'' way"
  show ?thesis
  proof (cases "?h = ''pedestrian''")
    case True
    then show ?thesis by (simp add: car_GetAccess_def pedestrian_rules [OF assms] car_ferry_def car_road_def)
  next
    case False
    have h: "?h \<in> carHighwayValues \<longleftrightarrow> ?h \<in> drivable" by (rule drivable_values [OF False])
    have t: "(?t \<noteq> [] \<and> ?t \<notin> carTrackTypeValues) \<longleftrightarrow> ?t \<notin> {'''', ''grade1'', ''grade2'', ''grade3''}" by (auto simp: carTrackTypeValues_def)
    have g: "getAccess p way carHighwayValues carTrackTypeValues =
        (if car_ferry way then WayAccessFerry else if car_road fords private way then WayAccessWay else WayAccessCanSkip)"
    proof (cases "ferry way")
      case True
      then show ?thesis
        unfolding getAccess_def Let_def ferry_rules [OF assms] car_ferry_def car_road_def using True False by auto
    next
      case no: False
      have "getAccess p way carHighwayValues carTrackTypeValues = (if ?h \<notin> drivable then WayAccessCanSkip
          else if ?h = ''track'' \<and> ?t \<notin> {'''', ''grade1'', ''grade2'', ''grade3''} then WayAccessCanSkip
          else if fords \<and> GetTag ''ford'' way = ''yes'' then getAccessForFord p way else getAccessFromRestrictions p way)"
        unfolding getAccess_def Let_def ferry_rules(1) [OF assms] h t using no P not_drivable [of ?h] by (auto simp: HasTag_def)
      then show ?thesis
        unfolding ford_rules [OF assms] road_rules [OF assms] car_ferry_def car_road_def using no False by simp
    qed
    have "car_ferry way \<Longrightarrow> ?h = []" "car_road fords private way \<Longrightarrow> ?h \<in> drivable" using False by (simp_all add: car_ferry_def car_road_def)
    then show ?thesis unfolding car_GetAccess_def Let_def g using False not_drivable [of ?h] by auto
  qed
qed

lemma blocked_rules: "isDirectionBlocked ''forward'' way = blocked False way" "isDirectionBlocked ''backward'' way = blocked True way"
  by (auto simp: isDirectionBlocked_def directionPrefixes_def blocked_def HasTag_def)

text \<open>The directions that the code opens are those of the rules, and against the way also when both are blocked.\<close>

definition both_blocked :: "'a reader_element_scheme \<Rightarrow> bool" where
  "both_blocked way \<longleftrightarrow> GetTag ''oneway'' way \<notin> {''yes'', ''1'', ''true'', ''-1'', ''reverse''} \<and> (\<forall>against. blocked against way)"

lemma direction_rules:
  "(if isOneway way \<or> isReverseOneway way then against = isReverseOneway way
    else if isDirectionBlocked ''forward'' way then against else isDirectionBlocked ''backward'' way \<longrightarrow> \<not> against) =
   (car_direction against way \<or> against \<and> both_blocked way)"
  by (cases against) (auto simp: isOneway_def isReverseOneway_def Let_def blocked_rules car_direction_def both_blocked_def all_bool_eq)

end
