(* ===== verification/SpeedParsers.thy ===== *)
theory SpeedParsers imports AccessParsers begin

text \<open>
  The parsers that read the speed of a car from the tags of a way (\<^verbatim>\<open>core/routing/parsers\<close>): the legal maximum,
  the speed of the road class and the speed of ferries.
\<close>

section \<open>The maximum speed\<close>

definition MaxSpeed150 :: flt where "MaxSpeed150 = Fin 150"
definition MaxSpeedMissing :: flt where "MaxSpeedMissing = MaxFloat64"
definition MaxSpeedNone :: flt where "MaxSpeedNone = Fin (- 1)"
definition minMaxSpeed :: flt where "minMaxSpeed = f64 (48 / 10)"

text \<open>
  \<open>strings.ToLower\<close> of a unit that is compared with ASCII strings: besides the ASCII capitals, the Kelvin sign and the
  capital i with a dot become ASCII letters.
\<close>

fun lower_unit :: "string \<Rightarrow> string" where
  "lower_unit [] = []"
| "lower_unit (c # s) =
     (if HasPrefix (c # s) (map char_of [226, 132, 170 :: nat]) then CHR ''k'' # lower_unit (drop 2 s)
      else if HasPrefix (c # s) (map char_of [196, 176 :: nat]) then CHR ''i'' # lower_unit (drop 1 s)
      else lower_char c # lower_unit s)"

text \<open>
  The match of \<^verbatim>\<open>^([0-9]+(?:\.[0-9]+)?)\s*(.*?)$\<close>: the number and the rest, which has no line feed.
\<close>

definition is_regex_space :: "char \<Rightarrow> bool" where "is_regex_space c \<longleftrightarrow> byte_of c \<in> {9, 10, 12, 13, 32}"

definition match_speed :: "string \<Rightarrow> (string \<times> string) option" where
  "match_speed s =
     (let ds = takeWhile IsDigit s; r = dropWhile IsDigit s;
          fs = takeWhile IsDigit (tl r);
          (num, r) = (if r \<noteq> [] \<and> hd r = CHR ''.'' \<and> fs \<noteq> [] then (ds @ CHR ''.'' # fs, dropWhile IsDigit (tl r)) else (ds, r));
          unit = dropWhile is_regex_space r
      in if ds = [] \<or> char_of (10 :: nat) \<in> set unit then None else Some (num, unit))"

definition ParseMaxspeedString :: "string \<Rightarrow> flt" where
  "ParseMaxspeedString str =
     (if str = [] then MaxSpeedMissing
      else let str = TrimSpace str in
        if str = ''none'' \<or> str = ''unlimited'' then MaxSpeedNone
        else if str = ''walk'' \<or> str = ''living_street'' then Fin 6
        else case match_speed str of None \<Rightarrow> MaxSpeedMissing
        | Some (num, u) \<Rightarrow> (case ParseFloat num of None \<Rightarrow> MaxSpeedMissing
          | Some v \<Rightarrow>
              if flt_le v (Fin 0) then MaxSpeedMissing
              else let unit = TrimSpace (lower_unit u);
                       factor = (if unit \<in> {'''', ''km/h'', ''kmh'', ''kph''} then Some (Fin 1)
                         else if unit = ''mph'' then Some (f64 (1609344 / 1000000))
                         else if unit = ''knots'' then Some (f64 (1852 / 1000)) else None)
                in case factor of None \<Rightarrow> MaxSpeedMissing
                | Some f \<Rightarrow> let v = (if f = Fin 1 then v else fmul v f)
                    in if flt_less v minMaxSpeed then MaxSpeedMissing else v))"

definition parseMaxSpeedTag :: "'a reader_element_scheme \<Rightarrow> string \<Rightarrow> flt" where
  "parseMaxSpeedTag way tag =
     (let maxSpeed = ParseMaxspeedString (GetTag tag way) in
      if \<not> flt_eq maxSpeed MaxSpeedMissing \<and> \<not> flt_eq maxSpeed MaxSpeedNone then math_Min MaxSpeed150 maxSpeed
      else if flt_eq maxSpeed MaxSpeedNone \<and>
        HasTag ''highway'' [''motorway'', ''motorway_link'', ''trunk'', ''trunk_link'', ''primary''] way then MaxSpeed150
      else MaxSpeedMissing)"

definition ParseMaxSpeed :: "'a reader_element_scheme \<Rightarrow> bool \<Rightarrow> flt" where
  "ParseMaxSpeed way reverse =
     (let dirKey = (if reverse then ''maxspeed:backward'' else ''maxspeed:forward'');
          dirSpeed = parseMaxSpeedTag way dirKey
      in if \<not> flt_eq dirSpeed MaxSpeedMissing then dirSpeed else parseMaxSpeedTag way ''maxspeed'')"

definition max_speed_HandleWayTags ::
  "'s edge_int_access \<Rightarrow> int \<Rightarrow> reader_way \<Rightarrow> decimal_ev \<Rightarrow> 's \<Rightarrow> (decimal_ev \<times> 's) option" where
  "max_speed_HandleWayTags ops edgeID way e s =
     (let fwd = ParseMaxSpeed way False; bwd = ParseMaxSpeed way True in
      if flt_eq fwd MaxSpeedMissing \<and> flt_eq bwd MaxSpeedMissing then Some (e, s)
      else do {
        (e, s) \<leftarrow> (if \<not> flt_eq fwd MaxSpeedMissing then SetDecimal ops False edgeID s fwd e else Some (e, s));
        if \<not> flt_eq bwd MaxSpeedMissing then SetDecimal ops True edgeID s bwd e else Some (e, s) })"

section \<open>Ferries\<close>

text \<open>\<open>math.Round\<close> rounds half away from zero.\<close>

definition math_Round :: "flt \<Rightarrow> flt" where
  "math_Round x = (case x of Fin q \<Rightarrow> Fin (of_int (if 0 \<le> q then \<lfloor>q + 1 / 2\<rfloor> else - \<lfloor>- q + 1 / 2\<rfloor>)) | _ \<Rightarrow> x)"

definition toFloat64 :: "tag_value \<Rightarrow> flt option" where
  "toFloat64 v = (case v of TagFloat x \<Rightarrow> Some x | TagInt n \<Rightarrow> Some (f64_of_int n) | _ \<Rightarrow> None)"

definition GetFerrySpeed :: "'a reader_element_scheme \<Rightarrow> flt option" where
  "GetFerrySpeed way =
     (case Option.bind (GetTagWithDefault ''speed_from_duration'' None way) toFloat64 of
        Some speed \<Rightarrow> Some (math_Round (fdiv speed (f64 (14 / 10))))
      | None \<Rightarrow> do {
          v \<leftarrow> GetTagWithDefault ''edge_distance'' None way;
          d \<leftarrow> toFloat64 v;
          Some (if flt_less d (Fin 500) then Fin 1 else Fin 6) })"

definition speed_MinMax :: "flt \<Rightarrow> decimal_ev \<Rightarrow> flt option" where
  "speed_MinMax speed enc = do {
     m \<leftarrow> GetSmallestNonZeroValue enc;
     Some (math_Min (GetMaxStorableDecimal enc) (math_Max speed m)) }"

definition ferry_HandleWayTags ::
  "'s edge_int_access \<Rightarrow> int \<Rightarrow> reader_way \<Rightarrow> decimal_ev \<Rightarrow> 's \<Rightarrow> (decimal_ev \<times> 's) option" where
  "ferry_HandleWayTags ops edgeID way e s = do {
     v \<leftarrow> GetFerrySpeed way;
     speed \<leftarrow> speed_MinMax v e;
     SetDecimal ops False edgeID s speed e }"

section \<open>The average speed of cars\<close>

record speed_parser =
  avgSpeedEnc :: decimal_ev
  ferrySpeedEnc :: decimal_ev

definition NewCarAverageSpeedParser :: "(string \<Rightarrow> decimal_ev option) \<Rightarrow> speed_parser option" where
  "NewCarAverageSpeedParser lookup = do {
     avg \<leftarrow> lookup (VehicleSpeedKey ''car'');
     ferry \<leftarrow> lookup ''ferry_speed'';
     Some \<lparr>avgSpeedEnc = avg, ferrySpeedEnc = ferry\<rparr> }"

definition SetSpeed :: "'s edge_int_access \<Rightarrow> bool \<Rightarrow> int \<Rightarrow> flt \<Rightarrow> speed_parser \<Rightarrow> 's \<Rightarrow> (speed_parser \<times> 's) option" where
  "SetSpeed ops reverse edgeID speed p s = do {
     m \<leftarrow> GetSmallestNonZeroValue (avgSpeedEnc p);
     check (\<not> flt_less speed (fdiv m (Fin 2)));
     let speed = (if flt_less speed m then m else speed);
     (e, s) \<leftarrow> SetDecimal ops reverse edgeID s speed (avgSpeedEnc p);
     Some (p\<lparr>avgSpeedEnc := e\<rparr>, s) }"

definition defaultSpeedMap :: "(string \<times> flt) list" where
  "defaultSpeedMap = [(''motorway'', Fin 100), (''motorway_link'', Fin 70), (''trunk'', Fin 70), (''trunk_link'', Fin 65),
     (''primary'', Fin 65), (''primary_link'', Fin 60), (''secondary'', Fin 60), (''secondary_link'', Fin 50),
     (''tertiary'', Fin 50), (''tertiary_link'', Fin 40), (''unclassified'', Fin 30), (''residential'', Fin 30),
     (''living_street'', Fin 6), (''pedestrian'', Fin 6), (''service'', Fin 20), (''road'', Fin 20), (''track'', Fin 15)]"

definition trackTypeSpeedMap :: "(string \<times> flt) list" where
  "trackTypeSpeedMap = [(''grade1'', Fin 20), (''grade2'', Fin 15), (''grade3'', Fin 10)]"

definition badSurfaceSet :: "string set" where
  "badSurfaceSet = {''cobblestone'', ''grass_paver'', ''gravel'', ''sand'', ''paving_stones'', ''dirt'', ''ground'',
     ''grass'', ''unpaved'', ''compacted'', ''wood'', ''pebblestone'', ''fine_gravel'', ''earth'', ''sett'',
     ''unhewn_cobblestone''}"

definition badSurfaceSpeed :: flt where "badSurfaceSpeed = Fin 30"

definition getSpeed :: "'a reader_element_scheme \<Rightarrow> flt" where
  "getSpeed way =
     (let highway = GetTag ''highway'' way;
          track = (if highway = ''track'' then map_of trackTypeSpeedMap (GetTag ''tracktype'' way) else None)
      in case track of Some speed \<Rightarrow> speed
         | None \<Rightarrow> (case map_of defaultSpeedMap highway of Some speed \<Rightarrow> speed | None \<Rightarrow> Fin 10))"

definition ApplyBadSurfaceSpeed :: "'a reader_element_scheme \<Rightarrow> flt \<Rightarrow> flt" where
  "ApplyBadSurfaceSpeed way speed =
     (if GetTag ''surface'' way \<in> badSurfaceSet \<and> flt_less badSurfaceSpeed speed then badSurfaceSpeed else speed)"

definition setSpeedWithMaxspeed ::
  "'s edge_int_access \<Rightarrow> bool \<Rightarrow> int \<Rightarrow> reader_way \<Rightarrow> flt \<Rightarrow> speed_parser \<Rightarrow> 's \<Rightarrow> (speed_parser \<times> 's) option" where
  "setSpeedWithMaxspeed ops reverse edgeID way speed p s =
     (let maxSpeed = ParseMaxSpeed way reverse;
          speed = (if \<not> flt_eq maxSpeed MaxSpeedMissing
            then math_Min (fmul maxSpeed (f64 (9 / 10))) (GetMaxStorableDecimal (avgSpeedEnc p)) else speed)
      in SetSpeed ops reverse edgeID speed p s)"

definition handleFerrySpeed :: "'s edge_int_access \<Rightarrow> int \<Rightarrow> reader_way \<Rightarrow> speed_parser \<Rightarrow> 's \<Rightarrow> (speed_parser \<times> 's) option" where
  "handleFerrySpeed ops edgeID way p s = do {
     speed \<leftarrow> GetDecimal ops False edgeID s (ferrySpeedEnc p);
     speed \<leftarrow> (if flt_eq speed (Fin 0) then do { v \<leftarrow> GetFerrySpeed way; speed_MinMax v (ferrySpeedEnc p) } else Some speed);
     (p, s) \<leftarrow> SetSpeed ops False edgeID speed p s;
     SetSpeed ops True edgeID speed p s }"

definition speed_HandleWayTags :: "'s edge_int_access \<Rightarrow> int \<Rightarrow> reader_way \<Rightarrow> speed_parser \<Rightarrow> 's \<Rightarrow> (speed_parser \<times> 's) option" where
  "speed_HandleWayTags ops edgeID way p s =
     (if IsFerry way then handleFerrySpeed ops edgeID way p s
      else do {
        let speed = ApplyBadSurfaceSpeed way (getSpeed way);
        (p, s) \<leftarrow> setSpeedWithMaxspeed ops False edgeID way speed p s;
        setSpeedWithMaxspeed ops True edgeID way speed p s })"

end
