(* ===== verification/EncodingManager.thy ===== *)
theory EncodingManager imports SpeedParsers begin

text \<open>
  The manager of the encoded values of edges and turn costs (\<^verbatim>\<open>core/routing/util/encoding_manager.go\<close>): a builder
  hands out the bits in the order in which values are added, and the manager finds them by name. Reading and writing
  of its properties is not modelled. The filters of edges that look at encoded values are here too
  (\<^verbatim>\<open>access_filter.go\<close>, \<^verbatim>\<open>default_snap_filter.go\<close>, \<^verbatim>\<open>snap_prevention_edge_filter.go\<close>).
\<close>

section \<open>Encoded values of any kind\<close>

datatype encoded_value = EvBool int_ev | EvInt int_ev | EvDecimal decimal_ev | EvEnum enum_ev | EvString string_ev

fun ev_impl :: "encoded_value \<Rightarrow> int_ev" where
  "ev_impl (EvBool e) = e"
| "ev_impl (EvInt e) = e"
| "ev_impl (EvDecimal e) = dec_impl e"
| "ev_impl (EvEnum e) = enum_impl e"
| "ev_impl (EvString e) = str_impl e"

fun with_impl :: "encoded_value \<Rightarrow> int_ev \<Rightarrow> encoded_value" where
  "with_impl (EvBool _) i = EvBool i"
| "with_impl (EvInt _) i = EvInt i"
| "with_impl (EvDecimal e) i = EvDecimal (e\<lparr>dec_impl := i\<rparr>)"
| "with_impl (EvEnum e) i = EvEnum (e\<lparr>enum_impl := i\<rparr>)"
| "with_impl (EvString e) i = EvString (e\<lparr>str_impl := i\<rparr>)"

definition ev_GetName :: "encoded_value \<Rightarrow> string" where "ev_GetName e = Name (ev_impl e)"

definition any_Init :: "encoded_value \<Rightarrow> init_config \<Rightarrow> (encoded_value \<times> init_config) option" where
  "any_Init e cfg = do {
     (_, i, cfg) \<leftarrow> ev_Init (ev_impl e) cfg;
     Some (with_impl e i, cfg) }"

section \<open>The manager and its builder\<close>

record encoding_manager =
  encodedValues :: "encoded_value list"
  encodedValueIndex :: "string \<Rightarrow> encoded_value option"
  turnEncodedValues :: "encoded_value list"
  turnEVIndex :: "string \<Rightarrow> encoded_value option"
  em_BytesForFlags :: int
  IntsForTurnCostFlags :: int

definition newEncodingManager :: encoding_manager where
  "newEncodingManager = \<lparr>encodedValues = [], encodedValueIndex = Map.empty, turnEncodedValues = [], turnEVIndex = Map.empty,
     em_BytesForFlags = 0, IntsForTurnCostFlags = 0\<rparr>"

text \<open>The builder, whose manager is gone after \<open>Build\<close>.\<close>

record em_builder =
  edgeConfig :: init_config
  turnCostConfig :: init_config
  builder_em :: "encoding_manager option"

definition em_Start :: em_builder where
  "em_Start = \<lparr>edgeConfig = NewInitializerConfig, turnCostConfig = NewInitializerConfig, builder_em = Some newEncodingManager\<rparr>"

definition HasEncodedValue :: "string \<Rightarrow> encoding_manager \<Rightarrow> bool" where
  "HasEncodedValue key em \<longleftrightarrow> encodedValueIndex em key \<noteq> None"

definition HasTurnEncodedValue :: "string \<Rightarrow> encoding_manager \<Rightarrow> bool" where
  "HasTurnEncodedValue key em \<longleftrightarrow> turnEVIndex em key \<noteq> None"

definition em_Add :: "encoded_value \<Rightarrow> em_builder \<Rightarrow> em_builder option" where
  "em_Add e b = do {
     em \<leftarrow> builder_em b;
     check (\<not> HasEncodedValue (ev_GetName e) em);
     check (\<not> HasTurnEncodedValue (ev_GetName e) em);
     (e, cfg) \<leftarrow> any_Init e (edgeConfig b);
     let em = em\<lparr>encodedValues := encodedValues em @ [e], encodedValueIndex := (encodedValueIndex em)(ev_GetName e \<mapsto> e)\<rparr>;
     Some (b\<lparr>edgeConfig := cfg, builder_em := Some em\<rparr>) }"

definition AddTurnCostEncodedValue :: "encoded_value \<Rightarrow> em_builder \<Rightarrow> em_builder option" where
  "AddTurnCostEncodedValue e b = do {
     em \<leftarrow> builder_em b;
     check (\<not> HasTurnEncodedValue (ev_GetName e) em);
     check (\<not> HasEncodedValue (ev_GetName e) em);
     (e, cfg) \<leftarrow> any_Init e (turnCostConfig b);
     let em = em\<lparr>turnEncodedValues := turnEncodedValues em @ [e], turnEVIndex := (turnEVIndex em)(ev_GetName e \<mapsto> e)\<rparr>;
     Some (b\<lparr>turnCostConfig := cfg, builder_em := Some em\<rparr>) }"

definition em_Build :: "em_builder \<Rightarrow> (encoding_manager \<times> em_builder) option" where
  "em_Build b = do {
     em \<leftarrow> builder_em b;
     let em = em\<lparr>em_BytesForFlags := GetRequiredBytes (edgeConfig b), IntsForTurnCostFlags := GetRequiredInts (turnCostConfig b)\<rparr>;
     Some (em, b\<lparr>builder_em := None\<rparr>) }"

section \<open>Look-up\<close>

definition GetEncodedValue :: "string \<Rightarrow> encoding_manager \<Rightarrow> encoded_value option" where
  "GetEncodedValue key em = encodedValueIndex em key"

definition GetTurnEncodedValue :: "string \<Rightarrow> encoding_manager \<Rightarrow> encoded_value option" where
  "GetTurnEncodedValue key em = turnEVIndex em key"

text \<open>
  The type assertions: \<open>BooleanEncodedValue\<close> and \<open>DecimalEncodedValue\<close> are only implemented by their own kinds,
  \<open>IntEncodedValue\<close> by every kind, as all of them embed the integer implementation.
\<close>

definition as_bool :: "encoded_value \<Rightarrow> int_ev option" where
  "as_bool e = (case e of EvBool i \<Rightarrow> Some i | _ \<Rightarrow> None)"

definition as_decimal :: "encoded_value \<Rightarrow> decimal_ev option" where
  "as_decimal e = (case e of EvDecimal d \<Rightarrow> Some d | _ \<Rightarrow> None)"

definition as_string :: "encoded_value \<Rightarrow> string_ev option" where
  "as_string e = (case e of EvString d \<Rightarrow> Some d | _ \<Rightarrow> None)"

definition GetBooleanEncodedValue :: "string \<Rightarrow> encoding_manager \<Rightarrow> int_ev option" where
  "GetBooleanEncodedValue key em = Option.bind (GetEncodedValue key em) as_bool"

definition GetIntEncodedValue :: "string \<Rightarrow> encoding_manager \<Rightarrow> int_ev option" where
  "GetIntEncodedValue key em = map_option ev_impl (GetEncodedValue key em)"

definition GetDecimalEncodedValue :: "string \<Rightarrow> encoding_manager \<Rightarrow> decimal_ev option" where
  "GetDecimalEncodedValue key em = Option.bind (GetEncodedValue key em) as_decimal"

definition GetStringEncodedValue :: "string \<Rightarrow> encoding_manager \<Rightarrow> string_ev option" where
  "GetStringEncodedValue key em = Option.bind (GetEncodedValue key em) as_string"

definition GetTurnBooleanEncodedValue :: "string \<Rightarrow> encoding_manager \<Rightarrow> int_ev option" where
  "GetTurnBooleanEncodedValue key em = Option.bind (GetTurnEncodedValue key em) as_bool"

definition GetTurnDecimalEncodedValue :: "string \<Rightarrow> encoding_manager \<Rightarrow> decimal_ev option" where
  "GetTurnDecimalEncodedValue key em = Option.bind (GetTurnEncodedValue key em) as_decimal"

definition GetTurnIntEncodedValue :: "string \<Rightarrow> encoding_manager \<Rightarrow> int_ev option" where
  "GetTurnIntEncodedValue key em = map_option ev_impl (GetTurnEncodedValue key em)"

definition NeedsTurnCostsSupport :: "encoding_manager \<Rightarrow> bool" where
  "NeedsTurnCostsSupport em \<longleftrightarrow> IntsForTurnCostFlags em > 0"

definition strings_Contains :: "string \<Rightarrow> string \<Rightarrow> bool" where
  "strings_Contains s t \<longleftrightarrow> list_ex (\<lambda>i. HasPrefix (drop i s) t) [0..<Suc (length s)]"

definition GetVehicles :: "encoding_manager \<Rightarrow> string list" where
  "GetVehicles em =
     map (\<lambda>e. TrimSuffix (ev_GetName e) ''_access'')
       (filter (\<lambda>e. HasSuffix (ev_GetName e) ''_access'' \<and>
          list_ex (\<lambda>e2. strings_Contains (ev_GetName e2) (VehicleSpeedKey (TrimSuffix (ev_GetName e) ''_access''))) (encodedValues em))
        (encodedValues em))"

section \<open>Filters\<close>

record access_filter =
  af_fwd :: bool
  af_bwd :: bool
  af_accessEnc :: int_ev

definition OutEdges :: "int_ev \<Rightarrow> access_filter" where "OutEdges e = \<lparr>af_fwd = True, af_bwd = False, af_accessEnc = e\<rparr>"
definition InEdges :: "int_ev \<Rightarrow> access_filter" where "InEdges e = \<lparr>af_fwd = False, af_bwd = True, af_accessEnc = e\<rparr>"
definition AllAccessEdges :: "int_ev \<Rightarrow> access_filter" where
  "AllAccessEdges e = \<lparr>af_fwd = True, af_bwd = True, af_accessEnc = e\<rparr>"

definition access_Accept :: "access_filter \<Rightarrow> base_graph \<Rightarrow> 'a edge_state_scheme \<Rightarrow> bool option" where
  "access_Accept f bg e = do {
     a \<leftarrow> (if af_fwd f then es_GetBool (af_accessEnc f) bg e else Some False);
     if a then Some True else if af_bwd f then es_GetReverseBool (af_accessEnc f) bg e else Some False }"

definition isFinite :: "flt \<Rightarrow> bool" where "isFinite v \<longleftrightarrow> \<not> math_IsNaN v \<and> \<not> math_IsInf v"

text \<open>The weight is that of a weighting, given the edge and the direction.\<close>

definition snap_Accept ::
  "(base_graph \<Rightarrow> 'a edge_state_scheme \<Rightarrow> bool \<Rightarrow> flt option) \<Rightarrow> int_ev \<Rightarrow> base_graph \<Rightarrow> 'a edge_state_scheme \<Rightarrow> bool option" where
  "snap_Accept calcEdgeWeight inSubnetworkEnc bg e = do {
     sub \<leftarrow> es_GetBool inSubnetworkEnc bg e;
     if sub then Some False
     else do {
       w \<leftarrow> calcEdgeWeight bg e False;
       if isFinite w then Some True
       else do { w \<leftarrow> calcEdgeWeight bg e True; Some (isFinite w) } } }"

record snap_prevention =
  avoidMotorway :: bool
  avoidTrunk :: bool
  avoidTunnel :: bool
  avoidBridge :: bool
  avoidFerry :: bool
  avoidFord :: bool

fun snap_preventions_loop :: "string list \<Rightarrow> snap_prevention \<Rightarrow> snap_prevention option" where
  "snap_preventions_loop [] f = Some f"
| "snap_preventions_loop (s # ss) f =
     (if s = ''motorway'' then snap_preventions_loop ss (f\<lparr>avoidMotorway := True\<rparr>)
      else if s = ''trunk'' then snap_preventions_loop ss (f\<lparr>avoidTrunk := True\<rparr>)
      else let re = RoadEnvironmentFind s in
        if re = 3 then snap_preventions_loop ss (f\<lparr>avoidTunnel := True\<rparr>)
        else if re = 4 then snap_preventions_loop ss (f\<lparr>avoidBridge := True\<rparr>)
        else if re = 2 then snap_preventions_loop ss (f\<lparr>avoidFerry := True\<rparr>)
        else if re = 5 then snap_preventions_loop ss (f\<lparr>avoidFord := True\<rparr>)
        else None)"

definition NewSnapPreventionEdgeFilter :: "string list \<Rightarrow> snap_prevention option" where
  "NewSnapPreventionEdgeFilter preventions =
     snap_preventions_loop preventions
       \<lparr>avoidMotorway = False, avoidTrunk = False, avoidTunnel = False, avoidBridge = False, avoidFerry = False, avoidFord = False\<rparr>"

definition avoids :: "bool \<Rightarrow> enum_ev \<Rightarrow> int \<Rightarrow> base_graph \<Rightarrow> 'a edge_state_scheme \<Rightarrow> bool option" where
  "avoids flag enc v bg e = (if flag then do { x \<leftarrow> es_GetEnum enc bg e; Some (x = v) } else Some False)"

definition prevention_Accept ::
  "(base_graph \<Rightarrow> 'a edge_state_scheme \<Rightarrow> bool option) \<Rightarrow> enum_ev \<Rightarrow> enum_ev \<Rightarrow> snap_prevention \<Rightarrow> base_graph \<Rightarrow>
    'a edge_state_scheme \<Rightarrow> bool option" where
  "prevention_Accept inner rcEnc reEnc f bg e = do {
     ok \<leftarrow> inner bg e;
     if \<not> ok then Some False
     else do {
       a \<leftarrow> avoids (avoidMotorway f) rcEnc 1 bg e; if a then Some False else do {
       a \<leftarrow> avoids (avoidTrunk f) rcEnc 2 bg e; if a then Some False else do {
       a \<leftarrow> avoids (avoidTunnel f) reEnc 3 bg e; if a then Some False else do {
       a \<leftarrow> avoids (avoidBridge f) reEnc 4 bg e; if a then Some False else do {
       a \<leftarrow> avoids (avoidFord f) reEnc 5 bg e; if a then Some False else do {
       a \<leftarrow> avoids (avoidFerry f) reEnc 2 bg e; Some (\<not> a) } } } } } } }"

end
