(* ===== verification/CarAccess.thy ===== *)
theory CarAccess imports CarTags EncodingManager GraphValues ConditionParser begin

text \<open>
  What the access parser of cars leaves on an edge of the graph: the flags of the two directions that its tags call
  for, and nothing else.
\<close>

section \<open>Flags of both directions on an edge\<close>

definition two_way_flag :: "nodes_edges \<Rightarrow> int \<Rightarrow> int_ev \<Rightarrow> bool" where
  "two_way_flag s e x \<longleftrightarrow> ready x \<and> bool_ev x \<and> ne_eia.holds_ev s e x \<and> StoreTwoDir x"

text \<open>Only the ranges of \<open>x\<close> on the edge \<open>e\<close> may differ.\<close>

definition only_flag :: "int \<Rightarrow> int_ev \<Rightarrow> nodes_edges \<Rightarrow> nodes_edges \<Rightarrow> bool" where
  "only_flag e x s s' \<longleftrightarrow> (\<forall>e' (f :: int_ev). ne_eia.holds_ev s' e' f = ne_eia.holds_ev s e' f) \<and>
     (\<forall>e' (f :: int_ev) r. ready f \<and> ne_eia.holds_ev s e' f \<and> (e' \<noteq> e \<or> (\<forall>d. disjoint (dir_range x d) (dir_range f r))) \<longrightarrow>
        ev_GetInt ne_access r e' s' f = ev_GetInt ne_access r e' s f)"

lemma only_flag_trans: "only_flag e x s s1 \<Longrightarrow> only_flag e x' s1 s2 \<Longrightarrow> dir_range x' = dir_range x \<Longrightarrow> only_flag e x s s2"
  unfolding only_flag_def by simp

lemma only_flag_refl [simp]: "only_flag e x s s" by (simp add: only_flag_def)

lemma flag_write:
  assumes "graph_ok s adj" "two_way_flag s e x"
  shows "\<exists>x' s'. SetBool ne_access rv e s b x = Some (x', s') \<and> graph_ok s' adj \<and> two_way_flag s' e x' \<and> only_flag e x s s' \<and>
    dir_range x' = dir_range x \<and>
    (\<forall>d. GetBool ne_access d e s' x' = (if d = rv then Some b else GetBool ne_access d e s x)) \<and>
    (\<forall>d. GetBool ne_access d e s' x = GetBool ne_access d e s' x') \<and> bytesForFlags s' = bytesForFlags s \<and> edgeCount s' = edgeCount s"
proof -
  have x: "ready x" "bool_ev x" "ne_eia.holds_ev s e x" "StoreTwoDir x" using assms(2) by (simp_all add: two_way_flag_def)
  let ?v = "if b then 1 else 0 :: i32"
  have "in_bounds x ?v" using x(2) by (simp add: in_bounds_def bool_ev_def)
  then obtain x' s' where S: "ev_SetInt ne_access rv e s ?v x = Some (x', s')"
    using ne_eia.SetInt_Some [OF x(1,3)] x(4) by blast
  obtain mv where x': "x' = x\<lparr>MaxValue := mv\<rparr>" using ne_eia.SetInt_elim [OF x(1) S] by metis
  note H = ne_eia.SetInt_holds [OF x(1,3) S]
  have same: "dir_range x' = dir_range x" using x' by (simp add: fun_eq_iff)
  have "ne_eia.holds_ev s' e x" using H(1) [of e x] x(3) by (simp only:)
  then have two: "two_way_flag s' e x'" using x x' by (simp add: two_way_flag_def bool_ev_def)
  have fr: "only_flag e x s s'"
    unfolding only_flag_def
  proof (intro conjI allI impI, goal_cases)
    case (1 e' f)
    then show ?case by (rule ne_eia.SetInt_holds(1) [OF x(1,3) S])
  next
    case (2 e' f r)
    then show ?case by (intro ne_eia.SetInt_frame [OF x(1,3) S]) auto
  qed
  have dis: "disjoint (dir_range x rv) (dir_range x (\<not> rv))"
    using x(1,4) by (cases rv) (auto simp: ready_def dir_range_def disjoint_def)
  have other: "GetBool ne_access (\<not> rv) e s' x' = GetBool ne_access (\<not> rv) e s x"
  proof -
    have "ev_GetInt ne_access (\<not> rv) e s' x' = ev_GetInt ne_access (\<not> rv) e s x'"
      using dis x' x by (intro ne_eia.SetInt_frame [OF x(1,3) S]) simp_all
    moreover have "ev_GetInt ne_access (\<not> rv) e s x' = ev_GetInt ne_access (\<not> rv) e s x" using x' by (simp add: ev_GetInt_def cong: if_cong)
    ultimately show ?thesis by (simp add: GetBool_def)
  qed
  have "ev_GetInt ne_access d e s' x = ev_GetInt ne_access d e s' x'" for d using x' by (simp add: ev_GetInt_def cong: if_cong)
  then have eq: "GetBool ne_access d e s' x = GetBool ne_access d e s' x'" for d by (simp add: GetBool_def)
  have "GetBool ne_access rv e s' x' = Some b"
    using ne_eia.SetInt_GetInt(1) [OF x(1,3) S] by (simp add: GetBool_def)
  then have "GetBool ne_access d e s' x' = (if d = rv then Some b else GetBool ne_access d e s x)" for d
    using other by (cases d; cases rv) simp_all
  then show ?thesis using S two fr same eq SetInt_graph_ok [OF assms(1) x(1,3) S]
    by (intro exI [of _ x'] exI [of _ s']) (simp add: SetBool_def)
qed

section \<open>Properties\<close>

lemma oneway_exclusive: "\<not> (isOneway way \<and> isReverseOneway way)"
  by (auto simp: isOneway_def isReverseOneway_def Let_def)

text \<open>
  C13. The access parser of cars opens an edge whose flags are closed in exactly the directions that the rules for
  cars give: both for a ferry that takes cars (\<open>car_ferry\<close>); for a road that is not closed to cars (\<open>car_road\<close>: the kind
  of the road and of a track, fords, the most specific tags that grant or forbid access and the conditions that lift
  a restriction, pedestrian ways) that of a one-way street or those that no tag blocks (\<open>car_direction\<close>), but in a
  roundabout never the one against the edge; none for all other ways. One case is not as the tags say: when both
  directions are blocked the one against the edge is opened. Neither any other encoded value of the edge nor those
  of other edges change.
\<close>

theorem car_access_stored:
  assumes "graph_ok s adj" "valid_edge s e" "\<forall>x \<in> set es. fresh x"
    "init_all es NewInitializerConfig = Some (es', c)" "GetRequiredBytes c \<le> bytesForFlags s"
    "k < length es'" "l < length es'" "k \<noteq> l" "bool_ev (es' ! k)" "StoreTwoDir (es' ! k)"
    "accessEnc p = es' ! k" "roundaboutEnc p = es' ! l"
    "\<forall>r. GetBool ne_access r e s (accessEnc p) = Some False" "GetBool ne_access False e s (roundaboutEnc p) = Some roundabout"
    "NewCarAccessParser lookup fords private = Some p"
  shows "\<exists>p' s'. car_HandleWayTags ne_access e way p s = Some (p', s') \<and> graph_ok s' adj \<and>
    (\<forall>against. GetBool ne_access against e s' (accessEnc p') =
       Some (car_ferry way \<or> car_road fords private way \<and> (car_direction against way \<or> against \<and> both_blocked way) \<and>
         \<not> (roundabout \<and> against))) \<and>
    (\<forall>j e' r. j < length es' \<and> valid_edge s e' \<and> (j \<noteq> k \<or> e' \<noteq> e) \<longrightarrow>
       ev_GetInt ne_access r e' s' (es' ! j) = ev_GetInt ne_access r e' s (es' ! j))"
proof -
  note A = car_GetAccess_rules [OF NewCarAccessParser_fields(1) [OF assms(15)], of way]
  have ferry: "car_ferry way \<Longrightarrow> \<not> car_road fords private way" by (auto simp: car_ferry_def car_road_def not_drivable split: if_splits)
  define opens where "opens = (\<lambda>against. car_direction against way \<or> against \<and> both_blocked way)"
  note F = values_fit [OF assms(3-5) graph_okD(1) [OF assms(1)]]
  let ?x = "es' ! k"
  have flag: "two_way_flag s e ?x" using F(1,2) [OF assms(2,6)] assms(9,10) by (simp add: two_way_flag_def)
  have others: "ev_GetInt ne_access r e' s' (es' ! j) = ev_GetInt ne_access r e' s (es' ! j)"
    if "only_flag e ?x s s'" "j < length es'" "valid_edge s e'" "j \<noteq> k \<or> e' \<noteq> e" for s' j e' r
  proof -
    have "e' \<noteq> e \<or> (\<forall>d. disjoint (dir_range ?x d) (dir_range (es' ! j) r))"
      using F(3) [OF assms(2,6) that(2)] that(4) by blast
    then show ?thesis using that(1) F(1,2) [OF that(3,2)] unfolding only_flag_def by blast
  qed
  have closed: "GetBool ne_access r e s ?x = Some False" for r using assms(11,13) by simp
  text \<open>The flags after a sequence of writes to the edge.\<close>
  define opened where "opened = (\<lambda>x s' D. graph_ok s' adj \<and> two_way_flag s' e x \<and> only_flag e ?x s s' \<and> dir_range x = dir_range ?x \<and>
    (\<forall>r. GetBool ne_access r e s' x = Some (D r)))"
  have start: "opened ?x s (\<lambda>_. False)" using assms(1) flag closed by (simp add: opened_def)
  have set1: "\<exists>x' s2. SetBool ne_access rv e s1 b x = Some (x', s2) \<and> opened x' s2 (D(rv := b))" if "opened x s1 D" for rv b x s1 D
  proof -
    obtain x' s2 where "SetBool ne_access rv e s1 b x = Some (x', s2)" "graph_ok s2 adj" "two_way_flag s2 e x'" "only_flag e x s1 s2"
      "dir_range x' = dir_range x" "\<forall>d. GetBool ne_access d e s2 x' = (if d = rv then Some b else GetBool ne_access d e s1 x)"
      using flag_write [of s1 adj e x rv b] \<open>opened x s1 D\<close> unfolding opened_def by blast
    then show ?thesis using \<open>opened x s1 D\<close> only_flag_trans [of e ?x s s1 x s2] unfolding opened_def
      by (intro exI [of _ x'] exI [of _ s2]) simp
  qed
  have set2: "\<exists>x' s2. do { (x, s1) \<leftarrow> SetBool ne_access False e s1 True x; SetBool ne_access True e s1 True x } = Some (x', s2) \<and>
    opened x' s2 (\<lambda>_. True)" if "opened x s1 D" for x s1 D
  proof -
    obtain x1 t1 where 1: "SetBool ne_access False e s1 True x = Some (x1, t1)" "opened x1 t1 (D(False := True))"
      using set1 [OF \<open>opened x s1 D\<close>] by blast
    obtain x2 t2 where 2: "SetBool ne_access True e t1 True x1 = Some (x2, t2)" "opened x2 t2 (D(False := True, True := True))"
      using set1 [OF 1(2)] by blast
    have "(D(False := True, True := True)) r = True" for r by (cases r) simp_all
    then show ?thesis using 1(1) 2 by (intro exI [of _ x2] exI [of _ t2]) (simp add: opened_def)
  qed
  let ?D = "\<lambda>r. car_ferry way \<or> car_road fords private way \<and> opens r \<and> \<not> (roundabout \<and> r)"
  have car_way: "\<exists>p' s'. car_HandleWayTags ne_access e way p s = Some (p', s') \<and> opened (accessEnc p') s' ?D"
    if a: "car_GetAccess p way = WayAccessWay"
  proof -
    let ?first = "if isOneway way then SetBool ne_access False e s True ?x
      else if isReverseOneway way then SetBool ne_access True e s True ?x
      else if isDirectionBlocked ''forward'' way then SetBool ne_access True e s True ?x
      else if isDirectionBlocked ''backward'' way then SetBool ne_access False e s True ?x
      else do { (x, s) \<leftarrow> SetBool ne_access False e s True ?x; SetBool ne_access True e s True x }"
    have o: "opens r \<longleftrightarrow> (if isOneway way \<or> isReverseOneway way then r = isReverseOneway way
        else if isDirectionBlocked ''forward'' way then r else isDirectionBlocked ''backward'' way \<longrightarrow> \<not> r)" for r
      unfolding opens_def by (rule direction_rules [symmetric])
    have a': "car_GetAccess p way \<noteq> WayAccessCanSkip" "car_GetAccess p way \<noteq> WayAccessFerry" using a by simp_all
    have road: "car_road fords private way" "\<not> car_ferry way" using a A by (simp_all split: if_splits)
    have one: "\<exists>x1 s1. SetBool ne_access rv e s True ?x = Some (x1, s1) \<and> opened x1 s1 (\<lambda>r. r = rv)" for rv
    proof -
      have "((\<lambda>_. False)(rv := True)) = (\<lambda>r. r = rv)" by (auto simp: fun_eq_iff)
      then show ?thesis using set1 [OF start, of rv True] by simp
    qed
    have D: "opens = (if isOneway way \<or> isReverseOneway way then (\<lambda>r. r = isReverseOneway way)
        else if isDirectionBlocked ''forward'' way then (\<lambda>r. r = True)
        else if isDirectionBlocked ''backward'' way then (\<lambda>r. r = False) else (\<lambda>_. True))"
      by (auto simp: fun_eq_iff o)
    have "\<exists>x1 s1. ?first = Some (x1, s1) \<and> opened x1 s1 opens"
      unfolding D using one [of False] one [of True] set2 [OF start] oneway_exclusive [of way]
      by (cases "isOneway way"; cases "isReverseOneway way"; cases "isDirectionBlocked ''forward'' way";
          cases "isDirectionBlocked ''backward'' way") simp_all
    then obtain x1 s1 where 1: "?first = Some (x1, s1)" "opened x1 s1 opens" by blast
    have ro: "GetBool ne_access False e s1 (es' ! l) = Some roundabout"
    proof -
      have "ev_GetInt ne_access False e s1 (es' ! l) = ev_GetInt ne_access False e s (es' ! l)"
        using 1(2) assms(2,7,8) by (intro others) (simp_all add: opened_def)
      then show ?thesis using assms(12,14) by (simp add: GetBool_def)
    qed
    have "\<exists>x2 s2. (if roundabout then SetBool ne_access True e s1 False x1 else Some (x1, s1)) = Some (x2, s2) \<and>
      opened x2 s2 (\<lambda>r. opens r \<and> \<not> (roundabout \<and> r))"
    proof (cases roundabout)
      case True
      have "opens(True := False) = (\<lambda>r. opens r \<and> \<not> (True \<and> r))" by (auto simp: fun_eq_iff)
      then show ?thesis using set1 [OF 1(2), of True False] True by simp
    qed (use 1(2) in simp)
    then obtain x2 s2 where 2: "(if roundabout then SetBool ne_access True e s1 False x1 else Some (x1, s1)) = Some (x2, s2)"
      "opened x2 s2 (\<lambda>r. opens r \<and> \<not> (roundabout \<and> r))" by blast
    have "car_HandleWayTags ne_access e way p s = Option.bind ?first (\<lambda>(x, s). do {
        r \<leftarrow> GetBool ne_access False e s (es' ! l);
        (x, s) \<leftarrow> (if r then SetBool ne_access True e s False x else Some (x, s));
        Some (p\<lparr>accessEnc := x\<rparr>, s) })"
      using a' unfolding car_HandleWayTags_def Let_def assms(11,12) by (simp only: if_False)
    also have "\<dots> = Some (p\<lparr>accessEnc := x2\<rparr>, s2)" unfolding 1(1) using ro 2(1) by simp
    finally have "car_HandleWayTags ne_access e way p s = Some (p\<lparr>accessEnc := x2\<rparr>, s2)" .
    then show ?thesis using 2(2) road by (intro exI [of _ "p\<lparr>accessEnc := x2\<rparr>"] exI [of _ s2]) simp
  qed
  have "\<exists>p' s'. car_HandleWayTags ne_access e way p s = Some (p', s') \<and> opened (accessEnc p') s' ?D"
  proof (cases "car_ferry way")
    case True
    then have "car_GetAccess p way = WayAccessFerry" using A by simp
    then show ?thesis using set2 [OF start] assms(11) True by (auto simp: car_HandleWayTags_def bind_eq_Some_conv)
  next
    case no: False
    show ?thesis
    proof (cases "car_road fords private way")
      case True
      then show ?thesis using A no by (intro car_way) simp
    next
      case False
      then have "car_GetAccess p way = WayAccessCanSkip" using A no by simp
      then show ?thesis using start assms(11) no False by (simp add: car_HandleWayTags_def)
    qed
  qed
  then obtain p' s' where "car_HandleWayTags ne_access e way p s = Some (p', s')" "opened (accessEnc p') s' ?D" by blast
  then show ?thesis using others unfolding opened_def opens_def by (intro exI [of _ p'] exI [of _ s']) blast
qed

text \<open>A flag for access and one for roundabouts, on the first edge of a small graph.\<close>

definition sample_flags :: "int_ev list" where
  "sample_flags = [the (NewSimpleBooleanEncodedValueDir ''car_access'' True), the (NewSimpleBooleanEncodedValueDir ''roundabout'' True)]"

lemma sample_flags_fresh: "\<forall>x \<in> set sample_flags. fresh x"
proof -
  have "NewSimpleBooleanEncodedValueDir ''car_access'' True \<noteq> None" "NewSimpleBooleanEncodedValueDir ''roundabout'' True \<noteq> None"
    by code_simp+
  then show ?thesis using NewSimpleBoolean_spec by (auto simp: sample_flags_def)
qed

lemma sample_flags_init:
  obtains es' c where "init_all sample_flags NewInitializerConfig = Some (es', c)" "GetRequiredBytes c = 1" "length es' = 2"
    "bool_ev (es' ! 0)" "bool_ev (es' ! 1)" "StoreTwoDir (es' ! 0)" "StoreTwoDir (es' ! 1)"
proof -
  have "case init_all sample_flags NewInitializerConfig of None \<Rightarrow> False
    | Some (es', c) \<Rightarrow> GetRequiredBytes c = 1 \<and> length es' = 2 \<and> bool_ev (es' ! 0) \<and> bool_ev (es' ! 1) \<and>
        StoreTwoDir (es' ! 0) \<and> StoreTwoDir (es' ! 1)"
    by code_simp
  then show ?thesis using that by (auto split: option.splits)
qed

text \<open>A private track where the condition of a more specific tag lets cars through, but not backwards.\<close>

definition track_way :: reader_way where
  "track_way = \<lparr>el_id = 5, elemType = TypeWay,
     properties = [(''highway'', TagString ''track''), (''tracktype'', TagString ''grade2''), (''access'', TagString ''private''),
       (''motorcar:conditional'', TagString ''yes@(Mo-Fr)''), (''vehicle:backward'', TagString ''no'')],
     way_Nodes = [1, 2]\<rparr>"

lemma track_open:
  "\<not> car_ferry track_way" "car_road True True track_way" "car_direction False track_way" "\<not> car_direction True track_way"
  "\<not> both_blocked track_way"
proof -
  have t: "GetTag k track_way = (if k = ''highway'' then ''track'' else if k = ''tracktype'' then ''grade2''
      else if k = ''access'' then ''private'' else if k = ''motorcar:conditional'' then ''yes@(Mo-Fr)''
      else if k = ''vehicle:backward'' then ''no'' else [])" for k
    by (simp add: GetTag_def track_way_def)
  show "\<not> car_ferry track_way" by (simp add: car_ferry_def ferry_def t)
  have b: "blocked True track_way" "\<not> blocked False track_way" by (simp_all add: blocked_def t)
  then show "car_direction False track_way" "\<not> car_direction True track_way" "\<not> both_blocked track_way"
    by (auto simp: car_direction_def both_blocked_def t)
  have c: "car_tag 0 track_way = []" "car_tag 1 track_way = []" "car_tag 2 track_way = []"
    unfolding car_tag_def car_keys_nth t by simp_all
  have n: "\<not> mentions [] (refusing True)" by (rule mentions_Nil, rule words_nonempty)
  have "TrimSpace ''yes'' = ''yes''" by (rule TrimSpace_id) (simp_all add: edge_char_def ascii_def)
  then have l: "lifted 0 track_way" unfolding lifted_def car_keys_nth t
    by (intro exI [of _ "''yes''"] exI [of _ "''(Mo-Fr)''"]) (simp add: granting_def)
  have "\<not> forbids True i track_way" if "i \<in> {0, 1, 2}" for i using that c n by (auto simp: forbids_def)
  then have "\<not> road_closed True track_way" using l by (simp add: road_closed_def less_4 less_3 t)
  then show "car_road True True track_way" by (simp add: car_road_def drivable_words ferry_def t)
qed

theorem car_access_stored_witness:
  "\<exists>p s p' s'. car_HandleWayTags ne_access 0 track_way p s = Some (p', s') \<and>
    (\<forall>r. GetBool ne_access r 0 s (accessEnc p) = Some False) \<and>
    GetBool ne_access False 0 s' (accessEnc p') = Some True \<and> GetBool ne_access True 0 s' (accessEnc p') = Some False"
proof -
  obtain es' c where I: "init_all sample_flags NewInitializerConfig = Some (es', c)" "GetRequiredBytes c = 1" "length es' = 2"
    "bool_ev (es' ! 0)" "bool_ev (es' ! 1)" "StoreTwoDir (es' ! 0)" "StoreTwoDir (es' ! 1)" by (rule sample_flags_init)
  let ?s = "Store sample_graph" and ?a = "es' ! 0" and ?b = "es' ! 1"
  obtain adj where s: "graph_ok ?s adj" "valid_edge ?s 0" "bytesForFlags ?s = 7"
    using sample_graph_ok by (auto simp: valid_edge_def)
  have bytes: "GetRequiredBytes c \<le> bytesForFlags t" if "bytesForFlags t = 7" for t using I(2) that by simp
  have F: "two_way_flag t 0 ?a" "two_way_flag t 0 ?b" "disjoint (dir_range ?a r) (dir_range ?b r')" "disjoint (dir_range ?b r) (dir_range ?a r')"
    if "graph_ok t adj" "bytesForFlags t = 7" "edgeCount t = edgeCount ?s" for t r r'
  proof -
    have "valid_edge t 0" using s(2) that(3) by (simp add: valid_edge_def)
    note V = values_fit [OF sample_flags_fresh I(1) bytes [OF that(2)] graph_okD(1) [OF that(1)] this]
    show "two_way_flag t 0 ?a" "two_way_flag t 0 ?b" "disjoint (dir_range ?a r) (dir_range ?b r')" "disjoint (dir_range ?b r) (dir_range ?a r')"
      using V(1,2) [of 0] V(1,2) [of 1] V(3) [of 0 1 r r'] V(3) [of 1 0 r r'] I(3-7) by (simp_all add: two_way_flag_def)
  qed
  obtain x1 s1 where 1: "graph_ok s1 adj" "bytesForFlags s1 = 7" "edgeCount s1 = edgeCount ?s"
    "\<And>d. GetBool ne_access d 0 s1 ?a = (if d = False then Some False else GetBool ne_access d 0 ?s ?a)"
    using flag_write [OF s(1) F(1) [OF s(1,3) refl], of False False] s(3) by auto
  obtain x2 s2 where 2: "graph_ok s2 adj" "bytesForFlags s2 = 7" "edgeCount s2 = edgeCount ?s"
    "\<And>d. GetBool ne_access d 0 s2 ?a = (if d = True then Some False else GetBool ne_access d 0 s1 ?a)"
    using flag_write [OF 1(1) F(1) [OF 1(1-3)], of True False] 1(2,3) by auto
  obtain x3 s3 where 3: "graph_ok s3 adj" "bytesForFlags s3 = 7" "edgeCount s3 = edgeCount ?s" "only_flag 0 ?b s2 s3"
    "\<And>d. GetBool ne_access d 0 s3 ?b = (if d = False then Some False else GetBool ne_access d 0 s2 ?b)"
    using flag_write [OF 2(1) F(2) [OF 2(1-3)], of False False] 2(2,3) by auto
  have "GetBool ne_access d 0 s3 ?a = GetBool ne_access d 0 s2 ?a" for d
    using 3(4) F(1,4) [OF 2(1-3)] unfolding only_flag_def two_way_flag_def by (simp add: GetBool_def)
  then have closed: "\<forall>d. GetBool ne_access d 0 s3 ?a = Some False" using 1(4) 2(4) by simp
  have round: "GetBool ne_access False 0 s3 ?b = Some False" using 3(5) by simp
  define lookup where "lookup = (\<lambda>name. Some (if name = ''car_access'' then ?a else ?b))"
  obtain p where p: "NewCarAccessParser lookup True True = Some p"
    by (auto simp: NewCarAccessParser_def lookup_def Let_def)
  have enc: "accessEnc p = ?a" "roundaboutEnc p = ?b" using NewCarAccessParser_fields(2,3) [OF p] by (simp_all add: lookup_def)
  have v3: "valid_edge s3 0" using s(2) 3(3) by (simp add: valid_edge_def)
  have "\<exists>p' s'. car_HandleWayTags ne_access 0 track_way p s3 = Some (p', s') \<and> graph_ok s' adj \<and>
    (\<forall>against. GetBool ne_access against 0 s' (accessEnc p') =
       Some (car_ferry track_way \<or> car_road True True track_way \<and>
         (car_direction against track_way \<or> against \<and> both_blocked track_way) \<and> \<not> (False \<and> against))) \<and>
    (\<forall>j e' r. j < length es' \<and> valid_edge s3 e' \<and> (j \<noteq> 0 \<or> e' \<noteq> 0) \<longrightarrow>
       ev_GetInt ne_access r e' s' (es' ! j) = ev_GetInt ne_access r e' s3 (es' ! j))"
    by (rule car_access_stored [OF 3(1) v3 sample_flags_fresh I(1) bytes [OF 3(2)], of 0 1, OF _ _ _ _ _ enc _ _ p])
      (use I(3-7) closed round enc in simp_all)
  then obtain p' s' where h: "car_HandleWayTags ne_access 0 track_way p s3 = Some (p', s')"
    "\<forall>against. GetBool ne_access against 0 s' (accessEnc p') =
       Some (car_ferry track_way \<or> car_road True True track_way \<and>
         (car_direction against track_way \<or> against \<and> both_blocked track_way) \<and> \<not> (False \<and> against))"
    by (elim exE conjE) (rule that)
  have "GetBool ne_access False 0 s' (accessEnc p') = Some True" "GetBool ne_access True 0 s' (accessEnc p') = Some False"
    using h(2) track_open by simp_all
  then show ?thesis using h(1) closed enc(1) by (intro exI [of _ p] exI [of _ s3] exI [of _ p'] exI [of _ s']) simp
qed

end
