(* ===== verification/Spec2Isabelle.thy ===== *)
theory Spec2Isabelle imports GraphValues KVEntries WayGeometry GraphRouting StoredValues StoredFiles AStarRun CustomRoutes HeapFacts BTreeFacts ImportedWays CarAccess begin

text \<open>
  A verification library for GoHopper, a Go port of the GraphHopper routing engine. The program keeps a road graph in
  slices of bytes, reads OpenStreetMap data into it, and answers routing requests on it. The library models the parts
  that carry this: from the bytes of the storage up to the route that Dijkstra's algorithm and A* find for a profile.

  \<^bold>\<open>Conventions.\<close> A Go panic, a returned error and a nil pointer that is dereferenced are \<^const>\<open>None\<close>, a normal return
  is \<^const>\<open>Some\<close>, and statements are sequenced in the option monad (GoPrelude); where a function returns an error value that
  callers inspect, the result is a sum. Structs are records, interfaces are records of functions or the parameters of a
  locale, state is passed explicitly. Integers of 8 to 64 bits that the code packs, shifts or narrows are words; \<^verbatim>\<open>int\<close>
  counters, sizes and indices are \<^typ>\<open>int\<close>. Floats (GoFloat) are rationals with infinities and NaN, rounded to 53 or 24
  bits with the exponent range of the format; there is one zero, and no fused multiplication. A Go map whose iteration
  order could matter is a list of pairs, whose order stands for the order of iteration. Strings are lists of bytes
  (GoStrings).

  \<^bold>\<open>Storage.\<close> DataAccess, RamDataAccess and RamIntDataAccess model \<^verbatim>\<open>core/storage/ram_data_access.go\<close> and
  \<^verbatim>\<open>ram_int_data_access.go\<close>: segments, headers, flush and load on a map of files. StorageAccess is the interface of
  \<^verbatim>\<open>data_access.go\<close> and the directory; the locale \<open>data_access_contract\<close> says what a client may rely on, and is
  interpreted on both implementations and on their sum; BytesAccess extends it to slices of bytes. BitUtil is
  \<^verbatim>\<open>core/util/bit_util.go\<close>. NodesEdges, NodeAccess and GraphPermutation are \<^verbatim>\<open>base_graph_nodes_and_edges.go\<close> and
  \<^verbatim>\<open>node_access.go\<close>: the records of nodes and edges at byte offsets, their growth and permutation. AdjacencyLists proves
  that the links in the records form a list of edges per node and that \<^verbatim>\<open>Edge\<close> prepends to two of them. BaseGraph,
  EdgeIteration and WayGeometry are \<^verbatim>\<open>base_graph.go\<close>, \<^verbatim>\<open>edge_iterator_impl.go\<close> and \<^verbatim>\<open>edge_iterator_state_impl.go\<close>;
  KVStorage and KVEntries the key-value store of edges as a growing list of maps; TurnCostStorage the turn cost entries.
  StoredFiles has the properties of the layer on its own.

  \<^bold>\<open>Encoded values.\<close> EncodedValue, EncodedValueKinds and DecimalEncodedValue are \<^verbatim>\<open>core/routing/ev\<close>: the allocation of
  bits, and integers, flags, enums, strings and decimals in the flags of an edge, over the locale
  \<open>edge_int_access_contract\<close>, which the integer array and the flags of an edge (EdgeFlags) provide. GraphValues and
  StoredValues state what is read back after a write and what is not, ValueWrites that any sequence of writes keeps the
  largest value a decimal remembers above what the edges store; EnumValues has the enums of roads by name.
  GeoUtil, BBox and PointList are coordinates, boxes and point lists of \<^verbatim>\<open>core/util\<close>.

  \<^bold>\<open>Searches.\<close> ContainerHeap is Go's \<^verbatim>\<open>container/heap\<close> over the locale \<open>weak_order\<close>. RoutingAlgorithm has the shortest path
  tree, paths and their extraction; Dijkstra and AStar are the two algorithms. SearchTree proves the invariant of the
  tree in the locale \<open>search_graph\<close>; DijkstraRun proves in \<open>routing_problem\<close>, which it is a \<open>sublocale\<close> of, that the run
  returns and that its path is a least one, and GraphRouting interprets that locale on the stored graph. AStarRun is the
  simulation of A* without a heuristic by Dijkstra's algorithm. Weightings and FastestRoutes are the speed weighting and
  the turn costs; Expressions, ConditionParser, CustomModel, CustomWeighting, CustomRanges and CustomRoutes the
  conditions of custom models, their parser against a grammar, the statements and the ranges computed from them, and the
  default profile from its name to its fastest route.

  \<^bold>\<open>Queues and trees of the preparation and the import.\<close> ContractionHeaps is \<^verbatim>\<open>int_float_binary_heap.go\<close> and
  \<^verbatim>\<open>min_heap_with_update.go\<close>; ContractionQueues, UpdateHeap and HeapFacts refine them to a multiset and a map over the
  locale \<open>priority_queue\<close>. LongLongBTree is \<^verbatim>\<open>core/coll/gh_long_long_btree.go\<close>; BTreeEntries, BTreeInsert, BTreeMap,
  BTreePut and BTreeFacts refine it to a map, the interface \<open>long_long_map\<close>.

  \<^bold>\<open>Import.\<close> ReaderElements, OsmNodeData and WaySegments are \<^verbatim>\<open>core/reader\<close>, \<^verbatim>\<open>osm_node_data.go\<close> and
  \<^verbatim>\<open>way_segment_parser.go\<close>. A node of an accepted way is first a type in the B-tree; its coordinates make it a tower
  node (an index of the node access, stored as a number below -2) or a pillar node (an index of the pillar data access,
  above 2); the second pass cuts ways at towers, at loops and at barriers. OsmStores and OsmFacts prove the invariant of
  the node data and that turning a pillar into a tower keeps its coordinates; WayFacts and ImportedWays that the pieces
  of a way make up its steps. These proofs are for data without elevation and for ways without barriers; the definitions
  cover both.

  \<^bold>\<open>Tags and encoded values of ways.\<close> AccessParsers and SpeedParsers are the parsers of \<^verbatim>\<open>core/routing/parsers\<close> that read
  from the tags of a way who may use it and how fast; EncodingManager is the builder that lays out the encoded values,
  the look-up by name and the filters of edges. CarTags states the
  rules for cars on the tags of a way on their own and proves that the parser follows them, CarAccess which flags it
  leaves on a stored edge.

  \<^bold>\<open>Loops and bounds.\<close> Loops over slices are structural recursions. The parser of conditions has fuel of six levels for
  every character, which \<open>parser_ends\<close> proves enough; the loop over the nodes of turn costs has fuel for every node; the
  runs of the searches and the percolation in the heap with a sentinel are \<open>partial_function\<close>s, and that they return is
  proved. Each traversal id enters the tree once per improvement, and the finished ones bound the run.

  \<^bold>\<open>Arguments.\<close> What is not under \<^verbatim>\<open>src/\<close> or reads the outside is an argument: the clock of a search, the distance
  calculation of the beeline approximator, the contents of custom model files, the map of files of the storage, pattern
  matching of directory names, and the filters, the elevation, the way preprocessor and the edge handler of the import.

  \<^bold>\<open>Not modelled.\<close> The preparation of contraction hierarchies beyond its heaps, the bidirectional searches, virtual edges of
  query graphs, the location index, the reader of PBF files, instructions and translations,
  and the web layer with its configuration: they are further layers on the modelled ones, or read and write formats
  outside the program. Memory-mapped files, locking, logging, printing and debug output have no behaviour that the
  models could show.
\<close>

end
